(* ===== verification/Prelude.thy ===== *)
theory Prelude
  imports Main "HOL-Library.Word"
begin

text \<open>
  Shared vocabulary of the development: Rust's unsigned 64-bit arithmetic on \<^typ>\<open>nat\<close>
  (saturating, wrapping and checked forms), bounds-checked slices and in-place copies on
  byte buffers, and the little and big endian integer readers of
  \<^verbatim>\<open>crates/reclaim-block/src/container/mod.rs\<close>.

  A value of type u32, u64 or usize is a \<^typ>\<open>nat\<close>; an operation of the source that can
  leave the range is written with the operator that says what the release build does there.
  Plain \<open>+\<close> and \<open>*\<close> are used where the operands are offsets into a buffer in memory, whose
  length is below \<open>2 ^ 63\<close>, and \<open>-\<close> where the code has checked the order of its operands.
\<close>

unbundle bit_operations_syntax

named_theorems u64_simps \<open>definitions of the 64-bit arithmetic\<close>
named_theorems slice_simps \<open>facts about bounds-checked slices and copies\<close>

type_synonym byte = "8 word"
type_synonym bytes = "8 word list"

section \<open>Unsigned 64-bit arithmetic\<close>

abbreviation u64_max :: nat where
  "u64_max \<equiv> 18446744073709551615"

abbreviation u64_size :: nat where
  "u64_size \<equiv> 18446744073709551616"

definition sat_add64 :: "nat \<Rightarrow> nat \<Rightarrow> nat" where
  "sat_add64 a b = min (a + b) u64_max"

definition sat_mul64 :: "nat \<Rightarrow> nat \<Rightarrow> nat" where
  "sat_mul64 a b = min (a * b) u64_max"

definition wadd64 :: "nat \<Rightarrow> nat \<Rightarrow> nat" where
  "wadd64 a b = (a + b) mod u64_size"

definition wmul64 :: "nat \<Rightarrow> nat \<Rightarrow> nat" where
  "wmul64 a b = (a * b) mod u64_size"

definition wsub64 :: "nat \<Rightarrow> nat \<Rightarrow> nat" where
  "wsub64 a b = (a + (u64_size - b)) mod u64_size"

definition checked_add64 :: "nat \<Rightarrow> nat \<Rightarrow> nat option" where
  "checked_add64 a b = (if a + b \<le> u64_max then Some (a + b) else None)"

definition checked_mul64 :: "nat \<Rightarrow> nat \<Rightarrow> nat option" where
  "checked_mul64 a b = (if a * b \<le> u64_max then Some (a * b) else None)"

definition div_ceil :: "nat \<Rightarrow> nat \<Rightarrow> nat" where
  "div_ceil a b = (if a mod b = 0 then a div b else a div b + 1)"

lemma sat_add64_exact [u64_simps]: "a + b \<le> u64_max \<Longrightarrow> sat_add64 a b = a + b"
  by (simp add: sat_add64_def)

lemma sat_mul64_exact [u64_simps]: "a * b \<le> u64_max \<Longrightarrow> sat_mul64 a b = a * b"
  by (simp add: sat_mul64_def)

lemma wadd64_exact [u64_simps]: "a + b \<le> u64_max \<Longrightarrow> wadd64 a b = a + b"
  by (simp add: wadd64_def)

lemma wmul64_exact [u64_simps]: "a * b \<le> u64_max \<Longrightarrow> wmul64 a b = a * b"
  by (simp add: wmul64_def)

lemma wsub64_exact [u64_simps]: "b \<le> a \<Longrightarrow> a \<le> u64_max \<Longrightarrow> wsub64 a b = a - b"
proof -
  assume "b \<le> a" "a \<le> u64_max"
  then have "a + (u64_size - b) = (a - b) + u64_size" by simp
  then show ?thesis using \<open>a \<le> u64_max\<close> unfolding wsub64_def by (simp only: mod_add_self2) simp
qed

lemma max_one [simp]: "0 < n \<Longrightarrow> max n (Suc 0) = n"
  by simp

lemma sat_add64_le [simp]: "sat_add64 a b \<le> u64_max"
  by (simp add: sat_add64_def)

lemma sat_mul64_le [simp]: "sat_mul64 a b \<le> u64_max"
  by (simp add: sat_mul64_def)

lemma sat_add64_0 [simp]: "a \<le> u64_max \<Longrightarrow> sat_add64 a 0 = a"
  by (simp add: sat_add64_def)

lemma div_ceil_0 [simp]: "div_ceil 0 b = 0"
  by (simp add: div_ceil_def)

lemma less_div_iff: "0 < b \<Longrightarrow> i < a div b \<longleftrightarrow> Suc i * b \<le> (a::nat)"
  by (simp add: less_eq_div_iff_mult_less_eq Suc_le_eq [symmetric])

lemma less_div_ceil: "0 < b \<Longrightarrow> i < div_ceil a b \<longleftrightarrow> i * b < a"
proof -
  assume b: "0 < b"
  define q r where "q = a div b" and "r = a mod b"
  have a: "a = q * b + r" by (simp add: q_def r_def)
  have r: "r < b" using b by (simp add: r_def)
  consider "i < q" | "i = q" | "q < i" by linarith
  then have "i * b < a \<longleftrightarrow> i < q \<or> (i = q \<and> 0 < r)"
  proof cases
    case 1
    then have "Suc i * b \<le> q * b" by (meson Suc_leI mult_le_mono1)
    then show ?thesis using 1 a b by simp
  next
    case 2
    then show ?thesis using a by simp
  next
    case 3
    then have "Suc q * b \<le> i * b" by (meson Suc_leI mult_le_mono1)
    then show ?thesis using 3 a r by simp
  qed
  then show ?thesis by (auto simp: div_ceil_def q_def r_def)
qed

lemma div_ceil_lower: "0 < b \<Longrightarrow> a \<le> div_ceil a b * b"
  using less_div_ceil [of b "div_ceil a b" a] by auto

lemma div_less_div_ceil: "0 < b \<Longrightarrow> j < a \<Longrightarrow> j div b < div_ceil a b"
  by (simp add: less_div_ceil le_less_trans [of "j div b * b" j a])

lemma div_ceil_mult_le:
  assumes "0 < b" "c mod b = 0" "a \<le> (c :: nat)"
  shows "div_ceil a b * b \<le> c"
proof (rule ccontr)
  assume "\<not> div_ceil a b * b \<le> c"
  then have "c div b * b < div_ceil a b * b" using assms(2) by (simp add: minus_mod_eq_div_mult [symmetric])
  then have "c div b < div_ceil a b" using assms(1) by simp
  then have "c div b * b < a" using assms(1) by (simp add: less_div_ceil)
  then show False using assms(2,3) by (simp add: minus_mod_eq_div_mult [symmetric])
qed

section \<open>Slices and buffers\<close>

text \<open>\<open>get_slice xs a b\<close> is Rust's \<^verbatim>\<open>xs.get(a..b)\<close>: \<^const>\<open>None\<close> unless
  \<open>a \<le> b \<le> len\<close>. \<open>get_at\<close> is \<^verbatim>\<open>xs.get(i)\<close>.\<close>

definition get_slice :: "'a list \<Rightarrow> nat \<Rightarrow> nat \<Rightarrow> 'a list option" where
  "get_slice xs a b = (if a \<le> b \<and> b \<le> length xs then Some (take (b - a) (drop a xs)) else None)"

definition get_at :: "'a list \<Rightarrow> nat \<Rightarrow> 'a option" where
  "get_at xs i = (if i < length xs then Some (xs ! i) else None)"

text \<open>\<open>blit dst at src\<close> is \<^verbatim>\<open>dst[at..at + src.len()].copy_from_slice(src)\<close>, used where the
  code has checked that the range lies inside \<open>dst\<close>; \<open>blit_checked\<close> is the form
  \<^verbatim>\<open>if let Some(d) = dst.get_mut(..) { d.copy_from_slice(src) }\<close>.\<close>

definition blit :: "'a list \<Rightarrow> nat \<Rightarrow> 'a list \<Rightarrow> 'a list" where
  "blit dst at src = take at dst @ src @ drop (at + length src) dst"

definition blit_checked :: "'a list \<Rightarrow> nat \<Rightarrow> 'a list \<Rightarrow> 'a list" where
  "blit_checked dst at src = (if at + length src \<le> length dst then blit dst at src else dst)"

abbreviation zeros :: "nat \<Rightarrow> bytes" where
  "zeros n \<equiv> replicate n 0"

lemma get_slice_Some [slice_simps]:
  "get_slice xs a b = Some ys \<longleftrightarrow> a \<le> b \<and> b \<le> length xs \<and> ys = take (b - a) (drop a xs)"
  by (auto simp: get_slice_def)

lemma get_slice_None [slice_simps]: "get_slice xs a b = None \<longleftrightarrow> \<not> (a \<le> b \<and> b \<le> length xs)"
  by (auto simp: get_slice_def)

lemma get_slice_within: "a \<le> b \<Longrightarrow> b \<le> length xs \<Longrightarrow> get_slice xs a b = Some (take (b - a) (drop a xs))"
  by (simp add: get_slice_def)

lemma length_get_slice: "get_slice xs a b = Some ys \<Longrightarrow> length ys = b - a"
  by (auto simp: get_slice_Some)

lemma nth_get_slice: "get_slice xs a b = Some ys \<Longrightarrow> i < b - a \<Longrightarrow> ys ! i = xs ! (a + i)"
  by (auto simp: get_slice_Some)

lemma get_at_Some [slice_simps]: "get_at xs i = Some x \<longleftrightarrow> i < length xs \<and> x = xs ! i"
  by (auto simp: get_at_def)

lemma get_at_None [slice_simps]: "get_at xs i = None \<longleftrightarrow> length xs \<le> i"
  by (auto simp: get_at_def)

lemma length_blit [simp]: "at + length src \<le> length dst \<Longrightarrow> length (blit dst at src) = length dst"
  by (simp add: blit_def)

lemma length_blit_checked [simp]: "length (blit_checked dst at src) = length dst"
  by (simp add: blit_checked_def)

lemma nth_blit:
  assumes "at + length src \<le> length dst" "i < length dst"
  shows "blit dst at src ! i
    = (if at \<le> i \<and> i < at + length src then src ! (i - at) else dst ! i)"
  using assms by (auto simp: blit_def nth_append min_def)

lemma nth_blit_checked:
  assumes "i < length dst"
  shows "blit_checked dst at src ! i
    = (if at + length src \<le> length dst \<and> at \<le> i \<and> i < at + length src then src ! (i - at) else dst ! i)"
  using assms by (simp add: blit_checked_def nth_blit)

lemma blit_Nil [simp]: "at \<le> length dst \<Longrightarrow> blit dst at [] = dst"
  by (simp add: blit_def)

lemma blit_whole [simp]: "length src = length dst \<Longrightarrow> blit dst 0 src = src"
  by (simp add: blit_def)

lemma blit_adjacent:
  "at + length a + length b \<le> length dst \<Longrightarrow> blit (blit dst at a) (at + length a) b = blit dst at (a @ b)"
  by (rule nth_equalityI) (auto simp: nth_blit nth_append)

lemma nth_piece:
  assumes "a \<le> j" "j - a < n" "off + j < length xs"
  shows "take n (drop (off + a) xs) ! (j - a) = xs ! (off + j)"
proof -
  have "off + a + (j - a) = off + j" using assms(1) by simp
  then show ?thesis using assms by simp
qed

text \<open>Copying a slice over the start of a fresh buffer.\<close>

lemma length_copy_prefix:
  "length (case get_slice b i (i + c) of Some s \<Rightarrow> if c \<le> n then blit (zeros n) 0 s else zeros n | None \<Rightarrow> zeros n) = n"
  by (auto dest: length_get_slice split: option.split)

text \<open>\<open>zero_range b s e\<close> is \<^verbatim>\<open>if let Some(d) = b.get_mut(s..e) { d.fill(0) }\<close>.\<close>

definition zero_range :: "bytes \<Rightarrow> nat \<Rightarrow> nat \<Rightarrow> bytes" where
  "zero_range b s e = blit_checked b s (zeros (e - s))"

lemma length_zero_range [simp]: "length (zero_range b s e) = length b"
  by (simp add: zero_range_def)

lemma nth_zero_range:
  "e \<le> length b \<Longrightarrow> j < length b \<Longrightarrow> zero_range b s e ! j = (if s \<le> j \<and> j < e then 0 else b ! j)"
  by (auto simp: zero_range_def nth_blit_checked)

section \<open>Decimal rendering\<close>

text \<open>\<^verbatim>\<open>format!("{}", n)\<close> of an unsigned integer.\<close>

fun show_nat :: "nat \<Rightarrow> string" where
  "show_nat n = (if n < 10 then [char_of (48 + n)] else show_nat (n div 10) @ [char_of (48 + n mod 10)])"

declare show_nat.simps [simp del]

section \<open>Splitting\<close>

text \<open>\<^verbatim>\<open>s.split(p)\<close>: the pieces between the separators, empty ones included.\<close>

fun split_by :: "('a \<Rightarrow> bool) \<Rightarrow> 'a list \<Rightarrow> 'a list list" where
  "split_by P [] = [[]]"
| "split_by P (x # xs) =
     (if P x then [] # split_by P xs
      else case split_by P xs of [] \<Rightarrow> [[x]] | p # ps \<Rightarrow> (x # p) # ps)"

lemma split_by_nonempty [simp]: "split_by P xs \<noteq> []"
  by (induction xs) (auto split: list.split)

lemma split_by_sep: "P c \<Longrightarrow> split_by P (xs @ c # ys) = split_by P xs @ split_by P ys"
proof (induction xs)
  case (Cons x xs)
  then show ?case by (cases "split_by P xs") auto
qed simp

lemma split_by_pieces: "\<forall>p \<in> set (split_by P xs). \<forall>c \<in> set p. \<not> P c \<and> c \<in> set xs"
proof (induction xs)
  case (Cons x xs)
  then show ?case by (cases "split_by P xs") auto
qed simp

lemma split_by_none: "\<forall>c \<in> set xs. \<not> P c \<Longrightarrow> split_by P xs = [xs]"
  by (induction xs) auto

section \<open>Folding a loop body over an index range\<close>

text \<open>A loop \<^verbatim>\<open>for i in 0..n\<close> is a fold over \<open>[0..<n]\<close>; an invariant indexed by the number of
  completed iterations carries over the loop.\<close>

lemma fold_upt_invariant:
  assumes "I 0 s" and "\<And>i s. i < n \<Longrightarrow> I i s \<Longrightarrow> I (Suc i) (f i s)"
  shows "I n (fold f [0..<n] s)"
  using assms
proof (induction n)
  case 0
  then show ?case by simp
next
  case (Suc n)
  then have "I n (fold f [0..<n] s)" by simp
  then show ?case using Suc.prems(2) by simp
qed

end
