(* ===== verification/Bits.thy ===== *)
theory Bits
  imports Prelude
begin

text \<open>
  The fixed-length bitset of \<^verbatim>\<open>crates/reclaim-block/src/bitset.rs\<close>: one bit per sector, packed
  in 64-bit words. The interface \<open>flag_set\<close> is what the read results promise their clients;
  the packed representation is proved to provide it.
\<close>

section \<open>The interface\<close>

locale flag_set =
  fixes new :: "nat \<Rightarrow> 's"
    and size_of :: "'s \<Rightarrow> nat"
    and put :: "'s \<Rightarrow> nat \<Rightarrow> 's"
    and look :: "'s \<Rightarrow> nat \<Rightarrow> bool"
    and inv :: "'s \<Rightarrow> bool"
  assumes inv_new [simp]: "inv (new n)"
    and size_new [simp]: "size_of (new n) = n"
    and look_new [simp]: "\<not> look (new n) i"
    and inv_put [simp]: "inv s \<Longrightarrow> inv (put s i)"
    and size_put [simp]: "inv s \<Longrightarrow> size_of (put s i) = size_of s"
    and look_put: "inv s \<Longrightarrow> look (put s i) j \<longleftrightarrow> (j = i \<and> i < size_of s) \<or> look s j"
    and look_range: "look s i \<Longrightarrow> i < size_of s"
begin

lemma inv_put_all: "inv s \<Longrightarrow> inv (fold (\<lambda>i s. put s i) is s)"
  by (induction "is" arbitrary: s) simp_all

lemma size_put_all: "inv s \<Longrightarrow> size_of (fold (\<lambda>i s. put s i) is s) = size_of s"
  by (induction "is" arbitrary: s) simp_all

lemma look_put_all:
  "inv s \<Longrightarrow> look (fold (\<lambda>i s. put s i) is s) j \<longleftrightarrow> (j \<in> set is \<and> j < size_of s) \<or> look s j"
  by (induction "is" arbitrary: s) (auto simp: look_put)

lemma put_commute_look:
  "inv s \<Longrightarrow> look (put (put s i) k) j \<longleftrightarrow> look (put (put s k) i) j"
  by (auto simp: look_put)

end

section \<open>The packed representation\<close>

record bitset =
  bits :: nat
  words :: "64 word list"

definition bitset_new :: "nat \<Rightarrow> bitset" where
  "bitset_new n = \<lparr>bits = n, words = replicate (div_ceil n 64) 0\<rparr>"

definition bitset_set :: "bitset \<Rightarrow> nat \<Rightarrow> bitset" where
  "bitset_set b i =
     (if bits b \<le> i then b
      else case get_at (words b) (i div 64) of
        None \<Rightarrow> b
      | Some w \<Rightarrow> b\<lparr>words := (words b)[i div 64 := w OR push_bit (i mod 64) 1]\<rparr>)"

definition bitset_get :: "bitset \<Rightarrow> nat \<Rightarrow> bool" where
  "bitset_get b i =
     (if bits b \<le> i then False
      else case get_at (words b) (i div 64) of
        None \<Rightarrow> False
      | Some w \<Rightarrow> w AND push_bit (i mod 64) 1 \<noteq> 0)"

definition bitset_any :: "bitset \<Rightarrow> bool" where
  "bitset_any b = list_ex (\<lambda>w. w \<noteq> 0) (words b)"

text \<open>\<^verbatim>\<open>u64::count_ones\<close>.\<close>

definition count_ones64 :: "64 word \<Rightarrow> nat" where
  "count_ones64 w = length (filter (\<lambda>k. bit w k) [0..<64])"

definition bitset_count_ones :: "bitset \<Rightarrow> nat" where
  "bitset_count_ones b = sum_list (map count_ones64 (words b))"

definition bitset_iter_set :: "bitset \<Rightarrow> nat list" where
  "bitset_iter_set b = filter (bitset_get b) [0..<bits b]"

text \<open>Representation invariant: exactly as many words as the bits need, and no bit set beyond
  the declared length (the constructor and the setter keep it; the counters rely on it).\<close>

definition bitset_wf :: "bitset \<Rightarrow> bool" where
  "bitset_wf b \<longleftrightarrow> length (words b) = div_ceil (bits b) 64 \<and>
     (\<forall>k < length (words b). \<forall>m < 64. bit (words b ! k) m \<longrightarrow> 64 * k + m < bits b)"

lemma and_exp_nonzero: "(w :: 64 word) AND 2 ^ m \<noteq> 0 \<longleftrightarrow> m < 64 \<and> bit w m"
proof
  assume "w AND 2 ^ m \<noteq> 0"
  then obtain k where "bit (w AND 2 ^ m) k" by (auto simp: bit_eq_iff)
  then show "m < 64 \<and> bit w m" by (auto simp: bit_and_iff bit_exp_iff)
next
  assume "m < 64 \<and> bit w m"
  then have "bit (w AND 2 ^ m) m" by (simp add: bit_and_iff bit_exp_iff)
  then show "w AND 2 ^ m \<noteq> 0" by (metis bit_0_eq bot_apply bot_bool_def)
qed

lemma bitset_get_iff:
  "bitset_get b i \<longleftrightarrow> i < bits b \<and> i div 64 < length (words b) \<and> bit (words b ! (i div 64)) (i mod 64)"
  by (auto simp: bitset_get_def get_at_def and_exp_nonzero)

lemma bitset_get_range: "bitset_get b i \<Longrightarrow> i < bits b"
  by (simp add: bitset_get_iff)

lemma bits_set [simp]: "bits (bitset_set b i) = bits b"
  by (simp add: bitset_set_def split: option.split)

lemma length_words_set [simp]: "length (words (bitset_set b i)) = length (words b)"
  by (simp add: bitset_set_def split: option.split)

lemma bitset_wf_new [simp]: "bitset_wf (bitset_new n)"
  by (simp add: bitset_wf_def bitset_new_def)

lemma bits_new [simp]: "bits (bitset_new n) = n"
  by (simp add: bitset_new_def)

lemma bitset_get_new [simp]: "\<not> bitset_get (bitset_new n) i"
  by (simp add: bitset_get_iff bitset_new_def)

lemma word_index: "length (words b) = div_ceil (bits b) 64 \<Longrightarrow> i < bits b \<Longrightarrow> i div 64 < length (words b)"
  by (simp add: div_less_div_ceil)

lemma bit_words_set:
  assumes "length (words b) = div_ceil (bits b) 64" "k < length (words b)" "m < 64"
  shows "bit (words (bitset_set b i) ! k) m \<longleftrightarrow> (i < bits b \<and> 64 * k + m = i) \<or> bit (words b ! k) m"
proof (cases "i < bits b")
  case True
  then have "i div 64 < length (words b)" using word_index [OF assms(1)] by blast
  moreover have "64 * k + m = i \<longleftrightarrow> k = i div 64 \<and> m = i mod 64" using assms(3) by auto
  ultimately show ?thesis using True assms(2,3)
    by (auto simp: bitset_set_def get_at_def nth_list_update bit_or_iff bit_exp_iff)
next
  case False
  then show ?thesis by (simp add: bitset_set_def)
qed

lemma bitset_wf_set [simp]: "bitset_wf b \<Longrightarrow> bitset_wf (bitset_set b i)"
  by (auto simp: bitset_wf_def bit_words_set)

lemma bitset_get_set:
  assumes "bitset_wf b"
  shows "bitset_get (bitset_set b i) j \<longleftrightarrow> (j = i \<and> i < bits b) \<or> bitset_get b j"
proof (cases "j < bits b")
  case True
  have len: "length (words b) = div_ceil (bits b) 64" using assms by (simp add: bitset_wf_def)
  have "j div 64 < length (words b)" using word_index [OF len True] .
  moreover have "64 * (j div 64) + j mod 64 = j" by simp
  ultimately show ?thesis using True bit_words_set [OF len, of "j div 64" "j mod 64" i]
    by (auto simp: bitset_get_iff)
next
  case False
  then show ?thesis by (auto simp: bitset_get_iff)
qed

interpretation bs: flag_set bitset_new bits bitset_set bitset_get bitset_wf
  by unfold_locales (auto simp: bitset_get_set bitset_get_range)

section \<open>The counters\<close>

lemma word64_nonzero_iff: "(w :: 64 word) \<noteq> 0 \<longleftrightarrow> (\<exists>m < 64. bit w m)"
proof
  assume "w \<noteq> 0"
  then obtain m where m: "bit w m" by (auto simp: bit_eq_iff)
  then have "m < 64" using bit_imp_le_length [OF m] by simp
  with m show "\<exists>m < 64. bit w m" by blast
qed auto

lemma bitset_get_split:
  assumes "bitset_wf b" "k < length (words b)" "m < 64"
  shows "bitset_get b (k * 64 + m) \<longleftrightarrow> bit (words b ! k) m"
  using assms by (auto simp: bitset_get_iff bitset_wf_def mult.commute)

lemma bitset_any_iff: "bitset_wf b \<Longrightarrow> bitset_any b \<longleftrightarrow> (\<exists>i. bitset_get b i)"
proof
  assume wf: "bitset_wf b" and "bitset_any b"
  then obtain k m where "k < length (words b)" "m < 64" "bit (words b ! k) m"
    by (auto simp: bitset_any_def list_ex_iff in_set_conv_nth word64_nonzero_iff)
  then show "\<exists>i. bitset_get b i" using bitset_get_split [OF wf] by blast
next
  assume "\<exists>i. bitset_get b i"
  then obtain i where "i div 64 < length (words b)" "bit (words b ! (i div 64)) (i mod 64)"
    by (auto simp: bitset_get_iff)
  then show "bitset_any b"
    by (force simp: bitset_any_def list_ex_iff word64_nonzero_iff)
qed

lemma filter_upt_blocks:
  assumes "0 < m"
  shows "length (filter (\<lambda>i. P (i div m) (i mod m)) [0..<n * m])
    = sum_list (map (\<lambda>k. length (filter (P k) [0..<m])) [0..<n])"
proof (induction n)
  case 0
  then show ?case by simp
next
  case (Suc n)
  have split: "[0..<Suc n * m] = [0..<n * m] @ map (\<lambda>j. j + n * m) [0..<m]"
    using upt_add_eq_append [of 0 "n * m" m] by (simp add: map_add_upt add.commute)
  have "filter (\<lambda>i. P (i div m) (i mod m)) (map (\<lambda>j. j + n * m) [0..<m])
      = map (\<lambda>j. j + n * m) (filter (P n) [0..<m])"
    unfolding filter_map using assms by (auto intro!: arg_cong [of _ _ "map _"] filter_cong)
  then show ?case using Suc.IH
    by (simp only: split filter_append length_append length_map) simp
qed

lemma bitset_count_ones_eq:
  assumes "bitset_wf b"
  shows "bitset_count_ones b = length (bitset_iter_set b)"
proof -
  let ?n = "length (words b)"
  have le: "bits b \<le> ?n * 64" using assms div_ceil_lower [of 64 "bits b"] by (simp add: bitset_wf_def)
  have "bitset_count_ones b = sum_list (map (\<lambda>k. length (filter (bit (words b ! k)) [0..<64])) [0..<?n])"
    unfolding bitset_count_ones_def count_ones64_def [abs_def]
    by (subst map_nth [of "words b", symmetric]) (simp only: map_map comp_def)
  also have "\<dots> = length (filter (\<lambda>i. bit (words b ! (i div 64)) (i mod 64)) [0..<?n * 64])"
    by (simp add: filter_upt_blocks [symmetric])
  also have "\<dots> = length (filter (bitset_get b) [0..<?n * 64])"
    using bitset_get_split [OF assms]
    by (intro arg_cong [of _ _ length] filter_cong refl)
      (metis atLeastLessThan_iff div_mult_mod_eq less_mult_imp_div_less mod_less_divisor set_upt zero_less_numeral)
  also have "[0..<?n * 64] = [0..<bits b] @ [bits b..<?n * 64]"
    using upt_add_eq_append [of 0 "bits b" "?n * 64 - bits b"] le by simp
  also have "filter (bitset_get b) ([0..<bits b] @ [bits b..<?n * 64]) = bitset_iter_set b"
    by (simp add: bitset_iter_set_def filter_empty_conv bitset_get_iff)
  finally show ?thesis .
qed

lemma set_bitset_iter_set: "set (bitset_iter_set b) = {i. bitset_get b i}"
  by (auto simp: bitset_iter_set_def bitset_get_range)

lemma sorted_bitset_iter_set: "sorted (bitset_iter_set b)"
  by (simp add: bitset_iter_set_def sorted_wrt_filter)

lemma distinct_bitset_iter_set: "distinct (bitset_iter_set b)"
  by (simp add: bitset_iter_set_def)

end
