(* ===== verification/Bytes.thy ===== *)
theory Bytes
  imports Prelude
begin

text \<open>
  Bounds-checked integer readers over untrusted bytes
  (\<^verbatim>\<open>crates/reclaim-block/src/container/mod.rs\<close>, \<^verbatim>\<open>be_u32\<close> to \<^verbatim>\<open>le_u64\<close>). Every read is
  \<^const>\<open>None\<close> when the field does not lie inside the buffer.
\<close>

section \<open>Values of byte strings\<close>

fun le_val :: "bytes \<Rightarrow> nat" where
  "le_val [] = 0"
| "le_val (b # bs) = unat b + 256 * le_val bs"

definition be_val :: "bytes \<Rightarrow> nat" where
  "be_val bs = le_val (rev bs)"

fun le_bytes :: "nat \<Rightarrow> nat \<Rightarrow> bytes" where
  "le_bytes 0 x = []"
| "le_bytes (Suc n) x = of_nat (x mod 256) # le_bytes n (x div 256)"

definition be_bytes :: "nat \<Rightarrow> nat \<Rightarrow> bytes" where
  "be_bytes n x = rev (le_bytes n x)"

lemma unat_byte_less: "unat (b :: byte) < 256"
  using unsigned_less [of b] by simp

lemma le_val_bound: "le_val bs < 256 ^ length bs"
proof (induction bs)
  case Nil
  then show ?case by simp
next
  case (Cons b bs)
  have "unat b + 256 * le_val bs < 256 + 256 * le_val bs" using unat_byte_less [of b] by simp
  also have "\<dots> = 256 * (le_val bs + 1)" by simp
  also have "\<dots> \<le> 256 * 256 ^ length bs"
    using Cons.IH by (intro mult_le_mono2) simp
  finally show ?case by simp
qed

lemma be_val_bound: "be_val bs < 256 ^ length bs"
  using le_val_bound [of "rev bs"] by (simp add: be_val_def)

lemma length_le_bytes [simp]: "length (le_bytes n x) = n"
  by (induction n arbitrary: x) simp_all

lemma length_be_bytes [simp]: "length (be_bytes n x) = n"
  by (simp add: be_bytes_def)

lemma unat_of_nat_byte: "x < 256 \<Longrightarrow> unat (of_nat x :: byte) = x"
  by (simp add: unat_of_nat)

lemma le_val_inj: "length u = length v \<Longrightarrow> le_val u = le_val v \<Longrightarrow> u = v"
proof (induction u v rule: list_induct2)
  case (Cons b u d v)
  have eq: "unat b + 256 * le_val u = unat d + 256 * le_val v" using Cons.prems by simp
  then have "(unat b + 256 * le_val u) mod 256 = (unat d + 256 * le_val v) mod 256" by (simp only: eq)
  then have "unat b = unat d" using unat_byte_less [of b] unat_byte_less [of d] by simp
  then have "unat b = unat d \<and> le_val u = le_val v" using eq by simp
  then show ?case using Cons.IH by (simp add: word_unat_eq_iff)
qed simp

lemma le_val_le_bytes: "x < 256 ^ n \<Longrightarrow> le_val (le_bytes n x) = x"
proof (induction n arbitrary: x)
  case 0
  then show ?case by simp
next
  case (Suc n)
  have "x div 256 < 256 ^ n" using Suc.prems by (simp add: less_mult_imp_div_less mult.commute)
  then have "le_val (le_bytes n (x div 256)) = x div 256" by (rule Suc.IH)
  then show ?case by (simp add: unat_of_nat_byte)
qed

lemma be_val_be_bytes: "x < 256 ^ n \<Longrightarrow> be_val (be_bytes n x) = x"
  by (simp add: be_val_def be_bytes_def le_val_le_bytes)

section \<open>The readers\<close>

definition be_u32 :: "bytes \<Rightarrow> nat \<Rightarrow> nat option" where
  "be_u32 b off = map_option be_val (get_slice b off (off + 4))"

definition be_u64 :: "bytes \<Rightarrow> nat \<Rightarrow> nat option" where
  "be_u64 b off = map_option be_val (get_slice b off (off + 8))"

definition le_u16 :: "bytes \<Rightarrow> nat \<Rightarrow> nat option" where
  "le_u16 b off = map_option le_val (get_slice b off (off + 2))"

definition le_u32 :: "bytes \<Rightarrow> nat \<Rightarrow> nat option" where
  "le_u32 b off = map_option le_val (get_slice b off (off + 4))"

definition le_u64 :: "bytes \<Rightarrow> nat \<Rightarrow> nat option" where
  "le_u64 b off = map_option le_val (get_slice b off (off + 8))"

lemmas reader_defs = be_u32_def be_u64_def le_u16_def le_u32_def le_u64_def

definition unwrap_or :: "'a option \<Rightarrow> 'a \<Rightarrow> 'a" where
  "unwrap_or x d = (case x of None \<Rightarrow> d | Some v \<Rightarrow> v)"

lemma unwrap_or_simps [simp]: "unwrap_or None d = d" "unwrap_or (Some v) d = v"
  by (simp_all add: unwrap_or_def)

lemma le_val_slice_bound: "get_slice b i j = Some s \<Longrightarrow> le_val s < 256 ^ (j - i)"
  using le_val_bound [of s] length_get_slice by metis

lemma be_val_slice_bound: "get_slice b i j = Some s \<Longrightarrow> be_val s < 256 ^ (j - i)"
  using be_val_bound [of s] length_get_slice by metis

lemma be_u32_bound: "be_u32 b off = Some v \<Longrightarrow> v < 4294967296"
  by (auto simp: be_u32_def dest!: be_val_slice_bound)

lemma be_u64_bound: "be_u64 b off = Some v \<Longrightarrow> v \<le> u64_max"
  by (auto simp: be_u64_def dest!: be_val_slice_bound)

lemma le_u16_bound: "le_u16 b off = Some v \<Longrightarrow> v < 65536"
  by (auto simp: le_u16_def dest!: le_val_slice_bound)

lemma le_u32_bound: "le_u32 b off = Some v \<Longrightarrow> v < 4294967296"
  by (auto simp: le_u32_def dest!: le_val_slice_bound)

lemma le_u64_bound: "le_u64 b off = Some v \<Longrightarrow> v \<le> u64_max"
  by (auto simp: le_u64_def dest!: le_val_slice_bound)

lemma reader_None_iff:
  "be_u32 b off = None \<longleftrightarrow> length b < off + 4"
  "be_u64 b off = None \<longleftrightarrow> length b < off + 8"
  "le_u16 b off = None \<longleftrightarrow> length b < off + 2"
  "le_u32 b off = None \<longleftrightarrow> length b < off + 4"
  "le_u64 b off = None \<longleftrightarrow> length b < off + 8"
  by (auto simp: reader_defs get_slice_None)

end
