(* ===== verification/Source.thy ===== *)
theory Source
  imports Bits Bytes
begin

text \<open>
  The block layer's central abstraction (\<^verbatim>\<open>crates/reclaim-block/src/source.rs\<close> and
  \<^verbatim>\<open>error.rs\<close>): read results with their per-sector status, the \<^verbatim>\<open>BlockSource\<close> trait as a
  record of its methods, and the contract every source keeps as the locales \<open>block_source\<close>
  (what every read promises, errors included) and \<open>sector_source\<close> (a source whose sectors
  have one content and one status, whatever request reads them).
\<close>

section \<open>Sector status and read results\<close>

datatype sector_status = Good | Bad | Unread

record read_result =
  rr_sector_size :: nat
  rr_sector_count :: nat
  rr_bad :: bitset
  rr_unread :: bitset

definition rr_good :: "nat \<Rightarrow> nat \<Rightarrow> read_result" where
  "rr_good sector_size sector_count =
     \<lparr>rr_sector_size = sector_size, rr_sector_count = sector_count,
      rr_bad = bitset_new sector_count, rr_unread = bitset_new sector_count\<rparr>"

definition rr_mark_bad :: "read_result \<Rightarrow> nat \<Rightarrow> read_result" where
  "rr_mark_bad r i = r\<lparr>rr_bad := bitset_set (rr_bad r) i\<rparr>"

definition rr_mark_unread :: "read_result \<Rightarrow> nat \<Rightarrow> read_result" where
  "rr_mark_unread r i = r\<lparr>rr_unread := bitset_set (rr_unread r) i\<rparr>"

definition rr_status :: "read_result \<Rightarrow> nat \<Rightarrow> sector_status" where
  "rr_status r i =
     (if bitset_get (rr_bad r) i then Bad
      else if bitset_get (rr_unread r) i then Unread
      else Good)"

definition rr_all_good :: "read_result \<Rightarrow> bool" where
  "rr_all_good r \<longleftrightarrow> \<not> bitset_any (rr_bad r) \<and> \<not> bitset_any (rr_unread r)"

definition rr_any_bad :: "read_result \<Rightarrow> bool" where
  "rr_any_bad r \<longleftrightarrow> bitset_any (rr_bad r)"

definition rr_any_unread :: "read_result \<Rightarrow> bool" where
  "rr_any_unread r \<longleftrightarrow> bitset_any (rr_unread r)"

definition rr_bad_count :: "read_result \<Rightarrow> nat" where
  "rr_bad_count r = bitset_count_ones (rr_bad r)"

definition rr_bad_sectors :: "read_result \<Rightarrow> nat list" where
  "rr_bad_sectors r = bitset_iter_set (rr_bad r)"

definition rr_unread_sectors :: "read_result \<Rightarrow> nat list" where
  "rr_unread_sectors r = bitset_iter_set (rr_unread r)"

text \<open>The loops \<^verbatim>\<open>for i in .. { res.mark_bad(i) }\<close> and \<^verbatim>\<open>mark_unread\<close> over a list of
  indices.\<close>

abbreviation mark_bads :: "nat list \<Rightarrow> read_result \<Rightarrow> read_result" where
  "mark_bads is r \<equiv> fold (\<lambda>i r. rr_mark_bad r i) is r"

abbreviation mark_unreads :: "nat list \<Rightarrow> read_result \<Rightarrow> read_result" where
  "mark_unreads is r \<equiv> fold (\<lambda>i r. rr_mark_unread r i) is r"

text \<open>A result shaped for \<open>n\<close> sectors of size \<open>ss\<close>.\<close>

definition rr_shape :: "nat \<Rightarrow> nat \<Rightarrow> read_result \<Rightarrow> bool" where
  "rr_shape ss n r \<longleftrightarrow> rr_sector_size r = ss \<and> rr_sector_count r = n \<and>
     bits (rr_bad r) = n \<and> bits (rr_unread r) = n \<and>
     bitset_wf (rr_bad r) \<and> bitset_wf (rr_unread r)"

named_theorems rr_simps \<open>how the marking operations change the shape and the status\<close>

lemma rr_shape_good [rr_simps]: "rr_shape ss n (rr_good ss n)"
  by (simp add: rr_shape_def rr_good_def)

lemma rr_status_good [rr_simps]: "rr_status (rr_good ss n) i = Good"
  by (simp add: rr_status_def rr_good_def)

lemma rr_shape_mark [rr_simps]:
  "rr_shape ss n r \<Longrightarrow> rr_shape ss n (rr_mark_bad r i)"
  "rr_shape ss n r \<Longrightarrow> rr_shape ss n (rr_mark_unread r i)"
  by (auto simp: rr_shape_def rr_mark_bad_def rr_mark_unread_def)

lemma rr_status_mark_bad:
  "rr_shape ss n r \<Longrightarrow> rr_status (rr_mark_bad r i) j = (if j = i \<and> i < n then Bad else rr_status r j)"
  by (auto simp: rr_shape_def rr_status_def rr_mark_bad_def bs.look_put)

lemma rr_status_mark_unread:
  "rr_shape ss n r \<Longrightarrow> rr_status (rr_mark_unread r i) j
    = (if j = i \<and> i < n \<and> rr_status r j \<noteq> Bad then Unread else rr_status r j)"
  by (auto simp: rr_shape_def rr_status_def rr_mark_unread_def bs.look_put)

lemma rr_shape_marks [rr_simps]:
  "rr_shape ss n r \<Longrightarrow> rr_shape ss n (mark_bads is r)"
  "rr_shape ss n r \<Longrightarrow> rr_shape ss n (mark_unreads is r)"
  by (induction "is" arbitrary: r) (simp_all add: rr_shape_mark)

lemma rr_status_mark_bads:
  "rr_shape ss n r \<Longrightarrow> rr_status (mark_bads is r) j = (if j \<in> set is \<and> j < n then Bad else rr_status r j)"
  by (induction "is" arbitrary: r) (auto simp: rr_status_mark_bad rr_shape_mark)

lemma rr_status_mark_unreads:
  "rr_shape ss n r \<Longrightarrow> rr_status (mark_unreads is r) j
    = (if j \<in> set is \<and> j < n \<and> rr_status r j \<noteq> Bad then Unread else rr_status r j)"
  by (induction "is" arbitrary: r) (auto simp: rr_status_mark_unread rr_shape_mark)

lemma rr_status_out: "rr_shape ss n r \<Longrightarrow> n \<le> j \<Longrightarrow> rr_status r j = Good"
  using bitset_get_range [of "rr_bad r" j] bitset_get_range [of "rr_unread r" j]
  by (auto simp: rr_shape_def rr_status_def)

lemma rr_all_good_iff: "rr_shape ss n r \<Longrightarrow> rr_all_good r \<longleftrightarrow> (\<forall>i. rr_status r i = Good)"
  by (auto simp: rr_shape_def rr_all_good_def rr_status_def bitset_any_iff split: if_splits)

lemma rr_any_bad_iff: "rr_shape ss n r \<Longrightarrow> rr_any_bad r \<longleftrightarrow> (\<exists>i. rr_status r i = Bad)"
  by (auto simp: rr_shape_def rr_any_bad_def rr_status_def bitset_any_iff)

lemma set_rr_bad_sectors: "set (rr_bad_sectors r) = {i. rr_status r i = Bad}"
  by (auto simp: rr_bad_sectors_def set_bitset_iter_set rr_status_def split: if_splits)

lemma Unread_in_unread_sectors: "rr_status r i = Unread \<Longrightarrow> i \<in> set (rr_unread_sectors r)"
  by (auto simp: rr_unread_sectors_def set_bitset_iter_set rr_status_def split: if_splits)

lemma unread_sectors_status: "i \<in> set (rr_unread_sectors r) \<Longrightarrow> rr_status r i = Bad \<or> rr_status r i = Unread"
  by (auto simp: rr_unread_sectors_def set_bitset_iter_set rr_status_def split: if_splits)

lemma rr_bad_count_eq: "rr_shape ss n r \<Longrightarrow> rr_bad_count r = card {i. rr_status r i = Bad}"
proof -
  assume "rr_shape ss n r"
  then have "rr_bad_count r = length (rr_bad_sectors r)"
    by (simp add: rr_shape_def rr_bad_count_def rr_bad_sectors_def bitset_count_ones_eq)
  also have "\<dots> = card (set (rr_bad_sectors r))"
    by (simp add: distinct_card rr_bad_sectors_def distinct_bitset_iter_set)
  finally show ?thesis by (simp add: set_rr_bad_sectors)
qed

section \<open>Alignment\<close>

definition align_down :: "nat \<Rightarrow> nat \<Rightarrow> nat" where
  "align_down value align = value - value mod align"

definition align_up :: "nat \<Rightarrow> nat \<Rightarrow> nat" where
  "align_up value align =
     (if value mod align = 0 then value else sat_add64 value (align - value mod align))"

lemma align_down_mult: "align_down v a = v div a * a"
  by (simp add: align_down_def minus_mod_eq_div_mult)

lemma align_down_bounds: "0 < a \<Longrightarrow> align_down v a \<le> v \<and> v - align_down v a < a \<and> align_down v a mod a = 0"
  by (simp add: align_down_mult minus_div_mult_eq_mod)

lemma align_up_eq: "0 < a \<Longrightarrow> v + a \<le> u64_max \<Longrightarrow> align_up v a = div_ceil v a * a"
proof -
  assume a: "0 < a" and v: "v + a \<le> u64_max"
  have "v - v mod a = v div a * a" by (simp add: minus_mod_eq_div_mult)
  moreover have "v mod a \<le> v" "v mod a < a" using a by simp_all
  ultimately have "v + (a - v mod a) = v div a * a + a" by linarith
  then show ?thesis using v \<open>v mod a \<le> v\<close> by (auto simp: align_up_def div_ceil_def sat_add64_exact)
qed

section \<open>The trait\<close>

type_synonym read_fn = "nat \<Rightarrow> bytes \<Rightarrow> bytes \<times> read_result"

text \<open>\<^verbatim>\<open>dyn BlockSource\<close>: the methods of the trait object. \<open>s_read_at off buf\<close> returns the buffer
  the call leaves behind together with the read result.\<close>

record source =
  s_len :: nat
  s_sector_size :: nat
  s_physical_sector_size :: nat
  s_read_at :: read_fn
  s_id :: string

text \<open>\<^verbatim>\<open>vanished\<close>, the default of the trait, which every source that is a value of this type keeps. Only the raw
  device has an answer of its own: the flag that its reads leave (\<^verbatim>\<open>rs_vanished\<close> in \<^verbatim>\<open>RawDevice\<close>).\<close>

definition s_vanished :: "source \<Rightarrow> bool" where
  "s_vanished s \<longleftrightarrow> False"

datatype block_error =
    Io string
  | OutOfRange nat nat
  | WindowOutOfRange nat nat nat
  | Geometry string
  | ContainerError string

section \<open>The contract\<close>

text \<open>
  \<open>block_source rd ss\<close>: every read fills the whole buffer and ignores what it held, reports one
  status per sector of the request, and reports every sector of an unaligned request bad.
\<close>

locale block_source =
  fixes rd :: read_fn and ss :: nat
  assumes ss_pos: "0 < ss"
    and fills: "length (fst (rd off buf)) = length buf"
    and overwrites: "length buf = length buf' \<Longrightarrow> rd off buf = rd off buf'"
    and shape: "rr_shape ss (div_ceil (length buf) ss) (snd (rd off buf))"
    and unaligned: "off mod ss \<noteq> 0 \<Longrightarrow> i < div_ceil (length buf) ss \<Longrightarrow> rr_status (snd (rd off buf)) i = Bad"
begin

lemma read_empty: "rd off [] = ([], snd (rd off []))"
  using fills [of off "[]"] by (cases "rd off []") simp

lemma status_count: "rr_sector_count (snd (rd off buf)) = div_ceil (length buf) ss"
  using shape [of buf off] by (simp add: rr_shape_def)

lemma good_aligned:
  assumes "rr_all_good (snd (rd off buf))" "buf \<noteq> []"
  shows "off mod ss = 0"
proof (rule ccontr)
  assume "off mod ss \<noteq> 0"
  moreover have "0 < div_ceil (length buf) ss" using assms(2) ss_pos by (simp add: less_div_ceil)
  ultimately have "rr_status (snd (rd off buf)) 0 = Bad" by (rule unaligned)
  then show False using assms(1) shape [of buf off] by (simp add: rr_all_good_iff)
qed

end

text \<open>
  \<open>sector_source\<close>: within the first \<open>n\<close> bytes every aligned read returns the source's bytes and
  the source's sector statuses, whatever the request's extent.
\<close>

locale sector_source = block_source rd ss
  for rd :: read_fn and ss :: nat +
  fixes n :: nat and byte_at :: "nat \<Rightarrow> byte" and stat :: "nat \<Rightarrow> sector_status"
  assumes content: "off mod ss = 0 \<Longrightarrow> off + length buf \<le> n \<Longrightarrow> j < length buf \<Longrightarrow>
      fst (rd off buf) ! j = byte_at (off + j)"
    and status: "off mod ss = 0 \<Longrightarrow> off + length buf \<le> n \<Longrightarrow> i < div_ceil (length buf) ss \<Longrightarrow>
      rr_status (snd (rd off buf)) i = stat (off div ss + i)"
begin

lemma read_eq:
  assumes "off mod ss = 0" "off + length buf \<le> n"
  shows "fst (rd off buf) = map (\<lambda>j. byte_at (off + j)) [0..<length buf]"
  using content [OF assms] fills [of off buf] by (intro nth_equalityI) simp_all

text \<open>Reading a range in two pieces that meet on a sector boundary is reading it at once.\<close>

lemma read_split:
  assumes "off mod ss = 0" "length a mod ss = 0" "off + length a + length b \<le> n"
  shows "fst (rd off (a @ b)) = fst (rd off a) @ fst (rd (off + length a) b)"
proof -
  have "[0..<length a + length b] = [0..<length a] @ map (\<lambda>j. j + length a) [0..<length b]"
    using upt_add_eq_append [of 0 "length a" "length b"] by (simp add: map_add_upt add.commute)
  moreover have "(off + length a) mod ss = 0" using assms(1,2) by (simp add: mod_add_eq [symmetric])
  ultimately show ?thesis
    using assms by (simp add: read_eq comp_def ac_simps)
qed

end

text \<open>A healthy source: every sector is good.\<close>

locale healthy_source = sector_source rd ss n byte_at "\<lambda>_. Good"
  for rd :: read_fn and ss n :: nat and byte_at :: "nat \<Rightarrow> byte"
begin

lemma read_all_good:
  assumes "off mod ss = 0" "off + length buf \<le> n"
  shows "rr_all_good (snd (rd off buf))"
proof -
  have "rr_status (snd (rd off buf)) i = Good" for i
    using status [OF assms, of i] rr_status_out [OF shape, of buf i off] by (meson not_le)
  then show ?thesis using shape [of buf off] by (simp add: rr_all_good_iff)
qed

end

text \<open>The contract from its two parts.\<close>

lemma sector_sourceI:
  assumes "block_source rd ss"
    and "\<And>off buf j. off mod ss = 0 \<Longrightarrow> off + length buf \<le> n \<Longrightarrow> j < length buf \<Longrightarrow> fst (rd off buf) ! j = byte_at (off + j)"
    and "\<And>off buf i. off mod ss = 0 \<Longrightarrow> off + length buf \<le> n \<Longrightarrow> i < div_ceil (length buf) ss \<Longrightarrow>
      rr_status (snd (rd off buf)) i = stat (off div ss + i)"
  shows "sector_source rd ss n byte_at stat"
  using assms by (intro sector_source.intro sector_source_axioms.intro)

section \<open>Contents of a source\<close>

text \<open>The contents a well-behaved source presents, as a value: the byte at each offset and the
  status of each sector. \<open>presents s md\<close> says that \<open>s\<close> reads as \<open>md\<close>.\<close>

record medium =
  md_byte :: "nat \<Rightarrow> byte"
  md_stat :: "nat \<Rightarrow> sector_status"

definition presents :: "source \<Rightarrow> medium \<Rightarrow> bool" where
  "presents s md \<longleftrightarrow> sector_source (s_read_at s) (s_sector_size s) (s_len s) (md_byte md) (md_stat md) \<and>
     s_len s \<le> u64_max"

text \<open>Readability of a single byte, and of a range.\<close>

definition good_byte :: "source \<Rightarrow> medium \<Rightarrow> nat \<Rightarrow> bool" where
  "good_byte s md p \<longleftrightarrow> p < s_len s \<and> md_stat md (p div s_sector_size s) = Good"

definition medium_bytes :: "medium \<Rightarrow> nat \<Rightarrow> nat \<Rightarrow> bytes" where
  "medium_bytes md p n = map (\<lambda>k. md_byte md (p + k)) [0..<n]"

lemma length_medium_bytes [simp]: "length (medium_bytes md p n) = n"
  by (simp add: medium_bytes_def)

lemma nth_medium_bytes [simp]: "k < n \<Longrightarrow> medium_bytes md p n ! k = md_byte md (p + k)"
  by (simp add: medium_bytes_def)

lemma presents_pos: "presents s md \<Longrightarrow> 0 < s_sector_size s"
  unfolding presents_def sector_source_def by (blast dest: block_source.ss_pos)

lemma presents_read:
  assumes "presents s md" "off mod s_sector_size s = 0" "off + length buf \<le> s_len s"
  shows "fst (s_read_at s off buf) = medium_bytes md off (length buf)"
proof -
  have ssrc: "sector_source (s_read_at s) (s_sector_size s) (s_len s) (md_byte md) (md_stat md)"
    using assms(1) by (simp add: presents_def)
  note read_eq = sector_source.read_eq [OF ssrc]
  show ?thesis using read_eq [OF assms(2,3)] by (simp add: medium_bytes_def)
qed

lemma presents_status:
  assumes "presents s md" "off mod s_sector_size s = 0" "off + length buf \<le> s_len s"
    and "i < div_ceil (length buf) (s_sector_size s)"
  shows "rr_status (snd (s_read_at s off buf)) i = md_stat md (off div s_sector_size s + i)"
proof -
  have ssrc: "sector_source (s_read_at s) (s_sector_size s) (s_len s) (md_byte md) (md_stat md)"
    using assms(1) by (simp add: presents_def)
  note status = sector_source.status [OF ssrc]
  show ?thesis using status [OF assms(2-4)] .
qed

lemma presents_well_behaved: "presents s md \<Longrightarrow> block_source (s_read_at s) (s_sector_size s)"
  by (simp add: presents_def sector_source_def)

section \<open>A reference source\<close>

text \<open>A source that serves a given medium directly, any statuses included: it shows that contents of
  every kind have a source that presents them.\<close>

definition medium_source :: "medium \<Rightarrow> nat \<Rightarrow> nat \<Rightarrow> source" where
  "medium_source md ss n =
     \<lparr>s_len = n, s_sector_size = ss, s_physical_sector_size = ss,
      s_read_at = (\<lambda>off buf.
        let count = div_ceil (length buf) ss; res = rr_good ss count in
        if off mod ss \<noteq> 0 then (zeros (length buf), mark_bads [0..<count] res)
        else (medium_bytes md off (length buf),
          mark_unreads (filter (\<lambda>i. md_stat md (off div ss + i) = Unread) [0..<count])
            (mark_bads (filter (\<lambda>i. md_stat md (off div ss + i) = Bad) [0..<count]) res))),
      s_id = ''medium''\<rparr>"

lemma medium_source_fields [simp]:
  "s_len (medium_source md ss n) = n" "s_sector_size (medium_source md ss n) = ss"
  "s_physical_sector_size (medium_source md ss n) = ss" "s_id (medium_source md ss n) = ''medium''"
  by (simp_all add: medium_source_def)

lemma presents_medium_source:
  assumes "0 < ss" "n \<le> u64_max"
  shows "presents (medium_source md ss n) md"
proof -
  have "sector_source (s_read_at (medium_source md ss n)) ss n (md_byte md) (md_stat md)"
  proof
    fix off i j :: nat and buf buf' :: bytes
    let ?rd = "s_read_at (medium_source md ss n)"
    show "0 < ss" by (rule assms)
    show "length (fst (?rd off buf)) = length buf" by (simp add: medium_source_def Let_def)
    show "length buf = length buf' \<Longrightarrow> ?rd off buf = ?rd off buf'"
      by (simp only: medium_source_def source.select_convs)
    show "rr_shape ss (div_ceil (length buf) ss) (snd (?rd off buf))"
      by (simp add: medium_source_def Let_def rr_simps)
    show "rr_status (snd (?rd off buf)) i = Bad" if "off mod ss \<noteq> 0" "i < div_ceil (length buf) ss"
      using that by (simp add: medium_source_def Let_def rr_status_mark_bads [OF rr_shape_good])
    assume "off mod ss = 0"
    then show "j < length buf \<Longrightarrow> fst (?rd off buf) ! j = md_byte md (off + j)"
      by (simp add: medium_source_def Let_def)
    show "rr_status (snd (?rd off buf)) i = md_stat md (off div ss + i)"
      if "i < div_ceil (length buf) ss"
      using \<open>off mod ss = 0\<close> that
      by (cases "md_stat md (off div ss + i)")
        (simp_all add: medium_source_def Let_def rr_status_mark_unreads [OF rr_shape_marks(1) [OF rr_shape_good]]
          rr_status_mark_bads [OF rr_shape_good] rr_status_good)
  qed
  then show ?thesis using assms(2) by (simp add: presents_def)
qed

lemma slice_medium_bytes:
  "get_slice (medium_bytes md p n) a b = (if a \<le> b \<and> b \<le> n then Some (medium_bytes md (p + a) (b - a)) else None)"
  by (auto simp: get_slice_def add.assoc intro!: nth_equalityI)

lemma read_medium_bytes:
  "le_u16 (medium_bytes md p n) off = (if off + 2 \<le> n then Some (le_val (medium_bytes md (p + off) 2)) else None)"
  "le_u32 (medium_bytes md p n) off = (if off + 4 \<le> n then Some (le_val (medium_bytes md (p + off) 4)) else None)"
  "le_u64 (medium_bytes md p n) off = (if off + 8 \<le> n then Some (le_val (medium_bytes md (p + off) 8)) else None)"
  "be_u32 (medium_bytes md p n) off = (if off + 4 \<le> n then Some (be_val (medium_bytes md (p + off) 4)) else None)"
  "be_u64 (medium_bytes md p n) off = (if off + 8 \<le> n then Some (be_val (medium_bytes md (p + off) 8)) else None)"
  by (simp_all add: reader_defs slice_medium_bytes)

text \<open>A medium given by the bytes at finitely many places, zero elsewhere, all of it good.\<close>

fun bytes_at :: "(nat \<times> bytes) list \<Rightarrow> nat \<Rightarrow> byte" where
  "bytes_at [] j = 0"
| "bytes_at ((p, b) # r) j = (if p \<le> j \<and> j < p + length b then b ! (j - p) else bytes_at r j)"

definition good_medium :: "(nat \<times> bytes) list \<Rightarrow> medium" where
  "good_medium fs = \<lparr>md_byte = bytes_at fs, md_stat = (\<lambda>_. Good)\<rparr>"

lemma md_byte_good_medium [simp]: "md_byte (good_medium f) = bytes_at f"
  by (simp add: good_medium_def)

lemma md_stat_good_medium [simp]: "md_stat (good_medium f) l = Good"
  by (simp add: good_medium_def)

lemma good_byte_good_medium [simp]: "good_byte s (good_medium f) p \<longleftrightarrow> p < s_len s"
  by (simp add: good_byte_def)

text \<open>Evaluating reads of such a medium.\<close>

lemma fixture_presents: "n \<le> u64_max \<Longrightarrow> presents (medium_source (good_medium f) 512 n) (good_medium f)"
  by (rule presents_medium_source) simp_all

lemma medium_bytes_small:
  "medium_bytes md p 2 = [md_byte md p, md_byte md (p + 1)]"
  "medium_bytes md p 4 = [md_byte md p, md_byte md (p + 1), md_byte md (p + 2), md_byte md (p + 3)]"
  "medium_bytes md p 8 = [md_byte md p, md_byte md (p + 1), md_byte md (p + 2), md_byte md (p + 3),
     md_byte md (p + 4), md_byte md (p + 5), md_byte md (p + 6), md_byte md (p + 7)]"
  by (simp_all add: medium_bytes_def upt_rec numeral_eq_Suc)

lemma val_medium_bytes:
  "le_val (medium_bytes md p 2) = le_val [md_byte md p, md_byte md (p + 1)]"
  "le_val (medium_bytes md p 4) = le_val [md_byte md p, md_byte md (p + 1), md_byte md (p + 2), md_byte md (p + 3)]"
  "le_val (medium_bytes md p 8) = le_val [md_byte md p, md_byte md (p + 1), md_byte md (p + 2), md_byte md (p + 3),
     md_byte md (p + 4), md_byte md (p + 5), md_byte md (p + 6), md_byte md (p + 7)]"
  "be_val (medium_bytes md p 4) = le_val [md_byte md (p + 3), md_byte md (p + 2), md_byte md (p + 1), md_byte md p]"
  "be_val (medium_bytes md p 8) = le_val [md_byte md (p + 7), md_byte md (p + 6), md_byte md (p + 5), md_byte md (p + 4),
     md_byte md (p + 3), md_byte md (p + 2), md_byte md (p + 1), md_byte md p]"
  by (simp_all only: medium_bytes_small be_val_def rev.simps append.simps)

lemma medium_bytes_eq:
  "medium_bytes md p n = [] \<longleftrightarrow> n = 0"
  "medium_bytes md p n = x # xs \<longleftrightarrow> 0 < n \<and> md_byte md p = x \<and> medium_bytes md (p + 1) (n - 1) = xs"
proof -
  show "medium_bytes md p n = [] \<longleftrightarrow> n = 0" by (simp add: medium_bytes_def)
  have "medium_bytes md p (Suc k) = md_byte md p # medium_bytes md (p + 1) k" for k
    by (rule nth_equalityI) (auto simp: nth_Cons split: nat.split)
  then show "medium_bytes md p n = x # xs \<longleftrightarrow> 0 < n \<and> md_byte md p = x \<and> medium_bytes md (p + 1) (n - 1) = xs"
    by (cases n) (simp_all add: medium_bytes_def)
qed

lemma get_at_medium_bytes: "get_at (medium_bytes md p n) i = (if i < n then Some (md_byte md (p + i)) else None)"
  by (simp add: get_at_def)

lemmas medium_simps = slice_medium_bytes read_medium_bytes get_at_medium_bytes val_medium_bytes medium_bytes_eq

end
