(* ===== verification/Media.thy ===== *)
theory Media
  imports Source
begin

text \<open>
  The leaf sources and the two stateless wrappers of the block layer:
  \<^verbatim>\<open>memory.rs\<close> (a buffer), \<^verbatim>\<open>image_file.rs\<close> (a file read with \<^verbatim>\<open>pread\<close>), \<^verbatim>\<open>fault.rs\<close> (chosen
  sectors forced bad) and \<^verbatim>\<open>offset_view.rs\<close> (a partition as its own source). Each is shown to
  keep the source contract; the wrappers keep it for any source they wrap.
\<close>

section \<open>Marking a tail of the request bad\<close>

definition mark_bad_from_byte :: "read_result \<Rightarrow> nat \<Rightarrow> nat \<Rightarrow> nat \<Rightarrow> read_result" where
  "mark_bad_from_byte res sector_size buf_len start_byte =
     (if buf_len \<le> start_byte then res
      else fold (\<lambda>i r.
          let raw_end = sat_mul64 (sat_add64 i 1) sector_size;
              sector_end = min raw_end buf_len
          in if start_byte < sector_end then rr_mark_bad r i else r)
        [0..<rr_sector_count res] res)"

lemma fold_cond_mark_bad:
  "fold (\<lambda>i r. if P i then rr_mark_bad r i else r) is r = mark_bads (filter P is) r"
  by (induction "is" arbitrary: r) simp_all

lemma mark_bad_from_byte_eq:
  "mark_bad_from_byte res ss n from =
    (if n \<le> from then res
     else mark_bads (filter (\<lambda>i. from < min (sat_mul64 (sat_add64 i 1) ss) n) [0..<rr_sector_count res]) res)"
  by (simp add: mark_bad_from_byte_def Let_def fold_cond_mark_bad)

lemma shape_mark_bad_from_byte [rr_simps]:
  "rr_shape ss n r \<Longrightarrow> rr_shape ss n (mark_bad_from_byte r ss' len from)"
  by (simp add: mark_bad_from_byte_eq rr_simps)

lemma sector_end_clamp:
  assumes "0 < ss" "n \<le> u64_max"
  shows "min (sat_mul64 (sat_add64 i 1) ss) n = min (Suc i * ss) n"
proof (cases "Suc i * ss \<le> u64_max")
  case True
  moreover have "Suc i * 1 \<le> Suc i * ss" using assms(1) by (intro mult_le_mono2) simp
  ultimately show ?thesis by (simp add: sat_add64_exact sat_mul64_exact)
next
  case False
  have "u64_max \<le> sat_mul64 (sat_add64 i 1) ss"
  proof (cases "Suc i \<le> u64_max")
    case True
    then show ?thesis using False by (simp add: sat_mul64_def sat_add64_def)
  next
    case False
    then have "sat_add64 i 1 = u64_max" by (simp add: sat_add64_def)
    then show ?thesis using assms(1) by (simp add: sat_mul64_def)
  qed
  then show ?thesis using False assms(2) by simp
qed

lemma status_mark_bad_from_byte:
  assumes "rr_shape ss n r" "0 < ss'" "len \<le> u64_max"
  shows "rr_status (mark_bad_from_byte r ss' len from) j =
    (if j < n \<and> from < min (Suc j * ss') len then Bad else rr_status r j)"
proof -
  have "rr_sector_count r = n" using assms(1) by (simp add: rr_shape_def)
  then show ?thesis using sector_end_clamp [OF assms(2,3), of j]
    by (auto simp: mark_bad_from_byte_eq rr_status_mark_bads [OF assms(1)])
qed

section \<open>Blanking sectors of a request\<close>

text \<open>\<open>blank_sector\<close> marks one sector bad and zero-fills its bytes, as the fault injector and the
  cache do; folding it over the sectors that satisfy a test blanks exactly those.\<close>

definition blank_sector :: "nat \<Rightarrow> nat \<Rightarrow> bytes \<times> read_result \<Rightarrow> bytes \<times> read_result" where
  "blank_sector ss i st =
     (zero_range (fst st) (i * ss) (min (i * ss + ss) (length (fst st))), rr_mark_bad (snd st) i)"

lemma sector_of_byte: "0 < ss \<Longrightarrow> i * ss \<le> j \<and> j < i * ss + ss \<longleftrightarrow> j div ss = (i :: nat)"
proof
  assume ss: "0 < ss" and "i * ss \<le> j \<and> j < i * ss + ss"
  then show "j div ss = i" by (intro div_nat_eqI) (simp_all add: mult.commute add.commute)
next
  assume "0 < ss" "j div ss = i"
  then show "i * ss \<le> j \<and> j < i * ss + ss"
    by (metis add.commute div_times_less_eq_dividend dividend_less_div_times)
qed

lemma blank_sectors:
  assumes "0 < ss" "rr_shape ss' n (snd st)"
  shows "length (fst (fold (\<lambda>i st. if P i then blank_sector ss i st else st) is st)) = length (fst st)"
    and "rr_shape ss' n (snd (fold (\<lambda>i st. if P i then blank_sector ss i st else st) is st))"
    and "j < length (fst st) \<Longrightarrow> fst (fold (\<lambda>i st. if P i then blank_sector ss i st else st) is st) ! j
        = (if j div ss \<in> set is \<and> P (j div ss) then 0 else fst st ! j)"
    and "rr_status (snd (fold (\<lambda>i st. if P i then blank_sector ss i st else st) is st)) k
        = (if k \<in> set is \<and> P k \<and> k < n then Bad else rr_status (snd st) k)"
proof -
  let ?f = "fold (\<lambda>i st. if P i then blank_sector ss i st else st)"
  have "length (fst (?f is st)) = length (fst st) \<and> rr_shape ss' n (snd (?f is st)) \<and>
    (j < length (fst st) \<longrightarrow> fst (?f is st) ! j = (if j div ss \<in> set is \<and> P (j div ss) then 0 else fst st ! j)) \<and>
    rr_status (snd (?f is st)) k = (if k \<in> set is \<and> P k \<and> k < n then Bad else rr_status (snd st) k)"
    using assms(2)
  proof (induction "is" arbitrary: st)
    case Nil
    then show ?case by simp
  next
    case (Cons i "is")
    show ?case
    proof (cases "P i")
      case True
      have sh: "rr_shape ss' n (snd (blank_sector ss i st))" using Cons.prems by (simp add: blank_sector_def rr_simps)
      have byte: "j < length (fst st) \<Longrightarrow> fst (blank_sector ss i st) ! j = (if j div ss = i then 0 else fst st ! j)" for j
        using sector_of_byte [OF assms(1), of i j] by (auto simp: blank_sector_def nth_zero_range)
      have len: "length (fst (blank_sector ss i st)) = length (fst st)" by (simp add: blank_sector_def)
      have stt: "rr_status (snd (blank_sector ss i st)) k = (if k = i \<and> i < n then Bad else rr_status (snd st) k)" for k
        using rr_status_mark_bad [OF Cons.prems] by (simp add: blank_sector_def)
      show ?thesis using Cons.IH [OF sh] True by (auto simp: byte len stt)
    next
      case False
      then show ?thesis using Cons.IH [OF Cons.prems] by auto
    qed
  qed
  then show "length (fst (?f is st)) = length (fst st)" and "rr_shape ss' n (snd (?f is st))"
    and "j < length (fst st) \<Longrightarrow> fst (?f is st) ! j = (if j div ss \<in> set is \<and> P (j div ss) then 0 else fst st ! j)"
    and "rr_status (snd (?f is st)) k = (if k \<in> set is \<and> P k \<and> k < n then Bad else rr_status (snd st) k)"
    by blast+
qed

section \<open>A buffer in memory\<close>

record memory_source =
  ms_data :: bytes
  ms_sector_size :: nat

definition memory_with_sector_size :: "bytes \<Rightarrow> nat \<Rightarrow> memory_source" where
  "memory_with_sector_size data sector_size = \<lparr>ms_data = data, ms_sector_size = max sector_size 1\<rparr>"

definition memory_new :: "bytes \<Rightarrow> memory_source" where
  "memory_new data = memory_with_sector_size data 512"

text \<open>One iteration of the sector loop of \<^verbatim>\<open>read_at\<close>.\<close>

definition memory_sector :: "bytes \<Rightarrow> nat \<Rightarrow> nat \<Rightarrow> nat \<Rightarrow> bytes \<times> read_result \<Rightarrow> bytes \<times> read_result" where
  "memory_sector data ss offset i st =
     (let buf = fst st; r = snd st; sect_off = sat_add64 offset (i * ss) in
      if length data \<le> sect_off then (buf, rr_mark_bad r i)
      else let want = min ss (length buf - i * ss);
               avail = length data - sect_off;
               copy = min want avail
           in case get_slice data sect_off (sect_off + copy) of
                None \<Rightarrow> (buf, r)
              | Some src \<Rightarrow> (blit_checked buf (i * ss) src, r))"

definition memory_read :: "memory_source \<Rightarrow> read_fn" where
  "memory_read m offset buf =
     (let ss = ms_sector_size m;
          sector_count = div_ceil (length buf) ss;
          buf0 = zeros (length buf);
          r = rr_good ss sector_count
      in if offset mod ss \<noteq> 0 then (buf0, mark_bads [0..<sector_count] r)
         else fold (memory_sector (ms_data m) ss offset) [0..<sector_count] (buf0, r))"

definition memory_source :: "memory_source \<Rightarrow> source" where
  "memory_source m = \<lparr>s_len = length (ms_data m), s_sector_size = ms_sector_size m,
     s_physical_sector_size = ms_sector_size m, s_read_at = memory_read m,
     s_id = ''mem:'' @ show_nat (length (ms_data m))\<rparr>"

text \<open>The loop invariant: the first \<open>k\<close> sectors hold the data (or zeros past its end) and carry
  their status; the rest of the buffer is still zero and still good.\<close>

definition memory_inv :: "bytes \<Rightarrow> nat \<Rightarrow> nat \<Rightarrow> nat \<Rightarrow> nat \<Rightarrow> bytes \<times> read_result \<Rightarrow> bool" where
  "memory_inv data ss offset n k st \<longleftrightarrow>
     length (fst st) = n \<and> rr_shape ss (div_ceil n ss) (snd st) \<and>
     (\<forall>j < n. fst st ! j = (if j < k * ss \<and> offset + j < length data then data ! (offset + j) else 0)) \<and>
     (\<forall>i. rr_status (snd st) i = (if i < k \<and> length data \<le> offset + i * ss then Bad else Good))"

lemma memory_sector_inv:
  assumes inv: "memory_inv data ss offset n k st" and k: "k < div_ceil n ss"
    and ss: "0 < ss" and fit: "offset + n \<le> u64_max"
  shows "memory_inv data ss offset n (Suc k) (memory_sector data ss offset k st)"
proof -
  have kn: "k * ss < n" using k ss by (simp add: less_div_ceil)
  have off: "sat_add64 offset (k * ss) = offset + k * ss" using kn fit by (simp add: sat_add64_exact)
  from inv have len: "length (fst st) = n" and sh: "rr_shape ss (div_ceil n ss) (snd st)"
    and dat: "\<And>j. j < n \<Longrightarrow> fst st ! j = (if j < k * ss \<and> offset + j < length data then data ! (offset + j) else 0)"
    and stt: "\<And>i. rr_status (snd st) i = (if i < k \<and> length data \<le> offset + i * ss then Bad else Good)"
    by (auto simp: memory_inv_def)
  show ?thesis
  proof (cases "length data \<le> offset + k * ss")
    case True
    then have st': "memory_sector data ss offset k st = (fst st, rr_mark_bad (snd st) k)"
      by (simp add: memory_sector_def Let_def off)
    have "fst st ! j = (if j < Suc k * ss \<and> offset + j < length data then data ! (offset + j) else 0)"
      if "j < n" for j using dat [OF that] True by auto
    moreover have "rr_status (rr_mark_bad (snd st) k) i
        = (if i < Suc k \<and> length data \<le> offset + i * ss then Bad else Good)" for i
      using True k stt by (auto simp: rr_status_mark_bad [OF sh] less_Suc_eq)
    ultimately show ?thesis unfolding memory_inv_def st'
      using len sh by (simp add: rr_simps)
  next
    case False
    define copy where "copy = min (min ss (n - k * ss)) (length data - (offset + k * ss))"
    have fit': "k * ss + copy \<le> n" "offset + k * ss + copy \<le> length data" "copy \<le> ss"
      using kn False by (auto simp: copy_def)
    have st': "memory_sector data ss offset k st
        = (blit (fst st) (k * ss) (take copy (drop (offset + k * ss) data)), snd st)"
      using fit' False kn
      by (simp add: memory_sector_def Let_def off get_slice_within blit_checked_def len copy_def [symmetric])
    have byte: "blit (fst st) (k * ss) (take copy (drop (offset + k * ss) data)) ! j
        = (if j < Suc k * ss \<and> offset + j < length data then data ! (offset + j) else 0)" if j: "j < n" for j
    proof (cases "k * ss \<le> j \<and> j < k * ss + copy")
      case True
      then have "j < Suc k * ss" "offset + j < length data" using fit' by simp_all
      then have "take copy (drop (offset + k * ss) data) ! (j - k * ss) = data ! (offset + j)"
        using True by (intro nth_piece) auto
      then show ?thesis using True fit' j \<open>j < Suc k * ss\<close> \<open>offset + j < length data\<close>
        by (simp add: nth_blit len)
    next
      case False
      then have "j < Suc k * ss \<and> offset + j < length data \<longleftrightarrow> j < k * ss \<and> offset + j < length data"
        using j by (auto simp: copy_def)
      then show ?thesis using False fit' j dat [OF j] by (auto simp: nth_blit len)
    qed
    have status: "rr_status (snd st) i = (if i < Suc k \<and> length data \<le> offset + i * ss then Bad else Good)" for i
      using False stt [of i] by (auto simp: less_Suc_eq)
    show ?thesis unfolding memory_inv_def st' using fit' byte status len sh by simp
  qed
qed

lemma memory_read_inv:
  assumes "0 < ms_sector_size m" "offset mod ms_sector_size m = 0" "offset + length buf \<le> u64_max"
  shows "memory_inv (ms_data m) (ms_sector_size m) offset (length buf)
    (div_ceil (length buf) (ms_sector_size m)) (memory_read m offset buf)"
proof -
  let ?n = "div_ceil (length buf) (ms_sector_size m)"
  have "memory_inv (ms_data m) (ms_sector_size m) offset (length buf) 0
      (zeros (length buf), rr_good (ms_sector_size m) ?n)"
    by (auto simp: memory_inv_def rr_simps)
  then have "memory_inv (ms_data m) (ms_sector_size m) offset (length buf) ?n
      (fold (memory_sector (ms_data m) (ms_sector_size m) offset) [0..<?n]
        (zeros (length buf), rr_good (ms_sector_size m) ?n))"
    by (rule fold_upt_invariant) (rule memory_sector_inv [OF _ _ assms(1,3)])
  then show ?thesis using assms(2) by (simp add: memory_read_def Let_def)
qed

lemma length_memory_sector: "length (fst (memory_sector data ss off i st)) = length (fst st)"
  by (simp add: memory_sector_def Let_def split: option.split)

lemma shape_memory_sector: "rr_shape ss' n (snd st) \<Longrightarrow> rr_shape ss' n (snd (memory_sector data ss off i st))"
  by (simp add: memory_sector_def Let_def rr_simps split: option.split)

lemma memory_fold_frame:
  "length (fst (fold (memory_sector data ss off) is st)) = length (fst st)"
  "rr_shape ss' n (snd st) \<Longrightarrow> rr_shape ss' n (snd (fold (memory_sector data ss off) is st))"
  by (induction "is" arbitrary: st) (simp_all add: length_memory_sector shape_memory_sector)

text \<open>What a read of a memory source returns, byte by byte and sector by sector, past the end of
  the data included.\<close>

lemma memory_read_bytes:
  assumes "0 < ms_sector_size m" "offset mod ms_sector_size m = 0"
    "offset + length buf \<le> u64_max" "j < length buf"
  shows "fst (memory_read m offset buf) ! j
    = (if offset + j < length (ms_data m) then ms_data m ! (offset + j) else 0)"
proof -
  have "j < div_ceil (length buf) (ms_sector_size m) * ms_sector_size m"
    using assms(1,4) div_ceil_lower [of "ms_sector_size m" "length buf"] by simp
  then show ?thesis using memory_read_inv [OF assms(1-3)] assms(4) by (simp add: memory_inv_def)
qed

lemma memory_read_status:
  assumes "0 < ms_sector_size m" "offset mod ms_sector_size m = 0"
    "offset + length buf \<le> u64_max" "i < div_ceil (length buf) (ms_sector_size m)"
  shows "rr_status (snd (memory_read m offset buf)) i
    = (if length (ms_data m) \<le> offset + i * ms_sector_size m then Bad else Good)"
  using memory_read_inv [OF assms(1-3)] assms(4) by (simp add: memory_inv_def)

lemma block_source_memory:
  assumes ss: "0 < ms_sector_size m"
  shows "block_source (memory_read m) (ms_sector_size m)"
proof
  fix off i :: nat and buf buf' :: bytes
  show "0 < ms_sector_size m" by (rule ss)
  show "length (fst (memory_read m off buf)) = length buf"
    by (simp add: memory_read_def Let_def memory_fold_frame)
  show "length buf = length buf' \<Longrightarrow> memory_read m off buf = memory_read m off buf'"
    by (simp add: memory_read_def)
  show "rr_shape (ms_sector_size m) (div_ceil (length buf) (ms_sector_size m)) (snd (memory_read m off buf))"
    by (simp add: memory_read_def Let_def memory_fold_frame rr_simps)
  show "rr_status (snd (memory_read m off buf)) i = Bad"
    if "off mod ms_sector_size m \<noteq> 0" "i < div_ceil (length buf) (ms_sector_size m)"
    using that rr_status_mark_bads [OF rr_shape_good] by (simp add: memory_read_def Let_def)
qed

lemma sector_source_memory:
  assumes ss: "0 < ms_sector_size m" and n: "n \<le> length (ms_data m)" "n \<le> u64_max"
  shows "sector_source (memory_read m) (ms_sector_size m) n (\<lambda>j. ms_data m ! j) (\<lambda>_. Good)"
proof -
  have bsrc: "block_source (memory_read m) (ms_sector_size m)" by (rule block_source_memory [OF ss])
  show ?thesis
    by (rule sector_sourceI [OF bsrc])
      (use ss n in \<open>auto simp: memory_read_bytes memory_read_status less_div_ceil\<close>)
qed

text \<open>Every memory source the constructor builds keeps the contract.\<close>

interpretation mem: healthy_source
  "memory_read (memory_with_sector_size data k)" "max k 1" "min (length data) u64_max" "\<lambda>j. data ! j"
proof -
  have "sector_source (memory_read (memory_with_sector_size data k))
      (ms_sector_size (memory_with_sector_size data k)) (min (length data) u64_max)
      (\<lambda>j. ms_data (memory_with_sector_size data k) ! j) (\<lambda>_. Good)"
    by (rule sector_source_memory) (simp_all add: memory_with_sector_size_def)
  then show "healthy_source (memory_read (memory_with_sector_size data k)) (max k 1)
      (min (length data) u64_max) (\<lambda>j. data ! j)"
    by (simp add: memory_with_sector_size_def healthy_source_def)
qed

section \<open>A file read with pread\<close>

text \<open>
  \<^verbatim>\<open>File::read_at\<close> is the standard library's \<^verbatim>\<open>pread\<close>. The system is a parameter: the outcome of
  the \<open>t\<close>-th call at an offset for a number of bytes. A successful call delivers at most what was
  asked for, and no bytes at the end of the file; \<^verbatim>\<open>ErrorKind::Interrupted\<close> is retried.
\<close>

datatype pread_outcome = ReadOk bytes | ReadInterrupted | ReadFailed

type_synonym pread_fn = "nat \<Rightarrow> nat \<Rightarrow> nat \<Rightarrow> pread_outcome"

text \<open>The loop \<^verbatim>\<open>while done < avail\<close>; it never returns if the system interrupts for ever, so its
  result is an option.\<close>

partial_function (option) fill_from_file ::
  "pread_fn \<Rightarrow> nat \<Rightarrow> nat \<Rightarrow> nat \<Rightarrow> nat \<Rightarrow> bytes \<Rightarrow> (nat \<times> bytes) option" where
  "fill_from_file pread t offset avail done buf =
     (if avail \<le> done then Some (done, buf)
      else case pread t (offset + done) (avail - done) of
        ReadOk bs \<Rightarrow>
          (if bs = [] then Some (done, buf)
           else fill_from_file pread (Suc t) offset avail (done + length bs) (blit buf done bs))
      | ReadInterrupted \<Rightarrow> fill_from_file pread (Suc t) offset avail done buf
      | ReadFailed \<Rightarrow> Some (done, buf))"

definition read_file_at :: "pread_fn \<Rightarrow> nat \<Rightarrow> nat \<Rightarrow> nat \<Rightarrow> bytes \<Rightarrow> (bytes \<times> read_result) option" where
  "read_file_at pread len sector_size offset buf =
     (let sector_count = div_ceil (length buf) sector_size;
          res = rr_good sector_size sector_count;
          buf0 = zeros (length buf)
      in if buf = [] then Some (buf0, res)
         else if offset mod sector_size \<noteq> 0 then Some (buf0, mark_bads [0..<sector_count] res)
         else if len \<le> offset then Some (buf0, mark_bads [0..<sector_count] res)
         else let avail = min (length buf) (len - offset) in
           case fill_from_file pread 0 offset avail 0 buf0 of
             None \<Rightarrow> None
           | Some (done, buf1) \<Rightarrow>
               Some (buf1, mark_bad_from_byte res sector_size (length buf) done))"

text \<open>What the system promises for a regular file with content \<open>c\<close>.\<close>

definition pread_of :: "bytes \<Rightarrow> pread_fn \<Rightarrow> bool" where
  "pread_of c pread \<longleftrightarrow>
     (\<forall>t off want bs. pread t off want = ReadOk bs \<longrightarrow> (\<exists>k \<le> want. bs = take k (drop off c)))"

definition pread_settles :: "pread_fn \<Rightarrow> bool" where
  "pread_settles pread \<longleftrightarrow> (\<exists>T. \<forall>t \<ge> T. \<forall>off want. pread t off want \<noteq> ReadInterrupted)"

lemma fill_step_invariant:
  assumes "pread_of c pread" "pread t (offset + done) (avail - done) = ReadOk bs" "done < avail"
    "avail \<le> length buf" "\<forall>j < length buf. buf ! j = (if j < done then c ! (offset + j) else 0)"
  shows "done + length bs \<le> avail \<and> length (blit buf done bs) = length buf \<and>
    (\<forall>j < length buf. blit buf done bs ! j = (if j < done + length bs then c ! (offset + j) else 0))"
proof -
  obtain k where k: "k \<le> avail - done" "bs = take k (drop (offset + done) c)"
    using assms(1,2) unfolding pread_of_def by blast
  then have "done + length bs \<le> avail" using assms(3) by simp
  moreover have "blit buf done bs ! j = (if j < done + length bs then c ! (offset + j) else 0)"
    if "j < length buf" for j
  proof (cases "done \<le> j \<and> j < done + length bs")
    case True
    then have "j - done < k" "offset + j < length c" using k(2) by auto
    then have "bs ! (j - done) = c ! (offset + j)" unfolding k(2) using True by (intro nth_piece) auto
    then show ?thesis using True calculation assms(4) that by (simp add: nth_blit)
  next
    case False
    then show ?thesis using calculation assms(4,5) that by (auto simp: nth_blit)
  qed
  ultimately show ?thesis using assms(4) by simp
qed

text \<open>Partial correctness of the loop: the bytes it reports done are the file's, the rest is zero.\<close>

lemma fill_from_file_correct:
  assumes ret: "fill_from_file pread t offset avail done buf = Some r"
    and pre: "pread_of c pread" "avail \<le> length buf" "done \<le> avail"
      "\<forall>j < length buf. buf ! j = (if j < done then c ! (offset + j) else 0)"
  shows "done \<le> fst r \<and> fst r \<le> avail \<and> length (snd r) = length buf \<and>
    (\<forall>j < length buf. snd r ! j = (if j < fst r then c ! (offset + j) else 0))"
proof -
  let ?pre = "\<lambda>pread offset avail done buf. pread_of c pread \<and> avail \<le> length buf \<and> done \<le> avail \<and>
    (\<forall>j < length buf. buf ! j = (if j < done then c ! (offset + j) else 0))"
  let ?post = "\<lambda>offset avail done buf r. done \<le> fst r \<and> fst r \<le> avail \<and> length (snd r) = length buf \<and>
    (\<forall>j < length buf. snd r ! j = (if j < fst r then c ! (offset + j) else 0))"
  have "?pre pread offset avail done buf \<longrightarrow> ?post offset avail done buf r"
  proof (rule fill_from_file.raw_induct [where P = "\<lambda>pread t offset avail done buf r.
        ?pre pread offset avail done buf \<longrightarrow> ?post offset avail done buf r", OF _ ret], intro impI)
    fix f pread t offset avail "done" buf r
    assume IH: "\<And>pread t offset avail done buf r. f pread t offset avail done buf = Some r \<Longrightarrow>
        ?pre pread offset avail done buf \<longrightarrow> ?post offset avail done buf r"
      and eq: "(if avail \<le> done then Some (done, buf)
        else case pread t (offset + done) (avail - done) of
          ReadOk bs \<Rightarrow> if bs = [] then Some (done, buf)
            else f pread (Suc t) offset avail (done + length bs) (blit buf done bs)
        | ReadInterrupted \<Rightarrow> f pread (Suc t) offset avail done buf
        | ReadFailed \<Rightarrow> Some (done, buf)) = Some r"
      and pre: "?pre pread offset avail done buf"
    show "?post offset avail done buf r"
    proof (cases "avail \<le> done")
      case True
      then show ?thesis using eq pre by auto
    next
      case False
      show ?thesis
      proof (cases "pread t (offset + done) (avail - done)")
        case (ReadOk bs)
        show ?thesis
        proof (cases "bs = []")
          case True
          then show ?thesis using eq pre False ReadOk by auto
        next
          case ne: False
          have step: "done + length bs \<le> avail \<and> length (blit buf done bs) = length buf \<and>
              (\<forall>j < length buf. blit buf done bs ! j = (if j < done + length bs then c ! (offset + j) else 0))"
            using ReadOk pre False by (intro fill_step_invariant [where pread = pread and t = t]) simp_all
          have "f pread (Suc t) offset avail (done + length bs) (blit buf done bs) = Some r"
            using eq ReadOk False ne by simp
          from IH [OF this] have "?post offset avail (done + length bs) (blit buf done bs) r"
            using pre step by simp
          then show ?thesis using step by simp
        qed
      next
        case ReadInterrupted
        then show ?thesis using eq pre False IH by auto
      next
        case ReadFailed
        then show ?thesis using eq pre False by auto
      qed
    qed
  qed
  then show ?thesis using pre by blast
qed

text \<open>The loop returns when the system stops interrupting: first after it has settled (each call
  then shortens what is left), then from any earlier call.\<close>

lemma fill_from_file_returns_settled:
  assumes "\<And>t' off want. t \<le> t' \<Longrightarrow> pread t' off want \<noteq> ReadInterrupted"
  shows "\<exists>r. fill_from_file pread t offset avail done buf = Some r"
  using assms
proof (induction "avail - done" arbitrary: t "done" buf rule: less_induct)
  case less
  show ?case
  proof (cases "avail \<le> done")
    case True
    then show ?thesis by (simp add: fill_from_file.simps)
  next
    case False
    show ?thesis
    proof (cases "pread t (offset + done) (avail - done)")
      case (ReadOk bs)
      show ?thesis
      proof (cases "bs = []")
        case True
        then show ?thesis using False ReadOk by (simp add: fill_from_file.simps)
      next
        case ne: False
        then have "avail - (done + length bs) < avail - done" using False by (cases bs) auto
        then have "\<exists>r. fill_from_file pread (Suc t) offset avail (done + length bs) (blit buf done bs) = Some r"
          by (rule less.hyps) (simp add: less.prems)
        then show ?thesis using False ReadOk ne by (simp add: fill_from_file.simps [of pread t])
      qed
    next
      case ReadInterrupted
      then show ?thesis using less.prems by blast
    next
      case ReadFailed
      then show ?thesis using False by (simp add: fill_from_file.simps)
    qed
  qed
qed

lemma fill_from_file_returns:
  assumes "\<And>t off want. T \<le> t \<Longrightarrow> pread t off want \<noteq> ReadInterrupted"
  shows "\<exists>r. fill_from_file pread t offset avail done buf = Some r"
proof (induction "T - t" arbitrary: t "done" buf)
  case 0
  then show ?case by (intro fill_from_file_returns_settled) (use assms in auto)
next
  case (Suc d)
  then have "d = T - Suc t" by simp
  from Suc.hyps(1) [OF this] show ?case
    by (subst fill_from_file.simps) (auto split: pread_outcome.split)
qed

lemma read_file_at_returns:
  "pread_settles pread \<Longrightarrow> \<exists>r. read_file_at pread len ss offset buf = Some r"
proof -
  assume "pread_settles pread"
  then obtain T where "\<And>t off want. T \<le> t \<Longrightarrow> pread t off want \<noteq> ReadInterrupted"
    by (auto simp: pread_settles_def)
  then have "\<exists>r. fill_from_file pread 0 offset avail 0 (zeros (length buf)) = Some r" for avail
    by (rule fill_from_file_returns)
  then obtain r where "fill_from_file pread 0 offset (min (length buf) (len - offset)) 0 (zeros (length buf)) = Some r"
    by blast
  then show ?thesis by (cases r) (simp add: read_file_at_def Let_def)
qed

text \<open>What a file read returns: the whole buffer, the file's bytes in every good sector, and a
  sector is bad exactly when some requested byte of it was not delivered.\<close>

lemma read_file_at_correct:
  assumes ret: "read_file_at pread len ss offset buf = Some r"
    and os: "pread_of c pread" and ss: "0 < ss" and len: "length buf \<le> u64_max"
  obtains "done" where "done \<le> length buf" "offset mod ss = 0 \<or> done = 0" "offset + done \<le> len \<or> done = 0"
    "length (fst r) = length buf" "rr_shape ss (div_ceil (length buf) ss) (snd r)"
    "\<And>j. j < length buf \<Longrightarrow> fst r ! j = (if j < done then c ! (offset + j) else 0)"
    "\<And>i. i < div_ceil (length buf) ss \<Longrightarrow>
      rr_status (snd r) i = (if done < min (Suc i * ss) (length buf) then Bad else Good)"
proof (cases "buf = [] \<or> offset mod ss \<noteq> 0 \<or> len \<le> offset")
  case True
  have pos: "i < div_ceil (length buf) ss \<Longrightarrow> 0 < min (Suc i * ss) (length buf)" for i
    using ss by (cases buf) auto
  show thesis
  proof (rule that [of 0])
    show "rr_status (snd r) i = (if 0 < min (Suc i * ss) (length buf) then Bad else Good)"
      if "i < div_ceil (length buf) ss" for i
      using that True pos [OF that] ret rr_status_mark_bads [OF rr_shape_good, of "[0..<div_ceil (length buf) ss]" ss]
      by (auto simp: read_file_at_def Let_def split: if_splits)
  qed (use ret True in \<open>auto simp: read_file_at_def Let_def rr_simps split: if_splits\<close>)
next
  case False
  let ?avail = "min (length buf) (len - offset)"
  let ?res = "rr_good ss (div_ceil (length buf) ss)"
  obtain d b where fill: "fill_from_file pread 0 offset ?avail 0 (zeros (length buf)) = Some (d, b)"
    and r: "r = (b, mark_bad_from_byte ?res ss (length buf) d)"
    using ret False by (auto simp: read_file_at_def Let_def split: option.splits)
  have fc: "d \<le> ?avail \<and> length b = length buf \<and> (\<forall>j < length buf. b ! j = (if j < d then c ! (offset + j) else 0))"
    using fill_from_file_correct [OF fill os] by simp
  show thesis
  proof (rule that [of d])
    show "rr_status (snd r) i = (if d < min (Suc i * ss) (length buf) then Bad else Good)"
      if "i < div_ceil (length buf) ss" for i
      using that by (simp add: r status_mark_bad_from_byte [OF rr_shape_good ss len] rr_status_good)
  qed (use False fc in \<open>auto simp: r rr_simps\<close>)
qed

text \<open>A regular file without errors: one \<^verbatim>\<open>pread\<close> delivers all that is there.\<close>

definition whole_pread :: "bytes \<Rightarrow> pread_fn" where
  "whole_pread c t off want = ReadOk (take want (drop off c))"

lemma pread_of_whole [simp]: "pread_of c (whole_pread c)"
  by (auto simp: pread_of_def whole_pread_def)

lemma pread_settles_whole [simp]: "pread_settles (whole_pread c)"
  by (simp add: pread_settles_def whole_pread_def)

text \<open>An open image file, as the block source the rest of the layer sees.\<close>

definition image_file_read :: "bytes \<Rightarrow> nat \<Rightarrow> read_fn" where
  "image_file_read c sector_size offset buf =
     the (read_file_at (whole_pread c) (length c) sector_size offset buf)"

definition image_file_open :: "string \<Rightarrow> bytes option \<Rightarrow> nat \<Rightarrow> block_error + source" where
  "image_file_open path file sector_size =
     (if sector_size = 0 then Inl (Geometry ''sector size must be non-zero'')
      else case file of
        None \<Rightarrow> Inl (Io path)
      | Some c \<Rightarrow> Inr \<lparr>s_len = length c, s_sector_size = sector_size,
          s_physical_sector_size = sector_size, s_read_at = image_file_read c sector_size,
          s_id = ''image:'' @ path @ '':'' @ show_nat (length c)\<rparr>)"

lemma whole_fill:
  "fill_from_file (whole_pread c) 0 off avail 0 buf
    = Some (if avail = 0 \<or> length c \<le> off then (0, buf)
        else let bs = take avail (drop off c) in
          (length bs, blit buf 0 bs))" if "avail \<le> length c - off"
  using that
  by (subst fill_from_file.simps) (auto simp: whole_pread_def Let_def fill_from_file.simps)

lemma image_file_read_eq:
  assumes "0 < ss" "off mod ss = 0" "off < length c" "buf \<noteq> []"
  shows "image_file_read c ss off buf =
    (let n = min (length buf) (length c - off) in
     (take n (drop off c) @ zeros (length buf - n),
      mark_bad_from_byte (rr_good ss (div_ceil (length buf) ss)) ss (length buf) n))"
  using assms by (auto simp: image_file_read_def read_file_at_def Let_def whole_fill blit_def)

lemma block_source_image_file:
  assumes ss: "0 < ss"
  shows "block_source (image_file_read c ss) ss"
proof
  fix off i :: nat and buf buf' :: bytes
  consider (triv) "buf = [] \<or> off mod ss \<noteq> 0 \<or> length c \<le> off" | (main) "0 < ss" "off mod ss = 0" "off < length c" "buf \<noteq> []"
    using ss by linarith
  then have *: "length (fst (image_file_read c ss off buf)) = length buf \<and>
      rr_shape ss (div_ceil (length buf) ss) (snd (image_file_read c ss off buf))"
  proof cases
    case triv
    then show ?thesis by (auto simp: image_file_read_def read_file_at_def Let_def rr_simps)
  next
    case main
    then show ?thesis by (simp add: image_file_read_eq Let_def rr_simps)
  qed
  show "0 < ss" by (rule ss)
  show "length (fst (image_file_read c ss off buf)) = length buf" using * by blast
  show "rr_shape ss (div_ceil (length buf) ss) (snd (image_file_read c ss off buf))" using * by blast
  show "length buf = length buf' \<Longrightarrow> image_file_read c ss off buf = image_file_read c ss off buf'"
    unfolding image_file_read_def read_file_at_def length_0_conv [symmetric] by (simp only:)
  show "rr_status (snd (image_file_read c ss off buf)) i = Bad"
    if "off mod ss \<noteq> 0" "i < div_ceil (length buf) ss"
    using that rr_status_mark_bads [OF rr_shape_good]
    by (cases "buf = []") (simp_all add: image_file_read_def read_file_at_def Let_def)
qed

lemma sector_source_image_file:
  assumes ss: "0 < ss" and n: "n \<le> length c" "n \<le> u64_max"
  shows "sector_source (image_file_read c ss) ss n (\<lambda>j. c ! j) (\<lambda>_. Good)"
proof -
  have bsrc: "block_source (image_file_read c ss) ss" by (rule block_source_image_file [OF ss])
  show ?thesis
  proof (rule sector_sourceI [OF bsrc])
    fix off j i and buf :: bytes
    assume a: "off mod ss = 0" "off + length buf \<le> n"
    have eq: "buf \<noteq> [] \<Longrightarrow> image_file_read c ss off buf = (take (length buf) (drop off c),
        mark_bad_from_byte (rr_good ss (div_ceil (length buf) ss)) ss (length buf) (length buf))"
      using a n by (subst image_file_read_eq [OF ss]) (auto simp: Let_def min_def neq_Nil_conv)
    show "fst (image_file_read c ss off buf) ! j = c ! (off + j)" if "j < length buf"
      using that a n eq by (cases "buf = []") auto
    show "rr_status (snd (image_file_read c ss off buf)) i = Good" if "i < div_ceil (length buf) ss"
      using that a n eq by (cases "buf = []") (auto simp: mark_bad_from_byte_def rr_simps)
  qed
qed

interpretation img: healthy_source
  "image_file_read c (Suc k)" "Suc k" "min (length c) u64_max" "\<lambda>j. c ! j"
  unfolding healthy_source_def by (rule sector_source_image_file) simp_all

section \<open>Injected faults\<close>

record fault_injector =
  fi_inner :: source
  fi_bad_lbas :: "nat list"

text \<open>The constructor collects the LBAs into a sorted set (a \<^verbatim>\<open>BTreeSet\<close>).\<close>

definition fault_new :: "source \<Rightarrow> nat list \<Rightarrow> fault_injector" where
  "fault_new inner lbas = \<lparr>fi_inner = inner, fi_bad_lbas = sort (remdups lbas)\<rparr>"

definition fault_sector :: "nat list \<Rightarrow> nat \<Rightarrow> nat \<Rightarrow> nat \<Rightarrow> bytes \<times> read_result \<Rightarrow> bytes \<times> read_result" where
  "fault_sector bad first_lba ss i st =
     (if first_lba + i \<in> set bad
      then (zero_range (fst st) (i * ss) (min (i * ss + ss) (length (fst st))), rr_mark_bad (snd st) i)
      else st)"

definition fault_read :: "fault_injector \<Rightarrow> read_fn" where
  "fault_read f offset buf =
     (let ss = max (s_sector_size (fi_inner f)) 1;
          st = s_read_at (fi_inner f) offset buf
      in if offset mod ss \<noteq> 0 then st
         else fold (fault_sector (fi_bad_lbas f) (offset div ss) ss) [0..<rr_sector_count (snd st)] st)"

definition fault_source :: "fault_injector \<Rightarrow> source" where
  "fault_source f = \<lparr>s_len = s_len (fi_inner f), s_sector_size = s_sector_size (fi_inner f),
     s_physical_sector_size = s_physical_sector_size (fi_inner f), s_read_at = fault_read f,
     s_id = ''fault:'' @ s_id (fi_inner f) @ '':'' @ show_nat (length (fi_bad_lbas f))\<rparr>"

text \<open>A source as the wrappers see it: its read keeps the contract for the sector size it reports.\<close>

definition well_behaved :: "source \<Rightarrow> bool" where
  "well_behaved s \<longleftrightarrow> block_source (s_read_at s) (s_sector_size s)"

lemma well_behaved_pos: "well_behaved s \<Longrightarrow> 0 < s_sector_size s"
  by (simp add: well_behaved_def block_source.ss_pos)

lemma fault_sector_blank:
  "fault_sector bad lba ss = (\<lambda>i st. if lba + i \<in> set bad then blank_sector ss i st else st)"
  by (intro ext) (simp add: fault_sector_def blank_sector_def)

lemma fault_read_effect:
  fixes f :: fault_injector and offset :: nat and buf :: bytes
  assumes wb: "well_behaved (fi_inner f)" and al: "offset mod s_sector_size (fi_inner f) = 0"
  defines "ss \<equiv> s_sector_size (fi_inner f)" and "inner \<equiv> s_read_at (fi_inner f) offset buf"
  shows "length (fst (fault_read f offset buf)) = length buf"
    and "rr_shape ss (div_ceil (length buf) ss) (snd (fault_read f offset buf))"
    and "j < length buf \<Longrightarrow> fst (fault_read f offset buf) ! j
      = (if offset div ss + j div ss \<in> set (fi_bad_lbas f) then 0 else fst inner ! j)"
    and "i < div_ceil (length buf) ss \<Longrightarrow> rr_status (snd (fault_read f offset buf)) i
      = (if offset div ss + i \<in> set (fi_bad_lbas f) then Bad else rr_status (snd inner) i)"
proof -
  have bsrc: "block_source (s_read_at (fi_inner f)) ss" using wb by (simp add: well_behaved_def ss_def)
  note ss_pos = block_source.ss_pos [OF bsrc]
  note fills = block_source.fills [OF bsrc]
  note shape = block_source.shape [OF bsrc]
  note status_count = block_source.status_count [OF bsrc]
  let ?n = "div_ceil (length buf) ss"
  have sh: "rr_shape ss ?n (snd inner)" using shape by (simp add: inner_def)
  have "max ss 1 = ss" using ss_pos by simp
  then have eq: "fault_read f offset buf = fold (\<lambda>i st. if offset div ss + i \<in> set (fi_bad_lbas f)
      then blank_sector ss i st else st) [0..<?n] inner"
    using al unfolding fault_read_def Let_def ss_def [symmetric] inner_def [symmetric]
    by (simp add: fault_sector_blank status_count [of offset buf, folded inner_def])
  show "length (fst (fault_read f offset buf)) = length buf"
    and "rr_shape ss ?n (snd (fault_read f offset buf))"
    using blank_sectors(1,2) [OF ss_pos sh] fills by (simp_all add: eq inner_def)
  show "fst (fault_read f offset buf) ! j
      = (if offset div ss + j div ss \<in> set (fi_bad_lbas f) then 0 else fst inner ! j)" if "j < length buf"
    using that blank_sectors(3) [OF ss_pos sh] fills div_less_div_ceil [OF ss_pos that]
    by (simp add: eq inner_def)
  show "rr_status (snd (fault_read f offset buf)) i
      = (if offset div ss + i \<in> set (fi_bad_lbas f) then Bad else rr_status (snd inner) i)" if "i < ?n"
    using that blank_sectors(4) [OF ss_pos sh] by (simp add: eq)
qed

lemma fault_read_unaligned:
  "0 < s_sector_size (fi_inner f) \<Longrightarrow> offset mod s_sector_size (fi_inner f) \<noteq> 0
    \<Longrightarrow> fault_read f offset buf = s_read_at (fi_inner f) offset buf"
  by (simp add: fault_read_def Let_def)

lemma well_behaved_fault:
  assumes wb: "well_behaved (fi_inner f)"
  shows "well_behaved (fault_source f)"
proof -
  let ?ss = "s_sector_size (fi_inner f)"
  have bsrc: "block_source (s_read_at (fi_inner f)) ?ss" using wb by (simp add: well_behaved_def)
  note ss_pos = block_source.ss_pos [OF bsrc]
  note fills = block_source.fills [OF bsrc]
  note overwrites = block_source.overwrites [OF bsrc]
  note shape = block_source.shape [OF bsrc]
  note unaligned = block_source.unaligned [OF bsrc]
  have "block_source (fault_read f) ?ss"
  proof
    fix off i :: nat and buf buf' :: bytes
    show "0 < ?ss" by (rule ss_pos)
    show "length (fst (fault_read f off buf)) = length buf"
      using fault_read_effect(1) [OF wb, of off buf] fault_read_unaligned [OF ss_pos, of off buf] fills
      by (cases "off mod ?ss = 0") simp_all
    show "rr_shape ?ss (div_ceil (length buf) ?ss) (snd (fault_read f off buf))"
      using fault_read_effect(2) [OF wb, of off buf] fault_read_unaligned [OF ss_pos, of off buf] shape
      by (cases "off mod ?ss = 0") simp_all
    show "length buf = length buf' \<Longrightarrow> fault_read f off buf = fault_read f off buf'"
      using overwrites [of buf buf' off] by (simp add: fault_read_def)
    show "off mod ?ss \<noteq> 0 \<Longrightarrow> i < div_ceil (length buf) ?ss \<Longrightarrow> rr_status (snd (fault_read f off buf)) i = Bad"
      using fault_read_unaligned [OF ss_pos] unaligned by simp
  qed
  then show ?thesis by (simp add: well_behaved_def fault_source_def)
qed

text \<open>Injected sectors read as zeros with status bad, all others as the inner source has them.\<close>

lemma sector_source_fault:
  assumes "sector_source (s_read_at (fi_inner f)) (s_sector_size (fi_inner f)) n byte_at stat"
  shows "sector_source (fault_read f) (s_sector_size (fi_inner f)) n
    (\<lambda>j. if j div s_sector_size (fi_inner f) \<in> set (fi_bad_lbas f) then 0 else byte_at j)
    (\<lambda>l. if l \<in> set (fi_bad_lbas f) then Bad else stat l)"
proof -
  let ?ss = "s_sector_size (fi_inner f)"
  have inner_src: "sector_source (s_read_at (fi_inner f)) ?ss n byte_at stat" by (rule assms)
  note inner_bsrc = sector_source.axioms(1) [OF inner_src]
  note inner_content = sector_source.content [OF inner_src]
  note inner_status = sector_source.status [OF inner_src]
  have wb: "well_behaved (fi_inner f)" by (simp add: well_behaved_def inner_bsrc)
  have bsrc: "block_source (fault_read f) ?ss"
    using well_behaved_fault [OF wb] by (simp add: well_behaved_def fault_source_def)
  show ?thesis
  proof (rule sector_sourceI [OF bsrc])
    fix off j i and buf :: bytes
    assume a: "off mod ?ss = 0" "off + length buf \<le> n"
    have lba: "(off + k) div ?ss = off div ?ss + k div ?ss" for k
      using a(1) by (auto simp: div_add)
    show "fst (fault_read f off buf) ! j =
        (if (off + j) div ?ss \<in> set (fi_bad_lbas f) then 0 else byte_at (off + j))"
      if "j < length buf"
      using fault_read_effect(3) [OF wb a(1) that] inner_content [OF a that] by (simp add: lba)
    show "rr_status (snd (fault_read f off buf)) i =
        (if off div ?ss + i \<in> set (fi_bad_lbas f) then Bad else stat (off div ?ss + i))"
      if "i < div_ceil (length buf) ?ss"
      using fault_read_effect(4) [OF wb a(1) that] inner_status [OF a that] by simp
  qed
qed

lemma set_fault_new [simp]: "set (fi_bad_lbas (fault_new inner lbas)) = set lbas"
  by (simp add: fault_new_def)

section \<open>A window into a source\<close>

record offset_view =
  ov_inner :: source
  ov_start :: nat
  ov_len :: nat
  ov_id :: string

definition offset_view_new :: "source \<Rightarrow> nat \<Rightarrow> nat \<Rightarrow> block_error + offset_view" where
  "offset_view_new inner start len =
     (let ss = s_sector_size inner; parent_len = s_len inner in
      if ss \<noteq> 0 \<and> start mod ss \<noteq> 0 then
        Inl (Geometry (''offset-view start '' @ show_nat start @ '' not aligned to sector size '' @ show_nat ss))
      else if parent_len < start \<or> parent_len - start < len then
        Inl (WindowOutOfRange start len parent_len)
      else Inr \<lparr>ov_inner = inner, ov_start = start, ov_len = len,
        ov_id = ''view:'' @ s_id inner @ '':'' @ show_nat start @ ''+'' @ show_nat len\<rparr>)"

definition view_read :: "offset_view \<Rightarrow> read_fn" where
  "view_read v offset buf =
     (let sector_size = s_sector_size (ov_inner v);
          ss = max sector_size 1;
          sector_count = div_ceil (length buf) ss
      in if ov_len v \<le> offset \<or> offset mod ss \<noteq> 0 then
           (zeros (length buf), mark_bads [0..<sector_count] (rr_good sector_size sector_count))
         else
           let parent_off = wadd64 (align_down (ov_start v) ss) offset;
               avail = min (ov_len v - offset) (length buf)
           in if avail = length buf then s_read_at (ov_inner v) parent_off buf
              else
                let inner = s_read_at (ov_inner v) parent_off (take avail buf);
                    res = rr_good sector_size sector_count;
                    res = mark_bads (rr_bad_sectors (snd inner)) res;
                    res = mark_unreads (rr_unread_sectors (snd inner)) res
                in (fst inner @ zeros (length buf - avail),
                    mark_bad_from_byte res sector_size (length buf) avail))"

definition view_source :: "offset_view \<Rightarrow> source" where
  "view_source v = \<lparr>s_len = ov_len v, s_sector_size = s_sector_size (ov_inner v),
     s_physical_sector_size = s_physical_sector_size (ov_inner v), s_read_at = view_read v, s_id = ov_id v\<rparr>"

lemma well_behaved_view:
  assumes wb: "well_behaved (ov_inner v)" and al: "ov_start v mod s_sector_size (ov_inner v) = 0"
    and fit: "ov_start v + ov_len v \<le> u64_max"
  shows "well_behaved (view_source v)"
proof -
  let ?ss = "s_sector_size (ov_inner v)"
  have bsrc: "block_source (s_read_at (ov_inner v)) ?ss" using wb by (simp add: well_behaved_def)
  note ss_pos = block_source.ss_pos [OF bsrc]
  note fills = block_source.fills [OF bsrc]
  note overwrites = block_source.overwrites [OF bsrc]
  note shape = block_source.shape [OF bsrc]
  have m: "max ?ss 1 = ?ss" "max ?ss (Suc 0) = ?ss" using ss_pos by simp_all
  have "block_source (view_read v) ?ss"
  proof
    fix off i :: nat and buf buf' :: bytes
    show "0 < ?ss" by (rule ss_pos)
    show "length (fst (view_read v off buf)) = length buf"
      by (auto simp: view_read_def Let_def fills)
    show "rr_shape ?ss (div_ceil (length buf) ?ss) (snd (view_read v off buf))"
      using shape [of buf] by (auto simp: view_read_def Let_def m rr_simps)
    show "view_read v off buf = view_read v off buf'" if "length buf = length buf'"
    proof -
      have "s_read_at (ov_inner v) o' (take k buf) = s_read_at (ov_inner v) o' (take k buf')" for o' k
        using that by (intro overwrites) simp
      then show ?thesis using overwrites [OF that] that by (simp only: view_read_def)
    qed
    show "rr_status (snd (view_read v off buf)) i = Bad"
      if "off mod ?ss \<noteq> 0" "i < div_ceil (length buf) ?ss"
      using that rr_status_mark_bads [OF rr_shape_good] by (simp add: view_read_def Let_def m)
  qed
  then show ?thesis by (simp add: well_behaved_def view_source_def)
qed

text \<open>A view never hands out a byte of its neighbours: at and past its end every byte of the buffer
  is zero and every sector that holds one is bad.\<close>

lemma view_read_confined:
  assumes wb: "well_behaved (ov_inner v)" and len: "length buf \<le> u64_max"
    and j: "j < length buf" "ov_len v \<le> offset + j"
  shows "fst (view_read v offset buf) ! j = 0"
    and "rr_status (snd (view_read v offset buf)) (j div s_sector_size (ov_inner v)) = Bad"
proof -
  let ?ss = "s_sector_size (ov_inner v)"
  have bsrc: "block_source (s_read_at (ov_inner v)) ?ss" using wb by (simp add: well_behaved_def)
  note ss_pos = block_source.ss_pos [OF bsrc]
  note fills = block_source.fills [OF bsrc]
  let ?avail = "min (ov_len v - offset) (length buf)"
  have js: "j div ?ss < div_ceil (length buf) ?ss" using div_less_div_ceil [OF ss_pos j(1)] .
  show "fst (view_read v offset buf) ! j = 0"
    using j by (auto simp: view_read_def Let_def nth_append fills)
  show "rr_status (snd (view_read v offset buf)) (j div ?ss) = Bad"
  proof (cases "ov_len v \<le> offset \<or> offset mod ?ss \<noteq> 0")
    case True
    then show ?thesis using js ss_pos rr_status_mark_bads [OF rr_shape_good] by (simp add: view_read_def Let_def)
  next
    case False
    then have av: "?avail \<noteq> length buf" "?avail \<le> j" using j by auto
    have "j < Suc (j div ?ss) * ?ss" using ss_pos by (metis dividend_less_div_times mult_Suc add.commute)
    then have "?avail < min (Suc (j div ?ss) * ?ss) (length buf)" using av j by simp
    moreover have "rr_status (mark_bad_from_byte (mark_unreads us (mark_bads bs
          (rr_good ?ss (div_ceil (length buf) ?ss)))) ?ss (length buf) from) (j div ?ss) =
        (if from < min (Suc (j div ?ss) * ?ss) (length buf) then Bad else rr_status (mark_unreads us (mark_bads bs
          (rr_good ?ss (div_ceil (length buf) ?ss)))) (j div ?ss))" for us bs "from"
      using js by (subst status_mark_bad_from_byte [OF rr_shape_marks(2) [OF rr_shape_marks(1) [OF rr_shape_good]] ss_pos len])
        simp
    ultimately show ?thesis using False av
      by (simp add: view_read_def Let_def ss_pos)
  qed
qed

lemma sector_source_view:
  assumes src: "sector_source (s_read_at (ov_inner v)) (s_sector_size (ov_inner v)) n byte_at stat"
    and al: "ov_start v mod s_sector_size (ov_inner v) = 0"
    and fit: "ov_start v + ov_len v \<le> n" "n \<le> u64_max"
  shows "sector_source (view_read v) (s_sector_size (ov_inner v)) (ov_len v)
    (\<lambda>j. byte_at (ov_start v + j)) (\<lambda>l. stat (ov_start v div s_sector_size (ov_inner v) + l))"
proof -
  let ?ss = "s_sector_size (ov_inner v)"
  have inner_src: "sector_source (s_read_at (ov_inner v)) ?ss n byte_at stat" by (rule src)
  note inner_bsrc = sector_source.axioms(1) [OF inner_src]
  note inner_content = sector_source.content [OF inner_src]
  note inner_status = sector_source.status [OF inner_src]
  note inner_ss_pos = block_source.ss_pos [OF inner_bsrc]
  have "well_behaved (ov_inner v)" by (simp add: well_behaved_def inner_bsrc)
  then have bsrc: "block_source (view_read v) ?ss"
    using well_behaved_view [of v] al fit by (simp add: well_behaved_def view_source_def)
  show ?thesis
  proof (rule sector_sourceI [OF bsrc])
    fix off j i and buf :: bytes
    assume a: "off mod ?ss = 0" "off + length buf \<le> ov_len v"
    have eq: "view_read v off buf = s_read_at (ov_inner v) (ov_start v + off) buf" if "buf \<noteq> []"
    proof -
      from that have "0 < length buf" by simp
      then have "off < ov_len v" "min (ov_len v - off) (length buf) = length buf" using a(2) by linarith+
      moreover have "align_down (ov_start v) ?ss = ov_start v" using al by (simp add: align_down_def)
      moreover have "wadd64 (ov_start v) off = ov_start v + off" using calculation fit by (simp add: wadd64_exact)
      ultimately show ?thesis using a inner_ss_pos by (simp add: view_read_def Let_def)
    qed
    have al': "(ov_start v + off) mod ?ss = 0" "ov_start v + off + length buf \<le> n"
      using a al fit by (simp_all add: mod_add_eq [symmetric])
    have lba: "(ov_start v + off) div ?ss = ov_start v div ?ss + off div ?ss"
      using a(1) by (auto simp: div_add)
    show "fst (view_read v off buf) ! j = byte_at (ov_start v + (off + j))" if "j < length buf"
      using that inner_content [OF al' that] eq by (cases "buf = []") (simp_all add: add.assoc)
    show "rr_status (snd (view_read v off buf)) i = stat (ov_start v div ?ss + (off div ?ss + i))"
      if "i < div_ceil (length buf) ?ss"
      using that inner_status [OF al' that] eq lba by (cases "buf = []") (simp_all add: add.assoc)
  qed
qed

lemma offset_view_new_ok:
  "offset_view_new inner start len = Inr v \<Longrightarrow>
    ov_inner v = inner \<and> ov_start v = start \<and> ov_len v = len \<and>
    (s_sector_size inner \<noteq> 0 \<longrightarrow> start mod s_sector_size inner = 0) \<and> start + len \<le> s_len inner"
  by (auto simp: offset_view_new_def Let_def split: if_splits)

end
