(* ===== verification/ReadCache.thy ===== *)
theory ReadCache
  imports Media "HOL-Library.AList"
begin

text \<open>
  The LRU read-ahead cache of \<^verbatim>\<open>crates/reclaim-block/src/cache.rs\<close>. The hash map behind the mutex
  is an association list (its iteration order stands for the map's unspecified one) and is passed
  through each read. The main result is that the cache is transparent: from every state it can
  reach, a read within the source returns what the wrapped source returns, except that sectors the
  source reports unread come back good, which the code's per-chunk bitmap (bad sectors only) causes.
\<close>

section \<open>State\<close>

record cache_entry =
  ce_data :: bytes
  ce_bad :: bitset
  ce_last_used :: nat

record cache_state =
  cs_map :: "(nat \<times> cache_entry) list"
  cs_tick :: nat

record read_cache =
  rc_inner :: source
  rc_chunk_size :: nat
  rc_sector_size :: nat
  rc_physical_sector_size :: nat
  rc_len :: nat
  rc_capacity_chunks :: nat
  rc_id :: string

definition cache_init :: cache_state where
  "cache_init = \<lparr>cs_map = [], cs_tick = 0\<rparr>"

definition cache_with_capacity :: "source \<Rightarrow> nat \<Rightarrow> read_cache" where
  "cache_with_capacity inner capacity_chunks =
     (let sector_size = max (s_sector_size inner) 1 in
      \<lparr>rc_inner = inner,
       rc_chunk_size = align_up 1048576 sector_size,
       rc_sector_size = sector_size,
       rc_physical_sector_size = max (s_physical_sector_size inner) sector_size,
       rc_len = s_len inner,
       rc_capacity_chunks = max capacity_chunks 1,
       rc_id = ''cache:'' @ s_id inner\<rparr>)"

definition cache_new :: "source \<Rightarrow> read_cache" where
  "cache_new inner = cache_with_capacity inner 64"

definition resident_chunks :: "cache_state \<Rightarrow> nat" where
  "resident_chunks st = length (cs_map st)"

section \<open>Fetching and evicting chunks\<close>

definition cache_fetch :: "read_cache \<Rightarrow> nat \<Rightarrow> cache_entry" where
  "cache_fetch c idx =
     (let chunk_start = sat_mul64 idx (rc_chunk_size c);
          chunk_len = min (rc_chunk_size c) (rc_len c - chunk_start)
      in if chunk_len = 0 then \<lparr>ce_data = zeros chunk_len, ce_bad = bitset_new 0, ce_last_used = 0\<rparr>
         else let rr = s_read_at (rc_inner c) chunk_start (zeros chunk_len) in
           \<lparr>ce_data = fst rr,
            ce_bad = fold (\<lambda>i b. bitset_set b i) (rr_bad_sectors (snd rr)) (bitset_new (rr_sector_count (snd rr))),
            ce_last_used = 0\<rparr>)"

text \<open>\<^verbatim>\<open>Iterator::min_by_key\<close>: the first element with the least key.\<close>

fun min_by_key :: "('a \<Rightarrow> nat) \<Rightarrow> 'a list \<Rightarrow> 'a option" where
  "min_by_key f [] = None"
| "min_by_key f (x # xs) =
     (case min_by_key f xs of None \<Rightarrow> Some x | Some y \<Rightarrow> if f y < f x then Some y else Some x)"

lemma min_by_key_None [simp]: "min_by_key f xs = None \<longleftrightarrow> xs = []"
  by (cases xs) (auto split: option.splits)

lemma min_by_key_Some: "min_by_key f xs = Some x \<Longrightarrow> x \<in> set xs \<and> (\<forall>y \<in> set xs. f x \<le> f y)"
  by (induction xs arbitrary: x) (force split: option.splits if_splits)+

lemma length_delete_less: "k \<in> fst ` set al \<Longrightarrow> length (AList.delete k al) < length al"
  by (force simp: AList.delete_eq length_filter_less)

function cache_evict :: "nat \<Rightarrow> (nat \<times> cache_entry) list \<Rightarrow> (nat \<times> cache_entry) list" where
  "cache_evict capacity m =
     (if length m \<le> capacity then m
      else case min_by_key (\<lambda>p. ce_last_used (snd p)) m of
        None \<Rightarrow> m
      | Some v \<Rightarrow> cache_evict capacity (AList.delete (fst v) m))"
  by pat_completeness auto
termination
  by (relation "measure (\<lambda>(capacity, m). length m)") (auto dest!: min_by_key_Some intro!: length_delete_less)

declare cache_evict.simps [simp del]

section \<open>Reading\<close>

text \<open>The inner loop over the request's sectors within one chunk: propagate a bad sector and zero
  its bytes.\<close>

definition cache_sector ::
  "nat \<Rightarrow> nat \<Rightarrow> nat \<Rightarrow> bitset \<Rightarrow> nat \<Rightarrow> bytes \<times> read_result \<Rightarrow> bytes \<times> read_result" where
  "cache_sector ss offset chunk_start bad r st =
     (let abs = offset + r * ss;
          chunk_rel = wsub64 abs chunk_start;
          csec = chunk_rel div ss
      in if bitset_get bad csec
         then (let sstart = r * ss; send = min (sstart + ss) (length (fst st))
               in (zero_range (fst st) sstart send, rr_mark_bad (snd st) r))
         else st)"

text \<open>The part of one iteration that serves the request from a resident chunk: copy \<open>span\<close> bytes
  starting \<open>within\<close> bytes into the chunk, then mark the bad sectors they touch.\<close>

definition cache_copy_span ::
  "nat \<Rightarrow> nat \<Rightarrow> nat \<Rightarrow> cache_entry \<Rightarrow> nat \<Rightarrow> nat \<Rightarrow> nat \<Rightarrow> bytes \<times> read_result \<Rightarrow> bytes \<times> read_result" where
  "cache_copy_span ss offset chunk_start e within span buf_off st =
     (let buf = (case get_slice (ce_data e) within (within + span) of
            None \<Rightarrow> fst st
          | Some src \<Rightarrow> blit_checked (fst st) buf_off src);
          first_r = buf_off div ss;
          last_r = (buf_off + span - 1) div ss
      in fold (cache_sector ss offset chunk_start (ce_bad e)) [first_r..<Suc last_r] (buf, snd st))"

text \<open>\<^verbatim>\<open>guard.map.entry(idx).or_insert_with(|| self.fetch(idx))\<close> and the recency bump.\<close>

definition cache_touch :: "read_cache \<Rightarrow> nat \<Rightarrow> cache_state \<Rightarrow> cache_entry \<times> cache_state" where
  "cache_touch c idx st =
     (let tick = sat_add64 (cs_tick st) 1;
          entry = (case map_of (cs_map st) idx of None \<Rightarrow> cache_fetch c idx | Some e \<Rightarrow> e);
          entry = entry\<lparr>ce_last_used := tick\<rparr>
      in (entry, st\<lparr>cs_map := AList.update idx entry (cs_map st), cs_tick := tick\<rparr>))"

function cache_loop ::
  "read_cache \<Rightarrow> nat \<Rightarrow> nat \<Rightarrow> nat \<Rightarrow> bytes \<times> read_result \<Rightarrow> cache_state \<Rightarrow> (bytes \<times> read_result) \<times> cache_state" where
  "cache_loop c offset readable_end pos br st =
     (if readable_end \<le> pos then (br, st)
      else
        let idx = pos div rc_chunk_size c;
            chunk_start = sat_mul64 idx (rc_chunk_size c);
            t = cache_touch c idx st;
            data_len = length (ce_data (fst t));
            within = pos - chunk_start
        in if data_len \<le> within then (br, snd t)
           else
             let span = min (data_len - within) (readable_end - pos)
             in cache_loop c offset readable_end (pos + span)
                  (cache_copy_span (rc_sector_size c) offset chunk_start (fst t) within span (pos - offset) br)
                  (snd t))"
  by pat_completeness auto
termination
  by (relation "measure (\<lambda>(c, offset, readable_end, pos, br, st). readable_end - pos)") auto

declare cache_loop.simps [simp del]

definition cache_read :: "read_cache \<Rightarrow> cache_state \<Rightarrow> nat \<Rightarrow> bytes \<Rightarrow> (bytes \<times> read_result) \<times> cache_state" where
  "cache_read c st offset buf =
     (let ss = rc_sector_size c;
          sector_count = div_ceil (length buf) ss;
          res = rr_good ss sector_count;
          buf0 = zeros (length buf)
      in if buf = [] then ((buf0, res), st)
         else if offset mod ss \<noteq> 0 \<or> rc_len c \<le> offset
           then ((buf0, mark_bads [0..<sector_count] res), st)
         else
           let end = wadd64 offset (length buf);
               readable_end = min end (rc_len c);
               out = cache_loop c offset readable_end offset (buf0, res) st;
               st1 = (snd out)\<lparr>cs_map := cache_evict (rc_capacity_chunks c) (cs_map (snd out))\<rparr>;
               br = fst out
           in if readable_end < end
              then ((fst br, mark_bad_from_byte (snd br) ss (length buf) (readable_end - offset)), st1)
              else (br, st1))"

text \<open>The read method at a given cache state, without the state it leaves.\<close>

definition cache_read_fn :: "read_cache \<Rightarrow> cache_state \<Rightarrow> read_fn" where
  "cache_read_fn c st offset buf = fst (cache_read c st offset buf)"

section \<open>Frame: buffer length, result shape, chunk validity\<close>

lemma cache_sector_frame:
  "length (fst (cache_sector ss offset cs bad r st)) = length (fst st)"
  "rr_shape ss' n (snd st) \<Longrightarrow> rr_shape ss' n (snd (cache_sector ss offset cs bad r st))"
  by (simp_all add: cache_sector_def Let_def rr_simps)

lemma cache_sectors_frame:
  "length (fst (fold (cache_sector ss offset cs bad) rs st)) = length (fst st)"
  "rr_shape ss' n (snd st) \<Longrightarrow> rr_shape ss' n (snd (fold (cache_sector ss offset cs bad) rs st))"
  by (induction rs arbitrary: st) (simp_all add: cache_sector_frame)

lemma cache_copy_span_frame:
  "length (fst (cache_copy_span ss offset cs e w sp bo st)) = length (fst st)"
  "rr_shape ss' n (snd st) \<Longrightarrow> rr_shape ss' n (snd (cache_copy_span ss offset cs e w sp bo st))"
  by (simp_all add: cache_copy_span_def Let_def cache_sectors_frame split: option.split)

text \<open>A Hoare rule for the loop: an invariant kept by every iteration that copies holds when the loop
  ends, by its guard or by the early \<^verbatim>\<open>break\<close>.\<close>

lemma cache_loop_rule:
  assumes inv: "I pos br st"
    and stop: "\<And>pos br st. I pos br st \<Longrightarrow> readable_end \<le> pos \<Longrightarrow> Q br st"
    and brk: "\<And>pos br st t chunk_start. I pos br st \<Longrightarrow> pos < readable_end \<Longrightarrow>
      t = cache_touch c (pos div rc_chunk_size c) st \<Longrightarrow>
      chunk_start = sat_mul64 (pos div rc_chunk_size c) (rc_chunk_size c) \<Longrightarrow>
      length (ce_data (fst t)) \<le> pos - chunk_start \<Longrightarrow> Q br (snd t)"
    and step: "\<And>pos br st t chunk_start span. I pos br st \<Longrightarrow> pos < readable_end \<Longrightarrow>
      t = cache_touch c (pos div rc_chunk_size c) st \<Longrightarrow>
      chunk_start = sat_mul64 (pos div rc_chunk_size c) (rc_chunk_size c) \<Longrightarrow>
      pos - chunk_start < length (ce_data (fst t)) \<Longrightarrow>
      span = min (length (ce_data (fst t)) - (pos - chunk_start)) (readable_end - pos) \<Longrightarrow>
      I (pos + span) (cache_copy_span (rc_sector_size c) offset chunk_start (fst t) (pos - chunk_start) span (pos - offset) br) (snd t)"
  shows "Q (fst (cache_loop c offset readable_end pos br st)) (snd (cache_loop c offset readable_end pos br st))"
  using inv
proof (induction "readable_end - pos" arbitrary: pos br st rule: less_induct)
  case less
  define t where "t = cache_touch c (pos div rc_chunk_size c) st"
  define cs where "cs = sat_mul64 (pos div rc_chunk_size c) (rc_chunk_size c)"
  define span where "span = min (length (ce_data (fst t)) - (pos - cs)) (readable_end - pos)"
  consider "readable_end \<le> pos" | "pos < readable_end" "length (ce_data (fst t)) \<le> pos - cs"
    | "pos < readable_end" "pos - cs < length (ce_data (fst t))" by linarith
  then show ?case
  proof cases
    case 1
    then show ?thesis using stop [OF less.prems] by (simp add: cache_loop.simps)
  next
    case 2
    then show ?thesis using brk [OF less.prems 2(1) t_def cs_def]
      by (subst (1 2) cache_loop.simps) (simp add: Let_def t_def cs_def)
  next
    case 3
    have "readable_end - (pos + span) < readable_end - pos" using 3 by (simp add: span_def)
    from less.hyps [OF this step [OF less.prems 3(1) t_def cs_def 3(2) span_def]]
    show ?thesis using 3
      by (subst (1 2) cache_loop.simps) (simp add: Let_def t_def [symmetric] cs_def [symmetric] span_def [symmetric])
  qed
qed

lemma cache_loop_frame:
  assumes "rr_shape ss' n (snd br)"
  shows "length (fst (fst (cache_loop c offset re pos br st))) = length (fst br)"
    and "rr_shape ss' n (snd (fst (cache_loop c offset re pos br st)))"
proof -
  have "length (fst (fst (cache_loop c offset re pos br st))) = length (fst br) \<and>
      rr_shape ss' n (snd (fst (cache_loop c offset re pos br st)))"
    by (rule cache_loop_rule [where I = "\<lambda>pos b st. length (fst b) = length (fst br) \<and> rr_shape ss' n (snd b)"])
      (use assms in \<open>auto simp: cache_copy_span_frame\<close>)
  then show "length (fst (fst (cache_loop c offset re pos br st))) = length (fst br)"
    and "rr_shape ss' n (snd (fst (cache_loop c offset re pos br st)))" by blast+
qed

text \<open>A cache state is valid when every resident chunk holds what fetching it again would give, and
  no chunk is resident twice.\<close>

definition cache_valid :: "read_cache \<Rightarrow> cache_state \<Rightarrow> bool" where
  "cache_valid c st \<longleftrightarrow> distinct (map fst (cs_map st)) \<and>
     (\<forall>idx e. map_of (cs_map st) idx = Some e \<longrightarrow>
        ce_data e = ce_data (cache_fetch c idx) \<and> ce_bad e = ce_bad (cache_fetch c idx))"

lemma cache_valid_init [simp]: "cache_valid c cache_init"
  by (simp add: cache_valid_def cache_init_def)

lemma cache_touch_valid:
  assumes "cache_valid c st"
  shows "cache_valid c (snd (cache_touch c idx st))"
    and "ce_data (fst (cache_touch c idx st)) = ce_data (cache_fetch c idx)"
    and "ce_bad (fst (cache_touch c idx st)) = ce_bad (cache_fetch c idx)"
  using assms
  by (auto simp: cache_valid_def cache_touch_def Let_def distinct_update update_conv' split: option.splits)

lemma cache_loop_valid:
  "cache_valid c st \<Longrightarrow> cache_valid c (snd (cache_loop c offset re pos br st))"
  by (rule cache_loop_rule [where I = "\<lambda>pos br st. cache_valid c st" and Q = "\<lambda>br st. cache_valid c st"])
    (simp_all add: cache_touch_valid)

lemma cache_evict_small: "length m \<le> cap \<Longrightarrow> cache_evict cap m = m"
  by (simp add: cache_evict.simps)

text \<open>Induction over the evictions: while the map is too large, a least recently used entry goes.\<close>

lemma cache_evict_rule [consumes 0, case_names fits evict]:
  assumes "\<And>m. length m \<le> cap \<Longrightarrow> P m m"
    and "\<And>m v. cap < length m \<Longrightarrow> v \<in> set m \<Longrightarrow>
      (\<And>y. y \<in> set m \<Longrightarrow> ce_last_used (snd v) \<le> ce_last_used (snd y)) \<Longrightarrow>
      P (AList.delete (fst v) m) (cache_evict cap (AList.delete (fst v) m)) \<Longrightarrow>
      P m (cache_evict cap (AList.delete (fst v) m))"
  shows "P m (cache_evict cap m)"
proof (induction "length m" arbitrary: m rule: less_induct)
  case less
  show ?case
  proof (cases "length m \<le> cap")
    case True
    then show ?thesis using assms(1) by (simp add: cache_evict_small)
  next
    case False
    then obtain v where v: "min_by_key (\<lambda>p. ce_last_used (snd p)) m = Some v"
      by (cases "min_by_key (\<lambda>p. ce_last_used (snd p)) m") auto
    have min: "v \<in> set m" "\<And>y. y \<in> set m \<Longrightarrow> ce_last_used (snd v) \<le> ce_last_used (snd y)"
      using min_by_key_Some [OF v] by auto
    have "length (AList.delete (fst v) m) < length m" using min(1) by (intro length_delete_less) simp
    then have "P m (cache_evict cap (AList.delete (fst v) m))"
      using assms(2) [OF _ min less.hyps] False by simp
    moreover have "cache_evict cap m = cache_evict cap (AList.delete (fst v) m)"
      using v False by (subst cache_evict.simps) simp
    ultimately show ?thesis by simp
  qed
qed

lemma set_delete: "set (AList.delete k m) = {p \<in> set m. fst p \<noteq> k}"
  by (auto simp: AList.delete_eq)

lemma cache_valid_delete:
  "cache_valid c (st\<lparr>cs_map := m\<rparr>) \<Longrightarrow> cache_valid c (st\<lparr>cs_map := AList.delete k m\<rparr>)"
  by (simp add: cache_valid_def distinct_delete delete_conv')

lemma cache_evict_valid:
  assumes "cache_valid c (st\<lparr>cs_map := m\<rparr>)"
  shows "cache_valid c (st\<lparr>cs_map := cache_evict cap m\<rparr>)"
proof -
  have "cache_valid c (st\<lparr>cs_map := m\<rparr>) \<longrightarrow> cache_valid c (st\<lparr>cs_map := cache_evict cap m\<rparr>)"
    by (rule cache_evict_rule [where P = "\<lambda>m e. cache_valid c (st\<lparr>cs_map := m\<rparr>) \<longrightarrow> cache_valid c (st\<lparr>cs_map := e\<rparr>)"])
      (use cache_valid_delete in blast)+
  then show ?thesis using assms by blast
qed

lemma length_cache_evict: "length (cache_evict cap m) \<le> cap"
  by (rule cache_evict_rule [where P = "\<lambda>m e. length e \<le> cap"])

lemma cache_read_valid: "cache_valid c st \<Longrightarrow> cache_valid c (snd (cache_read c st offset buf))"
  by (auto simp: cache_read_def Let_def cache_loop_valid cache_evict_valid)

lemma cache_read_capacity:
  "resident_chunks st \<le> rc_capacity_chunks c \<Longrightarrow>
    resident_chunks (snd (cache_read c st offset buf)) \<le> rc_capacity_chunks c"
  by (simp add: cache_read_def Let_def resident_chunks_def length_cache_evict)

text \<open>Eviction drops the least recently used chunks: whatever survives was used no earlier than
  whatever went.\<close>

lemma cache_evict_subset: "set (cache_evict cap m) \<subseteq> set m"
  by (rule cache_evict_rule [where P = "\<lambda>m e. set e \<subseteq> set m"]) (auto simp: set_delete)

lemma cache_evict_lru:
  "distinct (map fst m) \<longrightarrow> p \<in> set (cache_evict cap m) \<longrightarrow> q \<in> set m \<longrightarrow> q \<notin> set (cache_evict cap m)
    \<longrightarrow> ce_last_used (snd q) \<le> ce_last_used (snd p)"
proof (rule cache_evict_rule [where P = "\<lambda>m e. distinct (map fst m) \<longrightarrow> p \<in> set e \<longrightarrow>
    q \<in> set m \<longrightarrow> q \<notin> set e \<longrightarrow> ce_last_used (snd q) \<le> ce_last_used (snd p)"])
  fix m v
  assume v: "v \<in> set m" and least: "\<And>y. y \<in> set m \<Longrightarrow> ce_last_used (snd v) \<le> ce_last_used (snd y)"
    and IH: "distinct (map fst (AList.delete (fst v) m)) \<longrightarrow> p \<in> set (cache_evict cap (AList.delete (fst v) m)) \<longrightarrow>
      q \<in> set (AList.delete (fst v) m) \<longrightarrow> q \<notin> set (cache_evict cap (AList.delete (fst v) m)) \<longrightarrow>
      ce_last_used (snd q) \<le> ce_last_used (snd p)"
  show "distinct (map fst m) \<longrightarrow> p \<in> set (cache_evict cap (AList.delete (fst v) m)) \<longrightarrow>
      q \<in> set m \<longrightarrow> q \<notin> set (cache_evict cap (AList.delete (fst v) m)) \<longrightarrow>
      ce_last_used (snd q) \<le> ce_last_used (snd p)"
  proof (intro impI)
    assume d: "distinct (map fst m)" and p: "p \<in> set (cache_evict cap (AList.delete (fst v) m))"
      and q: "q \<in> set m" "q \<notin> set (cache_evict cap (AList.delete (fst v) m))"
    have pm: "p \<in> set m" using p cache_evict_subset [of cap "AList.delete (fst v) m"] by (auto simp: set_delete)
    show "ce_last_used (snd q) \<le> ce_last_used (snd p)"
    proof (cases "fst q = fst v")
      case True
      then have "q = v" using d q(1) v by (metis eq_key_imp_eq_value prod.collapse)
      then show ?thesis using least pm by simp
    next
      case False
      then show ?thesis using IH d p q by (simp add: set_delete distinct_delete)
    qed
  qed
qed simp

section \<open>Transparency\<close>

text \<open>What a cache over a source with bytes \<open>byte_at\<close> and statuses \<open>stat\<close> presents: bad sectors
  stay bad and read as zeros; every other sector, unread ones included, reads as good.\<close>

definition cached_byte :: "nat \<Rightarrow> (nat \<Rightarrow> byte) \<Rightarrow> (nat \<Rightarrow> sector_status) \<Rightarrow> nat \<Rightarrow> byte" where
  "cached_byte ss byte_at stat x = (if stat (x div ss) = Bad then 0 else byte_at x)"

definition cached_stat :: "(nat \<Rightarrow> sector_status) \<Rightarrow> nat \<Rightarrow> sector_status" where
  "cached_stat stat l = (if stat l = Bad then Bad else Good)"

text \<open>The geometry the constructor establishes.\<close>

definition cache_geometry :: "read_cache \<Rightarrow> bool" where
  "cache_geometry c \<longleftrightarrow> rc_sector_size c = s_sector_size (rc_inner c) \<and> rc_len c = s_len (rc_inner c) \<and>
     0 < rc_chunk_size c \<and> rc_chunk_size c mod rc_sector_size c = 0 \<and> rc_len c \<le> u64_max"

lemma cache_with_capacity_geometry:
  assumes "0 < s_sector_size inner" "s_sector_size inner < 4294967296" "s_len inner \<le> u64_max"
  shows "cache_geometry (cache_with_capacity inner cap)"
proof -
  have "align_up 1048576 (s_sector_size inner) = div_ceil 1048576 (s_sector_size inner) * s_sector_size inner"
    using assms by (intro align_up_eq) simp_all
  moreover have "0 < div_ceil 1048576 (s_sector_size inner)" using assms(1) by (simp add: less_div_ceil)
  ultimately show ?thesis using assms by (simp add: cache_geometry_def cache_with_capacity_def Let_def)
qed

lemma bits_set_all: "bitset_wf b \<Longrightarrow> bitset_get (fold (\<lambda>i b. bitset_set b i) is b) j
    \<longleftrightarrow> (j \<in> set is \<and> j < bits b) \<or> bitset_get b j"
  by (rule bs.look_put_all)

lemma cache_fetch_contents:
  assumes src: "sector_source (s_read_at (rc_inner c)) (rc_sector_size c) (rc_len c) byte_at stat"
    and geo: "cache_geometry c" and idx: "idx * rc_chunk_size c < rc_len c"
  defines "start \<equiv> idx * rc_chunk_size c"
  defines "len \<equiv> min (rc_chunk_size c) (rc_len c - start)"
  shows "length (ce_data (cache_fetch c idx)) = len"
    and "k < len \<Longrightarrow> ce_data (cache_fetch c idx) ! k = byte_at (start + k)"
    and "i < div_ceil len (rc_sector_size c) \<Longrightarrow>
      bitset_get (ce_bad (cache_fetch c idx)) i \<longleftrightarrow> stat (start div rc_sector_size c + i) = Bad"
proof -
  let ?ss = "rc_sector_size c"
  have ssrc: "sector_source (s_read_at (rc_inner c)) ?ss (rc_len c) byte_at stat" by (rule src)
  note bsrc = sector_source.axioms(1) [OF ssrc]
  note content = sector_source.content [OF ssrc]
  note status = sector_source.status [OF ssrc]
  note fills = block_source.fills [OF bsrc]
  note status_count = block_source.status_count [OF bsrc]
  have sat: "sat_mul64 idx (rc_chunk_size c) = start"
    using geo idx by (simp add: start_def sat_mul64_exact cache_geometry_def)
  have pos: "0 < len" using geo idx by (simp add: len_def start_def cache_geometry_def)
  have al: "start mod ?ss = 0"
  proof -
    have "?ss dvd rc_chunk_size c" using geo by (auto simp: cache_geometry_def)
    then show ?thesis by (simp add: start_def)
  qed
  have fit: "start + length (zeros len) \<le> rc_len c" using idx by (simp add: len_def start_def)
  let ?r = "s_read_at (rc_inner c) start (zeros len)"
  have f: "cache_fetch c idx = \<lparr>ce_data = fst ?r,
      ce_bad = fold (\<lambda>i b. bitset_set b i) (rr_bad_sectors (snd ?r)) (bitset_new (rr_sector_count (snd ?r))),
      ce_last_used = 0\<rparr>"
    using pos unfolding cache_fetch_def Let_def sat len_def [symmetric] by simp
  show "length (ce_data (cache_fetch c idx)) = len" by (simp add: f fills)
  show "ce_data (cache_fetch c idx) ! k = byte_at (start + k)" if "k < len"
    using content [OF al fit] that by (simp add: f)
  show "bitset_get (ce_bad (cache_fetch c idx)) i \<longleftrightarrow> stat (start div ?ss + i) = Bad" if "i < div_ceil len ?ss"
    using status [OF al fit] that status_count [of start "zeros len"]
    by (simp add: f bits_set_all set_rr_bad_sectors)
qed

text \<open>One served span, seen from the request: the sectors it covers get the source's bytes and
  statuses, everything else stays as it was.\<close>

lemma cache_sector_blank:
  "cache_sector ss offset cs bad = (\<lambda>r st. if bitset_get bad (wsub64 (offset + r * ss) cs div ss) then blank_sector ss r st else st)"
  by (intro ext) (simp add: cache_sector_def Let_def blank_sector_def)

definition served :: "nat \<Rightarrow> (nat \<Rightarrow> byte) \<Rightarrow> (nat \<Rightarrow> sector_status) \<Rightarrow> nat \<Rightarrow> nat \<Rightarrow> nat \<Rightarrow> bytes \<times> read_result \<Rightarrow> bool" where
  "served ss byte_at stat offset n pos br \<longleftrightarrow>
     length (fst br) = n \<and> rr_shape ss (div_ceil n ss) (snd br) \<and>
     (\<forall>j < n. fst br ! j = (if offset + j < pos then cached_byte ss byte_at stat (offset + j) else 0)) \<and>
     (\<forall>i < div_ceil n ss. rr_status (snd br) i =
        (if offset + i * ss < pos then cached_stat stat (offset div ss + i) else Good))"

lemma aligned_sector: "off mod ss = 0 \<Longrightarrow> (off + j) div ss = off div ss + j div (ss :: nat)"
  by (auto simp: div_add)

lemma cache_copy_span_served:
  assumes srv: "served ss byte_at stat offset n pos br"
    and ss: "0 < ss" and al: "offset mod ss = 0" "pos mod ss = 0" "cs mod ss = 0"
    and pos: "offset \<le> pos" "cs \<le> pos" "0 < span" "pos + span \<le> offset + n" "offset + n \<le> u64_max"
    and edge: "(pos + span) mod ss = 0 \<or> pos + span = offset + n"
    and len: "pos - cs + span \<le> length (ce_data e)"
    and dat: "\<And>k. k < length (ce_data e) \<Longrightarrow> ce_data e ! k = byte_at (cs + k)"
    and bad: "\<And>i. i < div_ceil (length (ce_data e)) ss \<Longrightarrow> bitset_get (ce_bad e) i \<longleftrightarrow> stat (cs div ss + i) = Bad"
  shows "served ss byte_at stat offset n (pos + span) (cache_copy_span ss offset cs e (pos - cs) span (pos - offset) br)"
proof -
  define bo where "bo = pos - offset"
  define rs where "rs = [bo div ss..<Suc ((bo + span - 1) div ss)]"
  define P where "P r \<longleftrightarrow> bitset_get (ce_bad e) (wsub64 (offset + r * ss) cs div ss)" for r
  define b1 where "b1 = blit (fst br) bo (take span (drop (pos - cs) (ce_data e)))"
  from srv have blen: "length (fst br) = n" and sh: "rr_shape ss (div_ceil n ss) (snd br)"
    and byte: "\<And>j. j < n \<Longrightarrow> fst br ! j = (if offset + j < pos then cached_byte ss byte_at stat (offset + j) else 0)"
    and stt: "\<And>i. i < div_ceil n ss \<Longrightarrow> rr_status (snd br) i =
        (if offset + i * ss < pos then cached_stat stat (offset div ss + i) else Good)"
    by (auto simp: served_def)
  have bo: "bo mod ss = 0" "offset + bo = pos" "bo + span \<le> n"
    using al pos by (auto simp: bo_def mod_eq_dvd_iff_nat intro!: dvd_imp_mod_0 dvd_diff_nat)
  have rs: "i \<in> set rs \<longleftrightarrow> bo \<le> i * ss \<and> i * ss < bo + span" for i
  proof -
    have "bo div ss \<le> i \<longleftrightarrow> bo \<le> i * ss" using bo(1) ss by (metis div_mult_mod_eq add_0_right mult_le_cancel2)
    moreover have "i \<le> (bo + span - 1) div ss \<longleftrightarrow> i * ss < bo + span"
      using less_eq_div_iff_mult_less_eq [OF ss, of i "bo + span - 1"] pos(3) by auto
    ultimately show ?thesis by (auto simp: rs_def)
  qed
  have P: "P i \<longleftrightarrow> stat (offset div ss + i) = Bad" if "i \<in> set rs" for i
  proof -
    have i: "bo \<le> i * ss" "i * ss < bo + span" using that rs by simp_all
    have "cs \<le> offset + i * ss" using i pos bo by simp
    then have sub: "wsub64 (offset + i * ss) cs = offset + i * ss - cs"
      using i pos bo by (intro wsub64_exact) simp_all
    obtain a b where ab: "offset = a * ss" "cs = b * ss"
      using al by (metis mod_0_imp_dvd dvd_def mult.commute)
    then have csec: "(offset + i * ss - cs) div ss = a + i - b"
      using ss by (simp add: add_mult_distrib [symmetric] diff_mult_distrib [symmetric])
    have le: "b \<le> a + i" using \<open>cs \<le> offset + i * ss\<close> ss by (simp add: ab add_mult_distrib [symmetric])
    have "(a + i - b) * ss < length (ce_data e)"
      using i pos bo len \<open>cs \<le> offset + i * ss\<close> by (simp add: ab diff_mult_distrib add_mult_distrib)
    then have "bitset_get (ce_bad e) (a + i - b) \<longleftrightarrow> stat (cs div ss + (a + i - b)) = Bad"
      using ss by (intro bad) (simp add: less_div_ceil)
    moreover have "P i \<longleftrightarrow> bitset_get (ce_bad e) (a + i - b)" by (simp add: P_def sub csec)
    moreover have "cs div ss + (a + i - b) = offset div ss + i" using le ss by (simp add: ab)
    ultimately show ?thesis by simp
  qed
  have span: "cache_copy_span ss offset cs e (pos - cs) span bo br
      = fold (\<lambda>r st. if P r then blank_sector ss r st else st) rs (b1, snd br)"
    using len bo blen unfolding cache_copy_span_def Let_def rs_def b1_def cache_sector_blank P_def
    by (simp add: get_slice_within blit_checked_def)
  have b1: "length b1 = n" using bo len blen by (simp add: b1_def)
  have b1_nth: "b1 ! j = (if bo \<le> j \<and> j < bo + span then byte_at (offset + j) else fst br ! j)" if j: "j < n" for j
  proof (cases "bo \<le> j \<and> j < bo + span")
    case True
    then have j': "j - bo < span" by auto
    have lens: "length (take span (drop (pos - cs) (ce_data e))) = span" using len by simp
    have "b1 ! j = take span (drop (pos - cs) (ce_data e)) ! (j - bo)"
      using True j blen bo lens by (simp add: b1_def nth_blit)
    also have "\<dots> = ce_data e ! (pos - cs + (j - bo))"
      using j' len by (simp only: nth_take, subst nth_drop) simp_all
    also have "\<dots> = byte_at (cs + (pos - cs + (j - bo)))"
      by (rule dat) (use j' len in linarith)
    also have "cs + (pos - cs + (j - bo)) = offset + j" using True pos bo by simp
    finally show ?thesis using True by simp
  next
    case False
    then show ?thesis using j len bo blen by (auto simp: b1_def nth_blit)
  qed
  have sector: "j div ss \<in> set rs \<longleftrightarrow> bo \<le> j \<and> j < bo + span" if j: "j < n" for j
  proof -
    have lo: "bo \<le> j div ss * ss \<longleftrightarrow> bo \<le> j"
      using bo(1) ss by (metis div_mult_mod_eq add_0_right less_eq_div_iff_mult_less_eq mult_le_cancel2)
    have "j div ss * ss < bo + span \<longleftrightarrow> j < bo + span"
    proof (cases "pos + span = offset + n")
      case True
      then have "bo + span = n" using bo by simp
      moreover have "j div ss * ss \<le> j" by (rule div_times_less_eq_dividend)
      ultimately show ?thesis using j by linarith
    next
      case False
      then have "(bo + span) mod ss = 0"
        using edge al bo by (metis mod_add_left_eq add.assoc add_0)
      then obtain k where "bo + span = k * ss" by (metis mod_0_imp_dvd dvd_def mult.commute)
      then show ?thesis using ss by (metis div_less_iff_less_mult mult_less_cancel2)
    qed
    then show ?thesis using lo rs by simp
  qed
  have sh': "rr_shape ss (div_ceil n ss) (snd (b1, snd br))" using sh by simp
  show ?thesis unfolding served_def bo_def [symmetric] span
  proof (intro conjI allI impI)
    fix j assume j: "j < n"
    have "fst (fold (\<lambda>r st. if P r then blank_sector ss r st else st) rs (b1, snd br)) ! j
        = (if j div ss \<in> set rs \<and> P (j div ss) then 0 else b1 ! j)"
      using blank_sectors(3) [OF ss sh'] j b1 by simp
    also have "\<dots> = (if offset + j < pos + span then cached_byte ss byte_at stat (offset + j) else 0)"
      using sector [OF j] P b1_nth [OF j] byte [OF j] bo
      by (auto simp: cached_byte_def aligned_sector [OF al(1)])
    finally show "fst (fold (\<lambda>r st. if P r then blank_sector ss r st else st) rs (b1, snd br)) ! j
        = (if offset + j < pos + span then cached_byte ss byte_at stat (offset + j) else 0)" .
  next
    fix i assume i: "i < div_ceil n ss"
    have "rr_status (snd (fold (\<lambda>r st. if P r then blank_sector ss r st else st) rs (b1, snd br))) i
        = (if i \<in> set rs \<and> P i then Bad else rr_status (snd br) i)"
      using blank_sectors(4) [OF ss sh'] i by simp
    also have "\<dots> = (if offset + i * ss < pos + span then cached_stat stat (offset div ss + i) else Good)"
      using rs P stt [OF i] bo by (auto simp: cached_stat_def)
    finally show "rr_status (snd (fold (\<lambda>r st. if P r then blank_sector ss r st else st) rs (b1, snd br))) i
        = (if offset + i * ss < pos + span then cached_stat stat (offset div ss + i) else Good)" .
  qed (use blank_sectors(1,2) [OF ss sh'] b1 in simp_all)
qed

lemma cache_loop_served:
  assumes src: "sector_source (s_read_at (rc_inner c)) (rc_sector_size c) (rc_len c) byte_at stat"
    and geo: "cache_geometry c" and val: "cache_valid c st"
    and al: "offset mod rc_sector_size c = 0" and fit: "offset + n \<le> rc_len c"
    and srv: "served (rc_sector_size c) byte_at stat offset n offset br"
  shows "served (rc_sector_size c) byte_at stat offset n (offset + n) (fst (cache_loop c offset (offset + n) offset br st))"
proof -
  let ?ss = "rc_sector_size c" and ?C = "rc_chunk_size c"
  have ssrc: "sector_source (s_read_at (rc_inner c)) ?ss (rc_len c) byte_at stat" by (rule src)
  note bsrc = sector_source.axioms(1) [OF ssrc]
  note ss_pos = block_source.ss_pos [OF bsrc]
  have C: "0 < ?C" "?ss dvd ?C" and L: "rc_len c \<le> u64_max" using geo by (auto simp: cache_geometry_def)
  let ?I = "\<lambda>pos br st. cache_valid c st \<and> offset \<le> pos \<and> pos \<le> offset + n \<and>
    (pos mod ?ss = 0 \<or> pos = offset + n) \<and> served ?ss byte_at stat offset n pos br"
  show ?thesis
  proof (rule cache_loop_rule [where I = ?I and Q = "\<lambda>br st. served ?ss byte_at stat offset n (offset + n) br"])
    fix pos br st t chunk_start
    assume I: "?I pos br st" and lt: "pos < offset + n"
      and t: "t = cache_touch c (pos div ?C) st" and cs: "chunk_start = sat_mul64 (pos div ?C) ?C"
    let ?start = "pos div ?C * ?C"
    have le: "?start \<le> pos" by simp
    have "?start \<le> u64_max" using le lt fit L by linarith
    then have cs': "chunk_start = ?start" by (simp add: cs sat_mul64_exact)
    have idx: "?start < rc_len c" using le lt fit by linarith
    have nxt: "pos < ?start + ?C" using C(1) by (simp add: dividend_less_div_times add.commute)
    have val: "cache_valid c st" using I by blast
    note fetch = cache_fetch_contents [OF src geo idx]
    have data: "ce_data (fst t) = ce_data (cache_fetch c (pos div ?C))" "ce_bad (fst t) = ce_bad (cache_fetch c (pos div ?C))"
      using cache_touch_valid [OF val] t by simp_all
    have dlen: "length (ce_data (fst t)) = min ?C (rc_len c - ?start)" using fetch(1) data by simp
    have within: "pos - ?start < length (ce_data (fst t))" unfolding dlen using nxt lt fit le by linarith
    show "served ?ss byte_at stat offset n (offset + n) br"
      if "length (ce_data (fst t)) \<le> pos - chunk_start" using that within cs' by simp
    fix span assume span: "span = min (length (ce_data (fst t)) - (pos - chunk_start)) (offset + n - pos)"
    have sp: "0 < span" "pos + span \<le> offset + n" "pos - ?start + span \<le> length (ce_data (fst t))"
      using within lt span cs' by auto
    have edge: "(pos + span) mod ?ss = 0 \<or> pos + span = offset + n"
    proof (cases "pos + span = offset + n")
      case False
      then have "span = length (ce_data (fst t)) - (pos - ?start)" using span cs' sp by auto
      then have "pos + span = ?start + length (ce_data (fst t))" using within le by simp
      moreover have "length (ce_data (fst t)) = ?C" using calculation dlen False sp fit idx by (auto simp: min_def split: if_splits)
      ultimately have "pos + span = (pos div ?C + 1) * ?C" by simp
      then show ?thesis using C(2) by (metis dvd_eq_mod_eq_0 dvd_mult)
    qed simp
    have "served ?ss byte_at stat offset n (pos + span)
        (cache_copy_span ?ss offset ?start (fst t) (pos - ?start) span (pos - offset) br)"
    proof (rule cache_copy_span_served)
      show "?start mod ?ss = 0" using C(2) by (simp add: dvd_eq_mod_eq_0 [symmetric])
      show "ce_data (fst t) ! k = byte_at (?start + k)" if "k < length (ce_data (fst t))" for k
        using that fetch(2) dlen data by simp
      show "bitset_get (ce_bad (fst t)) i \<longleftrightarrow> stat (?start div ?ss + i) = Bad"
        if "i < div_ceil (length (ce_data (fst t))) ?ss" for i
        using that fetch(3) dlen data by simp
    qed (use I lt al fit L sp le ss_pos edge in auto)
    moreover have "cache_valid c (snd t)" using cache_touch_valid(1) [OF val] t by simp
    ultimately show "?I (pos + span) (cache_copy_span ?ss offset chunk_start (fst t) (pos - chunk_start) span (pos - offset) br) (snd t)"
      using I sp edge cs' by simp
  next
    show "?I offset br st" using val al srv by simp
  next
    fix pos br st assume "?I pos br st" "offset + n \<le> pos"
    then show "served ?ss byte_at stat offset n (offset + n) br" by (metis le_antisym)
  qed
qed

lemma cache_read_served:
  assumes src: "sector_source (s_read_at (rc_inner c)) (rc_sector_size c) (rc_len c) byte_at stat"
    and geo: "cache_geometry c" and val: "cache_valid c st"
    and al: "offset mod rc_sector_size c = 0" and fit: "offset + length buf \<le> rc_len c"
  shows "served (rc_sector_size c) byte_at stat offset (length buf) (offset + length buf) (fst (cache_read c st offset buf))"
proof -
  let ?ss = "rc_sector_size c"
  have L: "rc_len c \<le> u64_max" using geo by (simp add: cache_geometry_def)
  have init: "served ?ss byte_at stat offset (length buf) offset (zeros (length buf), rr_good ?ss (div_ceil (length buf) ?ss))"
    by (simp add: served_def rr_simps)
  show ?thesis
  proof (cases "buf = []")
    case True
    then show ?thesis using init by (simp add: cache_read_def Let_def)
  next
    case False
    then have "\<not> rc_len c \<le> offset" "wadd64 offset (length buf) = offset + length buf"
      using fit L by (auto simp: wadd64_exact neq_Nil_conv)
    moreover have "min (offset + length buf) (rc_len c) = offset + length buf" using fit by simp
    ultimately have "fst (cache_read c st offset buf) = fst (cache_loop c offset (offset + length buf) offset
        (zeros (length buf), rr_good ?ss (div_ceil (length buf) ?ss)) st)"
      using False al by (simp add: cache_read_def Let_def)
    then show ?thesis using cache_loop_served [OF src geo val al fit init] by simp
  qed
qed

lemma block_source_cache:
  assumes "0 < rc_sector_size c"
  shows "block_source (cache_read_fn c st) (rc_sector_size c)"
proof
  fix off i :: nat and buf buf' :: bytes
  let ?ss = "rc_sector_size c"
  show "0 < ?ss" by (rule assms)
  have fr: "length (fst (fst (cache_loop c off re off (zeros m, rr_good ?ss k) st))) = m \<and>
      rr_shape ?ss k (snd (fst (cache_loop c off re off (zeros m, rr_good ?ss k) st)))" for re m k
    using cache_loop_frame [of ?ss k "(zeros m, rr_good ?ss k)" c off re off st] by (simp add: rr_shape_good)
  show "length (fst (cache_read_fn c st off buf)) = length buf"
    by (simp add: cache_read_fn_def cache_read_def Let_def fr)
  show "rr_shape ?ss (div_ceil (length buf) ?ss) (snd (cache_read_fn c st off buf))"
    by (simp add: cache_read_fn_def cache_read_def Let_def fr rr_simps)
  show "length buf = length buf' \<Longrightarrow> cache_read_fn c st off buf = cache_read_fn c st off buf'"
    unfolding cache_read_fn_def cache_read_def length_0_conv [symmetric] by (simp only:)
  show "rr_status (snd (cache_read_fn c st off buf)) i = Bad" if "off mod ?ss \<noteq> 0" "i < div_ceil (length buf) ?ss"
    using that rr_status_mark_bads [OF rr_shape_good]
    by (cases "buf = []") (simp_all add: cache_read_fn_def cache_read_def Let_def)
qed

lemma sector_source_cache:
  assumes src: "sector_source (s_read_at (rc_inner c)) (rc_sector_size c) (rc_len c) byte_at stat"
    and geo: "cache_geometry c" and val: "cache_valid c st"
  shows "sector_source (cache_read_fn c st) (rc_sector_size c) (rc_len c)
    (cached_byte (rc_sector_size c) byte_at stat) (cached_stat stat)"
proof -
  let ?ss = "rc_sector_size c"
  have inner_src: "sector_source (s_read_at (rc_inner c)) ?ss (rc_len c) byte_at stat" by (rule src)
  note inner_bsrc = sector_source.axioms(1) [OF inner_src]
  note inner_ss_pos = block_source.ss_pos [OF inner_bsrc]
  have bsrc: "block_source (cache_read_fn c st) ?ss" by (rule block_source_cache [OF inner_ss_pos])
  show ?thesis
  proof (rule sector_sourceI [OF bsrc])
    fix off j i and buf :: bytes
    assume a: "off mod ?ss = 0" "off + length buf \<le> rc_len c"
    note srv = cache_read_served [OF src geo val a, unfolded served_def]
    show "fst (cache_read_fn c st off buf) ! j = cached_byte ?ss byte_at stat (off + j)" if "j < length buf"
      using srv that by (simp add: cache_read_fn_def)
    show "rr_status (snd (cache_read_fn c st off buf)) i = cached_stat stat (off div ?ss + i)"
      if "i < div_ceil (length buf) ?ss"
      using srv that inner_ss_pos by (simp add: cache_read_fn_def less_div_ceil)
  qed
qed

section \<open>Reachable states\<close>

text \<open>The states the mutex can hold: the empty one and whatever a sequence of reads leaves.\<close>

inductive cache_reach :: "read_cache \<Rightarrow> cache_state \<Rightarrow> bool" for c where
  reach_init: "cache_reach c cache_init"
| reach_read: "cache_reach c st \<Longrightarrow> cache_reach c (snd (cache_read c st offset buf))"

lemma cache_reach_valid: "cache_reach c st \<Longrightarrow> cache_valid c st"
  by (induction rule: cache_reach.induct) (simp_all add: cache_read_valid)

lemma cache_reach_capacity: "cache_reach c st \<Longrightarrow> resident_chunks st \<le> rc_capacity_chunks c"
proof (induction rule: cache_reach.induct)
  case reach_init
  show ?case by (simp add: resident_chunks_def cache_init_def)
next
  case (reach_read st offset buf)
  then show ?case by (intro cache_read_capacity)
qed

text \<open>The contract of a cache in a reachable state, over a source that presents \<open>md\<close>.\<close>

lemma sector_source_reached:
  assumes p: "presents inner md" and small: "s_sector_size inner < 4294967296"
    and reach: "cache_reach (cache_with_capacity inner cap) st"
  shows "sector_source (cache_read_fn (cache_with_capacity inner cap) st) (s_sector_size inner) (s_len inner)
    (cached_byte (s_sector_size inner) (md_byte md) (md_stat md)) (cached_stat (md_stat md))"
proof -
  let ?c = "cache_with_capacity inner cap"
  have ss: "0 < s_sector_size inner" using p by (rule presents_pos)
  have fields: "rc_inner ?c = inner" "rc_len ?c = s_len inner" "rc_sector_size ?c = s_sector_size inner"
    using ss by (simp_all add: cache_with_capacity_def Let_def)
  have geo: "cache_geometry ?c"
    using p ss small by (intro cache_with_capacity_geometry) (simp_all add: presents_def)
  show ?thesis
    using sector_source_cache [of ?c "md_byte md" "md_stat md" st] p geo cache_reach_valid [OF reach]
    by (simp add: fields presents_def)
qed

text \<open>A chunk never holds more than one chunk's bytes.\<close>

lemma cache_fetch_size:
  assumes "well_behaved (rc_inner c)"
  shows "length (ce_data (cache_fetch c idx)) \<le> rc_chunk_size c"
proof -
  have bsrc: "block_source (s_read_at (rc_inner c)) (s_sector_size (rc_inner c))"
    using assms by (simp add: well_behaved_def)
  note fills = block_source.fills [OF bsrc]
  show ?thesis by (simp add: cache_fetch_def Let_def fills)
qed

lemma cache_valid_size:
  assumes "cache_valid c st" "well_behaved (rc_inner c)" "(idx, e) \<in> set (cs_map st)"
  shows "length (ce_data e) \<le> rc_chunk_size c"
proof -
  have "map_of (cs_map st) idx = Some e" using assms(1,3) by (simp add: cache_valid_def)
  then show ?thesis using assms(1) cache_fetch_size [OF assms(2), of idx] by (simp add: cache_valid_def)
qed

end
