(* ===== verification/LbaRuns.thy ===== *)
theory LbaRuns
  imports Source
begin

text \<open>
  Run lists of logical block addresses: \<^verbatim>\<open>crates/reclaim-block/src/bad_block.rs\<close> (the bad-block
  map), the same \<^verbatim>\<open>coalesce\<close> in \<^verbatim>\<open>imaging/imager.rs\<close>, and the binary search \<^verbatim>\<open>in_ranges\<close> of
  \<^verbatim>\<open>imaging/mapped.rs\<close>. A run list stands for the set of LBAs its runs contain; every operation is
  shown to act on that set as its name says.
\<close>

section \<open>Runs\<close>

record lba_range =
  lr_start :: nat
  lr_count :: nat

definition lr_end :: "lba_range \<Rightarrow> nat" where
  "lr_end r = sat_add64 (lr_start r) (lr_count r)"

definition lr_contains :: "lba_range \<Rightarrow> nat \<Rightarrow> bool" where
  "lr_contains r lba \<longleftrightarrow> lr_start r \<le> lba \<and> lba < lr_end r"

definition runs_contain :: "lba_range list \<Rightarrow> nat \<Rightarrow> bool" where
  "runs_contain runs lba = list_ex (\<lambda>r. lr_contains r lba) runs"

definition lba_set :: "lba_range list \<Rightarrow> nat set" where
  "lba_set runs = {lba. runs_contain runs lba}"

section \<open>Coalescing\<close>

text \<open>One iteration of the merge loop over the sorted runs: extend the last merged run or push.\<close>

definition merge_run :: "lba_range list \<Rightarrow> lba_range \<Rightarrow> lba_range list" where
  "merge_run merged r =
     (if merged \<noteq> [] \<and> lr_start r \<le> lr_end (last merged)
      then let l = last merged; new_end = max (lr_end l) (lr_end r)
           in butlast merged @ [l\<lparr>lr_count := new_end - lr_start l\<rparr>]
      else merged @ [r])"

definition coalesce :: "lba_range list \<Rightarrow> lba_range list" where
  "coalesce runs =
     (if length runs < 2 then runs else foldl merge_run [] (sort_key lr_start runs))"

text \<open>A run list is in range when its addresses are u64 values, and separated when its runs are in
  order with a gap between neighbours.\<close>

definition runs_in_range :: "lba_range list \<Rightarrow> bool" where
  "runs_in_range runs = list_all (\<lambda>r. lr_start r \<le> u64_max) runs"

definition runs_separated :: "lba_range list \<Rightarrow> bool" where
  "runs_separated runs = sorted_wrt (\<lambda>a b. lr_end a < lr_start b) runs"

lemma lr_start_le_end: "lr_start r \<le> u64_max \<Longrightarrow> lr_start r \<le> lr_end r"
  by (simp add: lr_end_def sat_add64_def)

lemma lr_end_le: "lr_end r \<le> u64_max"
  by (simp add: lr_end_def)

lemma lr_end_extend:
  "lr_start l \<le> e \<Longrightarrow> e \<le> u64_max \<Longrightarrow> lr_end (l\<lparr>lr_count := e - lr_start l\<rparr>) = e"
  by (simp add: lr_end_def sat_add64_def)

lemma runs_contain_simps [simp]:
  "\<not> runs_contain [] lba"
  "runs_contain (r # rs) lba \<longleftrightarrow> lr_contains r lba \<or> runs_contain rs lba"
  "runs_contain (xs @ ys) lba \<longleftrightarrow> runs_contain xs lba \<or> runs_contain ys lba"
  by (simp_all add: runs_contain_def)

lemma runs_contain_iff: "runs_contain runs lba \<longleftrightarrow> (\<exists>r \<in> set runs. lr_contains r lba)"
  by (auto simp: runs_contain_def list_ex_iff)

text \<open>The merge loop's invariant: the merged runs are separated, their last run starts no later
  than what is still to come, and they contain what the runs seen so far contain.\<close>

definition merged_inv :: "lba_range list \<Rightarrow> nat \<Rightarrow> bool" where
  "merged_inv merged lo \<longleftrightarrow> runs_in_range merged \<and> runs_separated merged \<and>
     (merged \<noteq> [] \<longrightarrow> lr_start (last merged) \<le> lo)"

lemma separated_snoc:
  "runs_separated (xs @ [x]) \<longleftrightarrow> runs_separated xs \<and> (\<forall>y \<in> set xs. lr_end y < lr_start x)"
  by (auto simp: runs_separated_def sorted_wrt_append)

lemma merge_run_step:
  assumes inv: "merged_inv merged lo" and r: "lo \<le> lr_start r" "lr_start r \<le> u64_max"
  shows "merged_inv (merge_run merged r) (lr_start r)"
    and "runs_contain (merge_run merged r) lba \<longleftrightarrow> runs_contain merged lba \<or> lr_contains r lba"
proof -
  have "merged_inv (merge_run merged r) (lr_start r) \<and>
    (runs_contain (merge_run merged r) lba \<longleftrightarrow> runs_contain merged lba \<or> lr_contains r lba)"
  proof (cases "merged = []")
    case True
    then show ?thesis using r by (simp add: merge_run_def merged_inv_def runs_in_range_def runs_separated_def)
  next
    case False
    then obtain xs l where m: "merged = xs @ [l]" by (metis append_butlast_last_id)
    have xs: "runs_in_range xs" "runs_separated xs" "\<forall>y \<in> set xs. lr_end y < lr_start l"
      and l: "lr_start l \<le> u64_max" "lr_start l \<le> lo"
      using inv by (auto simp: merged_inv_def m separated_snoc runs_in_range_def)
    note bounds = lr_start_le_end [OF l(1)] lr_start_le_end [OF r(2)] lr_end_le [of l] lr_end_le [of r]
    show ?thesis
    proof (cases "lr_start r \<le> lr_end l")
      case True
      let ?e = "max (lr_end l) (lr_end r)"
      have e: "lr_end (l\<lparr>lr_count := ?e - lr_start l\<rparr>) = ?e"
        using bounds by (intro lr_end_extend) simp_all
      have "merge_run merged r = xs @ [l\<lparr>lr_count := ?e - lr_start l\<rparr>]"
        using True by (simp add: merge_run_def m Let_def)
      moreover have "lr_contains (l\<lparr>lr_count := ?e - lr_start l\<rparr>) lba \<longleftrightarrow> lr_contains l lba \<or> lr_contains r lba"
        using True bounds l r by (auto simp: lr_contains_def e)
      ultimately show ?thesis using xs l r
        by (auto simp: merged_inv_def separated_snoc runs_in_range_def m)
    next
      case False
      then have "merge_run merged r = xs @ [l, r]" by (simp add: merge_run_def m)
      moreover have "runs_separated (xs @ [l, r])"
        using xs False bounds separated_snoc [of "xs @ [l]" r] by (auto simp: separated_snoc)
      ultimately show ?thesis using xs l r by (auto simp: merged_inv_def runs_in_range_def m)
    qed
  qed
  then show "merged_inv (merge_run merged r) (lr_start r)"
    and "runs_contain (merge_run merged r) lba \<longleftrightarrow> runs_contain merged lba \<or> lr_contains r lba"
    by blast+
qed

lemma merge_runs_correct:
  assumes "merged_inv merged lo" "sorted (map lr_start runs)" "runs_in_range runs" "\<forall>r \<in> set runs. lo \<le> lr_start r"
  shows "runs_separated (foldl merge_run merged runs) \<and> runs_in_range (foldl merge_run merged runs) \<and>
    (\<forall>lba. runs_contain (foldl merge_run merged runs) lba \<longleftrightarrow> runs_contain merged lba \<or> runs_contain runs lba)"
  using assms
proof (induction runs arbitrary: merged lo)
  case Nil
  then show ?case by (simp add: merged_inv_def)
next
  case (Cons r runs)
  then have r: "lo \<le> lr_start r" "lr_start r \<le> u64_max" by (auto simp: runs_in_range_def)
  note step = merge_run_step [OF Cons.prems(1) r]
  have "runs_separated (foldl merge_run (merge_run merged r) runs) \<and>
    runs_in_range (foldl merge_run (merge_run merged r) runs) \<and>
    (\<forall>lba. runs_contain (foldl merge_run (merge_run merged r) runs) lba
      \<longleftrightarrow> runs_contain (merge_run merged r) lba \<or> runs_contain runs lba)"
    using Cons.prems by (intro Cons.IH [OF step(1)]) (auto simp: runs_in_range_def)
  then show ?case using step(2) by auto
qed

lemma coalesce_correct:
  assumes "runs_in_range runs"
  shows "runs_separated (coalesce runs)" and "runs_in_range (coalesce runs)"
    and "runs_contain (coalesce runs) lba \<longleftrightarrow> runs_contain runs lba"
proof -
  have "runs_separated (coalesce runs) \<and> runs_in_range (coalesce runs) \<and>
    (runs_contain (coalesce runs) lba \<longleftrightarrow> runs_contain runs lba)"
  proof (cases "length runs < 2")
    case True
    then show ?thesis using assms
      by (cases runs) (auto simp: coalesce_def runs_separated_def)
  next
    case False
    have "runs_in_range (sort_key lr_start runs)" using assms by (simp add: runs_in_range_def list_all_iff)
    then have "runs_separated (foldl merge_run [] (sort_key lr_start runs)) \<and>
      runs_in_range (foldl merge_run [] (sort_key lr_start runs)) \<and>
      (\<forall>lba. runs_contain (foldl merge_run [] (sort_key lr_start runs)) lba \<longleftrightarrow>
        runs_contain [] lba \<or> runs_contain (sort_key lr_start runs) lba)"
      by (intro merge_runs_correct [where lo = 0]) (simp_all add: merged_inv_def runs_in_range_def runs_separated_def)
    then show ?thesis using False by (simp add: coalesce_def runs_contain_iff)
  qed
  then show "runs_separated (coalesce runs)" and "runs_in_range (coalesce runs)"
    and "runs_contain (coalesce runs) lba \<longleftrightarrow> runs_contain runs lba" by blast+
qed

section \<open>Counting\<close>

text \<open>Runs that do not saturate count what they contain; separated ones have nothing in common.\<close>

definition runs_exact :: "lba_range list \<Rightarrow> bool" where
  "runs_exact runs = list_all (\<lambda>r. lr_start r + lr_count r \<le> u64_max) runs"

lemma lba_set_exact: "runs_exact [r] \<Longrightarrow> {lba. lr_contains r lba} = {lr_start r..<lr_start r + lr_count r}"
  by (auto simp: runs_exact_def lr_contains_def lr_end_def sat_add64_def)

lemma sum_count_card:
  "runs_exact runs \<Longrightarrow> runs_separated runs \<Longrightarrow> sum_list (map lr_count runs) = card (lba_set runs) \<and> finite (lba_set runs)"
proof (induction runs)
  case Nil
  then show ?case by (simp add: lba_set_def)
next
  case (Cons r runs)
  have fin: "{lba. lr_contains r lba} = {lr_start r..<lr_start r + lr_count r}"
    using Cons.prems by (intro lba_set_exact) (simp add: runs_exact_def)
  have IH: "sum_list (map lr_count runs) = card (lba_set runs)" "finite (lba_set runs)"
    using Cons by (simp_all add: runs_exact_def runs_separated_def)
  have "\<And>lba. lr_contains r lba \<Longrightarrow> \<not> runs_contain runs lba"
    using Cons.prems by (fastforce simp: runs_separated_def runs_contain_iff lr_contains_def)
  then have "{lba. lr_contains r lba} \<inter> lba_set runs = {}" by (auto simp: lba_set_def)
  moreover have "lba_set (r # runs) = {lba. lr_contains r lba} \<union> lba_set runs" by (auto simp: lba_set_def)
  ultimately show ?case using IH fin by (simp add: card_Un_disjoint)
qed

section \<open>Lookup by binary search\<close>

text \<open>\<^verbatim>\<open>partition_point\<close> of the standard library: the number of leading runs that start at or before
  the address (the list is sorted where it is called).\<close>

definition partition_point :: "('a \<Rightarrow> bool) \<Rightarrow> 'a list \<Rightarrow> nat" where
  "partition_point p xs = length (takeWhile p xs)"

definition in_ranges :: "lba_range list \<Rightarrow> nat \<Rightarrow> bool" where
  "in_ranges ranges lba =
     (let i = partition_point (\<lambda>r. lr_start r \<le> lba) ranges in
      0 < i \<and> (case get_at ranges (i - 1) of None \<Rightarrow> False | Some r \<Rightarrow> lr_contains r lba))"

lemma in_ranges_Cons:
  "in_ranges (r # rs) lba \<longleftrightarrow>
    lr_start r \<le> lba \<and> (if rs = [] \<or> lba < lr_start (hd rs) then lr_contains r lba else in_ranges rs lba)"
  by (cases rs) (auto simp: in_ranges_def partition_point_def Let_def get_at_def)

lemma in_ranges_separated:
  "runs_separated rs \<Longrightarrow> runs_in_range rs \<Longrightarrow> in_ranges rs lba \<longleftrightarrow> runs_contain rs lba"
proof (induction rs)
  case Nil
  then show ?case by (simp add: in_ranges_def partition_point_def)
next
  case (Cons r rs)
  have later: "lr_end r < lr_start x \<and> lr_start x \<le> u64_max" if "x \<in> set rs" for x
    using that Cons.prems by (auto simp: runs_separated_def runs_in_range_def list_all_iff)
  have r: "lr_start r \<le> lr_end r" using Cons.prems by (intro lr_start_le_end) (simp add: runs_in_range_def)
  have IH: "in_ranges rs lba \<longleftrightarrow> runs_contain rs lba"
    using Cons by (simp add: runs_separated_def runs_in_range_def)
  show ?case
  proof (cases "rs = []")
    case True
    then show ?thesis using r by (auto simp: in_ranges_Cons lr_contains_def)
  next
    case False
    then obtain y ys where y: "rs = y # ys" by (cases rs) auto
    have after: "lr_start y \<le> lr_start x" if "x \<in> set rs" for x
    proof (cases "x = y")
      case ne: False
      then have "lr_end y < lr_start x" using that Cons.prems by (auto simp: y runs_separated_def)
      moreover have "lr_start y \<le> lr_end y" using later [of y] y by (intro lr_start_le_end) simp
      ultimately show ?thesis by simp
    qed simp
    show ?thesis
    proof (cases "lba < lr_start y")
      case True
      then have "\<not> runs_contain rs lba" using after by (fastforce simp: runs_contain_iff lr_contains_def)
      then show ?thesis using True by (auto simp: in_ranges_Cons y lr_contains_def)
    next
      case False
      then have "\<not> lr_contains r lba" "lr_start r \<le> lba" using later [of y] r y by (auto simp: lr_contains_def)
      then show ?thesis using False IH by (simp add: in_ranges_Cons y)
    qed
  qed
qed

lemma in_ranges_coalesce: "runs_in_range runs \<Longrightarrow> in_ranges (coalesce runs) lba \<longleftrightarrow> runs_contain runs lba"
  by (simp add: in_ranges_separated coalesce_correct)

section \<open>The bad-block map\<close>

record bad_block_map =
  bb_source :: "string option"
  bb_sector_size :: nat
  bb_bad :: "lba_range list"
  bb_unread :: "lba_range list"

definition bb_new :: "nat \<Rightarrow> bad_block_map" where
  "bb_new sector_size = \<lparr>bb_source = None, bb_sector_size = sector_size, bb_bad = [], bb_unread = []\<rparr>"

definition bb_with_source :: "bad_block_map \<Rightarrow> string \<Rightarrow> bad_block_map" where
  "bb_with_source m sid = m\<lparr>bb_source := Some sid\<rparr>"

definition insert_lba :: "lba_range list \<Rightarrow> nat \<Rightarrow> lba_range list" where
  "insert_lba runs lba = coalesce (runs @ [\<lparr>lr_start = lba, lr_count = 1\<rparr>])"

definition bb_add_bad :: "bad_block_map \<Rightarrow> nat \<Rightarrow> bad_block_map" where
  "bb_add_bad m lba = m\<lparr>bb_bad := insert_lba (bb_bad m) lba\<rparr>"

definition bb_add_bad_range :: "bad_block_map \<Rightarrow> nat \<Rightarrow> nat \<Rightarrow> bad_block_map" where
  "bb_add_bad_range m start count =
     (if count = 0 then m
      else m\<lparr>bb_bad := coalesce (bb_bad m @ [\<lparr>lr_start = start, lr_count = count\<rparr>])\<rparr>)"

definition bb_add_unread :: "bad_block_map \<Rightarrow> nat \<Rightarrow> bad_block_map" where
  "bb_add_unread m lba = m\<lparr>bb_unread := insert_lba (bb_unread m) lba\<rparr>"

definition bb_is_bad :: "bad_block_map \<Rightarrow> nat \<Rightarrow> bool" where
  "bb_is_bad m lba = runs_contain (bb_bad m) lba"

definition bb_is_unread :: "bad_block_map \<Rightarrow> nat \<Rightarrow> bool" where
  "bb_is_unread m lba = runs_contain (bb_unread m) lba"

definition bb_bad_sector_count :: "bad_block_map \<Rightarrow> nat" where
  "bb_bad_sector_count m = sum_list (map lr_count (bb_bad m))"

definition bb_is_empty :: "bad_block_map \<Rightarrow> bool" where
  "bb_is_empty m \<longleftrightarrow> bb_bad m = [] \<and> bb_unread m = []"

text \<open>The invariant of the map: both lists sorted, separated and exact.\<close>

definition runs_ok :: "lba_range list \<Rightarrow> bool" where
  "runs_ok runs \<longleftrightarrow> runs_exact runs \<and> runs_separated runs"

definition bb_wf :: "bad_block_map \<Rightarrow> bool" where
  "bb_wf m \<longleftrightarrow> runs_ok (bb_bad m) \<and> runs_ok (bb_unread m)"

lemma runs_exact_in_range: "runs_exact runs \<Longrightarrow> runs_in_range runs"
  by (auto simp: runs_exact_def runs_in_range_def list_all_iff)

lemma merge_run_exact:
  assumes "runs_exact merged" "lr_start r + lr_count r \<le> u64_max"
  shows "runs_exact (merge_run merged r)"
proof (cases "merged = []")
  case True
  then show ?thesis using assms by (simp add: merge_run_def runs_exact_def)
next
  case False
  then obtain xs l where m: "merged = xs @ [l]" by (metis append_butlast_last_id)
  have "lr_start l \<le> lr_end l" using assms(1) by (intro lr_start_le_end) (simp add: m runs_exact_def)
  then have "lr_start l + (max (lr_end l) (lr_end r) - lr_start l) \<le> u64_max"
    using lr_end_le [of l] lr_end_le [of r] by simp
  then show ?thesis using assms by (auto simp: merge_run_def m Let_def runs_exact_def)
qed

lemma coalesce_exact: "runs_exact runs \<Longrightarrow> runs_exact (coalesce runs)"
proof -
  have fold: "runs_exact merged \<Longrightarrow> runs_exact rs \<Longrightarrow> runs_exact (foldl merge_run merged rs)" for merged rs
  proof (induction rs arbitrary: merged)
    case (Cons r rs)
    then show ?case using merge_run_exact [of merged r] by (simp add: runs_exact_def)
  qed simp
  show "runs_exact runs \<Longrightarrow> runs_exact (coalesce runs)"
    by (auto simp: coalesce_def intro!: fold) (simp_all add: runs_exact_def list_all_iff)
qed

lemma coalesce_snoc_ok:
  assumes "runs_exact runs" "lr_start r + lr_count r \<le> u64_max"
  shows "runs_ok (coalesce (runs @ [r]))"
    and "runs_contain (coalesce (runs @ [r])) lba \<longleftrightarrow> runs_contain runs lba \<or> lr_contains r lba"
proof -
  have "runs_exact (runs @ [r])" using assms by (simp add: runs_exact_def)
  then show "runs_ok (coalesce (runs @ [r]))"
    and "runs_contain (coalesce (runs @ [r])) lba \<longleftrightarrow> runs_contain runs lba \<or> lr_contains r lba"
    using coalesce_exact coalesce_correct [OF runs_exact_in_range, of "runs @ [r]"]
    by (simp_all add: runs_ok_def)
qed

lemma lr_contains_exact:
  "s + c \<le> u64_max \<Longrightarrow> lr_contains \<lparr>lr_start = s, lr_count = c\<rparr> lba \<longleftrightarrow> s \<le> lba \<and> lba < s + c"
  by (simp add: lr_contains_def lr_end_def sat_add64_def)

lemma bb_add_bad_range_correct:
  assumes "bb_wf m" "start + count \<le> u64_max"
  shows "bb_wf (bb_add_bad_range m start count)"
    and "bb_is_bad (bb_add_bad_range m start count) lba \<longleftrightarrow> bb_is_bad m lba \<or> (start \<le> lba \<and> lba < start + count)"
  using assms coalesce_snoc_ok [of "bb_bad m" "\<lparr>lr_start = start, lr_count = count\<rparr>"] lr_contains_exact [OF assms(2)]
  by (auto simp: bb_add_bad_range_def bb_wf_def bb_is_bad_def runs_ok_def)

lemma bb_add_bad_correct:
  assumes "bb_wf m" "lba < u64_max"
  shows "bb_wf (bb_add_bad m lba)"
    and "bb_is_bad (bb_add_bad m lba) l \<longleftrightarrow> bb_is_bad m l \<or> l = lba"
  using assms coalesce_snoc_ok [of "bb_bad m" "\<lparr>lr_start = lba, lr_count = 1\<rparr>"] lr_contains_exact [of lba 1]
  by (auto simp: bb_add_bad_def insert_lba_def bb_wf_def bb_is_bad_def runs_ok_def)

lemma bb_add_unread_correct:
  assumes "bb_wf m" "lba < u64_max"
  shows "bb_wf (bb_add_unread m lba)"
    and "bb_is_unread (bb_add_unread m lba) l \<longleftrightarrow> bb_is_unread m l \<or> l = lba"
  using assms coalesce_snoc_ok [of "bb_unread m" "\<lparr>lr_start = lba, lr_count = 1\<rparr>"] lr_contains_exact [of lba 1]
  by (auto simp: bb_add_unread_def insert_lba_def bb_wf_def bb_is_unread_def runs_ok_def)

lemma bb_count_correct: "bb_wf m \<Longrightarrow> bb_bad_sector_count m = card {lba. bb_is_bad m lba}"
  using sum_count_card [of "bb_bad m"]
  by (simp add: bb_wf_def runs_ok_def bb_bad_sector_count_def bb_is_bad_def lba_set_def)

end
