(* ===== verification/RawDevice.thy ===== *)
theory RawDevice
  imports Media
begin

text \<open>
  The raw device source of \<^verbatim>\<open>raw_device.rs\<close>: one \<^verbatim>\<open>pread\<close> of what is left of the request, and,
  after the first hard error, one \<^verbatim>\<open>pread\<close> per sector. The system is a parameter that answers the
  \<open>t\<close>-th call of a read. Opening a device and asking its geometry are system calls and are not
  modelled: a device is its length, its sector size and the system's answers.
\<close>

section \<open>The system\<close>

text \<open>What one \<^verbatim>\<open>pread\<close> gives: bytes (none at the end of the device) or an error number. EINTR
  is the kind \<^verbatim>\<open>Interrupted\<close>.\<close>

datatype dev_outcome = DevOk bytes | DevErr nat

type_synonym dev_pread = "nat \<Rightarrow> nat \<Rightarrow> nat \<Rightarrow> dev_outcome"

abbreviation eintr :: nat where
  "eintr \<equiv> 4"

text \<open>\<^verbatim>\<open>note_error\<close>: ENXIO, ENODEV and EBADF latch the device as gone.\<close>

definition note_error :: "bool \<Rightarrow> nat \<Rightarrow> bool" where
  "note_error vanished e = (if e = 6 \<or> e = 19 \<or> e = 9 then True else vanished)"

section \<open>The read loop\<close>

text \<open>What the loop carries: the bytes done, whether it has dropped to single sectors, the buffer,
  the statuses and the \<^verbatim>\<open>vanished\<close> flag.\<close>

record raw_state =
  rs_done :: nat
  rs_per_sector :: bool
  rs_buf :: bytes
  rs_res :: read_result
  rs_vanished :: bool

text \<open>A single sector that did not come whole: it is noted, marked bad and blanked.\<close>

definition raw_sector_failed :: "nat \<Rightarrow> nat \<Rightarrow> nat \<Rightarrow> dev_outcome \<Rightarrow> raw_state \<Rightarrow> raw_state" where
  "raw_sector_failed sec sec_start sec_end r s =
     s\<lparr>rs_done := sec_end,
       rs_vanished := (case r of DevErr e \<Rightarrow> note_error (rs_vanished s) e | DevOk _ \<Rightarrow> rs_vanished s),
       rs_res := rr_mark_bad (rs_res s) sec,
       rs_buf := zero_range (rs_buf s) sec_start sec_end\<rparr>"

text \<open>One pass of the loop; \<open>None\<close> is the \<^verbatim>\<open>break\<close>.\<close>

definition raw_step :: "dev_pread \<Rightarrow> nat \<Rightarrow> nat \<Rightarrow> nat \<Rightarrow> nat \<Rightarrow> raw_state \<Rightarrow> raw_state option" where
  "raw_step pread ss offset avail t s =
     (if rs_per_sector s then
        let sec = rs_done s div ss;
            sec_start = sec * ss;
            sec_end = min (sec_start + ss) avail;
            r = pread t (offset + sec_start) (sec_end - sec_start)
        in case r of
             DevOk bs \<Rightarrow>
               if length bs = sec_end - sec_start
               then Some (s\<lparr>rs_done := sec_end, rs_buf := blit (rs_buf s) sec_start bs\<rparr>)
               else Some (raw_sector_failed sec sec_start sec_end r s)
           | DevErr e \<Rightarrow>
               if e = eintr then Some s else Some (raw_sector_failed sec sec_start sec_end r s)
      else
        case pread t (offset + rs_done s) (avail - rs_done s) of
          DevOk bs \<Rightarrow>
            if bs = [] then None
            else Some (s\<lparr>rs_done := rs_done s + length bs, rs_buf := blit (rs_buf s) (rs_done s) bs\<rparr>)
        | DevErr e \<Rightarrow>
            if e = eintr then Some s
            else Some (s\<lparr>rs_vanished := note_error (rs_vanished s) e, rs_per_sector := True\<rparr>))"

partial_function (option) raw_loop ::
  "dev_pread \<Rightarrow> nat \<Rightarrow> nat \<Rightarrow> nat \<Rightarrow> nat \<Rightarrow> raw_state \<Rightarrow> raw_state option" where
  "raw_loop pread ss offset avail t s =
     (if avail \<le> rs_done s then Some s
      else case raw_step pread ss offset avail t s of
        None \<Rightarrow> Some s
      | Some s' \<Rightarrow> raw_loop pread ss offset avail (Suc t) s')"

definition raw_start :: "nat \<Rightarrow> nat \<Rightarrow> bool \<Rightarrow> raw_state" where
  "raw_start ss n vanished = \<lparr>rs_done = 0, rs_per_sector = False, rs_buf = zeros n,
     rs_res = rr_good ss (div_ceil n ss), rs_vanished = vanished\<rparr>"

text \<open>\<^verbatim>\<open>read_at\<close>: the buffer and the statuses, with the \<^verbatim>\<open>vanished\<close> flag the call leaves.\<close>

definition raw_read :: "dev_pread \<Rightarrow> nat \<Rightarrow> nat \<Rightarrow> bool \<Rightarrow> nat \<Rightarrow> bytes \<Rightarrow> ((bytes \<times> read_result) \<times> bool) option" where
  "raw_read pread len ss vanished offset buf =
     (let s0 = raw_start ss (length buf) vanished;
          sector_count = div_ceil (length buf) ss
      in if buf = [] then Some ((rs_buf s0, rs_res s0), vanished)
         else if offset mod ss \<noteq> 0 \<or> len \<le> offset
           then Some ((rs_buf s0, mark_bads [0..<sector_count] (rs_res s0)), vanished)
         else let avail = min (length buf) (len - offset) in
           case raw_loop pread ss offset avail 0 s0 of
             None \<Rightarrow> None
           | Some s \<Rightarrow> Some ((rs_buf s, mark_bad_from_byte (rs_res s) ss (length buf) (rs_done s)), rs_vanished s))"

section \<open>A disk with defects\<close>

text \<open>What a disk does: a call returns a prefix of what it asks for, never empty, never reaching
  into a defective sector, and whole when it asks for at most one sector; it reports an error (other
  than an interruption) only when what it asks for meets a defective sector.\<close>

definition disk_pread :: "(nat \<Rightarrow> byte) \<Rightarrow> (nat \<Rightarrow> bool) \<Rightarrow> nat \<Rightarrow> nat \<Rightarrow> dev_pread \<Rightarrow> bool" where
  "disk_pread b defect n ss pread \<longleftrightarrow>
     (\<forall>t off want. 0 < want \<and> off + want \<le> n \<longrightarrow>
       (case pread t off want of
          DevOk bs \<Rightarrow> bs \<noteq> [] \<and> length bs \<le> want \<and>
            (\<forall>j < length bs. bs ! j = b (off + j) \<and> \<not> defect ((off + j) div ss)) \<and>
            (off mod ss = 0 \<and> want \<le> ss \<longrightarrow> length bs = want)
        | DevErr e \<Rightarrow> e = eintr \<or> (\<exists>j < want. defect ((off + j) div ss))))"

text \<open>From some call on the system does not interrupt any more.\<close>

definition dev_settles :: "dev_pread \<Rightarrow> bool" where
  "dev_settles pread \<longleftrightarrow> (\<exists>T. \<forall>t \<ge> T. \<forall>off want. pread t off want \<noteq> DevErr eintr)"

text \<open>A disk that answers at once: the bytes up to the first defective sector, an I/O error there.\<close>

definition prompt_disk :: "(nat \<Rightarrow> byte) \<Rightarrow> (nat \<Rightarrow> bool) \<Rightarrow> nat \<Rightarrow> dev_pread" where
  "prompt_disk b defect ss t off want =
     (let good = takeWhile (\<lambda>j. \<not> defect ((off + j) div ss)) [0..<want]
      in if good = [] then DevErr 5 else DevOk (map (\<lambda>j. b (off + j)) good))"

lemma dev_settles_prompt [simp]: "dev_settles (prompt_disk b defect ss)"
  by (simp add: dev_settles_def prompt_disk_def Let_def)

text \<open>What the loop keeps: the bytes done are the disk's, blanked where it is defective, and the
  sectors begun that are defective are exactly the bad ones.\<close>

definition raw_inv :: "(nat \<Rightarrow> byte) \<Rightarrow> (nat \<Rightarrow> bool) \<Rightarrow> nat \<Rightarrow> nat \<Rightarrow> nat \<Rightarrow> nat \<Rightarrow> raw_state \<Rightarrow> bool" where
  "raw_inv b defect ss offset avail len s \<longleftrightarrow>
     rs_done s \<le> avail \<and> length (rs_buf s) = len \<and> rr_shape ss (div_ceil len ss) (rs_res s) \<and>
     (\<forall>j < rs_done s. rs_buf s ! j = (if defect ((offset + j) div ss) then 0 else b (offset + j))) \<and>
     (\<forall>i < div_ceil len ss. rr_status (rs_res s) i
        = (if i * ss < rs_done s \<and> defect (offset div ss + i) then Bad else Good))"

section \<open>A pass of the loop keeps the invariant\<close>

lemma sector_index:
  assumes "offset mod ss = 0" "k < ss"
  shows "(offset + i * ss + k) div ss = offset div ss + (i :: nat)"
proof -
  obtain q where q: "offset = q * ss" using assms(1) by (metis mod_0_imp_dvd dvd_def mult.commute)
  have "(offset + i * ss + k) div ss = ((q + i) * ss + k) div ss" by (simp add: q algebra_simps)
  then show ?thesis using assms(2) by (simp add: q div_mult_self3)
qed

lemma sector_span: "0 < ss \<Longrightarrow> d div ss * ss \<le> d \<and> d < d div ss * ss + (ss :: nat)"
  using div_mult_mod_eq [of d ss] mod_less_divisor [of ss d] by linarith

lemma raw_inv_deliver:
  assumes inv: "raw_inv b defect ss offset avail len s" and ss: "0 < ss" "offset mod ss = 0" "avail \<le> len"
    and at: "p \<le> rs_done s" "rs_done s < p + length bs" "p + length bs \<le> avail"
    and bs: "\<And>j. j < length bs \<Longrightarrow> bs ! j = b (offset + p + j) \<and> \<not> defect ((offset + p + j) div ss)"
  shows "raw_inv b defect ss offset avail len (s\<lparr>rs_done := p + length bs, rs_buf := blit (rs_buf s) p bs\<rparr>)"
proof -
  let ?s = "s\<lparr>rs_done := p + length bs, rs_buf := blit (rs_buf s) p bs\<rparr>"
  have len: "length (rs_buf s) = len" using inv by (simp add: raw_inv_def)
  have byte: "rs_buf ?s ! j = (if defect ((offset + j) div ss) then 0 else b (offset + j))" if "j < p + length bs" for j
  proof (cases "p \<le> j")
    case True
    then show ?thesis using bs [of "j - p"] that len ss(3) at by (simp add: nth_blit)
  next
    case False
    then show ?thesis using inv that len ss(3) at by (simp add: nth_blit raw_inv_def)
  qed
  have stat: "rr_status (rs_res ?s) i = (if i * ss < p + length bs \<and> defect (offset div ss + i) then Bad else Good)"
    if "i < div_ceil len ss" for i
  proof (cases "i * ss < rs_done s")
    case True
    then show ?thesis using inv that at by (simp add: raw_inv_def)
  next
    case False
    have "\<not> defect (offset div ss + i)" if "i * ss < p + length bs"
      using bs [of "i * ss - p"] sector_index [OF ss(2), of 0 i] ss(1) that False at by (simp add: add.commute)
    then show ?thesis using inv that False by (auto simp: raw_inv_def)
  qed
  show ?thesis using inv byte stat at len ss(3) by (simp add: raw_inv_def)
qed

lemma raw_inv_fail:
  assumes inv: "raw_inv b defect ss offset avail len s" and ss: "0 < ss" "offset mod ss = 0" "avail \<le> len"
    and sec: "sec = rs_done s div ss" "sec_end = min (sec * ss + ss) avail" "rs_done s < avail"
    and bad: "defect (offset div ss + sec)"
  shows "raw_inv b defect ss offset avail len (raw_sector_failed sec (sec * ss) sec_end r s)"
proof -
  let ?s = "raw_sector_failed sec (sec * ss) sec_end r s"
  have le: "sec * ss \<le> rs_done s" "rs_done s < sec * ss + ss"
    using sector_span [OF ss(1), of "rs_done s"] by (simp_all add: sec(1))
  then have le': "rs_done s < sec_end" "sec_end \<le> avail" "sec_end \<le> sec * ss + ss" using sec by auto
  have len: "length (rs_buf s) = len" and shape: "rr_shape ss (div_ceil len ss) (rs_res s)"
    using inv by (simp_all add: raw_inv_def)
  have byte: "rs_buf ?s ! j = (if defect ((offset + j) div ss) then 0 else b (offset + j))" if "j < sec_end" for j
  proof (cases "sec * ss \<le> j")
    case True
    then have "(offset + j) div ss = offset div ss + sec"
      using sector_index [OF ss(2), of "j - sec * ss" sec] that le' by simp
    then show ?thesis using True bad that le' ss(3) len by (simp add: raw_sector_failed_def nth_zero_range)
  next
    case False
    then have "j < rs_done s" using le by simp
    then show ?thesis using False inv that le' ss(3) len by (simp add: raw_sector_failed_def nth_zero_range raw_inv_def)
  qed
  have stat: "rr_status (rs_res ?s) i = (if i * ss < sec_end \<and> defect (offset div ss + i) then Bad else Good)"
    if "i < div_ceil len ss" for i
  proof (cases "i = sec")
    case True
    then show ?thesis using bad le le' that by (simp add: raw_sector_failed_def rr_status_mark_bad [OF shape])
  next
    case False
    have "i * ss < sec_end \<longleftrightarrow> i * ss < rs_done s"
    proof
      assume "i * ss < sec_end"
      then have "i * ss < Suc sec * ss" using le' by simp
      then have "i < Suc sec" by (simp only: mult_less_cancel2)
      then have "Suc i \<le> sec" using False by simp
      then have "Suc i * ss \<le> sec * ss" by (rule mult_le_mono1)
      then show "i * ss < rs_done s" using le ss(1) by simp
    next
      assume "i * ss < rs_done s"
      then show "i * ss < sec_end" using le' by simp
    qed
    then show ?thesis using False inv that by (simp add: raw_sector_failed_def rr_status_mark_bad [OF shape] raw_inv_def)
  qed
  show ?thesis using inv byte stat le' len by (simp add: raw_inv_def raw_sector_failed_def rr_simps)
qed

lemma raw_step_ok:
  assumes inv: "raw_inv b defect ss offset avail len s" and ss: "0 < ss" "offset mod ss = 0" "avail \<le> len"
    and disk: "disk_pread b defect n ss pread" "offset + avail \<le> n" and more: "rs_done s < avail"
  shows "\<exists>s'. raw_step pread ss offset avail t s = Some s' \<and> raw_inv b defect ss offset avail len s' \<and>
    (s' = s \<and> (\<exists>off want. pread t off want = DevErr eintr) \<or> rs_done s < rs_done s' \<or>
     rs_done s' = rs_done s \<and> \<not> rs_per_sector s \<and> rs_per_sector s')"
proof (cases "rs_per_sector s")
  case True
  define sec where "sec = rs_done s div ss"
  define e where "e = min (sec * ss + ss) avail"
  have le: "sec * ss \<le> rs_done s" "rs_done s < sec * ss + ss"
    using sector_span [OF ss(1), of "rs_done s"] by (simp_all add: sec_def)
  then have e: "rs_done s < e" "e \<le> avail" "e \<le> sec * ss + ss" using more by (auto simp: e_def)
  have al: "(offset + sec * ss) mod ss = 0" using ss(2) by simp
  have disk': "case pread t (offset + sec * ss) (e - sec * ss) of
      DevOk bs \<Rightarrow> length bs = e - sec * ss \<and>
        (\<forall>j < length bs. bs ! j = b (offset + sec * ss + j) \<and> \<not> defect ((offset + sec * ss + j) div ss))
    | DevErr x \<Rightarrow> x = eintr \<or> (\<exists>j < e - sec * ss. defect ((offset + sec * ss + j) div ss))"
    using disk(1)[unfolded disk_pread_def, rule_format, of "e - sec * ss" "offset + sec * ss" t] al le e disk(2)
    by (auto split: dev_outcome.splits)
  show ?thesis
  proof (cases "pread t (offset + sec * ss) (e - sec * ss)")
    case (DevOk bs)
    then have bs: "length bs = e - sec * ss"
        "\<And>j. j < length bs \<Longrightarrow> bs ! j = b (offset + sec * ss + j) \<and> \<not> defect ((offset + sec * ss + j) div ss)"
      using disk' by simp_all
    have "raw_step pread ss offset avail t s = Some (s\<lparr>rs_done := sec * ss + length bs, rs_buf := blit (rs_buf s) (sec * ss) bs\<rparr>)"
      using True DevOk bs(1) le e by (simp add: raw_step_def Let_def flip: sec_def e_def)
    moreover have "raw_inv b defect ss offset avail len (s\<lparr>rs_done := sec * ss + length bs, rs_buf := blit (rs_buf s) (sec * ss) bs\<rparr>)"
      using bs(1) le e by (intro raw_inv_deliver [OF inv ss] bs(2)) simp_all
    ultimately show ?thesis using bs(1) le e by auto
  next
    case (DevErr x)
    show ?thesis
    proof (cases "x = eintr")
      case intr: True
      then have "raw_step pread ss offset avail t s = Some s"
        using True DevErr by (simp add: raw_step_def Let_def flip: sec_def e_def)
      then show ?thesis using inv DevErr intr by blast
    next
      case False
      then obtain j where "j < e - sec * ss" "defect ((offset + sec * ss + j) div ss)" using disk' DevErr by auto
      then have bad: "defect (offset div ss + sec)" using sector_index [OF ss(2), of j sec] e by simp
      have "raw_step pread ss offset avail t s = Some (raw_sector_failed sec (sec * ss) e (DevErr x) s)"
        using True DevErr False by (simp add: raw_step_def Let_def flip: sec_def e_def)
      moreover have "raw_inv b defect ss offset avail len (raw_sector_failed sec (sec * ss) e (DevErr x) s)"
        by (rule raw_inv_fail [OF inv ss sec_def e_def more bad])
      ultimately show ?thesis using e by (auto simp: raw_sector_failed_def)
    qed
  qed
next
  case False
  have disk': "case pread t (offset + rs_done s) (avail - rs_done s) of
      DevOk bs \<Rightarrow> bs \<noteq> [] \<and> length bs \<le> avail - rs_done s \<and>
        (\<forall>j < length bs. bs ! j = b (offset + rs_done s + j) \<and> \<not> defect ((offset + rs_done s + j) div ss))
    | DevErr x \<Rightarrow> True"
    using disk(1)[unfolded disk_pread_def, rule_format, of "avail - rs_done s" "offset + rs_done s" t] more disk(2)
    by (auto split: dev_outcome.splits)
  show ?thesis
  proof (cases "pread t (offset + rs_done s) (avail - rs_done s)")
    case (DevOk bs)
    then have bs: "bs \<noteq> []" "length bs \<le> avail - rs_done s"
        "\<And>j. j < length bs \<Longrightarrow> bs ! j = b (offset + rs_done s + j) \<and> \<not> defect ((offset + rs_done s + j) div ss)"
      using disk' by simp_all
    have "raw_inv b defect ss offset avail len (s\<lparr>rs_done := rs_done s + length bs, rs_buf := blit (rs_buf s) (rs_done s) bs\<rparr>)"
      using bs(1,2) more by (intro raw_inv_deliver [OF inv ss] bs(3)) simp_all
    then show ?thesis using False DevOk bs(1) by (simp add: raw_step_def)
  next
    case (DevErr x)
    then show ?thesis using False inv by (auto simp: raw_step_def raw_inv_def)
  qed
qed

section \<open>The loop returns\<close>

text \<open>After the system has settled every pass shortens what is left or drops to single sectors; before
  that the passes are counted.\<close>

lemma raw_loop_settled:
  assumes ss: "0 < ss" "offset mod ss = 0" "avail \<le> len"
    and disk: "disk_pread b defect n ss pread" "offset + avail \<le> n"
    and settled: "\<And>t' off want. t \<le> t' \<Longrightarrow> pread t' off want \<noteq> DevErr eintr"
    and inv: "raw_inv b defect ss offset avail len s"
  shows "\<exists>s'. raw_loop pread ss offset avail t s = Some s' \<and> raw_inv b defect ss offset avail len s' \<and> rs_done s' = avail"
  using settled inv
proof (induction "2 * (avail - rs_done s) + (if rs_per_sector s then 0 else 1)" arbitrary: t s rule: less_induct)
  case less
  show ?case
  proof (cases "avail \<le> rs_done s")
    case True
    then show ?thesis using less.prems(2) by (subst raw_loop.simps) (auto simp: raw_inv_def)
  next
    case False
    then have more: "rs_done s < avail" by simp
    obtain s' where step: "raw_step pread ss offset avail t s = Some s'" "raw_inv b defect ss offset avail len s'"
      and prog: "s' = s \<and> (\<exists>off want. pread t off want = DevErr eintr) \<or> rs_done s < rs_done s' \<or>
        rs_done s' = rs_done s \<and> \<not> rs_per_sector s \<and> rs_per_sector s'"
      using raw_step_ok [OF less.prems(2) ss disk more, of t] by blast
    have "2 * (avail - rs_done s') + (if rs_per_sector s' then 0 else 1)
        < 2 * (avail - rs_done s) + (if rs_per_sector s then 0 else (1 :: nat))"
      using prog less.prems(1) [of t] more by auto
    from less.hyps [OF this, of "Suc t"] less.prems(1) step(2) obtain s'' where
      "raw_loop pread ss offset avail (Suc t) s' = Some s''" "raw_inv b defect ss offset avail len s''" "rs_done s'' = avail"
      by (metis Suc_leD)
    then show ?thesis using False step(1) by (subst raw_loop.simps) auto
  qed
qed

lemma raw_loop_returns:
  assumes ss: "0 < ss" "offset mod ss = 0" "avail \<le> len"
    and disk: "disk_pread b defect n ss pread" "offset + avail \<le> n"
    and settled: "\<And>t' off want. t + k \<le> t' \<Longrightarrow> pread t' off want \<noteq> DevErr eintr"
    and inv: "raw_inv b defect ss offset avail len s"
  shows "\<exists>s'. raw_loop pread ss offset avail t s = Some s' \<and> raw_inv b defect ss offset avail len s' \<and> rs_done s' = avail"
  using settled inv
proof (induction k arbitrary: t s)
  case 0
  then show ?case using raw_loop_settled [OF ss disk] by simp
next
  case (Suc k)
  show ?case
  proof (cases "avail \<le> rs_done s")
    case True
    then show ?thesis using Suc.prems(2) by (subst raw_loop.simps) (auto simp: raw_inv_def)
  next
    case False
    then obtain s' where step: "raw_step pread ss offset avail t s = Some s'" "raw_inv b defect ss offset avail len s'"
      using raw_step_ok [OF Suc.prems(2) ss disk, of t] by auto
    have "\<And>t' off want. Suc t + k \<le> t' \<Longrightarrow> pread t' off want \<noteq> DevErr eintr" using Suc.prems(1) by simp
    from Suc.IH [OF this step(2)] show ?thesis using False step(1) by (subst raw_loop.simps) auto
  qed
qed

lemma raw_inv_start: "0 < ss \<Longrightarrow> raw_inv b defect ss offset avail n (raw_start ss n v)"
  by (simp add: raw_inv_def raw_start_def rr_simps)

lemma raw_read_disk:
  assumes "0 < ss" "offset mod ss = 0" "offset + length buf \<le> n" "disk_pread b defect n ss pread" "dev_settles pread"
  shows "\<exists>r v'. raw_read pread n ss v offset buf = Some (r, v') \<and> length (fst r) = length buf \<and>
    (\<forall>j < length buf. fst r ! j = (if defect ((offset + j) div ss) then 0 else b (offset + j))) \<and>
    (\<forall>i < div_ceil (length buf) ss. rr_status (snd r) i = (if defect (offset div ss + i) then Bad else Good))"
proof (cases "buf = []")
  case True
  then show ?thesis by (simp add: raw_read_def Let_def raw_start_def)
next
  case False
  obtain T where T: "\<And>t' off want. 0 + T \<le> t' \<Longrightarrow> pread t' off want \<noteq> DevErr eintr"
    using assms(5) by (auto simp: dev_settles_def)
  have av: "min (length buf) (n - offset) = length buf" using assms(3) by simp
  obtain s where s: "raw_loop pread ss offset (length buf) 0 (raw_start ss (length buf) v) = Some s"
      "raw_inv b defect ss offset (length buf) (length buf) s" "rs_done s = length buf"
    using raw_loop_returns [OF assms(1,2) order.refl assms(4,3) T raw_inv_start [OF assms(1)]] by blast
  have "\<not> (offset mod ss \<noteq> 0 \<or> n \<le> offset)" using False assms(2,3) by (cases buf) auto
  then have "raw_read pread n ss v offset buf = Some ((rs_buf s, rs_res s), rs_vanished s)"
    using False s av by (simp add: raw_read_def Let_def mark_bad_from_byte_def)
  moreover have "i * ss < length buf" if "i < div_ceil (length buf) ss" for i
    using that assms(1) by (simp add: less_div_ceil)
  ultimately show ?thesis using s(2,3) by (simp add: raw_inv_def)
qed

lemma disk_pread_prompt:
  assumes "0 < ss"
  shows "disk_pread b defect n ss (prompt_disk b defect ss)"
proof -
  have "case prompt_disk b defect ss t off want of
      DevOk bs \<Rightarrow> bs \<noteq> [] \<and> length bs \<le> want \<and>
        (\<forall>j < length bs. bs ! j = b (off + j) \<and> \<not> defect ((off + j) div ss)) \<and>
        (off mod ss = 0 \<and> want \<le> ss \<longrightarrow> length bs = want)
    | DevErr e \<Rightarrow> e = eintr \<or> (\<exists>j < want. defect ((off + j) div ss))" if "0 < want" for t off want
  proof -
    let ?P = "\<lambda>j. \<not> defect ((off + j) div ss)"
    let ?g = "takeWhile ?P [0..<want]"
    have nth: "?g ! j = j" "?P j" if "j < length ?g" for j
    proof -
      have "j < want" using that length_takeWhile_le [of ?P "[0..<want]"] by simp
      then show "?g ! j = j" using takeWhile_nth [OF that] by simp
      then show "?P j" using nth_mem [OF that] by (auto dest: set_takeWhileD)
    qed
    have le: "length ?g \<le> want" using length_takeWhile_le [of ?P "[0..<want]"] by simp
    have one: "length ?g = want" if "off mod ss = 0" "want \<le> ss" "?g \<noteq> []"
    proof -
      have all: "?P j" if "j < want" for j
        using nth(2) [of 0] sector_index [OF \<open>off mod ss = 0\<close>, of j 0] sector_index [OF \<open>off mod ss = 0\<close>, of 0 0]
          assms \<open>?g \<noteq> []\<close> \<open>want \<le> ss\<close> that by simp
      have "\<forall>j \<in> set [0..<want]. ?P j" using all by simp
      then have g: "?g = [0..<want]" by (simp only: takeWhile_eq_all_conv)
      show ?thesis unfolding g by simp
    qed
    have none: "\<exists>j < want. defect ((off + j) div ss)" if "?g = []"
    proof -
      have "[0..<want] = 0 # [Suc 0..<want]" using \<open>0 < want\<close> by (rule upt_conv_Cons)
      then have "defect ((off + 0) div ss)" using that by (simp only: takeWhile.simps split: if_splits) simp
      then show ?thesis using \<open>0 < want\<close> by blast
    qed
    show ?thesis
    proof (cases "?g = []")
      case True
      then have "prompt_disk b defect ss t off want = DevErr 5" by (simp only: prompt_disk_def Let_def refl if_True)
      then show ?thesis using none [OF True] by simp
    next
      case False
      then have "prompt_disk b defect ss t off want = DevOk (map (\<lambda>j. b (off + j)) ?g)"
        by (simp only: prompt_disk_def Let_def if_False)
      then show ?thesis using nth le one False by simp
    qed
  qed
  then show ?thesis unfolding disk_pread_def by blast
qed

section \<open>The device that went away\<close>

lemma raw_step_vanished:
  assumes "raw_step pread ss offset avail t s = Some s'"
  shows "rs_vanished s \<Longrightarrow> rs_vanished s'"
    "(\<And>off want e. pread t off want = DevErr e \<Longrightarrow> e \<notin> {6, 19, 9}) \<Longrightarrow> rs_vanished s' = rs_vanished s"
    "\<not> rs_per_sector s \<Longrightarrow> pread t (offset + rs_done s) (avail - rs_done s) = DevErr e \<Longrightarrow> e \<in> {6, 19, 9} \<Longrightarrow> rs_vanished s'"
  using assms
  by (auto simp: raw_step_def raw_sector_failed_def note_error_def Let_def split: if_splits dev_outcome.splits)

lemma raw_loop_vanished:
  assumes "raw_loop pread ss offset avail t s = Some r"
  shows "(rs_vanished s \<longrightarrow> rs_vanished r) \<and>
    ((\<forall>t off want e. pread t off want = DevErr e \<longrightarrow> e \<notin> {6, 19, 9}) \<longrightarrow> rs_vanished r = rs_vanished s)"
proof (rule raw_loop.raw_induct [where P = "\<lambda>pread ss offset avail t s r. (rs_vanished s \<longrightarrow> rs_vanished r) \<and>
    ((\<forall>t off want e. pread t off want = DevErr e \<longrightarrow> e \<notin> {6, 19, 9}) \<longrightarrow> rs_vanished r = rs_vanished s)", OF _ assms],
    goal_cases)
  case (1 loop pread ss offset avail t s r)
  show ?case
  proof (cases "avail \<le> rs_done s \<or> raw_step pread ss offset avail t s = None")
    case True
    then show ?thesis using 1(2) by (auto split: if_splits)
  next
    case False
    then obtain s' where s': "raw_step pread ss offset avail t s = Some s'" by auto
    then have "loop pread ss offset avail (Suc t) s' = Some r" using 1(2) False by simp
    from 1(1) [OF this] show ?thesis using raw_step_vanished(1,2) [OF s'] by metis
  qed
qed

lemma raw_read_present:
  assumes "\<forall>t off want e. pread t off want = DevErr e \<longrightarrow> e \<notin> {6, 19, 9}" "raw_read pread n ss v offset buf = Some (r, v')"
  shows "v' = v"
  using assms raw_loop_vanished
  by (fastforce simp: raw_read_def Let_def raw_start_def split: if_splits option.splits)

lemma raw_read_gone:
  assumes "0 < ss" "offset mod ss = 0" "offset + length buf \<le> n" "buf \<noteq> []"
    and gone: "\<And>t off want. pread t off want = DevErr e" "e \<in> {6, 19, 9}"
  shows "\<exists>r. raw_read pread n ss v offset buf = Some (r, True) \<and> fst r = zeros (length buf) \<and>
    (\<forall>i < div_ceil (length buf) ss. rr_status (snd r) i = Bad)"
proof -
  have disk: "disk_pread (\<lambda>_. 0) (\<lambda>_. True) n ss pread" "dev_settles pread"
    using gone by (auto simp: disk_pread_def dev_settles_def)
  obtain r v' where r: "raw_read pread n ss v offset buf = Some (r, v')" "length (fst r) = length buf"
      "\<forall>j < length buf. fst r ! j = 0" "\<forall>i < div_ceil (length buf) ss. rr_status (snd r) i = Bad"
    using raw_read_disk [OF assms(1-3) disk, of v] by auto
  let ?s = "raw_start ss (length buf) v" and ?a = "min (length buf) (n - offset)"
  have more: "\<not> (offset mod ss \<noteq> 0 \<or> n \<le> offset)" "\<not> ?a \<le> rs_done ?s"
    using assms(2-4) by (cases buf; simp add: raw_start_def)+
  then obtain s where s: "raw_loop pread ss offset ?a 0 ?s = Some s" "rs_vanished s = v'"
    using r(1) assms(4) by (auto simp: raw_read_def Let_def split: option.splits)
  obtain s' where s': "raw_step pread ss offset ?a 0 ?s = Some s'"
    using gone by (cases "e = eintr") (simp_all add: raw_step_def raw_start_def)
  then have "raw_loop pread ss offset ?a 1 s' = Some s" using s(1) more(2) by (subst (asm) raw_loop.simps) simp
  moreover have "rs_vanished s'" using raw_step_vanished(3) [OF s' _ gone(1,2)] by (simp add: raw_start_def)
  ultimately have "v'" using raw_loop_vanished s(2) by blast
  moreover have "fst r = zeros (length buf)" using r(2,3) by (intro nth_equalityI) simp_all
  ultimately show ?thesis using r(1,4) by auto
qed

end
