(* ===== verification/BlockTheorems.thy ===== *)
theory BlockTheorems
  imports ReadCache LbaRuns RawDevice
begin

text \<open>
  What the block layer promises: the properties of the file reader, the wrappers (fault injector,
  window, read-ahead cache) and the bad-block map, each with a closed instance on a small medium.
\<close>

text \<open>A medium with sectors of every status, for the instances: sector 1 is bad, sector 2 unread.\<close>

definition mixed_medium :: medium where
  "mixed_medium = \<lparr>md_byte = (\<lambda>j. of_nat (j + 1)),
     md_stat = (\<lambda>l. if l = 1 then Bad else if l = 2 then Unread else Good)\<rparr>"

abbreviation mixed_source :: source where
  "mixed_source \<equiv> medium_source mixed_medium 4 16"

lemma presents_mixed: "presents mixed_source mixed_medium"
  by (rule presents_medium_source) simp_all

lemma presents_sector_source:
  "presents s md \<Longrightarrow> sector_source (s_read_at s) (s_sector_size s) (s_len s) (md_byte md) (md_stat md)"
  by (simp add: presents_def)

lemma presentsI:
  "sector_source (s_read_at s) (s_sector_size s) (s_len s) b st \<Longrightarrow> s_len s \<le> u64_max \<Longrightarrow>
    presents s \<lparr>md_byte = b, md_stat = st\<rparr>"
  by (simp add: presents_def)

lemma presents_wb: "presents s md \<Longrightarrow> well_behaved s"
  by (simp add: well_behaved_def presents_well_behaved)

section \<open>The read-ahead cache\<close>

text \<open>C1: The read-ahead cache serves the bytes of the wrapped source and keeps its bad sectors: from every state a
  sequence of reads can leave it in, an aligned read within the source returns the bytes of the wrapped source, except
  that bad sectors read as zeros. The status of each sector of the request is bad where the source reports bad and good
  everywhere else. In particular a sector that the source reports as unread comes back as good, against what
  \<^verbatim>\<open>BlockSource\<close> asks of a source: \<^verbatim>\<open>fetch\<close> keeps the bad sectors only, and the cache is transparent only
  for sources without unread sectors.\<close>

theorem cache_serves_source:
  assumes "presents inner md" "s_sector_size inner < 4294967296"
    and "cache_reach (cache_with_capacity inner cap) st"
    and "offset mod s_sector_size inner = 0" "offset + length buf \<le> s_len inner"
  shows "fst (fst (cache_read (cache_with_capacity inner cap) st offset buf))
      = map (\<lambda>j. if md_stat md ((offset + j) div s_sector_size inner) = Bad then 0 else md_byte md (offset + j))
          [0..<length buf] \<and>
    (\<forall>i < div_ceil (length buf) (s_sector_size inner).
      rr_status (snd (fst (cache_read (cache_with_capacity inner cap) st offset buf))) i
        = (if md_stat md (offset div s_sector_size inner + i) = Bad then Bad else Good))"
  using sector_source.read_eq [OF sector_source_reached [OF assms(1-3)] assms(4,5)]
    sector_source.status [OF sector_source_reached [OF assms(1-3)] assms(4,5)]
  by (simp add: cache_read_fn_def cached_byte_def cached_stat_def)

theorem cache_serves_source_witness:
  "fst (fst (cache_read (cache_with_capacity mixed_source 2) cache_init 4 (zeros 8))) = [0, 0, 0, 0, 9, 10, 11, 12]"
proof -
  note t = cache_serves_source [OF presents_mixed _ reach_init, of 4 "zeros 8" 2, simplified]
  have l: "[0..<8] = [0, 1, 2, 3, 4, 5, 6, 7 :: nat]" by (simp add: upt_rec)
  show ?thesis using t unfolding l by (simp add: mixed_medium_def)
qed

text \<open>Memory held by the cache stays bounded: in every reachable state at most the
  configured number of chunks is resident, none twice, each no longer than the chunk size and each
  holding what fetching that chunk from the source returns.\<close>

theorem cache_bounded:
  assumes "well_behaved inner" and "cache_reach (cache_with_capacity inner cap) st"
  shows "resident_chunks st \<le> max cap 1 \<and> distinct (map fst (cs_map st)) \<and>
    (\<forall>(idx, e) \<in> set (cs_map st). length (ce_data e) \<le> rc_chunk_size (cache_with_capacity inner cap) \<and>
      ce_data e = ce_data (cache_fetch (cache_with_capacity inner cap) idx))"
proof -
  let ?c = "cache_with_capacity inner cap"
  have fields: "rc_inner ?c = inner" "rc_capacity_chunks ?c = max cap 1" by (simp_all add: cache_with_capacity_def Let_def)
  have v: "cache_valid ?c st" using assms(2) by (rule cache_reach_valid)
  have "length (ce_data e) \<le> rc_chunk_size ?c \<and> ce_data e = ce_data (cache_fetch ?c idx)" if "(idx, e) \<in> set (cs_map st)" for idx e
    using cache_valid_size [OF v _ that] v that assms(1) by (simp add: fields cache_valid_def)
  then show ?thesis using cache_reach_capacity [OF assms(2)] v by (auto simp: fields cache_valid_def)
qed

theorem cache_bounded_witness:
  "resident_chunks (snd (cache_read (cache_with_capacity mixed_source 0) cache_init 0 (zeros 16))) \<le> 1"
  using cache_bounded [OF presents_wb [OF presents_mixed] reach_read [OF reach_init], of 0 0 "zeros 16"] by simp

text \<open>Eviction brings the cache within its capacity and is least recently used: it
  adds nothing, and a chunk that stays was used no earlier than any chunk that goes.\<close>

theorem cache_evicts_oldest:
  assumes "distinct (map fst m)"
  shows "length (cache_evict cap m) \<le> cap \<and> set (cache_evict cap m) \<subseteq> set m \<and>
    (\<forall>p \<in> set (cache_evict cap m). \<forall>q \<in> set m - set (cache_evict cap m).
      ce_last_used (snd q) \<le> ce_last_used (snd p))"
  using assms length_cache_evict cache_evict_subset cache_evict_lru by blast

theorem cache_evicts_oldest_witness:
  "length (cache_evict 1 [(3, cache_fetch (cache_new mixed_source) 3), (5, cache_fetch (cache_new mixed_source) 5)]) \<le> 1"
  using cache_evicts_oldest [of "[(3, cache_fetch (cache_new mixed_source) 3), (5, cache_fetch (cache_new mixed_source) 5)]" 1]
  by simp

text \<open>The cache loses the unread status: a sector the wrapped source reports as not
  read comes back good, from the first read on, because a chunk records bad sectors only.\<close>

theorem cache_hides_unread:
  assumes "presents inner md" "s_sector_size inner < 4294967296"
    and "cache_reach (cache_with_capacity inner cap) st"
    and "offset mod s_sector_size inner = 0" "offset + length buf \<le> s_len inner"
    and "i < div_ceil (length buf) (s_sector_size inner)"
    and "md_stat md (offset div s_sector_size inner + i) = Unread"
  shows "rr_status (snd (s_read_at inner offset buf)) i = Unread \<and>
    rr_status (snd (fst (cache_read (cache_with_capacity inner cap) st offset buf))) i = Good"
  using sector_source.status [OF sector_source_reached [OF assms(1-3)] assms(4-6)]
    presents_status [OF assms(1,4,5,6)] assms(7)
  by (simp add: cache_read_fn_def cached_stat_def)

theorem cache_hides_unread_witness:
  "rr_status (snd (s_read_at mixed_source 0 (zeros 16))) 2 = Unread \<and>
    rr_status (snd (fst (cache_read (cache_with_capacity mixed_source 4) cache_init 0 (zeros 16)))) 2 = Good"
  by (rule cache_hides_unread [OF presents_mixed _ reach_init])
    (simp_all add: mixed_medium_def div_ceil_def)

section \<open>Reading files\<close>

text \<open>Reading an image file returns as soon as the system stops interrupting
  the call, and what it returns is honest: some number \<open>d\<close> of the requested bytes was delivered
  (none for an unaligned request, never past the recorded length), the buffer holds the file's bytes
  up to there and zeros after, and a sector is bad exactly when a requested byte of it is missing.\<close>

theorem file_read_total:
  assumes "pread_settles pread" "pread_of c pread" "0 < ss" "length buf \<le> u64_max"
  shows "\<exists>r d. read_file_at pread len ss offset buf = Some r \<and> d \<le> length buf \<and>
    (d = 0 \<or> offset mod ss = 0 \<and> offset + d \<le> len) \<and> length (fst r) = length buf \<and>
    (\<forall>j < length buf. fst r ! j = (if j < d then c ! (offset + j) else 0)) \<and>
    (\<forall>i < div_ceil (length buf) ss.
      rr_status (snd r) i = (if d < min (Suc i * ss) (length buf) then Bad else Good))"
proof -
  obtain r where r: "read_file_at pread len ss offset buf = Some r"
    using read_file_at_returns [OF assms(1)] by blast
  show ?thesis
  proof (rule read_file_at_correct [OF r assms(2-4)], intro exI conjI allI impI)
    show "read_file_at pread len ss offset buf = Some r" by (rule r)
  qed blast+
qed

theorem file_read_total_witness:
  "\<exists>r. read_file_at (whole_pread [1, 2, 3, 4]) 4 2 2 (zeros 4) = Some r \<and> length (fst r) = 4"
proof -
  have "length (zeros 4) = 4" "(0 :: nat) < 2" "length (zeros 4) \<le> u64_max" by simp_all
  then show ?thesis
    using file_read_total [OF pread_settles_whole pread_of_whole, of 2 "zeros 4" "[1, 2, 3, 4]" 4 2] by metis
qed

section \<open>Raw devices\<close>

text \<open>C6: A defective sector costs only itself: on a disk that fails every call meeting
  a defective sector, delivers other calls in pieces and interrupts some of them, an aligned read
  inside the device returns, its bad sectors are exactly the defective ones, these read as zeros,
  and every other sector has the disk's bytes.\<close>

theorem raw_device_isolates:
  assumes "disk_pread b defect n ss pread" "dev_settles pread" "0 < ss" "offset mod ss = 0" "offset + length buf \<le> n"
  shows "\<exists>r v'. raw_read pread n ss v offset buf = Some (r, v') \<and> length (fst r) = length buf \<and>
    (\<forall>j < length buf. fst r ! j = (if defect ((offset + j) div ss) then 0 else b (offset + j))) \<and>
    (\<forall>i < div_ceil (length buf) ss. rr_status (snd r) i = (if defect (offset div ss + i) then Bad else Good))"
  using raw_read_disk [OF assms(3-5,1,2)] .

theorem raw_device_isolates_witness:
  "\<exists>r v'. raw_read (prompt_disk (\<lambda>_. 7) (\<lambda>l. l = 1) 4) 12 4 False 0 (zeros 12) = Some (r, v') \<and>
    fst r ! 3 = 7 \<and> fst r ! 4 = 0 \<and> fst r ! 8 = 7 \<and> rr_status (snd r) 1 = Bad \<and> rr_status (snd r) 2 = Good"
proof -
  obtain r v' where r: "raw_read (prompt_disk (\<lambda>_. 7) (\<lambda>l. l = 1) 4) 12 4 False 0 (zeros 12) = Some (r, v')"
      "\<forall>j < 12. fst r ! j = (if (0 + j) div 4 = 1 then 0 else 7)"
      "\<forall>i < div_ceil 12 4. rr_status (snd r) i = (if 0 div 4 + i = 1 then Bad else Good)"
    using raw_device_isolates [OF disk_pread_prompt dev_settles_prompt,
        of 4 0 "zeros 12" 12 "\<lambda>_. 7" "\<lambda>l. l = 1" False] by auto
  then show ?thesis by (auto simp: div_ceil_def)
qed

text \<open>An unplugged device is noticed: when every call answers with one of the error numbers
  of a device that is gone, an aligned read inside the recorded length returns, hands out zeros
  only, marks every sector bad and latches the device as vanished.\<close>

theorem raw_device_gone:
  assumes "\<And>t off want. pread t off want = DevErr e" "e \<in> {6, 19, 9}"
    and "0 < ss" "offset mod ss = 0" "offset + length buf \<le> n" "buf \<noteq> []"
  shows "\<exists>r. raw_read pread n ss v offset buf = Some (r, True) \<and> fst r = zeros (length buf) \<and>
    (\<forall>i < div_ceil (length buf) ss. rr_status (snd r) i = Bad)"
  using raw_read_gone [OF assms(3-6,1,2)] .

theorem raw_device_gone_witness:
  "\<exists>r. raw_read (\<lambda>t off want. DevErr 6) 16 4 False 8 [1, 2, 3, 4] = Some (r, True) \<and> fst r = [0, 0, 0, 0]"
proof -
  have "zeros 4 = [0, 0, 0, 0 :: byte]" by (simp add: eval_nat_numeral)
  then show ?thesis using raw_device_gone [of "\<lambda>t off want. DevErr 6" 6 4 8 "[1, 2, 3, 4]" 16 False] by auto
qed

section \<open>Wrappers\<close>

text \<open>The fault injector is exact: over a source it presents the same medium with the
  listed sectors bad and zeroed, and every other sector, unread ones included, as it was.\<close>

theorem fault_injector_exact:
  assumes "presents inner md"
  shows "presents (fault_source (fault_new inner lbas))
    \<lparr>md_byte = (\<lambda>j. if j div s_sector_size inner \<in> set lbas then 0 else md_byte md j),
     md_stat = (\<lambda>l. if l \<in> set lbas then Bad else md_stat md l)\<rparr>"
  using sector_source_fault [of "fault_new inner lbas", unfolded set_fault_new] presents_sector_source [OF assms] assms
  by (intro presentsI) (simp_all add: fault_source_def fault_new_def presents_def)

theorem fault_injector_exact_witness:
  "rr_status (snd (s_read_at (fault_source (fault_new mixed_source [3, 3])) 0 (zeros 16))) 3 = Bad"
  using presents_status [OF fault_injector_exact [OF presents_mixed, of "[3, 3]"], of 0 "zeros 16" 3]
  by (simp add: fault_source_def fault_new_def div_ceil_def)

text \<open>A window over a source presents exactly the window's part of the medium: the
  constructor accepts only aligned windows inside the source, and the bytes and the sector statuses
  are those of the source shifted by the window's start.\<close>

theorem view_presents:
  assumes "presents inner md" "offset_view_new inner start len = Inr v"
  shows "start + len \<le> s_len inner \<and> start mod s_sector_size inner = 0 \<and> s_len (view_source v) = len \<and>
    presents (view_source v)
      \<lparr>md_byte = (\<lambda>j. md_byte md (start + j)), md_stat = (\<lambda>l. md_stat md (start div s_sector_size inner + l))\<rparr>"
proof -
  have v: "ov_inner v = inner" "ov_start v = start" "ov_len v = len"
    "start mod s_sector_size inner = 0" "start + len \<le> s_len inner"
    using offset_view_new_ok [OF assms(2)] presents_pos [OF assms(1)] by auto
  have L: "s_len inner \<le> u64_max" using assms(1) by (simp add: presents_def)
  have "presents (view_source v)
      \<lparr>md_byte = (\<lambda>j. md_byte md (start + j)), md_stat = (\<lambda>l. md_stat md (start div s_sector_size inner + l))\<rparr>"
    using sector_source_view [of v "s_len inner" "md_byte md" "md_stat md"] presents_sector_source [OF assms(1)] v L
    by (intro presentsI) (simp_all add: view_source_def)
  then show ?thesis using v by (simp add: view_source_def)
qed

theorem view_presents_witness:
  "\<exists>v. offset_view_new mixed_source 4 8 = Inr v \<and> s_len (view_source v) = 8"
proof -
  obtain v where v: "offset_view_new mixed_source 4 8 = Inr v" by (simp add: offset_view_new_def)
  then show ?thesis using view_presents [OF presents_mixed v] by blast
qed

text \<open>C3: A window never hands out a byte of its neighbours: wherever a request runs past the
  end of the window, whatever its alignment, the buffer holds zero and the sector is reported bad.\<close>

theorem view_confined:
  assumes "presents inner md" "offset_view_new inner start len = Inr v"
    and "length buf \<le> u64_max" "j < length buf" "len \<le> offset + j"
  shows "fst (s_read_at (view_source v) offset buf) ! j = 0 \<and>
    rr_status (snd (s_read_at (view_source v) offset buf)) (j div s_sector_size inner) = Bad"
  using view_read_confined [of v buf j offset] offset_view_new_ok [OF assms(2)] presents_wb [OF assms(1)] assms(3-5)
  by (simp add: view_source_def)

theorem view_confined_witness:
  "\<exists>v. offset_view_new mixed_source 4 6 = Inr v \<and> rr_status (snd (s_read_at (view_source v) 4 (zeros 4))) 0 = Bad"
proof -
  obtain v where v: "offset_view_new mixed_source 4 6 = Inr v" by (simp add: offset_view_new_def)
  then show ?thesis using view_confined [OF presents_mixed v, of "zeros 4" 2 4] by auto
qed

section \<open>The bad-block map\<close>

text \<open>Coalescing keeps exactly the described addresses and leaves runs that are sorted with a gap
  between neighbours, so that the binary search over the result decides membership.\<close>

theorem runs_coalesce:
  assumes "runs_in_range runs"
  shows "runs_separated (coalesce runs) \<and> lba_set (coalesce runs) = lba_set runs \<and>
    (in_ranges (coalesce runs) lba \<longleftrightarrow> lba \<in> lba_set runs)"
  using coalesce_correct [OF assms] in_ranges_coalesce [OF assms] by (simp add: lba_set_def)

theorem runs_coalesce_witness:
  "in_ranges (coalesce [\<lparr>lr_start = 5, lr_count = 2\<rparr>, \<lparr>lr_start = 1, lr_count = 4\<rparr>]) 4"
  using runs_coalesce [of "[\<lparr>lr_start = 5, lr_count = 2\<rparr>, \<lparr>lr_start = 1, lr_count = 4\<rparr>]" 4]
  by (simp add: runs_in_range_def lba_set_def lr_contains_def lr_end_def sat_add64_def)

text \<open>The bad-block map refines a pair of sets of sector addresses: starting from the empty
  map, recording a bad sector, a bad range or an unread sector inserts exactly those addresses into
  its set and leaves the other set alone, keeps both run lists canonical, and the sector count is
  the size of the bad set.\<close>

theorem bad_block_map_set:
  assumes "bb_wf m" "start + count \<le> u64_max" "lba < u64_max"
  shows "bb_wf (bb_new ss) \<and> bb_wf (bb_add_bad_range m start count) \<and> bb_wf (bb_add_bad m lba) \<and> bb_wf (bb_add_unread m lba) \<and>
    {l. bb_is_bad (bb_add_bad m lba) l} = insert lba {l. bb_is_bad m l} \<and>
    {l. bb_is_bad (bb_add_bad_range m start count) l} = {l. bb_is_bad m l} \<union> {start..<start + count} \<and>
    {l. bb_is_unread (bb_add_unread m lba) l} = insert lba {l. bb_is_unread m l} \<and>
    bb_is_bad (bb_add_unread m lba) = bb_is_bad m \<and> bb_is_unread (bb_add_bad m lba) = bb_is_unread m \<and>
    bb_bad_sector_count m = card {l. bb_is_bad m l}"
  using bb_add_bad_correct [OF assms(1,3)] bb_add_bad_range_correct [OF assms(1,2)] bb_add_unread_correct [OF assms(1,3)]
    bb_count_correct [OF assms(1)]
  by (auto simp: bb_new_def bb_wf_def runs_ok_def runs_exact_def runs_separated_def bb_add_unread_def bb_add_bad_def
      bb_is_bad_def bb_is_unread_def)

theorem bad_block_map_set_witness:
  "{l. bb_is_bad (bb_add_bad_range (bb_new 512) 7 3) l} = {7..<10}"
  using bad_block_map_set [of "bb_new 512" 7 3 0]
  by (simp add: bb_new_def bb_wf_def runs_ok_def runs_exact_def runs_separated_def bb_is_bad_def)

end
