(* ===== verification/Codec.thy ===== *)
theory Codec
  imports Prelude
begin

text \<open>
  The block decompressors of \<^verbatim>\<open>crates/reclaim-block/src/container/codec.rs\<close>. The stream decoders
  themselves are third-party crates and enter as the record \<open>decoders\<close>: a reader is the list of
  outcomes of its successive \<^verbatim>\<open>read\<close> calls (its end is \<^verbatim>\<open>Ok(0)\<close>), a pushing decoder the list of
  its writes and whether it ends well. What the code adds around them, the caps and the exact length
  check, is what the lemmas are about.
\<close>

datatype codec = CodecRaw | CodecZero | CodecZlib | CodecDeflate | CodecBzip2 | CodecLzma | CodecLzfse

datatype stream_read = Chunk bytes | Interrupted | Failed

record decoders =
  dec_zlib :: "bytes \<Rightarrow> stream_read list"
  dec_deflate :: "bytes \<Rightarrow> stream_read list"
  dec_bzip2 :: "bytes \<Rightarrow> stream_read list"
  dec_lzfse :: "bytes \<Rightarrow> stream_read list"
  dec_lzma :: "nat \<Rightarrow> bytes \<Rightarrow> bytes list \<times> bool"
  dec_xz :: "bytes \<Rightarrow> bytes list \<times> bool"

definition max_block_out :: nat where
  "max_block_out = 64 * 1024 * 1024"

definition decode_cap :: "nat \<Rightarrow> nat" where
  "decode_cap hint = sat_add64 (min hint max_block_out) 1"

text \<open>\<^verbatim>\<open>inflate\<close>: read to the end, refusing to grow past the cap.\<close>

fun inflate_from :: "nat \<Rightarrow> bytes \<Rightarrow> stream_read list \<Rightarrow> bytes option" where
  "inflate_from cap out [] = Some out"
| "inflate_from cap out (Chunk c # rs) =
     (if c = [] then Some out
      else if cap < sat_add64 (length out) (length c) then None
      else inflate_from cap (out @ c) rs)"
| "inflate_from cap out (Interrupted # rs) = inflate_from cap out rs"
| "inflate_from cap out (Failed # rs) = None"

definition inflate :: "stream_read list \<Rightarrow> nat \<Rightarrow> bytes option" where
  "inflate r hint = inflate_from (decode_cap hint) [] r"

text \<open>\<^verbatim>\<open>CappedSink\<close>: a write that would pass the cap is an error, which ends the decoder.\<close>

definition sink_write :: "nat \<Rightarrow> bytes \<Rightarrow> bytes \<Rightarrow> bytes option" where
  "sink_write cap buf data = (if cap < sat_add64 (length buf) (length data) then None else Some (buf @ data))"

fun sink_all :: "nat \<Rightarrow> bytes \<Rightarrow> bytes list \<Rightarrow> bytes option" where
  "sink_all cap buf [] = Some buf"
| "sink_all cap buf (w # ws) = (case sink_write cap buf w of None \<Rightarrow> None | Some buf' \<Rightarrow> sink_all cap buf' ws)"

definition decode_into_sink :: "nat \<Rightarrow> bytes list \<times> bool \<Rightarrow> bytes option" where
  "decode_into_sink cap run = (case sink_all cap [] (fst run) of
     None \<Rightarrow> None | Some buf \<Rightarrow> if snd run then Some buf else None)"

definition lzma_any :: "decoders \<Rightarrow> bytes \<Rightarrow> nat \<Rightarrow> bytes option" where
  "lzma_any d src hint =
     (let cap = decode_cap hint; memlimit = max cap 1048576 in
      case decode_into_sink cap (dec_lzma d memlimit src) of
        Some out \<Rightarrow> Some out
      | None \<Rightarrow> decode_into_sink cap (dec_xz d src))"

definition lzfse :: "decoders \<Rightarrow> bytes \<Rightarrow> nat \<Rightarrow> bytes option" where
  "lzfse d src hint = inflate (dec_lzfse d src) hint"

definition decompress :: "decoders \<Rightarrow> codec \<Rightarrow> bytes \<Rightarrow> nat \<Rightarrow> bytes option" where
  "decompress d codec src out_len =
     (if max_block_out < out_len then None
      else
        let out = (case codec of
            CodecZero \<Rightarrow> Some (zeros out_len)
          | CodecRaw \<Rightarrow> if length src < out_len then None else get_slice src 0 out_len
          | CodecZlib \<Rightarrow> inflate (dec_zlib d src) out_len
          | CodecDeflate \<Rightarrow> inflate (dec_deflate d src) out_len
          | CodecBzip2 \<Rightarrow> inflate (dec_bzip2 d src) out_len
          | CodecLzma \<Rightarrow> lzma_any d src out_len
          | CodecLzfse \<Rightarrow> lzfse d src out_len)
        in case out of None \<Rightarrow> None | Some o' \<Rightarrow> if length o' = out_len then Some o' else None)"

section \<open>Bounds\<close>

lemma decode_cap_eq: "decode_cap hint = min hint max_block_out + 1"
  by (simp add: decode_cap_def sat_add64_def max_block_out_def)

lemma cap_grow: "\<not> cap < sat_add64 a b \<Longrightarrow> cap < u64_max \<Longrightarrow> a + b \<le> cap"
  by (auto simp: sat_add64_def min_def split: if_splits)

lemma inflate_from_bound:
  "inflate_from cap out r = Some res \<Longrightarrow> length out \<le> cap \<Longrightarrow> cap < u64_max \<Longrightarrow> length res \<le> cap"
proof (induction cap out r rule: inflate_from.induct)
  case (2 cap out c rs)
  then show ?case using cap_grow [of cap "length out" "length c"] by (auto split: if_splits)
qed auto

lemma inflate_bound: "inflate r hint = Some res \<Longrightarrow> length res \<le> min hint max_block_out + 1"
  unfolding inflate_def
  by (drule inflate_from_bound) (simp_all add: decode_cap_eq max_block_out_def)

lemma sink_all_bound:
  "sink_all cap buf ws = Some res \<Longrightarrow> length buf \<le> cap \<Longrightarrow> cap < u64_max \<Longrightarrow> length res \<le> cap"
proof (induction ws arbitrary: buf)
  case (Cons w ws)
  then show ?case using cap_grow [of cap "length buf" "length w"]
    by (auto simp: sink_write_def split: option.splits if_splits)
qed simp

lemma lzma_any_bound: "lzma_any d src hint = Some res \<Longrightarrow> length res \<le> min hint max_block_out + 1"
proof -
  have "length r \<le> min hint max_block_out + 1" if "decode_into_sink (decode_cap hint) run = Some r" for r run
    using that sink_all_bound [of "decode_cap hint" "[]" "fst run" r]
    by (auto simp: decode_into_sink_def decode_cap_eq max_block_out_def split: option.splits if_splits)
  then show "lzma_any d src hint = Some res \<Longrightarrow> length res \<le> min hint max_block_out + 1"
    by (auto simp: lzma_any_def Let_def split: option.splits)
qed

text \<open>No decoder is allowed to produce more than one byte past the length the container declares,
  whatever the stream holds.\<close>

lemma inflate_overrun:
  assumes "\<And>c. Chunk c \<in> set r \<Longrightarrow> c \<noteq> []"
    and "decode_cap hint < length (concat (map (\<lambda>e. case e of Chunk c \<Rightarrow> c | _ \<Rightarrow> []) r))"
  shows "inflate r hint = None"
proof -
  have grow: "sat_add64 (length out) (length c) \<le> cap \<Longrightarrow> cap < u64_max \<Longrightarrow> length (out @ c) \<le> cap"
    for out c :: bytes and cap
    using cap_grow [of cap "length out" "length c"] by simp
  have "inflate_from cap out r = None"
    if "length out \<le> cap" "cap < u64_max" "cap < length out + length (concat (map (\<lambda>e. case e of Chunk c \<Rightarrow> c | _ \<Rightarrow> []) r))"
    for cap out
    using that assms(1)
  proof (induction cap out r rule: inflate_from.induct)
    case (2 cap out c rs)
    then show ?case using grow [of out c cap] by (auto simp: not_less)
  qed auto
  then show ?thesis using assms(2) by (simp add: inflate_def decode_cap_eq max_block_out_def)
qed

lemma decompress_length:
  "decompress d codec src n = Some out \<Longrightarrow> length out = n \<and> n \<le> max_block_out"
  by (auto simp: decompress_def Let_def split: if_splits option.splits)

lemma decompress_raw: "n \<le> max_block_out \<Longrightarrow> decompress d CodecRaw src n = (if n \<le> length src then Some (take n src) else None)"
  by (auto simp: decompress_def Let_def get_slice_def split: option.splits)

end
