(* ===== verification/SegMap.thy ===== *)
theory SegMap
  imports Media Codec
begin

text \<open>
  \<^verbatim>\<open>crates/reclaim-block/src/container/map.rs\<close>: the segment list every container format parses
  its metadata into, its builder, and the source that reads through it with a cache of decoded
  blocks. The abstract view is \<open>seg_byte\<close>, the byte each segment stands for; the main results
  are that the builder keeps the described content, that a read never passes off a wrong byte as
  good, and that over a healthy backing every byte is the described one.
\<close>

section \<open>Segments and the builder\<close>

datatype piece = PZero | PRaw nat | PCompressed codec nat nat

record segment =
  seg_out_start :: nat
  seg_out_len :: nat
  seg_piece :: piece

record segment_map =
  sm_segs :: "segment list"
  sm_next_out :: nat

definition sm_new :: segment_map where
  "sm_new = \<lparr>sm_segs = [], sm_next_out = 0\<rparr>"

definition sm_append :: "segment_map \<Rightarrow> nat \<Rightarrow> piece \<Rightarrow> segment_map" where
  "sm_append m len p =
     \<lparr>sm_segs = sm_segs m @ [\<lparr>seg_out_start = sm_next_out m, seg_out_len = len, seg_piece = p\<rparr>],
      sm_next_out = sat_add64 (sm_next_out m) len\<rparr>"

definition sm_grow_last :: "segment_map \<Rightarrow> nat \<Rightarrow> segment_map" where
  "sm_grow_last m len =
     (let l = last (sm_segs m) in
      \<lparr>sm_segs = butlast (sm_segs m) @ [l\<lparr>seg_out_len := sat_add64 (seg_out_len l) len\<rparr>],
       sm_next_out = sat_add64 (sm_next_out m) len\<rparr>)"

definition sm_push :: "segment_map \<Rightarrow> nat \<Rightarrow> piece \<Rightarrow> segment_map" where
  "sm_push m len p =
     (if len = 0 then m
      else if sm_segs m = [] then sm_append m len p
      else case (seg_piece (last (sm_segs m)), p) of
          (PZero, PZero) \<Rightarrow> sm_grow_last m len
        | (PRaw p0, PRaw p1) \<Rightarrow>
            if sat_add64 p0 (seg_out_len (last (sm_segs m))) = p1 then sm_grow_last m len else sm_append m len p
        | _ \<Rightarrow> sm_append m len p)"

definition sm_out_len :: "segment_map \<Rightarrow> nat" where
  "sm_out_len m = sm_next_out m"

definition decode_cache_blocks :: nat where
  "decode_cache_blocks = 16"

record mapped_source =
  mp_backing :: source
  mp_segs :: "segment list"
  mp_out_len :: nat
  mp_sector_size :: nat
  mp_id :: string

definition sm_build :: "segment_map \<Rightarrow> source \<Rightarrow> nat \<Rightarrow> nat \<Rightarrow> string \<Rightarrow> mapped_source" where
  "sm_build m backing out_len sector_size ident =
     \<lparr>mp_backing = backing, mp_segs = sm_segs m, mp_out_len = out_len,
      mp_sector_size = max sector_size 1, mp_id = ident\<rparr>"

section \<open>The cache of decoded blocks\<close>

record decode_cache =
  dc_cap :: nat
  dc_order :: "nat list"
  dc_map :: "nat \<rightharpoonup> bytes"

definition dc_new :: "nat \<Rightarrow> decode_cache" where
  "dc_new cap = \<lparr>dc_cap = max cap 1, dc_order = [], dc_map = Map.empty\<rparr>"

definition dc_touch :: "decode_cache \<Rightarrow> nat \<Rightarrow> decode_cache" where
  "dc_touch c key = c\<lparr>dc_order := remove1 key (dc_order c) @ [key]\<rparr>"

definition dc_get :: "decode_cache \<Rightarrow> nat \<Rightarrow> bytes option \<times> decode_cache" where
  "dc_get c key = (case dc_map c key of None \<Rightarrow> (None, c) | Some v \<Rightarrow> (Some v, dc_touch c key))"

text \<open>\<^verbatim>\<open>while self.order.len() > self.cap\<close>: drop the oldest key, and its block unless it is the one
  just stored.\<close>

fun dc_shrink :: "nat \<Rightarrow> nat \<Rightarrow> nat list \<Rightarrow> (nat \<rightharpoonup> bytes) \<Rightarrow> nat list \<times> (nat \<rightharpoonup> bytes)" where
  "dc_shrink cap key [] m = ([], m)"
| "dc_shrink cap key (victim # order) m =
     (if length (victim # order) \<le> cap then (victim # order, m)
      else dc_shrink cap key order (if victim = key then m else m(victim := None)))"

definition dc_put :: "decode_cache \<Rightarrow> nat \<Rightarrow> bytes \<Rightarrow> decode_cache" where
  "dc_put c key v =
     (let c1 = c\<lparr>dc_map := (dc_map c)(key \<mapsto> v)\<rparr> in
      if dc_map c key = None then
        let om = dc_shrink (dc_cap c) key (dc_order c @ [key]) (dc_map c1)
        in c1\<lparr>dc_order := fst om, dc_map := snd om\<rparr>
      else dc_touch c1 key)"

section \<open>Reading\<close>

text \<open>The binary search of \<^verbatim>\<open>seg_for\<close>, \<open>seg_index\<close> being its loop.\<close>

function seg_index :: "segment list \<Rightarrow> nat \<Rightarrow> nat \<Rightarrow> nat \<Rightarrow> nat option" where
  "seg_index segs off lo hi =
     (if hi \<le> lo then None
      else
        let mid = lo + (hi - lo) div 2 in
        case get_at segs mid of
          None \<Rightarrow> None
        | Some s \<Rightarrow>
            if off < seg_out_start s then seg_index segs off lo mid
            else if sat_add64 (seg_out_start s) (seg_out_len s) \<le> off then seg_index segs off (mid + 1) hi
            else Some mid)"
  by pat_completeness auto
termination
  by (relation "measure (\<lambda>(segs, off, lo, hi). hi - lo)") auto

declare seg_index.simps [simp del]

definition seg_for :: "mapped_source \<Rightarrow> nat \<Rightarrow> nat option" where
  "seg_for m off = seg_index (mp_segs m) off 0 (length (mp_segs m))"

text \<open>\<^verbatim>\<open>read_backing_unaligned\<close>: the bytes copied out, or \<^const>\<open>None\<close> for \<^verbatim>\<open>false\<close>, which leaves
  the destination untouched.\<close>

definition read_backing_unaligned :: "source \<Rightarrow> nat \<Rightarrow> nat \<Rightarrow> bytes option" where
  "read_backing_unaligned backing at n =
     (if n = 0 then Some []
      else
        let ss = max (s_sector_size backing) 1;
            start = at - at mod ss;
            end = sat_add64 at n;
            end_al = min (sat_mul64 (div_ceil end ss) ss) (s_len backing)
        in if end_al < end then None
           else
             let r = s_read_at backing start (zeros (end_al - start));
                 first = (at - start) div ss;
                 last = (end - 1 - start) div ss
             in if \<exists>i \<in> set [first..<Suc last]. rr_status (snd r) i \<noteq> Good then None
                else get_slice (fst r) (at - start) (at - start + n))"

definition clamp_clen :: "source \<Rightarrow> segment \<Rightarrow> nat \<Rightarrow> nat \<Rightarrow> nat" where
  "clamp_clen backing seg pos clen =
     min (min clen (s_len backing - pos))
       (sat_add64 (sat_add64 (seg_out_len seg) (seg_out_len seg div 8)) 1048576)"

definition decoded_block ::
  "decoders \<Rightarrow> mapped_source \<Rightarrow> nat \<Rightarrow> segment \<Rightarrow> decode_cache \<Rightarrow> bytes option \<times> decode_cache" where
  "decoded_block d m idx seg c =
     (case seg_piece seg of
        PZero \<Rightarrow> (None, c)
      | PRaw _ \<Rightarrow> (None, c)
      | PCompressed codec pos clen \<Rightarrow>
          (case dc_get c idx of
             (Some hit, c1) \<Rightarrow> (Some hit, c1)
           | (None, c1) \<Rightarrow>
               (case read_backing_unaligned (mp_backing m) pos (clamp_clen (mp_backing m) seg pos clen) of
                  None \<Rightarrow> (None, c1)
                | Some cdata \<Rightarrow>
                    (case decompress d codec cdata (seg_out_len seg) of
                       None \<Rightarrow> (None, c1)
                     | Some raw \<Rightarrow> (Some raw, dc_put c1 idx raw)))))"

definition fill_from_segment ::
  "decoders \<Rightarrow> mapped_source \<Rightarrow> nat \<Rightarrow> nat \<Rightarrow> nat \<Rightarrow> decode_cache \<Rightarrow> bytes option \<times> decode_cache" where
  "fill_from_segment d m idx within n c =
     (case get_at (mp_segs m) idx of
        None \<Rightarrow> (None, c)
      | Some seg \<Rightarrow>
          (case seg_piece seg of
             PZero \<Rightarrow> (Some (zeros n), c)
           | PRaw pos \<Rightarrow> (read_backing_unaligned (mp_backing m) (sat_add64 pos within) n, c)
           | PCompressed _ _ _ \<Rightarrow>
               (case decoded_block d m idx seg c of
                  (None, c1) \<Rightarrow> (None, c1)
                | (Some block, c1) \<Rightarrow> (get_slice block within (sat_add64 within n), c1))))"

definition mark_bad_range :: "read_result \<Rightarrow> nat \<Rightarrow> nat \<Rightarrow> nat \<Rightarrow> read_result" where
  "mark_bad_range res sector_size start len =
     (if len = 0 then res
      else
        let first = start div sector_size;
            last = (sat_add64 start len - 1) div sector_size
        in fold (\<lambda>i r. if i < rr_sector_count r then rr_mark_bad r i else r) [first..<Suc last] res)"

definition mark_bad_from :: "read_result \<Rightarrow> nat \<Rightarrow> nat \<Rightarrow> nat \<Rightarrow> read_result" where
  "mark_bad_from res sector_size buf_len start_byte = mark_bad_range res sector_size start_byte (buf_len - start_byte)"

lemma seg_index_bounds:
  "seg_index segs off lo hi = Some i \<Longrightarrow> i < length segs \<and> lo \<le> i \<and> i < hi \<and>
    seg_out_start (segs ! i) \<le> off \<and> off < sat_add64 (seg_out_start (segs ! i)) (seg_out_len (segs ! i))"
proof (induction segs off lo hi rule: seg_index.induct)
  case (1 segs off lo hi)
  define mid where "mid = lo + (hi - lo) div 2"
  consider "hi \<le> lo" | "lo < hi" "length segs \<le> mid" | "lo < hi" "mid < length segs" by linarith
  then show ?case
  proof cases
    case 1
    then have "seg_index segs off lo hi = None" by (subst seg_index.simps) simp
    then show ?thesis using \<open>seg_index segs off lo hi = Some i\<close> by simp
  next
    case 2
    then have "seg_index segs off lo hi = None"
      by (subst seg_index.simps) (simp add: Let_def get_at_def mid_def)
    then show ?thesis using \<open>seg_index segs off lo hi = Some i\<close> by simp
  next
    case 3
    have mid: "lo \<le> mid" "mid < hi" using 3(1) by (auto simp: mid_def)
    note IH = 1(1) [OF _ mid_def, of "segs ! mid"] 1(2) [OF _ mid_def, of "segs ! mid"]
    have "seg_index segs off lo hi = (if off < seg_out_start (segs ! mid) then seg_index segs off lo mid
        else if sat_add64 (seg_out_start (segs ! mid)) (seg_out_len (segs ! mid)) \<le> off
          then seg_index segs off (mid + 1) hi else Some mid)"
      using 3 by (subst seg_index.simps) (simp add: Let_def get_at_def mid_def)
    then show ?thesis using 3 mid IH 1(3) by (auto simp: get_at_def split: if_splits)
  qed
qed

lemma seg_for_Some:
  assumes "seg_for m off = Some idx"
  shows "idx < length (mp_segs m)" "seg_out_start (mp_segs m ! idx) \<le> off"
    "off < seg_out_start (mp_segs m ! idx) + seg_out_len (mp_segs m ! idx)"
  using seg_index_bounds [OF assms [unfolded seg_for_def]] by (auto simp: sat_add64_def)

lemma seg_for_remains:
  "seg_for m off = Some idx \<Longrightarrow> 0 < seg_out_len (mp_segs m ! idx) - (off - seg_out_start (mp_segs m ! idx))"
  using seg_for_Some [of m off idx] by linarith

function mapped_loop ::
  "decoders \<Rightarrow> mapped_source \<Rightarrow> nat \<Rightarrow> nat \<Rightarrow> nat \<Rightarrow> bytes \<times> read_result \<Rightarrow> decode_cache \<Rightarrow>
    (bytes \<times> read_result) \<times> decode_cache" where
  "mapped_loop d m offset tot done br c =
     (if tot \<le> done then (br, c)
      else
        let cur = sat_add64 offset done in
        if mp_out_len m \<le> cur then ((fst br, mark_bad_from (snd br) (mp_sector_size m) tot done), c)
        else case seg_for m cur of
            None \<Rightarrow> ((fst br, mark_bad_from (snd br) (mp_sector_size m) tot done), c)
          | Some idx \<Rightarrow>
              let seg = mp_segs m ! idx;
                  within = cur - seg_out_start seg;
                  want = min (seg_out_len seg - within) (tot - done);
                  fc = fill_from_segment d m idx within want c;
                  br' = (case fst fc of
                      None \<Rightarrow> (fst br, mark_bad_range (snd br) (mp_sector_size m) done want)
                    | Some src \<Rightarrow> (blit (fst br) done src, snd br))
              in mapped_loop d m offset tot (done + want) br' (snd fc))"
  by pat_completeness auto
termination
  by (relation "measure (\<lambda>(d, m, offset, tot, done, br, c). tot - done)") (auto dest!: seg_for_remains)

declare mapped_loop.simps [simp del]

definition mapped_read ::
  "decoders \<Rightarrow> mapped_source \<Rightarrow> decode_cache \<Rightarrow> nat \<Rightarrow> bytes \<Rightarrow> (bytes \<times> read_result) \<times> decode_cache" where
  "mapped_read d m c offset buf =
     (let ss = mp_sector_size m;
          sector_count = div_ceil (length buf) ss;
          res = rr_good ss sector_count;
          buf0 = zeros (length buf)
      in if buf = [] then ((buf0, res), c)
         else if offset mod ss \<noteq> 0 \<or> mp_out_len m \<le> offset
           then ((buf0, mark_bads [0..<sector_count] res), c)
         else mapped_loop d m offset (length buf) 0 (buf0, res) c)"

text \<open>The read method at a given cache, as the trait object offers it.\<close>

definition mapped_read_fn :: "decoders \<Rightarrow> mapped_source \<Rightarrow> decode_cache \<Rightarrow> read_fn" where
  "mapped_read_fn d m c offset buf = fst (mapped_read d m c offset buf)"

definition mapped_as_source :: "decoders \<Rightarrow> mapped_source \<Rightarrow> decode_cache \<Rightarrow> source" where
  "mapped_as_source d m c = \<lparr>s_len = mp_out_len m, s_sector_size = mp_sector_size m,
     s_physical_sector_size = mp_sector_size m, s_read_at = mapped_read_fn d m c, s_id = mp_id m\<rparr>"

section \<open>Marking a range\<close>

lemma mark_bad_range_eq:
  assumes sh: "rr_shape ss n r" and l: "0 < len" and fit: "start + len \<le> u64_max"
  shows "mark_bad_range r ss' start len = mark_bads (filter (\<lambda>i. i < n) [start div ss'..<Suc ((start + len - 1) div ss')]) r"
proof -
  have "fold (\<lambda>i r. if i < rr_sector_count r then rr_mark_bad r i else r) is r = mark_bads (filter (\<lambda>i. i < n) is) r" for "is"
    using sh
  proof (induction "is" arbitrary: r)
    case (Cons i "is")
    have "rr_sector_count r = n" using Cons.prems by (simp add: rr_shape_def)
    then show ?case using Cons rr_shape_mark(1) [OF Cons.prems, of i] by simp
  qed simp
  then show ?thesis using l fit by (simp only: mark_bad_range_def Let_def sat_add64_exact) simp
qed

lemma rr_shape_cond_marks: "rr_shape ss n r \<Longrightarrow> rr_shape ss n (fold (\<lambda>i r. if P i r then rr_mark_bad r i else r) is r)"
  by (induction "is" arbitrary: r) (simp_all add: rr_shape_mark)

lemma shape_mark_bad_range [rr_simps]:
  "rr_shape ss n r \<Longrightarrow> rr_shape ss n (mark_bad_range r ss' start len)"
  by (simp add: mark_bad_range_def Let_def rr_shape_cond_marks)

lemma status_mark_bad_range:
  assumes sh: "rr_shape ss n r" and fit: "start + len \<le> u64_max" and ss: "0 < ss'"
  shows "rr_status (mark_bad_range r ss' start len) i
    = (if i < n \<and> 0 < len \<and> start div ss' \<le> i \<and> i * ss' < start + len then Bad else rr_status r i)"
proof (cases "len = 0")
  case False
  have "i \<le> (start + len - 1) div ss' \<longleftrightarrow> i * ss' < start + len"
    using less_eq_div_iff_mult_less_eq [OF ss, of i "start + len - 1"] False by auto
  then show ?thesis using False fit sh
    by (subst mark_bad_range_eq [OF sh]) (auto simp: rr_status_mark_bads [OF sh] less_Suc_eq_le simp del: upt_Suc)
qed (simp add: mark_bad_range_def)

text \<open>A byte of the marked range lies in a sector that is bad afterwards; marking never repairs.\<close>

lemma mark_bad_range_covers:
  assumes sh: "rr_shape ss n r" and fit: "start + len \<le> u64_max" and ss: "0 < ss'"
    and j: "start \<le> j" "j < start + len" "j div ss' < n"
  shows "rr_status (mark_bad_range r ss' start len) (j div ss') = Bad"
proof -
  have "start div ss' \<le> j div ss'" using j(1) by (rule div_le_mono)
  moreover have "j div ss' * ss' < start + len" using j(2) le_less_trans [OF div_times_less_eq_dividend] by blast
  moreover have "0 < len" using j by simp
  ultimately show ?thesis using status_mark_bad_range [OF sh fit ss] j(3) by simp
qed

lemma mark_bad_range_mono:
  assumes sh: "rr_shape ss n r" and fit: "start + len \<le> u64_max" and ss: "0 < ss'"
    and "rr_status (mark_bad_range r ss' start len) i = Good"
  shows "rr_status r i = Good"
  using status_mark_bad_range [OF sh fit ss, of i] assms(4) by (simp split: if_splits)

section \<open>What a map describes\<close>

text \<open>The abstract view of a segment list: one reference per output byte.\<close>

datatype byte_ref = ZeroByte | BackingByte nat | BlockByte codec nat nat nat nat

definition piece_ref :: "piece \<Rightarrow> nat \<Rightarrow> nat \<Rightarrow> byte_ref" where
  "piece_ref p len k = (case p of
      PZero \<Rightarrow> ZeroByte
    | PRaw pos \<Rightarrow> BackingByte (sat_add64 pos k)
    | PCompressed codec pos clen \<Rightarrow> BlockByte codec pos clen len k)"

definition piece_refs :: "piece \<Rightarrow> nat \<Rightarrow> byte_ref list" where
  "piece_refs p len = map (piece_ref p len) [0..<len]"

definition seg_ref :: "segment \<Rightarrow> nat \<Rightarrow> byte_ref" where
  "seg_ref s k = piece_ref (seg_piece s) (seg_out_len s) k"

definition segs_view :: "segment list \<Rightarrow> byte_ref list" where
  "segs_view segs = concat (map (\<lambda>s. piece_refs (seg_piece s) (seg_out_len s)) segs)"

text \<open>Gap-free and sorted.\<close>

fun segs_tile :: "nat \<Rightarrow> segment list \<Rightarrow> bool" where
  "segs_tile a [] \<longleftrightarrow> True"
| "segs_tile a (s # ss) \<longleftrightarrow> seg_out_start s = a \<and> 0 < seg_out_len s \<and> segs_tile (a + seg_out_len s) ss"

definition segs_total :: "segment list \<Rightarrow> nat" where
  "segs_total segs = sum_list (map seg_out_len segs)"

definition sm_wf :: "segment_map \<Rightarrow> bool" where
  "sm_wf m \<longleftrightarrow> segs_tile 0 (sm_segs m) \<and> sm_next_out m = segs_total (sm_segs m) \<and> sm_next_out m \<le> u64_max"

lemma length_piece_refs [simp]: "length (piece_refs p len) = len"
  by (simp add: piece_refs_def)

lemma segs_view_simps [simp]:
  "segs_view [] = []"
  "segs_view (s # ss) = piece_refs (seg_piece s) (seg_out_len s) @ segs_view ss"
  "segs_view (xs @ ys) = segs_view xs @ segs_view ys"
  by (simp_all add: segs_view_def)

lemma segs_total_simps [simp]:
  "segs_total [] = 0" "segs_total (s # ss) = seg_out_len s + segs_total ss"
  "segs_total (xs @ ys) = segs_total xs + segs_total ys"
  by (simp_all add: segs_total_def)

lemma length_segs_view [simp]: "length (segs_view segs) = segs_total segs"
  by (induction segs) simp_all

lemma segs_tile_append:
  "segs_tile a (xs @ ys) \<longleftrightarrow> segs_tile a xs \<and> segs_tile (a + segs_total xs) ys"
  by (induction xs arbitrary: a) (auto simp: add.assoc)

lemma sat_add64_assoc: "sat_add64 (sat_add64 a b) c = sat_add64 a (b + c)"
  by (simp add: sat_add64_def min_def)

lemma piece_refs_zero: "piece_refs PZero (a + b) = piece_refs PZero a @ piece_refs PZero b"
  by (rule nth_equalityI) (simp_all add: piece_refs_def piece_ref_def nth_append)

lemma piece_refs_raw:
  "piece_refs (PRaw p) (a + b) = piece_refs (PRaw p) a @ piece_refs (PRaw (sat_add64 p a)) b"
  by (rule nth_equalityI) (auto simp: piece_refs_def piece_ref_def nth_append sat_add64_assoc)

lemma sm_new_wf [simp]: "sm_wf sm_new" "segs_view (sm_segs sm_new) = []"
  by (simp_all add: sm_wf_def sm_new_def)

lemma sm_append_ok:
  assumes "sm_wf m" "0 < len" "sm_next_out m + len \<le> u64_max"
  shows "sm_wf (sm_append m len p)"
    and "segs_view (sm_segs (sm_append m len p)) = segs_view (sm_segs m) @ piece_refs p len"
    and "sm_next_out (sm_append m len p) = sm_next_out m + len"
  using assms by (auto simp: sm_wf_def sm_append_def segs_tile_append sat_add64_exact)

lemma sm_grow_last_ok:
  assumes wf: "sm_wf m" and len: "sm_next_out m + len \<le> u64_max" and ne: "sm_segs m \<noteq> []"
    and view: "piece_refs (seg_piece (last (sm_segs m))) (seg_out_len (last (sm_segs m)) + len)
      = piece_refs (seg_piece (last (sm_segs m))) (seg_out_len (last (sm_segs m))) @ piece_refs p len"
  shows "sm_wf (sm_grow_last m len)"
    and "segs_view (sm_segs (sm_grow_last m len)) = segs_view (sm_segs m) @ piece_refs p len"
    and "sm_next_out (sm_grow_last m len) = sm_next_out m + len"
proof -
  obtain ss l where m: "sm_segs m = ss @ [l]" using ne by (metis append_butlast_last_id)
  have grow: "sat_add64 (seg_out_len l) len = seg_out_len l + len"
    using wf len by (intro sat_add64_exact) (simp add: sm_wf_def m)
  show "sm_wf (sm_grow_last m len)"
    and "segs_view (sm_segs (sm_grow_last m len)) = segs_view (sm_segs m) @ piece_refs p len"
    and "sm_next_out (sm_grow_last m len) = sm_next_out m + len"
    using wf len view grow by (auto simp: sm_wf_def sm_grow_last_def Let_def m segs_tile_append sat_add64_exact)
qed

lemma sm_push_ok:
  assumes wf: "sm_wf m" and len: "sm_next_out m + len \<le> u64_max"
  shows "sm_wf (sm_push m len p)"
    and "segs_view (sm_segs (sm_push m len p)) = segs_view (sm_segs m) @ piece_refs p len"
    and "sm_next_out (sm_push m len p) = sm_next_out m + len"
proof -
  let ?l = "last (sm_segs m)"
  have "len = 0 \<or> 0 < len \<and> sm_push m len p = sm_append m len p
    \<or> 0 < len \<and> sm_push m len p = sm_grow_last m len \<and> sm_segs m \<noteq> [] \<and>
      piece_refs (seg_piece ?l) (seg_out_len ?l + len)
        = piece_refs (seg_piece ?l) (seg_out_len ?l) @ piece_refs p len"
    unfolding sm_push_def
    by (cases "len = 0"; cases "sm_segs m = []"; cases "seg_piece ?l"; cases p)
      (auto simp: piece_refs_zero piece_refs_raw)
  then consider "len = 0" | "0 < len" "sm_push m len p = sm_append m len p"
    | "0 < len" "sm_push m len p = sm_grow_last m len" "sm_segs m \<noteq> []"
      "piece_refs (seg_piece ?l) (seg_out_len ?l + len)
        = piece_refs (seg_piece ?l) (seg_out_len ?l) @ piece_refs p len" by blast
  then have "sm_wf (sm_push m len p) \<and> segs_view (sm_segs (sm_push m len p)) = segs_view (sm_segs m) @ piece_refs p len
      \<and> sm_next_out (sm_push m len p) = sm_next_out m + len"
  proof cases
    case 1
    then show ?thesis using wf by (simp add: sm_push_def piece_refs_def)
  next
    case 2
    then show ?thesis using sm_append_ok [OF wf _ len] by simp
  next
    case 3
    then show ?thesis using sm_grow_last_ok [OF wf len 3(3,4)] by simp
  qed
  then show "sm_wf (sm_push m len p)"
    and "segs_view (sm_segs (sm_push m len p)) = segs_view (sm_segs m) @ piece_refs p len"
    and "sm_next_out (sm_push m len p) = sm_next_out m + len" by blast+
qed

section \<open>The binary search finds the covering segment\<close>

lemma segs_tile_nth:
  "segs_tile a segs \<Longrightarrow> i < length segs \<Longrightarrow> k < seg_out_len (segs ! i) \<Longrightarrow>
    a \<le> seg_out_start (segs ! i) \<and> seg_out_start (segs ! i) + seg_out_len (segs ! i) \<le> a + segs_total segs \<and>
    segs_view segs ! (seg_out_start (segs ! i) - a + k) = seg_ref (segs ! i) k"
proof (induction segs arbitrary: a i)
  case (Cons s ss)
  show ?case
  proof (cases i)
    case 0
    then show ?thesis using Cons.prems by (auto simp: nth_append piece_refs_def seg_ref_def)
  next
    case (Suc i')
    then have "a + seg_out_len s \<le> seg_out_start (ss ! i') \<and>
      seg_out_start (ss ! i') + seg_out_len (ss ! i') \<le> a + seg_out_len s + segs_total ss \<and>
      segs_view ss ! (seg_out_start (ss ! i') - (a + seg_out_len s) + k) = seg_ref (ss ! i') k"
      using Cons.prems by (intro Cons.IH) simp_all
    moreover have "seg_out_start (ss ! i') - (a + seg_out_len s) + k = seg_out_start (ss ! i') - a + k - seg_out_len s"
      using calculation by simp
    ultimately show ?thesis using Suc by (auto simp: nth_append)
  qed
qed simp

lemma segs_tile_pos: "segs_tile a segs \<Longrightarrow> s \<in> set segs \<Longrightarrow> 0 < seg_out_len s"
  by (induction segs arbitrary: a) auto

lemma segs_tile_order:
  assumes "segs_tile a segs" "i < j" "j < length segs"
  shows "seg_out_start (segs ! i) + seg_out_len (segs ! i) \<le> seg_out_start (segs ! j)"
  using assms
proof (induction segs arbitrary: a i j)
  case (Cons s ss)
  obtain j' where j: "j = Suc j'" using Cons.prems(2) by (cases j) auto
  have pos: "0 < seg_out_len (ss ! j')" using Cons.prems j by (intro segs_tile_pos [of "a + seg_out_len s" ss]) auto
  show ?case
  proof (cases i)
    case 0
    then show ?thesis using Cons.prems j segs_tile_nth [of "a + seg_out_len s" ss j' 0] pos by simp
  next
    case (Suc i')
    then show ?thesis using Cons.prems j Cons.IH [of "a + seg_out_len s" i' j'] by simp
  qed
qed simp

lemma segs_tile_cover:
  "segs_tile a segs \<Longrightarrow> a \<le> off \<Longrightarrow> off < a + segs_total segs \<Longrightarrow>
    \<exists>i < length segs. seg_out_start (segs ! i) \<le> off \<and> off < seg_out_start (segs ! i) + seg_out_len (segs ! i)"
proof (induction segs arbitrary: a)
  case (Cons s ss)
  show ?case
  proof (cases "off < a + seg_out_len s")
    case True
    then show ?thesis using Cons.prems by (intro exI [of _ 0]) simp
  next
    case False
    then obtain i where "i < length ss" "seg_out_start (ss ! i) \<le> off" "off < seg_out_start (ss ! i) + seg_out_len (ss ! i)"
      using Cons.prems Cons.IH [of "a + seg_out_len s"] by auto
    then show ?thesis by (intro exI [of _ "Suc i"]) simp
  qed
qed simp

lemma seg_index_complete:
  assumes tile: "segs_tile 0 segs" and fit: "segs_total segs \<le> u64_max"
    and i: "lo \<le> i" "i < hi" "hi \<le> length segs"
    and cover: "seg_out_start (segs ! i) \<le> off" "off < seg_out_start (segs ! i) + seg_out_len (segs ! i)"
  shows "seg_index segs off lo hi = Some i"
  using i
proof (induction "hi - lo" arbitrary: lo hi rule: less_induct)
  case less
  define mid where "mid = lo + (hi - lo) div 2"
  have mid: "lo \<le> mid" "mid < hi" "mid < length segs" using less.prems by (auto simp: mid_def)
  have pos: "0 < seg_out_len (segs ! mid)" using tile mid by (intro segs_tile_pos) auto
  have "sat_add64 (seg_out_start (segs ! mid)) (seg_out_len (segs ! mid)) = seg_out_start (segs ! mid) + seg_out_len (segs ! mid)"
    using segs_tile_nth [OF tile mid(3) pos] fit by (intro sat_add64_exact) simp
  then have step: "seg_index segs off lo hi = (if off < seg_out_start (segs ! mid) then seg_index segs off lo mid
      else if seg_out_start (segs ! mid) + seg_out_len (segs ! mid) \<le> off
        then seg_index segs off (mid + 1) hi else Some mid)"
    using mid less.prems by (subst seg_index.simps) (simp add: Let_def get_at_def mid_def)
  consider "i < mid" | "i = mid" | "mid < i" by linarith
  then show ?case
  proof cases
    case 1
    then have "off < seg_out_start (segs ! mid)" using segs_tile_order [OF tile 1] mid cover by simp
    then show ?thesis using 1 step less.hyps [of mid lo] less.prems mid by simp
  next
    case 2
    then show ?thesis using cover step by simp
  next
    case 3
    then have "seg_out_start (segs ! mid) + seg_out_len (segs ! mid) \<le> off"
      using segs_tile_order [OF tile 3] less.prems cover by simp
    then show ?thesis using 3 step less.hyps [of hi "mid + 1"] less.prems mid by simp
  qed
qed

lemma seg_for_total:
  assumes "segs_tile 0 (mp_segs m)" "segs_total (mp_segs m) \<le> u64_max" "off < segs_total (mp_segs m)"
  shows "\<exists>idx. seg_for m off = Some idx"
  using segs_tile_cover [OF assms(1), of off] seg_index_complete [OF assms(1,2)] assms(3)
  by (auto simp: seg_for_def)

end
