(* ===== verification/MappedRead.thy ===== *)
theory MappedRead
  imports SegMap
begin

text \<open>
  Reading through a segment list (\<^verbatim>\<open>MappedSource::read_at\<close> of \<^verbatim>\<open>container/map.rs\<close>): the meaning
  \<open>ref_byte\<close> of each byte a map describes, validity of the decoded-block cache, and the theorems
  that a sector reported good holds exactly the described bytes and that everything readable is
  reported good, from every cache state.
\<close>

section \<open>The meaning of a byte reference\<close>

definition backing_bytes :: "source \<Rightarrow> medium \<Rightarrow> nat \<Rightarrow> nat \<Rightarrow> bytes option" where
  "backing_bytes s md at n = (if \<forall>k < n. good_byte s md (at + k) then Some (medium_bytes md at n) else None)"

definition block_bytes :: "decoders \<Rightarrow> source \<Rightarrow> medium \<Rightarrow> codec \<Rightarrow> nat \<Rightarrow> nat \<Rightarrow> nat \<Rightarrow> bytes option" where
  "block_bytes d s md codec pos clen len =
     (let n = min (min clen (s_len s - pos)) (sat_add64 (sat_add64 len (len div 8)) 1048576) in
      case backing_bytes s md pos n of None \<Rightarrow> None | Some cdata \<Rightarrow> decompress d codec cdata len)"

definition ref_byte :: "decoders \<Rightarrow> source \<Rightarrow> medium \<Rightarrow> byte_ref \<Rightarrow> byte option" where
  "ref_byte d s md r = (case r of
      ZeroByte \<Rightarrow> Some 0
    | BackingByte p \<Rightarrow> if good_byte s md p then Some (md_byte md p) else None
    | BlockByte codec pos clen len k \<Rightarrow>
        (case block_bytes d s md codec pos clen len of None \<Rightarrow> None | Some b \<Rightarrow> get_at b k))"

lemma sat_round_up:
  assumes "0 < ss" "n \<le> len" "len \<le> u64_max"
  shows "n \<le> min (sat_mul64 (div_ceil n ss) ss) len"
  using div_ceil_lower [OF assms(1), of n] assms by (simp add: sat_mul64_def)

text \<open>The sectors a byte range touches, counted from the sector its first byte lies in.\<close>

lemma range_sectors:
  assumes ss: "0 < ss" and n: "0 < n"
  shows "(\<forall>i \<in> set [0..<Suc ((at mod ss + n - 1) div ss)]. P (at div ss + i)) \<longleftrightarrow> (\<forall>k < n. P ((at + k) div (ss::nat)))"
proof -
  have at: "(at + k) div ss = at div ss + (at mod ss + k) div ss" for k
  proof -
    have "at + k = at div ss * ss + (at mod ss + k)" by simp
    then have "(at + k) div ss = (at div ss * ss + (at mod ss + k)) div ss" by (rule arg_cong)
    then show ?thesis using ss div_mult_self3 [of ss "at div ss" "at mod ss + k"] by (simp only: neq0_conv)
  qed
  have r: "at mod ss < ss" using ss by simp
  show ?thesis
  proof (intro iffI ballI allI impI)
    fix k assume all: "\<forall>i \<in> set [0..<Suc ((at mod ss + n - 1) div ss)]. P (at div ss + i)" and k: "k < n"
    have "(at mod ss + k) div ss \<le> (at mod ss + n - 1) div ss" using k by (intro div_le_mono) simp
    then show "P ((at + k) div ss)" using all unfolding at by (simp del: upt_Suc)
  next
    fix i assume all: "\<forall>k < n. P ((at + k) div ss)" and "i \<in> set [0..<Suc ((at mod ss + n - 1) div ss)]"
    then have i: "i * ss \<le> at mod ss + n - 1" using ss by (simp del: upt_Suc add: less_Suc_eq_le less_eq_div_iff_mult_less_eq)
    show "P (at div ss + i)"
    proof (cases i)
      case 0
      then show ?thesis using all n by (metis add_0_right)
    next
      case (Suc i')
      then have "at mod ss \<le> i * ss" using r by simp
      then have k: "at mod ss + (i * ss - at mod ss) = i * ss" "i * ss - at mod ss < n" using i n by auto
      then have "(at + (i * ss - at mod ss)) div ss = at div ss + i" using ss unfolding at by simp
      then show ?thesis using all k(2) by metis
    qed
  qed
qed

lemma read_backing_unaligned_eq:
  assumes p: "presents s md"
  shows "read_backing_unaligned s at n = backing_bytes s md at n"
proof (cases "n = 0")
  case True
  then show ?thesis by (simp add: read_backing_unaligned_def backing_bytes_def medium_bytes_def)
next
  case False
  let ?ss = "s_sector_size s"
  have ss: "0 < ?ss" using p by (rule presents_pos)
  have m: "max ?ss 1 = ?ss" using ss by simp
  have L: "s_len s \<le> u64_max" using p by (simp add: presents_def)
  define start where "start = at - at mod ?ss"
  have start: "start div ?ss = at div ?ss" "start \<le> at" "start mod ?ss = 0" "at - start = at mod ?ss"
    using ss by (simp_all add: start_def minus_mod_eq_div_mult minus_div_mult_eq_mod)
  define end_al where "end_al = min (sat_mul64 (div_ceil (sat_add64 at n) ?ss) ?ss) (s_len s)"
  define r where "r = s_read_at s start (zeros (end_al - start))"
  define sectors where "sectors = [(at - start) div ?ss..<Suc ((sat_add64 at n - 1 - start) div ?ss)]"
  have code: "read_backing_unaligned s at n = (if end_al < sat_add64 at n then None
      else if \<exists>i \<in> set sectors. rr_status (snd r) i \<noteq> Good then None
      else get_slice (fst r) (at - start) (at - start + n))"
    using False unfolding read_backing_unaligned_def Let_def m start_def end_al_def r_def sectors_def
    by (simp only: if_False simp_thms)
  have len: "length (fst r) = end_al - start"
  proof -
    have ssrc: "sector_source (s_read_at s) ?ss (s_len s) (md_byte md) (md_stat md)"
      using p by (simp add: presents_def)
    note bsrc = sector_source.axioms(1) [OF ssrc]
    note fills = block_source.fills [OF bsrc]
    show ?thesis by (simp add: r_def fills)
  qed
  show ?thesis
  proof (cases "at + n \<le> s_len s")
    case False
    have "read_backing_unaligned s at n = None"
    proof (cases "end_al < sat_add64 at n")
      case ge: False
      have "end_al < at + n" using False by (simp add: end_al_def)
      then have "end_al - start < at - start + n" using start(2) \<open>n \<noteq> 0\<close> by linarith
      then show ?thesis using ge by (simp add: code get_slice_None len)
    qed (simp add: code)
    moreover have "\<not> good_byte s md (at + (n - 1))" using False \<open>n \<noteq> 0\<close> by (auto simp: good_byte_def)
    moreover have "n - 1 < n" using \<open>n \<noteq> 0\<close> by simp
    ultimately show ?thesis unfolding backing_bytes_def by (metis (no_types, lifting))
  next
    case True
    then have e: "sat_add64 at n = at + n" using L by (intro sat_add64_exact) simp
    have eal: "at + n \<le> end_al" "end_al \<le> s_len s"
      using sat_round_up [OF ss True L] by (simp_all add: end_al_def e)
    have fit: "start + length (zeros (end_al - start)) \<le> s_len s" using eal start by simp
    have sectors: "sectors = [0..<Suc ((at mod ?ss + n - 1) div ?ss)]"
    proof -
      have "at + n - 1 - start = at mod ?ss + n - 1" using start(2,4) False by simp
      then show ?thesis using ss by (simp add: sectors_def e start(4))
    qed
    have st: "rr_status (snd r) i = md_stat md (at div ?ss + i)" if "i \<in> set sectors" for i
    proof -
      have "i \<le> (at mod ?ss + n - 1) div ?ss" using that by (simp del: upt_Suc add: sectors less_Suc_eq_le)
      then have "i * ?ss \<le> at mod ?ss + n - 1" using ss by (simp add: less_eq_div_iff_mult_less_eq)
      then have "i * ?ss < end_al - start" using eal start(2,4) False by linarith
      then show ?thesis using presents_status [OF p start(3) fit] ss by (simp add: r_def start(1) less_div_ceil)
    qed
    have "(\<forall>i \<in> set sectors. rr_status (snd r) i = Good) \<longleftrightarrow> (\<forall>i \<in> set sectors. md_stat md (at div ?ss + i) = Good)"
      using st by simp
    also have "\<dots> \<longleftrightarrow> (\<forall>k < n. md_stat md ((at + k) div ?ss) = Good)"
      using range_sectors [OF ss, where n = n and P = "\<lambda>l. md_stat md l = Good" and at = at] False by (simp only: sectors)
    also have "\<dots> \<longleftrightarrow> (\<forall>k < n. good_byte s md (at + k))" using True by (auto simp: good_byte_def)
    finally have good: "(\<exists>i \<in> set sectors. rr_status (snd r) i \<noteq> Good) \<longleftrightarrow> \<not> (\<forall>k < n. good_byte s md (at + k))"
      by blast
    have "fst r = medium_bytes md start (end_al - start)"
      using presents_read [OF p start(3) fit] by (simp add: r_def)
    moreover have "start + (at - start) = at" "at - start + n \<le> end_al - start" using start(2) eal by linarith+
    ultimately have "get_slice (fst r) (at - start) (at - start + n) = Some (medium_bytes md at n)"
      by (auto simp: get_slice_Some intro!: nth_equalityI)
    then show ?thesis unfolding code good backing_bytes_def using eal e by simp
  qed
qed

lemma backing_bytes_Some:
  "backing_bytes s md at n = Some b \<longleftrightarrow> (\<forall>k < n. good_byte s md (at + k)) \<and> b = medium_bytes md at n"
  by (auto simp: backing_bytes_def)

section \<open>The decoded-block cache\<close>

definition dc_valid :: "decoders \<Rightarrow> mapped_source \<Rightarrow> medium \<Rightarrow> decode_cache \<Rightarrow> bool" where
  "dc_valid d m md c \<longleftrightarrow> (\<forall>idx v. dc_map c idx = Some v \<longrightarrow>
     (case seg_piece (mp_segs m ! idx) of
        PCompressed codec pos clen \<Rightarrow>
          block_bytes d (mp_backing m) md codec pos clen (seg_out_len (mp_segs m ! idx)) = Some v
      | _ \<Rightarrow> False))"

lemma dc_valid_new [simp]: "dc_valid d m md (dc_new cap)"
  by (simp add: dc_valid_def dc_new_def)

lemma dc_touch_map [simp]: "dc_map (dc_touch c k) = dc_map c"
  by (simp add: dc_touch_def)

lemma dc_shrink_sub: "snd (dc_shrink cap key order mp) k = Some v \<Longrightarrow> mp k = Some v"
proof (induction order arbitrary: mp)
  case (Cons x xs)
  show ?case
  proof (cases "length (x # xs) \<le> cap")
    case False
    define mp' where "mp' = (if x = key then mp else mp(x := None))"
    have "snd (dc_shrink cap key xs mp') k = Some v" using Cons.prems False by (simp add: mp'_def del: fun_upd_apply)
    then have "mp' k = Some v" by (rule Cons.IH)
    then show ?thesis by (cases "x = key"; cases "k = x") (simp_all add: mp'_def)
  qed (use Cons.prems in simp)
qed simp

lemma dc_put_map: "dc_map (dc_put c key v) k = Some w \<Longrightarrow> (if k = key then w = v else dc_map c k = Some w)"
  by (auto simp: dc_put_def Let_def split: if_splits dest!: dc_shrink_sub)

lemma dc_get_map: "dc_get c key = (o', c') \<Longrightarrow> dc_map c' = dc_map c \<and> o' = dc_map c key"
  by (auto simp: dc_get_def split: option.splits)

text \<open>The cache never holds more than its capacity: its order list is the duplicate-free list of
  its keys.\<close>

definition dc_wf :: "decode_cache \<Rightarrow> bool" where
  "dc_wf c \<longleftrightarrow> distinct (dc_order c) \<and> set (dc_order c) = dom (dc_map c) \<and>
     length (dc_order c) \<le> dc_cap c \<and> 0 < dc_cap c"

lemma dc_new_wf [simp]: "dc_wf (dc_new cap)"
  by (simp add: dc_wf_def dc_new_def)

lemma dc_touch_wf: "dc_wf c \<Longrightarrow> dc_map c k \<noteq> None \<Longrightarrow> dc_wf (dc_touch c k)"
proof -
  assume wf: "dc_wf c" and k: "dc_map c k \<noteq> None"
  then have mem: "k \<in> set (dc_order c)" by (auto simp: dc_wf_def)
  then have "0 < length (dc_order c)" by (cases "dc_order c") auto
  then show ?thesis using wf mem by (auto simp: dc_wf_def dc_touch_def length_remove1)
qed

lemma dc_shrink_wf:
  "distinct order \<Longrightarrow> set order = dom mp \<Longrightarrow> key \<notin> set (butlast order) \<Longrightarrow> 0 < cap \<Longrightarrow>
    distinct (fst (dc_shrink cap key order mp)) \<and>
    set (fst (dc_shrink cap key order mp)) = dom (snd (dc_shrink cap key order mp)) \<and>
    length (fst (dc_shrink cap key order mp)) \<le> cap"
proof (induction order arbitrary: mp)
  case (Cons x xs)
  show ?case
  proof (cases "length (x # xs) \<le> cap")
    case True
    then show ?thesis using Cons.prems by simp
  next
    case False
    then have "xs \<noteq> []" using Cons.prems(4) by auto
    then have x: "x \<noteq> key" "key \<notin> set (butlast xs)" using Cons.prems(3) by auto
    have "set xs = dom (mp(x := None))" "distinct xs" using Cons.prems(1,2) by auto
    from Cons.IH [OF this(2,1) x(2) Cons.prems(4)] show ?thesis
      using False x by (simp del: fun_upd_apply dom_fun_upd)
  qed
qed simp

lemma dc_put_wf: "dc_wf c \<Longrightarrow> dc_wf (dc_put c key v)"
proof -
  assume wf: "dc_wf c"
  show ?thesis
  proof (cases "dc_map c key")
    case None
    then have "key \<notin> set (dc_order c)" using wf by (auto simp: dc_wf_def)
    then have "distinct (dc_order c @ [key])" "set (dc_order c @ [key]) = dom ((dc_map c)(key \<mapsto> v))"
      "key \<notin> set (butlast (dc_order c @ [key]))" "0 < dc_cap c"
      using wf by (auto simp: dc_wf_def)
    from dc_shrink_wf [OF this] show ?thesis
      using None wf by (simp add: dc_wf_def dc_put_def Let_def)
  next
    case (Some w)
    have "dc_wf (c\<lparr>dc_map := (dc_map c)(key \<mapsto> v)\<rparr>)" using wf Some by (auto simp: dc_wf_def)
    then show ?thesis using Some dc_touch_wf by (simp add: dc_put_def Let_def)
  qed
qed

section \<open>Filling from one segment\<close>

lemma decoded_block_ok:
  assumes p: "presents (mp_backing m) md" and v: "dc_valid d m md c"
    and idx: "idx < length (mp_segs m)" and seg: "seg = mp_segs m ! idx"
    and pc: "seg_piece seg = PCompressed codec pos clen"
    and res: "decoded_block d m idx seg c = (o', c')"
  shows "o' = block_bytes d (mp_backing m) md codec pos clen (seg_out_len seg)" and "dc_valid d m md c'"
proof -
  let ?spec = "block_bytes d (mp_backing m) md codec pos clen (seg_out_len seg)"
  obtain g c1 where g: "dc_get c idx = (g, c1)" by fastforce
  have c1: "dc_map c1 = dc_map c" "g = dc_map c idx" using dc_get_map [OF g] by simp_all
  have v1: "dc_valid d m md c1" using v c1 by (simp add: dc_valid_def)
  have "o' = ?spec \<and> dc_valid d m md c'"
  proof (cases g)
    case (Some hit)
    then have hit: "dc_map c idx = Some hit" using c1 by simp
    then have "?spec = Some hit" using v pc seg by (fastforce simp: dc_valid_def)
    then show ?thesis using res g Some pc v1 by (simp add: decoded_block_def)
  next
    case None
    have code: "decoded_block d m idx seg c = (case ?spec of None \<Rightarrow> (None, c1) | Some raw \<Rightarrow> (Some raw, dc_put c1 idx raw))"
      using None g pc by (auto simp: decoded_block_def block_bytes_def clamp_clen_def Let_def
          read_backing_unaligned_eq [OF p] split: option.splits)
    have "dc_valid d m md (dc_put c1 idx raw)" if "?spec = Some raw" for raw
      using v1 that pc seg unfolding dc_valid_def
      by (auto dest!: dc_put_map split: if_splits)
    then show ?thesis using res code v1 by (auto split: option.splits)
  qed
  then show "o' = ?spec" and "dc_valid d m md c'" by blast+
qed

text \<open>A fill succeeds exactly when every byte it is asked for is readable, with the described bytes.\<close>

lemma fill_from_segment_ok:
  assumes p: "presents (mp_backing m) md" and v: "dc_valid d m md c"
    and idx: "idx < length (mp_segs m)" and fit: "within + n \<le> seg_out_len (mp_segs m ! idx)" and n: "0 < n"
    and len: "seg_out_len (mp_segs m ! idx) \<le> u64_max"
    and res: "fill_from_segment d m idx within n c = (o', c')"
  defines "spec \<equiv> \<lambda>k. ref_byte d (mp_backing m) md (seg_ref (mp_segs m ! idx) (within + k))"
  shows "dc_valid d m md c'"
    and "o' = Some src \<Longrightarrow> length src = n \<and> (\<forall>k < n. spec k = Some (src ! k))"
    and "o' = None \<Longrightarrow> \<exists>k < n. spec k = None"
proof -
  define seg where "seg = mp_segs m ! idx"
  have L: "s_len (mp_backing m) \<le> u64_max" using p by (simp add: presents_def)
  have get: "get_at (mp_segs m) idx = Some seg" using idx by (simp add: get_at_def seg_def)
  have "dc_valid d m md c' \<and> (\<forall>src. o' = Some src \<longrightarrow> length src = n \<and> (\<forall>k < n. spec k = Some (src ! k))) \<and>
    (o' = None \<longrightarrow> (\<exists>k < n. spec k = None))"
  proof (cases "seg_piece seg")
    case PZero
    then show ?thesis using res get v
      by (auto simp: fill_from_segment_def spec_def seg_def [symmetric] seg_ref_def piece_ref_def ref_byte_def)
  next
    case (PRaw pos)
    have spec: "spec k = (if good_byte (mp_backing m) md (sat_add64 (sat_add64 pos within) k)
        then Some (md_byte md (sat_add64 (sat_add64 pos within) k)) else None)" for k
      using PRaw by (simp add: spec_def seg_def [symmetric] seg_ref_def piece_ref_def ref_byte_def sat_add64_assoc)
    have sat: "good_byte (mp_backing m) md (a + k) \<Longrightarrow> sat_add64 a k = a + k" for a k
      using L by (intro sat_add64_exact) (simp add: good_byte_def)
    have sat': "\<not> good_byte (mp_backing m) md (a + k) \<Longrightarrow> \<not> good_byte (mp_backing m) md (sat_add64 a k)" for a k
      using L by (cases "a + k \<le> u64_max") (auto simp: sat_add64_exact good_byte_def sat_add64_def)
    have "o' = backing_bytes (mp_backing m) md (sat_add64 pos within) n" "c' = c"
      using res get PRaw by (simp_all add: fill_from_segment_def read_backing_unaligned_eq [OF p])
    then show ?thesis using v sat' by (auto simp: backing_bytes_def spec sat)
  next
    case (PCompressed codec pos clen)
    let ?blk = "block_bytes d (mp_backing m) md codec pos clen (seg_out_len seg)"
    obtain b c1 where b: "decoded_block d m idx seg c = (b, c1)" by fastforce
    note ok = decoded_block_ok [OF p v idx seg_def PCompressed b]
    have spec: "spec k = (case b of None \<Rightarrow> None | Some blk \<Rightarrow> get_at blk (within + k))" for k
      using PCompressed ok(1)
      by (simp add: spec_def seg_def [symmetric] seg_ref_def piece_ref_def ref_byte_def)
    have o': "o' = (case b of None \<Rightarrow> None | Some blk \<Rightarrow> get_slice blk within (sat_add64 within n))" "c' = c1"
      using res get PCompressed b by (auto simp: fill_from_segment_def split: option.splits)
    have sat: "sat_add64 within n = within + n" using fit len by (simp add: sat_add64_exact)
    have blen: "length blk = seg_out_len seg" if "b = Some blk" for blk
      using that ok(1) by (auto simp: block_bytes_def Let_def dest!: decompress_length split: option.splits)
    show ?thesis
    proof (cases b)
      case None
      then show ?thesis using ok o' n spec by auto
    next
      case (Some blk)
      have "within + n \<le> length blk" using blen [OF Some] fit by (simp add: seg_def)
      then have "o' = Some (take n (drop within blk))" using o'(1) Some sat by (simp add: get_slice_within)
      moreover have "spec k = Some (blk ! (within + k))" if "k < n" for k
        using that spec [of k] Some \<open>within + n \<le> length blk\<close> by (simp add: get_at_def)
      ultimately show ?thesis using ok(2) o'(2) \<open>within + n \<le> length blk\<close> by simp
    qed
  qed
  then show "dc_valid d m md c'" and "o' = Some src \<Longrightarrow> length src = n \<and> (\<forall>k < n. spec k = Some (src ! k))"
    and "o' = None \<Longrightarrow> \<exists>k < n. spec k = None" by blast+
qed

section \<open>The read loop\<close>

lemma mapped_loop_rule:
  assumes inv: "I done br c"
    and stop: "\<And>done br c. I done br c \<Longrightarrow> tot \<le> done \<Longrightarrow> Q br c"
    and cut: "\<And>done br c. I done br c \<Longrightarrow> done < tot \<Longrightarrow>
      mp_out_len m \<le> sat_add64 offset done \<or> seg_for m (sat_add64 offset done) = None \<Longrightarrow>
      Q (fst br, mark_bad_from (snd br) (mp_sector_size m) tot done) c"
    and step: "\<And>done br c idx within want o' c'. I done br c \<Longrightarrow> done < tot \<Longrightarrow>
      sat_add64 offset done < mp_out_len m \<Longrightarrow> seg_for m (sat_add64 offset done) = Some idx \<Longrightarrow>
      within = sat_add64 offset done - seg_out_start (mp_segs m ! idx) \<Longrightarrow>
      want = min (seg_out_len (mp_segs m ! idx) - within) (tot - done) \<Longrightarrow>
      fill_from_segment d m idx within want c = (o', c') \<Longrightarrow>
      I (done + want) (case o' of None \<Rightarrow> (fst br, mark_bad_range (snd br) (mp_sector_size m) done want)
        | Some src \<Rightarrow> (blit (fst br) done src, snd br)) c'"
  shows "Q (fst (mapped_loop d m offset tot done br c)) (snd (mapped_loop d m offset tot done br c))"
  using inv
proof (induction "tot - done" arbitrary: "done" br c rule: less_induct)
  case less
  define cur where "cur = sat_add64 offset done"
  show ?case
  proof (cases "tot \<le> done")
    case True
    then show ?thesis using stop [OF less.prems] by (simp add: mapped_loop.simps)
  next
    case more: False
    show ?thesis
    proof (cases "mp_out_len m \<le> cur \<or> seg_for m cur = None")
      case True
      then have "mapped_loop d m offset tot done br c = ((fst br, mark_bad_from (snd br) (mp_sector_size m) tot done), c)"
        using more by (subst mapped_loop.simps) (auto simp: Let_def cur_def)
      then show ?thesis using cut [OF less.prems] True more by (simp add: cur_def)
    next
      case False
      then obtain idx where idx: "seg_for m cur = Some idx" "cur < mp_out_len m" by auto
      define within where "within = cur - seg_out_start (mp_segs m ! idx)"
      define want where "want = min (seg_out_len (mp_segs m ! idx) - within) (tot - done)"
      obtain o' c' where f: "fill_from_segment d m idx within want c = (o', c')" by fastforce
      define br' where "br' = (case o' of None \<Rightarrow> (fst br, mark_bad_range (snd br) (mp_sector_size m) done want)
        | Some src \<Rightarrow> (blit (fst br) done src, snd br))"
      have loop: "mapped_loop d m offset tot done br c = mapped_loop d m offset tot (done + want) br' c'"
        using more idx f by (subst mapped_loop.simps, cases o')
          (simp_all add: Let_def cur_def [symmetric] within_def [symmetric] want_def [symmetric] br'_def)
      have "0 < want" using seg_for_remains [OF idx(1)] more by (simp add: want_def within_def)
      then have dec: "tot - (done + want) < tot - done" using more by simp
      have "I (done + want) br' c'" unfolding br'_def
        by (rule step [OF less.prems]) (use more idx f in \<open>simp_all add: cur_def within_def want_def\<close>)
      from less.hyps [OF dec this] show ?thesis by (simp only: loop)
    qed
  qed
qed

text \<open>The geometry \<open>build\<close> establishes over a well-formed builder.\<close>

definition mapped_wf :: "mapped_source \<Rightarrow> bool" where
  "mapped_wf m \<longleftrightarrow> segs_tile 0 (mp_segs m) \<and> segs_total (mp_segs m) = mp_out_len m \<and>
     mp_out_len m \<le> u64_max \<and> 0 < mp_sector_size m"

lemma sm_build_wf: "sm_wf sm \<Longrightarrow> mapped_wf (sm_build sm backing (sm_out_len sm) ss ident)"
  by (simp add: mapped_wf_def sm_build_def sm_wf_def sm_out_len_def)

definition mapped_view :: "decoders \<Rightarrow> mapped_source \<Rightarrow> medium \<Rightarrow> nat \<Rightarrow> byte option" where
  "mapped_view d m md off =
     (if off < mp_out_len m then ref_byte d (mp_backing m) md (segs_view (mp_segs m) ! off) else None)"

text \<open>What holds of the buffer, the statuses and the cache after \<open>done\<close> bytes of a request.\<close>

definition mapped_inv :: "decoders \<Rightarrow> mapped_source \<Rightarrow> medium \<Rightarrow> nat \<Rightarrow> nat \<Rightarrow> nat \<Rightarrow> bytes \<times> read_result \<Rightarrow> decode_cache \<Rightarrow> bool" where
  "mapped_inv d m md offset tot done br c \<longleftrightarrow>
     dc_valid d m md c \<and> length (fst br) = tot \<and> done \<le> tot \<and>
     rr_shape (mp_sector_size m) (div_ceil tot (mp_sector_size m)) (snd br) \<and>
     (\<forall>j < done. rr_status (snd br) (j div mp_sector_size m) = Good \<longrightarrow>
        mapped_view d m md (offset + j) = Some (fst br ! j)) \<and>
     ((\<forall>j < done. mapped_view d m md (offset + j) \<noteq> None) \<longrightarrow> (\<forall>i. rr_status (snd br) i = Good))"

lemma mapped_view_seg:
  assumes wf: "mapped_wf m" and idx: "seg_for m cur = Some idx" and k: "cur - seg_out_start (mp_segs m ! idx) + k < seg_out_len (mp_segs m ! idx)"
  shows "mapped_view d m md (cur + k)
    = ref_byte d (mp_backing m) md (seg_ref (mp_segs m ! idx) (cur - seg_out_start (mp_segs m ! idx) + k))"
proof -
  note s = seg_for_Some [OF idx]
  have tile: "segs_tile 0 (mp_segs m)" "segs_total (mp_segs m) = mp_out_len m" using wf by (simp_all add: mapped_wf_def)
  let ?start = "seg_out_start (mp_segs m ! idx)"
  have nth: "segs_view (mp_segs m) ! (?start + (cur - ?start + k)) = seg_ref (mp_segs m ! idx) (cur - ?start + k)"
    and bound: "?start + seg_out_len (mp_segs m ! idx) \<le> mp_out_len m"
    using segs_tile_nth [OF tile(1) s(1) k] tile(2) by simp_all
  have "?start + (cur - ?start + k) = cur + k" using s(2) by simp
  moreover have "cur + k < mp_out_len m" using bound k s(2) by linarith
  ultimately show ?thesis using nth by (simp only: mapped_view_def if_True)
qed

lemma mapped_inv_step:
  assumes p: "presents (mp_backing m) md" and wf: "mapped_wf m"
    and inv: "mapped_inv d m md offset tot done br c" and lt: "done < tot" and tot: "tot \<le> u64_max"
    and cur: "sat_add64 offset done < mp_out_len m" and idx: "seg_for m (sat_add64 offset done) = Some idx"
    and within: "within = sat_add64 offset done - seg_out_start (mp_segs m ! idx)"
    and want: "want = min (seg_out_len (mp_segs m ! idx) - within) (tot - done)"
    and fill: "fill_from_segment d m idx within want c = (o', c')"
  shows "mapped_inv d m md offset tot (done + want) (case o' of
      None \<Rightarrow> (fst br, mark_bad_range (snd br) (mp_sector_size m) done want)
    | Some src \<Rightarrow> (blit (fst br) done src, snd br)) c'"
proof -
  let ?ss = "mp_sector_size m"
  have ss: "0 < ?ss" and L: "mp_out_len m \<le> u64_max" using wf by (simp_all add: mapped_wf_def)
  have c: "sat_add64 offset done = offset + done" using cur L by (auto simp: sat_add64_def min_def split: if_splits)
  note s = seg_for_Some [OF idx]
  have w: "0 < want" "within + want \<le> seg_out_len (mp_segs m ! idx)" "done + want \<le> tot"
    using seg_for_remains [OF idx] lt by (auto simp: want within)
  have sl: "seg_out_len (mp_segs m ! idx) \<le> u64_max"
  proof -
    have "seg_out_start (mp_segs m ! idx) + seg_out_len (mp_segs m ! idx) \<le> 0 + segs_total (mp_segs m)"
      using wf s segs_tile_nth [of 0 "mp_segs m" idx 0] w by (simp add: mapped_wf_def)
    then show ?thesis using wf by (simp add: mapped_wf_def)
  qed
  have v: "dc_valid d m md c" and blen: "length (fst br) = tot" and sh: "rr_shape ?ss (div_ceil tot ?ss) (snd br)"
    and good: "\<And>j. j < done \<Longrightarrow> rr_status (snd br) (j div ?ss) = Good \<Longrightarrow> mapped_view d m md (offset + j) = Some (fst br ! j)"
    and full: "(\<forall>j < done. mapped_view d m md (offset + j) \<noteq> None) \<Longrightarrow> rr_status (snd br) i = Good" for i
    using inv unfolding mapped_inv_def by blast+
  note ok = fill_from_segment_ok [OF p v s(1) w(2,1) sl fill]
  have view: "mapped_view d m md (offset + (done + k)) = ref_byte d (mp_backing m) md (seg_ref (mp_segs m ! idx) (within + k))"
    if "k < want" for k
    using mapped_view_seg [OF wf idx, of k d md] that w(2) within by (simp add: c add.assoc)
  show ?thesis
  proof (cases o')
    case None
    then obtain k where k: "k < want" "mapped_view d m md (offset + (done + k)) = None" using ok(3) view by auto
    have fit: "done + want \<le> u64_max" using w tot by simp
    have bad: "rr_status (mark_bad_range (snd br) ?ss done want) (j div ?ss) \<noteq> Good" if "done \<le> j" "j < done + want" for j
      using mark_bad_range_covers [OF sh fit ss that] div_less_div_ceil [OF ss] that w by simp
    have "mapped_inv d m md offset tot (done + want) (fst br, mark_bad_range (snd br) ?ss done want) c'"
      unfolding mapped_inv_def
    proof (intro conjI allI impI)
      fix j assume j: "j < done + want" "rr_status (snd (fst br, mark_bad_range (snd br) ?ss done want)) (j div ?ss) = Good"
      then have "j < done" using bad [of j] by (cases "done \<le> j") simp_all
      then show "mapped_view d m md (offset + j) = Some (fst (fst br, mark_bad_range (snd br) ?ss done want) ! j)"
        using good mark_bad_range_mono [OF sh fit ss] j by simp
    next
      fix i assume "\<forall>j < done + want. mapped_view d m md (offset + j) \<noteq> None"
      moreover have "done + k < done + want" using k by simp
      ultimately show "rr_status (snd (fst br, mark_bad_range (snd br) ?ss done want)) i = Good" using k by blast
    qed (use ok(1) blen w sh fit in \<open>simp_all add: shape_mark_bad_range\<close>)
    then show ?thesis using None by simp
  next
    case (Some src)
    then have src: "length src = want" "\<And>k. k < want \<Longrightarrow> mapped_view d m md (offset + (done + k)) = Some (src ! k)"
      using ok(2) view by auto
    have b: "blit (fst br) done src ! j = (if done \<le> j then src ! (j - done) else fst br ! j)" if "j < done + want" for j
      using that src(1) w blen by (simp add: nth_blit)
    have "mapped_inv d m md offset tot (done + want) (blit (fst br) done src, snd br) c'"
      unfolding mapped_inv_def
    proof (intro conjI allI impI)
      fix j assume j: "j < done + want" "rr_status (snd (blit (fst br) done src, snd br)) (j div ?ss) = Good"
      show "mapped_view d m md (offset + j) = Some (fst (blit (fst br) done src, snd br) ! j)"
        using good [of j] src(2) [of "j - done"] b [OF j(1)] j by (cases "done \<le> j") auto
    next
      fix i assume "\<forall>j < done + want. mapped_view d m md (offset + j) \<noteq> None"
      then show "rr_status (snd (blit (fst br) done src, snd br)) i = Good" using full by simp
    qed (use ok(1) blen w sh src in simp_all)
    then show ?thesis using Some by simp
  qed
qed

text \<open>A read at any aligned offset inside the image, running past its end or not.\<close>

definition mapped_result :: "decoders \<Rightarrow> mapped_source \<Rightarrow> medium \<Rightarrow> nat \<Rightarrow> nat \<Rightarrow> bytes \<times> read_result \<Rightarrow> decode_cache \<Rightarrow> bool" where
  "mapped_result d m md offset tot br c \<longleftrightarrow>
     dc_valid d m md c \<and> length (fst br) = tot \<and>
     rr_shape (mp_sector_size m) (div_ceil tot (mp_sector_size m)) (snd br) \<and>
     (\<forall>j < tot. rr_status (snd br) (j div mp_sector_size m) = Good \<longrightarrow>
        mapped_view d m md (offset + j) = Some (fst br ! j)) \<and>
     ((\<forall>j < tot. mapped_view d m md (offset + j) \<noteq> None) \<longrightarrow> (\<forall>i. rr_status (snd br) i = Good))"

lemma mapped_loop_result:
  assumes p: "presents (mp_backing m) md" and wf: "mapped_wf m" and tot: "tot \<le> u64_max"
    and inv: "mapped_inv d m md offset tot done br c"
  shows "mapped_result d m md offset tot (fst (mapped_loop d m offset tot done br c)) (snd (mapped_loop d m offset tot done br c))"
proof (rule mapped_loop_rule [where I = "mapped_inv d m md offset tot" and Q = "mapped_result d m md offset tot"])
  let ?ss = "mp_sector_size m"
  show "mapped_inv d m md offset tot done br c" by (rule inv)
  fix "done" br c
  assume inv: "mapped_inv d m md offset tot done br c"
  have ss: "0 < ?ss" and L: "mp_out_len m \<le> u64_max" using wf by (simp_all add: mapped_wf_def)
  show "mapped_result d m md offset tot br c" if "tot \<le> done"
  proof -
    have "done = tot" using inv that by (simp add: mapped_inv_def)
    then show ?thesis using inv by (simp add: mapped_inv_def mapped_result_def)
  qed
  show "mapped_result d m md offset tot (fst br, mark_bad_from (snd br) ?ss tot done) c"
    if lt: "done < tot" and "mp_out_len m \<le> sat_add64 offset done \<or> seg_for m (sat_add64 offset done) = None"
  proof -
    have out: "mp_out_len m \<le> sat_add64 offset done"
    proof (rule ccontr)
      assume "\<not> mp_out_len m \<le> sat_add64 offset done"
      then show False using that(2) seg_for_total [of m "sat_add64 offset done"] wf by (auto simp: mapped_wf_def)
    qed
    have none: "mapped_view d m md (offset + done) = None"
      using out by (simp add: mapped_view_def sat_add64_def)
    have fit: "done + (tot - done) \<le> u64_max" using lt tot by simp
    have sh: "rr_shape ?ss (div_ceil tot ?ss) (snd br)" using inv by (simp add: mapped_inv_def)
    have bad: "rr_status (mark_bad_range (snd br) ?ss done (tot - done)) (j div ?ss) \<noteq> Good" if "done \<le> j" "j < tot" for j
      using mark_bad_range_covers [OF sh fit ss that(1)] div_less_div_ceil [OF ss] that by simp
    have good: "\<And>j. j < done \<Longrightarrow> rr_status (snd br) (j div ?ss) = Good \<Longrightarrow> mapped_view d m md (offset + j) = Some (fst br ! j)"
      and v: "dc_valid d m md c" "length (fst br) = tot"
      using inv unfolding mapped_inv_def by blast+
    show ?thesis unfolding mapped_result_def mark_bad_from_def
    proof (intro conjI allI impI)
      fix j assume j: "j < tot" "rr_status (snd (fst br, mark_bad_range (snd br) ?ss done (tot - done))) (j div ?ss) = Good"
      then have "j < done" using bad [of j] by (cases "done \<le> j") simp_all
      then show "mapped_view d m md (offset + j) = Some (fst (fst br, mark_bad_range (snd br) ?ss done (tot - done)) ! j)"
        using good mark_bad_range_mono [OF sh fit ss] j by simp
    next
      fix i assume "\<forall>j < tot. mapped_view d m md (offset + j) \<noteq> None"
      then show "rr_status (snd (fst br, mark_bad_range (snd br) ?ss done (tot - done))) i = Good" using none lt by blast
    qed (use v sh fit in \<open>simp_all add: shape_mark_bad_range\<close>)
  qed
next
  fix "done" br c idx within want o' c'
  assume "mapped_inv d m md offset tot done br c" "done < tot" "sat_add64 offset done < mp_out_len m"
    "seg_for m (sat_add64 offset done) = Some idx"
    "within = sat_add64 offset done - seg_out_start (mp_segs m ! idx)"
    "want = min (seg_out_len (mp_segs m ! idx) - within) (tot - done)"
    "fill_from_segment d m idx within want c = (o', c')"
  then show "mapped_inv d m md offset tot (done + want) (case o' of
      None \<Rightarrow> (fst br, mark_bad_range (snd br) (mp_sector_size m) done want)
    | Some src \<Rightarrow> (blit (fst br) done src, snd br)) c'"
    by (intro mapped_inv_step [OF p wf _ _ tot])
qed

lemma mapped_read_result:
  assumes p: "presents (mp_backing m) md" and wf: "mapped_wf m" and v: "dc_valid d m md c"
    and tot: "length buf \<le> u64_max" and al: "offset mod mp_sector_size m = 0"
  shows "mapped_result d m md offset (length buf) (fst (mapped_read d m c offset buf)) (snd (mapped_read d m c offset buf))"
proof -
  let ?ss = "mp_sector_size m"
  have ss: "0 < ?ss" using wf by (simp add: mapped_wf_def)
  have init: "mapped_inv d m md offset (length buf) 0 (zeros (length buf), rr_good ?ss (div_ceil (length buf) ?ss)) c"
    using v by (simp add: mapped_inv_def rr_simps)
  show ?thesis
  proof (cases "buf = [] \<or> offset < mp_out_len m")
    case True
    then show ?thesis using mapped_loop_result [OF p wf tot init] init al
      by (auto simp: mapped_read_def Let_def mapped_inv_def mapped_result_def)
  next
    case False
    then have r: "mapped_read d m c offset buf = ((zeros (length buf), mark_bads [0..<div_ceil (length buf) ?ss] (rr_good ?ss (div_ceil (length buf) ?ss))), c)"
      by (simp add: mapped_read_def Let_def)
    have "0 < length buf" "mapped_view d m md (offset + 0) = None" using False by (simp_all add: mapped_view_def)
    then show ?thesis using v ss div_less_div_ceil [OF ss, of _ "length buf"] unfolding r mapped_result_def
      by (auto simp: rr_simps rr_status_mark_bads [OF rr_shape_good])
  qed
qed

section \<open>The mapped image keeps the source contract\<close>

lemma read_backing_length: "read_backing_unaligned s at n = Some b \<Longrightarrow> length b = n"
  by (auto simp: read_backing_unaligned_def Let_def dest!: length_get_slice split: if_splits)

lemma fill_length:
  assumes "fill_from_segment d m idx within n c = (Some src, c')" "within + n \<le> u64_max"
  shows "length src = n"
  using assms
  by (auto simp: fill_from_segment_def sat_add64_exact read_backing_length split: option.splits piece.splits prod.splits
      dest!: length_get_slice)

lemma block_source_mapped:
  assumes wf: "mapped_wf m"
  shows "block_source (mapped_read_fn d m c) (mp_sector_size m)"
proof
  fix off i :: nat and buf buf' :: bytes
  let ?ss = "mp_sector_size m"
  show ss: "0 < ?ss" using wf by (simp add: mapped_wf_def)
  let ?Q = "\<lambda>tot (br :: bytes \<times> read_result). length (fst br) = tot \<and> rr_shape ?ss (div_ceil tot ?ss) (snd br)"
  have loop: "?Q tot (fst (mapped_loop d m off tot 0 (zeros tot, rr_good ?ss (div_ceil tot ?ss)) c))" for tot
  proof (rule mapped_loop_rule [where I = "\<lambda>a br c. ?Q tot br" and Q = "\<lambda>br c. ?Q tot br"])
    show "?Q tot (zeros tot, rr_good ?ss (div_ceil tot ?ss))" by (simp add: rr_simps)
    fix a br c idx within want o' c'
    assume Q: "?Q tot br" and idx: "seg_for m (sat_add64 off a) = Some idx"
      and within: "within = sat_add64 off a - seg_out_start (mp_segs m ! idx)"
      and want: "want = min (seg_out_len (mp_segs m ! idx) - within) (tot - a)"
      and fill: "fill_from_segment d m idx within want c = (o', c')" and lt: "a < tot"
    have len: "length src = want" if "o' = Some src" for src
    proof -
      note s = seg_for_Some [OF idx]
      have "seg_out_start (mp_segs m ! idx) + seg_out_len (mp_segs m ! idx) \<le> 0 + segs_total (mp_segs m)"
        using wf s segs_tile_nth [of 0 "mp_segs m" idx 0] by (simp add: mapped_wf_def)
      then have "seg_out_len (mp_segs m ! idx) \<le> u64_max" using wf by (simp add: mapped_wf_def)
      moreover have "within \<le> seg_out_len (mp_segs m ! idx)" using s within by simp
      moreover have "want \<le> seg_out_len (mp_segs m ! idx) - within" using want by simp
      ultimately have "within + want \<le> u64_max" by linarith
      then show ?thesis using fill_length fill that by blast
    qed
    show "?Q tot (case o' of None \<Rightarrow> (fst br, mark_bad_range (snd br) ?ss a want) | Some src \<Rightarrow> (blit (fst br) a src, snd br))"
      using Q len lt want by (cases o') (auto simp: shape_mark_bad_range)
  qed (auto simp: mark_bad_from_def shape_mark_bad_range)
  show "length (fst (mapped_read_fn d m c off buf)) = length buf"
    using loop by (simp add: mapped_read_fn_def mapped_read_def Let_def)
  show "rr_shape ?ss (div_ceil (length buf) ?ss) (snd (mapped_read_fn d m c off buf))"
    using loop by (auto simp: mapped_read_fn_def mapped_read_def Let_def rr_simps)
  show "length buf = length buf' \<Longrightarrow> mapped_read_fn d m c off buf = mapped_read_fn d m c off buf'"
    unfolding mapped_read_fn_def mapped_read_def length_0_conv [symmetric] by (simp only:)
  show "rr_status (snd (mapped_read_fn d m c off buf)) i = Bad" if "off mod ?ss \<noteq> 0" "i < div_ceil (length buf) ?ss"
    using that rr_status_mark_bads [OF rr_shape_good]
    by (cases "buf = []") (simp_all add: mapped_read_fn_def mapped_read_def Let_def)
qed

text \<open>A map all of whose bytes are readable reads as a healthy source, at every cache state.\<close>

lemma healthy_source_mapped:
  assumes p: "presents (mp_backing m) md" and wf: "mapped_wf m" and v: "dc_valid d m md c"
    and readable: "\<And>off. off < mp_out_len m \<Longrightarrow> mapped_view d m md off = Some (content off)"
  shows "healthy_source (mapped_read_fn d m c) (mp_sector_size m) (mp_out_len m) content"
proof -
  let ?ss = "mp_sector_size m"
  have bsrc: "block_source (mapped_read_fn d m c) ?ss" by (rule block_source_mapped [OF wf])
  have L: "mp_out_len m \<le> u64_max" using wf by (simp add: mapped_wf_def)
  show ?thesis unfolding healthy_source_def
  proof (rule sector_sourceI [OF bsrc])
    fix off i j :: nat and buf :: bytes
    assume a: "off mod ?ss = 0" "off + length buf \<le> mp_out_len m"
    have "length buf \<le> u64_max" using a(2) L by simp
    note res = mapped_read_result [OF p wf v this a(1)]
    have view: "mapped_view d m md (off + j) = Some (content (off + j))" if "j < length buf" for j
      using that a(2) by (intro readable) simp
    then have good: "rr_status (snd (mapped_read_fn d m c off buf)) i = Good" for i
      using res unfolding mapped_result_def mapped_read_fn_def by blast
    show "rr_status (snd (mapped_read_fn d m c off buf)) i = Good" by (rule good)
    show "fst (mapped_read_fn d m c off buf) ! j = content (off + j)" if "j < length buf"
    proof -
      have "mapped_view d m md (off + j) = Some (fst (mapped_read_fn d m c off buf) ! j)"
        using res good [of "j div ?ss"] that unfolding mapped_result_def mapped_read_fn_def by blast
      then show ?thesis using view [OF that] by simp
    qed
  qed
qed

section \<open>The cache does not show\<close>

lemma fill_cache_irrelevant:
  assumes p: "presents (mp_backing m) md" and v: "dc_valid d m md c" "dc_valid d m md c2"
  shows "fst (fill_from_segment d m idx within n c) = fst (fill_from_segment d m idx within n c2)"
    and "dc_valid d m md (snd (fill_from_segment d m idx within n c))"
proof -
  have "fst (fill_from_segment d m idx within n c) = fst (fill_from_segment d m idx within n c2) \<and>
      dc_valid d m md (snd (fill_from_segment d m idx within n c))"
  proof (cases "idx < length (mp_segs m)")
    case False
    then show ?thesis using v by (simp add: fill_from_segment_def get_at_def)
  next
    case True
    then have get: "get_at (mp_segs m) idx = Some (mp_segs m ! idx)" by (simp add: get_at_def)
    show ?thesis
    proof (cases "seg_piece (mp_segs m ! idx)")
      case (PCompressed codec pos clen)
      obtain b c' where b: "decoded_block d m idx (mp_segs m ! idx) c = (b, c')" by fastforce
      obtain b2 c2' where b2: "decoded_block d m idx (mp_segs m ! idx) c2 = (b2, c2')" by fastforce
      note r = decoded_block_ok [OF p v(1) True refl PCompressed b] decoded_block_ok [OF p v(2) True refl PCompressed b2]
      then show ?thesis using get PCompressed b b2
        by (auto simp: fill_from_segment_def split: option.split)
    qed (use get v in \<open>simp_all add: fill_from_segment_def\<close>)
  qed
  then show "fst (fill_from_segment d m idx within n c) = fst (fill_from_segment d m idx within n c2)"
    and "dc_valid d m md (snd (fill_from_segment d m idx within n c))" by blast+
qed

lemma mapped_loop_cache_irrelevant:
  assumes p: "presents (mp_backing m) md" and v: "dc_valid d m md c" "dc_valid d m md c2"
  shows "fst (mapped_loop d m offset tot a br c) = fst (mapped_loop d m offset tot a br c2)"
  using v
proof (induction "tot - a" arbitrary: a br c c2 rule: less_induct)
  case less
  let ?cur = "sat_add64 offset a"
  show ?case
  proof (cases "tot \<le> a \<or> mp_out_len m \<le> ?cur \<or> seg_for m ?cur = None")
    case True
    then show ?thesis by (subst (1 2) mapped_loop.simps) (auto simp: Let_def)
  next
    case False
    then obtain idx where idx: "seg_for m ?cur = Some idx" by auto
    define within where "within = ?cur - seg_out_start (mp_segs m ! idx)"
    define want where "want = min (seg_out_len (mp_segs m ! idx) - within) (tot - a)"
    let ?f = "\<lambda>c. fill_from_segment d m idx within want c"
    let ?br = "\<lambda>c. case fst (?f c) of None \<Rightarrow> (fst br, mark_bad_range (snd br) (mp_sector_size m) a want)
        | Some src \<Rightarrow> (blit (fst br) a src, snd br)"
    have step: "mapped_loop d m offset tot a br c = mapped_loop d m offset tot (a + want) (?br c) (snd (?f c))" for c
      using False idx unfolding within_def want_def by (subst mapped_loop.simps) (simp only: Let_def if_False option.case de_Morgan_disj)
    have "0 < want" using seg_for_remains [OF idx] False by (simp add: want_def within_def)
    moreover have "a < tot" using False by simp
    ultimately have "tot - (a + want) < tot - a" by linarith
    then have "fst (mapped_loop d m offset tot (a + want) (?br c) (snd (?f c)))
        = fst (mapped_loop d m offset tot (a + want) (?br c) (snd (?f c2)))"
      by (rule less.hyps) (rule fill_cache_irrelevant(2) [OF p]; rule less.prems)+
    moreover have "?br c = ?br c2" using fill_cache_irrelevant(1) [OF p less.prems] by simp
    ultimately show ?thesis by (simp only: step)
  qed
qed

lemma mapped_read_cache_irrelevant:
  assumes "presents (mp_backing m) md" "dc_valid d m md c"
  shows "mapped_read_fn d m c = mapped_read_fn d m (dc_new k)"
  using mapped_loop_cache_irrelevant [OF assms dc_valid_new]
  by (intro ext) (simp add: mapped_read_fn_def mapped_read_def Let_def)

section \<open>Reachable caches\<close>

text \<open>The caches of decoded blocks a sequence of reads can leave.\<close>

inductive mapped_reach :: "decoders \<Rightarrow> mapped_source \<Rightarrow> decode_cache \<Rightarrow> bool" for d m where
  mapped_init: "mapped_reach d m (dc_new decode_cache_blocks)"
| mapped_step: "mapped_reach d m c \<Longrightarrow> mapped_reach d m (snd (mapped_read d m c offset buf))"

lemma decoded_block_wf:
  assumes wf: "dc_wf c"
  shows "dc_wf (snd (decoded_block d m idx seg c))" "dc_cap (snd (decoded_block d m idx seg c)) = dc_cap c"
proof -
  have get: "dc_wf (snd (dc_get c idx))" "dc_cap (snd (dc_get c idx)) = dc_cap c"
    using wf dc_touch_wf [OF wf, of idx] by (auto simp: dc_get_def dc_touch_def split: option.split)
  have put: "dc_wf (dc_put c1 idx v)" "dc_cap (dc_put c1 idx v) = dc_cap c1" if "dc_wf c1" for c1 v
    using dc_put_wf [OF that] by (simp_all add: dc_put_def Let_def dc_touch_def)
  show "dc_wf (snd (decoded_block d m idx seg c))" "dc_cap (snd (decoded_block d m idx seg c)) = dc_cap c"
    using wf get put by (cases "dc_get c idx"; auto simp: decoded_block_def split: piece.split option.split)+
qed

text \<open>Whatever filling from a segment keeps of the cache, a read keeps.\<close>

lemma mapped_read_cache:
  assumes "I c" and fill: "\<And>idx within n c'. I c' \<Longrightarrow> I (snd (fill_from_segment d m idx within n c'))"
  shows "I (snd (mapped_read d m c offset buf))"
proof -
  have "I (snd (mapped_loop d m offset (length buf) 0 br c))" for br
  proof (rule mapped_loop_rule [where I = "\<lambda>_ _. I" and Q = "\<lambda>_. I"])
    fix c1 c2 :: decode_cache and idx within want :: nat and o'
    assume "I c1" "fill_from_segment d m idx within want c1 = (o', c2)"
    then show "I c2" using fill [of c1 idx within want] by simp
  qed (use assms(1) in simp_all)
  then show ?thesis using assms(1) by (simp add: mapped_read_def Let_def)
qed

lemma mapped_read_dc_wf:
  assumes "dc_wf c"
  shows "dc_wf (snd (mapped_read d m c offset buf)) \<and> dc_cap (snd (mapped_read d m c offset buf)) = dc_cap c"
proof -
  let ?I = "\<lambda>c'. dc_wf c' \<and> dc_cap c' = dc_cap c"
  have fill: "?I (snd (fill_from_segment d m idx within n c'))" if "?I c'" for idx within n c'
    using that decoded_block_wf [of c' d m idx "mp_segs m ! idx"]
    by (cases "decoded_block d m idx (mp_segs m ! idx) c'")
      (auto simp: fill_from_segment_def get_at_def split: option.split piece.split)
  show ?thesis by (rule mapped_read_cache [where I = ?I, OF _ fill]) (simp_all add: assms)
qed

lemma mapped_reach_wf: "mapped_reach d m c \<Longrightarrow> dc_wf c \<and> dc_cap c = decode_cache_blocks"
proof (induction rule: mapped_reach.induct)
  case mapped_init
  show ?case using dc_new_wf [of decode_cache_blocks] by (simp add: dc_new_def decode_cache_blocks_def)
next
  case (mapped_step c offset buf)
  then show ?case using mapped_read_dc_wf by simp
qed

lemma mapped_read_valid:
  assumes "presents (mp_backing m) md" "dc_valid d m md c"
  shows "dc_valid d m md (snd (mapped_read d m c offset buf))"
  using assms(2) by (rule mapped_read_cache) (rule fill_cache_irrelevant(2) [OF assms(1)])

lemma mapped_reach_valid: "mapped_reach d m c \<Longrightarrow> presents (mp_backing m) md \<Longrightarrow> dc_valid d m md c"
  by (induction rule: mapped_reach.induct) (simp_all add: mapped_read_valid)

end
