(* ===== verification/ContainerBase.thy ===== *)
theory ContainerBase
  imports MappedRead
begin

text \<open>
  What the container parsers share (\<^verbatim>\<open>container/mod.rs\<close>): reading a metadata block exactly, the
  file system they open images from, loops with \<^verbatim>\<open>break\<close> and \<^verbatim>\<open>?\<close>, and the interface of the
  formats that tile the image with fixed-size clusters. The locale \<open>cluster_format\<close> states what the
  body of such a format's loop promises; what the whole loop then describes is proved once.
\<close>

section \<open>Files\<close>

text \<open>The file system is a parameter: the contents of each regular file.\<close>

type_synonym file_system = "string \<Rightarrow> bytes option"

definition is_file :: "file_system \<Rightarrow> string \<Rightarrow> bool" where
  "is_file fs path \<longleftrightarrow> fs path \<noteq> None"

definition image_open :: "file_system \<Rightarrow> string \<Rightarrow> block_error + source" where
  "image_open fs path = image_file_open path (fs path) 512"

section \<open>Results\<close>

abbreviation container_error :: "string \<Rightarrow> block_error + 'a" where
  "container_error msg \<equiv> Inl (ContainerError msg)"

text \<open>\<^verbatim>\<open>?\<close> on a result, and \<^verbatim>\<open>ok_or_else(..)?\<close> on an option.\<close>

definition bind_res :: "'e + 'a \<Rightarrow> ('a \<Rightarrow> 'e + 'b) \<Rightarrow> 'e + 'b" where
  "bind_res r f = (case r of Inl e \<Rightarrow> Inl e | Inr a \<Rightarrow> f a)"

definition or_container :: "'a option \<Rightarrow> string \<Rightarrow> ('a \<Rightarrow> block_error + 'b) \<Rightarrow> block_error + 'b" where
  "or_container x msg f = (case x of None \<Rightarrow> container_error msg | Some a \<Rightarrow> f a)"

definition guard_container :: "bool \<Rightarrow> string \<Rightarrow> block_error + 'b \<Rightarrow> block_error + 'b" where
  "guard_container bad msg k = (if bad then container_error msg else k)"

lemma bind_res_Inr: "bind_res r f = Inr b \<longleftrightarrow> (\<exists>a. r = Inr a \<and> f a = Inr b)"
  by (auto simp: bind_res_def split: sum.splits)

lemma or_container_Inr: "or_container x msg f = Inr b \<longleftrightarrow> (\<exists>a. x = Some a \<and> f a = Inr b)"
  by (auto simp: or_container_def split: option.splits)

lemma guard_container_Inr: "guard_container bad msg k = Inr b \<longleftrightarrow> \<not> bad \<and> k = Inr b"
  by (simp add: guard_container_def)

lemmas parse_Inr = bind_res_Inr or_container_Inr guard_container_Inr

section \<open>Exact reads\<close>

definition read_exact_vec :: "source \<Rightarrow> nat \<Rightarrow> nat \<Rightarrow> bytes option" where
  "read_exact_vec src off n =
     (if n = 0 then Some []
      else
        let ss = max (s_sector_size src) 1;
            start = off - off mod ss
        in case checked_add64 off n of
             None \<Rightarrow> None
           | Some end \<Rightarrow>
               if s_len src < end then None
               else case checked_mul64 (div_ceil end ss) ss of
                 None \<Rightarrow> None
               | Some up \<Rightarrow>
                   let end_al = min up (s_len src) in
                   if end_al < start then None
                   else
                     let r = s_read_at src start (zeros (end_al - start));
                         first = (off - start) div ss;
                         last = (end - 1 - start) div ss
                     in if \<exists>i \<in> set [first..<Suc last]. rr_status (snd r) i \<noteq> Good then None
                        else get_slice (fst r) (off - start) (off - start + n))"

text \<open>It is \<open>read_backing_unaligned\<close> wherever the rounded-up end fits in 64 bits.\<close>

lemma read_exact_vec_backing:
  assumes ss: "0 < s_sector_size src" and L: "s_len src + s_sector_size src \<le> u64_max"
  shows "read_exact_vec src off n = read_backing_unaligned src off n"
proof (cases "n = 0 \<or> s_len src < off + n")
  case True
  then show ?thesis
  proof
    assume "s_len src < off + n"
    then have "min x (s_len src) < sat_add64 off n" for x
      using L ss by (auto simp: sat_add64_def)
    then show ?thesis using \<open>s_len src < off + n\<close>
      by (simp add: read_exact_vec_def read_backing_unaligned_def Let_def checked_add64_def)
  qed (simp add: read_exact_vec_def read_backing_unaligned_def)
next
  case False
  let ?ss = "s_sector_size src"
  have e: "checked_add64 off n = Some (off + n)" "sat_add64 off n = off + n"
    using False L by (simp_all add: checked_add64_def sat_add64_def)
  have "div_ceil (off + n) ?ss * ?ss < off + n + ?ss"
  proof -
    have "(div_ceil (off + n) ?ss - 1) * ?ss < off + n"
      using less_div_ceil [OF ss, of "div_ceil (off + n) ?ss - 1" "off + n"] False
      by (cases "div_ceil (off + n) ?ss") auto
    then show ?thesis by (cases "div_ceil (off + n) ?ss") auto
  qed
  then have up: "div_ceil (off + n) ?ss * ?ss \<le> u64_max" using False L by simp
  have m: "checked_mul64 (div_ceil (off + n) ?ss) ?ss = Some (div_ceil (off + n) ?ss * ?ss)"
    "sat_mul64 (div_ceil (off + n) ?ss) ?ss = div_ceil (off + n) ?ss * ?ss"
    using up by (simp_all add: checked_mul64_def sat_mul64_exact)
  have ge: "off + n \<le> min (div_ceil (off + n) ?ss * ?ss) (s_len src)"
    using div_ceil_lower [OF ss, of "off + n"] False by simp
  then have "\<not> min (div_ceil (off + n) ?ss * ?ss) (s_len src) < off - off mod ?ss"
    "\<not> min (div_ceil (off + n) ?ss * ?ss) (s_len src) < off + n" by linarith+
  moreover have "max ?ss 1 = ?ss" using ss by simp
  ultimately show ?thesis using False
    unfolding read_exact_vec_def read_backing_unaligned_def Let_def
    by (simp only: e m option.case if_False de_Morgan_disj)
qed

lemma read_exact_vec_eq:
  assumes "presents src md" "s_len src + s_sector_size src \<le> u64_max"
  shows "read_exact_vec src off n = backing_bytes src md off n"
  using read_exact_vec_backing [OF presents_pos [OF assms(1)] assms(2)] read_backing_unaligned_eq [OF assms(1)] by simp

lemma read_exact_vec_length: "read_exact_vec src off n = Some b \<Longrightarrow> length b = n"
  by (auto simp: read_exact_vec_def Let_def dest!: length_get_slice split: if_splits option.splits)

section \<open>Loops with early exits\<close>

datatype 's flow = Continue 's | Break 's | Fail block_error

text \<open>\<open>for_loop body i n s\<close> is \<^verbatim>\<open>for j in i..i + n { body }\<close>.\<close>

fun for_loop :: "(nat \<Rightarrow> 's \<Rightarrow> 's flow) \<Rightarrow> nat \<Rightarrow> nat \<Rightarrow> 's \<Rightarrow> block_error + 's" where
  "for_loop body i 0 s = Inr s"
| "for_loop body i (Suc n) s =
     (case body i s of
        Continue s' \<Rightarrow> for_loop body (Suc i) n s'
      | Break s' \<Rightarrow> Inr s'
      | Fail e \<Rightarrow> Inl e)"

text \<open>What every continuing or breaking pass keeps, the loop keeps.\<close>

lemma for_loop_inv:
  assumes "\<And>i s s'. I s \<Longrightarrow> body i s = Continue s' \<or> body i s = Break s' \<Longrightarrow> I s'"
  shows "for_loop body i n s = Inr s' \<Longrightarrow> I s \<Longrightarrow> I s'"
  by (induction n arbitrary: i s) (auto split: flow.splits dest: assms)

section \<open>Cluster formats\<close>

text \<open>\<open>sm_extends m m' rs\<close>: \<open>m'\<close> describes what \<open>m\<close> does, followed by \<open>rs\<close>.\<close>

definition sm_extends :: "segment_map \<Rightarrow> segment_map \<Rightarrow> byte_ref list \<Rightarrow> bool" where
  "sm_extends m m' rs \<longleftrightarrow> (sm_wf m \<and> sm_next_out m + length rs \<le> u64_max \<longrightarrow>
     sm_wf m' \<and> segs_view (sm_segs m') = segs_view (sm_segs m) @ rs \<and> sm_next_out m' = sm_next_out m + length rs)"

lemma sm_extends_push: "rs = piece_refs p len \<Longrightarrow> sm_extends m (sm_push m len p) rs"
  unfolding sm_extends_def by (simp add: sm_push_ok)

lemma sm_extends_refl: "sm_extends m m []"
  by (simp add: sm_extends_def)

lemma sm_extends_trans: "sm_extends a b rs \<Longrightarrow> sm_extends b c rs' \<Longrightarrow> sm_extends a c (rs @ rs')"
  by (simp add: sm_extends_def)

text \<open>
  The interface: in a loop over clusters of \<open>bs\<close> bytes of an image of \<open>isize\<close> bytes, the body for
  cluster \<open>i\<close> fails, or pushes exactly the cluster's part of the image with the references
  \<open>refs i\<close>, and stops once the image is complete. \<open>ok\<close> is what the body keeps true of its other
  state (a cache of tables).
\<close>

locale cluster_format =
  fixes body :: "nat \<Rightarrow> 's \<Rightarrow> 's flow" and smap :: "'s \<Rightarrow> segment_map" and ok :: "nat \<Rightarrow> 's \<Rightarrow> bool"
    and bs isize :: nat and refs :: "nat \<Rightarrow> nat \<Rightarrow> byte_ref"
  assumes body_stops: "0 < bs \<Longrightarrow> isize < u64_max \<Longrightarrow> isize \<le> i * bs \<Longrightarrow> ok i s \<Longrightarrow>
      (\<exists>e. body i s = Fail e) \<or> (\<exists>s'. body i s = Break s' \<and> smap s' = smap s)"
    and body_pushes: "0 < bs \<Longrightarrow> isize < u64_max \<Longrightarrow> i * bs < isize \<Longrightarrow> ok i s \<Longrightarrow>
      (\<exists>e. body i s = Fail e) \<or>
      (\<exists>s'. body i s = Continue s' \<and> ok (Suc i) s' \<and>
        sm_extends (smap s) (smap s') (map (refs i) [0..<min bs (isize - i * bs)]))"
begin

definition image_refs :: "nat \<Rightarrow> byte_ref list" where
  "image_refs n = map (\<lambda>off. refs (off div bs) (off mod bs)) [0..<min (n * bs) isize]"

lemma length_image_refs [simp]: "length (image_refs n) = min (n * bs) isize"
  by (simp add: image_refs_def)

lemma image_refs_Suc:
  assumes "0 < bs" "n * bs < isize"
  shows "image_refs (Suc n) = image_refs n @ map (refs n) [0..<min bs (isize - n * bs)]"
proof (rule nth_equalityI)
  fix off assume "off < length (image_refs (Suc n))"
  then have off: "off < min (Suc n * bs) isize" by simp
  show "image_refs (Suc n) ! off = (image_refs n @ map (refs n) [0..<min bs (isize - n * bs)]) ! off"
  proof (cases "off < n * bs")
    case True
    then show ?thesis using off assms by (simp add: image_refs_def nth_append)
  next
    case False
    then have d: "off div bs = n" using off assms(1) by (auto intro: div_nat_eqI simp: mult.commute)
    then have "off mod bs = off - n * bs" by (metis minus_div_mult_eq_mod)
    moreover have "off - n * bs < min bs (isize - n * bs)" using off False by auto
    ultimately show ?thesis using d off False assms by (simp add: image_refs_def nth_append)
  qed
qed (use assms in simp)

lemma loop_extends_from:
  assumes geo: "0 < bs" "isize < u64_max"
    and s: "ok i s" "sm_extends m0 (smap s) (image_refs i)" and run: "for_loop body i n s = Inr s'"
  shows "sm_extends m0 (smap s') (image_refs (i + n))"
  using s run
proof (induction n arbitrary: i s)
  case 0
  then show ?case by simp
next
  case (Suc n)
  show ?case
  proof (cases "isize \<le> i * bs")
    case True
    then have "smap s' = smap s" using body_stops [OF geo True Suc.prems(1)] Suc.prems(3) by auto
    moreover have "i * bs \<le> (i + Suc n) * bs" by (intro mult_le_mono1) simp
    then have "image_refs (i + Suc n) = image_refs i" using True by (simp add: image_refs_def)
    ultimately show ?thesis using Suc.prems by simp
  next
    case False
    then obtain t where t: "body i s = Continue t" "ok (Suc i) t"
        "sm_extends (smap s) (smap t) (map (refs i) [0..<min bs (isize - i * bs)])"
      using body_pushes [OF geo, of i s] Suc.prems(1,3) by auto
    have "sm_extends m0 (smap t) (image_refs (Suc i))"
      using sm_extends_trans [OF Suc.prems(2) t(3)] geo(1) False by (simp add: image_refs_Suc)
    then have "sm_extends m0 (smap s') (image_refs (Suc i + n))"
      using Suc.prems(3) t by (intro Suc.IH) simp_all
    then show ?thesis by simp
  qed
qed

lemma loop_extends:
  assumes "0 < bs" "isize < u64_max" "ok 0 s" "for_loop body 0 n s = Inr s'"
  shows "sm_extends (smap s) (smap s') (image_refs n)"
  using loop_extends_from [OF assms(1-3) _ assms(4)] sm_extends_refl by (simp add: image_refs_def)

lemma loop_describes:
  assumes "0 < bs" "isize < u64_max" "ok 0 s" "smap s = sm_new" "for_loop body 0 n s = Inr s'"
  shows "sm_wf (smap s')" "segs_view (sm_segs (smap s')) = image_refs n" "sm_out_len (smap s') = min (n * bs) isize"
proof -
  have "sm_next_out (smap s) + length (image_refs n) \<le> u64_max"
    using assms(2,4) by (simp add: sm_new_def)
  then show "sm_wf (smap s')" "segs_view (sm_segs (smap s')) = image_refs n" "sm_out_len (smap s') = min (n * bs) isize"
    using loop_extends [OF assms(1-3,5)] assms(4) unfolding sm_extends_def
    by (simp_all add: sm_out_len_def) (simp_all add: sm_new_def)
qed

end

text \<open>\<^verbatim>\<open>if isize > smap.out_len() { push zeros }\<close>, and what a map of the whole image then describes.\<close>

definition sm_pad :: "segment_map \<Rightarrow> nat \<Rightarrow> segment_map" where
  "sm_pad m isize = (if sm_out_len m < isize then sm_push m (isize - sm_out_len m) PZero else m)"

lemma sm_pad_ok:
  assumes "sm_wf m" "sm_out_len m \<le> isize" "isize \<le> u64_max"
  shows "sm_wf (sm_pad m isize)" "sm_out_len (sm_pad m isize) = isize"
    "segs_view (sm_segs (sm_pad m isize)) = segs_view (sm_segs m) @ replicate (isize - sm_out_len m) ZeroByte"
proof -
  have "piece_refs PZero k = replicate k ZeroByte" for k
    by (rule nth_equalityI) (simp_all add: piece_refs_def piece_ref_def)
  then show "sm_wf (sm_pad m isize)" "sm_out_len (sm_pad m isize) = isize"
    "segs_view (sm_segs (sm_pad m isize)) = segs_view (sm_segs m) @ replicate (isize - sm_out_len m) ZeroByte"
    using assms sm_push_ok [of m "isize - sm_out_len m" PZero] by (simp_all add: sm_pad_def sm_out_len_def)
qed

text \<open>\<open>describes m isize refs n bs\<close>: the image \<open>m\<close> has \<open>isize\<close> bytes; byte \<open>off\<close> of the first \<open>n\<close>
  clusters is \<open>refs (off div bs) (off mod bs)\<close>, every later byte is zero.\<close>

definition describes :: "mapped_source \<Rightarrow> nat \<Rightarrow> (nat \<Rightarrow> nat \<Rightarrow> byte_ref) \<Rightarrow> nat \<Rightarrow> nat \<Rightarrow> bool" where
  "describes m isize refs n bs \<longleftrightarrow> mapped_wf m \<and> mp_out_len m = isize \<and>
     (\<forall>off < isize. segs_view (mp_segs m) ! off =
        (if off < n * bs then refs (off div bs) (off mod bs) else ZeroByte))"

lemma build_describes:
  assumes "sm_wf m" "segs_view (sm_segs m) = map (\<lambda>off. refs (off div bs) (off mod bs)) [0..<min (n * bs) isize]"
    "sm_out_len m = min (n * bs) isize" "isize \<le> u64_max" "0 < ss"
  shows "describes (sm_build (sm_pad m isize) backing isize ss ident) isize refs n bs"
proof -
  have le: "sm_out_len m \<le> isize" using assms(3) by simp
  note pad = sm_pad_ok [OF assms(1) le assms(4)]
  have wf: "mapped_wf (sm_build (sm_pad m isize) backing isize ss ident)"
    using sm_build_wf [OF pad(1), of backing ss ident] pad(2) by simp
  show ?thesis unfolding describes_def
    using wf assms(2,3) pad(3) by (auto simp: sm_build_def nth_append)
qed

end
