(* ===== verification/VirtualDisks.thy ===== *)
theory VirtualDisks
  imports ContainerBase
begin

text \<open>
  Three of the formats that map fixed-size blocks through one table: VirtualBox images
  (\<^verbatim>\<open>container/vdi.rs\<close>), Apple sparse images (\<^verbatim>\<open>container/sparseimage.rs\<close>) and Hyper-V VHDX images
  (\<^verbatim>\<open>container/vhdx.rs\<close>). Each parser's result is shown to be a well-formed map of exactly the
  declared size whose every byte is the one the table says.
\<close>

section \<open>VDI\<close>

record vdi_header =
  vdi_offset_data :: nat
  vdi_disk_size :: nat
  vdi_block_size :: nat
  vdi_blocks :: nat
  vdi_bat :: bytes

definition vdi_unallocated :: nat where "vdi_unallocated = 0xFFFFFFFF"

definition vdi_zero :: nat where "vdi_zero = 0xFFFFFFFE"

definition vdi_max_blocks :: nat where "vdi_max_blocks = 64 * 1024 * 1024"

definition vdi_read_header :: "source \<Rightarrow> block_error + vdi_header" where
  "vdi_read_header backing =
     or_container (read_exact_vec backing 0 0x200) ''vdi: short header'' (\<lambda>hdr.
     guard_container (le_u32 hdr 0x40 \<noteq> Some 0xBEDA107F) ''vdi: bad signature'' (
     or_container (le_u32 hdr 0x154) ''vdi: no offsetBlocks'' (\<lambda>offset_blocks.
     or_container (le_u32 hdr 0x158) ''vdi: no offsetData'' (\<lambda>offset_data.
     or_container (le_u64 hdr 0x170) ''vdi: no diskSize'' (\<lambda>disk_size.
     or_container (le_u32 hdr 0x178) ''vdi: no blockSize'' (\<lambda>block_size.
     or_container (le_u32 hdr 0x180) ''vdi: no blocksInImage'' (\<lambda>blocks.
     guard_container (block_size = 0 \<or> blocks = 0 \<or> vdi_max_blocks < blocks) ''vdi: implausible geometry'' (
     or_container (read_exact_vec backing offset_blocks (sat_mul64 blocks 4)) ''vdi: cannot read BAT'' (\<lambda>bat.
     Inr \<lparr>vdi_offset_data = offset_data, vdi_disk_size = disk_size, vdi_block_size = block_size,
          vdi_blocks = blocks, vdi_bat = bat\<rparr>)))))))))"

definition vdi_entry :: "vdi_header \<Rightarrow> nat \<Rightarrow> nat" where
  "vdi_entry h i = unwrap_or (le_u32 (vdi_bat h) (sat_mul64 i 4)) vdi_unallocated"

definition vdi_block :: "vdi_header \<Rightarrow> nat \<Rightarrow> segment_map \<Rightarrow> segment_map flow" where
  "vdi_block h i smap =
     (let entry = vdi_entry h i;
          this = (if vdi_disk_size h < sat_mul64 (i + 1) (vdi_block_size h)
                  then vdi_disk_size h - sat_mul64 i (vdi_block_size h)
                  else vdi_block_size h)
      in if this = 0 then Break smap
         else if entry = vdi_unallocated \<or> entry = vdi_zero then Continue (sm_push smap this PZero)
         else Continue (sm_push smap this
                (PRaw (sat_add64 (vdi_offset_data h) (sat_mul64 entry (vdi_block_size h))))))"

definition vdi_parse :: "string \<Rightarrow> source \<Rightarrow> block_error + mapped_source" where
  "vdi_parse path backing =
     bind_res (vdi_read_header backing) (\<lambda>h.
     bind_res (for_loop (vdi_block h) 0 (vdi_blocks h) sm_new) (\<lambda>smap.
     Inr (sm_build (sm_pad smap (vdi_disk_size h)) backing (vdi_disk_size h) 512
       (''vdi:'' @ path @ '':'' @ show_nat (vdi_disk_size h)))))"

definition vdi_open :: "file_system \<Rightarrow> string \<Rightarrow> block_error + mapped_source" where
  "vdi_open fs path = bind_res (image_open fs path) (vdi_parse path)"

text \<open>What the block table says of byte \<open>k\<close> of block \<open>i\<close>.\<close>

definition vdi_ref :: "vdi_header \<Rightarrow> nat \<Rightarrow> nat \<Rightarrow> byte_ref" where
  "vdi_ref h i k =
     (if vdi_entry h i = vdi_unallocated \<or> vdi_entry h i = vdi_zero then ZeroByte
      else BackingByte (sat_add64 (vdi_offset_data h) (sat_add64 (sat_mul64 (vdi_entry h i) (vdi_block_size h)) k)))"

lemma vdi_this:
  assumes "0 < bs" "isize < u64_max"
  shows "(if isize < sat_mul64 (i + 1) bs then isize - sat_mul64 i bs else bs) = min bs (isize - i * bs)"
proof (cases "Suc i * bs \<le> isize")
  case True
  then show ?thesis using assms by (simp add: sat_mul64_def)
next
  case False
  then have "isize < sat_mul64 (i + 1) bs" using assms(2) by (simp add: sat_mul64_def)
  moreover have "isize - sat_mul64 i bs = isize - i * bs" using assms(2) by (simp add: sat_mul64_def)
  ultimately show ?thesis using False by simp
qed

lemma sat_add64_assoc': "sat_add64 a (sat_add64 b c) = sat_add64 (sat_add64 a b) c"
  by (simp add: sat_add64_def min_def)

interpretation vdi: cluster_format
  "vdi_block h" "\<lambda>s. s" "\<lambda>_ _. True" "vdi_block_size h" "vdi_disk_size h" "vdi_ref h"
proof
  fix i :: nat and s :: segment_map
  assume geo: "0 < vdi_block_size h" "vdi_disk_size h < u64_max"
  note part = vdi_this [OF geo, of i]
  show "(\<exists>e. vdi_block h i s = Fail e) \<or> (\<exists>s'. vdi_block h i s = Break s' \<and> s' = s)" if "vdi_disk_size h \<le> i * vdi_block_size h"
    using that unfolding vdi_block_def Let_def part by simp
  show "(\<exists>e. vdi_block h i s = Fail e) \<or> (\<exists>s'. vdi_block h i s = Continue s' \<and> True \<and>
      sm_extends s s' (map (vdi_ref h i) [0..<min (vdi_block_size h) (vdi_disk_size h - i * vdi_block_size h)]))"
    if "i * vdi_block_size h < vdi_disk_size h"
    using that geo unfolding vdi_block_def Let_def part
    by (auto simp: vdi_ref_def piece_refs_def piece_ref_def sat_add64_assoc' intro!: sm_extends_push)
qed

lemma vdi_parse_describes:
  assumes "vdi_parse path backing = Inr m" "vdi_read_header backing = Inr h" "vdi_disk_size h < u64_max"
  shows "describes m (vdi_disk_size h) (vdi_ref h) (vdi_blocks h) (vdi_block_size h)" "mp_backing m = backing"
proof -
  have geo: "0 < vdi_block_size h" using assms(2) by (auto simp: vdi_read_header_def parse_Inr)
  obtain smap where run: "for_loop (vdi_block h) 0 (vdi_blocks h) sm_new = Inr smap"
    and m: "m = sm_build (sm_pad smap (vdi_disk_size h)) backing (vdi_disk_size h) 512
      (''vdi:'' @ path @ '':'' @ show_nat (vdi_disk_size h))"
    using assms(1,2) by (auto simp: vdi_parse_def bind_res_def split: sum.splits)
  note d = vdi.loop_describes [OF geo assms(3) TrueI refl run]
  show "describes m (vdi_disk_size h) (vdi_ref h) (vdi_blocks h) (vdi_block_size h)"
    unfolding m using d assms(3) by (intro build_describes) (simp_all add: vdi.image_refs_def)
  show "mp_backing m = backing" by (simp add: m sm_build_def)
qed

section \<open>Apple sparse images\<close>

record sparse_header =
  sp_band_bytes :: nat
  sp_total_bytes :: nat
  sp_num_bands :: nat
  sp_hdr :: bytes

definition sparse_read_header :: "source \<Rightarrow> block_error + sparse_header" where
  "sparse_read_header backing =
     or_container (read_exact_vec backing 0 0x1000) ''sparseimage: short header'' (\<lambda>hdr.
     guard_container (get_slice hdr 0 4 \<noteq> Some [0x73, 0x70, 0x72, 0x73]) ''sparseimage: bad magic'' (
     or_container (be_u32 hdr 0x08) ''sparseimage: no sectorsPerBand'' (\<lambda>sectors_per_band.
     or_container (be_u32 hdr 0x10) ''sparseimage: no totalSectors'' (\<lambda>total_sectors.
     guard_container (sectors_per_band = 0 \<or> total_sectors = 0) ''sparseimage: zero geometry'' (
     let num_bands = div_ceil total_sectors sectors_per_band in
     guard_container (0x1000 < 0x40 + sat_mul64 num_bands 4) ''sparseimage: multi-node band table unsupported'' (
     Inr \<lparr>sp_band_bytes = sat_mul64 sectors_per_band 512, sp_total_bytes = sat_mul64 total_sectors 512,
          sp_num_bands = num_bands, sp_hdr = hdr\<rparr>))))))"

definition sparse_entry :: "sparse_header \<Rightarrow> nat \<Rightarrow> nat" where
  "sparse_entry h i = unwrap_or (be_u32 (sp_hdr h) (0x40 + i * 4)) 0"

definition sparse_band :: "sparse_header \<Rightarrow> nat \<Rightarrow> segment_map \<Rightarrow> segment_map flow" where
  "sparse_band h i smap =
     (let this = min (sp_band_bytes h) (sp_total_bytes h - i * sp_band_bytes h) in
      if this = 0 then Break smap
      else
        let entry = sparse_entry h i in
        if entry = 0 then Continue (sm_push smap this PZero)
        else Continue (sm_push smap this (PRaw (sat_add64 0x1000 (sat_mul64 (entry - 1) (sp_band_bytes h))))))"

definition sparse_parse :: "string \<Rightarrow> source \<Rightarrow> block_error + mapped_source" where
  "sparse_parse path backing =
     bind_res (sparse_read_header backing) (\<lambda>h.
     bind_res (for_loop (sparse_band h) 0 (sp_num_bands h) sm_new) (\<lambda>smap.
     Inr (sm_build (sm_pad smap (sp_total_bytes h)) backing (sp_total_bytes h) 512
       (''sparseimage:'' @ path @ '':'' @ show_nat (sp_total_bytes h)))))"

definition sparse_open :: "file_system \<Rightarrow> string \<Rightarrow> block_error + mapped_source" where
  "sparse_open fs path = bind_res (image_open fs path) (sparse_parse path)"

definition sparse_ref :: "sparse_header \<Rightarrow> nat \<Rightarrow> nat \<Rightarrow> byte_ref" where
  "sparse_ref h i k =
     (if sparse_entry h i = 0 then ZeroByte
      else BackingByte (sat_add64 0x1000 (sat_add64 (sat_mul64 (sparse_entry h i - 1) (sp_band_bytes h)) k)))"

interpretation sparse: cluster_format
  "sparse_band h" "\<lambda>s. s" "\<lambda>_ _. True" "sp_band_bytes h" "sp_total_bytes h" "sparse_ref h"
proof
  fix i :: nat and s :: segment_map
  show "(\<exists>e. sparse_band h i s = Fail e) \<or> (\<exists>s'. sparse_band h i s = Break s' \<and> s' = s)" if "sp_total_bytes h \<le> i * sp_band_bytes h"
    using that by (simp add: sparse_band_def)
  show "(\<exists>e. sparse_band h i s = Fail e) \<or> (\<exists>s'. sparse_band h i s = Continue s' \<and> True \<and>
      sm_extends s s' (map (sparse_ref h i) [0..<min (sp_band_bytes h) (sp_total_bytes h - i * sp_band_bytes h)]))"
    if "0 < sp_band_bytes h" "i * sp_band_bytes h < sp_total_bytes h"
    using that
    by (auto simp: sparse_band_def Let_def sparse_ref_def piece_refs_def piece_ref_def sat_add64_assoc'
        simp del: min_less_iff_conj intro!: sm_extends_push)
qed

text \<open>The bands cover the whole image, so nothing is left to pad.\<close>

lemma sparse_header_geometry:
  assumes "sparse_read_header backing = Inr h"
  shows "0 < sp_band_bytes h" "sp_total_bytes h < u64_max" "sp_total_bytes h \<le> sp_num_bands h * sp_band_bytes h"
proof -
  obtain hdr spb ts where h: "be_u32 hdr 8 = Some spb" "be_u32 hdr 16 = Some ts" "spb \<noteq> 0" "ts \<noteq> 0"
      "sp_band_bytes h = sat_mul64 spb 512" "sp_total_bytes h = sat_mul64 ts 512" "sp_num_bands h = div_ceil ts spb"
    using assms by (auto simp: sparse_read_header_def parse_Inr Let_def)
  have b: "spb < 4294967296" "ts < 4294967296" using h(1,2) be_u32_bound by blast+
  then have e: "sp_band_bytes h = spb * 512" "sp_total_bytes h = ts * 512" using h(5,6) by (simp_all add: sat_mul64_def)
  show "0 < sp_band_bytes h" "sp_total_bytes h < u64_max" using e h(3) b by simp_all
  show "sp_total_bytes h \<le> sp_num_bands h * sp_band_bytes h"
    using div_ceil_lower [of spb ts] h(3,7) by (simp add: e)
qed

lemma sparse_parse_describes:
  assumes "sparse_parse path backing = Inr m" "sparse_read_header backing = Inr h"
  shows "describes m (sp_total_bytes h) (sparse_ref h) (sp_num_bands h) (sp_band_bytes h)" "mp_backing m = backing"
proof -
  note geo = sparse_header_geometry [OF assms(2)]
  obtain smap where run: "for_loop (sparse_band h) 0 (sp_num_bands h) sm_new = Inr smap"
    and m: "m = sm_build (sm_pad smap (sp_total_bytes h)) backing (sp_total_bytes h) 512
      (''sparseimage:'' @ path @ '':'' @ show_nat (sp_total_bytes h))"
    using assms(1,2) by (auto simp: sparse_parse_def bind_res_def split: sum.splits)
  note d = sparse.loop_describes [OF geo(1,2) TrueI refl run]
  show "describes m (sp_total_bytes h) (sparse_ref h) (sp_num_bands h) (sp_band_bytes h)"
    unfolding m using d geo by (intro build_describes) (simp_all add: sparse.image_refs_def)
  show "mp_backing m = backing" by (simp add: m sm_build_def)
qed

section \<open>VHDX\<close>

definition guid_region_bat :: bytes where
  "guid_region_bat = [0x66, 0x77, 0xC2, 0x2D, 0x23, 0xF6, 0x00, 0x42, 0x9D, 0x64, 0x11, 0x5E, 0x9B, 0xFD, 0x4A, 0x08]"

definition guid_region_meta :: bytes where
  "guid_region_meta = [0x06, 0xA2, 0x7C, 0x8B, 0x90, 0x47, 0x9A, 0x4B, 0xB8, 0xFE, 0x57, 0x5F, 0x05, 0x0F, 0x88, 0x6E]"

definition guid_meta_fileparams :: bytes where
  "guid_meta_fileparams = [0x37, 0x67, 0xA1, 0xCA, 0x36, 0xFA, 0x43, 0x4D, 0xB3, 0xB6, 0x33, 0xF0, 0xAA, 0x44, 0xE7, 0x6B]"

definition guid_meta_vdsize :: bytes where
  "guid_meta_vdsize = [0x24, 0x42, 0xA5, 0x2F, 0x1B, 0xCD, 0x76, 0x48, 0xB2, 0x11, 0x5D, 0xBE, 0xD8, 0x3B, 0xF4, 0xB8]"

definition guid_meta_logsect :: bytes where
  "guid_meta_logsect = [0x1D, 0xBF, 0x41, 0x81, 0x6F, 0xA9, 0x09, 0x47, 0xBA, 0x47, 0xF2, 0x33, 0xA8, 0xFA, 0xAB, 0x5F]"

text \<open>One entry of the region table; a \<^const>\<open>None\<close> accumulator is the early \<^verbatim>\<open>return None\<close>.\<close>

definition region_entry ::
  "bytes \<Rightarrow> nat \<Rightarrow> (nat option \<times> nat option) option \<Rightarrow> (nat option \<times> nat option) option" where
  "region_entry tbl i acc = (case acc of None \<Rightarrow> None | Some (bat, meta) \<Rightarrow>
     (let base = 16 + i * 32 in
      case (get_slice tbl base (base + 16), le_u64 tbl (base + 16)) of
        (Some guid, Some file_offset) \<Rightarrow>
          (if guid = guid_region_bat then Some (Some file_offset, meta)
           else if guid = guid_region_meta then Some (bat, Some file_offset)
           else Some (bat, meta))
      | _ \<Rightarrow> None))"

definition read_region_table :: "source \<Rightarrow> nat \<Rightarrow> (nat \<times> nat) option" where
  "read_region_table backing at =
     (case read_exact_vec backing at (64 * 1024) of None \<Rightarrow> None | Some tbl \<Rightarrow>
        if get_slice tbl 0 4 \<noteq> Some [0x72, 0x65, 0x67, 0x69] then None
        else case le_u32 tbl 8 of None \<Rightarrow> None | Some count \<Rightarrow>
          if 2047 < count then None
          else case fold (region_entry tbl) [0..<count] (Some (None, None)) of
            Some (Some bat, Some meta) \<Rightarrow> Some (bat, meta)
          | _ \<Rightarrow> None)"

record vhdx_meta =
  vx_block_size :: nat
  vx_virtual_size :: nat
  vx_logical_sector :: nat

definition vhdx_meta_item :: "source \<Rightarrow> nat \<Rightarrow> bytes \<Rightarrow> nat \<Rightarrow> vhdx_meta \<Rightarrow> vhdx_meta flow" where
  "vhdx_meta_item backing region_off hdr i m =
     (let base = 32 + i * 32 in
      case get_slice hdr base (base + 16) of
        None \<Rightarrow> Break m
      | Some guid \<Rightarrow>
          let item_off = unwrap_or (le_u32 hdr (base + 16)) 0;
              item_len = unwrap_or (le_u32 hdr (base + 20)) 0;
              item = unwrap_or (read_exact_vec backing (sat_add64 region_off item_off) (min item_len 4096)) []
          in if guid = guid_meta_fileparams then Continue (m\<lparr>vx_block_size := unwrap_or (le_u32 item 0) 0\<rparr>)
             else if guid = guid_meta_vdsize then Continue (m\<lparr>vx_virtual_size := unwrap_or (le_u64 item 0) 0\<rparr>)
             else if guid = guid_meta_logsect then Continue (m\<lparr>vx_logical_sector := unwrap_or (le_u32 item 0) 512\<rparr>)
             else Continue m)"

definition vhdx_read_metadata :: "source \<Rightarrow> nat \<Rightarrow> block_error + vhdx_meta" where
  "vhdx_read_metadata backing region_off =
     or_container (read_exact_vec backing region_off (64 * 1024)) ''vhdx: cannot read metadata region'' (\<lambda>hdr.
     guard_container (get_slice hdr 0 8 \<noteq> Some [0x6D, 0x65, 0x74, 0x61, 0x64, 0x61, 0x74, 0x61])
       ''vhdx: bad metadata signature'' (
     for_loop (vhdx_meta_item backing region_off hdr) 0 (min (unwrap_or (le_u16 hdr 10) 0) 2047)
       \<lparr>vx_block_size = 0, vx_virtual_size = 0, vx_logical_sector = 512\<rparr>))"

record vhdx_header =
  vx_bat_off :: nat
  vx_meta :: vhdx_meta
  vx_total_blocks :: nat
  vx_chunk_ratio :: nat

definition vhdx_read_header :: "source \<Rightarrow> block_error + vhdx_header" where
  "vhdx_read_header backing =
     or_container (read_exact_vec backing 0 8) ''vhdx: short file'' (\<lambda>ident.
     guard_container (get_slice ident 0 8 \<noteq> Some [0x76, 0x68, 0x64, 0x78, 0x66, 0x69, 0x6C, 0x65])
       ''vhdx: bad signature'' (
     or_container (case read_region_table backing 0x30000 of
         Some r \<Rightarrow> Some r | None \<Rightarrow> read_region_table backing 0x40000)
       ''vhdx: no usable region table'' (\<lambda>(bat_off, meta_off).
     bind_res (vhdx_read_metadata backing meta_off) (\<lambda>meta.
     let block_size = vx_block_size meta; virtual_size = vx_virtual_size meta;
         logical_sector = max (vx_logical_sector meta) 512 in
     guard_container (block_size = 0 \<or> virtual_size = 0) ''vhdx: zero geometry'' (
     let total_blocks = div_ceil virtual_size block_size in
     guard_container (16 * 1024 * 1024 < total_blocks) ''vhdx: too many blocks'' (
     Inr \<lparr>vx_bat_off = bat_off, vx_meta = meta\<lparr>vx_logical_sector := logical_sector\<rparr>,
          vx_total_blocks = total_blocks,
          vx_chunk_ratio = max (sat_mul64 8388608 logical_sector div max block_size 1) 1\<rparr>))))))"

definition vhdx_entry :: "source \<Rightarrow> vhdx_header \<Rightarrow> nat \<Rightarrow> nat" where
  "vhdx_entry backing h b =
     (let bat_index = b + b div vx_chunk_ratio h;
          entry_off = sat_add64 (vx_bat_off h) (sat_mul64 bat_index 8)
      in unwrap_or (case read_exact_vec backing entry_off 8 of None \<Rightarrow> None | Some v \<Rightarrow> le_u64 v 0) 0)"

definition vhdx_piece :: "nat \<Rightarrow> piece" where
  "vhdx_piece entry =
     (let state = entry AND 0x7; file_offset_mb = drop_bit 20 entry in
      if state = 6 \<and> file_offset_mb \<noteq> 0 then PRaw (sat_mul64 file_offset_mb 1048576) else PZero)"

definition vhdx_block :: "source \<Rightarrow> vhdx_header \<Rightarrow> nat \<Rightarrow> segment_map \<Rightarrow> segment_map flow" where
  "vhdx_block backing h b smap =
     (let block_size = vx_block_size (vx_meta h);
          this_out = min block_size (vx_virtual_size (vx_meta h) - b * block_size)
      in if this_out = 0 then Break smap
         else Continue (sm_push smap this_out (vhdx_piece (vhdx_entry backing h b))))"

definition vhdx_parse :: "string \<Rightarrow> source \<Rightarrow> block_error + mapped_source" where
  "vhdx_parse path backing =
     bind_res (vhdx_read_header backing) (\<lambda>h.
     let virtual_size = vx_virtual_size (vx_meta h) in
     bind_res (for_loop (vhdx_block backing h) 0 (vx_total_blocks h) sm_new) (\<lambda>smap.
     Inr (sm_build (sm_pad smap virtual_size) backing virtual_size (vx_logical_sector (vx_meta h))
       (''vhdx:'' @ path @ '':'' @ show_nat virtual_size))))"

definition vhdx_open :: "file_system \<Rightarrow> string \<Rightarrow> block_error + mapped_source" where
  "vhdx_open fs path = bind_res (image_open fs path) (vhdx_parse path)"

definition vhdx_ref :: "source \<Rightarrow> vhdx_header \<Rightarrow> nat \<Rightarrow> nat \<Rightarrow> byte_ref" where
  "vhdx_ref backing h b k =
     (let e = vhdx_entry backing h b in
      if e AND 7 = 6 \<and> drop_bit 20 e \<noteq> 0 then BackingByte (sat_add64 (sat_mul64 (drop_bit 20 e) 1048576) k)
      else ZeroByte)"

interpretation vhdx: cluster_format
  "vhdx_block backing h" "\<lambda>s. s" "\<lambda>_ _. True" "vx_block_size (vx_meta h)" "vx_virtual_size (vx_meta h)"
  "vhdx_ref backing h"
proof
  fix i :: nat and s :: segment_map
  let ?bs = "vx_block_size (vx_meta h)" and ?n = "vx_virtual_size (vx_meta h)"
  show "(\<exists>e. vhdx_block backing h i s = Fail e) \<or> (\<exists>s'. vhdx_block backing h i s = Break s' \<and> s' = s)" if "?n \<le> i * ?bs"
    using that by (simp add: vhdx_block_def)
  have refs: "map (vhdx_ref backing h i) [0..<len] = piece_refs (vhdx_piece (vhdx_entry backing h i)) len" for len
    by (simp add: vhdx_ref_def vhdx_piece_def piece_refs_def piece_ref_def Let_def)
  show "(\<exists>e. vhdx_block backing h i s = Fail e) \<or> (\<exists>s'. vhdx_block backing h i s = Continue s' \<and> True \<and>
      sm_extends s s' (map (vhdx_ref backing h i) [0..<min ?bs (?n - i * ?bs)]))"
    if "0 < ?bs" "i * ?bs < ?n"
    using that unfolding refs by (simp add: vhdx_block_def Let_def sm_extends_push)
qed

lemma vhdx_header_geometry:
  assumes "vhdx_read_header backing = Inr h"
  shows "0 < vx_block_size (vx_meta h)"
    "vx_virtual_size (vx_meta h) \<le> vx_total_blocks h * vx_block_size (vx_meta h)"
    "512 \<le> vx_logical_sector (vx_meta h)" "vx_total_blocks h \<le> 16777216"
proof -
  show a: "0 < vx_block_size (vx_meta h)" "512 \<le> vx_logical_sector (vx_meta h)" "vx_total_blocks h \<le> 16777216"
    using assms by (auto simp: vhdx_read_header_def parse_Inr Let_def)
  have "vx_total_blocks h = div_ceil (vx_virtual_size (vx_meta h)) (vx_block_size (vx_meta h))"
    using assms by (auto simp: vhdx_read_header_def parse_Inr Let_def)
  then show "vx_virtual_size (vx_meta h) \<le> vx_total_blocks h * vx_block_size (vx_meta h)"
    using div_ceil_lower [OF a(1)] by simp
qed

lemma vhdx_parse_describes:
  assumes "vhdx_parse path backing = Inr m" "vhdx_read_header backing = Inr h" "vx_virtual_size (vx_meta h) < u64_max"
  shows "describes m (vx_virtual_size (vx_meta h)) (vhdx_ref backing h) (vx_total_blocks h) (vx_block_size (vx_meta h))"
    "mp_backing m = backing"
proof -
  let ?n = "vx_virtual_size (vx_meta h)"
  note geo = vhdx_header_geometry [OF assms(2)]
  obtain smap where run: "for_loop (vhdx_block backing h) 0 (vx_total_blocks h) sm_new = Inr smap"
    and m: "m = sm_build (sm_pad smap ?n) backing ?n (vx_logical_sector (vx_meta h)) (''vhdx:'' @ path @ '':'' @ show_nat ?n)"
    using assms(1,2) by (auto simp: vhdx_parse_def bind_res_def Let_def split: sum.splits)
  note d = vhdx.loop_describes [OF geo(1) assms(3) TrueI refl run]
  show "describes m ?n (vhdx_ref backing h) (vx_total_blocks h) (vx_block_size (vx_meta h))"
    unfolding m using d geo assms(3) by (intro build_describes) (simp_all add: vhdx.image_refs_def)
  show "mp_backing m = backing" by (simp add: m sm_build_def)
qed

end
