(* ===== verification/Qcow2.thy ===== *)
theory Qcow2
  imports ContainerBase
begin

text \<open>
  QEMU copy-on-write images (\<^verbatim>\<open>container/qcow2.rs\<close>): the header, the two-level cluster tables and
  the flattening loop with its cache of the current second-level table. The loop's map is the one
  the tables describe, whatever the cache holds on the way.
\<close>

definition oflag_compressed :: nat where "oflag_compressed = 0x4000000000000000"

definition oflag_zero :: nat where "oflag_zero = 1"

definition l2_offset_mask :: nat where "l2_offset_mask = 0x00FFFFFFFFFFFE00"

definition qcow2_max_clusters :: nat where "qcow2_max_clusters = 64 * 1024 * 1024"

record qcow2_header =
  qc_cluster_bits :: nat
  qc_size :: nat
  qc_l1 :: bytes

definition qc_cluster_size :: "qcow2_header \<Rightarrow> nat" where
  "qc_cluster_size h = push_bit (qc_cluster_bits h) 1"

definition qc_total_clusters :: "qcow2_header \<Rightarrow> nat" where
  "qc_total_clusters h = div_ceil (qc_size h) (qc_cluster_size h)"

definition qcow2_read_header :: "source \<Rightarrow> block_error + qcow2_header" where
  "qcow2_read_header backing =
     or_container (read_exact_vec backing 0 104) ''qcow2: short header'' (\<lambda>hdr.
     guard_container (be_u32 hdr 0 \<noteq> Some 0x514649FB) ''qcow2: bad magic'' (
     guard_container (unwrap_or (be_u32 hdr 4) 0 < 2) ''qcow2: unsupported version'' (
     or_container (be_u32 hdr 20) ''qcow2: no cluster_bits'' (\<lambda>cluster_bits.
     guard_container (\<not> (9 \<le> cluster_bits \<and> cluster_bits \<le> 21)) ''qcow2: implausible cluster_bits'' (
     or_container (be_u64 hdr 24) ''qcow2: no size'' (\<lambda>isize.
     or_container (be_u32 hdr 36) ''qcow2: no l1_size'' (\<lambda>l1_size.
     or_container (be_u64 hdr 40) ''qcow2: no l1_offset'' (\<lambda>l1_offset.
     guard_container (unwrap_or (be_u32 hdr 32) 0 \<noteq> 0) ''qcow2: encrypted (unsupported)'' (
     guard_container (qcow2_max_clusters < div_ceil isize (push_bit cluster_bits 1)) ''qcow2: image too large to map'' (
     or_container (read_exact_vec backing l1_offset (sat_mul64 l1_size 8)) ''qcow2: cannot read L1'' (\<lambda>l1.
     Inr \<lparr>qc_cluster_bits = cluster_bits, qc_size = isize, qc_l1 = l1\<rparr>)))))))))))"

text \<open>The second-level table of cluster \<open>c\<close>, and what its entry says.\<close>

definition qcow2_l2_off :: "qcow2_header \<Rightarrow> nat \<Rightarrow> nat" where
  "qcow2_l2_off h c =
     (let l1_index = c div (qc_cluster_size h div 8) in
      case be_u64 (qc_l1 h) (l1_index * 8) of None \<Rightarrow> 0 | Some v \<Rightarrow> v AND l2_offset_mask)"

definition qcow2_l2_entry :: "qcow2_header \<Rightarrow> nat \<Rightarrow> bytes \<Rightarrow> nat" where
  "qcow2_l2_entry h c l2 = (let l2_index = c mod (qc_cluster_size h div 8) in unwrap_or (be_u64 l2 (l2_index * 8)) 0)"

definition qcow2_piece :: "qcow2_header \<Rightarrow> nat \<Rightarrow> piece" where
  "qcow2_piece h l2e =
     (let csize_shift = 62 - (qc_cluster_bits h - 8);
          csize_mask = push_bit (qc_cluster_bits h - 8) 1 - 1;
          coffset_mask = push_bit csize_shift 1 - 1
      in if l2e = 0 then PZero
         else if l2e AND oflag_compressed \<noteq> 0 then
           (let coffset = l2e AND coffset_mask;
                nb_csectors = (drop_bit csize_shift l2e AND csize_mask) + 1
            in PCompressed CodecDeflate coffset (sat_mul64 nb_csectors 512))
         else
           (let host = l2e AND l2_offset_mask in
            if host = 0 \<or> l2e AND oflag_zero \<noteq> 0 then PZero else PRaw host))"

text \<open>The loop state: the map so far and the current second-level table with its offset.\<close>

type_synonym qcow2_state = "segment_map \<times> (nat \<times> bytes) option"

definition qcow2_load_l2 :: "source \<Rightarrow> nat \<Rightarrow> nat \<Rightarrow> (nat \<times> bytes) option \<Rightarrow> bytes option" where
  "qcow2_load_l2 backing cluster_size l2_off cur =
     (case cur of
        Some (off, t) \<Rightarrow> if off = l2_off then Some t else read_exact_vec backing l2_off cluster_size
      | None \<Rightarrow> read_exact_vec backing l2_off cluster_size)"

definition qcow2_cluster :: "source \<Rightarrow> qcow2_header \<Rightarrow> nat \<Rightarrow> qcow2_state \<Rightarrow> qcow2_state flow" where
  "qcow2_cluster backing h c s =
     (let cluster_size = qc_cluster_size h;
          this_out = min cluster_size (qc_size h - c * cluster_size)
      in if this_out = 0 then Break s
         else let l2_off = qcow2_l2_off h c in
           if l2_off = 0 then Continue (sm_push (fst s) this_out PZero, snd s)
           else case qcow2_load_l2 backing cluster_size l2_off (snd s) of
               None \<Rightarrow> Fail (ContainerError ''qcow2: cannot read L2'')
             | Some l2 \<Rightarrow>
                 Continue (sm_push (fst s) this_out (qcow2_piece h (qcow2_l2_entry h c l2)), Some (l2_off, l2)))"

definition qcow2_parse :: "string \<Rightarrow> source \<Rightarrow> block_error + mapped_source" where
  "qcow2_parse path backing =
     bind_res (qcow2_read_header backing) (\<lambda>h.
     bind_res (for_loop (qcow2_cluster backing h) 0 (qc_total_clusters h) (sm_new, None)) (\<lambda>s.
     Inr (sm_build (sm_pad (fst s) (qc_size h)) backing (qc_size h) 512
       (''qcow2:'' @ path @ '':'' @ show_nat (qc_size h)))))"

definition qcow2_open :: "file_system \<Rightarrow> string \<Rightarrow> block_error + mapped_source" where
  "qcow2_open fs path = bind_res (image_open fs path) (qcow2_parse path)"

section \<open>The map is the tables'\<close>

text \<open>The table walk without the cache: each cluster reads its own second-level table.\<close>

definition qcow2_cluster_piece :: "source \<Rightarrow> qcow2_header \<Rightarrow> nat \<Rightarrow> piece" where
  "qcow2_cluster_piece backing h c =
     (if qcow2_l2_off h c = 0 then PZero
      else case read_exact_vec backing (qcow2_l2_off h c) (qc_cluster_size h) of
          None \<Rightarrow> PZero
        | Some l2 \<Rightarrow> qcow2_piece h (qcow2_l2_entry h c l2))"

definition qcow2_ref :: "source \<Rightarrow> qcow2_header \<Rightarrow> nat \<Rightarrow> nat \<Rightarrow> byte_ref" where
  "qcow2_ref backing h c k =
     piece_ref (qcow2_cluster_piece backing h c) (min (qc_cluster_size h) (qc_size h - c * qc_cluster_size h)) k"

definition l2_cache_ok :: "source \<Rightarrow> qcow2_header \<Rightarrow> qcow2_state \<Rightarrow> bool" where
  "l2_cache_ok backing h s \<longleftrightarrow>
     (\<forall>off t. snd s = Some (off, t) \<longrightarrow> read_exact_vec backing off (qc_cluster_size h) = Some t)"

lemma qcow2_load_l2_eq:
  "l2_cache_ok backing h s \<Longrightarrow>
    qcow2_load_l2 backing (qc_cluster_size h) off (snd s) = read_exact_vec backing off (qc_cluster_size h)"
  by (auto simp: qcow2_load_l2_def l2_cache_ok_def split: option.split)

interpretation qcow2: cluster_format
  "qcow2_cluster backing h" fst "\<lambda>_. l2_cache_ok backing h" "qc_cluster_size h" "qc_size h" "qcow2_ref backing h"
proof
  fix i :: nat and s :: qcow2_state
  let ?bs = "qc_cluster_size h" and ?n = "qc_size h"
  show "(\<exists>e. qcow2_cluster backing h i s = Fail e) \<or> (\<exists>s'. qcow2_cluster backing h i s = Break s' \<and> fst s' = fst s)" if "?n \<le> i * ?bs"
    using that by (simp add: qcow2_cluster_def)
  have refs: "map (qcow2_ref backing h i) [0..<min ?bs (?n - i * ?bs)]
      = piece_refs (qcow2_cluster_piece backing h i) (min ?bs (?n - i * ?bs))"
    by (simp add: qcow2_ref_def piece_refs_def)
  assume "0 < ?bs" "i * ?bs < ?n" and ok: "l2_cache_ok backing h s"
  then have ne: "min ?bs (?n - i * ?bs) \<noteq> 0" by simp
  show "(\<exists>e. qcow2_cluster backing h i s = Fail e) \<or> (\<exists>s'. qcow2_cluster backing h i s = Continue s' \<and>
      l2_cache_ok backing h s' \<and> sm_extends (fst s) (fst s') (map (qcow2_ref backing h i) [0..<min ?bs (?n - i * ?bs)]))"
    unfolding refs using ne ok qcow2_load_l2_eq [OF ok, of "qcow2_l2_off h i"]
    by (cases "qcow2_l2_off h i = 0"; cases "read_exact_vec backing (qcow2_l2_off h i) ?bs")
      (auto simp: qcow2_cluster_def Let_def qcow2_cluster_piece_def l2_cache_ok_def sm_extends_push simp del: min_def)
qed

lemma qcow2_header_geometry:
  assumes "qcow2_read_header backing = Inr h"
  shows "0 < qc_cluster_size h" "qc_size h \<le> qc_total_clusters h * qc_cluster_size h"
    "9 \<le> qc_cluster_bits h" "qc_cluster_bits h \<le> 21" "qc_total_clusters h \<le> qcow2_max_clusters"
proof -
  show a: "0 < qc_cluster_size h" by (simp add: qc_cluster_size_def push_bit_eq_mult)
  show "qc_size h \<le> qc_total_clusters h * qc_cluster_size h"
    using div_ceil_lower [OF a] by (simp add: qc_total_clusters_def)
  show "9 \<le> qc_cluster_bits h" "qc_cluster_bits h \<le> 21" "qc_total_clusters h \<le> qcow2_max_clusters"
    using assms by (auto simp: qcow2_read_header_def parse_Inr qc_total_clusters_def qc_cluster_size_def)
qed

lemma qcow2_size_bound: "qcow2_read_header backing = Inr h \<Longrightarrow> qc_size h < u64_max"
proof -
  assume h: "qcow2_read_header backing = Inr h"
  note g = qcow2_header_geometry [OF h]
  have "(2::nat) ^ qc_cluster_bits h \<le> 2 ^ 21" using g(4) by (rule power_increasing) simp
  then have "qc_cluster_size h \<le> 2097152"
    by (simp add: qc_cluster_size_def push_bit_eq_mult)
  then have "qc_total_clusters h * qc_cluster_size h \<le> 67108864 * 2097152"
    using g(5) by (intro mult_le_mono) (simp_all add: qcow2_max_clusters_def)
  then show ?thesis using g(2) by simp
qed

lemma qcow2_parse_describes:
  assumes "qcow2_parse path backing = Inr m" "qcow2_read_header backing = Inr h"
  shows "describes m (qc_size h) (qcow2_ref backing h) (qc_total_clusters h) (qc_cluster_size h)" "mp_backing m = backing"
proof -
  note geo = qcow2_header_geometry [OF assms(2)] and lt = qcow2_size_bound [OF assms(2)]
  obtain s where run: "for_loop (qcow2_cluster backing h) 0 (qc_total_clusters h) (sm_new, None) = Inr s"
    and m: "m = sm_build (sm_pad (fst s) (qc_size h)) backing (qc_size h) 512 (''qcow2:'' @ path @ '':'' @ show_nat (qc_size h))"
    using assms(1,2) by (auto simp: qcow2_parse_def bind_res_def split: sum.splits)
  have "l2_cache_ok backing h (sm_new, None)" by (simp add: l2_cache_ok_def)
  note d = qcow2.loop_describes [OF geo(1) lt this _ run]
  show "describes m (qc_size h) (qcow2_ref backing h) (qc_total_clusters h) (qc_cluster_size h)"
    unfolding m using d lt by (intro build_describes) (simp_all add: qcow2.image_refs_def)
  show "mp_backing m = backing" by (simp add: m sm_build_def)
qed

end
