(* ===== verification/Vhd.thy ===== *)
theory Vhd
  imports ContainerBase
begin

text \<open>
  Microsoft VHD images (\<^verbatim>\<open>container/vhd.rs\<close>), fixed and dynamic. In a dynamic disk each allocated
  block carries a bitmap of the sectors present; the parser maps a full block as one run and a
  partial one sector by sector. Both branches are shown to describe the same thing: the sectors the
  bitmap has, zeros elsewhere.
\<close>

definition bat_unused :: nat where "bat_unused = 0xFFFFFFFF"

definition vhd_max_current_size :: nat where "vhd_max_current_size = 2040 * 1024 * 1024 * 1024"

text \<open>The block bitmaps are most significant bit first.\<close>

definition vhd_bit_set :: "bytes \<Rightarrow> nat \<Rightarrow> bool" where
  "vhd_bit_set bm sector =
     (case get_at bm (sector div 8) of
        None \<Rightarrow> False
      | Some b \<Rightarrow> drop_bit (7 - sector mod 8) b AND 1 = 1)"

record vhd_footer =
  vf_data_offset :: nat
  vf_current_size :: nat
  vf_disk_type :: nat

definition vhd_read_footer :: "source \<Rightarrow> block_error + vhd_footer" where
  "vhd_read_footer backing =
     guard_container (s_len backing < 512) ''vhd: too small'' (
     or_container (read_exact_vec backing (s_len backing - 512) 512) ''vhd: cannot read footer'' (\<lambda>footer.
     guard_container (get_slice footer 0 8 \<noteq> Some [0x63, 0x6F, 0x6E, 0x65, 0x63, 0x74, 0x69, 0x78])
       ''vhd: bad footer cookie'' (
     or_container (be_u64 footer 48) ''vhd: no currentSize'' (\<lambda>current_size.
     or_container (be_u32 footer 60) ''vhd: no diskType'' (\<lambda>disk_type.
     Inr \<lparr>vf_data_offset = unwrap_or (be_u64 footer 16) u64_max, vf_current_size = current_size,
          vf_disk_type = disk_type\<rparr>)))))"

record vhd_dynamic =
  vd_max_entries :: nat
  vd_block_size :: nat
  vd_bat :: bytes

definition vhd_read_dynamic :: "source \<Rightarrow> nat \<Rightarrow> nat \<Rightarrow> block_error + vhd_dynamic" where
  "vhd_read_dynamic backing data_offset current_size =
     or_container (read_exact_vec backing data_offset 1024) ''vhd: cannot read dynamic header'' (\<lambda>dyn_hdr.
     guard_container (get_slice dyn_hdr 0 8 \<noteq> Some [0x63, 0x78, 0x73, 0x70, 0x61, 0x72, 0x73, 0x65])
       ''vhd: bad dynamic cookie'' (
     or_container (be_u64 dyn_hdr 16) ''vhd: no tableOffset'' (\<lambda>table_offset.
     or_container (be_u32 dyn_hdr 28) ''vhd: no maxTableEntries'' (\<lambda>max_entries.
     or_container (be_u32 dyn_hdr 32) ''vhd: no blockSize'' (\<lambda>block_size.
     guard_container (block_size = 0 \<or> block_size mod 512 \<noteq> 0 \<or> 64 * 1024 * 1024 < block_size \<or>
         vhd_max_current_size < current_size \<or> max_entries = 0 \<or> 16 * 1024 * 1024 < max_entries)
       ''vhd: implausible geometry'' (
     or_container (read_exact_vec backing table_offset (sat_mul64 max_entries 4)) ''vhd: cannot read BAT'' (\<lambda>bat.
     Inr \<lparr>vd_max_entries = max_entries, vd_block_size = block_size, vd_bat = bat\<rparr>)))))))"

definition vhd_bitmap_bytes :: "vhd_dynamic \<Rightarrow> nat" where
  "vhd_bitmap_bytes d = div_ceil (vd_block_size d div 512) 8"

definition vhd_bitmap_span :: "vhd_dynamic \<Rightarrow> nat" where
  "vhd_bitmap_span d = sat_mul64 (max (div_ceil (vhd_bitmap_bytes d) 512) 1) 512"

text \<open>The loop \<^verbatim>\<open>while produced < this_out\<close> over the sectors of a partial block.\<close>

function vhd_sectors :: "bytes \<Rightarrow> nat \<Rightarrow> nat \<Rightarrow> nat \<Rightarrow> nat \<Rightarrow> segment_map \<Rightarrow> segment_map" where
  "vhd_sectors bm data_start this_out sec produced smap =
     (if this_out \<le> produced then smap
      else
        let piece = (if vhd_bit_set bm sec then PRaw (sat_add64 data_start (sat_mul64 sec 512)) else PZero);
            out = min 512 (this_out - produced)
        in vhd_sectors bm data_start this_out (sec + 1) (produced + out) (sm_push smap out piece))"
  by pat_completeness auto
termination
  by (relation "measure (\<lambda>(bm, data_start, this_out, sec, produced, smap). this_out - produced)") auto

declare vhd_sectors.simps [simp del]

definition vhd_block :: "source \<Rightarrow> vhd_dynamic \<Rightarrow> nat \<Rightarrow> nat \<Rightarrow> segment_map \<Rightarrow> segment_map flow" where
  "vhd_block backing d current_size i smap =
     (let this_out = min (vd_block_size d) (current_size - i * vd_block_size d) in
      if this_out = 0 then Break smap
      else
        let ent = unwrap_or (be_u32 (vd_bat d) (i * 4)) bat_unused in
        if ent = bat_unused then Continue (sm_push smap this_out PZero)
        else
          let block_start = sat_mul64 ent 512;
              data_start = sat_add64 block_start (vhd_bitmap_span d);
              bm = unwrap_or (read_exact_vec backing block_start (vhd_bitmap_bytes d)) [];
              needed = div_ceil this_out 512
          in if list_all (vhd_bit_set bm) [0..<needed] then Continue (sm_push smap this_out (PRaw data_start))
             else Continue (vhd_sectors bm data_start this_out 0 0 smap))"

definition vhd_open_dynamic :: "string \<Rightarrow> source \<Rightarrow> nat \<Rightarrow> nat \<Rightarrow> block_error + mapped_source" where
  "vhd_open_dynamic path backing data_offset current_size =
     bind_res (vhd_read_dynamic backing data_offset current_size) (\<lambda>d.
     bind_res (for_loop (vhd_block backing d current_size) 0 (vd_max_entries d) sm_new) (\<lambda>smap.
     Inr (sm_build (sm_pad smap current_size) backing current_size 512
       (''vhd-dyn:'' @ path @ '':'' @ show_nat current_size))))"

definition vhd_parse :: "string \<Rightarrow> source \<Rightarrow> block_error + mapped_source" where
  "vhd_parse path backing =
     bind_res (vhd_read_footer backing) (\<lambda>f.
     if vf_disk_type f = 2 then
       Inr (sm_build (sm_push sm_new (vf_current_size f) (PRaw 0)) backing (vf_current_size f) 512
         (''vhd-fixed:'' @ path @ '':'' @ show_nat (vf_current_size f)))
     else if vf_disk_type f = 3 \<or> vf_disk_type f = 4 then
       vhd_open_dynamic path backing (vf_data_offset f) (vf_current_size f)
     else container_error ''vhd: unknown disk type'')"

definition vhd_open :: "file_system \<Rightarrow> string \<Rightarrow> block_error + mapped_source" where
  "vhd_open fs path = bind_res (image_open fs path) (vhd_parse path)"

section \<open>The map is the bitmap's\<close>

definition vhd_ref :: "source \<Rightarrow> vhd_dynamic \<Rightarrow> nat \<Rightarrow> nat \<Rightarrow> byte_ref" where
  "vhd_ref backing d i k =
     (let ent = unwrap_or (be_u32 (vd_bat d) (i * 4)) bat_unused;
          block_start = ent * 512;
          bm = unwrap_or (read_exact_vec backing block_start (vhd_bitmap_bytes d)) []
      in if ent \<noteq> bat_unused \<and> vhd_bit_set bm (k div 512)
         then BackingByte (sat_add64 (sat_add64 block_start (vhd_bitmap_span d)) k)
         else ZeroByte)"

lemma vhd_sectors_extends:
  assumes "produced = sec * 512" "this_out \<le> 4294967296"
  shows "sm_extends smap (vhd_sectors bm data_start this_out sec produced smap)
    (map (\<lambda>k. if vhd_bit_set bm (k div 512) then BackingByte (sat_add64 data_start k) else ZeroByte) [produced..<this_out])"
  using assms(1)
proof (induction "this_out - produced" arbitrary: sec produced smap rule: less_induct)
  case less
  let ?f = "\<lambda>k. if vhd_bit_set bm (k div 512) then BackingByte (sat_add64 data_start k) else ZeroByte"
  show ?case
  proof (cases "this_out \<le> produced")
    case True
    then show ?thesis by (simp add: vhd_sectors.simps sm_extends_refl)
  next
    case False
    define out where "out = min 512 (this_out - produced)"
    define piece where "piece = (if vhd_bit_set bm sec then PRaw (sat_add64 data_start (sat_mul64 sec 512)) else PZero)"
    have out: "0 < out" "out \<le> 512" "produced + out \<le> this_out" using False by (auto simp: out_def)
    have step: "vhd_sectors bm data_start this_out sec produced smap
        = vhd_sectors bm data_start this_out (sec + 1) (produced + out) (sm_push smap out piece)"
      using False by (subst vhd_sectors.simps) (simp add: Let_def out_def piece_def)
    have "sat_mul64 sec 512 = produced" using less.prems assms(2) False by (simp add: sat_mul64_def)
    moreover have "(produced + k) div 512 = sec" if "k < out" for k
      using that out(2) less.prems by simp
    ultimately have refs: "piece_refs piece out = map ?f [produced..<produced + out]"
      by (intro nth_equalityI) (auto simp: piece_def piece_refs_def piece_ref_def sat_add64_assoc)
    have tail: "sm_extends (sm_push smap out piece)
        (vhd_sectors bm data_start this_out (sec + 1) (produced + out) (sm_push smap out piece)) (map ?f [produced + out..<this_out])"
    proof (cases "out = 512")
      case True
      then show ?thesis using less.prems False out by (intro less.hyps) simp_all
    next
      case ne: False
      then have "this_out \<le> produced + out" by (auto simp: out_def)
      then show ?thesis by (simp add: vhd_sectors.simps sm_extends_refl)
    qed
    have "[produced..<this_out] = [produced..<produced + out] @ [produced + out..<this_out]"
      using out(3) upt_add_eq_append [of produced "produced + out" "this_out - (produced + out)"] by simp
    then show ?thesis
      using sm_extends_trans [OF sm_extends_push tail, of "piece_refs piece out"] refs by (simp add: step)
  qed
qed

lemma div_less_needed: "k < n \<Longrightarrow> k div 512 < div_ceil n 512"
  by (rule div_less_div_ceil) simp_all

interpretation vhd: cluster_format
  "vhd_block backing d n" "\<lambda>s. s" "\<lambda>_ _. vd_block_size d \<le> 64 * 1024 * 1024" "vd_block_size d" n "vhd_ref backing d"
proof
  fix i :: nat and s :: segment_map
  let ?bs = "vd_block_size d"
  show "(\<exists>e. vhd_block backing d n i s = Fail e) \<or> (\<exists>s'. vhd_block backing d n i s = Break s' \<and> s' = s)" if "n \<le> i * ?bs"
    using that by (simp add: vhd_block_def)
  assume "0 < ?bs" "i * ?bs < n" and small: "?bs \<le> 64 * 1024 * 1024"
  then have ne: "min ?bs (n - i * ?bs) \<noteq> 0" by simp
  let ?part = "min ?bs (n - i * ?bs)"
  define ent where "ent = unwrap_or (be_u32 (vd_bat d) (i * 4)) bat_unused"
  have "ent < 4294967296"
    by (cases "be_u32 (vd_bat d) (i * 4)") (auto simp: ent_def bat_unused_def dest: be_u32_bound)
  then have bst: "sat_mul64 ent 512 = ent * 512" by (simp add: sat_mul64_def)
  define bm where "bm = unwrap_or (read_exact_vec backing (ent * 512) (vhd_bitmap_bytes d)) []"
  define ds where "ds = sat_add64 (ent * 512) (vhd_bitmap_span d)"
  have ref: "vhd_ref backing d i k = (if ent \<noteq> bat_unused \<and> vhd_bit_set bm (k div 512)
      then BackingByte (sat_add64 ds k) else ZeroByte)" for k
    by (simp add: vhd_ref_def Let_def ent_def [symmetric] bm_def [symmetric] ds_def [symmetric])
  have code: "vhd_block backing d n i s = Continue (if ent = bat_unused then sm_push s ?part PZero
      else if list_all (vhd_bit_set bm) [0..<div_ceil ?part 512] then sm_push s ?part (PRaw ds)
      else vhd_sectors bm ds ?part 0 0 s)"
    using ne unfolding vhd_block_def Let_def ent_def [symmetric] bst bm_def [symmetric] ds_def [symmetric] by simp
  have "sm_extends s (if ent = bat_unused then sm_push s ?part PZero
      else if list_all (vhd_bit_set bm) [0..<div_ceil ?part 512] then sm_push s ?part (PRaw ds)
      else vhd_sectors bm ds ?part 0 0 s) (map (vhd_ref backing d i) [0..<?part])"
  proof (cases "ent = bat_unused \<or> list_all (vhd_bit_set bm) [0..<div_ceil ?part 512]")
    case True
    then show ?thesis
      by (auto simp: ref piece_refs_def piece_ref_def list_all_iff div_less_needed intro!: sm_extends_push)
  next
    case False
    have "?part \<le> 4294967296" using small by simp
    then show ?thesis using False vhd_sectors_extends [of 0 0 ?part s bm ds] by (simp add: ref [abs_def])
  qed
  then show "(\<exists>e. vhd_block backing d n i s = Fail e) \<or> (\<exists>s'. vhd_block backing d n i s = Continue s' \<and>
      ?bs \<le> 64 * 1024 * 1024 \<and> sm_extends s s' (map (vhd_ref backing d i) [0..<?part]))"
    using small by (simp only: code) blast
qed

lemma vhd_dynamic_describes:
  assumes "vhd_open_dynamic path backing data_offset n = Inr m" "vhd_read_dynamic backing data_offset n = Inr d"
  shows "describes m n (vhd_ref backing d) (vd_max_entries d) (vd_block_size d)" "mp_backing m = backing"
proof -
  have geo: "0 < vd_block_size d" "vd_block_size d \<le> 64 * 1024 * 1024" "n < u64_max"
    using assms(2) by (auto simp: vhd_read_dynamic_def parse_Inr vhd_max_current_size_def)
  obtain smap where run: "for_loop (vhd_block backing d n) 0 (vd_max_entries d) sm_new = Inr smap"
    and m: "m = sm_build (sm_pad smap n) backing n 512 (''vhd-dyn:'' @ path @ '':'' @ show_nat n)"
    using assms by (auto simp: vhd_open_dynamic_def bind_res_def split: sum.splits)
  note r = vhd.loop_describes [OF geo(1,3,2) refl run]
  show "describes m n (vhd_ref backing d) (vd_max_entries d) (vd_block_size d)"
    unfolding m using r geo(3) by (intro build_describes) (simp_all add: vhd.image_refs_def)
  show "mp_backing m = backing" by (simp add: m sm_build_def)
qed

text \<open>A fixed disk is the file's prefix.\<close>

lemma vhd_fixed_view:
  assumes "vhd_read_footer backing = Inr f" "vf_disk_type f = 2"
  shows "\<exists>m. vhd_parse path backing = Inr m \<and> mapped_wf m \<and> mp_backing m = backing \<and> mp_out_len m = vf_current_size f \<and>
    segs_view (mp_segs m) = map BackingByte [0..<vf_current_size f]"
proof -
  have n: "vf_current_size f \<le> u64_max"
    using assms(1) by (auto simp: vhd_read_footer_def parse_Inr dest: be_u64_bound)
  have "sm_next_out sm_new + vf_current_size f \<le> u64_max" using n by (simp add: sm_new_def)
  note push = sm_push_ok [OF sm_new_wf(1) this, of "PRaw 0"]
  have "piece_refs (PRaw 0) (vf_current_size f) = map BackingByte [0..<vf_current_size f]"
    using n by (intro nth_equalityI) (simp_all add: piece_refs_def piece_ref_def sat_add64_def)
  moreover have "sm_next_out sm_new = 0" by (simp add: sm_new_def)
  moreover have "vhd_parse path backing = Inr (sm_build (sm_push sm_new (vf_current_size f) (PRaw 0)) backing (vf_current_size f) 512
      (''vhd-fixed:'' @ path @ '':'' @ show_nat (vf_current_size f)))"
    using assms by (simp add: vhd_parse_def bind_res_def)
  moreover have "mapped_wf (sm_build (sm_push sm_new (vf_current_size f) (PRaw 0)) backing (vf_current_size f) 512
      (''vhd-fixed:'' @ path @ '':'' @ show_nat (vf_current_size f)))"
    using sm_build_wf [OF push(1), of backing 512] push(3) calculation(2) by (simp add: sm_out_len_def)
  moreover have "mp_out_len (sm_build mm b k ss id') = k" "mp_segs (sm_build mm b k ss id') = sm_segs mm"
    "mp_backing (sm_build mm b k ss id') = b" for mm b k ss id'
    by (simp_all add: sm_build_def)
  ultimately show ?thesis using push by auto
qed

end
