(* ===== verification/Concat.thy ===== *)
theory Concat
  imports SegMap
begin

text \<open>
  \<^verbatim>\<open>crates/reclaim-block/src/container/concat.rs\<close>: several sources end to end as one image. The
  main result is that the concatenation reads as the sources' contents one after the other, with
  every sector a part does not report good reported bad.
\<close>

section \<open>Model\<close>

record part =
  pt_src :: source
  pt_start :: nat
  pt_len :: nat

record concat_source =
  cc_parts :: "part list"
  cc_total :: nat
  cc_sector_size :: nat
  cc_id :: string

fun concat_parts :: "nat \<Rightarrow> nat \<Rightarrow> source list \<Rightarrow> part list \<times> nat" where
  "concat_parts ss cursor [] = ([], cursor)"
| "concat_parts ss cursor (p # ps) =
     (let plen = s_len p - s_len p mod ss in
      if plen = 0 then concat_parts ss cursor ps
      else let rest = concat_parts ss (sat_add64 cursor plen) ps
           in (\<lparr>pt_src = p, pt_start = cursor, pt_len = plen\<rparr> # fst rest, snd rest))"

definition concat_new :: "source list \<Rightarrow> string \<Rightarrow> concat_source" where
  "concat_new parts ident =
     (let ss = (case parts of [] \<Rightarrow> 512 | p # _ \<Rightarrow> max (s_sector_size p) 1);
          r = concat_parts ss 0 parts
      in \<lparr>cc_parts = fst r, cc_total = snd r, cc_sector_size = ss, cc_id = ident\<rparr>)"

definition part_covers :: "nat \<Rightarrow> part \<Rightarrow> bool" where
  "part_covers cur p \<longleftrightarrow> pt_start p \<le> cur \<and> cur < wadd64 (pt_start p) (pt_len p)"

text \<open>Propagating a part's statuses into the result at byte \<open>done\<close>.\<close>

definition concat_propagate :: "nat \<Rightarrow> nat \<Rightarrow> read_result \<Rightarrow> read_result \<Rightarrow> read_result" where
  "concat_propagate ss done r res =
     (if rr_all_good r then res
      else fold (\<lambda>i res. if rr_status r i \<noteq> Good then mark_bad_range res ss (done + i * ss) ss else res)
        [0..<rr_sector_count r] res)"

lemma part_covers_bounds: "part_covers cur p \<Longrightarrow> pt_start p \<le> cur \<and> 0 < pt_len p - (cur - pt_start p)"
proof -
  assume "part_covers cur p"
  moreover have "wadd64 (pt_start p) (pt_len p) \<le> pt_start p + pt_len p" by (simp add: wadd64_def)
  ultimately show ?thesis by (auto simp: part_covers_def)
qed

lemma find_part: "find (part_covers cur) ps = Some p \<Longrightarrow> part_covers cur p \<and> p \<in> set ps"
  by (auto simp: find_Some_iff)

function concat_loop :: "concat_source \<Rightarrow> nat \<Rightarrow> nat \<Rightarrow> nat \<Rightarrow> bytes \<times> read_result \<Rightarrow> bytes \<times> read_result" where
  "concat_loop c offset tot done br =
     (if tot \<le> done then br
      else
        let cur = sat_add64 offset done in
        if cc_total c \<le> cur then (fst br, mark_bad_range (snd br) (cc_sector_size c) done (tot - done))
        else case find (part_covers cur) (cc_parts c) of
            None \<Rightarrow> (fst br, mark_bad_range (snd br) (cc_sector_size c) done (tot - done))
          | Some p \<Rightarrow>
              let within = cur - pt_start p;
                  want = min (pt_len p - within) (tot - done);
                  r = s_read_at (pt_src p) within (take want (drop done (fst br)))
              in concat_loop c offset tot (done + want)
                   (blit (fst br) done (fst r), concat_propagate (cc_sector_size c) done (snd r) (snd br)))"
  by pat_completeness auto
termination
  by (relation "measure (\<lambda>(c, offset, tot, done, br). tot - done)")
    (auto dest!: find_part dest: part_covers_bounds)

declare concat_loop.simps [simp del]

definition concat_read :: "concat_source \<Rightarrow> read_fn" where
  "concat_read c offset buf =
     (let ss = cc_sector_size c;
          sector_count = div_ceil (length buf) ss;
          res = rr_good ss sector_count;
          buf0 = zeros (length buf)
      in if buf = [] then (buf0, res)
         else if offset mod ss \<noteq> 0 \<or> cc_total c \<le> offset then (buf0, mark_bads [0..<sector_count] res)
         else concat_loop c offset (length buf) 0 (buf0, res))"

definition concat_as_source :: "concat_source \<Rightarrow> source" where
  "concat_as_source c = \<lparr>s_len = cc_total c, s_sector_size = cc_sector_size c,
     s_physical_sector_size = cc_sector_size c, s_read_at = concat_read c, s_id = cc_id c\<rparr>"

section \<open>The constructor lays the parts end to end\<close>

definition usable_len :: "nat \<Rightarrow> source \<Rightarrow> nat" where
  "usable_len ss s = s_len s - s_len s mod ss"

fun concat_byte :: "nat \<Rightarrow> (source \<Rightarrow> medium) \<Rightarrow> source list \<Rightarrow> nat \<Rightarrow> byte" where
  "concat_byte ss M [] off = 0"
| "concat_byte ss M (s # r) off =
     (if off < usable_len ss s then md_byte (M s) off else concat_byte ss M r (off - usable_len ss s))"

fun concat_stat :: "nat \<Rightarrow> (source \<Rightarrow> medium) \<Rightarrow> source list \<Rightarrow> nat \<Rightarrow> sector_status" where
  "concat_stat ss M [] l = Bad"
| "concat_stat ss M (s # r) l =
     (if l * ss < usable_len ss s then (if md_stat (M s) l = Good then Good else Bad)
      else concat_stat ss M r (l - usable_len ss s div ss))"

lemma usable_len_mult: "usable_len ss s = s_len s div ss * ss"
  by (simp add: usable_len_def minus_mod_eq_div_mult)

lemma concat_parts_total:
  "cursor + (\<Sum>s\<leftarrow>ps. usable_len ss s) \<le> u64_max \<Longrightarrow>
    snd (concat_parts ss cursor ps) = cursor + (\<Sum>s\<leftarrow>ps. usable_len ss s)"
proof (induction ps arbitrary: cursor)
  case (Cons p ps)
  then show ?case by (simp add: Let_def usable_len_def [symmetric] sat_add64_exact)
qed simp

text \<open>The part the code finds for an offset is the one the specification reads.\<close>

lemma concat_parts_find:
  assumes "0 < ss" "cursor + (\<Sum>s\<leftarrow>ps. usable_len ss s) \<le> u64_max"
    and "off < (\<Sum>s\<leftarrow>ps. usable_len ss s)" "cursor mod ss = 0"
  shows "\<exists>p. find (part_covers (cursor + off)) (fst (concat_parts ss cursor ps)) = Some p \<and>
    pt_src p \<in> set ps \<and> pt_len p = usable_len ss (pt_src p) \<and> pt_start p mod ss = 0 \<and>
    (\<forall>k. cursor + off - pt_start p + k < pt_len p \<longrightarrow>
      concat_byte ss M ps (off + k) = md_byte (M (pt_src p)) (cursor + off - pt_start p + k)) \<and>
    (\<forall>k. (cursor + off) mod ss = 0 \<longrightarrow> cursor + off - pt_start p + k * ss < pt_len p \<longrightarrow>
      concat_stat ss M ps (off div ss + k) =
        (if md_stat (M (pt_src p)) ((cursor + off - pt_start p) div ss + k) = Good then Good else Bad))"
  using assms
proof (induction ps arbitrary: cursor off)
  case (Cons s ps)
  let ?u = "usable_len ss s"
  have um: "?u mod ss = 0" "?u div ss * ss = ?u" by (simp_all add: usable_len_mult)
  show ?case
  proof (cases "off < ?u")
    case True
    have cov: "part_covers (cursor + off) \<lparr>pt_src = s, pt_start = cursor, pt_len = ?u\<rparr>"
      using True Cons.prems(2) by (simp add: part_covers_def wadd64_exact)
    have "(off div ss + k) * ss = off + k * ss" if "(cursor + off) mod ss = 0" for k
    proof -
      have "off mod ss = 0" using that Cons.prems(4) by (metis mod_add_left_eq add_0)
      then show ?thesis by (auto simp: add_mult_distrib)
    qed
    then show ?thesis using True cov Cons.prems(4) by (simp add: Let_def usable_len_def [symmetric])
  next
    case False
    let ?off = "off - ?u"
    have cur: "cursor + off = cursor + ?u + ?off" using False by simp
    have IH: "\<exists>p. find (part_covers (cursor + ?u + ?off)) (fst (concat_parts ss (cursor + ?u) ps)) = Some p \<and>
      pt_src p \<in> set ps \<and> pt_len p = usable_len ss (pt_src p) \<and> pt_start p mod ss = 0 \<and>
      (\<forall>k. cursor + ?u + ?off - pt_start p + k < pt_len p \<longrightarrow>
        concat_byte ss M ps (?off + k) = md_byte (M (pt_src p)) (cursor + ?u + ?off - pt_start p + k)) \<and>
      (\<forall>k. (cursor + ?u + ?off) mod ss = 0 \<longrightarrow> cursor + ?u + ?off - pt_start p + k * ss < pt_len p \<longrightarrow>
        concat_stat ss M ps (?off div ss + k) =
          (if md_stat (M (pt_src p)) ((cursor + ?u + ?off - pt_start p) div ss + k) = Good then Good else Bad))"
      using Cons.prems False um by (intro Cons.IH) (auto simp: mod_add_eq [symmetric])
    have byte: "concat_byte ss M (s # ps) (off + k) = concat_byte ss M ps (?off + k)" for k using False by simp
    have stat: "concat_stat ss M (s # ps) (off div ss + k) = concat_stat ss M ps (?off div ss + k)" for k
    proof -
      have "?u div ss \<le> off div ss" using False by (simp add: div_le_mono)
      then have "\<not> (off div ss + k) * ss < ?u" using um(2) by (metis add_leD1 le_add1 le_trans mult_le_mono1 not_less)
      moreover have "off div ss + k - ?u div ss = ?off div ss + k"
      proof -
        have "off = ?off + ?u div ss * ss" using False um by simp
        then have "off div ss = ?off div ss + ?u div ss" using Cons.prems(1) by (metis add.commute div_mult_self3 less_not_refl2)
        then show ?thesis by simp
      qed
      ultimately show ?thesis by simp
    qed
    have find: "find (part_covers (cursor + off)) (fst (concat_parts ss cursor (s # ps)))
        = find (part_covers (cursor + off)) (fst (concat_parts ss (cursor + ?u) ps))"
    proof (cases "?u = 0")
      case True
      then show ?thesis by (simp add: Let_def usable_len_def [symmetric])
    next
      case nz: False
      have "\<not> part_covers (cursor + off) \<lparr>pt_src = s, pt_start = cursor, pt_len = ?u\<rparr>"
        using False Cons.prems(2) by (simp add: part_covers_def wadd64_exact)
      then show ?thesis using nz Cons.prems(2) by (simp add: Let_def usable_len_def [symmetric] sat_add64_exact)
    qed
    show ?thesis using IH unfolding find byte stat cur [symmetric] by auto
  qed
qed simp

section \<open>The concatenation keeps the source contract\<close>

text \<open>Marking the sectors a part does not report good.\<close>

lemma mark_sector:
  assumes sh: "rr_shape ss n r" and ss: "0 < ss" and fit: "a + i * ss + ss \<le> u64_max" and al: "a mod ss = 0"
  shows "mark_bad_range r ss (a + i * ss) ss = (if a div ss + i < n then rr_mark_bad r (a div ss + i) else r)"
proof -
  have "(a + i * ss) div ss = a div ss + i" "(a + i * ss + ss - 1) div ss = a div ss + i"
  proof -
    obtain q where a: "a = q * ss" using al by (metis mod_0_imp_dvd dvd_def mult.commute)
    show "(a + i * ss) div ss = a div ss + i" using ss by simp
    have "a + i * ss + ss - 1 = (ss - 1) + (q + i) * ss" using ss by (simp add: a add_mult_distrib)
    also have "\<dots> div ss = q + i" using ss by (subst div_mult_self1) simp_all
    finally show "(a + i * ss + ss - 1) div ss = a div ss + i" using ss a by simp
  qed
  moreover have "rr_sector_count r = n" using sh by (simp add: rr_shape_def)
  ultimately show ?thesis using ss fit by (simp add: mark_bad_range_def Let_def sat_add64_exact)
qed

lemma concat_propagate_status:
  assumes sh: "rr_shape ss n res" and ss: "0 < ss" and al: "a mod ss = 0"
    and r: "rr_shape ss m r" and fit: "a + m * ss \<le> u64_max"
  shows "rr_shape ss n (concat_propagate ss a r res)"
    and "rr_status (concat_propagate ss a r res) j =
      (if j < n \<and> a div ss \<le> j \<and> j - a div ss < m \<and> rr_status r (j - a div ss) \<noteq> Good then Bad else rr_status res j)"
proof -
  have cnt: "rr_sector_count r = m" using r by (simp add: rr_shape_def)
  let ?f = "\<lambda>i res. if rr_status r i \<noteq> Good then mark_bad_range res ss (a + i * ss) ss else res"
  have all: "rr_shape ss n (fold ?f [0..<k] res) \<and> (\<forall>j. rr_status (fold ?f [0..<k] res) j =
      (if j < n \<and> a div ss \<le> j \<and> j - a div ss < k \<and> rr_status r (j - a div ss) \<noteq> Good then Bad else rr_status res j))"
    if "k \<le> m" for k
    using that
  proof (induction k)
    case 0
    then show ?case using sh by simp
  next
    case (Suc k)
    let ?res = "fold ?f [0..<k] res"
    have IH: "rr_shape ss n ?res" "\<And>j. rr_status ?res j =
      (if j < n \<and> a div ss \<le> j \<and> j - a div ss < k \<and> rr_status r (j - a div ss) \<noteq> Good then Bad else rr_status res j)"
      using Suc by simp_all
    have "Suc k * ss \<le> m * ss" using Suc.prems by (intro mult_le_mono1) simp
    then have "a + k * ss + ss \<le> u64_max" using fit by simp
    note mark = mark_sector [OF IH(1) ss this al]
    show ?case using IH rr_shape_mark(1) [OF IH(1)] rr_status_mark_bad [OF IH(1)]
      by (auto simp: mark less_Suc_eq)
  qed
  have good: "rr_all_good r \<Longrightarrow> rr_status r i = Good" for i using r by (simp add: rr_all_good_iff)
  show "rr_shape ss n (concat_propagate ss a r res)"
    using all [of m] sh cnt by (simp add: concat_propagate_def)
  show "rr_status (concat_propagate ss a r res) j =
      (if j < n \<and> a div ss \<le> j \<and> j - a div ss < m \<and> rr_status r (j - a div ss) \<noteq> Good then Bad else rr_status res j)"
    using all [of m] cnt good by (simp add: concat_propagate_def)
qed

definition concat_served :: "nat \<Rightarrow> (nat \<Rightarrow> byte) \<Rightarrow> (nat \<Rightarrow> sector_status) \<Rightarrow> nat \<Rightarrow> nat \<Rightarrow> nat \<Rightarrow> bytes \<times> read_result \<Rightarrow> bool" where
  "concat_served ss byte_at stat offset n a br \<longleftrightarrow>
     length (fst br) = n \<and> rr_shape ss (div_ceil n ss) (snd br) \<and> a \<le> n \<and> (a mod ss = 0 \<or> a = n) \<and>
     (\<forall>j < a. fst br ! j = byte_at (offset + j)) \<and>
     (\<forall>i. rr_status (snd br) i = (if i < div_ceil n ss \<and> i * ss < a then stat (offset div ss + i) else Good))"

lemma concat_loop_served:
  assumes ps: "\<And>s. s \<in> set ps \<Longrightarrow> presents s (M s) \<and> s_sector_size s = ss"
    and c: "cc_parts c = fst (concat_parts ss 0 ps)" "cc_total c = (\<Sum>s\<leftarrow>ps. usable_len ss s)" "cc_sector_size c = ss"
    and ss: "0 < ss" and fit: "cc_total c + ss \<le> u64_max"
    and al: "offset mod ss = 0" and within: "offset + n \<le> cc_total c"
    and srv: "concat_served ss (concat_byte ss M ps) (concat_stat ss M ps) offset n a br"
  shows "concat_served ss (concat_byte ss M ps) (concat_stat ss M ps) offset n n (concat_loop c offset n a br)"
  using srv
proof (induction "n - a" arbitrary: a br rule: less_induct)
  case less
  note srv = less.prems [unfolded concat_served_def]
  show ?case
  proof (cases "n \<le> a")
    case True
    then show ?thesis using less.prems by (simp add: concat_loop.simps concat_served_def)
  next
    case False
    then have a: "a < n" "a mod ss = 0" using srv by auto
    have cur: "sat_add64 offset a = offset + a" using a within fit by (simp add: sat_add64_exact)
    have cal: "(offset + a) mod ss = 0" using al a(2) by (auto simp: mod_add_eq [symmetric])
    have tot: "0 + (\<Sum>s\<leftarrow>ps. usable_len ss s) \<le> u64_max" "offset + a < (\<Sum>s\<leftarrow>ps. usable_len ss s)"
      using fit c(2) within a by simp_all
    obtain p where p: "find (part_covers (offset + a)) (cc_parts c) = Some p"
      and src: "pt_src p \<in> set ps" "pt_len p = usable_len ss (pt_src p)" "pt_start p mod ss = 0"
      and byte: "\<And>k. offset + a - pt_start p + k < pt_len p \<Longrightarrow>
        concat_byte ss M ps (offset + a + k) = md_byte (M (pt_src p)) (offset + a - pt_start p + k)"
      and stat: "\<And>k. offset + a - pt_start p + k * ss < pt_len p \<Longrightarrow>
        concat_stat ss M ps ((offset + a) div ss + k) =
          (if md_stat (M (pt_src p)) ((offset + a - pt_start p) div ss + k) = Good then Good else Bad)"
      using concat_parts_find [OF ss tot(1) tot(2), of M] cal c(1) by auto
    define wi where "wi = offset + a - pt_start p"
    define want where "want = min (pt_len p - wi) (n - a)"
    define r where "r = s_read_at (pt_src p) wi (take want (drop a (fst br)))"
    define br' where "br' = (blit (fst br) a (fst r), concat_propagate ss a (snd r) (snd br))"
    have loop: "concat_loop c offset n a br = concat_loop c offset n (a + want) br'"
      using False within a p cur
      by (subst concat_loop.simps) (simp add: Let_def wi_def want_def r_def br'_def c(3))
    have cov: "pt_start p \<le> offset + a" "0 < pt_len p - wi"
      using part_covers_bounds [of "offset + a" p] find_part [OF p] unfolding wi_def by blast+
    have w: "0 < want" "a + want \<le> n" "wi + want \<le> pt_len p" using cov a by (auto simp: want_def)
    have wal: "wi mod ss = 0" using cal src(3) cov(1) unfolding wi_def by (metis mod_eq_dvd_iff_nat mod_0_imp_dvd dvd_imp_mod_0)
    have pres: "presents (pt_src p) (M (pt_src p))" "s_sector_size (pt_src p) = ss" using ps src(1) by blast+
    have blen: "length (fst br) = n" using srv by simp
    have dlen: "length (take want (drop a (fst br))) = want" using blen w by simp
    have rfit: "wi + want \<le> s_len (pt_src p)" using w(3) src(2) by (simp add: usable_len_def)
    have rb: "fst r = medium_bytes (M (pt_src p)) wi want"
      using presents_read [OF pres(1), of wi "take want (drop a (fst br))"] pres(2) wal rfit dlen by (simp add: r_def)
    have rsh: "rr_shape ss (div_ceil want ss) (snd r)"
    proof -
      have ssrc: "sector_source (s_read_at (pt_src p)) ss (s_len (pt_src p)) (md_byte (M (pt_src p))) (md_stat (M (pt_src p)))"
        using pres by (simp add: presents_def)
      note bsrc = sector_source.axioms(1) [OF ssrc]
      note shape = block_source.shape [OF bsrc]
      show ?thesis using shape [of "take want (drop a (fst br))" wi] dlen by (simp add: r_def)
    qed
    have rst: "rr_status (snd r) i = md_stat (M (pt_src p)) (wi div ss + i)" if "i < div_ceil want ss" for i
      using presents_status [OF pres(1), of wi "take want (drop a (fst br))" i] pres(2) wal rfit dlen that by (simp add: r_def)
    have mfit: "a + div_ceil want ss * ss \<le> u64_max"
    proof -
      have "div_ceil want ss * ss < want + ss"
        using less_div_ceil [OF ss, of "div_ceil want ss - 1" want] w(1)
        by (cases "div_ceil want ss") auto
      then show ?thesis using w within fit by simp
    qed
    note prp = concat_propagate_status [OF _ ss a(2) rsh mfit, of "div_ceil n ss" "snd br"]
    have aligned: "(a + want) mod ss = 0 \<or> a + want = n"
    proof (cases "want = n - a")
      case False
      then have "want = pt_len p - wi" by (simp add: want_def min_def split: if_splits)
      moreover have "pt_len p mod ss = 0" using src(2) by (simp add: usable_len_mult)
      ultimately have "want mod ss = 0" using wal cov(2)
        by (metis mod_eq_dvd_iff_nat mod_0_imp_dvd dvd_imp_mod_0 less_imp_le zero_less_diff)
      then show ?thesis using a(2) by (auto simp: mod_add_eq [symmetric])
    qed (use a in simp)
    have "concat_served ss (concat_byte ss M ps) (concat_stat ss M ps) offset n (a + want) br'"
      unfolding concat_served_def
    proof (intro conjI allI impI)
      fix j assume j: "j < a + want"
      show "fst br' ! j = concat_byte ss M ps (offset + j)"
      proof (cases "j < a")
        case True
        then show ?thesis using srv blen w rb by (simp add: br'_def nth_blit)
      next
        case False
        then have "fst br' ! j = md_byte (M (pt_src p)) (wi + (j - a))"
          using j blen w rb by (simp add: br'_def nth_blit)
        also have "\<dots> = concat_byte ss M ps (offset + a + (j - a))"
          using byte [of "j - a"] False j w by (simp add: wi_def)
        finally show ?thesis using False by simp
      qed
    next
      fix i
      have st: "rr_status (snd br) i = (if i < div_ceil n ss \<and> i * ss < a then concat_stat ss M ps (offset div ss + i) else Good)"
        and sh: "rr_shape ss (div_ceil n ss) (snd br)" using srv by simp_all
      have adiv: "a div ss * ss = a" using a(2) by auto
      show "rr_status (snd br') i =
        (if i < div_ceil n ss \<and> i * ss < a + want then concat_stat ss M ps (offset div ss + i) else Good)"
      proof (cases "i < a div ss")
        case True
        then have "Suc i * ss \<le> a div ss * ss" by (intro mult_le_mono1) simp
        then have "i * ss < a" using adiv ss by simp
        then show ?thesis using True prp(2) [OF sh, of i] st by (simp add: br'_def)
      next
        case ge: False
        then obtain k where k: "i = a div ss + k" by (metis le_Suc_ex not_less)
        have ik: "i * ss = a + k * ss" using adiv by (simp add: k add_mult_distrib)
        have old: "rr_status (snd br) i = Good" using st ik by simp
        have od: "(offset + a) div ss = offset div ss + a div ss" using a(2) al by (auto simp: div_add)
        show ?thesis
        proof (cases "k * ss < want")
          case True
          then have "k < div_ceil want ss" using ss by (simp add: less_div_ceil)
          moreover have "wi + k * ss < pt_len p" using True w(3) by simp
          ultimately have "(if rr_status (snd r) k = Good then Good else Bad) = concat_stat ss M ps (offset div ss + i)"
            using rst [of k] stat [of k] by (simp add: wi_def [symmetric] od k add.assoc split: if_splits)
          moreover have "i < div_ceil n ss" using True ik w ss by (simp add: less_div_ceil)
          ultimately show ?thesis
            using prp(2) [OF sh, of i] old True ik \<open>k < div_ceil want ss\<close> by (auto simp: br'_def k split: if_splits)
        next
          case False
          then have "\<not> k < div_ceil want ss" using ss by (simp add: less_div_ceil)
          then show ?thesis using prp(2) [OF sh, of i] old False ik by (simp add: br'_def k)
        qed
      qed
    qed (use srv w blen rb aligned prp(1) in \<open>simp_all add: br'_def\<close>)
    moreover have "n - (a + want) < n - a" using w(1) a(1) by simp
    ultimately show ?thesis using less.hyps loop by metis
  qed
qed

lemma concat_new_fields:
  assumes "ps \<noteq> []" "\<And>s. s \<in> set ps \<Longrightarrow> s_sector_size s = ss" "0 < ss" "(\<Sum>s\<leftarrow>ps. usable_len ss s) \<le> u64_max"
  shows "cc_parts (concat_new ps ident) = fst (concat_parts ss 0 ps)"
    and "cc_total (concat_new ps ident) = (\<Sum>s\<leftarrow>ps. usable_len ss s)"
    and "cc_sector_size (concat_new ps ident) = ss"
proof -
  obtain p r where ps: "ps = p # r" using assms(1) by (cases ps) auto
  then have "max (s_sector_size p) 1 = ss" using assms(2,3) by simp
  then have "concat_new ps ident = \<lparr>cc_parts = fst (concat_parts ss 0 ps), cc_total = snd (concat_parts ss 0 ps), cc_sector_size = ss, cc_id = ident\<rparr>"
    unfolding concat_new_def Let_def ps by (simp only: list.case)
  then show "cc_parts (concat_new ps ident) = fst (concat_parts ss 0 ps)"
    and "cc_total (concat_new ps ident) = (\<Sum>s\<leftarrow>ps. usable_len ss s)"
    and "cc_sector_size (concat_new ps ident) = ss"
    using concat_parts_total [of 0 ss ps] assms(4) by simp_all
qed

lemma concat_loop_frame:
  assumes "\<And>p. p \<in> set (cc_parts c) \<Longrightarrow> well_behaved (pt_src p)"
    and "length (fst br) = tot" "rr_shape ss n (snd br)"
  shows "length (fst (concat_loop c offset tot a br)) = tot \<and> rr_shape ss n (snd (concat_loop c offset tot a br))"
  using assms(2,3)
proof (induction "tot - a" arbitrary: a br rule: less_induct)
  case less
  let ?cur = "sat_add64 offset a"
  show ?case
  proof (cases "a < tot \<and> ?cur < cc_total c \<and> find (part_covers ?cur) (cc_parts c) \<noteq> None")
    case False
    then show ?thesis using less.prems
      by (subst (1 2) concat_loop.simps) (auto simp: Let_def shape_mark_bad_range split: option.split)
  next
    case True
    then obtain p where p: "find (part_covers ?cur) (cc_parts c) = Some p" by auto
    define want where "want = min (pt_len p - (?cur - pt_start p)) (tot - a)"
    define r where "r = s_read_at (pt_src p) (?cur - pt_start p) (take want (drop a (fst br)))"
    define br' where "br' = (blit (fst br) a (fst r), concat_propagate (cc_sector_size c) a (snd r) (snd br))"
    have loop: "concat_loop c offset tot a br = concat_loop c offset tot (a + want) br'"
      using True p by (subst concat_loop.simps) (auto simp: Let_def want_def r_def br'_def)
    have "0 < pt_len p - (?cur - pt_start p)" using part_covers_bounds [of ?cur p] find_part [OF p] by blast
    then have w: "0 < want" using True unfolding want_def by linarith
    have bsrc: "block_source (s_read_at (pt_src p)) (s_sector_size (pt_src p))"
      using assms(1) [of p] find_part [OF p] by (simp add: well_behaved_def)
    note fills = block_source.fills [OF bsrc]
    have "length (fst r) = want" using less.prems(1) True by (simp add: r_def fills want_def)
    moreover have "rr_shape ss n (fold (\<lambda>i res. if rr_status (snd r) i \<noteq> Good
        then mark_bad_range res (cc_sector_size c) (a + i * cc_sector_size c) (cc_sector_size c) else res) is (snd br))" for "is"
      using less.prems(2)
    proof (induction "is" rule: rev_induct)
      case (snoc i "is")
      then show ?case by (simp add: shape_mark_bad_range)
    qed simp
    moreover have "a + want \<le> tot" using True unfolding want_def by linarith
    ultimately have "length (fst br') = tot" "rr_shape ss n (snd br')"
      using less.prems by (simp_all add: br'_def concat_propagate_def)
    moreover have "tot - (a + want) < tot - a" using w True by linarith
    ultimately show ?thesis using less.hyps [of "a + want" br'] loop by metis
  qed
qed

lemma concat_parts_sources: "p \<in> set (fst (concat_parts ss cursor ps)) \<Longrightarrow> pt_src p \<in> set ps"
  by (induction ps arbitrary: cursor) (auto simp: Let_def split: if_splits)

lemma sector_source_concat:
  assumes ps: "ps \<noteq> []" "\<And>s. s \<in> set ps \<Longrightarrow> presents s (M s) \<and> s_sector_size s = ss"
    and fit: "(\<Sum>s\<leftarrow>ps. usable_len ss s) + ss \<le> u64_max"
  shows "sector_source (concat_read (concat_new ps ident)) ss (\<Sum>s\<leftarrow>ps. usable_len ss s)
    (concat_byte ss M ps) (concat_stat ss M ps)"
proof -
  have ss: "0 < ss" using ps presents_pos by (metis list.set_sel(1))
  let ?c = "concat_new ps ident"
  have f: "cc_parts ?c = fst (concat_parts ss 0 ps)" "cc_total ?c = (\<Sum>s\<leftarrow>ps. usable_len ss s)" "cc_sector_size ?c = ss"
    using concat_new_fields [of ps ss ident] ps ss fit by simp_all
  have wb: "well_behaved (pt_src p)" if "p \<in> set (cc_parts ?c)" for p
    using that ps(2) concat_parts_sources [of p ss 0 ps] f(1)
    by (auto simp: well_behaved_def presents_def sector_source_def)
  note frame = concat_loop_frame [of ?c, OF wb]
  show ?thesis
  proof
    fix off i j :: nat and buf buf' :: bytes
    show "0 < ss" by (rule ss)
    show "length (fst (concat_read ?c off buf)) = length buf"
      using frame [of "(zeros (length buf), rr_good ss (div_ceil (length buf) ss))" "length buf" ss "div_ceil (length buf) ss" off 0]
      by (simp add: concat_read_def Let_def f rr_simps)
    show "rr_shape ss (div_ceil (length buf) ss) (snd (concat_read ?c off buf))"
      using frame [of "(zeros (length buf), rr_good ss (div_ceil (length buf) ss))" "length buf" ss "div_ceil (length buf) ss" off 0]
      by (simp add: concat_read_def Let_def f rr_simps)
    show "length buf = length buf' \<Longrightarrow> concat_read ?c off buf = concat_read ?c off buf'"
      unfolding concat_read_def length_0_conv [symmetric] by (simp only:)
    show "rr_status (snd (concat_read ?c off buf)) i = Bad" if "off mod ss \<noteq> 0" "i < div_ceil (length buf) ss"
      using that rr_status_mark_bads [OF rr_shape_good]
      by (cases "buf = []") (simp_all add: concat_read_def Let_def f)
    assume al: "off mod ss = 0" and fit': "off + length buf \<le> (\<Sum>s\<leftarrow>ps. usable_len ss s)"
    let ?init = "(zeros (length buf), rr_good ss (div_ceil (length buf) ss))"
    have init: "concat_served ss (concat_byte ss M ps) (concat_stat ss M ps) off (length buf) 0 ?init"
      by (simp add: concat_served_def rr_simps)
    have srv: "concat_served ss (concat_byte ss M ps) (concat_stat ss M ps) off (length buf) (length buf) (concat_read ?c off buf)"
    proof (cases "buf = []")
      case True
      then show ?thesis using init by (simp add: concat_read_def Let_def f)
    next
      case False
      then have "concat_read ?c off buf = concat_loop ?c off (length buf) 0 ?init"
        using al fit' by (simp add: concat_read_def Let_def f) (metis add_cancel_right_right le_antisym le_add1 length_0_conv order_trans)
      moreover have "concat_served ss (concat_byte ss M ps) (concat_stat ss M ps) off (length buf) (length buf)
          (concat_loop ?c off (length buf) 0 ?init)"
        by (rule concat_loop_served [OF ps(2) f ss _ al _ init]) (use f fit fit' in simp_all)
      ultimately show ?thesis by simp
    qed
    show "fst (concat_read ?c off buf) ! j = concat_byte ss M ps (off + j)" if "j < length buf"
      using srv that by (simp add: concat_served_def)
    show "rr_status (snd (concat_read ?c off buf)) i = concat_stat ss M ps (off div ss + i)"
      if "i < div_ceil (length buf) ss"
      using srv that ss by (simp add: concat_served_def less_div_ceil)
  qed
qed

end
