(* ===== verification/Vmdk.thy ===== *)
theory Vmdk
  imports ContainerBase Concat
begin

text \<open>
  VMware images (\<^verbatim>\<open>container/vmdk.rs\<close>): the hosted sparse extent, walked through its grain
  directory and tables with a cache of tables, and the text descriptor that lists flat, zero and
  sparse extents in other files. Text and paths are modelled as ASCII strings.
\<close>

section \<open>Sparse extents\<close>

record vmdk_header =
  vk_capacity :: nat
  vk_grain_size :: nat
  vk_grains_per_gt :: nat
  vk_gd :: bytes

definition vk_out_len :: "vmdk_header \<Rightarrow> nat" where
  "vk_out_len h = sat_mul64 (vk_capacity h) 512"

definition vk_grain_bytes :: "vmdk_header \<Rightarrow> nat" where
  "vk_grain_bytes h = sat_mul64 (vk_grain_size h) 512"

definition vk_total_grains :: "vmdk_header \<Rightarrow> nat" where
  "vk_total_grains h = div_ceil (vk_capacity h) (vk_grain_size h)"

definition vmdk_read_header :: "source \<Rightarrow> block_error + vmdk_header" where
  "vmdk_read_header backing =
     or_container (read_exact_vec backing 0 512) ''vmdk: short header'' (\<lambda>hdr.
     let flags = unwrap_or (le_u32 hdr 8) 0 in
     or_container (le_u64 hdr 12) ''vmdk: no capacity'' (\<lambda>capacity.
     or_container (le_u64 hdr 20) ''vmdk: no grainSize'' (\<lambda>grain_size.
     or_container (le_u32 hdr 44) ''vmdk: no numGTEsPerGT'' (\<lambda>num_gtes_per_gt.
     or_container (le_u64 hdr 56) ''vmdk: no gdOffset'' (\<lambda>gd_offset.
     guard_container (grain_size = 0 \<or> num_gtes_per_gt = 0) ''vmdk: zero grain geometry'' (
     guard_container (1048576 < grain_size) ''vmdk: implausible grainSize'' (
     guard_container (flags AND 0x10000 \<noteq> 0) ''vmdk: streamOptimized (compressed grains) unsupported'' (
     let total_grains = div_ceil capacity grain_size in
     guard_container (64 * 1024 * 1024 < total_grains) ''vmdk: too many grains'' (
     let num_gts = div_ceil total_grains num_gtes_per_gt in
     or_container (read_exact_vec backing (sat_mul64 gd_offset 512) (sat_mul64 num_gts 4))
       ''vmdk: cannot read grain directory'' (\<lambda>gd.
     Inr \<lparr>vk_capacity = capacity, vk_grain_size = grain_size, vk_grains_per_gt = num_gtes_per_gt, vk_gd = gd\<rparr>))))))))))"

text \<open>The loop state: the map so far and the cache of grain tables by sector.\<close>

type_synonym vmdk_state = "segment_map \<times> (nat \<rightharpoonup> bytes)"

definition vmdk_gt_sector :: "vmdk_header \<Rightarrow> nat \<Rightarrow> nat" where
  "vmdk_gt_sector h g = unwrap_or (le_u32 (vk_gd h) (g div vk_grains_per_gt h * 4)) 0"

definition vmdk_grain_piece :: "vmdk_header \<Rightarrow> nat \<Rightarrow> bytes \<Rightarrow> piece" where
  "vmdk_grain_piece h g gt =
     (let grain_sector = unwrap_or (le_u32 gt (g mod vk_grains_per_gt h * 4)) 0 in
      if grain_sector = 0 then PZero else PRaw (sat_mul64 grain_sector 512))"

definition vmdk_read_gt :: "source \<Rightarrow> vmdk_header \<Rightarrow> nat \<Rightarrow> bytes option" where
  "vmdk_read_gt backing h gt_sector =
     read_exact_vec backing (sat_mul64 gt_sector 512) (sat_mul64 (vk_grains_per_gt h) 4)"

definition vmdk_grain :: "source \<Rightarrow> vmdk_header \<Rightarrow> nat \<Rightarrow> vmdk_state \<Rightarrow> vmdk_state flow" where
  "vmdk_grain backing h g s =
     (let this_out = min (vk_grain_bytes h) (vk_out_len h - sat_mul64 g (vk_grain_bytes h)) in
      if this_out = 0 then Break s
      else
        let gt_sector = vmdk_gt_sector h g in
        if gt_sector = 0 then Continue (sm_push (fst s) this_out PZero, snd s)
        else case snd s gt_sector of
            Some gt \<Rightarrow> Continue (sm_push (fst s) this_out (vmdk_grain_piece h g gt), snd s)
          | None \<Rightarrow>
              (case vmdk_read_gt backing h gt_sector of
                 None \<Rightarrow> Fail (ContainerError ''vmdk: cannot read grain table'')
               | Some gt \<Rightarrow> Continue (sm_push (fst s) this_out (vmdk_grain_piece h g gt), (snd s)(gt_sector \<mapsto> gt))))"

definition vmdk_open_sparse :: "string \<Rightarrow> source \<Rightarrow> block_error + mapped_source" where
  "vmdk_open_sparse path backing =
     bind_res (vmdk_read_header backing) (\<lambda>h.
     bind_res (for_loop (vmdk_grain backing h) 0 (vk_total_grains h) (sm_new, Map.empty)) (\<lambda>s.
     Inr (sm_build (sm_pad (fst s) (vk_out_len h)) backing (vk_out_len h) 512
       (''vmdk:'' @ path @ '':'' @ show_nat (vk_out_len h)))))"

text \<open>The grain a directory and its tables describe, without the cache.\<close>

definition vmdk_piece :: "source \<Rightarrow> vmdk_header \<Rightarrow> nat \<Rightarrow> piece" where
  "vmdk_piece backing h g =
     (if vmdk_gt_sector h g = 0 then PZero
      else case vmdk_read_gt backing h (vmdk_gt_sector h g) of None \<Rightarrow> PZero | Some gt \<Rightarrow> vmdk_grain_piece h g gt)"

definition vmdk_ref :: "source \<Rightarrow> vmdk_header \<Rightarrow> nat \<Rightarrow> nat \<Rightarrow> byte_ref" where
  "vmdk_ref backing h g k = piece_ref (vmdk_piece backing h g) 0 k"

definition gt_cache_ok :: "source \<Rightarrow> vmdk_header \<Rightarrow> vmdk_state \<Rightarrow> bool" where
  "gt_cache_ok backing h s \<longleftrightarrow> (\<forall>sector gt. snd s sector = Some gt \<longrightarrow> vmdk_read_gt backing h sector = Some gt)"

lemma vmdk_piece_plain: "piece_ref (vmdk_piece backing h g) len k = vmdk_ref backing h g k"
  by (auto simp: vmdk_ref_def vmdk_piece_def vmdk_grain_piece_def piece_ref_def Let_def split: option.split)

interpretation vmdk: cluster_format
  "vmdk_grain backing h" fst "\<lambda>_. gt_cache_ok backing h" "vk_grain_bytes h" "vk_out_len h" "vmdk_ref backing h"
proof
  fix i :: nat and s :: vmdk_state
  let ?bs = "vk_grain_bytes h" and ?n = "vk_out_len h"
  assume lt: "?n < u64_max"
  then have sub: "?n - sat_mul64 i ?bs = ?n - i * ?bs" by (simp add: sat_mul64_def)
  show "(\<exists>e. vmdk_grain backing h i s = Fail e) \<or> (\<exists>s'. vmdk_grain backing h i s = Break s' \<and> fst s' = fst s)" if "?n \<le> i * ?bs"
    using that unfolding vmdk_grain_def sub by simp
  have refs: "map (vmdk_ref backing h i) [0..<len] = piece_refs (vmdk_piece backing h i) len" for len
    by (simp add: piece_refs_def vmdk_piece_plain)
  assume "0 < ?bs" "i * ?bs < ?n" and ok: "gt_cache_ok backing h s"
  then have ne: "min ?bs (?n - i * ?bs) \<noteq> 0" by simp
  show "(\<exists>e. vmdk_grain backing h i s = Fail e) \<or> (\<exists>s'. vmdk_grain backing h i s = Continue s' \<and>
      gt_cache_ok backing h s' \<and> sm_extends (fst s) (fst s') (map (vmdk_ref backing h i) [0..<min ?bs (?n - i * ?bs)]))"
  proof (cases "vmdk_gt_sector h i = 0")
    case True
    then show ?thesis using ne ok unfolding refs vmdk_grain_def sub
      by (simp add: Let_def vmdk_piece_def gt_cache_ok_def sm_extends_push)
  next
    case nz: False
    show ?thesis
    proof (cases "snd s (vmdk_gt_sector h i)")
      case (Some gt)
      then have "vmdk_piece backing h i = vmdk_grain_piece h i gt"
        using ok nz by (simp add: vmdk_piece_def gt_cache_ok_def)
      then show ?thesis using ne ok nz Some unfolding refs vmdk_grain_def sub
        by (simp add: Let_def gt_cache_ok_def sm_extends_push)
    next
      case None
      then show ?thesis using ne ok nz unfolding refs vmdk_grain_def sub
        by (cases "vmdk_read_gt backing h (vmdk_gt_sector h i)")
          (simp_all add: Let_def vmdk_piece_def gt_cache_ok_def sm_extends_push)
    qed
  qed
qed

lemma vmdk_header_geometry:
  assumes "vmdk_read_header backing = Inr h"
  shows "0 < vk_grain_bytes h" "vk_out_len h \<le> vk_total_grains h * vk_grain_bytes h" "vk_out_len h < u64_max"
proof -
  have h: "0 < vk_grain_size h" "vk_grain_size h \<le> 1048576" "vk_total_grains h \<le> 67108864"
    using assms by (auto simp: vmdk_read_header_def parse_Inr Let_def vk_total_grains_def)
  have c: "vk_capacity h \<le> vk_total_grains h * vk_grain_size h"
    using div_ceil_lower [OF h(1)] by (simp add: vk_total_grains_def)
  have "vk_total_grains h * vk_grain_size h \<le> 67108864 * 1048576" using h by (intro mult_le_mono) simp_all
  then have "vk_out_len h = vk_capacity h * 512" "vk_grain_bytes h = vk_grain_size h * 512"
    using c h(2) by (simp_all add: vk_out_len_def vk_grain_bytes_def sat_mul64_def)
  then show "0 < vk_grain_bytes h" "vk_out_len h \<le> vk_total_grains h * vk_grain_bytes h" "vk_out_len h < u64_max"
    using h(1) c \<open>vk_total_grains h * vk_grain_size h \<le> _\<close> by simp_all
qed

lemma vmdk_sparse_describes:
  assumes "vmdk_open_sparse path backing = Inr m" "vmdk_read_header backing = Inr h"
  shows "describes m (vk_out_len h) (vmdk_ref backing h) (vk_total_grains h) (vk_grain_bytes h)" "mp_backing m = backing"
proof -
  note geo = vmdk_header_geometry [OF assms(2)]
  obtain s where run: "for_loop (vmdk_grain backing h) 0 (vk_total_grains h) (sm_new, Map.empty) = Inr s"
    and m: "m = sm_build (sm_pad (fst s) (vk_out_len h)) backing (vk_out_len h) 512 (''vmdk:'' @ path @ '':'' @ show_nat (vk_out_len h))"
    using assms(1,2) by (auto simp: vmdk_open_sparse_def bind_res_def split: sum.splits)
  have "gt_cache_ok backing h (sm_new, Map.empty)" by (simp add: gt_cache_ok_def)
  note d = vmdk.loop_describes [OF geo(1,3) this _ run]
  show "describes m (vk_out_len h) (vmdk_ref backing h) (vk_total_grains h) (vk_grain_bytes h)"
    unfolding m using d geo(3) by (intro build_describes) (simp_all add: vmdk.image_refs_def)
  show "mp_backing m = backing" by (simp add: m sm_build_def)
qed

section \<open>Paths\<close>

text \<open>\<^verbatim>\<open>Path::components\<close> of the standard library, on the text of a path: repeated separators and
  interior \<^verbatim>\<open>.\<close> components vanish, a leading one is kept.\<close>

datatype path_component = RootDir | CurDir | ParentDir | Normal string

abbreviation split_on :: "char \<Rightarrow> string \<Rightarrow> string list" where
  "split_on c \<equiv> split_by (\<lambda>x. x = c)"

definition body_component :: "string \<Rightarrow> path_component list" where
  "body_component p =
     (if p = [] \<or> p = ''.'' then [] else if p = ''..'' then [ParentDir] else [Normal p])"

definition path_is_absolute :: "string \<Rightarrow> bool" where
  "path_is_absolute p \<longleftrightarrow> p \<noteq> [] \<and> hd p = CHR ''/''"

definition path_components :: "string \<Rightarrow> path_component list" where
  "path_components p =
     (let parts = split_on (CHR ''/'') p in
      (if path_is_absolute p then [RootDir] else if hd parts = ''.'' then [CurDir] else []) @
      concat (map body_component parts))"

definition path_join :: "string \<Rightarrow> string \<Rightarrow> string" where
  "path_join dir name =
     (if path_is_absolute name \<or> dir = [] then name
      else if last dir = CHR ''/'' then dir @ name
      else dir @ ''/'' @ name)"

text \<open>\<^verbatim>\<open>path.parent().unwrap_or(".")\<close>, on the reversed text: separators and \<^verbatim>\<open>.\<close> components at the end do not
  count, then the last component goes.\<close>

fun trim_path_end :: "string \<Rightarrow> string" where
  "trim_path_end [] = []"
| "trim_path_end [c] = [c]"
| "trim_path_end (c # d # r) =
     (if c = CHR ''/'' then trim_path_end (d # r)
      else if c = CHR ''.'' \<and> d = CHR ''/'' then trim_path_end (d # r)
      else c # d # r)"

definition path_parent :: "string \<Rightarrow> string" where
  "path_parent p =
     (let q = trim_path_end (rev p) in
      if q = [] \<or> q = ''/'' then ''.''
      else rev (trim_path_end (dropWhile (\<lambda>c. c \<noteq> CHR ''/'') q)))"

definition safe_extent_name :: "string \<Rightarrow> block_error + string" where
  "safe_extent_name fname =
     (let plain = (\<not> path_is_absolute fname \<and>
            list_all (\<lambda>c. case c of Normal _ \<Rightarrow> True | _ \<Rightarrow> False) (path_components fname))
      in if plain then Inr fname
         else container_error (''vmdk: unsafe extent path '' @ [CHR 0x22] @ fname @ [CHR 0x22]))"

text \<open>The components of a path continued after a separator.\<close>

lemma path_components_sep:
  assumes "d \<noteq> []"
  shows "path_components (d @ CHR ''/'' # ys) = path_components d @ concat (map body_component (split_on (CHR ''/'') ys))"
proof -
  have split: "split_on (CHR ''/'') (d @ CHR ''/'' # ys) = split_on (CHR ''/'') d @ split_on (CHR ''/'') ys"
    by (rule split_by_sep) simp
  have hd: "hd (split_on (CHR ''/'') d @ split_on (CHR ''/'') ys) = hd (split_on (CHR ''/'') d)"
    by (rule hd_append2) simp
  have "path_is_absolute (d @ CHR ''/'' # ys) \<longleftrightarrow> path_is_absolute d" using assms by (simp add: path_is_absolute_def)
  then show ?thesis by (simp only: path_components_def Let_def split hd map_append concat_append append_assoc)
qed

text \<open>Joining an accepted name to a directory only descends: the components of the result are the
  directory's followed by plain names.\<close>

lemma safe_extent_confined:
  assumes safe: "safe_extent_name fname = Inr name"
  shows "\<exists>names. path_components (path_join dir name) = path_components dir @ map Normal names"
proof -
  have name: "name = fname" "\<not> path_is_absolute fname"
    and all: "list_all (\<lambda>c. case c of Normal _ \<Rightarrow> True | _ \<Rightarrow> False) (path_components fname)"
    using safe by (auto simp: safe_extent_name_def Let_def split: if_splits)
  have norm: "\<exists>names. path_components fname = map Normal names"
    if "list_all (\<lambda>c. case c of Normal _ \<Rightarrow> True | _ \<Rightarrow> False) cs" "path_components fname = cs" for cs
  proof -
    have "\<exists>names. cs = map Normal names" using that(1)
    proof (induction cs)
      case (Cons c cs)
      then obtain names n where "cs = map Normal names" "c = Normal n" by (auto split: path_component.splits)
      then show ?case by (metis list.simps(9))
    qed simp
    then show ?thesis using that(2) by simp
  qed
  obtain names where names: "path_components fname = map Normal names" using norm [OF all refl] by blast
  have body: "concat (map body_component (split_on (CHR ''/'') fname)) = map Normal names"
    using names name(2) by (auto simp: path_components_def Let_def split: if_splits)
  have nil: "concat (map body_component (split_on (CHR ''/'') [])) = []" by (simp add: body_component_def)
  have join: "path_components (d @ CHR ''/'' # fname) = path_components (d @ ''/'') @ map Normal names" for d
    using path_components_sep [of d fname] path_components_sep [of d "[]"] body nil
    by (cases "d = []") (auto simp: path_components_def path_is_absolute_def body_component_def)
  show ?thesis
  proof (cases "dir = []")
    case True
    then show ?thesis using names name by (auto simp: path_join_def path_components_def Let_def path_is_absolute_def body_component_def)
  next
    case dir: False
    show ?thesis
    proof (cases "last dir = CHR ''/''")
      case True
      then obtain d where d: "dir = d @ ''/''" using dir by (metis append_butlast_last_id)
      then have "path_join dir name = d @ CHR ''/'' # fname" using name by (simp add: path_join_def)
      then show ?thesis using join [of d] d by auto
    next
      case False
      then have "path_join dir name = dir @ CHR ''/'' # fname" using name dir by (simp add: path_join_def)
      moreover have "path_components (dir @ ''/'') = path_components dir"
        using path_components_sep [OF dir, of "[]"] nil by simp
      ultimately show ?thesis using join [of dir] by auto
    qed
  qed
qed

section \<open>Descriptors\<close>

definition is_ws :: "char \<Rightarrow> bool" where
  "is_ws c \<longleftrightarrow> c = CHR '' '' \<or> (9 \<le> (of_char c :: nat) \<and> (of_char c :: nat) \<le> 13)"

definition trim_by :: "(char \<Rightarrow> bool) \<Rightarrow> string \<Rightarrow> string" where
  "trim_by P s = rev (dropWhile P (rev (dropWhile P s)))"

definition split_whitespace :: "string \<Rightarrow> string list" where
  "split_whitespace s = filter (\<lambda>t. t \<noteq> []) (split_by is_ws s)"

definition text_lines :: "string \<Rightarrow> string list" where
  "text_lines s = (let ls = split_on (CHR 0x0A) s; ls = (if last ls = [] then butlast ls else ls) in
     map (\<lambda>l. if l \<noteq> [] \<and> last l = CHR 0x0D then butlast l else l) ls)"

definition starts_with :: "'a list \<Rightarrow> 'a list \<Rightarrow> bool" where
  "starts_with s p \<longleftrightarrow> take (length p) s = p"

definition is_digit :: "char \<Rightarrow> bool" where
  "is_digit c \<longleftrightarrow> 48 \<le> (of_char c :: nat) \<and> (of_char c :: nat) \<le> 57"

definition digits_val :: "string \<Rightarrow> nat" where
  "digits_val s = foldl (\<lambda>a c. a * 10 + (of_char c - 48)) 0 s"

text \<open>\<^verbatim>\<open>str::parse\<close> at an unsigned type with largest value \<open>limit\<close>.\<close>

definition parse_uint :: "nat \<Rightarrow> string \<Rightarrow> nat option" where
  "parse_uint limit s =
     (let d = (if s \<noteq> [] \<and> hd s = CHR ''+'' then tl s else s) in
      if d = [] \<or> \<not> list_all is_digit d then None
      else if digits_val d \<le> limit then Some (digits_val d) else None)"

definition mapped_to_source :: "decoders \<Rightarrow> mapped_source \<Rightarrow> source" where
  "mapped_to_source d m = mapped_as_source d m (dc_new decode_cache_blocks)"

definition vmdk_zero_extent :: "decoders \<Rightarrow> source \<Rightarrow> nat \<Rightarrow> source" where
  "vmdk_zero_extent d backing n =
     mapped_to_source d (sm_build (sm_push sm_new n PZero) backing n 512 (''vmdk-zero:'' @ show_nat n))"

text \<open>One line of the descriptor: the parts collected so far, or the error that ends the parse.\<close>

definition vmdk_line ::
  "decoders \<Rightarrow> file_system \<Rightarrow> string \<Rightarrow> source \<Rightarrow> string \<Rightarrow> source list \<Rightarrow> block_error + source list" where
  "vmdk_line d fs dir backing raw parts =
     (let line = trim_by is_ws raw in
      if \<not> (starts_with line ''RW '' \<or> starts_with line ''RDONLY '' \<or> starts_with line ''NOACCESS '') then Inr parts
      else
        let toks = split_whitespace line in
        case (case get_at toks 1 of None \<Rightarrow> None | Some s \<Rightarrow> parse_uint u64_max s) of
          None \<Rightarrow> Inr parts
        | Some sectors \<Rightarrow>
            let kind = unwrap_or (get_at toks 2) [];
                bytes = sat_mul64 sectors 512;
                fname = unwrap_or (map_option (trim_by (\<lambda>c. c = CHR 0x22)) (get_at toks 3)) []
            in if kind = ''ZERO'' then Inr (parts @ [vmdk_zero_extent d backing bytes])
               else if kind = ''FLAT'' \<or> kind = ''VMFS'' \<or> kind = ''VMFSRAW'' then
                 (let off_sectors = unwrap_or (case get_at toks 4 of None \<Rightarrow> None | Some s \<Rightarrow> parse_uint u64_max s) 0 in
                  if fname = [] then Inr parts
                  else bind_res (safe_extent_name fname) (\<lambda>name.
                       bind_res (image_open fs (path_join dir name)) (\<lambda>sub.
                       bind_res (offset_view_new sub (sat_mul64 off_sectors 512) bytes) (\<lambda>view.
                       Inr (parts @ [view_source view])))))
               else if kind = ''SPARSE'' then
                 (if fname = [] then Inr parts
                  else bind_res (safe_extent_name fname) (\<lambda>name.
                       bind_res (image_open fs (path_join dir name)) (\<lambda>sub.
                       bind_res (vmdk_open_sparse (path_join dir name) sub) (\<lambda>m.
                       Inr (parts @ [mapped_to_source d m])))))
               else Inr parts)"

fun vmdk_lines ::
  "decoders \<Rightarrow> file_system \<Rightarrow> string \<Rightarrow> source \<Rightarrow> string list \<Rightarrow> source list \<Rightarrow> block_error + source list" where
  "vmdk_lines d fs dir backing [] parts = Inr parts"
| "vmdk_lines d fs dir backing (l # ls) parts =
     bind_res (vmdk_line d fs dir backing l parts) (vmdk_lines d fs dir backing ls)"

definition vmdk_open_descriptor :: "decoders \<Rightarrow> file_system \<Rightarrow> string \<Rightarrow> source \<Rightarrow> block_error + source" where
  "vmdk_open_descriptor d fs path backing =
     (let text = map (\<lambda>b. char_of (unat b)) (unwrap_or (read_exact_vec backing 0 (min (s_len backing) 65536)) []);
          dir = path_parent path
      in bind_res (vmdk_lines d fs dir backing (text_lines text) []) (\<lambda>parts.
         case parts of
           [] \<Rightarrow> container_error ''vmdk: descriptor had no usable extents''
         | [single] \<Rightarrow> Inr single
         | _ \<Rightarrow> Inr (concat_as_source (concat_new parts (''vmdk-flat:'' @ path @ '':'' @ show_nat (length parts))))))"

definition vmdk_open :: "decoders \<Rightarrow> file_system \<Rightarrow> string \<Rightarrow> block_error + source" where
  "vmdk_open d fs path =
     bind_res (image_open fs path) (\<lambda>backing.
     let head = unwrap_or (read_exact_vec backing 0 512) [] in
     if le_u32 head 0 = Some 0x564D444B
     then bind_res (vmdk_open_sparse path backing) (\<lambda>m. Inr (mapped_to_source d m))
     else vmdk_open_descriptor d fs path backing)"

text \<open>Every file a descriptor makes the parser open lies below the descriptor's directory: the lines
  depend on the file system only through paths that extend the directory's components by plain names.\<close>

definition below :: "string \<Rightarrow> string \<Rightarrow> bool" where
  "below dir p \<longleftrightarrow> (\<exists>names. path_components p = path_components dir @ map Normal names)"

lemma safe_path_below: "safe_extent_name fname = Inr name \<Longrightarrow> below dir (path_join dir name)"
  using safe_extent_confined by (simp add: below_def)

lemma vmdk_line_confined:
  assumes "\<And>p. below dir p \<Longrightarrow> fs p = fs' p"
  shows "vmdk_line d fs dir backing l parts = vmdk_line d fs' dir backing l parts"
proof -
  have open_eq: "image_open fs (path_join dir name) = image_open fs' (path_join dir name)"
    if "safe_extent_name fname = Inr name" for fname name
    using assms [OF safe_path_below [OF that]] by (simp add: image_open_def)
  have bind: "bind_res (safe_extent_name fname) f = bind_res (safe_extent_name fname) g"
    if "\<And>name. safe_extent_name fname = Inr name \<Longrightarrow> f name = g name" for fname and f g :: "string \<Rightarrow> block_error + source list"
    using that by (auto simp: bind_res_def split: sum.split)
  show ?thesis unfolding vmdk_line_def Let_def
    by (auto intro!: bind simp: open_eq split: option.split)
qed

lemma vmdk_lines_confined:
  "(\<And>p. below dir p \<Longrightarrow> fs p = fs' p) \<Longrightarrow> vmdk_lines d fs dir backing ls parts = vmdk_lines d fs' dir backing ls parts"
proof (induction ls arbitrary: parts)
  case (Cons l ls)
  then show ?case using vmdk_line_confined [of dir fs fs' d backing l parts]
    by (auto simp: bind_res_def split: sum.split)
qed simp

end
