(* ===== verification/Dmg.thy ===== *)
theory Dmg
  imports ContainerBase
begin

text \<open>
  Apple UDIF images (\<^verbatim>\<open>container/dmg.rs\<close>): the \<^verbatim>\<open>koly\<close> trailer, the property list's \<^verbatim>\<open><data>\<close>
  blobs with their base64 decoder, and the block tables they hold. The decoder inverts the standard
  encoding; the map the tables build is well-formed, has the declared size whenever the tables
  fit it, and every chunk starts at the offset its table declares.
\<close>

section \<open>Base64\<close>

definition b64_val :: "byte \<Rightarrow> byte option" where
  "b64_val c =
     (if 0x41 \<le> c \<and> c \<le> 0x5A then Some (c - 0x41)
      else if 0x61 \<le> c \<and> c \<le> 0x7A then Some (c - 0x61 + 26)
      else if 0x30 \<le> c \<and> c \<le> 0x39 then Some (c - 0x30 + 52)
      else if c = 0x2B then Some 62
      else if c = 0x2F then Some 63
      else None)"

text \<open>The loop with its 32-bit accumulator and count of pending bits.\<close>

fun base64_loop :: "32 word \<Rightarrow> nat \<Rightarrow> bytes \<Rightarrow> bytes \<Rightarrow> bytes" where
  "base64_loop acc nbits out [] = out"
| "base64_loop acc nbits out (c # cs) =
     (if c = 0x3D then out
      else case b64_val c of
        None \<Rightarrow> base64_loop acc nbits out cs
      | Some v \<Rightarrow>
          let acc = push_bit 6 acc OR ucast v; nbits = nbits + 6 in
          if 8 \<le> nbits then base64_loop acc (nbits - 8) (out @ [ucast (drop_bit (nbits - 8) acc)]) cs
          else base64_loop acc nbits out cs)"

definition base64_decode :: "bytes \<Rightarrow> bytes" where
  "base64_decode input = base64_loop 0 0 [] input"

section \<open>Property list data\<close>

definition tag_open :: bytes where "tag_open = [0x3C, 0x64, 0x61, 0x74, 0x61, 0x3E]"

definition tag_close :: bytes where "tag_close = [0x3C, 0x2F, 0x64, 0x61, 0x74, 0x61, 0x3E]"

text \<open>The inner loop: the first \<open>j\<close> at or after the start where the closing tag stands.\<close>

function find_close :: "bytes \<Rightarrow> nat \<Rightarrow> nat option" where
  "find_close xml j =
     (if j + length tag_close \<le> length xml
      then if get_slice xml j (j + length tag_close) = Some tag_close then Some j else find_close xml (j + 1)
      else None)"
  by pat_completeness auto
termination
  by (relation "measure (\<lambda>(xml, j). length xml - j)") (auto simp: tag_close_def)

declare find_close.simps [simp del]

lemma find_close_ge: "find_close xml j = Some e \<Longrightarrow> j \<le> e \<and> e + length tag_close \<le> length xml"
proof (induction xml j rule: find_close.induct)
  case (1 xml j)
  then show ?case by (subst (asm) (2) find_close.simps) (auto split: if_splits)
qed

function plist_data_from :: "bytes \<Rightarrow> nat \<Rightarrow> bytes list" where
  "plist_data_from xml i =
     (if i + length tag_open \<le> length xml
      then if get_slice xml i (i + length tag_open) = Some tag_open
        then case find_close xml (i + length tag_open) of
            Some e \<Rightarrow>
              (case get_slice xml (i + length tag_open) e of
                 Some s \<Rightarrow> s # plist_data_from xml (e + length tag_close)
               | None \<Rightarrow> plist_data_from xml (e + length tag_close))
          | None \<Rightarrow> []
        else plist_data_from xml (i + 1)
      else [])"
  by pat_completeness auto
termination
  by (relation "measure (\<lambda>(xml, i). length xml - i)") (auto dest!: find_close_ge simp: tag_open_def tag_close_def)

declare plist_data_from.simps [simp del]

definition iter_plist_data :: "bytes \<Rightarrow> bytes list" where
  "iter_plist_data xml = plist_data_from xml 0"

section \<open>The block tables\<close>

record dmg_header =
  dm_data_fork :: nat
  dm_out_len :: nat
  dm_tables :: "bytes list"

definition dmg_max_xml :: nat where "dmg_max_xml = 64 * 1024 * 1024"

definition dmg_max_chunks :: nat where "dmg_max_chunks = 8000000"

definition dmg_read_header :: "source \<Rightarrow> block_error + dmg_header" where
  "dmg_read_header backing =
     (let len = s_len backing in
      guard_container (len < 512) ''dmg: file shorter than koly'' (
      or_container (read_exact_vec backing (len - 512) 512) ''dmg: cannot read koly trailer'' (\<lambda>koly.
      guard_container (get_slice koly 0 4 \<noteq> Some [0x6B, 0x6F, 0x6C, 0x79]) ''dmg: bad koly magic'' (
      let data_fork_offset = unwrap_or (be_u64 koly 24) 0 in
      or_container (be_u64 koly 216) ''dmg: no XMLOffset'' (\<lambda>xml_offset.
      or_container (be_u64 koly 224) ''dmg: no XMLLength'' (\<lambda>xml_length.
      or_container (be_u64 koly 492) ''dmg: no SectorCount'' (\<lambda>sector_count.
      guard_container (xml_length = 0 \<or> dmg_max_xml < xml_length \<or> len < sat_add64 xml_offset xml_length)
        ''dmg: XML plist out of range'' (
      or_container (read_exact_vec backing xml_offset xml_length) ''dmg: cannot read XML plist'' (\<lambda>xml.
      let tables = filter (\<lambda>b. be_u32 b 0 = Some 0x6D697368) (map base64_decode (iter_plist_data xml)) in
      guard_container (tables = []) ''dmg: no blkx tables in plist'' (
      Inr \<lparr>dm_data_fork = data_fork_offset, dm_out_len = sat_mul64 sector_count 512,
           dm_tables = sort_key (\<lambda>t. unwrap_or (be_u64 t 8) u64_max) tables\<rparr>))))))))))"

definition dmg_piece :: "nat \<Rightarrow> nat \<Rightarrow> nat \<Rightarrow> piece" where
  "dmg_piece etype pos comp_len =
     (if etype = 0x00000000 \<or> etype = 0x00000002 then PZero
      else if etype = 0x00000001 then PRaw pos
      else if etype = 0x80000005 then PCompressed CodecZlib pos comp_len
      else if etype = 0x80000006 then PCompressed CodecBzip2 pos comp_len
      else if etype = 0x80000007 then PCompressed CodecLzfse pos comp_len
      else if etype = 0x80000008 then PCompressed CodecLzma pos comp_len
      else PZero)"

text \<open>One chunk of a table: the loop state is the map and the count of chunks over all tables.\<close>

definition dmg_chunk :: "nat \<Rightarrow> bytes \<Rightarrow> nat \<Rightarrow> segment_map \<times> nat \<Rightarrow> (segment_map \<times> nat) flow" where
  "dmg_chunk data_fork t i s =
     (let base_sector = unwrap_or (be_u64 t 8) 0;
          blkx_data_off = unwrap_or (be_u64 t 24) 0;
          base = 204 + i * 40
      in case be_u32 t base of
           None \<Rightarrow> Break s
         | Some etype \<Rightarrow>
             let sect_num = unwrap_or (be_u64 t (base + 8)) 0;
                 sect_cnt = unwrap_or (be_u64 t (base + 16)) 0;
                 comp_off = unwrap_or (be_u64 t (base + 24)) 0;
                 comp_len = unwrap_or (be_u64 t (base + 32)) 0;
                 total = snd s + 1
             in if dmg_max_chunks < total then Fail (ContainerError ''dmg: too many chunks'')
                else if etype = 0xFFFFFFFF \<or> etype = 0x7FFFFFFE then Continue (fst s, total)
                else
                  let this_out = sat_mul64 sect_cnt 512 in
                  if this_out = 0 then Continue (fst s, total)
                  else
                    let want_out = sat_mul64 (sat_add64 base_sector sect_num) 512;
                        smap = sm_pad (fst s) want_out;
                        pos = sat_add64 (sat_add64 data_fork blkx_data_off) comp_off
                    in Continue (sm_push smap this_out (dmg_piece etype pos comp_len), total))"

fun dmg_tables_loop :: "nat \<Rightarrow> bytes list \<Rightarrow> segment_map \<times> nat \<Rightarrow> block_error + segment_map \<times> nat" where
  "dmg_tables_loop data_fork [] s = Inr s"
| "dmg_tables_loop data_fork (t # ts) s =
     bind_res (for_loop (dmg_chunk data_fork t) 0 (unwrap_or (be_u32 t 200) 0) s) (dmg_tables_loop data_fork ts)"

definition dmg_parse :: "string \<Rightarrow> source \<Rightarrow> block_error + mapped_source" where
  "dmg_parse path backing =
     bind_res (dmg_read_header backing) (\<lambda>h.
     bind_res (dmg_tables_loop (dm_data_fork h) (dm_tables h) (sm_new, 0)) (\<lambda>s.
     let out_len = dm_out_len h;
         smap = sm_pad (fst s) out_len;
         final_len = (if out_len = 0 then sm_out_len smap else out_len)
     in Inr (sm_build smap backing final_len 512 (''dmg:'' @ path @ '':'' @ show_nat final_len))))"

definition dmg_open :: "file_system \<Rightarrow> string \<Rightarrow> block_error + mapped_source" where
  "dmg_open fs path = bind_res (image_open fs path) (dmg_parse path)"

section \<open>The decoder inverts the encoding\<close>

definition b64_char :: "byte \<Rightarrow> byte" where
  "b64_char v =
     (if v < 26 then v + 0x41 else if v < 52 then v - 26 + 0x61 else if v < 62 then v - 52 + 0x30
      else if v = 62 then 0x2B else 0x2F)"

text \<open>The four groups of six bits of three bytes, and RFC 4648 encoding, padding included.\<close>

definition sextet1 :: "byte \<Rightarrow> byte" where "sextet1 a = drop_bit 2 a"

definition sextet2 :: "byte \<Rightarrow> byte \<Rightarrow> byte" where "sextet2 a b = push_bit 4 (a AND 3) OR drop_bit 4 b"

definition sextet3 :: "byte \<Rightarrow> byte \<Rightarrow> byte" where "sextet3 b c = push_bit 2 (b AND 15) OR drop_bit 6 c"

definition sextet4 :: "byte \<Rightarrow> byte" where "sextet4 c = c AND 63"

fun base64_encode :: "bytes \<Rightarrow> bytes" where
  "base64_encode [] = []"
| "base64_encode [a] = [b64_char (sextet1 a), b64_char (sextet2 a 0), 0x3D, 0x3D]"
| "base64_encode [a, b] = [b64_char (sextet1 a), b64_char (sextet2 a b), b64_char (sextet3 b 0), 0x3D]"
| "base64_encode (a # b # c # r) =
     [b64_char (sextet1 a), b64_char (sextet2 a b), b64_char (sextet3 b c), b64_char (sextet4 c)] @ base64_encode r"

lemma b64_table: "list_all (\<lambda>v. b64_val (b64_char v) = Some v \<and> b64_char v \<noteq> 0x3D) (map of_nat [0..<64])"
  by code_simp

lemma b64_val_char: "v < 64 \<Longrightarrow> b64_val (b64_char v) = Some v \<and> b64_char v \<noteq> 0x3D"
proof -
  assume "v < 64"
  then have "unat v < 64" by (simp add: word_less_nat_alt)
  moreover have "v = of_nat (unat v)" by simp
  ultimately have "v \<in> set (map of_nat [0..<64])" by (metis atLeast0LessThan imageI lessThan_iff list.set_map set_upt)
  then show ?thesis using b64_table by (auto simp only: list_all_iff)
qed

lemma word_lt_64:
  assumes "\<And>n. 6 \<le> n \<Longrightarrow> \<not> bit (v :: byte) n"
  shows "v < 64"
proof -
  have "take_bit 6 v = v" by (rule bit_word_eqI) (use assms in \<open>auto simp: bit_take_bit_iff not_le [symmetric]\<close>)
  moreover have "unat (take_bit 6 v) < 2 ^ 6" by (simp only: unsigned_take_bit_eq take_bit_nat_less_exp)
  ultimately show ?thesis by (simp add: word_less_nat_alt)
qed

lemma byte_masks: "(3 :: byte) = mask 2" "(15 :: byte) = mask 4" "(63 :: byte) = mask 6"
  by (simp_all add: mask_eq_exp_minus_1)

lemmas sextet_defs = sextet1_def sextet2_def sextet3_def sextet4_def byte_masks

lemma sextet_lt: "sextet1 a < 64" "sextet2 a b < 64" "sextet3 b c < 64" "sextet4 c < 64"
  by (rule word_lt_64; auto simp: sextet_defs bit_simps dest: bit_imp_le_length)+

lemma b64_step:
  "v < 64 \<Longrightarrow> base64_loop acc n out (b64_char v # cs) =
    (if 8 \<le> n + 6
     then base64_loop (push_bit 6 acc OR ucast v) (n - 2) (out @ [ucast (drop_bit (n - 2) (push_bit 6 acc OR ucast v))]) cs
     else base64_loop (push_bit 6 acc OR ucast v) (n + 6) out cs)"
  using b64_val_char [of v] by (simp add: Let_def)

text \<open>The three bytes a group of four characters yields, whatever the accumulator held before.\<close>

lemma byte_index: "n < 8 \<Longrightarrow> n = 0 \<or> n = 1 \<or> n = 2 \<or> n = 3 \<or> n = 4 \<or> n = 5 \<or> n = 6 \<or> n = (7 :: nat)"
  by linarith

lemma byte_bits: "8 \<le> n \<Longrightarrow> \<not> bit (b :: byte) n"
  using bit_imp_le_length [of b n] by auto

lemma b64_byte1:
  "ucast (drop_bit 4 (push_bit 6 (push_bit 6 acc OR ucast (sextet1 a)) OR ucast (sextet2 a b) :: 32 word)) = a"
proof (rule bit_word_eqI)
  fix n assume n: "n < LENGTH(8)"
  from byte_index [OF this [simplified]] show "bit (ucast (drop_bit 4 (push_bit 6 (push_bit 6 acc OR ucast (sextet1 a)) OR ucast (sextet2 a b) :: 32 word)) :: byte) n = bit a n"
    by (elim disjE; hypsubst; simp add: sextet_defs bit_simps byte_bits)
qed

lemma b64_byte2:
  "ucast (drop_bit 2 (push_bit 6 (push_bit 6 acc OR ucast (sextet2 a b)) OR ucast (sextet3 b c) :: 32 word)) = b"
proof (rule bit_word_eqI)
  fix n assume n: "n < LENGTH(8)"
  from byte_index [OF this [simplified]] show "bit (ucast (drop_bit 2 (push_bit 6 (push_bit 6 acc OR ucast (sextet2 a b)) OR ucast (sextet3 b c) :: 32 word)) :: byte) n = bit b n"
    by (elim disjE; hypsubst; simp add: sextet_defs bit_simps byte_bits)
qed

lemma b64_byte3:
  "ucast (push_bit 6 (push_bit 6 acc OR ucast (sextet3 b c)) OR ucast (sextet4 c) :: 32 word) = c"
proof (rule bit_word_eqI)
  fix n assume n: "n < LENGTH(8)"
  from byte_index [OF this [simplified]] show "bit (ucast (push_bit 6 (push_bit 6 acc OR ucast (sextet3 b c)) OR ucast (sextet4 c) :: 32 word) :: byte) n = bit c n"
    by (elim disjE; hypsubst; simp add: sextet_defs bit_simps byte_bits)
qed

lemma base64_loop_pad: "base64_loop acc n out (0x3D # cs) = out"
  by simp

lemma base64_loop_encode: "base64_loop acc 0 out (base64_encode bs) = out @ bs"
proof (induction bs arbitrary: acc out rule: base64_encode.induct)
  case 1
  then show ?case by simp
next
  case (2 a)
  show ?case by (simp add: b64_step sextet_lt b64_byte1 base64_loop_pad del: base64_loop.simps(2) push_bit_or drop_bit_or)
next
  case (3 a b)
  show ?case by (simp add: b64_step sextet_lt b64_byte1 b64_byte2 base64_loop_pad del: base64_loop.simps(2) push_bit_or drop_bit_or)
next
  case (4 a b c r)
  show ?case using 4
    by (simp add: b64_step sextet_lt b64_byte1 b64_byte2 b64_byte3 base64_loop_pad del: base64_loop.simps(2) push_bit_or drop_bit_or)
qed

lemma base64_decode_encode: "base64_decode (base64_encode bs) = bs"
  by (simp add: base64_decode_def base64_loop_encode)

text \<open>A character outside the alphabet, a line break say, is skipped wherever it stands.\<close>

lemma base64_loop_skip:
  "b64_val w = None \<Longrightarrow> w \<noteq> 0x3D \<Longrightarrow> base64_loop acc n out (xs @ w # ys) = base64_loop acc n out (xs @ ys)"
  by (induction xs arbitrary: acc n out) (auto simp: Let_def split: option.split)

section \<open>The map of the tables\<close>

text \<open>No saturation has happened as long as the map's length is below the largest 64-bit value.\<close>

lemma sm_push_unsaturated:
  assumes "sm_wf m" "sm_next_out (sm_push m len p) < u64_max"
  shows "sm_next_out m + len \<le> u64_max"
proof -
  have "sm_next_out (sm_push m len p) = (if len = 0 then sm_next_out m else sat_add64 (sm_next_out m) len)"
    by (simp add: sm_push_def sm_append_def sm_grow_last_def Let_def split: piece.split)
  then show ?thesis using assms by (auto simp: sat_add64_def sm_wf_def split: if_splits)
qed

lemma sm_push_mono: "sm_wf m \<Longrightarrow> sm_next_out m \<le> sm_next_out (sm_push m len p)"
  by (auto simp: sm_push_def sm_append_def sm_grow_last_def Let_def sat_add64_def sm_wf_def split: piece.split)

lemma sm_pad_extends:
  assumes wf: "sm_wf m" and n: "n \<le> u64_max"
  shows "sm_wf (sm_pad m n)" "sm_out_len (sm_pad m n) = max (sm_out_len m) n"
    "segs_view (sm_segs (sm_pad m n)) = segs_view (sm_segs m) @ replicate (n - sm_out_len m) ZeroByte"
proof -
  have "sm_wf (sm_pad m n) \<and> sm_out_len (sm_pad m n) = max (sm_out_len m) n \<and>
      segs_view (sm_segs (sm_pad m n)) = segs_view (sm_segs m) @ replicate (n - sm_out_len m) ZeroByte"
  proof (cases "sm_out_len m \<le> n")
    case True
    then show ?thesis using sm_pad_ok [OF wf True n] by simp
  next
    case False
    then show ?thesis using wf by (simp add: sm_pad_def)
  qed
  then show "sm_wf (sm_pad m n)" "sm_out_len (sm_pad m n) = max (sm_out_len m) n"
    "segs_view (sm_segs (sm_pad m n)) = segs_view (sm_segs m) @ replicate (n - sm_out_len m) ZeroByte" by blast+
qed

text \<open>One chunk: the gap before its declared offset becomes zeros, then its bytes follow. If the map
  already reaches past the declared offset, the chunk is placed at the end of the map instead.\<close>

lemma dmg_chunk_extends:
  assumes wf: "sm_wf (fst s)" and run: "dmg_chunk data_fork t i s = Continue s'" and sat: "sm_out_len (fst s') < u64_max"
  shows "sm_wf (fst s')" and "sm_out_len (fst s) \<le> sm_out_len (fst s')"
    and "be_u32 t (204 + i * 40) = Some etype \<Longrightarrow> etype \<noteq> 0xFFFFFFFF \<Longrightarrow> etype \<noteq> 0x7FFFFFFE \<Longrightarrow>
      be_u64 t (204 + i * 40 + 16) = Some cnt \<Longrightarrow> 0 < cnt \<Longrightarrow>
      want = sat_mul64 (sat_add64 (unwrap_or (be_u64 t 8) 0) (unwrap_or (be_u64 t (204 + i * 40 + 8)) 0)) 512 \<Longrightarrow>
      pos = sat_add64 (sat_add64 data_fork (unwrap_or (be_u64 t 24) 0)) (unwrap_or (be_u64 t (204 + i * 40 + 24)) 0) \<Longrightarrow>
      segs_view (sm_segs (fst s')) = segs_view (sm_segs (fst s)) @ replicate (want - sm_out_len (fst s)) ZeroByte @
        piece_refs (dmg_piece etype pos (unwrap_or (be_u64 t (204 + i * 40 + 32)) 0)) (sat_mul64 cnt 512)"
proof -
  have padpush: "sm_wf (sm_push (sm_pad (fst s) w) n p) \<and> sm_out_len (fst s) \<le> sm_out_len (sm_push (sm_pad (fst s) w) n p) \<and>
      segs_view (sm_segs (sm_push (sm_pad (fst s) w) n p)) =
        segs_view (sm_segs (fst s)) @ replicate (w - sm_out_len (fst s)) ZeroByte @ piece_refs p n"
    if "w \<le> u64_max" "sm_out_len (sm_push (sm_pad (fst s) w) n p) < u64_max" for w n p
  proof -
    note pad = sm_pad_extends [OF wf that(1)]
    have "sm_next_out (sm_pad (fst s) w) + n \<le> u64_max"
      using sm_push_unsaturated [OF pad(1)] that(2) by (simp add: sm_out_len_def)
    note push = sm_push_ok [OF pad(1) this]
    then show ?thesis using pad by (simp add: sm_out_len_def)
  qed
  obtain et where et: "be_u32 t (204 + i * 40) = Some et"
    using run by (auto simp: dmg_chunk_def Let_def split: option.splits)
  have all: "sm_wf (fst s') \<and> sm_out_len (fst s) \<le> sm_out_len (fst s') \<and>
    (et \<noteq> 0xFFFFFFFF \<longrightarrow> et \<noteq> 0x7FFFFFFE \<longrightarrow> sat_mul64 (unwrap_or (be_u64 t (204 + i * 40 + 16)) 0) 512 \<noteq> 0 \<longrightarrow>
      segs_view (sm_segs (fst s')) = segs_view (sm_segs (fst s)) @
        replicate (sat_mul64 (sat_add64 (unwrap_or (be_u64 t 8) 0) (unwrap_or (be_u64 t (204 + i * 40 + 8)) 0)) 512 - sm_out_len (fst s)) ZeroByte @
        piece_refs (dmg_piece et (sat_add64 (sat_add64 data_fork (unwrap_or (be_u64 t 24) 0)) (unwrap_or (be_u64 t (204 + i * 40 + 24)) 0))
          (unwrap_or (be_u64 t (204 + i * 40 + 32)) 0)) (sat_mul64 (unwrap_or (be_u64 t (204 + i * 40 + 16)) 0) 512))"
    using run wf sat padpush [OF sat_mul64_le] unfolding dmg_chunk_def Let_def et
    by (auto split: if_splits)
  then show "sm_wf (fst s')" and "sm_out_len (fst s) \<le> sm_out_len (fst s')" by blast+
  assume "be_u32 t (204 + i * 40) = Some etype" "etype \<noteq> 0xFFFFFFFF" "etype \<noteq> 0x7FFFFFFE"
    "be_u64 t (204 + i * 40 + 16) = Some cnt" "0 < cnt"
    "want = sat_mul64 (sat_add64 (unwrap_or (be_u64 t 8) 0) (unwrap_or (be_u64 t (204 + i * 40 + 8)) 0)) 512"
    "pos = sat_add64 (sat_add64 data_fork (unwrap_or (be_u64 t 24) 0)) (unwrap_or (be_u64 t (204 + i * 40 + 24)) 0)"
  moreover have "sat_mul64 cnt 512 \<noteq> 0" using \<open>0 < cnt\<close> by (simp add: sat_mul64_def)
  ultimately show "segs_view (sm_segs (fst s')) = segs_view (sm_segs (fst s)) @ replicate (want - sm_out_len (fst s)) ZeroByte @
        piece_refs (dmg_piece etype pos (unwrap_or (be_u64 t (204 + i * 40 + 32)) 0)) (sat_mul64 cnt 512)"
    using all et by simp
qed

lemma dmg_chunk_mono:
  "sm_wf (fst s) \<Longrightarrow> dmg_chunk data_fork t i s = Continue s' \<Longrightarrow> sm_out_len (fst s') < u64_max \<Longrightarrow>
    sm_wf (fst s') \<and> sm_out_len (fst s) \<le> sm_out_len (fst s')"
  using dmg_chunk_extends(1,2) by blast

text \<open>Saturation is for ever, so a final length below the largest value bounds every earlier one.\<close>

lemma sm_push_saturated: "sm_next_out m = u64_max \<Longrightarrow> sm_next_out (sm_push m len p) = u64_max"
  by (auto simp: sm_push_def sm_append_def sm_grow_last_def Let_def sat_add64_def split: piece.split)

lemma sm_push_bound: "sm_next_out m \<le> u64_max \<Longrightarrow> sm_next_out (sm_push m len p) \<le> u64_max"
  by (auto simp: sm_push_def sm_append_def sm_grow_last_def Let_def sat_add64_def split: piece.split)

lemma dmg_chunk_saturated:
  "dmg_chunk data_fork t i s = Continue s' \<Longrightarrow> sm_next_out (fst s) = u64_max \<Longrightarrow> sm_next_out (fst s') = u64_max"
  by (auto simp: dmg_chunk_def Let_def sm_pad_def sm_out_len_def sm_push_saturated split: option.splits if_splits)

lemma dmg_chunk_bound:
  "dmg_chunk data_fork t i s = Continue s' \<Longrightarrow> sm_next_out (fst s) \<le> u64_max \<Longrightarrow> sm_next_out (fst s') \<le> u64_max"
  by (auto simp: dmg_chunk_def Let_def sm_pad_def sm_out_len_def sm_push_bound split: option.splits if_splits)

lemma dmg_chunk_break: "dmg_chunk data_fork t i s = Break s' \<Longrightarrow> s' = s"
  by (auto simp: dmg_chunk_def Let_def split: option.splits if_splits)

lemma dmg_table_saturated:
  "for_loop (dmg_chunk data_fork t) i n s = Inr s' \<Longrightarrow> sm_next_out (fst s) = u64_max \<Longrightarrow> sm_next_out (fst s') = u64_max"
  by (induction n arbitrary: i s)
    (auto split: flow.splits dest: dmg_chunk_saturated dmg_chunk_break)

lemma dmg_table_wf:
  assumes "for_loop (dmg_chunk data_fork t) i n s = Inr s'" "sm_wf (fst s)" "sm_next_out (fst s') < u64_max"
  shows "sm_wf (fst s') \<and> sm_out_len (fst s) \<le> sm_out_len (fst s')"
  using assms
proof (induction n arbitrary: i s)
  case (Suc n)
  show ?case
  proof (cases "dmg_chunk data_fork t i s")
    case (Continue t')
    have le: "sm_next_out (fst t') \<le> u64_max" using dmg_chunk_bound [OF Continue] Suc.prems(2) by (simp add: sm_wf_def)
    have "sm_next_out (fst t') \<noteq> u64_max"
      using dmg_table_saturated [of data_fork t "Suc i" n t' s'] Suc.prems Continue by auto
    then have "sm_out_len (fst t') < u64_max" using le by (simp add: sm_out_len_def)
    note c = dmg_chunk_mono [OF Suc.prems(2) Continue this]
    have "sm_wf (fst s') \<and> sm_out_len (fst t') \<le> sm_out_len (fst s')"
      using Suc.prems Continue c by (intro Suc.IH [of "Suc i"]) simp_all
    then show ?thesis using c by simp
  next
    case (Break t')
    then show ?thesis using Suc.prems dmg_chunk_break [OF Break] by simp
  next
    case (Fail e)
    then show ?thesis using Suc.prems by simp
  qed
qed simp

lemma dmg_tables_saturated:
  "dmg_tables_loop data_fork ts s = Inr s' \<Longrightarrow> sm_next_out (fst s) = u64_max \<Longrightarrow> sm_next_out (fst s') = u64_max"
  by (induction ts arbitrary: s) (auto simp: bind_res_Inr dest: dmg_table_saturated)

lemma dmg_table_bound:
  "for_loop (dmg_chunk data_fork t) i n s = Inr s' \<Longrightarrow> sm_next_out (fst s) \<le> u64_max \<Longrightarrow> sm_next_out (fst s') \<le> u64_max"
  by (induction n arbitrary: i s) (auto split: flow.splits dest: dmg_chunk_bound dmg_chunk_break)

lemma dmg_tables_wf:
  assumes "dmg_tables_loop data_fork ts s = Inr s'" "sm_wf (fst s)" "sm_next_out (fst s') < u64_max"
  shows "sm_wf (fst s') \<and> sm_out_len (fst s) \<le> sm_out_len (fst s')"
  using assms
proof (induction ts arbitrary: s)
  case (Cons t ts)
  obtain r where r: "for_loop (dmg_chunk data_fork t) 0 (unwrap_or (be_u32 t 200) 0) s = Inr r"
      "dmg_tables_loop data_fork ts r = Inr s'"
    using Cons.prems(1) by (auto simp: bind_res_Inr)
  have "sm_next_out (fst r) \<le> u64_max" using dmg_table_bound [OF r(1)] Cons.prems(2) by (simp add: sm_wf_def)
  moreover have "sm_next_out (fst r) \<noteq> u64_max" using dmg_tables_saturated [OF r(2)] Cons.prems(3) by auto
  ultimately have "sm_next_out (fst r) < u64_max" by simp
  note c = dmg_table_wf [OF r(1) Cons.prems(2) this]
  then show ?case using Cons.IH [OF r(2) _ Cons.prems(3)] by auto
qed simp

lemma dmg_parse_wf:
  assumes parse: "dmg_parse path backing = Inr m" and h: "dmg_read_header backing = Inr h"
    and tables: "dmg_tables_loop (dm_data_fork h) (dm_tables h) (sm_new, 0) = Inr s"
    and fit: "sm_out_len (fst s) \<le> dm_out_len h \<or> dm_out_len h = 0" "sm_out_len (fst s) < u64_max"
  shows "mapped_wf m" "mp_out_len m = (if dm_out_len h = 0 then sm_out_len (fst s) else dm_out_len h)"
    "segs_view (mp_segs m) = segs_view (sm_segs (fst s)) @ replicate (dm_out_len h - sm_out_len (fst s)) ZeroByte"
proof -
  have wf: "sm_wf (fst s)" using dmg_tables_wf [OF tables] fit(2) by (simp add: sm_out_len_def)
  have L: "dm_out_len h \<le> u64_max"
    using h by (auto simp: dmg_read_header_def parse_Inr Let_def)
  note pad = sm_pad_extends [OF wf L]
  have m: "m = sm_build (sm_pad (fst s) (dm_out_len h)) backing (sm_out_len (sm_pad (fst s) (dm_out_len h))) 512
      (''dmg:'' @ path @ '':'' @ show_nat (sm_out_len (sm_pad (fst s) (dm_out_len h))))"
    using parse h tables fit(1) pad(2) by (auto simp: dmg_parse_def bind_res_def Let_def max_def)
  show "mapped_wf m" unfolding m by (rule sm_build_wf [OF pad(1)])
  show "mp_out_len m = (if dm_out_len h = 0 then sm_out_len (fst s) else dm_out_len h)"
    using pad(2) fit(1) by (auto simp: m sm_build_def)
  show "segs_view (mp_segs m) = segs_view (sm_segs (fst s)) @ replicate (dm_out_len h - sm_out_len (fst s)) ZeroByte"
    using pad(3) by (simp add: m sm_build_def)
qed

end
