(* ===== verification/Ewf.thy ===== *)
theory Ewf
  imports ContainerBase Vmdk
begin

text \<open>
  EnCase evidence files (\<^verbatim>\<open>container/e01.rs\<close>): the chain of sections of each segment file, its chunk
  tables, and the concatenation of the segments. Each table's chunks are shown to tile what is left
  of the medium in chunk-size steps, raw or zlib-compressed as the table entry's top bit says.
\<close>

section \<open>Segment files\<close>

text \<open>\<^verbatim>\<open>rfind('.')\<close>.\<close>

definition rfind_char :: "char \<Rightarrow> string \<Rightarrow> nat option" where
  "rfind_char c s =
     (let r = dropWhile (\<lambda>x. x \<noteq> c) (rev s) in if r = [] then None else Some (length r - 1))"

definition pad_number :: "nat \<Rightarrow> nat \<Rightarrow> string" where
  "pad_number width n = (let d = show_nat n in replicate (width - length d) (CHR ''0'') @ d)"

definition segment_name :: "string \<Rightarrow> string \<Rightarrow> nat \<Rightarrow> nat \<Rightarrow> string" where
  "segment_name stem pre width n = stem @ ''.'' @ pre @ pad_number width n"

text \<open>The loop over the following numbers, which wrap at 32 bits.\<close>

function segment_siblings :: "file_system \<Rightarrow> (nat \<Rightarrow> string) \<Rightarrow> nat \<Rightarrow> string list \<Rightarrow> string list" where
  "segment_siblings fs name n out =
     (let n = (n + 1) mod 4294967296; cand = name n in
      if is_file fs cand
      then (let out = out @ [cand] in if 100000 < length out then out else segment_siblings fs name n out)
      else out)"
  by pat_completeness auto
termination
  by (relation "measure (\<lambda>(fs, name, n, out). 100001 - length out)") auto

declare segment_siblings.simps [simp del]

definition segment_paths :: "file_system \<Rightarrow> string \<Rightarrow> string list" where
  "segment_paths fs first =
     (case rfind_char (CHR ''.'') first of
        None \<Rightarrow> [first]
      | Some dot \<Rightarrow>
          let stem = take dot first;
              ext = drop (dot + 1) first;
              num_str = rev (takeWhile is_digit (rev ext));
              pre = take (length ext - length num_str) ext
          in if num_str = [] then [first]
             else case parse_uint 4294967295 num_str of
                 None \<Rightarrow> [first]
               | Some n \<Rightarrow> segment_siblings fs (segment_name stem pre (length num_str)) n [first])"

section \<open>Sections\<close>

record ewf_geometry =
  eg_sectors_per_chunk :: nat
  eg_bytes_per_sector :: nat
  eg_sector_count :: nat

definition eg_chunk_size :: "ewf_geometry \<Rightarrow> nat" where
  "eg_chunk_size g = sat_mul64 (eg_sectors_per_chunk g) (eg_bytes_per_sector g)"

definition eg_media_size :: "ewf_geometry \<Rightarrow> nat" where
  "eg_media_size g = sat_mul64 (eg_sector_count g) (eg_bytes_per_sector g)"

record ewf_table =
  et_base_offset :: nat
  et_entries :: "nat list"

record ewf_parsed =
  ep_geometry :: "ewf_geometry option"
  ep_tables :: "ewf_table list"

definition ewf_max_chunks :: nat where "ewf_max_chunks = 64 * 1024 * 1024"

definition parse_volume :: "source \<Rightarrow> nat \<Rightarrow> ewf_geometry option" where
  "parse_volume backing at =
     (case read_exact_vec backing at 32 of None \<Rightarrow> None | Some d \<Rightarrow>
       (case (le_u32 d 4, le_u32 d 8, le_u32 d 12, le_u32 d 16) of
          (Some chunk_count, Some sectors_per_chunk, Some bytes_per_sector, Some sector_count) \<Rightarrow>
            if sectors_per_chunk = 0 \<or> bytes_per_sector = 0 then None
            else Some \<lparr>eg_sectors_per_chunk = sectors_per_chunk, eg_bytes_per_sector = bytes_per_sector,
              eg_sector_count = (if sector_count = 0 then sat_mul64 chunk_count sectors_per_chunk else sector_count)\<rparr>
        | _ \<Rightarrow> None))"

text \<open>The values of consecutive entries; \<^const>\<open>None\<close> as soon as one is missing.\<close>

fun table_entries :: "bytes \<Rightarrow> nat \<Rightarrow> nat \<Rightarrow> nat list option" where
  "table_entries raw i 0 = Some []"
| "table_entries raw i (Suc n) =
     (case le_u32 raw (i * 4) of None \<Rightarrow> None | Some e \<Rightarrow> map_option (\<lambda>es. e # es) (table_entries raw (Suc i) n))"

definition parse_table :: "source \<Rightarrow> nat \<Rightarrow> nat \<Rightarrow> ewf_table option" where
  "parse_table backing at section_size =
     (case read_exact_vec backing at 24 of None \<Rightarrow> None | Some hdr \<Rightarrow>
      case le_u32 hdr 0 of None \<Rightarrow> None | Some count \<Rightarrow>
        if count = 0 \<or> 4000000 < count then None
        else
          let base_offset = unwrap_or (le_u64 hdr 8) 0;
              entries_at = sat_add64 at 24
          in case checked_mul64 count 4 of None \<Rightarrow> None | Some bytes \<Rightarrow>
               if section_size \<noteq> 0 \<and> section_size < bytes mod 4294967296 then None
               else case read_exact_vec backing entries_at bytes of None \<Rightarrow> None | Some raw \<Rightarrow>
                 map_option (\<lambda>es. \<lparr>et_base_offset = base_offset, et_entries = es\<rparr>) (table_entries raw 0 count))"

text \<open>One step of the walk along the section chain: the state is what was parsed, the number of
  entries so far and the offset of the next section.\<close>

definition section_type :: "bytes \<Rightarrow> bytes" where
  "section_type desc = takeWhile (\<lambda>b. b \<noteq> 0) (unwrap_or (get_slice desc 0 16) [])"

definition ascii :: "string \<Rightarrow> bytes" where
  "ascii s = map (\<lambda>c. of_nat (of_char c)) s"

definition ewf_section :: "source \<Rightarrow> nat \<Rightarrow> ewf_parsed \<times> nat \<times> nat \<Rightarrow> (ewf_parsed \<times> nat \<times> nat) flow" where
  "ewf_section backing i s =
     (case s of (parsed, total_entries, off) \<Rightarrow>
      case read_exact_vec backing off 76 of
        None \<Rightarrow> Break s
      | Some desc \<Rightarrow>
          let ty = section_type desc;
              next_off = unwrap_or (le_u64 desc 16) 0;
              section_size = unwrap_or (le_u64 desc 24) 0;
              data_off = sat_add64 off 76;
              tail = (\<lambda>parsed total_entries.
                if next_off = 0 \<or> next_off \<le> off \<or> s_len backing \<le> next_off
                then Break (parsed, total_entries, off) else Continue (parsed, total_entries, next_off))
          in if ty = ascii ''volume'' \<or> ty = ascii ''disk'' then
               (case parse_volume backing data_off of
                  Some g \<Rightarrow> tail (parsed\<lparr>ep_geometry := Some g\<rparr>) total_entries
                | None \<Rightarrow> tail parsed total_entries)
             else if ty = ascii ''table'' then
               (case parse_table backing data_off section_size of
                  Some t \<Rightarrow>
                    let total_entries = sat_add64 total_entries (length (et_entries t)) in
                    if ewf_max_chunks < total_entries then Fail (ContainerError ''ewf: too many chunks'')
                    else tail (parsed\<lparr>ep_tables := ep_tables parsed @ [t]\<rparr>) total_entries
                | None \<Rightarrow> tail parsed total_entries)
             else if ty = ascii ''next'' \<or> ty = ascii ''done'' then Break s
             else tail parsed total_entries)"

definition parse_segment :: "source \<Rightarrow> block_error + ewf_parsed" where
  "parse_segment backing =
     bind_res (for_loop (ewf_section backing) 0 100000 (\<lparr>ep_geometry = None, ep_tables = []\<rparr>, 0, 13)) (\<lambda>s. Inr (fst s))"

section \<open>Chunks\<close>

definition ewf_next_offset :: "ewf_table \<Rightarrow> nat \<Rightarrow> nat \<Rightarrow> nat" where
  "ewf_next_offset t i seg_len =
     (case get_at (et_entries t) (i + 1) of
        Some nx \<Rightarrow> sat_add64 (et_base_offset t) (nx AND 0x7FFFFFFF)
      | None \<Rightarrow> seg_len)"

definition ewf_piece :: "ewf_table \<Rightarrow> nat \<Rightarrow> nat \<Rightarrow> piece" where
  "ewf_piece t i seg_len =
     (let ent = unwrap_or (get_at (et_entries t) i) 0;
          off = sat_add64 (et_base_offset t) (ent AND 0x7FFFFFFF)
      in if ent AND 0x80000000 \<noteq> 0
         then PCompressed CodecZlib off (max (ewf_next_offset t i seg_len - off) 1)
         else PRaw off)"

text \<open>The state: the segment's map, the count of chunks over all segments, and what is left of the
  medium.\<close>

type_synonym ewf_state = "segment_map \<times> nat \<times> nat option"

definition ewf_chunk :: "nat \<Rightarrow> nat \<Rightarrow> ewf_table \<Rightarrow> nat \<Rightarrow> ewf_state \<Rightarrow> ewf_state flow" where
  "ewf_chunk chunk_out seg_len t i s =
     (case s of (smap, total_chunks, remaining) \<Rightarrow>
      let total_chunks = total_chunks + 1 in
      if ewf_max_chunks < total_chunks then Fail (ContainerError ''ewf: too many chunks'')
      else
        let rem = unwrap_or remaining chunk_out;
            this_out = min chunk_out rem
        in if this_out = 0 then Break (smap, total_chunks, remaining)
           else Continue (sm_push smap this_out (ewf_piece t i seg_len), total_chunks, Some (rem - this_out)))"

fun ewf_tables :: "nat \<Rightarrow> nat \<Rightarrow> ewf_table list \<Rightarrow> ewf_state \<Rightarrow> block_error + ewf_state" where
  "ewf_tables chunk_out seg_len [] s = Inr s"
| "ewf_tables chunk_out seg_len (t # ts) s =
     bind_res (for_loop (ewf_chunk chunk_out seg_len t) 0 (length (et_entries t)) s) (ewf_tables chunk_out seg_len ts)"

text \<open>The loop over the segment files.\<close>

record ewf_open_state =
  eo_geom :: "ewf_geometry option"
  eo_segments :: "source list"
  eo_total_chunks :: nat
  eo_remaining :: "nat option"

definition evf_sig :: bytes where "evf_sig = [0x45, 0x56, 0x46, 0x09, 0x0D, 0x0A, 0xFF, 0x00]"

definition lvf_sig :: bytes where "lvf_sig = [0x4C, 0x56, 0x46, 0x09, 0x0D, 0x0A, 0xFF, 0x00]"

definition ewf_segment :: "decoders \<Rightarrow> file_system \<Rightarrow> string \<Rightarrow> ewf_open_state \<Rightarrow> block_error + ewf_open_state" where
  "ewf_segment d fs seg s =
     bind_res (image_open fs seg) (\<lambda>backing.
     let head = unwrap_or (read_exact_vec backing 0 8) [] in
     guard_container (head \<noteq> evf_sig \<and> head \<noteq> lvf_sig) ''ewf: bad segment signature'' (
     bind_res (parse_segment backing) (\<lambda>parsed.
     let geom = (case ep_geometry parsed of Some g \<Rightarrow> Some g | None \<Rightarrow> eo_geom s);
         remaining = (case (ep_geometry parsed, eo_remaining s) of
             (Some g, None) \<Rightarrow> Some (eg_media_size g) | _ \<Rightarrow> eo_remaining s)
     in or_container geom ''ewf: no volume section'' (\<lambda>g.
     bind_res (ewf_tables (eg_chunk_size g) (s_len backing) (ep_tables parsed) (sm_new, eo_total_chunks s, remaining))
       (\<lambda>(smap, total_chunks, remaining).
     let out_len = sm_out_len smap;
         segments = (if 0 < out_len
           then eo_segments s @ [mapped_to_source d (sm_build smap backing out_len (max (eg_bytes_per_sector g) 512)
             (''ewf-seg:'' @ seg @ '':'' @ show_nat out_len))]
           else eo_segments s)
     in Inr \<lparr>eo_geom = geom, eo_segments = segments, eo_total_chunks = total_chunks, eo_remaining = remaining\<rparr>)))))"

fun ewf_segments :: "decoders \<Rightarrow> file_system \<Rightarrow> string list \<Rightarrow> ewf_open_state \<Rightarrow> block_error + ewf_open_state" where
  "ewf_segments d fs [] s = Inr s"
| "ewf_segments d fs (p # ps) s = bind_res (ewf_segment d fs p s) (ewf_segments d fs ps)"

definition ewf_open :: "decoders \<Rightarrow> file_system \<Rightarrow> string \<Rightarrow> block_error + source" where
  "ewf_open d fs path =
     (let seg_paths = segment_paths fs path in
      guard_container (seg_paths = []) ''ewf: no segments'' (
      bind_res (ewf_segments d fs seg_paths
        \<lparr>eo_geom = None, eo_segments = [], eo_total_chunks = 0, eo_remaining = None\<rparr>) (\<lambda>s.
      or_container (eo_geom s) ''ewf: no geometry'' (\<lambda>g.
      case eo_segments s of
        [] \<Rightarrow> container_error ''ewf: no chunk data''
      | [single] \<Rightarrow> Inr single
      | segs \<Rightarrow> Inr (concat_as_source (concat_new segs
          (''ewf:'' @ path @ '':'' @ show_nat (eg_media_size g))))))))"

section \<open>A table tiles the medium\<close>

definition ewf_ref :: "nat \<Rightarrow> nat \<Rightarrow> nat \<Rightarrow> ewf_table \<Rightarrow> nat \<Rightarrow> nat \<Rightarrow> byte_ref" where
  "ewf_ref chunk_out left seg_len t i k =
     piece_ref (ewf_piece t i seg_len) (min chunk_out (left - i * chunk_out)) k"

interpretation ewf: cluster_format
  "ewf_chunk chunk_out seg_len t" fst "\<lambda>i s. snd (snd s) = Some (left - i * chunk_out)" chunk_out left
  "ewf_ref chunk_out left seg_len t"
proof
  fix i :: nat and s :: ewf_state
  assume "snd (snd s) = Some (left - i * chunk_out)"
  then obtain smap tot where s: "s = (smap, tot, Some (left - i * chunk_out))" by (cases s) auto
  show "(\<exists>e. ewf_chunk chunk_out seg_len t i s = Fail e) \<or>
      (\<exists>s'. ewf_chunk chunk_out seg_len t i s = Break s' \<and> fst s' = fst s)" if "left \<le> i * chunk_out"
    using that by (simp add: s ewf_chunk_def Let_def)
  have refs: "map (ewf_ref chunk_out left seg_len t i) [0..<min chunk_out (left - i * chunk_out)]
      = piece_refs (ewf_piece t i seg_len) (min chunk_out (left - i * chunk_out))"
    by (simp add: ewf_ref_def piece_refs_def)
  assume "0 < chunk_out" "i * chunk_out < left"
  then have ne: "min chunk_out (left - i * chunk_out) \<noteq> 0" by simp
  define this_out where "this_out = min chunk_out (left - i * chunk_out)"
  have rest: "left - i * chunk_out - this_out = left - Suc i * chunk_out"
    by (cases "chunk_out \<le> left - i * chunk_out") (auto simp: this_out_def min_def)
  have "ewf_chunk chunk_out seg_len t i s = (if ewf_max_chunks < tot + 1 then Fail (ContainerError ''ewf: too many chunks'')
      else Continue (sm_push smap this_out (ewf_piece t i seg_len), tot + 1, Some (left - Suc i * chunk_out)))"
    using ne rest unfolding s ewf_chunk_def prod.case Let_def unwrap_or_simps this_out_def [symmetric] by simp
  then show "(\<exists>e. ewf_chunk chunk_out seg_len t i s = Fail e) \<or> (\<exists>s'. ewf_chunk chunk_out seg_len t i s = Continue s' \<and>
      snd (snd s') = Some (left - Suc i * chunk_out) \<and>
      sm_extends (fst s) (fst s') (map (ewf_ref chunk_out left seg_len t i) [0..<min chunk_out (left - i * chunk_out)]))"
    unfolding refs by (simp add: s this_out_def sm_extends_push)
qed

lemma ewf_table_extends:
  assumes "0 < chunk_out" "left < u64_max"
    and "for_loop (ewf_chunk chunk_out seg_len t) 0 (length (et_entries t)) (smap, tot, Some left) = Inr s'"
  shows "sm_extends smap (fst s')
    (map (\<lambda>off. ewf_ref chunk_out left seg_len t (off div chunk_out) (off mod chunk_out))
      [0..<min (length (et_entries t) * chunk_out) left])"
  using ewf.loop_extends [OF assms(1,2) _ assms(3)] by (simp add: ewf.image_refs_def)

text \<open>The walk along the chain goes strictly forward, so it ends whatever the file holds; the guard on
  the number of sections only bounds the work.\<close>

lemma ewf_section_forward:
  assumes "ewf_section backing i (parsed, tot, off) = Continue (parsed', tot', off')"
  shows "off < off'" "off' < s_len backing"
  using assms by (auto simp: ewf_section_def Let_def split: option.splits if_splits)

definition entries_counted :: "ewf_parsed \<times> nat \<times> nat \<Rightarrow> bool" where
  "entries_counted s \<longleftrightarrow> (case s of (parsed, tot, off) \<Rightarrow>
     tot = sum_list (map (\<lambda>t. length (et_entries t)) (ep_tables parsed)) \<and> tot \<le> ewf_max_chunks)"

lemma ewf_section_entries:
  assumes "entries_counted s" "ewf_section backing i s = Continue s' \<or> ewf_section backing i s = Break s'"
  shows "entries_counted s'"
  using assms
  by (auto simp: ewf_section_def entries_counted_def Let_def sat_add64_def ewf_max_chunks_def min_def
      split: option.splits if_splits)

lemma parse_segment_entries:
  assumes "parse_segment backing = Inr p"
  shows "sum_list (map (\<lambda>t. length (et_entries t)) (ep_tables p)) \<le> ewf_max_chunks"
proof -
  obtain s where s: "for_loop (ewf_section backing) 0 100000 (\<lparr>ep_geometry = None, ep_tables = []\<rparr>, 0, 13) = Inr s" "p = fst s"
    using assms unfolding parse_segment_def bind_res_Inr by blast
  have "entries_counted s"
  proof (rule for_loop_inv [OF _ s(1)])
    show "entries_counted (\<lparr>ep_geometry = None, ep_tables = []\<rparr>, 0, 13)" by (simp add: entries_counted_def)
  qed (rule ewf_section_entries)
  then show ?thesis using s(2) by (auto simp: entries_counted_def)
qed

end
