(* ===== verification/OpenContainer.thy ===== *)
theory OpenContainer
  imports VirtualDisks Qcow2 Vhd Vmdk Dmg Ewf
begin

text \<open>
  Split raw sets (\<^verbatim>\<open>container/split.rs\<close>) and the entry points of \<^verbatim>\<open>container/mod.rs\<close>: sniffing a
  file's format and opening it as the guest image.
\<close>

section \<open>Split sets\<close>

definition numbered_sibling :: "string \<Rightarrow> nat \<Rightarrow> string option" where
  "numbered_sibling path n =
     (case rfind_char (CHR ''.'') path of
        None \<Rightarrow> None
      | Some dot \<Rightarrow> Some (take dot path @ ''.'' @ pad_number 3 n))"

text \<open>\<^verbatim>\<open>Path::extension\<close>: what follows the last dot of the file name, unless the name starts there.\<close>

definition path_file_name :: "string \<Rightarrow> string" where
  "path_file_name p = rev (takeWhile (\<lambda>c. c \<noteq> CHR ''/'') (rev p))"

definition path_extension :: "string \<Rightarrow> string option" where
  "path_extension p =
     (let f = path_file_name p in
      if f = ''..'' then None
      else case rfind_char (CHR ''.'') f of
          None \<Rightarrow> None
        | Some dot \<Rightarrow> if dot = 0 then None else Some (drop (dot + 1) f))"

definition ends_with_num :: "string \<Rightarrow> nat \<Rightarrow> bool" where
  "ends_with_num path n =
     (case path_extension path of
        None \<Rightarrow> False
      | Some e \<Rightarrow> parse_uint 4294967295 e = Some n \<and> length e = 3)"

definition looks_like_split :: "file_system \<Rightarrow> string \<Rightarrow> bool" where
  "looks_like_split fs path =
     (if \<not> ends_with_num path 1 then False
      else case numbered_sibling path 2 of None \<Rightarrow> False | Some p \<Rightarrow> is_file fs p)"

definition split_piece :: "file_system \<Rightarrow> string \<Rightarrow> nat \<Rightarrow> string option" where
  "split_piece fs path n =
     (if n = 1 then Some path
      else case numbered_sibling path n of
          Some p \<Rightarrow> if is_file fs p then Some p else None
        | None \<Rightarrow> None)"

function split_pieces :: "file_system \<Rightarrow> string \<Rightarrow> nat \<Rightarrow> source list \<Rightarrow> block_error + source list" where
  "split_pieces fs path n parts =
     (case split_piece fs path n of
        None \<Rightarrow> Inr parts
      | Some piece \<Rightarrow>
          (case image_open fs piece of
             Inl e \<Rightarrow> Inl e
           | Inr img \<Rightarrow>
               if 100000 < n + 1 then Inr (parts @ [img]) else split_pieces fs path (n + 1) (parts @ [img])))"
  by pat_completeness auto
termination
  by (relation "measure (\<lambda>(fs, path, n, parts). 100001 - n)") auto

declare split_pieces.simps [simp del]

definition split_open :: "file_system \<Rightarrow> string \<Rightarrow> block_error + concat_source" where
  "split_open fs path =
     bind_res (split_pieces fs path 1 []) (\<lambda>parts.
     guard_container (parts = []) ''split: no pieces'' (
     Inr (concat_new parts (''split:'' @ path @ '':'' @ show_nat (length parts)))))"

section \<open>Detection\<close>

datatype container = Raw | Dmg | SparseImage | Vmdk | Vdi | Vhd | Vhdx | Qcow2 | Ewf | Split

definition container_label :: "container \<Rightarrow> string" where
  "container_label c = (case c of
      Raw \<Rightarrow> ''raw'' | Dmg \<Rightarrow> ''dmg'' | SparseImage \<Rightarrow> ''sparseimage'' | Vmdk \<Rightarrow> ''vmdk'' | Vdi \<Rightarrow> ''vdi''
    | Vhd \<Rightarrow> ''vhd'' | Vhdx \<Rightarrow> ''vhdx'' | Qcow2 \<Rightarrow> ''qcow2'' | Ewf \<Rightarrow> ''ewf(e01)'' | Split \<Rightarrow> ''split'')"

text \<open>\<^verbatim>\<open>head.windows(n).any(|w| w == pat)\<close>: a pattern of another length than the window never matches,
  which is what happens to the first of the two descriptor patterns below (16 bytes, window 15).\<close>

definition has_window :: "nat \<Rightarrow> bytes \<Rightarrow> bytes \<Rightarrow> bool" where
  "has_window n b pat = list_ex (\<lambda>i. take n (drop i b) = pat) [0..<Suc (length b) - n]"

definition detect_source :: "file_system \<Rightarrow> source \<Rightarrow> string \<Rightarrow> container" where
  "detect_source fs src path =
     (let len = s_len src;
          head = fst (s_read_at src 0 (zeros 2048));
          trailer = (if 512 \<le> len then read_exact_vec src (len - 512) 512 else None);
          raw_or_split = (if looks_like_split fs path then Split else Raw)
      in if starts_with head [0x51, 0x46, 0x49, 0xFB] then Qcow2
         else if starts_with head (ascii ''KDMV'') then Vmdk
         else if starts_with head (ascii ''# Disk DescriptorFile'')
             \<or> has_window 15 head (ascii (''createType='' @ [CHR 0x22] @ ''vmfs''))
             \<or> has_window 11 head (ascii ''createType='') then Vmdk
         else if starts_with head (ascii ''vhdxfile'') then Vhdx
         else if starts_with head evf_sig \<or> starts_with head lvf_sig then Ewf
         else if starts_with head (ascii ''sprs'') then SparseImage
         else if get_slice head 0x40 0x44 = Some [0x7F, 0x10, 0xDA, 0xBE] then Vdi
         else case trailer of
             None \<Rightarrow> raw_or_split
           | Some t \<Rightarrow>
               if starts_with t (ascii ''koly'') then Dmg
               else if starts_with t (ascii ''conectix'') then Vhd
               else raw_or_split)"

definition detect :: "file_system \<Rightarrow> string \<Rightarrow> container" where
  "detect fs path = (case image_open fs path of Inl _ \<Rightarrow> Raw | Inr src \<Rightarrow> detect_source fs src path)"

definition open_container :: "decoders \<Rightarrow> file_system \<Rightarrow> string \<Rightarrow> block_error + source option" where
  "open_container d fs path =
     (let mapped = (\<lambda>r. bind_res r (\<lambda>m. Inr (Some (mapped_to_source d m)))) in
      case detect fs path of
        Raw \<Rightarrow> Inr None
      | Dmg \<Rightarrow> mapped (dmg_open fs path)
      | SparseImage \<Rightarrow> mapped (sparse_open fs path)
      | Vmdk \<Rightarrow> bind_res (vmdk_open d fs path) (\<lambda>s. Inr (Some s))
      | Vdi \<Rightarrow> mapped (vdi_open fs path)
      | Vhd \<Rightarrow> mapped (vhd_open fs path)
      | Vhdx \<Rightarrow> mapped (vhdx_open fs path)
      | Qcow2 \<Rightarrow> mapped (qcow2_open fs path)
      | Ewf \<Rightarrow> bind_res (ewf_open d fs path) (\<lambda>s. Inr (Some s))
      | Split \<Rightarrow> bind_res (split_open fs path) (\<lambda>c. Inr (Some (concat_as_source c))))"

section \<open>Split sets are their pieces in order\<close>

text \<open>The pieces the loop opens: the first path, then numbered siblings up to the first missing one.\<close>

fun split_chain :: "file_system \<Rightarrow> string \<Rightarrow> nat \<Rightarrow> nat \<Rightarrow> string list" where
  "split_chain fs path n 0 = []"
| "split_chain fs path n (Suc fuel) =
     (case split_piece fs path n of None \<Rightarrow> [] | Some p \<Rightarrow> p # split_chain fs path (n + 1) fuel)"

lemma split_pieces_chain:
  assumes "split_pieces fs path n parts = Inr out" "n \<le> 100000"
  shows "\<exists>imgs. out = parts @ imgs \<and> map Inr imgs = map (image_open fs) (split_chain fs path n (100001 - n))"
  using assms
proof (induction "100001 - n" arbitrary: n parts)
  case (Suc k)
  show ?case
  proof (cases "split_piece fs path n")
    case None
    then show ?thesis using Suc.prems(1) Suc.hyps(2) [symmetric] by (subst (asm) split_pieces.simps) auto
  next
    case (Some p)
    then obtain img where img: "image_open fs p = Inr img"
      and step: "(if 100000 < n + 1 then Inr (parts @ [img]) else split_pieces fs path (n + 1) (parts @ [img])) = Inr out"
      using Suc.prems(1) by (subst (asm) split_pieces.simps) (auto split: sum.splits)
    show ?thesis
    proof (cases "100000 < n + 1")
      case True
      then have "100001 - n = Suc 0" using Suc.prems(2) by simp
      then show ?thesis using step True Some img by auto
    next
      case False
      have "k = 100001 - (n + 1)" using Suc.hyps(2) by simp
      moreover have "split_pieces fs path (n + 1) (parts @ [img]) = Inr out" "n + 1 \<le> 100000" using step False by simp_all
      ultimately obtain imgs where "out = (parts @ [img]) @ imgs"
          "map Inr imgs = map (image_open fs) (split_chain fs path (n + 1) (100001 - (n + 1)))"
        using Suc.hyps(1) [of "n + 1" "parts @ [img]"] by blast
      moreover have "100001 - n = Suc (100001 - (n + 1))" using False by simp
      ultimately show ?thesis using Some img by (intro exI [of _ "img # imgs"]) simp
    qed
  qed
qed simp

text \<open>An opened file presents the file's bytes, all good. \<open>file_medium\<close> reads them off the source.\<close>

definition file_medium :: "source \<Rightarrow> medium" where
  "file_medium s = \<lparr>md_byte = (\<lambda>j. fst (s_read_at s 0 (zeros (s_len s))) ! j), md_stat = (\<lambda>_. Good)\<rparr>"

lemma image_open_presents:
  assumes "fs p = Some c" "length c \<le> u64_max" "image_open fs p = Inr img"
  shows "s_len img = length c" "s_sector_size img = 512" "presents img (file_medium img)"
    "j < length c \<Longrightarrow> md_byte (file_medium img) j = c ! j"
proof -
  have f: "s_len img = length c" "s_sector_size img = 512" "s_read_at img = image_file_read c 512"
    using assms by (auto simp: image_open_def image_file_open_def)
  then show "s_len img = length c" "s_sector_size img = 512" by blast+
  have fsrc_src: "sector_source (image_file_read c 512) 512 (length c) (\<lambda>j. c ! j) (\<lambda>_. Good)"
    using assms(2) by (intro sector_source_image_file) simp_all
  note fsrc_content = sector_source.content [OF fsrc_src]
  note fsrc_status = sector_source.status [OF fsrc_src]
  have byte: "fst (image_file_read c 512 0 (zeros (length c))) ! k = c ! k" if "k < length c" for k
    using fsrc_content [of 0 "zeros (length c)" k] that by simp
  then show "j < length c \<Longrightarrow> md_byte (file_medium img) j = c ! j" by (simp add: file_medium_def f)
  have "sector_source (image_file_read c 512) 512 (length c) (md_byte (file_medium img)) (md_stat (file_medium img))"
  proof (rule sector_sourceI [OF sector_source.axioms(1) [OF fsrc_src]])
    fix off i k and buf :: bytes
    assume a: "off mod 512 = 0" "off + length buf \<le> length c"
    show "fst (image_file_read c 512 off buf) ! k = md_byte (file_medium img) (off + k)" if "k < length buf"
      using fsrc_content [OF a that] byte [of "off + k"] a that by (simp add: file_medium_def f)
    show "rr_status (snd (image_file_read c 512 off buf)) i = md_stat (file_medium img) (off div 512 + i)"
      if "i < div_ceil (length buf) 512"
      using fsrc_status [OF a that] by (simp add: file_medium_def)
  qed
  then show "presents img (file_medium img)" using assms(2) by (simp add: presents_def f)
qed

text \<open>The whole sectors of the pieces, one after the other.\<close>

definition split_bytes :: "bytes list \<Rightarrow> bytes" where
  "split_bytes cs = concat (map (\<lambda>c. take (length c - length c mod 512) c) cs)"

lemma split_bytes_concat:
  assumes "list_all2 (\<lambda>img c. s_len img = length c \<and> (\<forall>j < length c. md_byte (file_medium img) j = c ! j)) imgs cs"
  shows "(\<Sum>s\<leftarrow>imgs. usable_len 512 s) = length (split_bytes cs)"
    and "off < length (split_bytes cs) \<Longrightarrow> concat_byte 512 file_medium imgs off = split_bytes cs ! off"
    and "l * 512 < length (split_bytes cs) \<Longrightarrow> concat_stat 512 file_medium imgs l = Good"
proof -
  show "(\<Sum>s\<leftarrow>imgs. usable_len 512 s) = length (split_bytes cs)"
    using assms by (induction imgs cs rule: list_all2_induct) (simp_all add: split_bytes_def usable_len_def)
  show "off < length (split_bytes cs) \<Longrightarrow> concat_byte 512 file_medium imgs off = split_bytes cs ! off"
    using assms
  proof (induction imgs cs arbitrary: off rule: list_all2_induct)
    case (Cons img imgs c cs)
    then show ?case by (auto simp: split_bytes_def usable_len_def nth_append)
  qed (simp add: split_bytes_def)
  show "l * 512 < length (split_bytes cs) \<Longrightarrow> concat_stat 512 file_medium imgs l = Good"
    using assms
  proof (induction imgs cs arbitrary: l rule: list_all2_induct)
    case (Cons img imgs c cs)
    have "usable_len 512 img = s_len img div 512 * 512" by (rule usable_len_mult)
    then show ?case using Cons by (auto simp: split_bytes_def usable_len_def file_medium_def minus_mod_eq_div_mult left_diff_distrib)
  qed (simp add: split_bytes_def)
qed

lemma split_open_presents:
  assumes run: "split_open fs path = Inr cc"
    and files: "map (\<lambda>p. fs p) (split_chain fs path 1 100000) = map Some cs"
    and fit: "\<And>c. c \<in> set cs \<Longrightarrow> length c \<le> u64_max" "length (split_bytes cs) + 512 \<le> u64_max"
  shows "healthy_source (concat_read cc) 512 (length (split_bytes cs)) (\<lambda>j. split_bytes cs ! j)"
    and "cc_total cc = length (split_bytes cs)"
proof -
  obtain parts where parts: "split_pieces fs path 1 [] = Inr parts" "parts \<noteq> []"
    and cc: "cc = concat_new parts (''split:'' @ path @ '':'' @ show_nat (length parts))"
    using run by (auto simp: split_open_def parse_Inr)
  have chain: "map Inr parts = map (image_open fs) (split_chain fs path 1 100000)"
    using split_pieces_chain [OF parts(1)] by auto
  have each: "image_open fs p = Inr img \<Longrightarrow> fs p = Some c \<Longrightarrow> c \<in> set cs \<Longrightarrow>
      s_len img = length c \<and> (\<forall>j < length c. md_byte (file_medium img) j = c ! j) \<and>
      presents img (file_medium img) \<and> s_sector_size img = 512" for p img c
    using image_open_presents [of fs p c img] fit(1) by blast
  have lens: "length parts = length (split_chain fs path 1 100000)" "length cs = length (split_chain fs path 1 100000)"
    using arg_cong [OF chain, of length] arg_cong [OF files, of length] by simp_all
  have nth: "image_open fs (split_chain fs path 1 100000 ! i) = Inr (parts ! i)" "fs (split_chain fs path 1 100000 ! i) = Some (cs ! i)"
    if "i < length parts" for i
    using arg_cong [OF chain, of "\<lambda>xs. xs ! i"] arg_cong [OF files, of "\<lambda>xs. xs ! i"] that lens by simp_all
  have all: "s_len (parts ! i) = length (cs ! i) \<and> (\<forall>j < length (cs ! i). md_byte (file_medium (parts ! i)) j = cs ! i ! j) \<and>
      presents (parts ! i) (file_medium (parts ! i)) \<and> s_sector_size (parts ! i) = 512" if "i < length parts" for i
    using each [OF nth [OF that]] that lens by simp
  have rel: "list_all2 (\<lambda>img c. s_len img = length c \<and> (\<forall>j < length c. md_byte (file_medium img) j = c ! j)) parts cs"
    using all lens by (simp add: list_all2_conv_all_nth)
  note sb = split_bytes_concat [OF rel]
  have ps: "presents s (file_medium s) \<and> s_sector_size s = 512" if "s \<in> set parts" for s
    using that all by (metis in_set_conv_nth)
  show "cc_total cc = length (split_bytes cs)"
    using concat_new_fields(2) [of parts 512] parts(2) ps fit(2) sb(1) by (simp add: cc)
  have "(\<Sum>s\<leftarrow>parts. usable_len 512 s) + 512 \<le> u64_max" using sb(1) fit(2) by simp
  note src = sector_source_concat [OF parts(2) ps this, of "''split:'' @ path @ '':'' @ show_nat (length parts)", folded cc, unfolded sb(1)]
  have cat_src: "sector_source (concat_read cc) 512 (length (split_bytes cs)) (concat_byte 512 file_medium parts) (concat_stat 512 file_medium parts)"
    by (rule src)
  note cat_content = sector_source.content [OF cat_src]
  note cat_status = sector_source.status [OF cat_src]
  show "healthy_source (concat_read cc) 512 (length (split_bytes cs)) (\<lambda>j. split_bytes cs ! j)"
    unfolding healthy_source_def
  proof (rule sector_sourceI [OF sector_source.axioms(1) [OF cat_src]])
    fix off i k and buf :: bytes
    assume a: "off mod 512 = 0" "off + length buf \<le> length (split_bytes cs)"
    show "fst (concat_read cc off buf) ! k = split_bytes cs ! (off + k)" if "k < length buf"
      using cat_content [OF a that] sb(2) [of "off + k"] a that by simp
    show "rr_status (snd (concat_read cc off buf)) i = Good" if i: "i < div_ceil (length buf) 512"
    proof -
      have "i * 512 < length buf" using i by (simp add: less_div_ceil)
      moreover have "(off div 512 + i) * 512 = off + i * 512" using a(1) by (auto simp: add_mult_distrib)
      ultimately show ?thesis using cat_status [OF a i] sb(3) [of "off div 512 + i"] a(2) by simp
    qed
  qed
qed

end
