(* ===== verification/ContainerTheorems.thy ===== *)
theory ContainerTheorems
  imports OpenContainer
begin

text \<open>
  What the container layer promises: how the mapped source reads, what each format's parser builds,
  and the safety of the parsers on hostile input. The shared specification is \<open>serves\<close>: a byte
  reported good is the byte the image has there, and a request all of whose bytes the image has is
  served good throughout.
\<close>

section \<open>What an image serves\<close>

definition serves :: "source \<Rightarrow> (nat \<Rightarrow> byte option) \<Rightarrow> bool" where
  "serves s content \<longleftrightarrow> (\<forall>offset buf. offset mod s_sector_size s = 0 \<longrightarrow> length buf \<le> u64_max \<longrightarrow>
     length (fst (s_read_at s offset buf)) = length buf \<and>
     (\<forall>j < length buf. rr_status (snd (s_read_at s offset buf)) (j div s_sector_size s) = Good \<longrightarrow>
        content (offset + j) = Some (fst (s_read_at s offset buf) ! j)) \<and>
     ((\<forall>j < length buf. content (offset + j) \<noteq> None) \<longrightarrow> rr_all_good (snd (s_read_at s offset buf))))"

lemma mapped_serves:
  assumes "presents (mp_backing m) md" "mapped_wf m" "dc_valid d m md c"
  shows "serves (mapped_as_source d m c) (mapped_view d m md)"
  unfolding serves_def
proof (intro allI impI conjI)
  fix offset j :: nat and buf :: bytes
  let ?r = "s_read_at (mapped_as_source d m c) offset buf"
  have src: "s_sector_size (mapped_as_source d m c) = mp_sector_size m" "?r = fst (mapped_read d m c offset buf)"
    by (simp_all add: mapped_as_source_def mapped_read_fn_def)
  assume al: "offset mod s_sector_size (mapped_as_source d m c) = 0" and len: "length buf \<le> u64_max"
  note res = mapped_read_result [OF assms len al [unfolded src(1)], folded src(2), unfolded mapped_result_def]
  show "length (fst ?r) = length buf" using res by blast
  show "mapped_view d m md (offset + j) = Some (fst ?r ! j)"
    if "j < length buf" "rr_status (snd ?r) (j div s_sector_size (mapped_as_source d m c)) = Good"
    using res that by (simp add: src(1))
  show "rr_all_good (snd ?r)" if "\<forall>j < length buf. mapped_view d m md (offset + j) \<noteq> None"
    using res that rr_all_good_iff by blast
qed

text \<open>The content of an image of \<open>isize\<close> bytes whose first \<open>n\<close> clusters are given by \<open>refs\<close>.\<close>

definition image_content ::
  "decoders \<Rightarrow> source \<Rightarrow> medium \<Rightarrow> nat \<Rightarrow> (nat \<Rightarrow> nat \<Rightarrow> byte_ref) \<Rightarrow> nat \<Rightarrow> nat \<Rightarrow> nat \<Rightarrow> byte option" where
  "image_content d backing md isize refs n bs off =
     (if isize \<le> off then None
      else if off < n * bs then ref_byte d backing md (refs (off div bs) (off mod bs))
      else Some 0)"

lemma describes_serves:
  assumes m: "describes m isize refs n bs" and p: "presents (mp_backing m) md"
  shows "s_len (mapped_to_source d m) = isize \<and>
    serves (mapped_to_source d m) (image_content d (mp_backing m) md isize refs n bs)"
proof -
  have wf: "mapped_wf m" and len: "mp_out_len m = isize"
    and segs: "\<And>off. off < isize \<Longrightarrow> segs_view (mp_segs m) ! off =
      (if off < n * bs then refs (off div bs) (off mod bs) else ZeroByte)"
    using m by (simp_all add: describes_def)
  have "mapped_view d m md = image_content d (mp_backing m) md isize refs n bs"
    by (intro ext) (simp add: mapped_view_def image_content_def len segs ref_byte_def)
  then show ?thesis
    using mapped_serves [OF p wf dc_valid_new, of d decode_cache_blocks] len
    by (simp add: mapped_to_source_def mapped_as_source_def)
qed

section \<open>Instances\<close>

text \<open>Small images for the instances: a medium of a few bytes at given places, all sectors good.\<close>

lemma fixture_read:
  assumes "n + 512 \<le> u64_max" "off + k \<le> n"
  shows "read_exact_vec (medium_source (good_medium f) 512 n) off k = Some (medium_bytes (good_medium f) off k)"
  using assms by (subst read_exact_vec_eq [OF fixture_presents]) (auto simp: backing_bytes_def)

lemmas fixture_simps = fixture_read read_medium_bytes slice_medium_bytes val_medium_bytes medium_bytes_eq
  or_container_def guard_container_def bind_res_def Let_def

text \<open>Decoders that produce nothing: the instances use no compressed block.\<close>

definition no_decoders :: decoders where
  "no_decoders = \<lparr>dec_zlib = (\<lambda>_. []), dec_deflate = (\<lambda>_. []), dec_bzip2 = (\<lambda>_. []), dec_lzfse = (\<lambda>_. []),
     dec_lzma = (\<lambda>_ _. ([], True)), dec_xz = (\<lambda>_. ([], True))\<rparr>"

text \<open>A mapped image of eight bytes: four of the backing's, then four zeros.\<close>

definition small_mapped :: mapped_source where
  "small_mapped = \<lparr>mp_backing = medium_source (good_medium [(0, [1, 2, 3, 4])]) 512 512,
     mp_segs = [\<lparr>seg_out_start = 0, seg_out_len = 4, seg_piece = PRaw 0\<rparr>,
       \<lparr>seg_out_start = 4, seg_out_len = 4, seg_piece = PZero\<rparr>],
     mp_out_len = 8, mp_sector_size = 4, mp_id = ''small''\<rparr>"

lemma small_mapped_wf: "mapped_wf small_mapped"
  by (simp add: small_mapped_def mapped_wf_def)

lemma small_mapped_presents: "presents (mp_backing small_mapped) (good_medium [(0, [1, 2, 3, 4])])"
  by (simp add: small_mapped_def fixture_presents)

section \<open>The mapped source\<close>

text \<open>C2: A container image reads honestly: from every cache a sequence of reads can leave, an
  aligned read marks a sector good only if each of its bytes is the one the segment map, the
  backing's good sectors and the decoders give, and a read all of whose bytes the image has is good
  throughout.\<close>

theorem mapped_read_honest:
  assumes "presents (mp_backing m) md" "mapped_wf m" "mapped_reach d m c"
  shows "serves (mapped_as_source d m c) (mapped_view d m md)"
  using mapped_serves [OF assms(1,2) mapped_reach_valid [OF assms(3,1)]] .

theorem mapped_read_honest_witness:
  "serves (mapped_as_source no_decoders small_mapped (dc_new decode_cache_blocks))
    (mapped_view no_decoders small_mapped (good_medium [(0, [1, 2, 3, 4])]))"
  by (rule mapped_read_honest [OF small_mapped_presents small_mapped_wf mapped_init])

text \<open>The cache of decoded blocks is invisible and bounded: in every reachable state a read
  returns what it would return with an empty cache, and at most sixteen blocks are held.\<close>

theorem decode_cache_transparent:
  assumes "presents (mp_backing m) md" "mapped_reach d m c"
  shows "fst (mapped_read d m c offset buf) = fst (mapped_read d m (dc_new decode_cache_blocks) offset buf) \<and>
    finite (dom (dc_map c)) \<and> card (dom (dc_map c)) \<le> 16"
proof -
  have "mapped_read_fn d m c = mapped_read_fn d m (dc_new decode_cache_blocks)"
    by (rule mapped_read_cache_irrelevant [OF assms(1) mapped_reach_valid [OF assms(2,1)]])
  then have "fst (mapped_read d m c offset buf) = fst (mapped_read d m (dc_new decode_cache_blocks) offset buf)"
    by (simp add: mapped_read_fn_def fun_eq_iff)
  moreover have "dom (dc_map c) = set (dc_order c)" "length (dc_order c) \<le> 16"
    using mapped_reach_wf [OF assms(2)] by (simp_all add: dc_wf_def decode_cache_blocks_def)
  ultimately show ?thesis using card_length [of "dc_order c"] by simp
qed

theorem decode_cache_transparent_witness:
  "card (dom (dc_map (snd (mapped_read no_decoders small_mapped (dc_new decode_cache_blocks) 0 (zeros 8))))) \<le> 16"
  using decode_cache_transparent [OF small_mapped_presents mapped_step [OF mapped_init]] by blast

text \<open>The binary search finds the segment: in a well-formed map an offset inside the image has
  exactly one covering segment and the search returns its index; outside it returns nothing.\<close>

theorem segment_lookup:
  assumes "mapped_wf m"
  shows "(seg_for m off = Some i \<longleftrightarrow> i < length (mp_segs m) \<and> seg_out_start (mp_segs m ! i) \<le> off \<and>
      off < seg_out_start (mp_segs m ! i) + seg_out_len (mp_segs m ! i)) \<and>
    (seg_for m off = None \<longleftrightarrow> mp_out_len m \<le> off)"
proof -
  have t: "segs_tile 0 (mp_segs m)" "segs_total (mp_segs m) = mp_out_len m" "mp_out_len m \<le> u64_max"
    using assms by (simp_all add: mapped_wf_def)
  have one: "seg_for m off = Some i \<longleftrightarrow> i < length (mp_segs m) \<and> seg_out_start (mp_segs m ! i) \<le> off \<and>
      off < seg_out_start (mp_segs m ! i) + seg_out_len (mp_segs m ! i)" for i
    using seg_for_Some [of m off i] seg_index_complete [OF t(1), of 0 i "length (mp_segs m)" off] t
    by (auto simp: seg_for_def)
  have "mp_out_len m \<le> off" if "seg_for m off = None"
    using seg_for_total [OF t(1), of off] t that by fastforce
  moreover have "seg_for m off = None" if "mp_out_len m \<le> off"
  proof (rule ccontr)
    assume "seg_for m off \<noteq> None"
    then obtain i where i: "i < length (mp_segs m)" "seg_out_start (mp_segs m ! i) \<le> off"
      "off < seg_out_start (mp_segs m ! i) + seg_out_len (mp_segs m ! i)" using one by blast
    have "off - seg_out_start (mp_segs m ! i) < seg_out_len (mp_segs m ! i)" using i by linarith
    then show False using segs_tile_nth [OF t(1) i(1)] t(2) that i(3) by fastforce
  qed
  ultimately show ?thesis using one by blast
qed

theorem segment_lookup_witness: "seg_for small_mapped 5 = Some 1 \<and> seg_for small_mapped 8 = None"
  using segment_lookup [OF small_mapped_wf, of 5 1] segment_lookup [OF small_mapped_wf, of 8 0]
  by (simp add: small_mapped_def)

text \<open>The builder appends exactly what it is told: whether a push starts a new segment or grows the
  last one, the map stays gap-free and sorted and describes its old bytes followed by the pushed
  piece's.\<close>

theorem segment_push:
  assumes "sm_wf m" "sm_out_len m + len \<le> u64_max"
  shows "sm_wf (sm_push m len p) \<and> sm_out_len (sm_push m len p) = sm_out_len m + len \<and>
    segs_view (sm_segs (sm_push m len p)) = segs_view (sm_segs m) @ piece_refs p len"
  using sm_push_ok [OF assms(1), of len p] assms(2) by (simp add: sm_out_len_def)

theorem segment_push_witness:
  "segs_view (sm_segs (sm_push (sm_push sm_new 2 (PRaw 5)) 1 (PRaw 7))) = [BackingByte 5, BackingByte 6, BackingByte 7]"
proof -
  have a: "sm_wf (sm_push sm_new 2 (PRaw 5)) \<and> sm_out_len (sm_push sm_new 2 (PRaw 5)) = 2"
    by (simp add: sm_push_def sm_append_def sm_new_def sm_wf_def sm_out_len_def sat_add64_def)
  then show ?thesis using segment_push [of "sm_push sm_new 2 (PRaw 5)" 1 "PRaw 7"]
    by (simp add: sm_push_def sm_append_def sm_new_def piece_refs_def piece_ref_def sat_add64_def upt_rec)
qed

text \<open>Decompression is bounded and exact: whatever the stream decoders produce, a decoded block has
  exactly the declared length, which is at most 64 MiB, and no decoder's output ever grows past one
  byte more than declared.\<close>

theorem decompress_bounded:
  "(case decompress d codec src n of None \<Rightarrow> True | Some out \<Rightarrow> length out = n \<and> n \<le> 64 * 1024 * 1024) \<and>
   (case inflate r n of None \<Rightarrow> True | Some out \<Rightarrow> length out \<le> min n (64 * 1024 * 1024) + 1) \<and>
   (case lzma_any d src n of None \<Rightarrow> True | Some out \<Rightarrow> length out \<le> min n (64 * 1024 * 1024) + 1)"
  using decompress_length [of d codec src n] inflate_bound [of r n] lzma_any_bound [of d src n]
  by (auto simp: max_block_out_def split: option.split)

text \<open>A concatenation presents its parts end to end: each part contributes its whole sectors in
  order, with every sector the part does not report good reported bad.\<close>

theorem concat_presents:
  assumes "ps \<noteq> []" "\<forall>s \<in> set ps. presents s (M s) \<and> s_sector_size s = ss"
    and "(\<Sum>s\<leftarrow>ps. usable_len ss s) + ss \<le> u64_max"
  shows "presents (concat_as_source (concat_new ps ident)) \<lparr>md_byte = concat_byte ss M ps, md_stat = concat_stat ss M ps\<rparr>"
proof -
  have ss: "0 < ss" using assms(1,2) presents_pos by (metis list.set_sel(1))
  have "cc_total (concat_new ps ident) = (\<Sum>s\<leftarrow>ps. usable_len ss s)" "cc_sector_size (concat_new ps ident) = ss"
    using concat_new_fields [of ps ss ident] assms ss by simp_all
  moreover have "sector_source (concat_read (concat_new ps ident)) ss (\<Sum>s\<leftarrow>ps. usable_len ss s)
      (concat_byte ss M ps) (concat_stat ss M ps)"
    using assms by (intro sector_source_concat) auto
  ultimately show ?thesis using assms(3) by (simp add: presents_def concat_as_source_def)
qed

theorem concat_presents_witness:
  "s_len (concat_as_source (concat_new [medium_source (good_medium []) 4 8, medium_source (good_medium [(0, [9])]) 4 6] ''c'')) = 12 \<and>
   presents (concat_as_source (concat_new [medium_source (good_medium []) 4 8, medium_source (good_medium [(0, [9])]) 4 6] ''c''))
     \<lparr>md_byte = concat_byte 4 (\<lambda>s. if s_len s = 8 then good_medium [] else good_medium [(0, [9])])
        [medium_source (good_medium []) 4 8, medium_source (good_medium [(0, [9])]) 4 6],
      md_stat = concat_stat 4 (\<lambda>s. if s_len s = 8 then good_medium [] else good_medium [(0, [9])])
        [medium_source (good_medium []) 4 8, medium_source (good_medium [(0, [9])]) 4 6]\<rparr>"
proof
  show "s_len (concat_as_source (concat_new [medium_source (good_medium []) 4 8, medium_source (good_medium [(0, [9])]) 4 6] ''c'')) = 12"
    by (simp add: concat_as_source_def concat_new_def sat_add64_def)
qed (rule concat_presents; simp add: presents_medium_source usable_len_def)

end
