(* ===== verification/FormatTheorems.thy ===== *)
theory FormatTheorems
  imports ContainerTheorems
begin

text \<open>
  What each container format's parser promises: the image it builds has the declared size and serves
  exactly the bytes the format's tables give; hostile files cannot lead a parser outside its
  directory, into a cycle or past its bounds.
\<close>

lemma for_loop_numeral:
  "for_loop body i (numeral k) s = (case body i s of
      Continue s' \<Rightarrow> for_loop body (Suc i) (pred_numeral k) s' | Break s' \<Rightarrow> Inr s' | Fail e \<Rightarrow> Inl e)"
  by (simp add: numeral_eq_Suc)

section \<open>Single-table formats\<close>

definition vdi_bytes :: "(nat \<times> bytes) list" where
  "vdi_bytes = [(0x40, [0x7F, 0x10, 0xDA, 0xBE]), (0x155, [2]), (0x159, [4]), (0x171, [2]), (0x179, [2]), (0x180, [1]),
     (1024, [7])]"

abbreviation vdi_fixture :: source where
  "vdi_fixture \<equiv> medium_source (good_medium vdi_bytes) 512 1536"

lemma vdi_fixture_header:
  "vdi_read_header vdi_fixture = Inr \<lparr>vdi_offset_data = 1024, vdi_disk_size = 512, vdi_block_size = 512, vdi_blocks = 1,
     vdi_bat = medium_bytes (good_medium vdi_bytes) 512 4\<rparr>"
  by (simp add: vdi_read_header_def vdi_bytes_def fixture_simps vdi_max_blocks_def sat_mul64_def)

lemma vdi_fixture_parse: "\<exists>m. vdi_parse ''a'' vdi_fixture = Inr m"
  by (simp add: vdi_parse_def vdi_fixture_header bind_res_def vdi_block_def Let_def sat_mul64_def)

text \<open>A VirtualBox image serves exactly what its block table says: the declared disk size, zeros in
  blocks marked unallocated or zero, and the backing's byte at the table's place everywhere else.\<close>

theorem vdi_image:
  assumes "presents backing md" "vdi_parse path backing = Inr m" "vdi_read_header backing = Inr h"
    and "vdi_disk_size h < u64_max"
  shows "s_len (mapped_to_source d m) = vdi_disk_size h \<and>
    serves (mapped_to_source d m)
      (image_content d backing md (vdi_disk_size h) (vdi_ref h) (vdi_blocks h) (vdi_block_size h))"
  using describes_serves [OF vdi_parse_describes(1) [OF assms(2-4)], of md d]
    vdi_parse_describes(2) [OF assms(2-4)] assms(1) by simp

theorem vdi_image_witness:
  "\<exists>m. vdi_parse ''a'' vdi_fixture = Inr m \<and> s_len (mapped_to_source no_decoders m) = 512"
proof -
  obtain m where m: "vdi_parse ''a'' vdi_fixture = Inr m" using vdi_fixture_parse by blast
  have "s_len (mapped_to_source no_decoders m) = 512"
    using vdi_image [OF fixture_presents m vdi_fixture_header, of no_decoders] by simp
  then show ?thesis using m by blast
qed

definition sparse_bytes :: "(nat \<times> bytes) list" where
  "sparse_bytes = [(0, [0x73, 0x70, 0x72, 0x73]), (11, [1]), (19, [1]), (0x43, [1]), (0x1000, [7])]"

abbreviation sparse_fixture :: source where
  "sparse_fixture \<equiv> medium_source (good_medium sparse_bytes) 512 4608"

lemma sparse_fixture_header:
  "sparse_read_header sparse_fixture = Inr \<lparr>sp_band_bytes = 512, sp_total_bytes = 512, sp_num_bands = 1,
     sp_hdr = medium_bytes (good_medium sparse_bytes) 0 4096\<rparr>"
  by (simp add: sparse_read_header_def sparse_bytes_def fixture_simps sat_mul64_def div_ceil_def)

lemma sparse_fixture_parse: "\<exists>m. sparse_parse ''a'' sparse_fixture = Inr m"
  by (simp add: sparse_parse_def sparse_fixture_header bind_res_def sparse_band_def Let_def)

text \<open>An Apple sparse image serves exactly what its band table says: the declared sector count,
  zeros in absent bands and the backing's bytes in stored ones.\<close>

theorem sparse_image:
  assumes "presents backing md" "sparse_parse path backing = Inr m" "sparse_read_header backing = Inr h"
  shows "s_len (mapped_to_source d m) = sp_total_bytes h \<and>
    serves (mapped_to_source d m)
      (image_content d backing md (sp_total_bytes h) (sparse_ref h) (sp_num_bands h) (sp_band_bytes h))"
  using describes_serves [OF sparse_parse_describes(1) [OF assms(2,3)], of md d]
    sparse_parse_describes(2) [OF assms(2,3)] assms(1) by simp

theorem sparse_image_witness:
  "\<exists>m. sparse_parse ''a'' sparse_fixture = Inr m \<and> s_len (mapped_to_source no_decoders m) = 512"
proof -
  obtain m where m: "sparse_parse ''a'' sparse_fixture = Inr m" using sparse_fixture_parse by blast
  have "s_len (mapped_to_source no_decoders m) = 512"
    using sparse_image [OF fixture_presents m sparse_fixture_header, of no_decoders] by simp
  then show ?thesis using m by blast
qed

definition vhdx_bytes :: "(nat \<times> bytes) list" where
  "vhdx_bytes = [(0, [0x76, 0x68, 0x64, 0x78, 0x66, 0x69, 0x6C, 0x65]), (0x30000, [0x72, 0x65, 0x67, 0x69]),
     (0x30008, [2]), (0x30010, guid_region_bat), (0x30022, [5]), (0x30030, guid_region_meta), (0x30042, [6]),
     (0x50000, [6, 0, 0x10]), (0x60000, [0x6D, 0x65, 0x74, 0x61, 0x64, 0x61, 0x74, 0x61]), (0x6000A, [2]),
     (0x60020, guid_meta_fileparams), (0x60031, [2]), (0x60034, [8]), (0x60040, guid_meta_vdsize), (0x60050, [8, 2]),
     (0x60054, [8]), (0x60202, [0x10]), (0x6020A, [0x10])]"

abbreviation vhdx_fixture :: source where
  "vhdx_fixture \<equiv> medium_source (good_medium vhdx_bytes) 512 2097152"

lemma vhdx_fixture_header:
  "vhdx_read_header vhdx_fixture = Inr \<lparr>vx_bat_off = 0x50000,
     vx_meta = \<lparr>vx_block_size = 0x100000, vx_virtual_size = 0x100000, vx_logical_sector = 512\<rparr>,
     vx_total_blocks = 1, vx_chunk_ratio = 4096\<rparr>"
proof -
  note guids = guid_region_bat_def guid_region_meta_def guid_meta_fileparams_def guid_meta_vdsize_def guid_meta_logsect_def
  have table: "read_region_table vhdx_fixture 0x30000 = Some (0x50000, 0x60000)"
    by (simp add: read_region_table_def vhdx_bytes_def guids fixture_simps region_entry_def upt_rec)
  have meta: "vhdx_read_metadata vhdx_fixture 0x60000 =
      Inr \<lparr>vx_block_size = 0x100000, vx_virtual_size = 0x100000, vx_logical_sector = 512\<rparr>"
    by (simp add: vhdx_read_metadata_def vhdx_bytes_def guids fixture_simps vhdx_meta_item_def sat_add64_def for_loop_numeral)
  have ident: "get_slice (medium_bytes (good_medium vhdx_bytes) 0 8) 0 8 = Some [0x76, 0x68, 0x64, 0x78, 0x66, 0x69, 0x6C, 0x65]"
    by (simp add: slice_medium_bytes medium_bytes_eq vhdx_bytes_def)
  show ?thesis
    by (simp add: vhdx_read_header_def table meta ident fixture_read or_container_def guard_container_def bind_res_def
        Let_def div_ceil_def sat_mul64_def)
qed

lemma vhdx_fixture_parse: "\<exists>m. vhdx_parse ''a'' vhdx_fixture = Inr m"
  by (simp add: vhdx_parse_def vhdx_fixture_header bind_res_def vhdx_block_def Let_def)

text \<open>A Hyper-V VHDX image serves exactly what its block allocation table says: the virtual size of
  the metadata, the backing's bytes in fully present blocks, and zeros in every other, with the
  entries of the sector bitmaps skipped in the table.\<close>

theorem vhdx_image:
  assumes "presents backing md" "vhdx_parse path backing = Inr m" "vhdx_read_header backing = Inr h"
    and "vx_virtual_size (vx_meta h) < u64_max"
  shows "s_len (mapped_to_source d m) = vx_virtual_size (vx_meta h) \<and>
    serves (mapped_to_source d m)
      (image_content d backing md (vx_virtual_size (vx_meta h)) (vhdx_ref backing h) (vx_total_blocks h) (vx_block_size (vx_meta h)))"
  using describes_serves [OF vhdx_parse_describes(1) [OF assms(2-4)], of md d]
    vhdx_parse_describes(2) [OF assms(2-4)] assms(1) by simp

theorem vhdx_image_witness:
  "\<exists>m. vhdx_parse ''a'' vhdx_fixture = Inr m \<and> s_len (mapped_to_source no_decoders m) = 0x100000"
proof -
  obtain m where m: "vhdx_parse ''a'' vhdx_fixture = Inr m" using vhdx_fixture_parse by blast
  have "s_len (mapped_to_source no_decoders m) = 0x100000"
    using vhdx_image [OF fixture_presents m vhdx_fixture_header, of no_decoders] by simp
  then show ?thesis using m by blast
qed

section \<open>Two-level tables\<close>

definition qcow2_bytes :: "(nat \<times> bytes) list" where
  "qcow2_bytes = [(0, [0x51, 0x46, 0x49, 0xFB]), (7, [2]), (23, [9]), (30, [2]), (39, [1]), (46, [2]), (518, [4]), (1030, [6]),
     (1536, [7])]"

abbreviation qcow2_fixture :: source where
  "qcow2_fixture \<equiv> medium_source (good_medium qcow2_bytes) 512 2048"

lemma qcow2_fixture_header:
  "qcow2_read_header qcow2_fixture = Inr \<lparr>qc_cluster_bits = 9, qc_size = 512,
     qc_l1 = medium_bytes (good_medium qcow2_bytes) 512 8\<rparr>"
  by (simp add: qcow2_read_header_def qcow2_bytes_def fixture_simps sat_mul64_def push_bit_eq_mult div_ceil_def
      qcow2_max_clusters_def)

lemma qcow2_fixture_parse: "\<exists>m. qcow2_parse ''a'' qcow2_fixture = Inr m"
proof -
  have "qcow2_l2_off \<lparr>qc_cluster_bits = 9, qc_size = 512, qc_l1 = medium_bytes (good_medium qcow2_bytes) 512 8\<rparr> 0 = 1024"
    by (simp add: qcow2_l2_off_def read_medium_bytes val_medium_bytes qcow2_bytes_def l2_offset_mask_def
        qc_cluster_size_def push_bit_eq_mult)
  then show ?thesis
    by (simp add: qcow2_parse_def qcow2_fixture_header bind_res_def qcow2_cluster_def Let_def qcow2_load_l2_def
        qc_total_clusters_def qc_cluster_size_def push_bit_eq_mult div_ceil_def fixture_read)
qed

text \<open>C4: A QEMU image serves exactly what its two-level tables say, compressed clusters included: the map
  the parser flattens with its cache of the current second-level table is the one a walk that rereads
  the table of every cluster gives.\<close>

theorem qcow2_image:
  assumes "presents backing md" "qcow2_parse path backing = Inr m" "qcow2_read_header backing = Inr h"
  shows "s_len (mapped_to_source d m) = qc_size h \<and>
    serves (mapped_to_source d m)
      (image_content d backing md (qc_size h) (qcow2_ref backing h) (qc_total_clusters h) (qc_cluster_size h))"
  using describes_serves [OF qcow2_parse_describes(1) [OF assms(2,3)], of md d]
    qcow2_parse_describes(2) [OF assms(2,3)] assms(1) by simp

theorem qcow2_image_witness:
  "\<exists>m. qcow2_parse ''a'' qcow2_fixture = Inr m \<and> s_len (mapped_to_source no_decoders m) = 512"
proof -
  obtain m where m: "qcow2_parse ''a'' qcow2_fixture = Inr m" using qcow2_fixture_parse by blast
  have "s_len (mapped_to_source no_decoders m) = 512"
    using qcow2_image [OF fixture_presents m qcow2_fixture_header, of no_decoders] by simp
  then show ?thesis using m by blast
qed

definition vmdk_bytes :: "(nat \<times> bytes) list" where
  "vmdk_bytes = [(12, [1]), (20, [1]), (44, [1]), (56, [1]), (512, [2]), (1024, [3]), (1536, [7])]"

abbreviation vmdk_fixture :: source where
  "vmdk_fixture \<equiv> medium_source (good_medium vmdk_bytes) 512 2048"

lemma vmdk_fixture_header:
  "vmdk_read_header vmdk_fixture = Inr \<lparr>vk_capacity = 1, vk_grain_size = 1, vk_grains_per_gt = 1,
     vk_gd = medium_bytes (good_medium vmdk_bytes) 512 4\<rparr>"
  by (simp add: vmdk_read_header_def vmdk_bytes_def fixture_simps sat_mul64_def div_ceil_def)

lemma vmdk_fixture_parse: "\<exists>m. vmdk_open_sparse ''a'' vmdk_fixture = Inr m"
proof -
  have "vmdk_gt_sector \<lparr>vk_capacity = 1, vk_grain_size = 1, vk_grains_per_gt = 1,
      vk_gd = medium_bytes (good_medium vmdk_bytes) 512 4\<rparr> 0 = 2"
    by (simp add: vmdk_gt_sector_def read_medium_bytes val_medium_bytes vmdk_bytes_def)
  then show ?thesis
    by (simp add: vmdk_open_sparse_def vmdk_fixture_header bind_res_def vmdk_grain_def Let_def vmdk_read_gt_def
        vk_total_grains_def vk_out_len_def vk_grain_bytes_def sat_mul64_def div_ceil_def fixture_read)
qed

text \<open>C5: A VMware sparse extent serves exactly what its grain directory and tables say, whatever the
  cache of tables holds along the way, and has the declared capacity.\<close>

theorem vmdk_image:
  assumes "presents backing md" "vmdk_open_sparse path backing = Inr m" "vmdk_read_header backing = Inr h"
  shows "s_len (mapped_to_source d m) = vk_out_len h \<and>
    serves (mapped_to_source d m)
      (image_content d backing md (vk_out_len h) (vmdk_ref backing h) (vk_total_grains h) (vk_grain_bytes h))"
  using describes_serves [OF vmdk_sparse_describes(1) [OF assms(2,3)], of md d]
    vmdk_sparse_describes(2) [OF assms(2,3)] assms(1) by simp

theorem vmdk_image_witness:
  "\<exists>m. vmdk_open_sparse ''a'' vmdk_fixture = Inr m \<and> s_len (mapped_to_source no_decoders m) = 512"
proof -
  obtain m where m: "vmdk_open_sparse ''a'' vmdk_fixture = Inr m" using vmdk_fixture_parse by blast
  have "s_len (mapped_to_source no_decoders m) = 512"
    using vmdk_image [OF fixture_presents m vmdk_fixture_header, of no_decoders] by (simp add: vk_out_len_def sat_mul64_def)
  then show ?thesis using m by blast
qed

end
