(* ===== verification/EvidenceTheorems.thy ===== *)
theory EvidenceTheorems
  imports FormatTheorems
begin

text \<open>
  The remaining formats: Microsoft VHD with its block bitmaps, Apple disk images, EnCase evidence
  files, split raw sets and VMware descriptors.
\<close>

section \<open>Microsoft VHD\<close>

definition vhd_bytes :: "(nat \<times> bytes) list" where
  "vhd_bytes = [(0, [0x63, 0x78, 0x73, 0x70, 0x61, 0x72, 0x73, 0x65]), (22, [4]), (31, [1]), (34, [2]), (1027, [3]),
     (1536, [0x80]), (2048, [7]), (2560, [0x63, 0x6F, 0x6E, 0x65, 0x63, 0x74, 0x69, 0x78]), (2614, [2]), (2623, [3])]"

abbreviation vhd_fixture :: source where
  "vhd_fixture \<equiv> medium_source (good_medium vhd_bytes) 512 3072"

lemma vhd_fixture_footer:
  "vhd_read_footer vhd_fixture = Inr \<lparr>vf_data_offset = 0, vf_current_size = 512, vf_disk_type = 3\<rparr>"
  by (simp add: vhd_read_footer_def vhd_bytes_def fixture_simps)

lemma vhd_fixture_dynamic:
  "vhd_read_dynamic vhd_fixture 0 512 = Inr \<lparr>vd_max_entries = 1, vd_block_size = 512,
     vd_bat = medium_bytes (good_medium vhd_bytes) 1024 4\<rparr>"
  by (simp add: vhd_read_dynamic_def vhd_bytes_def fixture_simps vhd_max_current_size_def sat_mul64_def)

lemma vhd_fixture_parse: "\<exists>m. vhd_parse ''a'' vhd_fixture = Inr m"
  by (simp add: vhd_parse_def vhd_fixture_footer vhd_open_dynamic_def vhd_fixture_dynamic bind_res_def vhd_block_def Let_def)

text \<open>A dynamic or differencing VHD serves exactly what its block table and the blocks' sector bitmaps
  say: a sector whose bit is set is the backing's, every other one zero, whether the parser maps a
  full block as one run or a partial one sector by sector.\<close>

theorem vhd_dynamic_image:
  assumes "presents backing md" "vhd_parse path backing = Inr m" "vhd_read_footer backing = Inr f"
    and "vf_disk_type f = 3 \<or> vf_disk_type f = 4"
    and "vhd_read_dynamic backing (vf_data_offset f) (vf_current_size f) = Inr dyn"
  shows "s_len (mapped_to_source d m) = vf_current_size f \<and>
    serves (mapped_to_source d m)
      (image_content d backing md (vf_current_size f) (vhd_ref backing dyn) (vd_max_entries dyn) (vd_block_size dyn))"
proof -
  have "vhd_open_dynamic path backing (vf_data_offset f) (vf_current_size f) = Inr m"
    using assms(2-4) by (auto simp: vhd_parse_def bind_res_def)
  note v = vhd_dynamic_describes [OF this assms(5)]
  show ?thesis using describes_serves [OF v(1), of md d] v(2) assms(1) by simp
qed

theorem vhd_dynamic_image_witness:
  "\<exists>m. vhd_parse ''a'' vhd_fixture = Inr m \<and> s_len (mapped_to_source no_decoders m) = 512"
proof -
  obtain m where m: "vhd_parse ''a'' vhd_fixture = Inr m" using vhd_fixture_parse by blast
  have "s_len (mapped_to_source no_decoders m) = 512"
    using vhd_dynamic_image [OF fixture_presents m vhd_fixture_footer, of _ no_decoders] vhd_fixture_dynamic by simp
  then show ?thesis using m by blast
qed

definition vhd_fixed_bytes :: "(nat \<times> bytes) list" where
  "vhd_fixed_bytes = [(0, [7]), (512, [0x63, 0x6F, 0x6E, 0x65, 0x63, 0x74, 0x69, 0x78]), (566, [2]), (575, [2])]"

abbreviation vhd_fixed_fixture :: source where
  "vhd_fixed_fixture \<equiv> medium_source (good_medium vhd_fixed_bytes) 512 1024"

lemma vhd_fixed_fixture_footer:
  "vhd_read_footer vhd_fixed_fixture = Inr \<lparr>vf_data_offset = 0, vf_current_size = 512, vf_disk_type = 2\<rparr>"
  by (simp add: vhd_read_footer_def vhd_fixed_bytes_def fixture_simps)

text \<open>A fixed VHD opens and is the file's prefix of the footer's size, byte for byte, with unreadable
  sectors of the file unreadable in the image.\<close>

theorem vhd_fixed_image:
  assumes "presents backing md" "vhd_read_footer backing = Inr f" "vf_disk_type f = 2"
  shows "\<exists>m. vhd_parse path backing = Inr m \<and> s_len (mapped_to_source d m) = vf_current_size f \<and>
    serves (mapped_to_source d m)
      (\<lambda>off. if off < vf_current_size f \<and> good_byte backing md off then Some (md_byte md off) else None)"
proof -
  obtain m where m: "vhd_parse path backing = Inr m" "mapped_wf m" "mp_backing m = backing"
    "mp_out_len m = vf_current_size f" "segs_view (mp_segs m) = map BackingByte [0..<vf_current_size f]"
    using vhd_fixed_view [OF assms(2,3)] by blast
  have "mapped_view d m md = (\<lambda>off. if off < vf_current_size f \<and> good_byte backing md off then Some (md_byte md off) else None)"
    by (intro ext) (simp add: mapped_view_def m ref_byte_def)
  then show ?thesis
    using mapped_serves [of m md d "dc_new decode_cache_blocks"] m assms(1)
    by (auto simp: mapped_to_source_def mapped_as_source_def)
qed

theorem vhd_fixed_image_witness:
  "\<exists>m. vhd_parse ''a'' vhd_fixed_fixture = Inr m \<and> s_len (mapped_to_source no_decoders m) = 512"
  using vhd_fixed_image [OF fixture_presents vhd_fixed_fixture_footer, of "''a''" no_decoders] by auto

section \<open>Apple disk images\<close>

text \<open>The property list decoder inverts standard base64, padding included, and skips any byte outside the
  alphabet (line breaks and indentation) wherever it stands before the padding.\<close>

theorem base64_inverts:
  "base64_decode (base64_encode bs) = bs \<and>
   (b64_val w = None \<and> w \<noteq> 0x3D \<longrightarrow> base64_decode (xs @ w # ys) = base64_decode (xs @ ys))"
  using base64_decode_encode base64_loop_skip by (simp add: base64_decode_def)

theorem base64_inverts_witness:
  "base64_decode (base64_encode [1, 2, 3, 4]) = [1, 2, 3, 4] \<and> base64_decode ([0x41, 0x41] @ 0x0A # [0x41]) = base64_decode [0x41, 0x41, 0x41]"
proof -
  have "b64_val 0x0A = None" by (simp add: b64_val_def)
  then show ?thesis using base64_inverts [of "[1, 2, 3, 4]" "0x0A" "[0x41, 0x41]" "[0x41]"] by simp
qed

text \<open>A table of one raw chunk of one sector, declared one sector into the image.\<close>

definition chunk_table :: bytes where
  "chunk_table = medium_bytes (good_medium [(207, [1]), (219, [1]), (227, [1])]) 0 244"

lemma chunk_table_fields:
  "be_u32 chunk_table 204 = Some 1" "be_u64 chunk_table 220 = Some 1" "be_u64 chunk_table 212 = Some 1"
  "be_u64 chunk_table 228 = Some 0" "be_u64 chunk_table 236 = Some 0" "be_u64 chunk_table 8 = Some 0" "be_u64 chunk_table 24 = Some 0"
  by (simp_all add: chunk_table_def read_medium_bytes val_medium_bytes)

text \<open>The step over that table, from a map of \<open>n\<close> zero bytes.\<close>

lemma chunk_table_step:
  assumes "n < 1000000"
  shows "\<exists>s'. dmg_chunk 0 chunk_table 0 (sm_push sm_new n PZero, 0) = Continue s' \<and> sm_out_len (fst s') < u64_max"
  using assms
  by (auto simp: dmg_chunk_def chunk_table_fields Let_def dmg_max_chunks_def sat_mul64_def sat_add64_def sm_pad_def sm_push_def
      sm_append_def sm_new_def sm_grow_last_def sm_out_len_def dmg_piece_def)

lemma zero_map_wf: "n < 1000000 \<Longrightarrow> sm_wf (sm_push sm_new n PZero) \<and> sm_out_len (sm_push sm_new n PZero) = n"
  by (simp add: sm_push_def sm_append_def sm_new_def sm_wf_def sm_out_len_def sat_add64_def)

text \<open>A chunk of a disk image's block table that lies at or past the end of the map so far is
  placed where the table says: the bytes before stay, the gap up to its declared offset reads as
  zeros, and its bytes follow.\<close>

theorem dmg_chunk_place:
  assumes "sm_wf (fst s)" "dmg_chunk data_fork t i s = Continue s'" "sm_out_len (fst s') < u64_max"
    and "be_u32 t (204 + i * 40) = Some etype" "etype \<noteq> 0xFFFFFFFF" "etype \<noteq> 0x7FFFFFFE"
    and "be_u64 t (204 + i * 40 + 16) = Some cnt" "0 < cnt"
    and "want = sat_mul64 (sat_add64 (unwrap_or (be_u64 t 8) 0) (unwrap_or (be_u64 t (204 + i * 40 + 8)) 0)) 512"
    and "pos = sat_add64 (sat_add64 data_fork (unwrap_or (be_u64 t 24) 0)) (unwrap_or (be_u64 t (204 + i * 40 + 24)) 0)"
    and "sm_out_len (fst s) \<le> want"
  shows "sm_wf (fst s') \<and>
    take (sm_out_len (fst s)) (segs_view (sm_segs (fst s'))) = segs_view (sm_segs (fst s)) \<and>
    take (want - sm_out_len (fst s)) (drop (sm_out_len (fst s)) (segs_view (sm_segs (fst s')))) = replicate (want - sm_out_len (fst s)) ZeroByte \<and>
    drop want (segs_view (sm_segs (fst s')))
      = piece_refs (dmg_piece etype pos (unwrap_or (be_u64 t (204 + i * 40 + 32)) 0)) (sat_mul64 cnt 512)"
proof -
  have len: "length (segs_view (sm_segs (fst s))) = sm_out_len (fst s)" using assms(1) by (simp add: sm_wf_def sm_out_len_def)
  show ?thesis
    using dmg_chunk_extends(1,3) [OF assms(1-3)] assms(4-11) len by simp
qed

theorem dmg_chunk_place_witness:
  "\<exists>s'. dmg_chunk 0 chunk_table 0 (sm_push sm_new 0 PZero, 0) = Continue s' \<and>
    drop 512 (segs_view (sm_segs (fst s'))) = piece_refs (PRaw 0) 512"
proof -
  obtain s' where s': "dmg_chunk 0 chunk_table 0 (sm_push sm_new 0 PZero, 0) = Continue s'" "sm_out_len (fst s') < u64_max"
    using chunk_table_step [of 0] by auto
  have "drop 512 (segs_view (sm_segs (fst s'))) = piece_refs (PRaw 0) 512"
    using dmg_chunk_place [OF _ s', of 1 1 512 0] zero_map_wf [of 0]
    by (simp add: chunk_table_fields sat_mul64_def sat_add64_def dmg_piece_def)
  then show ?thesis using s'(1) by blast
qed

text \<open>A chunk declared to start before the end of the map so far is not placed there: its bytes are
  appended at the end of the map, so they and every later chunk of the table are displaced, without
  an error.\<close>

theorem dmg_chunk_displaced:
  assumes "sm_wf (fst s)" "dmg_chunk data_fork t i s = Continue s'" "sm_out_len (fst s') < u64_max"
    and "be_u32 t (204 + i * 40) = Some etype" "etype \<noteq> 0xFFFFFFFF" "etype \<noteq> 0x7FFFFFFE"
    and "be_u64 t (204 + i * 40 + 16) = Some cnt" "0 < cnt"
    and "sat_mul64 (sat_add64 (unwrap_or (be_u64 t 8) 0) (unwrap_or (be_u64 t (204 + i * 40 + 8)) 0)) 512 < sm_out_len (fst s)"
  shows "sm_wf (fst s') \<and> segs_view (sm_segs (fst s')) = segs_view (sm_segs (fst s)) @
    piece_refs (dmg_piece etype
      (sat_add64 (sat_add64 data_fork (unwrap_or (be_u64 t 24) 0)) (unwrap_or (be_u64 t (204 + i * 40 + 24)) 0))
      (unwrap_or (be_u64 t (204 + i * 40 + 32)) 0)) (sat_mul64 cnt 512)"
  using dmg_chunk_extends(1,3) [OF assms(1-3)] assms(4-9) by simp

theorem dmg_chunk_displaced_witness:
  "\<exists>s'. dmg_chunk 0 chunk_table 0 (sm_push sm_new 2048 PZero, 0) = Continue s' \<and>
    segs_view (sm_segs (fst s')) = segs_view (sm_segs (sm_push sm_new 2048 PZero)) @ piece_refs (PRaw 0) 512"
proof -
  obtain s' where s': "dmg_chunk 0 chunk_table 0 (sm_push sm_new 2048 PZero, 0) = Continue s'" "sm_out_len (fst s') < u64_max"
    using chunk_table_step [of 2048] by auto
  have "segs_view (sm_segs (fst s')) = segs_view (sm_segs (sm_push sm_new 2048 PZero)) @ piece_refs (PRaw 0) 512"
    using dmg_chunk_displaced [OF _ s', of 1 1] zero_map_wf [of 2048]
    by (simp add: chunk_table_fields sat_mul64_def sat_add64_def dmg_piece_def)
  then show ?thesis using s'(1) by blast
qed

section \<open>EnCase evidence files\<close>

text \<open>A chunk table of an evidence file tiles what is left of the medium: the parser extends the
  segment's map by exactly the table's chunks in order, each the chunk size but for a shorter last
  one, raw or zlib-compressed as the entry's top bit says.\<close>

theorem ewf_table_tiles:
  assumes "sm_wf smap" "0 < chunk_out" "left < u64_max"
    and "sm_out_len smap + min (length (et_entries t) * chunk_out) left \<le> u64_max"
    and "for_loop (ewf_chunk chunk_out seg_len t) 0 (length (et_entries t)) (smap, tot, Some left) = Inr s'"
  shows "sm_wf (fst s') \<and> segs_view (sm_segs (fst s')) = segs_view (sm_segs smap) @
    map (\<lambda>off. ewf_ref chunk_out left seg_len t (off div chunk_out) (off mod chunk_out))
      [0..<min (length (et_entries t) * chunk_out) left]"
  using ewf_table_extends [OF assms(2,3,5)] assms(1,4) by (simp add: sm_extends_def sm_out_len_def)

theorem ewf_table_tiles_witness:
  "\<exists>s'. for_loop (ewf_chunk 2 100 \<lparr>et_base_offset = 7, et_entries = [0, 2]\<rparr>) 0 2 (sm_new, 0, Some 3) = Inr s' \<and>
    length (segs_view (sm_segs (fst s'))) = 3"
proof -
  obtain s' where s': "for_loop (ewf_chunk 2 100 \<lparr>et_base_offset = 7, et_entries = [0, 2]\<rparr>) 0
      (length (et_entries \<lparr>et_base_offset = 7, et_entries = [0, 2]\<rparr>)) (sm_new, 0, Some 3) = Inr s'"
    by (auto simp: ewf_chunk_def Let_def ewf_max_chunks_def)
  have "sm_out_len sm_new = 0" by (simp add: sm_out_len_def sm_new_def)
  then have "segs_view (sm_segs (fst s')) = segs_view (sm_segs sm_new) @
      map (\<lambda>off. ewf_ref 2 3 100 \<lparr>et_base_offset = 7, et_entries = [0, 2]\<rparr> (off div 2) (off mod 2))
      [0..<min (length (et_entries \<lparr>et_base_offset = 7, et_entries = [0, 2]\<rparr>) * 2) 3]"
    using ewf_table_tiles [OF sm_new_wf(1) _ _ _ s'] by simp
  then have "length (segs_view (sm_segs (fst s'))) = 3" by (simp only: length_append sm_new_wf(2) list.size length_map length_upt) simp
  then show ?thesis using s' by (auto simp: numeral_2_eq_2)
qed

text \<open>The walk along an evidence file's section chain cannot be led into a cycle or out of the file
  (each step goes strictly forward and stays inside), and no file makes the parser hold more than 64
  Mi chunk entries.\<close>

theorem ewf_chain_safe:
  "(case ewf_section backing i (p, tot, off) of
      Continue (p', tot', off') \<Rightarrow> off < off' \<and> off' < s_len backing | _ \<Rightarrow> True) \<and>
   (case parse_segment backing of
      Inl _ \<Rightarrow> True | Inr q \<Rightarrow> sum_list (map (\<lambda>t. length (et_entries t)) (ep_tables q)) \<le> 64 * 1024 * 1024)"
  using ewf_section_forward [of backing i p tot off] parse_segment_entries [of backing]
  by (auto simp: ewf_max_chunks_def split: flow.split sum.split)

section \<open>VMware descriptors\<close>

text \<open>C40: A VMware descriptor cannot reach outside its own directory: what opening it yields
  depends on the file system only through files whose path extends the descriptor's directory by
  plain names, so no absolute path or parent component in the descriptor is ever followed.\<close>

theorem vmdk_descriptor_confined:
  assumes "\<forall>p. below (path_parent path) p \<longrightarrow> fs p = fs' p"
  shows "vmdk_open_descriptor d fs path backing = vmdk_open_descriptor d fs' path backing"
  using vmdk_lines_confined [of "path_parent path" fs fs'] assms by (simp add: vmdk_open_descriptor_def)

theorem vmdk_descriptor_confined_witness:
  "vmdk_open_descriptor no_decoders (\<lambda>_. None) ''/a/b'' vmdk_fixture
    = vmdk_open_descriptor no_decoders ((\<lambda>_. None)(''/etc/x'' := Some [1])) ''/a/b'' vmdk_fixture"
proof -
  have "\<not> below (path_parent ''/a/b'') ''/etc/x''"
    by (simp add: below_def path_parent_def path_components_def path_is_absolute_def body_component_def)
  then show ?thesis by (intro vmdk_descriptor_confined) auto
qed

section \<open>Split raw sets\<close>

text \<open>A split set reads as its pieces end to end: an aligned read within the set returns the bytes of
  the numbered files in order (the whole sectors of each, up to the first missing number), every
  sector good.\<close>

theorem split_in_order:
  assumes "split_open fs path = Inr cc"
    and "map fs (split_chain fs path 1 100000) = map Some cs"
    and "\<forall>c \<in> set cs. length c \<le> u64_max" "length (split_bytes cs) + 512 \<le> u64_max"
    and "offset mod 512 = 0" "offset + length buf \<le> length (split_bytes cs)"
  shows "s_len (concat_as_source cc) = length (split_bytes cs) \<and>
    fst (s_read_at (concat_as_source cc) offset buf) = take (length buf) (drop offset (split_bytes cs)) \<and>
    rr_all_good (snd (s_read_at (concat_as_source cc) offset buf))"
proof -
  have sp: "healthy_source (concat_read cc) 512 (length (split_bytes cs)) (\<lambda>j. split_bytes cs ! j)"
    "cc_total cc = length (split_bytes cs)"
    using split_open_presents [OF assms(1,2)] assms(3,4) by simp_all
  have "fst (concat_read cc offset buf) = map (\<lambda>j. split_bytes cs ! (offset + j)) [0..<length buf]"
    by (rule sector_source.read_eq [OF healthy_source.axioms(1) [OF sp(1)] assms(5,6)])
  also have "\<dots> = take (length buf) (drop offset (split_bytes cs))"
    using assms(6) by (intro nth_equalityI) simp_all
  finally show ?thesis
    using healthy_source.read_all_good [OF sp(1) assms(5,6)] sp(2) by (simp add: concat_as_source_def)
qed

abbreviation two_pieces :: file_system where
  "two_pieces \<equiv> [''a.001'' \<mapsto> replicate 512 1, ''a.002'' \<mapsto> replicate 512 2]"

lemma two_pieces_chain:
  "split_piece two_pieces ''a.001'' 1 = Some ''a.001''" "split_piece two_pieces ''a.001'' (1 + 1) = Some ''a.002''"
  "split_piece two_pieces ''a.001'' (1 + 1 + 1) = None"
proof -
  have "numbered_sibling ''a.001'' 2 = Some ''a.002''" "numbered_sibling ''a.001'' 3 = Some ''a.003''" by code_simp+
  then show "split_piece two_pieces ''a.001'' 1 = Some ''a.001''" "split_piece two_pieces ''a.001'' (1 + 1) = Some ''a.002''"
    "split_piece two_pieces ''a.001'' (1 + 1 + 1) = None"
    by (simp_all add: split_piece_def is_file_def eval_nat_numeral)
qed

lemma two_pieces_open: "\<exists>cc. split_open two_pieces ''a.001'' = Inr cc"
proof -
  obtain a b where ab: "image_open two_pieces ''a.001'' = Inr a" "image_open two_pieces ''a.002'' = Inr b"
    by (simp add: image_open_def image_file_open_def)
  have small: "\<not> 100000 < (1 :: nat) + 1" "\<not> 100000 < (1 :: nat) + 1 + 1" by simp_all
  have "split_pieces two_pieces ''a.001'' 1 [] = split_pieces two_pieces ''a.001'' (1 + 1) [a]"
    by (subst split_pieces.simps) (simp only: two_pieces_chain option.case ab sum.case small if_False append_Nil)
  also have "\<dots> = split_pieces two_pieces ''a.001'' (1 + 1 + 1) [a, b]"
    by (subst split_pieces.simps) (simp only: two_pieces_chain option.case ab sum.case small if_False append_Cons append_Nil)
  also have "\<dots> = Inr [a, b]"
    by (subst split_pieces.simps) (simp only: two_pieces_chain option.case)
  finally show ?thesis by (simp add: split_open_def bind_res_def guard_container_def)
qed

theorem split_in_order_witness:
  "\<exists>cc. split_open two_pieces ''a.001'' = Inr cc \<and> fst (s_read_at (concat_as_source cc) 512 (zeros 512)) = replicate 512 2"
proof -
  obtain cc where cc: "split_open two_pieces ''a.001'' = Inr cc" using two_pieces_open by blast
  have "split_chain two_pieces ''a.001'' 1 (Suc (Suc (Suc 99997))) = [''a.001'', ''a.002'']"
    by (simp only: split_chain.simps two_pieces_chain option.case)
  moreover have "Suc (Suc (Suc 99997)) = 100000" by simp
  ultimately have "split_chain two_pieces ''a.001'' 1 100000 = [''a.001'', ''a.002'']" by (simp only:)
  then have chain: "map two_pieces (split_chain two_pieces ''a.001'' 1 100000) = map Some [replicate 512 1, replicate 512 2]"
    by (simp only:) simp
  have bytes: "split_bytes [replicate 512 1, replicate 512 2] = replicate 512 1 @ replicate 512 2"
    by (simp add: split_bytes_def)
  show ?thesis using split_in_order [OF cc chain, of 512 "zeros 512"] cc unfolding bytes by simp
qed

end
