(* ===== verification/ImageMap.thy ===== *)
theory ImageMap
  imports LbaRuns Media
begin

text \<open>
  The data of an imaging run: \<^verbatim>\<open>imaging/map.rs\<close> (the sidecar map), \<^verbatim>\<open>imaging/hash.rs\<close> (digests) and
  \<^verbatim>\<open>imaging/dest.rs\<close> (the output file). Hash functions and zstd belong to other crates: they are
  the fields of \<open>crates\<close>. The operating system's answers to writes are parameters of the writing
  operations. The map's JSON text is not modelled: a map file is absent, unreadable or holds a map.
\<close>

section \<open>Algorithms\<close>

datatype hash_algo = Blake3 | Sha256

datatype compression = NoCompression | Zstd

definition ascii_lower :: "string \<Rightarrow> string" where
  "ascii_lower s = map (\<lambda>c. let n = of_char c :: nat in if 65 \<le> n \<and> n \<le> 90 then char_of (n + 32) else c) s"

definition hash_algo_parse :: "string \<Rightarrow> hash_algo option" where
  "hash_algo_parse s =
     (let l = ascii_lower s
      in if l = ''blake3'' \<or> l = ''b3'' then Some Blake3
         else if l = ''sha256'' \<or> l = ''sha-256'' then Some Sha256
         else None)"

definition hash_algo_label :: "hash_algo \<Rightarrow> string" where
  "hash_algo_label a = (case a of Blake3 \<Rightarrow> ''blake3'' | Sha256 \<Rightarrow> ''sha256'')"

text \<open>What the code takes from other crates: the digest of a byte string as hexadecimal text, and
  zstd's bulk compression and decompression (the latter with a bound on the result).\<close>

record crates =
  cr_hash :: "hash_algo \<Rightarrow> bytes \<Rightarrow> string"
  cr_compress :: "bytes \<Rightarrow> bytes option"
  cr_decompress :: "bytes \<Rightarrow> nat \<Rightarrow> bytes option"

text \<open>A streaming hasher is the algorithm and the bytes fed to it.\<close>

record digest =
  dg_algo :: hash_algo
  dg_fed :: bytes

definition digest_new :: "hash_algo \<Rightarrow> digest" where
  "digest_new algo = \<lparr>dg_algo = algo, dg_fed = []\<rparr>"

definition digest_update :: "digest \<Rightarrow> bytes \<Rightarrow> digest" where
  "digest_update d data = d\<lparr>dg_fed := dg_fed d @ data\<rparr>"

definition finalize_hex :: "crates \<Rightarrow> digest \<Rightarrow> string" where
  "finalize_hex cr d = cr_hash cr (dg_algo d) (dg_fed d)"

definition hash_bytes :: "crates \<Rightarrow> hash_algo \<Rightarrow> bytes \<Rightarrow> string" where
  "hash_bytes cr algo data = finalize_hex cr (digest_update (digest_new algo) data)"

lemma hash_bytes_eq [simp]: "hash_bytes cr algo data = cr_hash cr algo data"
  by (simp add: hash_bytes_def digest_new_def digest_update_def finalize_hex_def)

section \<open>The sidecar map\<close>

record frame_entry =
  fe_image_offset :: nat
  fe_file_offset :: nat
  fe_uncompressed :: nat
  fe_compressed :: nat

record image_map =
  im_version :: nat
  im_source_id :: string
  im_size :: nat
  im_sector_size :: nat
  im_chunk_size :: nat
  im_hash_algo :: hash_algo
  im_compression :: compression
  im_frames :: "frame_entry list"
  im_chunk_hashes :: "string option list"
  im_whole_hash :: "string option"
  im_bad :: "lba_range list"
  im_unread :: "lba_range list"
  im_complete :: bool
  im_first_mib_hash :: "string option"
  im_last_mib_hash :: "string option"

definition image_map_new :: "string \<Rightarrow> nat \<Rightarrow> nat \<Rightarrow> nat \<Rightarrow> hash_algo \<Rightarrow> compression \<Rightarrow> image_map" where
  "image_map_new source_id isize sector_size chunk_size algo cm =
     (let num = div_ceil isize (max chunk_size 1)
      in \<lparr>im_version = 1, im_source_id = source_id, im_size = isize, im_sector_size = sector_size,
          im_chunk_size = chunk_size, im_hash_algo = algo, im_compression = cm, im_frames = [],
          im_chunk_hashes = replicate num None, im_whole_hash = None, im_bad = [], im_unread = [],
          im_complete = False, im_first_mib_hash = None, im_last_mib_hash = None\<rparr>)"

definition num_chunks :: "image_map \<Rightarrow> nat" where
  "num_chunks m = length (im_chunk_hashes m)"

definition is_chunk_done :: "image_map \<Rightarrow> nat \<Rightarrow> bool" where
  "is_chunk_done m i = (case get_at (im_chunk_hashes m) i of Some (Some _) \<Rightarrow> True | _ \<Rightarrow> False)"

definition im_bad_sectors :: "image_map \<Rightarrow> nat" where
  "im_bad_sectors m = sum_list (map lr_count (im_bad m)) mod u64_size"

lemma is_chunk_done_iff: "is_chunk_done m i \<longleftrightarrow> i < num_chunks m \<and> im_chunk_hashes m ! i \<noteq> None"
  by (auto simp: is_chunk_done_def num_chunks_def get_at_def split: option.splits)

text \<open>The map file next to the image. A save writes a temporary file and renames it, so a save that
  fails leaves the file as it was.\<close>

datatype map_file = NoMap | BadMap | SavedMap image_map

definition im_save :: "bool \<Rightarrow> image_map \<Rightarrow> map_file \<Rightarrow> map_file" where
  "im_save accepted m old = (if accepted then SavedMap m else old)"

section \<open>The output file\<close>

text \<open>What a path holds: a regular file, or anything else (a device node, a directory, a symbolic
  link).\<close>

datatype node = Regular bytes | NotRegular

datatype io_error =
    RefusedDestination
  | NoDestination
  | WriteError
  | CompressError
  | SaveError
  | ResumeError string

text \<open>How the system takes a write: all of it, or an error after a prefix.\<close>

datatype write_outcome = Accepted | CutAfter nat

record image_dest =
  id_file :: bytes
  id_compression :: compression
  id_sparse :: bool
  id_append_cursor :: nat
  id_frames :: "frame_entry list"

definition refuse_non_regular :: "node option \<Rightarrow> bool" where
  "refuse_non_regular n = (case n of Some NotRegular \<Rightarrow> True | _ \<Rightarrow> False)"

definition dest_create :: "node option \<Rightarrow> compression \<Rightarrow> bool \<Rightarrow> io_error + image_dest" where
  "dest_create n cm sparse =
     (if refuse_non_regular n then Inl RefusedDestination
      else Inr \<lparr>id_file = [], id_compression = cm, id_sparse = sparse, id_append_cursor = 0, id_frames = []\<rparr>)"

definition append_start :: "compression \<Rightarrow> frame_entry list \<Rightarrow> nat" where
  "append_start cm frames =
     (case cm of
        NoCompression \<Rightarrow> 0
      | Zstd \<Rightarrow> foldl max 0 (map (\<lambda>f. wadd64 (fe_file_offset f) (fe_compressed f)) frames))"

definition dest_open_append :: "node option \<Rightarrow> compression \<Rightarrow> bool \<Rightarrow> frame_entry list \<Rightarrow> io_error + image_dest" where
  "dest_open_append n cm sparse frames =
     (if refuse_non_regular n then Inl RefusedDestination
      else case n of
        Some (Regular f) \<Rightarrow>
          Inr \<lparr>id_file = f, id_compression = cm, id_sparse = sparse,
            id_append_cursor = append_start cm frames, id_frames = frames\<rparr>
      | _ \<Rightarrow> Inl NoDestination)"

text \<open>Writing at an offset extends the file, with zeros up to the offset.\<close>

definition write_at :: "bytes \<Rightarrow> nat \<Rightarrow> bytes \<Rightarrow> bytes" where
  "write_at f off data =
     (if data = [] then f else blit (f @ zeros (off + length data - length f)) off data)"

definition put_bytes :: "write_outcome \<Rightarrow> bytes \<Rightarrow> nat \<Rightarrow> bytes \<Rightarrow> bool \<times> bytes" where
  "put_bytes w f off data =
     (case w of
        Accepted \<Rightarrow> (True, write_at f off data)
      | CutAfter k \<Rightarrow> (False, write_at f off (take k data)))"

definition u32_or_max :: "nat \<Rightarrow> nat" where
  "u32_or_max n = min n 4294967295"

definition write_chunk ::
  "crates \<Rightarrow> write_outcome \<Rightarrow> nat \<Rightarrow> bytes \<Rightarrow> image_dest \<Rightarrow> io_error option \<times> image_dest" where
  "write_chunk cr w image_offset data d =
     (case id_compression d of
        NoCompression \<Rightarrow>
          if id_sparse d \<and> list_all (\<lambda>b. b = 0) data then (None, d)
          else (let p = put_bytes w (id_file d) image_offset data
                in (if fst p then None else Some WriteError, d\<lparr>id_file := snd p\<rparr>))
      | Zstd \<Rightarrow>
          case cr_compress cr data of
            None \<Rightarrow> (Some CompressError, d)
          | Some compressed \<Rightarrow>
              (let file_offset = id_append_cursor d;
                   p = put_bytes w (id_file d) file_offset compressed
               in if fst p
                  then (None, d\<lparr>id_file := snd p,
                    id_append_cursor := wadd64 file_offset (length compressed),
                    id_frames := id_frames d @ [\<lparr>fe_image_offset = image_offset, fe_file_offset = file_offset,
                      fe_uncompressed = u32_or_max (length data), fe_compressed = u32_or_max (length compressed)\<rparr>]\<rparr>)
                  else (Some WriteError, d\<lparr>id_file := snd p\<rparr>)))"

text \<open>\<^verbatim>\<open>set_len\<close>: cut the file or extend it with zeros, raw output only.\<close>

definition set_logical_len :: "nat \<Rightarrow> image_dest \<Rightarrow> image_dest" where
  "set_logical_len n d =
     (if id_compression d = NoCompression then d\<lparr>id_file := take n (id_file d) @ zeros (n - length (id_file d))\<rparr>
      else d)"

section \<open>Bytes of an output file\<close>

text \<open>A file's byte, zero where the file has a hole or has ended.\<close>

definition file_byte :: "bytes \<Rightarrow> nat \<Rightarrow> byte" where
  "file_byte f j = (if j < length f then f ! j else 0)"

definition file_range :: "bytes \<Rightarrow> nat \<Rightarrow> nat \<Rightarrow> bytes" where
  "file_range f off n = map (\<lambda>j. file_byte f (off + j)) [0..<n]"

lemma length_file_range [simp]: "length (file_range f off n) = n"
  by (simp add: file_range_def)

lemma nth_file_range [simp]: "j < n \<Longrightarrow> file_range f off n ! j = file_byte f (off + j)"
  by (simp add: file_range_def)

lemma file_byte_write_at:
  "file_byte (write_at f off data) j
    = (if off \<le> j \<and> j < off + length data then data ! (j - off) else file_byte f j)"
proof (cases "data = []")
  case False
  then show ?thesis by (auto simp: write_at_def file_byte_def nth_blit nth_append)
qed (auto simp: write_at_def)

lemma file_byte_set_len:
  "id_compression d = NoCompression \<Longrightarrow>
    file_byte (id_file (set_logical_len n d)) j = (if j < n then file_byte (id_file d) j else 0)"
  by (auto simp: set_logical_len_def file_byte_def nth_append min_def)

lemma length_set_len: "id_compression d = NoCompression \<Longrightarrow> length (id_file (set_logical_len n d)) = n"
  by (simp add: set_logical_len_def)

lemma file_range_eqI:
  "(\<And>j. off \<le> j \<Longrightarrow> j < off + n \<Longrightarrow> file_byte f j = file_byte g j) \<Longrightarrow> file_range f off n = file_range g off n"
  by (intro nth_equalityI) simp_all

text \<open>A raw chunk, once accepted, is in the file: written, or skipped where the file is zero anyway.\<close>

lemma write_chunk_raw:
  assumes "id_compression d = NoCompression" "id_sparse d \<longrightarrow> (\<forall>j. off \<le> j \<and> j < off + length data \<longrightarrow> file_byte (id_file d) j = 0)"
    and "write_chunk cr w off data d = (e, d')"
  shows "\<And>j. j < off \<or> off + length data \<le> j \<Longrightarrow> file_byte (id_file d') j = file_byte (id_file d) j"
    and "e = None \<Longrightarrow> file_range (id_file d') off (length data) = data"
    and "id_compression d' = NoCompression" "id_sparse d' = id_sparse d"
proof -
  have skip: "file_range (id_file d) off (length data) = data"
    if "id_sparse d" "list_all (\<lambda>b. b = 0) data"
    using that assms(2) by (intro nth_equalityI) (auto simp: list_all_length)
  have put: "file_range (snd (put_bytes Accepted (id_file d) off data)) off (length data) = data"
    by (intro nth_equalityI) (simp_all add: put_bytes_def file_byte_write_at)
  show "file_byte (id_file d') j = file_byte (id_file d) j" if "j < off \<or> off + length data \<le> j" for j
    using assms(1,3) that
    by (auto simp: write_chunk_def put_bytes_def Let_def file_byte_write_at split: if_splits write_outcome.splits)
  show "e = None \<Longrightarrow> file_range (id_file d') off (length data) = data"
    using assms(1,3) skip put
    by (cases w) (auto simp: write_chunk_def put_bytes_def Let_def split: if_splits)
  show "id_compression d' = NoCompression" "id_sparse d' = id_sparse d"
    using assms(1,3) by (auto simp: write_chunk_def Let_def split: if_splits)
qed

end
