(* ===== verification/MappedImage.thy ===== *)
theory MappedImage
  imports ImageMap
begin

text \<open>
  \<^verbatim>\<open>imaging/mapped.rs\<close>: an image file and its sidecar map read back as a block source. Sectors the
  map records as bad are bad, sectors of chunks that were never completed are unread.
\<close>

record mapped_image =
  mi_file :: bytes
  mi_map :: image_map
  mi_frames :: "frame_entry list"
  mi_bad :: "lba_range list"
  mi_unread :: "lba_range list"

definition mapped_image_open :: "bytes \<Rightarrow> image_map \<Rightarrow> mapped_image" where
  "mapped_image_open file m =
     \<lparr>mi_file = file, mi_map = m, mi_frames = sort_key fe_image_offset (im_frames m),
      mi_bad = coalesce (im_bad m), mi_unread = coalesce (im_unread m)\<rparr>"

text \<open>One sector's status from the map.\<close>

definition overlay_sector :: "mapped_image \<Rightarrow> nat \<Rightarrow> nat \<Rightarrow> nat \<Rightarrow> nat \<Rightarrow> read_result \<Rightarrow> read_result" where
  "overlay_sector mi ss cs offset i res =
     (let lba = sat_add64 (offset div ss) i;
          chunk = sat_mul64 lba ss div cs
      in if in_ranges (mi_bad mi) lba then rr_mark_bad res i
         else if in_ranges (mi_unread mi) lba \<or> \<not> is_chunk_done (mi_map mi) chunk then rr_mark_unread res i
         else res)"

definition overlay_status :: "mapped_image \<Rightarrow> nat \<Rightarrow> read_result \<Rightarrow> read_result" where
  "overlay_status mi offset res =
     (let ss = max (im_sector_size (mi_map mi)) 1; cs = max (im_chunk_size (mi_map mi)) 1
      in fold (overlay_sector mi ss cs offset) [0..<rr_sector_count res] res)"

text \<open>The part of a request that one zstd frame serves: its bytes are fetched, decompressed and the
  overlap with the request copied. A frame that cannot be read or decoded is skipped.\<close>

definition read_frame :: "crates \<Rightarrow> bytes \<Rightarrow> nat \<Rightarrow> nat \<Rightarrow> frame_entry \<Rightarrow> bytes \<Rightarrow> bytes" where
  "read_frame cr file offset want_end fr buf =
     (let f_start = fe_image_offset fr;
          f_end = wadd64 (fe_image_offset fr) (fe_uncompressed fr)
      in if f_end \<le> offset \<or> want_end \<le> f_start then buf
         else case cr_decompress cr (file_range file (fe_file_offset fr) (fe_compressed fr)) (fe_uncompressed fr) of
           None \<Rightarrow> buf
         | Some plain \<Rightarrow>
             (let copy_start = max offset f_start; copy_end = min want_end f_end
              in if copy_end \<le> copy_start then buf
                 else let src_off = copy_start - f_start; dst_off = copy_start - offset; n = copy_end - copy_start
                   in case get_slice plain src_off (src_off + n) of
                        None \<Rightarrow> buf
                      | Some src \<Rightarrow> blit_checked buf dst_off src))"

definition read_zstd :: "crates \<Rightarrow> mapped_image \<Rightarrow> nat \<Rightarrow> bytes \<Rightarrow> bytes" where
  "read_zstd cr mi offset buf =
     (let want_end = sat_add64 offset (length buf)
      in fold (read_frame cr (mi_file mi) offset want_end) (mi_frames mi) (zeros (length buf)))"

text \<open>\<^verbatim>\<open>read_file_at\<close> on a regular file whose recorded length is \<open>len\<close>.\<close>

definition sized_file_read :: "bytes \<Rightarrow> nat \<Rightarrow> nat \<Rightarrow> read_fn" where
  "sized_file_read c len ss offset buf = the (read_file_at (whole_pread c) len ss offset buf)"

definition mapped_image_read :: "crates \<Rightarrow> mapped_image \<Rightarrow> read_fn" where
  "mapped_image_read cr mi offset buf =
     (let ss = max (im_sector_size (mi_map mi)) 1;
          count = div_ceil (length buf) ss;
          res = rr_good ss count
      in if offset mod ss \<noteq> 0 then (zeros (length buf), mark_bads [0..<count] res)
         else case im_compression (mi_map mi) of
           NoCompression \<Rightarrow>
             (let r = sized_file_read (mi_file mi) (im_size (mi_map mi)) ss offset buf
              in (fst r, overlay_status mi offset (mark_bads (rr_bad_sectors (snd r)) res)))
         | Zstd \<Rightarrow> (read_zstd cr mi offset buf, overlay_status mi offset res))"

definition mapped_image_source :: "crates \<Rightarrow> mapped_image \<Rightarrow> source" where
  "mapped_image_source cr mi =
     \<lparr>s_len = im_size (mi_map mi), s_sector_size = max (im_sector_size (mi_map mi)) 1,
      s_physical_sector_size = max (im_sector_size (mi_map mi)) 1,
      s_read_at = mapped_image_read cr mi, s_id = ''mapped:'' @ im_source_id (mi_map mi)\<rparr>"

section \<open>Reading the file\<close>

lemma whole_fill_any:
  assumes "avail \<le> length buf"
  shows "fill_from_file (whole_pread c) 0 off avail 0 buf
    = Some (min avail (length c - off), blit buf 0 (take avail (drop off c)))"
proof (cases "avail = 0 \<or> length c \<le> off")
  case True
  then show ?thesis by (subst fill_from_file.simps) (auto simp: whole_pread_def)
next
  case False
  let ?bs = "take avail (drop off c)"
  have bs: "?bs \<noteq> []" "length ?bs = min avail (length c - off)" using False by auto
  have tail: "fill_from_file (whole_pread c) 1 off avail (length ?bs) b = Some (length ?bs, b)" for b
    by (subst fill_from_file.simps) (auto simp: whole_pread_def min_def)
  show ?thesis
    using False bs tail by (subst fill_from_file.simps) (simp add: whole_pread_def)
qed

lemma sized_file_read_bytes:
  assumes "0 < ss" "off mod ss = 0" "off + length buf \<le> len" "length buf \<le> u64_max"
  shows "fst (sized_file_read c len ss off buf) = file_range c off (length buf)"
    and "rr_shape ss (div_ceil (length buf) ss) (snd (sized_file_read c len ss off buf))"
    and "i < div_ceil (length buf) ss \<Longrightarrow> rr_status (snd (sized_file_read c len ss off buf)) i
      = (if length c < off + min (Suc i * ss) (length buf) then Bad else Good)"
proof -
  let ?n = "min (length buf) (length c - off)"
  have "fst (sized_file_read c len ss off buf) = file_range c off (length buf) \<and>
    rr_shape ss (div_ceil (length buf) ss) (snd (sized_file_read c len ss off buf)) \<and>
    (i < div_ceil (length buf) ss \<longrightarrow> rr_status (snd (sized_file_read c len ss off buf)) i
      = (if length c < off + min (Suc i * ss) (length buf) then Bad else Good))"
  proof (cases "buf = []")
    case True
    then show ?thesis by (simp add: sized_file_read_def read_file_at_def rr_simps file_range_def)
  next
    case False
    have av: "min (length buf) (len - off) = length buf" "\<not> len \<le> off" using assms(3) False by (cases buf; simp)+
    have rd: "sized_file_read c len ss off buf = (blit (zeros (length buf)) 0 (take (length buf) (drop off c)),
        mark_bad_from_byte (rr_good ss (div_ceil (length buf) ss)) ss (length buf) ?n)"
      using False assms(2) av by (simp add: sized_file_read_def read_file_at_def Let_def whole_fill_any)
    have bytes: "blit (zeros (length buf)) 0 (take (length buf) (drop off c)) = file_range c off (length buf)"
      by (rule nth_equalityI) (auto simp: nth_blit file_byte_def)
    have "rr_status (snd (sized_file_read c len ss off buf)) i = (if length c < off + min (Suc i * ss) (length buf) then Bad else Good)"
      if "i < div_ceil (length buf) ss"
    proof -
      have "0 < min (Suc i * ss) (length buf)" using assms(1) False by simp
      then have "?n < min (Suc i * ss) (length buf) \<longleftrightarrow> length c < off + min (Suc i * ss) (length buf)" by linarith
      then show ?thesis using that
        by (simp add: rd status_mark_bad_from_byte [OF rr_shape_good assms(1,4)] rr_status_good)
    qed
    then show ?thesis by (simp add: rd bytes rr_simps)
  qed
  then show "fst (sized_file_read c len ss off buf) = file_range c off (length buf)"
    and "rr_shape ss (div_ceil (length buf) ss) (snd (sized_file_read c len ss off buf))"
    and "i < div_ceil (length buf) ss \<Longrightarrow> rr_status (snd (sized_file_read c len ss off buf)) i
      = (if length c < off + min (Suc i * ss) (length buf) then Bad else Good)" by blast+
qed

section \<open>The map's statuses over the file's\<close>

definition overlay_effect :: "mapped_image \<Rightarrow> nat \<Rightarrow> nat \<Rightarrow> nat \<Rightarrow> nat \<Rightarrow> sector_status \<Rightarrow> sector_status" where
  "overlay_effect mi ss cs offset i st =
     (let lba = sat_add64 (offset div ss) i; chunk = sat_mul64 lba ss div cs
      in if st = Bad \<or> in_ranges (mi_bad mi) lba then Bad
         else if st = Unread \<or> in_ranges (mi_unread mi) lba \<or> \<not> is_chunk_done (mi_map mi) chunk then Unread
         else Good)"

lemma overlay_sector_status:
  assumes "rr_shape s n r" "i < n"
  shows "rr_shape s n (overlay_sector mi ss cs offset i r)"
    and "rr_status (overlay_sector mi ss cs offset i r) j
      = (if j = i then overlay_effect mi ss cs offset i (rr_status r i) else rr_status r j)"
  using assms rr_status_mark_bad [OF assms(1), of i j] rr_status_mark_unread [OF assms(1), of i j]
  by (cases "rr_status r i"; auto simp: overlay_sector_def overlay_effect_def Let_def rr_simps)+

lemma overlay_sectors_status:
  assumes "rr_shape s n r" "k \<le> n"
  shows "rr_shape s n (fold (overlay_sector mi ss cs offset) [0..<k] r) \<and>
    (\<forall>j. rr_status (fold (overlay_sector mi ss cs offset) [0..<k] r) j
      = (if j < k then overlay_effect mi ss cs offset j (rr_status r j) else rr_status r j))"
  using assms(2)
proof (induction k)
  case (Suc k)
  then show ?case using overlay_sector_status [of s n _ k mi ss cs offset] by (simp add: less_Suc_eq)
qed (simp add: assms(1))

lemma overlay_status_ok:
  assumes "rr_shape s n r" "j < n"
  shows "rr_shape s n (overlay_status mi offset r)"
    and "rr_status (overlay_status mi offset r) j
      = overlay_effect mi (max (im_sector_size (mi_map mi)) 1) (max (im_chunk_size (mi_map mi)) 1) offset j (rr_status r j)"
  using overlay_sectors_status [OF assms(1) order.refl] assms
  by (simp_all add: overlay_status_def Let_def rr_shape_def)

text \<open>The status of a sector of a raw image: the map's record, the file's extent, the chunks done.\<close>

definition imaged_status :: "image_map \<Rightarrow> bytes \<Rightarrow> nat \<Rightarrow> nat \<Rightarrow> sector_status" where
  "imaged_status m f l stop =
     (if runs_contain (im_bad m) l \<or> length f < stop then Bad
      else if runs_contain (im_unread m) l \<or> \<not> is_chunk_done m (l * im_sector_size m div max (im_chunk_size m) 1) then Unread
      else Good)"

lemma mapped_image_read_raw:
  assumes raw: "im_compression m = NoCompression" and ss: "0 < im_sector_size m" "off mod im_sector_size m = 0"
    and len: "off + length buf \<le> im_size m" "im_size m \<le> u64_max"
  shows "fst (mapped_image_read cr (mapped_image_open f m) off buf) = file_range f off (length buf)"
    and "rr_shape (im_sector_size m) (div_ceil (length buf) (im_sector_size m)) (snd (mapped_image_read cr (mapped_image_open f m) off buf))"
    and "runs_in_range (im_bad m) \<Longrightarrow> runs_in_range (im_unread m) \<Longrightarrow> i < div_ceil (length buf) (im_sector_size m) \<Longrightarrow>
      rr_status (snd (mapped_image_read cr (mapped_image_open f m) off buf)) i
        = imaged_status m f (off div im_sector_size m + i) (off + min (Suc i * im_sector_size m) (length buf))"
proof -
  let ?ss = "im_sector_size m" and ?mi = "mapped_image_open f m"
  let ?n = "div_ceil (length buf) ?ss" and ?r = "sized_file_read f (im_size m) ?ss off buf"
  let ?res = "mark_bads (rr_bad_sectors (snd ?r)) (rr_good ?ss ?n)"
  have buf: "length buf \<le> u64_max" using len by simp
  note sized = sized_file_read_bytes [OF ss len(1) buf, where c = f]
  have rd: "mapped_image_read cr ?mi off buf = (fst ?r, overlay_status ?mi off ?res)"
    using raw ss by (simp add: mapped_image_read_def mapped_image_open_def Let_def)
  have shape: "rr_shape ?ss ?n ?res" by (simp add: rr_simps)
  have over: "rr_shape ?ss ?n (overlay_status ?mi off ?res)"
    using overlay_sectors_status [OF shape order.refl] shape by (simp add: overlay_status_def Let_def rr_shape_def)
  show "fst (mapped_image_read cr ?mi off buf) = file_range f off (length buf)" by (simp add: rd sized(1))
  show "rr_shape ?ss ?n (snd (mapped_image_read cr ?mi off buf))" by (simp add: rd over)
  show "rr_status (snd (mapped_image_read cr ?mi off buf)) i
      = imaged_status m f (off div ?ss + i) (off + min (Suc i * ?ss) (length buf))"
    if range: "runs_in_range (im_bad m)" "runs_in_range (im_unread m)" and i: "i < ?n"
  proof -
    let ?l = "off div ?ss + i"
    have st: "rr_status ?res i = (if length f < off + min (Suc i * ?ss) (length buf) then Bad else Good)"
      using i sized(3) [OF i] by (simp add: rr_status_mark_bads [OF rr_shape_good] set_rr_bad_sectors rr_status_good)
    have "i * ?ss < length buf" using i ss(1) by (simp add: less_div_ceil)
    moreover have "off = off div ?ss * ?ss" using ss(2) by auto
    ultimately have l: "?l * ?ss < im_size m" using len by (simp add: algebra_simps)
    have b: "?l * ?ss \<le> u64_max" by (rule less_imp_le [OF less_le_trans [OF l len(2)]])
    have "?l \<le> ?l * ?ss" using ss(1) by simp
    then have "?l \<le> u64_max" using b by (rule order.trans)
    then have exact: "sat_add64 (off div ?ss) i = ?l" "sat_mul64 ?l ?ss = ?l * ?ss"
      using b by (simp_all only: sat_add64_exact sat_mul64_exact)
    have fields: "mi_map ?mi = m" "mi_bad ?mi = coalesce (im_bad m)" "mi_unread ?mi = coalesce (im_unread m)"
      by (simp_all add: mapped_image_open_def)
    have max1: "max ?ss 1 = ?ss" using ss(1) by simp
    have "rr_status (overlay_status ?mi off ?res) i
        = overlay_effect ?mi ?ss (max (im_chunk_size m) 1) off i (rr_status ?res i)"
      using overlay_status_ok(2) [OF shape i, of ?mi off] unfolding fields max1 .
    moreover have "overlay_effect ?mi ?ss (max (im_chunk_size m) 1) off i (rr_status ?res i)
        = imaged_status m f ?l (off + min (Suc i * ?ss) (length buf))"
      unfolding overlay_effect_def exact Let_def fields st imaged_status_def
        in_ranges_coalesce [OF range(1)] in_ranges_coalesce [OF range(2)]
      by (cases "length f < off + min (Suc i * ?ss) (length buf)") simp_all
    ultimately show ?thesis unfolding rd by simp
  qed
qed

lemma file_range_whole: "length f = n \<Longrightarrow> file_range f 0 n = f"
  by (rule nth_equalityI) (simp_all add: file_byte_def)

lemma file_range_append: "file_range f off a @ file_range f (off + a) b = file_range f off (a + b)"
  by (rule nth_equalityI) (auto simp: nth_append add.assoc)

lemma take_file_range: "take k (file_range f off n) = file_range f off (min k n)"
  by (rule nth_equalityI) simp_all

end
