(* ===== verification/Imager.thy ===== *)
theory Imager
  imports MappedImage
begin

text \<open>
  \<^verbatim>\<open>imaging/imager.rs\<close>: the multi-pass, resumable imager and the verification of its result. The
  source of an imaging run is a failing disk, so a read is a state transition: reading the same
  sector twice may give different answers. The cancel flag, the acceptance of each write, of each
  save of the map and of the final calls are parameters of a run, indexed by the chunk at which
  the code asks.
\<close>

record image_options =
  op_chunk_size :: nat
  op_retries :: nat
  op_reverse_pass :: bool
  op_sparse :: bool
  op_compression :: compression
  op_hash_algo :: hash_algo
  op_resume :: bool

definition default_chunk :: nat where
  "default_chunk = 1024 * 1024"

definition image_options_default :: image_options where
  "image_options_default = \<lparr>op_chunk_size = default_chunk, op_retries = 2, op_reverse_pass = False,
     op_sparse = True, op_compression = NoCompression, op_hash_algo = Blake3, op_resume = False\<rparr>"

record image_progress =
  pg_pass :: nat
  pg_done :: nat
  pg_total :: nat
  pg_bad_sectors :: nat

record image_outcome =
  oc_complete :: bool
  oc_had_bad :: bool
  oc_bad_sectors :: nat
  oc_whole_hash :: "string option"

record 'w imaging_env =
  ev_read :: "'w \<Rightarrow> nat \<Rightarrow> bytes \<Rightarrow> (bytes \<times> read_result) \<times> 'w"
  ev_len :: nat
  ev_sector_size :: nat
  ev_id :: string
  ev_cancel :: "nat \<Rightarrow> bool"
  ev_write :: "nat \<Rightarrow> write_outcome"
  ev_save :: "nat \<Rightarrow> bool"
  ev_set_len :: bool
  ev_sync :: bool

abbreviation ev_sector :: "'w imaging_env \<Rightarrow> nat" where
  "ev_sector e \<equiv> max (ev_sector_size e) 1"

section \<open>Retrying a sector\<close>

text \<open>The attempts of \<^verbatim>\<open>retry_sector\<close>: the bytes of the first good read of the sector.\<close>

fun retry_reads :: "'w imaging_env \<Rightarrow> nat \<Rightarrow> bytes \<Rightarrow> nat \<Rightarrow> 'w \<Rightarrow> bytes option \<times> 'w" where
  "retry_reads e off sub 0 w = (None, w)"
| "retry_reads e off sub (Suc k) w =
     (case ev_read e w off sub of ((sub', r), w') \<Rightarrow>
        if rr_status r 0 = Good then (Some sub', w') else retry_reads e off sub' k w')"

definition retry_sector ::
  "'w imaging_env \<Rightarrow> nat \<Rightarrow> nat \<Rightarrow> nat \<Rightarrow> bytes \<Rightarrow> 'w \<Rightarrow> bool \<times> bytes \<times> 'w" where
  "retry_sector e chunk_offset sector_idx retries buf w =
     (let ss = ev_sector e;
          sub_off = wadd64 chunk_offset (wmul64 sector_idx ss)
      in case retry_reads e sub_off (zeros ss) (max retries 1) w of
           (None, w') \<Rightarrow> (False, buf, w')
         | (Some sub, w') \<Rightarrow>
             (let start = sector_idx * ss; end = min (start + ss) (length buf)
              in (True,
                  (if start \<le> end
                   then (case get_slice sub 0 (end - start) of None \<Rightarrow> buf | Some s \<Rightarrow> blit buf start s)
                   else buf),
                  w')))"

text \<open>A retry pass over a list of bad sectors: the sectors still bad, the patched buffer.\<close>

fun retry_pass ::
  "'w imaging_env \<Rightarrow> nat \<Rightarrow> nat \<Rightarrow> nat list \<Rightarrow> nat list \<Rightarrow> bytes \<Rightarrow> 'w \<Rightarrow> nat list \<times> bytes \<times> 'w" where
  "retry_pass e chunk_offset retries [] still buf w = (still, buf, w)"
| "retry_pass e chunk_offset retries (s # rest) still buf w =
     (case retry_sector e chunk_offset s retries buf w of (ok, buf', w') \<Rightarrow>
        retry_pass e chunk_offset retries rest (if ok then still else still @ [s]) buf' w')"

text \<open>Pass 1, and passes 2 and 3 when it met bad sectors.\<close>

definition read_chunk ::
  "'w imaging_env \<Rightarrow> image_options \<Rightarrow> nat \<Rightarrow> nat \<Rightarrow> 'w \<Rightarrow> nat list \<times> bytes \<times> 'w" where
  "read_chunk e opts offset len w =
     (case ev_read e w offset (zeros len) of ((buf, rr), w1) \<Rightarrow>
        if rr_any_bad rr
        then (case retry_pass e offset (op_retries opts) (rr_bad_sectors rr) [] buf w1 of (still, buf2, w2) \<Rightarrow>
                if op_reverse_pass opts then retry_pass e offset 1 (rev still) [] buf2 w2
                else (still, buf2, w2))
        else ([], buf, w1))"

section \<open>The chunk loop\<close>

text \<open>What the loop carries: the source's state, the map and its file, the output, the counters and
  the progress reports made.\<close>

record 'w imaging =
  ig_world :: 'w
  ig_map :: image_map
  ig_dest :: image_dest
  ig_bad_total :: nat
  ig_since_ckpt :: nat
  ig_map_file :: map_file
  ig_progress :: "image_progress list"

datatype 'w chunk_step =
    Next "'w imaging"
  | Finish "'w imaging"
  | Return "io_error + image_outcome" "'w imaging"

definition outcome_now :: "bool \<Rightarrow> string option \<Rightarrow> 'w imaging \<Rightarrow> image_outcome" where
  "outcome_now complete whole s = \<lparr>oc_complete = complete, oc_had_bad = (0 < ig_bad_total s),
     oc_bad_sectors = ig_bad_total s, oc_whole_hash = whole\<rparr>"

text \<open>The cancelled run: the map is saved as it stands (a failed save is ignored).\<close>

definition image_cancelled :: "'w imaging_env \<Rightarrow> nat \<Rightarrow> 'w imaging \<Rightarrow> 'w imaging" where
  "image_cancelled e i s =
     (let m = (ig_map s)\<lparr>im_frames := id_frames (ig_dest s)\<rparr>
      in s\<lparr>ig_map := m, ig_map_file := im_save (ev_save e i) m (ig_map_file s)\<rparr>)"

text \<open>Every 64 chunks the map is brought up to date and saved (a failed save is ignored).\<close>

definition image_checkpoint :: "'w imaging_env \<Rightarrow> nat \<Rightarrow> 'w imaging \<Rightarrow> 'w imaging" where
  "image_checkpoint e i s =
     (if 64 \<le> ig_since_ckpt s + 1 then
        let m = (ig_map s)\<lparr>im_frames := id_frames (ig_dest s), im_bad := coalesce (im_bad (ig_map s))\<rparr>
        in s\<lparr>ig_map := m, ig_map_file := im_save (ev_save e i) m (ig_map_file s), ig_since_ckpt := 0\<rparr>
      else s\<lparr>ig_since_ckpt := ig_since_ckpt s + 1\<rparr>)"

text \<open>The map after a chunk was read: its sectors still bad, and its hash.\<close>

definition record_chunk :: "crates \<Rightarrow> nat \<Rightarrow> nat \<Rightarrow> nat \<Rightarrow> nat list \<Rightarrow> bytes \<Rightarrow> image_map \<Rightarrow> image_map" where
  "record_chunk cr i offset ss still buf m =
     m\<lparr>im_bad := im_bad m @ map (\<lambda>s. \<lparr>lr_start = wadd64 (offset div ss) s, lr_count = 1\<rparr>) still,
       im_chunk_hashes := (im_chunk_hashes m)[i := Some (hash_bytes cr (im_hash_algo m) buf)]\<rparr>"

definition image_chunk :: "crates \<Rightarrow> 'w imaging_env \<Rightarrow> image_options \<Rightarrow> nat \<Rightarrow> 'w imaging \<Rightarrow> 'w chunk_step" where
  "image_chunk cr e opts i s =
     (if ev_cancel e i then Return (Inr (outcome_now False None s)) (image_cancelled e i s)
      else if is_chunk_done (ig_map s) i then Next s
      else
        let m = ig_map s;
            offset = wmul64 i (im_chunk_size m);
            len = min (wsub64 (ev_len e) offset) (im_chunk_size m)
        in if len = 0 then Finish s
           else case read_chunk e opts offset len (ig_world s) of (still, buf, w) \<Rightarrow>
             let s1 = s\<lparr>ig_world := w, ig_map := record_chunk cr i offset (ev_sector e) still buf m,
                   ig_bad_total := ig_bad_total s + length still\<rparr>
             in case write_chunk cr (ev_write e i) offset buf (ig_dest s) of
                  (Some err, d) \<Rightarrow> Return (Inl err) (s1\<lparr>ig_dest := d\<rparr>)
                | (None, d) \<Rightarrow>
                    let s2 = image_checkpoint e i (s1\<lparr>ig_dest := d\<rparr>)
                    in Next (s2\<lparr>ig_progress := ig_progress s2 @
                         [\<lparr>pg_pass = 1, pg_done = min (wadd64 offset len) (ev_len e), pg_total = ev_len e,
                           pg_bad_sectors = ig_bad_total s2\<rparr>]\<rparr>))"

fun image_chunks :: "crates \<Rightarrow> 'w imaging_env \<Rightarrow> image_options \<Rightarrow> nat \<Rightarrow> nat \<Rightarrow> 'w imaging \<Rightarrow> 'w chunk_step" where
  "image_chunks cr e opts i 0 s = Finish s"
| "image_chunks cr e opts i (Suc n) s =
     (case image_chunk cr e opts i s of
        Next s' \<Rightarrow> image_chunks cr e opts (Suc i) n s'
      | r \<Rightarrow> r)"

section \<open>Identity hashes\<close>

definition mib :: nat where
  "mib = 1024 * 1024"

function identity_loop :: "source \<Rightarrow> nat \<Rightarrow> nat \<Rightarrow> digest \<Rightarrow> bytes \<Rightarrow> digest \<times> bytes" where
  "identity_loop src isize off whole first_mib =
     (if isize \<le> off then (whole, first_mib)
      else let n = min (isize - off) (4 * mib);
               b = fst (s_read_at src off (zeros n));
               whole' = digest_update whole b;
               first' = (if off < mib then first_mib @ take (min (mib - off) n) b else first_mib)
           in identity_loop src isize (off + n) whole' first')"
  by pat_completeness auto
termination
  by (relation "measure (\<lambda>(src, isize, off, whole, first_mib). isize - off)") (auto simp: mib_def)

declare identity_loop.simps [simp del]

definition compute_identity :: "crates \<Rightarrow> bytes \<Rightarrow> image_map \<Rightarrow> string \<times> string \<times> string" where
  "compute_identity cr file m =
     (let src = mapped_image_source cr (mapped_image_open file m);
          isize = im_size m;
          r = identity_loop src isize 0 (digest_new (im_hash_algo m)) [];
          ss = max (im_sector_size m) 1;
          last_start = (isize - mib) div ss * ss;
          n = isize - last_start;
          last_mib = (if 0 < n then fst (s_read_at src last_start (zeros n)) else [])
      in (finalize_hex cr (fst r), hash_bytes cr (im_hash_algo m) (snd r), hash_bytes cr (im_hash_algo m) last_mib))"

section \<open>A run\<close>

text \<open>\<^verbatim>\<open>round_up\<close> on 32-bit values.\<close>

definition round_up32 :: "nat \<Rightarrow> nat \<Rightarrow> nat" where
  "round_up32 v m = (let m = max m 1 in min (div_ceil v m * m) 4294967295)"

definition load_or_create :: "'w imaging_env \<Rightarrow> image_options \<Rightarrow> map_file \<Rightarrow> io_error + image_map" where
  "load_or_create e opts mf =
     (if op_resume opts \<and> mf \<noteq> NoMap then
        (case mf of
           SavedMap m \<Rightarrow>
             if im_source_id m \<noteq> ev_id e \<or> im_size m \<noteq> ev_len e
             then Inl (ResumeError ''map is for another source'')
             else if im_chunk_size m = 0 then Inl (ResumeError ''map has zero chunk size'')
             else Inr m
         | _ \<Rightarrow> Inl (ResumeError ''map cannot be loaded''))
      else Inr (image_map_new (ev_id e) (ev_len e) (ev_sector e)
             (round_up32 (max (op_chunk_size opts) (ev_sector e)) (ev_sector e)) (op_hash_algo opts) (op_compression opts)))"

definition open_dest :: "image_options \<Rightarrow> image_map \<Rightarrow> node option \<Rightarrow> io_error + image_dest" where
  "open_dest opts m out =
     (let resuming = op_resume opts \<and> (im_frames m \<noteq> [] \<or> list_ex (\<lambda>h. h \<noteq> None) (im_chunk_hashes m))
      in if resuming \<and> out \<noteq> None
         then dest_open_append out (im_compression m) (op_sparse opts) (im_frames m)
         else dest_create out (im_compression m) (op_sparse opts))"

text \<open>After the loop: the length, the identity hashes when every chunk is there, the last save. The
  save's acceptance is asked for under the number of chunks.\<close>

definition image_finish :: "crates \<Rightarrow> 'w imaging_env \<Rightarrow> 'w imaging \<Rightarrow> (io_error + image_outcome) \<times> 'w imaging" where
  "image_finish cr e s =
     (if id_compression (ig_dest s) = NoCompression \<and> \<not> ev_set_len e then (Inl WriteError, s)
      else
        let d = set_logical_len (ev_len e) (ig_dest s);
            m = (ig_map s)\<lparr>im_frames := id_frames d\<rparr>
        in if \<not> ev_sync e then (Inl WriteError, s\<lparr>ig_dest := d, ig_map := m\<rparr>)
           else
             let m = m\<lparr>im_bad := coalesce (im_bad m),
                   im_complete := list_all (\<lambda>h. h \<noteq> None) (im_chunk_hashes m)\<rparr>;
                 ids = compute_identity cr (id_file d) m;
                 m = (if im_complete m then m\<lparr>im_whole_hash := Some (fst ids),
                        im_first_mib_hash := Some (fst (snd ids)), im_last_mib_hash := Some (snd (snd ids))\<rparr> else m);
                 ok = ev_save e (num_chunks m);
                 s' = s\<lparr>ig_dest := d, ig_map := m, ig_map_file := im_save ok m (ig_map_file s)\<rparr>
             in if \<not> ok then (Inl SaveError, s')
                else (Inr (outcome_now (im_complete m) (if im_complete m then Some (fst ids) else None) s'), s'))"

text \<open>What a run works on and leaves behind.\<close>

record 'w disk =
  dk_out :: "node option"
  dk_map :: map_file
  dk_world :: 'w
  dk_progress :: "image_progress list"

definition image_run ::
  "crates \<Rightarrow> 'w imaging_env \<Rightarrow> image_options \<Rightarrow> 'w disk \<Rightarrow> (io_error + image_outcome) \<times> 'w disk" where
  "image_run cr e opts dk =
     (case load_or_create e opts (dk_map dk) of
        Inl err \<Rightarrow> (Inl err, dk)
      | Inr m \<Rightarrow>
          (case open_dest opts m (dk_out dk) of
             Inl err \<Rightarrow> (Inl err, dk)
           | Inr d \<Rightarrow>
               (let s0 = \<lparr>ig_world = dk_world dk, ig_map = m, ig_dest = d, ig_bad_total = im_bad_sectors m,
                      ig_since_ckpt = 0, ig_map_file = dk_map dk, ig_progress = []\<rparr>;
                    r = (case image_chunks cr e opts 0 (num_chunks m) s0 of
                           Return res s \<Rightarrow> (res, s)
                         | Finish s \<Rightarrow> image_finish cr e s
                         | Next s \<Rightarrow> image_finish cr e s);
                    s = snd r
                in (fst r, \<lparr>dk_out = Some (Regular (id_file (ig_dest s))), dk_map = ig_map_file s,
                      dk_world = ig_world s, dk_progress = dk_progress dk @ ig_progress s\<rparr>))))"

section \<open>Verification\<close>

record verify_report =
  vr_whole_ok :: bool
  vr_chunk_mismatches :: nat
  vr_chunks_checked :: nat
  vr_bad_sectors :: nat

fun verify_loop ::
  "crates \<Rightarrow> source \<Rightarrow> image_map \<Rightarrow> nat \<Rightarrow> string option list \<Rightarrow> digest \<times> nat \<times> nat \<Rightarrow> digest \<times> nat \<times> nat" where
  "verify_loop cr src m i [] st = st"
| "verify_loop cr src m i (expect # rest) (whole, mismatches, checked) =
     (let cs = max (im_chunk_size m) 1; off = wmul64 i cs
      in if im_size m \<le> off then (whole, mismatches, checked)
         else let n = min (im_size m - off) cs;
                  b = fst (s_read_at src off (zeros n));
                  whole' = digest_update whole b
              in verify_loop cr src m (Suc i) rest
                   (case expect of
                      None \<Rightarrow> (whole', mismatches, checked)
                    | Some exp \<Rightarrow>
                        (whole', (if hash_bytes cr (im_hash_algo m) b \<noteq> exp then mismatches + 1 else mismatches), checked + 1)))"

definition verify_image :: "crates \<Rightarrow> node option \<Rightarrow> map_file \<Rightarrow> io_error + verify_report" where
  "verify_image cr out mf =
     (case mf of
        SavedMap m \<Rightarrow>
          (case out of
             Some (Regular file) \<Rightarrow>
               (case verify_loop cr (mapped_image_source cr (mapped_image_open file m)) m 0 (im_chunk_hashes m)
                       (digest_new (im_hash_algo m), 0, 0) of
                  (whole, mismatches, checked) \<Rightarrow>
                    Inr \<lparr>vr_whole_ok = (case im_whole_hash m of None \<Rightarrow> False | Some h \<Rightarrow> finalize_hex cr whole = h),
                      vr_chunk_mismatches = mismatches, vr_chunks_checked = checked, vr_bad_sectors = im_bad_sectors m\<rparr>)
           | _ \<Rightarrow> Inl NoDestination)
      | _ \<Rightarrow> Inl (ResumeError ''map cannot be loaded''))"

end
