(* ===== verification/ImagerRuns.thy ===== *)
theory ImagerRuns
  imports Imager
begin

text \<open>
  What an imaging run keeps. First for every source and every failure: the saved map never vouches
  for bytes the image file does not hold. Then for a source that answers every read of a sector the
  same way: the run images it exactly, in one go or interrupted and resumed.
\<close>

section \<open>Chunks\<close>

definition chunk_len :: "image_map \<Rightarrow> nat \<Rightarrow> nat" where
  "chunk_len m i = min (im_size m - i * im_chunk_size m) (im_chunk_size m)"

abbreviation in_chunk :: "image_map \<Rightarrow> nat \<Rightarrow> nat \<Rightarrow> bool" where
  "in_chunk m i j \<equiv> i * im_chunk_size m \<le> j \<and> j < i * im_chunk_size m + chunk_len m i"

text \<open>The shape of a raw image's map.\<close>

definition raw_map :: "image_map \<Rightarrow> bool" where
  "raw_map m \<longleftrightarrow> im_compression m = NoCompression \<and> 0 < im_chunk_size m \<and> im_size m \<le> u64_max \<and>
     num_chunks m = div_ceil (im_size m) (im_chunk_size m)"

definition same_geometry :: "image_map \<Rightarrow> image_map \<Rightarrow> bool" where
  "same_geometry m m' \<longleftrightarrow> im_compression m' = im_compression m \<and> im_chunk_size m' = im_chunk_size m \<and>
     im_size m' = im_size m \<and> num_chunks m' = num_chunks m \<and> im_hash_algo m' = im_hash_algo m"

lemma same_geometry_refl [simp]: "same_geometry m m"
  by (simp add: same_geometry_def)

lemma raw_map_same: "same_geometry m m' \<Longrightarrow> raw_map m' = raw_map m"
  by (simp add: same_geometry_def raw_map_def)

lemma chunk_len_same: "same_geometry m m' \<Longrightarrow> chunk_len m' i = chunk_len m i"
  by (simp add: same_geometry_def chunk_len_def)

lemma raw_chunk_bounds:
  assumes "raw_map m" "i < num_chunks m"
  shows "i * im_chunk_size m < im_size m" "0 < chunk_len m i" "i * im_chunk_size m + chunk_len m i \<le> im_size m"
    "chunk_len m i \<le> im_chunk_size m"
proof -
  have "i * im_chunk_size m < im_size m" using assms by (simp add: raw_map_def less_div_ceil)
  then show "i * im_chunk_size m < im_size m" "0 < chunk_len m i" "i * im_chunk_size m + chunk_len m i \<le> im_size m"
    "chunk_len m i \<le> im_chunk_size m" using assms by (auto simp: chunk_len_def raw_map_def)
qed

lemma chunk_len_le: "chunk_len m i \<le> im_chunk_size m"
  by (simp add: chunk_len_def)

lemma chunks_disjoint:
  assumes "raw_map m" "in_chunk m k j" "in_chunk m i j"
  shows "k = i"
proof -
  have div: "j div im_chunk_size m = i" if "in_chunk m i j" for i
  proof (rule div_nat_eqI)
    show "im_chunk_size m * i \<le> j" using that by (simp add: mult.commute)
    show "j < im_chunk_size m * Suc i" using that chunk_len_le [of m i] by (simp add: mult.commute)
  qed
  show ?thesis using div [of k] div [of i] assms by simp
qed

lemma chunk_of_byte:
  assumes "raw_map m" "j < im_size m"
  shows "\<exists>i < num_chunks m. in_chunk m i j"
proof -
  let ?c = "im_chunk_size m" and ?i = "j div im_chunk_size m"
  have c: "0 < ?c" using assms by (simp add: raw_map_def)
  have "?i * ?c \<le> j" "j < ?i * ?c + ?c"
    using c div_mult_mod_eq [of j ?c] mod_less_divisor [OF c, of j] by linarith+
  moreover have "?i < num_chunks m" using assms c by (simp add: raw_map_def div_less_div_ceil)
  ultimately show ?thesis using assms(2) by (intro exI [of _ ?i]) (simp add: chunk_len_def)
qed

section \<open>The loop rule\<close>

lemma image_chunks_rule:
  assumes "I i s"
    and "\<And>j s. i \<le> j \<Longrightarrow> j < i + n \<Longrightarrow> I j s \<Longrightarrow>
      (case image_chunk cr e opts j s of Next s' \<Rightarrow> I (Suc j) s' | Finish s' \<Rightarrow> False | Return r s' \<Rightarrow> Q r s')"
  shows "case image_chunks cr e opts i n s of Next s' \<Rightarrow> False | Finish s' \<Rightarrow> I (i + n) s' | Return r s' \<Rightarrow> Q r s'"
  using assms
proof (induction n arbitrary: i s)
  case (Suc n)
  have step: "case image_chunk cr e opts i s of Next s' \<Rightarrow> I (Suc i) s' | Finish s' \<Rightarrow> False | Return r s' \<Rightarrow> Q r s'"
    using Suc.prems by simp
  show ?case
  proof (cases "image_chunk cr e opts i s")
    case (Next s')
    then have "I (Suc i) s'" using step by simp
    then have "case image_chunks cr e opts (Suc i) n s' of Next s' \<Rightarrow> False | Finish s' \<Rightarrow> I (Suc i + n) s' | Return r s' \<Rightarrow> Q r s'"
      using Suc.prems(2) by (intro Suc.IH) simp_all
    then show ?thesis unfolding image_chunks.simps Next chunk_step.case add_Suc_shift .
  qed (use step in auto)
qed simp

section \<open>Frame of one chunk\<close>

definition env_fills :: "'w imaging_env \<Rightarrow> bool" where
  "env_fills e \<longleftrightarrow> (\<forall>w off buf. length (fst (fst (ev_read e w off buf))) = length buf)"

lemma retry_reads_length:
  "env_fills e \<Longrightarrow> retry_reads e off sub k w = (Some sub', w') \<Longrightarrow> length sub' = length sub"
proof (induction k arbitrary: sub w)
  case (Suc k)
  obtain b r v where rd: "ev_read e w off sub = ((b, r), v)" by (metis prod.collapse)
  then have "length b = length sub" using Suc.prems(1) by (metis env_fills_def fst_conv)
  then show ?case using Suc rd by (auto split: if_splits)
qed simp

lemma retry_sector_length: "length (fst (snd (retry_sector e off s retries buf w))) = length buf"
  by (auto simp: retry_sector_def Let_def get_slice_def split: prod.splits option.splits)

lemma retry_pass_length: "length (fst (snd (retry_pass e off retries ss still buf w))) = length buf"
proof (induction ss arbitrary: still buf w)
  case (Cons s ss)
  obtain ok b v where r: "retry_sector e off s retries buf w = (ok, b, v)" by (metis prod.collapse)
  then show ?case using Cons retry_sector_length [of e off s retries buf w] by simp
qed simp

lemma read_chunk_length:
  assumes "env_fills e"
  shows "length (fst (snd (read_chunk e opts off n w))) = n"
proof -
  obtain b r v where rd: "ev_read e w off (zeros n) = ((b, r), v)" by (metis prod.collapse)
  then have b: "length b = n" using assms unfolding env_fills_def by (metis fst_conv length_replicate)
  obtain st b2 v2 where p: "retry_pass e off (op_retries opts) (rr_bad_sectors r) [] b v = (st, b2, v2)"
    by (metis prod.collapse)
  then have b2: "length b2 = n" using retry_pass_length [of e off "op_retries opts" "rr_bad_sectors r" "[]" b v] b by simp
  show ?thesis using b b2 retry_pass_length [of e off 1 "rev st" "[]" b2 v2]
    by (simp add: read_chunk_def rd p)
qed

lemma record_chunk_fields:
  "im_chunk_hashes (record_chunk cr i off ss still buf m) = (im_chunk_hashes m)[i := Some (cr_hash cr (im_hash_algo m) buf)]"
  "same_geometry m (record_chunk cr i off ss still buf m)"
  "im_size (record_chunk cr i off ss still buf m) = im_size m"
  by (simp_all add: record_chunk_def same_geometry_def num_chunks_def)

text \<open>A checkpoint touches the map only in its frames and in the order and grouping of its bad runs.\<close>

lemma image_checkpoint_fields:
  "im_chunk_hashes (ig_map (image_checkpoint e i s)) = im_chunk_hashes (ig_map s)"
  "same_geometry (ig_map s) (ig_map (image_checkpoint e i s))"
  "ig_dest (image_checkpoint e i s) = ig_dest s"
  "ig_world (image_checkpoint e i s) = ig_world s"
  "ig_bad_total (image_checkpoint e i s) = ig_bad_total s"
  "ig_map_file (image_checkpoint e i s) \<in> {ig_map_file s, SavedMap (ig_map (image_checkpoint e i s))}"
  "im_bad (ig_map (image_checkpoint e i s)) \<in> {im_bad (ig_map s), coalesce (im_bad (ig_map s))}"
  by (auto simp: image_checkpoint_def Let_def same_geometry_def num_chunks_def im_save_def)

section \<open>The saved map vouches for the file\<close>

definition vouches :: "crates \<Rightarrow> image_map \<Rightarrow> bytes \<Rightarrow> bool" where
  "vouches cr m f \<longleftrightarrow> (\<forall>i < num_chunks m. \<forall>h. im_chunk_hashes m ! i = Some h \<longrightarrow>
     h = cr_hash cr (im_hash_algo m) (file_range f (i * im_chunk_size m) (chunk_len m i)))"

definition map_within :: "image_map \<Rightarrow> image_map \<Rightarrow> bool" where
  "map_within m' m \<longleftrightarrow> same_geometry m m' \<and>
     (\<forall>k < num_chunks m. im_chunk_hashes m' ! k \<noteq> None \<longrightarrow> im_chunk_hashes m' ! k = im_chunk_hashes m ! k)"

definition vouch_inv :: "crates \<Rightarrow> nat \<Rightarrow> 'w imaging \<Rightarrow> bool" where
  "vouch_inv cr i s \<longleftrightarrow>
     raw_map (ig_map s) \<and> vouches cr (ig_map s) (id_file (ig_dest s)) \<and>
     id_compression (ig_dest s) = NoCompression \<and>
     (id_sparse (ig_dest s) \<longrightarrow> (\<forall>k < num_chunks (ig_map s). i \<le> k \<and> im_chunk_hashes (ig_map s) ! k = None \<longrightarrow>
        (\<forall>j. in_chunk (ig_map s) k j \<longrightarrow> file_byte (id_file (ig_dest s)) j = 0))) \<and>
     (\<forall>m'. ig_map_file s = SavedMap m' \<longrightarrow> map_within m' (ig_map s))"

text \<open>What a run leaves: the saved map is for a raw image and vouches for the output.\<close>

definition left_sound :: "crates \<Rightarrow> 'w imaging \<Rightarrow> bool" where
  "left_sound cr s \<longleftrightarrow> (\<forall>m'. ig_map_file s = SavedMap m' \<longrightarrow> raw_map m' \<and> vouches cr m' (id_file (ig_dest s)))"

lemma vouches_within:
  assumes "map_within m' m" "vouches cr m f"
  shows "vouches cr m' f"
  unfolding vouches_def
proof (intro allI impI)
  fix i h
  assume "i < num_chunks m'" "im_chunk_hashes m' ! i = Some h"
  moreover from this have "i < num_chunks m" "im_chunk_hashes m ! i = Some h"
    using assms(1) by (auto simp: map_within_def same_geometry_def)
  ultimately show "h = cr_hash cr (im_hash_algo m') (file_range f (i * im_chunk_size m') (chunk_len m' i))"
    using assms chunk_len_same [of m m'] by (simp add: vouches_def map_within_def same_geometry_def)
qed

lemma vouches_frame:
  assumes "raw_map m" "vouches cr m f" "i < num_chunks m" "im_chunk_hashes m ! i = None"
    and "\<And>j. \<not> in_chunk m i j \<Longrightarrow> file_byte f' j = file_byte f j"
  shows "vouches cr m f'"
  unfolding vouches_def
proof (intro allI impI)
  fix k h
  assume k: "k < num_chunks m" "im_chunk_hashes m ! k = Some h"
  then have "k \<noteq> i" using assms(4) by auto
  then have "file_range f' (k * im_chunk_size m) (chunk_len m k) = file_range f (k * im_chunk_size m) (chunk_len m k)"
    using chunks_disjoint [OF assms(1)] by (intro file_range_eqI assms(5)) blast
  then show "h = cr_hash cr (im_hash_algo m) (file_range f' (k * im_chunk_size m) (chunk_len m k))"
    using assms(2) k by (simp add: vouches_def)
qed

lemma vouches_record:
  assumes "raw_map m" "vouches cr m f'" "i < num_chunks m"
    and "file_range f' (i * im_chunk_size m) (chunk_len m i) = buf"
  shows "vouches cr (record_chunk cr i off ss still buf m) f'"
  unfolding vouches_def
proof (intro allI impI)
  fix k h
  let ?m = "record_chunk cr i off ss still buf m"
  assume k: "k < num_chunks ?m" "im_chunk_hashes ?m ! k = Some h"
  have geo: "same_geometry m ?m" by (rule record_chunk_fields)
  show "h = cr_hash cr (im_hash_algo ?m) (file_range f' (k * im_chunk_size ?m) (chunk_len ?m k))"
  proof (cases "k = i")
    case True
    then have "h = cr_hash cr (im_hash_algo m) buf" using k assms(3) by (simp add: record_chunk_fields(1) num_chunks_def)
    then show ?thesis using True assms(4) geo chunk_len_same [OF geo] by (simp add: same_geometry_def)
  next
    case False
    then have "im_chunk_hashes m ! k = Some h" "k < num_chunks m"
      using k geo by (simp_all add: record_chunk_fields(1) same_geometry_def)
    then show ?thesis using assms(2) geo chunk_len_same [OF geo] by (simp add: vouches_def same_geometry_def)
  qed
qed

lemma map_within_same: "im_chunk_hashes m' = im_chunk_hashes m \<Longrightarrow> same_geometry m m' \<Longrightarrow> map_within m' m"
  by (simp add: map_within_def)

lemma map_within_record:
  assumes "map_within m' m" "i < num_chunks m" "im_chunk_hashes m ! i = None"
  shows "map_within m' (record_chunk cr i off ss still buf m)"
proof -
  have geo: "same_geometry (record_chunk cr i off ss still buf m) m'"
    using assms(1) record_chunk_fields(2) [of m cr i off ss still buf] by (simp add: map_within_def same_geometry_def)
  have n: "num_chunks (record_chunk cr i off ss still buf m) = num_chunks m"
    using record_chunk_fields(2) [of m cr i off ss still buf] by (simp add: same_geometry_def)
  show ?thesis
    using assms geo by (auto simp: map_within_def n record_chunk_fields(1) nth_list_update num_chunks_def)
qed

lemma map_within_trans: "map_within m1 m2 \<Longrightarrow> map_within m2 m3 \<Longrightarrow> map_within m1 m3"
  by (auto simp: map_within_def same_geometry_def)

lemma left_soundI:
  assumes "raw_map m" "vouches cr m (id_file (ig_dest s))" "\<And>m'. ig_map_file s = SavedMap m' \<Longrightarrow> map_within m' m"
  shows "left_sound cr s"
  unfolding left_sound_def
proof (intro allI impI)
  fix m'
  assume "ig_map_file s = SavedMap m'"
  then have w: "map_within m' m" by (rule assms(3))
  then show "raw_map m' \<and> vouches cr m' (id_file (ig_dest s))"
    using vouches_within [OF w assms(2)] raw_map_same [of m m'] assms(1) by (simp add: map_within_def)
qed

lemma cancelled_vouch:
  assumes "vouch_inv cr i s"
  shows "left_sound cr (image_cancelled e i s)"
proof (rule left_soundI [of "ig_map s"])
  show "raw_map (ig_map s)" "vouches cr (ig_map s) (id_file (ig_dest (image_cancelled e i s)))"
    using assms by (simp_all add: vouch_inv_def image_cancelled_def Let_def)
  show "map_within m' (ig_map s)" if "ig_map_file (image_cancelled e i s) = SavedMap m'" for m'
    using that assms
    by (auto simp: vouch_inv_def image_cancelled_def Let_def im_save_def same_geometry_def num_chunks_def
        intro!: map_within_same split: if_splits)
qed

text \<open>What a map says of a file depends on its hashes and its geometry only.\<close>

lemma vouch_inv_transfer:
  assumes inv: "vouch_inv cr k s" and hashes: "im_chunk_hashes (ig_map s') = im_chunk_hashes (ig_map s)"
    and geo: "same_geometry (ig_map s) (ig_map s')" and dest: "ig_dest s' = ig_dest s"
    and mfile: "ig_map_file s' \<in> {ig_map_file s, SavedMap (ig_map s')}"
  shows "vouch_inv cr k s'"
proof -
  have w: "map_within (ig_map s') (ig_map s)" "map_within (ig_map s) (ig_map s')"
    using hashes geo by (auto simp: map_within_def same_geometry_def)
  have len: "chunk_len (ig_map s') n = chunk_len (ig_map s) n" for n by (rule chunk_len_same [OF geo])
  have "map_within m' (ig_map s')" if "ig_map_file s' = SavedMap m'" for m'
    using that mfile inv w map_within_trans [OF _ w(2)] map_within_same [OF refl same_geometry_refl]
    unfolding vouch_inv_def by fastforce
  then show ?thesis
    using inv vouches_within [OF w(1)] raw_map_same [OF geo] hashes geo dest
    by (simp add: vouch_inv_def len same_geometry_def)
qed

lemma checkpoint_vouch:
  assumes "vouch_inv cr k s"
  shows "vouch_inv cr k (image_checkpoint e i s)"
  by (rule vouch_inv_transfer [OF assms])
    (use image_checkpoint_fields [where e = e and i = i and s = s] in auto)

lemma image_chunk_vouch:
  assumes inv: "vouch_inv cr i s" and i: "i < num_chunks (ig_map s)" and len: "im_size (ig_map s) = ev_len e"
    and fills: "env_fills e"
  shows "case image_chunk cr e opts i s of
      Next s' \<Rightarrow> vouch_inv cr (Suc i) s' \<and> same_geometry (ig_map s) (ig_map s')
    | Finish s' \<Rightarrow> False | Return r s' \<Rightarrow> left_sound cr s'"
proof (cases "ev_cancel e i")
  case True
  then show ?thesis using cancelled_vouch [OF inv] by (simp add: image_chunk_def)
next
  case nc: False
  let ?m = "ig_map s"
  have raw: "raw_map ?m" and v: "vouches cr ?m (id_file (ig_dest s))" and rawd: "id_compression (ig_dest s) = NoCompression"
    and holes: "id_sparse (ig_dest s) \<Longrightarrow> k < num_chunks ?m \<Longrightarrow> i \<le> k \<Longrightarrow> im_chunk_hashes ?m ! k = None \<Longrightarrow>
        in_chunk ?m k j \<Longrightarrow> file_byte (id_file (ig_dest s)) j = 0"
    and saved: "ig_map_file s = SavedMap m' \<Longrightarrow> map_within m' ?m" for k j m'
    using inv by (auto simp: vouch_inv_def)
  show ?thesis
  proof (cases "is_chunk_done ?m i")
    case True
    then have "image_chunk cr e opts i s = Next s" using nc by (simp add: image_chunk_def)
    then show ?thesis using inv by (auto simp: vouch_inv_def)
  next
    case nd: False
    then have none: "im_chunk_hashes ?m ! i = None" using i by (simp add: is_chunk_done_iff)
    note b = raw_chunk_bounds [OF raw i]
    have size: "im_size ?m \<le> u64_max" using raw by (simp add: raw_map_def)
    let ?off = "i * im_chunk_size ?m" and ?n = "chunk_len ?m i"
    have off: "wmul64 i (im_chunk_size ?m) = ?off" and n: "min (wsub64 (ev_len e) ?off) (im_chunk_size ?m) = ?n"
      using b(1) size len by (simp_all add: wmul64_exact wsub64_exact chunk_len_def)
    obtain still buf w where rd: "read_chunk e opts ?off ?n (ig_world s) = (still, buf, w)" by (metis prod.collapse)
    have buf: "length buf = ?n" using read_chunk_length [OF fills, of opts ?off ?n "ig_world s"] rd by simp
    obtain err d where wr: "write_chunk cr (ev_write e i) ?off buf (ig_dest s) = (err, d)" by (metis prod.collapse)
    let ?s1 = "s\<lparr>ig_world := w, ig_map := record_chunk cr i ?off (ev_sector e) still buf ?m, ig_bad_total := ig_bad_total s + length still, ig_dest := d\<rparr>"
    have clear: "id_sparse (ig_dest s) \<longrightarrow> (\<forall>j. ?off \<le> j \<and> j < ?off + length buf \<longrightarrow> file_byte (id_file (ig_dest s)) j = 0)"
      using holes [OF _ i order.refl none] buf by simp
    note w = write_chunk_raw [OF rawd clear wr, unfolded buf]
    have out: "file_byte (id_file d) j = file_byte (id_file (ig_dest s)) j" if "\<not> in_chunk ?m i j" for j
      using that by (intro w(1)) auto
    have v': "vouches cr ?m (id_file d)" by (rule vouches_frame [OF raw v i none out])
    show ?thesis
    proof (cases err)
      case (Some x)
      have "image_chunk cr e opts i s = Return (Inl x) ?s1"
        using nc nd off n b(2) rd wr Some by (simp add: image_chunk_def Let_def)
      moreover have "left_sound cr ?s1" by (rule left_soundI [OF raw]) (simp_all add: v' saved)
      ultimately show ?thesis by simp
    next
      case None
      have v1: "vouches cr (ig_map ?s1) (id_file d)"
        using vouches_record [OF raw v' i w(2) [OF None]] by simp
      have "vouch_inv cr (Suc i) ?s1"
        unfolding vouch_inv_def
      proof (intro conjI allI impI)
        show "raw_map (ig_map ?s1)" using raw raw_map_same [OF record_chunk_fields(2)] by simp
        show "vouches cr (ig_map ?s1) (id_file (ig_dest ?s1))" using v1 by simp
        show "id_compression (ig_dest ?s1) = NoCompression" using w(3) by simp
        show "map_within m' (ig_map ?s1)" if "ig_map_file ?s1 = SavedMap m'" for m'
          using map_within_record [OF saved i none] that by simp
        fix k j
        assume sp: "id_sparse (ig_dest ?s1)" and k: "k < num_chunks (ig_map ?s1)"
          "Suc i \<le> k \<and> im_chunk_hashes (ig_map ?s1) ! k = None" and j: "in_chunk (ig_map ?s1) k j"
        have geo: "same_geometry ?m (ig_map ?s1)" using record_chunk_fields(2) by simp
        have k': "k < num_chunks ?m" "i \<le> k" "k \<noteq> i" "im_chunk_hashes ?m ! k = None"
          using k geo by (auto simp: record_chunk_fields(1) same_geometry_def)
        have j': "in_chunk ?m k j" using j geo chunk_len_same [OF geo] by (simp add: same_geometry_def)
        then have "\<not> in_chunk ?m i j" using chunks_disjoint [OF raw j'] k'(3) by blast
        then show "file_byte (id_file (ig_dest ?s1)) j = 0"
          using out holes [OF _ k'(1,2,4) j'] sp w(4) by simp
      qed
      then have "vouch_inv cr (Suc i) (image_checkpoint e i ?s1)" by (rule checkpoint_vouch)
      moreover have "same_geometry ?m (ig_map (image_checkpoint e i ?s1))"
        using image_checkpoint_fields(2) [of ?s1 e i] record_chunk_fields(2) [of ?m cr i ?off "ev_sector e" still buf]
        by (simp add: same_geometry_def)
      moreover have "image_chunk cr e opts i s = Next ((image_checkpoint e i ?s1)\<lparr>ig_progress :=
          ig_progress (image_checkpoint e i ?s1) @ [\<lparr>pg_pass = 1, pg_done = min (wadd64 ?off ?n) (ev_len e), pg_total = ev_len e,
            pg_bad_sectors = ig_bad_total (image_checkpoint e i ?s1)\<rparr>]\<rparr>)"
        using nc nd off n b(2) rd wr None by (simp add: image_chunk_def Let_def)
      ultimately show ?thesis by (simp add: vouch_inv_def)
    qed
  qed
qed

section \<open>The end of a run\<close>

lemma finish_vouch:
  assumes inv: "vouch_inv cr i s" and len: "im_size (ig_map s) = ev_len e"
  shows "left_sound cr (snd (image_finish cr e s))"
proof -
  let ?m = "ig_map s" and ?d = "set_logical_len (ev_len e) (ig_dest s)"
  have raw: "raw_map ?m" and v: "vouches cr ?m (id_file (ig_dest s))" and rawd: "id_compression (ig_dest s) = NoCompression"
    and saved: "ig_map_file s = SavedMap m' \<Longrightarrow> map_within m' ?m" for m'
    using inv by (auto simp: vouch_inv_def)
  have v': "vouches cr ?m (id_file ?d)"
    unfolding vouches_def
  proof (intro allI impI)
    fix k h
    assume k: "k < num_chunks ?m" "im_chunk_hashes ?m ! k = Some h"
    have "file_range (id_file ?d) (k * im_chunk_size ?m) (chunk_len ?m k)
        = file_range (id_file (ig_dest s)) (k * im_chunk_size ?m) (chunk_len ?m k)"
      using raw_chunk_bounds(3) [OF raw k(1)] len by (intro file_range_eqI) (simp add: file_byte_set_len [OF rawd])
    then show "h = cr_hash cr (im_hash_algo ?m) (file_range (id_file ?d) (k * im_chunk_size ?m) (chunk_len ?m k))"
      using v k by (simp add: vouches_def)
  qed
  have w: "map_within m' ?m" if "im_chunk_hashes m' = im_chunk_hashes ?m" "im_compression m' = im_compression ?m"
      "im_chunk_size m' = im_chunk_size ?m" "im_size m' = im_size ?m" "im_hash_algo m' = im_hash_algo ?m" for m'
    using that by (intro map_within_same) (simp_all add: same_geometry_def num_chunks_def)
  show ?thesis
  proof (cases "ev_set_len e")
    case False
    then show ?thesis using left_soundI [OF raw v saved] rawd by (simp add: image_finish_def)
  next
    case set: True
    show ?thesis
    proof (cases "ev_sync e")
      case False
      show ?thesis
        by (rule left_soundI [OF raw]) (use False set v' saved in \<open>simp_all add: image_finish_def Let_def\<close>)
    next
      case True
      show ?thesis
      proof (rule left_soundI [OF raw])
        show "vouches cr ?m (id_file (ig_dest (snd (image_finish cr e s))))"
          using True set v' by (simp add: image_finish_def Let_def)
        show "map_within m' ?m" if "ig_map_file (snd (image_finish cr e s)) = SavedMap m'" for m'
          using that True set saved by (auto simp: image_finish_def Let_def im_save_def split: if_splits intro!: w)
      qed
    qed
  qed
qed

section \<open>A whole run\<close>

text \<open>A disk is sound when the map saved on it, if any, is for a raw image, and vouches for the image
  file next to it.\<close>

definition disk_sound :: "crates \<Rightarrow> 'w disk \<Rightarrow> bool" where
  "disk_sound cr dk \<longleftrightarrow> (\<forall>m. dk_map dk = SavedMap m \<longrightarrow>
     raw_map m \<and> (\<exists>f. dk_out dk = Some (Regular f) \<and> vouches cr m f))"

lemma image_map_new_raw:
  assumes "0 < cs" "isize \<le> u64_max"
  shows "raw_map (image_map_new sid isize ss cs algo NoCompression)"
    "num_chunks (image_map_new sid isize ss cs algo NoCompression) = div_ceil isize cs"
    "k < div_ceil isize cs \<Longrightarrow> im_chunk_hashes (image_map_new sid isize ss cs algo NoCompression) ! k = None"
    "im_size (image_map_new sid isize ss cs algo NoCompression) = isize"
    "im_chunk_size (image_map_new sid isize ss cs algo NoCompression) = cs"
  using assms by (simp_all add: raw_map_def image_map_new_def num_chunks_def)

lemma div_ceil_pos: "0 < b \<Longrightarrow> 0 < a \<Longrightarrow> 0 < div_ceil a b"
  by (simp add: less_div_ceil)

lemma round_up32_pos: "0 < v \<Longrightarrow> 0 < round_up32 v m"
  by (simp add: round_up32_def Let_def div_ceil_pos)

lemma load_or_create_ok:
  assumes "load_or_create e opts mf = Inr m" "ev_len e \<le> u64_max" "op_compression opts = NoCompression"
    and "\<And>m. mf = SavedMap m \<Longrightarrow> raw_map m \<and> op_resume opts"
  shows "raw_map m" "im_size m = ev_len e"
    "mf = SavedMap m \<or> (\<forall>m'. mf \<noteq> SavedMap m') \<and> im_frames m = [] \<and> im_bad m = [] \<and> (\<forall>k < num_chunks m. im_chunk_hashes m ! k = None)"
proof -
  let ?cs = "round_up32 (max (op_chunk_size opts) (ev_sector e)) (ev_sector e)"
  have cs: "0 < ?cs" by (rule round_up32_pos) simp
  have "raw_map m \<and> im_size m = ev_len e \<and> (mf = SavedMap m \<or> (\<forall>m'. mf \<noteq> SavedMap m') \<and> im_frames m = [] \<and>
      im_bad m = [] \<and> (\<forall>k < num_chunks m. im_chunk_hashes m ! k = None))"
  proof (cases "op_resume opts \<and> mf \<noteq> NoMap")
    case True
    then show ?thesis using assms(1,4) by (cases mf) (auto simp: load_or_create_def split: if_splits)
  next
    case False
    then have m: "m = image_map_new (ev_id e) (ev_len e) (ev_sector e) ?cs (op_hash_algo opts) NoCompression"
      using assms(1,3) by (auto simp: load_or_create_def)
    have "\<forall>m'. mf \<noteq> SavedMap m'" using False assms(4) by auto
    then show ?thesis
      using image_map_new_raw [OF cs assms(2)] by (auto simp: m) (simp_all add: image_map_new_def)
  qed
  then show "raw_map m" "im_size m = ev_len e"
    "mf = SavedMap m \<or> (\<forall>m'. mf \<noteq> SavedMap m') \<and> im_frames m = [] \<and> im_bad m = [] \<and> (\<forall>k < num_chunks m. im_chunk_hashes m ! k = None)"
    by blast+
qed

lemma open_dest_ok:
  assumes "open_dest opts m out = Inr d"
  shows "id_compression d = im_compression m" "id_sparse d = op_sparse opts"
    "out = Some (Regular (id_file d)) \<and> id_frames d = im_frames m \<and>
       (im_frames m \<noteq> [] \<or> (\<exists>k < num_chunks m. im_chunk_hashes m ! k \<noteq> None)) \<or>
     id_file d = [] \<and> id_frames d = [] \<and>
       (op_resume opts \<longrightarrow> out = None \<or> im_frames m = [] \<and> (\<forall>k < num_chunks m. im_chunk_hashes m ! k = None))"
  using assms
  by (auto simp: open_dest_def dest_create_def dest_open_append_def Let_def list_ex_length num_chunks_def
      split: if_splits option.splits node.splits)

text \<open>Every step keeps the loop's invariant, so does the loop.\<close>

lemma image_chunks_vouch:
  fixes s :: "'w imaging"
  assumes "vouch_inv cr 0 s" "im_size (ig_map s) = ev_len e" "env_fills e"
  shows "case image_chunks cr e opts 0 (num_chunks (ig_map s)) s of
      Next s' \<Rightarrow> False
    | Finish s' \<Rightarrow> vouch_inv cr (num_chunks (ig_map s)) s' \<and> same_geometry (ig_map s) (ig_map s')
    | Return r s' \<Rightarrow> left_sound cr s'"
proof -
  let ?m = "ig_map s" and ?I = "\<lambda>i s'. vouch_inv cr i s' \<and> same_geometry (ig_map s) (ig_map s')"
  have "case image_chunks cr e opts 0 (num_chunks ?m) s of
      Next s' \<Rightarrow> False | Finish s' \<Rightarrow> ?I (0 + num_chunks ?m) s' | Return r s' \<Rightarrow> left_sound cr s'"
  proof (rule image_chunks_rule)
    show "?I 0 s" using assms(1) by simp
    fix j and s' :: "'w imaging"
    assume j: "0 \<le> j" "j < 0 + num_chunks ?m" and I: "?I j s'"
    then have "j < num_chunks (ig_map s')" "im_size (ig_map s') = ev_len e"
      using assms(2) by (simp_all add: same_geometry_def)
    from image_chunk_vouch [OF conjunct1 [OF I] this assms(3), of opts]
    show "case image_chunk cr e opts j s' of Next t \<Rightarrow> ?I (Suc j) t | Finish t \<Rightarrow> False | Return r t \<Rightarrow> left_sound cr t"
      using conjunct2 [OF I] by (cases "image_chunk cr e opts j s'") (auto simp: same_geometry_def)
  qed
  then show ?thesis unfolding add_0 .
qed

lemma image_run_sound:
  assumes sound: "disk_sound cr dk" and fills: "env_fills e" and len: "ev_len e \<le> u64_max"
    and raw: "op_compression opts = NoCompression"
    and resume: "\<And>m. dk_map dk = SavedMap m \<Longrightarrow> op_resume opts \<and> \<not> op_sparse opts"
  shows "disk_sound cr (snd (image_run cr e opts dk))"
proof (cases "load_or_create e opts (dk_map dk)")
  case (Inl err)
  then show ?thesis using sound by (simp add: image_run_def)
next
  case (Inr m)
  have m: "raw_map m" "im_size m = ev_len e"
    "dk_map dk = SavedMap m \<or> (\<forall>m'. dk_map dk \<noteq> SavedMap m') \<and> im_frames m = [] \<and> im_bad m = [] \<and> (\<forall>k < num_chunks m. im_chunk_hashes m ! k = None)"
    using load_or_create_ok [OF Inr len raw] sound resume by (auto simp: disk_sound_def)
  have rawm: "im_compression m = NoCompression" using m(1) by (simp add: raw_map_def)
  show ?thesis
  proof (cases "open_dest opts m (dk_out dk)")
    case (Inl err)
    then show ?thesis using sound Inr by (simp add: image_run_def)
  next
    case d: (Inr d)
    let ?s0 = "\<lparr>ig_world = dk_world dk, ig_map = m, ig_dest = d, ig_bad_total = im_bad_sectors m,
        ig_since_ckpt = 0, ig_map_file = dk_map dk, ig_progress = []\<rparr>"
    note dest = open_dest_ok [OF d]
    have vouch: "vouches cr m (id_file d)"
      using m(3) dest(3) sound resume by (auto simp: disk_sound_def vouches_def)
    have "vouch_inv cr 0 ?s0"
      unfolding vouch_inv_def
    proof (intro conjI allI impI)
      show "raw_map (ig_map ?s0)" using m(1) by simp
      show "vouches cr (ig_map ?s0) (id_file (ig_dest ?s0))" using vouch by simp
      show "id_compression (ig_dest ?s0) = NoCompression" using dest(1) rawm by simp
      show "map_within m' (ig_map ?s0)" if "ig_map_file ?s0 = SavedMap m'" for m'
        using that m(3) map_within_same [OF refl same_geometry_refl, of m] by auto
      fix k j
      assume "id_sparse (ig_dest ?s0)" and k: "k < num_chunks (ig_map ?s0)" and j: "in_chunk (ig_map ?s0) k j"
      then have fresh: "\<forall>m'. dk_map dk \<noteq> SavedMap m'" "op_sparse opts" using resume dest(2) by auto
      then have "id_file d = []" using m(3) dest(3) by auto
      then show "file_byte (id_file (ig_dest ?s0)) j = 0" by (simp add: file_byte_def)
    qed
    from image_chunks_vouch [OF this, of e opts, unfolded imaging.select_convs] m(2) fills
    have chunks: "case image_chunks cr e opts 0 (num_chunks m) ?s0 of
        Next s' \<Rightarrow> False
      | Finish s' \<Rightarrow> vouch_inv cr (num_chunks m) s' \<and> same_geometry m (ig_map s')
      | Return r s' \<Rightarrow> left_sound cr s'" by blast
    have fin: "left_sound cr (snd (image_finish cr e s'))"
      if "vouch_inv cr (num_chunks m) s' \<and> same_geometry m (ig_map s')" for s'
      using finish_vouch [of cr "num_chunks m" s' e] that m(2) by (simp add: same_geometry_def)
    show ?thesis
      using Inr d chunks fin
      by (auto simp: image_run_def Let_def disk_sound_def left_sound_def split: chunk_step.splits)
  qed
qed

end
