(* ===== verification/ImagerExact.thy ===== *)
theory ImagerExact
  imports ImagerRuns
begin

text \<open>
  Imaging a source that answers every read of a sector the same way. A state of a run is described
  by what the map and the image file say of the medium; the description holds from the empty image,
  is kept by every chunk and by an interruption, and at the end it is the medium.
\<close>

section \<open>Reading from a stable source\<close>

definition stable_env :: "'w imaging_env \<Rightarrow> source \<Rightarrow> bool" where
  "stable_env e src \<longleftrightarrow> (\<forall>w off buf. ev_read e w off buf = (s_read_at src off buf, w)) \<and>
     ev_len e = s_len src \<and> ev_sector_size e = s_sector_size src"

lemma stable_env_fills: "stable_env e src \<Longrightarrow> presents src md \<Longrightarrow> env_fills e"
  using block_source.fills [OF presents_well_behaved] by (fastforce simp: stable_env_def env_fills_def)

lemma retry_reads_bad:
  assumes "stable_env e src" "presents src md" "off mod s_sector_size src = 0" "off + s_sector_size src \<le> s_len src"
    and "md_stat md (off div s_sector_size src) \<noteq> Good" "length sub = s_sector_size src"
  shows "retry_reads e off sub k w = (None, w)"
  using assms(6)
proof (induction k arbitrary: sub)
  case (Suc k)
  have pos: "0 < s_sector_size src" by (rule presents_pos [OF assms(2)])
  have rd: "ev_read e w off sub = (s_read_at src off sub, w)" using assms(1) by (simp add: stable_env_def)
  have len: "length (fst (s_read_at src off sub)) = s_sector_size src"
    using block_source.fills [OF presents_well_behaved [OF assms(2)], of off sub] Suc.prems by simp
  have "rr_status (snd (s_read_at src off sub)) 0 = md_stat md (off div s_sector_size src + 0)"
    using assms(3,4) Suc.prems pos by (intro presents_status [OF assms(2)]) (simp_all add: less_div_ceil)
  then have "rr_status (snd (s_read_at src off sub)) 0 \<noteq> Good" using assms(5) by simp
  then show ?case using rd Suc.IH [OF len] by (cases "s_read_at src off sub") simp
qed simp

lemma retry_pass_bad:
  assumes "stable_env e src" "presents src md" "off mod s_sector_size src = 0" "s_len src mod s_sector_size src = 0"
    and "\<forall>s \<in> set ss. off + s * s_sector_size src < s_len src \<and> md_stat md (off div s_sector_size src + s) \<noteq> Good"
  shows "retry_pass e off retries ss still buf w = (still @ ss, buf, w)"
  using assms(5)
proof (induction ss arbitrary: still)
  case (Cons s rest)
  let ?ss = "s_sector_size src"
  have pos: "0 < ?ss" by (rule presents_pos [OF assms(2)])
  have u64: "s_len src \<le> u64_max" using assms(2) by (simp add: presents_def)
  have sector: "ev_sector e = ?ss" using assms(1) pos by (simp add: stable_env_def)
  have s: "off + s * ?ss < s_len src" "md_stat md (off div ?ss + s) \<noteq> Good" using Cons.prems by simp_all
  have div: "(off + s * ?ss) div ?ss = off div ?ss + s" using pos by simp
  have "off + s * ?ss + ?ss \<le> s_len src"
  proof -
    have "(off + s * ?ss) mod ?ss = 0" using assms(3) by simp
    then obtain a where a: "off + s * ?ss = ?ss * a" by (metis mod_0_imp_dvd dvdE)
    obtain b where b: "s_len src = ?ss * b" using assms(4) by auto
    have "a < b" using s(1) unfolding a b by simp
    then have "?ss * Suc a \<le> ?ss * b" by (intro mult_le_mono2) simp
    then show ?thesis unfolding a b by simp
  qed
  then have none: "retry_reads e (off + s * ?ss) (zeros ?ss) k w = (None, w)" for k
    using assms(3) s(2) div by (intro retry_reads_bad [OF assms(1,2)]) simp_all
  have add: "wadd64 off (wmul64 s ?ss) = off + s * ?ss"
    using s(1) u64 by (simp add: wadd64_exact wmul64_exact)
  have "retry_sector e off s retries buf w = (False, buf, w)"
    unfolding retry_sector_def Let_def sector add none by simp
  then show ?case using Cons.IH [of "still @ [s]"] Cons.prems by simp
qed simp

lemma read_chunk_stable:
  assumes "stable_env e src" "presents src md" "off mod s_sector_size src = 0" "s_len src mod s_sector_size src = 0"
    and "off + n \<le> s_len src"
  shows "\<exists>still. read_chunk e opts off n w = (still, medium_bytes md off n, w) \<and>
    set still = {s. s < div_ceil n (s_sector_size src) \<and> md_stat md (off div s_sector_size src + s) = Bad}"
proof -
  let ?ss = "s_sector_size src"
  have pos: "0 < ?ss" by (rule presents_pos [OF assms(2)])
  let ?r = "s_read_at src off (zeros n)"
  have rd: "ev_read e w off (zeros n) = (?r, w)" using assms(1) by (simp add: stable_env_def)
  have bytes: "fst ?r = medium_bytes md off n" using presents_read [OF assms(2,3), of "zeros n"] assms(5) by simp
  have shape: "rr_shape ?ss (div_ceil n ?ss) (snd ?r)"
    using block_source.shape [OF presents_well_behaved [OF assms(2)], of "zeros n" off] by simp
  have stat: "rr_status (snd ?r) i = md_stat md (off div ?ss + i)" if "i < div_ceil n ?ss" for i
    using that assms(5) by (intro presents_status [OF assms(2,3)]) simp_all
  have bad: "set (rr_bad_sectors (snd ?r)) = {s. s < div_ceil n ?ss \<and> md_stat md (off div ?ss + s) = Bad}"
  proof -
    have "rr_status (snd ?r) i = Bad \<longleftrightarrow> i < div_ceil n ?ss \<and> md_stat md (off div ?ss + i) = Bad" for i
      using stat [of i] rr_status_out [OF shape, of i] by (cases "i < div_ceil n ?ss") auto
    then show ?thesis by (simp add: set_rr_bad_sectors)
  qed
  show ?thesis
  proof (cases "rr_any_bad (snd ?r)")
    case True
    have in_src: "off + s * ?ss < s_len src" if "s < div_ceil n ?ss" for s
      using that assms(5) pos by (simp add: less_div_ceil)
    have p: "retry_pass e off k (rr_bad_sectors (snd ?r)) [] b w = (rr_bad_sectors (snd ?r), b, w)"
        "retry_pass e off k (rev (rr_bad_sectors (snd ?r))) [] b w = (rev (rr_bad_sectors (snd ?r)), b, w)" for k b
      using retry_pass_bad [OF assms(1-4), of "rr_bad_sectors (snd ?r)" k "[]" b w] retry_pass_bad [OF assms(1-4), of "rev (rr_bad_sectors (snd ?r))" k "[]" b w] bad in_src
      by simp_all
    have eq: "read_chunk e opts off n w = (if op_reverse_pass opts then (rev (rr_bad_sectors (snd ?r)), fst ?r, w)
        else (rr_bad_sectors (snd ?r), fst ?r, w))"
    proof -
      obtain b rr where r: "?r = (b, rr)" by (metis prod.collapse)
      show ?thesis using True p unfolding read_chunk_def rd r by simp
    qed
    show ?thesis using eq bytes bad by (cases "op_reverse_pass opts") (auto intro!: exI)
  next
    case False
    then have "rr_status (snd ?r) i \<noteq> Bad" for i using rr_any_bad_iff [OF shape] by blast
    then have "set (rr_bad_sectors (snd ?r)) = {}" by (simp add: set_rr_bad_sectors)
    moreover have "read_chunk e opts off n w = ([], fst ?r, w)"
      using False by (cases ?r) (simp add: read_chunk_def rd)
    ultimately show ?thesis using bytes bad by auto
  qed
qed

section \<open>What the map and the file say\<close>

definition chunk_imaged :: "crates \<Rightarrow> medium \<Rightarrow> image_map \<Rightarrow> bytes \<Rightarrow> nat \<Rightarrow> bool" where
  "chunk_imaged cr md m f k \<longleftrightarrow>
     (case im_chunk_hashes m ! k of
        None \<Rightarrow> file_range f (k * im_chunk_size m) (chunk_len m k) = zeros (chunk_len m k)
      | Some h \<Rightarrow> h = cr_hash cr (im_hash_algo m) (medium_bytes md (k * im_chunk_size m) (chunk_len m k)) \<and>
          file_range f (k * im_chunk_size m) (chunk_len m k) = medium_bytes md (k * im_chunk_size m) (chunk_len m k))"

definition imaged :: "crates \<Rightarrow> source \<Rightarrow> medium \<Rightarrow> image_map \<Rightarrow> bytes \<Rightarrow> bool" where
  "imaged cr src md m f \<longleftrightarrow>
     raw_map m \<and> im_size m = s_len src \<and> im_sector_size m = s_sector_size src \<and>
     im_chunk_size m mod s_sector_size src = 0 \<and> runs_exact (im_bad m) \<and> im_unread m = [] \<and>
     (\<forall>k < num_chunks m. chunk_imaged cr md m f k) \<and>
     (\<forall>l. runs_contain (im_bad m) l \<longleftrightarrow>
        md_stat md l = Bad \<and> (\<exists>k < num_chunks m. im_chunk_hashes m ! k \<noteq> None \<and> in_chunk m k (l * s_sector_size src)))"

lemma chunk_imaged_same:
  "file_range f' (k * im_chunk_size m) (chunk_len m k) = file_range f (k * im_chunk_size m) (chunk_len m k) \<Longrightarrow>
    chunk_imaged cr md m f' k = chunk_imaged cr md m f k"
  by (simp add: chunk_imaged_def split: option.split)

lemma imaged_update [simp]:
  "imaged cr src md (m\<lparr>im_frames := fr\<rparr>) f = imaged cr src md m f"
  "imaged cr src md (m\<lparr>im_complete := c\<rparr>) f = imaged cr src md m f"
  "imaged cr src md (m\<lparr>im_whole_hash := h1\<rparr>) f = imaged cr src md m f"
  "imaged cr src md (m\<lparr>im_first_mib_hash := h2\<rparr>) f = imaged cr src md m f"
  "imaged cr src md (m\<lparr>im_last_mib_hash := h3\<rparr>) f = imaged cr src md m f"
  by (simp_all add: imaged_def chunk_imaged_def raw_map_def num_chunks_def chunk_len_def cong: option.case_cong)

lemma im_bad_update [simp]:
  "num_chunks (m\<lparr>im_bad := b\<rparr>) = num_chunks m" "chunk_len (m\<lparr>im_bad := b\<rparr>) k = chunk_len m k"
  "raw_map (m\<lparr>im_bad := b\<rparr>) = raw_map m" "chunk_imaged cr md (m\<lparr>im_bad := b\<rparr>) f k = chunk_imaged cr md m f k"
  by (simp_all add: raw_map_def num_chunks_def chunk_len_def chunk_imaged_def cong: option.case_cong)

lemma imaged_coalesce:
  assumes "imaged cr src md m f"
  shows "imaged cr src md (m\<lparr>im_bad := coalesce (im_bad m)\<rparr>) f"
proof -
  have "runs_exact (im_bad m)" using assms by (simp add: imaged_def)
  then have "runs_exact (coalesce (im_bad m))" "\<And>l. runs_contain (coalesce (im_bad m)) l = runs_contain (im_bad m) l"
    using coalesce_exact coalesce_correct(3) runs_exact_in_range by blast+
  then show ?thesis using assms by (simp add: imaged_def)
qed

lemma runs_contain_singles:
  assumes "\<forall>s \<in> set ss. b + s < u64_max"
  shows "runs_contain (map (\<lambda>s. \<lparr>lr_start = wadd64 b s, lr_count = 1\<rparr>) ss) l \<longleftrightarrow> (\<exists>s \<in> set ss. l = b + s)"
    and "runs_exact (map (\<lambda>s. \<lparr>lr_start = wadd64 b s, lr_count = 1\<rparr>) ss)"
proof -
  have w: "wadd64 b s = b + s \<and> b + s + 1 \<le> u64_max" if "s \<in> set ss" for s
    using assms that by (auto simp: wadd64_exact)
  show "runs_exact (map (\<lambda>s. \<lparr>lr_start = wadd64 b s, lr_count = 1\<rparr>) ss)"
    using w by (simp add: runs_exact_def list_all_iff)
  have "lr_contains \<lparr>lr_start = wadd64 b s, lr_count = 1\<rparr> l \<longleftrightarrow> l = b + s" if "s \<in> set ss" for s
    using w [OF that] lr_contains_exact [of "b + s" 1 l] by auto
  then show "runs_contain (map (\<lambda>s. \<lparr>lr_start = wadd64 b s, lr_count = 1\<rparr>) ss) l \<longleftrightarrow> (\<exists>s \<in> set ss. l = b + s)"
    by (simp add: runs_contain_iff)
qed

lemma chunk_sectors:
  assumes "0 < ss" "off mod ss = (0 :: nat)"
  shows "(\<exists>s < div_ceil n ss. l = off div ss + s) \<longleftrightarrow> off \<le> l * ss \<and> l * ss < off + n"
proof -
  obtain q where q: "off = q * ss" using assms(2) by (metis mod_0_imp_dvd dvd_def mult.commute)
  have "off \<le> l * ss \<longleftrightarrow> q \<le> l" using assms(1) by (simp add: q)
  moreover have "l * ss < off + n \<longleftrightarrow> l - q < div_ceil n ss" if "q \<le> l"
  proof -
    obtain s where s: "l = q + s" using \<open>q \<le> l\<close> by (rule le_Suc_ex [THEN exE])
    show ?thesis using assms(1) by (simp add: less_div_ceil q s add_mult_distrib)
  qed
  moreover have "off div ss = q" using assms(1) by (simp add: q)
  ultimately show ?thesis by (metis le_add1 le_add_diff_inverse add_diff_cancel_left')
qed

lemma imaged_record:
  assumes im: "imaged cr src md m f" and i: "i < num_chunks m" "im_chunk_hashes m ! i = None"
    and ss: "0 < s_sector_size src"
    and out: "\<And>j. \<not> in_chunk m i j \<Longrightarrow> file_byte f' j = file_byte f j"
    and fill: "file_range f' (i * im_chunk_size m) (chunk_len m i) = medium_bytes md (i * im_chunk_size m) (chunk_len m i)"
    and still: "set still = {s. s < div_ceil (chunk_len m i) (s_sector_size src) \<and>
        md_stat md (i * im_chunk_size m div s_sector_size src + s) = Bad}"
  shows "imaged cr src md (record_chunk cr i (i * im_chunk_size m) (s_sector_size src) still
    (medium_bytes md (i * im_chunk_size m) (chunk_len m i)) m) f'"
proof -
  let ?ss = "s_sector_size src" and ?off = "i * im_chunk_size m" and ?n = "chunk_len m i"
  let ?m = "record_chunk cr i ?off ?ss still (medium_bytes md ?off ?n) m"
  have raw: "raw_map m" and cs: "im_chunk_size m mod ?ss = 0" using im by (simp_all add: imaged_def)
  have geo: "same_geometry m ?m" by (rule record_chunk_fields)
  have n: "num_chunks ?m = num_chunks m" and c: "im_chunk_size ?m = im_chunk_size m" and l: "chunk_len ?m k = chunk_len m k"
    and h: "im_chunk_hashes ?m ! k = (if k = i then Some (cr_hash cr (im_hash_algo m) (medium_bytes md ?off ?n)) else im_chunk_hashes m ! k)"
    and al: "im_hash_algo ?m = im_hash_algo m" for k
    using geo chunk_len_same [OF geo] i(1) by (auto simp: same_geometry_def record_chunk_fields(1) num_chunks_def)
  have offm: "?off mod ?ss = 0" using cs by (metis mod_0_imp_dvd dvd_mult dvd_imp_mod_0)
  note bnd = raw_chunk_bounds [OF raw i(1)]
  have u64: "im_size m \<le> u64_max" using raw by (simp add: raw_map_def)
  have small: "\<forall>s \<in> set still. ?off div ?ss + s < u64_max"
  proof
    fix s
    assume "s \<in> set still"
    then have "s < div_ceil ?n ?ss" using still by auto
    then have "(?off div ?ss + s) * ?ss < ?off + ?n" using chunk_sectors [OF ss offm, of ?n "?off div ?ss + s"] by blast
    moreover have "?off div ?ss + s \<le> (?off div ?ss + s) * ?ss" using ss by simp
    ultimately show "?off div ?ss + s < u64_max" using bnd(3) u64 by linarith
  qed
  note runs = runs_contain_singles [OF small]
  have chunks: "chunk_imaged cr md ?m f' k" if k: "k < num_chunks m" for k
  proof (cases "k = i")
    case True
    then show ?thesis using fill by (simp add: chunk_imaged_def h c l al)
  next
    case False
    then have "file_range f' (k * im_chunk_size m) (chunk_len m k) = file_range f (k * im_chunk_size m) (chunk_len m k)"
      using chunks_disjoint [OF raw] by (intro file_range_eqI out) blast
    moreover have "chunk_imaged cr md m f k" using im k by (simp add: imaged_def)
    ultimately show ?thesis using False unfolding chunk_imaged_def h c l al by (cases "im_chunk_hashes m ! k") simp_all
  qed
  have bad: "runs_contain (im_bad ?m) b \<longleftrightarrow> md_stat md b = Bad \<and>
      (\<exists>k < num_chunks ?m. im_chunk_hashes ?m ! k \<noteq> None \<and> in_chunk ?m k (b * ?ss))" for b
  proof -
    have "(\<exists>s \<in> set still. b = ?off div ?ss + s) \<longleftrightarrow> md_stat md b = Bad \<and> in_chunk m i (b * ?ss)"
    proof -
      have "(\<exists>s \<in> set still. b = ?off div ?ss + s) \<longleftrightarrow> md_stat md b = Bad \<and> (\<exists>s < div_ceil ?n ?ss. b = ?off div ?ss + s)"
        unfolding still by blast
      then show ?thesis unfolding chunk_sectors [OF ss offm] .
    qed
    moreover have "runs_contain (im_bad m) b \<longleftrightarrow> md_stat md b = Bad \<and>
        (\<exists>k < num_chunks m. im_chunk_hashes m ! k \<noteq> None \<and> in_chunk m k (b * ?ss))"
      using im by (simp add: imaged_def)
    moreover have "runs_contain (im_bad ?m) b \<longleftrightarrow> runs_contain (im_bad m) b \<or> (\<exists>s \<in> set still. b = ?off div ?ss + s)"
      using runs(1) by (simp add: record_chunk_def)
    moreover have "(\<exists>k < num_chunks ?m. im_chunk_hashes ?m ! k \<noteq> None \<and> in_chunk ?m k (b * ?ss)) \<longleftrightarrow>
        in_chunk m i (b * ?ss) \<or> (\<exists>k < num_chunks m. im_chunk_hashes m ! k \<noteq> None \<and> in_chunk m k (b * ?ss))"
    proof -
      have hk: "im_chunk_hashes ?m ! k \<noteq> None \<longleftrightarrow> k = i \<or> im_chunk_hashes m ! k \<noteq> None" for k by (simp add: h)
      show ?thesis unfolding n c l hk using i(1) by blast
    qed
    ultimately show ?thesis by blast
  qed
  show ?thesis
    unfolding imaged_def
  proof (intro conjI allI impI)
    show "raw_map ?m" using raw raw_map_same [OF geo] by simp
    show "im_size ?m = s_len src" "im_sector_size ?m = ?ss" "im_chunk_size ?m mod ?ss = 0" "im_unread ?m = []"
      using im by (simp_all add: imaged_def record_chunk_def)
    show "runs_exact (im_bad ?m)" using im runs(2) by (simp add: imaged_def record_chunk_def runs_exact_def)
    show "chunk_imaged cr md ?m f' k" if "k < num_chunks ?m" for k using chunks that n by simp
    show "runs_contain (im_bad ?m) b = (md_stat md b = Bad \<and>
        (\<exists>k < num_chunks ?m. im_chunk_hashes ?m ! k \<noteq> None \<and> in_chunk ?m k (b * ?ss)))" for b by (rule bad)
  qed
qed

section \<open>One chunk, the loop\<close>

definition exact_inv :: "crates \<Rightarrow> 'w imaging_env \<Rightarrow> source \<Rightarrow> medium \<Rightarrow> nat \<Rightarrow> 'w imaging \<Rightarrow> bool" where
  "exact_inv cr e src md i s \<longleftrightarrow>
     imaged cr src md (ig_map s) (id_file (ig_dest s)) \<and> id_compression (ig_dest s) = NoCompression \<and>
     im_source_id (ig_map s) = ev_id e \<and>
     (\<forall>k < num_chunks (ig_map s). k < i \<longrightarrow> im_chunk_hashes (ig_map s) ! k \<noteq> None)"

text \<open>What an interrupted run leaves when its last save is accepted: a map that can be resumed.\<close>

definition resumable :: "crates \<Rightarrow> string \<Rightarrow> source \<Rightarrow> medium \<Rightarrow> map_file \<Rightarrow> bytes \<Rightarrow> bool" where
  "resumable cr sid src md mf f \<longleftrightarrow> (\<exists>m. mf = SavedMap m \<and> imaged cr src md m f \<and> im_source_id m = sid)"

lemma checkpoint_exact:
  "exact_inv cr e src md i s \<Longrightarrow> exact_inv cr e src md i (image_checkpoint e j s)"
  unfolding exact_inv_def image_checkpoint_def Let_def
  using imaged_coalesce [of cr src md "(ig_map s)\<lparr>im_frames := id_frames (ig_dest s)\<rparr>" "id_file (ig_dest s)"]
  by (auto simp: num_chunks_def)

lemma image_chunk_exact:
  fixes s :: "'w imaging"
  assumes inv: "exact_inv cr e src md i s" and i: "i < num_chunks (ig_map s)"
    and env: "stable_env e src" "presents src md" "s_len src mod s_sector_size src = 0" "\<And>k. ev_write e k = Accepted"
  shows "case image_chunk cr e opts i s of
      Next s' \<Rightarrow> exact_inv cr e src md (Suc i) s' \<and> same_geometry (ig_map s) (ig_map s')
    | Finish s' \<Rightarrow> False
    | Return r s' \<Rightarrow> ev_cancel e i \<and> (\<exists>oc. r = Inr oc \<and> \<not> oc_complete oc) \<and>
        (ev_save e i \<longrightarrow> resumable cr (ev_id e) src md (ig_map_file s') (id_file (ig_dest s')))"
proof (cases "ev_cancel e i")
  case True
  then show ?thesis using inv
    by (auto simp: image_chunk_def image_cancelled_def Let_def outcome_now_def im_save_def resumable_def exact_inv_def)
next
  case nc: False
  let ?m = "ig_map s" and ?ss = "s_sector_size src"
  have im: "imaged cr src md ?m (id_file (ig_dest s))" and rawd: "id_compression (ig_dest s) = NoCompression"
    and sid: "im_source_id ?m = ev_id e" and before: "\<And>k. k < num_chunks ?m \<Longrightarrow> k < i \<Longrightarrow> im_chunk_hashes ?m ! k \<noteq> None"
    using inv by (auto simp: exact_inv_def)
  have raw: "raw_map ?m" and size: "im_size ?m = s_len src" and cs: "im_chunk_size ?m mod ?ss = 0"
    using im by (auto simp: imaged_def)
  have pos: "0 < ?ss" by (rule presents_pos [OF env(2)])
  show ?thesis
  proof (cases "is_chunk_done ?m i")
    case True
    then have "image_chunk cr e opts i s = Next s" using nc by (simp add: image_chunk_def)
    moreover have "im_chunk_hashes ?m ! i \<noteq> None" using True by (simp add: is_chunk_done_iff)
    ultimately show ?thesis using inv by (auto simp: exact_inv_def less_Suc_eq)
  next
    case nd: False
    then have none: "im_chunk_hashes ?m ! i = None" using i by (simp add: is_chunk_done_iff)
    note b = raw_chunk_bounds [OF raw i]
    let ?off = "i * im_chunk_size ?m" and ?n = "chunk_len ?m i"
    have len: "ev_len e = s_len src" and sec: "ev_sector e = ?ss"
      using env(1) pos by (simp_all add: stable_env_def)
    have u64: "s_len src \<le> u64_max" using raw size by (simp add: raw_map_def)
    have off: "wmul64 i (im_chunk_size ?m) = ?off" and n: "min (wsub64 (ev_len e) ?off) (im_chunk_size ?m) = ?n"
      using b(1) size len u64 by (simp_all add: wmul64_exact wsub64_exact chunk_len_def)
    have offm: "?off mod ?ss = 0" using cs by (metis mod_0_imp_dvd dvd_mult dvd_imp_mod_0)
    have fits: "?off + ?n \<le> s_len src" using b(3) size by simp
    let ?buf = "medium_bytes md ?off ?n"
    obtain still where rd: "read_chunk e opts ?off ?n (ig_world s) = (still, ?buf, ig_world s)"
      and still: "set still = {x. x < div_ceil ?n ?ss \<and> md_stat md (?off div ?ss + x) = Bad}"
      using read_chunk_stable [OF env(1,2) offm env(3) fits] by blast
    obtain err d where wr: "write_chunk cr (ev_write e i) ?off ?buf (ig_dest s) = (err, d)" by (metis prod.collapse)
    have zero: "file_byte (id_file (ig_dest s)) j = 0" if "in_chunk ?m i j" for j
    proof -
      have "file_range (id_file (ig_dest s)) ?off ?n = zeros ?n"
        using im i none by (auto simp: imaged_def chunk_imaged_def)
      moreover have "j - ?off < ?n" "?off + (j - ?off) = j" using that by auto
      ultimately show ?thesis by (metis nth_file_range nth_replicate)
    qed
    have clear: "id_sparse (ig_dest s) \<longrightarrow> (\<forall>j. ?off \<le> j \<and> j < ?off + length ?buf \<longrightarrow> file_byte (id_file (ig_dest s)) j = 0)"
      using zero by simp
    note w = write_chunk_raw [OF rawd clear wr, simplified length_medium_bytes]
    have err: "err = None" using wr rawd env(4) by (auto simp: write_chunk_def put_bytes_def Let_def split: if_splits)
    let ?s1 = "s\<lparr>ig_world := ig_world s, ig_map := record_chunk cr i ?off ?ss still ?buf ?m, ig_bad_total := ig_bad_total s + length still, ig_dest := d\<rparr>"
    have "imaged cr src md (ig_map ?s1) (id_file d)"
    proof -
      have "file_byte (id_file d) j = file_byte (id_file (ig_dest s)) j" if "\<not> in_chunk ?m i j" for j
        using that by (intro w(1)) auto
      from imaged_record [OF im i none pos this w(2) [OF err] still] show ?thesis by simp
    qed
    then have "exact_inv cr e src md (Suc i) ?s1"
      using w(3) sid before
      by (auto simp: exact_inv_def record_chunk_def num_chunks_def nth_list_update less_Suc_eq)
    then have "exact_inv cr e src md (Suc i) (image_checkpoint e i ?s1)" by (rule checkpoint_exact)
    moreover have "same_geometry ?m (ig_map (image_checkpoint e i ?s1))"
      using image_checkpoint_fields(2) [of ?s1 e i] record_chunk_fields(2) [of ?m cr i ?off ?ss still ?buf]
      by (simp add: same_geometry_def)
    moreover have "image_chunk cr e opts i s = Next ((image_checkpoint e i ?s1)\<lparr>ig_progress :=
        ig_progress (image_checkpoint e i ?s1) @ [\<lparr>pg_pass = 1, pg_done = min (wadd64 ?off ?n) (ev_len e), pg_total = ev_len e,
          pg_bad_sectors = ig_bad_total (image_checkpoint e i ?s1)\<rparr>]\<rparr>)"
      using nc nd off n b(2) rd wr err sec by (simp add: image_chunk_def Let_def)
    ultimately show ?thesis by (simp add: exact_inv_def)
  qed
qed

lemma image_chunks_exact:
  fixes s :: "'w imaging"
  assumes inv: "exact_inv cr e src md 0 s"
    and env: "stable_env e src" "presents src md" "s_len src mod s_sector_size src = 0" "\<And>k. ev_write e k = Accepted"
    and save: "\<And>k. ev_save e k"
  shows "case image_chunks cr e opts 0 (num_chunks (ig_map s)) s of
      Next s' \<Rightarrow> False
    | Finish s' \<Rightarrow> exact_inv cr e src md (num_chunks (ig_map s)) s' \<and> num_chunks (ig_map s') = num_chunks (ig_map s)
    | Return r s' \<Rightarrow> (\<exists>i. ev_cancel e i) \<and> (\<exists>oc. r = Inr oc \<and> \<not> oc_complete oc) \<and>
        resumable cr (ev_id e) src md (ig_map_file s') (id_file (ig_dest s'))"
proof -
  let ?n = "num_chunks (ig_map s)"
  let ?I = "\<lambda>i s'. exact_inv cr e src md i s' \<and> num_chunks (ig_map s') = ?n"
  let ?Q = "\<lambda>r s'. (\<exists>i. ev_cancel e i) \<and> (\<exists>oc. r = Inr oc \<and> \<not> oc_complete oc) \<and>
        resumable cr (ev_id e) src md (ig_map_file s') (id_file (ig_dest s'))"
  have "case image_chunks cr e opts 0 ?n s of Next s' \<Rightarrow> False | Finish s' \<Rightarrow> ?I (0 + ?n) s' | Return r s' \<Rightarrow> ?Q r s'"
  proof (rule image_chunks_rule)
    show "?I 0 s" using inv by simp
    fix j and s' :: "'w imaging"
    assume j: "0 \<le> j" "j < 0 + ?n" and I: "?I j s'"
    then have "j < num_chunks (ig_map s')" by simp
    from image_chunk_exact [OF conjunct1 [OF I] this env, of opts]
    show "case image_chunk cr e opts j s' of Next t \<Rightarrow> ?I (Suc j) t | Finish t \<Rightarrow> False | Return r t \<Rightarrow> ?Q r t"
      using conjunct2 [OF I] save by (cases "image_chunk cr e opts j s'") (auto simp: same_geometry_def)
  qed
  then show ?thesis unfolding add_0 .
qed

section \<open>Identity hashes of a read-back image\<close>

definition reads_as :: "source \<Rightarrow> nat \<Rightarrow> nat \<Rightarrow> bytes \<Rightarrow> bool" where
  "reads_as src ss isize f \<longleftrightarrow>
     (\<forall>off n. off mod ss = 0 \<and> off + n \<le> isize \<longrightarrow> fst (s_read_at src off (zeros n)) = file_range f off n)"

lemma reads_as_mapped:
  assumes "im_compression m = NoCompression" "0 < im_sector_size m" "im_size m \<le> u64_max"
  shows "reads_as (mapped_image_source cr (mapped_image_open f m)) (im_sector_size m) (im_size m) f"
  using mapped_image_read_raw(1) [OF assms(1,2) _ _ assms(3), of _ "zeros n" cr f for n]
  by (simp add: reads_as_def mapped_image_source_def)

lemma identity_loop_ok:
  assumes rd: "reads_as src ss isize f" and al: "4 * mib mod ss = 0" "isize mod ss = 0"
  shows "off mod ss = 0 \<Longrightarrow> off \<le> isize \<Longrightarrow> first = file_range f 0 (min off mib) \<Longrightarrow>
    identity_loop src isize off d first
      = (d\<lparr>dg_fed := dg_fed d @ file_range f off (isize - off)\<rparr>, file_range f 0 (min isize mib))"
proof (induction "isize - off" arbitrary: off d first rule: less_induct)
  case less
  show ?case
  proof (cases "isize \<le> off")
    case True
    then have off: "off = isize" using less.prems(2) by simp
    show ?thesis unfolding off less.prems(3) by (subst identity_loop.simps) (simp add: file_range_def)
  next
    case False
    define n where "n = min (isize - off) (4 * mib)"
    have n: "0 < n" "off + n \<le> isize" using False by (simp_all add: n_def mib_def)
    have b: "fst (s_read_at src off (zeros n)) = file_range f off n" using rd less.prems n by (simp add: reads_as_def)
    have first: "(if off < mib then first @ take (min (mib - off) n) (file_range f off n) else first)
        = file_range f 0 (min (off + n) mib)"
    proof (cases "off < mib")
      case True
      then have "min off mib = off" "off + min (mib - off) n = min (off + n) mib" by simp_all
      then show ?thesis using True less.prems(3) file_range_append [of f 0 off "min (mib - off) n"]
        by (simp add: take_file_range)
    next
      case False
      then show ?thesis using less.prems(3) by simp
    qed
    have "(off + n) mod ss = 0"
    proof (cases "n = 4 * mib")
      case True
      then show ?thesis using less.prems(1) al(1) by (metis mod_0_imp_dvd dvd_add dvd_imp_mod_0)
    next
      case False
      then have "off + n = isize" using n(2) by (auto simp: n_def min_def split: if_splits)
      then show ?thesis using al(2) by simp
    qed
    moreover have "isize - (off + n) < isize - off" using n False by simp
    ultimately have "identity_loop src isize (off + n) (digest_update d (file_range f off n)) (file_range f 0 (min (off + n) mib))
        = (digest_update d (file_range f off n)\<lparr>dg_fed := dg_fed (digest_update d (file_range f off n)) @ file_range f (off + n) (isize - (off + n))\<rparr>,
            file_range f 0 (min isize mib))"
      using n(2) by (intro less.hyps) simp_all
    moreover have "file_range f off n @ file_range f (off + n) (isize - (off + n)) = file_range f off (isize - off)"
      using n(2) file_range_append [of f off n "isize - (off + n)"] by simp
    moreover have "identity_loop src isize off d first
        = identity_loop src isize (off + n) (digest_update d (file_range f off n)) (file_range f 0 (min (off + n) mib))"
      unfolding identity_loop.simps [of src isize off d first] Let_def n_def [symmetric] b first
      using False by (simp only: if_False)
    ultimately show ?thesis by (simp add: digest_update_def)
  qed
qed

lemma compute_identity_ok:
  assumes "im_compression m = NoCompression" "0 < im_sector_size m" "im_size m \<le> u64_max"
    and "4 * mib mod im_sector_size m = 0" "im_size m mod im_sector_size m = 0"
  shows "fst (compute_identity cr f m) = cr_hash cr (im_hash_algo m) (file_range f 0 (im_size m))"
proof -
  let ?src = "mapped_image_source cr (mapped_image_open f m)"
  have "identity_loop ?src (im_size m) 0 (digest_new (im_hash_algo m)) []
      = (digest_new (im_hash_algo m)\<lparr>dg_fed := dg_fed (digest_new (im_hash_algo m)) @ file_range f 0 (im_size m - 0)\<rparr>, file_range f 0 (min (im_size m) mib))"
    by (rule identity_loop_ok [OF reads_as_mapped [OF assms(1-3)] assms(4,5)]) (simp_all add: file_range_def)
  then show ?thesis by (simp add: compute_identity_def Let_def finalize_hex_def digest_new_def)
qed

end
