(* ===== verification/ImagerHistory.thy ===== *)
theory ImagerHistory
  imports ImagerExact
begin

text \<open>
  Whole imaging runs over a stable source: how a run starts from a fresh or an interrupted image,
  what it ends with, and what verifying the result reports.
\<close>

section \<open>Environments without failures\<close>

definition clean_env :: "'w imaging_env \<Rightarrow> source \<Rightarrow> medium \<Rightarrow> bool" where
  "clean_env e src md \<longleftrightarrow> stable_env e src \<and> presents src md \<and> s_len src mod s_sector_size src = 0 \<and>
     4 * mib mod s_sector_size src = 0 \<and>
     (\<forall>k. ev_write e k = Accepted) \<and> (\<forall>k. ev_save e k) \<and> ev_set_len e \<and> ev_sync e"

lemma clean_envD:
  assumes "clean_env e src md"
  shows "stable_env e src" "presents src md" "s_len src mod s_sector_size src = 0" "4 * mib mod s_sector_size src = 0"
    "ev_write e k = Accepted" "ev_save e k" "ev_set_len e" "ev_sync e" "0 < s_sector_size src" "s_len src \<le> u64_max"
    "ev_len e = s_len src" "ev_sector e = s_sector_size src"
proof -
  have pos: "0 < s_sector_size src" using assms presents_pos by (auto simp: clean_env_def)
  then show "stable_env e src" "presents src md" "s_len src mod s_sector_size src = 0" "4 * mib mod s_sector_size src = 0"
    "ev_write e k = Accepted" "ev_save e k" "ev_set_len e" "ev_sync e" "0 < s_sector_size src" "s_len src \<le> u64_max"
    "ev_len e = s_len src" "ev_sector e = s_sector_size src"
    using assms by (simp_all add: clean_env_def stable_env_def presents_def)
qed

section \<open>The start\<close>

lemma imaged_empty:
  assumes "raw_map m" "im_size m = s_len src" "im_sector_size m = s_sector_size src"
    and "im_chunk_size m mod s_sector_size src = 0" "im_unread m = []" "runs_exact (im_bad m)"
    and "\<And>l. \<not> runs_contain (im_bad m) l" "\<forall>k < num_chunks m. im_chunk_hashes m ! k = None"
  shows "imaged cr src md m []"
proof -
  have "file_range [] off n = zeros n" for off n by (rule nth_equalityI) (simp_all add: file_byte_def)
  then show ?thesis using assms by (simp add: imaged_def chunk_imaged_def)
qed

text \<open>A fresh start: no map to resume from, raw output, a destination that is a regular file or absent,
  and a chunk size that 32 bits hold after rounding.\<close>

definition fresh_start :: "'w imaging_env \<Rightarrow> image_options \<Rightarrow> 'w disk \<Rightarrow> bool" where
  "fresh_start e opts dk \<longleftrightarrow> (op_resume opts \<longrightarrow> dk_map dk = NoMap) \<and> op_compression opts = NoCompression \<and>
     dk_out dk \<noteq> Some NotRegular \<and> max (op_chunk_size opts) (ev_sector e) + ev_sector e \<le> 4294967296"

lemma round_up32_exact:
  assumes "0 < m" "v + m \<le> 4294967296"
  shows "round_up32 v m mod m = 0"
proof -
  have "div_ceil v m * m \<le> v + (m - 1)"
  proof (cases "v mod m = 0")
    case True
    then show ?thesis using div_mult_mod_eq [of v m] by (simp add: div_ceil_def)
  next
    case False
    then have "div_ceil v m * m = v div m * m + m" by (simp add: div_ceil_def)
    then show ?thesis using div_mult_mod_eq [of v m] assms(1) False by linarith
  qed
  then have "div_ceil v m * m \<le> 4294967295" using assms by linarith
  then show ?thesis using assms(1) by (simp add: round_up32_def Let_def)
qed

lemma fresh_begins:
  assumes env: "clean_env e src md" and fresh: "fresh_start e opts dk"
  shows "\<exists>m d. load_or_create e opts (dk_map dk) = Inr m \<and> open_dest opts m (dk_out dk) = Inr d \<and>
    exact_inv cr e src md 0 \<lparr>ig_world = w, ig_map = m, ig_dest = d, ig_bad_total = b,
        ig_since_ckpt = 0, ig_map_file = mf, ig_progress = []\<rparr>"
proof -
  note ev = clean_envD [OF env]
  let ?ss = "s_sector_size src" and ?cs = "round_up32 (max (op_chunk_size opts) (ev_sector e)) (ev_sector e)"
  let ?m = "image_map_new (ev_id e) (ev_len e) (ev_sector e) ?cs (op_hash_algo opts) NoCompression"
  let ?d = "\<lparr>id_file = [], id_compression = NoCompression, id_sparse = op_sparse opts, id_append_cursor = 0, id_frames = []\<rparr>"
  have cs: "0 < ?cs" "?cs mod ?ss = 0"
    using fresh ev(9,12) round_up32_pos [of "max (op_chunk_size opts) (ev_sector e)" "ev_sector e"]
      round_up32_exact [of "ev_sector e" "max (op_chunk_size opts) (ev_sector e)"]
    by (simp_all add: fresh_start_def)
  have load: "load_or_create e opts (dk_map dk) = Inr ?m"
    using fresh by (auto simp: load_or_create_def fresh_start_def)
  have frames: "im_frames ?m = []" "\<not> list_ex (\<lambda>h. h \<noteq> None) (im_chunk_hashes ?m)"
    by (simp_all add: image_map_new_def list_ex_iff)
  then have dest: "open_dest opts ?m (dk_out dk) = Inr ?d"
    using fresh by (auto simp: open_dest_def dest_create_def refuse_non_regular_def fresh_start_def image_map_new_def
        split: option.splits node.splits)
  have u64: "ev_len e \<le> u64_max" using ev(10,11) by simp
  note new = image_map_new_raw [OF cs(1) u64]
  have "imaged cr src md ?m []"
  proof (rule imaged_empty)
    show "raw_map ?m" by (rule new(1))
    show "im_size ?m = s_len src" "im_sector_size ?m = ?ss" "im_chunk_size ?m mod ?ss = 0" "im_unread ?m = []"
      "runs_exact (im_bad ?m)" "\<And>l. \<not> runs_contain (im_bad ?m) l"
      using ev(11,12) cs by (simp_all add: image_map_new_def runs_exact_def)
    show "\<forall>k < num_chunks ?m. im_chunk_hashes ?m ! k = None" using new(2,3) by simp
  qed
  then have "exact_inv cr e src md 0 \<lparr>ig_world = w, ig_map = ?m, ig_dest = ?d, ig_bad_total = b,
        ig_since_ckpt = 0, ig_map_file = mf, ig_progress = []\<rparr>"
    by (simp add: exact_inv_def image_map_new_def)
  then show ?thesis using load dest by blast
qed

lemma resume_begins:
  assumes env: "clean_env e src md" and resume: "op_resume opts"
    and dk: "dk_out dk = Some (Regular f)" "resumable cr (ev_id e) src md (dk_map dk) f"
  shows "\<exists>m d. load_or_create e opts (dk_map dk) = Inr m \<and> open_dest opts m (dk_out dk) = Inr d \<and>
    exact_inv cr e src md 0 \<lparr>ig_world = w, ig_map = m, ig_dest = d, ig_bad_total = b,
        ig_since_ckpt = 0, ig_map_file = mf, ig_progress = []\<rparr>"
proof -
  note ev = clean_envD [OF env]
  obtain m where m: "dk_map dk = SavedMap m" "imaged cr src md m f" "im_source_id m = ev_id e"
    using dk(2) by (auto simp: resumable_def)
  have raw: "raw_map m" using m(2) by (simp add: imaged_def)
  have rawm: "im_compression m = NoCompression" using raw by (simp add: raw_map_def)
  have load: "load_or_create e opts (dk_map dk) = Inr m"
    using resume m ev(11) raw by (simp add: load_or_create_def imaged_def raw_map_def)
  have "\<exists>d. open_dest opts m (Some (Regular f)) = Inr d"
    by (simp add: open_dest_def Let_def dest_create_def dest_open_append_def refuse_non_regular_def)
  then obtain d where d: "open_dest opts m (dk_out dk) = Inr d" using dk(1) by auto
  have "imaged cr src md m (id_file d)"
  proof (cases "dk_out dk = Some (Regular (id_file d))")
    case True
    then show ?thesis using dk(1) m(2) by simp
  next
    case False
    then have empty: "id_file d = []" and none: "\<forall>k < num_chunks m. im_chunk_hashes m ! k = None"
      using open_dest_ok(3) [OF d] resume dk(1) by auto
    show ?thesis unfolding empty
      using m(2) none by (intro imaged_empty) (auto simp: imaged_def)
  qed
  then have "exact_inv cr e src md 0 \<lparr>ig_world = w, ig_map = m, ig_dest = d, ig_bad_total = b,
        ig_since_ckpt = 0, ig_map_file = mf, ig_progress = []\<rparr>"
    using open_dest_ok(1) [OF d] m(3) rawm by (simp add: exact_inv_def)
  then show ?thesis using load d by blast
qed

section \<open>The end\<close>

lemma imaged_done_bytes:
  assumes "imaged cr src md m f" "\<forall>k < num_chunks m. im_chunk_hashes m ! k \<noteq> None" "j < s_len src"
  shows "file_byte f j = md_byte md j"
proof -
  have raw: "raw_map m" and size: "im_size m = s_len src" using assms(1) by (simp_all add: imaged_def)
  obtain i where i: "i < num_chunks m" "in_chunk m i j" using chunk_of_byte [OF raw, of j] assms(3) size by auto
  have "file_range f (i * im_chunk_size m) (chunk_len m i) = medium_bytes md (i * im_chunk_size m) (chunk_len m i)"
    using assms(1,2) i(1) by (force simp: imaged_def chunk_imaged_def)
  moreover have "j - i * im_chunk_size m < chunk_len m i" "i * im_chunk_size m + (j - i * im_chunk_size m) = j"
    using i(2) by auto
  ultimately show ?thesis by (metis nth_file_range nth_medium_bytes)
qed

lemma imaged_same_bytes:
  assumes "imaged cr src md m f" "\<And>j. j < s_len src \<Longrightarrow> file_byte f' j = file_byte f j"
  shows "imaged cr src md m f'"
proof -
  have raw: "raw_map m" and size: "im_size m = s_len src" using assms(1) by (simp_all add: imaged_def)
  have "chunk_imaged cr md m f' k" if k: "k < num_chunks m" for k
  proof -
    have "file_range f' (k * im_chunk_size m) (chunk_len m k) = file_range f (k * im_chunk_size m) (chunk_len m k)"
      using raw_chunk_bounds(3) [OF raw k] size by (intro file_range_eqI assms(2)) simp
    moreover have "chunk_imaged cr md m f k" using assms(1) k by (simp add: imaged_def)
    ultimately show ?thesis using chunk_imaged_same by blast
  qed
  then show ?thesis using assms(1) by (simp add: imaged_def)
qed

lemma imaged_done_bad:
  assumes im: "imaged cr src md m f" and all: "\<forall>k < num_chunks m. im_chunk_hashes m ! k \<noteq> None" and ss: "0 < s_sector_size src"
  shows "runs_contain (im_bad m) l \<longleftrightarrow> md_stat md l = Bad \<and> l * s_sector_size src < s_len src"
proof -
  have raw: "raw_map m" and size: "im_size m = s_len src" using im by (simp_all add: imaged_def)
  have "(\<exists>k < num_chunks m. im_chunk_hashes m ! k \<noteq> None \<and> in_chunk m k x) \<longleftrightarrow> x < s_len src" for x
  proof
    assume "\<exists>k < num_chunks m. im_chunk_hashes m ! k \<noteq> None \<and> in_chunk m k x"
    then obtain k where k: "k < num_chunks m" "in_chunk m k x" by blast
    then show "x < s_len src" using raw_chunk_bounds(3) [OF raw k(1)] size by simp
  next
    assume "x < s_len src"
    then show "\<exists>k < num_chunks m. im_chunk_hashes m ! k \<noteq> None \<and> in_chunk m k x"
      using chunk_of_byte [OF raw] size all by metis
  qed
  then show ?thesis using im by (simp add: imaged_def)
qed

text \<open>What a complete run leaves.\<close>

definition image_complete :: "crates \<Rightarrow> source \<Rightarrow> medium \<Rightarrow> image_map \<Rightarrow> bytes \<Rightarrow> bool" where
  "image_complete cr src md m f \<longleftrightarrow> imaged cr src md m f \<and> f = medium_bytes md 0 (s_len src) \<and> im_complete m \<and>
     (\<forall>k < num_chunks m. im_chunk_hashes m ! k \<noteq> None) \<and> runs_separated (im_bad m) \<and>
     im_whole_hash m = Some (cr_hash cr (im_hash_algo m) f)"

lemma finish_exact:
  assumes env: "clean_env e src md" and inv: "exact_inv cr e src md n s" and n: "num_chunks (ig_map s) \<le> n"
  shows "\<exists>oc m. fst (image_finish cr e s) = Inr oc \<and> oc_complete oc \<and>
    ig_map_file (snd (image_finish cr e s)) = SavedMap m \<and> im_source_id m = ev_id e \<and>
    image_complete cr src md m (id_file (ig_dest (snd (image_finish cr e s)))) \<and>
    oc_whole_hash oc = im_whole_hash m"
proof -
  note ev = clean_envD [OF env]
  let ?d = "set_logical_len (ev_len e) (ig_dest s)" and ?m = "ig_map s"
  have im: "imaged cr src md ?m (id_file (ig_dest s))" and rawd: "id_compression (ig_dest s) = NoCompression"
    and sid: "im_source_id ?m = ev_id e" and all: "\<forall>k < num_chunks ?m. im_chunk_hashes ?m ! k \<noteq> None"
    using inv n by (auto simp: exact_inv_def)
  have same: "file_byte (id_file ?d) j = file_byte (id_file (ig_dest s)) j" if "j < s_len src" for j
    using that ev(11) by (simp add: file_byte_set_len [OF rawd])
  have im_d: "imaged cr src md ?m (id_file ?d)" by (rule imaged_same_bytes [OF im same])
  have len: "length (id_file ?d) = s_len src" using ev(11) by (simp add: length_set_len [OF rawd])
  have bytes: "id_file ?d = medium_bytes md 0 (s_len src)"
    using imaged_done_bytes [OF im_d all] len by (intro nth_equalityI) (simp_all add: file_byte_def)
  let ?m1 = "?m\<lparr>im_frames := id_frames ?d, im_bad := coalesce (im_bad ?m), im_complete := True\<rparr>"
  have every: "list_all (\<lambda>h. h \<noteq> None) (im_chunk_hashes ?m)" using all by (simp add: list_all_length num_chunks_def)
  have "imaged cr src md (?m\<lparr>im_frames := id_frames ?d\<rparr>) (id_file ?d)" using im_d by simp
  from imaged_coalesce [OF this] have im1: "imaged cr src md ?m1 (id_file ?d)" by simp
  have exact: "runs_exact (im_bad ?m)" using im by (simp add: imaged_def)
  let ?ids = "compute_identity cr (id_file ?d) ?m1"
  let ?m2 = "?m1\<lparr>im_whole_hash := Some (fst ?ids), im_first_mib_hash := Some (fst (snd ?ids)), im_last_mib_hash := Some (snd (snd ?ids))\<rparr>"
  have "fst ?ids = cr_hash cr (im_hash_algo ?m1) (file_range (id_file ?d) 0 (im_size ?m1))"
    using im1 ev(3,4,9,10) by (intro compute_identity_ok) (simp_all add: imaged_def raw_map_def)
  moreover have "im_size ?m1 = s_len src" using im by (simp add: imaged_def)
  ultimately have whole: "fst ?ids = cr_hash cr (im_hash_algo ?m) (id_file ?d)"
    using file_range_whole [OF len] by simp
  have "image_complete cr src md ?m2 (id_file ?d)"
    unfolding image_complete_def
    using im1 bytes all whole coalesce_correct(1) [OF runs_exact_in_range [OF exact]]
    by (simp add: num_chunks_def)
  moreover have "image_finish cr e s = (Inr (outcome_now True (Some (fst ?ids))
      (s\<lparr>ig_dest := ?d, ig_map := ?m2, ig_map_file := SavedMap ?m2\<rparr>)), s\<lparr>ig_dest := ?d, ig_map := ?m2, ig_map_file := SavedMap ?m2\<rparr>)"
    using ev(6-8) every by (simp add: image_finish_def Let_def im_save_def)
  ultimately show ?thesis using sid by (auto simp: outcome_now_def)
qed

section \<open>A run, and runs after runs\<close>

lemma image_run_clean:
  fixes dk :: "'w disk"
  assumes env: "clean_env e src md"
    and start: "load_or_create e opts (dk_map dk) = Inr m" "open_dest opts m (dk_out dk) = Inr d"
      "exact_inv cr e src md 0 \<lparr>ig_world = dk_world dk, ig_map = m, ig_dest = d, ig_bad_total = b,
        ig_since_ckpt = 0, ig_map_file = mf, ig_progress = []\<rparr>"
  shows "\<exists>f. dk_out (snd (image_run cr e opts dk)) = Some (Regular f) \<and>
    resumable cr (ev_id e) src md (dk_map (snd (image_run cr e opts dk))) f \<and>
    ((\<forall>i. \<not> ev_cancel e i) \<longrightarrow> (\<exists>oc m. fst (image_run cr e opts dk) = Inr oc \<and> oc_complete oc \<and>
      dk_map (snd (image_run cr e opts dk)) = SavedMap m \<and> image_complete cr src md m f \<and> oc_whole_hash oc = im_whole_hash m))"
proof -
  note ev = clean_envD [OF env]
  let ?s0 = "\<lparr>ig_world = dk_world dk, ig_map = m, ig_dest = d, ig_bad_total = im_bad_sectors m,
      ig_since_ckpt = 0, ig_map_file = dk_map dk, ig_progress = []\<rparr>"
  have inv: "exact_inv cr e src md 0 ?s0" using start(3) by (simp add: exact_inv_def)
  have loop: "case image_chunks cr e opts 0 (num_chunks m) ?s0 of
      Next s' \<Rightarrow> False
    | Finish s' \<Rightarrow> exact_inv cr e src md (num_chunks m) s' \<and> num_chunks (ig_map s') = num_chunks m
    | Return r s' \<Rightarrow> (\<exists>i. ev_cancel e i) \<and> (\<exists>oc. r = Inr oc \<and> \<not> oc_complete oc) \<and>
        resumable cr (ev_id e) src md (ig_map_file s') (id_file (ig_dest s'))"
    using image_chunks_exact [OF inv ev(1-3,5,6), of opts] unfolding imaging.select_convs .
  show ?thesis
  proof (cases "image_chunks cr e opts 0 (num_chunks m) ?s0")
    case (Next s')
    then show ?thesis using loop by simp
  next
    case (Finish s')
    then have run: "image_run cr e opts dk = (fst (image_finish cr e s'),
        \<lparr>dk_out = Some (Regular (id_file (ig_dest (snd (image_finish cr e s'))))), dk_map = ig_map_file (snd (image_finish cr e s')),
         dk_world = ig_world (snd (image_finish cr e s')), dk_progress = dk_progress dk @ ig_progress (snd (image_finish cr e s'))\<rparr>)"
      using start(1,2) by (simp add: image_run_def Let_def)
    have "exact_inv cr e src md (num_chunks m) s'" "num_chunks (ig_map s') \<le> num_chunks m" using loop Finish by simp_all
    from finish_exact [OF env this] show ?thesis
      unfolding run by (auto simp: resumable_def image_complete_def)
  next
    case (Return r s')
    then have run: "image_run cr e opts dk = (r,
        \<lparr>dk_out = Some (Regular (id_file (ig_dest s'))), dk_map = ig_map_file s',
         dk_world = ig_world s', dk_progress = dk_progress dk @ ig_progress s'\<rparr>)"
      using start(1,2) by (simp add: image_run_def Let_def)
    show ?thesis using loop Return unfolding run by auto
  qed
qed

text \<open>The disks that imaging one source leaves: a fresh run, interrupted anywhere or not, then any
  number of resumed runs, each interrupted anywhere or not.\<close>

inductive imaging_history :: "crates \<Rightarrow> source \<Rightarrow> medium \<Rightarrow> string \<Rightarrow> 'w disk \<Rightarrow> bool" for cr src md sid where
  history_start: "clean_env e src md \<Longrightarrow> ev_id e = sid \<Longrightarrow> fresh_start e opts dk \<Longrightarrow>
    imaging_history cr src md sid (snd (image_run cr e opts dk))"
| history_resume: "imaging_history cr src md sid dk \<Longrightarrow> clean_env e src md \<Longrightarrow> ev_id e = sid \<Longrightarrow> op_resume opts \<Longrightarrow>
    imaging_history cr src md sid (snd (image_run cr e opts dk))"

lemma run_fresh:
  assumes "clean_env e src md" "fresh_start e opts dk"
  shows "\<exists>f. dk_out (snd (image_run cr e opts dk)) = Some (Regular f) \<and>
    resumable cr (ev_id e) src md (dk_map (snd (image_run cr e opts dk))) f \<and>
    ((\<forall>i. \<not> ev_cancel e i) \<longrightarrow> (\<exists>oc m. fst (image_run cr e opts dk) = Inr oc \<and> oc_complete oc \<and>
      dk_map (snd (image_run cr e opts dk)) = SavedMap m \<and> image_complete cr src md m f \<and> oc_whole_hash oc = im_whole_hash m))"
  using fresh_begins [OF assms, of cr "dk_world dk" 0 NoMap] image_run_clean [OF assms(1)] by blast

lemma run_resumed:
  assumes "clean_env e src md" "op_resume opts" "dk_out dk = Some (Regular f0)" "resumable cr (ev_id e) src md (dk_map dk) f0"
  shows "\<exists>f. dk_out (snd (image_run cr e opts dk)) = Some (Regular f) \<and>
    resumable cr (ev_id e) src md (dk_map (snd (image_run cr e opts dk))) f \<and>
    ((\<forall>i. \<not> ev_cancel e i) \<longrightarrow> (\<exists>oc m. fst (image_run cr e opts dk) = Inr oc \<and> oc_complete oc \<and>
      dk_map (snd (image_run cr e opts dk)) = SavedMap m \<and> image_complete cr src md m f \<and> oc_whole_hash oc = im_whole_hash m))"
  using resume_begins [OF assms, of "dk_world dk" 0 NoMap] image_run_clean [OF assms(1)] by blast

lemma history_resumable:
  "imaging_history cr src md sid dk \<Longrightarrow> \<exists>f. dk_out dk = Some (Regular f) \<and> resumable cr sid src md (dk_map dk) f"
proof (induction rule: imaging_history.induct)
  case (history_start e opts dk)
  then show ?case using run_fresh [of e src md opts dk cr] by blast
next
  case (history_resume dk e opts)
  then show ?case using run_resumed [of e src md opts dk _ cr] by blast
qed

section \<open>Verification\<close>

lemma verify_loop_ok:
  assumes rd: "reads_as src ss (im_size m) f" and cs: "0 < im_chunk_size m" "im_chunk_size m mod ss = 0" and u64: "im_size m \<le> u64_max"
  shows "\<forall>k < length hs. (i + k) * im_chunk_size m < im_size m \<and>
      hs ! k = Some (cr_hash cr (im_hash_algo m) (file_range f ((i + k) * im_chunk_size m) (chunk_len m (i + k)))) \<Longrightarrow>
    verify_loop cr src m i hs (whole, mm, ck)
      = (whole\<lparr>dg_fed := dg_fed whole @ file_range f (i * im_chunk_size m) (min (im_size m - i * im_chunk_size m) (length hs * im_chunk_size m))\<rparr>,
         mm, ck + length hs)"
proof (induction hs arbitrary: i whole ck)
  case Nil
  then show ?case by (simp add: file_range_def)
next
  case (Cons h hs)
  let ?c = "im_chunk_size m" and ?z = "im_size m"
  have i: "i * ?c < ?z" "h = Some (cr_hash cr (im_hash_algo m) (file_range f (i * ?c) (chunk_len m i)))"
    using Cons.prems [rule_format, of 0] by simp_all
  have off: "wmul64 i ?c = i * ?c" using i(1) u64 by (simp add: wmul64_exact)
  have n: "min (?z - i * ?c) ?c = chunk_len m i" by (simp add: chunk_len_def)
  have "i * ?c mod ss = 0" using cs(2) by (metis mod_0_imp_dvd dvd_mult dvd_imp_mod_0)
  moreover have "i * ?c + chunk_len m i \<le> ?z" using i(1) by (simp add: chunk_len_def)
  ultimately have b: "fst (s_read_at src (i * ?c) (zeros (chunk_len m i))) = file_range f (i * ?c) (chunk_len m i)"
    using rd by (simp add: reads_as_def)
  have max1: "max ?c 1 = ?c" using cs(1) by simp
  have step: "verify_loop cr src m i (h # hs) (whole, mm, ck)
      = verify_loop cr src m (Suc i) hs (digest_update whole (file_range f (i * ?c) (chunk_len m i)), mm, ck + 1)"
    unfolding verify_loop.simps Let_def max1 off n b using i by simp
  have "\<forall>k < length hs. (Suc i + k) * ?c < ?z \<and>
      hs ! k = Some (cr_hash cr (im_hash_algo m) (file_range f ((Suc i + k) * ?c) (chunk_len m (Suc i + k))))"
    using Cons.prems by (metis Suc_mono add_Suc_shift length_Cons nth_Cons_Suc)
  from Cons.IH [OF this, of "digest_update whole (file_range f (i * ?c) (chunk_len m i))" "ck + 1"]
  have rest: "verify_loop cr src m i (h # hs) (whole, mm, ck)
      = (digest_update whole (file_range f (i * ?c) (chunk_len m i))\<lparr>dg_fed := dg_fed (digest_update whole (file_range f (i * ?c) (chunk_len m i))) @
          file_range f (Suc i * ?c) (min (?z - Suc i * ?c) (length hs * ?c))\<rparr>, mm, ck + 1 + length hs)"
    unfolding step .
  have "file_range f (i * ?c) (chunk_len m i) @ file_range f (Suc i * ?c) (min (?z - Suc i * ?c) (length hs * ?c))
      = file_range f (i * ?c) (min (?z - i * ?c) (Suc (length hs) * ?c))"
  proof (cases "Suc i * ?c \<le> ?z")
    case True
    then have "chunk_len m i = ?c" "i * ?c + ?c = Suc i * ?c" by (simp_all add: chunk_len_def)
    moreover have "?c + min (?z - Suc i * ?c) (length hs * ?c) = min (?z - i * ?c) (Suc (length hs) * ?c)"
      using True unfolding mult_Suc by linarith
    ultimately show ?thesis using file_range_append [of f "i * ?c" ?c "min (?z - Suc i * ?c) (length hs * ?c)"] by (simp add: add.commute)
  next
    case False
    then have "min (?z - Suc i * ?c) (length hs * ?c) = 0" "min (?z - i * ?c) (Suc (length hs) * ?c) = chunk_len m i"
      by (simp_all add: chunk_len_def)
    then show ?thesis by (simp add: file_range_def)
  qed
  then show ?case unfolding rest by (simp add: digest_update_def)
qed

lemma imaged_done_hash:
  assumes "imaged cr src md m f" "k < num_chunks m" "im_chunk_hashes m ! k \<noteq> None"
  shows "im_chunk_hashes m ! k = Some (cr_hash cr (im_hash_algo m) (file_range f (k * im_chunk_size m) (chunk_len m k)))"
  using assms by (force simp: imaged_def chunk_imaged_def)

lemma complete_bad_count:
  assumes "image_complete cr src md m f" "0 < s_sector_size src"
  shows "im_bad_sectors m = card {l. md_stat md l = Bad \<and> l * s_sector_size src < s_len src}"
proof -
  have im: "imaged cr src md m f" and all: "\<forall>k < num_chunks m. im_chunk_hashes m ! k \<noteq> None" and sep: "runs_separated (im_bad m)"
    using assms(1) unfolding image_complete_def by blast+
  have exact: "runs_exact (im_bad m)" and u64: "s_len src \<le> u64_max" using im by (auto simp: imaged_def raw_map_def)
  have set: "lba_set (im_bad m) = {l. md_stat md l = Bad \<and> l * s_sector_size src < s_len src}"
    using imaged_done_bad [OF im all assms(2)] by (simp add: lba_set_def)
  have "lba_set (im_bad m) \<subseteq> {..<s_len src}"
  proof
    fix l
    assume "l \<in> lba_set (im_bad m)"
    then have "l * s_sector_size src < s_len src" by (simp add: set)
    moreover have "l \<le> l * s_sector_size src" using assms(2) by simp
    ultimately have "l < s_len src" by (rule order.strict_trans1 [rotated])
    then show "l \<in> {..<s_len src}" by simp
  qed
  then have "card (lba_set (im_bad m)) \<le> s_len src" using card_mono [of "{..<s_len src}"] by fastforce
  then have "sum_list (map lr_count (im_bad m)) mod u64_size = card (lba_set (im_bad m))"
    using sum_count_card [OF exact sep] u64 by simp
  then show ?thesis by (simp add: im_bad_sectors_def set)
qed

lemma verify_complete:
  assumes fin: "image_complete cr src md m f" and ss: "0 < s_sector_size src" "s_len src mod s_sector_size src = 0"
  shows "verify_image cr (Some (Regular f)) (SavedMap m) = Inr \<lparr>vr_whole_ok = True, vr_chunk_mismatches = 0,
    vr_chunks_checked = num_chunks m, vr_bad_sectors = card {l. md_stat md l = Bad \<and> l * s_sector_size src < s_len src}\<rparr>"
proof -
  have im: "imaged cr src md m f" and all: "\<forall>k < num_chunks m. im_chunk_hashes m ! k \<noteq> None"
    and whole: "im_whole_hash m = Some (cr_hash cr (im_hash_algo m) f)" and f: "f = medium_bytes md 0 (s_len src)"
    using fin unfolding image_complete_def by blast+
  have raw: "raw_map m" and geo: "im_size m = s_len src" "im_sector_size m = s_sector_size src"
      "im_chunk_size m mod s_sector_size src = 0"
    using im by (simp_all add: imaged_def)
  have cs: "0 < im_chunk_size m" and u64: "im_size m \<le> u64_max" and comp: "im_compression m = NoCompression"
    and num: "num_chunks m = div_ceil (im_size m) (im_chunk_size m)"
    using raw by (simp_all add: raw_map_def)
  let ?src = "mapped_image_source cr (mapped_image_open f m)"
  have rd: "reads_as ?src (s_sector_size src) (im_size m) f"
    using reads_as_mapped [OF comp _ u64, of cr f] ss geo by simp
  have "\<forall>k < length (im_chunk_hashes m). (0 + k) * im_chunk_size m < im_size m \<and>
      im_chunk_hashes m ! k = Some (cr_hash cr (im_hash_algo m) (file_range f ((0 + k) * im_chunk_size m) (chunk_len m (0 + k))))"
    using imaged_done_hash [OF im] all raw_chunk_bounds(1) [OF raw] by (simp add: num_chunks_def)
  from verify_loop_ok [OF rd cs geo(3) u64 this, of "digest_new (im_hash_algo m)" 0 0]
  have loop: "verify_loop cr ?src m 0 (im_chunk_hashes m) (digest_new (im_hash_algo m), 0, 0)
      = (\<lparr>dg_algo = im_hash_algo m, dg_fed = file_range f 0 (min (im_size m) (num_chunks m * im_chunk_size m))\<rparr>, 0, num_chunks m)"
    by (simp add: digest_new_def num_chunks_def)
  have "im_size m \<le> num_chunks m * im_chunk_size m" unfolding num by (rule div_ceil_lower [OF cs])
  then have fed: "file_range f 0 (min (im_size m) (num_chunks m * im_chunk_size m)) = f"
    using file_range_whole [of f "im_size m"] geo(1) by (simp add: f min_absorb1)
  show ?thesis
    using complete_bad_count [OF fin ss(1)] whole by (simp add: verify_image_def loop fed finalize_hex_def)
qed

section \<open>The image read back as a source\<close>

lemma sized_file_read_any:
  "length (fst (sized_file_read c len ss off buf)) = length buf"
  "length buf = length buf' \<Longrightarrow> sized_file_read c len ss off buf = sized_file_read c len ss off buf'"
proof -
  show "length (fst (sized_file_read c len ss off buf)) = length buf"
    by (simp add: sized_file_read_def read_file_at_def Let_def whole_fill_any)
  show "length buf = length buf' \<Longrightarrow> sized_file_read c len ss off buf = sized_file_read c len ss off buf'"
    unfolding sized_file_read_def read_file_at_def length_0_conv [symmetric] by (simp only:)
qed

lemma block_source_mapped_image:
  assumes "im_compression m = NoCompression" "0 < im_sector_size m"
  shows "block_source (mapped_image_read cr (mapped_image_open f m)) (im_sector_size m)"
proof
  fix off i and buf buf' :: bytes
  let ?mi = "mapped_image_open f m" and ?ss = "im_sector_size m"
  have fields: "mi_map ?mi = m" "mi_file ?mi = f" by (simp_all add: mapped_image_open_def)
  have max1: "max ?ss 1 = ?ss" using assms(2) by simp
  have rd: "mapped_image_read cr ?mi off b =
      (if off mod ?ss \<noteq> 0 then (zeros (length b), mark_bads [0..<div_ceil (length b) ?ss] (rr_good ?ss (div_ceil (length b) ?ss)))
       else (fst (sized_file_read f (im_size m) ?ss off b),
         overlay_status ?mi off (mark_bads (rr_bad_sectors (snd (sized_file_read f (im_size m) ?ss off b))) (rr_good ?ss (div_ceil (length b) ?ss)))))" for b
    by (simp only: mapped_image_read_def Let_def fields max1 assms(1) compression.case)
  have over: "rr_shape ?ss n (overlay_status ?mi off r)" if "rr_shape ?ss n r" for n r
    using overlay_sectors_status [OF that order.refl] that by (simp add: overlay_status_def Let_def rr_shape_def)
  show "0 < ?ss" by (rule assms(2))
  show "length (fst (mapped_image_read cr ?mi off buf)) = length buf" unfolding rd by (simp add: sized_file_read_any(1))
  show "length buf = length buf' \<Longrightarrow> mapped_image_read cr ?mi off buf = mapped_image_read cr ?mi off buf'"
    unfolding rd using sized_file_read_any(2) [of buf buf' f "im_size m" ?ss off] by simp
  show "rr_shape ?ss (div_ceil (length buf) ?ss) (snd (mapped_image_read cr ?mi off buf))"
    unfolding rd by (simp add: over rr_simps)
  show "rr_status (snd (mapped_image_read cr ?mi off buf)) i = Bad" if "off mod ?ss \<noteq> 0" "i < div_ceil (length buf) ?ss"
    using that by (simp add: rd rr_status_mark_bads [OF rr_shape_good])
qed

lemma complete_reads_back:
  assumes fin: "image_complete cr src md m f" and ss: "0 < s_sector_size src"
  shows "presents (mapped_image_source cr (mapped_image_open f m))
    \<lparr>md_byte = md_byte md, md_stat = (\<lambda>l. if md_stat md l = Bad then Bad else Good)\<rparr>"
proof -
  have im: "imaged cr src md m f" and all: "\<forall>k < num_chunks m. im_chunk_hashes m ! k \<noteq> None"
    and f: "f = medium_bytes md 0 (s_len src)"
    using fin unfolding image_complete_def by blast+
  have raw: "raw_map m" and geo: "im_size m = s_len src" "im_sector_size m = s_sector_size src"
    and runs: "runs_in_range (im_bad m)" "im_unread m = []" "runs_in_range (im_unread m)"
    using im runs_exact_in_range by (auto simp: imaged_def runs_in_range_def)
  have cs: "0 < im_chunk_size m" and u64: "im_size m \<le> u64_max" and comp: "im_compression m = NoCompression"
    and num: "num_chunks m = div_ceil (im_size m) (im_chunk_size m)"
    using raw by (simp_all add: raw_map_def)
  have ss': "0 < im_sector_size m" using ss geo by simp
  let ?rd = "mapped_image_read cr (mapped_image_open f m)" and ?ss = "im_sector_size m"
  have "sector_source ?rd ?ss (im_size m) (md_byte md) (\<lambda>l. if md_stat md l = Bad then Bad else Good)"
  proof (rule sector_sourceI [OF block_source_mapped_image [OF comp ss']])
    fix off j i and buf :: bytes
    assume a: "off mod ?ss = 0" "off + length buf \<le> im_size m"
    note rd = mapped_image_read_raw [OF comp ss' a u64, where cr = cr and f = f]
    show "fst (?rd off buf) ! j = md_byte md (off + j)" if "j < length buf"
      using that a(2) imaged_done_bytes [OF im all, of "off + j"] geo by (simp add: rd(1))
    show "rr_status (snd (?rd off buf)) i = (if md_stat md (off div ?ss + i) = Bad then Bad else Good)"
      if i: "i < div_ceil (length buf) ?ss"
    proof -
      let ?l = "off div ?ss + i"
      have "i * ?ss < length buf" using i ss' by (simp add: less_div_ceil)
      moreover have "off = off div ?ss * ?ss" using a(1) by auto
      ultimately have l: "?l * ?ss < im_size m" using a(2) by (simp add: algebra_simps)
      then have "?l * ?ss div im_chunk_size m < num_chunks m" unfolding num by (rule div_less_div_ceil [OF cs])
      then have "is_chunk_done m (?l * ?ss div max (im_chunk_size m) 1)" using all cs by (simp add: is_chunk_done_iff)
      moreover have "\<not> length f < off + min (Suc i * ?ss) (length buf)" using a(2) geo(1) by (simp add: f)
      moreover have "runs_contain (im_bad m) ?l \<longleftrightarrow> md_stat md ?l = Bad" using imaged_done_bad [OF im all ss, of ?l] l geo by simp
      ultimately show ?thesis using rd(3) [OF runs(1,3) i] runs(2) by (simp add: imaged_status_def)
    qed
  qed
  then show ?thesis using ss' u64 by (simp add: presents_def mapped_image_source_def mapped_image_open_def)
qed

end
