(* ===== verification/ImagerTheorems.thy ===== *)
theory ImagerTheorems
  imports ImagerHistory
begin

text \<open>
  What the imager promises: properties of runs over every source and every failure, and of runs over
  a stable source, each with a closed instance.
\<close>

section \<open>A small world for the instances\<close>

definition no_crates :: crates where
  "no_crates = \<lparr>cr_hash = (\<lambda>a b. map (\<lambda>x. char_of (unat x)) b), cr_compress = (\<lambda>b. Some b), cr_decompress = (\<lambda>b n. Some b)\<rparr>"

definition spoiled_medium :: medium where
  "spoiled_medium = \<lparr>md_byte = (\<lambda>j. of_nat (j + 1)), md_stat = (\<lambda>l. if l = 1 then Bad else if l = 2 then Unread else Good)\<rparr>"

definition small_env :: "(nat \<Rightarrow> bool) \<Rightarrow> unit imaging_env" where
  "small_env cancel = \<lparr>ev_read = (\<lambda>w off buf. (s_read_at (medium_source spoiled_medium 4 16) off buf, w)), ev_len = 16,
     ev_sector_size = 4, ev_id = ''disk'', ev_cancel = cancel, ev_write = (\<lambda>_. Accepted), ev_save = (\<lambda>_. True),
     ev_set_len = True, ev_sync = True\<rparr>"

definition small_options :: "bool \<Rightarrow> image_options" where
  "small_options resume = \<lparr>op_chunk_size = 8, op_retries = 2, op_reverse_pass = True, op_sparse = False,
     op_compression = NoCompression, op_hash_algo = Sha256, op_resume = resume\<rparr>"

definition blank_disk :: "unit disk" where
  "blank_disk = \<lparr>dk_out = None, dk_map = NoMap, dk_world = (), dk_progress = []\<rparr>"

lemma clean_small_env: "clean_env (small_env cancel) (medium_source spoiled_medium 4 16) spoiled_medium"
  using presents_medium_source [of 4 16 spoiled_medium]
  by (simp add: clean_env_def stable_env_def small_env_def mib_def)

lemma fresh_small: "fresh_start (small_env cancel) (small_options False) blank_disk"
  by (simp add: fresh_start_def small_env_def small_options_def blank_disk_def)

lemma small_bytes: "medium_bytes spoiled_medium 0 16 = [1, 2, 3, 4, 5, 6, 7, 8, 9, 10, 11, 12, 13, 14, 15, 16]"
proof -
  have "[0..<16] = [0, 1, 2, 3, 4, 5, 6, 7, 8, 9, 10, 11, 12, 13, 14, 15 :: nat]" by (simp add: upt_rec)
  then show ?thesis by (simp add: medium_bytes_def spoiled_medium_def)
qed

section \<open>Complete runs\<close>

text \<open>C7: Imaging to a raw file is exact: over a source that answers every read of a sector the same way, an
  uninterrupted run on fresh files without compression ends complete, the output is the source byte for byte (sparse
  output included), the saved map records exactly the bad sectors, every chunk's hash and the hash
  of the whole output, and the run reports that hash. The conditions (\<^verbatim>\<open>clean_env\<close>, \<^verbatim>\<open>fresh_start\<close>): no map to resume from,
  every write, save of the map, resize and sync succeeds, the source has a whole number of sectors whose size divides 4 MiB
  (with sectors of 520 bytes the whole hash is another one), the chunk size fits 32 bits when rounded up to sectors, and the
  destination is absent or a regular file. Compressed output is not covered.\<close>

theorem image_exact:
  assumes "clean_env e src md" "fresh_start e opts dk" "\<forall>i. \<not> ev_cancel e i"
  shows "\<exists>oc m f. fst (image_run cr e opts dk) = Inr oc \<and> oc_complete oc \<and>
    dk_out (snd (image_run cr e opts dk)) = Some (Regular f) \<and> f = medium_bytes md 0 (s_len src) \<and>
    dk_map (snd (image_run cr e opts dk)) = SavedMap m \<and> im_complete m \<and>
    (\<forall>l. runs_contain (im_bad m) l \<longleftrightarrow> md_stat md l = Bad \<and> l * s_sector_size src < s_len src) \<and>
    (\<forall>k < num_chunks m. im_chunk_hashes m ! k
      = Some (cr_hash cr (im_hash_algo m) (file_range f (k * im_chunk_size m) (chunk_len m k)))) \<and>
    im_whole_hash m = Some (cr_hash cr (im_hash_algo m) f) \<and> oc_whole_hash oc = im_whole_hash m"
proof -
  obtain f oc m where r: "dk_out (snd (image_run cr e opts dk)) = Some (Regular f)"
      "fst (image_run cr e opts dk) = Inr oc" "oc_complete oc" "dk_map (snd (image_run cr e opts dk)) = SavedMap m"
      "image_complete cr src md m f" "oc_whole_hash oc = im_whole_hash m"
    using run_fresh [OF assms(1,2), of cr] assms(3) by blast
  then have c: "imaged cr src md m f" "f = medium_bytes md 0 (s_len src)" "im_complete m"
      "\<forall>k < num_chunks m. im_chunk_hashes m ! k \<noteq> None" "im_whole_hash m = Some (cr_hash cr (im_hash_algo m) f)"
    unfolding image_complete_def by blast+
  show ?thesis
    using r c imaged_done_bad [OF c(1,4) clean_envD(9) [OF assms(1)]] imaged_done_hash [OF c(1)] by blast
qed

theorem image_exact_witness:
  "dk_out (snd (image_run no_crates (small_env (\<lambda>_. False)) (small_options False) blank_disk))
    = Some (Regular [1, 2, 3, 4, 5, 6, 7, 8, 9, 10, 11, 12, 13, 14, 15, 16])"
  using image_exact [OF clean_small_env fresh_small, of "\<lambda>_. False" no_crates] small_bytes
  by (auto simp: small_env_def)

text \<open>C8: Cancelled runs to a raw file leave no trace: after a fresh run and any number of resumed runs of the
  same source, each cancelled before any chunk or not at all, one resumed run that is not cancelled
  ends complete with exactly the output, the bad sectors and the hashes of an uninterrupted run. Each run of the history
  satisfies the conditions of \<^verbatim>\<open>image_exact\<close> (no write, save, resize or sync is refused, a whole number of sectors whose size
  divides 4 MiB), and the first one starts without compression on fresh files; runs that end by a failing write
  and compressed output are not covered.\<close>

theorem image_resumes:
  assumes "imaging_history cr src md (ev_id e) dk" "clean_env e src md" "op_resume opts" "\<forall>i. \<not> ev_cancel e i"
  shows "\<exists>oc m f. fst (image_run cr e opts dk) = Inr oc \<and> oc_complete oc \<and>
    dk_out (snd (image_run cr e opts dk)) = Some (Regular f) \<and> f = medium_bytes md 0 (s_len src) \<and>
    dk_map (snd (image_run cr e opts dk)) = SavedMap m \<and> im_complete m \<and>
    (\<forall>l. runs_contain (im_bad m) l \<longleftrightarrow> md_stat md l = Bad \<and> l * s_sector_size src < s_len src) \<and>
    (\<forall>k < num_chunks m. im_chunk_hashes m ! k
      = Some (cr_hash cr (im_hash_algo m) (file_range f (k * im_chunk_size m) (chunk_len m k)))) \<and>
    im_whole_hash m = Some (cr_hash cr (im_hash_algo m) f) \<and> oc_whole_hash oc = im_whole_hash m"
proof -
  obtain f0 where "dk_out dk = Some (Regular f0)" "resumable cr (ev_id e) src md (dk_map dk) f0"
    using history_resumable [OF assms(1)] by blast
  then obtain f oc m where r: "dk_out (snd (image_run cr e opts dk)) = Some (Regular f)"
      "fst (image_run cr e opts dk) = Inr oc" "oc_complete oc" "dk_map (snd (image_run cr e opts dk)) = SavedMap m"
      "image_complete cr src md m f" "oc_whole_hash oc = im_whole_hash m"
    using run_resumed [OF assms(2,3), of dk f0 cr] assms(4) by blast
  then have c: "imaged cr src md m f" "f = medium_bytes md 0 (s_len src)" "im_complete m"
      "\<forall>k < num_chunks m. im_chunk_hashes m ! k \<noteq> None" "im_whole_hash m = Some (cr_hash cr (im_hash_algo m) f)"
    unfolding image_complete_def by blast+
  show ?thesis
    using r c imaged_done_bad [OF c(1,4) clean_envD(9) [OF assms(2)]] imaged_done_hash [OF c(1)] by blast
qed

theorem image_resumes_witness:
  "dk_out (snd (image_run no_crates (small_env (\<lambda>_. False)) (small_options True)
      (snd (image_run no_crates (small_env (\<lambda>i. i = 1)) (small_options False) blank_disk))))
    = Some (Regular [1, 2, 3, 4, 5, 6, 7, 8, 9, 10, 11, 12, 13, 14, 15, 16])"
proof -
  have "imaging_history no_crates (medium_source spoiled_medium 4 16) spoiled_medium (ev_id (small_env (\<lambda>_. False)))
      (snd (image_run no_crates (small_env (\<lambda>i. i = 1)) (small_options False) blank_disk))"
    by (rule history_start [OF clean_small_env _ fresh_small]) (simp add: small_env_def)
  from image_resumes [OF this clean_small_env, of "small_options True"] show ?thesis
    using small_bytes by (auto simp: small_env_def small_options_def)
qed

section \<open>Verifying and reading back\<close>

text \<open>C10: A complete raw image verifies: checking the output of an uninterrupted run without compression against its map
  reports the whole hash as matching, every chunk checked, no mismatch, and as many bad sectors as
  the source has. The conditions are those of \<^verbatim>\<open>image_exact\<close>: a fresh run in which no write, save, resize or sync fails, over a
  source that answers every read of a sector the same way and has a whole number of sectors whose size divides 4 MiB. With a
  size that does not, such as 520 bytes, the run and the verification hash different bytes.\<close>

theorem image_verifies:
  assumes "clean_env e src md" "fresh_start e opts dk" "\<forall>i. \<not> ev_cancel e i"
  shows "\<exists>m. dk_map (snd (image_run cr e opts dk)) = SavedMap m \<and>
    verify_image cr (dk_out (snd (image_run cr e opts dk))) (dk_map (snd (image_run cr e opts dk)))
      = Inr \<lparr>vr_whole_ok = True, vr_chunk_mismatches = 0, vr_chunks_checked = num_chunks m,
          vr_bad_sectors = card {l. md_stat md l = Bad \<and> l * s_sector_size src < s_len src}\<rparr>"
proof -
  obtain f m where r: "dk_out (snd (image_run cr e opts dk)) = Some (Regular f)"
      "dk_map (snd (image_run cr e opts dk)) = SavedMap m" "image_complete cr src md m f"
    using run_fresh [OF assms(1,2), of cr] assms(3) by blast
  show ?thesis using verify_complete [OF r(3) clean_envD(9,3) [OF assms(1)]] r(1,2) by simp
qed

theorem image_verifies_witness:
  "\<exists>r. verify_image no_crates (dk_out (snd (image_run no_crates (small_env (\<lambda>_. False)) (small_options False) blank_disk)))
      (dk_map (snd (image_run no_crates (small_env (\<lambda>_. False)) (small_options False) blank_disk))) = Inr r \<and>
    vr_whole_ok r \<and> vr_chunk_mismatches r = 0"
proof -
  have "\<forall>i. \<not> ev_cancel (small_env (\<lambda>_. False)) i" by (simp add: small_env_def)
  from image_verifies [OF clean_small_env fresh_small this, of no_crates] show ?thesis by auto
qed

text \<open>C11: A complete raw image stands in for its source: the output of an uninterrupted run without compression, opened with
  its map, reads as the source's bytes, and a sector is bad exactly when it was bad on the source. A sector the source reported as
  unread comes back as good: the imager retries and records bad sectors only. The conditions are those of \<^verbatim>\<open>image_exact\<close>: a
  fresh run in which no write, save, resize or sync fails, over a source that answers every read of a sector the same way and has a whole
  number of sectors whose size divides 4 MiB. Compressed images, which the mapped reader serves too, are not covered.\<close>

theorem image_reads_back:
  assumes "clean_env e src md" "fresh_start e opts dk" "\<forall>i. \<not> ev_cancel e i"
  shows "\<exists>f m. dk_out (snd (image_run cr e opts dk)) = Some (Regular f) \<and>
    dk_map (snd (image_run cr e opts dk)) = SavedMap m \<and>
    presents (mapped_image_source cr (mapped_image_open f m))
      \<lparr>md_byte = md_byte md, md_stat = (\<lambda>l. if md_stat md l = Bad then Bad else Good)\<rparr>"
proof -
  obtain f m where r: "dk_out (snd (image_run cr e opts dk)) = Some (Regular f)"
      "dk_map (snd (image_run cr e opts dk)) = SavedMap m" "image_complete cr src md m f"
    using run_fresh [OF assms(1,2), of cr] assms(3) by blast
  show ?thesis using complete_reads_back [OF r(3) clean_envD(9) [OF assms(1)]] r(1,2) by blast
qed

theorem image_reads_back_witness:
  "\<exists>f m. dk_out (snd (image_run no_crates (small_env (\<lambda>_. False)) (small_options False) blank_disk)) = Some (Regular f) \<and>
    dk_map (snd (image_run no_crates (small_env (\<lambda>_. False)) (small_options False) blank_disk)) = SavedMap m \<and>
    md_stat spoiled_medium 2 = Unread \<and>
    presents (mapped_image_source no_crates (mapped_image_open f m))
      \<lparr>md_byte = md_byte spoiled_medium, md_stat = (\<lambda>l. if md_stat spoiled_medium l = Bad then Bad else Good)\<rparr>"
proof -
  have "\<forall>i. \<not> ev_cancel (small_env (\<lambda>_. False)) i" "md_stat spoiled_medium 2 = Unread"
    by (simp_all add: small_env_def spoiled_medium_def)
  then show ?thesis using image_reads_back [OF clean_small_env fresh_small, of "\<lambda>_. False" no_crates] by blast
qed

text \<open>A partial image is honest: reading a raw image through its map gives the file's bytes,
  zeros past the file's end, and each sector's status is bad when the map says so or the file ends
  inside the requested part of it, otherwise unread when the map says so or its chunk was never
  completed, otherwise good.\<close>

theorem mapped_image_statuses:
  assumes "im_compression m = NoCompression" "0 < im_sector_size m" "off mod im_sector_size m = 0"
    and "off + length buf \<le> im_size m" "im_size m \<le> u64_max" "runs_exact (im_bad m)" "runs_exact (im_unread m)"
    and "mapped_image_read cr (mapped_image_open f m) off buf = (b, r)"
  shows "b = file_range f off (length buf) \<and>
    (\<forall>i < div_ceil (length buf) (im_sector_size m). rr_status r i =
      (let l = off div im_sector_size m + i; stop = off + min (Suc i * im_sector_size m) (length buf)
       in if runs_contain (im_bad m) l \<or> length f < stop then Bad
          else if runs_contain (im_unread m) l \<or> \<not> is_chunk_done m (l * im_sector_size m div max (im_chunk_size m) 1) then Unread
          else Good))"
  using mapped_image_read_raw [OF assms(1-5), where cr = cr and f = f] assms(6-8)
  by (simp add: runs_exact_in_range imaged_status_def Let_def)

theorem mapped_image_statuses_witness:
  "rr_status (snd (mapped_image_read no_crates (mapped_image_open [1, 2, 3, 4]
      ((image_map_new ''d'' 8 2 4 Sha256 NoCompression)\<lparr>im_chunk_hashes := [Some ''h'', None], im_bad := [\<lparr>lr_start = 1, lr_count = 1\<rparr>]\<rparr>)) 0 (zeros 8))) 1 = Bad"
proof -
  let ?m = "(image_map_new ''d'' 8 2 4 Sha256 NoCompression)\<lparr>im_chunk_hashes := [Some ''h'', None], im_bad := [\<lparr>lr_start = 1, lr_count = 1\<rparr>]\<rparr>"
  obtain b r where br: "mapped_image_read no_crates (mapped_image_open [1, 2, 3, 4] ?m) 0 (zeros 8) = (b, r)"
    by (metis prod.collapse)
  have "im_compression ?m = NoCompression" "im_sector_size ?m = 2" "im_size ?m = 8" "runs_exact (im_bad ?m)" "runs_exact (im_unread ?m)"
    by (simp_all add: image_map_new_def runs_exact_def)
  then have "\<forall>i < div_ceil (length (zeros 8)) 2. rr_status r i =
      (let l = 0 div 2 + i; stop = 0 + min (Suc i * 2) (length (zeros 8))
       in if runs_contain (im_bad ?m) l \<or> length [1, 2, 3, 4 :: byte] < stop then Bad
          else if runs_contain (im_unread ?m) l \<or> \<not> is_chunk_done ?m (l * 2 div max (im_chunk_size ?m) 1) then Unread else Good)"
    using mapped_image_statuses [of ?m 0 "zeros 8" no_crates "[1, 2, 3, 4]" b r] br by simp
  moreover have "1 < div_ceil (length (zeros 8)) 2" "runs_contain (im_bad ?m) (0 div 2 + 1)"
    by (simp_all add: div_ceil_def runs_contain_iff lr_contains_def lr_end_def sat_add64_def)
  ultimately show ?thesis using br by (simp add: Let_def)
qed

section \<open>Failures\<close>

text \<open>C9: The saved map of a raw image never vouches for bytes the image does not hold: in a run without compression, whatever the
  source answers, as long as each answer fills the buffer, wherever writes are cut short, saves are refused or the run is
  cancelled, if the disk was sound before (no map, or the map of a raw image whose recorded hashes are those of the image's chunks, then resumed
  without sparse output), it is sound after: every hash in the saved map is the hash of that chunk
  of the output file. Compressed output, where the file holds frames and not chunks, is not covered.\<close>

theorem image_vouches:
  assumes "disk_sound cr dk" "env_fills e" "ev_len e \<le> u64_max" "op_compression opts = NoCompression"
    and "\<And>m. dk_map dk = SavedMap m \<Longrightarrow> op_resume opts \<and> \<not> op_sparse opts"
    and "dk_map (snd (image_run cr e opts dk)) = SavedMap m"
  shows "\<exists>f. dk_out (snd (image_run cr e opts dk)) = Some (Regular f) \<and>
    (\<forall>k < num_chunks m. \<forall>h. im_chunk_hashes m ! k = Some h \<longrightarrow>
      h = cr_hash cr (im_hash_algo m) (file_range f (k * im_chunk_size m) (min (im_size m - k * im_chunk_size m) (im_chunk_size m))))"
proof -
  have "disk_sound cr (snd (image_run cr e opts dk))" by (rule image_run_sound [OF assms(1-5)])
  then show ?thesis using assms(6) unfolding disk_sound_def vouches_def chunk_len_def by blast
qed

theorem image_vouches_witness:
  "\<exists>m f. dk_map (snd (image_run no_crates (small_env (\<lambda>i. i = 1)) (small_options False) blank_disk)) = SavedMap m \<and>
    dk_out (snd (image_run no_crates (small_env (\<lambda>i. i = 1)) (small_options False) blank_disk)) = Some (Regular f) \<and>
    (\<forall>k < num_chunks m. \<forall>h. im_chunk_hashes m ! k = Some h \<longrightarrow>
      h = cr_hash no_crates (im_hash_algo m) (file_range f (k * im_chunk_size m) (min (im_size m - k * im_chunk_size m) (im_chunk_size m))))"
proof -
  let ?e = "small_env (\<lambda>i. i = 1)"
  note ev = clean_envD [OF clean_small_env [of "\<lambda>i. i = 1"]]
  obtain m where m: "dk_map (snd (image_run no_crates ?e (small_options False) blank_disk)) = SavedMap m"
    using run_fresh [OF clean_small_env fresh_small, of no_crates "\<lambda>i. i = 1"] by (auto simp: resumable_def)
  have "disk_sound no_crates blank_disk" "op_compression (small_options False) = NoCompression"
    "\<And>m. dk_map blank_disk = SavedMap m \<Longrightarrow> op_resume (small_options False) \<and> \<not> op_sparse (small_options False)"
    by (simp_all add: disk_sound_def blank_disk_def small_options_def)
  moreover have "ev_len ?e \<le> u64_max" by (simp add: small_env_def)
  ultimately show ?thesis
    using image_vouches [OF _ stable_env_fills [OF ev(1,2)] _ _ _ m] m by blast
qed

text \<open>A fresh run over an old image leaves the old map behind when it fails early: with an old
  map on the disk, if the first write of a run that does not resume and whose output is raw and not sparse is refused, the output is
  cut to nothing while the map file still holds the old map, hashes included.\<close>

theorem image_stale_map:
  assumes "dk_map dk = SavedMap old" "\<not> op_resume opts" "\<not> op_sparse opts" "op_compression opts = NoCompression"
    and "dk_out dk \<noteq> Some NotRegular" "0 < ev_len e" "ev_len e \<le> u64_max" "\<not> ev_cancel e 0" "ev_write e 0 = CutAfter 0"
  shows "fst (image_run cr e opts dk) = Inl WriteError \<and>
    dk_out (snd (image_run cr e opts dk)) = Some (Regular []) \<and> dk_map (snd (image_run cr e opts dk)) = SavedMap old"
proof -
  let ?cs = "round_up32 (max (op_chunk_size opts) (ev_sector e)) (ev_sector e)"
  let ?m = "image_map_new (ev_id e) (ev_len e) (ev_sector e) ?cs (op_hash_algo opts) NoCompression"
  let ?d = "\<lparr>id_file = [], id_compression = NoCompression, id_sparse = False, id_append_cursor = 0, id_frames = []\<rparr>"
  let ?s0 = "\<lparr>ig_world = dk_world dk, ig_map = ?m, ig_dest = ?d, ig_bad_total = im_bad_sectors ?m,
      ig_since_ckpt = 0, ig_map_file = SavedMap old, ig_progress = []\<rparr>"
  have cs: "0 < ?cs" by (rule round_up32_pos) simp
  note new = image_map_new_raw [OF cs assms(7)]
  have load: "load_or_create e opts (dk_map dk) = Inr ?m" using assms(2,4) by (simp add: load_or_create_def)
  have dest: "open_dest opts ?m (dk_out dk) = Inr ?d"
    using assms(2,3,5) by (auto simp: open_dest_def dest_create_def refuse_non_regular_def image_map_new_def
        split: option.splits node.splits)
  have dc: "0 < div_ceil (ev_len e) ?cs" by (rule div_ceil_pos [OF cs assms(6)])
  have num: "0 < num_chunks ?m" unfolding new(2) by (rule dc)
  have "im_chunk_hashes ?m ! 0 = None" by (rule new(3) [OF dc])
  then have nd: "\<not> is_chunk_done ?m 0" unfolding is_chunk_done_iff by blast
  let ?n = "min (ev_len e) ?cs"
  obtain still buf w where rd: "read_chunk e opts 0 ?n (dk_world dk) = (still, buf, w)" by (metis prod.collapse)
  have wr: "write_chunk cr (ev_write e 0) 0 buf ?d = (Some WriteError, ?d)"
    by (simp add: assms(9) write_chunk_def put_bytes_def write_at_def Let_def)
  have off: "wmul64 0 ?cs = 0" "wsub64 (ev_len e) 0 = ev_len e" using assms(7) by (simp_all add: wmul64_exact wsub64_exact)
  have pos: "0 < ?n" using cs assms(6) by simp
  have "\<exists>s1. image_chunk cr e opts 0 ?s0 = Return (Inl WriteError) s1 \<and> ig_dest s1 = ?d \<and> ig_map_file s1 = SavedMap old"
    unfolding image_chunk_def Let_def imaging.select_convs new(5) off rd wr prod.case option.case
    using assms(8) nd pos by simp
  then obtain s1 where chunk: "image_chunk cr e opts 0 ?s0 = Return (Inl WriteError) s1" "ig_dest s1 = ?d" "ig_map_file s1 = SavedMap old"
    by blast
  obtain k where k: "num_chunks ?m = Suc k" using num by (cases "num_chunks ?m") auto
  have "image_chunks cr e opts 0 (num_chunks ?m) ?s0 = Return (Inl WriteError) s1"
    unfolding k image_chunks.simps chunk(1) by simp
  then show ?thesis using load dest chunk(2,3) assms(1) by (simp add: image_run_def Let_def)
qed

theorem image_stale_map_witness:
  "dk_map (snd (image_run no_crates ((small_env (\<lambda>_. False))\<lparr>ev_write := (\<lambda>_. CutAfter 0)\<rparr>) (small_options False)
      (blank_disk\<lparr>dk_out := Some (Regular [1, 2, 3]), dk_map := SavedMap (image_map_new ''disk'' 3 1 1 Sha256 NoCompression)\<rparr>)))
    = SavedMap (image_map_new ''disk'' 3 1 1 Sha256 NoCompression)"
proof -
  let ?dk = "blank_disk\<lparr>dk_out := Some (Regular [1, 2, 3]), dk_map := SavedMap (image_map_new ''disk'' 3 1 1 Sha256 NoCompression)\<rparr>"
  let ?e = "(small_env (\<lambda>_. False))\<lparr>ev_write := (\<lambda>_. CutAfter 0)\<rparr>"
  have "dk_map ?dk = SavedMap (image_map_new ''disk'' 3 1 1 Sha256 NoCompression)" "dk_out ?dk \<noteq> Some NotRegular"
    "\<not> op_resume (small_options False)" "\<not> op_sparse (small_options False)" "op_compression (small_options False) = NoCompression"
    "0 < ev_len ?e" "ev_len ?e \<le> u64_max" "\<not> ev_cancel ?e 0" "ev_write ?e 0 = CutAfter 0"
    by (simp_all add: small_options_def small_env_def)
  then show ?thesis using image_stale_map by blast
qed

section \<open>Retries\<close>

text \<open>The answers of the successive attempts at a sector.\<close>

fun nth_attempt :: "'w imaging_env \<Rightarrow> nat \<Rightarrow> bytes \<Rightarrow> nat \<Rightarrow> 'w \<Rightarrow> (bytes \<times> read_result) \<times> 'w" where
  "nth_attempt e off sub 0 w = ev_read e w off sub"
| "nth_attempt e off sub (Suc k) w = (case ev_read e w off sub of ((b, r), w') \<Rightarrow> nth_attempt e off b k w')"

lemma retry_reads_first:
  "k < n \<Longrightarrow> \<forall>j < k. rr_status (snd (fst (nth_attempt e off sub j w))) 0 \<noteq> Good \<Longrightarrow>
    rr_status (snd (fst (nth_attempt e off sub k w))) 0 = Good \<Longrightarrow>
    retry_reads e off sub n w = (Some (fst (fst (nth_attempt e off sub k w))), snd (nth_attempt e off sub k w))"
proof (induction n arbitrary: k sub w)
  case (Suc n)
  obtain b r v where rd: "ev_read e w off sub = ((b, r), v)" by (metis prod.collapse)
  show ?case
  proof (cases k)
    case 0
    then show ?thesis using Suc.prems(3) rd by simp
  next
    case (Suc k')
    have "rr_status r 0 \<noteq> Good" using Suc.prems(2) Suc rd by force
    moreover have "\<forall>j < k'. rr_status (snd (fst (nth_attempt e off b j v))) 0 \<noteq> Good"
      using Suc.prems(2) Suc rd by force
    ultimately show ?thesis using Suc.IH [of k' b v] Suc.prems(1,3) Suc rd by simp
  qed
qed simp

lemma retry_reads_none:
  "\<forall>j < n. rr_status (snd (fst (nth_attempt e off sub j w))) 0 \<noteq> Good \<Longrightarrow> fst (retry_reads e off sub n w) = None"
proof (induction n arbitrary: sub w)
  case (Suc n)
  obtain b r v where rd: "ev_read e w off sub = ((b, r), v)" by (metis prod.collapse)
  have "rr_status r 0 \<noteq> Good" using Suc.prems rd by force
  moreover have "\<forall>j < n. rr_status (snd (fst (nth_attempt e off b j v))) 0 \<noteq> Good" using Suc.prems rd by force
  ultimately show ?case using Suc.IH rd by simp
qed simp

lemma nth_attempt_length:
  "env_fills e \<Longrightarrow> length (fst (fst (nth_attempt e off sub k w))) = length sub"
proof (induction k arbitrary: sub w)
  case (Suc k)
  obtain b r v where rd: "ev_read e w off sub = ((b, r), v)" by (metis prod.collapse)
  then have "length b = length sub" using Suc.prems by (metis env_fills_def fst_conv)
  then show ?case using Suc rd by simp
qed (simp add: env_fills_def)

text \<open>A bad sector is retried until its first good answer, at least once and at most as often
  as asked: the first good attempt ends the retries and its bytes replace the sector's in the chunk,
  and nothing else; without a good attempt the sector stays bad and the chunk as it was.\<close>

theorem retry_first_good:
  assumes "env_fills e" "ss = ev_sector e" "off = chunk_offset + s * ss" "off \<le> u64_max" "s * ss + ss \<le> length buf"
  shows "(\<forall>k < max retries 1. (\<forall>j < k. rr_status (snd (fst (nth_attempt e off (zeros ss) j w))) 0 \<noteq> Good) \<longrightarrow>
      rr_status (snd (fst (nth_attempt e off (zeros ss) k w))) 0 = Good \<longrightarrow>
      retry_sector e chunk_offset s retries buf w
        = (True, blit buf (s * ss) (fst (fst (nth_attempt e off (zeros ss) k w))), snd (nth_attempt e off (zeros ss) k w))) \<and>
    ((\<forall>j < max retries 1. rr_status (snd (fst (nth_attempt e off (zeros ss) j w))) 0 \<noteq> Good) \<longrightarrow>
      fst (retry_sector e chunk_offset s retries buf w) = False \<and> fst (snd (retry_sector e chunk_offset s retries buf w)) = buf)"
proof (intro conjI allI impI)
  have sub: "wadd64 chunk_offset (wmul64 s ss) = off"
    using assms(3,4) by (simp add: wadd64_exact wmul64_exact)
  fix k
  assume k: "k < max retries 1" "\<forall>j < k. rr_status (snd (fst (nth_attempt e off (zeros ss) j w))) 0 \<noteq> Good"
    "rr_status (snd (fst (nth_attempt e off (zeros ss) k w))) 0 = Good"
  let ?b = "fst (fst (nth_attempt e off (zeros ss) k w))"
  have "length ?b = ss" using nth_attempt_length [OF assms(1)] by simp
  then have slice: "get_slice ?b 0 ss = Some ?b" by (simp add: get_slice_def)
  have stop: "min (s * ss + ss) (length buf) = s * ss + ss" using assms(5) by simp
  show "retry_sector e chunk_offset s retries buf w
      = (True, blit buf (s * ss) ?b, snd (nth_attempt e off (zeros ss) k w))"
    unfolding retry_sector_def Let_def assms(2) [symmetric] sub retry_reads_first [OF k] prod.case option.case stop
    by (simp add: slice)
next
  have sub: "wadd64 chunk_offset (wmul64 s ss) = off"
    using assms(3,4) by (simp add: wadd64_exact wmul64_exact)
  assume "\<forall>j < max retries 1. rr_status (snd (fst (nth_attempt e off (zeros ss) j w))) 0 \<noteq> Good"
  then have "fst (retry_reads e off (zeros ss) (max retries 1) w) = None" by (rule retry_reads_none)
  then obtain v where v: "retry_reads e off (zeros ss) (max retries 1) w = (None, v)" by (metis prod.collapse)
  have "retry_sector e chunk_offset s retries buf w = (False, buf, v)"
    unfolding retry_sector_def Let_def assms(2) [symmetric] sub v by simp
  then show "fst (retry_sector e chunk_offset s retries buf w) = False" "fst (snd (retry_sector e chunk_offset s retries buf w)) = buf"
    by simp_all
qed

text \<open>A sector that reads well at the second attempt.\<close>

definition flaky_env :: "nat imaging_env" where
  "flaky_env = \<lparr>ev_read = (\<lambda>w off buf. ((map (\<lambda>_. 9) buf, if w = 0 then rr_mark_bad (rr_good 2 1) 0 else rr_good 2 1), Suc w)),
     ev_len = 4, ev_sector_size = 2, ev_id = ''flaky'', ev_cancel = (\<lambda>_. False), ev_write = (\<lambda>_. Accepted),
     ev_save = (\<lambda>_. True), ev_set_len = True, ev_sync = True\<rparr>"

theorem retry_first_good_witness:
  "retry_sector flaky_env 0 1 2 [1, 1, 0, 0] 0 = (True, [1, 1, 9, 9], 2)"
proof -
  have "env_fills flaky_env" by (simp add: env_fills_def flaky_env_def)
  moreover have "ev_sector flaky_env = 2" by (simp add: flaky_env_def)
  ultimately have t: "(\<forall>k < max 2 1. (\<forall>j < k. rr_status (snd (fst (nth_attempt flaky_env 2 (zeros 2) j 0))) 0 \<noteq> Good) \<longrightarrow>
      rr_status (snd (fst (nth_attempt flaky_env 2 (zeros 2) k 0))) 0 = Good \<longrightarrow>
      retry_sector flaky_env 0 1 2 [1, 1, 0, 0] 0
        = (True, blit [1, 1, 0, 0] (1 * 2) (fst (fst (nth_attempt flaky_env 2 (zeros 2) k 0))), snd (nth_attempt flaky_env 2 (zeros 2) k 0)))"
    using retry_first_good [of flaky_env 2 2 0 1 "[1, 1, 0, 0]" 2 0] by simp
  have att: "nth_attempt flaky_env 2 (zeros 2) 0 0 = (([9, 9], rr_mark_bad (rr_good 2 1) 0), 1)"
    "nth_attempt flaky_env 2 (zeros 2) 1 0 = (([9, 9], rr_good 2 1), 2)"
    by (simp_all add: flaky_env_def eval_nat_numeral)
  have st: "rr_status (rr_mark_bad (rr_good 2 1) 0) 0 = Bad" by (simp add: rr_status_mark_bad [OF rr_shape_good])
  show ?thesis using t [rule_format, of 1] att st by (simp add: rr_status_good blit_def eval_nat_numeral)
qed

end
