(* ===== verification/PartTable.thy ===== *)
theory PartTable
  imports Source
begin

text \<open>
  The vocabulary of the partition parser (\<^verbatim>\<open>crates/reclaim-part\<close>): CRC-32 (\<^verbatim>\<open>crc.rs\<close>), GUID text
  and the table of partition types (\<^verbatim>\<open>guid.rs\<close>), the partition map and the clamped reader
  (\<^verbatim>\<open>lib.rs\<close>). A confidence, a constant of type f32 in the code, is kept in hundredths.
\<close>

section \<open>CRC-32\<close>

definition crc_bit :: "32 word \<Rightarrow> 32 word" where
  "crc_bit crc = (let mask = - (crc AND 1) in drop_bit 1 crc XOR (0xEDB88320 AND mask))"

definition crc_byte :: "32 word \<Rightarrow> byte \<Rightarrow> 32 word" where
  "crc_byte crc b = (crc_bit ^^ 8) (crc XOR ucast b)"

definition crc32 :: "bytes \<Rightarrow> nat" where
  "crc32 data = unat (NOT (foldl crc_byte 0xFFFFFFFF data))"

section \<open>GUIDs\<close>

definition hex_digit :: "nat \<Rightarrow> char" where
  "hex_digit d = (if d < 10 then char_of (48 + d) else char_of (55 + d))"

text \<open>\<^verbatim>\<open>{:02X}\<close> of a byte; the wider groups are printed most significant byte first.\<close>

definition hex_byte :: "byte \<Rightarrow> string" where
  "hex_byte b = [hex_digit (unat b div 16), hex_digit (unat b mod 16)]"

definition hex_bytes :: "bytes \<Rightarrow> string" where
  "hex_bytes bs = concat (map hex_byte bs)"

definition guid_to_string :: "bytes \<Rightarrow> string" where
  "guid_to_string raw =
     (if length raw < 16 then ''''
      else let g = (\<lambda>i. unwrap_or (get_at raw i) 0)
           in hex_bytes [g 3, g 2, g 1, g 0] @ ''-'' @ hex_bytes [g 5, g 4] @ ''-'' @ hex_bytes [g 7, g 6] @ ''-'' @
              hex_bytes [g 8, g 9] @ ''-'' @ hex_bytes [g 10, g 11, g 12, g 13, g 14, g 15])"

definition is_zero_guid :: "bytes \<Rightarrow> bool" where
  "is_zero_guid raw \<longleftrightarrow> 16 \<le> length raw \<and> list_all (\<lambda>b. b = 0) (take 16 raw)"

definition guid_types :: "(string \<times> string) list" where
  "guid_types =
     [(''7C3457EF-0000-11AA-AA11-00306543ECAC'', ''Apple APFS''),
      (''48465300-0000-11AA-AA11-00306543ECAC'', ''Apple HFS+''),
      (''53746F72-6167-11AA-AA11-00306543ECAC'', ''Apple Core Storage''),
      (''426F6F74-0000-11AA-AA11-00306543ECAC'', ''Apple Boot (Recovery)''),
      (''55465300-0000-11AA-AA11-00306543ECAC'', ''Apple UFS''),
      (''52414944-0000-11AA-AA11-00306543ECAC'', ''Apple RAID''),
      (''52414944-5F4F-11AA-AA11-00306543ECAC'', ''Apple RAID offline''),
      (''4C616265-6C00-11AA-AA11-00306543ECAC'', ''Apple Label''),
      (''C12A7328-F81F-11D2-BA4B-00A0C93EC93B'', ''EFI System''),
      (''024DEE41-33E7-11D3-9D69-0008C781F39F'', ''MBR partition scheme''),
      (''EBD0A0A2-B9E5-4433-87C0-68B6B72699C7'', ''Microsoft Basic Data''),
      (''E3C9E316-0B5C-4DB8-817D-F92DF00215AE'', ''Microsoft Reserved''),
      (''DE94BBA4-06D1-4D40-A16A-BFD50179D6AC'', ''Windows Recovery''),
      (''5808C8AA-7E8F-42E0-85D2-E1E90434CFB3'', ''Windows LDM metadata''),
      (''AF9B60A0-1431-4F62-BC68-3311714A69AD'', ''Windows LDM data''),
      (''0FC63DAF-8483-4772-8E79-3D69D8477DE4'', ''Linux filesystem''),
      (''0657FD6D-A4AB-43C4-84E5-0933C84B4F4F'', ''Linux swap''),
      (''E6D6D379-F507-44C2-A23C-238F2A3DF928'', ''Linux LVM''),
      (''A19D880F-05FC-4D3B-A006-743F0F84911E'', ''Linux RAID''),
      (''21686148-6449-6E6F-744E-656564454649'', ''BIOS boot'')]"

definition guid_type_label :: "string \<Rightarrow> string" where
  "guid_type_label guid = unwrap_or (map_of guid_types guid) ''Unknown''"

section \<open>The partition map\<close>

datatype scheme = Gpt | Mbr | HybridMbr | Apm | NoScheme

definition scheme_label :: "scheme \<Rightarrow> string" where
  "scheme_label s = (case s of Gpt \<Rightarrow> ''gpt'' | Mbr \<Rightarrow> ''mbr'' | HybridMbr \<Rightarrow> ''hybrid-mbr'' | Apm \<Rightarrow> ''apm'' | NoScheme \<Rightarrow> ''none'')"

text \<open>A partition's name is the list of the Unicode scalar values of its text.\<close>

record partition =
  pt_index :: nat
  pt_start :: nat
  pt_len :: nat
  pt_scheme :: scheme
  pt_type_byte :: "byte option"
  pt_type_guid :: "string option"
  pt_type_label :: string
  pt_name :: "nat list option"
  pt_fs_hint :: "string option"

record container =
  cn_kind :: string
  cn_offset :: nat
  cn_evidence :: string

record partition_map =
  pm_scheme :: scheme
  pm_entries :: "partition list"
  pm_confidence :: nat
  pm_notes :: "string list"
  pm_containers :: "container list"

definition volume_windows :: "partition_map \<Rightarrow> nat \<Rightarrow> (nat \<times> nat) list" where
  "volume_windows pm source_len =
     (if pm_entries pm = [] then [(0, source_len)] else map (\<lambda>p. (pt_start p, pt_len p)) (pm_entries pm))"

section \<open>Reading\<close>

definition part_read_bytes :: "source \<Rightarrow> nat \<Rightarrow> nat \<Rightarrow> bytes" where
  "part_read_bytes src offset len =
     (let out = zeros len; whole = s_len src in
      if len = 0 \<or> whole \<le> offset then out
      else
        let ss = max (s_sector_size src) 1;
            aligned_start = offset - offset mod ss;
            end = min (sat_add64 offset len) whole;
            aligned_end = min (sat_mul64 (div_ceil end ss) ss) (align_up whole ss)
        in if aligned_end \<le> aligned_start then out
           else
             let span = aligned_end - aligned_start;
                 buf = fst (s_read_at src aligned_start (zeros span));
                 skip = offset - aligned_start;
                 avail = span - skip;
                 copy = min (min len avail) (end - offset)
             in (case get_slice buf skip (skip + copy) of
                   Some s \<Rightarrow> if copy \<le> length out then blit out 0 s else out
                 | None \<Rightarrow> out))"

text \<open>The readers of the crate answer zero where the buffer is too short.\<close>

definition le32_or_0 :: "bytes \<Rightarrow> nat \<Rightarrow> nat" where
  "le32_or_0 b off = unwrap_or (le_u32 b off) 0"

definition le64_or_0 :: "bytes \<Rightarrow> nat \<Rightarrow> nat" where
  "le64_or_0 b off = unwrap_or (le_u64 b off) 0"

definition mbr_fs_hint :: "byte \<Rightarrow> string option" where
  "mbr_fs_hint t =
     (if t = 0x01 \<or> t = 0x04 \<or> t = 0x06 \<or> t = 0x0E then Some ''fat''
      else if t = 0x0B \<or> t = 0x0C then Some ''fat32''
      else if t = 0x07 then Some ''exfat/ntfs''
      else if t = 0xAF then Some ''hfs+''
      else if t = 0x83 then Some ''linux''
      else if t = 0xEE then Some ''gpt-protective''
      else None)"

section \<open>UTF-16\<close>

text \<open>\<^verbatim>\<open>String::from_utf16_lossy\<close>: an unpaired surrogate becomes U+FFFD.\<close>

fun utf16_lossy :: "nat list \<Rightarrow> nat list" where
  "utf16_lossy [] = []"
| "utf16_lossy (u # us) =
     (if u < 0xD800 \<or> 0xDFFF < u then u # utf16_lossy us
      else if u \<le> 0xDBFF
      then (case us of
              [] \<Rightarrow> [0xFFFD]
            | v # vs \<Rightarrow>
                if 0xDC00 \<le> v \<and> v \<le> 0xDFFF then (0x10000 + (u - 0xD800) * 0x400 + (v - 0xDC00)) # utf16_lossy vs
                else 0xFFFD # utf16_lossy us)
      else 0xFFFD # utf16_lossy us)"

end
