(* ===== verification/Partition.thy ===== *)
theory Partition
  imports PartTable
begin

text \<open>
  The partition parsers of \<^verbatim>\<open>crates/reclaim-part\<close>: MBR entries and EBR chains (\<^verbatim>\<open>mbr.rs\<close>), GPT with
  its backup header (\<^verbatim>\<open>gpt.rs\<close>), Apple Partition Map detection (\<^verbatim>\<open>apm.rs\<close>), container anchors and the
  scan that combines them (\<^verbatim>\<open>lib.rs\<close>).
\<close>

section \<open>MBR\<close>

definition mbr_sig_off :: nat where "mbr_sig_off = 510"

definition mbr_table_off :: nat where "mbr_table_off = 446"

definition is_extended :: "byte \<Rightarrow> bool" where
  "is_extended t \<longleftrightarrow> t = 0x05 \<or> t = 0x0F \<or> t = 0x85"

definition mbr_type_label :: "byte \<Rightarrow> string" where
  "mbr_type_label t =
     (if t = 0x01 then ''FAT12''
      else if t = 0x04 \<or> t = 0x06 then ''FAT16''
      else if t = 0x0B \<or> t = 0x0C then ''FAT32''
      else if t = 0x07 then ''exFAT / NTFS / HPFS''
      else if t = 0x0E then ''FAT16 LBA''
      else if t = 0x05 \<or> t = 0x0F \<or> t = 0x85 then ''Extended''
      else if t = 0x82 then ''Linux swap''
      else if t = 0x83 then ''Linux''
      else if t = 0xAF then ''Apple HFS/HFS+''
      else if t = 0xAB then ''Apple Boot''
      else if t = 0xEE then ''GPT protective''
      else if t = 0xEF then ''EFI System''
      else ''Unknown'')"

definition has_boot_sig :: "bytes \<Rightarrow> bool" where
  "has_boot_sig b \<longleftrightarrow> get_at b mbr_sig_off = Some 0x55 \<and> get_at b (mbr_sig_off + 1) = Some 0xAA"

definition mbr_partition :: "nat \<Rightarrow> nat \<Rightarrow> nat \<Rightarrow> byte \<Rightarrow> partition" where
  "mbr_partition idx start len t = \<lparr>pt_index = idx, pt_start = start, pt_len = len, pt_scheme = Mbr,
     pt_type_byte = Some t, pt_type_guid = None, pt_type_label = mbr_type_label t, pt_name = None,
     pt_fs_hint = mbr_fs_hint t\<rparr>"

text \<open>One of the four slots: the entries so far, the extended partitions so far, the next index.\<close>

definition mbr_slot :: "bytes \<Rightarrow> nat \<Rightarrow> nat \<Rightarrow> partition list \<times> (nat \<times> nat) list \<times> nat \<Rightarrow> partition list \<times> (nat \<times> nat) list \<times> nat" where
  "mbr_slot lba0 whole i st =
     (case st of (entries, extended, idx) \<Rightarrow>
      let base = mbr_table_off + i * 16 in
      case get_slice lba0 base (base + 16) of
        None \<Rightarrow> st
      | Some rec \<Rightarrow>
          let type_byte = unwrap_or (get_at rec 4) 0;
              start_lba = le32_or_0 rec 8;
              num = le32_or_0 rec 12
          in if type_byte = 0 \<or> num = 0 then st
             else
               let start = sat_mul64 start_lba 512;
                   len = min (sat_mul64 num 512) (whole - start)
               in if whole \<le> start \<or> len = 0 then st
                  else if is_extended type_byte then (entries, extended @ [(start, len)], idx)
                  else (entries @ [mbr_partition idx start len type_byte], extended, idx + 1))"

definition mbr_parse :: "bytes \<Rightarrow> nat \<Rightarrow> partition_map option" where
  "mbr_parse lba0 whole =
     (if \<not> has_boot_sig lba0 then None
      else case fold (mbr_slot lba0 whole) [0..<4] ([], [], 1) of (entries, extended, _) \<Rightarrow>
        Some \<lparr>pm_scheme = Mbr, pm_entries = entries, pm_confidence = 90,
          pm_notes = (if extended = [] then []
                      else [show_nat (length extended) @ '' extended partition(s) present (EBR chain)'']),
          pm_containers = []\<rparr>)"

text \<open>An extended boot record: the logical partition of its first slot, if it lies in the source, and
  the next record's position relative to the extended partition from its second.\<close>

definition ebr_logical :: "nat \<Rightarrow> nat \<Rightarrow> bytes \<Rightarrow> partition list \<times> nat \<Rightarrow> partition list \<times> nat" where
  "ebr_logical whole cur e0 st =
     (let t0 = unwrap_or (get_at e0 4) 0;
          rel = le32_or_0 e0 8 * 512;
          num = le32_or_0 e0 12 * 512
      in if t0 \<noteq> 0 \<and> num \<noteq> 0 then
           let start = sat_add64 cur rel;
               len = min num (whole - start)
           in if start < whole \<and> 0 < len
              then (fst st @ [mbr_partition (snd st) start len t0], snd st + 1) else st
         else st)"

text \<open>The chain; the code's \<^verbatim>\<open>guard\<close> counter runs down from 256.\<close>

fun ebr_chain :: "source \<Rightarrow> nat \<Rightarrow> nat \<Rightarrow> nat \<Rightarrow> nat \<Rightarrow> partition list \<times> nat \<Rightarrow> partition list \<times> nat" where
  "ebr_chain src whole ext_base 0 cur st = st"
| "ebr_chain src whole ext_base (Suc guard) cur st =
     (if whole \<le> cur then st
      else
        let ebr = part_read_bytes src cur 512 in
        if \<not> has_boot_sig ebr then st
        else case get_slice ebr mbr_table_off (mbr_table_off + 16) of
            None \<Rightarrow> st
          | Some e0 \<Rightarrow>
              let st = ebr_logical whole cur e0 st in
              case get_slice ebr (mbr_table_off + 16) (mbr_table_off + 32) of
                None \<Rightarrow> st
              | Some e1 \<Rightarrow>
                  let t1 = unwrap_or (get_at e1 4) 0;
                      nxt = le32_or_0 e1 8 * 512;
                      next_abs = sat_add64 ext_base nxt
                  in if t1 = 0 \<or> nxt = 0 then st
                     else if next_abs \<le> cur then st
                     else ebr_chain src whole ext_base guard next_abs st)"

definition mbr_expand_slot :: "source \<Rightarrow> bytes \<Rightarrow> nat \<Rightarrow> nat \<Rightarrow> partition list \<times> nat \<Rightarrow> partition list \<times> nat" where
  "mbr_expand_slot src lba0 whole i st =
     (let base = mbr_table_off + i * 16 in
      case get_slice lba0 base (base + 16) of
        None \<Rightarrow> st
      | Some rec \<Rightarrow>
          if \<not> is_extended (unwrap_or (get_at rec 4) 0) then st
          else let ext_base = le32_or_0 rec 8 * 512 in ebr_chain src whole ext_base 256 ext_base st)"

definition mbr_expand :: "source \<Rightarrow> bytes \<Rightarrow> nat \<Rightarrow> partition_map \<Rightarrow> partition_map" where
  "mbr_expand src lba0 whole m =
     (let next_index = foldl max 0 (map pt_index (pm_entries m)) + 1
      in m\<lparr>pm_entries := fst (fold (mbr_expand_slot src lba0 whole) [0..<4] (pm_entries m, next_index))\<rparr>)"

section \<open>GPT\<close>

definition gpt_sig :: bytes where
  "gpt_sig = [0x45, 0x46, 0x49, 0x20, 0x50, 0x41, 0x52, 0x54]"

record gpt_header =
  gh_entry_lba :: nat
  gh_num_entries :: nat
  gh_entry_size :: nat
  gh_entries_crc :: nat
  gh_crc_ok :: bool

definition gpt_parse_header :: "bytes \<Rightarrow> gpt_header option" where
  "gpt_parse_header buf =
     (if get_slice buf 0 8 \<noteq> Some gpt_sig then None
      else
        let header_size = le32_or_0 buf 12 in
        if \<not> (92 \<le> header_size \<and> header_size \<le> 512) then None
        else
          let stored_crc = le32_or_0 buf 16 in
          case get_slice buf 0 header_size of
            None \<Rightarrow> None
          | Some hdr \<Rightarrow>
              let hdr = zero_range hdr 16 20
              in Some \<lparr>gh_entry_lba = le64_or_0 buf 72, gh_num_entries = le32_or_0 buf 80,
                   gh_entry_size = le32_or_0 buf 84, gh_entries_crc = le32_or_0 buf 88,
                   gh_crc_ok = (crc32 hdr = stored_crc)\<rparr>)"

text \<open>The header used, whether it is the backup, and the note made.\<close>

definition gpt_choose :: "gpt_header option \<Rightarrow> gpt_header option \<Rightarrow> (gpt_header \<times> bool \<times> string list) option" where
  "gpt_choose primary backup =
     (case (primary, backup) of
        (Some p, None) \<Rightarrow>
          Some (p, False, if gh_crc_ok p then [] else [''GPT header CRC mismatch (primary); parsing best-effort''])
      | (Some p, Some b) \<Rightarrow>
          if gh_crc_ok p then Some (p, False, [])
          else if gh_crc_ok b then Some (b, True, [''primary GPT header CRC bad; used backup header''])
          else Some (p, False, [''GPT header CRC mismatch (primary); parsing best-effort''])
      | (None, Some b) \<Rightarrow>
          Some (b, True, if gh_crc_ok b then [''primary GPT header CRC bad; used backup header'']
            else [''GPT header CRC mismatch (backup); parsing best-effort''])
      | (None, None) \<Rightarrow> None)"

fun name_units :: "bytes \<Rightarrow> nat list" where
  "name_units (a # b # r) = (let u = unat a + 256 * unat b in if u = 0 then [] else u # name_units r)"
| "name_units _ = []"

definition decode_name :: "bytes \<Rightarrow> nat list option" where
  "decode_name raw = (let units = name_units raw in if units = [] then None else Some (utf16_lossy units))"

definition gpt_fs_hint :: "string \<Rightarrow> string option" where
  "gpt_fs_hint label =
     map_of [(''Apple APFS'', ''apfs''), (''Apple HFS+'', ''hfs+''), (''Apple Core Storage'', ''core-storage''),
       (''Microsoft Basic Data'', ''exfat/ntfs/fat''), (''Linux filesystem'', ''linux''), (''EFI System'', ''fat'')] label"

text \<open>A used slot of the table, as a partition.\<close>

definition gpt_slot :: "nat \<Rightarrow> nat \<Rightarrow> bytes \<Rightarrow> (nat \<Rightarrow> partition) option" where
  "gpt_slot ss whole rec =
     (case get_slice rec 0 16 of
        None \<Rightarrow> None
      | Some type_raw \<Rightarrow>
          if is_zero_guid type_raw then None
          else
            let first_lba = le64_or_0 rec 32; last_lba = le64_or_0 rec 40 in
            if last_lba < first_lba then None
            else
              let start = sat_mul64 first_lba ss;
                  len = min (sat_mul64 (sat_add64 (last_lba - first_lba) 1) ss) (whole - start)
              in if whole \<le> start \<or> len = 0 then None
                 else
                   let guid = guid_to_string type_raw; label = guid_type_label guid
                   in Some (\<lambda>idx. \<lparr>pt_index = idx, pt_start = start, pt_len = len, pt_scheme = Gpt,
                        pt_type_byte = None, pt_type_guid = Some guid, pt_type_label = label,
                        pt_name = decode_name (unwrap_or (get_slice rec 56 128) []), pt_fs_hint = gpt_fs_hint label\<rparr>))"

text \<open>The container an Apple partition announces.\<close>

definition gpt_container :: "partition \<Rightarrow> container list" where
  "gpt_container p =
     (let evidence = ''GPT type GUID '' @ unwrap_or (pt_type_guid p) '''' in
      if pt_type_label p = ''Apple APFS''
      then [\<lparr>cn_kind = ''apfs-container'', cn_offset = pt_start p, cn_evidence = evidence\<rparr>]
      else if pt_type_label p = ''Apple Core Storage''
      then [\<lparr>cn_kind = ''core-storage'', cn_offset = pt_start p, cn_evidence = evidence\<rparr>]
      else [])"

text \<open>The slots in order, until one does not lie in the table read.\<close>

fun gpt_slots :: "nat \<Rightarrow> nat \<Rightarrow> bytes \<Rightarrow> nat \<Rightarrow> nat \<Rightarrow> nat \<Rightarrow> partition list \<times> container list \<times> nat \<Rightarrow>
    partition list \<times> container list \<times> nat" where
  "gpt_slots ss whole table entry_size i 0 st = st"
| "gpt_slots ss whole table entry_size i (Suc n) (entries, containers, idx) =
     (case get_slice table (i * entry_size) (i * entry_size + entry_size) of
        None \<Rightarrow> (entries, containers, idx)
      | Some rec \<Rightarrow>
          gpt_slots ss whole table entry_size (Suc i) n
            (case gpt_slot ss whole rec of
               None \<Rightarrow> (entries, containers, idx)
             | Some p \<Rightarrow> (entries @ [p idx], containers @ gpt_container (p idx), idx + 1)))"

definition gpt_table_bytes :: "gpt_header \<Rightarrow> nat" where
  "gpt_table_bytes hdr = min (sat_mul64 (gh_num_entries hdr) (gh_entry_size hdr)) 1048576"

definition gpt_table :: "source \<Rightarrow> nat \<Rightarrow> gpt_header \<Rightarrow> bytes" where
  "gpt_table src ss hdr = part_read_bytes src (sat_mul64 (gh_entry_lba hdr) ss) (gpt_table_bytes hdr)"

text \<open>What the chosen header describes.\<close>

definition gpt_from_header :: "source \<Rightarrow> nat \<Rightarrow> nat \<Rightarrow> gpt_header \<Rightarrow> bool \<Rightarrow> string list \<Rightarrow> partition_map" where
  "gpt_from_header src ss whole hdr used_backup notes =
     (let entry_size = gh_entry_size hdr; num = gh_num_entries hdr in
      if \<not> (128 \<le> entry_size \<and> entry_size \<le> 4096) \<or> num = 0 \<or> 4096 < num then
        \<lparr>pm_scheme = Gpt, pm_entries = [], pm_confidence = 40,
         pm_notes = notes @ [''implausible GPT entry geometry (num='' @ show_nat num @ '', size='' @ show_nat entry_size @ ''); ignoring''],
         pm_containers = []\<rparr>
      else
        let table_bytes = gpt_table_bytes hdr;
            table = gpt_table src ss hdr;
            entries_crc_ok = (crc32 (unwrap_or (get_slice table 0 table_bytes) table) = gh_entries_crc hdr);
            notes = (if entries_crc_ok then notes
              else notes @ [''GPT partition-entry CRC mismatch; entries parsed best-effort''])
        in case gpt_slots ss whole table entry_size 0 num ([], [], 1) of (entries, containers, _) \<Rightarrow>
          \<lparr>pm_scheme = Gpt, pm_entries = entries,
           pm_confidence = (if gh_crc_ok hdr \<and> entries_crc_ok then (if used_backup then 90 else 99) else 60),
           pm_notes = notes, pm_containers = containers\<rparr>)"

definition gpt_parse :: "source \<Rightarrow> nat \<Rightarrow> nat \<Rightarrow> partition_map option" where
  "gpt_parse src ss whole =
     (let primary = gpt_parse_header (part_read_bytes src ss 512);
          backup = gpt_parse_header (part_read_bytes src (whole - ss) 512)
      in case gpt_choose primary backup of
           None \<Rightarrow> None
         | Some (hdr, used_backup, notes) \<Rightarrow> Some (gpt_from_header src ss whole hdr used_backup notes))"

section \<open>Apple Partition Map and containers\<close>

definition apm_detect :: "source \<Rightarrow> nat \<Rightarrow> string option" where
  "apm_detect src ss =
     (if get_slice (part_read_bytes src 0 512) 0 2 \<noteq> Some [0x45, 0x52] then None
      else
        let b1 = part_read_bytes src ss 512 in
        if get_slice b1 0 2 \<noteq> Some [0x50, 0x4D] then None
        else
          let count = be_val (map (\<lambda>i. unwrap_or (get_at b1 i) 0) [4, 5, 6, 7])
          in Some (''Apple Partition Map (detect-only): '' @ [CHR 0x27] @ ''ER'' @ [CHR 0x27] @ '' at block 0, ''
               @ [CHR 0x27] @ ''PM'' @ [CHR 0x27] @ '' at block 1, '' @ show_nat count @ '' entries''))"

definition detect_containers :: "source \<Rightarrow> nat \<Rightarrow> container list" where
  "detect_containers src whole =
     (let head = part_read_bytes src 0 64
      in (if get_slice head 32 36 = Some [0x4E, 0x58, 0x53, 0x42]
          then [\<lparr>cn_kind = ''apfs-container'', cn_offset = 0, cn_evidence = ''NXSB magic at block 0+32''\<rparr>] else []) @
         (if 0 < whole \<and> get_slice head 88 90 = Some [0x43, 0x53]
          then [\<lparr>cn_kind = ''core-storage'', cn_offset = 0, cn_evidence = ''Core Storage signature at block 0+88''\<rparr>] else []))"

section \<open>The scan\<close>

text \<open>A GPT with the entries of the MBR beside it, its protective ones apart.\<close>

definition gpt_with_mbr :: "partition_map \<Rightarrow> partition_map option \<Rightarrow> partition_map" where
  "gpt_with_mbr g mbr =
     (let real_mbr = (case mbr of None \<Rightarrow> [] | Some m \<Rightarrow> filter (\<lambda>p. pt_type_byte p \<noteq> Some 0xEE) (pm_entries m))
      in if real_mbr = [] then g
         else
           let entries = pm_entries g @ map (\<lambda>p. p\<lparr>pt_scheme := Mbr\<rparr>) real_mbr
           in g\<lparr>pm_scheme := HybridMbr, pm_entries := entries,
                pm_notes := pm_notes g @ [''hybrid MBR: '' @ show_nat (length (filter (\<lambda>p. pt_scheme p = Mbr) entries))
                  @ '' non-protective MBR entry(ies) alongside the GPT'']\<rparr>)"

definition no_table_map :: "container list \<Rightarrow> partition_map" where
  "no_table_map containers = \<lparr>pm_scheme = NoScheme, pm_entries = [], pm_confidence = 50,
     pm_notes = [''no GPT or MBR partition table; treating the whole source as one volume''], pm_containers = containers\<rparr>"

definition scan :: "source \<Rightarrow> partition_map" where
  "scan src =
     (let ss = max (s_sector_size src) 512;
          whole = s_len src;
          lba0 = part_read_bytes src 0 512;
          mbr = mbr_parse lba0 whole;
          containers = detect_containers src whole
      in case gpt_parse src ss whole of
           Some g \<Rightarrow>
             let g = gpt_with_mbr g mbr in g\<lparr>pm_containers := pm_containers g @ containers\<rparr>
         | None \<Rightarrow>
             (case mbr of
                Some m \<Rightarrow>
                  if pm_entries m \<noteq> []
                  then let m = mbr_expand src lba0 whole m in m\<lparr>pm_containers := pm_containers m @ containers\<rparr>
                  else (case apm_detect src ss of
                      Some apm \<Rightarrow> \<lparr>pm_scheme = Apm, pm_entries = [], pm_confidence = 60, pm_notes = [apm], pm_containers = containers\<rparr>
                    | None \<Rightarrow> no_table_map containers)
              | None \<Rightarrow> (case apm_detect src ss of
                    Some apm \<Rightarrow> \<lparr>pm_scheme = Apm, pm_entries = [], pm_confidence = 60, pm_notes = [apm], pm_containers = containers\<rparr>
                  | None \<Rightarrow> no_table_map containers)))"

end
