(* ===== verification/PartFacts.thy ===== *)
theory PartFacts
  imports Partition
begin

text \<open>
  Facts about the partition parsers: the clamped reader, the sensitivity of CRC-32, the injectivity
  of GUID text, and the entries each scheme produces, in range and numbered in order.
\<close>

section \<open>The clamped reader\<close>

lemma length_part_read_bytes [simp]: "length (part_read_bytes src off n) = n"
  unfolding part_read_bytes_def Let_def by (simp only: if_distrib [of length] length_copy_prefix length_replicate if_cancel)

text \<open>Over a source of whole sectors, the reader returns the source's bytes, zeros past its end.\<close>

lemma part_read_bytes_eq:
  assumes src: "presents src md" "s_len src mod s_sector_size src = 0"
  shows "part_read_bytes src off n = map (\<lambda>j. if off + j < s_len src then md_byte md (off + j) else 0) [0..<n]"
proof (cases "n = 0 \<or> s_len src \<le> off")
  case True
  then show ?thesis by (intro nth_equalityI) (auto simp: part_read_bytes_def)
next
  case False
  let ?ss = "s_sector_size src" and ?len = "s_len src"
  let ?stop = "min (off + n) ?len"
  define lo hi where "lo = off - off mod ?ss" and "hi = div_ceil ?stop ?ss * ?ss"
  have ss: "0 < ?ss" by (rule presents_pos [OF src(1)])
  have len: "?len \<le> u64_max" using src(1) by (simp add: presents_def)
  have hi: "hi \<le> ?len" "?stop \<le> hi" "off < hi"
    using div_ceil_mult_le [OF ss src(2), of ?stop] div_ceil_lower [OF ss, of ?stop] False by (auto simp: hi_def)
  have lo: "lo mod ?ss = 0" "lo \<le> off" by (simp_all add: lo_def minus_mod_eq_div_mult)
  have e1: "min (sat_add64 off n) ?len = ?stop" using len by (simp add: sat_add64_def)
  have e2: "min (sat_mul64 (div_ceil ?stop ?ss) ?ss) (align_up ?len ?ss) = hi"
    using hi len src(2) by (simp add: sat_mul64_def align_up_def hi_def [symmetric])
  have rd: "fst (s_read_at src lo (zeros (hi - lo))) = medium_bytes md lo (hi - lo)"
    using presents_read [OF src(1) lo(1), of "zeros (hi - lo)"] hi lo by simp
  have copy: "min (min n (hi - lo - (off - lo))) (?stop - off) = ?stop - off" "?stop - off \<le> n" using hi lo by auto
  have sl: "get_slice (medium_bytes md lo (hi - lo)) (off - lo) (off - lo + (?stop - off)) = Some (medium_bytes md off (?stop - off))"
    using hi lo by (auto simp: slice_medium_bytes)
  have "\<not> hi \<le> lo" using hi lo by linarith
  then have "part_read_bytes src off n = blit (zeros n) 0 (medium_bytes md off (?stop - off))"
    unfolding part_read_bytes_def Let_def max_one [OF ss, unfolded One_nat_def [symmetric]] lo_def [symmetric] e1 e2 rd copy(1) sl option.case
    using False copy(2) by simp
  then show ?thesis
    using False by (intro nth_equalityI) (auto simp: nth_blit)
qed

lemma part_read_bytes_inside:
  assumes "presents src md" "s_len src mod s_sector_size src = 0" "off + n \<le> s_len src"
  shows "part_read_bytes src off n = medium_bytes md off n"
  using assms by (intro nth_equalityI) (auto simp: part_read_bytes_eq)

section \<open>CRC-32\<close>

lemma xor_cancel: "a XOR x = b XOR x \<Longrightarrow> a = (b :: 'a::len word)"
  by (drule arg_cong [where f = "\<lambda>w. w XOR x"]) (simp add: xor.assoc)

lemma crc_mask: "(- (x AND 1) :: 32 word) = (if bit x 0 then - 1 else 0)"
  by (cases "even x") (simp_all add: and_one_eq bit_0 even_iff_mod_2_eq_zero odd_iff_mod_2_eq_one)

lemma crc_bit_top: "bit (crc_bit x) 31 \<longleftrightarrow> bit x 0"
proof -
  have "bit (0xEDB88320 :: 32 word) 31" by (simp add: bit_numeral_word_iff)
  moreover have "\<not> bit (drop_bit 1 x) 31" by (simp add: bit_drop_bit_eq impossible_bit)
  ultimately show ?thesis by (simp add: crc_bit_def Let_def crc_mask bit_xor_iff bit_and_iff)
qed

lemma crc_bit_inj: "crc_bit c = crc_bit d \<Longrightarrow> c = d"
proof -
  assume eq: "crc_bit c = crc_bit d"
  then have low: "bit c 0 = bit d 0" by (metis crc_bit_top)
  then have "drop_bit 1 c XOR (0xEDB88320 AND - (c AND 1)) = drop_bit 1 d XOR (0xEDB88320 AND - (c AND 1))"
    using eq unfolding crc_bit_def Let_def crc_mask by simp
  then have shifted: "drop_bit 1 c = drop_bit 1 d" by (rule xor_cancel)
  show "c = d"
  proof (rule bit_eqI)
    fix n
    show "bit c n = bit d n"
      using low shifted by (cases n) (auto dest: arg_cong [where f = "\<lambda>w. bit w (n - 1)"] simp: bit_drop_bit_eq)
  qed
qed

lemma crc_bits_inj: "(crc_bit ^^ n) c = (crc_bit ^^ n) d \<Longrightarrow> c = d"
  by (induction n arbitrary: c d) (auto simp: funpow_swap1 dest: crc_bit_inj)

lemma crc_byte_inj: "crc_byte c x = crc_byte d x \<Longrightarrow> c = d" "crc_byte c x = crc_byte c y \<Longrightarrow> x = y"
proof -
  show "c = d" if "crc_byte c x = crc_byte d x"
    using crc_bits_inj [OF that [unfolded crc_byte_def]] by (rule xor_cancel)
  assume "crc_byte c x = crc_byte c y"
  then have "c XOR ucast x = c XOR ucast y" unfolding crc_byte_def by (rule crc_bits_inj)
  then have "c XOR (c XOR ucast x) = c XOR (c XOR ucast y)" by (rule arg_cong)
  then have "(ucast x :: 32 word) = ucast y" by (simp only: xor.assoc [symmetric] xor_self_eq xor.left_neutral)
  then have "unat (ucast x :: 32 word) = unat (ucast y :: 32 word)" by (rule arg_cong)
  then have "unat x = unat y" by (simp add: unsigned_ucast_eq take_bit_nat_eq_self unat_byte_less [THEN less_trans])
  then show "x = y" by (rule word_unat_eq_iff [THEN iffD2])
qed

lemma crc_foldl_inj: "foldl crc_byte c bs = foldl crc_byte d bs \<Longrightarrow> c = d"
  by (induction bs arbitrary: c d) (auto dest: crc_byte_inj(1))

lemma crc32_one_byte:
  assumes "crc32 (a @ x # c) = crc32 (a @ y # c)"
  shows "x = y"
proof -
  have "NOT (foldl crc_byte 0xFFFFFFFF (a @ x # c)) = NOT (foldl crc_byte 0xFFFFFFFF (a @ y # c))"
    using assms unfolding crc32_def by (rule word_unat_eq_iff [THEN iffD2])
  then have "foldl crc_byte (crc_byte (foldl crc_byte 0xFFFFFFFF a) x) c = foldl crc_byte (crc_byte (foldl crc_byte 0xFFFFFFFF a) y) c"
    by (simp add: bit.compl_eq_compl_iff)
  then show ?thesis by (rule crc_byte_inj(2) [OF crc_foldl_inj])
qed

section \<open>GUID text\<close>

lemma hex_digit_inj: "d < 16 \<Longrightarrow> e < 16 \<Longrightarrow> hex_digit d = hex_digit e \<longleftrightarrow> d = e"
proof -
  assume de: "d < 16" "e < 16"
  have code: "of_char (hex_digit x) = (if x < 10 then 48 + x else 55 + x)" if "x < 16" for x :: nat
    using that by (simp add: hex_digit_def)
  show ?thesis
  proof
    assume "hex_digit d = hex_digit e"
    then have "(if d < 10 then 48 + d else 55 + d) = (if e < 10 then 48 + e else 55 + e)"
      using code [OF de(1)] code [OF de(2)] by metis
    then show "d = e" by (simp split: if_splits)
  qed simp
qed

lemma hex_byte_inj: "hex_byte a = hex_byte b \<longleftrightarrow> a = b"
proof
  assume eq: "hex_byte a = hex_byte b"
  have "unat a div 16 = unat b div 16" "unat a mod 16 = unat b mod 16"
    using eq unat_byte_less [of a] unat_byte_less [of b] by (simp_all add: hex_byte_def hex_digit_inj)
  then have "unat a = unat b" by (metis div_mult_mod_eq)
  then show "a = b" by (rule word_unat_eq_iff [THEN iffD2])
qed simp

lemma length_hex_byte [simp]: "length (hex_byte b) = 2"
  by (simp add: hex_byte_def)

lemma guid_to_string_inj:
  assumes "length a = 16" "length b = 16" "guid_to_string a = guid_to_string b"
  shows "a = b"
proof -
  have idx: "a ! i = b ! i" if "i \<in> {0..<16}" for i
    using assms(3) that
    by (simp add: guid_to_string_def assms(1,2) Let_def get_at_def hex_bytes_def hex_byte_inj atLeastLessThan_nat_numeral) auto
  show ?thesis using assms(1,2) idx by (intro nth_equalityI) simp_all
qed

section \<open>Entries\<close>

text \<open>A partition that lies in a source of \<open>whole\<close> bytes and is not empty.\<close>

definition part_in_range :: "nat \<Rightarrow> partition \<Rightarrow> bool" where
  "part_in_range whole p \<longleftrightarrow> pt_start p < whole \<and> 0 < pt_len p \<and> pt_start p + pt_len p \<le> whole"

text \<open>A list of partitions numbered from 1, the next number being \<open>idx\<close>.\<close>

definition part_numbered :: "nat \<Rightarrow> partition list \<Rightarrow> nat \<Rightarrow> bool" where
  "part_numbered whole ps idx \<longleftrightarrow> list_all (part_in_range whole) ps \<and> map pt_index ps = [1..<idx] \<and> 1 \<le> idx"

lemma part_numbered_Nil [simp]: "part_numbered whole [] (Suc 0)"
  by (simp add: part_numbered_def)

lemma part_numbered_snoc:
  "part_numbered whole ps idx \<Longrightarrow> part_in_range whole p \<Longrightarrow> pt_index p = idx \<Longrightarrow> part_numbered whole (ps @ [p]) (Suc idx)"
  by (simp add: part_numbered_def)

lemma part_numbered_length: "part_numbered whole ps idx \<Longrightarrow> idx = Suc (length ps)"
proof -
  assume "part_numbered whole ps idx"
  then have "length ps = idx - 1" "1 \<le> idx" unfolding part_numbered_def by (metis length_map length_upt)+
  then show ?thesis by simp
qed

lemma mbr_slot_numbered:
  assumes "part_numbered whole (fst st) (snd (snd st))"
  shows "part_numbered whole (fst (mbr_slot lba0 whole i st)) (snd (snd (mbr_slot lba0 whole i st)))"
  using assms
  by (auto simp: mbr_slot_def Let_def mbr_partition_def part_in_range_def intro!: part_numbered_snoc
      split: prod.split option.split)

lemma mbr_parse_numbered:
  assumes "mbr_parse lba0 whole = Some m"
  shows "\<exists>idx. part_numbered whole (pm_entries m) idx"
proof -
  have "part_numbered whole (fst (fold (mbr_slot lba0 whole) is st)) (snd (snd (fold (mbr_slot lba0 whole) is st)))"
    if "part_numbered whole (fst st) (snd (snd st))" for "is" st
    using that by (induction "is" arbitrary: st) (auto simp: mbr_slot_numbered)
  from this [of "([], [], 1)" "[0..<4]"] show ?thesis
    using assms by (auto simp: mbr_parse_def split: if_splits prod.splits)
qed

lemma ebr_logical_numbered:
  "part_numbered whole (fst st) (snd st) \<Longrightarrow>
    part_numbered whole (fst (ebr_logical whole cur e0 st)) (snd (ebr_logical whole cur e0 st))"
  by (auto simp: ebr_logical_def Let_def mbr_partition_def part_in_range_def intro!: part_numbered_snoc)

lemma ebr_chain_numbered:
  "part_numbered whole (fst st) (snd st) \<Longrightarrow>
    part_numbered whole (fst (ebr_chain src whole base n cur st)) (snd (ebr_chain src whole base n cur st))"
  by (induction src whole base n cur st rule: ebr_chain.induct)
    (auto simp: Let_def ebr_logical_numbered split: option.split)

lemma mbr_expand_slot_numbered:
  "part_numbered whole (fst st) (snd st) \<Longrightarrow>
    part_numbered whole (fst (mbr_expand_slot src lba0 whole i st)) (snd (mbr_expand_slot src lba0 whole i st))"
  by (auto simp: mbr_expand_slot_def Let_def ebr_chain_numbered split: option.split)

lemma foldl_max_upt: "foldl max 0 [1..<Suc n] = n"
  by (induction n) (simp_all add: upt_Suc_append)

lemma mbr_expand_numbered:
  assumes "part_numbered whole (pm_entries m) idx"
  shows "\<exists>idx'. part_numbered whole (pm_entries (mbr_expand src lba0 whole m)) idx'"
proof -
  have nxt: "foldl max 0 (map pt_index (pm_entries m)) + 1 = idx"
    using assms foldl_max_upt [of "idx - 1"] by (simp add: part_numbered_def)
  have "part_numbered whole (fst (fold (mbr_expand_slot src lba0 whole) is st)) (snd (fold (mbr_expand_slot src lba0 whole) is st))"
    if "part_numbered whole (fst st) (snd st)" for "is" st
    using that by (induction "is" arbitrary: st) (auto simp: mbr_expand_slot_numbered)
  from this [of "(pm_entries m, idx)"] show ?thesis
    using assms unfolding mbr_expand_def nxt Let_def by (auto simp del: upt_Suc)
qed

lemma gpt_slot_range: "gpt_slot ss whole rec = Some f \<Longrightarrow> part_in_range whole (f i) \<and> pt_index (f i) = i"
  by (auto simp: gpt_slot_def Let_def part_in_range_def split: option.splits if_splits)

lemma gpt_slots_numbered:
  "part_numbered whole (fst st) (snd (snd st)) \<Longrightarrow>
    part_numbered whole (fst (gpt_slots ss whole table es i n st)) (snd (snd (gpt_slots ss whole table es i n st)))"
proof (induction n arbitrary: i st)
  case 0
  then show ?case by simp
next
  case (Suc n)
  obtain entries containers idx where st: "st = (entries, containers, idx)" using prod_cases3 by blast
  show ?case
  proof (cases "get_slice table (i * es) (i * es + es)")
    case (Some rec)
    let ?st = "case gpt_slot ss whole rec of None \<Rightarrow> (entries, containers, idx)
        | Some p \<Rightarrow> (entries @ [p idx], containers @ gpt_container (p idx), idx + 1)"
    have "part_numbered whole (fst ?st) (snd (snd ?st))"
      using Suc.prems gpt_slot_range [of ss whole rec] by (auto simp: st intro: part_numbered_snoc split: option.split)
    from Suc.IH [OF this] show ?thesis by (simp add: st Some)
  qed (use Suc.prems st in simp)
qed

lemma gpt_from_header_numbered: "\<exists>idx. part_numbered whole (pm_entries (gpt_from_header src ss whole hdr ub notes)) idx"
  using gpt_slots_numbered [of whole "([], [], 1)" ss "gpt_table src ss hdr" "gh_entry_size hdr" 0 "gh_num_entries hdr"]
    part_numbered_Nil [of whole]
  by (auto simp: gpt_from_header_def Let_def simp del: part_numbered_Nil split: prod.split)

end
