(* ===== verification/PartTheorems.thy ===== *)
theory PartTheorems
  imports PartFacts
begin

text \<open>
  What the partition scan promises, each property with a closed instance on a small disk.
\<close>

section \<open>Small disks\<close>

text \<open>A disk of eight sectors: an MBR whose only entry is an extended partition at sector 2, and there
  an EBR with one logical partition at sector 3.\<close>

definition mbr_record :: "byte \<Rightarrow> byte \<Rightarrow> byte \<Rightarrow> bytes" where
  "mbr_record t start num = [0, 0, 0, 0, t, 0, 0, 0, start, 0, 0, 0, num, 0, 0, 0]"

definition extended_disk :: source where
  "extended_disk = medium_source (good_medium
     [(446, mbr_record 5 2 6), (510, [0x55, 0xAA]), (1470, mbr_record 7 1 3), (1534, [0x55, 0xAA])]) 512 4096"

text \<open>The same with a primary partition at sector 1.\<close>

definition primary_disk :: source where
  "primary_disk = medium_source (good_medium
     [(446, mbr_record 7 1 1), (462, mbr_record 5 2 6), (510, [0x55, 0xAA]), (1470, mbr_record 7 1 3), (1534, [0x55, 0xAA])]) 512 4096"

lemma presents_disks:
  "presents extended_disk (good_medium
     [(446, mbr_record 5 2 6), (510, [0x55, 0xAA]), (1470, mbr_record 7 1 3), (1534, [0x55, 0xAA])])"
  "presents primary_disk (good_medium
     [(446, mbr_record 7 1 1), (462, mbr_record 5 2 6), (510, [0x55, 0xAA]), (1470, mbr_record 7 1 3), (1534, [0x55, 0xAA])])"
  by (simp_all add: extended_disk_def primary_disk_def presents_medium_source)

lemma disk_fields [simp]:
  "s_len extended_disk = 4096" "s_sector_size extended_disk = 512"
  "s_len primary_disk = 4096" "s_sector_size primary_disk = 512"
  by (simp_all add: extended_disk_def primary_disk_def)

lemmas disk_reads = presents_disks [THEN part_read_bytes_inside]

lemma get_slice_list: "get_slice (x # xs) 0 (Suc n) = map_option ((#) x) (get_slice xs 0 n)"
  by (auto simp: get_slice_def)

lemma byte_index_upt: "[0..<4] = [0, 1, 2, 3 :: nat]"
  by (simp add: upt_rec)

lemmas disk_eval = disk_reads medium_simps le32_or_0_def le64_or_0_def has_boot_sig_def mbr_sig_off_def mbr_table_off_def
  mbr_record_def is_extended_def sat_mul64_def sat_add64_def

lemma small_disks_gpt: "gpt_parse extended_disk 512 4096 = None" "gpt_parse primary_disk 512 4096 = None"
  by (simp_all add: gpt_parse_def gpt_parse_header_def gpt_choose_def gpt_sig_def disk_eval)

lemma primary_disk_parse:
  "mbr_parse (part_read_bytes primary_disk 0 512) 4096
    = Some \<lparr>pm_scheme = Mbr, pm_entries = [mbr_partition 1 512 512 7], pm_confidence = 90,
        pm_notes = [show_nat 1 @ '' extended partition(s) present (EBR chain)''], pm_containers = []\<rparr>"
  unfolding mbr_parse_def byte_index_upt
  by (simp add: mbr_slot_def disk_eval Let_def)

lemma primary_disk_scan: "pm_entries (scan primary_disk) = [mbr_partition 1 512 512 7, mbr_partition 2 1536 1536 7]"
proof -
  have upt: "[0..<4] = [0, 1, 2, 3 :: nat]" by (rule byte_index_upt)
  have "ebr_chain primary_disk 4096 1024 256 1024 st = ebr_logical 4096 1024 (medium_bytes (good_medium
     [(446, mbr_record 7 1 1), (462, mbr_record 5 2 6), (510, [0x55, 0xAA]), (1470, mbr_record 7 1 3), (1534, [0x55, 0xAA])]) 1470 16) st" for st
    using ebr_chain.simps(2) [of primary_disk 4096 1024 255 1024 st]
    by (simp add: disk_eval Let_def)
  then have "pm_entries (mbr_expand primary_disk (part_read_bytes primary_disk 0 512) 4096
      \<lparr>pm_scheme = Mbr, pm_entries = [mbr_partition 1 512 512 7], pm_confidence = 90, pm_notes = ns, pm_containers = []\<rparr>)
    = [mbr_partition 1 512 512 7, mbr_partition 2 1536 1536 7]" for ns
    by (simp add: mbr_expand_def upt mbr_expand_slot_def disk_eval ebr_logical_def Let_def mbr_partition_def)
  moreover have "pm_entries (scan primary_disk) = pm_entries (mbr_expand primary_disk (part_read_bytes primary_disk 0 512) 4096
      \<lparr>pm_scheme = Mbr, pm_entries = [mbr_partition 1 512 512 7], pm_confidence = 90,
        pm_notes = [show_nat 1 @ '' extended partition(s) present (EBR chain)''], pm_containers = []\<rparr>)"
    by (simp add: scan_def small_disks_gpt primary_disk_parse Let_def)
  ultimately show ?thesis by simp
qed

section \<open>Every table\<close>

lemma scan_entries:
  "list_all (part_in_range (s_len src)) (pm_entries (scan src)) \<and>
    (pm_scheme (scan src) \<noteq> HybridMbr \<longrightarrow> map pt_index (pm_entries (scan src)) = [1..<Suc (length (pm_entries (scan src)))])"
proof -
  let ?ss = "max (s_sector_size src) 512" and ?lba0 = "part_read_bytes src 0 512"
  have num: "list_all (part_in_range (s_len src)) ps \<and> map pt_index ps = [1..<Suc (length ps)]"
    if "part_numbered (s_len src) ps idx" for ps idx
    using that part_numbered_length [OF that] by (simp add: part_numbered_def)
  have mbr: "list_all (part_in_range (s_len src)) (pm_entries m)" if "mbr_parse ?lba0 (s_len src) = Some m" for m
    using mbr_parse_numbered [OF that] num by blast
  have exp: "\<exists>idx. part_numbered (s_len src) (pm_entries (mbr_expand src ?lba0 (s_len src) m)) idx"
    if "mbr_parse ?lba0 (s_len src) = Some m" for m
    using mbr_parse_numbered [OF that] mbr_expand_numbered by blast
  have gpt: "\<exists>idx. part_numbered (s_len src) (pm_entries g) idx" if "gpt_parse src ?ss (s_len src) = Some g" for g
    using that gpt_from_header_numbered by (auto simp: gpt_parse_def Let_def split: option.splits)
  have both: "list_all (part_in_range (s_len src)) (pm_entries (gpt_with_mbr g (mbr_parse ?lba0 (s_len src)))) \<and>
      (pm_scheme (gpt_with_mbr g (mbr_parse ?lba0 (s_len src))) \<noteq> HybridMbr \<longrightarrow>
        map pt_index (pm_entries (gpt_with_mbr g (mbr_parse ?lba0 (s_len src))))
          = [1..<Suc (length (pm_entries (gpt_with_mbr g (mbr_parse ?lba0 (s_len src)))))])"
    if "gpt_parse src ?ss (s_len src) = Some g" for g
    using gpt [OF that] num mbr
    by (auto simp: gpt_with_mbr_def Let_def list_all_iff part_in_range_def simp del: upt_Suc split: option.split)
  show ?thesis
  proof (cases "gpt_parse src ?ss (s_len src)")
    case (Some g)
    then show ?thesis using both [OF Some] by (simp add: scan_def Let_def)
  next
    case None
    then show ?thesis
      using exp num
      by (cases "mbr_parse ?lba0 (s_len src)") (auto simp: scan_def Let_def no_table_map_def simp del: upt_Suc split: option.split)
  qed
qed

text \<open>C39: Whatever the disk holds, every partition a scan reports is a non-empty
  range inside the source, and every window handed to the filesystem engines lies inside it; unless
  the table is a hybrid one the partitions are numbered 1, 2, 3 in the order reported.\<close>

theorem partitions_in_source:
  "(\<forall>p \<in> set (pm_entries (scan src)). pt_start p < s_len src \<and> 0 < pt_len p \<and> pt_start p + pt_len p \<le> s_len src) \<and>
   (\<forall>(start, len) \<in> set (volume_windows (scan src) (s_len src)). start + len \<le> s_len src) \<and>
   (pm_scheme (scan src) \<noteq> HybridMbr \<longrightarrow> map pt_index (pm_entries (scan src)) = [1..<Suc (length (pm_entries (scan src)))])"
  using scan_entries [of src] by (auto simp: volume_windows_def list_all_iff part_in_range_def simp del: upt_Suc)

theorem partitions_in_source_witness:
  "pm_entries (scan primary_disk) = [mbr_partition 1 512 512 7, mbr_partition 2 1536 1536 7] \<and>
    pt_start (mbr_partition 2 1536 1536 7) + pt_len (mbr_partition 2 1536 1536 7) \<le> s_len primary_disk"
  using partitions_in_source [of primary_disk] by (simp add: primary_disk_scan)

section \<open>MBR\<close>

lemma ebr_chain_length: "length (fst (ebr_chain src whole base n cur st)) \<le> length (fst st) + n"
proof (induction src whole base n cur st rule: ebr_chain.induct)
  case (2 src whole base guard cur st)
  have one: "length (fst (ebr_logical whole cur e st)) \<le> Suc (length (fst st))" for e
    by (auto simp: ebr_logical_def Let_def)
  show ?case
  proof (cases "ebr_chain src whole base (Suc guard) cur st = st")
    case False
    let ?ebr = "part_read_bytes src cur 512"
    obtain e0 where e0: "get_slice ?ebr mbr_table_off (mbr_table_off + 16) = Some e0" by (simp add: get_slice_def mbr_table_off_def)
    obtain e1 where e1: "get_slice ?ebr (mbr_table_off + 16) (mbr_table_off + 32) = Some e1" by (simp add: get_slice_def mbr_table_off_def)
    have a: "\<not> whole \<le> cur" "has_boot_sig ?ebr" using False by (auto simp: Let_def split: if_splits)
    show ?thesis
      using "2.IH" [OF a(1) refl _ e0 refl e1 refl refl refl] a one [of e0]
      by (auto simp: Let_def e0 e1 intro: order.trans)
  qed simp
qed simp

lemma fold_length_bound:
  assumes "\<And>i st. length (fst (f i st)) \<le> length (fst st) + k"
  shows "length (fst (fold f is st)) \<le> length (fst st) + k * length is"
proof (induction "is" arbitrary: st)
  case (Cons i "is")
  show ?case using order.trans [OF Cons.IH [of "f i st"] add_right_mono [OF assms]] by (simp add: algebra_simps)
qed simp

lemma mbr_expand_length: "length (pm_entries (mbr_expand src lba0 whole m)) \<le> length (pm_entries m) + 1024"
proof -
  have slot: "length (fst (mbr_expand_slot src lba0 whole i st)) \<le> length (fst st) + 256" for i st
    using ebr_chain_length [of src whole _ 256 _ st] by (auto simp: mbr_expand_slot_def Let_def split: option.split)
  show ?thesis
    using fold_length_bound [of "mbr_expand_slot src lba0 whole" 256 "[0..<4]"
        "(pm_entries m, foldl max 0 (map pt_index (pm_entries m)) + 1)", OF slot]
    by (simp add: mbr_expand_def Let_def)
qed

lemma mbr_parse_length: "mbr_parse lba0 whole = Some m \<Longrightarrow> length (pm_entries m) \<le> 4"
proof -
  have slot: "length (fst (mbr_slot lba0 whole i st)) \<le> length (fst st) + 1" for i st
    by (auto simp: mbr_slot_def Let_def split: prod.split option.split)
  show "mbr_parse lba0 whole = Some m \<Longrightarrow> length (pm_entries m) \<le> 4"
    using fold_length_bound [of "mbr_slot lba0 whole" 1 "[0..<4]" "([], [], 1)", OF slot]
    by (auto simp: mbr_parse_def split: if_splits prod.splits)
qed

lemma gpt_slots_length: "length (fst (gpt_slots ss whole table es i n st)) \<le> length (fst st) + n"
proof (induction n arbitrary: i st)
  case (Suc n)
  obtain entries containers idx where st: "st = (entries, containers, idx)" using prod_cases3 by blast
  show ?case
  proof (cases "get_slice table (i * es) (i * es + es)")
    case (Some rec)
    show ?thesis
      using Suc [of "Suc i" "case gpt_slot ss whole rec of None \<Rightarrow> (entries, containers, idx)
        | Some p \<Rightarrow> (entries @ [p idx], containers @ gpt_container (p idx), idx + 1)"]
      by (auto simp: st Some split: option.splits)
  qed (simp add: st)
qed simp

lemma gpt_from_header_length: "length (pm_entries (gpt_from_header src ss whole hdr ub notes)) \<le> 4096"
  using gpt_slots_length [of ss whole "gpt_table src ss hdr" "gh_entry_size hdr" 0 "gh_num_entries hdr" "([], [], 1)"]
  by (auto simp: gpt_from_header_def Let_def split: prod.split)

text \<open>Hostile tables cannot make a scan run away: an MBR with its chains of extended
  boot records, cyclic ones included, yields at most 1028 partitions, and any table at most 4100.\<close>

theorem scan_bounded:
  "length (pm_entries (scan src)) \<le> (if pm_scheme (scan src) = Mbr then 1028 else 4100)"
proof -
  let ?ss = "max (s_sector_size src) 512" and ?lba0 = "part_read_bytes src 0 512"
  have schemes: "pm_scheme m = Mbr" "pm_scheme (mbr_expand src ?lba0 (s_len src) m) = Mbr"
    if "mbr_parse ?lba0 (s_len src) = Some m" for m
    using that by (auto simp: mbr_parse_def mbr_expand_def split: if_splits prod.splits)
  have mbr: "length (pm_entries (mbr_expand src ?lba0 (s_len src) m)) \<le> 1028" if "mbr_parse ?lba0 (s_len src) = Some m" for m
    using mbr_expand_length [of src ?lba0 "s_len src" m] mbr_parse_length [OF that] by simp
  have gpt: "length (pm_entries g) \<le> 4096 \<and> pm_scheme g = Gpt" if "gpt_parse src ?ss (s_len src) = Some g" for g
    using that gpt_from_header_length
    by (auto simp: gpt_parse_def gpt_from_header_def Let_def split: option.splits prod.splits)
  have both: "length (pm_entries (gpt_with_mbr g (mbr_parse ?lba0 (s_len src)))) \<le> 4100 \<and>
      pm_scheme (gpt_with_mbr g (mbr_parse ?lba0 (s_len src))) \<noteq> Mbr" if "gpt_parse src ?ss (s_len src) = Some g" for g
  proof (cases "mbr_parse ?lba0 (s_len src)")
    case (Some m)
    have "length (filter (\<lambda>p. pt_type_byte p \<noteq> Some 0xEE) (pm_entries m)) \<le> 4"
      using length_filter_le mbr_parse_length [OF Some] by (rule order.trans)
    then show ?thesis using gpt [OF that] by (simp add: gpt_with_mbr_def Let_def Some)
  qed (use gpt [OF that] in \<open>simp add: gpt_with_mbr_def\<close>)
  show ?thesis
  proof (cases "gpt_parse src ?ss (s_len src)")
    case (Some g)
    then show ?thesis using both [OF Some] by (simp add: scan_def Let_def)
  next
    case None
    then show ?thesis
      using mbr schemes by (cases "mbr_parse ?lba0 (s_len src)") (auto simp: scan_def Let_def no_table_map_def split: option.split)
  qed
qed

text \<open>A disk whose MBR holds nothing but extended partitions is reported as
  having no partitions: without a usable GPT the scan follows extended boot records only after it
  has seen a primary partition, so every logical partition is missing from the map.\<close>

theorem mbr_extended_lost:
  assumes "gpt_parse src (max (s_sector_size src) 512) (s_len src) = None"
    and "has_boot_sig (part_read_bytes src 0 512)"
    and "\<And>i rec. i < 4 \<Longrightarrow> get_slice (part_read_bytes src 0 512) (446 + i * 16) (446 + i * 16 + 16) = Some rec \<Longrightarrow>
      rec ! 4 = 0 \<or> is_extended (rec ! 4)"
  shows "pm_entries (scan src) = [] \<and> pm_scheme (scan src) \<in> {Apm, NoScheme} \<and>
    volume_windows (scan src) (s_len src) = [(0, s_len src)]"
proof -
  let ?lba0 = "part_read_bytes src 0 512"
  have slot: "fst (mbr_slot ?lba0 (s_len src) i st) = fst st" if i: "i < 4" for i st
  proof -
    obtain rec where rec: "get_slice ?lba0 (446 + i * 16) (446 + i * 16 + 16) = Some rec"
      using i get_slice_None [of ?lba0 "446 + i * 16" "446 + i * 16 + 16"] by auto
    then have "length rec = 16" using length_get_slice by force
    then show ?thesis
      using assms(3) [OF i rec] rec by (auto simp: mbr_slot_def mbr_table_off_def Let_def get_at_def split: prod.split)
  qed
  have "fst (fold (mbr_slot ?lba0 (s_len src)) is st) = fst st" if "\<forall>i \<in> set is. i < 4" for "is" st
    using that by (induction "is" arbitrary: st) (auto simp: slot)
  from this [of "[0..<4]" "([], [], 1)"]
  have "\<exists>m. mbr_parse ?lba0 (s_len src) = Some m \<and> pm_entries m = []"
    using assms(2) by (auto simp: mbr_parse_def split: prod.split)
  then show ?thesis
    using assms(1) by (auto simp: scan_def Let_def no_table_map_def volume_windows_def split: option.split)
qed

theorem mbr_extended_lost_witness:
  "pm_entries (scan extended_disk) = [] \<and>
    fst (ebr_chain extended_disk 4096 1024 256 1024 ([], 1)) = [mbr_partition 1 1536 1536 7]"
proof -
  have "ebr_chain extended_disk 4096 1024 256 1024 ([], 1) = ([mbr_partition 1 1536 1536 7], 2)"
    using ebr_chain.simps(2) [of extended_disk 4096 1024 255 1024 "([], 1)"]
    by (simp add: disk_eval ebr_logical_def Let_def)
  moreover have "pm_entries (scan extended_disk) = []"
  proof (rule mbr_extended_lost [THEN conjunct1])
    fix i rec assume i: "i < (4 :: nat)" and rec: "get_slice (part_read_bytes extended_disk 0 512) (446 + i * 16) (446 + i * 16 + 16) = Some rec"
    from i consider "i = 0" | "i = 1" | "i = 2" | "i = 3" by linarith
    then show "rec ! 4 = 0 \<or> is_extended (rec ! 4)"
      using rec by cases (auto simp: disk_eval)
  qed (simp_all add: small_disks_gpt disk_eval)
  ultimately show ?thesis by simp
qed

section \<open>GPT\<close>

text \<open>Changing one byte of a buffer.\<close>

lemma get_slice_update:
  "k < i \<or> j \<le> k \<Longrightarrow> get_slice (b[k := y]) i j = get_slice b i j"
  by (auto simp: get_slice_def intro!: nth_equalityI)

lemma reader_update:
  "k < off \<or> off + 4 \<le> k \<Longrightarrow> le32_or_0 (b[k := y]) off = le32_or_0 b off"
  "k < off \<or> off + 8 \<le> k \<Longrightarrow> le64_or_0 (b[k := y]) off = le64_or_0 b off"
  by (simp_all add: le32_or_0_def le64_or_0_def le_u32_def le_u64_def get_slice_update)

lemma le32_or_0_update_eq:
  assumes "le32_or_0 (b[k := y]) off = le32_or_0 b off" "off \<le> k" "k < off + 4" "off + 4 \<le> length b"
  shows "y = b ! k"
proof -
  have "take 4 (drop off (b[k := y])) = take 4 (drop off b)"
    using assms(1,4) by (intro le_val_inj) (simp_all add: le32_or_0_def le_u32_def get_slice_def)
  then have "take 4 (drop off (b[k := y])) ! (k - off) = take 4 (drop off b) ! (k - off)" by simp
  then show ?thesis using assms(2-4) by simp
qed

lemma crc32_update_eq:
  assumes "crc32 (b[k := y]) = crc32 b" "k < length b"
  shows "y = b ! k"
  using assms crc32_one_byte [of "take k b" y "drop (Suc k) b" "b ! k"]
  by (simp add: upd_conv_take_nth_drop id_take_nth_drop [symmetric])

text \<open>A header sector with one checked byte changed is rejected or fails its checksum. The field that
  says how much of the header is checked (bytes 12 to 15) is left out.\<close>

lemma gpt_header_damaged:
  assumes "length b = 512" "gpt_parse_header b = Some p" "gh_crc_ok p"
    and "k < le32_or_0 b 12" "k < 12 \<or> 16 \<le> k" "y \<noteq> b ! k" "gpt_parse_header (b[k := y]) = Some q"
  shows "\<not> gh_crc_ok q"
proof
  assume ok: "gh_crc_ok q"
  let ?h = "le32_or_0 b 12"
  have h: "le32_or_0 (b[k := y]) 12 = ?h" using assms(5) by (intro reader_update) auto
  have range: "92 \<le> ?h" "?h \<le> 512" using assms(2) by (auto simp: gpt_parse_header_def Let_def split: if_splits)
  have sl: "get_slice b 0 ?h = Some (take ?h b)" "get_slice (b[k := y]) 0 ?h = Some (take ?h (b[k := y]))"
    using range assms(1) by (simp_all add: get_slice_def)
  have crc: "crc32 (zero_range (take ?h b) 16 20) = le32_or_0 b 16"
    using assms(2,3) sl by (auto simp: gpt_parse_header_def Let_def split: if_splits)
  have crc': "crc32 (zero_range (take ?h (b[k := y])) 16 20) = le32_or_0 (b[k := y]) 16"
    using assms(7) ok sl h by (auto simp: gpt_parse_header_def Let_def split: if_splits)
  show False
  proof (cases "16 \<le> k \<and> k < 20")
    case True
    then have "zero_range (take ?h (b[k := y])) 16 20 = zero_range (take ?h b) 16 20"
      using range assms(1) by (intro nth_equalityI) (auto simp: nth_zero_range)
    then show False
      using crc crc' le32_or_0_update_eq [of b k y 16] True assms(1,6) by simp
  next
    case False
    then have "zero_range (take ?h (b[k := y])) 16 20 = (zero_range (take ?h b) 16 20)[k := y]"
    proof (intro nth_equalityI)
      fix i assume "i < length (zero_range (take ?h (b[k := y])) 16 20)"
      then have "i < ?h" using range assms(1) by simp
      then show "zero_range (take ?h (b[k := y])) 16 20 ! i = (zero_range (take ?h b) 16 20)[k := y] ! i"
        using False range assms(1) by (cases "i = k") (auto simp: nth_zero_range)
    qed simp
    moreover have "le32_or_0 (b[k := y]) 16 = le32_or_0 b 16" using False by (intro reader_update) auto
    ultimately have "y = zero_range (take ?h b) 16 20 ! k"
      using crc crc' crc32_update_eq [of "zero_range (take ?h b) 16 20" k y] range assms(1,4) by simp
    then show False using False range assms(1,4,6) by (simp add: nth_zero_range)
  qed
qed

text \<open>What a header makes of a disk depends on the disk only through the table it points to.\<close>

lemma gpt_from_header_same:
  assumes "gh_num_entries q = gh_num_entries p" "gh_entry_size q = gh_entry_size p"
    and "gpt_table src' ss q = gpt_table src ss p"
  shows "pm_entries (gpt_from_header src' ss whole q ub ns) = pm_entries (gpt_from_header src ss whole p ub' ns')"
    and "pm_containers (gpt_from_header src' ss whole q ub ns) = pm_containers (gpt_from_header src ss whole p ub' ns')"
  using assms by (simp_all add: gpt_from_header_def Let_def split: prod.split)

text \<open>C38: A GPT survives damage to its primary header: on a disk whose primary and
  backup headers both pass their checksum and describe equal tables, changing any one checked byte
  of the primary header (its length field apart) leaves the reported partitions and containers as
  they were. CRC-32 detects the change, whatever it is, and the backup header takes over.
  The source has whole sectors and room for both headers, and the table of the backup lies behind the primary header.\<close>

theorem gpt_survives_damage:
  assumes "presents src md" "presents src' md'" "s_len src' = s_len src" "s_sector_size src' = s_sector_size src"
    and "s_len src mod s_sector_size src = 0" "512 \<le> ss" "ss + 512 \<le> s_len src - ss"
    and "\<And>j. j \<noteq> ss + k \<Longrightarrow> md_byte md' j = md_byte md j"
    and "gpt_parse_header (part_read_bytes src ss 512) = Some p" "gh_crc_ok p"
    and "gpt_parse_header (part_read_bytes src (s_len src - ss) 512) = Some q" "gh_crc_ok q"
    and "gh_num_entries q = gh_num_entries p" "gh_entry_size q = gh_entry_size p" "gpt_table src ss q = gpt_table src ss p"
    and "ss + 512 \<le> sat_mul64 (gh_entry_lba q) ss"
    and "k < le32_or_0 (part_read_bytes src ss 512) 12" "k < 12 \<or> 16 \<le> k" "md_byte md' (ss + k) \<noteq> md_byte md (ss + k)"
  shows "\<exists>g g'. gpt_parse src ss (s_len src) = Some g \<and> gpt_parse src' ss (s_len src') = Some g' \<and>
    pm_entries g' = pm_entries g \<and> pm_containers g' = pm_containers g"
proof -
  let ?b = "part_read_bytes src ss 512" and ?b' = "part_read_bytes src' ss 512"
  have k: "k < 512"
    using assms(9,17) by (auto simp: gpt_parse_header_def Let_def split: if_splits)
  have read: "part_read_bytes src off n = map (\<lambda>j. if off + j < s_len src then md_byte md (off + j) else 0) [0..<n]"
    "part_read_bytes src' off n = map (\<lambda>j. if off + j < s_len src then md_byte md' (off + j) else 0) [0..<n]" for off n
    using part_read_bytes_eq [OF assms(1)] part_read_bytes_eq [OF assms(2)] assms(3-5) by auto
  have same: "part_read_bytes src' off n = part_read_bytes src off n" if "ss + 512 \<le> off" for off n
  proof -
    have "md_byte md' (off + j) = md_byte md (off + j)" for j using that k assms(8) [of "off + j"] by simp
    then show ?thesis by (simp add: read)
  qed
  have b': "?b' = ?b[k := md_byte md' (ss + k)]" "md_byte md' (ss + k) \<noteq> ?b ! k"
    using assms(7,8,19) k by (auto simp: read nth_list_update intro!: nth_equalityI)
  have bad: "\<not> gh_crc_ok r" if "gpt_parse_header ?b' = Some r" for r
    using gpt_header_damaged [OF _ assms(9,10,17,18) b'(2)] that b'(1) by simp
  have backup: "part_read_bytes src' (s_len src' - ss) 512 = part_read_bytes src (s_len src - ss) 512"
    using same assms(3,7) by simp
  have "gpt_table src' ss q = gpt_table src ss p"
    using same [OF assms(16)] assms(15) by (simp add: gpt_table_def)
  then have from': "pm_entries (gpt_from_header src' ss (s_len src) q ub ns) = pm_entries (gpt_from_header src ss (s_len src) p ub' ns')"
    "pm_containers (gpt_from_header src' ss (s_len src) q ub ns) = pm_containers (gpt_from_header src ss (s_len src) p ub' ns')" for ub ns ub' ns'
    using gpt_from_header_same assms(13,14) by metis+
  have good: "gpt_parse src ss (s_len src) = Some (gpt_from_header src ss (s_len src) p False [])"
    using assms(9-12) by (simp add: gpt_parse_def gpt_choose_def)
  obtain ns where "gpt_parse src' ss (s_len src') = Some (gpt_from_header src' ss (s_len src) q True ns)"
    using bad assms(3,11,12) backup
    by (cases "gpt_parse_header ?b'") (auto simp: gpt_parse_def gpt_choose_def Let_def)
  then show ?thesis using good from' by blast
qed

definition apfs_guid :: bytes where
  "apfs_guid = [0xEF, 0x57, 0x34, 0x7C, 0x00, 0x00, 0xAA, 0x11, 0xAA, 0x11, 0x00, 0x30, 0x65, 0x43, 0xEC, 0xAC]"

text \<open>A disk of five sectors with a GPT of one APFS partition: the primary header in sector 1, the table
  in sector 2, the backup header in the last sector. The damaged disk has another byte at place 24
  of the primary header.\<close>

definition gpt_small_header :: "byte \<Rightarrow> bytes \<Rightarrow> bytes" where
  "gpt_small_header my crc = gpt_sig @ [0, 0, 0, 0, 92, 0, 0, 0] @ crc @ [0, 0, 0, 0, my] @ zeros 47 @
     [2, 0, 0, 0, 0, 0, 0, 0, 1, 0, 0, 0, 128, 0, 0, 0, 144, 25, 171, 150]"

definition gpt_small_entry :: bytes where
  "gpt_small_entry = apfs_guid @ zeros 16 @ [2, 0, 0, 0, 0, 0, 0, 0, 3, 0, 0, 0, 0, 0, 0, 0] @ zeros 80"

definition gpt_small :: "byte \<Rightarrow> medium" where
  "gpt_small my = good_medium [(512, gpt_small_header my [12, 34, 91, 7]), (1024, gpt_small_entry), (2048, gpt_small_header 0 [12, 34, 91, 7])]"

lemma medium_bytes_chunk: "medium_bytes (good_medium ((p, b) # r)) p (length b) = b"
  by (intro nth_equalityI) simp_all

lemma medium_bytes_skip:
  "q + n \<le> p \<or> p + length b \<le> q \<Longrightarrow> medium_bytes (good_medium ((p, b) # r)) q n = medium_bytes (good_medium r) q n"
  by (intro nth_equalityI) auto

lemma length_gpt_small [simp]: "length crc = 4 \<Longrightarrow> length (gpt_small_header my crc) = 92" "length gpt_small_entry = 128"
  by (simp_all add: gpt_small_header_def gpt_small_entry_def gpt_sig_def apfs_guid_def)

lemma gpt_small_chunks:
  "medium_bytes (gpt_small my) 512 92 = gpt_small_header my [12, 34, 91, 7]"
  "medium_bytes (gpt_small my) 2048 92 = gpt_small_header 0 [12, 34, 91, 7]"
  using medium_bytes_chunk [of 512 "gpt_small_header my [12, 34, 91, 7]"] medium_bytes_chunk [of 2048 "gpt_small_header 0 [12, 34, 91, 7]"]
  by (simp_all add: gpt_small_def medium_bytes_skip)

text \<open>The checksum, bit by bit.\<close>

lemma crc_bit_eval: "crc_bit c = (if even c then drop_bit 1 c else drop_bit 1 c XOR 0xEDB88320)"
  by (simp add: crc_bit_def Let_def crc_mask bit_0)

lemma crc_byte_eval: "crc_byte c b = crc_bit (crc_bit (crc_bit (crc_bit (crc_bit (crc_bit (crc_bit (crc_bit (c XOR ucast b))))))))"
  by (simp add: crc_byte_def eval_nat_numeral)

lemma gpt_small_plain:
  "zero_range (gpt_small_header 0 [12, 34, 91, 7]) 16 20
    = [69, 70, 73, 32, 80, 65, 82, 84, 0, 0, 0, 0, 92, 0, 0, 0, 0, 0, 0, 0, 0, 0, 0, 0, 0, 0, 0, 0, 0, 0, 0, 0, 0, 0, 0, 0, 0, 0, 0, 0, 0, 0, 0, 0, 0, 0, 0, 0, 0, 0, 0, 0, 0, 0, 0, 0, 0, 0, 0, 0, 0, 0, 0, 0, 0, 0, 0, 0, 0, 0, 0, 0,
       2, 0, 0, 0, 0, 0, 0, 0, 1, 0, 0, 0, 128, 0, 0, 0, 144, 25, 171, 150]"
proof -
  have "zeros 4 = [0, 0, 0, 0 :: byte]" "zeros 47 = [0, 0, 0, 0, 0, 0, 0, 0, 0, 0, 0, 0, 0, 0, 0, 0, 0, 0, 0, 0, 0, 0, 0, 0, 0, 0, 0, 0, 0, 0, 0, 0, 0, 0, 0, 0, 0, 0, 0, 0, 0, 0, 0, 0, 0, 0, 0 :: byte]" by (simp_all add: numeral_eq_Suc)
  then show ?thesis
    by (simp add: zero_range_def blit_checked_def blit_def gpt_small_header_def gpt_sig_def)
qed

lemma gpt_small_crc: "crc32 (zero_range (gpt_small_header 0 [12, 34, 91, 7]) 16 20) = 123413004"
  unfolding gpt_small_plain by (simp add: crc32_def crc_byte_eval crc_bit_eval)

lemma gpt_small_fields:
  assumes "medium_bytes md p 92 = gpt_small_header 0 [12, 34, 91, 7]"
  shows "gpt_parse_header (medium_bytes md p 512)
      = Some \<lparr>gh_entry_lba = 2, gh_num_entries = 1, gh_entry_size = 128, gh_entries_crc = 0x96AB1990, gh_crc_ok = True\<rparr>"
    and "le32_or_0 (medium_bytes md p 512) 12 = 92"
proof -
  let ?h = "gpt_small_header 0 [12, 34, 91, 7]"
  have pre: "get_slice (medium_bytes md p 512) i j = get_slice ?h i j" if "j \<le> 92" for i j
    using that assms [symmetric] by (simp add: slice_medium_bytes)
  have rd: "get_slice ?h 0 8 = Some gpt_sig" "get_slice ?h 12 16 = Some [92, 0, 0, 0]" "get_slice ?h 16 20 = Some [12, 34, 91, 7]"
    "get_slice ?h 72 80 = Some [2, 0, 0, 0, 0, 0, 0, 0]" "get_slice ?h 80 84 = Some [1, 0, 0, 0]"
    "get_slice ?h 84 88 = Some [128, 0, 0, 0]" "get_slice ?h 88 92 = Some [144, 25, 171, 150]" "get_slice ?h 0 92 = Some ?h"
    by (simp_all add: get_slice_def gpt_small_header_def gpt_sig_def)
  show "le32_or_0 (medium_bytes md p 512) 12 = 92" by (simp add: le32_or_0_def le_u32_def pre rd)
  then show "gpt_parse_header (medium_bytes md p 512)
      = Some \<lparr>gh_entry_lba = 2, gh_num_entries = 1, gh_entry_size = 128, gh_entries_crc = 0x96AB1990, gh_crc_ok = True\<rparr>"
    using gpt_small_crc by (simp add: gpt_parse_header_def Let_def pre rd le32_or_0_def le64_or_0_def le_u32_def le_u64_def)
qed

theorem gpt_survives_damage_witness:
  "\<exists>g g'. gpt_parse (medium_source (gpt_small 0) 512 2560) 512 2560 = Some g \<and>
    gpt_parse (medium_source (gpt_small 9) 512 2560) 512 2560 = Some g' \<and> pm_entries g' = pm_entries g"
proof -
  let ?hdr = "\<lparr>gh_entry_lba = 2, gh_num_entries = 1, gh_entry_size = 128, gh_entries_crc = 0x96AB1990, gh_crc_ok = True\<rparr>"
  have src: "presents (medium_source (gpt_small my) 512 2560) (gpt_small my)" for my
    by (rule presents_medium_source) simp_all
  have rd: "part_read_bytes (medium_source (gpt_small my) 512 2560) off n = medium_bytes (gpt_small my) off n"
    if "off + n \<le> 2560" for my off n
    using that part_read_bytes_inside [OF src] by simp
  note fields = gpt_small_fields [OF gpt_small_chunks(1) [of 0]] gpt_small_fields [OF gpt_small_chunks(2)]
  have "md_byte (gpt_small 9) j = md_byte (gpt_small 0) j" if "j \<noteq> 536" for j
    using that by (auto simp: gpt_small_def gpt_small_header_def gpt_sig_def nth_append nth_Cons split: nat.split)
  moreover have "md_byte (gpt_small 9) 536 \<noteq> md_byte (gpt_small 0) 536"
    by (simp add: gpt_small_def gpt_small_header_def gpt_sig_def)
  ultimately show ?thesis
    using gpt_survives_damage [OF src [of 0] src [of 9], where ss = 512 and k = 24 and p = ?hdr and q = ?hdr] fields
    by (simp add: rd sat_mul64_def) blast
qed

section \<open>GUIDs and containers\<close>

text \<open>GUID text identifies its GUID: two GUIDs of sixteen bytes print alike only if
  they are the same, and the type the planner acts on is the one the table names.\<close>

theorem guid_text_inverts:
  "length a = 16 \<Longrightarrow> length b = 16 \<Longrightarrow> guid_to_string a = guid_to_string b \<longleftrightarrow> a = b"
  using guid_to_string_inj by blast

lemma apfs_guid_text: "guid_to_string apfs_guid = ''7C3457EF-0000-11AA-AA11-00306543ECAC''"
  by code_simp

theorem guid_text_inverts_witness:
  "guid_type_label (guid_to_string apfs_guid) = ''Apple APFS'' \<and> guid_to_string (zeros 16) \<noteq> guid_to_string apfs_guid"
proof -
  have "zeros 16 ! 0 \<noteq> apfs_guid ! 0" by (simp add: apfs_guid_def)
  then have "zeros 16 \<noteq> apfs_guid" by metis
  then show ?thesis
    using guid_text_inverts [of "zeros 16" apfs_guid] apfs_guid_text by (simp add: apfs_guid_def guid_type_label_def guid_types_def)
qed

text \<open>A Core Storage volume without a partition table is never announced: the
  scan looks for its signature at bytes 88 and 89 of a block of which it reads 64 bytes.\<close>

theorem core_storage_undetected:
  "c \<in> set (detect_containers src whole) \<Longrightarrow> cn_kind c \<noteq> ''core-storage''"
  by (auto simp: detect_containers_def Let_def get_slice_def split: if_splits)

end
