(* ===== verification/Text.thy ===== *)
theory Text
  imports Prelude
begin

text \<open>
  Unicode text and the names of recovered files (\<^verbatim>\<open>crates/reclaim-carve/src/metadata.rs\<close>, the path
  rules of \<^verbatim>\<open>crates/reclaim-session/src/recover.rs\<close> and \<^verbatim>\<open>store.rs\<close>). A string is the list of its
  Unicode scalar values; a destination path is the list of its components.
\<close>

type_synonym ustring = "nat list"
type_synonym upath = "ustring list"

definition ustr :: "string \<Rightarrow> ustring" where
  "ustr s = map of_char s"

section \<open>Characters\<close>

text \<open>\<^verbatim>\<open>char::is_control\<close> and \<^verbatim>\<open>char::is_whitespace\<close>.\<close>

definition is_control :: "nat \<Rightarrow> bool" where
  "is_control c \<longleftrightarrow> c < 32 \<or> (127 \<le> c \<and> c \<le> 159)"

definition is_white :: "nat \<Rightarrow> bool" where
  "is_white c \<longleftrightarrow> (9 \<le> c \<and> c \<le> 13) \<or> c = 32 \<or> c = 0x85 \<or> c = 0xA0 \<or> c = 0x1680 \<or> (0x2000 \<le> c \<and> c \<le> 0x200A)
     \<or> c = 0x2028 \<or> c = 0x2029 \<or> c = 0x202F \<or> c = 0x205F \<or> c = 0x3000"

definition trim_end :: "ustring \<Rightarrow> ustring" where
  "trim_end s = rev (dropWhile is_white (rev s))"

definition trim :: "ustring \<Rightarrow> ustring" where
  "trim s = trim_end (dropWhile is_white s)"

definition slash :: nat where "slash = 47"

definition backslash :: nat where "backslash = 92"

section \<open>Synthesized names\<close>

record metadata =
  md_name :: "ustring option"
  md_date :: "ustring option"
  md_model :: "ustring option"
  md_thumb_offset :: "nat option"
  md_thumb_len :: "nat option"

definition metadata_is_empty :: "metadata \<Rightarrow> bool" where
  "metadata_is_empty m \<longleftrightarrow> md_name m = None \<and> md_date m = None \<and> md_model m = None \<and> md_thumb_offset m = None"

definition sanitize_char :: "nat \<Rightarrow> nat" where
  "sanitize_char c = (if c = slash \<or> c = backslash \<or> c = 58 \<or> c = 0 then 95 else if is_control c then 95 else c)"

definition sanitize :: "ustring \<Rightarrow> ustring" where
  "sanitize s =
     (let trimmed = trim (map sanitize_char s);
          out = (if trimmed = [] \<or> trimmed = ustr ''.'' \<or> trimmed = ustr ''..'' then ustr ''unnamed'' else trimmed)
      in take 120 out)"

definition hex_low :: "nat \<Rightarrow> nat" where
  "hex_low d = (if d < 10 then 48 + d else 87 + d)"

text \<open>\<^verbatim>\<open>{offset:016x}\<close> of a 64-bit value: its \<open>n\<close> lowest hexadecimal digits, most significant first.\<close>

fun hex_digits :: "nat \<Rightarrow> nat \<Rightarrow> ustring" where
  "hex_digits 0 x = []"
| "hex_digits (Suc n) x = hex_digits n (x div 16) @ [hex_low (x mod 16)]"

definition suggested_path :: "metadata \<Rightarrow> ustring \<Rightarrow> ustring \<Rightarrow> nat \<Rightarrow> ustring \<Rightarrow> ustring" where
  "suggested_path m family subtype offset ext =
     (let date = (case md_date m of None \<Rightarrow> ustr ''undated'' | Some d \<Rightarrow> sanitize d);
          bucket = (case md_model m of None \<Rightarrow> sanitize subtype | Some x \<Rightarrow> sanitize x);
          stem = (case md_name m of Some n \<Rightarrow> sanitize n | None \<Rightarrow> ustr ''f'' @ hex_digits 16 offset);
          ext = (if ext = [] then ustr ''bin'' else ext)
      in family @ [slash] @ date @ [slash] @ bucket @ [slash] @ stem @ ustr ''.'' @ ext)"

section \<open>Destination paths\<close>

definition safe_char :: "nat \<Rightarrow> nat" where
  "safe_char c = (if c = 0 \<or> c = 58 then 95 else if is_control c then 95 else c)"

definition keep_component :: "ustring \<Rightarrow> bool" where
  "keep_component c \<longleftrightarrow> c \<noteq> [] \<and> c \<noteq> ustr ''.'' \<and> c \<noteq> ustr ''..''"

definition safe_rel_path :: "ustring \<Rightarrow> bool \<Rightarrow> upath" where
  "safe_rel_path synth flat =
     (let comps = map (\<lambda>c. take 200 (map safe_char c))
            (filter keep_component (split_by (\<lambda>c. c = slash \<or> c = backslash) synth));
          out = (if flat then (if comps = [] then [] else [last comps]) else comps)
      in if out = [] then [ustr ''unnamed''] else out)"

text \<open>A component that can only name an entry of the directory it is joined to.\<close>

definition plain_component :: "ustring \<Rightarrow> bool" where
  "plain_component c \<longleftrightarrow> keep_component c \<and> (\<forall>x \<in> set c. x \<noteq> slash \<and> x \<noteq> backslash \<and> x \<noteq> 0 \<and> \<not> is_control x) \<and> length c \<le> 200"

text \<open>\<^verbatim>\<open>file_stem\<close> and \<^verbatim>\<open>extension\<close> of a file name: split at the last dot, unless it is the first
  character.\<close>

definition split_ext :: "ustring \<Rightarrow> ustring \<times> ustring option" where
  "split_ext name =
     (let after = rev (takeWhile (\<lambda>c. c \<noteq> 46) (rev name));
          before = take (length name - length after - 1) name
      in if 46 \<notin> set name \<or> before = [] then (name, None) else (before, Some after))"

section \<open>Facts\<close>

lemma safe_char_plain: "x \<noteq> slash \<Longrightarrow> x \<noteq> backslash \<Longrightarrow>
    safe_char x \<noteq> slash \<and> safe_char x \<noteq> backslash \<and> safe_char x \<noteq> 0 \<and> \<not> is_control (safe_char x)"
  by (auto simp: safe_char_def slash_def backslash_def is_control_def)

lemma safe_char_dot: "safe_char x = 46 \<longleftrightarrow> x = 46"
  by (auto simp: safe_char_def is_control_def)

lemma dots: "ustr ''.'' = [46]" "ustr ''..'' = [46, 46]"
  by (simp_all add: ustr_def)

lemma keep_component_safe: "keep_component (take 200 (map safe_char c)) \<longleftrightarrow> keep_component c"
proof -
  have short: "take 200 (map safe_char c) = d \<longleftrightarrow> map safe_char c = d" if "length d < 200" for d
    using that by (cases "length c \<le> 200") auto
  show ?thesis by (simp add: keep_component_def dots short safe_char_dot map_eq_Cons_conv)
qed

lemma safe_component:
  assumes "c \<in> set (filter keep_component (split_by (\<lambda>c. c = slash \<or> c = backslash) synth))"
  shows "plain_component (take 200 (map safe_char c))"
proof -
  let ?sep = "\<lambda>c. c = slash \<or> c = backslash"
  have "c \<in> set (split_by ?sep synth)" using assms by simp
  then have "\<forall>x \<in> set c. \<not> ?sep x" using split_by_pieces [of ?sep synth] by (meson)
  then have "x \<noteq> slash \<and> x \<noteq> backslash" if "x \<in> set c" for x using that by simp
  then have "\<forall>y \<in> set (take 200 (map safe_char c)). y \<noteq> slash \<and> y \<noteq> backslash \<and> y \<noteq> 0 \<and> \<not> is_control y"
    using safe_char_plain by (fastforce dest!: in_set_takeD)
  then show ?thesis using assms by (simp add: plain_component_def keep_component_safe)
qed

lemma safe_rel_path_plain:
  "safe_rel_path synth flat \<noteq> [] \<and> (\<forall>c \<in> set (safe_rel_path synth flat). plain_component c)"
proof -
  let ?comps = "map (\<lambda>c. take 200 (map safe_char c)) (filter keep_component (split_by (\<lambda>c. c = slash \<or> c = backslash) synth))"
  have comps: "\<forall>c \<in> set ?comps. plain_component c" using safe_component by auto
  then have "?comps \<noteq> [] \<Longrightarrow> plain_component (last ?comps)" using last_in_set by blast
  note this comps
  moreover have "plain_component (ustr ''unnamed'')"
    by (simp add: plain_component_def keep_component_def ustr_def slash_def backslash_def is_control_def)
  ultimately show ?thesis unfolding safe_rel_path_def Let_def by (simp split: if_split)
qed

end
