(* ===== verification/CarveReader.thy ===== *)
theory CarveReader
  imports Source
begin

text \<open>
  Byte-granular reads (\<^verbatim>\<open>crates/reclaim-carve/src/reader.rs\<close>): the \<^verbatim>\<open>Reader\<close> trait as a record of its
  methods, and its two implementations, over a block source and over a buffer.
\<close>

record reader =
  rd_read :: "nat \<Rightarrow> nat \<Rightarrow> bytes"
  rd_flags :: "nat \<Rightarrow> nat \<Rightarrow> bytes \<times> bool"
  rd_len :: nat

definition read_inner :: "source \<Rightarrow> nat \<Rightarrow> nat \<Rightarrow> bool \<Rightarrow> bytes \<times> bool" where
  "read_inner src offset len want_flags =
     (let out = zeros len; whole = s_len src; ss = max (s_sector_size src) 1 in
      if len = 0 \<or> whole \<le> offset then (out, want_flags \<and> offset < whole)
      else
        let aligned_start = offset - offset mod ss;
            stop = sat_add64 offset len;
            aligned_end = sat_mul64 (div_ceil stop ss) ss;
            span = aligned_end - aligned_start;
            r = s_read_at src aligned_start (zeros span);
            rr = snd r;
            skip = offset - aligned_start;
            copy = min len (span - skip);
            first = skip div ss;
            last = (skip + copy - 1) div ss
        in ((case get_slice (fst r) skip (skip + copy) of
               Some s \<Rightarrow> if copy \<le> len then blit out 0 s else out
             | None \<Rightarrow> out),
            want_flags \<and> (rr_any_bad rr \<or> rr_any_unread rr) \<and>
              list_ex (\<lambda>i. rr_status rr i \<noteq> Good) [first..<Suc (min last (rr_sector_count rr - 1))]))"

definition source_reader :: "source \<Rightarrow> reader" where
  "source_reader src = \<lparr>rd_read = (\<lambda>off n. fst (read_inner src off n False)),
     rd_flags = (\<lambda>off n. read_inner src off n True), rd_len = s_len src\<rparr>"

definition mem_read :: "bytes \<Rightarrow> nat \<Rightarrow> nat \<Rightarrow> bytes" where
  "mem_read data offset len =
     (let out = zeros len; stop = min (sat_add64 offset len) (length data) in
      if offset < length data
      then (case get_slice data offset stop of
              Some s \<Rightarrow> if stop - offset \<le> len then blit out 0 s else out
            | None \<Rightarrow> out)
      else out)"

definition mem_reader :: "bytes \<Rightarrow> reader" where
  "mem_reader data = \<lparr>rd_read = mem_read data, rd_flags = (\<lambda>off n. (mem_read data off n, False)), rd_len = length data\<rparr>"

section \<open>Facts\<close>

lemma source_reader_fields [simp]:
  "rd_len (source_reader src) = s_len src"
  "rd_flags (source_reader src) off n = read_inner src off n True"
  by (simp_all add: source_reader_def)

lemma length_read_inner [simp]: "length (fst (read_inner src off n w)) = n"
  unfolding read_inner_def Let_def by (simp only: if_distrib [of fst] fst_conv if_distrib [of length] length_copy_prefix length_replicate if_cancel)

text \<open>The status of the sectors a range of bytes touches.\<close>

definition range_clean :: "source \<Rightarrow> medium \<Rightarrow> nat \<Rightarrow> nat \<Rightarrow> bool" where
  "range_clean src md off n \<longleftrightarrow> (\<forall>j < n. md_stat md ((off + j) div s_sector_size src) = Good)"

text \<open>Inside a source of whole sectors, a read returns the source's bytes and flags exactly the ranges
  that touch a sector that is not good.\<close>

lemma read_inner_ok:
  assumes src: "presents src md" "s_len src mod s_sector_size src = 0" and n: "0 < n" "off + n \<le> s_len src"
  shows "fst (read_inner src off n w) = medium_bytes md off n"
    and "snd (read_inner src off n w) \<longleftrightarrow> w \<and> \<not> range_clean src md off n"
proof -
  let ?ss = "s_sector_size src"
  define lo hi where "lo = off - off mod ?ss" and "hi = div_ceil (off + n) ?ss * ?ss"
  have ss: "0 < ?ss" by (rule presents_pos [OF src(1)])
  have len: "s_len src \<le> u64_max" using src(1) by (simp add: presents_def)
  have hi: "hi \<le> s_len src" "off + n \<le> hi"
    using div_ceil_mult_le [OF ss src(2) n(2)] div_ceil_lower [OF ss, of "off + n"] by (simp_all add: hi_def)
  have lo: "lo mod ?ss = 0" "lo \<le> off" "off - lo < ?ss" "lo div ?ss = off div ?ss"
    using ss by (simp_all add: lo_def minus_mod_eq_div_mult minus_div_mult_eq_mod)
  have e1: "sat_add64 off n = off + n" using n len by (simp add: sat_add64_def)
  have e2: "sat_mul64 (div_ceil (off + n) ?ss) ?ss = hi" using hi len by (simp add: sat_mul64_def hi_def [symmetric])
  let ?r = "s_read_at src lo (zeros (hi - lo))"
  have rd: "fst ?r = medium_bytes md lo (hi - lo)"
    using presents_read [OF src(1) lo(1), of "zeros (hi - lo)"] hi lo by simp
  have copy: "min n (hi - lo - (off - lo)) = n" using hi lo by auto
  have ineq: "off - lo \<le> off - lo + n" "off - lo + n \<le> hi - lo" "lo + (off - lo) = off" using hi lo by linarith+
  have slice: "get_slice (fst ?r) (off - lo) (off - lo + n) = Some (medium_bytes md off n)"
    using ineq unfolding rd slice_medium_bytes by simp
  have mx: "max ?ss 1 = ?ss" using ss by simp
  have guard: "\<not> (n = 0 \<or> s_len src \<le> off)" using n by simp
  note unfold = read_inner_def Let_def mx lo_def [symmetric] e1 e2 copy slice option.case
  show "fst (read_inner src off n w) = medium_bytes md off n"
    unfolding unfold using guard by simp
  have lodiv: "lo = lo div ?ss * ?ss" using lo(1) by (metis div_mult_mod_eq add_0_right)
  let ?c = "div_ceil (hi - lo) ?ss"
  have st: "rr_status (snd ?r) i = md_stat md (off div ?ss + i)" if "i < ?c" for i
    using presents_status [OF src(1) lo(1), of "zeros (hi - lo)" i] hi lo that by simp
  have shape: "rr_shape ?ss ?c (snd ?r)"
    using block_source.shape [OF presents_well_behaved [OF src(1)], of "zeros (hi - lo)" lo] by simp
  have cnt: "rr_sector_count (snd ?r) = ?c" using shape by (simp add: rr_shape_def)
  have lastsec: "(off - lo + n - 1) div ?ss < ?c"
    using hi lo n ss by (intro div_less_div_ceil) auto
  have any: "rr_any_bad (snd ?r) \<or> rr_any_unread (snd ?r)" if "rr_status (snd ?r) i \<noteq> Good" for i
    using that shape by (auto simp: rr_status_def rr_any_bad_def rr_any_unread_def rr_shape_def bitset_any_iff split: if_splits)
  have first0: "(off - lo) div ?ss = 0" using lo(3) by simp
  have sec: "(off + j) div ?ss = off div ?ss + (off - lo + j) div ?ss" for j
  proof -
    have "off + j = lo div ?ss * ?ss + (off - lo + j)" using lodiv lo(2) by linarith
    then show ?thesis using ss lo(4) by (metis div_mult_self3 add.commute less_numeral_extra(3))
  qed
  have "list_ex (\<lambda>i. rr_status (snd ?r) i \<noteq> Good) [(off - lo) div ?ss..<Suc (min ((off - lo + n - 1) div ?ss) (rr_sector_count (snd ?r) - 1))]
      \<longleftrightarrow> (\<exists>i \<le> (off - lo + n - 1) div ?ss. md_stat md (off div ?ss + i) \<noteq> Good)"
    using lastsec st by (auto simp: list_ex_iff cnt first0 less_Suc_eq_le simp del: upt_Suc)
  also have "\<dots> \<longleftrightarrow> \<not> range_clean src md off n"
  proof
    assume "\<exists>i \<le> (off - lo + n - 1) div ?ss. md_stat md (off div ?ss + i) \<noteq> Good"
    then obtain i where i: "i \<le> (off - lo + n - 1) div ?ss" "md_stat md (off div ?ss + i) \<noteq> Good" by blast
    let ?j = "max (i * ?ss) (off - lo) - (off - lo)"
    have "i * ?ss \<le> off - lo + n - 1" using i(1) ss by (simp add: less_eq_div_iff_mult_less_eq)
    then have "i * ?ss - (off - lo) < n" using n(1) by linarith
    moreover have "?j = i * ?ss - (off - lo)" by (simp add: max_def)
    ultimately have j: "?j < n" by simp
    have "(off - lo + ?j) div ?ss = i"
    proof (cases "i = 0")
      case False
      then have "1 * ?ss \<le> i * ?ss" by (intro mult_le_mono1) simp
      then have "off - lo < i * ?ss" using lo(3) by linarith
      then have "off - lo + ?j = i * ?ss" by (simp add: max_def)
      then show ?thesis using ss by simp
    qed (use lo(3) in simp)
    then show "\<not> range_clean src md off n" using i(2) j sec [of ?j] by (auto simp: range_clean_def)
  next
    assume "\<not> range_clean src md off n"
    then obtain j where j: "j < n" "md_stat md ((off + j) div ?ss) \<noteq> Good" by (auto simp: range_clean_def)
    have "(off - lo + j) div ?ss \<le> (off - lo + n - 1) div ?ss" using j(1) by (intro div_le_mono) linarith
    then show "\<exists>i \<le> (off - lo + n - 1) div ?ss. md_stat md (off div ?ss + i) \<noteq> Good" using j(2) sec by metis
  qed
  finally show "snd (read_inner src off n w) \<longleftrightarrow> w \<and> \<not> range_clean src md off n"
    using any guard unfolding unfold
    by (auto simp: list_ex_iff simp del: upt_Suc)
qed

end
