(* ===== verification/Recover.thy ===== *)
theory Recover
  imports Text CarveReader ImageMap
begin

text \<open>
  Writing recovered files (\<^verbatim>\<open>crates/reclaim-session/src/recover.rs\<close>, and the record it works on from
  \<^verbatim>\<open>store.rs\<close>). The destination's file system is a map from paths to directories and files, without
  symbolic links; what the system refuses (a directory, a file, space on the device, re-reading) is
  a field of \<open>recover_env\<close>. The text of a record's extents and of the manifest is JSON: the record
  holds the extents as parsed, the manifest's bytes are a field of \<open>recover_env\<close>.
\<close>

section \<open>Records\<close>

record carved_record =
  cr_id :: ustring
  cr_source_id :: ustring
  cr_engine :: ustring
  cr_offset :: nat
  cr_len :: nat
  cr_format :: ustring
  cr_family :: ustring
  cr_ext :: ustring
  cr_validity :: ustring
  cr_score :: nat
  cr_block_aligned :: bool
  cr_name :: "ustring option"
  cr_date :: "ustring option"
  cr_model :: "ustring option"
  cr_thumb_offset :: "nat option"
  cr_thumb_len :: "nat option"
  cr_path :: "ustring option"
  cr_state :: "ustring option"
  cr_kind :: ustring
  cr_extents_json :: "(nat \<times> nat) list option"
  cr_merged :: bool

definition synth_path :: "carved_record \<Rightarrow> ustring" where
  "synth_path r =
     (case cr_path r of
        Some (c # p) \<Rightarrow> c # p
      | _ \<Rightarrow>
          let m = \<lparr>md_name = cr_name r, md_date = cr_date r, md_model = cr_model r,
                md_thumb_offset = cr_thumb_offset r, md_thumb_len = cr_thumb_len r\<rparr>;
              subtype = last (split_by (\<lambda>c. c = 46) (cr_format r))
          in suggested_path m (cr_family r) subtype (cr_offset r) (cr_ext r))"

definition cr_extents :: "carved_record \<Rightarrow> (nat \<times> nat) list" where
  "cr_extents r =
     (case cr_extents_json r of
        Some (e # es) \<Rightarrow> e # es
      | _ \<Rightarrow> if 0 < cr_len r then [(cr_offset r, cr_len r)] else [])"

section \<open>Options and the summary of a run\<close>

datatype collision = Rename | Skip | Overwrite

record recover_opts =
  ro_preserve_paths :: bool
  ro_flat :: bool
  ro_collision :: collision
  ro_verify :: bool

record recovered_file =
  rf_id :: ustring
  rf_path :: upath
  rf_len :: nat
  rf_validity :: ustring
  rf_blake3 :: string
  rf_verified :: "bool option"

record recover_summary =
  rs_recovered :: nat
  rs_skipped :: nat
  rs_partial :: nat
  rs_verify_failed :: nat
  rs_bytes :: nat
  rs_files :: "recovered_file list"

section \<open>The destination\<close>

datatype fnode = DirNode | FileNode bytes

type_synonym files = "upath \<Rightarrow> fnode option"

record recover_env =
  re_mkdir :: "upath \<Rightarrow> bool"
  re_open :: "upath \<Rightarrow> bool"
  re_space :: "upath \<Rightarrow> nat option"
  re_reread :: "upath \<Rightarrow> bool"
  re_hash :: crates
  re_manifest :: "ustring \<Rightarrow> upath \<Rightarrow> recover_summary \<Rightarrow> bytes"

text \<open>\<^verbatim>\<open>create_dir_all\<close>: the missing directories from the top down, until one cannot be made.\<close>

definition make_dir :: "recover_env \<Rightarrow> upath \<Rightarrow> bool \<times> files \<Rightarrow> bool \<times> files" where
  "make_dir e p st =
     (if \<not> fst st then st
      else case snd st p of
          Some DirNode \<Rightarrow> st
        | Some (FileNode _) \<Rightarrow> (False, snd st)
        | None \<Rightarrow> if re_mkdir e p then (True, (snd st)(p \<mapsto> DirNode)) else (False, snd st))"

definition path_prefixes :: "upath \<Rightarrow> upath list" where
  "path_prefixes p = map (\<lambda>n. take n p) [1..<Suc (length p)]"

definition create_dir_all :: "recover_env \<Rightarrow> upath \<Rightarrow> files \<Rightarrow> bool \<times> files" where
  "create_dir_all e p fs = fold (make_dir e) (path_prefixes p) (True, fs)"

text \<open>Opening a file for writing, created or truncated.\<close>

definition open_trunc :: "recover_env \<Rightarrow> upath \<Rightarrow> files \<Rightarrow> files option" where
  "open_trunc e p fs =
     (if fs p = Some DirNode \<or> p = [] \<or> \<not> (butlast p = [] \<or> fs (butlast p) = Some DirNode) \<or> \<not> re_open e p then None
      else Some (fs(p \<mapsto> FileNode [])))"

section \<open>Names that are taken\<close>

definition path_exists :: "files \<Rightarrow> upath \<Rightarrow> bool" where
  "path_exists fs p \<longleftrightarrow> p = [] \<or> fs p \<noteq> None"

definition renamed :: "upath \<Rightarrow> nat \<Rightarrow> upath" where
  "renamed p n =
     (let se = split_ext (last p) in
      butlast p @ [fst se @ ustr ''-'' @ ustr (show_nat n) @ (case snd se of None \<Rightarrow> [] | Some x \<Rightarrow> ustr ''.'' @ x)])"

definition resolve_collision :: "files \<Rightarrow> upath \<Rightarrow> collision \<Rightarrow> upath option" where
  "resolve_collision fs p policy =
     (if \<not> path_exists fs p then Some p
      else case policy of
          Overwrite \<Rightarrow> Some p
        | Skip \<Rightarrow> None
        | Rename \<Rightarrow> find (\<lambda>q. \<not> path_exists fs q) (map (renamed p) [1..<100000]))"

section \<open>Copying extents\<close>

definition recover_chunk :: nat where
  "recover_chunk = 4 * 1024 * 1024"

text \<open>What the copy carries: the bytes of the file so far, the digest, whether a bad sector was met.\<close>

record copying =
  cp_file :: bytes
  cp_digest :: digest
  cp_suspect :: bool

definition write_all :: "nat option \<Rightarrow> bytes \<Rightarrow> bytes \<Rightarrow> bool \<times> bytes" where
  "write_all space file data =
     (case space of
        None \<Rightarrow> (True, file @ data)
      | Some n \<Rightarrow> if length file + length data \<le> n then (True, file @ data) else (False, file @ take (n - length file) data))"

function copy_extent :: "reader \<Rightarrow> nat option \<Rightarrow> nat \<Rightarrow> nat \<Rightarrow> copying \<Rightarrow> bool \<times> copying" where
  "copy_extent rd space off remaining c =
     (if remaining = 0 then (True, c)
      else
        let n = min remaining recover_chunk;
            r = rd_flags rd off n;
            w = write_all space (cp_file c) (fst r);
            c' = c\<lparr>cp_file := snd w, cp_suspect := cp_suspect c \<or> snd r\<rparr>
        in if fst w
           then copy_extent rd space (wadd64 off n) (remaining - n) (c'\<lparr>cp_digest := digest_update (cp_digest c) (fst r)\<rparr>)
           else (False, c'))"
  by pat_completeness auto
termination
  by (relation "measure (\<lambda>(rd, space, off, remaining, c). remaining)") (auto simp: recover_chunk_def)

declare copy_extent.simps [simp del]

fun copy_extents :: "reader \<Rightarrow> nat option \<Rightarrow> (nat \<times> nat) list \<Rightarrow> copying \<Rightarrow> bool \<times> copying" where
  "copy_extents rd space [] c = (True, c)"
| "copy_extents rd space ((off, len) # r) c =
     (case copy_extent rd space off len c of
        (True, c') \<Rightarrow> copy_extents rd space r c'
      | (False, c') \<Rightarrow> (False, c'))"

definition copy_start :: copying where
  "copy_start = \<lparr>cp_file = [], cp_digest = digest_new Blake3, cp_suspect = False\<rparr>"

text \<open>\<^verbatim>\<open>write_extent\<close>: the digest and the flag when everything was written, and the files either way.\<close>

definition write_extent :: "recover_env \<Rightarrow> reader \<Rightarrow> carved_record \<Rightarrow> upath \<Rightarrow> files \<Rightarrow> (string \<times> bool) option \<times> files" where
  "write_extent e rd r p fs =
     (case open_trunc e p fs of
        None \<Rightarrow> (None, fs)
      | Some fs1 \<Rightarrow>
          (case copy_extents rd (re_space e p) (cr_extents r) copy_start of
             (ok, c) \<Rightarrow>
               (if ok then Some (finalize_hex (re_hash e) (cp_digest c), cp_suspect c) else None,
                fs1(p \<mapsto> FileNode (cp_file c)))))"

text \<open>Re-reading: \<^const>\<open>None\<close> when the file cannot be read back.\<close>

definition verify_file :: "recover_env \<Rightarrow> files \<Rightarrow> upath \<Rightarrow> string \<Rightarrow> bool option" where
  "verify_file e fs p expected =
     (case fs p of
        Some (FileNode b) \<Rightarrow>
          if re_reread e p then Some (finalize_hex (re_hash e) (digest_update (digest_new Blake3) b) = expected) else None
      | _ \<Rightarrow> None)"

section \<open>A recovery run\<close>

definition recover_opts_default :: recover_opts where
  "recover_opts_default = \<lparr>ro_preserve_paths = True, ro_flat = False, ro_collision = Rename, ro_verify = True\<rparr>"

definition summary_start :: recover_summary where
  "summary_start = \<lparr>rs_recovered = 0, rs_skipped = 0, rs_partial = 0, rs_verify_failed = 0, rs_bytes = 0, rs_files = []\<rparr>"

definition out_rel_path :: "carved_record \<Rightarrow> bool \<Rightarrow> bool \<Rightarrow> upath" where
  "out_rel_path r preserve flat = safe_rel_path (synth_path r) (flat \<or> \<not> preserve)"

definition skip_record :: "recover_summary \<Rightarrow> recover_summary" where
  "skip_record s = s\<lparr>rs_skipped := rs_skipped s + 1\<rparr>"

definition count_recovered ::
  "recover_env \<Rightarrow> recover_opts \<Rightarrow> upath \<Rightarrow> carved_record \<Rightarrow> upath \<Rightarrow> string \<Rightarrow> bool \<Rightarrow> files \<Rightarrow> recover_summary \<Rightarrow> recover_summary" where
  "count_recovered e opts dest r p hash suspect fs s =
     (let validity = (if suspect \<and> cr_validity r = ustr ''full'' then ustr ''suspect'' else cr_validity r);
          verified = (if ro_verify opts then Some (unwrap_or (verify_file e fs p hash) False) else None)
      in s\<lparr>rs_recovered := rs_recovered s + 1,
           rs_bytes := sat_add64 (rs_bytes s) (cr_len r),
           rs_partial := rs_partial s + (if validity \<noteq> ustr ''full'' then 1 else 0),
           rs_verify_failed := rs_verify_failed s + (if verified = Some False then 1 else 0),
           rs_files := rs_files s @ [\<lparr>rf_id = cr_id r, rf_path = drop (length dest) p, rf_len = cr_len r,
             rf_validity = validity, rf_blake3 = hash, rf_verified = verified\<rparr>]\<rparr>)"

definition recover_one ::
  "recover_env \<Rightarrow> reader \<Rightarrow> recover_opts \<Rightarrow> upath \<Rightarrow> carved_record \<Rightarrow> recover_summary \<times> files \<Rightarrow> recover_summary \<times> files" where
  "recover_one e rd opts dest r st =
     (let out_path = dest @ out_rel_path r (ro_preserve_paths opts) (ro_flat opts) in
      if take (length dest) out_path \<noteq> dest then (skip_record (fst st), snd st)
      else case create_dir_all e (butlast out_path) (snd st) of
          (False, fs) \<Rightarrow> (skip_record (fst st), fs)
        | (True, fs) \<Rightarrow>
            (case resolve_collision fs out_path (ro_collision opts) of
               None \<Rightarrow> (skip_record (fst st), fs)
             | Some p \<Rightarrow>
                 (case write_extent e rd r p fs of
                    (None, fs) \<Rightarrow> (skip_record (fst st), fs)
                  | (Some (hash, suspect), fs) \<Rightarrow> (count_recovered e opts dest r p hash suspect fs (fst st), fs))))"

definition manifest_name :: ustring where
  "manifest_name = ustr ''manifest.json''"

text \<open>The run: \<^const>\<open>None\<close> when the destination or the manifest cannot be written.\<close>

definition recover_records ::
  "recover_env \<Rightarrow> reader \<Rightarrow> recover_opts \<Rightarrow> upath \<Rightarrow> ustring \<Rightarrow> carved_record list \<Rightarrow> files \<Rightarrow> recover_summary option \<times> files" where
  "recover_records e rd opts dest source_id records fs =
     (case create_dir_all e dest fs of
        (False, fs) \<Rightarrow> (None, fs)
      | (True, fs) \<Rightarrow>
          (case fold (recover_one e rd opts dest) records (summary_start, fs) of
             (s, fs) \<Rightarrow>
               let mpath = dest @ [manifest_name] in
               (case open_trunc e mpath fs of
                  None \<Rightarrow> (None, fs)
                | Some fs1 \<Rightarrow>
                    (case write_all (re_space e mpath) [] (re_manifest e source_id dest s) of
                       (ok, b) \<Rightarrow> (if ok then Some s else None, fs1(mpath \<mapsto> FileNode b))))))"

section \<open>Previews\<close>

text \<open>\<^verbatim>\<open>extract_to_temp\<close>'s copy: at most \<open>max_bytes\<close> of the extents. A failed write ends it.\<close>

function preview_extent :: "reader \<Rightarrow> nat option \<Rightarrow> nat \<Rightarrow> nat \<Rightarrow> nat \<Rightarrow> bytes \<Rightarrow> bool \<times> bool \<times> bytes" where
  "preview_extent rd space max_bytes off remaining file =
     (if remaining = 0 then (True, False, file)
      else
        let n = min remaining recover_chunk;
            w = write_all space file (rd_read rd off n)
        in if \<not> fst w then (False, True, snd w)
           else if max_bytes \<le> length (snd w) then (True, True, snd w)
           else preview_extent rd space max_bytes (wadd64 off n) (remaining - n) (snd w))"
  by pat_completeness auto
termination
  by (relation "measure (\<lambda>(rd, space, max_bytes, off, remaining, file). remaining)") (auto simp: recover_chunk_def)

declare preview_extent.simps [simp del]

fun preview_extents :: "reader \<Rightarrow> nat option \<Rightarrow> nat \<Rightarrow> (nat \<times> nat) list \<Rightarrow> bytes \<Rightarrow> bool \<times> bytes" where
  "preview_extents rd space max_bytes [] file = (True, file)"
| "preview_extents rd space max_bytes ((off, len) # r) file =
     (case preview_extent rd space max_bytes off (min len (max_bytes - length file)) file of
        (ok, stop, file') \<Rightarrow> if stop then (ok, file') else preview_extents rd space max_bytes r file')"

definition is_ascii_alnum :: "nat \<Rightarrow> bool" where
  "is_ascii_alnum c \<longleftrightarrow> (48 \<le> c \<and> c \<le> 57) \<or> (65 \<le> c \<and> c \<le> 90) \<or> (97 \<le> c \<and> c \<le> 122)"

definition preview_path :: "upath \<Rightarrow> carved_record \<Rightarrow> upath" where
  "preview_path session_dir r =
     (let ext = take 16 (filter is_ascii_alnum (cr_ext r));
          ext = (if ext = [] then ustr ''bin'' else ext)
      in session_dir @ [ustr ''preview-tmp'', cr_id r @ ustr ''.'' @ ext])"

definition extract_to_temp :: "recover_env \<Rightarrow> upath \<Rightarrow> carved_record \<Rightarrow> reader \<Rightarrow> nat \<Rightarrow> files \<Rightarrow> upath option \<times> files" where
  "extract_to_temp e session_dir r rd max_bytes fs =
     (case create_dir_all e (session_dir @ [ustr ''preview-tmp'']) fs of
        (False, fs) \<Rightarrow> (None, fs)
      | (True, fs) \<Rightarrow>
          let p = preview_path session_dir r in
          (case open_trunc e p fs of
             None \<Rightarrow> (None, fs)
           | Some fs1 \<Rightarrow>
               (case preview_extents rd (re_space e p) max_bytes (cr_extents r) [] of
                  (ok, b) \<Rightarrow> (if ok then Some p else None, fs1(p \<mapsto> FileNode b)))))"

end
