(* ===== verification/RecoverFacts.thy ===== *)
theory RecoverFacts
  imports Recover
begin

text \<open>
  What a recovery run does to the destination: which paths it can change, what the files it reports
  hold, and that nothing is lost when names collide.
\<close>

section \<open>Directories\<close>

text \<open>\<open>grown D fs fs'\<close>: at most some missing paths of \<open>D\<close> have become directories.\<close>

definition grown :: "upath set \<Rightarrow> files \<Rightarrow> files \<Rightarrow> bool" where
  "grown D fs fs' \<longleftrightarrow> (\<forall>q. fs' q = fs q \<or> (q \<in> D \<and> fs q = None \<and> fs' q = Some DirNode))"

lemma grown_refl [simp]: "grown D fs fs"
  by (simp add: grown_def)

lemma grown_trans: "grown D fs fs1 \<Longrightarrow> grown D fs1 fs2 \<Longrightarrow> grown D fs fs2"
  unfolding grown_def by metis

lemma grown_keeps: "grown D fs fs' \<Longrightarrow> fs q \<noteq> None \<Longrightarrow> fs' q = fs q"
  unfolding grown_def by metis

lemma make_dir_grown: "p \<in> D \<Longrightarrow> grown D (snd st) (snd (make_dir e p st))"
  by (auto simp: make_dir_def grown_def split: option.split fnode.split)

lemma make_dirs_grown: "set ps \<subseteq> D \<Longrightarrow> grown D (snd st) (snd (fold (make_dir e) ps st))"
proof (induction ps arbitrary: st)
  case (Cons p ps)
  then have "grown D (snd (make_dir e p st)) (snd (fold (make_dir e) ps (make_dir e p st)))" by simp
  with make_dir_grown [of p D st e] Cons.prems show ?case by (auto intro: grown_trans)
qed simp

lemma create_dir_all_grown: "create_dir_all e p fs = (ok, fs') \<Longrightarrow> grown (set (path_prefixes p)) fs fs'"
  unfolding create_dir_all_def using make_dirs_grown [of "path_prefixes p" _ "(True, fs)" e] by auto

lemma make_dirs_ok:
  "fst (fold (make_dir e) ps st) \<Longrightarrow> fst st \<and> (\<forall>p \<in> set ps. snd (fold (make_dir e) ps st) p = Some DirNode)"
proof (induction ps arbitrary: st)
  case (Cons p ps)
  let ?st = "make_dir e p st"
  have ih: "fst ?st \<and> (\<forall>q \<in> set ps. snd (fold (make_dir e) ps ?st) q = Some DirNode)"
    using Cons.IH [of ?st] Cons.prems by simp
  then have "fst st \<and> snd ?st p = Some DirNode"
    by (auto simp: make_dir_def split: if_splits option.splits fnode.splits)
  moreover from this have "snd (fold (make_dir e) ps ?st) p = snd ?st p"
    using make_dirs_grown [of ps "set ps" ?st e] by (simp add: grown_keeps)
  ultimately show ?case using ih by simp
qed simp

lemma create_dir_all_ok: "create_dir_all e p fs = (True, fs') \<Longrightarrow> \<forall>q \<in> set (path_prefixes p). fs' q = Some DirNode"
  unfolding create_dir_all_def using make_dirs_ok [of e "path_prefixes p" "(True, fs)"] by simp

lemma path_prefixes_iff: "q \<in> set (path_prefixes p) \<longleftrightarrow> q \<noteq> [] \<and> (\<exists>r. p = q @ r)"
proof
  assume "q \<in> set (path_prefixes p)"
  then obtain n where n: "q = take n p" "1 \<le> n" "n < Suc (length p)" by (auto simp: path_prefixes_def)
  then have "p = q @ drop n p" "q \<noteq> []" by auto
  then show "q \<noteq> [] \<and> (\<exists>r. p = q @ r)" by blast
next
  assume "q \<noteq> [] \<and> (\<exists>r. p = q @ r)"
  then show "q \<in> set (path_prefixes p)"
    by (auto simp: path_prefixes_def image_iff Suc_le_eq intro!: bexI [of _ "length q"] simp del: upt_Suc)
qed

lemma create_dir_all_noop:
  assumes "\<forall>q \<in> set (path_prefixes p). fs q = Some DirNode"
  shows "create_dir_all e p fs = (True, fs)"
proof -
  have "fold (make_dir e) ps (True, fs) = (True, fs)" if "\<forall>q \<in> set ps. fs q = Some DirNode" for ps
    using that by (induction ps) (simp_all add: make_dir_def)
  then show ?thesis using assms by (simp add: create_dir_all_def)
qed

section \<open>Names\<close>

text \<open>A component that names an entry of its directory and nothing else.\<close>

definition entry_name :: "ustring \<Rightarrow> bool" where
  "entry_name c \<longleftrightarrow> keep_component c \<and> (\<forall>x \<in> set c. x \<noteq> slash \<and> x \<noteq> backslash \<and> x \<noteq> 0)"

lemma plain_entry_name: "plain_component c \<Longrightarrow> entry_name c"
  by (simp add: plain_component_def entry_name_def)

lemma keep_dash: "45 \<in> set c \<Longrightarrow> keep_component c"
  by (auto simp: keep_component_def dots)

lemma show_nat_digits: "x \<in> set (ustr (show_nat n)) \<Longrightarrow> 48 \<le> x \<and> x \<le> 57"
  by (induction n rule: show_nat.induct)
    (subst (asm) show_nat.simps, auto simp: ustr_def split: if_splits)

lemma split_ext_set:
  "set (fst (split_ext name)) \<subseteq> set name" "snd (split_ext name) = Some x \<Longrightarrow> set x \<subseteq> set name"
  by (auto simp: split_ext_def Let_def split: if_splits dest!: in_set_takeD set_takeWhileD)

lemma renamed_name:
  assumes "entry_name (last p)"
  shows "\<exists>c. renamed p n = butlast p @ [c] \<and> entry_name c"
proof -
  obtain s x where se: "split_ext (last p) = (s, x)" by fastforce
  let ?c = "s @ ustr ''-'' @ ustr (show_nat n) @ (case x of None \<Rightarrow> [] | Some x \<Rightarrow> ustr ''.'' @ x)"
  have sub: "set s \<subseteq> set (last p)" "x = Some y \<Longrightarrow> set y \<subseteq> set (last p)" for y
    using split_ext_set [of "last p"] se by auto
  have plain: "\<forall>v \<in> set (last p). v \<noteq> slash \<and> v \<noteq> backslash \<and> v \<noteq> 0" using assms by (simp add: entry_name_def)
  have "keep_component ?c" by (rule keep_dash) (simp add: ustr_def)
  moreover have "v \<noteq> slash \<and> v \<noteq> backslash \<and> v \<noteq> 0" if v: "v \<in> set ?c" for v
  proof -
    consider "v \<in> set s" | "v = 45 \<or> v = 46" | "v \<in> set (ustr (show_nat n))" | y where "x = Some y" "v \<in> set y"
      using v by (auto simp: ustr_def split: option.splits)
    then show ?thesis
    proof cases
      case 3
      then show ?thesis using show_nat_digits by (fastforce simp: slash_def backslash_def)
    qed (use sub plain in \<open>auto simp: slash_def backslash_def\<close>)
  qed
  ultimately have "entry_name ?c" by (simp add: entry_name_def)
  then show ?thesis using se by (simp add: renamed_def)
qed

lemma resolve_collision_name:
  assumes "resolve_collision fs p policy = Some q" "p \<noteq> []" "entry_name (last p)"
  shows "\<exists>c. q = butlast p @ [c] \<and> entry_name c"
proof -
  have "q = p \<or> (\<exists>n. q = renamed p n)"
    using assms(1) by (auto simp: resolve_collision_def find_Some_iff split: if_splits collision.splits)
  then show ?thesis using renamed_name [OF assms(3)] assms(2,3) by (metis append_butlast_last_id)
qed

lemma resolve_collision_free:
  "resolve_collision fs p policy = Some q \<Longrightarrow> policy \<noteq> Overwrite \<Longrightarrow> \<not> path_exists fs q"
  by (auto simp: resolve_collision_def find_Some_iff split: if_splits collision.splits)

lemma out_rel_path_names: "out_rel_path r a b \<noteq> [] \<and> (\<forall>c \<in> set (out_rel_path r a b). entry_name c)"
  unfolding out_rel_path_def using safe_rel_path_plain plain_entry_name by blast

section \<open>One file\<close>

lemma open_trunc_ok:
  "open_trunc e p fs = Some fs1 \<Longrightarrow> fs1 = fs(p \<mapsto> FileNode []) \<and> fs p \<noteq> Some DirNode \<and> p \<noteq> []"
  by (auto simp: open_trunc_def split: if_splits)

lemma write_extent_only: "write_extent e rd r p fs = (o', fs') \<Longrightarrow> q \<noteq> p \<Longrightarrow> fs' q = fs q"
  by (auto simp: write_extent_def dest!: open_trunc_ok split: option.splits prod.splits)

lemma write_extent_kind:
  "write_extent e rd r p fs = (o', fs') \<Longrightarrow> fs' p = fs p \<or> (fs p \<noteq> Some DirNode \<and> (\<exists>b. fs' p = Some (FileNode b)))"
  by (auto simp: write_extent_def dest!: open_trunc_ok split: option.splits prod.splits)

text \<open>One record: a skip after at most some new directories, or an attempt at one name.\<close>

lemma recover_one_cases:
  assumes "recover_one e rd opts dest r (s, fs) = (s', fs')"
  obtains (skip) fs1 where "s' = skip_record s" "fs' = fs1"
      "grown (set (path_prefixes (butlast (dest @ out_rel_path r (ro_preserve_paths opts) (ro_flat opts))))) fs fs1"
  | (tried) fs1 p o' where
      "grown (set (path_prefixes (butlast (dest @ out_rel_path r (ro_preserve_paths opts) (ro_flat opts))))) fs fs1"
      "create_dir_all e (butlast (dest @ out_rel_path r (ro_preserve_paths opts) (ro_flat opts))) fs = (True, fs1)"
      "resolve_collision fs1 (dest @ out_rel_path r (ro_preserve_paths opts) (ro_flat opts)) (ro_collision opts) = Some p"
      "write_extent e rd r p fs1 = (o', fs')"
      "s' = (case o' of None \<Rightarrow> skip_record s | Some (h, sus) \<Rightarrow> count_recovered e opts dest r p h sus fs' s)"
proof -
  let ?out = "dest @ out_rel_path r (ro_preserve_paths opts) (ro_flat opts)"
  obtain ok fs1 where c: "create_dir_all e (butlast ?out) fs = (ok, fs1)" by fastforce
  note g = create_dir_all_grown [OF c]
  show thesis
  proof (cases "ok \<and> resolve_collision fs1 ?out (ro_collision opts) \<noteq> None")
    case True
    then obtain p where p: "resolve_collision fs1 ?out (ro_collision opts) = Some p" by blast
    obtain o' fs2 where w: "write_extent e rd r p fs1 = (o', fs2)" by fastforce
    show thesis
      by (rule tried [of fs1 p o']) (use assms True c p w g in \<open>auto simp: recover_one_def Let_def split: option.splits prod.splits\<close>)
  next
    case False
    show thesis
      by (rule skip [of fs1]) (use assms False c g in \<open>auto simp: recover_one_def Let_def split: option.splits bool.splits\<close>)
  qed
qed

section \<open>The bytes of a file\<close>

lemma medium_bytes_add: "medium_bytes md off (m + n) = medium_bytes md off m @ medium_bytes md (off + m) n"
  by (rule nth_equalityI) (auto simp: nth_append add.assoc)

lemma range_clean_add: "range_clean src md off (m + n) \<longleftrightarrow> range_clean src md off m \<and> range_clean src md (off + m) n"
proof
  assume c: "range_clean src md off m \<and> range_clean src md (off + m) n"
  have "md_stat md ((off + j) div s_sector_size src) = Good" if j: "j < m + n" for j
  proof (cases "j < m")
    case False
    then have "off + j = off + m + (j - m)" "j - m < n" using j by auto
    then show ?thesis using c unfolding range_clean_def by metis
  qed (use c in \<open>simp add: range_clean_def\<close>)
  then show "range_clean src md off (m + n)" by (simp add: range_clean_def)
qed (auto simp: range_clean_def add.assoc)

lemma write_all_ok: "write_all space file data = (True, file') \<Longrightarrow> file' = file @ data"
  by (auto simp: write_all_def split: option.splits if_splits)

definition copied :: "source \<Rightarrow> medium \<Rightarrow> bytes \<Rightarrow> bool \<Rightarrow> copying \<Rightarrow> copying" where
  "copied src md data dirty c =
     c\<lparr>cp_file := cp_file c @ data, cp_digest := digest_update (cp_digest c) data, cp_suspect := cp_suspect c \<or> dirty\<rparr>"

lemma copied_none: "copied src md [] False c = c"
  by (simp add: copied_def digest_update_def)

lemma copied_twice: "copied src md b y (copied src md a x c) = copied src md (a @ b) (x \<or> y) c"
  by (simp add: copied_def digest_update_def)

lemma copy_extent_ok:
  assumes "presents src md" "s_len src mod s_sector_size src = 0"
  shows "off + len \<le> s_len src \<Longrightarrow> copy_extent (source_reader src) space off len c = (True, c') \<Longrightarrow>
    c' = copied src md (medium_bytes md off len) (\<not> range_clean src md off len) c"
proof (induction "source_reader src" space off len c rule: copy_extent.induct)
  case (1 space off len c)
  let ?n = "min len recover_chunk"
  have u: "s_len src \<le> u64_max" using assms(1) by (simp add: presents_def)
  show ?case
  proof (cases "len = 0")
    case True
    then show ?thesis using 1(3) by (simp add: copy_extent.simps range_clean_def copied_none medium_bytes_def)
  next
    case False
    have n: "0 < ?n" "off + ?n \<le> s_len src" using False 1(2) by (auto simp: recover_chunk_def)
    note rd = read_inner_ok [OF assms n, of True]
    let ?r = "read_inner src off ?n True"
    let ?w = "write_all space (cp_file c) (fst ?r)"
    have w: "fst ?w" and rest: "copy_extent (source_reader src) space (wadd64 off ?n) (len - ?n)
        (c\<lparr>cp_file := snd ?w, cp_suspect := cp_suspect c \<or> snd ?r, cp_digest := digest_update (cp_digest c) (fst ?r)\<rparr>) = (True, c')"
      using 1(3) False by (auto simp: copy_extent.simps [of _ _ _ len] Let_def split: if_splits)
    have sw: "snd ?w = cp_file c @ fst ?r" using w write_all_ok [of space "cp_file c" "fst ?r" "snd ?w"] by (metis prod.collapse)
    have c1: "c\<lparr>cp_file := snd ?w, cp_suspect := cp_suspect c \<or> snd ?r, cp_digest := digest_update (cp_digest c) (fst ?r)\<rparr>
        = copied src md (medium_bytes md off ?n) (\<not> range_clean src md off ?n) c"
      unfolding sw copied_def using rd by simp
    have wa: "wadd64 off ?n = off + ?n" using n u by (simp add: wadd64_exact)
    have inside: "wadd64 off ?n + (len - ?n) \<le> s_len src" unfolding wa using 1(2) by simp
    have "c' = copied src md (medium_bytes md (wadd64 off ?n) (len - ?n)) (\<not> range_clean src md (wadd64 off ?n) (len - ?n))
        (copied src md (medium_bytes md off ?n) (\<not> range_clean src md off ?n) c)"
      using 1(1) [OF False refl refl refl refl] w rest inside unfolding c1 [symmetric] by simp
    moreover have "?n + (len - ?n) = len" by simp
    ultimately show ?thesis
      unfolding wa copied_twice medium_bytes_add [symmetric] using range_clean_add [of src md off ?n "len - ?n"] by simp
  qed
qed

text \<open>The bytes a record names on the source, and whether its sectors are all good.\<close>

definition extents_inside :: "source \<Rightarrow> (nat \<times> nat) list \<Rightarrow> bool" where
  "extents_inside src es \<longleftrightarrow> list_all (\<lambda>(off, len). off + len \<le> s_len src) es"

definition extents_bytes :: "medium \<Rightarrow> (nat \<times> nat) list \<Rightarrow> bytes" where
  "extents_bytes md es = concat (map (\<lambda>(off, len). medium_bytes md off len) es)"

definition extents_clean :: "source \<Rightarrow> medium \<Rightarrow> (nat \<times> nat) list \<Rightarrow> bool" where
  "extents_clean src md es \<longleftrightarrow> list_all (\<lambda>(off, len). range_clean src md off len) es"

lemmas extents_defs = extents_inside_def extents_bytes_def extents_clean_def

lemma copy_extents_ok:
  assumes src: "presents src md" "s_len src mod s_sector_size src = 0"
  shows "extents_inside src es \<Longrightarrow> copy_extents (source_reader src) space es c = (True, c') \<Longrightarrow>
    c' = copied src md (extents_bytes md es) (\<not> extents_clean src md es) c"
proof (induction es arbitrary: c)
  case (Cons e es)
  obtain off len where e: "e = (off, len)" by fastforce
  obtain ok c1 where c1: "copy_extent (source_reader src) space off len c = (ok, c1)" by fastforce
  then have "c1 = copied src md (medium_bytes md off len) (\<not> range_clean src md off len) c"
    using copy_extent_ok [OF src, of off len space c c1] Cons.prems e by (cases ok) (simp_all add: extents_defs)
  moreover have "c' = copied src md (extents_bytes md es) (\<not> extents_clean src md es) c1"
    using Cons c1 e by (cases ok) (simp_all add: extents_defs)
  ultimately show ?case by (simp add: e copied_twice extents_defs)
qed (simp add: extents_defs copied_none)

lemma write_extent_ok:
  assumes src: "presents src md" "s_len src mod s_sector_size src = 0" and r: "extents_inside src (cr_extents r)"
    and w: "write_extent e (source_reader src) r p fs = (Some (h, suspect), fs')"
  shows "fs' p = Some (FileNode (extents_bytes md (cr_extents r)))"
    and "h = hash_bytes (re_hash e) Blake3 (extents_bytes md (cr_extents r))"
    and "suspect \<longleftrightarrow> \<not> extents_clean src md (cr_extents r)"
proof -
  obtain fs1 c where o: "open_trunc e p fs = Some fs1" and c: "copy_extents (source_reader src) (re_space e p) (cr_extents r) copy_start = (True, c)"
    and res: "h = finalize_hex (re_hash e) (cp_digest c)" "suspect = cp_suspect c" "fs' = fs1(p \<mapsto> FileNode (cp_file c))"
    using w by (auto simp: write_extent_def split: option.splits prod.splits if_splits)
  have "c = copied src md (extents_bytes md (cr_extents r)) (\<not> extents_clean src md (cr_extents r)) copy_start"
    using copy_extents_ok [OF src r c] .
  then show "fs' p = Some (FileNode (extents_bytes md (cr_extents r)))"
    and "h = hash_bytes (re_hash e) Blake3 (extents_bytes md (cr_extents r))"
    and "suspect \<longleftrightarrow> \<not> extents_clean src md (cr_extents r)"
    by (simp_all add: res copied_def copy_start_def digest_update_def digest_new_def finalize_hex_def)
qed

section \<open>What a record can change\<close>

text \<open>A path below the destination, through names that cannot leave it.\<close>

definition inside :: "upath \<Rightarrow> upath \<Rightarrow> bool" where
  "inside dest q \<longleftrightarrow> (\<exists>rel. rel \<noteq> [] \<and> (\<forall>c \<in> set rel. entry_name c) \<and> q = dest @ rel)"

definition confined :: "upath \<Rightarrow> files \<Rightarrow> files \<Rightarrow> bool" where
  "confined dest fs fs' \<longleftrightarrow>
     (\<forall>q. fs' q = fs q \<or> inside dest q \<or> (q \<in> set (path_prefixes dest) \<and> fs q = None \<and> fs' q = Some DirNode))"

lemma confined_trans: "confined dest fs fs1 \<Longrightarrow> confined dest fs1 fs2 \<Longrightarrow> confined dest fs fs2"
  unfolding confined_def by metis

lemma prefix_inside:
  assumes "q \<in> set (path_prefixes (dest @ rel))" "\<forall>c \<in> set rel. entry_name c"
  shows "q \<in> set (path_prefixes dest) \<or> inside dest q"
proof -
  obtain r where r: "q \<noteq> []" "dest @ rel = q @ r" using assms(1) by (auto simp: path_prefixes_iff)
  from r(2) consider us where "dest @ us = q" "rel = us @ r" | us where "dest = q @ us"
    by (auto simp: append_eq_append_conv2)
  then show ?thesis
  proof cases
    case 1
    then show ?thesis using r(1) assms(2) by (cases "us = []") (auto simp: inside_def path_prefixes_iff)
  qed (use r in \<open>auto simp: path_prefixes_iff\<close>)
qed

lemma butlast_names: "\<forall>c \<in> set rel. entry_name c \<Longrightarrow> \<forall>c \<in> set (butlast rel). entry_name c"
  by (meson in_set_butlastD)

lemma grown_confined:
  assumes "grown (set (path_prefixes (dest @ rel))) fs fs'" "\<forall>c \<in> set rel. entry_name c"
  shows "confined dest fs fs'"
  using assms prefix_inside unfolding grown_def confined_def by metis

lemma recover_one_place:
  assumes "resolve_collision fs (dest @ out_rel_path r a b) policy = Some p"
  shows "inside dest p"
proof -
  let ?rel = "out_rel_path r a b"
  have rel: "?rel \<noteq> []" "\<forall>c \<in> set ?rel. entry_name c" using out_rel_path_names by blast+
  then obtain c where c: "p = butlast (dest @ ?rel) @ [c]" "entry_name c"
    using resolve_collision_name [OF assms] by (auto simp: last_append)
  then have "p = dest @ (butlast ?rel @ [c])" using rel(1) by (simp add: butlast_append)
  moreover have "\<forall>d \<in> set (butlast ?rel @ [c]). entry_name d" using butlast_names [OF rel(2)] c(2) by simp
  ultimately show ?thesis unfolding inside_def by blast
qed

lemma recover_one_confined:
  assumes "recover_one e rd opts dest r (s, fs) = (s', fs')"
  shows "confined dest fs fs'"
proof -
  let ?rel = "out_rel_path r (ro_preserve_paths opts) (ro_flat opts)"
  have rel: "?rel \<noteq> []" "\<forall>c \<in> set ?rel. entry_name c" using out_rel_path_names by blast+
  have dirs: "butlast (dest @ ?rel) = dest @ butlast ?rel" using rel(1) by (simp add: butlast_append)
  show ?thesis
    using assms
  proof (cases rule: recover_one_cases)
    case (skip fs1)
    then show ?thesis using grown_confined butlast_names [OF rel(2)] unfolding dirs by metis
  next
    case (tried fs1 p o')
    have "confined dest fs fs1" using tried(1) grown_confined butlast_names [OF rel(2)] unfolding dirs by metis
    moreover have "confined dest fs1 fs'"
      using write_extent_only [OF tried(4)] recover_one_place [OF tried(3)] unfolding confined_def by metis
    ultimately show ?thesis by (rule confined_trans)
  qed
qed

text \<open>Unless told to overwrite, a record leaves every path that exists as it is.\<close>

lemma recover_one_keeps:
  assumes "recover_one e rd opts dest r (s, fs) = (s', fs')" "ro_collision opts \<noteq> Overwrite" "fs q \<noteq> None"
  shows "fs' q = fs q"
  using assms(1)
proof (cases rule: recover_one_cases)
  case (skip fs1)
  then show ?thesis using grown_keeps assms(3) by metis
next
  case (tried fs1 p o')
  have k: "fs1 q = fs q" using grown_keeps [OF tried(1) assms(3)] .
  moreover have "q \<noteq> p" using resolve_collision_free [OF tried(3) assms(2)] k assms(3) by (auto simp: path_exists_def)
  ultimately show ?thesis using write_extent_only [OF tried(4)] by simp
qed

end
