(* ===== verification/RecoverTheorems.thy ===== *)
theory RecoverTheorems
  imports RecoverFacts
begin

text \<open>
  The properties of a recovery run: it stays inside its destination, the files it reports hold the
  bytes of the source, it loses nothing that was there before, and a flat run into an empty
  directory recovers every record.
\<close>

section \<open>The run\<close>

lemma manifest_entry_name: "entry_name manifest_name"
  by (simp add: manifest_name_def entry_name_def keep_component_def ustr_def slash_def backslash_def)

text \<open>The end of a run: the manifest is written over whatever is at its path.\<close>

lemma recover_records_cases:
  assumes "recover_records e rd opts dest sid recs fs = (res, fs')"
  obtains (refused) ok where "create_dir_all e dest fs = (ok, fs')" "res = None"
  | (ran) fs1 s fs2 where "create_dir_all e dest fs = (True, fs1)"
      "fold (recover_one e rd opts dest) recs (summary_start, fs1) = (s, fs2)"
      "\<forall>q. q \<noteq> dest @ [manifest_name] \<longrightarrow> fs' q = fs2 q"
      "res = None \<or> res = Some s \<and> fs' (dest @ [manifest_name]) = Some (FileNode (re_manifest e sid dest s))"
proof -
  obtain ok fs1 where c: "create_dir_all e dest fs = (ok, fs1)" by fastforce
  obtain s fs2 where f: "fold (recover_one e rd opts dest) recs (summary_start, fs1) = (s, fs2)" by fastforce
  show thesis
  proof (cases ok)
    case True
    show thesis
      by (rule ran [of fs1 s fs2])
        (use assms True c f in \<open>auto simp: recover_records_def Let_def write_all_def dest!: open_trunc_ok
          split: option.splits prod.splits if_splits\<close>)
  qed (use assms c refused in \<open>auto simp: recover_records_def\<close>)
qed

lemma fold_confined:
  "confined dest fs (snd (fold (recover_one e rd opts dest) recs (s, fs)))"
proof (induction recs arbitrary: s fs)
  case Nil
  show ?case by (simp add: confined_def)
next
  case (Cons r recs)
  obtain s1 fs1 where r: "recover_one e rd opts dest r (s, fs) = (s1, fs1)" by fastforce
  show ?case using confined_trans [OF recover_one_confined [OF r] Cons.IH [of fs1 s1]] r by simp
qed

text \<open>C14: Whatever the records say - their paths, names and formats come from the
  damaged medium - a run changes only paths below the destination, through components that are
  neither empty, \<open>.\<close> nor \<open>..\<close> and hold no separator or NUL; above, it makes at most the missing
  directories of the destination itself.
\<close>

theorem recover_confined:
  "confined dest fs (snd (recover_records e rd opts dest sid recs fs))"
proof -
  obtain res fs' where run: "recover_records e rd opts dest sid recs fs = (res, fs')" by fastforce
  then have "confined dest fs fs'"
  proof (cases rule: recover_records_cases)
    case (refused ok)
    then show ?thesis using grown_confined [of dest "[]" fs fs'] create_dir_all_grown by simp
  next
    case (ran fs1 s fs2)
    have "confined dest fs fs1" using grown_confined [of dest "[]" fs fs1] create_dir_all_grown [OF ran(1)] by simp
    moreover have "confined dest fs1 fs2" using fold_confined [of dest fs1 e rd opts recs summary_start] ran(2) by simp
    moreover have "inside dest (dest @ [manifest_name])" using manifest_entry_name by (auto simp: inside_def)
    then have "confined dest fs2 fs'" using ran(3) unfolding confined_def by metis
    ultimately show ?thesis by (blast intro: confined_trans)
  qed
  then show ?thesis by (simp add: run)
qed

lemma fold_keeps:
  assumes "ro_collision opts \<noteq> Overwrite"
  shows "fs q \<noteq> None \<Longrightarrow> snd (fold (recover_one e rd opts dest) recs (s, fs)) q = fs q"
proof (induction recs arbitrary: s fs)
  case (Cons r recs)
  obtain s1 fs1 where r: "recover_one e rd opts dest r (s, fs) = (s1, fs1)" by fastforce
  have "fs1 q = fs q" using recover_one_keeps [OF r assms Cons.prems] .
  then show ?case using Cons.IH [of fs1 s1] Cons.prems r by simp
qed simp

text \<open>C15: With the policies that rename or skip, a run leaves everything that was at the
  destination before - files, their contents, directories - as it was, except the file at the
  path of the manifest.
\<close>

theorem recover_keeps:
  assumes "ro_collision opts \<noteq> Overwrite" "fs q \<noteq> None" "q \<noteq> dest @ [manifest_name]"
  shows "snd (recover_records e rd opts dest sid recs fs) q = fs q"
proof -
  obtain res fs' where run: "recover_records e rd opts dest sid recs fs = (res, fs')" by fastforce
  then have "fs' q = fs q"
  proof (cases rule: recover_records_cases)
    case (refused ok)
    then show ?thesis using grown_keeps [OF create_dir_all_grown [OF refused(1)] assms(2)] by simp
  next
    case (ran fs1 s fs2)
    have "fs1 q = fs q" using grown_keeps [OF create_dir_all_grown [OF ran(1)] assms(2)] .
    then show ?thesis using fold_keeps [OF assms(1), of fs1 q e rd dest recs summary_start] assms(2,3) ran(2,3) by simp
  qed
  then show ?thesis by (simp add: run)
qed

section \<open>The files that are reported\<close>

text \<open>What a reported file is: some record's bytes, on disk, with their hash.\<close>

definition reported ::
  "source \<Rightarrow> medium \<Rightarrow> recover_env \<Rightarrow> recover_opts \<Rightarrow> upath \<Rightarrow> carved_record set \<Rightarrow> files \<Rightarrow> recovered_file \<Rightarrow> bool" where
  "reported src md e opts dest R fs f \<longleftrightarrow>
     (\<exists>r \<in> R.
        f = \<lparr>rf_id = cr_id r, rf_path = rf_path f, rf_len = cr_len r,
             rf_validity = (if cr_validity r = ustr ''full'' \<and> \<not> extents_clean src md (cr_extents r) then ustr ''suspect''
                            else cr_validity r),
             rf_blake3 = hash_bytes (re_hash e) Blake3 (extents_bytes md (cr_extents r)),
             rf_verified = (if ro_verify opts then Some (re_reread e (dest @ rf_path f)) else None)\<rparr> \<and>
        fs (dest @ rf_path f) = Some (FileNode (extents_bytes md (cr_extents r))))"

lemma reported_mono:
  "reported src md e opts dest R fs f \<Longrightarrow> \<forall>q. fs q \<noteq> None \<longrightarrow> fs' q = fs q \<Longrightarrow> reported src md e opts dest R fs' f"
  unfolding reported_def by (metis option.distinct(1))

lemma reported_on_disk: "reported src md e opts dest R fs f \<Longrightarrow> fs (dest @ rf_path f) \<noteq> None"
  by (auto simp: reported_def)

text \<open>The state of the run: every file reported so far is on disk, no path twice, every record counted.\<close>

definition run_ok ::
  "source \<Rightarrow> medium \<Rightarrow> recover_env \<Rightarrow> recover_opts \<Rightarrow> upath \<Rightarrow> carved_record set \<Rightarrow> recover_summary \<times> files \<Rightarrow> bool" where
  "run_ok src md e opts dest R st \<longleftrightarrow>
     (\<forall>f \<in> set (rs_files (fst st)). reported src md e opts dest R (snd st) f) \<and>
     distinct (map rf_path (rs_files (fst st))) \<and>
     length (rs_files (fst st)) = rs_recovered (fst st)"

lemma recover_one_run_ok:
  assumes src: "presents src md" "s_len src mod s_sector_size src = 0" and pol: "ro_collision opts \<noteq> Overwrite"
    and r: "r \<in> R" "extents_inside src (cr_extents r)"
    and ok: "run_ok src md e opts dest R st"
  shows "run_ok src md e opts dest R (recover_one e (source_reader src) opts dest r st)"
proof -
  obtain s fs where st: "st = (s, fs)" by fastforce
  obtain s' fs' where one: "recover_one e (source_reader src) opts dest r (s, fs) = (s', fs')" by fastforce
  have keeps: "\<forall>q. fs q \<noteq> None \<longrightarrow> fs' q = fs q" using recover_one_keeps [OF one pol] by blast
  have old: "\<forall>f \<in> set (rs_files s). reported src md e opts dest R fs' f"
    using ok reported_mono [OF _ keeps] by (simp add: run_ok_def st)
  from one have "run_ok src md e opts dest R (s', fs')"
  proof (cases rule: recover_one_cases)
    case (skip fs1)
    then show ?thesis using ok old by (simp add: run_ok_def st skip_record_def)
  next
    case (tried fs1 p o')
    show ?thesis
    proof (cases o')
      case None
      then show ?thesis using ok old tried(5) by (simp add: run_ok_def st skip_record_def)
    next
      case (Some hs)
      then obtain h sus where w: "write_extent e (source_reader src) r p fs1 = (Some (h, sus), fs')" and o': "o' = Some (h, sus)"
        using tried(4) by (cases hs) simp
      note facts = write_extent_ok [OF src r(2) w]
      obtain rel where p: "p = dest @ rel" using recover_one_place [OF tried(3)] by (auto simp: inside_def)
      have free: "fs p = None"
        using resolve_collision_free [OF tried(3) pol] grown_keeps [OF tried(1), of p] by (cases "fs p") (auto simp: path_exists_def)
      have new: "rel \<notin> set (map rf_path (rs_files s))"
        using ok reported_on_disk free p by (fastforce simp: run_ok_def st)
      have s': "rs_files s' = rs_files s @ [\<lparr>rf_id = cr_id r, rf_path = rel, rf_len = cr_len r,
            rf_validity = (if sus \<and> cr_validity r = ustr ''full'' then ustr ''suspect'' else cr_validity r), rf_blake3 = h,
            rf_verified = (if ro_verify opts then Some (re_reread e p) else None)\<rparr>]"
          "rs_recovered s' = rs_recovered s + 1"
        using tried(5) o' facts by (simp_all add: count_recovered_def Let_def p verify_file_def unwrap_or_def hash_bytes_def
            del: hash_bytes_eq)
      have "reported src md e opts dest R fs' (last (rs_files s'))"
        unfolding reported_def s' by (rule bexI [OF _ r(1)]) (use facts p in simp)
      then show ?thesis using ok old new s' by (simp add: run_ok_def st)
    qed
  qed
  then show ?thesis by (simp add: st one)
qed

lemma fold_run_ok:
  assumes "presents src md" "s_len src mod s_sector_size src = 0" "ro_collision opts \<noteq> Overwrite"
    and "\<forall>r \<in> set recs. extents_inside src (cr_extents r)"
  shows "run_ok src md e opts dest (set recs) (fold (recover_one e (source_reader src) opts dest) recs (summary_start, fs))"
  by (rule fold_invariant [where Q = "\<lambda>r. r \<in> set recs"])
    (use assms recover_one_run_ok in \<open>auto simp: run_ok_def summary_start_def\<close>)

text \<open>C13: Under the policies that rename or skip, for records whose extents all lie inside a source of whole sectors,
  every file a run reports - other than one at the path of the manifest - is on disk at the reported path with exactly the
  bytes the source holds at the record's extents, in order; its hash is theirs; it is downgraded
  from full to suspect exactly when a sector under them is not good; it is reported verified when
  it could be read back; and no path is reported twice. Records that reach behind the source, as the carver gives them for
  a few formats, and a partial last sector are not covered: what lies behind the end is filled with zeros, and a read that starts
  there is not flagged.
\<close>

theorem recover_faithful:
  assumes "presents src md" "s_len src mod s_sector_size src = 0" "ro_collision opts \<noteq> Overwrite"
    and "\<forall>r \<in> set recs. extents_inside src (cr_extents r)"
    and run: "recover_records e (source_reader src) opts dest sid recs fs = (Some s, fs')"
  shows "(\<forall>f \<in> set (rs_files s). rf_path f \<noteq> [manifest_name] \<longrightarrow> reported src md e opts dest (set recs) fs' f) \<and>
    distinct (map rf_path (rs_files s)) \<and> length (rs_files s) = rs_recovered s"
  using run
proof (cases rule: recover_records_cases)
  case (ran fs1 s1 fs2)
  then have "run_ok src md e opts dest (set recs) (s, fs2)" using fold_run_ok [OF assms(1-4), of e dest fs1] by auto
  moreover have "reported src md e opts dest (set recs) fs' f" if "reported src md e opts dest (set recs) fs2 f" "rf_path f \<noteq> [manifest_name]" for f
    using that ran(3) by (simp add: reported_def)
  ultimately show ?thesis by (auto simp: run_ok_def)
qed simp

text \<open>A run that ends well leaves its manifest at \<open>manifest.json\<close> in the
  destination. A record that was recovered under that name, as any file of that name in the root
  of the damaged volume is, has been overwritten: it is reported, and as verified when it could be
  read back, but its bytes are gone.
\<close>

theorem recover_manifest_wins:
  assumes "recover_records e rd opts dest sid recs fs = (Some s, fs')" "f \<in> set (rs_files s)" "rf_path f = [manifest_name]"
  shows "fs' (dest @ rf_path f) = Some (FileNode (re_manifest e sid dest s))"
  using assms(1) by (cases rule: recover_records_cases) (use assms(3) in auto)

section \<open>No record is lost\<close>

lemma show_nat_value: "foldl (\<lambda>a c. 10 * a + (of_char c - 48)) 0 (show_nat n) = n"
proof (induction n rule: show_nat.induct)
  case (1 n)
  then show ?case by (subst show_nat.simps) simp
qed

lemma show_nat_inject: "show_nat m = show_nat n \<Longrightarrow> m = n"
  by (metis show_nat_value)

lemma renamed_inject: "renamed p m = renamed p n \<Longrightarrow> m = n"
  by (rule show_nat_inject) (auto simp: renamed_def ustr_def Let_def inj_map_eq_map inj_def)

lemma copy_extent_unlimited: "fst (copy_extent rd None off len c)"
proof (induction rd "None :: nat option" off len c rule: copy_extent.induct)
  case (1 rd off len c)
  then show ?case by (simp add: copy_extent.simps [of _ _ _ len] Let_def write_all_def)
qed

lemma copy_extents_unlimited: "fst (copy_extents rd None es c)"
proof (induction es arbitrary: c)
  case (Cons x es)
  obtain off len where x: "x = (off, len)" by fastforce
  obtain b c1 where c1: "copy_extent rd None off len c = (b, c1)" by fastforce
  then have "b" using copy_extent_unlimited [of rd off len c] by simp
  then show ?case using Cons.IH [of c1] by (simp add: x c1)
qed simp

lemma count_recovered_counts [simp]:
  "rs_recovered (count_recovered e opts dest r p h sus fs s) = rs_recovered s + 1"
  "rs_skipped (count_recovered e opts dest r p h sus fs s) = rs_skipped s"
  by (simp_all add: count_recovered_def Let_def)

text \<open>The destination of a flat run: it exists, holds no directory and at most \<open>k\<close> files.\<close>

definition flat_room :: "upath \<Rightarrow> nat \<Rightarrow> files \<Rightarrow> bool" where
  "flat_room dest k fs \<longleftrightarrow> (\<forall>q \<in> set (path_prefixes dest). fs q = Some DirNode) \<and>
     (\<forall>c. fs (dest @ [c]) \<noteq> Some DirNode) \<and>
     finite {c. fs (dest @ [c]) \<noteq> None} \<and> card {c. fs (dest @ [c]) \<noteq> None} \<le> k"

lemma resolve_collision_flat:
  assumes room: "flat_room dest k fs" "k < 99999" and c: "entry_name c" and pol: "policy \<noteq> Skip"
  shows "\<exists>d. resolve_collision fs (dest @ [c]) policy = Some (dest @ [d])"
proof (cases "resolve_collision fs (dest @ [c]) policy")
  case None
  then have p: "policy = Rename" "find (\<lambda>q. \<not> path_exists fs q) (map (renamed (dest @ [c])) [1..<100000]) = None"
    using pol by (auto simp: resolve_collision_def simp del: upt_Suc split: if_splits collision.splits)
  define names where "names n = last (renamed (dest @ [c]) n)" for n
  have renamed: "renamed (dest @ [c]) n = dest @ [names n]" for n by (simp add: names_def renamed_def Let_def)
  have "n \<in> {1..<100000} \<Longrightarrow> path_exists fs (renamed (dest @ [c]) n)" for n
    using p(2) by (auto simp: find_None_iff simp del: upt_Suc)
  then have "names ` {1..<100000} \<subseteq> {c. fs (dest @ [c]) \<noteq> None}"
    unfolding renamed by (auto simp: path_exists_def)
  then have "card (names ` {1..<100000}) \<le> k" using room(1) card_mono unfolding flat_room_def by (meson le_trans)
  moreover have "inj names" using renamed renamed_inject by (metis injI)
  then have "card (names ` {1..<100000}) = 99999" by (subst card_image) (auto intro: inj_on_subset)
  ultimately show ?thesis using room(2) by simp
next
  case (Some q)
  then show ?thesis using resolve_collision_name [OF Some] c by auto
qed

lemma flat_room_add:
  assumes "flat_room dest k fs" "\<forall>q. q \<noteq> dest @ [d] \<longrightarrow> fs' q = fs q" "fs' (dest @ [d]) = Some (FileNode b)"
  shows "flat_room dest (k + 1) fs'"
proof -
  let ?old = "{c. fs (dest @ [c]) \<noteq> None}" and ?new = "{c. fs' (dest @ [c]) \<noteq> None}"
  have sub: "?new \<subseteq> insert d ?old" using assms(2) by auto
  have fin: "finite (insert d ?old)" using assms(1) by (simp add: flat_room_def)
  have "card ?new \<le> card (insert d ?old)" by (rule card_mono [OF fin sub])
  also have "\<dots> \<le> card ?old + 1" using fin by (simp add: card_insert_if)
  finally have "card ?new \<le> k + 1" using assms(1) by (simp add: flat_room_def)
  moreover have "\<forall>q \<in> set (path_prefixes dest). fs' q = Some DirNode"
    using assms(1,2) by (auto simp: flat_room_def path_prefixes_iff)
  moreover have "fs' (dest @ [c]) \<noteq> Some DirNode" for c using assms by (cases "c = d") (simp_all add: flat_room_def)
  ultimately show ?thesis using finite_subset [OF sub fin] by (simp add: flat_room_def)
qed

lemma open_trunc_flat:
  assumes "flat_room dest k fs" "\<forall>p. re_open e p"
  shows "open_trunc e (dest @ [d]) fs = Some (fs(dest @ [d] \<mapsto> FileNode []))"
proof -
  have "dest = [] \<or> fs dest = Some DirNode" using assms(1) by (auto simp: flat_room_def path_prefixes_iff)
  then show ?thesis using assms by (auto simp: open_trunc_def flat_room_def)
qed

lemma recover_one_flat:
  assumes e: "\<forall>p. re_open e p" "\<forall>p. re_space e p = None"
    and o: "ro_flat opts \<or> \<not> ro_preserve_paths opts" "ro_collision opts \<noteq> Skip"
    and room: "flat_room dest k fs" "k < 99999"
    and one: "recover_one e rd opts dest r (s, fs) = (s', fs')"
  shows "rs_recovered s' = rs_recovered s + 1 \<and> rs_skipped s' = rs_skipped s \<and> flat_room dest (k + 1) fs'"
proof -
  obtain c where c: "out_rel_path r (ro_preserve_paths opts) (ro_flat opts) = [c]"
  proof -
    have "length (safe_rel_path (synth_path r) True) = 1" by (simp add: safe_rel_path_def Let_def)
    then show thesis using that o(1) by (auto simp: out_rel_path_def length_Suc_conv)
  qed
  have "entry_name c" using out_rel_path_names [of r "ro_preserve_paths opts" "ro_flat opts"] c by simp
  then obtain d where d: "resolve_collision fs (dest @ [c]) (ro_collision opts) = Some (dest @ [d])"
    using resolve_collision_flat [OF room] o(2) by blast
  have dirs: "create_dir_all e dest fs = (True, fs)" using room(1) by (intro create_dir_all_noop) (simp add: flat_room_def)
  obtain cp where cp: "copy_extents rd None (cr_extents r) copy_start = (True, cp)"
    using copy_extents_unlimited [of rd "cr_extents r" copy_start] by (cases "copy_extents rd None (cr_extents r) copy_start") auto
  have w: "write_extent e rd r (dest @ [d]) fs = (Some (finalize_hex (re_hash e) (cp_digest cp), cp_suspect cp), fs(dest @ [d] \<mapsto> FileNode (cp_file cp)))"
    using open_trunc_flat [OF room(1) e(1)] e(2) cp by (simp add: write_extent_def)
  have "fs' = fs(dest @ [d] \<mapsto> FileNode (cp_file cp))" "rs_recovered s' = rs_recovered s + 1" "rs_skipped s' = rs_skipped s"
    using one by (auto simp: recover_one_def c dirs d w Let_def)
  then show ?thesis using flat_room_add [OF room(1), of d fs'] by simp
qed

lemma fold_flat:
  assumes e: "\<forall>p. re_open e p" "\<forall>p. re_space e p = None"
    and o: "ro_flat opts \<or> \<not> ro_preserve_paths opts" "ro_collision opts \<noteq> Skip"
  shows "flat_room dest k fs \<Longrightarrow> k + length recs \<le> 99999 \<Longrightarrow> fold (recover_one e rd opts dest) recs (s, fs) = (s', fs') \<Longrightarrow>
    rs_recovered s' = rs_recovered s + length recs \<and> rs_skipped s' = rs_skipped s \<and> flat_room dest (k + length recs) fs'"
proof (induction recs arbitrary: k s fs)
  case (Cons r recs)
  obtain s1 fs1 where one: "recover_one e rd opts dest r (s, fs) = (s1, fs1)" by fastforce
  have k: "k < 99999" using Cons.prems(2) by simp
  note step = recover_one_flat [OF e o Cons.prems(1) k one]
  show ?case using Cons.IH [of "k + 1" fs1 s1] Cons.prems(2,3) step one by simp
qed simp

text \<open>A flat run with the renaming policy into a directory that can be made and holds nothing recovers every one of up to 99,999 records, whatever names
  they carry, and writes its manifest: no collision of names, however the names were chosen,
  makes it skip one.
\<close>

theorem recover_flat_complete:
  assumes env: "\<forall>p. re_open e p" "\<forall>p. re_space e p = None" "\<forall>p. re_mkdir e p"
    and opts: "ro_flat opts \<or> \<not> ro_preserve_paths opts" "ro_collision opts = Rename"
    and fresh: "\<forall>q. fs q \<noteq> None \<longrightarrow> q \<in> set (path_prefixes dest) \<and> fs q = Some DirNode"
    and few: "length recs \<le> 99999"
  shows "\<exists>s fs'. recover_records e rd opts dest sid recs fs = (Some s, fs') \<and>
    rs_recovered s = length recs \<and> rs_skipped s = 0"
proof -
  have mk: "fold (make_dir e) ps (True, g) = (True, snd (fold (make_dir e) ps (True, g)))"
    if "\<forall>q b. g q \<noteq> Some (FileNode b)" for ps g
    using that
  proof (induction ps arbitrary: g)
    case (Cons p ps)
    have "fst (make_dir e p (True, g)) \<and> (\<forall>q b. snd (make_dir e p (True, g)) q \<noteq> Some (FileNode b))"
      using Cons.prems env(3) by (auto simp: make_dir_def split: option.splits fnode.splits)
    then show ?case using Cons.IH [of "snd (make_dir e p (True, g))"] by (cases "make_dir e p (True, g)") simp
  qed simp
  have nofile: "\<forall>q b. fs q \<noteq> Some (FileNode b)" using fresh by (metis fnode.distinct(1) option.distinct(1) option.inject)
  then obtain fs1 where mkdir: "create_dir_all e dest fs = (True, fs1)" unfolding create_dir_all_def by (metis mk)
  have grown: "grown (set (path_prefixes dest)) fs fs1" by (rule create_dir_all_grown [OF mkdir])
  have none: "fs1 (dest @ [c]) = None" for c
  proof -
    have "dest @ [c] \<notin> set (path_prefixes dest)" by (simp add: path_prefixes_iff)
    then show ?thesis using grown fresh unfolding grown_def by metis
  qed
  have room: "flat_room dest 0 fs1" using create_dir_all_ok [OF mkdir] none by (simp add: flat_room_def)
  obtain s fs2 where f: "fold (recover_one e rd opts dest) recs (summary_start, fs1) = (s, fs2)" by fastforce
  have skip: "ro_collision opts \<noteq> Skip" using opts(2) by simp
  note all = fold_flat [OF env(1,2) opts(1) skip room _ f, simplified, OF few]
  have "open_trunc e (dest @ [manifest_name]) fs2 = Some (fs2(dest @ [manifest_name] \<mapsto> FileNode []))"
    using open_trunc_flat [OF _ env(1)] all by blast
  then show ?thesis
    using all by (simp add: recover_records_def mkdir f Let_def write_all_def env(2)) (simp add: summary_start_def)
qed

section \<open>Previews\<close>

lemma take_medium_bytes: "take k (medium_bytes md off n) = medium_bytes md off (min k n)"
  by (rule nth_equalityI) auto

lemma preview_extent_ok:
  assumes src: "presents src md" "s_len src mod s_sector_size src = 0"
  shows "off + len \<le> s_len src \<Longrightarrow> length buf + len \<le> limit \<Longrightarrow>
    \<exists>stop. preview_extent (source_reader src) None limit off len buf = (True, stop, buf @ medium_bytes md off len) \<and>
      (stop \<longrightarrow> length buf + len = limit)"
proof (induction "source_reader src" "None :: nat option" limit off len buf rule: preview_extent.induct)
  case (1 limit off len buf)
  let ?n = "min len recover_chunk"
  have u: "s_len src \<le> u64_max" using src(1) by (simp add: presents_def)
  show ?case
  proof (cases "len = 0")
    case True
    then show ?thesis by (intro exI [of _ False]) (simp add: preview_extent.simps medium_bytes_def)
  next
    case False
    have n: "0 < ?n" "off + ?n \<le> s_len src" "?n \<le> len" using False 1(2) by (auto simp: recover_chunk_def)
    have rd: "rd_read (source_reader src) off ?n = medium_bytes md off ?n"
      using read_inner_ok(1) [OF src n(1,2), of False] by (simp add: source_reader_def)
    have wa: "wadd64 off ?n = off + ?n" using n u by (simp add: wadd64_exact)
    have step: "preview_extent (source_reader src) None limit off len buf =
        (if limit \<le> length buf + ?n then (True, True, buf @ medium_bytes md off ?n)
         else preview_extent (source_reader src) None limit (off + ?n) (len - ?n) (buf @ medium_bytes md off ?n))"
      using False by (subst preview_extent.simps) (simp add: Let_def write_all_def rd wa)
    have split: "medium_bytes md off len = medium_bytes md off ?n @ medium_bytes md (off + ?n) (len - ?n)"
      using medium_bytes_add [of md off ?n "len - ?n"] n(3) by simp
    show ?thesis
    proof (cases "limit \<le> length buf + ?n")
      case True
      then have "len = ?n" using 1(3) n(3) by linarith
      then show ?thesis using True 1(3) step by (intro exI [of _ True]) auto
    next
      case l: False
      have "\<exists>stop. preview_extent (source_reader src) None limit (off + ?n) (len - ?n) (buf @ medium_bytes md off ?n)
          = (True, stop, (buf @ medium_bytes md off ?n) @ medium_bytes md (off + ?n) (len - ?n)) \<and>
          (stop \<longrightarrow> length (buf @ medium_bytes md off ?n) + (len - ?n) = limit)"
        using 1(1) [OF False refl refl] l 1(2,3) n rd wa by (simp add: write_all_def)
      then show ?thesis using l step split n(3) by auto
    qed
  qed
qed

lemma preview_extents_ok:
  assumes src: "presents src md" "s_len src mod s_sector_size src = 0"
  shows "extents_inside src es \<Longrightarrow> length buf \<le> limit \<Longrightarrow>
    preview_extents (source_reader src) None limit es buf = (True, buf @ take (limit - length buf) (extents_bytes md es))"
proof (induction es arbitrary: buf)
  case (Cons x es)
  obtain off len where x: "x = (off, len)" by fastforce
  let ?k = "min len (limit - length buf)"
  have "off + ?k \<le> s_len src" "length buf + ?k \<le> limit" using Cons.prems x by (auto simp: extents_defs)
  then obtain stop where p: "preview_extent (source_reader src) None limit off ?k buf = (True, stop, buf @ medium_bytes md off ?k)"
    "stop \<longrightarrow> length buf + ?k = limit"
    using preview_extent_ok [OF src, of off ?k buf limit] by blast
  have take: "take (limit - length buf) (extents_bytes md (x # es))
      = medium_bytes md off ?k @ take (limit - length buf - len) (extents_bytes md es)"
    by (auto simp: extents_defs x min_def take_medium_bytes)
  show ?case
  proof (cases stop)
    case True
    then have "limit - length buf - len = 0" using p(2) by linarith
    then show ?thesis using p True unfolding take by (simp add: x)
  next
    case False
    let ?buf = "buf @ medium_bytes md off ?k"
    have "limit - length ?buf = limit - length buf - len" by simp
    then show ?thesis
      using Cons.IH [of ?buf] Cons.prems p False x take by (simp add: extents_defs)
  qed
qed (simp add: extents_defs)

text \<open>A preview copy that can be written is named after the record inside the
  session's \<open>preview-tmp\<close> directory and holds exactly the first \<open>max_bytes\<close> bytes the source has at
  the record's extents, all of them when they are fewer.
\<close>

theorem preview_exact:
  assumes "presents src md" "s_len src mod s_sector_size src = 0" "extents_inside src (cr_extents r)"
    and "create_dir_all e (session @ [ustr ''preview-tmp'']) fs = (True, fs1)"
    and "open_trunc e (preview_path session r) fs1 = Some fs2" "re_space e (preview_path session r) = None"
  shows "extract_to_temp e session r (source_reader src) limit fs =
    (Some (preview_path session r), fs2(preview_path session r \<mapsto> FileNode (take limit (extents_bytes md (cr_extents r)))))"
  using preview_extents_ok [OF assms(1-3), of "[]" limit] assms(4-6) by (simp add: extract_to_temp_def Let_def)

section \<open>Instances\<close>

text \<open>A healthy source of two sectors, a record of six bytes of it named \<open>manifest.json\<close> by the damaged
  volume, and a destination that can be written.\<close>

abbreviation small_source :: source where
  "small_source \<equiv> medium_source (good_medium [(0, [1, 2, 3, 4, 5, 6])]) 512 1024"

definition small_record :: "ustring option \<Rightarrow> carved_record" where
  "small_record path =
     \<lparr>cr_id = ustr ''a'', cr_source_id = [], cr_engine = [], cr_offset = 0, cr_len = 2, cr_format = ustr ''x'', cr_family = ustr ''f'',
      cr_ext = ustr ''b'', cr_validity = ustr ''full'', cr_score = 90, cr_block_aligned = True, cr_name = None, cr_date = None,
      cr_model = None, cr_thumb_offset = None, cr_thumb_len = None, cr_path = path, cr_state = None, cr_kind = ustr ''file'',
      cr_extents_json = Some [(2, 2)], cr_merged = False\<rparr>"

definition small_env :: recover_env where
  "small_env = \<lparr>re_mkdir = (\<lambda>_. True), re_open = (\<lambda>_. True), re_space = (\<lambda>_. None), re_reread = (\<lambda>_. True),
     re_hash = \<lparr>cr_hash = (\<lambda>_ _. ''h''), cr_compress = (\<lambda>_. None), cr_decompress = (\<lambda>_ _. None)\<rparr>, re_manifest = (\<lambda>_ _ _. [9])\<rparr>"

definition small_opts :: recover_opts where
  "small_opts = \<lparr>ro_preserve_paths = False, ro_flat = True, ro_collision = Rename, ro_verify = True\<rparr>"

lemma small_fields [simp]:
  "cr_extents (small_record path) = [(2, 2)]" "cr_path (small_record path) = path"
  "re_mkdir small_env = (\<lambda>_. True)" "re_open small_env = (\<lambda>_. True)" "re_space small_env = (\<lambda>_. None)"
  "ro_preserve_paths small_opts = False" "ro_flat small_opts = True" "ro_collision small_opts = Rename"
  by (simp_all add: small_record_def cr_extents_def small_env_def small_opts_def)

lemma small_presents: "presents small_source (good_medium [(0, [1, 2, 3, 4, 5, 6])])"
  "s_len small_source mod s_sector_size small_source = 0" "extents_inside small_source [(2, 2)]"
  by (rule fixture_presents) (simp_all add: extents_inside_def medium_source_def)

lemma small_path: "out_rel_path (small_record (Some manifest_name)) False True = [manifest_name]"
  by (simp add: out_rel_path_def synth_path_def safe_rel_path_def manifest_name_def ustr_def slash_def backslash_def
      keep_component_def safe_char_def is_control_def)

lemma small_run:
  "\<exists>s fs' f. recover_records small_env (source_reader small_source) small_opts [ustr ''out''] [] [small_record (Some manifest_name)] (\<lambda>_. None)
    = (Some s, fs') \<and> rs_files s = [f] \<and> rf_path f = [manifest_name]"
proof -
  let ?dest = "[ustr ''out'']"
  let ?fs = "(\<lambda>_. None)(?dest \<mapsto> DirNode) :: files"
  have d: "create_dir_all small_env ?dest (\<lambda>_. None) = (True, ?fs)" "create_dir_all small_env ?dest ?fs = (True, ?fs)"
    by (simp_all add: create_dir_all_def path_prefixes_def make_dir_def)
  obtain cp where cp: "copy_extents (source_reader small_source) None [(2, 2)] copy_start = (True, cp)"
    using copy_extents_unlimited [of "source_reader small_source" "[(2, 2)]" copy_start] by (metis prod.collapse)
  show ?thesis
    by (simp add: recover_records_def d recover_one_def small_path write_extent_def open_trunc_def cp resolve_collision_def path_exists_def
        count_recovered_def summary_start_def Let_def write_all_def del: copy_extents.simps)
qed

lemma small_inside: "\<forall>r \<in> set [small_record (Some manifest_name)]. extents_inside small_source (cr_extents r)"
  using small_presents(3) by simp

theorem recover_keeps_witness:
  "snd (recover_records small_env (source_reader small_source) small_opts [ustr ''out''] [] [small_record None]
      ([[ustr ''out''] \<mapsto> DirNode, [ustr ''out'', ustr ''x.b''] \<mapsto> FileNode [7]]))
    [ustr ''out'', ustr ''x.b''] = Some (FileNode [7])"
  by (subst recover_keeps) (simp_all add: manifest_name_def ustr_def)

theorem recover_faithful_witness:
  "\<exists>s fs'. recover_records small_env (source_reader small_source) small_opts [ustr ''out''] [] [small_record (Some manifest_name)] (\<lambda>_. None)
      = (Some s, fs') \<and> length (rs_files s) = rs_recovered s"
proof -
  obtain s fs' where run: "recover_records small_env (source_reader small_source) small_opts [ustr ''out''] [] [small_record (Some manifest_name)] (\<lambda>_. None)
      = (Some s, fs')" using small_run by blast
  show ?thesis using run recover_faithful [OF small_presents(1,2) _ small_inside run] by simp
qed

theorem recover_manifest_wins_witness:
  "\<exists>s fs' f. recover_records small_env (source_reader small_source) small_opts [ustr ''out''] [] [small_record (Some manifest_name)] (\<lambda>_. None)
      = (Some s, fs') \<and> rs_files s = [f] \<and> fs' ([ustr ''out''] @ rf_path f) = Some (FileNode [9])"
proof -
  obtain s fs' f where run: "recover_records small_env (source_reader small_source) small_opts [ustr ''out''] [] [small_record (Some manifest_name)] (\<lambda>_. None)
      = (Some s, fs')" and f: "rs_files s = [f]" "rf_path f = [manifest_name]" using small_run by blast
  show ?thesis using recover_manifest_wins [OF run _ f(2)] run f by (simp add: small_env_def)
qed

theorem recover_flat_complete_witness:
  "\<exists>s fs'. recover_records small_env (source_reader small_source) small_opts [ustr ''out''] [] [small_record None] (\<lambda>_. None)
      = (Some s, fs') \<and> rs_recovered s = length [small_record None] \<and> rs_skipped s = 0"
  by (rule recover_flat_complete) simp_all

theorem preview_exact_witness:
  "\<exists>p fs'. extract_to_temp small_env [] (small_record None) (source_reader small_source) 1 (\<lambda>_. None) = (Some p, fs') \<and>
    fs' p = Some (FileNode [3])"
proof -
  let ?fs = "(\<lambda>_. None)([ustr ''preview-tmp''] \<mapsto> DirNode) :: files"
  have d: "create_dir_all small_env ([] @ [ustr ''preview-tmp'']) (\<lambda>_. None) = (True, ?fs)"
    by (simp add: create_dir_all_def path_prefixes_def make_dir_def)
  have path: "preview_path [] (small_record None) = [ustr ''preview-tmp'', ustr ''a.b'']"
    by (simp add: preview_path_def small_record_def ustr_def is_ascii_alnum_def)
  have o: "open_trunc small_env (preview_path [] (small_record None)) ?fs = Some (?fs([ustr ''preview-tmp'', ustr ''a.b''] \<mapsto> FileNode []))"
    by (simp add: path open_trunc_def)
  have e: "extents_inside small_source (cr_extents (small_record None))" using small_presents(3) by simp
  have b: "extents_bytes (good_medium [(0, [1, 2, 3, 4, 5, 6])]) (cr_extents (small_record None)) = [3, 4]"
    by (simp add: extents_bytes_def medium_bytes_small)
  show ?thesis using preview_exact [OF small_presents(1,2) e d o, of 1] by (simp add: b [simplified] path)
qed

end
