(* ===== verification/FsCore.thy ===== *)
theory FsCore
  imports PartFacts Text
begin

text \<open>
  What the filesystem engines share (\<^verbatim>\<open>crates/reclaim-fs-core/src/lib.rs\<close>, \<^verbatim>\<open>bitmap.rs\<close>, and the byte
  helpers that every engine repeats): entries, extents, the allocation bitmap, the options and
  statistics of a walk, the sink. A confidence is an \<^verbatim>\<open>f32\<close> that the engines only form as a product
  of constants; it is kept as the list of the factors, in hundredths, in the order of the code.
\<close>

section \<open>Entries\<close>

datatype fs_error = NotThisFs string | Corrupt string | Budget string

datatype entry_kind = FileEntry | DirEntry | OtherEntry

definition entry_kind_label :: "entry_kind \<Rightarrow> string" where
  "entry_kind_label k = (case k of FileEntry \<Rightarrow> ''file'' | DirEntry \<Rightarrow> ''dir'' | OtherEntry \<Rightarrow> ''other'')"

datatype entry_state = Live | Deleted | Orphaned | Historical

definition entry_state_label :: "entry_state \<Rightarrow> string" where
  "entry_state_label s = (case s of Live \<Rightarrow> ''live'' | Deleted \<Rightarrow> ''deleted'' | Orphaned \<Rightarrow> ''orphaned'' | Historical \<Rightarrow> ''historical'')"

definition is_recoverable_target :: "entry_state \<Rightarrow> bool" where
  "is_recoverable_target s \<longleftrightarrow> s = Deleted \<or> s = Orphaned \<or> s = Historical"

record extent =
  ex_off :: nat
  ex_len :: nat

definition extent_end :: "extent \<Rightarrow> nat" where
  "extent_end e = sat_add64 (ex_off e) (ex_len e)"

record entry =
  en_id :: nat
  en_parent_id :: "nat option"
  en_name :: ustring
  en_raw_name :: bytes
  en_kind :: entry_kind
  en_size :: nat
  en_path :: "ustring option"
  en_created :: "ustring option"
  en_modified :: "ustring option"
  en_extents :: "extent list"
  en_state :: entry_state
  en_confidence :: "nat list"
  en_allocated :: bool
  en_contiguous_assumed :: bool

definition new_file :: "nat \<Rightarrow> ustring \<Rightarrow> bytes \<Rightarrow> nat \<Rightarrow> entry_state \<Rightarrow> entry" where
  "new_file i name raw_name len state =
     \<lparr>en_id = i, en_parent_id = None, en_name = name, en_raw_name = raw_name, en_kind = FileEntry, en_size = len, en_path = None,
      en_created = None, en_modified = None, en_extents = [], en_state = state, en_confidence = [50], en_allocated = False,
      en_contiguous_assumed = False\<rparr>"

definition extent_bytes :: "entry \<Rightarrow> nat" where
  "extent_bytes e = foldl (\<lambda>a x. sat_add64 a (ex_len x)) 0 (en_extents e)"

record probe =
  pb_fs_kind :: string
  pb_confidence :: nat
  pb_block_size :: nat
  pb_label :: "ustring option"
  pb_uuid :: "ustring option"
  pb_total_bytes :: nat

record walk_opts =
  wo_live :: bool
  wo_deleted :: bool
  wo_max :: nat
  wo_system_volume :: bool

definition walk_opts_default :: walk_opts where
  "walk_opts_default = \<lparr>wo_live = True, wo_deleted = True, wo_max = 5000000, wo_system_volume = False\<rparr>"

text \<open>What a walk carries: the entries sent to the sink, the statistics, the directories it has been to.\<close>

record walk =
  wk_out :: "entry list"
  wk_emitted :: nat
  wk_live :: nat
  wk_deleted :: nat
  wk_visited :: "nat set"

definition walk_start :: walk where
  "walk_start = \<lparr>wk_out = [], wk_emitted = 0, wk_live = 0, wk_deleted = 0, wk_visited = {}\<rparr>"

definition emit :: "entry \<Rightarrow> walk \<Rightarrow> walk" where
  "emit e w =
     (let w1 = (if en_state e = Live then w\<lparr>wk_live := wk_live w + 1\<rparr> else w\<lparr>wk_deleted := wk_deleted w + 1\<rparr>)
      in w1\<lparr>wk_emitted := wk_emitted w1 + 1, wk_out := wk_out w1 @ [e]\<rparr>)"

section \<open>The allocation bitmap\<close>

record bitmap =
  bm_block_size :: nat
  bm_base :: nat
  bm_count :: nat
  bm_bits :: bytes

definition bitmap_new :: "nat \<Rightarrow> nat \<Rightarrow> nat \<Rightarrow> bytes \<Rightarrow> bitmap" where
  "bitmap_new block_size base count packed = \<lparr>bm_block_size = max block_size 1, bm_base = base, bm_count = count, bm_bits = packed\<rparr>"

definition is_block_allocated :: "bitmap \<Rightarrow> nat \<Rightarrow> bool" where
  "is_block_allocated b i =
     (if bm_count b \<le> i then True
      else case get_at (bm_bits b) (i div 8) of
          Some x \<Rightarrow> bit x (i mod 8)
        | None \<Rightarrow> True)"

definition is_offset_allocated :: "bitmap \<Rightarrow> nat \<Rightarrow> bool" where
  "is_offset_allocated b offset =
     (if offset < bm_base b then True else is_block_allocated b ((offset - bm_base b) div bm_block_size b))"

text \<open>The free and the sampled clusters whose quotient is \<^verbatim>\<open>unallocated_fraction\<close>; the span is capped.\<close>

definition unallocated_counts :: "bitmap \<Rightarrow> nat \<Rightarrow> nat \<Rightarrow> nat \<times> nat" where
  "unallocated_counts b offset len =
     (if len = 0 then (1, 1)
      else
        let bs = bm_block_size b;
            first = offset div bs;
            last = sat_add64 offset (len - 1) div bs;
            span = min (last + 1 - first) 1000000
        in if span = 0 then (1, 1)
           else (length (filter (\<lambda>c. \<not> is_offset_allocated b (sat_mul64 c bs)) [first..<first + span]), span))"

definition count_ones :: "byte \<Rightarrow> nat" where
  "count_ones x = length (filter (bit x) [0..<8])"

definition allocated_count :: "bitmap \<Rightarrow> nat" where
  "allocated_count b =
     (let n = min (bm_count b) (sat_mul64 (length (bm_bits b)) 8);
          full = n div 8;
          rem = n mod 8;
          count = (case get_slice (bm_bits b) 0 full of Some bs \<Rightarrow> sum_list (map count_ones bs) | None \<Rightarrow> 0)
      in if 0 < rem then
           (case get_at (bm_bits b) full of
              Some l \<Rightarrow> count + count_ones (take_bit rem l)
            | None \<Rightarrow> count)
         else count)"

section \<open>Reading\<close>

text \<open>The reader every engine has: aligned to sectors, zeros past the end of the source.\<close>

definition fs_read :: "source \<Rightarrow> nat \<Rightarrow> nat \<Rightarrow> bytes" where
  "fs_read src offset len =
     (let out = zeros len; whole = s_len src in
      if len = 0 \<or> whole \<le> offset then out
      else
        let ss = max (s_sector_size src) 1;
            aligned = offset - offset mod ss;
            stop = min (sat_add64 offset len) whole;
            aligned_end = sat_mul64 (div_ceil stop ss) ss;
            span = aligned_end - aligned;
            buf = fst (s_read_at src aligned (zeros span));
            skip = offset - aligned;
            copy = min (min len (span - skip)) (stop - offset)
        in (case get_slice buf skip (skip + copy) of
              Some s \<Rightarrow> if copy \<le> length out then blit out 0 s else out
            | None \<Rightarrow> out))"

definition le16_or_0 :: "bytes \<Rightarrow> nat \<Rightarrow> nat" where
  "le16_or_0 b off = unwrap_or (le_u16 b off) 0"

definition byte_or_0 :: "bytes \<Rightarrow> nat \<Rightarrow> byte" where
  "byte_or_0 b off = unwrap_or (get_at b off) 0"

text \<open>\<^verbatim>\<open>char\<close> of a byte, and \<^verbatim>\<open>as_bytes\<close> of a string.\<close>

definition latin1 :: "bytes \<Rightarrow> ustring" where
  "latin1 b = map unat b"

definition utf8_char :: "nat \<Rightarrow> bytes" where
  "utf8_char c =
     map of_nat
       (if c < 0x80 then [c]
        else if c < 0x800 then [0xC0 + c div 64, 0x80 + c mod 64]
        else if c < 0x10000 then [0xE0 + c div 4096, 0x80 + c div 64 mod 64, 0x80 + c mod 64]
        else [0xF0 + c div 262144, 0x80 + c div 4096 mod 64, 0x80 + c div 64 mod 64, 0x80 + c mod 64])"

definition utf8 :: "ustring \<Rightarrow> bytes" where
  "utf8 s = concat (map utf8_char s)"

text \<open>\<^verbatim>\<open>String::from_utf8_lossy\<close>: the longest prefix of a character that is cut short or broken becomes one
  U+FFFD.\<close>

definition cont_byte :: "nat \<Rightarrow> bool" where
  "cont_byte b \<longleftrightarrow> 0x80 \<le> b \<and> b \<le> 0xBF"

definition utf8_second :: "nat \<Rightarrow> nat \<Rightarrow> bool" where
  "utf8_second a b \<longleftrightarrow> cont_byte b \<and> (a = 0xE0 \<longrightarrow> 0xA0 \<le> b) \<and> (a = 0xED \<longrightarrow> b \<le> 0x9F) \<and> (a = 0xF0 \<longrightarrow> 0x90 \<le> b) \<and>
     (a = 0xF4 \<longrightarrow> b \<le> 0x8F)"

text \<open>The first character, or U+FFFD, and the number of bytes it takes.\<close>

definition utf8_step :: "nat list \<Rightarrow> nat \<times> nat" where
  "utf8_step bs =
     (let a = bs ! 0;
          ok = (\<lambda>i. i < length bs \<and> (if i = 1 then utf8_second a (bs ! 1) else cont_byte (bs ! i)));
          c = (\<lambda>i. bs ! i - 0x80)
      in if a < 0x80 then (a, 1)
         else if 0xC2 \<le> a \<and> a \<le> 0xDF then (if ok 1 then ((a - 0xC0) * 64 + c 1, 2) else (0xFFFD, 1))
         else if 0xE0 \<le> a \<and> a \<le> 0xEF then
           (if \<not> ok 1 then (0xFFFD, 1)
            else if \<not> ok 2 then (0xFFFD, 2)
            else ((a - 0xE0) * 4096 + c 1 * 64 + c 2, 3))
         else if 0xF0 \<le> a \<and> a \<le> 0xF4 then
           (if \<not> ok 1 then (0xFFFD, 1)
            else if \<not> ok 2 then (0xFFFD, 2)
            else if \<not> ok 3 then (0xFFFD, 3)
            else ((a - 0xF0) * 262144 + c 1 * 4096 + c 2 * 64 + c 3, 4))
         else (0xFFFD, 1))"

lemma utf8_step_pos: "0 < snd (utf8_step bs)"
  by (simp add: utf8_step_def Let_def)

function utf8_lossy_loop :: "nat list \<Rightarrow> ustring" where
  "utf8_lossy_loop bs =
     (if bs = [] then [] else fst (utf8_step bs) # utf8_lossy_loop (drop (snd (utf8_step bs)) bs))"
  by pat_completeness auto
termination
  by (relation "measure length") (use utf8_step_pos in \<open>auto intro: diff_less\<close>)

declare utf8_lossy_loop.simps [simp del]

definition utf8_lossy :: "bytes \<Rightarrow> ustring" where
  "utf8_lossy b = utf8_lossy_loop (map unat b)"

text \<open>\<^verbatim>\<open>{n:08X}\<close>.\<close>

definition hex_up :: "nat \<Rightarrow> nat" where
  "hex_up d = (if d < 10 then 48 + d else 55 + d)"

definition hex8 :: "nat \<Rightarrow> ustring" where
  "hex8 n = map (\<lambda>k. hex_up (n div 16 ^ k mod 16)) [7, 6, 5, 4, 3, 2, 1, 0]"

text \<open>\<^verbatim>\<open>to_ascii_lowercase\<close>.\<close>

definition ascii_lower :: "nat \<Rightarrow> nat" where
  "ascii_lower c = (if 65 \<le> c \<and> c \<le> 90 then c + 32 else c)"

text \<open>\<^verbatim>\<open>{n:04}\<close> and \<^verbatim>\<open>{n:02}\<close>.\<close>

definition pad_nat :: "nat \<Rightarrow> nat \<Rightarrow> ustring" where
  "pad_nat width n = (let d = ustr (show_nat n) in replicate (width - length d) 48 @ d)"

definition ymd :: "nat \<Rightarrow> nat \<Rightarrow> nat \<Rightarrow> ustring" where
  "ymd y m d = pad_nat 4 y @ ustr ''-'' @ pad_nat 2 m @ ustr ''-'' @ pad_nat 2 d"

text \<open>\<^verbatim>\<open>join("/")\<close>.\<close>

fun join_names :: "ustring list \<Rightarrow> ustring" where
  "join_names [] = []"
| "join_names [p] = p"
| "join_names (p # q # ps) = p @ [slash] @ join_names (q # ps)"

text \<open>\<^verbatim>\<open>u64::is_power_of_two\<close>.\<close>

unbundle bit_operations_syntax

definition is_power_of_two :: "nat \<Rightarrow> bool" where
  "is_power_of_two n \<longleftrightarrow> n \<noteq> 0 \<and> n AND (n - 1) = 0"

section \<open>Facts\<close>

text \<open>Where an entry is listed: its folder and its name.\<close>

definition entry_key :: "entry \<Rightarrow> nat \<times> ustring" where
  "entry_key e = (the (en_parent_id e), en_name e)"

lemma fs_read_part:
  assumes "presents src md" "s_len src mod s_sector_size src = 0"
  shows "fs_read src off n = part_read_bytes src off n"
proof (cases "n = 0 \<or> s_len src \<le> off")
  case True
  then show ?thesis by (simp add: fs_read_def part_read_bytes_def)
next
  case False
  let ?ss = "s_sector_size src" and ?len = "s_len src"
  let ?stop = "min (sat_add64 off n) ?len"
  have ss: "0 < ?ss" by (rule presents_pos [OF assms(1)])
  have len: "?len \<le> u64_max" using assms(1) by (simp add: presents_def)
  have stop: "off < ?stop" using False len by (simp add: sat_add64_def)
  have hi: "div_ceil ?stop ?ss * ?ss \<le> ?len" "?stop \<le> div_ceil ?stop ?ss * ?ss"
    using div_ceil_mult_le [OF ss assms(2), of ?stop] div_ceil_lower [OF ss, of ?stop] by simp_all
  have e: "min (sat_mul64 (div_ceil ?stop ?ss) ?ss) (align_up ?len ?ss) = sat_mul64 (div_ceil ?stop ?ss) ?ss"
    using hi(1) len assms(2) by (simp add: sat_mul64_def align_up_def)
  have "sat_mul64 (div_ceil ?stop ?ss) ?ss = div_ceil ?stop ?ss * ?ss" using hi(1) len by (simp add: sat_mul64_def)
  then have "\<not> sat_mul64 (div_ceil ?stop ?ss) ?ss \<le> off - off mod ?ss" using hi(2) stop by linarith
  then show ?thesis using ss False unfolding fs_read_def part_read_bytes_def Let_def
    by (simp only: e max_one [OF ss, unfolded One_nat_def [symmetric]] if_False)
qed

lemma length_fs_read [simp]: "length (fs_read src off n) = n"
  unfolding fs_read_def Let_def by (simp only: if_distrib [of length] length_copy_prefix length_replicate if_cancel)

lemma fs_read_eq:
  assumes "presents src md" "s_len src mod s_sector_size src = 0"
  shows "fs_read src off n = map (\<lambda>j. if off + j < s_len src then md_byte md (off + j) else 0) [0..<n]"
  using part_read_bytes_eq [OF assms] fs_read_part [OF assms] by simp

lemma fs_read_inside:
  assumes "presents src md" "s_len src mod s_sector_size src = 0" "off + n \<le> s_len src"
  shows "fs_read src off n = medium_bytes md off n"
  using part_read_bytes_inside [OF assms] fs_read_part [OF assms(1,2)] by simp

lemma emit_simps [simp]:
  "wk_out (emit e w) = wk_out w @ [e]" "wk_emitted (emit e w) = wk_emitted w + 1" "wk_visited (emit e w) = wk_visited w"
  by (simp_all add: emit_def Let_def)

text \<open>The statistics of a walk count what was sent to the sink.\<close>

definition walk_ok :: "walk \<Rightarrow> bool" where
  "walk_ok w \<longleftrightarrow> wk_emitted w = length (wk_out w) \<and> wk_live w = length (filter (\<lambda>e. en_state e = Live) (wk_out w)) \<and>
     wk_deleted w = length (filter (\<lambda>e. en_state e \<noteq> Live) (wk_out w))"

lemma walk_ok_start [simp]: "walk_ok walk_start"
  by (simp add: walk_ok_def walk_start_def)

lemma walk_ok_emit [simp]: "walk_ok w \<Longrightarrow> walk_ok (emit e w)"
  by (auto simp: walk_ok_def emit_def Let_def)

lemma walk_ok_visited [simp]: "walk_ok (w\<lparr>wk_visited := v\<rparr>) = walk_ok w"
  by (simp add: walk_ok_def)

text \<open>The population count is the number of allocated clusters that the bits describe.\<close>

lemma allocated_bits:
  "sum_list (map count_ones bs) = length (filter (\<lambda>i. bit (bs ! (i div 8)) (i mod 8)) [0..<8 * length bs])"
proof (induction bs rule: rev_induct)
  case (snoc x bs)
  let ?f = "\<lambda>i. bit ((bs @ [x]) ! (i div 8)) (i mod 8)"
  have "[0..<8 * length (bs @ [x])] = [0..<8 * length bs] @ map (\<lambda>i. i + 8 * length bs) [0..<8]"
    using upt_add_eq_append [of 0 "8 * length bs" 8] map_add_upt [of "8 * length bs" 8] by (simp add: add.commute)
  then have "length (filter ?f [0..<8 * length (bs @ [x])])
      = length (filter ?f [0..<8 * length bs]) + length (filter (\<lambda>i. ?f (i + 8 * length bs)) [0..<8])"
    by (simp add: filter_map o_def)
  moreover have "filter ?f [0..<8 * length bs] = filter (\<lambda>i. bit (bs ! (i div 8)) (i mod 8)) [0..<8 * length bs]"
    by (intro filter_cong) (auto simp: nth_append less_mult_imp_div_less mult.commute)
  moreover have "filter (\<lambda>i. ?f (i + 8 * length bs)) [0..<8] = filter (bit x) [0..<8]"
    by (intro filter_cong) (auto simp: nth_append)
  ultimately show ?case using snoc by (simp add: count_ones_def)
qed simp

lemma is_block_allocated_split:
  "k < length (bm_bits b) \<Longrightarrow> i < 8 \<Longrightarrow> i + 8 * k < bm_count b \<Longrightarrow> is_block_allocated b (i + 8 * k) = bit (bm_bits b ! k) i"
  by (simp add: is_block_allocated_def get_at_def)

lemma allocated_count_eq:
  assumes "8 * length (bm_bits b) \<le> u64_max"
  shows "allocated_count b = length (filter (is_block_allocated b) [0..<min (bm_count b) (8 * length (bm_bits b))])"
proof -
  let ?n = "min (bm_count b) (8 * length (bm_bits b))"
  let ?k = "?n div 8" and ?r = "?n mod 8"
  let ?bits = "bm_bits b"
  have n: "min (bm_count b) (sat_mul64 (length ?bits) 8) = ?n" using assms by (simp add: sat_mul64_def mult.commute)
  have k: "?k \<le> length ?bits" by linarith
  have "[0..<?n] = [0..<8 * ?k] @ map (\<lambda>i. i + 8 * ?k) [0..<?r]"
    using upt_add_eq_append [of 0 "8 * ?k" ?r] map_add_upt [of "8 * ?k" ?r] by (simp add: add.commute)
  then have split: "length (filter (is_block_allocated b) [0..<?n])
      = length (filter (is_block_allocated b) [0..<8 * ?k]) + length (filter (\<lambda>i. is_block_allocated b (i + 8 * ?k)) [0..<?r])"
    by (simp add: filter_map o_def)
  have full: "filter (is_block_allocated b) [0..<8 * ?k] = filter (\<lambda>i. bit (take ?k ?bits ! (i div 8)) (i mod 8)) [0..<8 * length (take ?k ?bits)]"
  proof -
    have len: "8 * length (take ?k ?bits) = 8 * ?k" using k by simp
    have "is_block_allocated b i = bit (take ?k ?bits ! (i div 8)) (i mod 8)" if i: "i < 8 * ?k" for i
    proof -
      have "i div 8 < ?k" using i by linarith
      moreover have "i < bm_count b" using i by linarith
      ultimately show ?thesis using k by (simp add: is_block_allocated_def get_at_def)
    qed
    then show ?thesis unfolding len by (intro filter_cong) auto
  qed
  have slice: "get_slice ?bits 0 ?k = Some (take ?k ?bits)" using k by (simp add: get_slice_def)
  show ?thesis
  proof (cases "0 < ?r")
    case True
    have "8 * ?k + ?r \<le> 8 * length ?bits" by (metis min.cobounded2 mult_div_mod_eq)
    with True have kl: "?k < length ?bits" by linarith
    have "is_block_allocated b (i + 8 * ?k) = bit (?bits ! ?k) i" if i: "i < ?r" for i
    proof -
      have "i < 8" using i by (meson mod_less_divisor order_less_trans zero_less_numeral)
      moreover have "8 * ?k + ?r \<le> bm_count b" by (metis min.cobounded1 mult_div_mod_eq)
      then have "i + 8 * ?k < bm_count b" using i by linarith
      ultimately show ?thesis using is_block_allocated_split [OF kl] by blast
    qed
    then have "filter (\<lambda>i. is_block_allocated b (i + 8 * ?k)) [0..<?r] = filter (bit (?bits ! ?k)) [0..<?r]"
      by (intro filter_cong) auto
    moreover have "filter (bit (take_bit ?r (?bits ! ?k))) [0..<8] = filter (bit (?bits ! ?k)) [0..<?r]"
    proof -
      have "[0..<8] = [0..<?r] @ [?r..<8]" using upt_add_eq_append [of 0 ?r "8 - ?r"] by simp
      moreover have "filter (bit (take_bit ?r (?bits ! ?k))) [?r..<8] = []"
        by (auto simp: filter_empty_conv bit_take_bit_iff)
      moreover have "filter (bit (take_bit ?r (?bits ! ?k))) [0..<?r] = filter (bit (?bits ! ?k)) [0..<?r]"
        by (intro filter_cong) (auto simp: bit_take_bit_iff)
      ultimately show ?thesis by (metis append_Nil2 filter_append)
    qed
    ultimately have part: "count_ones (take_bit ?r (?bits ! ?k)) = length (filter (\<lambda>i. is_block_allocated b (i + 8 * ?k)) [0..<?r])"
      by (simp only: count_ones_def)
    have at: "get_at ?bits ?k = Some (?bits ! ?k)" using kl by (simp only: get_at_def if_True)
    have "allocated_count b = sum_list (map count_ones (take ?k ?bits)) + count_ones (take_bit ?r (?bits ! ?k))"
      unfolding allocated_count_def Let_def n slice option.case at using True by (simp only: if_True)
    then show ?thesis unfolding part allocated_bits split full [symmetric] .
  next
    case False
    then have r: "[0..<?r] = []" by (simp only: upt_conv_Nil not_gr_zero order_refl)
    have "allocated_count b = sum_list (map count_ones (take ?k ?bits))"
      unfolding allocated_count_def Let_def n slice option.case using False by (simp only: if_False)
    then show ?thesis unfolding allocated_bits split full [symmetric] r by (simp only: filter.simps list.size add_0_right)
  qed
qed

end
