(* ===== verification/ClusterRuns.thy ===== *)
theory ClusterRuns
  imports FsCore
begin

text \<open>
  From cluster chains to extents: the loop \<^verbatim>\<open>coalesce\<close> that the FAT and the exFAT engine share, and the
  interface it relies on - cluster offsets that advance by the cluster size, chains of clusters that
  have one. Both engines interpret the interface.
\<close>

section \<open>The loop\<close>

text \<open>\<^verbatim>\<open>coalesce\<close>: its loop state, one cluster, and the final cut to the size.\<close>

record run_state =
  rn_extents :: "extent list"
  rn_remaining :: nat
  rn_start :: "nat option"
  rn_len :: nat
  rn_prev :: "nat option"

definition run_flush :: "run_state \<Rightarrow> extent list" where
  "run_flush s = rn_extents s @ (case rn_start s of None \<Rightarrow> [] | Some x \<Rightarrow> [\<lparr>ex_off = x, ex_len = rn_len s\<rparr>])"

definition run_cluster :: "nat \<Rightarrow> nat \<Rightarrow> nat \<Rightarrow> run_state \<Rightarrow> run_state" where
  "run_cluster cs c off s =
     (let s1 = (if rn_prev s \<noteq> None \<and> the (rn_prev s) + 1 = c then s\<lparr>rn_len := rn_len s + cs\<rparr>
                else s\<lparr>rn_extents := run_flush s, rn_start := Some off, rn_len := cs\<rparr>)
      in s1\<lparr>rn_remaining := rn_remaining s1 - min (rn_remaining s1) cs, rn_prev := Some c\<rparr>)"

fun run_clusters :: "(nat \<Rightarrow> nat option) \<Rightarrow> nat \<Rightarrow> nat list \<Rightarrow> run_state \<Rightarrow> run_state" where
  "run_clusters off cs [] s = s"
| "run_clusters off cs (c # r) s =
     (if rn_remaining s = 0 then s
      else case off c of
          None \<Rightarrow> s
        | Some x \<Rightarrow> run_clusters off cs r (run_cluster cs c x s))"

definition run_start :: "nat \<Rightarrow> run_state" where
  "run_start len = \<lparr>rn_extents = [], rn_remaining = len, rn_start = None, rn_len = 0, rn_prev = None\<rparr>"

definition cut_extents :: "nat \<Rightarrow> extent list \<Rightarrow> extent list" where
  "cut_extents len es =
     (let whole = sum_list (map ex_len es) in
      filter (\<lambda>e. 0 < ex_len e)
        (if len < whole \<and> es \<noteq> [] then butlast es @ [(last es)\<lparr>ex_len := ex_len (last es) - (whole - len)\<rparr>] else es))"

definition coalesce_clusters :: "(nat \<Rightarrow> nat option) \<Rightarrow> nat \<Rightarrow> nat list \<Rightarrow> nat \<Rightarrow> extent list" where
  "coalesce_clusters off cs clusters len = cut_extents len (run_flush (run_clusters off cs clusters (run_start len)))"

section \<open>The bytes of a list of extents\<close>

definition xbytes :: "medium \<Rightarrow> extent list \<Rightarrow> bytes" where
  "xbytes md es = concat (map (\<lambda>e. medium_bytes md (ex_off e) (ex_len e)) es)"

lemma xbytes_simps [simp]:
  "xbytes md [] = []" "xbytes md (e # es) = medium_bytes md (ex_off e) (ex_len e) @ xbytes md es"
  "xbytes md (es @ fs) = xbytes md es @ xbytes md fs"
  by (simp_all add: xbytes_def)

lemma length_xbytes: "length (xbytes md es) = sum_list (map ex_len es)"
  by (induction es) auto

lemma medium_bytes_none [simp]: "medium_bytes md p 0 = []"
  by (simp add: medium_bytes_def)

lemma xbytes_filter: "xbytes md (filter (\<lambda>e. 0 < ex_len e) es) = xbytes md es"
  by (induction es) auto

lemma medium_bytes_join: "medium_bytes md off m @ medium_bytes md (off + m) n = medium_bytes md off (m + n)"
  by (rule nth_equalityI) (auto simp: nth_append add.assoc)

lemma take_medium: "k \<le> n \<Longrightarrow> take k (medium_bytes md off n) = medium_bytes md off k"
  by (rule nth_equalityI) auto

lemma cut_extents_bytes:
  assumes "sum_list (map ex_len es) \<le> len \<or> (es \<noteq> [] \<and> sum_list (map ex_len es) - len \<le> ex_len (last es))"
  shows "xbytes md (cut_extents len es) = take len (xbytes md es)"
proof (cases "sum_list (map ex_len es) \<le> len")
  case True
  then show ?thesis by (simp add: cut_extents_def xbytes_filter length_xbytes)
next
  case False
  let ?whole = "sum_list (map ex_len es)" and ?l = "last es"
  have es: "es = butlast es @ [?l]" and cut: "?whole - len \<le> ex_len ?l" using assms False by auto
  have whole: "?whole = sum_list (map ex_len (butlast es)) + ex_len ?l" by (subst es) simp
  have "xbytes md (cut_extents len es) = xbytes md (butlast es @ [?l\<lparr>ex_len := ex_len ?l - (?whole - len)\<rparr>])"
    using False assms unfolding cut_extents_def Let_def xbytes_filter by simp
  also have "\<dots> = take len (xbytes md (butlast es @ [?l]))"
    using False cut whole by (simp add: length_xbytes take_medium)
  finally show ?thesis using es by simp
qed

lemma cut_extents_sum:
  assumes "sum_list (map ex_len es) \<le> len \<or> (es \<noteq> [] \<and> sum_list (map ex_len es) - len \<le> ex_len (last es))"
  shows "sum_list (map ex_len (cut_extents len es)) = min len (sum_list (map ex_len es))"
  using arg_cong [where f = length, OF cut_extents_bytes [OF assms, of undefined]] by (simp add: length_xbytes)

section \<open>Volumes of clusters\<close>

locale cluster_volume =
  fixes off :: "'v \<Rightarrow> nat \<Rightarrow> nat option"
    and cs :: "'v \<Rightarrow> nat"
    and limit :: "'v \<Rightarrow> nat"
    and chain :: "'v \<Rightarrow> nat \<Rightarrow> nat \<Rightarrow> nat list"
    and ok :: "'v \<Rightarrow> bool"
  assumes adjacent: "ok v \<Longrightarrow> off v c = Some x \<Longrightarrow> off v (Suc c) = Some y \<Longrightarrow> y = x + cs v"
    and chain_off: "c \<in> set (chain v first n) \<Longrightarrow> off v c \<noteq> None"
    and off_inside: "ok v \<Longrightarrow> off v c = Some x \<Longrightarrow> x + cs v \<le> limit v"
begin

definition cluster_bytes :: "medium \<Rightarrow> 'v \<Rightarrow> nat \<Rightarrow> bytes" where
  "cluster_bytes md v c = medium_bytes md (the (off v c)) (cs v)"

definition chain_bytes :: "medium \<Rightarrow> 'v \<Rightarrow> nat list \<Rightarrow> bytes" where
  "chain_bytes md v cl = concat (map (cluster_bytes md v) cl)"

lemma length_chain_bytes [simp]: "length (chain_bytes md v cl) = length cl * cs v"
  by (induction cl) (simp_all add: chain_bytes_def cluster_bytes_def)

lemma chain_bytes_append: "chain_bytes md v (a @ b) = chain_bytes md v a @ chain_bytes md v b"
  by (simp add: chain_bytes_def)

text \<open>What the loop has built after the clusters \<open>cl\<close>: their bytes, all of them needed.\<close>

definition built :: "medium \<Rightarrow> 'v \<Rightarrow> nat \<Rightarrow> nat list \<Rightarrow> run_state \<Rightarrow> bool" where
  "built md v len cl s \<longleftrightarrow>
     xbytes md (run_flush s) = chain_bytes md v cl \<and>
     rn_remaining s = len - length cl * cs v \<and>
     list_all (\<lambda>e. ex_off e + ex_len e \<le> limit v) (run_flush s) \<and>
     (if cl = [] then rn_start s = None \<and> rn_prev s = None \<and> rn_extents s = []
      else rn_prev s = Some (last cl) \<and> (length cl - 1) * cs v < len \<and>
        (\<exists>x. rn_start s = Some x \<and> cs v \<le> rn_len s \<and> off v (last cl) = Some (x + rn_len s - cs v)))"

lemma built_start: "built md v len [] (run_start len)"
  by (simp add: built_def run_start_def run_flush_def chain_bytes_def)

lemma built_step:
  assumes ok: "ok v" and b: "built md v len cl s" and c: "off v c = Some y" and r: "rn_remaining s \<noteq> 0"
  shows "built md v len (cl @ [c]) (run_cluster (cs v) c y s)"
proof -
  have lim: "y + cs v \<le> limit v" using off_inside [OF ok c] .
  have rem: "rn_remaining s - min (rn_remaining s) (cs v) = len - length (cl @ [c]) * cs v"
    using b by (auto simp: built_def)
  have used: "length cl * cs v < len" using b r by (simp add: built_def)
  show ?thesis
  proof (cases "rn_prev s \<noteq> None \<and> the (rn_prev s) + 1 = c")
    case True
    then have cl: "cl \<noteq> []" "Suc (last cl) = c" using b by (auto simp: built_def split: if_splits)
    then obtain x where x: "rn_start s = Some x" "cs v \<le> rn_len s" "off v (last cl) = Some (x + rn_len s - cs v)"
      using b by (auto simp: built_def)
    have y: "y = x + rn_len s" using adjacent [OF ok x(3)] c cl(2) x(2) by simp
    have "xbytes md (rn_extents s) @ medium_bytes md x (rn_len s) = chain_bytes md v cl"
      using b x by (simp add: built_def run_flush_def)
    then have "xbytes md (rn_extents s) @ medium_bytes md x (rn_len s + cs v) = chain_bytes md v (cl @ [c])"
      using c y by (simp add: medium_bytes_join [symmetric] chain_bytes_append) (simp add: chain_bytes_def cluster_bytes_def)
    then show ?thesis
      using True b x y c rem used lim by (simp add: built_def run_cluster_def run_flush_def)
  next
    case False
    let ?s = "s\<lparr>rn_extents := run_flush s, rn_start := Some y, rn_len := cs v, rn_remaining := rn_remaining s - min (rn_remaining s) (cs v),
      rn_prev := Some c\<rparr>"
    have s: "run_cluster (cs v) c y s = ?s" unfolding run_cluster_def Let_def if_not_P [OF False] by simp
    have flush: "run_flush ?s = run_flush s @ [\<lparr>ex_off = y, ex_len = cs v\<rparr>]" by (simp add: run_flush_def [of ?s])
    have "medium_bytes md y (cs v) = chain_bytes md v [c]" using c by (simp add: chain_bytes_def cluster_bytes_def)
    then show ?thesis
      using b c rem used lim unfolding built_def s flush by (simp add: chain_bytes_append)
  qed
qed

lemma built_loop:
  assumes ok: "ok v"
  shows "built md v len cl s \<Longrightarrow> \<forall>c \<in> set rest. off v c \<noteq> None \<Longrightarrow>
    \<exists>used left. cl @ rest = used @ left \<and> built md v len used (run_clusters (off v) (cs v) rest s) \<and>
      (left = [] \<or> len \<le> length used * cs v)"
proof (induction rest arbitrary: cl s)
  case Nil
  then show ?case by (intro exI [of _ cl] exI [of _ "[]"]) simp
next
  case (Cons c rest)
  show ?case
  proof (cases "rn_remaining s = 0")
    case True
    then have "len \<le> length cl * cs v" using Cons.prems(1) by (simp add: built_def)
    then show ?thesis using Cons.prems(1) True by (intro exI [of _ cl] exI [of _ "c # rest"]) simp
  next
    case False
    obtain y where y: "off v c = Some y" using Cons.prems(2) by auto
    show ?thesis using Cons.IH [OF built_step [OF ok Cons.prems(1) y False]] Cons.prems(2) y False by simp
  qed
qed

lemma built_cut:
  assumes "built md v len cl s"
  shows "sum_list (map ex_len (run_flush s)) \<le> len \<or>
    (run_flush s \<noteq> [] \<and> sum_list (map ex_len (run_flush s)) - len \<le> ex_len (last (run_flush s)))"
proof (cases "cl = []")
  case True
  then show ?thesis using assms by (simp add: built_def run_flush_def)
next
  case False
  have "sum_list (map ex_len (run_flush s)) = length (chain_bytes md v cl)"
    using assms by (simp add: built_def flip: length_xbytes [of md])
  then have sum: "sum_list (map ex_len (run_flush s)) = length cl * cs v" by simp
  obtain k where k: "length cl = Suc k" using False by (cases cl) auto
  obtain x where x: "rn_start s = Some x" "cs v \<le> rn_len s" "k * cs v < len"
    using assms False k by (auto simp: built_def)
  have "Suc k * cs v - len \<le> rn_len s" using x by simp
  then show ?thesis using x sum k by (simp add: run_flush_def)
qed

text \<open>The extents of a chain hold the chain's bytes, cut to the size.\<close>

lemma coalesce_bytes:
  assumes "ok v" "\<forall>c \<in> set cl. off v c \<noteq> None"
  shows "xbytes md (coalesce_clusters (off v) (cs v) cl len) = take len (chain_bytes md v cl)"
proof -
  obtain used left where u: "cl = used @ left" "built md v len used (run_clusters (off v) (cs v) cl (run_start len))"
      "left = [] \<or> len \<le> length used * cs v"
    using built_loop [OF assms(1) built_start [of md v len] assms(2)] by auto
  have "xbytes md (coalesce_clusters (off v) (cs v) cl len) = take len (chain_bytes md v used)"
    using cut_extents_bytes [OF built_cut [OF u(2)]] u(2) by (simp add: coalesce_clusters_def built_def)
  moreover have "chain_bytes md v [] = []" by (simp add: chain_bytes_def)
  ultimately show ?thesis using u(1,3) by (auto simp: chain_bytes_append)
qed

lemma coalesce_sum:
  assumes "ok v" "\<forall>c \<in> set cl. off v c \<noteq> None"
  shows "sum_list (map ex_len (coalesce_clusters (off v) (cs v) cl len)) = min len (length cl * cs v)"
  using arg_cong [where f = length, OF coalesce_bytes [OF assms, of undefined len]] by (simp add: length_xbytes)

lemma coalesce_chain:
  assumes "ok v" "\<forall>c \<in> set (take n cl). off v c \<noteq> None" "len \<le> length (take n cl) * cs v"
  shows "xbytes md (coalesce_clusters (off v) (cs v) (take n cl) len) = take len (chain_bytes md v cl)"
    and "sum_list (map ex_len (coalesce_clusters (off v) (cs v) (take n cl) len)) = len"
proof -
  have "xbytes md (coalesce_clusters (off v) (cs v) (take n cl) len) = take len (chain_bytes md v (take n cl))"
    by (rule coalesce_bytes [OF assms(1,2)])
  also have "\<dots> = take len (chain_bytes md v cl)"
    using chain_bytes_append [of md v "take n cl" "drop n cl"] assms(3) by simp
  finally show "xbytes md (coalesce_clusters (off v) (cs v) (take n cl) len) = take len (chain_bytes md v cl)" .
  show "sum_list (map ex_len (coalesce_clusters (off v) (cs v) (take n cl) len)) = len"
    using coalesce_sum [OF assms(1,2), of len] assms(3) by simp
qed

lemma cut_extents_mem:
  assumes "e \<in> set (cut_extents len es)"
  shows "\<exists>f \<in> set es. ex_off e = ex_off f \<and> ex_len e \<le> ex_len f \<and> 0 < ex_len e"
  using assms by (auto simp: cut_extents_def Let_def split: if_splits dest: in_set_butlastD)

lemma coalesce_inside:
  assumes "ok v" "\<forall>c \<in> set cl. off v c \<noteq> None" "e \<in> set (coalesce_clusters (off v) (cs v) cl len)"
  shows "0 < ex_len e \<and> ex_off e + ex_len e \<le> limit v"
proof -
  obtain used where u: "built undefined v len used (run_clusters (off v) (cs v) cl (run_start len))"
    using built_loop [OF assms(1) built_start assms(2)] by blast
  obtain f where f: "f \<in> set (run_flush (run_clusters (off v) (cs v) cl (run_start len)))" "ex_off e = ex_off f" "ex_len e \<le> ex_len f" "0 < ex_len e"
    using cut_extents_mem assms(3) unfolding coalesce_clusters_def by blast
  have "ex_off f + ex_len f \<le> limit v" using u f(1) by (auto simp: built_def list_all_iff)
  then show ?thesis using f by simp
qed

end

section \<open>Following a chain\<close>

text \<open>The clusters met by following \<open>next\<close>, all of them valid, until it stops.\<close>

fun linked_by :: "(nat \<Rightarrow> nat option) \<Rightarrow> (nat \<Rightarrow> bool) \<Rightarrow> nat list \<Rightarrow> bool" where
  "linked_by nx valid [] \<longleftrightarrow> False"
| "linked_by nx valid [c] \<longleftrightarrow> valid c \<and> nx c = None"
| "linked_by nx valid (c # d # r) \<longleftrightarrow> valid c \<and> nx c = Some d \<and> linked_by nx valid (d # r)"

lemma linked_by_valid: "linked_by nx valid cl \<Longrightarrow> c \<in> set cl \<Longrightarrow> valid c"
  by (induction nx valid cl rule: linked_by.induct) auto

lemma linked_by_unique: "linked_by nx valid (c # r) \<Longrightarrow> linked_by nx valid (c # s) \<Longrightarrow> r = s"
proof (induction r arbitrary: c s)
  case Nil
  then show ?case by (cases s) auto
next
  case (Cons d r)
  then show ?case by (cases s) auto
qed

lemma linked_by_drop: "linked_by nx valid cl \<Longrightarrow> i < length cl \<Longrightarrow> linked_by nx valid (drop i cl)"
proof (induction nx valid cl arbitrary: i rule: linked_by.induct)
  case (3 nx valid c d r)
  then show ?case by (cases i) auto
qed auto

text \<open>A chain that stops does not loop.\<close>

lemma linked_by_distinct:
  assumes "linked_by nx valid cl"
  shows "distinct cl"
proof -
  have "cl ! i \<noteq> cl ! j" if ij: "i < j" "j < length cl" for i j
  proof
    assume eq: "cl ! i = cl ! j"
    have "linked_by nx valid (cl ! i # drop (Suc i) cl)" "linked_by nx valid (cl ! j # drop (Suc j) cl)"
      using linked_by_drop [OF assms] ij by (simp_all add: Cons_nth_drop_Suc)
    then have "drop (Suc i) cl = drop (Suc j) cl" using eq linked_by_unique by metis
    then have "length cl - Suc i = length cl - Suc j" by (metis length_drop)
    then show False using ij by linarith
  qed
  then show ?thesis unfolding distinct_conv_nth by (metis nat_neq_iff)
qed

locale chain_walk =
  fixes nx :: "'v \<Rightarrow> nat \<Rightarrow> nat option"
    and valid :: "'v \<Rightarrow> nat \<Rightarrow> bool"
    and loop :: "'v \<Rightarrow> nat \<Rightarrow> nat \<Rightarrow> nat list"
    and bound :: "'v \<Rightarrow> nat"
  assumes loop_0: "loop v 0 c = []"
    and loop_Suc: "loop v (Suc n) c = (if valid v c then c # (case nx v c of None \<Rightarrow> [] | Some d \<Rightarrow> loop v n d) else [])"
    and valid_bound: "valid v c \<Longrightarrow> c < bound v"
begin

lemma loop_valid: "c \<in> set (loop v n first) \<Longrightarrow> valid v c"
  by (induction n arbitrary: first) (auto simp: loop_0 loop_Suc split: if_splits option.splits)

lemma loop_length: "length (loop v n first) \<le> n"
  by (induction n arbitrary: first) (auto simp: loop_0 loop_Suc split: option.splits)

lemma linked_length:
  assumes "linked_by (nx v) (valid v) cl"
  shows "length cl \<le> bound v"
proof -
  have "set cl \<subseteq> {..<bound v}" using linked_by_valid [OF assms] valid_bound by auto
  then have "card (set cl) \<le> bound v" using card_mono [of "{..<bound v}"] by fastforce
  then show ?thesis using distinct_card [OF linked_by_distinct [OF assms]] by simp
qed

lemma loop_linked: "linked_by (nx v) (valid v) (c # r) \<Longrightarrow> loop v n c = take n (c # r)"
proof (induction r arbitrary: c n)
  case Nil
  then show ?case by (cases n) (auto simp: loop_0 loop_Suc)
next
  case (Cons d r)
  then show ?case by (cases n) (auto simp: loop_0 loop_Suc)
qed

text \<open>With the cap of the engines, a chain is followed up to the limit asked for.\<close>

lemma capped_linked:
  assumes "linked_by (nx v) (valid v) cl" "0 < limit"
  shows "loop v (max (min limit (bound v)) 1) (hd cl) = take limit cl"
proof -
  obtain c r where cl: "cl = c # r" using assms(1) by (cases cl) auto
  have len: "length cl \<le> bound v" by (rule linked_length [OF assms(1)])
  have "loop v (max (min limit (bound v)) 1) (hd cl) = take (max (min limit (bound v)) 1) cl"
    using loop_linked assms(1) unfolding cl by simp
  also have "\<dots> = take limit cl" using len assms(2) by (cases "limit \<le> bound v") auto
  finally show ?thesis .
qed

end

text \<open>The clusters a file needs are within the limit asked for.\<close>

lemma enough_clusters:
  assumes "0 < cs" "len \<le> length cl * cs" "length cl \<le> u64_max"
  shows "len \<le> length (take (sat_add64 (div_ceil len cs) 2) cl) * cs"
proof (cases "length cl \<le> sat_add64 (div_ceil len cs) 2")
  case False
  let ?n = "sat_add64 (div_ceil len cs) 2"
  have need: "len \<le> div_ceil len cs * cs" by (rule div_ceil_lower [OF assms(1)])
  have "div_ceil len cs + 2 \<le> u64_max" using False assms(3) by (auto simp: sat_add64_def)
  then have "div_ceil len cs * cs \<le> ?n * cs" by (intro mult_le_mono1) (simp add: sat_add64_def)
  then have "len \<le> ?n * cs" using need by (rule order_trans [rotated])
  moreover have "length (take ?n cl) = ?n" using False by simp
  ultimately show ?thesis by (simp only:)
qed (use assms in simp)

end
