(* ===== verification/Fat.thy ===== *)
theory Fat
  imports ClusterRuns
begin

text \<open>
  The FAT12/16/32 engine (\<^verbatim>\<open>crates/fs-fat/src/lib.rs\<close>): the boot sector and the geometry it gives, the
  file allocation table and cluster chains, the extents of a file, short and long names, the walk over
  the directory tree. The 32- and 64-bit computations on the geometry cannot wrap, which
  \<open>FatFacts\<close> shows, and are written over the natural numbers.
\<close>

unbundle bit_operations_syntax

section \<open>The boot sector\<close>

definition fat_deleted :: byte where "fat_deleted = 0xE5"
definition fat_max_dir_bytes :: nat where "fat_max_dir_bytes = 8 * 1024 * 1024"
definition fat_max_cache :: nat where "fat_max_cache = 64 * 1024 * 1024"
definition attr_lfn :: byte where "attr_lfn = 0x0F"
definition attr_directory :: byte where "attr_directory = 0x10"
definition attr_volume_id :: byte where "attr_volume_id = 0x08"

datatype fat_kind = Fat12 | Fat16 | Fat32

definition fat_label :: "fat_kind \<Rightarrow> string" where
  "fat_label k = (case k of Fat12 \<Rightarrow> ''fat12'' | Fat16 \<Rightarrow> ''fat16'' | Fat32 \<Rightarrow> ''fat32'')"

definition fat_eoc :: "fat_kind \<Rightarrow> nat" where
  "fat_eoc k = (case k of Fat12 \<Rightarrow> 0x0FF8 | Fat16 \<Rightarrow> 0xFFF8 | Fat32 \<Rightarrow> 0x0FFFFFF8)"

definition fat_mask :: "fat_kind \<Rightarrow> nat" where
  "fat_mask k = (case k of Fat12 \<Rightarrow> 0x0FFF | Fat16 \<Rightarrow> 0xFFFF | Fat32 \<Rightarrow> 0x0FFFFFFF)"

record bpb =
  bp_bytes_per_sector :: nat
  bp_sectors_per_cluster :: nat
  bp_reserved :: nat
  bp_num_fats :: nat
  bp_root_entries :: nat
  bp_total_sectors :: nat
  bp_fat_size :: nat
  bp_root_cluster :: nat
  bp_serial :: nat

definition parse_bpb :: "bytes \<Rightarrow> bpb option" where
  "parse_bpb boot =
     (let bytes_per_sector = le16_or_0 boot 11;
          sectors_per_cluster = unat (byte_or_0 boot 13);
          reserved = le16_or_0 boot 14;
          num_fats = unat (byte_or_0 boot 16);
          root_entries = le16_or_0 boot 17;
          tot16 = le16_or_0 boot 19;
          tot32 = le32_or_0 boot 32;
          total_sectors = (if tot16 \<noteq> 0 then tot16 else tot32);
          fat16 = le16_or_0 boot 22;
          fat32 = le32_or_0 boot 36;
          fat_size = (if fat16 \<noteq> 0 then fat16 else fat32);
          serial = (if fat16 \<noteq> 0 then le32_or_0 boot 39 else le32_or_0 boot 67)
      in if bytes_per_sector \<notin> {512, 1024, 2048, 4096} then None
         else if sectors_per_cluster \<notin> {1, 2, 4, 8, 16, 32, 64, 128} then None
         else if reserved = 0 then None
         else if num_fats = 0 \<or> 2 < num_fats then None
         else if total_sectors = 0 \<or> fat_size = 0 then None
         else Some \<lparr>bp_bytes_per_sector = bytes_per_sector, bp_sectors_per_cluster = sectors_per_cluster, bp_reserved = reserved,
           bp_num_fats = num_fats, bp_root_entries = root_entries, bp_total_sectors = total_sectors, bp_fat_size = fat_size,
           bp_root_cluster = le32_or_0 boot 44, bp_serial = serial\<rparr>)"

definition root_dir_sectors :: "bpb \<Rightarrow> nat" where
  "root_dir_sectors b = div_ceil (bp_root_entries b * 32) (bp_bytes_per_sector b)"

definition first_data_sector :: "bpb \<Rightarrow> nat" where
  "first_data_sector b = bp_reserved b + bp_num_fats b * bp_fat_size b + root_dir_sectors b"

definition classify :: "bpb \<Rightarrow> fat_kind \<times> nat" where
  "classify b =
     (let data_sectors = bp_total_sectors b - first_data_sector b;
          count = data_sectors div bp_sectors_per_cluster b
      in (if count < 4085 then Fat12 else if count < 65525 then Fat16 else Fat32, count))"

definition boot_signature :: "bytes \<Rightarrow> bool" where
  "boot_signature boot \<longleftrightarrow> get_slice boot 510 512 = Some [0x55, 0xAA]"

definition read_label :: "bytes \<Rightarrow> fat_kind \<Rightarrow> ustring option" where
  "read_label boot k =
     (let off = (if k = Fat32 then 71 else 43) in
      case get_slice boot off (off + 11) of
        None \<Rightarrow> None
      | Some raw \<Rightarrow> let s = trim_end (utf8_lossy raw) in if s = [] \<or> s = ustr ''NO NAME'' then None else Some s)"

definition fat_probe :: "source \<Rightarrow> probe option" where
  "fat_probe src =
     (let boot = fs_read src 0 512 in
      if \<not> boot_signature boot then None
      else case parse_bpb boot of
          None \<Rightarrow> None
        | Some b \<Rightarrow>
            let kc = classify b in
            if get_slice boot 3 11 = Some (map of_char ''NTFS    '') \<or> get_slice boot 3 11 = Some (map of_char ''EXFAT   '') then None
            else if snd kc = 0 then None
            else Some \<lparr>pb_fs_kind = fat_label (fst kc), pb_confidence = 90,
              pb_block_size = bp_bytes_per_sector b * bp_sectors_per_cluster b,
              pb_label = read_label boot (fst kc), pb_uuid = Some (hex8 (bp_serial b)),
              pb_total_bytes = sat_mul64 (bp_total_sectors b) (bp_bytes_per_sector b)\<rparr>)"

section \<open>An opened volume\<close>

record fat_fs =
  ff_src :: source
  ff_kind :: fat_kind
  ff_bps :: nat
  ff_cluster_size :: nat
  ff_fat_offset :: nat
  ff_fat_size :: nat
  ff_num_fats :: nat
  ff_first_data :: nat
  ff_count :: nat
  ff_root_off :: nat
  ff_root_len :: nat
  ff_root_cluster :: nat
  ff_total :: nat
  ff_serial :: nat
  ff_match :: bool
  ff_fat0 :: bytes

definition fat_mount :: "source \<Rightarrow> bpb \<Rightarrow> fat_fs" where
  "fat_mount src b =
     (let kc = classify b;
          bps = bp_bytes_per_sector b;
          fat_offset = bp_reserved b * bps;
          fat_size = bp_fat_size b * bps;
          fat0 = fs_read src fat_offset (min fat_size fat_max_cache);
          fats_match =
            (if 2 \<le> bp_num_fats b then
               let fat1 = fs_read src (fat_offset + fat_size) (min fat_size (1024 * 1024));
                   n = min (length fat1) (length fat0)
               in get_slice fat0 0 n = get_slice fat1 0 n
             else True)
      in \<lparr>ff_src = src, ff_kind = fst kc, ff_bps = bps, ff_cluster_size = bps * bp_sectors_per_cluster b, ff_fat_offset = fat_offset,
          ff_fat_size = fat_size, ff_num_fats = bp_num_fats b, ff_first_data = first_data_sector b, ff_count = snd kc,
          ff_root_off = (bp_reserved b + bp_num_fats b * bp_fat_size b) * bps, ff_root_len = root_dir_sectors b * bps,
          ff_root_cluster = bp_root_cluster b, ff_total = bp_total_sectors b * bps, ff_serial = bp_serial b, ff_match = fats_match,
          ff_fat0 = fat0\<rparr>)"

definition fat_find_bpb :: "source \<Rightarrow> fs_error + bpb" where
  "fat_find_bpb src =
     (let boot = fs_read src 0 512 in
      if parse_bpb boot \<noteq> None \<and> boot_signature boot then Inr (the (parse_bpb boot))
      else
        let bk = le16_or_0 boot 50 in
        if bk = 0 then Inl (NotThisFs ''no valid FAT BPB'')
        else
          let bps = max (le16_or_0 boot 11) 512 in
          (case parse_bpb (fs_read src (bk * bps) 512) of
             None \<Rightarrow> Inl (Corrupt ''FAT BPB + backup both bad'')
           | Some b \<Rightarrow> Inr b))"

definition fat_open :: "source \<Rightarrow> fs_error + fat_fs" where
  "fat_open src = (case fat_find_bpb src of Inl e \<Rightarrow> Inl e | Inr b \<Rightarrow> Inr (fat_mount src b))"

section \<open>Clusters\<close>

definition fat_cluster_offset :: "fat_fs \<Rightarrow> nat \<Rightarrow> nat option" where
  "fat_cluster_offset fs c =
     (if c < 2 \<or> ff_count fs + 2 \<le> c then None
      else Some ((ff_first_data fs + (c - 2) * (ff_cluster_size fs div ff_bps fs)) * ff_bps fs))"

definition fat_bytes :: "fat_fs \<Rightarrow> nat \<Rightarrow> nat \<Rightarrow> bytes" where
  "fat_bytes fs i n =
     (case get_slice (ff_fat0 fs) i (sat_add64 i n) of
        Some b \<Rightarrow> b
      | None \<Rightarrow> if i < ff_fat_size fs then fs_read (ff_src fs) (sat_add64 (ff_fat_offset fs) i) n else zeros n)"

definition fat_entry :: "fat_fs \<Rightarrow> nat \<Rightarrow> nat" where
  "fat_entry fs c =
     (case ff_kind fs of
        Fat32 \<Rightarrow> le32_or_0 (fat_bytes fs (c * 4) 4) 0 AND fat_mask Fat32
      | Fat16 \<Rightarrow> le16_or_0 (fat_bytes fs (c * 2) 2) 0
      | Fat12 \<Rightarrow>
          let b = fat_bytes fs (c + c div 2) 2;
              v = unat (byte_or_0 b 0) OR push_bit 8 (unat (byte_or_0 b 1))
          in if c AND 1 = 0 then v AND 0x0FFF else drop_bit 4 v AND 0x0FFF)"

fun fat_chain_loop :: "fat_fs \<Rightarrow> nat \<Rightarrow> nat \<Rightarrow> nat list" where
  "fat_chain_loop fs 0 cur = []"
| "fat_chain_loop fs (Suc left) cur =
     (if 2 \<le> cur \<and> cur < ff_count fs + 2 then
        cur #
        (let next = fat_entry fs cur in
         if fat_eoc (ff_kind fs) \<le> next \<or> next < 2 \<or> ff_count fs + 2 \<le> next \<or> next = cur then []
         else fat_chain_loop fs left next)
      else [])"

definition fat_chain :: "fat_fs \<Rightarrow> nat \<Rightarrow> nat \<Rightarrow> nat list" where
  "fat_chain fs first limit = fat_chain_loop fs (max (min limit (ff_count fs + 2)) 1) first"

section \<open>The allocation bitmap\<close>

definition set_packed_bit :: "nat \<Rightarrow> bytes \<Rightarrow> bytes" where
  "set_packed_bit i b = (if i div 8 < length b then b[i div 8 := b ! (i div 8) OR push_bit (i mod 8) 1] else b)"

definition fat_bitmap_len :: "fat_fs \<Rightarrow> nat" where
  "fat_bitmap_len fs =
     (let entry_bytes = (case ff_kind fs of Fat32 \<Rightarrow> 4 | Fat16 \<Rightarrow> 2 | Fat12 \<Rightarrow> 1)
      in min (min (ff_count fs) (ff_fat_size fs div entry_bytes - 2)) (128 * 1024 * 1024))"

definition fat_bitmap :: "fat_fs \<Rightarrow> bitmap option" where
  "fat_bitmap fs =
     (let n = fat_bitmap_len fs in
      if n = 0 then None
      else
        let b0 = zeros (min (div_ceil (n + 2) 8) (16 * 1024 * 1024));
            packed = fold (\<lambda>c b. if fat_entry fs c \<noteq> 0 then set_packed_bit c b else b) [2..<n + 2] b0;
            cluster0 = (case fat_cluster_offset fs 2 of Some x \<Rightarrow> x - 2 * ff_cluster_size fs | None \<Rightarrow> 0)
        in Some (bitmap_new (ff_cluster_size fs) cluster0 (n + 2) packed))"

section \<open>Directories and extents\<close>

fun fat_read_clusters :: "fat_fs \<Rightarrow> nat list \<Rightarrow> bytes \<Rightarrow> bytes" where
  "fat_read_clusters fs [] buf = buf"
| "fat_read_clusters fs (c # cs) buf =
     (case fat_cluster_offset fs c of
        None \<Rightarrow> buf
      | Some off \<Rightarrow>
          if fat_max_dir_bytes \<le> length buf then buf
          else fat_read_clusters fs cs (buf @ fs_read (ff_src fs) off (ff_cluster_size fs)))"

definition fat_read_directory :: "fat_fs \<Rightarrow> nat \<Rightarrow> bool \<Rightarrow> bytes" where
  "fat_read_directory fs first fixed_root =
     (if fixed_root then fs_read (ff_src fs) (ff_root_off fs) (min (ff_root_len fs) (16 * 1024 * 1024))
      else
        let max_clusters = sat_add64 (fat_max_dir_bytes div max (ff_cluster_size fs) 1) 1
        in fat_read_clusters fs (fat_chain fs first max_clusters) [])"

definition fat_resolve_extents :: "fat_fs \<Rightarrow> nat \<Rightarrow> nat \<Rightarrow> bool \<Rightarrow> extent list \<times> bool" where
  "fat_resolve_extents fs first len deleted =
     (if len = 0 \<or> first < 2 then ([], False)
      else
        let need = div_ceil len (ff_cluster_size fs);
            clusters = fat_chain fs first (sat_add64 need 2);
            ex = coalesce_clusters (fat_cluster_offset fs) (ff_cluster_size fs) clusters len
        in if \<not> deleted \<and> clusters \<noteq> [] \<and> ex \<noteq> [] then (ex, False)
           else case fat_cluster_offset fs first of
               None \<Rightarrow> ([], 1 < need)
             | Some start \<Rightarrow>
                 ([\<lparr>ex_off = start, ex_len = min (min len (sat_mul64 need (ff_cluster_size fs))) (ff_total fs - start)\<rparr>], 1 < need))"

definition count_nonzero :: "bytes \<Rightarrow> nat" where
  "count_nonzero b = length (filter (\<lambda>x. x \<noteq> 0) b)"

text \<open>The search over the high halves of the first cluster.\<close>

function fat_repair_loop :: "fat_fs \<Rightarrow> nat \<Rightarrow> nat \<Rightarrow> nat \<Rightarrow> nat \<Rightarrow> nat" where
  "fat_repair_loop fs lo k best best_nonzero =
     (let cand = lo OR push_bit 16 k in
      if cand < ff_count fs + 2 \<and> k < 256 then
        if fat_entry fs cand \<noteq> 0 then fat_repair_loop fs lo (k + 1) best best_nonzero
        else
          case fat_cluster_offset fs cand of
            None \<Rightarrow> fat_repair_loop fs lo (k + 1) best best_nonzero
          | Some off \<Rightarrow>
              let nz = count_nonzero (fs_read (ff_src fs) off 16) in
              if best_nonzero < nz then fat_repair_loop fs lo (k + 1) cand nz
              else fat_repair_loop fs lo (k + 1) best best_nonzero
      else best)"
  by pat_completeness auto
termination
  by (relation "measure (\<lambda>(fs, lo, k, best, nz). 256 - k)") auto

declare fat_repair_loop.simps [simp del]

definition fat_repair_first :: "fat_fs \<Rightarrow> nat \<Rightarrow> nat \<Rightarrow> nat" where
  "fat_repair_first fs hi lo =
     (let first = push_bit 16 hi OR lo in
      if ff_kind fs \<noteq> Fat32 \<or> hi \<noteq> 0 \<or> lo = 0 then first
      else if ff_count fs \<le> 0xFFFF then first
      else if (case fat_cluster_offset fs first of None \<Rightarrow> False | Some off \<Rightarrow> count_nonzero (fs_read (ff_src fs) off 16) \<noteq> 0) then first
      else fat_repair_loop fs lo 1 first 0)"

section \<open>Names\<close>

text \<open>The live short names of a directory, for the inference of lost first characters.\<close>

function sfn_loop :: "bytes \<Rightarrow> nat \<Rightarrow> bytes list" where
  "sfn_loop dir i =
     (if length dir < i + 32 then []
      else
        let ent = take 32 (drop i dir); fb = byte_or_0 ent 0; attr = byte_or_0 ent 11 in
        if fb = 0 then []
        else if attr \<noteq> attr_lfn \<and> fb \<noteq> fat_deleted \<and> fb \<noteq> 0x2E then take 11 ent # sfn_loop dir (i + 32)
        else sfn_loop dir (i + 32))"
  by pat_completeness auto
termination
  by (relation "measure (\<lambda>(dir, i). length dir + 32 - i)") auto

declare sfn_loop.simps [simp del]

definition collect_sfn_names :: "bytes \<Rightarrow> bytes list" where
  "collect_sfn_names dir = sfn_loop dir 0"

text \<open>The first characters of the siblings that agree on bytes 1 to 3, counted in order of appearance.\<close>

fun count_char :: "byte \<Rightarrow> (byte \<times> nat) list \<Rightarrow> (byte \<times> nat) list" where
  "count_char c [] = [(c, 1)]"
| "count_char c ((d, n) # r) = (if d = c then (d, n + 1) # r else (d, n) # count_char c r)"

definition sibling_counts :: "bytes \<Rightarrow> bytes list \<Rightarrow> (byte \<times> nat) list" where
  "sibling_counts deleted siblings =
     fold (\<lambda>sib counts.
         let c = byte_or_0 sib 0 in
         if get_slice sib 1 4 = get_slice deleted 1 4 \<and> c \<noteq> 0 \<and> c \<noteq> 0x20 then count_char c counts else counts)
       siblings []"

text \<open>\<^verbatim>\<open>max_by_key\<close>: the last of the greatest.\<close>

fun max_count :: "(byte \<times> nat) list \<Rightarrow> (byte \<times> nat) option \<Rightarrow> (byte \<times> nat) option" where
  "max_count [] best = best"
| "max_count (x # r) best =
     max_count r (case best of None \<Rightarrow> Some x | Some b \<Rightarrow> if snd b \<le> snd x then Some x else Some b)"

definition infer_first_char :: "bytes \<Rightarrow> bytes list \<Rightarrow> byte option" where
  "infer_first_char deleted siblings = map_option fst (max_count (sibling_counts deleted siblings) None)"

definition trim_fat :: "bytes \<Rightarrow> bool \<Rightarrow> ustring" where
  "trim_fat raw lower =
     (let trimmed = trim_end (latin1 (map (\<lambda>b. if b = 0x05 then 0xE5 else b) raw))
      in if lower then map ascii_lower trimmed else trimmed)"

definition short_name :: "bytes \<Rightarrow> bool \<Rightarrow> bytes list \<Rightarrow> ustring" where
  "short_name ent deleted siblings =
     (let raw = (case get_slice ent 0 11 of Some s \<Rightarrow> s | None \<Rightarrow> zeros 11);
          name = (if deleted then raw[0 := unwrap_or (infer_first_char raw siblings) 0x5F] else raw);
          ntres = byte_or_0 ent 12;
          base = trim_fat (take 8 name) (ntres AND 0x08 \<noteq> 0);
          ext = trim_fat (drop 8 name) (ntres AND 0x10 \<noteq> 0)
      in if ext = [] then base else base @ ustr ''.'' @ ext)"

definition lfn_chars :: "bytes \<Rightarrow> nat list" where
  "lfn_chars ent = map (le16_or_0 ent) [1, 3, 5, 7, 9, 14, 16, 18, 20, 22, 24, 28, 30]"

definition assemble_lfn :: "nat list list \<Rightarrow> ustring option" where
  "assemble_lfn lfn =
     (let units = filter (\<lambda>u. u \<noteq> 0 \<and> u \<noteq> 0xFFFF) (concat (rev lfn))
      in if lfn = [] \<or> units = [] then None else Some (utf16_lossy units))"

definition fat_date :: "nat \<Rightarrow> ustring option" where
  "fat_date date =
     (if date = 0 then None
      else
        let day = date AND 0x1F; month = drop_bit 5 date AND 0x0F; year = 1980 + (drop_bit 9 date AND 0x7F)
        in if month = 0 \<or> day = 0 \<or> 12 < month \<or> 31 < day then None else Some (ymd year month day))"

section \<open>The walk\<close>

text \<open>One directory: the long-name slots collected so far, the subdirectories to descend into, the walk.\<close>

record slot_state =
  sl_lfn :: "nat list list"
  sl_subdirs :: "(nat \<times> ustring) list"
  sl_walk :: walk

definition fat_name :: "nat list list \<Rightarrow> bytes \<Rightarrow> bool \<Rightarrow> bytes list \<Rightarrow> ustring \<times> nat" where
  "fat_name lfn ent deleted siblings =
     (let short = short_name ent deleted siblings;
          c = (if deleted \<and> short \<noteq> [] \<and> hd short = 0x5F then 70 else 90)
      in case assemble_lfn lfn of
          Some l \<Rightarrow> if l \<noteq> [] then (l, 100) else (short, c)
        | None \<Rightarrow> (short, c))"

definition child_path :: "ustring \<Rightarrow> ustring \<Rightarrow> ustring" where
  "child_path parent name = (if parent = [] then name else parent @ [slash] @ name)"

definition fat_make_entry ::
  "fat_fs \<Rightarrow> bitmap option \<Rightarrow> bytes \<Rightarrow> nat \<Rightarrow> nat \<Rightarrow> bool \<Rightarrow> bool \<Rightarrow> ustring \<times> nat \<Rightarrow> ustring \<Rightarrow> entry" where
  "fat_make_entry fs bm ent i first deleted is_dir name path =
     (let len = le32_or_0 ent 28;
          e = (new_file (push_bit 20 first OR i) (fst name) (utf8 (fst name)) (if is_dir then 0 else len)
                (if deleted then Deleted else Live))
              \<lparr>en_path := Some path, en_created := fat_date (le16_or_0 ent 16), en_modified := fat_date (le16_or_0 ent 24)\<rparr>
      in if is_dir then e\<lparr>en_kind := DirEntry, en_confidence := [snd name, 90]\<rparr>
         else
           let xs = fat_resolve_extents fs first len deleted;
               base = (if ff_match fs then [snd name] else [snd name, 90])
           in e\<lparr>en_extents := fst xs, en_contiguous_assumed := snd xs,
                en_allocated := (case bm of None \<Rightarrow> False
                  | Some b \<Rightarrow> is_offset_allocated b (case fst xs of [] \<Rightarrow> 0 | x # _ \<Rightarrow> ex_off x)),
                en_confidence := (if snd xs then base @ [80] else base)\<rparr>)"

definition fat_slot ::
  "fat_fs \<Rightarrow> walk_opts \<Rightarrow> bitmap option \<Rightarrow> ustring \<Rightarrow> bytes list \<Rightarrow> nat \<Rightarrow> bytes \<Rightarrow> slot_state \<Rightarrow> slot_state" where
  "fat_slot fs opts bm parent siblings i ent st =
     (let attr = byte_or_0 ent 11 in
      if attr = attr_lfn then st\<lparr>sl_lfn := sl_lfn st @ [lfn_chars ent]\<rparr>
      else if attr AND attr_volume_id \<noteq> 0 \<and> attr AND attr_directory = 0 then st\<lparr>sl_lfn := []\<rparr>
      else
        let deleted = (byte_or_0 ent 0 = fat_deleted);
            is_dir = (attr AND attr_directory \<noteq> 0);
            name = fat_name (sl_lfn st) ent deleted siblings;
            st = st\<lparr>sl_lfn := []\<rparr>
        in if fst name = ustr ''.'' \<or> fst name = ustr ''..'' \<or> fst name = [] then st
           else
             let hi = le16_or_0 ent 20;
                 lo = le16_or_0 ent 26;
                 first = (if deleted then fat_repair_first fs hi lo else push_bit 16 hi OR lo);
                 included = ((deleted \<and> wo_deleted opts) \<or> (\<not> deleted \<and> wo_live opts));
                 path = child_path parent (fst name);
                 st = (if included
                       then st\<lparr>sl_walk := emit (fat_make_entry fs bm ent i first deleted is_dir name path) (sl_walk st)\<rparr>
                       else st)
             in if is_dir \<and> \<not> deleted \<and> 2 \<le> first then st\<lparr>sl_subdirs := sl_subdirs st @ [(first, path)]\<rparr> else st)"

text \<open>The slots of a directory; \<open>True\<close> when the cap on entries ended it.\<close>

function fat_slots ::
  "fat_fs \<Rightarrow> walk_opts \<Rightarrow> bitmap option \<Rightarrow> ustring \<Rightarrow> bytes list \<Rightarrow> bytes \<Rightarrow> nat \<Rightarrow> slot_state \<Rightarrow> bool \<times> slot_state" where
  "fat_slots fs opts bm parent siblings dir i st =
     (if length dir < i + 32 then (False, st)
      else if wo_max opts \<le> wk_emitted (sl_walk st) then (True, st)
      else
        let ent = take 32 (drop i dir) in
        if byte_or_0 ent 0 = 0 then (False, st)
        else fat_slots fs opts bm parent siblings dir (i + 32) (fat_slot fs opts bm parent siblings i ent st))"
  by pat_completeness auto
termination
  by (relation "measure (\<lambda>(fs, opts, bm, parent, siblings, dir, i, st). length dir + 32 - i)") auto

declare fat_slots.simps [simp del]

function fat_walk_dir :: "fat_fs \<Rightarrow> walk_opts \<Rightarrow> bitmap option \<Rightarrow> nat \<Rightarrow> bool \<Rightarrow> ustring \<Rightarrow> nat \<Rightarrow> walk \<Rightarrow> walk"
  and fat_walk_subdirs :: "fat_fs \<Rightarrow> walk_opts \<Rightarrow> bitmap option \<Rightarrow> (nat \<times> ustring) list \<Rightarrow> nat \<Rightarrow> walk \<Rightarrow> walk" where
  "fat_walk_dir fs opts bm first fixed_root parent depth w =
     (if 64 < depth \<or> wo_max opts \<le> wk_emitted w then w
      else if \<not> fixed_root \<and> first \<in> wk_visited w then w
      else
        let w = (if fixed_root then w else w\<lparr>wk_visited := insert first (wk_visited w)\<rparr>);
            dir = fat_read_directory fs first fixed_root
        in (case fat_slots fs opts bm parent (collect_sfn_names dir) dir 0 \<lparr>sl_lfn = [], sl_subdirs = [], sl_walk = w\<rparr> of
              (True, st) \<Rightarrow> sl_walk st
            | (False, st) \<Rightarrow> fat_walk_subdirs fs opts bm (sl_subdirs st) (depth + 1) (sl_walk st)))"
| "fat_walk_subdirs fs opts bm [] depth w = w"
| "fat_walk_subdirs fs opts bm ((first, path) # r) depth w =
     fat_walk_subdirs fs opts bm r depth (fat_walk_dir fs opts bm first False path depth w)"
  by pat_completeness auto
termination
  by (relation "measures
      [\<lambda>x. case x of Inl (fs, opts, bm, first, fx, parent, depth, w) \<Rightarrow> 66 - depth | Inr (fs, opts, bm, ds, depth, w) \<Rightarrow> 66 - depth,
       \<lambda>x. case x of Inl _ \<Rightarrow> 0 | Inr (fs, opts, bm, ds, depth, w) \<Rightarrow> Suc (length ds)]") auto

declare fat_walk_dir.simps [simp del]

definition fat_walk :: "fat_fs \<Rightarrow> walk_opts \<Rightarrow> walk" where
  "fat_walk fs opts =
     (let fixed_root = (ff_kind fs \<noteq> Fat32);
          root = (if fixed_root then 0 else ff_root_cluster fs)
      in fat_walk_dir fs opts (fat_bitmap fs) root fixed_root [] 0 walk_start)"

end
