(* ===== verification/FatFacts.thy ===== *)
theory FatFacts
  imports Fat
begin

text \<open>
  Facts about the FAT engine: the geometry of an opened volume, cluster chains, extents, the allocation
  bitmap, long names, and the invariant of the walk.
\<close>

section \<open>Geometry\<close>

text \<open>What mounting a volume establishes.\<close>

definition fat_wf :: "fat_fs \<Rightarrow> bool" where
  "fat_wf fs \<longleftrightarrow> 0 < ff_bps fs \<and> 0 < ff_cluster_size fs \<and> ff_cluster_size fs mod ff_bps fs = 0 \<and>
     (0 < ff_count fs \<longrightarrow>
        (ff_first_data fs + ff_count fs * (ff_cluster_size fs div ff_bps fs)) * ff_bps fs \<le> ff_total fs)"

lemma le16_or_0_bound: "le16_or_0 b off < 65536"
  by (auto simp: le16_or_0_def unwrap_or_def dest: le_u16_bound split: option.split)

lemma le32_or_0_bound: "le32_or_0 b off < 4294967296"
  by (auto simp: le32_or_0_def unwrap_or_def dest: le_u32_bound split: option.split)

lemma if_None_Some: "(if c then None else x) = Some y \<longleftrightarrow> \<not> c \<and> x = Some y"
  by simp

lemma parse_bpb_ok:
  assumes "parse_bpb boot = Some b"
  shows "bp_bytes_per_sector b \<in> {512, 1024, 2048, 4096}" "bp_sectors_per_cluster b \<in> {1, 2, 4, 8, 16, 32, 64, 128}"
    "0 < bp_reserved b" "1 \<le> bp_num_fats b \<and> bp_num_fats b \<le> 2" "0 < bp_total_sectors b" "0 < bp_fat_size b"
  using assms unfolding parse_bpb_def Let_def if_None_Some by (auto simp del: insert_iff)

lemma fat_mount_wf:
  assumes "parse_bpb boot = Some b"
  shows "fat_wf (fat_mount src b)"
proof -
  let ?bps = "bp_bytes_per_sector b" and ?spc = "bp_sectors_per_cluster b"
  have pos: "0 < ?bps" "0 < ?spc" using parse_bpb_ok [OF assms] by auto
  let ?data = "bp_total_sectors b - first_data_sector b"
  have "(first_data_sector b + ?data div ?spc * ?spc) * ?bps \<le> bp_total_sectors b * ?bps" if "0 < ?data div ?spc"
  proof (rule mult_le_mono1)
    have "?data div ?spc * ?spc \<le> ?data" by simp
    moreover have "0 < ?data" using that by (cases "?data = 0") auto
    ultimately show "first_data_sector b + ?data div ?spc * ?spc \<le> bp_total_sectors b" by linarith
  qed
  then show ?thesis using pos by (simp add: fat_wf_def fat_mount_def Let_def classify_def)
qed

lemma fat_open_mount:
  assumes "fat_open src = Inr fs"
  obtains boot b where "parse_bpb boot = Some b" "fs = fat_mount src b"
  using assms by (auto simp: fat_open_def fat_find_bpb_def Let_def split: sum.splits option.splits if_splits)

lemma fat_open_wf: "fat_open src = Inr fs \<Longrightarrow> fat_wf fs"
  by (metis fat_open_mount fat_mount_wf)

lemma fat_open_src: "fat_open src = Inr fs \<Longrightarrow> ff_src fs = src"
  by (erule fat_open_mount) (simp add: fat_mount_def Let_def)

section \<open>Chains\<close>

text \<open>Where the table sends a chain after a cluster, \<^const>\<open>None\<close> at its end.\<close>

definition fat_next :: "fat_fs \<Rightarrow> nat \<Rightarrow> nat option" where
  "fat_next fs c =
     (let n = fat_entry fs c in
      if fat_eoc (ff_kind fs) \<le> n \<or> n < 2 \<or> ff_count fs + 2 \<le> n \<or> n = c then None else Some n)"

definition fat_valid :: "fat_fs \<Rightarrow> nat \<Rightarrow> bool" where
  "fat_valid fs c \<longleftrightarrow> 2 \<le> c \<and> c < ff_count fs + 2"

interpretation fatc: chain_walk fat_next fat_valid fat_chain_loop "\<lambda>fs. ff_count fs + 2"
  by unfold_locales (auto simp: fat_next_def fat_valid_def Let_def)

interpretation fat: cluster_volume fat_cluster_offset ff_cluster_size ff_total fat_chain fat_wf
proof (unfold_locales, goal_cases)
  case (1 v c x y)
  let ?spc = "ff_cluster_size v div ff_bps v"
  have cs: "?spc * ff_bps v = ff_cluster_size v" using 1(1) by (simp add: fat_wf_def) (metis div_mod_decomp add_0_right)
  have "2 \<le> c" "x = (ff_first_data v + (c - 2) * ?spc) * ff_bps v" "y = (ff_first_data v + (Suc c - 2) * ?spc) * ff_bps v"
    using 1(2,3) by (auto simp: fat_cluster_offset_def split: if_splits)
  moreover from this obtain k where "c = k + 2" by (metis le_add_diff_inverse2)
  ultimately have "x = (ff_first_data v + k * ?spc) * ff_bps v" "y = (ff_first_data v + (k + 1) * ?spc) * ff_bps v" by simp_all
  then have "y = x + ?spc * ff_bps v" by (simp add: algebra_simps)
  then show ?case unfolding cs .
next
  case (2 c v first n)
  then show ?case using fatc.loop_valid by (fastforce simp: fat_chain_def fat_valid_def fat_cluster_offset_def)
next
  case (3 v c x)
  let ?spc = "ff_cluster_size v div ff_bps v"
  have cs: "?spc * ff_bps v = ff_cluster_size v" using 3(1) by (simp add: fat_wf_def) (metis div_mod_decomp add_0_right)
  have c: "2 \<le> c" "c - 2 + 1 \<le> ff_count v" "x = (ff_first_data v + (c - 2) * ?spc) * ff_bps v"
    using 3(2) by (auto simp: fat_cluster_offset_def split: if_splits)
  have "x + ?spc * ff_bps v = (ff_first_data v + (c - 2 + 1) * ?spc) * ff_bps v"
    unfolding c(3) by (simp add: algebra_simps)
  then have "x + ff_cluster_size v = (ff_first_data v + (c - 2 + 1) * ?spc) * ff_bps v" unfolding cs .
  also have "\<dots> \<le> (ff_first_data v + ff_count v * ?spc) * ff_bps v"
    using c(2) by (intro mult_le_mono1 add_left_mono)
  also have "\<dots> \<le> ff_total v" using 3(1) c(2) by (simp add: fat_wf_def)
  finally show ?case .
qed

lemma fat_chain_linked: "linked_by (fat_next fs) (fat_valid fs) cl \<Longrightarrow> 0 < limit \<Longrightarrow> fat_chain fs (hd cl) limit = take limit cl"
  unfolding fat_chain_def by (rule fatc.capped_linked)

section \<open>Extents\<close>

lemma fat_resolve_inside:
  assumes "fat_wf fs"
  shows "(\<forall>e \<in> set (fst (fat_resolve_extents fs first len deleted)). ex_off e + ex_len e \<le> ff_total fs) \<and>
    sum_list (map ex_len (fst (fat_resolve_extents fs first len deleted))) \<le> len"
proof -
  let ?n = "sat_add64 (div_ceil len (ff_cluster_size fs)) 2"
  have off: "\<forall>c \<in> set (fat_chain fs first ?n). fat_cluster_offset fs c \<noteq> None" using fat.chain_off by blast
  have chained: "\<forall>e \<in> set (coalesce_clusters (fat_cluster_offset fs) (ff_cluster_size fs) (fat_chain fs first ?n) len).
      ex_off e + ex_len e \<le> ff_total fs"
    using fat.coalesce_inside [OF assms off] by blast
  have sum: "sum_list (map ex_len (coalesce_clusters (fat_cluster_offset fs) (ff_cluster_size fs) (fat_chain fs first ?n) len)) \<le> len"
    using fat.coalesce_sum [OF assms off, of len] by simp
  show ?thesis
  proof (cases "fat_cluster_offset fs first")
    case None
    then show ?thesis using chained sum by (auto simp: fat_resolve_extents_def Let_def)
  next
    case (Some x)
    then have "x \<le> ff_total fs" using fat.off_inside [OF assms Some] by simp
    then show ?thesis using Some chained sum by (auto simp: fat_resolve_extents_def Let_def)
  qed
qed

lemma fat_chain_hd: "fat_chain fs first n \<noteq> [] \<longleftrightarrow> fat_cluster_offset fs first \<noteq> None"
proof -
  obtain k where "max (min n (ff_count fs + 2)) 1 = Suc k" by (metis Suc_pred' max.strict_coboundedI2 zero_less_one)
  then show ?thesis by (auto simp: fat_chain_def fat_cluster_offset_def)
qed

text \<open>The computations on the geometry stay below \<^verbatim>\<open>u32\<close> and \<^verbatim>\<open>u64\<close>.\<close>

lemma parse_bpb_bounds:
  assumes "parse_bpb boot = Some b"
  shows "bp_reserved b < 2 ^ 16" "bp_root_entries b < 2 ^ 16" "bp_total_sectors b < 2 ^ 32" "bp_fat_size b < 2 ^ 32"
proof -
  have "le16_or_0 boot k < 4294967296" for k using le16_or_0_bound [of boot k] by simp
  then show "bp_reserved b < 2 ^ 16" "bp_root_entries b < 2 ^ 16" "bp_total_sectors b < 2 ^ 32" "bp_fat_size b < 2 ^ 32"
    using assms le16_or_0_bound [of boot] le32_or_0_bound [of boot] unfolding parse_bpb_def Let_def if_None_Some
    by (auto simp del: insert_iff)
qed

lemma first_data_sector_bound:
  assumes "parse_bpb boot = Some b"
  shows "first_data_sector b < 2 ^ 34"
proof -
  note bd = parse_bpb_bounds [OF assms]
  have n: "bp_num_fats b * bp_fat_size b \<le> 2 * bp_fat_size b" using parse_bpb_ok(4) [OF assms] by simp
  have "root_dir_sectors b \<le> bp_root_entries b * 32 + 1"
    unfolding root_dir_sectors_def div_ceil_def using div_le_dividend [of "bp_root_entries b * 32" "bp_bytes_per_sector b"]
    by (simp del: div_le_dividend) 
  then have "first_data_sector b \<le> 2 ^ 16 + 2 * 2 ^ 32 + (2 ^ 16 * 32 + 1)"
    using bd n unfolding first_data_sector_def by linarith
  then show ?thesis by simp
qed

text \<open>So no sum or product the engine forms on an opened volume wraps.\<close>

lemma fat_no_wrap:
  assumes "parse_bpb boot = Some b" "c < snd (classify b) + 2"
  shows "snd (classify b) + 2 < 2 ^ 32"
    and "(first_data_sector b + (c - 2) * bp_sectors_per_cluster b) * bp_bytes_per_sector b < 2 ^ 64"
    and "bp_fat_size b * bp_bytes_per_sector b < 2 ^ 64"
proof -
  note ok = parse_bpb_ok [OF assms(1)] and bd = parse_bpb_bounds [OF assms(1)]
  let ?data = "bp_total_sectors b - first_data_sector b" and ?spc = "bp_sectors_per_cluster b"
  have count: "snd (classify b) = ?data div ?spc" by (simp add: classify_def Let_def)
  have n: "bp_fat_size b \<le> bp_num_fats b * bp_fat_size b" using ok(4) by auto
  have fd: "2 \<le> first_data_sector b" unfolding first_data_sector_def using n ok(3,6) by linarith
  have "?data div ?spc \<le> ?data" by simp
  moreover have "?data + 2 < 2 ^ 32" using bd(3) fd by (cases "bp_total_sectors b \<le> first_data_sector b") simp_all
  ultimately show "snd (classify b) + 2 < 2 ^ 32" unfolding count by linarith
  have "c - 2 \<le> ?data div ?spc" using assms(2) count by simp
  then have "(c - 2) * ?spc \<le> ?data" using mult_le_mono1 [of "c - 2" "?data div ?spc" ?spc] div_times_less_eq_dividend [of ?data ?spc] by linarith
  then have sum: "first_data_sector b + (c - 2) * ?spc < 2 ^ 34 + 2 ^ 32"
    using first_data_sector_bound [OF assms(1)] bd(3) by linarith
  have bps: "bp_bytes_per_sector b \<le> 4096" using ok(1) by auto
  have "(first_data_sector b + (c - 2) * ?spc) * bp_bytes_per_sector b \<le> (2 ^ 34 + 2 ^ 32) * 4096"
    using sum bps by (intro mult_le_mono) simp_all
  then show "(first_data_sector b + (c - 2) * ?spc) * bp_bytes_per_sector b < 2 ^ 64" by simp
  have "bp_fat_size b * bp_bytes_per_sector b \<le> 2 ^ 32 * 4096" using bd(4) bps by (intro mult_le_mono) simp_all
  then show "bp_fat_size b * bp_bytes_per_sector b < 2 ^ 64" by simp
qed

section \<open>The bitmap\<close>

lemma length_set_packed_bit [simp]: "length (set_packed_bit i b) = length b"
  by (simp add: set_packed_bit_def)

lemma set_packed_bit_nth:
  assumes "j div 8 < length b"
  shows "bit (set_packed_bit i b ! (j div 8)) (j mod 8) \<longleftrightarrow> (i = j) \<or> bit (b ! (j div 8)) (j mod 8)"
proof (cases "i div 8 = j div 8")
  case True
  then have "i mod 8 = j mod 8 \<longleftrightarrow> i = j" by (metis mult_div_mod_eq)
  moreover have "j mod 8 < 8" by simp
  ultimately show ?thesis using assms True
    by (auto simp: set_packed_bit_def bit_or_iff bit_exp_iff)
qed (use assms in \<open>auto simp: set_packed_bit_def\<close>)

lemma fold_packed:
  "j div 8 < length b \<Longrightarrow>
    bit (fold (\<lambda>c b. if P c then set_packed_bit c b else b) cs b ! (j div 8)) (j mod 8) \<longleftrightarrow>
      (j \<in> set cs \<and> P j) \<or> bit (b ! (j div 8)) (j mod 8)"
  by (induction cs arbitrary: b) (auto simp: set_packed_bit_nth)

lemma length_fold_packed [simp]: "length (fold (\<lambda>c b. if P c then set_packed_bit c b else b) cs b) = length b"
  by (induction cs arbitrary: b) auto

lemma fat_bitmap_fields:
  assumes "fat_bitmap fs = Some bm"
  shows "bm_block_size bm = max (ff_cluster_size fs) 1" "bm_count bm = fat_bitmap_len fs + 2"
    "bm_bits bm = fold (\<lambda>c b. if fat_entry fs c \<noteq> 0 then set_packed_bit c b else b) [2..<fat_bitmap_len fs + 2]
       (zeros (min (div_ceil (fat_bitmap_len fs + 2) 8) (16 * 1024 * 1024)))"
    "bm_base bm = (case fat_cluster_offset fs 2 of Some x \<Rightarrow> x - 2 * ff_cluster_size fs | None \<Rightarrow> 0)"
  using assms by (auto simp: fat_bitmap_def Let_def bitmap_new_def simp del: upt_Suc split: if_splits)

lemma fat_block_allocated:
  assumes bm: "fat_bitmap fs = Some bm" and c: "2 \<le> c" "c < fat_bitmap_len fs + 2" "c < 128 * 1024 * 1024"
  shows "is_block_allocated bm c \<longleftrightarrow> fat_entry fs c \<noteq> 0"
proof -
  note f = fat_bitmap_fields [OF bm]
  let ?n = "fat_bitmap_len fs + 2"
  let ?len = "min (div_ceil ?n 8) (16 * 1024 * 1024)"
  have "c div 8 < div_ceil ?n 8" using c(2) by (intro div_less_div_ceil) simp_all
  moreover have "c div 8 < 16 * 1024 * 1024" using c(3) by simp
  ultimately have len: "c div 8 < ?len" by simp
  have "bm_bits bm ! (c div 8) = fold (\<lambda>c b. if fat_entry fs c \<noteq> 0 then set_packed_bit c b else b) [2..<?n] (zeros ?len) ! (c div 8)"
    unfolding f(3) ..
  then have bit: "bit (bm_bits bm ! (c div 8)) (c mod 8) \<longleftrightarrow> fat_entry fs c \<noteq> 0"
    using fold_packed [of c "zeros ?len" "\<lambda>c. fat_entry fs c \<noteq> 0" "[2..<?n]"] len c(1,2) by (simp del: upt_Suc)
  have "length (bm_bits bm) = ?len" unfolding f(3) length_fold_packed by simp
  then have "get_at (bm_bits bm) (c div 8) = Some (bm_bits bm ! (c div 8))" using len by (simp only: get_at_def if_True)
  then show ?thesis using bit c(2) f(2) by (simp add: is_block_allocated_def)
qed

section \<open>Long names\<close>

text \<open>How a long name is stored: UTF-16 units in pieces of 13, ended by a zero and padded with
  0xFFFF, the last piece first; each piece spread over the three fields of a slot.\<close>

definition utf16_units :: "nat \<Rightarrow> nat list" where
  "utf16_units c =
     (if c < 0x10000 then [c] else [0xD800 + (c - 0x10000) div 0x400, 0xDC00 + (c - 0x10000) mod 0x400])"

definition utf16_encode :: "ustring \<Rightarrow> nat list" where
  "utf16_encode s = concat (map utf16_units s)"

definition scalar :: "nat \<Rightarrow> bool" where
  "scalar c \<longleftrightarrow> c < 0xD800 \<or> (0xE000 \<le> c \<and> c < 0x110000)"

lemma utf16_lossy_units:
  assumes "scalar c"
  shows "utf16_lossy (utf16_units c @ r) = c # utf16_lossy r"
proof (cases "c < 0x10000")
  case True
  then have "utf16_units c = [c]" "c < 0xD800 \<or> 0xDFFF < c" using assms by (auto simp: utf16_units_def scalar_def)
  then show ?thesis by simp
next
  case False
  let ?d = "c - 0x10000"
  have "?d div 0x400 < 0x400" "?d mod 0x400 < 0x400" using assms False by (auto simp: scalar_def)
  moreover have "0x10000 + (?d div 0x400 * 0x400 + ?d mod 0x400) = c" using False by (simp only: div_mult_mod_eq)
  ultimately show ?thesis using False by (simp add: utf16_units_def)
qed

lemma utf16_roundtrip: "\<forall>c \<in> set s. scalar c \<Longrightarrow> utf16_lossy (utf16_encode s) = s"
  by (induction s) (simp_all add: utf16_encode_def utf16_lossy_units)

fun lfn_pieces :: "nat list \<Rightarrow> nat list list" where
  "lfn_pieces us =
     (if length us \<le> 13 then
        (if length us = 13 then [us] else [us @ [0] @ replicate (12 - length us) 0xFFFF])
      else take 13 us # lfn_pieces (drop 13 us))"

declare lfn_pieces.simps [simp del]

definition lfn_slot :: "byte \<Rightarrow> byte \<Rightarrow> nat list \<Rightarrow> bytes" where
  "lfn_slot seq chk us =
     (let w = (\<lambda>a b. concat (map (le_bytes 2) (take (b - a) (drop a us))))
      in [seq] @ w 0 5 @ [0x0F, 0, chk] @ w 5 11 @ [0, 0] @ w 11 13)"

lemma lfn_chars_slot:
  assumes "length us = 13" "\<forall>u \<in> set us. u < 65536"
  shows "lfn_chars (lfn_slot seq chk us) = us"
proof -
  obtain a b c d e f g h i j k l m where us: "us = [a, b, c, d, e, f, g, h, i, j, k, l, m]"
    using assms(1) by (auto simp: numeral_eq_Suc length_Suc_conv)
  have v: "unat (of_nat (x mod 256) :: byte) + 256 * unat (of_nat (x div 256 mod 256) :: byte) = x" if "x < 65536" for x :: nat
    using that by (simp add: unat_of_nat)
  show ?thesis
    using assms(2) unfolding us lfn_chars_def lfn_slot_def Let_def le16_or_0_def
    by (simp add: le_u16_def get_slice_def unwrap_or_def numeral_eq_Suc [of "num.Bit0 num.One"] v)
qed

lemma lfn_pieces_shape:
  "\<forall>u \<in> set us. u < 65536 \<Longrightarrow> \<forall>p \<in> set (lfn_pieces us). length p = 13 \<and> (\<forall>u \<in> set p. u < 65536)"
proof (induction us rule: lfn_pieces.induct)
  case (1 us)
  have drop: "\<forall>u \<in> set (drop 13 us). u < 65536" and take: "\<forall>u \<in> set (take 13 us). u < 65536"
    using 1(2) by (auto dest: in_set_dropD in_set_takeD)
  show ?case
  proof (cases "length us \<le> 13")
    case True
    then show ?thesis using 1(2) by (auto simp: lfn_pieces.simps [of us])
  next
    case False
    then show ?thesis using 1(1) [OF False drop] take by (auto simp: lfn_pieces.simps [of us])
  qed
qed

lemma lfn_pieces_units:
  "\<forall>u \<in> set us. u \<noteq> 0 \<and> u \<noteq> 0xFFFF \<Longrightarrow> filter (\<lambda>u. u \<noteq> 0 \<and> u \<noteq> 0xFFFF) (concat (lfn_pieces us)) = us"
proof (induction us rule: lfn_pieces.induct)
  case (1 us)
  have keep: "filter (\<lambda>u. u \<noteq> 0 \<and> u \<noteq> 0xFFFF) us = us" using 1(2) by (simp add: filter_id_conv)
  show ?case
  proof (cases "length us \<le> 13")
    case True
    then show ?thesis using keep by (simp add: lfn_pieces.simps [of us])
  next
    case False
    have "\<forall>u \<in> set (drop 13 us). u \<noteq> 0 \<and> u \<noteq> 0xFFFF" using 1(2) by (auto dest: in_set_dropD)
    note ih = 1(1) [OF False this]
    have "filter (\<lambda>u. u \<noteq> 0 \<and> u \<noteq> 0xFFFF) (take 13 us) = take 13 us"
      using 1(2) by (auto simp: filter_id_conv dest: in_set_takeD)
    then show ?thesis using False ih by (simp add: lfn_pieces.simps [of us])
  qed
qed

lemma assemble_pieces:
  assumes "us \<noteq> []" "\<forall>u \<in> set us. u < 65536 \<and> u \<noteq> 0 \<and> u \<noteq> 0xFFFF"
  shows "assemble_lfn (map (\<lambda>p. lfn_chars (lfn_slot (q p) chk p)) (rev (lfn_pieces us))) = Some (utf16_lossy us)"
proof -
  have "map (\<lambda>p. lfn_chars (lfn_slot (q p) chk p)) (rev (lfn_pieces us)) = rev (lfn_pieces us)"
    using lfn_pieces_shape [of us] assms(2) by (intro map_idI) (simp add: lfn_chars_slot)
  moreover have "lfn_pieces us \<noteq> []" by (simp add: lfn_pieces.simps [of us])
  ultimately show ?thesis using lfn_pieces_units [of us] assms by (simp add: assemble_lfn_def)
qed

lemma utf16_encode_units: "\<forall>c \<in> set s. scalar c \<and> c \<noteq> 0 \<and> c \<noteq> 0xFFFF \<Longrightarrow> u \<in> set (utf16_encode s) \<Longrightarrow> u < 65536 \<and> u \<noteq> 0 \<and> u \<noteq> 0xFFFF"
proof -
  assume s: "\<forall>c \<in> set s. scalar c \<and> c \<noteq> 0 \<and> c \<noteq> 0xFFFF" and u: "u \<in> set (utf16_encode s)"
  then obtain c where c: "c \<in> set s" "u \<in> set (utf16_units c)" by (auto simp: utf16_encode_def)
  have ok: "scalar c" "c \<noteq> 0" "c \<noteq> 0xFFFF" using s c(1) by auto
  show ?thesis
  proof (cases "c < 0x10000")
    case True
    then show ?thesis using c ok by (simp add: utf16_units_def)
  next
    case False
    let ?d = "c - 0x10000"
    have "?d div 0x400 < 0x400" "?d mod 0x400 < 0x400" using ok False by (auto simp: scalar_def)
    then show ?thesis using c(2) False by (auto simp: utf16_units_def)
  qed
qed

section \<open>The walk\<close>

text \<open>What holds of every entry a walk reports.\<close>

definition fat_entry_ok :: "fat_fs \<Rightarrow> walk_opts \<Rightarrow> entry \<Rightarrow> bool" where
  "fat_entry_ok fs opts e \<longleftrightarrow>
     en_name e \<noteq> [] \<and> en_name e \<noteq> ustr ''.'' \<and> en_name e \<noteq> ustr ''..'' \<and>
     (\<exists>parent. en_path e = Some (child_path parent (en_name e))) \<and>
     (en_state e = Live \<and> wo_live opts \<or> en_state e = Deleted \<and> wo_deleted opts) \<and>
     (\<forall>x \<in> set (en_extents e). ex_off x + ex_len x \<le> ff_total fs) \<and>
     sum_list (map ex_len (en_extents e)) \<le> en_size e"

definition fat_walk_ok :: "fat_fs \<Rightarrow> walk_opts \<Rightarrow> walk \<Rightarrow> bool" where
  "fat_walk_ok fs opts w \<longleftrightarrow> walk_ok w \<and> wk_emitted w \<le> wo_max opts \<and> (\<forall>e \<in> set (wk_out w). fat_entry_ok fs opts e)"

lemma fat_make_entry_fields:
  "en_name (fat_make_entry fs bm ent i first deleted is_dir name path) = fst name"
  "en_path (fat_make_entry fs bm ent i first deleted is_dir name path) = Some path"
  "en_state (fat_make_entry fs bm ent i first deleted is_dir name path) = (if deleted then Deleted else Live)"
  "en_id (fat_make_entry fs bm ent i first deleted is_dir name path) = (push_bit 20 first OR i)"
  "en_kind (fat_make_entry fs bm ent i first deleted is_dir name path) = (if is_dir then DirEntry else FileEntry)"
  "en_size (fat_make_entry fs bm ent i first deleted is_dir name path) = (if is_dir then 0 else le32_or_0 ent 28)"
  "en_extents (fat_make_entry fs bm ent i first deleted is_dir name path) =
     (if is_dir then [] else fst (fat_resolve_extents fs first (le32_or_0 ent 28) deleted))"
  by (simp_all add: fat_make_entry_def new_file_def Let_def)

lemma fat_slot_cases:
  obtains (quiet) "sl_walk (fat_slot fs opts bm parent siblings i ent st) = sl_walk st"
  | (emits) first deleted is_dir name where
      "sl_walk (fat_slot fs opts bm parent siblings i ent st)
        = emit (fat_make_entry fs bm ent i first deleted is_dir name (child_path parent (fst name))) (sl_walk st)"
      "fst name \<noteq> []" "fst name \<noteq> ustr ''.''" "fst name \<noteq> ustr ''..''" "deleted \<and> wo_deleted opts \<or> \<not> deleted \<and> wo_live opts"
proof -
  let ?deleted = "byte_or_0 ent 0 = fat_deleted" and ?name = "fat_name (sl_lfn st) ent (byte_or_0 ent 0 = fat_deleted) siblings"
  show thesis
  proof (cases "sl_walk (fat_slot fs opts bm parent siblings i ent st) = sl_walk st")
    case False
    then show thesis
      using emits [of "if ?deleted then fat_repair_first fs (le16_or_0 ent 20) (le16_or_0 ent 26) else push_bit 16 (le16_or_0 ent 20) OR le16_or_0 ent 26"
          ?deleted "byte_or_0 ent 11 AND attr_directory \<noteq> 0" ?name]
      by (auto simp: fat_slot_def Let_def split: if_splits)
  qed (rule quiet)
qed

lemma fat_slot_ok:
  assumes "fat_wf fs" "fat_walk_ok fs opts (sl_walk st)" "wk_emitted (sl_walk st) < wo_max opts"
  shows "fat_walk_ok fs opts (sl_walk (fat_slot fs opts bm parent siblings i ent st))"
proof (cases rule: fat_slot_cases [of fs opts bm parent siblings i ent st])
  case (emits first deleted is_dir name)
  have "fat_entry_ok fs opts (fat_make_entry fs bm ent i first deleted is_dir name (child_path parent (fst name)))"
    using emits(2-5) fat_resolve_inside [OF assms(1), of first "le32_or_0 ent 28" deleted]
    by (auto simp: fat_entry_ok_def fat_make_entry_fields)
  then show ?thesis using assms(2,3) emits(1) by (simp add: fat_walk_ok_def)
qed (use assms in simp)

lemma fat_slots_ok:
  "fat_wf fs \<Longrightarrow> fat_walk_ok fs opts (sl_walk st) \<Longrightarrow>
    fat_walk_ok fs opts (sl_walk (snd (fat_slots fs opts bm parent siblings dir i st)))"
proof (induction fs opts bm parent siblings dir i st rule: fat_slots.induct)
  case (1 fs opts bm parent siblings dir i st)
  then show ?case
    by (subst fat_slots.simps) (simp add: Let_def fat_slot_ok)
qed

lemma fat_walk_dir_stop:
  "64 < depth \<or> wo_max opts \<le> wk_emitted w \<or> \<not> fixed_root \<and> first \<in> wk_visited w \<Longrightarrow>
    fat_walk_dir fs opts bm first fixed_root parent depth w = w"
  by (subst fat_walk_dir.simps) auto

lemma fat_walk_dir_go:
  assumes "\<not> (64 < depth \<or> wo_max opts \<le> wk_emitted w)" "\<not> (\<not> fixed_root \<and> first \<in> wk_visited w)"
    and "fat_slots fs opts bm parent (collect_sfn_names (fat_read_directory fs first fixed_root)) (fat_read_directory fs first fixed_root) 0
      \<lparr>sl_lfn = [], sl_subdirs = [], sl_walk = (if fixed_root then w else w\<lparr>wk_visited := insert first (wk_visited w)\<rparr>)\<rparr> = (b, st)"
  shows "fat_walk_dir fs opts bm first fixed_root parent depth w =
    (if b then sl_walk st else fat_walk_subdirs fs opts bm (sl_subdirs st) (depth + 1) (sl_walk st))"
  unfolding fat_walk_dir.simps [of fs opts bm first fixed_root parent depth w] Let_def if_not_P [OF assms(1)] if_not_P [OF assms(2)] assms(3)
  by (cases b) simp_all

lemma fat_walk_dir_ok:
  "fat_wf fs \<Longrightarrow> fat_walk_ok fs opts w \<Longrightarrow> fat_walk_ok fs opts (fat_walk_dir fs opts bm first fixed_root parent depth w)"
  "fat_wf fs \<Longrightarrow> fat_walk_ok fs opts w \<Longrightarrow> fat_walk_ok fs opts (fat_walk_subdirs fs opts bm ds depth w)"
proof (induction fs opts bm first fixed_root parent depth w and fs opts bm ds depth w rule: fat_walk_dir_fat_walk_subdirs.induct)
  case (1 fs opts bm first fixed_root parent depth w)
  let ?w = "if fixed_root then w else w\<lparr>wk_visited := insert first (wk_visited w)\<rparr>"
  let ?dir = "fat_read_directory fs first fixed_root"
  let ?st = "\<lparr>sl_lfn = [], sl_subdirs = [], sl_walk = ?w\<rparr>"
  show ?case
  proof (cases "64 < depth \<or> wo_max opts \<le> wk_emitted w \<or> \<not> fixed_root \<and> first \<in> wk_visited w")
    case True
    then show ?thesis using 1(3) by (simp add: fat_walk_dir_stop)
  next
    case False
    then have go: "\<not> (64 < depth \<or> wo_max opts \<le> wk_emitted w)" "\<not> (\<not> fixed_root \<and> first \<in> wk_visited w)" by blast+
    obtain b st where st: "fat_slots fs opts bm parent (collect_sfn_names ?dir) ?dir 0 ?st = (b, st)" by fastforce
    have "fat_walk_ok fs opts (sl_walk ?st)" using 1(3) by (simp add: fat_walk_ok_def)
    then have ok: "fat_walk_ok fs opts (sl_walk st)" using fat_slots_ok [OF 1(2), of opts ?st] st by (metis snd_conv)
    show ?thesis
    proof (cases b)
      case True
      then show ?thesis using ok fat_walk_dir_go [OF go st] by simp
    next
      case f: False
      have "fat_walk_ok fs opts (fat_walk_subdirs fs opts bm (sl_subdirs st) (depth + 1) (sl_walk st))"
        using 1(1) [OF go refl refl] f st ok 1(2) by simp
      then show ?thesis using f fat_walk_dir_go [OF go st] by simp
    qed
  qed
qed simp_all

text \<open>Nothing that was reported is taken back.\<close>

definition grows :: "walk \<Rightarrow> walk \<Rightarrow> bool" where
  "grows w w' \<longleftrightarrow> set (wk_out w) \<subseteq> set (wk_out w')"

lemma grows_refl [simp]: "grows w w"
  by (simp add: grows_def)

lemma grows_trans: "grows a b \<Longrightarrow> grows b c \<Longrightarrow> grows a c"
  by (auto simp: grows_def)

lemma fat_slot_grows: "grows (sl_walk st) (sl_walk (fat_slot fs opts bm parent siblings i ent st))"
  by (cases rule: fat_slot_cases [of fs opts bm parent siblings i ent st]) (auto simp: grows_def)

lemma fat_slots_grows: "grows (sl_walk st) (sl_walk (snd (fat_slots fs opts bm parent siblings dir i st)))"
proof (induction fs opts bm parent siblings dir i st rule: fat_slots.induct)
  case (1 fs opts bm parent siblings dir i st)
  then show ?case
    by (subst fat_slots.simps) (auto simp: Let_def intro: grows_trans [OF fat_slot_grows])
qed

lemma fat_walk_dir_grows:
  "grows w (fat_walk_dir fs opts bm first fixed_root parent depth w)"
  "grows w (fat_walk_subdirs fs opts bm ds depth w)"
proof (induction fs opts bm first fixed_root parent depth w and fs opts bm ds depth w rule: fat_walk_dir_fat_walk_subdirs.induct)
  case (1 fs opts bm first fixed_root parent depth w)
  let ?w = "if fixed_root then w else w\<lparr>wk_visited := insert first (wk_visited w)\<rparr>"
  let ?dir = "fat_read_directory fs first fixed_root"
  let ?st = "\<lparr>sl_lfn = [], sl_subdirs = [], sl_walk = ?w\<rparr>"
  obtain b st where st: "fat_slots fs opts bm parent (collect_sfn_names ?dir) ?dir 0 ?st = (b, st)" by fastforce
  have "grows w (sl_walk ?st)" by (simp add: grows_def)
  then have g: "grows w (sl_walk st)"
    using fat_slots_grows [of ?st fs opts bm parent "collect_sfn_names ?dir" ?dir 0] st by (metis grows_trans snd_conv)
  show ?case
  proof (cases "64 < depth \<or> wo_max opts \<le> wk_emitted w \<or> \<not> fixed_root \<and> first \<in> wk_visited w")
    case True
    then show ?thesis by (simp add: fat_walk_dir_stop)
  next
    case False
    then have go: "\<not> (64 < depth \<or> wo_max opts \<le> wk_emitted w)" "\<not> (\<not> fixed_root \<and> first \<in> wk_visited w)" by blast+
    have "grows (sl_walk st) (fat_walk_dir fs opts bm first fixed_root parent depth w)"
      using 1(1) [OF go refl refl] st fat_walk_dir_go [OF go st] by (cases b) simp_all
    then show ?thesis by (rule grows_trans [OF g])
  qed
qed (auto intro: grows_trans)

end
