(* ===== verification/FatTheorems.thy ===== *)
theory FatTheorems
  imports FatFacts
begin

text \<open>
  The properties of the FAT engine: a live file's extents hold the bytes of its cluster chain, nothing
  reaches outside the volume, the walk reports what the root directory holds and respects its cap, the
  bitmap mirrors the table, and long names survive storage and deletion.
\<close>

section \<open>Files\<close>

text \<open>C16: On a volume that opens, a live file whose chain - the clusters met by following
  the table from its first cluster until an end mark, or anything else, stops it - is long enough gets
  extents that, read in order from the medium, are exactly the first \<open>len\<close> bytes of its clusters in the
  order of the chain, wherever they lie; nothing is assumed.\<close>

theorem fat_live_exact:
  assumes "fat_open src = Inr fs" "linked_by (fat_next fs) (fat_valid fs) cl" "0 < len" "len \<le> length cl * ff_cluster_size fs"
  shows "\<exists>es. fat_resolve_extents fs (hd cl) len False = (es, False) \<and>
    sum_list (map ex_len es) = len \<and>
    xbytes md es = take len (concat (map (\<lambda>c. medium_bytes md (the (fat_cluster_offset fs c)) (ff_cluster_size fs)) cl))"
proof -
  note wf = fat_open_wf [OF assms(1)]
  let ?cs = "ff_cluster_size fs"
  let ?n = "sat_add64 (div_ceil len ?cs) 2"
  let ?es = "coalesce_clusters (fat_cluster_offset fs) ?cs (take ?n cl) len"
  have cs: "0 < ?cs" using wf by (simp add: fat_wf_def)
  have chain: "fat_chain fs (hd cl) ?n = take ?n cl" using fat_chain_linked [OF assms(2)] by (simp add: sat_add64_def)
  have off: "\<forall>c \<in> set (take ?n cl). fat_cluster_offset fs c \<noteq> None" using fat.chain_off chain by metis
  have "ff_count fs + 2 < 2 ^ 32" using assms(1) fat_no_wrap(1) [of _ _ 0]
    by (elim fat_open_mount) (fastforce simp: fat_mount_def Let_def)
  then have "length cl \<le> u64_max" using fatc.linked_length [OF assms(2)] by simp
  then have len: "len \<le> length (take ?n cl) * ?cs" by (rule enough_clusters [OF cs assms(4)])
  note es = fat.coalesce_chain [OF wf off len]
  have "?es \<noteq> []" using es(2) assms(3) by auto
  moreover have "take ?n cl \<noteq> []" using len assms(3) by (metis le_zero_eq list.size(3) mult_0 not_gr_zero)
  moreover have "cl \<noteq> []" using assms(2) by auto
  then have "2 \<le> hd cl" using linked_by_valid [OF assms(2) hd_in_set] by (simp add: fat_valid_def)
  ultimately have g: "\<not> (len = 0 \<or> hd cl < 2)" "\<not> False \<and> take ?n cl \<noteq> [] \<and> ?es \<noteq> []" using assms(3) by (simp_all only:) auto
  have "fat_resolve_extents fs (hd cl) len False = (?es, False)"
    unfolding fat_resolve_extents_def Let_def chain if_not_P [OF g(1)] if_P [OF g(2)] by (rule refl)
  then show ?thesis using es by (auto simp: fat.chain_bytes_def fat.cluster_bytes_def [abs_def])
qed

text \<open>On a volume that opens, whatever the directory says about a file - live or
  deleted, with a broken, looping or foreign chain - its extents lie inside the volume and cover at
  most its size.\<close>

theorem fat_extents_inside:
  assumes "fat_open src = Inr fs" "fat_resolve_extents fs first len deleted = (es, assumed)"
  shows "(\<forall>e \<in> set es. ex_off e + ex_len e \<le> ff_total fs) \<and> sum_list (map ex_len es) \<le> len"
  using fat_resolve_inside [OF fat_open_wf [OF assms(1)], of first len deleted] assms(2) by simp

text \<open>The allocation bitmap of an opened volume answers, for the byte offset of any
  cluster it describes, whether the cluster's entry in the table is not zero - provided the data area
  starts at least two clusters into the volume, as the anchoring of bit 0 requires.\<close>

theorem fat_bitmap_exact:
  assumes "fat_open src = Inr fs" "fat_bitmap fs = Some bm" "2 \<le> c" "c < fat_bitmap_len fs + 2" "c < 128 * 1024 * 1024"
    and "2 * ff_cluster_size fs \<le> ff_first_data fs * ff_bps fs" "i < ff_cluster_size fs"
  shows "\<exists>x. fat_cluster_offset fs c = Some x \<and> (is_offset_allocated bm (x + i) \<longleftrightarrow> fat_entry fs c \<noteq> 0)"
proof -
  note wf = fat_open_wf [OF assms(1)]
  let ?cs = "ff_cluster_size fs" and ?fd = "ff_first_data fs * ff_bps fs"
  have cs: "0 < ?cs" "?cs div ff_bps fs * ff_bps fs = ?cs"
    using wf by (auto simp: fat_wf_def)
  have count: "fat_bitmap_len fs \<le> ff_count fs" by (simp add: fat_bitmap_len_def Let_def)
  have off: "fat_cluster_offset fs k = Some (?fd + (k - 2) * ?cs)" if "2 \<le> k" "k < fat_bitmap_len fs + 2" for k
  proof -
    have "(ff_first_data fs + (k - 2) * (?cs div ff_bps fs)) * ff_bps fs = ?fd + (k - 2) * (?cs div ff_bps fs * ff_bps fs)"
      by (simp add: algebra_simps)
    then show ?thesis using that count by (simp add: fat_cluster_offset_def cs(2))
  qed
  have base: "bm_base bm = ?fd - 2 * ?cs" and bs: "bm_block_size bm = ?cs"
    using fat_bitmap_fields [OF assms(2)] off [of 2] assms(3,4) cs(1) by simp_all
  have pos: "?fd + (c - 2) * ?cs + i - (?fd - 2 * ?cs) = c * ?cs + i"
  proof -
    obtain k where "c = k + 2" using assms(3) by (metis le_add_diff_inverse2)
    then show ?thesis using assms(6) by (simp add: algebra_simps)
  qed
  have "(c * ?cs + i) div ?cs = c" using assms(7) by simp
  then have "is_offset_allocated bm (?fd + (c - 2) * ?cs + i) \<longleftrightarrow> is_block_allocated bm c"
    using pos assms(6) unfolding is_offset_allocated_def base bs by (simp only: pos) auto
  then show ?thesis using off [OF assms(3,4)] fat_block_allocated [OF assms(2-5)] by simp
qed

section \<open>Names\<close>

text \<open>A long name - any Unicode text without U+0000 and U+FFFF, stored the way
  the format stores it, in slots of 13 UTF-16 units, the last one first - is read back as it was,
  whatever the sequence bytes of the slots are: deletion, which overwrites them, does not lose it.\<close>

theorem fat_long_name_roundtrip:
  assumes "s \<noteq> []" "\<forall>c \<in> set s. scalar c \<and> c \<noteq> 0 \<and> c \<noteq> 0xFFFF"
  shows "assemble_lfn (map (\<lambda>p. lfn_chars (lfn_slot (q p) chk p)) (rev (lfn_pieces (utf16_encode s)))) = Some s"
proof -
  have "utf16_encode s \<noteq> []" using assms(1) by (cases s) (simp_all add: utf16_encode_def utf16_units_def)
  then show ?thesis
    using assemble_pieces [of "utf16_encode s"] utf16_encode_units [OF assms(2)] utf16_roundtrip [of s] assms(2) by simp
qed

theorem fat_long_name_roundtrip_witness:
  "assemble_lfn (map (\<lambda>p. lfn_chars (lfn_slot fat_deleted 7 p)) (rev (lfn_pieces (utf16_encode [0x61, 0x1F600, 0x2E, 0x62])))) =
    Some [0x61, 0x1F600, 0x2E, 0x62]"
  by (rule fat_long_name_roundtrip) (simp_all add: scalar_def)

section \<open>The walk\<close>

text \<open>C18: A walk over an opened volume reports at most \<open>max_entries\<close> entries, its statistics
  count them, and every one is named, is neither \<open>.\<close> nor \<open>..\<close>, carries a path that ends in its name,
  is of a kind the options ask for and has its extents inside the volume, within its size.\<close>

theorem fat_walk_sound:
  assumes "fat_open src = Inr fs"
  shows "walk_ok (fat_walk fs opts) \<and> length (wk_out (fat_walk fs opts)) \<le> wo_max opts \<and>
    (\<forall>e \<in> set (wk_out (fat_walk fs opts)). fat_entry_ok fs opts e)"
proof -
  have "fat_walk_ok fs opts walk_start" by (simp add: fat_walk_ok_def) (simp add: walk_start_def)
  then have "fat_walk_ok fs opts (fat_walk fs opts)"
    using fat_walk_dir_ok(1) [OF fat_open_wf [OF assms]] by (simp add: fat_walk_def Let_def)
  then show ?thesis by (simp add: fat_walk_ok_def walk_ok_def)
qed

text \<open>The run of long-name slots that ends before slot \<open>k\<close>.\<close>

definition slot_at :: "bytes \<Rightarrow> nat \<Rightarrow> bytes" where
  "slot_at dir k = take 32 (drop (32 * k) dir)"

fun lfn_run :: "bytes \<Rightarrow> nat \<Rightarrow> nat list list" where
  "lfn_run dir 0 = []"
| "lfn_run dir (Suc k) = (if byte_or_0 (slot_at dir k) 11 = attr_lfn then lfn_run dir k @ [lfn_chars (slot_at dir k)] else [])"

text \<open>A slot the walk takes for a live file or directory: before the end mark, not a long-name slot, not
  a volume label.\<close>

definition live_slot :: "bytes \<Rightarrow> nat \<Rightarrow> bool" where
  "live_slot dir j \<longleftrightarrow> 32 * j + 32 \<le> length dir \<and> (\<forall>k \<le> j. byte_or_0 (slot_at dir k) 0 \<noteq> 0) \<and>
     byte_or_0 (slot_at dir j) 0 \<noteq> fat_deleted \<and> byte_or_0 (slot_at dir j) 11 \<noteq> attr_lfn \<and>
     (byte_or_0 (slot_at dir j) 11 AND attr_volume_id = 0 \<or> byte_or_0 (slot_at dir j) 11 AND attr_directory \<noteq> 0)"

lemma fat_slot_lfn:
  "sl_lfn (fat_slot fs opts bm parent siblings i ent st) =
    (if byte_or_0 ent 11 = attr_lfn then sl_lfn st @ [lfn_chars ent] else [])"
  by (simp add: fat_slot_def Let_def)

lemma fat_slot_emitted:
  "wk_emitted (sl_walk (fat_slot fs opts bm parent siblings i ent st)) \<le> wk_emitted (sl_walk st) + 1"
  by (cases rule: fat_slot_cases [of fs opts bm parent siblings i ent st]) simp_all

lemma fat_slots_reach:
  assumes j: "32 * j + 32 \<le> length dir" "\<forall>k \<le> j. byte_or_0 (slot_at dir k) 0 \<noteq> 0"
  shows "k \<le> j \<Longrightarrow> sl_lfn st = lfn_run dir k \<Longrightarrow> wk_emitted (sl_walk st) + (j - k) < wo_max opts \<Longrightarrow>
    \<exists>st'. sl_lfn st' = lfn_run dir j \<and>
      fat_slots fs opts bm parent siblings dir (32 * k) st =
        fat_slots fs opts bm parent siblings dir (32 * j + 32) (fat_slot fs opts bm parent siblings (32 * j) (slot_at dir j) st')"
proof (induction "j - k" arbitrary: k st)
  case 0
  then have k: "k = j" by simp
  show ?case using 0 j unfolding k by (intro exI [of _ st]) (subst fat_slots.simps, simp add: slot_at_def)
next
  case (Suc n)
  let ?st = "fat_slot fs opts bm parent siblings (32 * k) (slot_at dir k) st"
  have n: "n = j - Suc k" "Suc k \<le> j" using Suc.hyps(2) by simp_all
  have len: "32 * k + 32 \<le> length dir" using n(2) j(1) by linarith
  have step: "fat_slots fs opts bm parent siblings dir (32 * k) st = fat_slots fs opts bm parent siblings dir (32 * Suc k) ?st"
    using len j(2) n(2) Suc.prems by (subst fat_slots.simps) (auto simp: slot_at_def Let_def add.commute)
  have "sl_lfn ?st = lfn_run dir (Suc k)" using Suc.prems(2) by (simp add: fat_slot_lfn)
  moreover have "wk_emitted (sl_walk ?st) + (j - Suc k) < wo_max opts"
    using fat_slot_emitted [of fs opts bm parent siblings "32 * k" "slot_at dir k" st] Suc.prems(3) n by linarith
  ultimately show ?case using Suc.hyps(1) [OF n(1) n(2)] step by metis
qed

text \<open>C17: Nothing in the root directory is missed: every live file or directory whose
  slot lies before the end mark - found under its long name when the slots before it hold one, else
  under its short name - is reported by the walk with its name as its path, its size, and the extents
  its cluster chain gives, as long as live entries are asked for, its name is not empty and no dot entry, and the cap on entries
  is above its slot number.\<close>

theorem fat_walk_finds_root:
  assumes "dir = fat_read_directory fs (if ff_kind fs = Fat32 then ff_root_cluster fs else 0) (ff_kind fs \<noteq> Fat32)"
    and "live_slot dir j" "wo_live opts" "j < wo_max opts"
    and "name = fst (fat_name (lfn_run dir j) (slot_at dir j) False (collect_sfn_names dir))"
    and "name \<noteq> []" "name \<noteq> ustr ''.''" "name \<noteq> ustr ''..''"
  shows "\<exists>e \<in> set (wk_out (fat_walk fs opts)). en_name e = name \<and> en_path e = Some name \<and> en_state e = Live \<and>
    (if byte_or_0 (slot_at dir j) 11 AND attr_directory \<noteq> 0 then en_kind e = DirEntry
     else en_kind e = FileEntry \<and> en_size e = le32_or_0 (slot_at dir j) 28 \<and>
       en_extents e = fst (fat_resolve_extents fs
         (push_bit 16 (le16_or_0 (slot_at dir j) 20) OR le16_or_0 (slot_at dir j) 26) (le32_or_0 (slot_at dir j) 28) False))"
proof -
  let ?fixed = "ff_kind fs \<noteq> Fat32" and ?root = "if ff_kind fs = Fat32 then ff_root_cluster fs else 0"
  let ?bm = "fat_bitmap fs" and ?sib = "collect_sfn_names dir"
  define w where "w = (if ?fixed then walk_start else walk_start\<lparr>wk_visited := insert ?root (wk_visited walk_start)\<rparr>)"
  let ?st = "\<lparr>sl_lfn = [], sl_subdirs = [], sl_walk = w\<rparr>"
  have em: "wk_emitted w = 0" by (simp add: w_def walk_start_def)
  have "32 * j + 32 \<le> length dir" "\<forall>k \<le> j. byte_or_0 (slot_at dir k) 0 \<noteq> 0" using assms(2) by (simp_all add: live_slot_def)
  from fat_slots_reach [OF this, of 0 ?st opts fs ?bm "[]" ?sib] obtain st where
    st: "sl_lfn st = lfn_run dir j" and
    run: "fat_slots fs opts ?bm [] ?sib dir 0 ?st =
      fat_slots fs opts ?bm [] ?sib dir (32 * j + 32) (fat_slot fs opts ?bm [] ?sib (32 * j) (slot_at dir j) st)"
    using assms(4) em by auto
  define ent where "ent = slot_at dir j"
  let ?first = "push_bit 16 (le16_or_0 ent 20) OR le16_or_0 ent 26"
  let ?e = "fat_make_entry fs ?bm ent (32 * j) ?first False (byte_or_0 ent 11 AND attr_directory \<noteq> 0)
    (fat_name (lfn_run dir j) ent False ?sib) (child_path [] name)"
  have "?e \<in> set (wk_out (sl_walk (fat_slot fs opts ?bm [] ?sib (32 * j) (slot_at dir j) st)))"
    using assms(2,3,5-8) st by (auto simp: live_slot_def fat_slot_def Let_def ent_def)
  moreover obtain b st' where fin: "fat_slots fs opts ?bm [] ?sib dir 0 ?st = (b, st')" by fastforce
  ultimately have e: "?e \<in> set (wk_out (sl_walk st'))"
    using fat_slots_grows [of "fat_slot fs opts ?bm [] ?sib (32 * j) (slot_at dir j) st" fs opts ?bm "[]" ?sib dir "32 * j + 32"] run
    by (auto simp: grows_def)
  have go: "\<not> (64 < (0::nat) \<or> wo_max opts \<le> wk_emitted walk_start)" "\<not> (\<not> ?fixed \<and> ?root \<in> wk_visited walk_start)"
    using assms(4) by (auto simp: walk_start_def)
  have "fat_walk fs opts = (if b then sl_walk st' else fat_walk_subdirs fs opts ?bm (sl_subdirs st') (0 + 1) (sl_walk st'))"
  proof -
    have "fat_walk fs opts = fat_walk_dir fs opts ?bm ?root ?fixed [] 0 walk_start"
      by (cases "ff_kind fs") (simp_all add: fat_walk_def)
    then show ?thesis using fat_walk_dir_go [OF go fin [unfolded assms(1) w_def]] by (rule trans)
  qed
  then have "grows (sl_walk st') (fat_walk fs opts)" using fat_walk_dir_grows(2) by (metis grows_refl)
  then have "?e \<in> set (wk_out (fat_walk fs opts))" using e by (auto simp: grows_def)
  then show ?thesis
    by (rule bexI [rotated]) (simp add: fat_make_entry_fields ent_def assms(5) child_path_def)
qed

section \<open>Instances\<close>

text \<open>A FAT12 volume of eight sectors: boot sector, one table, one sector of root directory with the file
  \<open>A\<close> of 700 bytes in clusters 2 and 3, and five data clusters.\<close>

definition fat_image :: "(nat \<times> bytes) list" where
  "fat_image = [(11, [0, 2, 1, 1, 0, 1, 16, 0, 8, 0]), (22, [1, 0]), (510, [0x55, 0xAA]), (515, [3, 0xF0, 0xFF]),
     (1024, [0x41, 0x20, 0x20, 0x20, 0x20, 0x20, 0x20, 0x20, 0x20, 0x20, 0x20, 0x20]), (1050, [2, 0, 0xBC, 2]), (1536, [7, 8])]"

abbreviation fat_fixture :: source where
  "fat_fixture \<equiv> medium_source (good_medium fat_image) 512 4096"

definition fat_small_bpb :: bpb where
  "fat_small_bpb = \<lparr>bp_bytes_per_sector = 512, bp_sectors_per_cluster = 1, bp_reserved = 1, bp_num_fats = 1, bp_root_entries = 16,
     bp_total_sectors = 8, bp_fat_size = 1, bp_root_cluster = 0, bp_serial = 0\<rparr>"

definition fat_small :: fat_fs where
  "fat_small = fat_mount fat_fixture fat_small_bpb"

lemma fat_fixture_read: "off + n \<le> 4096 \<Longrightarrow> fs_read fat_fixture off n = medium_bytes (good_medium fat_image) off n"
  by (rule fs_read_inside [OF fixture_presents]) (simp_all add: medium_source_def)

lemmas or_0_simps = le16_or_0_def le32_or_0_def byte_or_0_def unwrap_or_def

lemma fat_fixture_bpb: "parse_bpb (medium_bytes (good_medium fat_image) 0 512) = Some fat_small_bpb"
  by (simp add: parse_bpb_def or_0_simps medium_simps fat_image_def fat_small_bpb_def)

lemma fat_fixture_sig: "boot_signature (medium_bytes (good_medium fat_image) 0 512)"
  by (simp add: boot_signature_def medium_simps fat_image_def)

lemma fat_fixture_open: "fat_open fat_fixture = Inr fat_small"
  by (simp add: fat_open_def fat_find_bpb_def fat_fixture_read fat_fixture_bpb fat_fixture_sig fat_small_def)

lemma fat_small_fields [simp]:
  "ff_src fat_small = fat_fixture" "ff_kind fat_small = Fat12" "ff_bps fat_small = 512" "ff_cluster_size fat_small = 512"
  "ff_fat_offset fat_small = 512" "ff_fat_size fat_small = 512" "ff_first_data fat_small = 3" "ff_count fat_small = 5"
  "ff_root_off fat_small = 1024" "ff_root_len fat_small = 512" "ff_total fat_small = 4096" "ff_match fat_small"
  "ff_fat0 fat_small = medium_bytes (good_medium fat_image) 512 512"
  by (simp_all add: fat_small_def fat_mount_def Let_def fat_small_bpb_def classify_def first_data_sector_def root_dir_sectors_def
      div_ceil_def fat_fixture_read fat_max_cache_def)

lemma fat_small_entries: "fat_entry fat_small 2 = 3" "fat_entry fat_small 3 = 0xFFF"
  by (simp_all add: fat_entry_def fat_bytes_def sat_add64_def medium_simps or_0_simps medium_bytes_small fat_image_def Let_def get_at_def)

theorem fat_live_exact_witness:
  "\<exists>es. fat_resolve_extents fat_small 2 700 False = (es, False) \<and> sum_list (map ex_len es) = 700"
  using fat_live_exact [OF fat_fixture_open, of "[2, 3]" 700] fat_small_entries by (auto simp: fat_next_def fat_valid_def fat_eoc_def)

theorem fat_extents_inside_witness:
  "sum_list (map ex_len (fst (fat_resolve_extents fat_small 3 9000 True))) \<le> 9000"
  using fat_extents_inside [OF fat_fixture_open, of 3 9000 True] by (cases "fat_resolve_extents fat_small 3 9000 True") simp

theorem fat_bitmap_exact_witness:
  "\<exists>bm x. fat_bitmap fat_small = Some bm \<and> fat_cluster_offset fat_small 2 = Some x \<and> is_offset_allocated bm (x + 1)"
proof -
  have n: "fat_bitmap_len fat_small = 5" by (simp add: fat_bitmap_len_def)
  then obtain bm where "fat_bitmap fat_small = Some bm" by (simp add: fat_bitmap_def Let_def)
  then show ?thesis using fat_bitmap_exact [OF fat_fixture_open, of bm 2 1] fat_small_entries n by simp
qed

theorem fat_walk_sound_witness: "length (wk_out (fat_walk fat_small walk_opts_default)) \<le> wo_max walk_opts_default"
  using fat_walk_sound [OF fat_fixture_open, of walk_opts_default] by blast

lemma fat_small_root: "fat_read_directory fat_small 0 True = medium_bytes (good_medium fat_image) 1024 512"
  by (simp add: fat_read_directory_def fat_fixture_read)

lemma fat_small_slot: "slot_at (medium_bytes (good_medium fat_image) 1024 512) 0 = medium_bytes (good_medium fat_image) 1024 32"
  by (simp add: slot_at_def take_medium)

lemma fat_small_name: "fat_name [] (medium_bytes (good_medium fat_image) 1024 32) False sib = ([0x41], 90)"
proof -
  have "get_slice (medium_bytes (good_medium fat_image) 1024 32) 0 11 = Some [0x41, 0x20, 0x20, 0x20, 0x20, 0x20, 0x20, 0x20, 0x20, 0x20, 0x20]"
    "byte_or_0 (medium_bytes (good_medium fat_image) 1024 32) 12 = 0"
    by (simp_all add: medium_simps or_0_simps fat_image_def)
  then show ?thesis by (simp add: fat_name_def assemble_lfn_def short_name_def trim_fat_def latin1_def trim_end_def is_white_def Let_def)
qed

theorem fat_walk_finds_root_witness:
  "\<exists>e \<in> set (wk_out (fat_walk fat_small walk_opts_default)). en_path e = Some [0x41] \<and> en_size e = 700"
proof -
  let ?dir = "medium_bytes (good_medium fat_image) 1024 512"
  have live: "live_slot ?dir 0"
    by (simp add: live_slot_def fat_small_slot) (simp add: or_0_simps medium_simps fat_image_def attr_lfn_def attr_volume_id_def fat_deleted_def)
  have "le32_or_0 (medium_bytes (good_medium fat_image) 1024 32) 28 = 700"
    "byte_or_0 (medium_bytes (good_medium fat_image) 1024 32) 11 = 0x20"
    by (simp_all add: or_0_simps medium_simps fat_image_def)
  then show ?thesis
    using fat_walk_finds_root [of ?dir fat_small 0 walk_opts_default "[0x41]"] live fat_small_root
    by (auto simp: fat_small_slot fat_small_name walk_opts_default_def attr_directory_def ustr_def)
qed

end
