(* ===== verification/ExFat.thy ===== *)
theory ExFat
  imports ClusterRuns
begin

text \<open>
  The exFAT engine (\<^verbatim>\<open>crates/fs-exfat/src/lib.rs\<close>): main and backup boot sector with its checksum, the
  geometry, cluster chains, extents with and without a chain, the allocation bitmap, directory entry
  sets and the walk.
\<close>

unbundle bit_operations_syntax

section \<open>The boot sector\<close>

definition exfat_max_dir_bytes :: nat where "exfat_max_dir_bytes = 32 * 1024 * 1024"

definition exfat_magic :: "bytes \<Rightarrow> bool" where
  "exfat_magic b \<longleftrightarrow> get_slice b 3 11 = Some (map of_char ''EXFAT   '')"

definition exfat_read_boot :: "source \<Rightarrow> bytes option" where
  "exfat_read_boot src =
     (let main = fs_read src 0 512 in
      if exfat_magic main then Some main
      else map_option (\<lambda>shift. fs_read src (push_bit shift 12) 512)
        (find (\<lambda>shift. let bak = fs_read src (push_bit shift 12) 512 in
            exfat_magic bak \<and> get_at bak 108 = Some (of_nat shift)) [9, 10, 11, 12]))"

definition exfat_shifts_ok :: "nat \<Rightarrow> nat \<Rightarrow> bool" where
  "exfat_shifts_ok bps_shift spc_shift \<longleftrightarrow> 9 \<le> bps_shift \<and> bps_shift \<le> 12 \<and> bps_shift + spc_shift \<le> 25"

text \<open>The rolling checksum over the first 11 sectors, without bytes 106, 107 and 112.\<close>

definition exfat_checksum_step :: "nat \<times> byte \<Rightarrow> 32 word \<Rightarrow> 32 word" where
  "exfat_checksum_step ib c = (if fst ib = 106 \<or> fst ib = 107 \<or> fst ib = 112 then c else word_rotr 1 c + ucast (snd ib))"

definition exfat_checksum :: "bytes \<Rightarrow> 32 word" where
  "exfat_checksum region = fold exfat_checksum_step (zip [0..<length region] region) 0"

definition exfat_verify_checksum :: "source \<Rightarrow> nat \<Rightarrow> bool" where
  "exfat_verify_checksum src bps =
     (if bps = 0 \<or> 4096 < bps then False
      else le32_or_0 (fs_read src (bps * 11) 4) 0 = unat (exfat_checksum (fs_read src 0 (bps * 11))))"

function exfat_label_loop :: "bytes \<Rightarrow> nat \<Rightarrow> ustring option" where
  "exfat_label_loop dir i =
     (if length dir < i + 32 then None
      else
        let t = byte_or_0 dir i in
        if t = 0x83 then
          Some (utf16_lossy (map (\<lambda>k. le16_or_0 dir (i + 2 + k * 2)) [0..<min (unat (byte_or_0 dir (i + 1))) 11]))
        else if t = 0 then None
        else exfat_label_loop dir (i + 32))"
  by pat_completeness auto
termination
  by (relation "measure (\<lambda>(dir, i). length dir + 32 - i)") auto

declare exfat_label_loop.simps [simp del]

definition exfat_volume_label :: "source \<Rightarrow> bytes \<Rightarrow> ustring option" where
  "exfat_volume_label src boot =
     (let bps_shift = unat (byte_or_0 boot 108); spc_shift = unat (byte_or_0 boot 109) in
      if \<not> exfat_shifts_ok bps_shift spc_shift then None
      else
        let bps = push_bit bps_shift 1;
            cluster_size = push_bit spc_shift bps;
            heap = sat_mul64 (le32_or_0 boot 88) bps;
            root = le32_or_0 boot 96
        in if root < 2 \<or> cluster_size = 0 then None
           else exfat_label_loop (fs_read src (sat_add64 heap (sat_mul64 (root - 2) cluster_size)) (min cluster_size 4096)) 0)"

definition exfat_probe :: "source \<Rightarrow> probe option" where
  "exfat_probe src =
     (case exfat_read_boot src of
        None \<Rightarrow> None
      | Some boot \<Rightarrow>
          let bps_shift = unat (byte_or_0 boot 108); spc_shift = unat (byte_or_0 boot 109) in
          if \<not> exfat_magic boot then None
          else if \<not> exfat_shifts_ok bps_shift spc_shift then None
          else
            let bps = push_bit bps_shift 1
            in Some \<lparr>pb_fs_kind = ''exfat'', pb_confidence = (if exfat_verify_checksum src bps then 99 else 85),
                 pb_block_size = push_bit spc_shift bps, pb_label = exfat_volume_label src boot,
                 pb_uuid = Some (hex8 (le32_or_0 boot 100)), pb_total_bytes = sat_mul64 (le64_or_0 boot 72) bps\<rparr>)"

section \<open>An opened volume\<close>

record ex_fat =
  xf_src :: source
  xf_bps :: nat
  xf_cluster_size :: nat
  xf_fat_offset :: nat
  xf_fat_length :: nat
  xf_num_fats :: nat
  xf_heap :: nat
  xf_count :: nat
  xf_root :: nat
  xf_volume_length :: nat
  xf_serial :: nat
  xf_checksum_ok :: bool

definition exfat_mount :: "source \<Rightarrow> bytes \<Rightarrow> ex_fat" where
  "exfat_mount src boot =
     (let bps = push_bit (unat (byte_or_0 boot 108)) 1
      in \<lparr>xf_src = src, xf_bps = bps, xf_cluster_size = push_bit (unat (byte_or_0 boot 109)) bps,
          xf_fat_offset = le32_or_0 boot 80 * bps, xf_fat_length = le32_or_0 boot 84 * bps,
          xf_num_fats = max (unat (unwrap_or (get_at boot 110) 1)) 1, xf_heap = le32_or_0 boot 88 * bps, xf_count = le32_or_0 boot 92,
          xf_root = le32_or_0 boot 96, xf_volume_length = sat_mul64 (le64_or_0 boot 72) bps, xf_serial = le32_or_0 boot 100,
          xf_checksum_ok = exfat_verify_checksum src bps\<rparr>)"

definition exfat_open :: "source \<Rightarrow> fs_error + ex_fat" where
  "exfat_open src =
     (case exfat_read_boot src of
        None \<Rightarrow> Inl (NotThisFs ''no EXFAT boot signature (main or backup)'')
      | Some boot \<Rightarrow>
          if \<not> exfat_shifts_ok (unat (byte_or_0 boot 108)) (unat (byte_or_0 boot 109))
          then Inl (Corrupt ''implausible exFAT sector/cluster shift'')
          else
            let v = exfat_mount src boot in
            if xf_cluster_size v = 0 \<or> xf_root v < 2 then Inl (Corrupt ''exFAT geometry invalid'') else Inr v)"

section \<open>Clusters\<close>

definition exfat_limit :: "ex_fat \<Rightarrow> nat" where
  "exfat_limit v = min (xf_count v + 2) 0xFFFFFFFF"

definition exfat_cluster_offset :: "ex_fat \<Rightarrow> nat \<Rightarrow> nat option" where
  "exfat_cluster_offset v c =
     (if c < 2 \<or> exfat_limit v \<le> c then None
      else Some (sat_add64 (xf_heap v) (sat_mul64 (c - 2) (xf_cluster_size v))))"

definition exfat_next :: "ex_fat \<Rightarrow> nat \<Rightarrow> nat" where
  "exfat_next v c = le32_or_0 (fs_read (xf_src v) (xf_fat_offset v + c * 4) 4) 0"

fun exfat_chain_loop :: "ex_fat \<Rightarrow> nat \<Rightarrow> nat \<Rightarrow> nat list" where
  "exfat_chain_loop v 0 cur = []"
| "exfat_chain_loop v (Suc left) cur =
     (if 2 \<le> cur \<and> cur < exfat_limit v then
        cur #
        (let next = exfat_next v cur in
         if next = 0xFFFFFFFF \<or> next < 2 \<or> exfat_limit v \<le> next \<or> next = cur then []
         else exfat_chain_loop v left next)
      else [])"

definition exfat_chain :: "ex_fat \<Rightarrow> nat \<Rightarrow> nat \<Rightarrow> nat list" where
  "exfat_chain v first max_clusters = exfat_chain_loop v (max (min max_clusters (exfat_limit v)) 1) first"

definition exfat_coalesce :: "nat list \<Rightarrow> ex_fat \<Rightarrow> nat \<Rightarrow> extent list" where
  "exfat_coalesce clusters v len = coalesce_clusters (exfat_cluster_offset v) (xf_cluster_size v) clusters len"

definition exfat_contiguous :: "ex_fat \<Rightarrow> nat \<Rightarrow> nat \<Rightarrow> extent list" where
  "exfat_contiguous v first len =
     (case exfat_cluster_offset v first of
        None \<Rightarrow> []
      | Some start \<Rightarrow>
          let span = sat_mul64 (div_ceil len (xf_cluster_size v)) (xf_cluster_size v)
          in [\<lparr>ex_off = start, ex_len = min (min len span) (xf_volume_length v - start)\<rparr>])"

definition exfat_resolve_extents :: "ex_fat \<Rightarrow> nat \<Rightarrow> nat \<Rightarrow> bool \<Rightarrow> bool \<Rightarrow> extent list \<times> bool" where
  "exfat_resolve_extents v first len no_fat_chain deleted =
     (if len = 0 \<or> first < 2 then ([], False)
      else
        let need = div_ceil len (xf_cluster_size v);
            assumed = (1 < need);
            clusters = exfat_chain v first (sat_add64 need 2);
            extents = exfat_coalesce clusters v len
        in if no_fat_chain then (exfat_contiguous v first len, False)
           else if clusters = [] \<or> (deleted \<and> length clusters < need) then (exfat_contiguous v first len, assumed)
           else if extents = [] then (exfat_contiguous v first len, assumed)
           else (extents, False))"

fun exfat_read_clusters :: "ex_fat \<Rightarrow> nat list \<Rightarrow> bytes \<Rightarrow> bytes" where
  "exfat_read_clusters v [] buf = buf"
| "exfat_read_clusters v (c # cs) buf =
     (case exfat_cluster_offset v c of
        None \<Rightarrow> buf
      | Some off \<Rightarrow>
          if exfat_max_dir_bytes \<le> length buf then buf
          else exfat_read_clusters v cs (buf @ fs_read (xf_src v) off (xf_cluster_size v)))"

definition exfat_read_directory :: "ex_fat \<Rightarrow> nat \<Rightarrow> bytes option" where
  "exfat_read_directory v first =
     (let clusters = exfat_chain v first (min (sat_add64 (exfat_max_dir_bytes div max (xf_cluster_size v) 1) 1) (2 ^ 20))
      in if clusters = [] then None else Some (exfat_read_clusters v clusters []))"

text \<open>The first entry of type \<open>t\<close> before the end mark.\<close>

function exfat_find_entry :: "byte \<Rightarrow> bytes \<Rightarrow> nat \<Rightarrow> nat option" where
  "exfat_find_entry t dir i =
     (if length dir < i + 32 then None
      else if byte_or_0 dir i = t then Some i
      else if byte_or_0 dir i = 0 then None
      else exfat_find_entry t dir (i + 32))"
  by pat_completeness auto
termination
  by (relation "measure (\<lambda>(t, dir, i). length dir + 32 - i)") auto

declare exfat_find_entry.simps [simp del]

definition exfat_has_upcase :: "ex_fat \<Rightarrow> bool" where
  "exfat_has_upcase v =
     (case exfat_read_directory v (xf_root v) of
        None \<Rightarrow> False
      | Some root \<Rightarrow> exfat_find_entry 0x82 root 0 \<noteq> None)"

definition exfat_load_bitmap :: "ex_fat \<Rightarrow> bitmap option" where
  "exfat_load_bitmap v =
     (case exfat_read_directory v (xf_root v) of
        None \<Rightarrow> None
      | Some root \<Rightarrow>
          (case exfat_find_entry 0x81 root 0 of
             None \<Rightarrow> None
           | Some i \<Rightarrow>
               (case exfat_cluster_offset v (le32_or_0 root (i + 20)) of
                  None \<Rightarrow> None
                | Some start \<Rightarrow>
                    let want = min (min (le64_or_0 root (i + 24)) (div_ceil (xf_count v) 8 + 8)) (64 * 1024 * 1024)
                    in Some (bitmap_new (xf_cluster_size v) (xf_heap v) (xf_count v) (fs_read (xf_src v) start want)))))"

section \<open>Entry sets\<close>

text \<open>\<^verbatim>\<open>read_name\<close>: up to 15 units from each name entry that follows.\<close>

fun exfat_name_units :: "bytes \<Rightarrow> nat \<Rightarrow> nat \<Rightarrow> nat \<Rightarrow> nat list \<Rightarrow> nat list" where
  "exfat_name_units dir off 0 name_len units = units"
| "exfat_name_units dir off (Suc entries) name_len units =
     (if off + 32 \<le> length dir \<and> length units < name_len \<and> byte_or_0 dir off AND 0x7F = 0x41 then
        exfat_name_units dir (off + 32) entries name_len
          (units @ map (\<lambda>k. le16_or_0 dir (off + 2 + k * 2)) [0..<min 15 (name_len - length units)])
      else units)"

definition exfat_read_name :: "bytes \<Rightarrow> nat \<Rightarrow> nat \<Rightarrow> nat \<Rightarrow> ustring" where
  "exfat_read_name dir off entries name_len =
     utf16_lossy (rev (dropWhile (\<lambda>u. u = 0) (rev (exfat_name_units dir off entries name_len []))))"

definition exfat_date :: "nat \<Rightarrow> ustring option" where
  "exfat_date ts =
     (if ts = 0 then None
      else
        let date = drop_bit 16 ts mod 65536;
            day = date AND 0x1F; month = drop_bit 5 date AND 0x0F; year = 1980 + (drop_bit 9 date AND 0x7F)
        in if month = 0 \<or> day = 0 \<or> 12 < month \<or> 31 < day then None else Some (ymd year month day))"

definition exfat_path :: "ustring \<Rightarrow> ustring \<Rightarrow> ustring" where
  "exfat_path parent name = (if parent = [] then name else parent @ [slash] @ name)"

definition exfat_descends :: "ex_fat \<Rightarrow> bitmap option \<Rightarrow> bool \<Rightarrow> nat \<Rightarrow> bool" where
  "exfat_descends v bm in_use first \<longleftrightarrow>
     in_use \<or>
     (case bm of
        None \<Rightarrow> True
      | Some b \<Rightarrow> (case exfat_cluster_offset v first of None \<Rightarrow> True | Some x \<Rightarrow> \<not> is_offset_allocated b x))"

definition exfat_make_entry :: "ex_fat \<Rightarrow> bitmap option \<Rightarrow> nat \<Rightarrow> ustring \<Rightarrow> bytes \<Rightarrow> nat \<Rightarrow> ustring \<Rightarrow> entry" where
  "exfat_make_entry v bm dir_first parent dir i name =
     (let in_use = (byte_or_0 dir i AND 0x80 \<noteq> 0);
          is_dir = (le16_or_0 dir (i + 4) AND 0x10 \<noteq> 0);
          len = le64_or_0 dir (i + 32 + 24);
          first = le32_or_0 dir (i + 32 + 20);
          e = (new_file (push_bit 20 (if is_dir then dir_first else first) OR i) name (utf8 name) (if is_dir then 0 else len) (if in_use then Live else Deleted))
              \<lparr>en_path := Some (exfat_path parent name), en_created := exfat_date (le32_or_0 dir (i + 8)),
               en_modified := exfat_date (le32_or_0 dir (i + 12))\<rparr>
      in if is_dir then e\<lparr>en_kind := DirEntry, en_confidence := [if xf_checksum_ok v then 95 else 85]\<rparr>
         else
           let xs = exfat_resolve_extents v first len (byte_or_0 dir (i + 32 + 1) AND 0x02 \<noteq> 0) (\<not> in_use);
               base = (if xf_checksum_ok v then 90 else 80)
           in e\<lparr>en_extents := fst xs, en_contiguous_assumed := snd xs,
                en_allocated := (case bm of None \<Rightarrow> False
                  | Some b \<Rightarrow> is_offset_allocated b (case fst xs of [] \<Rightarrow> 0 | x # _ \<Rightarrow> ex_off x)),
                en_confidence := (if snd xs then [base, 75] else [base])\<rparr>)"

text \<open>One entry set: what is reported and where to descend.\<close>

definition exfat_set ::
  "ex_fat \<Rightarrow> walk_opts \<Rightarrow> bitmap option \<Rightarrow> nat \<Rightarrow> ustring \<Rightarrow> bytes \<Rightarrow> nat \<Rightarrow> (nat \<times> ustring) list \<times> walk \<Rightarrow> (nat \<times> ustring) list \<times> walk" where
  "exfat_set v opts bm dir_first parent dir i st =
     (let in_use = (byte_or_0 dir i AND 0x80 \<noteq> 0);
          is_dir = (le16_or_0 dir (i + 4) AND 0x10 \<noteq> 0);
          name = exfat_read_name dir (i + 32 + 32) (unat (byte_or_0 dir (i + 1)) - 1) (unat (byte_or_0 dir (i + 32 + 3)));
          first = le32_or_0 dir (i + 32 + 20);
          included = ((in_use \<and> wo_live opts) \<or> (\<not> in_use \<and> wo_deleted opts));
          e = exfat_make_entry v bm dir_first parent dir i name
      in if is_dir then
           (if 2 \<le> first \<and> exfat_descends v bm in_use first then fst st @ [(first, exfat_path parent name)] else fst st,
            if included \<and> name \<noteq> [] \<and> name \<noteq> ustr ''.'' \<and> name \<noteq> ustr ''..'' then emit e (snd st) else snd st)
         else (fst st, if included then emit e (snd st) else snd st))"

function exfat_sets ::
  "ex_fat \<Rightarrow> walk_opts \<Rightarrow> bitmap option \<Rightarrow> nat \<Rightarrow> ustring \<Rightarrow> bytes \<Rightarrow> nat \<Rightarrow> (nat \<times> ustring) list \<times> walk
     \<Rightarrow> bool \<times> (nat \<times> ustring) list \<times> walk" where
  "exfat_sets v opts bm dir_first parent dir i st =
     (if length dir < i + 32 then (False, st)
      else if wo_max opts \<le> wk_emitted (snd st) then (True, st)
      else
        let t = byte_or_0 dir i in
        if t = 0 then (False, st)
        else if t AND 0x7F = 0x05 \<and> (byte_or_0 dir (i + 32) AND 0x7F) = 0x40 then
          exfat_sets v opts bm dir_first parent dir (i + 32 * (1 + max (unat (byte_or_0 dir (i + 1))) 1))
            (exfat_set v opts bm dir_first parent dir i st)
        else exfat_sets v opts bm dir_first parent dir (i + 32) st)"
  by pat_completeness auto
termination
  by (relation "measure (\<lambda>(v, opts, bm, d, parent, dir, i, st). length dir + 32 - i)") auto

declare exfat_sets.simps [simp del]

section \<open>The walk\<close>

function exfat_walk_dir :: "ex_fat \<Rightarrow> walk_opts \<Rightarrow> bitmap option \<Rightarrow> nat \<Rightarrow> ustring \<Rightarrow> nat \<Rightarrow> walk \<Rightarrow> walk"
  and exfat_walk_subdirs :: "ex_fat \<Rightarrow> walk_opts \<Rightarrow> bitmap option \<Rightarrow> (nat \<times> ustring) list \<Rightarrow> nat \<Rightarrow> walk \<Rightarrow> walk" where
  "exfat_walk_dir v opts bm first parent depth w =
     (if 64 < depth \<or> wo_max opts \<le> wk_emitted w then w
      else if first \<in> wk_visited w then w
      else
        let w = w\<lparr>wk_visited := insert first (wk_visited w)\<rparr> in
        (case exfat_read_directory v first of
           None \<Rightarrow> w
         | Some dir \<Rightarrow>
             (case exfat_sets v opts bm first parent dir 0 ([], w) of
                (True, st) \<Rightarrow> snd st
              | (False, st) \<Rightarrow> exfat_walk_subdirs v opts bm (fst st) (depth + 1) (snd st))))"
| "exfat_walk_subdirs v opts bm [] depth w = w"
| "exfat_walk_subdirs v opts bm ((first, path) # r) depth w =
     exfat_walk_subdirs v opts bm r depth (exfat_walk_dir v opts bm first path depth w)"
  by pat_completeness auto
termination
  by (relation "measures
      [\<lambda>x. case x of Inl (v, opts, bm, first, parent, depth, w) \<Rightarrow> 66 - depth | Inr (v, opts, bm, ds, depth, w) \<Rightarrow> 66 - depth,
       \<lambda>x. case x of Inl _ \<Rightarrow> 0 | Inr (v, opts, bm, ds, depth, w) \<Rightarrow> Suc (length ds)]") auto

declare exfat_walk_dir.simps [simp del]

definition exfat_walk :: "ex_fat \<Rightarrow> walk_opts \<Rightarrow> walk" where
  "exfat_walk v opts = exfat_walk_dir v opts (exfat_load_bitmap v) (xf_root v) [] 0 walk_start"

end
