(* ===== verification/ExFatTheorems.thy ===== *)
theory ExFatTheorems
  imports ExFat
begin

text \<open>
  The properties of the exFAT engine: the checksum of the boot region notices every changed byte, a
  lost main boot sector is replaced by its backup, files with and without a chain get extents that
  hold their clusters, and the invariant of the walk.
\<close>

section \<open>The boot region\<close>

lemma rotr_inject: "word_rotr n a = word_rotr n b \<Longrightarrow> a = (b :: 32 word)"
  by (metis word_rot_lr word_rot_rl)

lemma byte_word_inject: "(ucast a :: 32 word) = ucast b \<longleftrightarrow> a = (b :: byte)"
proof
  assume "(ucast a :: 32 word) = ucast b"
  then have "unat (ucast a :: 32 word) = unat (ucast b :: 32 word)" by simp
  then show "a = b" using unat_byte_less [of a] unat_byte_less [of b] by (simp add: unsigned_ucast_eq take_bit_nat_eq_self word_unat_eq_iff)
qed simp

lemma exfat_checksum_inject:
  assumes "c \<noteq> d"
  shows "fold exfat_checksum_step xs c \<noteq> fold exfat_checksum_step xs d"
  using assms
proof (induction xs arbitrary: c d)
  case (Cons x xs)
  then have "exfat_checksum_step x c \<noteq> exfat_checksum_step x d" by (auto simp: exfat_checksum_step_def dest: rotr_inject)
  then show ?case using Cons.IH by simp
qed simp

text \<open>Whatever a boot region holds, changing one of its bytes, other than the
  three that the checksum skips, changes the checksum.\<close>

theorem exfat_checksum_detects:
  assumes "i < length region" "i \<noteq> 106" "i \<noteq> 107" "i \<noteq> 112" "region ! i \<noteq> x"
  shows "exfat_checksum (region[i := x]) \<noteq> exfat_checksum region"
proof -
  let ?z = "\<lambda>r. zip [0..<length region] r"
  have split: "?z r = take i (?z r) @ (i, r ! i) # drop (Suc i) (?z r)" if "length r = length region" for r :: bytes
    using id_take_nth_drop [of i "?z r"] assms(1) that by simp
  have same: "take i (?z (region[i := x])) = take i (?z region)" "drop (Suc i) (?z (region[i := x])) = drop (Suc i) (?z region)"
    by (simp_all add: take_zip drop_zip)
  let ?c = "fold exfat_checksum_step (take i (?z region)) 0"
  have "exfat_checksum_step (i, x) ?c \<noteq> exfat_checksum_step (i, region ! i) ?c"
    using assms(2-5) by (simp add: exfat_checksum_step_def byte_word_inject)
  then have "fold exfat_checksum_step (drop (Suc i) (?z region)) (exfat_checksum_step (i, x) ?c)
      \<noteq> fold exfat_checksum_step (drop (Suc i) (?z region)) (exfat_checksum_step (i, region ! i) ?c)"
    by (rule exfat_checksum_inject)
  then show ?thesis
    using split [of region] split [of "region[i := x]"] same assms(1)
    by (simp add: exfat_checksum_def) (metis fold_append fold_simps(2) o_apply)
qed

theorem exfat_checksum_detects_witness: "exfat_checksum [1, 2, 4] \<noteq> exfat_checksum [1, 2, 3]"
  using exfat_checksum_detects [of 2 "[1, 2, 3]" 4] by simp

text \<open>When the main boot sector has lost its signature, the volume is still
  read from the backup, 12 sectors in, for every sector size: the boot sector found is the backup,
  unless a smaller sector size already has one that fits.\<close>

theorem exfat_survives_lost_boot:
  assumes "\<not> exfat_magic (fs_read src 0 512)" "9 \<le> shift" "shift \<le> 12"
    and "exfat_magic (fs_read src (12 * 2 ^ shift) 512)" "get_at (fs_read src (12 * 2 ^ shift) 512) 108 = Some (of_nat shift)"
    and "\<forall>s. 9 \<le> s \<and> s < shift \<longrightarrow> get_at (fs_read src (12 * 2 ^ s) 512) 108 \<noteq> Some (of_nat s)"
  shows "exfat_read_boot src = Some (fs_read src (12 * 2 ^ shift) 512)"
proof -
  have p: "push_bit s 12 = 12 * 2 ^ s" for s :: nat by (simp add: push_bit_eq_mult)
  consider "shift = 9" | "shift = 10" | "shift = 11" | "shift = 12" using assms(2,3) by linarith
  then show ?thesis
    by cases (use assms(1,4,5) assms(6) [rule_format, of 9] assms(6) [rule_format, of 10] assms(6) [rule_format, of 11]
      in \<open>simp_all add: exfat_read_boot_def Let_def p\<close>)
qed

section \<open>Geometry and chains\<close>

text \<open>What opening a volume establishes; the heap ends at \<open>exfat_heap_end\<close>.\<close>

definition exfat_heap_end :: "ex_fat \<Rightarrow> nat" where
  "exfat_heap_end v = xf_heap v + xf_count v * xf_cluster_size v"

definition exfat_wf :: "ex_fat \<Rightarrow> bool" where
  "exfat_wf v \<longleftrightarrow> 0 < xf_cluster_size v \<and> exfat_heap_end v \<le> u64_max \<and> xf_count v < 2 ^ 32"

lemma le32_or_0_less: "le32_or_0 b off < 2 ^ 32"
  by (auto simp: le32_or_0_def unwrap_or_def dest: le_u32_bound split: option.split)

lemma exfat_open_wf:
  assumes "exfat_open src = Inr v"
  shows "exfat_wf v \<and> xf_src v = src"
proof -
  obtain boot where v: "v = exfat_mount src boot" and sh: "exfat_shifts_ok (unat (byte_or_0 boot 108)) (unat (byte_or_0 boot 109))"
    using assms by (auto simp: exfat_open_def Let_def split: option.splits if_splits)
  let ?s = "unat (byte_or_0 boot 108)" and ?c = "unat (byte_or_0 boot 109)"
  have s: "?s \<le> 12" "?s + ?c \<le> 25" using sh by (simp_all add: exfat_shifts_ok_def)
  have cs: "xf_cluster_size v = 2 ^ (?s + ?c)" by (simp add: v exfat_mount_def Let_def push_bit_eq_mult power_add)
  have "(2::nat) ^ (?s + ?c) \<le> 2 ^ 25" "(2::nat) ^ ?s \<le> 2 ^ 12"
    using power_increasing [OF s(2), of "2 :: nat"] power_increasing [OF s(1), of "2 :: nat"] by simp_all
  moreover have "xf_heap v = le32_or_0 boot 88 * 2 ^ ?s" by (simp add: v exfat_mount_def Let_def push_bit_eq_mult)
  ultimately have "xf_cluster_size v \<le> 2 ^ 25" "xf_heap v \<le> 2 ^ 32 * 2 ^ 12" "xf_count v < 2 ^ 32"
    using cs mult_le_mono [OF less_imp_le [OF le32_or_0_less [of boot 88]], of "2 ^ ?s" "2 ^ 12"] le32_or_0_less [of boot 92]
    by (simp_all add: v exfat_mount_def Let_def)
  moreover from this have "xf_count v * xf_cluster_size v \<le> 2 ^ 32 * 2 ^ 25" by (intro mult_le_mono) simp_all
  ultimately show ?thesis using cs by (simp add: exfat_wf_def exfat_heap_end_def) (simp add: v exfat_mount_def Let_def)
qed

definition exfat_link :: "ex_fat \<Rightarrow> nat \<Rightarrow> nat option" where
  "exfat_link v c =
     (let n = exfat_next v c in if n = 0xFFFFFFFF \<or> n < 2 \<or> exfat_limit v \<le> n \<or> n = c then None else Some n)"

definition exfat_valid :: "ex_fat \<Rightarrow> nat \<Rightarrow> bool" where
  "exfat_valid v c \<longleftrightarrow> 2 \<le> c \<and> c < exfat_limit v"

interpretation exfatc: chain_walk exfat_link exfat_valid exfat_chain_loop exfat_limit
  by unfold_locales (auto simp: exfat_link_def exfat_valid_def Let_def)

lemma exfat_cluster_offset_eq:
  assumes "exfat_wf v" "exfat_cluster_offset v c = Some x"
  shows "2 \<le> c" "c - 2 < xf_count v" "x = xf_heap v + (c - 2) * xf_cluster_size v"
proof -
  show c: "2 \<le> c" "c - 2 < xf_count v" using assms(2) by (auto simp: exfat_cluster_offset_def exfat_limit_def split: if_splits)
  have "(c - 2) * xf_cluster_size v \<le> xf_count v * xf_cluster_size v" using c by (intro mult_le_mono1) simp
  then have "xf_heap v + (c - 2) * xf_cluster_size v \<le> u64_max" using assms(1) unfolding exfat_wf_def exfat_heap_end_def by linarith
  then show "x = xf_heap v + (c - 2) * xf_cluster_size v"
    using assms(2) by (auto simp: exfat_cluster_offset_def sat_add64_def sat_mul64_def split: if_splits)
qed

interpretation exfat: cluster_volume exfat_cluster_offset xf_cluster_size
  "\<lambda>v. max (xf_volume_length v) (exfat_heap_end v)" exfat_chain exfat_wf
proof (unfold_locales, goal_cases)
  case (1 v c x y)
  note a = exfat_cluster_offset_eq [OF 1(1,2)] and b = exfat_cluster_offset_eq [OF 1(1,3)]
  obtain k where "c = k + 2" using a(1) by (metis le_add_diff_inverse2)
  then show ?case using a(3) b(3) by simp
next
  case (2 c v first n)
  then show ?case using exfatc.loop_valid by (fastforce simp: exfat_chain_def exfat_valid_def exfat_cluster_offset_def)
next
  case (3 v c x)
  note a = exfat_cluster_offset_eq [OF 3]
  have "(c - 2 + 1) * xf_cluster_size v \<le> xf_count v * xf_cluster_size v" using a(2) by (intro mult_le_mono1) simp
  then show ?case using a(3) by (simp add: exfat_heap_end_def)
qed

lemma exfat_chain_linked:
  "linked_by (exfat_link v) (exfat_valid v) cl \<Longrightarrow> 0 < limit \<Longrightarrow> exfat_chain v (hd cl) limit = take limit cl"
  unfolding exfat_chain_def by (rule exfatc.capped_linked)

section \<open>Files\<close>

text \<open>C25: On a volume that opens, a file with a cluster chain - live, or deleted with its
  chain still in the table - gets extents that, read in order, are exactly the first \<open>len\<close> bytes of
  its clusters in the order of the chain; nothing is assumed.\<close>

theorem exfat_chain_exact:
  assumes "exfat_open src = Inr v" "linked_by (exfat_link v) (exfat_valid v) cl" "0 < len" "len \<le> length cl * xf_cluster_size v"
  shows "\<exists>es. exfat_resolve_extents v (hd cl) len False deleted = (es, False) \<and>
    sum_list (map ex_len es) = len \<and>
    xbytes md es = take len (concat (map (\<lambda>c. medium_bytes md (the (exfat_cluster_offset v c)) (xf_cluster_size v)) cl))"
proof -
  have wf: "exfat_wf v" using exfat_open_wf [OF assms(1)] by blast
  let ?cs = "xf_cluster_size v"
  let ?n = "sat_add64 (div_ceil len ?cs) 2"
  let ?es = "exfat_coalesce (take ?n cl) v len"
  have cs: "0 < ?cs" using wf by (simp add: exfat_wf_def)
  have chain: "exfat_chain v (hd cl) ?n = take ?n cl" using exfat_chain_linked [OF assms(2)] by (simp add: sat_add64_def)
  have off: "\<forall>c \<in> set (take ?n cl). exfat_cluster_offset v c \<noteq> None" using exfat.chain_off chain by metis
  have "length cl \<le> u64_max" using exfatc.linked_length [OF assms(2)] by (simp add: exfat_limit_def)
  then have len: "len \<le> length (take ?n cl) * ?cs" by (rule enough_clusters [OF cs assms(4)])
  note es = exfat.coalesce_chain [OF wf off len, folded exfat_coalesce_def]
  have ne: "?es \<noteq> []" using es(2) assms(3) by auto
  have ne1: "take ?n cl \<noteq> []" using len assms(3) by (metis le_zero_eq list.size(3) mult_0 not_gr_zero)
  have "cl \<noteq> []" using assms(2) by auto
  then have hd: "2 \<le> hd cl" using linked_by_valid [OF assms(2) hd_in_set] by (simp add: exfat_valid_def)
  have "div_ceil len ?cs \<le> length (take ?n cl)"
  proof (rule ccontr)
    assume "\<not> ?thesis"
    then have "length (take ?n cl) < div_ceil len ?cs" by (simp only: not_le)
    then have "length (take ?n cl) * ?cs < len" using less_div_ceil [OF cs] by (simp only:)
    then show False using len by linarith
  qed
  then have g: "\<not> (len = 0 \<or> hd cl < 2)" "\<not> (take ?n cl = [] \<or> deleted \<and> length (take ?n cl) < div_ceil len ?cs)" "\<not> (?es = [])"
    using assms(3) hd ne ne1 by (simp_all only:) auto
  have "exfat_resolve_extents v (hd cl) len False deleted = (?es, False)"
    unfolding exfat_resolve_extents_def Let_def chain if_not_P [OF g(1)] if_not_P [OF g(2)] if_not_P [OF g(3)] by simp
  then show ?thesis using es by (auto simp: exfat.chain_bytes_def exfat.cluster_bytes_def [abs_def])
qed

text \<open>A file flagged as stored without a chain, inside the cluster heap and the
  volume, gets one extent of exactly its size that starts at its first cluster and holds the clusters
  that follow it on the medium; nothing is assumed.\<close>

theorem exfat_contiguous_exact:
  assumes "exfat_open src = Inr v" "0 < len" "2 \<le> first" "first - 2 + n \<le> xf_count v" "len \<le> n * xf_cluster_size v"
    and "first < exfat_limit v" "exfat_heap_end v \<le> xf_volume_length v"
  shows "exfat_resolve_extents v first len True deleted =
      ([\<lparr>ex_off = xf_heap v + (first - 2) * xf_cluster_size v, ex_len = len\<rparr>], False) \<and>
    medium_bytes md (xf_heap v + (first - 2) * xf_cluster_size v) len =
      take len (concat (map (\<lambda>k. medium_bytes md (xf_heap v + (first - 2 + k) * xf_cluster_size v) (xf_cluster_size v)) [0..<n]))"
proof
  have wf: "exfat_wf v" using exfat_open_wf [OF assms(1)] by blast
  let ?cs = "xf_cluster_size v" and ?x = "xf_heap v + (first - 2) * xf_cluster_size v"
  have cs: "0 < ?cs" using wf by (simp add: exfat_wf_def)
  obtain x where x: "exfat_cluster_offset v first = Some x" using assms(3,6) by (simp add: exfat_cluster_offset_def)
  then have off: "exfat_cluster_offset v first = Some ?x" using exfat_cluster_offset_eq(3) [OF wf x] by simp
  have "(first - 2 + n) * ?cs \<le> xf_count v * ?cs" by (rule mult_le_mono1 [OF assms(4)])
  then have "?x + len \<le> exfat_heap_end v" using assms(5) by (simp add: exfat_heap_end_def algebra_simps)
  then have vol: "len \<le> xf_volume_length v - ?x" using assms(7) by linarith
  have "len \<le> div_ceil len ?cs * ?cs" by (rule div_ceil_lower [OF cs])
  moreover have "len \<le> u64_max"
    using \<open>?x + len \<le> exfat_heap_end v\<close> wf unfolding exfat_wf_def by linarith
  ultimately have span: "len \<le> sat_mul64 (div_ceil len ?cs) ?cs" by (simp add: sat_mul64_def)
  have g: "\<not> (len = 0 \<or> first < 2)" using assms(2,3) by simp
  have "min (min len (sat_mul64 (div_ceil len ?cs) ?cs)) (xf_volume_length v - ?x) = len" using span vol by simp
  then show "exfat_resolve_extents v first len True deleted = ([\<lparr>ex_off = ?x, ex_len = len\<rparr>], False)"
    unfolding exfat_resolve_extents_def exfat_contiguous_def Let_def if_not_P [OF g] off option.case if_True by simp
  have "concat (map (\<lambda>k. medium_bytes md (xf_heap v + (first - 2 + k) * ?cs) ?cs) [0..<m]) = medium_bytes md ?x (m * ?cs)" for m
  proof (induction m)
    case (Suc m)
    have "xf_heap v + (first - 2 + m) * ?cs = ?x + m * ?cs" by (simp add: add_mult_distrib)
    moreover have "Suc m * ?cs = m * ?cs + ?cs" by simp
    ultimately show ?case using Suc medium_bytes_join [of md ?x "m * ?cs" ?cs] by (simp add: ac_simps)
  qed simp
  then show "medium_bytes md ?x len =
      take len (concat (map (\<lambda>k. medium_bytes md (xf_heap v + (first - 2 + k) * ?cs) ?cs) [0..<n]))"
    using assms(5) by (simp add: take_medium)
qed

section \<open>The walk\<close>

definition exfat_entry_ok :: "ex_fat \<Rightarrow> walk_opts \<Rightarrow> entry \<Rightarrow> bool" where
  "exfat_entry_ok v opts e \<longleftrightarrow>
     (\<exists>parent. en_path e = Some (exfat_path parent (en_name e))) \<and>
     (en_kind e = DirEntry \<longrightarrow> en_name e \<noteq> [] \<and> en_name e \<noteq> ustr ''.'' \<and> en_name e \<noteq> ustr ''..'') \<and>
     (en_state e = Live \<and> wo_live opts \<or> en_state e = Deleted \<and> wo_deleted opts) \<and>
     (\<forall>x \<in> set (en_extents e). ex_off x + ex_len x \<le> max (xf_volume_length v) (exfat_heap_end v)) \<and>
     sum_list (map ex_len (en_extents e)) \<le> en_size e"

definition exfat_walk_ok :: "ex_fat \<Rightarrow> walk_opts \<Rightarrow> walk \<Rightarrow> bool" where
  "exfat_walk_ok v opts w \<longleftrightarrow> walk_ok w \<and> wk_emitted w \<le> wo_max opts \<and> (\<forall>e \<in> set (wk_out w). exfat_entry_ok v opts e)"

lemma exfat_contiguous_inside:
  assumes "exfat_wf v"
  shows "(\<forall>e \<in> set (exfat_contiguous v first len). ex_off e + ex_len e \<le> max (xf_volume_length v) (exfat_heap_end v)) \<and>
    sum_list (map ex_len (exfat_contiguous v first len)) \<le> len"
proof (cases "exfat_cluster_offset v first")
  case (Some x)
  have "x \<le> max (xf_volume_length v) (exfat_heap_end v)" using exfat.off_inside [OF assms Some] by simp
  then show ?thesis using Some by (auto simp: exfat_contiguous_def Let_def)
qed (simp add: exfat_contiguous_def)

lemma exfat_resolve_inside:
  assumes "exfat_wf v"
  shows "(\<forall>e \<in> set (fst (exfat_resolve_extents v first len nofat deleted)).
      ex_off e + ex_len e \<le> max (xf_volume_length v) (exfat_heap_end v)) \<and>
    sum_list (map ex_len (fst (exfat_resolve_extents v first len nofat deleted))) \<le> len"
proof -
  let ?n = "sat_add64 (div_ceil len (xf_cluster_size v)) 2"
  have off: "\<forall>c \<in> set (exfat_chain v first ?n). exfat_cluster_offset v c \<noteq> None" using exfat.chain_off by blast
  have chained: "\<forall>e \<in> set (exfat_coalesce (exfat_chain v first ?n) v len). ex_off e + ex_len e \<le> max (xf_volume_length v) (exfat_heap_end v)"
    using exfat.coalesce_inside [OF assms off] unfolding exfat_coalesce_def by blast
  have "sum_list (map ex_len (exfat_coalesce (exfat_chain v first ?n) v len)) \<le> len"
    using exfat.coalesce_sum [OF assms off, of len] unfolding exfat_coalesce_def by simp
  then show ?thesis using chained exfat_contiguous_inside [OF assms, of first len]
    by (simp add: exfat_resolve_extents_def Let_def)
qed

lemma exfat_make_entry_ok:
  assumes "exfat_wf v"
  shows "let e = exfat_make_entry v bm d parent dir i name in
    en_name e = name \<and> en_path e = Some (exfat_path parent name) \<and>
    en_state e = (if byte_or_0 dir i AND 0x80 \<noteq> 0 then Live else Deleted) \<and>
    en_kind e = (if le16_or_0 dir (i + 4) AND 0x10 \<noteq> 0 then DirEntry else FileEntry) \<and>
    (\<forall>x \<in> set (en_extents e). ex_off x + ex_len x \<le> max (xf_volume_length v) (exfat_heap_end v)) \<and>
    sum_list (map ex_len (en_extents e)) \<le> en_size e"
  using exfat_resolve_inside [OF assms] by (simp add: exfat_make_entry_def new_file_def Let_def)

lemma exfat_set_ok:
  assumes wf: "exfat_wf v" and w: "exfat_walk_ok v opts (snd st)" "wk_emitted (snd st) < wo_max opts"
  shows "exfat_walk_ok v opts (snd (exfat_set v opts bm d parent dir i st))"
proof -
  let ?name = "exfat_read_name dir (i + 32 + 32) (unat (byte_or_0 dir (i + 1)) - 1) (unat (byte_or_0 dir (i + 32 + 3)))"
  let ?e = "exfat_make_entry v bm d parent dir i ?name"
  note e = exfat_make_entry_ok [OF wf, of bm d parent dir i ?name, unfolded Let_def]
  have "snd (exfat_set v opts bm d parent dir i st) = snd st \<or>
      (snd (exfat_set v opts bm d parent dir i st) = emit ?e (snd st) \<and> exfat_entry_ok v opts ?e)"
    using e unfolding exfat_set_def Let_def exfat_entry_ok_def by (simp split: if_split) blast
  then show ?thesis using w by (auto simp: exfat_walk_ok_def)
qed

lemma exfat_sets_ok:
  "exfat_wf v \<Longrightarrow> exfat_walk_ok v opts (snd st) \<Longrightarrow> exfat_walk_ok v opts (snd (snd (exfat_sets v opts bm d parent dir i st)))"
proof (induction v opts bm d parent dir i st rule: exfat_sets.induct)
  case (1 v opts bm d parent dir i st)
  then show ?case by (subst exfat_sets.simps) (simp add: Let_def exfat_set_ok)
qed

lemma exfat_walk_dir_ok:
  "exfat_wf v \<Longrightarrow> exfat_walk_ok v opts w \<Longrightarrow> exfat_walk_ok v opts (exfat_walk_dir v opts bm first parent depth w)"
  "exfat_wf v \<Longrightarrow> exfat_walk_ok v opts w \<Longrightarrow> exfat_walk_ok v opts (exfat_walk_subdirs v opts bm ds depth w)"
proof (induction v opts bm first parent depth w and v opts bm ds depth w rule: exfat_walk_dir_exfat_walk_subdirs.induct)
  case (1 v opts bm first parent depth w)
  let ?w = "w\<lparr>wk_visited := insert first (wk_visited w)\<rparr>"
  show ?case
  proof (cases "64 < depth \<or> wo_max opts \<le> wk_emitted w \<or> first \<in> wk_visited w \<or> exfat_read_directory v first = None")
    case True
    then show ?thesis using 1(3) by (subst exfat_walk_dir.simps) (auto simp: Let_def exfat_walk_ok_def)
  next
    case False
    then obtain dir where dir: "exfat_read_directory v first = Some dir" by auto
    obtain b st where st: "exfat_sets v opts bm first parent dir 0 ([], ?w) = (b, st)"
      by (cases "exfat_sets v opts bm first parent dir 0 ([], ?w)")
    have "exfat_walk_ok v opts ?w" using 1(3) by (simp add: exfat_walk_ok_def)
    then have ok: "exfat_walk_ok v opts (snd st)"
      using exfat_sets_ok [OF 1(2), of opts "([], ?w)" bm first parent dir 0] st by simp
    have g: "\<not> (64 < depth \<or> wo_max opts \<le> wk_emitted w)" "first \<notin> wk_visited w" using False by auto
    have run: "exfat_walk_dir v opts bm first parent depth w = (if b then snd st else exfat_walk_subdirs v opts bm (fst st) (depth + 1) (snd st))"
      using dir st g by (subst exfat_walk_dir.simps) (cases b; simp add: Let_def)
    show ?thesis
    proof (cases b)
      case f: False
      then show ?thesis using run 1(1) [OF g refl dir] st ok 1(2) by simp
    qed (use run ok in simp)
  qed
qed simp_all

text \<open>A walk over an opened volume reports at most \<open>max_entries\<close> entries, its statistics
  count them, and every one carries a path that ends in its name, is of a kind the options ask for and
  has its extents inside the volume or its cluster heap, within its size; a directory is named and is
  neither \<open>.\<close> nor \<open>..\<close>.\<close>

theorem exfat_walk_sound:
  assumes "exfat_open src = Inr v"
  shows "walk_ok (exfat_walk v opts) \<and> length (wk_out (exfat_walk v opts)) \<le> wo_max opts \<and>
    (\<forall>e \<in> set (wk_out (exfat_walk v opts)). exfat_entry_ok v opts e)"
proof -
  have "exfat_walk_ok v opts walk_start" by (simp add: exfat_walk_ok_def) (simp add: walk_start_def)
  then have "exfat_walk_ok v opts (exfat_walk v opts)"
    using exfat_walk_dir_ok(1) exfat_open_wf [OF assms] by (simp add: exfat_walk_def)
  then show ?thesis by (simp add: exfat_walk_ok_def walk_ok_def)
qed

section \<open>Instances\<close>

text \<open>A volume of six sectors: boot sector, one sector of table in which cluster 2 leads to cluster 3, and
  four clusters of one sector. The second image has lost its boot sector and kept the backup.\<close>

definition exfat_image :: "(nat \<times> bytes) list" where
  "exfat_image = [(3, [0x45, 0x58, 0x46, 0x41, 0x54, 0x20, 0x20, 0x20]), (72, [6]), (80, [1]), (84, [1]), (88, [2]),
     (92, [4]), (96, [4]), (108, [9, 0, 1]), (520, [3, 0, 0, 0, 0xFF, 0xFF, 0xFF, 0xFF])]"

definition exfat_backup_image :: "(nat \<times> bytes) list" where
  "exfat_backup_image = [(6147, [0x45, 0x58, 0x46, 0x41, 0x54, 0x20, 0x20, 0x20]), (6252, [9, 0, 1])]"

abbreviation exfat_fixture :: source where
  "exfat_fixture \<equiv> medium_source (good_medium exfat_image) 512 3072"

abbreviation exfat_lost :: source where
  "exfat_lost \<equiv> medium_source (good_medium exfat_backup_image) 512 8192"

lemma exfat_fixture_read: "off + n \<le> 3072 \<Longrightarrow> fs_read exfat_fixture off n = medium_bytes (good_medium exfat_image) off n"
  by (rule fs_read_inside [OF fixture_presents]) (simp_all add: medium_source_def)

lemma exfat_lost_read: "off + n \<le> 8192 \<Longrightarrow> fs_read exfat_lost off n = medium_bytes (good_medium exfat_backup_image) off n"
  by (rule fs_read_inside [OF fixture_presents]) (simp_all add: medium_source_def)

lemmas exfat_eval = exfat_image_def exfat_backup_image_def le16_or_0_def le32_or_0_def le64_or_0_def byte_or_0_def unwrap_or_def medium_simps

definition exfat_small :: ex_fat where
  "exfat_small = exfat_mount exfat_fixture (medium_bytes (good_medium exfat_image) 0 512)"

lemma exfat_small_boot:
  "le32_or_0 (medium_bytes (good_medium exfat_image) 0 512) 80 = 1" "le32_or_0 (medium_bytes (good_medium exfat_image) 0 512) 88 = 2"
  "le32_or_0 (medium_bytes (good_medium exfat_image) 0 512) 92 = 4" "le32_or_0 (medium_bytes (good_medium exfat_image) 0 512) 96 = 4"
  "le64_or_0 (medium_bytes (good_medium exfat_image) 0 512) 72 = 6" "byte_or_0 (medium_bytes (good_medium exfat_image) 0 512) 108 = 9"
  "byte_or_0 (medium_bytes (good_medium exfat_image) 0 512) 109 = 0" "exfat_magic (medium_bytes (good_medium exfat_image) 0 512)"
  "le32_or_0 (medium_bytes (good_medium exfat_image) 520 4) 0 = 3" "le32_or_0 (medium_bytes (good_medium exfat_image) 524 4) 0 = 0xFFFFFFFF"
  by (simp_all add: exfat_magic_def exfat_eval)

lemma exfat_small_fields:
  "xf_src exfat_small = exfat_fixture" "xf_cluster_size exfat_small = 512" "xf_fat_offset exfat_small = 512" "xf_heap exfat_small = 1024"
  "xf_count exfat_small = 4" "xf_root exfat_small = 4" "xf_volume_length exfat_small = 3072"
  by (simp_all add: exfat_small_def exfat_mount_def Let_def exfat_small_boot sat_mul64_def)

lemma exfat_fixture_open: "exfat_open exfat_fixture = Inr exfat_small"
  using exfat_small_fields(2,6)
  by (simp add: exfat_open_def exfat_read_boot_def exfat_fixture_read exfat_small_boot exfat_shifts_ok_def exfat_small_def [symmetric] Let_def)

lemma exfat_small_next: "exfat_next exfat_small 2 = 3" "exfat_next exfat_small 3 = 0xFFFFFFFF"
  by (simp_all add: exfat_next_def exfat_small_fields exfat_fixture_read exfat_small_boot)

lemma exfat_lost_boot: "\<not> exfat_magic (medium_bytes (good_medium exfat_backup_image) 0 512)"
  "exfat_magic (medium_bytes (good_medium exfat_backup_image) 6144 512)"
  "get_at (medium_bytes (good_medium exfat_backup_image) 6144 512) 108 = Some 9"
  by (simp_all add: exfat_magic_def exfat_eval)

theorem exfat_survives_lost_boot_witness: "exfat_read_boot exfat_lost = Some (fs_read exfat_lost 6144 512)"
proof -
  have "\<forall>s. 9 \<le> s \<and> s < 9 \<longrightarrow> get_at (fs_read exfat_lost (12 * 2 ^ s) 512) 108 \<noteq> Some (of_nat s)" by auto
  then show ?thesis using exfat_survives_lost_boot [of exfat_lost 9] by (simp add: exfat_lost_read exfat_lost_boot)
qed

theorem exfat_chain_exact_witness:
  "\<exists>es. exfat_resolve_extents exfat_small 2 700 False True = (es, False) \<and> sum_list (map ex_len es) = 700"
  using exfat_chain_exact [OF exfat_fixture_open, of "[2, 3]" 700 True] exfat_small_next
  by (auto simp: exfat_link_def exfat_valid_def exfat_limit_def exfat_small_fields)

theorem exfat_contiguous_exact_witness:
  "exfat_resolve_extents exfat_small 3 1000 True True = ([\<lparr>ex_off = 1536, ex_len = 1000\<rparr>], False)"
  using exfat_contiguous_exact [OF exfat_fixture_open, of 1000 3 2 True]
  by (simp add: exfat_small_fields exfat_limit_def exfat_heap_end_def)

theorem exfat_walk_sound_witness: "length (wk_out (exfat_walk exfat_small walk_opts_default)) \<le> wo_max walk_opts_default"
  using exfat_walk_sound [OF exfat_fixture_open, of walk_opts_default] by blast

end
