(* ===== verification/Dates.thy ===== *)
theory Dates
  imports FsCore
begin

text \<open>
  Calendar dates: the conversion from days since 1970 that the NTFS and ext engines share
  (\<^verbatim>\<open>crates/fs-ntfs/src/date.rs\<close>, \<^verbatim>\<open>crates/fs-ext/src/lib.rs\<close>), and the dates of ext, HFS+ and APFS.
\<close>

section \<open>Days and dates\<close>

text \<open>Division of an \<^verbatim>\<open>i64\<close> by a positive constant rounds towards zero.\<close>

definition tdiv :: "int \<Rightarrow> int \<Rightarrow> int" where
  "tdiv a b = (if 0 \<le> a then a div b else - (- a div b))"

definition civil_from_days :: "int \<Rightarrow> int \<times> int \<times> int" where
  "civil_from_days z0 =
     (let z = z0 + 719468;
          era = tdiv (if 0 \<le> z then z else z - 146096) 146097;
          doe = z - era * 146097;
          yoe = (doe - doe div 1460 + doe div 36524 - doe div 146096) div 365;
          y = yoe + era * 400;
          doy = doe - (365 * yoe + yoe div 4 - yoe div 100);
          mp = (5 * doy + 2) div 153;
          d = doy - (153 * mp + 2) div 5 + 1;
          m = (if mp < 10 then mp + 3 else mp - 9)
      in (if m \<le> 2 then y + 1 else y, m, d))"

text \<open>\<^verbatim>\<open>date_from_epoch\<close> of the ext engine, for a 32-bit number of seconds.\<close>

definition date_from_epoch :: "nat \<Rightarrow> ustring option" where
  "date_from_epoch secs =
     (if secs = 0 then None
      else case civil_from_days (int (secs div 86400)) of (y, m, d) \<Rightarrow> Some (ymd (nat y) (nat m) (nat d)))"

text \<open>\<^verbatim>\<open>date_from_unix\<close> of the HFS+ and the APFS engine: nothing before 1970 or after 2100.\<close>

definition date_from_unix :: "int \<Rightarrow> ustring option" where
  "date_from_unix secs =
     (if secs \<le> 0 \<or> 4102444800 < secs then None
      else case civil_from_days (secs div 86400) of (y, m, d) \<Rightarrow> Some (ymd (nat y) (nat m) (nat d)))"

end
