(* ===== verification/NtfsRecord.thy ===== *)
theory NtfsRecord
  imports ClusterRuns Dates
begin

text \<open>
  MFT records of the NTFS engine (\<^verbatim>\<open>crates/fs-ntfs/src/record.rs\<close>, \<^verbatim>\<open>date.rs\<close>): the update sequence array,
  data runs, the attribute loop, file names, dates. An \<^verbatim>\<open>i64\<close> is an \<^typ>\<open>int\<close> with its wrap-around
  written out.
\<close>

unbundle bit_operations_syntax

section \<open>Dates\<close>

definition filetime_date :: "nat \<Rightarrow> ustring option" where
  "filetime_date ft =
     (if ft = 0 then None
      else
        let secs = int (ft div 10000000) - 11644473600 in
        if \<not> (- 62135596800 \<le> secs \<and> secs \<le> 253402300799) then None
        else case civil_from_days (secs div 86400) of
            (y, m, d) \<Rightarrow>
              if \<not> (1 \<le> m \<and> m \<le> 12) \<or> \<not> (1 \<le> d \<and> d \<le> 31) then None else Some (ymd (nat y) (nat m) (nat d)))"

section \<open>Data runs\<close>

record data_run =
  dr_lcn :: nat
  dr_length :: nat
  dr_sparse :: bool

definition read_le_unsigned :: "bytes \<Rightarrow> nat \<Rightarrow> nat \<Rightarrow> nat" where
  "read_le_unsigned b off n = fold (\<lambda>i v. v OR push_bit (8 * i) (unat (byte_or_0 b (off + i)))) [0..<min n 8] 0"

definition i64_of :: "nat \<Rightarrow> int" where
  "i64_of v = (if v < 2 ^ 63 then int v else int v - 2 ^ 64)"

definition i64_wrapping_add :: "int \<Rightarrow> int \<Rightarrow> int" where
  "i64_wrapping_add a b = (a + b + 2 ^ 63) mod 2 ^ 64 - 2 ^ 63"

definition read_le_signed :: "bytes \<Rightarrow> nat \<Rightarrow> nat \<Rightarrow> int" where
  "read_le_signed b off n =
     (let v = read_le_unsigned b off n in
      i64_of (if 0 < n \<and> n < 8 \<and> bit v (n * 8 - 1) then v OR (u64_max - (2 ^ (n * 8) - 1)) else v))"

function run_loop :: "bytes \<Rightarrow> nat \<Rightarrow> int \<Rightarrow> nat \<Rightarrow> data_run list \<Rightarrow> data_run list" where
  "run_loop runs pos lcn guard out =
     (if \<not> (pos < length runs \<and> guard < 100000) then out
      else
        let header = byte_or_0 runs pos;
            len_size = unat (header AND 0x0F);
            off_size = unat (drop_bit 4 header AND 0x0F)
        in if header = 0 then out
           else if len_size = 0 \<or> length runs < pos + 1 + len_size + off_size then out
           else
             let len = read_le_unsigned runs (pos + 1) len_size in
             if off_size = 0 then
               run_loop runs (pos + 1 + len_size) lcn (guard + 1) (out @ [\<lparr>dr_lcn = 0, dr_length = len, dr_sparse = True\<rparr>])
             else
               let lcn1 = i64_wrapping_add lcn (read_le_signed runs (pos + 1 + len_size) off_size) in
               if lcn1 < 0 then out
               else
                 let out1 = out @ [\<lparr>dr_lcn = nat lcn1, dr_length = len, dr_sparse = False\<rparr>] in
                 if 65536 < length out1 then out1
                 else run_loop runs (pos + 1 + len_size + off_size) lcn1 (guard + 1) out1)"
  by pat_completeness auto
termination
  by (relation "measure (\<lambda>(runs, pos, lcn, guard, out). length runs - pos)") auto

declare run_loop.simps [simp del]

definition decode_runs :: "bytes \<Rightarrow> data_run list" where
  "decode_runs runs = run_loop runs 0 0 0 []"

section \<open>The update sequence array\<close>

text \<open>One stride: its last two bytes come from the array. \<open>None\<close> leaves the loop.\<close>

fun fixup_loop :: "nat \<Rightarrow> nat list \<Rightarrow> bytes \<Rightarrow> bytes" where
  "fixup_loop usa [] rec = rec"
| "fixup_loop usa (k # ks) rec =
     (let pos = k * 512 + 512 - 2; src = usa + 2 + k * 2 in
      if length rec < pos + 2 \<or> length rec < src + 2 then rec
      else fixup_loop usa ks (blit rec pos [byte_or_0 rec src, byte_or_0 rec (src + 1)]))"

definition apply_fixup :: "bytes \<Rightarrow> bytes" where
  "apply_fixup rec =
     (let usa = le16_or_0 rec 4; count = le16_or_0 rec 6 in
      if count < 2 \<or> length rec < usa + count * 2 then rec else fixup_loop usa [0..<count - 1] rec)"

section \<open>Attributes\<close>

definition attr_standard_information :: nat where "attr_standard_information = 0x10"
definition attr_file_name :: nat where "attr_file_name = 0x30"
definition attr_data :: nat where "attr_data = 0x80"
definition attr_index_allocation :: nat where "attr_index_allocation = 0xA0"
definition attr_end :: nat where "attr_end = 0xFFFFFFFF"

record attr =
  at_type :: nat
  at_name :: ustring
  at_resident :: bool
  at_real_size :: nat
  at_runs :: "data_run list"
  at_compressed :: bool
  at_sparse :: bool
  at_content_off :: nat
  at_content_len :: nat

definition resident_data :: "attr \<Rightarrow> bytes \<Rightarrow> bytes" where
  "resident_data a rec =
     (if \<not> at_resident a then []
      else unwrap_or (get_slice rec (at_content_off a) (at_content_off a + at_content_len a)) [])"

record file_name =
  fn_name :: ustring
  fn_raw :: bytes
  fn_type :: byte
  fn_parent :: nat

record mft_record =
  mr_in_use :: bool
  mr_directory :: bool
  mr_attrs :: "attr list"
  mr_names :: "file_name list"
  mr_created :: "ustring option"
  mr_modified :: "ustring option"

text \<open>Code units up to the last one that is not zero.\<close>

definition strip_nul :: "nat list \<Rightarrow> nat list" where
  "strip_nul v = rev (dropWhile (\<lambda>u. u = 0) (rev v))"

definition decode_utf16 :: "bytes \<Rightarrow> nat \<Rightarrow> nat \<Rightarrow> ustring" where
  "decode_utf16 b off units = utf16_lossy (strip_nul (map (\<lambda>i. le16_or_0 b (off + i * 2)) [0..<units]))"

definition mft_ref :: "nat \<Rightarrow> nat" where
  "mft_ref x = x AND 0xFFFFFFFFFFFF"

definition parse_file_name :: "bytes \<Rightarrow> nat \<Rightarrow> nat \<Rightarrow> file_name option" where
  "parse_file_name rec off len =
     (case get_slice rec off (off + len) of
        None \<Rightarrow> None
      | Some c \<Rightarrow>
          let name_len = unat (byte_or_0 c 64);
              name = decode_utf16 c 66 name_len
          in if name = [] then None
             else Some \<lparr>fn_name = name, fn_raw = unwrap_or (get_slice c 66 (66 + name_len * 2)) [], fn_type = byte_or_0 c 65,
                   fn_parent = mft_ref (le64_or_0 c 0)\<rparr>)"

text \<open>The attribute at \<open>a\<close>, which ends inside the record.\<close>

definition parse_attr :: "bytes \<Rightarrow> nat \<Rightarrow> nat \<Rightarrow> nat \<Rightarrow> attr" where
  "parse_attr rec a type_id total_len =
     (let non_resident = (byte_or_0 rec (a + 8) \<noteq> 0);
          name_len = unat (byte_or_0 rec (a + 9));
          name_off = le16_or_0 rec (a + 10);
          flags = le16_or_0 rec (a + 12);
          at = \<lparr>at_type = type_id, at_name = (if 0 < name_len then decode_utf16 rec (a + name_off) name_len else []),
                at_resident = \<not> non_resident, at_real_size = 0, at_runs = [], at_compressed = (flags AND 0x0001 \<noteq> 0),
                at_sparse = (flags AND 0x8000 \<noteq> 0), at_content_off = 0, at_content_len = 0\<rparr>
      in if non_resident then
           let run_off = le16_or_0 rec (a + 32);
               at1 = at\<lparr>at_real_size := le64_or_0 rec (a + 48)\<rparr>
           in if a + run_off \<le> length rec
              then at1\<lparr>at_runs := decode_runs (unwrap_or (get_slice rec (a + run_off) (a + total_len)) [])\<rparr>
              else at1
         else
           let coff = le16_or_0 rec (a + 20);
               clen = (if coff < total_len then min (le32_or_0 rec (a + 16)) (total_len - coff) else 0)
           in at\<lparr>at_real_size := clen, at_content_off := a + coff, at_content_len := clen\<rparr>)"

text \<open>What the record learns from an attribute.\<close>

definition note_attr :: "bytes \<Rightarrow> attr \<Rightarrow> mft_record \<Rightarrow> mft_record" where
  "note_attr rec at r =
     (let r1 =
        (if at_type at = attr_standard_information \<and> at_resident at then
           let c = unwrap_or (get_slice rec (at_content_off at) (at_content_off at + at_content_len at)) []
           in r\<lparr>mr_created := filetime_date (le64_or_0 c 0), mr_modified := filetime_date (le64_or_0 c 8)\<rparr>
         else if at_type at = attr_file_name \<and> at_resident at then
           (case parse_file_name rec (at_content_off at) (at_content_len at) of
              Some f \<Rightarrow> r\<lparr>mr_names := mr_names r @ [f]\<rparr>
            | None \<Rightarrow> r)
         else r)
      in r1\<lparr>mr_attrs := mr_attrs r1 @ [at]\<rparr>)"

function attr_loop :: "bytes \<Rightarrow> nat \<Rightarrow> nat \<Rightarrow> mft_record \<Rightarrow> mft_record" where
  "attr_loop rec a guard r =
     (if \<not> (a + 4 \<le> length rec \<and> guard < 1024) then r
      else
        let type_id = le32_or_0 rec a; total_len = le32_or_0 rec (a + 4) in
        if type_id = attr_end then r
        else if total_len < 16 \<or> length rec < a + total_len then r
        else attr_loop rec (a + total_len) (guard + 1) (note_attr rec (parse_attr rec a type_id total_len) r))"
  by pat_completeness auto
termination
  by (relation "measure (\<lambda>(rec, a, guard, r). length rec - a)") auto

declare attr_loop.simps [simp del]

definition file_magic :: bytes where
  "file_magic = map of_char ''FILE''"

definition mft_parse :: "bytes \<Rightarrow> mft_record option" where
  "mft_parse buf =
     (if get_slice buf 0 4 \<noteq> Some file_magic then None
      else
        let rec = apply_fixup buf;
            flags = le16_or_0 rec 22
        in Some (attr_loop rec (le16_or_0 rec 20) 0
             \<lparr>mr_in_use = (flags AND 0x0001 \<noteq> 0), mr_directory = (flags AND 0x0002 \<noteq> 0), mr_attrs = [], mr_names = [],
              mr_created = None, mr_modified = None\<rparr>))"

section \<open>What the walk asks of a record\<close>

definition name_rank :: "byte \<Rightarrow> nat" where
  "name_rank t = (if t = 1 \<or> t = 3 then 0 else if t = 0 then 1 else if t = 2 then 2 else 3)"

text \<open>\<^verbatim>\<open>min_by_key\<close> answers the first of several minima.\<close>

fun best_of :: "file_name list \<Rightarrow> file_name option" where
  "best_of [] = None"
| "best_of (f # fs) =
     (case best_of fs of
        None \<Rightarrow> Some f
      | Some g \<Rightarrow> if name_rank (fn_type f) \<le> name_rank (fn_type g) then Some f else Some g)"

definition best_file_name :: "mft_record \<Rightarrow> file_name option" where
  "best_file_name r = best_of (filter (\<lambda>f. fn_name f \<noteq> []) (mr_names r))"

definition named_data :: "mft_record \<Rightarrow> ustring \<Rightarrow> attr option" where
  "named_data r name = find (\<lambda>a. at_type a = attr_data \<and> at_name a = name) (mr_attrs r)"

definition unnamed_data :: "mft_record \<Rightarrow> attr option" where
  "unnamed_data r = find (\<lambda>a. at_type a = attr_data \<and> at_name a = []) (mr_attrs r)"

definition resident_data_offset :: "mft_record \<Rightarrow> nat option" where
  "resident_data_offset r =
     map_option at_content_off (find (\<lambda>a. at_type a = attr_data \<and> at_name a = [] \<and> at_resident a) (mr_attrs r))"

definition index_allocation :: "mft_record \<Rightarrow> attr option" where
  "index_allocation r = find (\<lambda>a. at_type a = attr_index_allocation \<and> \<not> at_resident a) (mr_attrs r)"

end
