(* ===== verification/Ntfs.thy ===== *)
theory Ntfs
  imports NtfsRecord
begin

text \<open>
  The NTFS engine (\<^verbatim>\<open>crates/fs-ntfs/src/lib.rs\<close>, \<^verbatim>\<open>usn.rs\<close>): boot sector, the extents of the MFT, records found
  through them, the cluster bitmap, the two passes of the walk, the scan for orphaned records and the
  names mined from the change journal and from index blocks.
\<close>

unbundle bit_operations_syntax

section \<open>The boot sector\<close>

definition ntfs_oem :: "bytes \<Rightarrow> bool" where
  "ntfs_oem boot \<longleftrightarrow> get_slice boot 3 11 = Some (map of_char ''NTFS    '')"

definition cluster_size_from_boot :: "bytes \<Rightarrow> nat \<Rightarrow> nat option" where
  "cluster_size_from_boot boot bps =
     (let spc = unat (byte_or_0 boot 13);
          cluster = (if spc \<le> 0x80 then Some (sat_mul64 (max spc 1) bps)
                     else if 26 < 256 - spc then None
                     else Some (push_bit (256 - spc) 1))
      in case cluster of
           None \<Rightarrow> None
         | Some c \<Rightarrow> if c = 0 \<or> 64 * 1024 * 1024 < c then None else Some c)"

definition u32_or_0 :: "nat \<Rightarrow> nat" where
  "u32_or_0 n = (if n < 2 ^ 32 then n else 0)"

text \<open>\<^verbatim>\<open>{serial:016X}\<close>.\<close>

definition hex16_up :: "nat \<Rightarrow> ustring" where
  "hex16_up n = map (\<lambda>k. hex_up (n div 16 ^ k mod 16)) (rev [0..<16])"

definition ntfs_probe :: "source \<Rightarrow> probe option" where
  "ntfs_probe src =
     (let boot = fs_read src 0 512; bps = le16_or_0 boot 11 in
      if \<not> ntfs_oem boot then None
      else if bps \<notin> {512, 1024, 2048, 4096} then None
      else if get_slice boot 510 512 \<noteq> Some [0x55, 0xAA] then None
      else case cluster_size_from_boot boot bps of
          None \<Rightarrow> None
        | Some cs \<Rightarrow>
            Some \<lparr>pb_fs_kind = ''ntfs'', pb_confidence = 97, pb_block_size = u32_or_0 cs, pb_label = None,
              pb_uuid = Some (hex16_up (le64_or_0 boot 0x48)), pb_total_bytes = sat_mul64 (le64_or_0 boot 0x28) bps\<rparr>)"

section \<open>Runs and extents\<close>

fun run_extents :: "data_run list \<Rightarrow> nat \<Rightarrow> nat \<Rightarrow> extent list" where
  "run_extents [] cs remaining = []"
| "run_extents (r # rs) cs remaining =
     (if remaining = 0 then []
      else
        let span = sat_mul64 (dr_length r) cs in
        if dr_sparse r then run_extents rs cs (remaining - min span remaining)
        else \<lparr>ex_off = sat_mul64 (dr_lcn r) cs, ex_len = min span remaining\<rparr> # run_extents rs cs (remaining - min span remaining))"

definition runs_to_extents :: "data_run list \<Rightarrow> nat \<Rightarrow> nat \<Rightarrow> extent list" where
  "runs_to_extents runs cs real_size = run_extents runs cs real_size"

section \<open>An opened volume\<close>

record ntfs =
  nt_src :: source
  nt_cluster_size :: nat
  nt_mft_offset :: nat
  nt_record_size :: nat
  nt_total :: nat
  nt_serial :: nat
  nt_mft_extents :: "extent list"

definition read_record_at :: "ntfs \<Rightarrow> nat \<Rightarrow> bytes option" where
  "read_record_at v off =
     (let b = fs_read (nt_src v) off (nt_record_size v) in if get_slice b 0 4 = Some file_magic then Some b else None)"

text \<open>The record size is a count of clusters, or the negated exponent of a power of two.\<close>

definition mft_record_size :: "byte \<Rightarrow> nat \<Rightarrow> nat" where
  "mft_record_size raw cs =
     (if unat raw < 128 then sat_mul64 (max (unat raw) 1) cs
      else if 256 - unat raw < 64 then push_bit (256 - unat raw) 1
      else 0)"

definition ntfs_mft_extents :: "ntfs \<Rightarrow> extent list" where
  "ntfs_mft_extents v =
     (let own = (case read_record_at v (nt_mft_offset v) of
            None \<Rightarrow> []
          | Some b \<Rightarrow> (case mft_parse b of
                None \<Rightarrow> []
              | Some r \<Rightarrow> (case unnamed_data r of
                    None \<Rightarrow> []
                  | Some d \<Rightarrow> if at_resident d then [] else runs_to_extents (at_runs d) (nt_cluster_size v) (at_real_size d))))
      in if own = [] then [\<lparr>ex_off = nt_mft_offset v, ex_len = min (nt_total v - nt_mft_offset v) (256 * 1024 * 1024)\<rparr>] else own)"

definition ntfs_open :: "source \<Rightarrow> fs_error + ntfs" where
  "ntfs_open src =
     (let boot = fs_read src 0 512; bps = le16_or_0 boot 11 in
      if \<not> ntfs_oem boot then Inl (NotThisFs ''no NTFS OEM id'')
      else case cluster_size_from_boot boot bps of
          None \<Rightarrow> Inl (Corrupt ''bad NTFS cluster size'')
        | Some cs \<Rightarrow>
            let rs = mft_record_size (byte_or_0 boot 0x40) cs in
            if \<not> (256 \<le> rs \<and> rs \<le> 64 * 1024) then Inl (Corrupt ''implausible MFT record size'')
            else
              let v = \<lparr>nt_src = src, nt_cluster_size = cs, nt_mft_offset = sat_mul64 (le64_or_0 boot 0x30) cs, nt_record_size = rs,
                       nt_total = min (sat_mul64 (le64_or_0 boot 0x28) bps) (s_len src), nt_serial = le64_or_0 boot 0x48,
                       nt_mft_extents = []\<rparr>
              in Inr (v\<lparr>nt_mft_extents := ntfs_mft_extents v\<rparr>))"

text \<open>The extents before the one that holds the offset are counted in \<open>acc\<close>.\<close>

fun locate :: "extent list \<Rightarrow> nat \<Rightarrow> nat \<Rightarrow> nat option" where
  "locate [] logical acc = None"
| "locate (e # es) logical acc =
     (if logical < sat_add64 acc (ex_len e) then Some (sat_add64 (ex_off e) (logical - acc))
      else locate es logical (sat_add64 acc (ex_len e)))"

definition record_offset :: "ntfs \<Rightarrow> nat \<Rightarrow> nat option" where
  "record_offset v n = locate (nt_mft_extents v) (sat_mul64 n (nt_record_size v)) 0"

definition record_count :: "ntfs \<Rightarrow> nat" where
  "record_count v = fold (\<lambda>e s. wadd64 s (ex_len e)) (nt_mft_extents v) 0 div max (nt_record_size v) 1"

section \<open>The cluster bitmap\<close>

fun bitmap_bytes :: "source \<Rightarrow> extent list \<Rightarrow> bytes \<Rightarrow> bytes" where
  "bitmap_bytes src [] out = out"
| "bitmap_bytes src (e # es) out =
     (if 64 * 1024 * 1024 \<le> length out then out
      else bitmap_bytes src es (out @ fs_read src (ex_off e) (min (ex_len e) (64 * 1024 * 1024))))"

definition ntfs_bitmap_of :: "ntfs \<Rightarrow> bytes \<Rightarrow> bitmap" where
  "ntfs_bitmap_of v packed = bitmap_new (u32_or_0 (nt_cluster_size v)) 0 (length packed * 8) packed"

definition ntfs_load_bitmap :: "ntfs \<Rightarrow> bitmap option" where
  "ntfs_load_bitmap v =
     (case record_offset v 6 of
        None \<Rightarrow> None
      | Some off \<Rightarrow> (case read_record_at v off of
            None \<Rightarrow> None
          | Some rec \<Rightarrow> (case mft_parse rec of
                None \<Rightarrow> None
              | Some parsed \<Rightarrow> (case unnamed_data parsed of
                    None \<Rightarrow> None
                  | Some a \<Rightarrow>
                      Some (ntfs_bitmap_of v
                        (if at_resident a then resident_data a rec
                         else bitmap_bytes (nt_src v) (runs_to_extents (at_runs a) (nt_cluster_size v) (at_real_size a)) []))))))"

section \<open>Records\<close>

record raw_file =
  rw_no :: nat
  rw_name :: ustring
  rw_raw_name :: bytes
  rw_parent :: nat
  rw_dir :: bool
  rw_in_use :: bool
  rw_size :: nat
  rw_extents :: "extent list"
  rw_created :: "ustring option"
  rw_modified :: "ustring option"
  rw_compressed :: bool
  rw_sparse :: bool
  rw_resident :: bool

text \<open>Resident data is found inside the record on the volume.\<close>

definition to_raw :: "ntfs \<Rightarrow> nat \<Rightarrow> mft_record \<Rightarrow> raw_file option" where
  "to_raw v n parsed =
     (case best_file_name parsed of
        None \<Rightarrow> None
      | Some f \<Rightarrow>
          let data = (case unnamed_data parsed of
                None \<Rightarrow> (0, [], False, False, False)
              | Some d \<Rightarrow>
                  if at_resident d then
                    let off = unwrap_or (resident_data_offset parsed) 0;
                        abs = (case record_offset v n of None \<Rightarrow> 0 | Some r \<Rightarrow> wadd64 r off)
                    in (at_real_size d, if 0 < at_real_size d then [\<lparr>ex_off = abs, ex_len = at_real_size d\<rparr>] else [], False, False, True)
                  else (at_real_size d, runs_to_extents (at_runs d) (nt_cluster_size v) (at_real_size d), at_compressed d, at_sparse d, False))
          in case data of
              (len, extents, compressed, sparse, resident) \<Rightarrow>
                Some \<lparr>rw_no = n, rw_name = fn_name f, rw_raw_name = fn_raw f, rw_parent = fn_parent f, rw_dir = mr_directory parsed,
                  rw_in_use = mr_in_use parsed, rw_size = len, rw_extents = extents, rw_created = mr_created parsed,
                  rw_modified = mr_modified parsed, rw_compressed = compressed, rw_sparse = sparse, rw_resident = resident\<rparr>)"

type_synonym dir_names = "nat \<Rightarrow> (ustring \<times> nat) option"

text \<open>\<^verbatim>\<open>resolve_path\<close>: the names met on the way up, innermost first.\<close>

definition root_ref :: nat where "root_ref = 5"

function parent_names :: "dir_names \<Rightarrow> nat \<Rightarrow> nat \<Rightarrow> nat \<Rightarrow> ustring list \<Rightarrow> ustring list" where
  "parent_names dirs rec_no cur guard parts =
     (if \<not> (cur \<noteq> root_ref \<and> cur \<noteq> rec_no \<and> guard < 256) then parts
      else case dirs cur of
          None \<Rightarrow> parts
        | Some (pname, pparent) \<Rightarrow> if pname = [] then parts else parent_names dirs rec_no pparent (guard + 1) (parts @ [pname]))"
  by pat_completeness auto
termination
  by (relation "measure (\<lambda>(dirs, rec_no, cur, guard, parts). 256 - guard)") auto

declare parent_names.simps [simp del]

fun join_path :: "ustring list \<Rightarrow> ustring" where
  "join_path [] = []"
| "join_path [p] = p"
| "join_path (p # q # ps) = p @ [slash] @ join_path (q # ps)"

definition resolve_path :: "nat \<Rightarrow> nat \<Rightarrow> ustring \<Rightarrow> dir_names \<Rightarrow> ustring" where
  "resolve_path rec_no parent name dirs = join_path (rev (parent_names dirs rec_no parent 0 [name]))"

section \<open>Mined names\<close>

record mined_name =
  mn_name :: ustring
  mn_ref :: nat
  mn_parent :: nat

function usn_loop :: "bytes \<Rightarrow> nat \<Rightarrow> nat \<Rightarrow> mined_name list \<Rightarrow> mined_name list" where
  "usn_loop data pos guard out =
     (if \<not> (pos + 60 \<le> length data \<and> guard < 5000000) then out
      else
        let rec_len = le32_or_0 data pos; major = le16_or_0 data (pos + 4) in
        if rec_len = 0 then usn_loop data (pos + 8) (guard + 1) out
        else if \<not> (56 \<le> rec_len \<and> rec_len \<le> 4096) \<or> (major \<noteq> 2 \<and> major \<noteq> 3) \<or> length data < pos + rec_len
        then usn_loop data (pos + 8) (guard + 1) out
        else
          let name_len = le16_or_0 data (pos + 56);
              name_off = le16_or_0 data (pos + 58);
              name = decode_utf16 data (pos + name_off) (min (name_len div 2) 255);
              out1 = (if 2 \<le> name_len \<and> name_off + name_len \<le> rec_len \<and> name \<noteq> []
                      then out @ [\<lparr>mn_name = name, mn_ref = mft_ref (le64_or_0 data (pos + 8)), mn_parent = mft_ref (le64_or_0 data (pos + 16))\<rparr>]
                      else out)
          in if 1000000 < length out1 then out1 else usn_loop data (pos + rec_len) (guard + 1) out1)"
  by pat_completeness auto
termination
  by (relation "measure (\<lambda>(data, pos, guard, out). length data - pos)") auto

declare usn_loop.simps [simp del]

definition parse_usn_stream :: "bytes \<Rightarrow> mined_name list" where
  "parse_usn_stream data = usn_loop data 0 0 []"

function indx_block_loop :: "bytes \<Rightarrow> nat \<Rightarrow> mined_name list \<Rightarrow> mined_name list" where
  "indx_block_loop region i out =
     (if length region < i + 0x52 then out
      else
        let file_ref = mft_ref (le64_or_0 region i);
            entry_len = le16_or_0 region (i + 8);
            key_len = le16_or_0 region (i + 10);
            key = i + 16
        in if 0x52 \<le> entry_len \<and> 0x42 \<le> key_len \<and> i + 16 + key_len \<le> length region then
             let name_len = unat (byte_or_0 region (key + 0x40));
                 name = decode_utf16 region (key + 0x42) (min name_len 255);
                 found = (0 < name_len \<and> name_len \<le> 255 \<and> key + 0x42 + name_len * 2 \<le> length region \<and>
                   name \<noteq> [] \<and> byte_or_0 region (key + 0x41) \<noteq> 2 \<and> file_ref \<noteq> 0)
             in indx_block_loop region (i + max entry_len 8)
                  (if found then out @ [\<lparr>mn_name = name, mn_ref = file_ref, mn_parent = mft_ref (le64_or_0 region key)\<rparr>] else out)
           else indx_block_loop region (i + 8) out)"
  by pat_completeness auto
termination
  by (relation "measure (\<lambda>(region, i, out). length region - i)") auto

declare indx_block_loop.simps [simp del]

definition scan_block_for_names :: "bytes \<Rightarrow> nat \<Rightarrow> nat \<Rightarrow> mined_name list \<Rightarrow> mined_name list" where
  "scan_block_for_names data base len out =
     (case get_slice data base (base + len) of None \<Rightarrow> out | Some region \<Rightarrow> indx_block_loop region 0 out)"

function indx_loop :: "bytes \<Rightarrow> nat \<Rightarrow> mined_name list \<Rightarrow> mined_name list" where
  "indx_loop data base out =
     (if length data < base + 24 then out
      else
        let indx = (get_slice data base (base + 4) = Some (map of_char ''INDX''));
            out1 = (if indx then scan_block_for_names data base (min 4096 (length data - base)) out else out)
        in if 200000 < length out1 then out1 else indx_loop data (if indx then base + 4096 else base + 512) out1)"
  by pat_completeness auto
termination
  by (relation "measure (\<lambda>(data, base, out). length data - base)") auto

declare indx_loop.simps [simp del]

definition scan_indx_names :: "bytes \<Rightarrow> mined_name list" where
  "scan_indx_names data = indx_loop data 0 []"

section \<open>The walk\<close>

record pass1 =
  p1_raws :: "raw_file list"
  p1_dirs :: dir_names
  p1_usn :: "extent list option"
  p1_i30 :: "extent list"

definition attr_extents :: "ntfs \<Rightarrow> attr \<Rightarrow> extent list" where
  "attr_extents v a = runs_to_extents (at_runs a) (nt_cluster_size v) (at_real_size a)"

definition pass1_record :: "ntfs \<Rightarrow> nat \<Rightarrow> mft_record \<Rightarrow> pass1 \<Rightarrow> pass1" where
  "pass1_record v n parsed st =
     (case to_raw v n parsed of
        None \<Rightarrow> st
      | Some raw \<Rightarrow>
          let st1 = (if rw_dir raw \<and> length (p1_i30 st) < 4096 then
                       (case index_allocation parsed of
                          Some idx \<Rightarrow> st\<lparr>p1_i30 := p1_i30 st @ attr_extents v idx\<rparr>
                        | None \<Rightarrow> st)
                     else st);
              st2 = (if p1_usn st1 = None \<and> rw_name raw = ustr ''$UsnJrnl'' then
                       (case named_data parsed (ustr ''$J'') of
                          Some j \<Rightarrow> if at_resident j then st1 else st1\<lparr>p1_usn := Some (attr_extents v j)\<rparr>
                        | None \<Rightarrow> st1)
                     else st1)
          in st2\<lparr>p1_dirs := (p1_dirs st2)(rw_no raw \<mapsto> (rw_name raw, rw_parent raw)), p1_raws := p1_raws st2 @ [raw]\<rparr>)"

function ntfs_pass1 :: "ntfs \<Rightarrow> nat \<Rightarrow> nat \<Rightarrow> pass1 \<Rightarrow> pass1" where
  "ntfs_pass1 v n count st =
     (if count \<le> n then st
      else case record_offset v n of
          None \<Rightarrow> st
        | Some off \<Rightarrow>
            ntfs_pass1 v (n + 1) count
              (case read_record_at v off of
                 None \<Rightarrow> st
               | Some rec \<Rightarrow> (case mft_parse rec of None \<Rightarrow> st | Some parsed \<Rightarrow> pass1_record v n parsed st)))"
  by pat_completeness auto
termination
  by (relation "measure (\<lambda>(v, n, count, st). count - n)") auto

declare ntfs_pass1.simps [simp del]

definition raw_entry :: "bitmap option \<Rightarrow> dir_names \<Rightarrow> raw_file \<Rightarrow> entry" where
  "raw_entry bm dirs raw =
     (new_file (rw_no raw) (rw_name raw) (rw_raw_name raw) (rw_size raw) (if rw_in_use raw then Live else Deleted))
       \<lparr>en_kind := (if rw_dir raw then DirEntry else FileEntry), en_parent_id := Some (rw_parent raw),
        en_path := Some (resolve_path (rw_no raw) (rw_parent raw) (rw_name raw) dirs),
        en_created := rw_created raw, en_modified := rw_modified raw, en_extents := rw_extents raw,
        en_allocated := (case bm of None \<Rightarrow> False
          | Some b \<Rightarrow> is_offset_allocated b (case rw_extents raw of [] \<Rightarrow> 0 | x # _ \<Rightarrow> ex_off x)),
        en_confidence := (if rw_resident raw then 97 else 90) # (if rw_compressed raw \<or> rw_sparse raw then [60] else [])\<rparr>"

definition starts_dollar :: "ustring \<Rightarrow> bool" where
  "starts_dollar s \<longleftrightarrow> take 1 s = [36]"

fun ntfs_pass2 :: "walk_opts \<Rightarrow> bitmap option \<Rightarrow> dir_names \<Rightarrow> raw_file list \<Rightarrow> walk \<Rightarrow> walk" where
  "ntfs_pass2 opts bm dirs [] w = w"
| "ntfs_pass2 opts bm dirs (raw # raws) w =
     (if wo_max opts \<le> wk_emitted w then w
      else
        let w1 = w\<lparr>wk_visited := insert (rw_no raw) (wk_visited w)\<rparr> in
        if \<not> (rw_in_use raw \<and> wo_live opts \<or> \<not> rw_in_use raw \<and> wo_deleted opts) then ntfs_pass2 opts bm dirs raws w1
        else if rw_in_use raw \<and> starts_dollar (rw_name raw) \<and> rw_no raw < 16 then ntfs_pass2 opts bm dirs raws w1
        else ntfs_pass2 opts bm dirs raws (emit (raw_entry bm dirs raw) w1))"

definition in_mft :: "nat \<Rightarrow> extent list \<Rightarrow> bool" where
  "in_mft o' ext \<longleftrightarrow> list_ex (\<lambda>e. ex_off e \<le> o' \<and> o' < sat_add64 (ex_off e) (ex_len e)) ext"

text \<open>The entry of a record that lies outside the MFT.\<close>

definition orphan_entry :: "ntfs \<Rightarrow> nat \<Rightarrow> entry option" where
  "orphan_entry v off =
     (if fs_read (nt_src v) off 4 \<noteq> file_magic then None
      else case mft_parse (fs_read (nt_src v) off (nt_record_size v)) of
          None \<Rightarrow> None
        | Some parsed \<Rightarrow> (case best_file_name parsed of
              None \<Rightarrow> None
            | Some f \<Rightarrow>
                if starts_dollar (fn_name f) then None
                else
                  let data = (case unnamed_data parsed of
                        None \<Rightarrow> (0, [])
                      | Some d \<Rightarrow> if at_resident d then (0, []) else (at_real_size d, attr_extents v d))
                  in Some ((new_file (0xFFFF000000000000 OR off) (fn_name f) (fn_raw f) (fst data) Orphaned)
                       \<lparr>en_parent_id := Some (fn_parent f), en_extents := snd data, en_confidence := [55]\<rparr>)))"

text \<open>The scan ends for every source that is shorter than the largest 64-bit number.\<close>

partial_function (option) orphan_loop :: "ntfs \<Rightarrow> walk_opts \<Rightarrow> nat \<Rightarrow> nat \<Rightarrow> walk \<Rightarrow> walk option" where
  "orphan_loop v opts off found w =
     (if \<not> (sat_add64 off 4 \<le> nt_total v \<and> wk_emitted w < wo_max opts) then Some w
      else if 100000 \<le> found then Some w
      else if in_mft off (nt_mft_extents v) then orphan_loop v opts (sat_add64 off (max (nt_record_size v) 1024)) found w
      else case orphan_entry v off of
          None \<Rightarrow> orphan_loop v opts (sat_add64 off (max (nt_record_size v) 1024)) found w
        | Some e \<Rightarrow> orphan_loop v opts (sat_add64 off (max (nt_record_size v) 1024)) (found + 1) (emit e w))"

definition scan_orphans :: "ntfs \<Rightarrow> walk_opts \<Rightarrow> walk \<Rightarrow> walk option" where
  "scan_orphans v opts w = (if wo_deleted opts then orphan_loop v opts 0 0 w else Some w)"

fun read_extents_bytes :: "ntfs \<Rightarrow> extent list \<Rightarrow> nat \<Rightarrow> bytes" where
  "read_extents_bytes v [] left = []"
| "read_extents_bytes v (e # es) left =
     (if left = 0 then []
      else fs_read (nt_src v) (ex_off e) (min (ex_len e) left) @ read_extents_bytes v es (left - min (ex_len e) left))"

definition mined_entry :: "dir_names \<Rightarrow> mined_name \<Rightarrow> entry" where
  "mined_entry dirs m =
     (new_file (mn_ref m) (mn_name m) (utf8 (mn_name m)) 0 Historical)
       \<lparr>en_parent_id := Some (mn_parent m), en_path := Some (resolve_path (mn_ref m) (mn_parent m) (mn_name m) dirs), en_confidence := [40]\<rparr>"

fun mine_loop :: "walk_opts \<Rightarrow> dir_names \<Rightarrow> mined_name list \<Rightarrow> nat \<Rightarrow> (nat \<times> ustring) list \<Rightarrow> walk \<Rightarrow> walk" where
  "mine_loop opts dirs [] emitted seen w = w"
| "mine_loop opts dirs (m # ms) emitted seen w =
     (if 10000 \<le> emitted \<or> wo_max opts \<le> wk_emitted w then w
      else if mn_ref m \<in> wk_visited w then mine_loop opts dirs ms emitted seen w
      else if (mn_ref m, mn_name m) \<in> set seen then mine_loop opts dirs ms emitted seen w
      else mine_loop opts dirs ms (emitted + 1) ((mn_ref m, mn_name m) # seen) (emit (mined_entry dirs m) w))"

definition mine_names :: "ntfs \<Rightarrow> walk_opts \<Rightarrow> pass1 \<Rightarrow> walk \<Rightarrow> walk" where
  "mine_names v opts st w =
     (if \<not> wo_deleted opts then w
      else
        let journal = (case p1_usn st of None \<Rightarrow> [] | Some ext \<Rightarrow> parse_usn_stream (read_extents_bytes v ext (32 * 1024 * 1024)));
            slack = (if p1_i30 st = [] then [] else scan_indx_names (read_extents_bytes v (p1_i30 st) (16 * 1024 * 1024)))
        in mine_loop opts (p1_dirs st) (journal @ slack) 0 [] w)"

definition ntfs_walk :: "ntfs \<Rightarrow> walk_opts \<Rightarrow> walk option" where
  "ntfs_walk v opts =
     (let bm = ntfs_load_bitmap v;
          count = min (record_count v) (wadd64 (wo_max opts) 64);
          st = ntfs_pass1 v 0 count \<lparr>p1_raws = [], p1_dirs = (\<lambda>_. None), p1_usn = None, p1_i30 = []\<rparr>;
          w = ntfs_pass2 opts bm (p1_dirs st) (p1_raws st) walk_start
      in map_option (mine_names v opts st) (scan_orphans v opts w))"

end
