(* ===== verification/NtfsFacts.thy ===== *)
theory NtfsFacts
  imports Ntfs
begin

text \<open>
  Facts about the NTFS engine: what a list of data runs holds and its extents, records found through a
  fragmented MFT, and the codecs of a record (run lists, the update sequence array).
\<close>

unbundle bit_operations_syntax

section \<open>Extents of data runs\<close>

text \<open>The content that a list of runs describes; a byte of a hole has no value on the medium.\<close>

definition run_content :: "medium \<Rightarrow> nat \<Rightarrow> data_run \<Rightarrow> byte option list" where
  "run_content md cs r =
     (if dr_sparse r then replicate (dr_length r * cs) None else map Some (medium_bytes md (dr_lcn r * cs) (dr_length r * cs)))"

definition runs_content :: "medium \<Rightarrow> nat \<Rightarrow> data_run list \<Rightarrow> byte option list" where
  "runs_content md cs runs = concat (map (run_content md cs) runs)"

definition run_small :: "nat \<Rightarrow> data_run \<Rightarrow> bool" where
  "run_small cs r \<longleftrightarrow> dr_length r * cs \<le> u64_max \<and> (dr_sparse r \<or> dr_lcn r * cs \<le> u64_max)"

lemma length_run_content [simp]: "length (run_content md cs r) = dr_length r * cs"
  by (simp add: run_content_def)

lemma runs_content_simps [simp]:
  "runs_content md cs [] = []" "runs_content md cs (r # rs) = run_content md cs r @ runs_content md cs rs"
  by (simp_all add: runs_content_def)

lemma filter_Some_map [simp]: "filter (\<lambda>x. x \<noteq> None) (map Some xs) = map Some xs"
  by (induction xs) auto

lemma run_extents_content:
  "\<forall>r \<in> set runs. run_small cs r \<Longrightarrow>
    map Some (xbytes md (run_extents runs cs n)) = filter (\<lambda>x. x \<noteq> None) (take n (runs_content md cs runs))"
proof (induction runs arbitrary: n)
  case (Cons r rs)
  let ?span = "dr_length r * cs"
  have span: "sat_mul64 (dr_length r) cs = ?span" using Cons.prems by (simp add: run_small_def sat_mul64_def)
  have rest: "n - min ?span n = n - ?span" by simp
  have IH: "map Some (xbytes md (run_extents rs cs (n - ?span))) = filter (\<lambda>x. x \<noteq> None) (take (n - ?span) (runs_content md cs rs))"
    using Cons by simp
  show ?case
  proof (cases "dr_sparse r")
    case True
    then show ?thesis using IH by (simp add: span rest run_content_def take_replicate)
  next
    case False
    then have off: "sat_mul64 (dr_lcn r) cs = dr_lcn r * cs" using Cons.prems by (simp add: run_small_def sat_mul64_def)
    have "take n (run_content md cs r) = map Some (medium_bytes md (dr_lcn r * cs) (min ?span n))"
      using False by (cases "n \<le> ?span") (simp_all add: run_content_def take_map take_medium)
    then show ?thesis using IH False by (simp add: span rest off Let_def)
  qed
qed simp

lemma run_extents_sum: "sum_list (map ex_len (run_extents runs cs n)) \<le> n"
proof (induction runs arbitrary: n)
  case (Cons r rs)
  let ?m = "min (sat_mul64 (dr_length r) cs) n"
  have "?m + sum_list (map ex_len (run_extents rs cs (n - ?m))) \<le> n" using Cons.IH [of "n - ?m"] by linarith
  then show ?case by (cases "n = 0") (simp_all add: Let_def)
qed simp

lemma run_extents_ends:
  assumes "e \<in> set (run_extents runs cs n)"
  shows "ex_off e \<le> u64_max \<and> ex_len e \<le> n"
  using assms
proof (induction runs arbitrary: n)
  case (Cons r rs)
  let ?m = "min (sat_mul64 (dr_length r) cs) n"
  show ?case using Cons.prems Cons.IH [of "n - ?m"] by (auto simp: Let_def split: if_splits)
qed simp

section \<open>Records of a fragmented MFT\<close>

lemma locate_piece:
  assumes "acc \<le> logical" "acc + sum_list (map ex_len es) \<le> u64_max" "logical < acc + sum_list (map ex_len es)"
    and "\<forall>e \<in> set es. ex_off e + ex_len e \<le> u64_max"
  shows "\<exists>pre e post. es = pre @ e # post \<and> acc + sum_list (map ex_len pre) \<le> logical \<and>
    logical < acc + sum_list (map ex_len pre) + ex_len e \<and>
    locate es logical acc = Some (ex_off e + (logical - acc - sum_list (map ex_len pre)))"
  using assms
proof (induction es arbitrary: acc)
  case (Cons e es)
  have acc: "sat_add64 acc (ex_len e) = acc + ex_len e" using Cons.prems(2) by (simp add: sat_add64_def)
  show ?case
  proof (cases "logical < acc + ex_len e")
    case True
    then have "ex_off e + (logical - acc) \<le> u64_max" using Cons.prems(1,4) by auto
    then have "sat_add64 (ex_off e) (logical - acc) = ex_off e + (logical - acc)" by (rule sat_add64_exact)
    then show ?thesis using True acc Cons.prems(1) by (intro exI [of _ "[]"] exI [of _ e] exI [of _ es]) simp
  next
    case False
    obtain pre f post where p: "es = pre @ f # post" "acc + ex_len e + sum_list (map ex_len pre) \<le> logical"
        "logical < acc + ex_len e + sum_list (map ex_len pre) + ex_len f"
        "locate es logical (acc + ex_len e) = Some (ex_off f + (logical - (acc + ex_len e) - sum_list (map ex_len pre)))"
      using Cons.IH [of "acc + ex_len e"] Cons.prems False by auto
    then show ?thesis using False acc by (intro exI [of _ "e # pre"] exI [of _ f] exI [of _ post]) simp
  qed
qed simp

lemma xbytes_slice:
  assumes "es = pre @ e # post" "sum_list (map ex_len pre) = p" "k + n \<le> ex_len e"
  shows "take n (drop (p + k) (xbytes md es)) = medium_bytes md (ex_off e + k) n"
proof -
  have e: "medium_bytes md (ex_off e) (ex_len e) = medium_bytes md (ex_off e) k @ medium_bytes md (ex_off e + k) (ex_len e - k)"
    using assms(3) by (simp add: medium_bytes_join)
  have "drop (p + k) (xbytes md es) = medium_bytes md (ex_off e + k) (ex_len e - k) @ xbytes md post"
    using assms(2) unfolding assms(1) by (simp add: length_xbytes e)
  then show ?thesis using assms(3) by (simp add: take_medium)
qed

lemma dvd_between:
  assumes "rs dvd p" "rs dvd l" "p \<le> (n :: nat) * rs" "n * rs < p + l"
  shows "n * rs - p + rs \<le> l"
proof -
  obtain a b where ab: "p = rs * a" "l = rs * b" using assms(1,2) by (auto elim!: dvdE)
  have rs: "0 < rs" using assms(3,4) ab by (cases rs) auto
  have "n * rs < (a + b) * rs" using assms(4) ab by (simp add: algebra_simps)
  then have "n < a + b" using rs by simp
  then have "Suc n * rs \<le> (a + b) * rs" by (intro mult_le_mono1) simp
  then show ?thesis using assms(3) ab by (simp add: algebra_simps)
qed

section \<open>Little-endian integers of any width\<close>

lemma or_shifted: "v < 2 ^ n \<Longrightarrow> v OR push_bit n (b :: nat) = v + 2 ^ n * b"
proof -
  assume v: "v < 2 ^ n"
  have "\<not> bit v m" if "n \<le> m" for m
  proof -
    have "v < 2 ^ m" using v that by (meson less_le_trans power_increasing_iff one_less_numeral_iff semiring_norm(76) le_less_linear not_le order_refl power_increasing numeral_One zero_less_numeral one_le_numeral)
    then show ?thesis by (simp add: bit_nat_def)
  qed
  then have "v AND push_bit n b = 0" by (intro bit_eqI) (auto simp: bit_simps)
  then show ?thesis by (simp add: disjunctive_add_eq_or [symmetric] push_bit_eq_mult mult.commute)
qed

lemma read_le_unsigned_fold:
  assumes "off + n \<le> length b"
  shows "fold (\<lambda>i v. v OR push_bit (8 * i) (unat (byte_or_0 b (off + i)))) [0..<n] 0 = le_val (take n (drop off b))"
  using assms
proof (induction n)
  case (Suc n)
  let ?v = "le_val (take n (drop off b))"
  have len: "length (take n (drop off b)) = n" using Suc.prems by simp
  have v: "?v < 2 ^ (8 * n)" using le_val_bound [of "take n (drop off b)"] len by (simp add: power_mult)
  have t: "take (Suc n) (drop off b) = take n (drop off b) @ [b ! (off + n)]" using Suc.prems by (simp add: take_Suc_conv_app_nth)
  have "le_val (xs @ [x]) = le_val xs + 2 ^ (8 * length xs) * unat x" for xs x
    by (induction xs) (simp_all add: power_add algebra_simps)
  then have "le_val (take (Suc n) (drop off b)) = ?v + 2 ^ (8 * n) * unat (b ! (off + n))" using len t by simp
  then show ?case using Suc or_shifted [OF v] by (simp add: byte_or_0_def unwrap_or_def get_at_def)
qed simp

lemma read_le_unsigned_eq: "off + n \<le> length b \<Longrightarrow> n \<le> 8 \<Longrightarrow> read_le_unsigned b off n = le_val (take n (drop off b))"
  using read_le_unsigned_fold by (simp add: read_le_unsigned_def)

text \<open>Two's complement in \<open>n\<close> bytes.\<close>

definition fits_signed :: "nat \<Rightarrow> int \<Rightarrow> bool" where
  "fits_signed n x \<longleftrightarrow> - (256 ^ n) \<le> 2 * x \<and> 2 * x < 256 ^ n"

definition signed_bytes :: "nat \<Rightarrow> int \<Rightarrow> bytes" where
  "signed_bytes n x = le_bytes n (nat (x mod 256 ^ n))"

lemma length_signed_bytes [simp]: "length (signed_bytes n x) = n"
  by (simp add: signed_bytes_def)

lemma fits_signed_mod:
  assumes "fits_signed n x"
  shows "nat (x mod 256 ^ n) = (if 0 \<le> x then nat x else nat (x + 256 ^ n))"
proof (cases "0 \<le> x")
  case True
  then have "x mod 256 ^ n = x" using assms by (intro mod_pos_pos_trivial) (simp_all add: fits_signed_def)
  then show ?thesis using True by simp
next
  case False
  have "x mod 256 ^ n = (x + 256 ^ n) mod 256 ^ n" by simp
  also have "\<dots> = x + 256 ^ n" using assms False by (intro mod_pos_pos_trivial) (simp_all add: fits_signed_def)
  finally show ?thesis using False by simp
qed

lemma sign_bit:
  assumes "(v :: nat) < 2 ^ Suc k"
  shows "bit v k \<longleftrightarrow> 2 ^ k \<le> v"
proof -
  have "v div 2 ^ k < 2" using assms by (simp add: less_mult_imp_div_less)
  then have "odd (v div 2 ^ k) \<longleftrightarrow> 1 \<le> v div 2 ^ k" by (cases "v div 2 ^ k") auto
  also have "\<dots> \<longleftrightarrow> 2 ^ k \<le> v" by (simp add: less_eq_div_iff_mult_less_eq)
  finally show ?thesis by (simp add: bit_iff_odd)
qed

lemma read_signed_bytes:
  assumes "take n (drop off b) = signed_bytes n x" "off + n \<le> length b" "0 < n" "n \<le> 8" "fits_signed n x"
  shows "read_le_signed b off n = x"
proof -
  let ?v = "read_le_unsigned b off n"
  have "nat (x mod 256 ^ n) < 256 ^ n" by (simp add: nat_less_iff)
  then have v: "?v = nat (x mod 256 ^ n)"
    using assms(1,2,4) by (simp add: read_le_unsigned_eq signed_bytes_def le_val_le_bytes)
  note v2 = v [unfolded fits_signed_mod [OF assms(5)]]
  obtain k where n: "n * 8 = Suc k" "n * 8 - 1 = k" using assms(3) by (cases "n * 8") auto
  have pow: "(256::int) ^ n = 2 * 2 ^ k" "(256::nat) ^ n = 2 * 2 ^ k"
    using n(1) power_mult [of "2::int" 8 n] power_mult [of "2::nat" 8 n] by (simp_all add: mult.commute)
  have small: "?v < 2 ^ Suc k" using v \<open>nat (x mod 256 ^ n) < 256 ^ n\<close> pow(2) by simp
  have range: "- (2 ^ k) \<le> x" "x < 2 ^ k" using assms(5) pow(1) by (simp_all add: fits_signed_def)
  have neg: "2 ^ k \<le> ?v \<longleftrightarrow> x < 0"
  proof (cases "0 \<le> x")
    case True
    then have "int ?v = x" using v2 by simp
    then have "int ?v < 2 ^ k" using range(2) by simp
    then show ?thesis using True by (simp add: zless_nat_eq_int_zless [symmetric] nat_power_eq not_le)
  next
    case False
    then have "int ?v = x + 2 * 2 ^ k" using v2 pow(1) range(1) by simp
    then have "int (2 ^ k) \<le> int ?v" using range(1) by simp
    then show ?thesis using False by (simp only: of_nat_le_iff not_le)
  qed
  show ?thesis
  proof (cases "n = 8")
    case True
    then have k: "k = 63" using n by simp
    show ?thesis
    proof (cases "0 \<le> x")
      case True
      then have "?v < 2 ^ 63" using neg k by simp
      then show ?thesis using True v2 \<open>n = 8\<close> by (simp add: read_le_signed_def i64_of_def)
    next
      case False
      then have "\<not> ?v < 2 ^ 63" using neg k by simp
      moreover have "int ?v = x + 2 ^ 64" using False v2 \<open>n = 8\<close> range(1) k by simp
      ultimately show ?thesis using \<open>n = 8\<close> by (simp add: read_le_signed_def i64_of_def)
    qed
  next
    case False
    then have n7: "0 < n \<and> n < 8" using assms(3,4) by simp
    then have k: "Suc k \<le> 56" using n by linarith
    show ?thesis
    proof (cases "0 \<le> x")
      case True
      then have "\<not> bit ?v k" using neg sign_bit [OF small] by simp
      moreover have "?v < 2 ^ 63"
        using small power_increasing [of "Suc k" 63 "2::nat"] k by linarith
      ultimately show ?thesis using True v2 n7 n(2) by (simp add: read_le_signed_def i64_of_def)
    next
      case False
      then have bit: "bit ?v k" using neg sign_bit [OF small] by simp
      have split: "(2::nat) ^ Suc k * 2 ^ (64 - Suc k) = 2 ^ 64" using k by (simp only: power_add [symmetric]) simp
      have "u64_max - (2 ^ (n * 8) - 1) = push_bit (Suc k) (2 ^ (64 - Suc k) - 1 :: nat)"
        using split n(1) by (simp add: push_bit_eq_mult algebra_simps)
      then have "?v OR (u64_max - (2 ^ (n * 8) - 1)) = ?v + 2 ^ Suc k * (2 ^ (64 - Suc k) - 1)"
        using or_shifted [OF small] by simp
      also have "\<dots> = ?v + (2 ^ 64 - 2 ^ Suc k)" using split by (simp add: algebra_simps)
      finally have w: "?v OR (u64_max - (2 ^ (n * 8) - 1)) = ?v + (2 ^ 64 - 2 ^ Suc k)" .
      have le: "(2::nat) ^ Suc k \<le> 2 ^ 56" using k by (intro power_increasing) simp_all
      have "int ?v = x + 2 ^ Suc k" using False v2 pow(1) range(1) by simp
      moreover have "int (2 ^ 64 - 2 ^ Suc k) = 2 ^ 64 - 2 ^ Suc k" using le by (subst of_nat_diff) simp_all
      ultimately have "int (?v + (2 ^ 64 - 2 ^ Suc k)) = x + 2 ^ 64" by simp
      moreover have "\<not> ?v + (2 ^ 64 - 2 ^ Suc k) < 2 ^ 63" using le by simp
      ultimately have "i64_of (?v + (2 ^ 64 - 2 ^ Suc k)) = x" unfolding i64_of_def by simp
      then show ?thesis using n7 n(2) bit w by (simp add: read_le_signed_def)
    qed
  qed
qed

section \<open>Run lists\<close>

text \<open>A run written with \<open>ls\<close> bytes for its length and \<open>os\<close> bytes for the distance to the run before it; a hole has
  no distance.\<close>

fun encode_runs :: "int \<Rightarrow> (data_run \<times> nat \<times> nat) list \<Rightarrow> bytes" where
  "encode_runs lcn [] = []"
| "encode_runs lcn ((r, ls, os) # rs) =
     (if dr_sparse r then of_nat ls # le_bytes ls (dr_length r) @ encode_runs lcn rs
      else of_nat (os * 16 + ls) # le_bytes ls (dr_length r) @ signed_bytes os (int (dr_lcn r) - lcn) @ encode_runs (int (dr_lcn r)) rs)"

fun runs_encodable :: "int \<Rightarrow> (data_run \<times> nat \<times> nat) list \<Rightarrow> bool" where
  "runs_encodable lcn [] \<longleftrightarrow> True"
| "runs_encodable lcn ((r, ls, os) # rs) \<longleftrightarrow>
     1 \<le> ls \<and> ls \<le> 8 \<and> dr_length r < 256 ^ ls \<and>
     (if dr_sparse r then dr_lcn r = 0 \<and> runs_encodable lcn rs
      else 1 \<le> os \<and> os \<le> 8 \<and> fits_signed os (int (dr_lcn r) - lcn) \<and> dr_lcn r < 2 ^ 63 \<and> runs_encodable (int (dr_lcn r)) rs)"

lemma run_header:
  assumes "os \<le> 8" "ls \<le> 8"
  shows "unat (of_nat (os * 16 + ls) AND (0x0F :: byte)) = ls" "unat (drop_bit 4 (of_nat (os * 16 + ls)) AND (0x0F :: byte)) = os"
proof -
  define h where "h = (of_nat (os * 16 + ls) :: byte)"
  have n: "unat h = os * 16 + ls" unfolding h_def using assms by (intro unat_of_nat_byte) simp
  have low: "w AND 0x0F = take_bit 4 w" for w :: byte by (simp add: take_bit_eq_mask mask_eq_exp_minus_1)
  have "unat (h AND 0x0F) = (os * 16 + ls) mod 16" by (simp only: low unsigned_take_bit_eq n) (simp add: take_bit_eq_mod)
  then show "unat (of_nat (os * 16 + ls) AND (0x0F :: byte)) = ls" using assms unfolding h_def by simp
  have "(os * 16 + ls) mod 256 = os * 16 + ls" using assms by simp
  then have "unat (drop_bit 4 h AND 0x0F) = (os * 16 + ls) div 16 mod 16"
    by (simp only: low unsigned_take_bit_eq unsigned_drop_bit_eq n) (simp add: take_bit_eq_mod drop_bit_eq_div del: div_mult_self3 div_mult_self4)
  then show "unat (drop_bit 4 (of_nat (os * 16 + ls)) AND (0x0F :: byte)) = os" using assms unfolding h_def by simp
qed

lemma i64_add_small:
  assumes "0 \<le> lcn" "lcn < 2 ^ 63" "0 \<le> x" "x < 2 ^ 63"
  shows "i64_wrapping_add lcn (x - lcn) = x"
  using assms by (simp add: i64_wrapping_add_def)

lemma byte_or_0_mid: "byte_or_0 (pre @ x # post) (length pre) = x"
  by (simp add: byte_or_0_def unwrap_or_def get_at_def)

lemma run_loop_hole:
  assumes data: "data = pre @ of_nat ls # le_bytes ls len @ rest" and "1 \<le> ls" "ls \<le> 8" "len < 256 ^ ls" "guard < 100000"
  shows "run_loop data (length pre) lcn guard out =
    run_loop data (length pre + 1 + ls) lcn (guard + 1) (out @ [\<lparr>dr_lcn = 0, dr_length = len, dr_sparse = True\<rparr>])"
proof -
  have h: "byte_or_0 data (length pre) = of_nat ls" unfolding data by (rule byte_or_0_mid)
  have "unat (of_nat ls :: byte) = ls" using assms(3) by (intro unat_of_nat_byte) simp
  then have hn: "(of_nat ls :: byte) \<noteq> 0" using assms(2) by (metis unat_0 not_one_le_zero)
  have sizes: "unat ((of_nat ls :: byte) AND 0x0F) = ls" "unat (drop_bit 4 (of_nat ls :: byte) AND 0x0F) = 0"
    using run_header [of 0 ls] assms(3) by simp_all
  have len: "length data = length pre + 1 + ls + length rest" by (simp add: data)
  then have r: "read_le_unsigned data (length pre + 1) ls = len"
    using assms by (simp add: read_le_unsigned_eq le_val_le_bytes)
  have g: "length pre < length data \<and> guard < 100000" "\<not> (ls = 0 \<or> length data < length pre + 1 + ls + 0)"
    using len assms by simp_all
  show ?thesis
    by (subst run_loop.simps) (use g hn sizes r in \<open>simp add: h Let_def del: One_nat_def\<close>)
qed

lemma run_loop_run:
  assumes data: "data = pre @ of_nat (os * 16 + ls) # le_bytes ls len @ signed_bytes os (int x - lcn) @ rest"
    and "1 \<le> ls" "ls \<le> 8" "len < 256 ^ ls" "1 \<le> os" "os \<le> 8" "fits_signed os (int x - lcn)"
    and "0 \<le> lcn" "lcn < 2 ^ 63" "x < 2 ^ 63" "guard < 100000" "length out < 65536"
  shows "run_loop data (length pre) lcn guard out =
    run_loop data (length pre + 1 + ls + os) (int x) (guard + 1) (out @ [\<lparr>dr_lcn = x, dr_length = len, dr_sparse = False\<rparr>])"
proof -
  let ?h = "of_nat (os * 16 + ls) :: byte"
  have h: "byte_or_0 data (length pre) = ?h" unfolding data by (rule byte_or_0_mid)
  have "unat ?h = os * 16 + ls" using assms(3,6) by (intro unat_of_nat_byte) simp
  then have hn: "?h \<noteq> 0" using assms(2) by (metis unat_0 add_is_0 not_one_le_zero)
  note sizes = run_header [OF assms(6,3)]
  have len: "length data = length pre + 1 + ls + os + length rest" by (simp add: data)
  then have r: "read_le_unsigned data (length pre + 1) ls = len"
    using assms by (simp add: read_le_unsigned_eq le_val_le_bytes)
  have "take os (drop (length pre + 1 + ls) data) = signed_bytes os (int x - lcn)" by (simp add: data)
  then have "read_le_signed data (length pre + 1 + ls) os = int x - lcn"
    using len assms by (intro read_signed_bytes) simp_all
  then have l: "i64_wrapping_add lcn (read_le_signed data (length pre + 1 + ls) os) = int x"
    using i64_add_small [of lcn "int x"] assms by simp
  have g: "\<not> \<not> (length pre < length data \<and> guard < 100000)" "\<not> (ls = 0 \<or> length data < length pre + 1 + ls + os)" "os \<noteq> 0"
      "\<not> int x < 0" "\<not> 65536 < length (out @ [\<lparr>dr_lcn = x, dr_length = len, dr_sparse = False\<rparr>])"
    using len assms by simp_all
  show ?thesis
    by (subst run_loop.simps)
      (simp only: Let_def h if_not_P [OF g(1)] if_not_P [OF hn] sizes if_not_P [OF g(2)] if_not_P [OF g(3)] l if_not_P [OF g(4)] r nat_int if_not_P [OF g(5)])
qed

lemma run_loop_encoded:
  "runs_encodable lcn rs \<Longrightarrow> data = pre @ encode_runs lcn rs @ 0 # tail \<Longrightarrow> 0 \<le> lcn \<Longrightarrow> lcn < 2 ^ 63 \<Longrightarrow>
    guard + length rs < 100000 \<Longrightarrow> length out + length rs \<le> 65536 \<Longrightarrow>
    run_loop data (length pre) lcn guard out = out @ map fst rs"
proof (induction lcn rs arbitrary: pre guard out rule: runs_encodable.induct)
  case (1 lcn)
  then show ?case by (subst run_loop.simps) (simp add: byte_or_0_mid)
next
  case (2 lcn r ls os rs)
  show ?case
  proof (cases "dr_sparse r")
    case True
    let ?pre = "pre @ of_nat ls # le_bytes ls (dr_length r)"
    have r: "r = \<lparr>dr_lcn = 0, dr_length = dr_length r, dr_sparse = True\<rparr>" using True 2(3) by simp
    have "run_loop data (length pre) lcn guard out = run_loop data (length ?pre) lcn (guard + 1) (out @ [r])"
      using run_loop_hole [of data pre ls "dr_length r" "encode_runs lcn rs @ 0 # tail" guard lcn out] 2(3-) True r by simp
    also have "\<dots> = (out @ [r]) @ map fst rs"
      by (rule 2(1)) (use True 2(3-) in simp_all)
    finally show ?thesis by simp
  next
    case False
    let ?pre = "pre @ of_nat (os * 16 + ls) # le_bytes ls (dr_length r) @ signed_bytes os (int (dr_lcn r) - lcn)"
    have r: "r = \<lparr>dr_lcn = dr_lcn r, dr_length = dr_length r, dr_sparse = False\<rparr>" using False by simp
    have "run_loop data (length pre) lcn guard out = run_loop data (length ?pre) (int (dr_lcn r)) (guard + 1) (out @ [r])"
      using run_loop_run [of data pre os ls "dr_length r" "dr_lcn r" lcn "encode_runs (int (dr_lcn r)) rs @ 0 # tail" guard out] 2(3-) False r
      by (simp add: add.assoc)
    also have "\<dots> = (out @ [r]) @ map fst rs"
      by (rule 2(2)) (use False 2(3-) in simp_all)
    finally show ?thesis by simp
  qed
qed

section \<open>The update sequence array\<close>

text \<open>A record as it is written: the last two bytes of every stride are saved in the array at \<open>usa\<close>, behind the
  update sequence number \<open>usn\<close>, which takes their place.\<close>

definition protect :: "nat \<Rightarrow> nat \<Rightarrow> bytes \<Rightarrow> bytes \<Rightarrow> bytes" where
  "protect usa m usn rec =
     map (\<lambda>i. if 510 \<le> i mod 512 then usn ! (i mod 512 - 510)
              else if usa \<le> i \<and> i < usa + 2 then usn ! (i - usa)
              else if usa + 2 \<le> i \<and> i < usa + 2 + 2 * m then rec ! ((i - usa - 2) div 2 * 512 + 510 + (i - usa - 2) mod 2)
              else rec ! i) [0..<length rec]"

lemma length_fixup_loop [simp]: "length (fixup_loop usa ks rec) = length rec"
  by (induction usa ks rec rule: fixup_loop.induct) (simp_all add: Let_def)

lemma length_apply_fixup [simp]: "length (apply_fixup rec) = length rec"
  by (simp add: apply_fixup_def Let_def)

lemma fixup_loop_nth:
  assumes "usa + 2 + 2 * n \<le> 510"
  shows "n * 512 \<le> length rec \<Longrightarrow> i < length rec \<Longrightarrow> fixup_loop usa [k..<n] rec ! i =
    (if 510 \<le> i mod 512 \<and> k \<le> i div 512 \<and> i div 512 < n then rec ! (usa + 2 + 2 * (i div 512) + (i mod 512 - 510)) else rec ! i)"
proof (induction "n - k" arbitrary: k rec)
  case 0
  then show ?case by auto
next
  case (Suc d)
  then have k: "k < n" "[k..<n] = k # [Suc k..<n]" by (simp_all add: upt_rec [of k])
  let ?pos = "k * 512 + 510" and ?src = "usa + 2 + k * 2"
  let ?new = "blit rec ?pos [byte_or_0 rec ?src, byte_or_0 rec (?src + 1)]"
  have "Suc k * 512 \<le> n * 512" using k by (intro mult_le_mono1) simp
  then have room: "?pos + 2 \<le> length rec" "?src + 2 \<le> 510" using Suc.prems(1) assms k by simp_all
  then have g: "\<not> (length rec < ?pos + 2 \<or> length rec < ?src + 2)" "k * 512 + 512 - 2 = ?pos" by simp_all
  have step: "fixup_loop usa [k..<n] rec = fixup_loop usa [Suc k..<n] ?new"
    unfolding k(2) fixup_loop.simps Let_def if_not_P [OF g(1)] g(2) by (rule refl)
  have new: "?new ! j = (if j = ?pos then rec ! ?src else if j = ?pos + 1 then rec ! (?src + 1) else rec ! j)" if "j < length rec" for j
    using room that by (auto simp: nth_blit byte_or_0_def unwrap_or_def get_at_def less_Suc_eq)
  have IH: "fixup_loop usa [Suc k..<n] ?new ! i =
      (if 510 \<le> i mod 512 \<and> Suc k \<le> i div 512 \<and> i div 512 < n then ?new ! (usa + 2 + 2 * (i div 512) + (i mod 512 - 510)) else ?new ! i)"
    using Suc.hyps(1) [of "Suc k" ?new] Suc.hyps(2) Suc.prems room by simp
  show ?case
  proof (cases "510 \<le> i mod 512 \<and> Suc k \<le> i div 512 \<and> i div 512 < n")
    case True
    let ?j = "usa + 2 + 2 * (i div 512) + (i mod 512 - 510)"
    have "i mod 512 < 512" by simp
    then have "?j < 510" using True assms by linarith
    then have "?new ! ?j = rec ! ?j" using new [of ?j] room by simp
    then show ?thesis using True step IH by simp
  next
    case False
    have i: "i = i div 512 * 512 + i mod 512" by simp
    show ?thesis
    proof (cases "510 \<le> i mod 512 \<and> i div 512 = k")
      case True
      have "i mod 512 < 512" by simp
      then have "i mod 512 = 510 \<or> i mod 512 = 511" using True by linarith
      moreover have "i = k * 512 + i mod 512" using i True by simp
      ultimately have "i = ?pos \<or> i = ?pos + 1" by linarith
      then show ?thesis using step IH new [OF Suc.prems(2)] k(1) by (auto simp: mult.commute)
    next
      case other: False
      have ne: "i \<noteq> ?pos" "i \<noteq> ?pos + 1" using other by auto
      have c: "\<not> (510 \<le> i mod 512 \<and> k \<le> i div 512 \<and> i div 512 < n)" using False other by auto
      show ?thesis unfolding step IH if_not_P [OF False] if_not_P [OF c] using new [OF Suc.prems(2)] ne by simp
    qed
  qed
qed

lemma apply_fixup_nth:
  assumes "le16_or_0 rec 4 = usa" "le16_or_0 rec 6 = Suc n" "0 < n" "usa + 2 + 2 * n \<le> 510" "n * 512 \<le> length rec" "i < length rec"
  shows "apply_fixup rec ! i =
    (if 510 \<le> i mod 512 \<and> i div 512 < n then rec ! (usa + 2 + 2 * (i div 512) + (i mod 512 - 510)) else rec ! i)"
proof -
  have "\<not> (Suc n < 2 \<or> length rec < usa + Suc n * 2)" using assms(3-5) by simp
  then have "apply_fixup rec = fixup_loop usa [0..<n] rec" using assms(1,2) by (simp add: apply_fixup_def)
  then show ?thesis using fixup_loop_nth [OF assms(4-6), of 0] by simp
qed

lemma le16_or_0_cong: "length a = length b \<Longrightarrow> (\<And>i. off \<le> i \<Longrightarrow> i < off + 2 \<Longrightarrow> i < length b \<Longrightarrow> a ! i = b ! i) \<Longrightarrow> le16_or_0 a off = le16_or_0 b off"
proof -
  assume len: "length a = length b" and eq: "\<And>i. off \<le> i \<Longrightarrow> i < off + 2 \<Longrightarrow> i < length b \<Longrightarrow> a ! i = b ! i"
  have "take 2 (drop off a) = take 2 (drop off b)" by (rule nth_equalityI) (use len eq in auto)
  then show ?thesis using len by (simp add: le16_or_0_def le_u16_def get_slice_def)
qed

lemma fixup_restores:
  assumes "le16_or_0 rec 4 = usa" "le16_or_0 rec 6 = Suc m" "0 < m" "8 \<le> usa" "usa + 2 + 2 * m \<le> 510" "length rec = m * 512" "i < length rec"
    and "\<not> (usa \<le> i \<and> i < usa + 2 + 2 * m)"
  shows "apply_fixup (protect usa m usn rec) ! i = rec ! i"
proof -
  let ?p = "protect usa m usn rec"
  have len: "length ?p = length rec" by (simp add: protect_def)
  have p: "?p ! j = rec ! j" if "j < length rec" "j mod 512 < 510" "\<not> (usa \<le> j \<and> j < usa + 2 + 2 * m)" for j
    using that by (auto simp: protect_def)
  have "le16_or_0 ?p 4 = usa" "le16_or_0 ?p 6 = Suc m"
    using assms(1,2) by (subst le16_or_0_cong [of ?p rec]; use assms(3-6) len p in auto)+
  then have nth: "apply_fixup ?p ! i =
      (if 510 \<le> i mod 512 \<and> i div 512 < m then ?p ! (usa + 2 + 2 * (i div 512) + (i mod 512 - 510)) else ?p ! i)"
    by (rule apply_fixup_nth) (use assms len in simp_all)
  have div: "i div 512 < m" using assms(6,7) by (simp add: less_mult_imp_div_less)
  show ?thesis
  proof (cases "510 \<le> i mod 512")
    case True
    define k e where "k = i div 512" and "e = i mod 512 - 510"
    have ke: "k < m" "e < 2" "i = k * 512 + 510 + e" using div True by (simp_all add: k_def e_def)
    let ?j = "usa + 2 + 2 * k + e"
    have j: "?j < 510" "?j - usa - 2 = 2 * k + e" using ke assms(5) by linarith+
    then have "?j < length rec" using assms(3,6) by (cases m) auto
    moreover have "(2 * k + e) div 2 = k" "(2 * k + e) mod 2 = e" using ke(2) by auto
    ultimately have "?p ! ?j = rec ! i" using j ke by (simp add: protect_def)
    then show ?thesis using nth True div by (simp add: k_def e_def)
  qed (use nth p assms in simp)
qed

end
