(* ===== verification/NtfsTheorems.thy ===== *)
theory NtfsTheorems
  imports NtfsFacts
begin

text \<open>
  The properties of the NTFS engine: what the extents of a run list hold, records of a fragmented MFT, the
  round trips of run lists and of protected records, the shape of a parsed record, paths, and the
  invariant of the walk.
\<close>

unbundle bit_operations_syntax

section \<open>Extents and records\<close>

text \<open>C19: The extents of a run list hold exactly the bytes that the runs store within the size of the
  stream, in order: the content cut to the size, without the bytes of its holes.\<close>

theorem ntfs_extents_exact:
  assumes "\<forall>r \<in> set runs. run_small cs r"
  shows "map Some (xbytes md (runs_to_extents runs cs n)) = filter (\<lambda>x. x \<noteq> None) (take n (runs_content md cs runs))"
  using run_extents_content [OF assms] by (simp add: runs_to_extents_def)

text \<open>C21: In an MFT whose fragments are whole numbers of records, the record numbered \<open>n\<close> is read from
  the place where the MFT, taken as one stream, has it.\<close>

theorem ntfs_record_located:
  assumes "\<forall>e \<in> set (nt_mft_extents v). nt_record_size v dvd ex_len e \<and> ex_off e + ex_len e \<le> u64_max"
    and "sum_list (map ex_len (nt_mft_extents v)) \<le> u64_max" "0 < nt_record_size v"
    and "Suc n * nt_record_size v \<le> sum_list (map ex_len (nt_mft_extents v))"
  shows "\<exists>x. record_offset v n = Some x \<and>
    medium_bytes md x (nt_record_size v) = take (nt_record_size v) (drop (n * nt_record_size v) (xbytes md (nt_mft_extents v)))"
proof -
  let ?es = "nt_mft_extents v" and ?rs = "nt_record_size v"
  have fit: "n * ?rs \<le> u64_max" "n * ?rs < sum_list (map ex_len ?es)" using assms(2-4) by simp_all
  then have log: "sat_mul64 n ?rs = n * ?rs" by (simp add: sat_mul64_def)
  obtain pre e post where p: "?es = pre @ e # post" "sum_list (map ex_len pre) \<le> n * ?rs" "n * ?rs < sum_list (map ex_len pre) + ex_len e"
      "locate ?es (n * ?rs) 0 = Some (ex_off e + (n * ?rs - sum_list (map ex_len pre)))"
    using locate_piece [of 0 "n * ?rs" ?es] assms(1,2) fit by auto
  have dvd: "?rs dvd ex_len f" if "f \<in> set ?es" for f using assms(1) that by blast
  then have "\<forall>f \<in> set pre. ?rs dvd ex_len f" using p(1) by simp
  then have "?rs dvd sum_list (map ex_len pre)" by (induction pre) auto
  moreover have "?rs dvd ex_len e" using dvd p(1) by simp
  ultimately have "n * ?rs - sum_list (map ex_len pre) + ?rs \<le> ex_len e" using p(2,3) by (rule dvd_between)
  then have "take ?rs (drop (n * ?rs) (xbytes md ?es)) = medium_bytes md (ex_off e + (n * ?rs - sum_list (map ex_len pre))) ?rs"
    using xbytes_slice [OF p(1) refl, of "n * ?rs - sum_list (map ex_len pre)" ?rs md] p(2) by simp
  then show ?thesis using p(4) log by (simp add: record_offset_def)
qed

section \<open>Codecs of a record\<close>

text \<open>C23: Decoding an encoded run list gives the runs back, whatever sizes the encoder chose for its
  integers: holes, lengths up to 64 bits and distances of either sign.\<close>

theorem ntfs_runs_roundtrip:
  assumes "runs_encodable 0 rs" "length rs \<le> 65536"
  shows "decode_runs (encode_runs 0 rs @ 0 # tail) = map fst rs"
  using run_loop_encoded [of 0 rs _ "[]" tail 0 "[]"] assms by (simp add: decode_runs_def)

text \<open>C24: A record written with an update sequence array is restored: every byte outside the array is
  what it was before the ends of its strides were replaced.\<close>

theorem ntfs_fixup_restores:
  assumes "le16_or_0 rec 4 = usa" "le16_or_0 rec 6 = Suc m" "0 < m" "8 \<le> usa" "usa + 2 + 2 * m \<le> 510" "length rec = m * 512"
    and "i < length rec" "\<not> (usa \<le> i \<and> i < usa + 2 + 2 * m)"
  shows "apply_fixup (protect usa m usn rec) ! i = rec ! i"
  using assms by (rule fixup_restores)

section \<open>The shape of a parsed record\<close>

definition run_wf :: "data_run \<Rightarrow> bool" where
  "run_wf r \<longleftrightarrow> dr_lcn r < 2 ^ 63 \<and> dr_length r < 2 ^ 64 \<and> (dr_sparse r \<longrightarrow> dr_lcn r = 0)"

definition attr_wf :: "nat \<Rightarrow> attr \<Rightarrow> bool" where
  "attr_wf n a \<longleftrightarrow> at_real_size a \<le> u64_max \<and> length (at_runs a) \<le> n \<and> list_all run_wf (at_runs a) \<and>
     (if at_resident a then at_runs a = [] \<and> at_real_size a = at_content_len a \<and> (0 < at_content_len a \<longrightarrow> at_content_off a + at_content_len a \<le> n)
      else at_content_len a = 0)"

definition name_wf :: "file_name \<Rightarrow> bool" where
  "name_wf f \<longleftrightarrow> fn_name f \<noteq> [] \<and> length (fn_name f) \<le> 255 \<and> fn_parent f < 2 ^ 48"

definition record_wf :: "nat \<Rightarrow> mft_record \<Rightarrow> bool" where
  "record_wf n r \<longleftrightarrow> list_all (attr_wf n) (mr_attrs r) \<and> list_all name_wf (mr_names r) \<and> length (mr_names r) \<le> length (mr_attrs r)"

lemma or_lt: "a < 2 ^ n \<Longrightarrow> b < 2 ^ n \<Longrightarrow> a OR b < (2 ^ n :: nat)"
  by (metis take_bit_nat_eq_self_iff take_bit_or)

lemma read_le_unsigned_lt: "read_le_unsigned b off n < 2 ^ 64"
proof -
  have "fold (\<lambda>i v. v OR push_bit (8 * i) (unat (byte_or_0 b (off + i)))) [0..<m] 0 < 2 ^ (8 * m)" for m
  proof (induction m)
    case (Suc m)
    have "unat (byte_or_0 b (off + m)) < 2 ^ 8" using unat_byte_less by simp
    then have "push_bit (8 * m) (unat (byte_or_0 b (off + m))) < 2 ^ (8 * Suc m)" by (simp add: push_bit_eq_mult power_add)
    moreover have "fold (\<lambda>i v. v OR push_bit (8 * i) (unat (byte_or_0 b (off + i)))) [0..<m] 0 < 2 ^ (8 * Suc m)"
      using Suc by (rule less_le_trans) simp
    ultimately show ?case using or_lt by simp
  qed simp
  from this [of "min n 8"] have "read_le_unsigned b off n < 2 ^ (8 * min n 8)" by (simp add: read_le_unsigned_def)
  also have "\<dots> \<le> 2 ^ 64" by (intro power_increasing) simp_all
  finally show ?thesis .
qed

lemma i64_wrapping_range: "i64_wrapping_add a b < 2 ^ 63"
  using pos_mod_bound [of "2 ^ 64" "a + b + 2 ^ 63"] by (simp add: i64_wrapping_add_def)

lemma run_loop_wf:
  "list_all run_wf out \<Longrightarrow> length out \<le> pos \<Longrightarrow> pos \<le> length runs \<Longrightarrow>
    list_all run_wf (run_loop runs pos lcn guard out) \<and> length (run_loop runs pos lcn guard out) \<le> length runs"
proof (induction runs pos lcn guard out rule: run_loop.induct)
  case (1 runs pos lcn guard out)
  let ?ls = "unat (byte_or_0 runs pos AND 0x0F)" and ?os = "unat (drop_bit 4 (byte_or_0 runs pos) AND 0x0F)"
  let ?len = "read_le_unsigned runs (pos + 1) ?ls" and ?lcn = "i64_wrapping_add lcn (read_le_signed runs (pos + 1 + ?ls) ?os)"
  let ?hole = "\<lparr>dr_lcn = 0, dr_length = ?len, dr_sparse = True\<rparr>" and ?run = "\<lparr>dr_lcn = nat ?lcn, dr_length = ?len, dr_sparse = False\<rparr>"
  note IH1 = 1(1) [OF _ refl refl refl _ _ refl] and IH2 = 1(2) [OF _ refl refl refl _ _ refl _ refl _ refl]
  have wf: "run_wf ?hole" "run_wf ?run"
    using read_le_unsigned_lt [of runs "pos + 1" ?ls] i64_wrapping_range [of lcn "read_le_signed runs (pos + 1 + ?ls) ?os"]
    by (simp_all add: run_wf_def nat_less_iff)
  have out: "list_all run_wf out \<and> length out \<le> length runs" using 1(3-5) by simp
  show ?case
  proof (cases "\<not> (pos < length runs \<and> guard < 100000) \<or> byte_or_0 runs pos = 0 \<or> ?ls = 0 \<or> length runs < pos + 1 + ?ls + ?os")
    case True
    then have "run_loop runs pos lcn guard out = out" by (subst run_loop.simps) (auto simp: Let_def)
    then show ?thesis using out by simp
  next
    case False
    then have g: "\<not> \<not> (pos < length runs \<and> guard < 100000)" "byte_or_0 runs pos \<noteq> 0" "\<not> (?ls = 0 \<or> length runs < pos + 1 + ?ls + ?os)"
      by simp_all
    note run = run_loop.simps [of runs pos lcn guard out, unfolded Let_def if_not_P [OF g(1)] if_not_P [OF g(2)] if_not_P [OF g(3)]]
    show ?thesis
    proof (cases "?os = 0")
      case True
      show ?thesis unfolding run if_P [OF True]
        by (rule IH1) (use g True 1(3-5) wf in simp_all)
    next
      case os: False
      show ?thesis
      proof (cases "?lcn < 0 \<or> 65536 < length (out @ [?run])")
        case True
        then show ?thesis unfolding run if_not_P [OF os] using out wf(2) g(1,3) 1(3-5) by auto
      next
        case False
        then have f: "\<not> ?lcn < 0" "\<not> 65536 < length (out @ [?run])" by blast+
        show ?thesis unfolding run if_not_P [OF os] if_not_P [OF f(1)] if_not_P [OF f(2)]
          by (rule IH2) (use g os f 1(3-5) wf in simp_all)
      qed
    qed
  qed
qed

lemma decode_runs_wf: "list_all run_wf (decode_runs b) \<and> length (decode_runs b) \<le> length b"
  using run_loop_wf [of "[]" 0 b 0 0] by (simp add: decode_runs_def)

lemma utf16_lossy_length: "length (utf16_lossy us) \<le> length us"
  by (induction us rule: utf16_lossy.induct) (auto split: list.split)

lemma decode_utf16_length: "length (decode_utf16 b off n) \<le> n"
proof -
  have "length (strip_nul v) \<le> length v" for v by (simp add: strip_nul_def) (metis length_dropWhile_le length_rev)
  from this [of "map (\<lambda>i. le16_or_0 b (off + i * 2)) [0..<n]"] show ?thesis
    unfolding decode_utf16_def using order_trans [OF utf16_lossy_length] by simp
qed

lemma mft_ref_lt: "mft_ref x < 2 ^ 48"
proof -
  have "mft_ref x = x AND mask 48" by (simp add: mft_ref_def mask_eq_exp_minus_1)
  also have "\<dots> = x mod 2 ^ 48" by (simp only: take_bit_eq_mask [symmetric] take_bit_eq_mod)
  finally show ?thesis by simp
qed

lemma parse_file_name_wf: "parse_file_name rec off len = Some f \<Longrightarrow> name_wf f"
proof -
  assume p: "parse_file_name rec off len = Some f"
  then obtain c where c: "get_slice rec off (off + len) = Some c" by (auto simp: parse_file_name_def split: option.splits)
  let ?n = "unat (byte_or_0 c 64)"
  have f: "fn_name f = decode_utf16 c 66 ?n" "fn_name f \<noteq> []" "fn_parent f = mft_ref (le64_or_0 c 0)"
    using p c by (auto simp: parse_file_name_def Let_def split: if_splits)
  have "?n \<le> 255" using unat_byte_less [of "byte_or_0 c 64"] by simp
  then have "length (fn_name f) \<le> 255" using f(1) decode_utf16_length [of c 66 ?n] by simp
  then show ?thesis using f(2,3) mft_ref_lt by (simp add: name_wf_def)
qed

lemma parse_attr_wf:
  assumes "a + total_len \<le> length rec" "length rec \<le> u64_max"
  shows "attr_wf (length rec) (parse_attr rec a t total_len)"
proof (cases "byte_or_0 rec (a + 8) \<noteq> 0")
  case True
  let ?s = "unwrap_or (get_slice rec (a + le16_or_0 rec (a + 32)) (a + total_len)) []"
  have "length ?s \<le> length rec" using assms(1) by (auto simp: get_slice_def unwrap_or_def)
  then have "length (decode_runs ?s) \<le> length rec \<and> list_all run_wf (decode_runs ?s)" using decode_runs_wf [of ?s] by simp
  moreover have "le64_or_0 rec (a + 48) \<le> u64_max"
    by (auto simp: le64_or_0_def unwrap_or_def dest!: le_u64_bound split: option.split)
  ultimately show ?thesis using True by (simp add: parse_attr_def Let_def attr_wf_def)
next
  case False
  define c where "c = le16_or_0 rec (a + 20)"
  define m where "m = (if c < total_len then min (le32_or_0 rec (a + 16)) (total_len - c) else 0)"
  have "0 < m \<longrightarrow> a + c + m \<le> length rec" "m \<le> u64_max" using assms by (auto simp: m_def)
  then show ?thesis using False by (simp add: parse_attr_def Let_def attr_wf_def c_def [symmetric] m_def [symmetric])
qed

lemma note_attr_wf:
  assumes "record_wf n r" "attr_wf n at"
  shows "record_wf n (note_attr rec at r)" "length (mr_attrs (note_attr rec at r)) = Suc (length (mr_attrs r))"
proof -
  have "mr_attrs (note_attr rec at r) = mr_attrs r @ [at]"
    by (simp add: note_attr_def Let_def split: option.split)
  moreover have "mr_names (note_attr rec at r) = mr_names r \<or> (\<exists>f. name_wf f \<and> mr_names (note_attr rec at r) = mr_names r @ [f])"
    using parse_file_name_wf by (auto simp: note_attr_def Let_def split: option.split)
  ultimately show "record_wf n (note_attr rec at r)" "length (mr_attrs (note_attr rec at r)) = Suc (length (mr_attrs r))"
    using assms by (auto simp: record_wf_def)
qed

lemma attr_loop_wf:
  "length rec \<le> u64_max \<Longrightarrow> record_wf (length rec) r \<Longrightarrow> guard \<le> 1024 \<Longrightarrow> length (mr_attrs r) = guard \<Longrightarrow>
    record_wf (length rec) (attr_loop rec a guard r) \<and> length (mr_attrs (attr_loop rec a guard r)) \<le> 1024"
proof (induction rec a guard r rule: attr_loop.induct)
  case (1 rec a guard r)
  let ?n = "le32_or_0 rec (a + 4)"
  show ?case
  proof (cases "\<not> (a + 4 \<le> length rec \<and> guard < 1024) \<or> le32_or_0 rec a = attr_end \<or> ?n < 16 \<or> length rec < a + ?n")
    case True
    then have "attr_loop rec a guard r = r" by (subst attr_loop.simps) (auto simp: Let_def)
    then show ?thesis using 1(3-5) by simp
  next
    case False
    then have g: "\<not> \<not> (a + 4 \<le> length rec \<and> guard < 1024)" "le32_or_0 rec a \<noteq> attr_end" "\<not> (?n < 16 \<or> length rec < a + ?n)"
      by simp_all
    have wf: "attr_wf (length rec) (parse_attr rec a (le32_or_0 rec a) ?n)" using g(3) 1(2) by (intro parse_attr_wf) simp_all
    show ?thesis
      unfolding attr_loop.simps [of rec a guard r] Let_def if_not_P [OF g(1)] if_not_P [OF g(2)] if_not_P [OF g(3)]
      by (rule 1(1) [OF g(1) refl refl g(2,3)]) (use 1(2-5) g(1) note_attr_wf [OF 1(3) wf] in simp_all)
  qed
qed

text \<open>Whatever the bytes of a record, what is parsed from it is well formed: at most 1024 attributes,
  resident contents inside the record and as long as they claim, no content and at most as many runs as
  the record has bytes otherwise, run positions and lengths in range, names that are not empty.\<close>

theorem ntfs_record_wf:
  assumes "mft_parse buf = Some r" "length buf \<le> u64_max"
  shows "record_wf (length buf) r \<and> length (mr_attrs r) \<le> 1024"
proof -
  let ?rec = "apply_fixup buf"
  obtain r0 where r: "r = attr_loop ?rec (le16_or_0 ?rec 20) 0 r0" "mr_attrs r0 = []" "mr_names r0 = []"
    using assms(1) by (auto simp: mft_parse_def Let_def split: if_splits)
  have "record_wf (length ?rec) r0" using r by (simp add: record_wf_def)
  then show ?thesis using attr_loop_wf [of ?rec r0 0 "le16_or_0 ?rec 20"] r assms(2) by simp
qed

section \<open>Paths\<close>

text \<open>The named records from \<open>cur\<close> up to the root, none of them the record itself.\<close>

fun climbs :: "dir_names \<Rightarrow> nat \<Rightarrow> nat \<Rightarrow> ustring list \<Rightarrow> bool" where
  "climbs dirs rec_no cur [] \<longleftrightarrow> cur = root_ref"
| "climbs dirs rec_no cur (n # ns) \<longleftrightarrow>
     cur \<noteq> root_ref \<and> cur \<noteq> rec_no \<and> n \<noteq> [] \<and> (\<exists>p. dirs cur = Some (n, p) \<and> climbs dirs rec_no p ns)"

lemma parent_names_climbs:
  "climbs dirs rec_no cur ns \<Longrightarrow> guard + length ns \<le> 256 \<Longrightarrow> parent_names dirs rec_no cur guard parts = parts @ ns"
proof (induction ns arbitrary: cur guard parts)
  case Nil
  then show ?case by (subst parent_names.simps) simp
next
  case (Cons n ns)
  then obtain p where p: "dirs cur = Some (n, p)" "climbs dirs rec_no p ns" by auto
  have "parent_names dirs rec_no cur guard parts = parent_names dirs rec_no p (guard + 1) (parts @ [n])"
    using Cons.prems p by (subst parent_names.simps) simp
  then show ?case using Cons.IH [OF p(2), of "guard + 1" "parts @ [n]"] Cons.prems(2) by simp
qed

lemma parent_names_extends:
  "guard \<le> 256 \<Longrightarrow> \<exists>ns. parent_names dirs rec_no cur guard parts = parts @ ns \<and> length ns \<le> 256 - guard \<and> (\<forall>n \<in> set ns. n \<noteq> [])"
proof (induction dirs rec_no cur guard parts rule: parent_names.induct)
  case (1 dirs rec_no cur guard parts)
  show ?case
  proof (cases "cur \<noteq> root_ref \<and> cur \<noteq> rec_no \<and> guard < 256 \<and> (\<exists>n p. dirs cur = Some (n, p) \<and> n \<noteq> [])")
    case False
    then have "parent_names dirs rec_no cur guard parts = parts"
      by (subst parent_names.simps) (auto split: option.split)
    then show ?thesis by simp
  next
    case True
    then obtain n p where np: "dirs cur = Some (n, p)" "n \<noteq> []" by blast
    have run: "parent_names dirs rec_no cur guard parts = parent_names dirs rec_no p (guard + 1) (parts @ [n])"
      using True np by (subst parent_names.simps) simp
    obtain ns where "parent_names dirs rec_no p (guard + 1) (parts @ [n]) = (parts @ [n]) @ ns" "length ns \<le> 256 - (guard + 1)" "\<forall>n \<in> set ns. n \<noteq> []"
      using 1(1) [OF _ np(1) refl np(2)] True by auto
    then show ?thesis using run np(2) True by (intro exI [of _ "n # ns"]) auto
  qed
qed

text \<open>A record whose parents lead to the root in at most 256 steps gets the path of their names, outermost
  first, ending in its own.\<close>

theorem ntfs_path_exact:
  assumes "climbs dirs rec_no parent ns" "length ns \<le> 256"
  shows "resolve_path rec_no parent name dirs = join_path (rev ns @ [name])"
  using parent_names_climbs [OF assms(1), of 0 "[name]"] assms(2) by (simp add: resolve_path_def)

lemma join_path_snoc: "join_path (ps @ [n]) = (if ps = [] then n else join_path ps @ [slash] @ n)"
  by (induction ps rule: join_path.induct) auto

lemma resolve_path_ends: "\<exists>pre. resolve_path rec_no parent name dirs = pre @ name \<and> (pre = [] \<or> last pre = slash)"
proof -
  obtain ns where "parent_names dirs rec_no parent 0 [name] = name # ns"
    using parent_names_extends [of 0 dirs rec_no parent "[name]"] by auto
  then have "resolve_path rec_no parent name dirs = join_path (rev ns @ [name])" by (simp add: resolve_path_def)
  then show ?thesis unfolding join_path_snoc by (intro exI [of _ "if rev ns = [] then [] else join_path (rev ns) @ [slash]"]) simp
qed

section \<open>The walk\<close>

definition ntfs_entry_ok :: "walk_opts \<Rightarrow> entry \<Rightarrow> bool" where
  "ntfs_entry_ok opts e \<longleftrightarrow>
     en_name e \<noteq> [] \<and> (if en_state e = Live then wo_live opts else wo_deleted opts) \<and>
     \<not> (en_state e = Live \<and> starts_dollar (en_name e) \<and> en_id e < 16) \<and>
     (en_state e = Orphaned \<and> en_path e = None \<or> (\<exists>pre. en_path e = Some (pre @ en_name e) \<and> (pre = [] \<or> last pre = slash))) \<and>
     sum_list (map ex_len (en_extents e)) \<le> en_size e"

definition ntfs_walk_ok :: "walk_opts \<Rightarrow> walk \<Rightarrow> bool" where
  "ntfs_walk_ok opts w \<longleftrightarrow> walk_ok w \<and> wk_emitted w \<le> wo_max opts \<and> (\<forall>e \<in> set (wk_out w). ntfs_entry_ok opts e)"

lemma ntfs_walk_ok_emit: "ntfs_walk_ok opts w \<Longrightarrow> ntfs_entry_ok opts e \<Longrightarrow> wk_emitted w < wo_max opts \<Longrightarrow> ntfs_walk_ok opts (emit e w)"
  by (auto simp: ntfs_walk_ok_def)

definition raw_ok :: "raw_file \<Rightarrow> bool" where
  "raw_ok raw \<longleftrightarrow> rw_name raw \<noteq> [] \<and> sum_list (map ex_len (rw_extents raw)) \<le> rw_size raw"

lemma best_of_mem: "best_of fs = Some f \<Longrightarrow> f \<in> set fs"
  by (induction fs arbitrary: f) (auto split: option.splits if_splits)

lemma best_file_name_named: "best_file_name r = Some f \<Longrightarrow> fn_name f \<noteq> []"
  by (auto simp: best_file_name_def dest!: best_of_mem)

lemma to_raw_ok: "to_raw v n parsed = Some raw \<Longrightarrow> raw_ok raw"
  using best_file_name_named [of parsed] run_extents_sum
  by (auto simp: to_raw_def Let_def raw_ok_def runs_to_extents_def split: option.splits if_splits)

lemma pass1_record_ok: "\<forall>raw \<in> set (p1_raws st). raw_ok raw \<Longrightarrow> \<forall>raw \<in> set (p1_raws (pass1_record v n parsed st)). raw_ok raw"
proof (cases "to_raw v n parsed")
  case (Some raw)
  assume st: "\<forall>raw \<in> set (p1_raws st). raw_ok raw"
  have "p1_raws (pass1_record v n parsed st) = p1_raws st @ [raw]"
    using Some by (simp add: pass1_record_def Let_def split: option.split)
  then show ?thesis using st to_raw_ok [OF Some] by auto
qed (simp add: pass1_record_def)

lemma ntfs_pass1_ok: "\<forall>raw \<in> set (p1_raws st). raw_ok raw \<Longrightarrow> \<forall>raw \<in> set (p1_raws (ntfs_pass1 v n count st)). raw_ok raw"
proof (induction v n count st rule: ntfs_pass1.induct)
  case (1 v n count st)
  show ?case
  proof (cases "count \<le> n \<or> record_offset v n = None")
    case True
    then show ?thesis using 1(2) by (subst ntfs_pass1.simps) auto
  next
    case False
    then obtain off where off: "record_offset v n = Some off" by auto
    let ?st = "case read_record_at v off of None \<Rightarrow> st | Some rec \<Rightarrow> (case mft_parse rec of None \<Rightarrow> st | Some parsed \<Rightarrow> pass1_record v n parsed st)"
    have "\<forall>raw \<in> set (p1_raws ?st). raw_ok raw" using 1(2) pass1_record_ok by (simp split: option.split)
    then show ?thesis using 1(1) [OF _ off] False off by (subst ntfs_pass1.simps) simp
  qed
qed

lemma raw_entry_ok:
  assumes "raw_ok raw" "rw_in_use raw \<and> wo_live opts \<or> \<not> rw_in_use raw \<and> wo_deleted opts"
    and "\<not> (rw_in_use raw \<and> starts_dollar (rw_name raw) \<and> rw_no raw < 16)"
  shows "ntfs_entry_ok opts (raw_entry bm dirs raw)"
  using assms resolve_path_ends [of "rw_no raw" "rw_parent raw" "rw_name raw" dirs]
  by (cases "rw_in_use raw") (simp_all add: ntfs_entry_ok_def raw_entry_def new_file_def raw_ok_def)

lemma ntfs_pass2_ok:
  "ntfs_walk_ok opts w \<Longrightarrow> \<forall>raw \<in> set raws. raw_ok raw \<Longrightarrow> ntfs_walk_ok opts (ntfs_pass2 opts bm dirs raws w)"
proof (induction opts bm dirs raws w rule: ntfs_pass2.induct)
  case (2 opts bm dirs raw raws w)
  let ?w = "w\<lparr>wk_visited := insert (rw_no raw) (wk_visited w)\<rparr>"
  have w: "ntfs_walk_ok opts ?w" using 2(4) by (simp add: ntfs_walk_ok_def)
  show ?case
  proof (cases "wo_max opts \<le> wk_emitted w")
    case False
    consider (skip) "\<not> (rw_in_use raw \<and> wo_live opts \<or> \<not> rw_in_use raw \<and> wo_deleted opts)"
      | (system) "rw_in_use raw \<and> wo_live opts \<or> \<not> rw_in_use raw \<and> wo_deleted opts" "rw_in_use raw \<and> starts_dollar (rw_name raw) \<and> rw_no raw < 16"
      | (out) "rw_in_use raw \<and> wo_live opts \<or> \<not> rw_in_use raw \<and> wo_deleted opts" "\<not> (rw_in_use raw \<and> starts_dollar (rw_name raw) \<and> rw_no raw < 16)"
      by blast
    then show ?thesis
    proof cases
      case skip
      then show ?thesis using 2(1) [OF False refl skip w] 2(5) False by simp
    next
      case system
      then show ?thesis using 2(2) [OF False refl _ system(2) w] 2(5) False by simp
    next
      case out
      have "ntfs_walk_ok opts (emit (raw_entry bm dirs raw) ?w)"
        using w False raw_entry_ok [OF _ out] 2(5) by (intro ntfs_walk_ok_emit) simp_all
      then have IH: "ntfs_walk_ok opts (ntfs_pass2 opts bm dirs raws (emit (raw_entry bm dirs raw) ?w))"
        using 2(3) [OF False refl _ out(2)] 2(5) out(1) by simp
      have c: "\<not> \<not> (rw_in_use raw \<and> wo_live opts \<or> \<not> rw_in_use raw \<and> wo_deleted opts)" using out(1) by simp
      show ?thesis using IH unfolding ntfs_pass2.simps Let_def if_not_P [OF False] if_not_P [OF c] if_not_P [OF out(2)] .
    qed
  qed (use 2(4) in simp)
qed simp

lemma orphan_entry_ok: "orphan_entry v off = Some e \<Longrightarrow> wo_deleted opts \<Longrightarrow> ntfs_entry_ok opts e"
proof -
  assume e: "orphan_entry v off = Some e" and opts: "wo_deleted opts"
  then obtain parsed f where p: "best_file_name parsed = Some f"
      "e = (let data = (case unnamed_data parsed of None \<Rightarrow> (0, [])
              | Some d \<Rightarrow> if at_resident d then (0, []) else (at_real_size d, attr_extents v d))
            in (new_file (0xFFFF000000000000 OR off) (fn_name f) (fn_raw f) (fst data) Orphaned)
               \<lparr>en_parent_id := Some (fn_parent f), en_extents := snd data, en_confidence := [55]\<rparr>)"
    by (auto simp: orphan_entry_def split: option.splits if_splits)
  have "fn_name f \<noteq> []" by (rule best_file_name_named [OF p(1)])
  then show ?thesis using opts run_extents_sum unfolding p(2)
    by (simp add: ntfs_entry_ok_def new_file_def Let_def attr_extents_def runs_to_extents_def split: option.split)
qed

lemma orphan_loop_ok:
  assumes "nt_total v < u64_max" "wo_deleted opts"
  shows "ntfs_walk_ok opts w \<Longrightarrow> \<exists>w1. orphan_loop v opts off found w = Some w1 \<and> ntfs_walk_ok opts w1"
proof (induction "nt_total v - off" arbitrary: off found w rule: less_induct)
  case less
  let ?next = "sat_add64 off (max (nt_record_size v) 1024)"
  show ?case
  proof (cases "\<not> (sat_add64 off 4 \<le> nt_total v \<and> wk_emitted w < wo_max opts) \<or> 100000 \<le> found")
    case True
    then show ?thesis using less(2) by (subst orphan_loop.simps) auto
  next
    case False
    then have go: "off + 4 \<le> nt_total v" "wk_emitted w < wo_max opts" "\<not> 100000 \<le> found"
      "\<not> \<not> (sat_add64 off 4 \<le> nt_total v \<and> wk_emitted w < wo_max opts)"
      using assms(1) by (auto simp: sat_add64_def min_def split: if_splits)
    have "off < ?next" using go(1) assms(1) by (simp add: sat_add64_def)
    then have IH: "ntfs_walk_ok opts w1 \<Longrightarrow> \<exists>w2. orphan_loop v opts ?next k w1 = Some w2 \<and> ntfs_walk_ok opts w2" for k w1
      using less(1) [of ?next w1 k] go(1) by simp
    note run = orphan_loop.simps [of v opts off found w, unfolded if_not_P [OF go(4)] if_not_P [OF go(3)]]
    show ?thesis
    proof (cases "in_mft off (nt_mft_extents v) \<or> orphan_entry v off = None")
      case True
      then show ?thesis using IH [OF less(2)] unfolding run by auto
    next
      case False
      then obtain e where e: "orphan_entry v off = Some e" by auto
      show ?thesis using IH [OF ntfs_walk_ok_emit [OF less(2) orphan_entry_ok [OF e assms(2)] go(2)]] False e unfolding run by simp
    qed
  qed
qed

lemma scan_orphans_ok:
  assumes "nt_total v < u64_max" "ntfs_walk_ok opts w"
  shows "\<exists>w1. scan_orphans v opts w = Some w1 \<and> ntfs_walk_ok opts w1"
  using orphan_loop_ok [OF assms(1) _ assms(2), of 0 0] assms(2) by (auto simp: scan_orphans_def)

lemma mine_loop_ok:
  "wo_deleted opts \<Longrightarrow> ntfs_walk_ok opts w \<Longrightarrow> \<forall>m \<in> set ms. mn_name m \<noteq> [] \<Longrightarrow> ntfs_walk_ok opts (mine_loop opts dirs ms emitted seen w)"
proof (induction opts dirs ms emitted seen w rule: mine_loop.induct)
  case (2 opts dirs m ms emitted seen w)
  have "ntfs_entry_ok opts (mined_entry dirs m)"
    using 2(4,6) resolve_path_ends [of "mn_ref m" "mn_parent m" "mn_name m" dirs] by (simp add: ntfs_entry_ok_def mined_entry_def new_file_def)
  then have "wk_emitted w < wo_max opts \<Longrightarrow> ntfs_walk_ok opts (emit (mined_entry dirs m) w)" by (rule ntfs_walk_ok_emit [OF 2(5)])
  then show ?case using 2 by (simp add: not_le)
qed simp

lemma if_prop: "(b \<Longrightarrow> \<forall>m \<in> set x. P m) \<Longrightarrow> (\<not> b \<Longrightarrow> \<forall>m \<in> set y. P m) \<Longrightarrow> \<forall>m \<in> set (if b then x else y). P m"
  by simp

lemma usn_loop_named: "\<forall>m \<in> set out. mn_name m \<noteq> [] \<Longrightarrow> \<forall>m \<in> set (usn_loop data pos guard out). mn_name m \<noteq> []"
proof (induction data pos guard out rule: usn_loop.induct)
  case (1 data pos guard out)
  let ?len = "le32_or_0 data pos" and ?major = "le16_or_0 data (pos + 4)" and ?n = "le16_or_0 data (pos + 56)" and ?off = "le16_or_0 data (pos + 58)"
  define name where "name = decode_utf16 data (pos + ?off) (min (?n div 2) 255)"
  define out1 where "out1 = (if 2 \<le> ?n \<and> ?off + ?n \<le> ?len \<and> name \<noteq> []
    then out @ [\<lparr>mn_name = name, mn_ref = mft_ref (le64_or_0 data (pos + 8)), mn_parent = mft_ref (le64_or_0 data (pos + 16))\<rparr>] else out)"
  have out1: "\<forall>m \<in> set out1. mn_name m \<noteq> []" using 1(4) by (simp add: out1_def)
  show ?case
  proof (cases "pos + 60 \<le> length data \<and> guard < 5000000")
    case True
    then have g: "\<not> \<not> (pos + 60 \<le> length data \<and> guard < 5000000)" by simp
    note IH = 1(1) [OF g refl refl] 1(2) [OF g refl refl] 1(3) [OF g refl refl _ _ refl refl name_def out1_def]
    show ?thesis
      unfolding usn_loop.simps [of data pos guard out] Let_def if_not_P [OF g] name_def [symmetric] out1_def [symmetric]
      by (intro if_prop) (use IH 1(4) out1 in blast)+
  qed (use 1(4) in \<open>simp add: usn_loop.simps\<close>)
qed

lemma indx_block_named: "\<forall>m \<in> set out. mn_name m \<noteq> [] \<Longrightarrow> \<forall>m \<in> set (indx_block_loop region i out). mn_name m \<noteq> []"
proof (induction region i out rule: indx_block_loop.induct)
  case (1 region i out)
  define name where "name = decode_utf16 region (i + 16 + 0x42) (min (unat (byte_or_0 region (i + 16 + 0x40))) 255)"
  show ?case
  proof (cases "length region < i + 0x52")
    case False
    show ?thesis
      unfolding indx_block_loop.simps [of region i out] Let_def if_not_P [OF False] name_def [symmetric]
      by (intro if_prop 1(1) [OF False refl refl refl refl _ refl] 1(2) [OF False refl refl refl refl])
        (rule name_def refl | use 1(3) in \<open>simp split: if_split\<close>)+
  qed (use 1(3) in \<open>simp add: indx_block_loop.simps\<close>)
qed

lemma indx_loop_named: "\<forall>m \<in> set out. mn_name m \<noteq> [] \<Longrightarrow> \<forall>m \<in> set (indx_loop data base out). mn_name m \<noteq> []"
proof (induction data base out rule: indx_loop.induct)
  case (1 data base out)
  have block: "\<forall>m \<in> set (scan_block_for_names data base len out). mn_name m \<noteq> []" for len
    using indx_block_named [OF 1(2)] 1(2) by (auto simp: scan_block_for_names_def split: option.split)
  show ?case using 1 block by (subst indx_loop.simps) (simp add: Let_def)
qed

lemma mine_names_ok:
  assumes "ntfs_walk_ok opts w"
  shows "ntfs_walk_ok opts (mine_names v opts st w)"
proof (cases "wo_deleted opts")
  case True
  have named: "m \<in> set (parse_usn_stream d) \<Longrightarrow> mn_name m \<noteq> []" "m \<in> set (scan_indx_names d) \<Longrightarrow> mn_name m \<noteq> []" for m d
    using usn_loop_named [of "[]" d 0 0] indx_loop_named [of "[]" d 0] by (auto simp: parse_usn_stream_def scan_indx_names_def)
  have n: "\<not> \<not> wo_deleted opts" using True by simp
  show ?thesis unfolding mine_names_def Let_def if_not_P [OF n]
    by (rule mine_loop_ok [OF True assms]) (auto dest: named split: option.splits if_splits)
qed (use assms in \<open>simp add: mine_names_def\<close>)

text \<open>C20: On any source shorter than the largest 64-bit number, the walk ends; it reports at most
  \<open>max_entries\<close> entries, its statistics count them, and every one has a name, a state the options ask
  for, extents within its size and, orphaned records apart, a path that ends in its name.\<close>

theorem ntfs_walk_sound:
  assumes "ntfs_open src = Inr v" "s_len src < u64_max"
  shows "\<exists>w. ntfs_walk v opts = Some w \<and> walk_ok w \<and> length (wk_out w) \<le> wo_max opts \<and> (\<forall>e \<in> set (wk_out w). ntfs_entry_ok opts e)"
proof -
  have total: "nt_total v < u64_max"
    using assms by (auto simp: ntfs_open_def Let_def split: if_splits option.splits)
  let ?st = "ntfs_pass1 v 0 (min (record_count v) (wadd64 (wo_max opts) 64)) \<lparr>p1_raws = [], p1_dirs = (\<lambda>_. None), p1_usn = None, p1_i30 = []\<rparr>"
  let ?w = "ntfs_pass2 opts (ntfs_load_bitmap v) (p1_dirs ?st) (p1_raws ?st) walk_start"
  have "ntfs_walk_ok opts walk_start" by (simp add: ntfs_walk_ok_def) (simp add: walk_start_def)
  moreover have "\<forall>raw \<in> set (p1_raws ?st). raw_ok raw" by (rule ntfs_pass1_ok) simp
  ultimately have w: "ntfs_walk_ok opts ?w" by (rule ntfs_pass2_ok)
  then obtain w1 where w1: "scan_orphans v opts ?w = Some w1" "ntfs_walk_ok opts w1"
    using scan_orphans_ok [OF total w] by blast
  have "ntfs_walk_ok opts (mine_names v opts ?st w1)" by (rule mine_names_ok [OF w1(2)])
  then show ?thesis using w1(1) by (simp add: ntfs_walk_def Let_def ntfs_walk_ok_def walk_ok_def)
qed

section \<open>Instances\<close>

definition witness_medium :: medium where
  "witness_medium = good_medium [(0, [1, 2, 3])]"

theorem ntfs_extents_exact_witness:
  "map Some (xbytes witness_medium (runs_to_extents [\<lparr>dr_lcn = 3, dr_length = 1, dr_sparse = False\<rparr>, \<lparr>dr_lcn = 0, dr_length = 1, dr_sparse = True\<rparr>,
      \<lparr>dr_lcn = 9, dr_length = 2, dr_sparse = False\<rparr>] 2 5)) = map Some (medium_bytes witness_medium 6 2 @ medium_bytes witness_medium 18 1)"
  using ntfs_extents_exact [of "[\<lparr>dr_lcn = 3, dr_length = 1, dr_sparse = False\<rparr>, \<lparr>dr_lcn = 0, dr_length = 1, dr_sparse = True\<rparr>,
      \<lparr>dr_lcn = 9, dr_length = 2, dr_sparse = False\<rparr>]" 2 witness_medium 5]
  by (simp add: run_small_def run_content_def take_map take_medium numeral_2_eq_2)

definition mft_sample :: ntfs where
  "mft_sample = \<lparr>nt_src = medium_source (good_medium []) 512 8192, nt_cluster_size = 1024, nt_mft_offset = 2048, nt_record_size = 1024,
     nt_total = 8192, nt_serial = 0, nt_mft_extents = [\<lparr>ex_off = 2048, ex_len = 1024\<rparr>, \<lparr>ex_off = 5120, ex_len = 2048\<rparr>]\<rparr>"

theorem ntfs_record_located_witness:
  "\<exists>x. record_offset mft_sample 2 = Some x \<and> medium_bytes witness_medium x 1024 = take 1024 (drop 2048 (xbytes witness_medium (nt_mft_extents mft_sample)))"
  using ntfs_record_located [of mft_sample 2 witness_medium] by (simp add: mft_sample_def)

theorem ntfs_runs_roundtrip_witness:
  "decode_runs (encode_runs 0 [(\<lparr>dr_lcn = 32, dr_length = 4, dr_sparse = False\<rparr>, 1, 1), (\<lparr>dr_lcn = 0, dr_length = 5, dr_sparse = True\<rparr>, 2, 0),
      (\<lparr>dr_lcn = 16, dr_length = 4, dr_sparse = False\<rparr>, 1, 8)] @ 0 # [7])
    = [\<lparr>dr_lcn = 32, dr_length = 4, dr_sparse = False\<rparr>, \<lparr>dr_lcn = 0, dr_length = 5, dr_sparse = True\<rparr>, \<lparr>dr_lcn = 16, dr_length = 4, dr_sparse = False\<rparr>]"
  using ntfs_runs_roundtrip [of "[(\<lparr>dr_lcn = 32, dr_length = 4, dr_sparse = False\<rparr>, 1, 1), (\<lparr>dr_lcn = 0, dr_length = 5, dr_sparse = True\<rparr>, 2, 0),
      (\<lparr>dr_lcn = 16, dr_length = 4, dr_sparse = False\<rparr>, 1, 8)]" "[7]"]
  by (simp add: fits_signed_def)

text \<open>A record of two strides with its array at byte 48.\<close>

definition stride_sample :: bytes where
  "stride_sample = zeros 4 @ [48, 0, 3, 0] @ zeros 502 @ [7, 8] @ zeros 510 @ [9, 10]"

theorem ntfs_fixup_restores_witness:
  "apply_fixup (protect 48 2 [1, 0] stride_sample) ! 511 = 8 \<and> apply_fixup (protect 48 2 [1, 0] stride_sample) ! 1022 = 9"
proof -
  have "le16_or_0 stride_sample 4 = 48" "le16_or_0 stride_sample 6 = Suc 2"
    by (simp_all add: stride_sample_def le16_or_0_def le_u16_def get_slice_def unwrap_or_def)
  moreover have "length stride_sample = 2 * 512" "stride_sample ! 511 = 8" "stride_sample ! 1022 = 9"
    by (simp_all add: stride_sample_def nth_append)
  ultimately show ?thesis
    using ntfs_fixup_restores [of stride_sample 48 2 511 "[1, 0]"] ntfs_fixup_restores [of stride_sample 48 2 1022 "[1, 0]"] by simp
qed

theorem ntfs_record_wf_witness:
  "\<exists>r. mft_parse (file_magic @ zeros 60) = Some r \<and> record_wf 64 r"
proof -
  have magic: "get_slice (file_magic @ zeros 60) 0 4 = Some file_magic" by (simp add: get_slice_def file_magic_def)
  then obtain r where r: "mft_parse (file_magic @ zeros 60) = Some r" by (simp add: mft_parse_def Let_def)
  then show ?thesis using ntfs_record_wf [OF r] by (simp add: file_magic_def)
qed

theorem ntfs_path_exact_witness:
  "resolve_path 100 65 [112] [64 \<mapsto> ([85], 5), 65 \<mapsto> ([109, 101], 64)] = [85, 47, 109, 101, 47, 112]"
  using ntfs_path_exact [of "[64 \<mapsto> ([85], 5), 65 \<mapsto> ([109, 101], 64)]" 100 65 "[[109, 101], [85]]" "[112]"]
  by (simp add: root_ref_def slash_def)

text \<open>A volume of 16 sectors whose MFT is gone.\<close>

definition ntfs_image :: "(nat \<times> bytes) list" where
  "ntfs_image = [(3, [0x4E, 0x54, 0x46, 0x53, 0x20, 0x20, 0x20, 0x20, 0, 2, 1]), (40, [16]), (48, [4]), (64, [0xF6])]"

abbreviation ntfs_fixture :: source where
  "ntfs_fixture \<equiv> medium_source (good_medium ntfs_image) 512 8192"

theorem ntfs_walk_sound_witness:
  "\<exists>v w. ntfs_open ntfs_fixture = Inr v \<and> ntfs_walk v walk_opts_default = Some w \<and> walk_ok w"
proof -
  let ?b = "medium_bytes (good_medium ntfs_image) 0 512"
  have read: "fs_read ntfs_fixture 0 512 = ?b"
    by (rule fs_read_inside [OF fixture_presents]) (simp_all add: medium_source_def)
  have f: "ntfs_oem ?b" "le16_or_0 ?b 11 = 512" "byte_or_0 ?b 13 = 1" "byte_or_0 ?b 64 = 0xF6"
    by (simp_all add: ntfs_oem_def ntfs_image_def le16_or_0_def byte_or_0_def unwrap_or_def medium_simps)
  have cs: "cluster_size_from_boot ?b 512 = Some 512" using f(3) by (simp add: cluster_size_from_boot_def sat_mul64_def Let_def)
  have "mft_record_size 0xF6 512 = 1024" by (simp add: mft_record_size_def)
  then obtain v where v: "ntfs_open ntfs_fixture = Inr v" using f cs by (simp add: ntfs_open_def read Let_def)
  then show ?thesis using ntfs_walk_sound [OF v, of walk_opts_default] by (auto simp: medium_source_def)
qed

end
