(* ===== verification/ExtBase.thy ===== *)
theory ExtBase
  imports ClusterRuns Dates
begin

text \<open>
  The structures of the ext2/3/4 engine: superblock and group descriptors (\<^verbatim>\<open>crates/fs-ext/src/sb.rs\<close>),
  inodes with their extent trees and block maps (\<^verbatim>\<open>inode.rs\<close>), directory blocks (\<^verbatim>\<open>dir.rs\<close>).
\<close>

unbundle bit_operations_syntax

section \<open>Superblock\<close>

definition ext_magic :: nat where "ext_magic = 0xEF53"
definition sb_off :: nat where "sb_off = 1024"
definition incompat_64bit :: nat where "incompat_64bit = 0x0080"

record group_desc =
  gd_block_bitmap :: nat
  gd_inode_table :: nat

record superblock =
  sp_block_size :: nat
  sp_inode_size :: nat
  sp_inodes_count :: nat
  sp_blocks_count :: nat
  sp_first_data_block :: nat
  sp_blocks_per_group :: nat
  sp_inodes_per_group :: nat
  sp_desc_size :: nat
  sp_64bit :: bool
  sp_journal_inum :: nat
  sp_label :: "ustring option"
  sp_uuid :: "ustring option"
  sp_groups :: "group_desc list"
  sp_found_at :: nat

definition inode_location :: "superblock \<Rightarrow> nat \<Rightarrow> nat option" where
  "inode_location sb ino =
     (if ino = 0 \<or> sp_inodes_per_group sb = 0 then None
      else
        let group = (ino - 1) div sp_inodes_per_group sb;
            index = (ino - 1) mod sp_inodes_per_group sb
        in case get_at (sp_groups sb) group of
             None \<Rightarrow> None
           | Some gd \<Rightarrow> Some (sat_add64 (sat_mul64 (gd_inode_table gd) (sp_block_size sb)) (sat_mul64 index (sp_inode_size sb))))"

definition group_count :: "superblock \<Rightarrow> nat" where
  "group_count sb =
     (if sp_blocks_per_group sb = 0 then 0 else div_ceil (sp_blocks_count sb - sp_first_data_block sb) (sp_blocks_per_group sb))"

definition probe_blocks_per_group :: "nat \<Rightarrow> nat" where
  "probe_blocks_per_group block_size = block_size * 8"

definition first_data_block_for :: "nat \<Rightarrow> nat" where
  "first_data_block_for block_size = (if block_size = 1024 then 1 else 0)"

text \<open>The powers of a base below a limit, in \<^verbatim>\<open>u32\<close>.\<close>

function powers_below :: "nat \<Rightarrow> nat \<Rightarrow> nat \<Rightarrow> nat list" where
  "powers_below base limit p =
     (if \<not> p < limit \<or> base < 2 \<or> p = 0 \<or> 2 ^ 32 - 1 \<le> p then []
      else p # powers_below base limit (min (p * base) (2 ^ 32 - 1)))"
  by pat_completeness auto
termination
proof (relation "measure (\<lambda>(base, limit, p). 2 ^ 32 - 1 - p)")
  fix base limit p :: nat
  assume a: "\<not> (\<not> p < limit \<or> base < 2 \<or> p = 0 \<or> 2 ^ 32 - 1 \<le> p)"
  then have "p * 2 \<le> p * base" "0 < p" by simp_all
  then have "p < min (p * base) (2 ^ 32 - 1)" using a by simp
  then show "((base, limit, min (p * base) (2 ^ 32 - 1)), (base, limit, p)) \<in> measure (\<lambda>(base, limit, p). 2 ^ 32 - 1 - p)"
    using a by (simp only: in_measure prod.case)
qed simp

declare powers_below.simps [simp del]

definition backup_groups :: "nat \<Rightarrow> nat list" where
  "backup_groups limit = remdups_adj (sort (1 # concat (map (\<lambda>base. powers_below base limit base) [3, 5, 7])))"

definition read_lo_hi :: "bytes \<Rightarrow> nat \<Rightarrow> nat \<Rightarrow> bool \<Rightarrow> nat" where
  "read_lo_hi b lo hi has64 = (if has64 then le32_or_0 b lo + le32_or_0 b hi * 2 ^ 32 else le32_or_0 b lo)"

definition ext_read_str :: "bytes \<Rightarrow> nat \<Rightarrow> nat \<Rightarrow> ustring option" where
  "ext_read_str b off len =
     (case get_slice b off (off + len) of
        None \<Rightarrow> None
      | Some s \<Rightarrow> (let t = utf8_lossy (takeWhile (\<lambda>c. c \<noteq> 0) s) in if t = [] then None else Some t))"

definition ext_read_uuid :: "bytes \<Rightarrow> nat \<Rightarrow> ustring option" where
  "ext_read_uuid b off =
     (case get_slice b off (off + 16) of
        None \<Rightarrow> None
      | Some u \<Rightarrow> if list_all (\<lambda>x. x = 0) u then None else Some (concat (map (\<lambda>x. [hex_low (unat x div 16), hex_low (unat x mod 16)]) u)))"

definition read_group_descs :: "source \<Rightarrow> superblock \<Rightarrow> group_desc list" where
  "read_group_descs src sb =
     (let addressable = sat_add64 (div_ceil (s_len src div max (sp_block_size sb) 1) (max (sp_blocks_per_group sb) 1)) 1;
          ngroups = min (min (group_count sb) addressable) 65536
      in if ngroups = 0 then []
         else
           let gdt_off = sat_mul64 (sp_first_data_block sb + 1) (sp_block_size sb);
               whole = min (sat_mul64 ngroups (sp_desc_size sb)) (s_len src - gdt_off);
               b = fs_read src gdt_off whole
           in map (\<lambda>g. let base = g * sp_desc_size sb in
                \<lparr>gd_block_bitmap = read_lo_hi b base (base + 0x20) (sp_64bit sb),
                 gd_inode_table = read_lo_hi b (base + 8) (base + 0x28) (sp_64bit sb)\<rparr>) [0..<ngroups])"

text \<open>\<^verbatim>\<open>parse_at\<close>: a superblock without readable group descriptors is none.\<close>

definition ext_parse_at :: "source \<Rightarrow> nat \<Rightarrow> nat \<Rightarrow> superblock option" where
  "ext_parse_at src off found_group =
     (let sb = fs_read src off 1024;
          log_bs = le32_or_0 sb 0x18;
          rev = le32_or_0 sb 0x4C;
          inode_size = (if 1 \<le> rev then max (le16_or_0 sb 0x58) 128 else 128);
          has64 = (le32_or_0 sb 0x60 AND incompat_64bit \<noteq> 0);
          d = le16_or_0 sb 0xFE;
          blocks_lo = le32_or_0 sb 0x04
      in if le16_or_0 sb 0x38 \<noteq> ext_magic then None
         else if 6 < log_bs then None
         else if has64 \<and> (\<not> (64 \<le> d \<and> d \<le> 1024) \<or> \<not> is_power_of_two d) then None
         else if le32_or_0 sb 0x20 = 0 \<or> le32_or_0 sb 0x28 = 0 \<or> inode_size = 0 then None
         else
           let me = \<lparr>sp_block_size = 1024 * 2 ^ log_bs, sp_inode_size = inode_size, sp_inodes_count = le32_or_0 sb 0x00,
                 sp_blocks_count = (if has64 then le32_or_0 sb 0x150 * 2 ^ 32 + blocks_lo else blocks_lo),
                 sp_first_data_block = le32_or_0 sb 0x14, sp_blocks_per_group = le32_or_0 sb 0x20, sp_inodes_per_group = le32_or_0 sb 0x28,
                 sp_desc_size = (if has64 then d else 32), sp_64bit = has64, sp_journal_inum = le32_or_0 sb 0xE0,
                 sp_label = ext_read_str sb 0x78 16, sp_uuid = ext_read_uuid sb 0x68, sp_groups = [], sp_found_at = found_group\<rparr>;
               groups = read_group_descs src me
           in if groups = [] then None else Some (me\<lparr>sp_groups := groups\<rparr>))"

text \<open>A backup is looked for where it is for each block size; it counts when its own block size is that one.\<close>

fun find_backup :: "source \<Rightarrow> (nat \<times> nat) list \<Rightarrow> superblock option" where
  "find_backup src [] = None"
| "find_backup src ((g, bs) # r) =
     (let off = sat_mul64 (g * probe_blocks_per_group bs + first_data_block_for bs) bs in
      case ext_parse_at src off g of
        Some sb \<Rightarrow> if sp_block_size sb = bs then Some sb else find_backup src r
      | None \<Rightarrow> find_backup src r)"

definition read_superblock :: "source \<Rightarrow> superblock option" where
  "read_superblock src =
     (case ext_parse_at src sb_off 0 of
        Some sb \<Rightarrow> Some sb
      | None \<Rightarrow> find_backup src (concat (map (\<lambda>g. map (\<lambda>bs. (g, bs)) [1024, 4096, 2048, 8192, 16384, 32768, 65536]) (backup_groups 4096))))"

section \<open>Inodes\<close>

definition extent_magic :: nat where "extent_magic = 0xF30A"
definition extents_fl :: nat where "extents_fl = 0x00080000"
definition s_ifmt :: nat where "s_ifmt = 0xF000"
definition s_ifreg :: nat where "s_ifreg = 0x8000"
definition s_ifdir :: nat where "s_ifdir = 0x4000"
definition max_file_blocks :: nat where "max_file_blocks = 8 * 1024 * 1024"
definition max_extent_depth :: nat where "max_extent_depth = 5"
definition max_map_nodes :: nat where "max_map_nodes = 4096"

record inode =
  ino_mode :: nat
  ino_size :: nat
  ino_dtime :: nat
  ino_links :: nat
  ino_flags :: nat
  ino_ctime :: nat
  ino_mtime :: nat
  ino_block :: bytes

definition inode_is_dir :: "inode \<Rightarrow> bool" where
  "inode_is_dir i \<longleftrightarrow> ino_mode i AND s_ifmt = s_ifdir"

definition inode_is_regular :: "inode \<Rightarrow> bool" where
  "inode_is_regular i \<longleftrightarrow> ino_mode i AND s_ifmt = s_ifreg"

definition looks_deleted :: "inode \<Rightarrow> bool" where
  "looks_deleted i \<longleftrightarrow> ino_dtime i \<noteq> 0 \<or> ino_links i = 0"

text \<open>\<^verbatim>\<open>parse_inode_bytes\<close>, which \<^verbatim>\<open>Inode::read\<close> repeats.\<close>

definition parse_inode_bytes :: "bytes \<Rightarrow> inode option" where
  "parse_inode_bytes raw =
     (if length raw < 128 then None
      else case get_slice raw 0x28 (0x28 + 60) of
          None \<Rightarrow> None
        | Some blk \<Rightarrow>
            let mode = le16_or_0 raw 0x00;
                size_lo = le32_or_0 raw 0x04;
                size_hi = le32_or_0 raw 0x6C
            in Some \<lparr>ino_mode = mode, ino_size = (if mode AND s_ifmt = s_ifreg then size_hi * 2 ^ 32 + size_lo else size_lo),
                 ino_dtime = le32_or_0 raw 0x14, ino_links = le16_or_0 raw 0x1A, ino_flags = le32_or_0 raw 0x20, ino_ctime = le32_or_0 raw 0x0C,
                 ino_mtime = le32_or_0 raw 0x10, ino_block = blk\<rparr>)"

definition inode_read :: "source \<Rightarrow> superblock \<Rightarrow> nat \<Rightarrow> inode option" where
  "inode_read src sb ino =
     (case inode_location sb ino of
        None \<Rightarrow> None
      | Some off \<Rightarrow> parse_inode_bytes (fs_read src off (sp_inode_size sb)))"

section \<open>Extent trees\<close>

text \<open>The blocks found so far, logical and physical; a leaf stops when there are too many.\<close>

type_synonym block_pairs = "(nat \<times> nat) list"

fun leaf_blocks :: "nat \<Rightarrow> nat \<Rightarrow> nat list \<Rightarrow> block_pairs \<Rightarrow> bool \<times> block_pairs" where
  "leaf_blocks logical phys [] out = (False, out)"
| "leaf_blocks logical phys (b # bs) out =
     (if max_file_blocks < length out then (True, out)
      else leaf_blocks logical phys bs (out @ [(sat_add64 logical b, sat_add64 phys b)]))"

definition leaf_extent :: "bytes \<Rightarrow> nat \<Rightarrow> nat \<times> nat \<times> nat" where
  "leaf_extent node base =
     (let len = le16_or_0 node (base + 4) in
      (le32_or_0 node base, le16_or_0 node (base + 6) * 2 ^ 32 + le32_or_0 node (base + 8), if 32768 < len then len - 32768 else len))"

definition index_child :: "bytes \<Rightarrow> nat \<Rightarrow> nat" where
  "index_child node base = le16_or_0 node (base + 8) * 2 ^ 32 + le32_or_0 node (base + 4)"

definition ext_block :: "source \<Rightarrow> superblock \<Rightarrow> nat \<Rightarrow> bytes" where
  "ext_block src sb b = fs_read src (sat_mul64 b (sp_block_size sb)) (sp_block_size sb)"

text \<open>\<^verbatim>\<open>collect_extent_tree\<close>; the state is the budget of nodes and the blocks.\<close>

function collect_extent_tree :: "source \<Rightarrow> superblock \<Rightarrow> bytes \<Rightarrow> nat \<Rightarrow> nat \<times> block_pairs \<Rightarrow> nat \<times> block_pairs"
  and extent_entries :: "source \<Rightarrow> superblock \<Rightarrow> bytes \<Rightarrow> nat \<Rightarrow> nat list \<Rightarrow> nat \<times> block_pairs \<Rightarrow> nat \<times> block_pairs" where
  "collect_extent_tree src sb node depth_guard (budget, out) =
     (if max_extent_depth < depth_guard \<or> max_file_blocks < length out \<or> budget = 0 then (budget, out)
      else if le16_or_0 node 0 \<noteq> extent_magic then (budget - 1, out)
      else
        let entries = le16_or_0 node 2; most = le16_or_0 node 4 in
        if most < entries \<or> (length node - 12) div 12 < most then (budget - 1, out)
        else extent_entries src sb node depth_guard [0..<entries] (budget - 1, out))"
| "extent_entries src sb node depth_guard [] st = st"
| "extent_entries src sb node depth_guard (i # is) st =
     (let base = 12 + i * 12 in
      if get_slice node base (base + 12) = None then st
      else if le16_or_0 node 6 = 0 then
        (case leaf_extent node base of
           (logical, phys, len) \<Rightarrow>
             (case leaf_blocks logical phys [0..<len] (snd st) of
                (True, out) \<Rightarrow> (fst st, out)
              | (False, out) \<Rightarrow> extent_entries src sb node depth_guard is (fst st, out)))
      else extent_entries src sb node depth_guard is
             (collect_extent_tree src sb (ext_block src sb (index_child node base)) (depth_guard + 1) st))"
  by pat_completeness auto
termination
  by (relation "measures
      [\<lambda>x. case x of Inl (src, sb, node, d, st) \<Rightarrow> 7 - d | Inr (src, sb, node, d, is, st) \<Rightarrow> 7 - (d + 1) + (if d \<le> max_extent_depth then 0 else 0),
       \<lambda>x. case x of Inl _ \<Rightarrow> 0 | Inr (src, sb, node, d, is, st) \<Rightarrow> Suc (length is)]") (auto simp: max_extent_depth_def)

declare collect_extent_tree.simps [simp del] extent_entries.simps(2) [simp del]

section \<open>Block maps\<close>

record block_map =
  bk_budget :: nat
  bk_logical :: nat
  bk_out :: block_pairs

definition push_data_block :: "nat \<Rightarrow> block_map \<Rightarrow> block_map" where
  "push_data_block phys m =
     m\<lparr>bk_out := (if phys \<noteq> 0 then bk_out m @ [(bk_logical m, phys)] else bk_out m), bk_logical := bk_logical m + 1\<rparr>"

text \<open>The pointers of an indirect block, until there are too many blocks.\<close>

fun indirect_loop :: "(nat \<Rightarrow> block_map \<Rightarrow> block_map) \<Rightarrow> bytes \<Rightarrow> nat list \<Rightarrow> block_map \<Rightarrow> block_map" where
  "indirect_loop f data [] m = m"
| "indirect_loop f data (i # is) m =
     (let m1 = f (le32_or_0 data (i * 4)) m in
      if max_file_blocks < length (bk_out m1) then m1 else indirect_loop f data is m1)"

text \<open>\<^verbatim>\<open>walk_indirect\<close>; the level is never zero.\<close>

fun walk_indirect :: "source \<Rightarrow> superblock \<Rightarrow> nat \<Rightarrow> nat \<Rightarrow> block_map \<Rightarrow> block_map" where
  "walk_indirect src sb 0 block m = m"
| "walk_indirect src sb (Suc level) block m =
     (if block = 0 \<or> max_file_blocks < length (bk_out m) \<or> bk_budget m = 0 then m
      else indirect_loop (\<lambda>b m. if level = 0 then push_data_block b m else walk_indirect src sb level b m)
             (ext_block src sb block) [0..<sp_block_size sb div 4] (m\<lparr>bk_budget := bk_budget m - 1\<rparr>))"

definition collect_classic :: "source \<Rightarrow> superblock \<Rightarrow> bytes \<Rightarrow> nat \<times> block_pairs \<Rightarrow> nat \<times> block_pairs" where
  "collect_classic src sb blk st =
     (let m0 = fold (\<lambda>i. push_data_block (le32_or_0 blk (i * 4))) [0..<12] \<lparr>bk_budget = fst st, bk_logical = 0, bk_out = snd st\<rparr>;
          m1 = walk_indirect src sb 1 (le32_or_0 blk 48) m0;
          m2 = walk_indirect src sb 2 (le32_or_0 blk 52) m1;
          m3 = walk_indirect src sb 3 (le32_or_0 blk 56) m2
      in (bk_budget m3, bk_out m3))"

section \<open>From blocks to extents\<close>

text \<open>\<^verbatim>\<open>trim_to_size\<close> from the bytes already kept on.\<close>

fun trim_loop :: "nat \<Rightarrow> nat \<Rightarrow> extent list \<Rightarrow> extent list" where
  "trim_loop want acc [] = []"
| "trim_loop want acc (e # es) =
     (if want \<le> acc then []
      else let len = min (ex_len e) (want - acc) in e\<lparr>ex_len := len\<rparr> # trim_loop want (sat_add64 acc len) es)"

definition trim_to_size :: "nat \<Rightarrow> extent list \<Rightarrow> extent list" where
  "trim_to_size want es = (if want = 0 then [] else trim_loop want 0 es)"

text \<open>One physical block: it makes the last extent longer or starts one.\<close>

definition push_block :: "nat \<Rightarrow> nat \<Rightarrow> extent list \<Rightarrow> extent list" where
  "push_block bs pb es =
     (let off = sat_mul64 pb bs in
      if es \<noteq> [] \<and> sat_add64 (ex_off (last es)) (ex_len (last es)) = off
      then butlast es @ [(last es)\<lparr>ex_len := sat_add64 (ex_len (last es)) bs\<rparr>]
      else es @ [\<lparr>ex_off = off, ex_len = bs\<rparr>])"

definition ext_runs_to_extents :: "superblock \<Rightarrow> block_pairs \<Rightarrow> nat \<Rightarrow> extent list" where
  "ext_runs_to_extents sb blocks want =
     trim_to_size want (fold (\<lambda>b. push_block (sp_block_size sb) (snd b)) (sort_key fst blocks) [])"

definition inode_extents :: "source \<Rightarrow> superblock \<Rightarrow> inode \<Rightarrow> extent list" where
  "inode_extents src sb i =
     ext_runs_to_extents sb
       (snd (if ino_flags i AND extents_fl \<noteq> 0 then collect_extent_tree src sb (ino_block i) 0 (max_map_nodes, [])
             else collect_classic src sb (ino_block i) (max_map_nodes, []))) (ino_size i)"

section \<open>Directories\<close>

definition max_dir_entries :: nat where "max_dir_entries = 2000000"

record dir_entry =
  de_inode :: nat
  de_name :: ustring
  de_raw_name :: bytes
  de_type :: byte
  de_deleted :: bool

definition round4 :: "nat \<Rightarrow> nat" where
  "round4 n = (n + 3) div 4 * 4"

definition is_plausible_name :: "bytes \<Rightarrow> bool" where
  "is_plausible_name name \<longleftrightarrow>
     \<not> (name = [] \<or> name = [0x2E] \<or> name = [0x2E, 0x2E]) \<and> list_all (\<lambda>c. 0x20 \<le> c \<and> c \<noteq> 0x2F \<and> c \<noteq> 0x7F) name"

definition dir_record :: "bytes \<Rightarrow> nat \<Rightarrow> bytes \<Rightarrow> bool \<Rightarrow> dir_entry" where
  "dir_record block p name deleted =
     \<lparr>de_inode = le32_or_0 block p, de_name = utf8_lossy name, de_raw_name = name, de_type = byte_or_0 block (p + 7), de_deleted = deleted\<rparr>"

text \<open>\<^verbatim>\<open>scan_slack\<close> from an aligned position on.\<close>

function slack_loop :: "superblock \<Rightarrow> bytes \<Rightarrow> nat \<Rightarrow> nat \<Rightarrow> dir_entry list \<Rightarrow> dir_entry list" where
  "slack_loop sb block stop p out =
     (if stop < p + 8 then out
      else
        let ino = le32_or_0 block p;
            name_len = unat (byte_or_0 block (p + 6));
            name = (if ino \<noteq> 0 \<and> ino \<le> sp_inodes_count sb \<and> 0 < name_len \<and> name_len \<le> 255 \<and> p + 8 + name_len \<le> stop
                    then get_slice block (p + 8) (p + 8 + name_len) else None)
        in case name of
             Some n \<Rightarrow>
               if is_plausible_name n then slack_loop sb block stop (round4 (p + 8 + name_len)) (out @ [dir_record block p n True])
               else slack_loop sb block stop (p + 4) out
           | None \<Rightarrow> slack_loop sb block stop (p + 4) out)"
  by pat_completeness auto
termination
  by (relation "measure (\<lambda>(sb, block, stop, p, out). stop + 8 - p)") (auto simp: round4_def)

declare slack_loop.simps [simp del]

definition scan_slack :: "superblock \<Rightarrow> bytes \<Rightarrow> nat \<Rightarrow> nat \<Rightarrow> dir_entry list \<Rightarrow> dir_entry list" where
  "scan_slack sb block start stop out = slack_loop sb block (min stop (length block)) (round4 start) out"

function parse_dir_block :: "superblock \<Rightarrow> bytes \<Rightarrow> nat \<Rightarrow> nat \<Rightarrow> dir_entry list \<Rightarrow> dir_entry list" where
  "parse_dir_block sb block pos guard out =
     (if length block < pos + 8 \<or> 100000 < guard + 1 then out
      else
        let ino = le32_or_0 block pos;
            rec_len = le16_or_0 block (pos + 4);
            name_len = unat (byte_or_0 block (pos + 6))
        in if rec_len < 8 \<or> length block < pos + rec_len then out
           else if ino \<noteq> 0 \<and> 0 < name_len \<and> pos + 8 + name_len \<le> length block then
             let out1 = (case get_slice block (pos + 8) (pos + 8 + name_len) of
                   Some n \<Rightarrow> if is_plausible_name n then out @ [dir_record block pos n False] else out
                 | None \<Rightarrow> out)
             in parse_dir_block sb block (pos + rec_len) (guard + 1) (scan_slack sb block (pos + round4 (8 + name_len)) (pos + rec_len) out1)
           else parse_dir_block sb block (pos + rec_len) (guard + 1) (scan_slack sb block (pos + 8) (pos + rec_len) out))"
  by pat_completeness auto
termination
  by (relation "measure (\<lambda>(sb, block, pos, guard, out). 100001 - guard)") auto

declare parse_dir_block.simps [simp del]

text \<open>\<^verbatim>\<open>read_dir\<close>: the blocks of one extent, then the extents; the flag says that the limit was reached. A block size
  is never zero.\<close>

function dir_blocks :: "source \<Rightarrow> superblock \<Rightarrow> nat \<Rightarrow> nat \<Rightarrow> dir_entry list \<Rightarrow> bool \<times> dir_entry list" where
  "dir_blocks src sb off stop out =
     (if \<not> off < stop \<or> sp_block_size sb = 0 \<or> u64_max \<le> off then (False, out)
      else if max_dir_entries \<le> length out then (True, out)
      else dir_blocks src sb (sat_add64 off (sp_block_size sb)) stop (parse_dir_block sb (fs_read src off (sp_block_size sb)) 0 0 out))"
  by pat_completeness auto
termination
  by (relation "measure (\<lambda>(src, sb, off, stop, out). u64_max - off)") (auto simp: sat_add64_def min_def)

declare dir_blocks.simps [simp del]

fun dir_extents :: "source \<Rightarrow> superblock \<Rightarrow> extent list \<Rightarrow> dir_entry list \<Rightarrow> dir_entry list" where
  "dir_extents src sb [] out = out"
| "dir_extents src sb (e # es) out =
     (case dir_blocks src sb (ex_off e) (sat_add64 (ex_off e) (ex_len e)) out of
        (True, out1) \<Rightarrow> out1
      | (False, out1) \<Rightarrow> dir_extents src sb es out1)"

definition ext_read_dir :: "source \<Rightarrow> superblock \<Rightarrow> inode \<Rightarrow> dir_entry list" where
  "ext_read_dir src sb d = dir_extents src sb (inode_extents src sb d) []"

end
