(* ===== verification/Ext.thy ===== *)
theory Ext
  imports ExtBase
begin

text \<open>
  The ext2/3/4 engine: what the journal and unallocated blocks still hold (\<^verbatim>\<open>crates/fs-ext/src/journal.rs\<close>),
  opening, the block bitmap, the walk over the tree, freed inodes and extent nodes (\<^verbatim>\<open>lib.rs\<close>).
\<close>

unbundle bit_operations_syntax

section \<open>The journal\<close>

definition jbd2_magic :: nat where "jbd2_magic = 0xC03B3998"
definition max_journal_blocks :: nat where "max_journal_blocks = 262144"
definition max_scan_blocks :: nat where "max_scan_blocks = 1024 * 1024"
definition max_journal_inodes :: nat where "max_journal_inodes = 1000000"
definition jbd2_incompat_64bit :: nat where "jbd2_incompat_64bit = 0x2"
definition jbd2_incompat_csum_v2 :: nat where "jbd2_incompat_csum_v2 = 0x8"
definition jbd2_incompat_csum_v3 :: nat where "jbd2_incompat_csum_v3 = 0x10"
definition jbd2_flag_same_uuid :: nat where "jbd2_flag_same_uuid = 0x2"
definition jbd2_flag_last_tag :: nat where "jbd2_flag_last_tag = 0x8"

definition be16_or_0 :: "bytes \<Rightarrow> nat \<Rightarrow> nat" where
  "be16_or_0 b off = unwrap_or (map_option be_val (get_slice b off (off + 2))) 0"

definition be32_or_0 :: "bytes \<Rightarrow> nat \<Rightarrow> nat" where
  "be32_or_0 b off = unwrap_or (be_u32 b off) 0"

definition inode_table_blocks :: "superblock \<Rightarrow> nat" where
  "inode_table_blocks sb = max (sat_mul64 (sp_inodes_per_group sb) (sp_inode_size sb) div max (sp_block_size sb) 1) 1"

definition table_holds :: "superblock \<Rightarrow> nat \<Rightarrow> group_desc \<Rightarrow> bool" where
  "table_holds sb b g \<longleftrightarrow> gd_inode_table g \<le> b \<and> b < sat_add64 (gd_inode_table g) (inode_table_blocks sb)"

definition in_inode_table :: "superblock \<Rightarrow> nat \<Rightarrow> bool" where
  "in_inode_table sb b \<longleftrightarrow> list_ex (table_holds sb b) (sp_groups sb)"

text \<open>The blocks of one extent of the journal, then of all; the limit leaves only the loop over one extent.\<close>

function extent_blocks :: "nat \<Rightarrow> nat \<Rightarrow> nat \<Rightarrow> nat list \<Rightarrow> nat list" where
  "extent_blocks bs off stop v =
     (if \<not> off < stop \<or> bs = 0 \<or> u64_max \<le> off then v
      else
        let v1 = v @ [off div max bs 1] in
        if max_journal_blocks < length v1 then v1 else extent_blocks bs (sat_add64 off bs) stop v1)"
  by pat_completeness auto
termination
  by (relation "measure (\<lambda>(bs, off, stop, v). u64_max - off)") (auto simp: sat_add64_def min_def)

declare extent_blocks.simps [simp del]

definition journal_blocks :: "nat \<Rightarrow> extent list \<Rightarrow> nat list" where
  "journal_blocks bs es = fold (\<lambda>e. extent_blocks bs (ex_off e) (sat_add64 (ex_off e) (ex_len e))) es []"

text \<open>\<^verbatim>\<open>parse_descriptor_tags\<close>.\<close>

definition tag_size :: "nat \<Rightarrow> nat" where
  "tag_size incompat =
     (if incompat AND jbd2_incompat_csum_v3 \<noteq> 0 then 16
      else (if incompat AND jbd2_incompat_64bit \<noteq> 0 then 12 else 8) + (if incompat AND jbd2_incompat_csum_v2 \<noteq> 0 then 2 else 0))"

function tag_loop :: "nat \<Rightarrow> bytes \<Rightarrow> nat \<Rightarrow> nat \<Rightarrow> nat list \<Rightarrow> nat list" where
  "tag_loop incompat desc p guard out =
     (if length desc < p + tag_size incompat \<or> 100000 < guard + 1 then out
      else
        let v3 = (incompat AND jbd2_incompat_csum_v3 \<noteq> 0);
            has64 = (incompat AND jbd2_incompat_64bit \<noteq> 0);
            flags = (if v3 then be32_or_0 desc (p + 4) else be16_or_0 desc (p + 6));
            hi = (if v3 \<or> has64 then be32_or_0 desc (p + 8) else 0);
            out1 = out @ [if v3 \<or> has64 then hi * 2 ^ 32 + be32_or_0 desc p else be32_or_0 desc p];
            adv = tag_size incompat + (if flags AND jbd2_flag_same_uuid = 0 then 16 else 0)
        in if flags AND jbd2_flag_last_tag \<noteq> 0 \<or> 4096 < length out1 then out1 else tag_loop incompat desc (p + adv) (guard + 1) out1)"
  by pat_completeness auto
termination
  by (relation "measure (\<lambda>(incompat, desc, p, guard, out). 100001 - guard)") auto

declare tag_loop.simps [simp del]

definition parse_descriptor_tags :: "nat \<Rightarrow> bytes \<Rightarrow> nat list" where
  "parse_descriptor_tags incompat desc = tag_loop incompat desc 12 0 []"

text \<open>The inodes recovered so far, by number; the first copy of an inode is kept.\<close>

type_synonym recovered = "(nat \<times> inode) list"

definition inode_map_empty :: "inode \<Rightarrow> bool" where
  "inode_map_empty i \<longleftrightarrow> list_all (\<lambda>b. b = 0) (ino_block i)"

definition or_insert :: "nat \<Rightarrow> inode \<Rightarrow> recovered \<Rightarrow> recovered" where
  "or_insert k i out = (if map_of out k = None then out @ [(k, i)] else out)"

definition harvest_one :: "superblock \<Rightarrow> nat \<Rightarrow> nat \<Rightarrow> bytes \<Rightarrow> nat \<Rightarrow> recovered \<Rightarrow> recovered" where
  "harvest_one sb gi block_in_table blk k out =
     (let idx = sat_add64 (sat_mul64 block_in_table (sp_block_size sb div max (sp_inode_size sb) 1)) k;
          ino = sat_add64 (sat_add64 (sat_mul64 gi (sp_inodes_per_group sb)) idx) 1;
          base = sat_mul64 k (sp_inode_size sb)
      in if 2 ^ 32 \<le> ino then out
         else case get_slice blk base (base + sp_inode_size sb) of
             None \<Rightarrow> out
           | Some raw \<Rightarrow>
               (case parse_inode_bytes raw of
                  Some i \<Rightarrow> if 0 < ino_size i \<and> \<not> inode_map_empty i then or_insert ino i out else out
                | None \<Rightarrow> out))"

definition harvest_inode_block :: "superblock \<Rightarrow> nat \<Rightarrow> bytes \<Rightarrow> recovered \<Rightarrow> recovered" where
  "harvest_inode_block sb fs_block blk out =
     (case find (\<lambda>(gi, g). table_holds sb fs_block g) (zip [0..<length (sp_groups sb)] (sp_groups sb)) of
        None \<Rightarrow> out
      | Some (gi, g) \<Rightarrow>
          fold (harvest_one sb gi (fs_block - gd_inode_table g) blk) [0..<sp_block_size sb div max (sp_inode_size sb) 1] out)"

text \<open>The targets of one descriptor: the flag is the limit on inodes, the number the next journal block.\<close>

fun journal_targets :: "source \<Rightarrow> superblock \<Rightarrow> nat list \<Rightarrow> nat list \<Rightarrow> nat \<Rightarrow> recovered \<Rightarrow> bool \<times> nat \<times> recovered" where
  "journal_targets src sb jblocks [] data_idx out = (False, data_idx, out)"
| "journal_targets src sb jblocks (target # ts) data_idx out =
     (case get_at jblocks data_idx of
        None \<Rightarrow> (False, data_idx, out)
      | Some jbn \<Rightarrow>
          if in_inode_table sb target then
            let out1 = harvest_inode_block sb target (ext_block src sb jbn) out in
            if max_journal_inodes \<le> length out1 then (True, data_idx + 1, out1)
            else journal_targets src sb jblocks ts (data_idx + 1) out1
          else journal_targets src sb jblocks ts (data_idx + 1) out)"

function journal_loop :: "source \<Rightarrow> superblock \<Rightarrow> nat \<Rightarrow> nat list \<Rightarrow> nat \<Rightarrow> recovered \<Rightarrow> recovered" where
  "journal_loop src sb incompat jblocks i out =
     (if length jblocks \<le> i then out
      else
        let jb = unwrap_or (get_at jblocks i) 0;
            hdr = fs_read src (sat_mul64 jb (sp_block_size sb)) 12
        in if be32_or_0 hdr 0 \<noteq> jbd2_magic \<or> be32_or_0 hdr 4 \<noteq> 1 then journal_loop src sb incompat jblocks (i + 1) out
           else case journal_targets src sb jblocks (parse_descriptor_tags incompat (ext_block src sb jb)) (i + 1) out of
               (True, data_idx, out1) \<Rightarrow> out1
             | (False, data_idx, out1) \<Rightarrow> journal_loop src sb incompat jblocks (max data_idx (i + 1)) out1)"
  by pat_completeness auto
termination
  by (relation "measure (\<lambda>(src, sb, incompat, jblocks, i, out). length jblocks - i)") auto

declare journal_loop.simps [simp del]

definition recover_from_journal :: "source \<Rightarrow> superblock \<Rightarrow> recovered" where
  "recover_from_journal src sb =
     (if sp_journal_inum sb = 0 \<or> sp_inodes_count sb < sp_journal_inum sb then []
      else case inode_read src sb (sp_journal_inum sb) of
          None \<Rightarrow> []
        | Some jinode \<Rightarrow>
            let jblocks = journal_blocks (sp_block_size sb) (inode_extents src sb jinode) in
            if jblocks = [] then []
            else
              let jsb = fs_read src (sat_mul64 (hd jblocks) (sp_block_size sb)) 0x2C;
                  incompat = (if be32_or_0 jsb 0 = jbd2_magic then be32_or_0 jsb 0x28 else 0)
              in journal_loop src sb incompat jblocks 0 [])"

section \<open>Extent nodes in unallocated blocks\<close>

definition node_extent :: "superblock \<Rightarrow> bytes \<Rightarrow> nat \<Rightarrow> extent option" where
  "node_extent sb node base =
     (let len0 = le16_or_0 node (base + 4);
          len = (if 32768 < len0 then len0 - 32768 else len0);
          phys = le16_or_0 node (base + 6) * 2 ^ 32 + le32_or_0 node (base + 8)
      in if len0 = 0 \<or> phys = 0 \<or> sp_blocks_count sb \<le> phys then None
         else Some \<lparr>ex_off = sat_mul64 phys (sp_block_size sb), ex_len = sat_mul64 len (sp_block_size sb)\<rparr>)"

definition node_extents :: "superblock \<Rightarrow> bytes \<Rightarrow> extent list" where
  "node_extents sb node =
     List.map_filter (\<lambda>i. node_extent sb node (12 + i * 12))
       (takeWhile (\<lambda>i. get_slice node (12 + i * 12) (12 + i * 12 + 12) \<noteq> None) [0..<le16_or_0 node 2])"

fun scan_nodes :: "source \<Rightarrow> superblock \<Rightarrow> (nat \<Rightarrow> bool) \<Rightarrow> nat list \<Rightarrow> extent list list \<Rightarrow> extent list list" where
  "scan_nodes src sb allocated [] found = found"
| "scan_nodes src sb allocated (b # bs) found =
     (if allocated b then scan_nodes src sb allocated bs found
      else
        let node = fs_read src (sat_mul64 b (sp_block_size sb)) (min (sp_block_size sb) 4096);
            entries = le16_or_0 node 2
        in if le16_or_0 node 0 \<noteq> extent_magic then scan_nodes src sb allocated bs found
           else if le16_or_0 node 6 \<noteq> 0 \<or> entries = 0 \<or> 340 < entries then scan_nodes src sb allocated bs found
           else
             let exts = node_extents sb node;
                 whole = foldl (\<lambda>a e. sat_add64 a (ex_len e)) 0 exts;
                 found1 = (if exts \<noteq> [] \<and> 0 < whole then found @ [exts] else found)
             in if 100000 < length found1 then found1 else scan_nodes src sb allocated bs found1)"

definition scan_extent_nodes :: "source \<Rightarrow> superblock \<Rightarrow> (nat \<Rightarrow> bool) \<Rightarrow> extent list list" where
  "scan_extent_nodes src sb allocated =
     scan_nodes src sb allocated
       [sp_first_data_block sb..<min (min (sp_blocks_count sb) (s_len src div max (sp_block_size sb) 1 + 1)) max_scan_blocks] []"

section \<open>An opened volume\<close>

definition ext_root_inode :: nat where "ext_root_inode = 2"
definition ext_max_dirs :: nat where "ext_max_dirs = 2000000"
definition max_bitmap_blocks :: nat where "max_bitmap_blocks = 64 * 1024 * 1024"

record ext =
  xt_src :: source
  xt_sb :: superblock

definition ext_probe :: "source \<Rightarrow> probe option" where
  "ext_probe src =
     (case read_superblock src of
        None \<Rightarrow> None
      | Some s \<Rightarrow>
          Some \<lparr>pb_fs_kind = ''ext'', pb_confidence = (if sp_found_at s = 0 then 95 else 80),
            pb_block_size = (if sp_block_size s < 2 ^ 32 then sp_block_size s else 0), pb_label = sp_label s, pb_uuid = sp_uuid s,
            pb_total_bytes = sat_mul64 (sp_blocks_count s) (sp_block_size s)\<rparr>)"

definition ext_open :: "source \<Rightarrow> fs_error + ext" where
  "ext_open src =
     (case read_superblock src of
        None \<Rightarrow> Inl (NotThisFs ''no ext superblock (primary or backup)'')
      | Some sb \<Rightarrow>
          if sp_groups sb = [] then Inl (Corrupt ''ext: no group descriptors'') else Inr \<lparr>xt_src = src, xt_sb = sb\<rparr>)"

text \<open>The bitmaps of the groups, copied bit by bit; a bit that is not there counts as set.\<close>

definition put_bit :: "nat \<Rightarrow> bool \<Rightarrow> bytes \<Rightarrow> bytes" where
  "put_bit i v b =
     (case get_at b (i div 8) of
        None \<Rightarrow> b
      | Some x \<Rightarrow> b[i div 8 := (if v then x OR push_bit (i mod 8) 1 else x AND NOT (push_bit (i mod 8) 1))])"

definition bitmap_bit :: "bytes \<Rightarrow> nat \<Rightarrow> bool" where
  "bitmap_bit bm i = (case get_at bm (i div 8) of Some x \<Rightarrow> bit x (i mod 8) | None \<Rightarrow> True)"

definition group_bits :: "superblock \<Rightarrow> nat \<Rightarrow> nat \<Rightarrow> bytes \<Rightarrow> bytes \<Rightarrow> bytes" where
  "group_bits sb block_count g bm b0 =
     (let first = sat_add64 (sp_first_data_block sb) (sat_mul64 g (sp_blocks_per_group sb)) in
      fold (\<lambda>i b. put_bit (sat_add64 first i) (bitmap_bit bm i) b)
        (takeWhile (\<lambda>i. sat_add64 first i < block_count) [0..<sp_blocks_per_group sb]) b0)"

definition ext_bitmap :: "ext \<Rightarrow> bitmap option" where
  "ext_bitmap v =
     (let sb = xt_sb v;
          block_count = min (sp_blocks_count sb) (s_len (xt_src v) div max (sp_block_size sb) 1 + 1)
      in if block_count = 0 \<or> max_bitmap_blocks < block_count then None
         else
           let packed = fold (\<lambda>(g, gd). group_bits sb block_count g (ext_block (xt_src v) sb (gd_block_bitmap gd)))
                 (zip [0..<length (sp_groups sb)] (sp_groups sb)) (replicate (div_ceil block_count 8) 0xFF)
           in Some (bitmap_new (if sp_block_size sb < 2 ^ 32 then sp_block_size sb else 4096) 0 block_count packed))"

section \<open>The walk\<close>

text \<open>The walk, the directories it has been to and the numbers of the inodes it has reported.\<close>

record ext_ctx =
  ew_walk :: walk
  ew_dirs :: "nat list"
  ew_emitted :: "nat set"

definition ext_start :: ext_ctx where
  "ext_start = \<lparr>ew_walk = walk_start, ew_dirs = [], ew_emitted = {}\<rparr>"

definition ext_budget :: "walk_opts \<Rightarrow> ext_ctx \<Rightarrow> bool" where
  "ext_budget opts w \<longleftrightarrow> wk_emitted (ew_walk w) < wo_max opts"

definition ext_report :: "entry \<Rightarrow> ext_ctx \<Rightarrow> ext_ctx" where
  "ext_report e w = w\<lparr>ew_walk := emit e (ew_walk w), ew_emitted := insert (en_id e mod 2 ^ 32) (ew_emitted w)\<rparr>"

text \<open>The inode of a record; a deleted one whose map was zeroed is taken from the journal.\<close>

definition resolve_inode :: "ext \<Rightarrow> recovered \<Rightarrow> dir_entry \<Rightarrow> entry_state \<Rightarrow> inode option" where
  "resolve_inode v journal e state =
     (let cur = inode_read (xt_src v) (xt_sb v) (de_inode e);
          empty = (case cur of Some i \<Rightarrow> inode_map_empty i | None \<Rightarrow> True)
      in if state \<noteq> Live \<and> empty \<and> map_of journal (de_inode e) \<noteq> None then map_of journal (de_inode e) else cur)"

definition inode_entry :: "ext \<Rightarrow> dir_entry \<Rightarrow> nat \<Rightarrow> ustring \<Rightarrow> entry_state \<Rightarrow> inode \<Rightarrow> entry" where
  "inode_entry v e parent path state i =
     (let extents = inode_extents (xt_src v) (xt_sb v) i;
          len = (if 0 < ino_size i then ino_size i else foldl (\<lambda>a x. sat_add64 a (ex_len x)) 0 extents)
      in (new_file (de_inode e) (de_name e) (de_raw_name e) len state)
           \<lparr>en_parent_id := Some parent, en_kind := (if inode_is_regular i then FileEntry else OtherEntry), en_path := Some path,
            en_created := date_from_epoch (ino_ctime i), en_modified := date_from_epoch (ino_mtime i), en_extents := extents,
            en_confidence := [if state = Live then 100 else if looks_deleted i then 85 else 60]\<rparr>)"

definition emit_from_inode :: "ext \<Rightarrow> walk_opts \<Rightarrow> recovered \<Rightarrow> dir_entry \<Rightarrow> nat \<Rightarrow> ustring \<Rightarrow> entry_state \<Rightarrow> ext_ctx \<Rightarrow> ext_ctx" where
  "emit_from_inode v opts journal e parent path state w =
     (if \<not> ext_budget opts w then w
      else case resolve_inode v journal e state of
          None \<Rightarrow> w
        | Some i \<Rightarrow> if inode_is_dir i then w else ext_report (inode_entry v e parent path state i) w)"

text \<open>The records of one directory; a live directory goes on the stack.\<close>

fun dir_records :: "ext \<Rightarrow> walk_opts \<Rightarrow> recovered \<Rightarrow> nat \<Rightarrow> ustring \<Rightarrow> dir_entry list \<Rightarrow> (nat \<times> ustring) list \<times> ext_ctx \<Rightarrow> (nat \<times> ustring) list \<times> ext_ctx" where
  "dir_records v opts journal dino path [] st = st"
| "dir_records v opts journal dino path (e # es) (stack, w) =
     (if de_name e = ustr ''.'' \<or> de_name e = ustr ''..'' \<or> de_name e = ustr ''lost+found'' then dir_records v opts journal dino path es (stack, w)
      else
        let child = (if path = [] then de_name e else path @ [slash] @ de_name e);
            st = (if \<not> de_deleted e \<and> de_type e = 2 then ((de_inode e, child) # stack, w)
                  else (stack, emit_from_inode v opts journal e dino child (if de_deleted e then Deleted else Live) w))
        in if \<not> ext_budget opts (snd st) then st else dir_records v opts journal dino path es st)"

lemma ext_report_dirs [simp]: "ew_dirs (ext_report e w) = ew_dirs w"
  by (simp add: ext_report_def)

lemma emit_from_inode_dirs [simp]: "ew_dirs (emit_from_inode v opts journal e parent path state w) = ew_dirs w"
  by (simp add: emit_from_inode_def split: option.split)

lemma dir_records_dirs: "ew_dirs (snd (dir_records v opts journal dino path es st)) = ew_dirs (snd st)"
  by (induction v opts journal dino path es st rule: dir_records.induct) (simp_all add: Let_def)

text \<open>\<^verbatim>\<open>walk_tree\<close>; the directory pushed last is the next.\<close>

function ext_walk_tree :: "ext \<Rightarrow> walk_opts \<Rightarrow> recovered \<Rightarrow> (nat \<times> ustring) list \<Rightarrow> ext_ctx \<Rightarrow> ext_ctx" where
  "ext_walk_tree v opts journal [] w = w"
| "ext_walk_tree v opts journal ((dino, path) # stack) w =
     (if \<not> ext_budget opts w \<or> ext_max_dirs < length (ew_dirs w) then w
      else if dino \<in> set (ew_dirs w) then ext_walk_tree v opts journal stack w
      else
        let w1 = w\<lparr>ew_dirs := dino # ew_dirs w\<rparr> in
        case inode_read (xt_src v) (xt_sb v) dino of
          None \<Rightarrow> ext_walk_tree v opts journal stack w1
        | Some i \<Rightarrow>
            if \<not> inode_is_dir i then ext_walk_tree v opts journal stack w1
            else
              let st = dir_records v opts journal dino path (ext_read_dir (xt_src v) (xt_sb v) i) (stack, w1)
              in ext_walk_tree v opts journal (fst st) (snd st))"
  by pat_completeness auto
termination
  by (relation "measures [\<lambda>(v, opts, journal, stack, w). ext_max_dirs + 1 - length (ew_dirs w), \<lambda>(v, opts, journal, stack, w). length stack]")
    (auto simp: case_prod_beta dir_records_dirs)

declare ext_walk_tree.simps [simp del]

text \<open>\<^verbatim>\<open>orphan_inode_scan\<close>.\<close>

definition orphan_inode :: "ext \<Rightarrow> nat \<Rightarrow> inode \<Rightarrow> entry" where
  "orphan_inode v ino i =
     (let name = ustr (''inode_'' @ show_nat ino) in
      (new_file ino name (utf8 name) (ino_size i) Orphaned)
        \<lparr>en_path := None, en_created := date_from_epoch (ino_ctime i), en_modified := date_from_epoch (ino_mtime i),
         en_extents := inode_extents (xt_src v) (xt_sb v) i, en_confidence := [60]\<rparr>)"

fun orphan_inodes :: "ext \<Rightarrow> walk_opts \<Rightarrow> nat list \<Rightarrow> ext_ctx \<Rightarrow> ext_ctx" where
  "orphan_inodes v opts [] w = w"
| "orphan_inodes v opts (ino # inos) w =
     (if \<not> ext_budget opts w then w
      else if ino \<in> ew_emitted w \<or> ino \<in> set (ew_dirs w) then orphan_inodes v opts inos w
      else case inode_read (xt_src v) (xt_sb v) ino of
          None \<Rightarrow> orphan_inodes v opts inos w
        | Some i \<Rightarrow>
            if \<not> inode_is_regular i \<or> \<not> looks_deleted i \<or> ino_size i = 0 \<or> inode_extents (xt_src v) (xt_sb v) i = [] then orphan_inodes v opts inos w
            else orphan_inodes v opts inos (ext_report (orphan_inode v ino i) w))"

definition orphan_inode_scan :: "ext \<Rightarrow> walk_opts \<Rightarrow> ext_ctx \<Rightarrow> ext_ctx" where
  "orphan_inode_scan v opts w =
     (if \<not> wo_deleted opts then w
      else
        let addressable = sat_mul64 (length (sp_groups (xt_sb v))) (sp_inodes_per_group (xt_sb v));
            count = min (min (sp_inodes_count (xt_sb v)) addressable) 8000000
        in orphan_inodes v opts [11..<Suc count] w)"

text \<open>\<^verbatim>\<open>extent_node_scan\<close>.\<close>

definition node_entry :: "nat \<Rightarrow> extent list \<Rightarrow> entry" where
  "node_entry idx exts =
     (let name = ustr (''extentnode_'' @ show_nat idx) in
      (new_file (0xF30A000000000000 OR idx) name (utf8 name) (foldl (\<lambda>a x. sat_add64 a (ex_len x)) 0 exts) Orphaned)
        \<lparr>en_path := None, en_extents := exts, en_confidence := [40]\<rparr>)"

fun report_nodes :: "walk_opts \<Rightarrow> nat \<Rightarrow> extent list list \<Rightarrow> ext_ctx \<Rightarrow> ext_ctx" where
  "report_nodes opts idx [] w = w"
| "report_nodes opts idx (exts # r) w =
     (if \<not> ext_budget opts w then w else report_nodes opts (idx + 1) r (ext_report (node_entry (idx + 1) exts) w))"

definition extent_node_scan :: "ext \<Rightarrow> walk_opts \<Rightarrow> ext_ctx \<Rightarrow> ext_ctx" where
  "extent_node_scan v opts w =
     (if \<not> wo_deleted opts \<or> \<not> ext_budget opts w then w
      else
        let bm = ext_bitmap v;
            allocated = (\<lambda>b. case bm of Some x \<Rightarrow> is_block_allocated x b | None \<Rightarrow> True)
        in report_nodes opts 0 (scan_extent_nodes (xt_src v) (xt_sb v) allocated) w)"

definition ext_walk :: "ext \<Rightarrow> walk_opts \<Rightarrow> walk" where
  "ext_walk v opts =
     (let journal = recover_from_journal (xt_src v) (xt_sb v);
          w1 = ext_walk_tree v opts journal [(ext_root_inode, [])] ext_start
      in ew_walk (extent_node_scan v opts (orphan_inode_scan v opts w1)))"

end
