(* ===== verification/ExtFacts.thy ===== *)
theory ExtFacts
  imports Ext
begin

text \<open>
  Facts about the ext engine: the bytes of trimmed and coalesced extents, the blocks of a leaf node, bits of
  the bitmap, what every step of the walk keeps.
\<close>

unbundle bit_operations_syntax

section \<open>Trimming and coalescing\<close>

lemma trim_loop_bytes:
  "acc + sum_list (map ex_len es) \<le> u64_max \<Longrightarrow> xbytes md (trim_loop want acc es) = take (want - acc) (xbytes md es)"
proof (induction es arbitrary: acc)
  case (Cons e es)
  show ?case
  proof (cases "want \<le> acc")
    case False
    show ?thesis
    proof (cases "ex_len e \<le> want - acc")
      case True
      then have "xbytes md (trim_loop want (acc + ex_len e) es) = take (want - (acc + ex_len e)) (xbytes md es)"
        using Cons.prems by (intro Cons.IH) simp
      then show ?thesis using False True Cons.prems by (simp add: sat_add64_def)
    next
      case cut: False
      then have "sat_add64 acc (want - acc) = want" using False Cons.prems by (simp add: sat_add64_def)
      moreover have "trim_loop want want es = []" by (cases es) simp_all
      ultimately show ?thesis using False cut by (simp add: take_medium)
    qed
  qed simp
qed simp

lemma trim_to_size_bytes:
  "sum_list (map ex_len es) \<le> u64_max \<Longrightarrow> xbytes md (trim_to_size want es) = take want (xbytes md es)"
  using trim_loop_bytes [of 0 es md want] by (simp add: trim_to_size_def)

lemma trim_loop_sum: "want \<le> u64_max \<Longrightarrow> sum_list (map ex_len (trim_loop want acc es)) \<le> want - acc"
proof (induction es arbitrary: acc)
  case (Cons e es)
  show ?case
  proof (cases "want \<le> acc")
    case False
    let ?l = "min (ex_len e) (want - acc)"
    have e: "sat_add64 acc ?l = acc + ?l" using False Cons.prems by (simp add: sat_add64_def)
    have "sum_list (map ex_len (trim_loop want (acc + ?l) es)) \<le> want - (acc + ?l)" by (rule Cons.IH [OF Cons.prems])
    moreover have "acc + ?l \<le> want" using False by simp
    moreover have "sum_list (map ex_len (trim_loop want acc (e # es))) = ?l + sum_list (map ex_len (trim_loop want (sat_add64 acc ?l) es))"
      using False by (simp add: Let_def)
    ultimately show ?thesis unfolding e by linarith
  qed simp
qed simp

lemma trim_to_size_sum: "want \<le> u64_max \<Longrightarrow> sum_list (map ex_len (trim_to_size want es)) \<le> want"
  using trim_loop_sum [of want 0 es] by (simp add: trim_to_size_def)

definition extents_fit :: "extent list \<Rightarrow> bool" where
  "extents_fit es \<longleftrightarrow> (\<forall>e \<in> set es. ex_off e + ex_len e \<le> u64_max)"

lemma push_block_bytes:
  assumes "extents_fit es" "pb * bs + bs \<le> u64_max"
  shows "xbytes md (push_block bs pb es) = xbytes md es @ medium_bytes md (pb * bs) bs" (is ?bytes)
    and "extents_fit (push_block bs pb es)" (is ?fit)
    and "sum_list (map ex_len (push_block bs pb es)) = sum_list (map ex_len es) + bs" (is ?sum)
proof -
  let ?l = "last es"
  have off: "sat_mul64 pb bs = pb * bs" using assms(2) by (simp add: sat_mul64_def)
  have "?bytes \<and> ?fit \<and> ?sum"
  proof (cases "es \<noteq> [] \<and> sat_add64 (ex_off ?l) (ex_len ?l) = pb * bs")
    case True
    then have es: "es = butlast es @ [?l]" by simp
    have "ex_off ?l + ex_len ?l \<le> u64_max" using assms(1) True by (simp add: extents_fit_def)
    then have at: "ex_off ?l + ex_len ?l = pb * bs" using True by (simp add: sat_add64_def)
    then have len: "sat_add64 (ex_len ?l) bs = ex_len ?l + bs" using assms(2) by (simp add: sat_add64_def)
    have push: "push_block bs pb es = butlast es @ [?l\<lparr>ex_len := ex_len ?l + bs\<rparr>]"
      using True by (simp add: push_block_def off len)
    have "xbytes md es = xbytes md (butlast es) @ medium_bytes md (ex_off ?l) (ex_len ?l)"
      by (subst es) simp
    then have ?bytes using at by (simp add: push flip: medium_bytes_join)
    moreover have ?fit using assms at es by (auto simp: push extents_fit_def dest: in_set_butlastD)
    moreover have "sum_list (map ex_len es) = sum_list (map ex_len (butlast es)) + ex_len ?l" by (subst es) simp
    then have ?sum by (simp add: push)
    ultimately show ?thesis by blast
  next
    case False
    then show ?thesis using assms by (auto simp: push_block_def off extents_fit_def)
  qed
  then show ?bytes ?fit ?sum by blast+
qed

lemma push_blocks_bytes:
  "extents_fit es \<Longrightarrow> \<forall>b \<in> set bl. snd b * bs + bs \<le> u64_max \<Longrightarrow>
    xbytes md (fold (\<lambda>b. push_block bs (snd b)) bl es) = xbytes md es @ concat (map (\<lambda>b. medium_bytes md (snd b * bs) bs) bl) \<and>
    sum_list (map ex_len (fold (\<lambda>b. push_block bs (snd b)) bl es)) = sum_list (map ex_len es) + length bl * bs"
proof (induction bl arbitrary: es)
  case (Cons b bl)
  note p = push_block_bytes [OF Cons.prems(1), of "snd b" bs]
  show ?case using Cons.IH [OF p(2)] p(1,3) Cons.prems by simp
qed simp

lemma ext_runs_bytes:
  assumes "\<forall>b \<in> set blocks. snd b * sp_block_size sb + sp_block_size sb \<le> u64_max" "length blocks * sp_block_size sb \<le> u64_max"
  shows "xbytes md (ext_runs_to_extents sb blocks want) =
    take want (concat (map (\<lambda>b. medium_bytes md (snd b * sp_block_size sb) (sp_block_size sb)) (sort_key fst blocks)))"
proof -
  let ?es = "fold (\<lambda>b. push_block (sp_block_size sb) (snd b)) (sort_key fst blocks) []"
  have "xbytes md ?es = concat (map (\<lambda>b. medium_bytes md (snd b * sp_block_size sb) (sp_block_size sb)) (sort_key fst blocks)) \<and>
      sum_list (map ex_len ?es) = length blocks * sp_block_size sb"
    using push_blocks_bytes [of "[]" "sort_key fst blocks" "sp_block_size sb" md] assms(1) by (simp add: extents_fit_def)
  then show ?thesis using trim_to_size_bytes [of ?es md want] assms(2) by (simp add: ext_runs_to_extents_def)
qed

lemma le32_or_0_lt: "le32_or_0 b off < 2 ^ 32"
  by (cases "le_u32 b off") (auto simp: le32_or_0_def dest: le_u32_bound)

section \<open>A leaf of the extent tree\<close>

text \<open>Extents as (logical block, physical block, number of blocks).\<close>

type_synonym leaf = "nat \<times> nat \<times> nat"

definition encode_leaf_extent :: "leaf \<Rightarrow> bytes" where
  "encode_leaf_extent x =
     (case x of (l, p, n) \<Rightarrow> le_bytes 4 l @ le_bytes 2 n @ le_bytes 2 (p div 2 ^ 32) @ le_bytes 4 (p mod 2 ^ 32))"

definition encode_leaf :: "nat \<Rightarrow> leaf list \<Rightarrow> bytes" where
  "encode_leaf room xs =
     le_bytes 2 extent_magic @ le_bytes 2 (length xs) @ le_bytes 2 room @ le_bytes 2 0 @ zeros 4 @
     concat (map encode_leaf_extent xs) @ zeros ((room - length xs) * 12)"

definition leaf_ok :: "leaf \<Rightarrow> bool" where
  "leaf_ok x \<longleftrightarrow> (case x of (l, p, n) \<Rightarrow> l < 2 ^ 32 \<and> p < 2 ^ 48 \<and> n \<le> 32768)"

definition leaf_pairs :: "leaf \<Rightarrow> block_pairs" where
  "leaf_pairs x = (case x of (l, p, n) \<Rightarrow> map (\<lambda>b. (l + b, p + b)) [0..<n])"

lemma length_encode_leaf_extent [simp]: "length (encode_leaf_extent x) = 12"
  by (simp add: encode_leaf_extent_def split: prod.split)

lemma length_encode_leaf_extents [simp]: "length (concat (map encode_leaf_extent xs)) = 12 * length xs"
  by (induction xs) simp_all

lemma slice_at: "length a = off \<Longrightarrow> length b = n \<Longrightarrow> get_slice (a @ b @ c) off (off + n) = Some b"
  by (simp add: get_slice_def)

lemma le16_at: "length a = off \<Longrightarrow> x < 2 ^ 16 \<Longrightarrow> le16_or_0 (a @ le_bytes 2 x @ c) off = x"
  using slice_at [of a off "le_bytes 2 x" 2 c] by (simp add: le16_or_0_def le_u16_def le_val_le_bytes)

lemma le32_at: "length a = off \<Longrightarrow> x < 2 ^ 32 \<Longrightarrow> le32_or_0 (a @ le_bytes 4 x @ c) off = x"
  using slice_at [of a off "le_bytes 4 x" 4 c] by (simp add: le32_or_0_def le_u32_def le_val_le_bytes)

lemma leaf_extent_at:
  assumes "length a = base" "leaf_ok (l, p, n)"
  shows "leaf_extent (a @ encode_leaf_extent (l, p, n) @ c) base = (l, p, n)"
proof -
  have f: "l < 2 ^ 32" "n < 2 ^ 16" "p div 2 ^ 32 < 2 ^ 16" "p mod 2 ^ 32 < 2 ^ 32" "\<not> 32768 < n" using assms(2) by (auto simp: leaf_ok_def)
  let ?node = "a @ encode_leaf_extent (l, p, n) @ c"
  have "le32_or_0 ?node base = l"
    using le32_at [OF assms(1) f(1)] by (simp only: encode_leaf_extent_def prod.case append_assoc)
  moreover have "le16_or_0 ?node (base + 4) = n"
    using le16_at [of "a @ le_bytes 4 l" "base + 4", OF _ f(2)] assms(1) by (simp add: encode_leaf_extent_def)
  moreover have "le16_or_0 ?node (base + 6) = p div 2 ^ 32"
    using le16_at [of "a @ le_bytes 4 l @ le_bytes 2 n" "base + 6", OF _ f(3)] assms(1) by (simp add: encode_leaf_extent_def)
  moreover have "le32_or_0 ?node (base + 8) = p mod 2 ^ 32"
    using le32_at [of "a @ le_bytes 4 l @ le_bytes 2 n @ le_bytes 2 (p div 2 ^ 32)" "base + 8", OF _ f(4)] assms(1) by (simp add: encode_leaf_extent_def)
  moreover have "p div 2 ^ 32 * 2 ^ 32 + p mod 2 ^ 32 = p" by (rule div_mult_mod_eq)
  ultimately show ?thesis using f(5) by (simp only: leaf_extent_def Let_def if_False)
qed

lemma leaf_blocks_all:
  "length out + length bs \<le> max_file_blocks \<Longrightarrow> (\<forall>b \<in> set bs. l + b \<le> u64_max \<and> p + b \<le> u64_max) \<Longrightarrow>
    leaf_blocks l p bs out = (False, out @ map (\<lambda>b. (l + b, p + b)) bs)"
  by (induction bs arbitrary: out) (simp_all add: sat_add64_def)

lemma extent_entries_leaf:
  assumes "le16_or_0 node 6 = 0"
  shows "node = pre @ concat (map encode_leaf_extent xs) @ post \<Longrightarrow> length pre = 12 + k * 12 \<Longrightarrow> \<forall>x \<in> set xs. leaf_ok x \<Longrightarrow>
    length out + length (concat (map leaf_pairs xs)) \<le> max_file_blocks \<Longrightarrow>
    extent_entries src sb node d [k..<k + length xs] (budget, out) = (budget, out @ concat (map leaf_pairs xs))"
proof (induction xs arbitrary: pre k out)
  case (Cons x xs)
  obtain l p n where x: "x = (l, p, n)" by (cases x)
  let ?base = "12 + k * 12"
  have ok: "leaf_ok (l, p, n)" using Cons.prems(3) x by simp
  have node: "node = pre @ encode_leaf_extent (l, p, n) @ (concat (map encode_leaf_extent xs) @ post)" using Cons.prems(1) x by simp
  have slice: "get_slice node ?base (?base + 12) \<noteq> None"
    using slice_at [of pre ?base "encode_leaf_extent (l, p, n)" 12] Cons.prems(2) unfolding node by simp
  have leaf: "leaf_extent node ?base = (l, p, n)" unfolding node by (rule leaf_extent_at [OF Cons.prems(2) ok])
  have pairs: "leaf_pairs x = map (\<lambda>b. (l + b, p + b)) [0..<n]" by (simp add: leaf_pairs_def x)
  have small: "l < 2 ^ 32" "p < 2 ^ 48" "n \<le> 32768" using ok by (simp_all add: leaf_ok_def)
  then have "leaf_blocks l p [0..<n] out = (False, out @ leaf_pairs x)"
    using Cons.prems(4) unfolding pairs by (intro leaf_blocks_all) (auto simp: leaf_pairs_def x)
  then have step: "extent_entries src sb node d (k # ks) (budget, out) = extent_entries src sb node d ks (budget, out @ leaf_pairs x)" for ks
    unfolding extent_entries.simps(2) Let_def if_not_P [OF slice] if_P [OF assms] leaf prod.case fst_conv snd_conv by simp
  have "[k..<k + length (x # xs)] = k # [Suc k..<Suc k + length xs]" using upt_conv_Cons [of k "k + length (x # xs)"] by (simp del: upt_Suc)
  moreover have "extent_entries src sb node d [Suc k..<Suc k + length xs] (budget, out @ leaf_pairs x) = (budget, (out @ leaf_pairs x) @ concat (map leaf_pairs xs))"
    using Cons.prems by (intro Cons.IH [of "pre @ encode_leaf_extent x"]) auto
  ultimately show ?case by (simp only: step list.map concat.simps append_assoc)
qed simp

lemma collect_leaf:
  assumes "\<forall>x \<in> set xs. leaf_ok x" "length xs \<le> room" "room < 2 ^ 16" "length (concat (map leaf_pairs xs)) \<le> max_file_blocks" "0 < budget"
  shows "collect_extent_tree src sb (encode_leaf room xs) 0 (budget, []) = (budget - 1, concat (map leaf_pairs xs))"
proof -
  let ?node = "encode_leaf room xs"
  let ?head = "le_bytes 2 extent_magic @ le_bytes 2 (length xs) @ le_bytes 2 room @ le_bytes 2 0 @ zeros 4"
  have node: "?node = ?head @ concat (map encode_leaf_extent xs) @ zeros ((room - length xs) * 12)" by (simp add: encode_leaf_def)
  have "extent_magic < 2 ^ 16" by (simp add: extent_magic_def)
  then have h0: "le16_or_0 ?node 0 = extent_magic" using le16_at [of "[]" 0 extent_magic] by (simp add: encode_leaf_def)
  have h2: "le16_or_0 ?node 2 = length xs"
    using le16_at [of "le_bytes 2 extent_magic" 2 "length xs"] assms(2,3) by (simp add: encode_leaf_def)
  have h4: "le16_or_0 ?node 4 = room"
    using le16_at [of "le_bytes 2 extent_magic @ le_bytes 2 (length xs)" 4 room] assms(3) by (simp add: encode_leaf_def)
  have h6: "le16_or_0 ?node 6 = 0"
    using le16_at [of "le_bytes 2 extent_magic @ le_bytes 2 (length xs) @ le_bytes 2 room" 6 0] by (simp add: encode_leaf_def)
  have len: "(length ?node - 12) div 12 = room" using assms(2) unfolding node by (simp add: diff_mult_distrib)
  have g1: "\<not> (max_extent_depth < 0 \<or> max_file_blocks < length ([] :: block_pairs) \<or> budget = 0)" using assms(5) by simp
  have g2: "\<not> extent_magic \<noteq> extent_magic" by simp
  have g3: "\<not> (room < length xs \<or> room < room)" using assms(2) by simp
  have "collect_extent_tree src sb ?node 0 (budget, []) = extent_entries src sb ?node 0 [0..<length xs] (budget - 1, [])"
    unfolding collect_extent_tree.simps Let_def h0 h2 h4 len if_not_P [OF g1] if_not_P [OF g2] if_not_P [OF g3] by (rule refl)
  also have "\<dots> = (budget - 1, [] @ concat (map leaf_pairs xs))"
    using extent_entries_leaf [OF h6 node, of 0 "[]" src sb 0 "budget - 1"] assms(1,4) by simp
  finally show ?thesis by simp
qed

lemma leaf_pairs_bytes:
  "concat (map (\<lambda>b. medium_bytes md (snd b * bs) bs) (leaf_pairs (l, p, n))) = medium_bytes md (p * bs) (n * bs)"
proof (induction n)
  case (Suc n)
  have "p * bs + n * bs = (p + n) * bs" by (simp add: distrib_right)
  then show ?case using Suc medium_bytes_join [of md "p * bs" "n * bs" bs] by (simp add: leaf_pairs_def add.commute)
qed (simp add: leaf_pairs_def)

text \<open>Extents in the order of the file.\<close>

definition leaves_sorted :: "leaf list \<Rightarrow> bool" where
  "leaves_sorted xs \<longleftrightarrow> sorted_wrt (\<lambda>x y. fst x + snd (snd x) \<le> fst y) xs"

lemma leaves_sorted_pairs: "leaves_sorted xs \<Longrightarrow> sort_key fst (concat (map leaf_pairs xs)) = concat (map leaf_pairs xs)"
proof -
  assume a: "leaves_sorted xs"
  have mem: "b \<in> set (leaf_pairs x) \<Longrightarrow> fst x \<le> fst b \<and> fst b < fst x + snd (snd x)" for b x
    by (auto simp: leaf_pairs_def split: prod.splits)
  have one: "sorted_wrt (\<lambda>a b. fst a \<le> fst b) (leaf_pairs x)" for x
    by (auto simp: leaf_pairs_def sorted_wrt_iff_nth_less split: prod.split)
  have "sorted_wrt (\<lambda>a b. fst a \<le> fst b) (concat (map leaf_pairs xs))"
    using a unfolding leaves_sorted_def
  proof (induction xs)
    case (Cons x xs)
    have "fst a \<le> fst b" if "a \<in> set (leaf_pairs x)" "y \<in> set xs" "b \<in> set (leaf_pairs y)" for a b y
    proof -
      have "fst x + snd (snd x) \<le> fst y" using Cons.prems that(2) by simp
      then show ?thesis using mem [OF that(1)] mem [OF that(3)] by linarith
    qed
    then have "\<forall>a \<in> set (leaf_pairs x). \<forall>b \<in> set (concat (map leaf_pairs xs)). fst a \<le> fst b" by auto
    moreover have "sorted_wrt (\<lambda>a b. fst a \<le> fst b) (concat (map leaf_pairs xs))" using Cons by simp
    ultimately show ?case using one [of x] by (simp add: sorted_wrt_append)
  qed simp
  then show ?thesis by (intro sort_key_id_if_sorted) (simp add: sorted_wrt_map)
qed

section \<open>Directory blocks\<close>

lemma round4_id: "4 dvd n \<Longrightarrow> round4 n = n"
  by (auto simp: round4_def)

lemma round4_add: "round4 (4 * k + n) = 4 * k + round4 n"
proof -
  have "(4 * k + n + 3) div 4 = k + (n + 3) div 4" using div_mult_self4 [of 4 k "n + 3"] by (simp only: add.assoc)
  then show ?thesis by (simp only: round4_def) (simp add: add_mult_distrib)
qed

lemma round4_8: "round4 (8 + n) = 8 + round4 n"
  using round4_add [of 2 n] by simp

lemma round4_ge: "n \<le> round4 n"
  unfolding round4_def by linarith

lemma round4_dvd [simp]: "4 dvd round4 n"
  by (simp add: round4_def)

record dirent =
  dx_ino :: nat
  dx_type :: byte
  dx_name :: bytes

definition encode_dirent :: "nat \<Rightarrow> dirent \<Rightarrow> bytes" where
  "encode_dirent rec_len d =
     le_bytes 4 (dx_ino d) @ le_bytes 2 rec_len @ [of_nat (length (dx_name d)), dx_type d] @ dx_name d @
     zeros (round4 (length (dx_name d)) - length (dx_name d))"

definition dirent_ok :: "dirent \<Rightarrow> bool" where
  "dirent_ok d \<longleftrightarrow> 0 < dx_ino d \<and> dx_ino d < 2 ^ 32 \<and> is_plausible_name (dx_name d) \<and> length (dx_name d) \<le> 255"

definition entry_of :: "bool \<Rightarrow> dirent \<Rightarrow> dir_entry" where
  "entry_of deleted d =
     \<lparr>de_inode = dx_ino d, de_name = utf8_lossy (dx_name d), de_raw_name = dx_name d, de_type = dx_type d, de_deleted = deleted\<rparr>"

lemma length_encode_dirent [simp]: "length (encode_dirent r d) = 8 + round4 (length (dx_name d))"
  using round4_ge [of "length (dx_name d)"] by (simp add: encode_dirent_def)

lemma byte_at: "length a = off \<Longrightarrow> byte_or_0 (a @ x # c) off = x"
  by (auto simp: byte_or_0_def get_at_def nth_append)

lemma dirent_at:
  assumes "length a = p" "dirent_ok d" "r < 2 ^ 16"
  shows "le32_or_0 (a @ encode_dirent r d @ c) p = dx_ino d" (is "?ino")
    and "le16_or_0 (a @ encode_dirent r d @ c) (p + 4) = r" (is "?len")
    and "unat (byte_or_0 (a @ encode_dirent r d @ c) (p + 6)) = length (dx_name d)" (is "?n")
    and "get_slice (a @ encode_dirent r d @ c) (p + 8) (p + 8 + length (dx_name d)) = Some (dx_name d)" (is "?name")
    and "dir_record (a @ encode_dirent r d @ c) p (dx_name d) del = entry_of del d" (is "?rec")
proof -
  let ?b = "a @ encode_dirent r d @ c"
  have ino: "dx_ino d < 2 ^ 32" and len: "length (dx_name d) < 256" using assms(2) by (auto simp: dirent_ok_def)
  show i: ?ino using le32_at [OF assms(1) ino] by (simp only: encode_dirent_def append_assoc)
  show ?len using le16_at [of "a @ le_bytes 4 (dx_ino d)" "p + 4", OF _ assms(3)] assms(1) by (simp add: encode_dirent_def)
  have "byte_or_0 ?b (p + 6) = of_nat (length (dx_name d))"
    using byte_at [of "a @ le_bytes 4 (dx_ino d) @ le_bytes 2 r" "p + 6"] assms(1) by (simp add: encode_dirent_def)
  then show ?n using unat_of_nat_byte [OF len] by simp
  have t: "byte_or_0 ?b (p + 7) = dx_type d"
    using byte_at [of "a @ le_bytes 4 (dx_ino d) @ le_bytes 2 r @ [of_nat (length (dx_name d))]" "p + 7"] assms(1) by (simp add: encode_dirent_def)
  show ?name
    using slice_at [of "a @ le_bytes 4 (dx_ino d) @ le_bytes 2 r @ [of_nat (length (dx_name d)), dx_type d]" "p + 8" "dx_name d" "length (dx_name d)"] assms(1)
    by (simp add: encode_dirent_def)
  show ?rec using i t by (simp add: dir_record_def entry_of_def)
qed

text \<open>Records that an unlink has absorbed, each with the length it once had.\<close>

definition encode_stale :: "(nat \<times> dirent) list \<Rightarrow> bytes" where
  "encode_stale ss = concat (map (\<lambda>(r, d). encode_dirent r d) ss)"

definition stale_ok :: "superblock \<Rightarrow> nat \<times> dirent \<Rightarrow> bool" where
  "stale_ok sb x \<longleftrightarrow> fst x < 2 ^ 16 \<and> dirent_ok (snd x) \<and> dx_ino (snd x) \<le> sp_inodes_count sb"

lemma encode_stale_simps [simp]: "encode_stale [] = []" "encode_stale (x # ss) = encode_dirent (fst x) (snd x) @ encode_stale ss"
  by (simp_all add: encode_stale_def split: prod.split)

lemma encode_stale_dvd [simp]: "4 dvd length (encode_stale ss)"
  by (induction ss) simp_all

lemma slack_loop_stale:
  "b = a @ encode_stale ss @ c \<Longrightarrow> length a = p \<Longrightarrow> 4 dvd p \<Longrightarrow> \<forall>x \<in> set ss. stale_ok sb x \<Longrightarrow>
    slack_loop sb b (p + length (encode_stale ss)) p out = out @ map (\<lambda>x. entry_of True (snd x)) ss"
proof (induction ss arbitrary: a p out)
  case Nil
  then show ?case by (subst slack_loop.simps) simp
next
  case (Cons x ss)
  obtain r d where x: "x = (r, d)" by (cases x)
  have ok: "dirent_ok d" "r < 2 ^ 16" "dx_ino d \<le> sp_inodes_count sb" using Cons.prems(4) x by (simp_all add: stale_ok_def)
  let ?n = "length (dx_name d)" and ?stop = "p + length (encode_stale (x # ss))"
  have b: "b = a @ encode_dirent r d @ (encode_stale ss @ c)" using Cons.prems(1) x by simp
  note at = dirent_at [OF Cons.prems(2) ok(1,2), of "encode_stale ss @ c", folded b]
  have n: "0 < ?n" "?n \<le> 255" "0 < dx_ino d" "is_plausible_name (dx_name d)" using ok(1) by (auto simp: dirent_ok_def is_plausible_name_def)
  have stop: "p + 8 + ?n \<le> ?stop" "p + 8 \<le> ?stop" using round4_ge [of ?n] by (simp_all add: x)
  have round: "round4 (p + 8 + ?n) = p + (8 + round4 ?n)"
  proof -
    obtain k where k: "p = 4 * k" using Cons.prems(3) by auto
    show ?thesis unfolding k add.assoc round4_8 [symmetric] round4_add by (rule refl)
  qed
  have g: "\<not> ?stop < p + 8" using stop(2) by linarith
  have cond: "dx_ino d \<noteq> 0 \<and> dx_ino d \<le> sp_inodes_count sb \<and> 0 < ?n \<and> ?n \<le> 255 \<and> p + 8 + ?n \<le> ?stop"
    using n ok(3) stop(1) by blast
  have "slack_loop sb b ?stop p out = slack_loop sb b ?stop (round4 (p + 8 + ?n)) (out @ [entry_of True d])"
    unfolding slack_loop.simps [of sb b ?stop p] Let_def if_not_P [OF g] at(1,3) if_P [OF cond] at(4) option.case if_P [OF n(4)] at(5) by (rule refl)
  also have "\<dots> = slack_loop sb b ((p + (8 + round4 ?n)) + length (encode_stale ss)) (p + (8 + round4 ?n)) (out @ [entry_of True d])"
    unfolding round by (simp add: x add.assoc)
  also have "\<dots> = (out @ [entry_of True d]) @ map (\<lambda>x. entry_of True (snd x)) ss"
  proof (rule Cons.IH)
    show "b = (a @ encode_dirent r d) @ encode_stale ss @ c" using b by simp
    show "length (a @ encode_dirent r d) = p + (8 + round4 ?n)" using Cons.prems(2) by simp
    show "4 dvd p + (8 + round4 ?n)" using Cons.prems(3) by simp
    show "\<forall>x \<in> set ss. stale_ok sb x" using Cons.prems(4) by simp
  qed
  finally show ?case by (simp add: x)
qed

text \<open>A live record with the records in its slack.\<close>

type_synonym dir_group = "dirent \<times> (nat \<times> dirent) list"

definition group_len :: "dir_group \<Rightarrow> nat" where
  "group_len g = 8 + round4 (length (dx_name (fst g))) + length (encode_stale (snd g))"

definition encode_group :: "dir_group \<Rightarrow> bytes" where
  "encode_group g = encode_dirent (group_len g) (fst g) @ encode_stale (snd g)"

definition group_ok :: "superblock \<Rightarrow> dir_group \<Rightarrow> bool" where
  "group_ok sb g \<longleftrightarrow> dirent_ok (fst g) \<and> group_len g < 2 ^ 16 \<and> (\<forall>x \<in> set (snd g). stale_ok sb x)"

definition group_entries :: "dir_group \<Rightarrow> dir_entry list" where
  "group_entries g = entry_of False (fst g) # map (\<lambda>x. entry_of True (snd x)) (snd g)"

lemma length_encode_group [simp]: "length (encode_group g) = group_len g"
  by (simp add: encode_group_def group_len_def)

lemma parse_dir_groups:
  "b = a @ concat (map encode_group gs) \<Longrightarrow> length a = p \<Longrightarrow> 4 dvd p \<Longrightarrow> \<forall>g \<in> set gs. group_ok sb g \<Longrightarrow> guard + length gs \<le> 100000 \<Longrightarrow>
    parse_dir_block sb b p guard out = out @ concat (map group_entries gs)"
proof (induction gs arbitrary: a p guard out)
  case Nil
  then show ?case by (subst parse_dir_block.simps) simp
next
  case (Cons g gs)
  obtain d ss where gd: "g = (d, ss)" by (cases g)
  have ok: "dirent_ok d" "group_len g < 2 ^ 16" "\<forall>x \<in> set ss. stale_ok sb x" using Cons.prems(4) gd by (simp_all add: group_ok_def)
  let ?n = "length (dx_name d)" and ?r = "group_len g" and ?rest = "concat (map encode_group gs)"
  have b: "b = a @ encode_dirent ?r d @ (encode_stale ss @ ?rest)" using Cons.prems(1) by (simp add: encode_group_def [of "(d, ss)"] gd)
  note at = dirent_at [OF Cons.prems(2) ok(1,2), of "encode_stale ss @ ?rest", folded b]
  have n: "0 < ?n" "dx_ino d \<noteq> 0" "is_plausible_name (dx_name d)" using ok(1) by (auto simp: dirent_ok_def is_plausible_name_def)
  have r: "?r = 8 + round4 ?n + length (encode_stale ss)" by (simp add: group_len_def gd)
  have len: "length b = p + ?r + length ?rest" using Cons.prems(2) r unfolding b by simp
  have g1: "\<not> (length b < p + 8 \<or> 100000 < guard + 1)" using len r Cons.prems(5) by simp
  have g2: "\<not> (?r < 8 \<or> length b < p + ?r)" using len r by linarith
  have g3: "dx_ino d \<noteq> 0 \<and> 0 < ?n \<and> p + 8 + ?n \<le> length b" using n len r round4_ge [of ?n] by linarith
  have slack: "scan_slack sb b (p + round4 (8 + ?n)) (p + ?r) (out @ [entry_of False d]) = out @ group_entries g"
  proof -
    have q: "p + round4 (8 + ?n) = p + (8 + round4 ?n)" by (simp add: round4_8)
    have al: "4 dvd p + (8 + round4 ?n)" using Cons.prems(3) by simp
    have "min (p + ?r) (length b) = (p + (8 + round4 ?n)) + length (encode_stale ss)" using len r by linarith
    moreover have "slack_loop sb b ((p + (8 + round4 ?n)) + length (encode_stale ss)) (p + (8 + round4 ?n)) (out @ [entry_of False d])
        = (out @ [entry_of False d]) @ map (\<lambda>x. entry_of True (snd x)) ss"
    proof (rule slack_loop_stale [OF _ _ al ok(3)])
      show "b = (a @ encode_dirent ?r d) @ encode_stale ss @ ?rest" using b by simp
      show "length (a @ encode_dirent ?r d) = p + (8 + round4 ?n)" using Cons.prems(2) by simp
    qed
    ultimately show ?thesis by (simp only: scan_slack_def q round4_id [OF al]) (simp add: group_entries_def gd)
  qed
  have "parse_dir_block sb b p guard out = parse_dir_block sb b (p + ?r) (guard + 1) (out @ group_entries g)"
    unfolding parse_dir_block.simps [of sb b p] Let_def if_not_P [OF g1] at(1,2,3) if_not_P [OF g2] if_P [OF g3] at(4) option.case if_P [OF n(3)] at(5) slack
    by (rule refl)
  also have "\<dots> = (out @ group_entries g) @ concat (map group_entries gs)"
  proof (rule Cons.IH)
    show "b = (a @ encode_group g) @ ?rest" using Cons.prems(1) by simp
    show "length (a @ encode_group g) = p + ?r" using Cons.prems(2) by simp
    show "4 dvd p + ?r" using Cons.prems(3) r by simp
    show "\<forall>g \<in> set gs. group_ok sb g" "guard + 1 + length gs \<le> 100000" using Cons.prems(4,5) by simp_all
  qed
  finally show ?case by simp
qed

section \<open>The bitmap\<close>

lemma length_put_bit [simp]: "length (put_bit i v b) = length b"
  by (simp add: put_bit_def split: option.split)

lemma put_bit_bit:
  assumes "i div 8 < length b"
  shows "bitmap_bit (put_bit i v b) j = (if i = j then v else bitmap_bit b j)"
proof (cases "i = j")
  case True
  then show ?thesis using assms
    by (auto simp: bitmap_bit_def put_bit_def get_at_def bit_or_iff bit_and_iff bit_not_iff bit_exp_iff possible_bit_def)
next
  case False
  show ?thesis
  proof (cases "i div 8 = j div 8")
    case True
    then have ne: "i mod 8 \<noteq> j mod 8" using False by (metis div_mult_mod_eq)
    have "bit (x OR push_bit (i mod 8) 1) (j mod 8) = bit x (j mod 8)" "bit (x AND NOT (push_bit (i mod 8) 1)) (j mod 8) = bit x (j mod 8)" for x :: byte
      using ne by (auto simp: bit_or_iff bit_and_iff bit_not_iff bit_exp_iff)
    then show ?thesis using assms True False by (simp add: bitmap_bit_def put_bit_def get_at_def)
  next
    case other: False
    then show ?thesis using assms False by (simp add: bitmap_bit_def put_bit_def get_at_def)
  qed
qed

lemma put_bits_bit:
  "(first + n + 7) div 8 \<le> length b \<Longrightarrow>
    bitmap_bit (fold (\<lambda>i. put_bit (first + i) (v i)) [0..<n] b) j = (if first \<le> j \<and> j < first + n then v (j - first) else bitmap_bit b j) \<and>
    length (fold (\<lambda>i. put_bit (first + i) (v i)) [0..<n] b) = length b"
proof (induction n)
  case (Suc n)
  let ?b = "fold (\<lambda>i. put_bit (first + i) (v i)) [0..<n] b"
  have ih: "bitmap_bit ?b j = (if first \<le> j \<and> j < first + n then v (j - first) else bitmap_bit b j)" "length ?b = length b"
    using Suc by simp_all
  have "(first + n) div 8 < length ?b" using Suc.prems unfolding ih(2) by linarith
  then have "bitmap_bit (put_bit (first + n) (v n) ?b) j = (if first + n = j then v n else bitmap_bit ?b j)" by (rule put_bit_bit)
  then show ?case using ih by auto
qed auto

lemma takeWhile_less: "takeWhile (\<lambda>i. a + i < c) [0..<n] = [0..<min n (c - a)]"
proof (induction n)
  case (Suc n)
  show ?case
  proof (cases "a + n < c")
    case True
    then have "takeWhile (\<lambda>i. a + i < c) [0..<n] = [0..<n]" by (simp add: takeWhile_eq_all_conv)
    then show ?thesis using True by (simp add: min_def takeWhile_append2)
  next
    case False
    then have "min (Suc n) (c - a) = min n (c - a)" by linarith
    moreover have "takeWhile (\<lambda>i. a + i < c) [0..<Suc n] = takeWhile (\<lambda>i. a + i < c) [0..<n]"
      using False by (simp add: takeWhile_append) (metis takeWhile_eq_all_conv atLeastLessThan_upt)
    ultimately show ?thesis using Suc by simp
  qed
qed simp

lemma group_bits_bit:
  assumes "sp_first_data_block sb + (g + 1) * sp_blocks_per_group sb \<le> u64_max" "length b = div_ceil block_count 8"
  defines "first \<equiv> sp_first_data_block sb + g * sp_blocks_per_group sb"
  shows "bitmap_bit (group_bits sb block_count g bm b) j =
      (if first \<le> j \<and> j < min (first + sp_blocks_per_group sb) block_count then bitmap_bit bm (j - first) else bitmap_bit b j)"
    and "length (group_bits sb block_count g bm b) = length b"
proof -
  let ?bpg = "sp_blocks_per_group sb"
  let ?n = "min ?bpg (block_count - first)"
  have fits: "first + ?bpg \<le> u64_max" using assms(1) by (simp add: first_def)
  then have f: "sat_add64 (sp_first_data_block sb) (sat_mul64 g ?bpg) = first" by (simp add: first_def sat_add64_def sat_mul64_def)
  have sat: "sat_add64 first i = first + i" if "i < ?bpg" for i using that fits by (simp add: sat_add64_def)
  have "takeWhile (\<lambda>i. sat_add64 first i < block_count) [0..<?bpg] = takeWhile (\<lambda>i. first + i < block_count) [0..<?bpg]"
    by (rule takeWhile_cong) (auto simp: sat)
  then have tw: "takeWhile (\<lambda>i. sat_add64 first i < block_count) [0..<?bpg] = [0..<?n]" by (simp only: takeWhile_less)
  have "fold (\<lambda>i. put_bit (sat_add64 first i) (bitmap_bit bm i)) [0..<?n] b = fold (\<lambda>i. put_bit (first + i) (bitmap_bit bm i)) [0..<?n] b"
    by (rule fold_cong) (auto simp: sat)
  then have eq: "group_bits sb block_count g bm b = fold (\<lambda>i. put_bit (first + i) (bitmap_bit bm i)) [0..<?n] b"
    by (simp only: group_bits_def Let_def f tw)
  have res: "?n = 0 \<or> (first + ?n + 7) div 8 \<le> length b"
  proof (cases "first < block_count")
    case True
    then have "first + ?n \<le> block_count" by simp
    moreover have "(block_count + 7) div 8 = div_ceil block_count 8" unfolding div_ceil_def by (simp split: if_split) presburger
    ultimately show ?thesis unfolding assms(2) by (metis add_le_cancel_right div_le_mono)
  qed simp
  have "bitmap_bit (fold (\<lambda>i. put_bit (first + i) (bitmap_bit bm i)) [0..<?n] b) j = (if first \<le> j \<and> j < first + ?n then bitmap_bit bm (j - first) else bitmap_bit b j)
      \<and> length (fold (\<lambda>i. put_bit (first + i) (bitmap_bit bm i)) [0..<?n] b) = length b"
    using res put_bits_bit [of first ?n b "bitmap_bit bm" j] by (cases "?n = 0") auto
  moreover have "first \<le> j \<and> j < first + ?n \<longleftrightarrow> first \<le> j \<and> j < min (first + ?bpg) block_count" by auto
  ultimately show "bitmap_bit (group_bits sb block_count g bm b) j =
      (if first \<le> j \<and> j < min (first + ?bpg) block_count then bitmap_bit bm (j - first) else bitmap_bit b j)"
    "length (group_bits sb block_count g bm b) = length b"
    unfolding eq by simp_all
qed

lemma fold_indexed: "fold (\<lambda>(i, x). F i x) (zip [0..<length xs] xs) s = fold (\<lambda>i. F i (xs ! i)) [0..<length xs] s"
proof -
  have "zip [0..<length xs] xs = map (\<lambda>i. (i, xs ! i)) [0..<length xs]" by (rule nth_equalityI) simp_all
  then show ?thesis by (simp add: fold_map o_def)
qed

lemma all_groups_bit:
  assumes "0 < sp_blocks_per_group sb" "sp_first_data_block sb + n * sp_blocks_per_group sb \<le> u64_max" "length b = div_ceil block_count 8"
  shows "bitmap_bit (fold (\<lambda>g. group_bits sb block_count g (bm g)) [0..<n] b) j =
      (if sp_first_data_block sb \<le> j \<and> j < min (sp_first_data_block sb + n * sp_blocks_per_group sb) block_count
       then bitmap_bit (bm ((j - sp_first_data_block sb) div sp_blocks_per_group sb)) ((j - sp_first_data_block sb) mod sp_blocks_per_group sb)
       else bitmap_bit b j) \<and>
    length (fold (\<lambda>g. group_bits sb block_count g (bm g)) [0..<n] b) = length b"
  using assms(2)
proof (induction n)
  case (Suc n)
  let ?bpg = "sp_blocks_per_group sb" and ?f = "sp_first_data_block sb"
  let ?b = "fold (\<lambda>g. group_bits sb block_count g (bm g)) [0..<n] b"
  let ?old = "?f \<le> j \<and> j < min (?f + n * ?bpg) block_count"
  let ?new = "?f + n * ?bpg \<le> j \<and> j < min (?f + n * ?bpg + ?bpg) block_count"
  have small: "?f + n * ?bpg \<le> u64_max" "?f + (n + 1) * ?bpg \<le> u64_max" using Suc.prems by simp_all
  note ih = Suc.IH [OF small(1)]
  have len: "length ?b = div_ceil block_count 8" using ih assms(3) by simp
  have step: "bitmap_bit (group_bits sb block_count n (bm n) ?b) j = (if ?new then bitmap_bit (bm n) (j - (?f + n * ?bpg)) else bitmap_bit ?b j)"
    "length (group_bits sb block_count n (bm n) ?b) = length ?b"
    using group_bits_bit [OF small(2) len] by simp_all
  have pos: "(j - ?f) div ?bpg = n \<and> (j - ?f) mod ?bpg = j - (?f + n * ?bpg)" if ?new
  proof -
    have j: "j - ?f = n * ?bpg + (j - (?f + n * ?bpg))" and r: "j - (?f + n * ?bpg) < ?bpg" using that by linarith+
    have "(j - ?f) div ?bpg = n" using r assms(1) by (subst j) simp
    moreover have "(j - ?f) mod ?bpg = j - (?f + n * ?bpg)" using r by (subst j) simp
    ultimately show ?thesis by blast
  qed
  have split: "?f \<le> j \<and> j < min (?f + Suc n * ?bpg) block_count \<longleftrightarrow> ?old \<or> ?new" by auto
  have "\<not> (?old \<and> ?new)" by auto
  then show ?case using ih step pos unfolding split by auto
qed auto

lemma ext_bitmap_block:
  assumes "ext_bitmap v = Some bm" "0 < sp_blocks_per_group (xt_sb v)"
    and "sp_first_data_block (xt_sb v) + length (sp_groups (xt_sb v)) * sp_blocks_per_group (xt_sb v) \<le> u64_max"
    and "sp_first_data_block (xt_sb v) \<le> j" "j < bm_count bm"
    and "g = (j - sp_first_data_block (xt_sb v)) div sp_blocks_per_group (xt_sb v)" "g < length (sp_groups (xt_sb v))"
  shows "is_block_allocated bm j =
    bitmap_bit (ext_block (xt_src v) (xt_sb v) (gd_block_bitmap (sp_groups (xt_sb v) ! g))) ((j - sp_first_data_block (xt_sb v)) mod sp_blocks_per_group (xt_sb v))"
proof -
  let ?sb = "xt_sb v"
  let ?groups = "sp_groups ?sb" and ?bpg = "sp_blocks_per_group ?sb" and ?f = "sp_first_data_block ?sb"
  define count where "count = min (sp_blocks_count ?sb) (s_len (xt_src v) div max (sp_block_size ?sb) 1 + 1)"
  let ?bits = "fold (\<lambda>g. group_bits ?sb count g (ext_block (xt_src v) ?sb (gd_block_bitmap (?groups ! g)))) [0..<length ?groups] (replicate (div_ceil count 8) 0xFF)"
  have g: "\<not> (count = 0 \<or> max_bitmap_blocks < count)" using assms(1) unfolding ext_bitmap_def Let_def count_def [symmetric] by (auto split: if_splits)
  have bm: "bm = bitmap_new (if sp_block_size ?sb < 2 ^ 32 then sp_block_size ?sb else 4096) 0 count ?bits"
    using assms(1) unfolding ext_bitmap_def Let_def count_def [symmetric] if_not_P [OF g] fold_indexed by simp
  have count: "bm_count bm = count" "bm_bits bm = ?bits" by (simp_all add: bm bitmap_new_def)
  have mult: "j - ?f < length ?groups * ?bpg" using assms(2,7) unfolding assms(6) by (simp add: less_mult_imp_div_less div_less_iff_less_mult)
  note all = all_groups_bit [OF assms(2,3), of "replicate (div_ceil count 8) 0xFF" count "\<lambda>g. ext_block (xt_src v) ?sb (gd_block_bitmap (?groups ! g))" j]
  have "j < min (?f + length ?groups * ?bpg) count" using mult assms(4,5) count(1) by linarith
  then have "bitmap_bit ?bits j = bitmap_bit (ext_block (xt_src v) ?sb (gd_block_bitmap (?groups ! g))) ((j - ?f) mod ?bpg)"
    using all assms(4) unfolding assms(6) by simp
  moreover have "is_block_allocated bm j = bitmap_bit ?bits j"
    using assms(5) unfolding is_block_allocated_def bitmap_bit_def count by (simp split: option.split)
  ultimately show ?thesis by simp
qed

end
