(* ===== verification/ExtTheorems.thy ===== *)
theory ExtTheorems
  imports ExtFacts
begin

text \<open>
  The properties of the ext engine: the data of a file whose extents are in its inode, directory blocks with
  deleted records in their slack, the block bitmap, the invariant of the walk.
\<close>

unbundle bit_operations_syntax

section \<open>Sizes\<close>

lemma parse_inode_size: "parse_inode_bytes raw = Some i \<Longrightarrow> ino_size i \<le> u64_max"
  using le32_or_0_lt [of raw "0x6C"] le32_or_0_lt [of raw "0x04"]
  by (auto simp: parse_inode_bytes_def Let_def split: option.splits if_splits)

lemma inode_read_size: "inode_read src sb ino = Some i \<Longrightarrow> ino_size i \<le> u64_max"
  by (auto simp: inode_read_def split: option.splits dest: parse_inode_size)

definition sizes_ok :: "recovered \<Rightarrow> bool" where
  "sizes_ok out \<longleftrightarrow> (\<forall>x \<in> set out. ino_size (snd x) \<le> u64_max)"

lemma harvest_one_sizes: "sizes_ok out \<Longrightarrow> sizes_ok (harvest_one sb gi b blk k out)"
  by (auto simp: harvest_one_def Let_def sizes_ok_def or_insert_def split: option.split dest: parse_inode_size)

lemma harvest_sizes: "sizes_ok out \<Longrightarrow> sizes_ok (harvest_inode_block sb b blk out)"
proof -
  assume a: "sizes_ok out"
  have "sizes_ok out \<Longrightarrow> sizes_ok (fold (harvest_one sb gi b blk) ks out)" for gi b ks
    by (induction ks arbitrary: out) (simp_all add: harvest_one_sizes)
  then show ?thesis using a by (simp add: harvest_inode_block_def split: option.split)
qed

lemma journal_targets_sizes: "sizes_ok out \<Longrightarrow> sizes_ok (snd (snd (journal_targets src sb jblocks ts k out)))"
  by (induction ts arbitrary: k out) (simp_all add: Let_def harvest_sizes split: option.split)

lemma journal_loop_sizes: "sizes_ok out \<Longrightarrow> sizes_ok (journal_loop src sb incompat jblocks i out)"
proof (induction src sb incompat jblocks i out rule: journal_loop.induct)
  case (1 src sb incompat jblocks i out)
  show ?case
  proof (cases "length jblocks \<le> i")
    case True
    then show ?thesis using 1(3) by (subst journal_loop.simps) simp
  next
    case False
    let ?jb = "unwrap_or (get_at jblocks i) 0"
    let ?hdr = "fs_read src (sat_mul64 ?jb (sp_block_size sb)) 12"
    let ?skip = "be32_or_0 ?hdr 0 \<noteq> jbd2_magic \<or> be32_or_0 ?hdr 4 \<noteq> 1"
    note run = journal_loop.simps [of src sb incompat jblocks i out, unfolded Let_def if_not_P [OF False]]
    show ?thesis
    proof (cases ?skip)
      case True
      then show ?thesis using 1(1) [OF False refl refl True 1(3)] unfolding run by (simp only: if_True)
    next
      case go: False
      obtain b k out1 where t: "journal_targets src sb jblocks (parse_descriptor_tags incompat (ext_block src sb ?jb)) (i + 1) out = (b, k, out1)"
        by (metis prod_cases3)
      have ok: "sizes_ok out1" using journal_targets_sizes [OF 1(3)] t by (metis snd_conv)
      have "sizes_ok (journal_loop src sb incompat jblocks (max k (i + 1)) out1)" if "\<not> b"
        using 1(2) [OF False refl refl go t [symmetric] _ refl ok] that by simp
      then show ?thesis using ok unfolding run if_not_P [OF go] t by (cases b) simp_all
    qed
  qed
qed

lemma journal_sizes: "sizes_ok (recover_from_journal src sb)"
proof -
  have nil: "sizes_ok []" by (simp add: sizes_ok_def)
  then show ?thesis unfolding recover_from_journal_def Let_def by (auto simp: journal_loop_sizes split: option.split)
qed

lemma resolve_inode_size: "sizes_ok journal \<Longrightarrow> resolve_inode v journal e state = Some i \<Longrightarrow> ino_size i \<le> u64_max"
  by (fastforce simp: resolve_inode_def Let_def sizes_ok_def split: if_splits dest: map_of_SomeD inode_read_size)

lemma inode_extents_sum: "ino_size i \<le> u64_max \<Longrightarrow> sum_list (map ex_len (inode_extents src sb i)) \<le> ino_size i"
  by (simp add: inode_extents_def ext_runs_to_extents_def trim_to_size_sum)

section \<open>The invariant of the walk\<close>

definition entry_fits :: "entry \<Rightarrow> bool" where
  "entry_fits e \<longleftrightarrow> sum_list (map ex_len (en_extents e)) \<le> en_size e"

definition ew_ok :: "walk_opts \<Rightarrow> ext_ctx \<Rightarrow> bool" where
  "ew_ok opts w \<longleftrightarrow> walk_ok (ew_walk w) \<and> wk_emitted (ew_walk w) \<le> wo_max opts \<and> (\<forall>e \<in> set (wk_out (ew_walk w)). entry_fits e)"

lemma ew_ok_report: "ew_ok opts w \<Longrightarrow> ext_budget opts w \<Longrightarrow> entry_fits e \<Longrightarrow> ew_ok opts (ext_report e w)"
  by (auto simp: ew_ok_def ext_report_def ext_budget_def)

lemma ew_ok_dirs [simp]: "ew_ok opts (w\<lparr>ew_dirs := ds\<rparr>) = ew_ok opts w"
  by (simp add: ew_ok_def)

lemma inode_entry_fits: "ino_size i \<le> u64_max \<Longrightarrow> entry_fits (inode_entry v e parent path state i)"
proof -
  assume "ino_size i \<le> u64_max"
  then have "sum_list (map ex_len (inode_extents (xt_src v) (xt_sb v) i)) \<le> ino_size i" by (rule inode_extents_sum)
  moreover have "inode_extents (xt_src v) (xt_sb v) i = []" if "ino_size i = 0"
    using that by (simp add: inode_extents_def ext_runs_to_extents_def trim_to_size_def)
  ultimately show ?thesis by (auto simp: entry_fits_def inode_entry_def Let_def new_file_def)
qed

lemma emit_from_inode_ok:
  assumes "sizes_ok journal" "ew_ok opts w"
  shows "ew_ok opts (emit_from_inode v opts journal e parent path state w)"
  using assms resolve_inode_size [OF assms(1)] ew_ok_report [OF assms(2)] inode_entry_fits
  by (auto simp: emit_from_inode_def split: option.split)

lemma dir_records_ok: "sizes_ok journal \<Longrightarrow> ew_ok opts (snd st) \<Longrightarrow> ew_ok opts (snd (dir_records v opts journal dino path es st))"
  by (induction v opts journal dino path es st rule: dir_records.induct) (simp_all add: Let_def emit_from_inode_ok)

lemma ext_walk_tree_ok: "sizes_ok journal \<Longrightarrow> ew_ok opts w \<Longrightarrow> ew_ok opts (ext_walk_tree v opts journal stack w)"
proof (induction v opts journal stack w rule: ext_walk_tree.induct)
  case (2 v opts journal dino path stack w)
  let ?stop = "\<not> ext_budget opts w \<or> ext_max_dirs < length (ew_dirs w)"
  let ?w1 = "w\<lparr>ew_dirs := dino # ew_dirs w\<rparr>"
  have w1: "ew_ok opts ?w1" using 2(6) by simp
  note run = ext_walk_tree.simps(2) [of v opts journal dino path stack w, unfolded Let_def]
  show ?case
  proof (cases ?stop)
    case True
    then show ?thesis using 2(6) unfolding run by simp
  next
    case go: False
    show ?thesis
    proof (cases "dino \<in> set (ew_dirs w)")
      case True
      then show ?thesis using 2(1) [OF go True 2(5,6)] unfolding run if_not_P [OF go] by simp
    next
      case new: False
      note run2 = run [unfolded if_not_P [OF go] if_not_P [OF new]]
      show ?thesis
      proof (cases "inode_read (xt_src v) (xt_sb v) dino")
        case None
        then show ?thesis using 2(2) [OF go new refl None 2(5) w1] unfolding run2 by simp
      next
        case (Some i)
        show ?thesis
        proof (cases "\<not> inode_is_dir i")
          case True
          then show ?thesis using 2(3) [OF go new refl Some True 2(5) w1] unfolding run2 Some by simp
        next
          case False
          have "ew_ok opts (snd (dir_records v opts journal dino path (ext_read_dir (xt_src v) (xt_sb v) i) (stack, ?w1)))"
            by (rule dir_records_ok [OF 2(5)]) (use w1 in simp)
          then show ?thesis using 2(4) [OF go new refl Some False refl 2(5)] False unfolding run2 Some by simp
        qed
      qed
    qed
  qed
qed (simp add: ext_walk_tree.simps)

lemma orphan_inodes_ok: "ew_ok opts w \<Longrightarrow> ew_ok opts (orphan_inodes v opts inos w)"
proof (induction inos arbitrary: w)
  case (Cons ino inos)
  have fits: "entry_fits (orphan_inode v ino i)" if "inode_read (xt_src v) (xt_sb v) ino = Some i" for i
    using inode_extents_sum [OF inode_read_size [OF that]] by (simp add: entry_fits_def orphan_inode_def Let_def new_file_def)
  show ?case
    using Cons.IH [OF Cons.prems] Cons.IH [OF ew_ok_report [OF Cons.prems]] Cons.prems fits by (simp split: option.split)
qed simp

lemma sat_sum: "a + sum_list (map ex_len es) \<le> u64_max \<Longrightarrow> foldl (\<lambda>a x. sat_add64 a (ex_len x)) a es = a + sum_list (map ex_len es)"
  by (induction es arbitrary: a) (simp_all add: sat_add64_def)

lemma node_extents_sum:
  assumes "sp_block_size sb \<le> 65536" "le16_or_0 node 2 \<le> 340"
  shows "sum_list (map ex_len (node_extents sb node)) \<le> u64_max"
proof -
  have one: "ex_len e \<le> 2 ^ 32" if "node_extent sb node base = Some e" for base e
  proof -
    have "le16_or_0 node (base + 4) < 65536" by (cases "le_u16 node (base + 4)") (auto simp: le16_or_0_def dest: le_u16_bound)
    then have "(if 32768 < le16_or_0 node (base + 4) then le16_or_0 node (base + 4) - 32768 else le16_or_0 node (base + 4)) \<le> 32768" by (auto simp: le_diff_conv)
    then have "(if 32768 < le16_or_0 node (base + 4) then le16_or_0 node (base + 4) - 32768 else le16_or_0 node (base + 4)) * sp_block_size sb \<le> 32768 * 65536"
      using assms(1) by (intro mult_le_mono)
    then show ?thesis using that by (auto simp: node_extent_def Let_def sat_mul64_def split: if_splits)
  qed
  have bound: "(\<And>i e. f i = Some e \<Longrightarrow> ex_len e \<le> 2 ^ 32) \<Longrightarrow> sum_list (map ex_len (List.map_filter f is)) \<le> length is * 2 ^ 32" for f :: "nat \<Rightarrow> extent option" and "is"
  proof (induction "is")
    case (Cons i "is")
    then show ?case by (cases "f i") (auto simp: List.map_filter_simps intro: add_mono)
  qed (simp add: List.map_filter_simps)
  let ?is = "takeWhile (\<lambda>i. get_slice node (12 + i * 12) (12 + i * 12 + 12) \<noteq> None) [0..<le16_or_0 node 2]"
  have "length ?is * 2 ^ 32 \<le> 340 * 2 ^ 32" using assms(2) length_takeWhile_le [of "\<lambda>i. get_slice node (12 + i * 12) (12 + i * 12 + 12) \<noteq> None" "[0..<le16_or_0 node 2]"] by (intro mult_le_mono1) simp
  moreover have "sum_list (map ex_len (node_extents sb node)) \<le> length ?is * 2 ^ 32"
    unfolding node_extents_def by (rule bound) (rule one)
  moreover have "340 * 2 ^ 32 \<le> u64_max" by simp
  ultimately show ?thesis by linarith
qed

lemma scan_nodes_sum:
  assumes "sp_block_size sb \<le> 65536"
  shows "\<forall>es \<in> set found. sum_list (map ex_len es) \<le> u64_max \<Longrightarrow>
    \<forall>es \<in> set (scan_nodes src sb allocated bs found). sum_list (map ex_len es) \<le> u64_max"
proof (induction bs arbitrary: found)
  case (Cons b bs)
  let ?node = "fs_read src (sat_mul64 b (sp_block_size sb)) (min (sp_block_size sb) 4096)"
  have "sum_list (map ex_len (node_extents sb ?node)) \<le> u64_max" if "\<not> 340 < le16_or_0 ?node 2"
    using node_extents_sum [OF assms] that by simp
  moreover define es where "es = node_extents sb ?node"
  moreover define full where "full \<longleftrightarrow> es \<noteq> [] \<and> 0 < foldl (\<lambda>a e. sat_add64 a (ex_len e)) 0 es"
  moreover define found1 where "found1 = (if full then found @ [es] else found)"
  ultimately have f1: "\<forall>es \<in> set found1. sum_list (map ex_len es) \<le> u64_max" if "\<not> 340 < le16_or_0 ?node 2"
    using Cons.prems that by auto
  have run: "scan_nodes src sb allocated (b # bs) found =
      (if allocated b \<or> le16_or_0 ?node 0 \<noteq> extent_magic \<or> (le16_or_0 ?node 6 \<noteq> 0 \<or> le16_or_0 ?node 2 = 0 \<or> 340 < le16_or_0 ?node 2)
       then scan_nodes src sb allocated bs found
       else if 100000 < length found1 then found1 else scan_nodes src sb allocated bs found1)"
    by (simp add: Let_def es_def [symmetric] full_def [symmetric] found1_def [symmetric])
  show ?case unfolding run using Cons.IH [OF Cons.prems] f1 Cons.IH [OF f1] by (simp only: split: if_split) blast
qed simp

lemma report_nodes_ok: "ew_ok opts w \<Longrightarrow> \<forall>es \<in> set r. sum_list (map ex_len es) \<le> u64_max \<Longrightarrow> ew_ok opts (report_nodes opts idx r w)"
proof (induction r arbitrary: idx w)
  case (Cons es r)
  have "entry_fits (node_entry k es)" for k
    using sat_sum [of 0 es] Cons.prems(2) by (simp add: entry_fits_def node_entry_def Let_def new_file_def)
  then show ?case using Cons ew_ok_report [OF Cons.prems(1)] by simp
qed simp

lemma parse_at_block_size: "ext_parse_at src off g = Some sb \<Longrightarrow> sp_block_size sb \<le> 65536"
proof -
  assume p: "ext_parse_at src off g = Some sb"
  have "(2::nat) ^ k \<le> 2 ^ 6" if "\<not> 6 < k" for k using that by (intro power_increasing) auto
  then show ?thesis using p by (auto simp: ext_parse_at_def Let_def split: if_splits)
qed

lemma find_backup_block_size: "find_backup src gs = Some sb \<Longrightarrow> sp_block_size sb \<le> 65536"
  by (induction src gs rule: find_backup.induct) (auto simp: Let_def split: option.splits if_splits dest: parse_at_block_size)

lemma ext_open_block_size: "ext_open src = Inr v \<Longrightarrow> sp_block_size (xt_sb v) \<le> 65536"
  by (auto simp: ext_open_def read_superblock_def split: option.splits if_splits dest: parse_at_block_size find_backup_block_size)

text \<open>C37: The walk of an opened ext volume, its three passes included, ends; it reports at most the number of entries
  the options allow, counts them right, and no entry claims more bytes in its extents than its size.\<close>

theorem ext_walk_sound:
  assumes "ext_open src = Inr v"
  shows "walk_ok (ext_walk v opts) \<and> length (wk_out (ext_walk v opts)) \<le> wo_max opts \<and>
    (\<forall>e \<in> set (wk_out (ext_walk v opts)). sum_list (map ex_len (en_extents e)) \<le> en_size e)"
proof -
  let ?journal = "recover_from_journal (xt_src v) (xt_sb v)"
  have start: "ew_ok opts ext_start" by (simp add: ew_ok_def ext_start_def) (simp add: walk_start_def)
  let ?w1 = "ext_walk_tree v opts ?journal [(ext_root_inode, [])] ext_start"
  let ?w2 = "orphan_inode_scan v opts ?w1"
  have "ew_ok opts ?w1" by (rule ext_walk_tree_ok [OF journal_sizes start])
  then have w2: "ew_ok opts ?w2" by (simp add: orphan_inode_scan_def Let_def orphan_inodes_ok)
  have "ew_ok opts (extent_node_scan v opts ?w2)"
    unfolding extent_node_scan_def Let_def scan_extent_nodes_def
    using w2 report_nodes_ok [OF w2 scan_nodes_sum [OF ext_open_block_size [OF assms]]] by simp
  then show ?thesis by (simp add: ext_walk_def Let_def ew_ok_def walk_ok_def entry_fits_def)
qed

section \<open>Data\<close>

text \<open>C34: For a file whose extents are in its inode, in the order of the file, what its extents cover on the volume is
  the data of the mapped blocks, extent after extent, cut to the size of the file: the map expanded to
  blocks, sorted, coalesced and trimmed equals the direct reading of the extents.\<close>

theorem ext_extents_exact:
  assumes "ino_flags i AND extents_fl \<noteq> 0" "ino_block i = encode_leaf 4 xs" "length xs \<le> 4"
    and "\<forall>x \<in> set xs. leaf_ok x \<and> (fst (snd x) + snd (snd x)) * sp_block_size sb \<le> u64_max" "leaves_sorted xs"
    and "sp_block_size sb \<le> 65536"
  shows "xbytes md (inode_extents src sb i) =
    take (ino_size i) (concat (map (\<lambda>(l, p, n). medium_bytes md (p * sp_block_size sb) (n * sp_block_size sb)) xs))"
proof -
  let ?bs = "sp_block_size sb"
  let ?blocks = "concat (map leaf_pairs xs)"
  have len1: "length (leaf_pairs x) \<le> 32768" if "x \<in> set xs" for x
    using assms(4) that by (cases x) (auto simp: leaf_pairs_def leaf_ok_def)
  have "length ?blocks \<le> length xs * 32768" using len1
    by (induction xs) (auto intro: add_mono)
  then have few: "length ?blocks \<le> 131072" using assms(3) by linarith
  have tree: "snd (collect_extent_tree src sb (ino_block i) 0 (max_map_nodes, [])) = ?blocks"
    unfolding assms(2) using assms(3,4) few
    by (subst collect_leaf) (simp_all add: max_file_blocks_def max_map_nodes_def)
  have inside: "snd b * ?bs + ?bs \<le> u64_max" if b: "b \<in> set ?blocks" for b
  proof -
    obtain y where y: "y \<in> set xs" "b \<in> set (leaf_pairs y)" using b by auto
    obtain l p n where "y = (l, p, n)" by (cases y)
    then have x: "(l, p, n) \<in> set xs" "b \<in> set (leaf_pairs (l, p, n))" using y by simp_all
    from x(2) have "snd b + 1 \<le> p + n" by (auto simp: leaf_pairs_def)
    then have "(snd b + 1) * ?bs \<le> (p + n) * ?bs" by (rule mult_le_mono1)
    moreover have "(p + n) * ?bs \<le> u64_max" using assms(4) x(1) by fastforce
    ultimately show ?thesis by simp
  qed
  have "length ?blocks * ?bs \<le> 131072 * 65536" using few assms(6) by (intro mult_le_mono)
  then have fits: "length ?blocks * ?bs \<le> u64_max" by simp
  have "xbytes md (inode_extents src sb i) = take (ino_size i) (concat (map (\<lambda>b. medium_bytes md (snd b * ?bs) ?bs) ?blocks))"
    using ext_runs_bytes [of ?blocks sb md "ino_size i"] inside fits
    by (simp only: inode_extents_def if_P [OF assms(1)] tree leaves_sorted_pairs [OF assms(5)]) blast
  also have "concat (map (\<lambda>b. medium_bytes md (snd b * ?bs) ?bs) ?blocks)
      = concat (map (\<lambda>(l, p, n). medium_bytes md (p * ?bs) (n * ?bs)) xs)"
    by (induction xs) (auto simp: leaf_pairs_bytes)
  finally show ?thesis .
qed

section \<open>Directories and the bitmap\<close>

text \<open>C35: A directory block that was written record by record, where unlinked records were absorbed into the slack of
  the record before them, is read back exactly: every live record, followed by the deleted records in its slack
  with their names and inode numbers, in the order of the block.\<close>

theorem ext_dir_roundtrip:
  assumes "\<forall>g \<in> set gs. group_ok sb g" "length gs \<le> 100000"
  shows "parse_dir_block sb (concat (map encode_group gs)) 0 0 out = out @ concat (map group_entries gs)"
  using parse_dir_groups [of _ "[]" gs 0 sb 0 out] assms by simp

text \<open>The bitmap of the volume answers for every block that a group describes with the bit that the block
  bitmap of that group holds for it; the bitmaps of the other groups have no influence.\<close>

theorem ext_bitmap_exact:
  assumes "ext_bitmap v = Some bm" "0 < sp_blocks_per_group (xt_sb v)"
    and "sp_first_data_block (xt_sb v) + length (sp_groups (xt_sb v)) * sp_blocks_per_group (xt_sb v) \<le> u64_max"
    and "sp_first_data_block (xt_sb v) \<le> j" "j < bm_count bm"
    and "g = (j - sp_first_data_block (xt_sb v)) div sp_blocks_per_group (xt_sb v)" "g < length (sp_groups (xt_sb v))"
  shows "is_block_allocated bm j =
    bitmap_bit (ext_block (xt_src v) (xt_sb v) (gd_block_bitmap (sp_groups (xt_sb v) ! g))) ((j - sp_first_data_block (xt_sb v)) mod sp_blocks_per_group (xt_sb v))"
  by (rule ext_bitmap_block [OF assms])

section \<open>Instances\<close>

text \<open>A superblock of 64 blocks of 1024 bytes in two groups, its magic at byte 1080 of the volume.\<close>

definition ext_image :: "(nat \<times> bytes) list" where
  "ext_image = [(1024, [32]), (1028, [64]), (1044, [1]), (1056, [32]), (1064, [16]), (1080, [0x53, 0xEF])]"

definition ext_sample :: source where
  "ext_sample = medium_source (good_medium ext_image) 512 65536"

definition sample_dir :: "dir_group list" where
  "sample_dir =
     [(\<lparr>dx_ino = 12, dx_type = 1, dx_name = [0x61, 0x62]\<rparr>, [(12, \<lparr>dx_ino = 13, dx_type = 1, dx_name = [0x63]\<rparr>)]),
      (\<lparr>dx_ino = 14, dx_type = 2, dx_name = [0x64, 0x65, 0x66, 0x67, 0x68]\<rparr>, [])]"

definition sample_sb :: superblock where
  "sample_sb = \<lparr>sp_block_size = 1024, sp_inode_size = 128, sp_inodes_count = 32, sp_blocks_count = 64, sp_first_data_block = 1, sp_blocks_per_group = 32,
     sp_inodes_per_group = 16, sp_desc_size = 32, sp_64bit = False, sp_journal_inum = 0, sp_label = None, sp_uuid = None,
     sp_groups = [\<lparr>gd_block_bitmap = 3, gd_inode_table = 4\<rparr>, \<lparr>gd_block_bitmap = 35, gd_inode_table = 36\<rparr>], sp_found_at = 0\<rparr>"

theorem ext_dir_roundtrip_witness:
  "parse_dir_block sample_sb (concat (map encode_group sample_dir)) 0 0 []
    = [entry_of False \<lparr>dx_ino = 12, dx_type = 1, dx_name = [0x61, 0x62]\<rparr>, entry_of True \<lparr>dx_ino = 13, dx_type = 1, dx_name = [0x63]\<rparr>,
       entry_of False \<lparr>dx_ino = 14, dx_type = 2, dx_name = [0x64, 0x65, 0x66, 0x67, 0x68]\<rparr>]"
proof -
  have "\<forall>g \<in> set sample_dir. group_ok sample_sb g"
    by (simp add: sample_dir_def group_ok_def dirent_ok_def is_plausible_name_def group_len_def stale_ok_def sample_sb_def round4_def)
  then show ?thesis using ext_dir_roundtrip [of sample_dir sample_sb "[]"] by (simp add: sample_dir_def group_entries_def)
qed

theorem ext_extents_exact_witness:
  "xbytes (good_medium []) (inode_extents ext_sample sample_sb
      \<lparr>ino_mode = 0x8000, ino_size = 2500, ino_dtime = 0, ino_links = 1, ino_flags = 0x80000, ino_ctime = 0, ino_mtime = 0,
       ino_block = encode_leaf 4 [(0, 20, 2), (2, 40, 1)]\<rparr>)
    = take 2500 (medium_bytes (good_medium []) 20480 2048 @ medium_bytes (good_medium []) 40960 1024)"
  using ext_extents_exact [of "\<lparr>ino_mode = 0x8000, ino_size = 2500, ino_dtime = 0, ino_links = 1, ino_flags = 0x80000, ino_ctime = 0, ino_mtime = 0,
       ino_block = encode_leaf 4 [(0, 20, 2), (2, 40, 1)]\<rparr>" "[(0, 20, 2), (2, 40, 1)]" sample_sb "good_medium []" ext_sample]
  by (simp add: extents_fl_def leaf_ok_def leaves_sorted_def sample_sb_def)

theorem ext_bitmap_exact_witness:
  "\<exists>bm. ext_bitmap \<lparr>xt_src = ext_sample, xt_sb = sample_sb\<rparr> = Some bm \<and>
    is_block_allocated bm 40 = bitmap_bit (ext_block ext_sample sample_sb 35) 7"
proof -
  have "s_len ext_sample = 65536" by (simp add: ext_sample_def medium_source_def)
  then obtain bm where bm: "ext_bitmap \<lparr>xt_src = ext_sample, xt_sb = sample_sb\<rparr> = Some bm" "bm_count bm = 64"
    by (simp add: ext_bitmap_def sample_sb_def max_bitmap_blocks_def Let_def bitmap_new_def)
  show ?thesis
    using bm ext_bitmap_exact [OF bm(1), of 40 1] by (simp add: sample_sb_def)
qed

lemma read_group_descs_some: "0 < group_count sb \<Longrightarrow> read_group_descs src sb \<noteq> []"
  by (simp add: read_group_descs_def Let_def sat_add64_def)

theorem ext_walk_sound_witness:
  "\<exists>v. ext_open ext_sample = Inr v \<and> length (wk_out (ext_walk v walk_opts_default)) \<le> 5000000"
proof -
  let ?b = "medium_bytes (good_medium ext_image) 1024 1024"
  have len: "s_len ext_sample = 65536" by (simp add: ext_sample_def medium_source_def)
  have read: "fs_read ext_sample 1024 1024 = ?b"
    unfolding ext_sample_def by (rule fs_read_inside [OF fixture_presents]) (simp_all add: medium_source_def)
  have f: "le16_or_0 ?b 0x38 = ext_magic" "le32_or_0 ?b 0x18 = 0" "le32_or_0 ?b 0x60 = 0" "le32_or_0 ?b 0x20 = 32" "le32_or_0 ?b 0x28 = 16"
    "le32_or_0 ?b 0x04 = 64" "le32_or_0 ?b 0x14 = 1" "le32_or_0 ?b 0x4C = 0"
    by (simp_all add: ext_image_def ext_magic_def le16_or_0_def le32_or_0_def unwrap_or_def medium_simps)
  obtain sb where "ext_parse_at ext_sample 1024 0 = Some sb" "sp_groups sb \<noteq> []"
    by (simp add: ext_parse_at_def read Let_def f read_group_descs_some group_count_def div_ceil_def incompat_64bit_def)
  then obtain v where "ext_open ext_sample = Inr v"
    by (simp add: ext_open_def read_superblock_def sb_off_def)
  then show ?thesis using ext_walk_sound [of ext_sample v walk_opts_default] by (auto simp: walk_opts_default_def)
qed

end
