(* ===== verification/Hfs.thy ===== *)
theory Hfs
  imports Dates
begin

text \<open>
  The HFS+ engine (\<^verbatim>\<open>crates/fs-hfs/src/record.rs\<close>, \<^verbatim>\<open>date.rs\<close>, \<^verbatim>\<open>lib.rs\<close>): catalog records, the volume header with its
  copy, reads through a fork, the leaf chain of the catalog, the search for stale records, the allocation file.
  \<^verbatim>\<open>char::is_alphanumeric\<close>, a Unicode table of the standard library, is an argument.
\<close>

unbundle bit_operations_syntax

section \<open>Records\<close>

definition rec_folder :: nat where "rec_folder = 0x0001"
definition rec_file :: nat where "rec_file = 0x0002"
definition rec_folder_thread :: nat where "rec_folder_thread = 0x0003"
definition rec_file_thread :: nat where "rec_file_thread = 0x0004"
definition root_folder_id :: nat where "root_folder_id = 2"
definition root_parent_id :: nat where "root_parent_id = 1"

definition hfs_u16 :: "bytes \<Rightarrow> nat \<Rightarrow> nat" where
  "hfs_u16 b off = (case get_slice b off (off + 2) of Some s \<Rightarrow> be_val s | None \<Rightarrow> 0)"

definition hfs_u32 :: "bytes \<Rightarrow> nat \<Rightarrow> nat" where
  "hfs_u32 b off = (case get_slice b off (off + 4) of Some s \<Rightarrow> be_val s | None \<Rightarrow> 0)"

definition hfs_u64 :: "bytes \<Rightarrow> nat \<Rightarrow> nat" where
  "hfs_u64 b off = (case get_slice b off (off + 8) of Some s \<Rightarrow> be_val s | None \<Rightarrow> 0)"

record fork_extent =
  fx_start :: nat
  fx_count :: nat

text \<open>The extents in front of the first empty one, at most eight.\<close>

definition parse_extents :: "bytes \<Rightarrow> nat \<Rightarrow> fork_extent list" where
  "parse_extents b off =
     takeWhile (\<lambda>e. fx_count e \<noteq> 0) (map (\<lambda>i. \<lparr>fx_start = hfs_u32 b (off + i * 8), fx_count = hfs_u32 b (off + i * 8 + 4)\<rparr>) [0..<8])"

record fork_data =
  fk_size :: nat
  fk_blocks :: nat
  fk_extents :: "fork_extent list"

definition parse_fork :: "bytes \<Rightarrow> nat \<Rightarrow> fork_data" where
  "parse_fork b off = \<lparr>fk_size = hfs_u64 b off, fk_blocks = hfs_u32 b (off + 12), fk_extents = parse_extents b (off + 16)\<rparr>"

record catalog_key =
  ck_length :: nat
  ck_parent :: nat
  ck_name :: ustring
  ck_raw :: bytes
  ck_total :: nat

definition parse_key :: "bytes \<Rightarrow> nat \<Rightarrow> catalog_key option" where
  "parse_key b off =
     (let key_length = hfs_u16 b off in
      if \<not> (6 \<le> key_length \<and> key_length \<le> 0x2FE) then None
      else
        let parent = hfs_u32 b (off + 2);
            name_len = hfs_u16 b (off + 6)
        in if 255 < name_len \<or> key_length \<noteq> 6 + 2 * name_len then None
           else
             let name = utf16_lossy (map (\<lambda>i. hfs_u16 b (off + 8 + i * 2)) [0..<name_len])
             in Some \<lparr>ck_length = key_length, ck_parent = parent, ck_name = name, ck_raw = utf8 name,
                  ck_total = (2 + key_length + 1) div 2 * 2\<rparr>)"

datatype catalog_record =
    HfsFolder nat
  | HfsFile nat fork_data fork_data nat nat
  | HfsThread nat ustring

definition parse_record :: "bytes \<Rightarrow> nat \<Rightarrow> catalog_record option" where
  "parse_record b off =
     (let t = hfs_u16 b off in
      if t = rec_folder then Some (HfsFolder (hfs_u32 b (off + 8)))
      else if t = rec_file then
        Some (HfsFile (hfs_u32 b (off + 8)) (parse_fork b (off + 88)) (parse_fork b (off + 168)) (hfs_u32 b (off + 12)) (hfs_u32 b (off + 16)))
      else if t = rec_folder_thread \<or> t = rec_file_thread then
        (let name_len = hfs_u16 b (off + 8) in
         if 255 < name_len then None
         else Some (HfsThread (hfs_u32 b (off + 4)) (utf16_lossy (map (\<lambda>i. hfs_u16 b (off + 10 + i * 2)) [0..<name_len]))))
      else None)"

section \<open>Dates\<close>

definition hfs_date :: "nat \<Rightarrow> ustring option" where
  "hfs_date secs = (if secs = 0 then None else date_from_unix (int secs - 2082844800))"

section \<open>The volume\<close>

record volume_header =
  vh_case :: bool
  vh_block_size :: nat
  vh_total_blocks :: nat
  vh_catalog :: fork_data
  vh_allocation :: fork_data

definition parse_vh :: "bytes \<Rightarrow> volume_header option" where
  "parse_vh vh =
     (let sig = hfs_u16 vh 0 in
      if sig \<noteq> 0x482B \<and> sig \<noteq> 0x4858 then None
      else
        let block_size = hfs_u32 vh 40 in
        if \<not> (512 \<le> block_size \<and> block_size \<le> 2 ^ 20) \<or> \<not> is_power_of_two block_size then None
        else
          let catalog = parse_fork vh 272 in
          if fk_extents catalog = [] then None
          else Some \<lparr>vh_case = (sig = 0x4858), vh_block_size = block_size, vh_total_blocks = hfs_u32 vh 44, vh_catalog = catalog,
                 vh_allocation = parse_fork vh 112\<rparr>)"

definition hfs_probe :: "source \<Rightarrow> probe option" where
  "hfs_probe src =
     (let alt = (if 1024 < s_len src then parse_vh (fs_read src (s_len src - 1024) 512) else None) in
      case (case parse_vh (fs_read src 1024 1024) of Some v \<Rightarrow> Some v | None \<Rightarrow> alt) of
        None \<Rightarrow> None
      | Some vh \<Rightarrow> Some \<lparr>pb_fs_kind = (if vh_case vh then ''hfsx'' else ''hfs+''), pb_confidence = 98, pb_block_size = vh_block_size vh,
            pb_label = None, pb_uuid = None, pb_total_bytes = sat_mul64 (vh_total_blocks vh) (vh_block_size vh)\<rparr>)"

record hfs =
  hf_src :: source
  hf_vh :: volume_header

definition hfs_open :: "source \<Rightarrow> fs_error + hfs" where
  "hfs_open src =
     (case parse_vh (fs_read src 1024 1024) of
        Some v \<Rightarrow> Inr \<lparr>hf_src = src, hf_vh = v\<rparr>
      | None \<Rightarrow> (case parse_vh (fs_read src (s_len src - 1024) 512) of
            None \<Rightarrow> Inl (NotThisFs ''no HFS+ volume header'')
          | Some v \<Rightarrow> Inr \<lparr>hf_src = src, hf_vh = v\<rparr>))"

definition hfs_bs :: "hfs \<Rightarrow> nat" where
  "hfs_bs v = max (vh_block_size (hf_vh v)) 1"

section \<open>Forks\<close>

text \<open>Where a byte of a fork lies, with the number of bytes left in its extent; \<open>consumed\<close> bytes lie before.\<close>

fun fork_device_offset :: "nat \<Rightarrow> fork_extent list \<Rightarrow> nat \<Rightarrow> nat \<Rightarrow> (nat \<times> nat) option" where
  "fork_device_offset bs [] byte_off consumed = None"
| "fork_device_offset bs (e # es) byte_off consumed =
     (let ext_bytes = sat_mul64 (fx_count e) bs in
      if byte_off < sat_add64 consumed ext_bytes
      then Some (sat_add64 (sat_mul64 (fx_start e) bs) (byte_off - consumed), ext_bytes - (byte_off - consumed))
      else fork_device_offset bs es byte_off (sat_add64 consumed ext_bytes))"

function read_fork_loop :: "hfs \<Rightarrow> fork_extent list \<Rightarrow> nat \<Rightarrow> nat \<Rightarrow> nat \<Rightarrow> bytes \<Rightarrow> bytes" where
  "read_fork_loop v exts byte_off len fin out =
     (if len \<le> fin then out
      else case fork_device_offset (hfs_bs v) exts (byte_off + fin) 0 of
          None \<Rightarrow> out
        | Some (dev, left) \<Rightarrow>
            let chunk = min (len - fin) (min left (2 ^ 20)) in
            if chunk = 0 then out
            else read_fork_loop v exts byte_off len (fin + chunk) (blit_checked out fin (fs_read (hf_src v) dev chunk)))"
  by pat_completeness auto
termination by (relation "measure (\<lambda>(v, exts, byte_off, len, fin, out). len - fin)") auto

declare read_fork_loop.simps [simp del]

definition read_fork :: "hfs \<Rightarrow> fork_extent list \<Rightarrow> nat \<Rightarrow> nat \<Rightarrow> bytes" where
  "read_fork v exts byte_off len = read_fork_loop v exts byte_off len 0 (zeros len)"

text \<open>The size of a node and the first leaf of the catalog.\<close>

definition catalog_geometry :: "hfs \<Rightarrow> (nat \<times> nat) option" where
  "catalog_geometry v =
     (let head = read_fork v (fk_extents (vh_catalog (hf_vh v))) 0 512;
          node_size = hfs_u16 head (14 + 18);
          first_leaf = hfs_u32 head (14 + 10)
      in if node_size < 512 \<or> \<not> is_power_of_two node_size then None else Some (node_size, first_leaf))"

definition read_node :: "hfs \<Rightarrow> nat \<Rightarrow> nat \<Rightarrow> bytes" where
  "read_node v node_num node_size = read_fork v (fk_extents (vh_catalog (hf_vh v))) (sat_mul64 node_num node_size) node_size"

text \<open>The offsets of the records: the last number of a node is that of record 0.\<close>

definition record_offsets :: "bytes \<Rightarrow> nat \<Rightarrow> nat \<Rightarrow> nat list" where
  "record_offsets node node_size num_records =
     map (\<lambda>i. hfs_u16 node (node_size - 2 * (i + 1))) [0..<min ((node_size - 14) div 2) num_records]"

section \<open>The catalog\<close>

record cat_entry =
  ce_parent :: nat
  ce_name :: ustring
  ce_raw :: bytes
  ce_is_dir :: bool
  ce_cnid :: nat
  ce_fork :: "fork_data option"
  ce_create :: "ustring option"
  ce_modified :: "ustring option"

type_synonym cnid_map = "nat \<Rightarrow> (nat \<times> ustring) option"

definition parse_catalog_leaf :: "bytes \<Rightarrow> nat \<Rightarrow> cnid_map \<Rightarrow> cat_entry option \<times> cnid_map" where
  "parse_catalog_leaf node rec_off m =
     (case parse_key node rec_off of
        None \<Rightarrow> (None, m)
      | Some key \<Rightarrow> (case parse_record node (rec_off + ck_total key) of
            Some (HfsFolder cnid) \<Rightarrow>
              (Some \<lparr>ce_parent = ck_parent key, ce_name = ck_name key, ce_raw = ck_raw key, ce_is_dir = True, ce_cnid = cnid, ce_fork = None,
                 ce_create = None, ce_modified = None\<rparr>, m(cnid \<mapsto> (ck_parent key, ck_name key)))
          | Some (HfsFile cnid data_fork resource_fork create_date mod_date) \<Rightarrow>
              (Some \<lparr>ce_parent = ck_parent key, ce_name = ck_name key, ce_raw = ck_raw key, ce_is_dir = False, ce_cnid = cnid,
                 ce_fork = Some data_fork, ce_create = hfs_date create_date, ce_modified = hfs_date mod_date\<rparr>,
               m(cnid \<mapsto> (ck_parent key, ck_name key)))
          | _ \<Rightarrow> (None, m)))"

definition leaf_record :: "bytes \<Rightarrow> nat \<Rightarrow> cat_entry list \<times> cnid_map \<Rightarrow> cat_entry list \<times> cnid_map" where
  "leaf_record node ro s =
     (case parse_catalog_leaf node ro (snd s) of (Some e, m) \<Rightarrow> (fst s @ [e], m) | (None, m) \<Rightarrow> (fst s, m))"

definition hfs_max_nodes :: nat where "hfs_max_nodes = 2000000"

text \<open>The leaf chain; a node is visited once. A leaf is of kind \<open>-1\<close>.\<close>

function catalog_loop :: "hfs \<Rightarrow> nat \<Rightarrow> nat \<Rightarrow> nat \<Rightarrow> nat set \<Rightarrow> cat_entry list \<times> cnid_map \<Rightarrow> cat_entry list \<times> cnid_map" where
  "catalog_loop v node_size node_num visited seen s =
     (if \<not> (node_num \<noteq> 0 \<and> visited < hfs_max_nodes \<and> node_num \<notin> seen) then s
      else
        let node = read_node v node_num node_size;
            offs = record_offsets node node_size (min (hfs_u16 node 10) 2000);
            s1 = (if byte_or_0 node 8 = 0xFF then fold (leaf_record node) offs s else s)
        in catalog_loop v node_size (hfs_u32 node 0) (visited + 1) (insert node_num seen) s1)"
  by pat_completeness auto
termination by (relation "measure (\<lambda>(v, node_size, node_num, visited, seen, s). hfs_max_nodes - visited)") auto

declare catalog_loop.simps [simp del]

definition walk_catalog :: "hfs \<Rightarrow> cat_entry list \<times> cnid_map" where
  "walk_catalog v =
     (case catalog_geometry v of
        None \<Rightarrow> ([], Map.empty)
      | Some (node_size, first_leaf) \<Rightarrow> catalog_loop v node_size first_leaf 0 {} ([], Map.empty))"

text \<open>The path of an entry: the names of its parents, root first.\<close>

function hfs_parents :: "cnid_map \<Rightarrow> nat \<Rightarrow> nat \<Rightarrow> ustring list \<Rightarrow> ustring list" where
  "hfs_parents m cur guard parts =
     (if cur = root_folder_id \<or> cur = root_parent_id \<or> cur = 0 \<or> 128 \<le> guard then parts
      else case m cur of
          None \<Rightarrow> parts
        | Some (p, n) \<Rightarrow> hfs_parents m p (guard + 1) (parts @ [n]))"
  by pat_completeness auto
termination by (relation "measure (\<lambda>(m, cur, guard, parts). 128 - guard)") auto

declare hfs_parents.simps [simp del]

definition hfs_path :: "nat \<Rightarrow> ustring \<Rightarrow> cnid_map \<Rightarrow> ustring" where
  "hfs_path parent name m = join_names (rev (hfs_parents m parent 0 [name]))"

text \<open>The extents of a fork, cut to its size as long as some of it remains.\<close>

fun fork_extents_loop :: "nat \<Rightarrow> nat \<Rightarrow> fork_extent list \<Rightarrow> extent list" where
  "fork_extents_loop bs remaining [] = []"
| "fork_extents_loop bs remaining (e # es) =
     (if fx_count e = 0 then fork_extents_loop bs remaining es
      else
        let byte_len = sat_mul64 (fx_count e) bs;
            len = (if remaining = 0 then byte_len else min byte_len remaining)
        in \<lparr>ex_off = sat_mul64 (fx_start e) bs, ex_len = len\<rparr> # fork_extents_loop bs (remaining - byte_len) es)"

definition fork_extents :: "hfs \<Rightarrow> fork_data \<Rightarrow> extent list" where
  "fork_extents v f = fork_extents_loop (hfs_bs v) (fk_size f) (fk_extents f)"

definition to_entry :: "hfs \<Rightarrow> cat_entry \<Rightarrow> cnid_map \<Rightarrow> entry_state \<Rightarrow> nat \<Rightarrow> entry" where
  "to_entry v e m st conf =
     (new_file (ce_cnid e) (ce_name e) (ce_raw e) (case ce_fork e of None \<Rightarrow> 0 | Some f \<Rightarrow> fk_size f) st)
       \<lparr>en_parent_id := Some (ce_parent e), en_path := Some (hfs_path (ce_parent e) (ce_name e) m),
        en_extents := (case ce_fork e of None \<Rightarrow> [] | Some f \<Rightarrow> fork_extents v f), en_confidence := [conf],
        en_created := ce_create e, en_modified := ce_modified e\<rparr>"

section \<open>Stale records\<close>

text \<open>The scan over the characters of a name: the length of the run of spaces, whether a letter or digit was met.\<close>

fun plausible_loop :: "(nat \<Rightarrow> bool) \<Rightarrow> ustring \<Rightarrow> nat \<Rightarrow> bool \<Rightarrow> bool" where
  "plausible_loop alnum [] spaces met = met"
| "plausible_loop alnum (c # cs) spaces met =
     (if c < 0x20 \<or> c = 0x7F \<or> c = 0xFFFD then False
      else if c = 32 \<and> 3 \<le> spaces + 1 then False
      else plausible_loop alnum cs (if c = 32 then spaces + 1 else 0) (met \<or> alnum c))"

definition hfs_plausible_name :: "(nat \<Rightarrow> bool) \<Rightarrow> ustring \<Rightarrow> bool" where
  "hfs_plausible_name alnum name \<longleftrightarrow> \<not> (name = [] \<or> 255 < length name) \<and> plausible_loop alnum name 0 False"

type_synonym name_key = "nat \<times> ustring"

definition try_stale_at ::
  "(nat \<Rightarrow> bool) \<Rightarrow> hfs \<Rightarrow> name_key set \<Rightarrow> cnid_map \<Rightarrow> bytes \<Rightarrow> nat \<Rightarrow> name_key set \<Rightarrow> (entry \<times> name_key) option" where
  "try_stale_at alnum v live m buf off emitted =
     (case parse_key buf off of
        None \<Rightarrow> None
      | Some key \<Rightarrow>
          if \<not> (root_folder_id \<le> ck_parent key \<and> ck_parent key < 0x40000000) then None
          else if \<not> hfs_plausible_name alnum (ck_name key) then None
          else
            let data_off = off + ck_total key in
            if hfs_u16 buf data_off \<noteq> rec_file then None
            else if (ck_parent key, ck_name key) \<in> live \<or> (ck_parent key, ck_name key) \<in> emitted then None
            else case parse_record buf data_off of
                Some (HfsFile cnid data_fork resource_fork create_date mod_date) \<Rightarrow>
                  if \<not> (16 \<le> cnid \<and> cnid < 0x40000000) then None
                  else if hfs_date create_date = None \<or> hfs_date mod_date = None then None
                  else (case fk_extents data_fork of
                      [] \<Rightarrow> None
                    | first # _ \<Rightarrow>
                        if fx_count first = 0 \<or> vh_total_blocks (hf_vh v) \<le> fx_start first then None
                        else Some (to_entry v \<lparr>ce_parent = ck_parent key, ce_name = ck_name key, ce_raw = ck_raw key, ce_is_dir = False,
                               ce_cnid = cnid, ce_fork = Some data_fork, ce_create = hfs_date create_date, ce_modified = hfs_date mod_date\<rparr>
                               m Orphaned 60, (ck_parent key, ck_name key)))
              | _ \<Rightarrow> None)"

text \<open>One buffer: records lie at even offsets. The walk and the names reported are carried along.\<close>

function stale_buffer ::
  "(nat \<Rightarrow> bool) \<Rightarrow> hfs \<Rightarrow> walk_opts \<Rightarrow> name_key set \<Rightarrow> cnid_map \<Rightarrow> bytes \<Rightarrow> nat \<Rightarrow> nat \<Rightarrow> walk \<times> name_key set \<Rightarrow> walk \<times> name_key set" where
  "stale_buffer alnum v opts live m buf scan_to i s =
     (if \<not> i + 8 \<le> scan_to then s
      else stale_buffer alnum v opts live m buf scan_to (i + 2)
        (case try_stale_at alnum v live m buf i (snd s) of
           None \<Rightarrow> s
         | Some (e, k) \<Rightarrow>
             (if wo_deleted opts then emit e (fst s)
              else (fst s)\<lparr>wk_emitted := wk_emitted (fst s) + 1, wk_deleted := wk_deleted (fst s) + 1\<rparr>, insert k (snd s))))"
  by pat_completeness auto
termination by (relation "measure (\<lambda>(alnum, v, opts, live, m, buf, scan_to, i, s). scan_to - i)") auto

declare stale_buffer.simps [simp del]

definition stale_chunk :: nat where "stale_chunk = 1048576"
definition stale_overlap :: nat where "stale_overlap = 1024"
definition max_stale_scan :: nat where "max_stale_scan = 16 * 2 ^ 30"

function stale_scan ::
  "(nat \<Rightarrow> bool) \<Rightarrow> hfs \<Rightarrow> walk_opts \<Rightarrow> name_key set \<Rightarrow> cnid_map \<Rightarrow> nat \<Rightarrow> nat \<Rightarrow> walk \<times> name_key set \<Rightarrow> walk \<times> name_key set" where
  "stale_scan alnum v opts live m whole pos s =
     (if \<not> pos < whole then s
      else
        let want = min (stale_chunk + stale_overlap) (whole - pos);
            buf = fs_read (hf_src v) pos want;
            scan_to = length buf - (if whole \<le> pos + want then 0 else stale_overlap)
        in stale_scan alnum v opts live m whole (pos + stale_chunk) (stale_buffer alnum v opts live m buf scan_to 0 s))"
  by pat_completeness auto
termination by (relation "measure (\<lambda>(alnum, v, opts, live, m, whole, pos, s). whole - pos)") (auto simp: stale_chunk_def)

declare stale_scan.simps [simp del]

section \<open>The allocation file\<close>

definition reverse_bits8 :: "byte \<Rightarrow> byte" where
  "reverse_bits8 b = horner_sum of_bool 2 (map (\<lambda>i. bit b (7 - i)) [0..<8])"

definition hfs_allocation :: "hfs \<Rightarrow> bitmap option" where
  "hfs_allocation v =
     (if fk_extents (vh_allocation (hf_vh v)) = [] \<or> vh_total_blocks (hf_vh v) = 0 then None
      else
        let bytes_needed = div_ceil (vh_total_blocks (hf_vh v)) 8 in
        if 64 * 2 ^ 20 < bytes_needed then None
        else Some (bitmap_new (vh_block_size (hf_vh v)) 0 (vh_total_blocks (hf_vh v))
               (map reverse_bits8 (read_fork v (fk_extents (vh_allocation (hf_vh v))) 0 bytes_needed))))"

section \<open>The walk\<close>

definition hfs_kind :: "hfs \<Rightarrow> string" where
  "hfs_kind v = (if vh_case (hf_vh v) then ''hfsx'' else ''hfs+'')"

definition hfs_walk :: "(nat \<Rightarrow> bool) \<Rightarrow> hfs \<Rightarrow> walk_opts \<Rightarrow> walk" where
  "hfs_walk alnum v opts =
     (let (live, m) = walk_catalog v;
          live_keys = (\<lambda>e. (ce_parent e, ce_name e)) ` set live;
          w = (if wo_live opts then fold (\<lambda>e w. if ce_is_dir e then w else emit (to_entry v e m Live 95) w) live walk_start else walk_start)
      in if wo_deleted opts then fst (stale_scan alnum v opts live_keys m (min (s_len (hf_src v)) max_stale_scan) 0 (w, {})) else w)"

end
