(* ===== verification/HfsTheorems.thy ===== *)
theory HfsTheorems
  imports Hfs ClusterRuns
begin

text \<open>
  The properties of the HFS+ engine: reads through a fork are the bytes of its extents one after another, the
  allocation file is read bit by bit, stale records are reported once and only where no live file has their name.
\<close>

unbundle bit_operations_syntax

section \<open>Forks\<close>

text \<open>A fork on the medium: its extents, of whole blocks, inside the source.\<close>

definition fork_run :: "nat \<Rightarrow> fork_extent \<Rightarrow> extent" where
  "fork_run bs e = \<lparr>ex_off = fx_start e * bs, ex_len = fx_count e * bs\<rparr>"

definition fork_bytes :: "medium \<Rightarrow> nat \<Rightarrow> fork_extent list \<Rightarrow> bytes" where
  "fork_bytes md bs exts = xbytes md (map (fork_run bs) exts)"

definition fork_inside :: "hfs \<Rightarrow> fork_extent list \<Rightarrow> bool" where
  "fork_inside v exts \<longleftrightarrow> list_all (\<lambda>e. 0 < fx_count e \<and> fx_start e * hfs_bs v + fx_count e * hfs_bs v \<le> s_len (hf_src v)) exts"

lemma fork_bytes_simps [simp]:
  "fork_bytes md bs [] = []"
  "fork_bytes md bs (e # es) = medium_bytes md (fx_start e * bs) (fx_count e * bs) @ fork_bytes md bs es"
  by (simp_all add: fork_bytes_def fork_run_def)

lemma hfs_bs_pos [simp]: "0 < hfs_bs v"
  by (simp add: hfs_bs_def)

lemma slice_medium: "i + k \<le> n \<Longrightarrow> take k (drop i (medium_bytes md off n)) = medium_bytes md (off + i) k"
  by (rule nth_equalityI) (simp_all add: add.assoc)

text \<open>A byte is found in its extent; behind the last extent there is none.\<close>

lemma fork_device_offset_ok:
  assumes "fork_inside v exts" "s_len (hf_src v) \<le> u64_max" "consumed \<le> byte_off" "consumed + length (fork_bytes md (hfs_bs v) exts) \<le> u64_max"
  shows "case fork_device_offset (hfs_bs v) exts byte_off consumed of
      None \<Rightarrow> consumed + length (fork_bytes md (hfs_bs v) exts) \<le> byte_off
    | Some (dev, left) \<Rightarrow> 0 < left \<and> dev + left \<le> s_len (hf_src v) \<and> byte_off + left \<le> consumed + length (fork_bytes md (hfs_bs v) exts) \<and>
        (\<forall>k \<le> left. take k (drop (byte_off - consumed) (fork_bytes md (hfs_bs v) exts)) = medium_bytes md dev k)"
  using assms
proof (induction exts arbitrary: consumed)
  case (Cons e es)
  let ?bs = "hfs_bs v" and ?n = "fx_count e * hfs_bs v"
  have e: "fx_start e * ?bs + ?n \<le> s_len (hf_src v)" using Cons.prems(1) by (simp add: fork_inside_def)
  have s1: "sat_mul64 (fx_count e) ?bs = ?n" "sat_mul64 (fx_start e) ?bs = fx_start e * ?bs"
    using e Cons.prems(2) by (simp_all add: sat_mul64_def)
  have s2: "sat_add64 consumed ?n = consumed + ?n" using Cons.prems(4) by (simp add: sat_add64_def)
  show ?case
  proof (cases "byte_off < consumed + ?n")
    case True
    let ?w = "byte_off - consumed"
    have w: "?w < ?n" using True Cons.prems(3) by linarith
    have s3: "sat_add64 (fx_start e * ?bs) ?w = fx_start e * ?bs + ?w" using w e Cons.prems(2) by (simp add: sat_add64_def)
    have "take k (drop ?w (fork_bytes md ?bs (e # es))) = medium_bytes md (fx_start e * ?bs + ?w) k" if "k \<le> ?n - ?w" for k
    proof -
      have "k \<le> length (drop ?w (medium_bytes md (fx_start e * ?bs) ?n))" "?w + k \<le> ?n" "?w \<le> ?n" using that w by simp_all
      then show ?thesis using slice_medium [of ?w k ?n md "fx_start e * ?bs"] by simp
    qed
    then show ?thesis using True w e Cons.prems(3) by (simp add: s1 s2 s3 Let_def)
  next
    case False
    have "drop (byte_off - consumed) (fork_bytes md ?bs (e # es)) = drop (byte_off - (consumed + ?n)) (fork_bytes md ?bs es)"
      using False by simp
    moreover have "consumed + ?n + length (fork_bytes md ?bs es) = consumed + length (fork_bytes md ?bs (e # es))" by simp
    moreover have "fork_inside v es" using Cons.prems(1) by (simp add: fork_inside_def)
    ultimately show ?thesis using Cons.IH [of "consumed + ?n"] Cons.prems False
      by (simp only: fork_device_offset.simps Let_def s1 s2 if_False)
  qed
qed simp

lemma read_fork_loop_ok:
  assumes "presents (hf_src v) md" "s_len (hf_src v) mod s_sector_size (hf_src v) = 0"
    and "fork_inside v exts" "length (fork_bytes md (hfs_bs v) exts) \<le> u64_max"
  shows "length pre \<le> len \<Longrightarrow> read_fork_loop v exts byte_off len (length pre) (pre @ zeros (len - length pre)) =
    pre @ take (len - length pre) (drop (byte_off + length pre) (fork_bytes md (hfs_bs v) exts) @ zeros len)"
proof (induction "len - length pre" arbitrary: pre rule: less_induct)
  case less
  let ?F = "fork_bytes md (hfs_bs v) exts" and ?fin = "length pre"
  have lim: "s_len (hf_src v) \<le> u64_max" using assms(1) by (simp add: presents_def)
  note dev = fork_device_offset_ok [OF assms(3) lim, of 0 "byte_off + ?fin" md]
  show ?case
  proof (cases "len \<le> ?fin")
    case True
    then show ?thesis using less.prems by (subst read_fork_loop.simps) simp
  next
    case more: False
    note run = read_fork_loop.simps [of v exts byte_off len ?fin, unfolded Let_def if_not_P [OF more]]
    show ?thesis
    proof (cases "fork_device_offset (hfs_bs v) exts (byte_off + ?fin) 0")
      case None
      then have "length ?F \<le> byte_off + ?fin" using dev assms(4) by simp
      then show ?thesis using None unfolding run by simp
    next
      case (Some x)
      obtain p left where x: "x = (p, left)" by (cases x)
      have d: "0 < left" "p + left \<le> s_len (hf_src v)" "byte_off + ?fin + left \<le> length ?F"
          "\<forall>k \<le> left. take k (drop (byte_off + ?fin) ?F) = medium_bytes md p k"
        using dev assms(4) Some x by simp_all
      define chunk where "chunk = min (len - ?fin) (min left (2 ^ 20))"
      have c: "0 < chunk" "chunk \<le> left" "?fin + chunk \<le> len" using d(1) more by (auto simp: chunk_def)
      have piece: "fs_read (hf_src v) p chunk = take chunk (drop (byte_off + ?fin) ?F)"
        using fs_read_inside [OF assms(1,2), of p chunk] d(2,4) c(2) by simp
      define pre1 where "pre1 = pre @ take chunk (drop (byte_off + ?fin) ?F)"
      have len1: "length pre1 = ?fin + chunk" using d(3) c(2) by (simp add: pre1_def)
      have "blit_checked (pre @ zeros (len - ?fin)) ?fin (fs_read (hf_src v) p chunk) = pre1 @ zeros (len - length pre1)"
        using c(3) len1 by (simp add: blit_checked_def blit_def piece) (simp add: pre1_def)
      then have "read_fork_loop v exts byte_off len ?fin (pre @ zeros (len - ?fin)) =
          read_fork_loop v exts byte_off len (length pre1) (pre1 @ zeros (len - length pre1))"
        using c(1) by (simp only: run Some x option.case prod.case chunk_def [symmetric] len1) simp
      also have "\<dots> = pre1 @ take (len - length pre1) (drop (byte_off + length pre1) ?F @ zeros len)"
        by (rule less.hyps) (use len1 c in simp_all)
      also have "\<dots> = pre @ take (len - ?fin) (drop (byte_off + ?fin) ?F @ zeros len)"
      proof -
        let ?D = "drop (byte_off + ?fin) ?F"
        have "len - ?fin = chunk + (len - length pre1)" using c len1 by linarith
        moreover have "chunk \<le> length ?D" using d(3) c(2) by simp
        moreover have "drop chunk ?D = drop (byte_off + length pre1) ?F" by (simp add: len1 ac_simps)
        ultimately have "take (len - ?fin) (?D @ zeros len) = take chunk ?D @ take (len - length pre1) (drop (byte_off + length pre1) ?F @ zeros len)"
          by (simp add: take_add)
        then show ?thesis by (simp add: pre1_def)
      qed
      finally show ?thesis .
    qed
  qed
qed

text \<open>C31: On a source of whole sectors that shows a medium, reading any range of a fork whose extents are not empty and lie inside the
  source, however they are scattered and wherever the
  steps of one mebibyte fall, gives the bytes of its extents one after another, and zeros behind the last one.\<close>

theorem hfs_fork_exact:
  assumes "presents (hf_src v) md" "s_len (hf_src v) mod s_sector_size (hf_src v) = 0"
    and "fork_inside v exts" "length (fork_bytes md (hfs_bs v) exts) \<le> u64_max"
  shows "read_fork v exts byte_off len = take len (drop byte_off (fork_bytes md (hfs_bs v) exts) @ zeros len)"
  using read_fork_loop_ok [OF assms, of "[]" len byte_off] by (simp add: read_fork_def)

section \<open>The allocation file\<close>

lemma reverse_bits8_bit: "k < 8 \<Longrightarrow> bit (reverse_bits8 b) k = bit b (7 - k)"
  by (simp add: reverse_bits8_def bit_horner_sum_bit_word_iff)

text \<open>The bitmap of a volume answers for a block the bit of the allocation file, whose bytes are read from
  their most significant bit.\<close>

lemma hfs_bitmap_exact:
  assumes "presents (hf_src v) md" "s_len (hf_src v) mod s_sector_size (hf_src v) = 0"
    and "fork_inside v exts" "length (fork_bytes md (hfs_bs v) exts) \<le> u64_max" "exts = fk_extents (vh_allocation (hf_vh v))"
    and "hfs_allocation v = Some bm" "i < vh_total_blocks (hf_vh v)" "i div 8 < length (fork_bytes md (hfs_bs v) exts)"
  shows "is_block_allocated bm i \<longleftrightarrow> bit (fork_bytes md (hfs_bs v) exts ! (i div 8)) (7 - i mod 8)"
proof -
  let ?F = "fork_bytes md (hfs_bs v) exts"
  let ?n = "div_ceil (vh_total_blocks (hf_vh v)) 8"
  have bm: "bm = bitmap_new (vh_block_size (hf_vh v)) 0 (vh_total_blocks (hf_vh v)) (map reverse_bits8 (read_fork v exts 0 ?n))"
    using assms(5,6) by (auto simp: hfs_allocation_def Let_def split: if_splits)
  have raw: "read_fork v exts 0 ?n = take ?n (?F @ zeros ?n)" using hfs_fork_exact [OF assms(1-4), of 0 ?n] by simp
  have k: "i div 8 < ?n" by (rule div_less_div_ceil) (use assms(7) in simp_all)
  then have "get_at (bm_bits bm) (i div 8) = Some (reverse_bits8 (?F ! (i div 8)))"
    using assms(8) by (simp add: bm bitmap_new_def raw get_at_def nth_append)
  then show ?thesis using assms(7) by (simp add: is_block_allocated_def bm bitmap_new_def reverse_bits8_bit)
qed

section \<open>The walk\<close>

definition orphan_ok :: "hfs \<Rightarrow> name_key set \<Rightarrow> entry \<Rightarrow> bool" where
  "orphan_ok v live e \<longleftrightarrow>
     en_state e = Orphaned \<and> entry_key e \<notin> live \<and> en_name e \<noteq> [] \<and> en_extents e \<noteq> [] \<and>
     ex_off (hd (en_extents e)) < vh_total_blocks (hf_vh v) * hfs_bs v"

lemma try_stale_ok:
  assumes "try_stale_at alnum v live m buf off emitted = Some (e, k)"
  shows "orphan_ok v live e \<and> entry_key e = k \<and> k \<notin> emitted"
proof -
  obtain key where key: "parse_key buf off = Some key" "hfs_plausible_name alnum (ck_name key)" "k = (ck_parent key, ck_name key)"
      "k \<notin> live" "k \<notin> emitted"
    and body: "\<exists>cnid f cr mo first rest. fk_extents f = first # rest \<and> fx_count first \<noteq> 0 \<and> fx_start first < vh_total_blocks (hf_vh v) \<and>
      e = to_entry v \<lparr>ce_parent = ck_parent key, ce_name = ck_name key, ce_raw = ck_raw key, ce_is_dir = False, ce_cnid = cnid, ce_fork = Some f,
        ce_create = cr, ce_modified = mo\<rparr> m Orphaned 60"
    using assms unfolding try_stale_at_def Let_def
    by (auto split: option.splits if_splits catalog_record.splits list.splits simp: not_le) blast
  then obtain cnid f cr mo first rest where f: "fk_extents f = first # rest" "fx_count first \<noteq> 0" "fx_start first < vh_total_blocks (hf_vh v)"
      "e = to_entry v \<lparr>ce_parent = ck_parent key, ce_name = ck_name key, ce_raw = ck_raw key, ce_is_dir = False, ce_cnid = cnid, ce_fork = Some f,
        ce_create = cr, ce_modified = mo\<rparr> m Orphaned 60"
    by blast
  have "sat_mul64 (fx_start first) (hfs_bs v) < vh_total_blocks (hf_vh v) * hfs_bs v"
    using f(3) mult_strict_right_mono [OF f(3) hfs_bs_pos [of v]] by (simp add: sat_mul64_def min.strict_coboundedI1)
  then have "fork_extents v f \<noteq> []" "ex_off (hd (fork_extents v f)) < vh_total_blocks (hf_vh v) * hfs_bs v"
    using f(1,2) by (simp_all add: fork_extents_def Let_def)
  moreover have "ck_name key \<noteq> []" using key(2) by (simp add: hfs_plausible_name_def)
  ultimately show ?thesis using key f(4) by (simp add: orphan_ok_def to_entry_def new_file_def entry_key_def)
qed

text \<open>What a walk has reported when the scan is under way: the live files, then orphans under different names.\<close>

definition stale_ok :: "hfs \<Rightarrow> name_key set \<Rightarrow> entry list \<Rightarrow> walk \<times> name_key set \<Rightarrow> bool" where
  "stale_ok v live base s \<longleftrightarrow>
     walk_ok (fst s) \<and>
     (\<exists>os. wk_out (fst s) = base @ os \<and> list_all (orphan_ok v live) os \<and> distinct (map entry_key os) \<and> snd s = set (map entry_key os))"

lemma stale_buffer_ok:
  "wo_deleted opts \<Longrightarrow> stale_ok v live base s \<Longrightarrow> stale_ok v live base (stale_buffer alnum v opts live m buf scan_to i s)"
proof (induction alnum v opts live m buf scan_to i s rule: stale_buffer.induct)
  case (1 alnum v opts live m buf scan_to i s)
  show ?case
  proof (cases "i + 8 \<le> scan_to")
    case True
    let ?t = "try_stale_at alnum v live m buf i (snd s)"
    have "stale_ok v live base (case ?t of None \<Rightarrow> s | Some (e, k) \<Rightarrow>
        (if wo_deleted opts then emit e (fst s)
         else (fst s)\<lparr>wk_emitted := wk_emitted (fst s) + 1, wk_deleted := wk_deleted (fst s) + 1\<rparr>, insert k (snd s)))"
    proof (cases ?t)
      case None
      then show ?thesis using 1(3) by simp
    next
      case (Some x)
      obtain e k where x: "?t = Some (e, k)" using Some by (cases x) simp
      obtain os where os: "wk_out (fst s) = base @ os" "list_all (orphan_ok v live) os" "distinct (map entry_key os)" "snd s = set (map entry_key os)"
        using 1(3) by (auto simp: stale_ok_def)
      have "orphan_ok v live e" "entry_key e = k" "k \<notin> snd s" using try_stale_ok [OF x] by simp_all
      then have "wk_out (emit e (fst s)) = base @ (os @ [e]) \<and> list_all (orphan_ok v live) (os @ [e]) \<and>
          distinct (map entry_key (os @ [e])) \<and> insert k (snd s) = set (map entry_key (os @ [e]))"
        using os by simp
      then show ?thesis using x 1(2,3) unfolding stale_ok_def by (simp del: map_append)
    qed
    then show ?thesis using True 1 by (subst stale_buffer.simps) simp
  next
    case False
    then show ?thesis using 1(3) by (subst stale_buffer.simps) simp
  qed
qed

lemma stale_scan_ok:
  "wo_deleted opts \<Longrightarrow> stale_ok v live base s \<Longrightarrow> stale_ok v live base (stale_scan alnum v opts live m whole pos s)"
proof (induction alnum v opts live m whole pos s rule: stale_scan.induct)
  case (1 alnum v opts live m whole pos s)
  then show ?case
    by (subst stale_scan.simps) (simp add: Let_def stale_buffer_ok)
qed

text \<open>C32: The walk of a volume reports the live files of the catalog first, in its order, and then only orphans: each has a
  name that no live entry of the same folder has, no two share their folder and name, and the data of each starts inside the volume;
  the statistics count exactly what was reported.\<close>

theorem hfs_walk_sound:
  "walk_ok (hfs_walk alnum v opts) \<and>
    (\<exists>os. wk_out (hfs_walk alnum v opts) =
        (if wo_live opts then map (\<lambda>e. to_entry v e (snd (walk_catalog v)) Live 95) (filter (\<lambda>e. \<not> ce_is_dir e) (fst (walk_catalog v))) else []) @ os \<and>
      list_all (orphan_ok v ((\<lambda>e. (ce_parent e, ce_name e)) ` set (fst (walk_catalog v)))) os \<and> distinct (map entry_key os))"
proof -
  obtain live m where c: "walk_catalog v = (live, m)" by (cases "walk_catalog v")
  define w where "w = (if wo_live opts then fold (\<lambda>e w. if ce_is_dir e then w else emit (to_entry v e m Live 95) w) live walk_start else walk_start)"
  let ?base = "if wo_live opts then map (\<lambda>e. to_entry v e m Live 95) (filter (\<lambda>e. \<not> ce_is_dir e) live) else []"
  have "walk_ok (fold (\<lambda>e w. if ce_is_dir e then w else emit (to_entry v e m Live 95) w) es u) \<and>
      wk_out (fold (\<lambda>e w. if ce_is_dir e then w else emit (to_entry v e m Live 95) w) es u) =
      wk_out u @ map (\<lambda>e. to_entry v e m Live 95) (filter (\<lambda>e. \<not> ce_is_dir e) es)" if "walk_ok u" for es u
    using that by (induction es arbitrary: u) simp_all
  from this [of walk_start live] have w: "walk_ok w" "wk_out w = ?base" by (simp_all add: w_def) (simp_all add: walk_start_def)
  let ?keys = "(\<lambda>e. (ce_parent e, ce_name e)) ` set live"
  have start: "stale_ok v ?keys ?base (w, {})" using w by (simp add: stale_ok_def)
  let ?s = "stale_scan alnum v opts ?keys m (min (s_len (hf_src v)) max_stale_scan) 0 (w, {})"
  have run: "hfs_walk alnum v opts = (if wo_deleted opts then fst ?s else w)" by (simp add: hfs_walk_def c w_def Let_def)
  show ?thesis
  proof (cases "wo_deleted opts")
    case True
    have "stale_ok v ?keys ?base ?s" by (rule stale_scan_ok [OF True start])
    then show ?thesis using True run by (auto simp: c stale_ok_def)
  next
    case False
    then show ?thesis using w by (intro conjI exI [of _ "[]"]) (simp_all add: run c)
  qed
qed

section \<open>An instance\<close>

text \<open>A fork of two blocks that do not follow each other.\<close>

definition hfs_sample :: hfs where
  "hfs_sample = \<lparr>hf_src = medium_source (good_medium [(1534, [1, 2]), (2048, [3, 4])]) 512 4096,
     hf_vh = \<lparr>vh_case = False, vh_block_size = 512, vh_total_blocks = 8, vh_catalog = \<lparr>fk_size = 0, fk_blocks = 0, fk_extents = []\<rparr>,
       vh_allocation = \<lparr>fk_size = 0, fk_blocks = 0, fk_extents = []\<rparr>\<rparr>\<rparr>"

theorem hfs_fork_exact_witness:
  "read_fork hfs_sample [\<lparr>fx_start = 2, fx_count = 1\<rparr>, \<lparr>fx_start = 4, fx_count = 1\<rparr>] 510 4 = [1, 2, 3, 4]"
proof -
  let ?md = "good_medium [(1534, [1, 2]), (2048, [3, 4])]"
  let ?exts = "[\<lparr>fx_start = 2, fx_count = 1\<rparr>, \<lparr>fx_start = 4, fx_count = 1\<rparr>]"
  have src: "presents (hf_src hfs_sample) ?md" using fixture_presents [of 4096] by (simp add: hfs_sample_def)
  have len: "s_len (hf_src hfs_sample) = 4096" "s_sector_size (hf_src hfs_sample) = 512" by (simp_all add: hfs_sample_def)
  have bs: "hfs_bs hfs_sample = 512" by (simp add: hfs_bs_def hfs_sample_def)
  have "read_fork hfs_sample ?exts 510 4 = take 4 (drop 510 (fork_bytes ?md 512 ?exts @ zeros 4))"
    using hfs_fork_exact [OF src, of ?exts 510 4] by (simp add: len bs fork_inside_def)
  also have "\<dots> = take 2 (drop 510 (medium_bytes ?md 1024 512)) @ take 2 (medium_bytes ?md 2048 512)" by simp
  also have "\<dots> = medium_bytes ?md 1534 2 @ medium_bytes ?md 2048 2"
    using slice_medium [of 510 2 512 ?md 1024] slice_medium [of 0 2 512 ?md 2048] by simp
  also have "\<dots> = [1, 2, 3, 4]" by (simp add: medium_simps medium_bytes_def upt_rec)
  finally show ?thesis .
qed

end
