(* ===== verification/ApfsBase.thy ===== *)
theory ApfsBase
  imports Dates
begin

text \<open>
  What the APFS engine is built from (\<^verbatim>\<open>crates/fs-apfs/src/\<close>): object headers and their Fletcher-64 checksum
  (\<^verbatim>\<open>obj.rs\<close>), the walk over the leaves of a B-tree (\<^verbatim>\<open>btree.rs\<close>) and the file-system records (\<^verbatim>\<open>records.rs\<close>).
\<close>

unbundle bit_operations_syntax

section \<open>Objects\<close>

record obj_phys =
  ob_cksum :: nat
  ob_oid :: nat
  ob_xid :: nat
  ob_type :: nat
  ob_subtype :: nat

definition parse_obj :: "bytes \<Rightarrow> obj_phys option" where
  "parse_obj block =
     (if length block < 32 then None
      else Some \<lparr>ob_cksum = le64_or_0 block 0, ob_oid = le64_or_0 block 8, ob_xid = le64_or_0 block 16, ob_type = le32_or_0 block 24,
        ob_subtype = le32_or_0 block 28\<rparr>)"

definition obj_kind :: "obj_phys \<Rightarrow> nat" where
  "obj_kind ob = ob_type ob AND 0xFFFF"

definition obj_sub_kind :: "obj_phys \<Rightarrow> nat" where
  "obj_sub_kind ob = ob_subtype ob AND 0xFFFF"

definition fletcher_mod :: nat where "fletcher_mod = 0xFFFFFFFF"

definition fletcher_step :: "bytes \<Rightarrow> nat \<Rightarrow> nat \<times> nat \<Rightarrow> nat \<times> nat" where
  "fletcher_step body i s =
     (let sum1 = (fst s + le32_or_0 body (i * 4)) mod fletcher_mod
      in (sum1, (snd s + sum1) mod fletcher_mod))"

definition fletcher64_check :: "bytes \<Rightarrow> nat" where
  "fletcher64_check block =
     (let body = drop 8 block;
          (sum1, sum2) = fold (fletcher_step body) [0..<length body div 4] (0, 0);
          c1 = fletcher_mod - (sum1 + sum2) mod fletcher_mod;
          c2 = fletcher_mod - (sum1 + c1) mod fletcher_mod
      in push_bit 32 c2 OR c1)"

definition fletcher64_valid :: "bytes \<Rightarrow> bool" where
  "fletcher64_valid block \<longleftrightarrow> \<not> length block < 8 \<and> le64_or_0 block 0 = fletcher64_check block"

section \<open>B-trees\<close>

record bnode =
  bn_block :: bytes
  bn_flags :: nat
  bn_level :: nat
  bn_nkeys :: nat
  bn_table_off :: nat
  bn_table_len :: nat
  bn_is_root :: bool
  bn_fixed :: bool

definition parse_node :: "bytes \<Rightarrow> bnode option" where
  "parse_node block =
     (case parse_obj block of
        None \<Rightarrow> None
      | Some ob \<Rightarrow>
          if obj_kind ob \<noteq> 2 \<and> obj_kind ob \<noteq> 3 then None
          else if length block < 56 then None
          else
            let flags = le16_or_0 block 32 in
            Some \<lparr>bn_block = block, bn_flags = flags, bn_level = le16_or_0 block 34, bn_nkeys = le32_or_0 block 36,
              bn_table_off = le16_or_0 block 40, bn_table_len = le16_or_0 block 42, bn_is_root = (flags AND 1 \<noteq> 0),
              bn_fixed = (flags AND 4 \<noteq> 0)\<rparr>)"

definition node_is_leaf :: "bnode \<Rightarrow> bool" where
  "node_is_leaf n \<longleftrightarrow> bn_flags n AND 2 \<noteq> 0 \<or> bn_level n = 0"

definition key_area :: "bnode \<Rightarrow> nat" where
  "key_area n = 56 + bn_table_off n + bn_table_len n"

definition val_base :: "bnode \<Rightarrow> nat" where
  "val_base n = length (bn_block n) - (if bn_is_root n then 40 else 0)"

text \<open>Offset and length of the key, then of the value.\<close>

definition toc_entry :: "bnode \<Rightarrow> nat \<Rightarrow> nat \<times> nat \<times> nat \<times> nat" where
  "toc_entry n i =
     (let toc = 56 + bn_table_off n; b = bn_block n in
      if bn_fixed n then (let base = toc + i * 4 in (le16_or_0 b base, 0, le16_or_0 b (base + 2), 0))
      else (let base = toc + i * 8 in (le16_or_0 b base, le16_or_0 b (base + 2), le16_or_0 b (base + 4), le16_or_0 b (base + 6))))"

definition node_record :: "bnode \<Rightarrow> nat \<Rightarrow> nat \<Rightarrow> nat \<Rightarrow> (bytes \<times> bytes) option" where
  "node_record n i fixed_key fixed_val =
     (case toc_entry n i of (koff, klen0, voff, vlen0) \<Rightarrow>
        let kstart = key_area n + koff;
            klen = (if bn_fixed n then fixed_key else klen0)
        in case get_slice (bn_block n) kstart (kstart + klen) of
            None \<Rightarrow> None
          | Some key \<Rightarrow>
              if val_base n < voff then None
              else
                let vstart = val_base n - voff;
                    vlen = (if bn_fixed n then if node_is_leaf n then fixed_val else 8 else vlen0)
                in map_option (Pair key) (get_slice (bn_block n) vstart (vstart + vlen)))"

definition node_nkeys :: "bnode \<Rightarrow> nat" where
  "node_nkeys n = min (min (bn_nkeys n) (2 ^ 20)) (bn_table_len n div (if bn_fixed n then 4 else 8))"

text \<open>One record of a leaf, and one child of an inner node: a child is fetched once and lies on a lower level. The stack
  is kept with its top in front.\<close>

definition visit_record :: "(bytes \<Rightarrow> bytes \<Rightarrow> 's \<Rightarrow> 's) \<Rightarrow> bnode \<Rightarrow> nat \<Rightarrow> nat \<Rightarrow> nat \<Rightarrow> 's \<Rightarrow> 's" where
  "visit_record visit n fixed_key fixed_val i s = (case node_record n i fixed_key fixed_val of None \<Rightarrow> s | Some (k, v) \<Rightarrow> visit k v s)"

definition push_child :: "(nat \<Rightarrow> bytes option) \<Rightarrow> bnode \<Rightarrow> nat \<Rightarrow> nat \<Rightarrow> nat set \<times> bnode list \<Rightarrow> nat set \<times> bnode list" where
  "push_child fetch n fixed_key i s =
     (case node_record n i fixed_key 8 of
        None \<Rightarrow> s
      | Some (k, v) \<Rightarrow>
          let child_ptr = le64_or_0 v 0 in
          if child_ptr \<in> fst s then s
          else (insert child_ptr (fst s),
            case fetch child_ptr of
              None \<Rightarrow> snd s
            | Some block \<Rightarrow> (case parse_node block of
                  None \<Rightarrow> snd s
                | Some child \<Rightarrow> if bn_level child < bn_level n then child # snd s else snd s)))"

text \<open>The walk; the rest of the budget is returned.\<close>

function walk_leaves ::
  "(nat \<Rightarrow> bytes option) \<Rightarrow> nat \<Rightarrow> nat \<Rightarrow> (bytes \<Rightarrow> bytes \<Rightarrow> 's \<Rightarrow> 's) \<Rightarrow> bnode list \<Rightarrow> nat set \<Rightarrow> nat \<Rightarrow> 's \<Rightarrow> nat \<times> 's" where
  "walk_leaves fetch fixed_key fixed_val visit [] seen budget s = (budget, s)"
| "walk_leaves fetch fixed_key fixed_val visit (n # stack) seen budget s =
     (if budget = 0 then (budget, s)
      else if node_is_leaf n then
        walk_leaves fetch fixed_key fixed_val visit stack seen (budget - 1)
          (fold (visit_record visit n fixed_key fixed_val) [0..<node_nkeys n] s)
      else
        (case fold (push_child fetch n fixed_key) [0..<node_nkeys n] (seen, stack) of
           (seen1, stack1) \<Rightarrow> walk_leaves fetch fixed_key fixed_val visit stack1 seen1 (budget - 1) s))"
  by pat_completeness auto
termination
  by (relation "measure (\<lambda>(fetch, fixed_key, fixed_val, visit, stack, seen, budget, s). budget)") auto

declare walk_leaves.simps [simp del]

section \<open>Records\<close>

definition apfs_split_key :: "nat \<Rightarrow> nat \<times> nat" where
  "apfs_split_key oat = (oat AND (2 ^ 60 - 1), drop_bit 60 oat)"

definition drec_is_dir :: "nat \<Rightarrow> bool" where
  "drec_is_dir flags \<longleftrightarrow> flags AND 0x0F = 4"

record dir_rec =
  dr_parent :: nat
  dr_name :: ustring
  dr_raw :: bytes
  dr_file_id :: nat
  dr_is_dir :: bool
  dr_date_added :: nat

definition parse_dir_rec :: "nat \<Rightarrow> bytes \<Rightarrow> bytes \<Rightarrow> bool \<Rightarrow> dir_rec option" where
  "parse_dir_rec parent_id key val hashed =
     (let (name_off, name_len) = (if hashed then (12, le32_or_0 key 8 AND 0x3FF) else (10, le16_or_0 key 8)) in
      if name_len = 0 \<or> 1024 < name_len then None
      else case get_slice key name_off (name_off + name_len) of
          None \<Rightarrow> None
        | Some whole \<Rightarrow>
            let raw = takeWhile (\<lambda>b. b \<noteq> 0) whole in
            if raw = [] then None
            else Some \<lparr>dr_parent = parent_id, dr_name = utf8_lossy raw, dr_raw = raw, dr_file_id = le64_or_0 val 0,
              dr_is_dir = drec_is_dir (le16_or_0 val 16), dr_date_added = le64_or_0 val 8\<rparr>)"

record apfs_inode =
  ai_id :: nat
  ai_parent :: nat
  ai_name :: "ustring option"
  ai_size :: "nat option"
  ai_create :: nat
  ai_mod :: nat
  ai_is_dir :: bool

text \<open>The extended fields: a table of types and sizes, then the payloads, each padded to eight bytes.\<close>

record xfield_state =
  xf_hdr :: nat
  xf_data :: nat
  xf_name :: "ustring option"
  xf_size :: "nat option"

definition xfield_step :: "bytes \<Rightarrow> xfield_state \<Rightarrow> xfield_state" where
  "xfield_step blob s =
     (let x_type = unat (byte_or_0 blob (xf_hdr s));
          x_size = le16_or_0 blob (xf_hdr s + 2);
          s1 = (case get_slice blob (xf_data s) (xf_data s + x_size) of
              None \<Rightarrow> s
            | Some p \<Rightarrow>
                if x_type = 4 then
                  (let raw = takeWhile (\<lambda>b. b \<noteq> 0) p in if raw = [] then s else s\<lparr>xf_name := Some (utf8_lossy raw)\<rparr>)
                else if x_type = 8 then s\<lparr>xf_size := Some (le64_or_0 p 0)\<rparr>
                else s)
      in s1\<lparr>xf_hdr := xf_hdr s + 4, xf_data := xf_data s + (x_size + 7) div 8 * 8\<rparr>)"

definition parse_inode_xfields :: "bytes \<Rightarrow> ustring option \<times> nat option" where
  "parse_inode_xfields val =
     (if length val < 92 \<or> length (drop 92 val) < 4 then (None, None)
      else
        let blob = drop 92 val;
            num_exts = le16_or_0 blob 0;
            s = ((xfield_step blob) ^^ min num_exts 64) \<lparr>xf_hdr = 4, xf_data = 4 + num_exts * 4, xf_name = None, xf_size = None\<rparr>
        in (xf_name s, xf_size s))"

definition parse_apfs_inode :: "nat \<Rightarrow> bytes \<Rightarrow> apfs_inode" where
  "parse_apfs_inode i val =
     (let (name, len) = parse_inode_xfields val in
      \<lparr>ai_id = i, ai_parent = le64_or_0 val 0, ai_name = name, ai_size = len, ai_create = le64_or_0 val 16, ai_mod = le64_or_0 val 24,
       ai_is_dir = (le16_or_0 val 80 AND 0xF000 = 0x4000)\<rparr>)"

record file_extent =
  fe_id :: nat
  fe_logical :: nat
  fe_len :: nat
  fe_phys :: nat

definition parse_file_extent :: "nat \<Rightarrow> bytes \<Rightarrow> bytes \<Rightarrow> file_extent" where
  "parse_file_extent i key val =
     \<lparr>fe_id = i, fe_logical = le64_or_0 key 8, fe_len = le64_or_0 val 0 AND (2 ^ 56 - 1), fe_phys = le64_or_0 val 8\<rparr>"

definition parse_xattr_name :: "bytes \<Rightarrow> bytes option" where
  "parse_xattr_name key =
     (let name_len = le16_or_0 key 8 in
      if name_len = 0 \<or> 1024 < name_len then None
      else map_option (takeWhile (\<lambda>b. b \<noteq> 0)) (get_slice key 10 (10 + name_len)))"

definition apfs_date :: "nat \<Rightarrow> ustring option" where
  "apfs_date nanos = (if nanos = 0 then None else date_from_unix (int (nanos div 1000000000)))"

definition snapshot_name :: "bytes \<Rightarrow> ustring" where
  "snapshot_name v =
     (case get_slice v 50 (50 + le16_or_0 v 48) of Some b \<Rightarrow> utf8_lossy (takeWhile (\<lambda>c. c \<noteq> 0) b) | None \<Rightarrow> [])"

end
