(* ===== verification/Apfs.thy ===== *)
theory Apfs
  imports ApfsBase
begin

text \<open>
  The APFS engine (\<^verbatim>\<open>crates/fs-apfs/src/lib.rs\<close>, \<^verbatim>\<open>spaceman.rs\<close>): the container with the checkpoints of its
  descriptor ring, object maps, volumes, snapshots, the space manager and the search for orphaned nodes. The budget
  of node visits, a \<^verbatim>\<open>Cell\<close> of the code, is an argument and a result.
\<close>

unbundle bit_operations_syntax

section \<open>Superblocks\<close>

record nxsb =
  nx_xid :: nat
  nx_block_size :: nat
  nx_block_count :: nat
  nx_omap_oid :: nat
  nx_fs_oids :: "nat list"
  nx_xp_desc_base :: nat
  nx_xp_desc_blocks :: nat
  nx_xp_desc_index :: nat
  nx_xp_desc_len :: nat
  nx_spaceman_oid :: nat

definition parse_nxsb :: "bytes \<Rightarrow> nxsb option" where
  "parse_nxsb block =
     (case parse_obj block of
        None \<Rightarrow> None
      | Some ob \<Rightarrow>
          if obj_kind ob \<noteq> 1 then None
          else if get_slice block 32 36 \<noteq> Some ((map of_char ''NXSB'')) then None
          else
            let block_size = le32_or_0 block 36 in
            if \<not> (512 \<le> block_size \<and> block_size \<le> 65536) \<or> \<not> is_power_of_two block_size then None
            else Some \<lparr>nx_xid = ob_xid ob, nx_block_size = block_size, nx_block_count = le64_or_0 block 40, nx_omap_oid = le64_or_0 block 160,
              nx_fs_oids = filter (\<lambda>oid. oid \<noteq> 0) (map (\<lambda>i. le64_or_0 block (184 + i * 8)) [0..<min (le32_or_0 block 180) 100]),
              nx_xp_desc_base = le64_or_0 block 112, nx_xp_desc_blocks = le32_or_0 block 104, nx_xp_desc_index = le32_or_0 block 136,
              nx_xp_desc_len = le32_or_0 block 140, nx_spaceman_oid = le64_or_0 block 152\<rparr>)"

record volume =
  vo_name :: ustring
  vo_omap_oid :: nat
  vo_root_tree_oid :: nat
  vo_snap_meta_tree_oid :: nat
  vo_incompat :: nat
  vo_role :: nat
  vo_fs_flags :: nat

definition parse_volume :: "bytes \<Rightarrow> volume option" where
  "parse_volume block =
     (case parse_obj block of
        None \<Rightarrow> None
      | Some ob \<Rightarrow>
          if obj_kind ob \<noteq> 0x000D then None
          else if get_slice block 32 36 \<noteq> Some ((map of_char ''APSB'')) then None
          else Some \<lparr>vo_name = utf8_lossy (takeWhile (\<lambda>b. b \<noteq> 0) (unwrap_or (get_slice block 704 (704 + 256)) [])),
            vo_omap_oid = le64_or_0 block 128, vo_root_tree_oid = le64_or_0 block 136, vo_snap_meta_tree_oid = le64_or_0 block 152,
            vo_incompat = le64_or_0 block 56, vo_role = le16_or_0 block 964, vo_fs_flags = le64_or_0 block 264\<rparr>)"

definition hashed_drec :: "volume \<Rightarrow> bool" where
  "hashed_drec v \<longleftrightarrow> vo_incompat v AND (1 OR 8) \<noteq> 0"

definition is_system :: "volume \<Rightarrow> bool" where
  "is_system v \<longleftrightarrow> vo_role v = 1 \<or> vo_incompat v AND 0x20 \<noteq> 0"

section \<open>The container\<close>

definition apfs_probe :: "source \<Rightarrow> probe option" where
  "apfs_probe src =
     (let head = fs_read src 0 4096 in
      case parse_nxsb head of
        None \<Rightarrow> None
      | Some nx \<Rightarrow>
          let full = (if length head < nx_block_size nx then fs_read src 0 (nx_block_size nx) else head);
              checksum_ok = fletcher64_valid (unwrap_or (get_slice full 0 (nx_block_size nx)) full)
          in Some \<lparr>pb_fs_kind = ''apfs'', pb_confidence = (if checksum_ok then 99 else 90), pb_block_size = nx_block_size nx,
               pb_label = None, pb_uuid = None, pb_total_bytes = sat_mul64 (nx_block_count nx) (nx_block_size nx)\<rparr>)"

record apfs =
  ap_src :: source
  ap_block_size :: nat
  ap_newest :: nxsb
  ap_history :: "nxsb list"

definition node_budget :: nat where "node_budget = 64000"
definition max_unguided_orphan_blocks :: nat where "max_unguided_orphan_blocks = 1048576"
definition max_history_walk :: nat where "max_history_walk = 32"
definition max_desc_ring :: nat where "max_desc_ring = 1024"
definition max_orphan_scan_blocks :: nat where "max_orphan_scan_blocks = 8388608"
definition total_work_budget :: nat where "total_work_budget = 500000"

text \<open>One superblock per transaction, the first one met.\<close>

definition push_history :: "nxsb \<Rightarrow> nxsb list \<Rightarrow> nxsb list" where
  "push_history nx hist = (if nx_xid nx \<in> nx_xid ` set hist then hist else hist @ [nx])"

definition ring_block :: "source \<Rightarrow> nxsb \<Rightarrow> nat \<Rightarrow> nxsb list \<Rightarrow> nxsb list" where
  "ring_block src block0 i hist =
     (let bs = nx_block_size block0;
          blk = fs_read src (sat_mul64 (sat_add64 (nx_xp_desc_base block0) i) bs) bs
      in if \<not> fletcher64_valid blk then hist
         else case parse_nxsb blk of
             None \<Rightarrow> hist
           | Some nx \<Rightarrow> if nx_block_size nx = bs then push_history nx hist else hist)"

text \<open>The stable sort by the transaction, the newest first.\<close>

definition newest_first :: "nxsb list \<Rightarrow> nxsb list" where
  "newest_first hist = rev (sort_key nx_xid (rev hist))"

definition apfs_open :: "source \<Rightarrow> fs_error + apfs" where
  "apfs_open src =
     (case parse_nxsb (fs_read src 0 4096) of
        None \<Rightarrow> Inl (NotThisFs ''no NXSB at block 0'')
      | Some block0 \<Rightarrow>
          let bs = nx_block_size block0;
              start = (if fletcher64_valid (fs_read src 0 bs) then push_history block0 [] else []);
              history = newest_first (fold (ring_block src block0) [0..<min (nx_xp_desc_blocks block0) max_desc_ring] start)
          in Inr \<lparr>ap_src = src, ap_block_size = bs, ap_newest = (case history of [] \<Rightarrow> block0 | nx # _ \<Rightarrow> nx), ap_history = history\<rparr>)"

definition recoverable_xids :: "apfs \<Rightarrow> nat list" where
  "recoverable_xids a = map nx_xid (ap_history a)"

definition apfs_block :: "apfs \<Rightarrow> nat \<Rightarrow> bytes" where
  "apfs_block a paddr = fs_read (ap_src a) (sat_mul64 paddr (ap_block_size a)) (ap_block_size a)"

definition verified_block :: "apfs \<Rightarrow> nat \<Rightarrow> bytes option" where
  "verified_block a paddr = (let blk = apfs_block a paddr in if fletcher64_valid blk then Some blk else None)"

text \<open>A walk over a tree that draws from the budget of the whole operation.\<close>

definition budgeted_walk ::
  "(nat \<Rightarrow> bytes option) \<Rightarrow> nat \<Rightarrow> nat \<Rightarrow> (bytes \<Rightarrow> bytes \<Rightarrow> 's \<Rightarrow> 's) \<Rightarrow> bnode \<Rightarrow> nat \<Rightarrow> 's \<Rightarrow> nat \<times> 's" where
  "budgeted_walk fetch fk fv visit root work s =
     (if work = 0 then (work, s)
      else
        let cap = min work node_budget;
            (left, s1) = walk_leaves fetch fk fv visit [root] {} cap s
        in (work - (cap - left), s1))"

section \<open>Object maps\<close>

text \<open>For each object the newest mapping that is not newer than \<open>at_xid\<close>.\<close>

definition omap_visit :: "nat \<Rightarrow> bytes \<Rightarrow> bytes \<Rightarrow> (nat \<Rightarrow> (nat \<times> nat) option) \<Rightarrow> nat \<Rightarrow> (nat \<times> nat) option" where
  "omap_visit at_xid k v idx =
     (let oid = le64_or_0 k 0; xid = le64_or_0 k 8; paddr = le64_or_0 v 8 in
      if at_xid < xid then idx
      else
        let e = unwrap_or (idx oid) (0, 0) in
        if fst e \<le> xid then idx(oid \<mapsto> (xid, paddr)) else idx(oid \<mapsto> e))"

definition omap_index :: "apfs \<Rightarrow> nat \<Rightarrow> nat \<Rightarrow> nat \<Rightarrow> nat \<times> (nat \<Rightarrow> nat option)" where
  "omap_index a omap_oid at_xid work =
     (let tree_oid = le64_or_0 (apfs_block a omap_oid) 48 in
      if tree_oid = 0 then (work, Map.empty)
      else case parse_node (apfs_block a tree_oid) of
          None \<Rightarrow> (work, Map.empty)
        | Some root \<Rightarrow>
            (case budgeted_walk (verified_block a) 16 16 (omap_visit at_xid) root work Map.empty of
               (work1, idx) \<Rightarrow> (work1, \<lambda>oid. map_option snd (idx oid))))"

definition resolve_volume :: "apfs \<Rightarrow> nat \<Rightarrow> nat \<Rightarrow> nat \<Rightarrow> nat \<Rightarrow> nat \<times> volume option" where
  "resolve_volume a omap_oid fs_oid at_xid work =
     (case omap_index a omap_oid at_xid work of
        (work1, idx) \<Rightarrow> (work1, case idx fs_oid of None \<Rightarrow> None | Some paddr \<Rightarrow> parse_volume (apfs_block a paddr)))"

section \<open>The file-system tree\<close>

text \<open>What one walk collects. The extents are kept by object in the order they are met.\<close>

record contents =
  vc_inodes :: "nat \<Rightarrow> apfs_inode option"
  vc_drecs :: "dir_rec list"
  vc_extents :: "(nat \<times> file_extent list) list"

definition contents_empty :: contents where
  "contents_empty = \<lparr>vc_inodes = Map.empty, vc_drecs = [], vc_extents = []\<rparr>"

fun push_extent :: "nat \<Rightarrow> file_extent \<Rightarrow> (nat \<times> file_extent list) list \<Rightarrow> (nat \<times> file_extent list) list" where
  "push_extent i e [] = [(i, [e])]"
| "push_extent i e ((j, es) # r) = (if i = j then (j, es @ [e]) # r else (j, es) # push_extent i e r)"

definition absorb :: "bool \<Rightarrow> bytes \<Rightarrow> bytes \<Rightarrow> contents \<Rightarrow> contents" where
  "absorb hashed key val vc =
     (if length key < 8 then vc
      else case apfs_split_key (le64_or_0 key 0) of
          (obj_id, ty) \<Rightarrow>
            if ty = 3 then vc\<lparr>vc_inodes := (vc_inodes vc)(obj_id \<mapsto> parse_apfs_inode obj_id val)\<rparr>
            else if ty = 9 then
              (case parse_dir_rec obj_id key val hashed of None \<Rightarrow> vc | Some r \<Rightarrow> vc\<lparr>vc_drecs := vc_drecs vc @ [r]\<rparr>)
            else if ty = 8 then vc\<lparr>vc_extents := push_extent obj_id (parse_file_extent obj_id key val) (vc_extents vc)\<rparr>
            else vc)"

text \<open>A block counts as the object only while it carries its identifier, not newer than \<open>at_xid\<close>.\<close>

definition fetch_object :: "apfs \<Rightarrow> (nat \<Rightarrow> nat option) \<Rightarrow> nat \<Rightarrow> nat \<Rightarrow> bytes option" where
  "fetch_object a vidx at_xid oid =
     (case vidx oid of
        None \<Rightarrow> None
      | Some p \<Rightarrow> (case verified_block a p of
            None \<Rightarrow> None
          | Some blk \<Rightarrow> (case parse_obj blk of
                None \<Rightarrow> None
              | Some ob \<Rightarrow> if ob_oid ob \<noteq> oid \<or> at_xid < ob_xid ob then None else Some blk)))"

definition walk_fs_tree :: "apfs \<Rightarrow> volume \<Rightarrow> nat \<Rightarrow> nat \<Rightarrow> nat \<times> contents" where
  "walk_fs_tree a vol at_xid work =
     (case omap_index a (vo_omap_oid vol) at_xid work of
        (work1, vidx) \<Rightarrow> (case vidx (vo_root_tree_oid vol) of
            None \<Rightarrow> (work1, contents_empty)
          | Some root_paddr \<Rightarrow> (case parse_node (apfs_block a root_paddr) of
                None \<Rightarrow> (work1, contents_empty)
              | Some root \<Rightarrow> budgeted_walk (fetch_object a vidx at_xid) 0 0 (absorb (hashed_drec vol)) root work1 contents_empty)))"

text \<open>The directory record of each object: of several the last.\<close>

definition edges :: "contents \<Rightarrow> nat \<Rightarrow> dir_rec option" where
  "edges vc = fold (\<lambda>d m. m(dr_file_id d \<mapsto> d)) (vc_drecs vc) Map.empty"

function apfs_path_loop :: "(nat \<Rightarrow> dir_rec option) \<Rightarrow> nat \<Rightarrow> nat \<Rightarrow> ustring list \<Rightarrow> ustring list option" where
  "apfs_path_loop es cur guard parts =
     (if \<not> guard < 128 then Some parts
      else case es cur of
          None \<Rightarrow> None
        | Some d \<Rightarrow>
            if dr_parent d = 2 \<or> dr_parent d = 0 then Some (parts @ [dr_name d])
            else apfs_path_loop es (dr_parent d) (guard + 1) (parts @ [dr_name d]))"
  by pat_completeness auto
termination by (relation "measure (\<lambda>(es, cur, guard, parts). 128 - guard)") auto

declare apfs_path_loop.simps [simp del]

definition apfs_path :: "(nat \<Rightarrow> dir_rec option) \<Rightarrow> nat \<Rightarrow> ustring option" where
  "apfs_path es file_id = map_option (\<lambda>parts. join_names (rev parts)) (apfs_path_loop es file_id 0 [])"

type_synonym drec_key = "nat \<times> ustring"

definition drec_key :: "dir_rec \<Rightarrow> drec_key" where
  "drec_key d = (dr_parent d, dr_name d)"

definition present_names :: "contents \<Rightarrow> drec_key set" where
  "present_names vc = drec_key ` set (vc_drecs vc)"

definition live_ids :: "contents \<Rightarrow> nat \<Rightarrow> bool" where
  "live_ids vc i \<longleftrightarrow> vc_inodes vc i \<noteq> None \<or> i \<in> dr_file_id ` set (vc_drecs vc)"

section \<open>Entries\<close>

text \<open>The \<^verbatim>\<open>BTreeMap\<close> by logical address: sorted, a later extent replaces an earlier one.\<close>

fun put_logical :: "file_extent \<Rightarrow> file_extent list \<Rightarrow> file_extent list" where
  "put_logical e [] = [e]"
| "put_logical e (f # r) =
     (if fe_logical e < fe_logical f then e # f # r
      else if fe_logical e = fe_logical f then e # r
      else f # put_logical e r)"

fun trim_extents_loop :: "nat \<Rightarrow> nat \<Rightarrow> extent list \<Rightarrow> extent list" where
  "trim_extents_loop len acc [] = []"
| "trim_extents_loop len acc (e # es) =
     (if len \<le> acc then []
      else
        let e1 = (if len - acc < ex_len e then e\<lparr>ex_len := len - acc\<rparr> else e)
        in e1 # trim_extents_loop len (sat_add64 acc (ex_len e1)) es)"

definition trim_extents_to :: "extent list \<Rightarrow> nat \<Rightarrow> extent list" where
  "trim_extents_to es len = trim_extents_loop len 0 es"

definition data_extents :: "apfs \<Rightarrow> file_extent list \<Rightarrow> extent list" where
  "data_extents a exts =
     map (\<lambda>e. \<lparr>ex_off = sat_mul64 (fe_phys e) (ap_block_size a), ex_len = fe_len e\<rparr>)
       (filter (\<lambda>e. \<not> (fe_phys e = 0 \<or> fe_len e = 0)) (fold put_logical exts []))"

definition build_entry ::
  "apfs \<Rightarrow> dir_rec \<Rightarrow> contents \<Rightarrow> (nat \<Rightarrow> dir_rec option) \<Rightarrow> entry_state \<Rightarrow> nat \<Rightarrow> entry option" where
  "build_entry a d vc es st conf =
     (if dr_is_dir d then None
      else
        let inode = vc_inodes vc (dr_file_id d);
            len0 = unwrap_or (Option.bind inode ai_size) 0;
            extents = (case map_of (vc_extents vc) (dr_file_id d) of None \<Rightarrow> [] | Some exts \<Rightarrow> data_extents a exts);
            len = (if len0 = 0 then foldl (\<lambda>s e. sat_add64 s (ex_len e)) 0 extents else len0)
        in Some ((new_file (dr_file_id d) (dr_name d) (dr_raw d) len st)
             \<lparr>en_parent_id := Some (dr_parent d), en_path := apfs_path es (dr_file_id d),
              en_extents := (if len0 = 0 then extents else trim_extents_to extents len0), en_confidence := [conf],
              en_created := Option.bind inode (\<lambda>i. apfs_date (ai_create i)),
              en_modified := (case Option.bind inode (\<lambda>i. apfs_date (ai_mod i)) of
                  Some t \<Rightarrow> Some t
                | None \<Rightarrow> apfs_date (dr_date_added d))\<rparr>))"

section \<open>Volumes\<close>

definition volumes_where :: "apfs \<Rightarrow> (volume \<Rightarrow> bool) \<Rightarrow> nat \<Rightarrow> nat \<times> (nat \<times> volume) list" where
  "volumes_where a P work =
     fold (\<lambda>fs_oid (w, out). case resolve_volume a (nx_omap_oid (ap_newest a)) fs_oid (nx_xid (ap_newest a)) w of
         (w1, Some vol) \<Rightarrow> (w1, if P vol then out @ [(fs_oid, vol)] else out)
       | (w1, None) \<Rightarrow> (w1, out))
       (nx_fs_oids (ap_newest a)) (work, [])"

text \<open>The volumes without the System volume, or all of them where nothing else is left.\<close>

definition target_volumes :: "apfs \<Rightarrow> bool \<Rightarrow> nat \<Rightarrow> nat \<times> (nat \<times> volume) list" where
  "target_volumes a include_system work =
     (case volumes_where a (\<lambda>vol. include_system \<or> \<not> is_system vol) work of
        (w, out) \<Rightarrow> if out = [] then volumes_where a (\<lambda>vol. True) w else (w, out))"

definition snapshot_visit :: "bytes \<Rightarrow> bytes \<Rightarrow> (nat \<times> nat \<times> ustring) list \<Rightarrow> (nat \<times> nat \<times> ustring) list" where
  "snapshot_visit k v out =
     (if length k < 8 then out
      else case apfs_split_key (le64_or_0 k 0) of
          (xid, ty) \<Rightarrow>
            if ty \<noteq> 1 then out
            else if le64_or_0 v 8 \<noteq> 0 then out @ [(xid, le64_or_0 v 8, snapshot_name v)] else out)"

definition snapshot_points :: "apfs \<Rightarrow> volume \<Rightarrow> nat \<Rightarrow> nat \<times> (nat \<times> nat \<times> ustring) list" where
  "snapshot_points a vol work =
     (if vo_snap_meta_tree_oid vol = 0 then (work, [])
      else case parse_node (apfs_block a (vo_snap_meta_tree_oid vol)) of
          None \<Rightarrow> (work, [])
        | Some root \<Rightarrow> budgeted_walk (verified_block a) 0 0 snapshot_visit root work [])"

definition volume_names :: "apfs \<Rightarrow> ustring list" where
  "volume_names a = map (\<lambda>(i, v). vo_name v) (snd (target_volumes a False total_work_budget))"

text \<open>The snapshots of the volumes, one volume after another.\<close>

definition all_snapshots :: "apfs \<Rightarrow> (nat \<times> nat \<times> ustring) list" where
  "all_snapshots a =
     (case target_volumes a False total_work_budget of
        (w, vols) \<Rightarrow> snd (fold (\<lambda>(i, vol) (w, out). case snapshot_points a vol w of (w1, pts) \<Rightarrow> (w1, out @ pts)) vols (w, [])))"

definition older_checkpoints :: "apfs \<Rightarrow> nxsb list" where
  "older_checkpoints a = filter (\<lambda>n. nx_xid n < nx_xid (ap_newest a)) (ap_history a)"

datatype recovery_kind = SnapshotPoint | CheckpointPoint

record recovery_point =
  rp_kind :: recovery_kind
  rp_xid :: nat
  rp_sblock_oid :: nat
  rp_name :: ustring

definition recovery_points :: "apfs \<Rightarrow> recovery_point list" where
  "recovery_points a =
     map (\<lambda>(xid, sblock, name). \<lparr>rp_kind = SnapshotPoint, rp_xid = xid, rp_sblock_oid = sblock, rp_name = name\<rparr>) (all_snapshots a) @
     map (\<lambda>nx. \<lparr>rp_kind = CheckpointPoint, rp_xid = nx_xid nx, rp_sblock_oid = 0, rp_name = []\<rparr>) (older_checkpoints a)"

definition apfs_snapshots :: "apfs \<Rightarrow> (nat \<times> ustring) list" where
  "apfs_snapshots a =
     map (\<lambda>(xid, sblock, name). (xid, if name = [] then ustr ''snapshot xid '' @ ustr (show_nat xid) else name)) (all_snapshots a) @
     map (\<lambda>nx. (nx_xid nx, ustr ''checkpoint xid '' @ ustr (show_nat (nx_xid nx)))) (older_checkpoints a)"

section \<open>What is gone\<close>

text \<open>The files of an older view whose name is absent now.\<close>

definition diff_volume :: "apfs \<Rightarrow> nat \<Rightarrow> nat \<times> volume \<Rightarrow> nat \<times> entry list \<Rightarrow> nat \<times> entry list" where
  "diff_volume a from_xid v s =
     (let (fs_oid, vol) = v;
          (w1, cur) = walk_fs_tree a vol (nx_xid (ap_newest a)) (fst s);
          (w2, points) = snapshot_points a vol w1;
          (w4, old_view) =
            (case find (\<lambda>(x, b, n). x = from_xid) points of
               Some (sx, sblock, n) \<Rightarrow>
                 (case parse_volume (apfs_block a sblock) of
                    None \<Rightarrow> (w2, None)
                  | Some sv \<Rightarrow> (case walk_fs_tree a sv sx w2 of (w, vc) \<Rightarrow> (w, Some vc)))
             | None \<Rightarrow>
                 (case find (\<lambda>n. nx_xid n = from_xid) (ap_history a) of
                    None \<Rightarrow> (w2, None)
                  | Some nx \<Rightarrow> (case resolve_volume a (nx_omap_oid nx) fs_oid (nx_xid nx) w2 of
                        (w3, None) \<Rightarrow> (w3, None)
                      | (w3, Some ov) \<Rightarrow> (case walk_fs_tree a ov from_xid w3 of (w, vc) \<Rightarrow> (w, Some vc)))))
      in (w4, case old_view of
            None \<Rightarrow> snd s
          | Some old \<Rightarrow> snd s @ List.map_filter (\<lambda>d. build_entry a d old (edges old) Historical 90)
                (filter (\<lambda>d. drec_key d \<notin> present_names cur) (vc_drecs old))))"

definition diff_from :: "apfs \<Rightarrow> nat \<Rightarrow> entry list" where
  "diff_from a from_xid =
     (case target_volumes a False total_work_budget of (w, vols) \<Rightarrow> snd (fold (diff_volume a from_xid) vols (w, [])))"

section \<open>Bitmaps\<close>

definition set_block_bit :: "nat \<Rightarrow> bytes \<Rightarrow> bytes" where
  "set_block_bit b packed = packed[b div 8 := packed ! (b div 8) OR push_bit (b mod 8) 1]"

definition mark_extent :: "apfs \<Rightarrow> nat \<Rightarrow> file_extent \<Rightarrow> bytes \<Rightarrow> bytes" where
  "mark_extent a block_count e packed =
     (if fe_phys e = 0 \<or> fe_len e = 0 then packed
      else
        let nblocks = min (div_ceil (fe_len e) (max (ap_block_size a) 1)) (2 ^ 20)
        in fold set_block_bit [fe_phys e..<min (sat_add64 (fe_phys e) nblocks) block_count] packed)"

definition mark_live_blocks :: "apfs \<Rightarrow> nat \<Rightarrow> contents \<Rightarrow> bytes \<Rightarrow> bytes" where
  "mark_live_blocks a block_count cur packed = fold (mark_extent a block_count) (concat (map snd (vc_extents cur))) packed"

definition bitmap_too_big :: "nat \<Rightarrow> bool" where
  "bitmap_too_big block_count \<longleftrightarrow> block_count = 0 \<or> 512 * 2 ^ 20 < block_count"

definition live_bitmap_from :: "apfs \<Rightarrow> contents \<Rightarrow> bitmap option" where
  "live_bitmap_from a cur =
     (let block_count = nx_block_count (ap_newest a) in
      if bitmap_too_big block_count then None
      else Some (bitmap_new (ap_block_size a) 0 block_count (mark_live_blocks a block_count cur (zeros (div_ceil block_count 8)))))"

definition live_extent_bitmap :: "apfs \<Rightarrow> bitmap option" where
  "live_extent_bitmap a =
     (let block_count = nx_block_count (ap_newest a) in
      if bitmap_too_big block_count then None
      else case target_volumes a False total_work_budget of
          (w, vols) \<Rightarrow>
            Some (bitmap_new (ap_block_size a) 0 block_count
              (snd (fold (\<lambda>(i, vol) (w, packed). case walk_fs_tree a vol (nx_xid (ap_newest a)) w of
                   (w1, cur) \<Rightarrow> (w1, mark_live_blocks a block_count cur packed))
                 vols (w, zeros (div_ceil block_count 8))))))"

text \<open>The mappings of one block of the newest checkpoint; the space manager is found through them.\<close>

definition checkpoint_mappings :: "apfs \<Rightarrow> nat \<Rightarrow> (nat \<times> nat) list" where
  "checkpoint_mappings a j =
     (let nx = ap_newest a;
          ring = max 1 (min (nx_xp_desc_blocks nx) max_desc_ring);
          idx = (nx_xp_desc_index nx + j) mod 2 ^ 32 mod ring;
          blk = apfs_block a (sat_add64 (nx_xp_desc_base nx) idx)
      in case parse_obj blk of
          None \<Rightarrow> []
        | Some ob \<Rightarrow>
            if obj_kind ob \<noteq> 0x000C then []
            else map (\<lambda>k. (le64_or_0 blk (40 + k * 40 + 24), le64_or_0 blk (40 + k * 40 + 32))) [0..<min (le32_or_0 blk 36) 1000])"

definition resolve_ephemeral :: "apfs \<Rightarrow> nat \<Rightarrow> nat option" where
  "resolve_ephemeral a oid =
     (let nx = ap_newest a; ring = max 1 (min (nx_xp_desc_blocks nx) max_desc_ring)
      in map_of (concat (map (checkpoint_mappings a) [0..<min (nx_xp_desc_len nx) ring])) oid)"

definition spaceman_chunk :: "source \<Rightarrow> nat \<Rightarrow> nat \<Rightarrow> nat \<Rightarrow> nat \<Rightarrow> nat \<Rightarrow> bytes \<Rightarrow> nat \<Rightarrow> bytes \<Rightarrow> bytes" where
  "spaceman_chunk src base block_size bs chunk_bytes max_bytes cib k packed =
     (if max_bytes \<le> length packed then packed
      else
        let bitmap_addr = le64_or_0 cib (40 + k * 32 + 24) in
        if bitmap_addr = 0 then packed @ zeros chunk_bytes
        else
          let bm = fs_read src (sat_add64 base (sat_mul64 bitmap_addr bs)) block_size;
              n = min chunk_bytes (length bm)
          in packed @ take n bm @ zeros (chunk_bytes - n))"

definition spaceman_cib :: "source \<Rightarrow> nat \<Rightarrow> nat \<Rightarrow> nat \<Rightarrow> nat \<Rightarrow> nat \<Rightarrow> bytes \<Rightarrow> nat \<Rightarrow> nat \<Rightarrow> bytes \<Rightarrow> bytes" where
  "spaceman_cib src base block_size bs chunk_bytes max_bytes sm addr_off c packed =
     (if max_bytes \<le> length packed then packed
      else
        let cib_paddr = le64_or_0 sm (addr_off + c * 8) in
        if cib_paddr = 0 then packed
        else
          let cib = fs_read src (sat_add64 base (sat_mul64 cib_paddr bs)) block_size in
          if parse_obj cib = None then packed
          else fold (spaceman_chunk src base block_size bs chunk_bytes max_bytes cib)
            [0..<min (le32_or_0 cib 36) ((block_size - 40) div 32)] packed)"

definition spaceman_build :: "source \<Rightarrow> nat \<Rightarrow> nat \<Rightarrow> nat \<Rightarrow> nat \<Rightarrow> bitmap option" where
  "spaceman_build src base sm_paddr block_size block_count =
     (let bs = max block_size 1 in
      case Option.bind (checked_mul64 sm_paddr bs) (checked_add64 base) of
        None \<Rightarrow> None
      | Some off \<Rightarrow>
          let sm = fs_read src off block_size in
          case parse_obj sm of
            None \<Rightarrow> None
          | Some ob \<Rightarrow>
              let blocks_per_chunk = le32_or_0 sm 36;
                  max_bytes = min (div_ceil block_count 8) (64 * 2 ^ 20);
                  cib_count = le32_or_0 sm (48 + 16);
                  cab_count = le32_or_0 sm (48 + 20);
                  addr_off = le32_or_0 sm (48 + 32)
              in if obj_kind ob \<noteq> 5 then None
                 else if blocks_per_chunk = 0 \<or> blocks_per_chunk \<noteq> sat_mul64 bs 8 then None
                 else if cab_count \<noteq> 0 \<or> cib_count = 0 then None
                 else
                   let packed = fold (spaceman_cib src base block_size bs (blocks_per_chunk div 8) max_bytes sm addr_off) [0..<min cib_count 4096] []
                   in if packed = [] then None else Some (bitmap_new block_size 0 block_count packed))"

definition spaceman_bitmap :: "apfs \<Rightarrow> bitmap option" where
  "spaceman_bitmap a =
     (case resolve_ephemeral a (nx_spaceman_oid (ap_newest a)) of
        None \<Rightarrow> None
      | Some sm_paddr \<Rightarrow> spaceman_build (ap_src a) 0 sm_paddr (ap_block_size a) (nx_block_count (ap_newest a)))"

section \<open>Orphaned nodes\<close>

definition orphan_block :: "apfs \<Rightarrow> bool \<Rightarrow> bitmap option \<Rightarrow> bytes \<Rightarrow> nat \<Rightarrow> nat \<Rightarrow> contents \<Rightarrow> contents" where
  "orphan_block a hashed bm chunk b i vc =
     (let bs = ap_block_size a in
      if bm \<noteq> None \<and> is_block_allocated (the bm) (b + i) then vc
      else case get_slice chunk (i * bs) (i * bs + bs) of
          None \<Rightarrow> vc
        | Some block \<Rightarrow> (case parse_obj block of
              None \<Rightarrow> vc
            | Some ob \<Rightarrow>
                if obj_sub_kind ob \<noteq> 0x000E \<or> \<not> fletcher64_valid block then vc
                else case parse_node block of
                    None \<Rightarrow> vc
                  | Some n \<Rightarrow>
                      if node_is_leaf n then snd (walk_leaves (\<lambda>p. None) 0 0 (absorb hashed) [n] {} 1 vc) else vc))"

text \<open>Chunks of one mebibyte; the last condition never holds for a block size that the superblock may have.\<close>

function orphan_chunks :: "apfs \<Rightarrow> bool \<Rightarrow> bitmap option \<Rightarrow> nat \<Rightarrow> nat \<Rightarrow> contents \<Rightarrow> contents" where
  "orphan_chunks a hashed bm whole b vc =
     (let per_chunk = 2 ^ 20 div max (ap_block_size a) 1 in
      if \<not> b < whole \<or> per_chunk = 0 then vc
      else
        let chunk_blocks = min per_chunk (whole - b);
            chunk = fs_read (ap_src a) (sat_mul64 b (ap_block_size a)) (chunk_blocks * ap_block_size a)
        in orphan_chunks a hashed bm whole (b + chunk_blocks) (fold (orphan_block a hashed bm chunk b) [0..<chunk_blocks] vc))"
  by pat_completeness auto
termination by (relation "measure (\<lambda>(a, hashed, bm, whole, b, vc). whole - b)") auto

declare orphan_chunks.simps [simp del]

definition orphan_blocks :: "apfs \<Rightarrow> nat" where
  "orphan_blocks a =
     min (min (nx_block_count (ap_newest a)) (sat_add64 (s_len (ap_src a) div max (ap_block_size a) 1) 1)) max_orphan_scan_blocks"

section \<open>The walk\<close>

text \<open>One record of an older view: reported unless its name is present now or was reported, or its object is live.\<close>

definition report_gone ::
  "apfs \<Rightarrow> drec_key set \<Rightarrow> (nat \<Rightarrow> bool) \<Rightarrow> contents \<Rightarrow> entry_state \<Rightarrow> nat \<Rightarrow> ustring option \<Rightarrow> bool \<Rightarrow> dir_rec \<Rightarrow>
   walk \<times> drec_key set \<Rightarrow> walk \<times> drec_key set" where
  "report_gone a present live old st conf created send d s =
     (let key = drec_key d in
      if key \<in> present \<or> key \<in> snd s \<or> live (dr_file_id d) then s
      else case build_entry a d old (edges old) st conf of
          None \<Rightarrow> s
        | Some e \<Rightarrow>
            let e1 = e\<lparr>en_created := (case en_created e of Some t \<Rightarrow> Some t | None \<Rightarrow> created)\<rparr>
            in (if send then emit e1 (fst s) else (fst s)\<lparr>wk_emitted := wk_emitted (fst s) + 1, wk_deleted := wk_deleted (fst s) + 1\<rparr>,
                insert key (snd s)))"

type_synonym apfs_state = "nat \<times> walk \<times> drec_key set"

definition walk_checkpoint :: "apfs \<Rightarrow> nat \<Rightarrow> drec_key set \<Rightarrow> (nat \<Rightarrow> bool) \<Rightarrow> nxsb \<Rightarrow> apfs_state \<Rightarrow> apfs_state" where
  "walk_checkpoint a fs_oid present live nx s =
     (case resolve_volume a (nx_omap_oid nx) fs_oid (nx_xid nx) (fst s) of
        (w1, None) \<Rightarrow> (w1, snd s)
      | (w1, Some old_vol) \<Rightarrow> (case walk_fs_tree a old_vol (nx_xid nx) w1 of
            (w2, old) \<Rightarrow>
              (w2, fold (report_gone a present live old Historical 85 (Some (ustr ''xid '' @ ustr (show_nat (nx_xid nx)))) True) (vc_drecs old) (snd s))))"

definition walk_snapshot :: "apfs \<Rightarrow> drec_key set \<Rightarrow> (nat \<Rightarrow> bool) \<Rightarrow> nat \<times> nat \<times> ustring \<Rightarrow> apfs_state \<Rightarrow> apfs_state" where
  "walk_snapshot a present live pt s =
     (case pt of (snap_xid, sblock_oid, name) \<Rightarrow>
        (case parse_volume (apfs_block a sblock_oid) of
           None \<Rightarrow> s
         | Some snap_vol \<Rightarrow> (case walk_fs_tree a snap_vol snap_xid (fst s) of
               (w1, snapv) \<Rightarrow> (w1, fold (report_gone a present live snapv Historical 90 None True) (vc_drecs snapv) (snd s)))))"

definition orphan_scan ::
  "apfs \<Rightarrow> bool \<Rightarrow> drec_key set \<Rightarrow> (nat \<Rightarrow> bool) \<Rightarrow> bitmap option \<Rightarrow> walk_opts \<Rightarrow> walk \<times> drec_key set \<Rightarrow> walk \<times> drec_key set" where
  "orphan_scan a hashed present live bm opts s =
     (if bm = None \<and> max_unguided_orphan_blocks < orphan_blocks a then s
      else
        let vc = orphan_chunks a hashed bm (orphan_blocks a) 0 contents_empty
        in fold (report_gone a present live vc Orphaned 60 None (wo_deleted opts)) (vc_drecs vc) s)"

definition report_live :: "apfs \<Rightarrow> contents \<Rightarrow> dir_rec \<Rightarrow> walk \<Rightarrow> walk" where
  "report_live a cur d wk = (case build_entry a d cur (edges cur) Live 95 of None \<Rightarrow> wk | Some e \<Rightarrow> emit e wk)"

definition walk_volume :: "apfs \<Rightarrow> walk_opts \<Rightarrow> nat \<times> volume \<Rightarrow> nat \<times> walk \<Rightarrow> nat \<times> walk" where
  "walk_volume a opts v s =
     (let (fs_oid, vol) = v;
          (w1, cur) = walk_fs_tree a vol (nx_xid (ap_newest a)) (fst s);
          present = present_names cur;
          live = live_ids cur;
          wk = (if wo_live opts then fold (report_live a cur) (vc_drecs cur) (snd s) else snd s)
      in if \<not> wo_deleted opts then (w1, wk)
         else
           let s1 = fold (walk_checkpoint a fs_oid present live) (take max_history_walk (older_checkpoints a)) (w1, wk, {});
               (w2, points) = snapshot_points a vol (fst s1);
               s2 = fold (walk_snapshot a present live) points (w2, snd s1)
           in (fst s2, fst (orphan_scan a (hashed_drec vol) present live (live_bitmap_from a cur) opts (snd s2))))"

definition apfs_walk :: "apfs \<Rightarrow> walk_opts \<Rightarrow> walk" where
  "apfs_walk a opts =
     (case target_volumes a (wo_system_volume opts) total_work_budget of
        (w, vols) \<Rightarrow> snd (fold (walk_volume a opts) vols (w, walk_start)))"

end
