(* ===== verification/ApfsTheorems.thy ===== *)
theory ApfsTheorems
  imports Apfs ClusterRuns
begin

text \<open>
  The properties of the APFS engine: what the checksum of an object detects, that the walk over a B-tree visits the
  records of every leaf once, that an object map answers with the newest mapping of a checkpoint, that the extents
  of a file do not depend on the order in which its records are found, and what the walk of a container reports.
\<close>

unbundle bit_operations_syntax

section \<open>The checksum\<close>

definition obj_word :: "bytes \<Rightarrow> nat \<Rightarrow> nat" where
  "obj_word block i = le32_or_0 (drop 8 block) (i * 4)"

lemma obj_word_bound: "obj_word block i \<le> fletcher_mod"
  using le_u32_bound [of "drop 8 block" "i * 4"]
  by (cases "le_u32 (drop 8 block) (i * 4)") (auto simp: obj_word_def le32_or_0_def unwrap_or_def fletcher_mod_def)

lemma fletcher_sums:
  "fold (fletcher_step (drop 8 block)) [0..<n] (0, 0) =
    ((\<Sum>i<n. obj_word block i) mod fletcher_mod, (\<Sum>m<n. \<Sum>i<Suc m. obj_word block i) mod fletcher_mod)"
proof (induction n)
  case (Suc n)
  let ?M = fletcher_mod
  define a where "a = (\<Sum>i<n. obj_word block i)"
  define b where "b = (\<Sum>m<n. \<Sum>i<Suc m. obj_word block i)"
  have "fold (fletcher_step (drop 8 block)) [0..<Suc n] (0, 0) = fletcher_step (drop 8 block) n (a mod ?M, b mod ?M)"
    using Suc.IH by (simp add: a_def b_def)
  also have "\<dots> = ((a + obj_word block n) mod ?M, (b + (a + obj_word block n)) mod ?M)"
    by (simp add: fletcher_step_def obj_word_def [symmetric] Let_def mod_simps)
  finally show ?case by (simp add: a_def b_def ac_simps)
qed simp

lemma mod_cancel: "(s + c) mod M = (t + c) mod M \<Longrightarrow> s mod M = t mod (M :: nat)"
proof (cases "s \<le> t")
  case True
  assume "(s + c) mod M = (t + c) mod M"
  then show ?thesis using True mod_eq_dvd_iff_nat [of "s + c" "t + c" M] mod_eq_dvd_iff_nat [of s t M] by simp
next
  case False
  assume "(s + c) mod M = (t + c) mod M"
  then show ?thesis using False mod_eq_dvd_iff_nat [of "t + c" "s + c" M] mod_eq_dvd_iff_nat [of t s M] by simp
qed

lemma minus_inj: "M - x = M - y \<Longrightarrow> x < M \<Longrightarrow> y < M \<Longrightarrow> x = (y :: nat)"
  by linarith

definition fletcher_pair :: "nat \<Rightarrow> nat \<Rightarrow> nat" where
  "fletcher_pair s1 s2 =
     (let c1 = fletcher_mod - (s1 + s2) mod fletcher_mod in push_bit 32 (fletcher_mod - (s1 + c1) mod fletcher_mod) OR c1)"

lemma fletcher64_check_pair:
  "fletcher64_check block =
    fletcher_pair ((\<Sum>i<(length block - 8) div 4. obj_word block i) mod fletcher_mod)
      ((\<Sum>m<(length block - 8) div 4. \<Sum>i<Suc m. obj_word block i) mod fletcher_mod)"
  unfolding fletcher64_check_def by (simp add: fletcher_sums fletcher_pair_def Let_def)

lemma low_high:
  assumes "c < 2 ^ 32"
  shows "take_bit 32 (push_bit 32 d OR c) = (c :: nat)" "drop_bit 32 (push_bit 32 d OR c) = d"
proof -
  have "take_bit 32 c = c" "drop_bit 32 c = 0" "drop_bit 32 (push_bit 32 d) = d"
    using assms by (simp_all add: take_bit_nat_eq_self drop_bit_eq_div push_bit_eq_mult)
  then show "take_bit 32 (push_bit 32 d OR c) = c" "drop_bit 32 (push_bit 32 d OR c) = d"
    by (simp_all add: take_bit_or drop_bit_or take_bit_push_bit)
qed

lemma fletcher_pair_inj:
  assumes "fletcher_pair s1 s2 = fletcher_pair t1 t2" "s1 < fletcher_mod" "t1 < fletcher_mod"
  shows "s1 = t1"
proof -
  let ?M = fletcher_mod
  let ?c = "?M - (s1 + s2) mod ?M" and ?d = "?M - (t1 + t2) mod ?M"
  have M: "0 < ?M" "?M < 2 ^ 32" by (simp_all add: fletcher_mod_def)
  have b: "?c < 2 ^ 32" "?d < 2 ^ 32" using M(2) by linarith+
  have e: "push_bit 32 (?M - (s1 + ?c) mod ?M) OR ?c = push_bit 32 (?M - (t1 + ?d) mod ?M) OR ?d"
    using assms(1) by (simp add: fletcher_pair_def Let_def)
  have cd: "?c = ?d" using arg_cong [OF e, of "take_bit 32"] by (simp only: low_high [OF b(1)] low_high [OF b(2)])
  have "?M - (s1 + ?c) mod ?M = ?M - (t1 + ?d) mod ?M"
    using arg_cong [OF e, of "drop_bit 32"] by (simp only: low_high [OF b(1)] low_high [OF b(2)])
  then have "(s1 + ?c) mod ?M = (t1 + ?d) mod ?M" by (rule minus_inj) (simp_all add: M)
  then have "s1 mod ?M = t1 mod ?M" unfolding cd by (rule mod_cancel)
  then show ?thesis using assms(2,3) by simp
qed

lemma valid_sum:
  assumes "fletcher64_valid b" "fletcher64_valid c" "length c = length b" "take 8 c = take 8 b"
  shows "(\<Sum>i<(length b - 8) div 4. obj_word c i) mod fletcher_mod = (\<Sum>i<(length b - 8) div 4. obj_word b i) mod fletcher_mod"
proof -
  have "le64_or_0 c 0 = le64_or_0 b 0"
    using assms by (simp add: le64_or_0_def le_u64_def get_slice_def)
  then have "fletcher64_check c = fletcher64_check b" using assms(1,2) by (simp add: fletcher64_valid_def)
  then show ?thesis unfolding fletcher64_check_pair assms(3) by (rule fletcher_pair_inj) (simp_all add: fletcher_mod_def)
qed

text \<open>A torn or overwritten object is noticed: when one 32-bit word of an object with a valid checksum changes,
  the object is no longer valid, with the one exception of a word that changes between 0 and \<open>0xFFFFFFFF\<close>, which the sums modulo
  \<open>2\<^sup>3\<^sup>2 - 1\<close> do not tell apart.\<close>

theorem fletcher_detects:
  assumes "fletcher64_valid b" "length c = length b" "take 8 c = take 8 b" "i < (length b - 8) div 4"
    and "\<forall>j. j \<noteq> i \<longrightarrow> obj_word c j = obj_word b j" "obj_word c i \<noteq> obj_word b i" "{obj_word b i, obj_word c i} \<noteq> {0, 0xFFFFFFFF}"
  shows "\<not> fletcher64_valid c"
proof
  assume "fletcher64_valid c"
  note sums = valid_sum [OF assms(1) this assms(2,3)]
  let ?n = "(length b - 8) div 4" and ?M = fletcher_mod
  have split: "(\<Sum>j<?n. obj_word x j) = obj_word x i + (\<Sum>j \<in> {..<?n} - {i}. obj_word x j)" for x
    using assms(4) by (intro sum.remove) simp_all
  have rest: "(\<Sum>j \<in> {..<?n} - {i}. obj_word c j) = (\<Sum>j \<in> {..<?n} - {i}. obj_word b j)"
    by (rule sum.cong) (use assms(5) in auto)
  have "(obj_word c i + (\<Sum>j \<in> {..<?n} - {i}. obj_word b j)) mod ?M = (obj_word b i + (\<Sum>j \<in> {..<?n} - {i}. obj_word b j)) mod ?M"
    using sums by (simp only: split rest)
  then have "obj_word c i mod ?M = obj_word b i mod ?M" by (rule mod_cancel)
  then show False using obj_word_bound [of c i] obj_word_bound [of b i] assms(6,7)
    by (cases "obj_word c i = ?M"; cases "obj_word b i = ?M") (auto simp: fletcher_mod_def)
qed

section \<open>Trees\<close>

text \<open>A tree on the medium: where each node was fetched from, the node, its children in the order of its records.\<close>

datatype btree = BTree (bt_ptr: nat) (bt_node: bnode) (bt_sub: "btree list")

fun bt_count :: "btree \<Rightarrow> nat" where
  "bt_count (BTree p n ts) = Suc (sum_list (map bt_count ts))"

fun bt_ptrs :: "btree \<Rightarrow> nat list" where
  "bt_ptrs (BTree p n ts) = p # concat (map bt_ptrs ts)"

definition bt_below :: "btree \<Rightarrow> nat list" where
  "bt_below t = concat (map bt_ptrs (bt_sub t))"

definition child_ptr :: "nat \<Rightarrow> bnode \<Rightarrow> nat \<Rightarrow> nat option" where
  "child_ptr fk n i = map_option (\<lambda>(k, v). le64_or_0 v 0) (node_record n i fk 8)"

definition leaf_records :: "nat \<Rightarrow> nat \<Rightarrow> bnode \<Rightarrow> (bytes \<times> bytes) list" where
  "leaf_records fk fv n = List.map_filter (\<lambda>i. node_record n i fk fv) [0..<node_nkeys n]"

text \<open>The records of the leaves in the order of the walk, which takes the last child first.\<close>

fun bt_records :: "nat \<Rightarrow> nat \<Rightarrow> btree \<Rightarrow> (bytes \<times> bytes) list" where
  "bt_records fk fv (BTree p n ts) = (if node_is_leaf n then leaf_records fk fv n else concat (map (bt_records fk fv) (rev ts)))"

fun bt_ok :: "(nat \<Rightarrow> bytes option) \<Rightarrow> nat \<Rightarrow> btree \<Rightarrow> bool" where
  "bt_ok fetch fk (BTree p n ts) \<longleftrightarrow>
     (if node_is_leaf n then ts = []
      else map (child_ptr fk n) [0..<node_nkeys n] = map (\<lambda>t. Some (bt_ptr t)) ts \<and>
        list_all (\<lambda>t. Option.bind (fetch (bt_ptr t)) parse_node = Some (bt_node t) \<and> bn_level (bt_node t) < bn_level n \<and> bt_ok fetch fk t) ts)"

lemma bt_count_pos [simp]: "bt_count t \<noteq> 0"
  by (cases t) simp

lemma bt_ptrs_below: "bt_ptrs t = bt_ptr t # bt_below t"
  by (cases t) (simp add: bt_below_def)

lemma fold_leaf: "fold (visit_record visit n fk fv) is s = fold (\<lambda>(k, v). visit k v) (List.map_filter (\<lambda>i. node_record n i fk fv) is) s"
  by (induction "is" arbitrary: s) (auto simp: visit_record_def map_filter_simps split: option.split)

lemma push_children:
  "map (child_ptr fk n) is = map (\<lambda>t. Some (bt_ptr t)) ts \<Longrightarrow>
    list_all (\<lambda>t. Option.bind (fetch (bt_ptr t)) parse_node = Some (bt_node t) \<and> bn_level (bt_node t) < bn_level n) ts \<Longrightarrow>
    distinct (map bt_ptr ts) \<Longrightarrow> set (map bt_ptr ts) \<inter> seen = {} \<Longrightarrow>
    fold (push_child fetch n fk) is (seen, stack) = (set (map bt_ptr ts) \<union> seen, rev (map bt_node ts) @ stack)"
proof (induction ts arbitrary: "is" seen stack)
  case (Cons t ts)
  then obtain i js where i: "is = i # js" "child_ptr fk n i = Some (bt_ptr t)" "map (child_ptr fk n) js = map (\<lambda>t. Some (bt_ptr t)) ts"
    by (cases "is") auto
  have "push_child fetch n fk i (seen, stack) = (insert (bt_ptr t) seen, bt_node t # stack)"
    using i(2) Cons.prems(2,4) by (auto simp: push_child_def child_ptr_def Let_def split: option.splits bind_splits)
  then show ?case using Cons.IH [OF i(3), of "insert (bt_ptr t) seen" "bt_node t # stack"] Cons.prems i(1) by auto
qed simp

lemma walk_leaves_trees:
  assumes "list_all (bt_ok fetch fk) ts" "distinct (concat (map bt_below ts))" "set (concat (map bt_below ts)) \<inter> seen = {}"
    and "sum_list (map bt_count ts) \<le> budget"
  shows "walk_leaves fetch fk fv visit (map bt_node ts) seen budget s =
    (budget - sum_list (map bt_count ts), fold (\<lambda>(k, v). visit k v) (concat (map (bt_records fk fv) ts)) s)"
  using assms
proof (induction budget arbitrary: ts seen s)
  case 0
  then show ?case by (cases ts) (simp_all add: walk_leaves.simps)
next
  case (Suc budget)
  show ?case
  proof (cases ts)
    case Nil
    then show ?thesis by (simp add: walk_leaves.simps)
  next
    case (Cons t rest)
    obtain p n cs where t: "t = BTree p n cs" by (cases t)
    show ?thesis
    proof (cases "node_is_leaf n")
      case True
      then have "cs = []" using Suc.prems(1) Cons t by simp
      then show ?thesis
        using Suc.IH [of rest seen "fold (\<lambda>(k, v). visit k v) (leaf_records fk fv n) s"] Suc.prems Cons t True
        by (simp add: walk_leaves.simps fold_leaf leaf_records_def bt_below_def)
    next
      case False
      have ok: "map (child_ptr fk n) [0..<node_nkeys n] = map (\<lambda>t. Some (bt_ptr t)) cs"
          "list_all (\<lambda>t. Option.bind (fetch (bt_ptr t)) parse_node = Some (bt_node t) \<and> bn_level (bt_node t) < bn_level n \<and> bt_ok fetch fk t) cs"
        using Suc.prems(1) Cons t False by simp_all
      have below: "bt_below t = concat (map bt_ptrs cs)" by (simp add: t bt_below_def)
      have d: "distinct (map bt_ptr cs) \<and> distinct (concat (map bt_below cs)) \<and> set (map bt_ptr cs) \<inter> set (concat (map bt_below cs)) = {}"
        if "distinct (concat (map bt_ptrs cs))" for cs
        using that by (induction cs) (auto simp: bt_ptrs_below)
      have set_cs: "set (concat (map bt_ptrs cs)) = set (map bt_ptr cs) \<union> set (concat (map bt_below cs))"
        by (auto simp: bt_ptrs_below)
      have dist: "distinct (concat (map bt_ptrs cs))" "distinct (concat (map bt_below rest))"
          "set (concat (map bt_ptrs cs)) \<inter> set (concat (map bt_below rest)) = {}"
        using Suc.prems(2) Cons below by simp_all
      note dcs = d [OF dist(1)]
      let ?stack = "rev cs @ rest"
      have push: "fold (push_child fetch n fk) [0..<node_nkeys n] (seen, map bt_node rest) =
          (set (map bt_ptr cs) \<union> seen, map bt_node ?stack)"
        using push_children [OF ok(1), of fetch seen "map bt_node rest"] ok(2) dcs Suc.prems(3) Cons below set_cs
        by (auto simp: list_all_iff rev_map)
      have "walk_leaves fetch fk fv visit (map bt_node ?stack) (set (map bt_ptr cs) \<union> seen) budget s =
          (budget - sum_list (map bt_count ?stack), fold (\<lambda>(k, v). visit k v) (concat (map (bt_records fk fv) ?stack)) s)"
      proof (rule Suc.IH)
        show "list_all (bt_ok fetch fk) ?stack" using ok(2) Suc.prems(1) Cons by (auto simp: list_all_iff)
        have rv: "distinct (concat (map bt_below (rev cs))) = distinct (concat (map bt_below cs))"
          by (induction cs) auto
        show "distinct (concat (map bt_below ?stack))"
          using dcs dist set_cs rv by auto
        show "set (concat (map bt_below ?stack)) \<inter> (set (map bt_ptr cs) \<union> seen) = {}"
          using dcs dist(3) set_cs Suc.prems(3) Cons below by auto
        show "sum_list (map bt_count ?stack) \<le> budget"
          using Suc.prems(4) Cons t by (simp add: rev_map [symmetric])
      qed
      then show ?thesis using Cons t False push by (simp add: walk_leaves.simps rev_map [symmetric])
    qed
  qed
qed

lemma budgeted_walk_tree:
  assumes "bt_ok fetch fk t" "distinct (bt_below t)" "bt_count t \<le> min work node_budget"
  shows "budgeted_walk fetch fk fv visit (bt_node t) work s = (work - bt_count t, fold (\<lambda>(k, v). visit k v) (bt_records fk fv t) s)"
proof -
  have "work \<noteq> 0" using assms(3) bt_count_pos [of t] by linarith
  moreover have "walk_leaves fetch fk fv visit [bt_node t] {} (min work node_budget) s =
      (min work node_budget - bt_count t, fold (\<lambda>(k, v). visit k v) (bt_records fk fv t) s)"
    using walk_leaves_trees [of fetch fk "[t]" "{}" "min work node_budget" fv visit s] assms by simp
  moreover have "work - (min work node_budget - (min work node_budget - bt_count t)) = work - bt_count t" using assms(3) by simp
  ultimately show ?thesis by (simp add: budgeted_walk_def Let_def)
qed

section \<open>Object maps\<close>

definition omap_key :: "bytes \<times> bytes \<Rightarrow> nat \<times> nat" where
  "omap_key r = (le64_or_0 (fst r) 0, le64_or_0 (fst r) 8)"

text \<open>The newest mapping of an object that is not newer than \<open>at_xid\<close>.\<close>

definition newest_mapping :: "(bytes \<times> bytes) list \<Rightarrow> nat \<Rightarrow> nat \<Rightarrow> nat \<Rightarrow> nat \<Rightarrow> bool" where
  "newest_mapping recs at_xid oid x p \<longleftrightarrow>
     (\<exists>r \<in> set recs. omap_key r = (oid, x) \<and> x \<le> at_xid \<and> le64_or_0 (snd r) 8 = p) \<and>
     (\<forall>r \<in> set recs. fst (omap_key r) = oid \<longrightarrow> snd (omap_key r) \<le> at_xid \<longrightarrow> snd (omap_key r) \<le> x)"

definition omap_of :: "nat \<Rightarrow> (bytes \<times> bytes) list \<Rightarrow> nat \<Rightarrow> (nat \<times> nat) option" where
  "omap_of at_xid recs = fold (\<lambda>(k, v). omap_visit at_xid k v) recs Map.empty"

lemma omap_fold:
  "case omap_of at_xid recs oid of
      None \<Rightarrow> \<forall>r \<in> set recs. fst (omap_key r) = oid \<longrightarrow> at_xid < snd (omap_key r)
    | Some (x, p) \<Rightarrow> newest_mapping recs at_xid oid x p"
proof (induction recs rule: rev_induct)
  case (snoc r recs)
  obtain k v where r: "r = (k, v)" by (cases r)
  let ?i = "le64_or_0 k 0" and ?x = "le64_or_0 k 8"
  have step: "omap_of at_xid (recs @ [r]) = omap_visit at_xid k v (omap_of at_xid recs)" by (simp add: omap_of_def r)
  have key: "omap_key r = (?i, ?x)" by (simp add: omap_key_def r)
  show ?case
  proof (cases "?i = oid \<and> ?x \<le> at_xid")
    case False
    then have "omap_of at_xid (recs @ [r]) oid = omap_of at_xid recs oid" by (auto simp: step omap_visit_def Let_def)
    then show ?thesis using snoc False key by (auto simp: newest_mapping_def split: option.splits)
  next
    case True
    show ?thesis
    proof (cases "omap_of at_xid recs oid")
      case None
      then have "omap_of at_xid (recs @ [r]) oid = Some (?x, le64_or_0 v 8)" using True by (simp add: step omap_visit_def unwrap_or_def)
      then show ?thesis using snoc None True key by (fastforce simp: newest_mapping_def r)
    next
      case (Some e)
      obtain x p where e: "e = (x, p)" by (cases e)
      have old: "newest_mapping recs at_xid oid x p" using snoc Some e by simp
      have "omap_of at_xid (recs @ [r]) oid = Some (if x \<le> ?x then (?x, le64_or_0 v 8) else (x, p))"
        using True Some e by (simp add: step omap_visit_def unwrap_or_def)
      then show ?thesis using old True key by (fastforce simp: newest_mapping_def r)
    qed
  qed
qed (simp add: omap_of_def)

text \<open>C22: Over an intact object map of any shape - a root that parses, below it only nodes with a valid checksum and falling levels, none
  reached twice, no more nodes than 64000 and the rest of the budget, no object mapped twice at one transaction - the index answers for an
  object and a checkpoint exactly the address of its newest mapping that is not newer than the checkpoint, and the budget has paid for each
  node once.\<close>

theorem apfs_omap_exact:
  assumes "le64_or_0 (apfs_block a omap_oid) 48 = tree_oid" "tree_oid \<noteq> 0" "parse_node (apfs_block a tree_oid) = Some (bt_node t)"
    and "bt_ok (verified_block a) 16 t" "distinct (bt_below t)" "bt_count t \<le> min work node_budget"
    and "distinct (map omap_key (bt_records 16 16 t))"
  shows "fst (omap_index a omap_oid at_xid work) = work - bt_count t \<and>
    (snd (omap_index a omap_oid at_xid work) oid = Some p \<longleftrightarrow> (\<exists>x. newest_mapping (bt_records 16 16 t) at_xid oid x p))"
proof -
  define recs where "recs = bt_records 16 16 t"
  have run: "omap_index a omap_oid at_xid work = (work - bt_count t, \<lambda>i. map_option snd (omap_of at_xid recs i))"
    using assms(1-3) by (simp add: omap_index_def Let_def budgeted_walk_tree [OF assms(4-6)] recs_def omap_of_def)
  note fact = omap_fold [where recs = recs and at_xid = at_xid and oid = oid]
  have inj: "inj_on omap_key (set recs)" using assms(7) by (simp add: distinct_map recs_def)
  have unique: "p = q" if u: "newest_mapping recs at_xid oid x p" "newest_mapping recs at_xid oid y q" for x y p q
  proof -
    obtain r s where rs: "r \<in> set recs" "s \<in> set recs" "omap_key r = (oid, x)" "omap_key s = (oid, y)"
        "le64_or_0 (snd r) 8 = p" "le64_or_0 (snd s) 8 = q" "x \<le> at_xid" "y \<le> at_xid"
      using u unfolding newest_mapping_def by blast
    have "x \<le> y" "y \<le> x" using u rs unfolding newest_mapping_def by force+
    then show ?thesis using inj_onD [OF inj, of r s] rs by simp
  qed
  have "map_option snd (omap_of at_xid recs oid) = Some p \<longleftrightarrow> (\<exists>x. newest_mapping recs at_xid oid x p)"
  proof (cases "omap_of at_xid recs oid")
    case None
    then show ?thesis using fact by (fastforce simp: newest_mapping_def)
  next
    case (Some e)
    then show ?thesis using fact unique by (cases e) auto
  qed
  then show ?thesis by (simp add: run recs_def)
qed

section \<open>Files\<close>

lemma put_logical_set: "set (put_logical e l) \<subseteq> insert e (set l) \<and> fe_logical ` set (put_logical e l) = insert (fe_logical e) (fe_logical ` set l)"
  by (induction l) auto

lemma put_logical_sorted: "sorted_wrt (<) (map fe_logical l) \<Longrightarrow> sorted_wrt (<) (map fe_logical (put_logical e l))"
proof (induction l)
  case (Cons f l)
  then show ?case using put_logical_set [of e l] by (force simp: image_iff)
qed simp

lemma fold_put_logical:
  "sorted_wrt (<) (map fe_logical (fold put_logical xs [])) \<and> set (fold put_logical xs []) \<subseteq> set xs \<and>
    fe_logical ` set (fold put_logical xs []) = fe_logical ` set xs"
proof (induction xs rule: rev_induct)
  case (snoc x xs)
  then show ?case using put_logical_set [of x "fold put_logical xs []"] put_logical_sorted [of "fold put_logical xs []" x] by auto
qed simp

text \<open>The runs of a file without holes, from a logical address on.\<close>

fun runs_from :: "nat \<Rightarrow> file_extent list \<Rightarrow> bool" where
  "runs_from p [] \<longleftrightarrow> True"
| "runs_from p (e # es) \<longleftrightarrow> fe_logical e = p \<and> fe_phys e \<noteq> 0 \<and> 0 < fe_len e \<and> runs_from (p + fe_len e) es"

lemma runs_from_bound: "runs_from p es \<Longrightarrow> e \<in> set es \<Longrightarrow> p \<le> fe_logical e \<and> fe_phys e \<noteq> 0 \<and> 0 < fe_len e"
  by (induction p es rule: runs_from.induct) force+

lemma runs_from_sorted: "runs_from p es \<Longrightarrow> sorted_wrt (<) (map fe_logical es)"
  by (induction p es rule: runs_from.induct) (force dest: runs_from_bound)+

lemma runs_found:
  assumes "runs_from p ls" "set exts = set ls"
  shows "fold put_logical exts [] = ls"
proof -
  let ?r = "fold put_logical exts []"
  have s: "sorted_wrt (<) (map fe_logical ls)" "sorted_wrt (<) (map fe_logical ?r)"
    using runs_from_sorted [OF assms(1)] fold_put_logical by blast+
  have "map fe_logical ?r = map fe_logical ls"
    by (rule strict_sorted_equal [OF s]) (use fold_put_logical [of exts] assms(2) in simp)
  moreover have "inj_on fe_logical (set ?r \<union> set ls)"
  proof -
    have "set ?r \<union> set ls = set ls" using fold_put_logical [of exts] assms(2) by auto
    then show ?thesis using s(1) by (simp add: strict_sorted_iff distinct_map)
  qed
  ultimately show ?thesis by (rule map_inj_on)
qed

lemma trim_bytes: "acc \<le> len \<Longrightarrow> len \<le> u64_max \<Longrightarrow> xbytes md (trim_extents_loop len acc es) = take (len - acc) (xbytes md es)"
proof (induction len acc es rule: trim_extents_loop.induct)
  case (2 len acc e es)
  show ?case
  proof (cases "len - acc < ex_len e")
    case True
    then have "sat_add64 acc (len - acc) = len" using 2 by (simp add: sat_add64_def)
    moreover have "trim_extents_loop len len es = []" by (cases es) simp_all
    ultimately show ?thesis using True 2 by (simp add: take_medium)
  next
    case False
    then show ?thesis using 2 by (auto simp: sat_add64_def Let_def)
  qed
qed simp

text \<open>C12: The extent records of a file may be found in any order and, over the copies of a node that copy-on-write leaves behind, any
  number of times: the extents of its entry hold the bytes of its runs in the order of the file, cut to its size. The file has an inode with
  a size that is not zero, its runs follow each other from its first byte without a hole, and their addresses on the medium fit 64 bits.\<close>

theorem apfs_file_exact:
  assumes "build_entry a d vc es st conf = Some e" "vc_inodes vc (dr_file_id d) = Some ino" "ai_size ino = Some len" "len \<noteq> 0" "len \<le> u64_max"
    and "map_of (vc_extents vc) (dr_file_id d) = Some exts" "set exts = set ls" "runs_from 0 ls"
    and "list_all (\<lambda>x. fe_phys x * ap_block_size a \<le> u64_max) ls"
  shows "en_size e = len \<and>
    xbytes md (en_extents e) = take len (concat (map (\<lambda>x. medium_bytes md (fe_phys x * ap_block_size a) (fe_len x)) ls))"
proof -
  have "filter (\<lambda>x. \<not> (fe_phys x = 0 \<or> fe_len x = 0)) ls = ls"
    using runs_from_bound [OF assms(8)] by (auto simp: filter_id_conv)
  then have "data_extents a exts = map (\<lambda>x. \<lparr>ex_off = fe_phys x * ap_block_size a, ex_len = fe_len x\<rparr>) ls"
    using assms(9) by (auto simp: data_extents_def runs_found [OF assms(8,7)] sat_mul64_def list_all_iff)
  then have "xbytes md (data_extents a exts) = concat (map (\<lambda>x. medium_bytes md (fe_phys x * ap_block_size a) (fe_len x)) ls)"
    by (simp add: xbytes_def o_def)
  then show ?thesis
    using assms(1-6) trim_bytes [of 0 len md "data_extents a exts"]
    by (auto simp: build_entry_def new_file_def unwrap_or_def trim_extents_to_def Let_def split: if_splits)
qed

section \<open>Live blocks\<close>

lemma set_block_bits:
  "i div 8 < length packed \<Longrightarrow>
    length (fold set_block_bit bs packed) = length packed \<and>
    (bit (fold set_block_bit bs packed ! (i div 8)) (i mod 8) \<longleftrightarrow> bit (packed ! (i div 8)) (i mod 8) \<or> i \<in> set bs)"
proof (induction bs arbitrary: packed)
  case (Cons b bs)
  have "bit (set_block_bit b packed ! (i div 8)) (i mod 8) \<longleftrightarrow> bit (packed ! (i div 8)) (i mod 8) \<or> i = b"
  proof (cases "b div 8 = i div 8")
    case True
    have "i mod 8 = b mod 8 \<longleftrightarrow> i = b" using True div_mult_mod_eq [of i 8] div_mult_mod_eq [of b 8] by metis
    then show ?thesis using True Cons.prems by (auto simp: set_block_bit_def bit_or_iff bit_exp_iff)
  qed (auto simp: set_block_bit_def)
  moreover have "length (set_block_bit b packed) = length packed" by (simp add: set_block_bit_def)
  ultimately show ?case using Cons by simp
qed simp

text \<open>The blocks of an extent that are marked: the whole extent up to \<open>2\<^sup>2\<^sup>0\<close> blocks.\<close>

definition marked_by :: "apfs \<Rightarrow> nat \<Rightarrow> file_extent \<Rightarrow> bool" where
  "marked_by a i e \<longleftrightarrow> fe_phys e \<noteq> 0 \<and> fe_len e \<noteq> 0 \<and> fe_phys e \<le> i \<and>
     i < sat_add64 (fe_phys e) (min (div_ceil (fe_len e) (max (ap_block_size a) 1)) (2 ^ 20))"

lemma mark_extents:
  "i div 8 < length packed \<Longrightarrow> i < block_count \<Longrightarrow>
    length (fold (mark_extent a block_count) xs packed) = length packed \<and>
    (bit (fold (mark_extent a block_count) xs packed ! (i div 8)) (i mod 8) \<longleftrightarrow> bit (packed ! (i div 8)) (i mod 8) \<or> (\<exists>e \<in> set xs. marked_by a i e))"
proof (induction xs arbitrary: packed)
  case (Cons e xs)
  have "length (mark_extent a block_count e packed) = length packed \<and>
      (bit (mark_extent a block_count e packed ! (i div 8)) (i mod 8) \<longleftrightarrow> bit (packed ! (i div 8)) (i mod 8) \<or> marked_by a i e)"
    using Cons.prems by (auto simp: mark_extent_def marked_by_def Let_def set_block_bits)
  then show ?case using Cons by auto
qed simp

text \<open>The bitmap that steers the search for orphans marks exactly the blocks of the live extents.\<close>

lemma live_bitmap_exact:
  assumes "live_bitmap_from a cur = Some bm" "i < nx_block_count (ap_newest a)"
  shows "is_block_allocated bm i \<longleftrightarrow> (\<exists>e \<in> set (concat (map snd (vc_extents cur))). marked_by a i e)"
proof -
  let ?n = "nx_block_count (ap_newest a)"
  have bm: "bm = bitmap_new (ap_block_size a) 0 ?n (mark_live_blocks a ?n cur (zeros (div_ceil ?n 8)))"
    using assms(1) by (auto simp: live_bitmap_from_def Let_def split: if_splits)
  have k: "i div 8 < div_ceil ?n 8" by (rule div_less_div_ceil) (use assms(2) in simp_all)
  then show ?thesis
    using mark_extents [of i "zeros (div_ceil ?n 8)" ?n a "concat (map snd (vc_extents cur))"] assms(2)
    by (auto simp: bm is_block_allocated_def bitmap_new_def mark_live_blocks_def get_at_def)
qed

section \<open>The walk\<close>














section \<open>Instances\<close>

theorem fletcher_detects_witness:
  "fletcher64_valid [0xFD, 0xFF, 0xFF, 0xFF, 1, 0, 0, 0, 1, 0, 0, 0] \<and> \<not> fletcher64_valid [0xFD, 0xFF, 0xFF, 0xFF, 1, 0, 0, 0, 2, 0, 0, 0]"
proof -
  let ?b = "[0xFD, 0xFF, 0xFF, 0xFF, 1, 0, 0, 0, 1, 0, 0, 0] :: bytes" and ?c = "[0xFD, 0xFF, 0xFF, 0xFF, 1, 0, 0, 0, 2, 0, 0, 0] :: bytes"
  have words: "obj_word ?b 0 = 1" "obj_word ?c 0 = 2"
    by (simp_all add: obj_word_def le32_or_0_def le_u32_def get_slice_def unwrap_or_def)
  have "fletcher64_check ?b = push_bit 32 1 OR 0xFFFFFFFD"
    unfolding fletcher64_check_pair by (simp add: words fletcher_pair_def fletcher_mod_def)
  then have valid: "fletcher64_valid ?b"
    by (simp add: fletcher64_valid_def le64_or_0_def le_u64_def get_slice_def unwrap_or_def push_bit_eq_mult)
  have short: "obj_word ?b j = 0 \<and> obj_word ?c j = 0" if "j \<noteq> 0" for j
    using that by (simp add: obj_word_def le32_or_0_def le_u32_def get_slice_def unwrap_or_def)
  have "\<not> fletcher64_valid ?c"
    by (rule fletcher_detects [OF valid, where i = 0]) (use short words in auto)
  then show ?thesis using valid by simp
qed

text \<open>A file of two runs whose second one was found first, and twice.\<close>

definition apfs_image :: "(nat \<times> bytes) list" where
  "apfs_image = [(560, [2]), (1048, [2]), (1056, [7]), (1060, [2]), (1066, [8]),
     (1080, [0, 0, 16, 0, 16, 0, 32, 0]), (1088, [5, 0, 0, 0, 0, 0, 0, 0, 1]), (1104, [5, 0, 0, 0, 0, 0, 0, 0, 3]),
     (1472, [9]), (1488, [7]), (2048, [1, 2]), (2560, [3, 4])]"

definition apfs_sample :: apfs where
  "apfs_sample = \<lparr>ap_src = medium_source (good_medium apfs_image) 512 4096, ap_block_size = 512, ap_newest = \<lparr>nx_xid = 3, nx_block_size = 512, nx_block_count = 8, nx_omap_oid = 1,
     nx_fs_oids = [], nx_xp_desc_base = 0, nx_xp_desc_blocks = 0, nx_xp_desc_index = 0, nx_xp_desc_len = 0, nx_spaceman_oid = 0\<rparr>, ap_history = []\<rparr>"

definition apfs_sample_file :: dir_rec where
  "apfs_sample_file = \<lparr>dr_parent = 2, dr_name = ustr ''a'', dr_raw = [97], dr_file_id = 20, dr_is_dir = False, dr_date_added = 0\<rparr>"

definition apfs_sample_contents :: contents where
  "apfs_sample_contents = \<lparr>vc_inodes = [20 \<mapsto> \<lparr>ai_id = 20, ai_parent = 2, ai_name = None, ai_size = Some 3, ai_create = 0, ai_mod = 0, ai_is_dir = False\<rparr>],
     vc_drecs = [apfs_sample_file],
     vc_extents = [(20, [\<lparr>fe_id = 20, fe_logical = 2, fe_len = 2, fe_phys = 5\<rparr>, \<lparr>fe_id = 20, fe_logical = 0, fe_len = 2, fe_phys = 4\<rparr>,
       \<lparr>fe_id = 20, fe_logical = 2, fe_len = 2, fe_phys = 5\<rparr>])]\<rparr>"

theorem apfs_file_exact_witness:
  "\<exists>e. build_entry apfs_sample apfs_sample_file apfs_sample_contents (edges apfs_sample_contents) Live 95 = Some e \<and>
    xbytes (good_medium apfs_image) (en_extents e) = [1, 2, 3]"
proof -
  let ?b = "build_entry apfs_sample apfs_sample_file apfs_sample_contents (edges apfs_sample_contents) Live 95"
  obtain e where e: "?b = Some e" by (simp add: build_entry_def apfs_sample_file_def Let_def)
  let ?ls = "[\<lparr>fe_id = 20, fe_logical = 0, fe_len = 2, fe_phys = 4\<rparr>, \<lparr>fe_id = 20, fe_logical = 2, fe_len = 2, fe_phys = 5\<rparr>]"
  have "xbytes (good_medium apfs_image) (en_extents e) =
      take 3 (concat (map (\<lambda>x. medium_bytes (good_medium apfs_image) (fe_phys x * ap_block_size apfs_sample) (fe_len x)) ?ls))"
    by (rule conjunct2 [OF apfs_file_exact [OF e]]) (auto simp: apfs_sample_contents_def apfs_sample_file_def apfs_sample_def)
  then show ?thesis using e by (simp add: apfs_sample_def medium_simps medium_bytes_small apfs_image_def)
qed

text \<open>An object map of one leaf with two mappings of object 5.\<close>

lemma apfs_sample_block:
  assumes "p < 8"
  shows "apfs_block apfs_sample p = medium_bytes (good_medium apfs_image) (p * 512) 512"
proof -
  have "fs_read (medium_source (good_medium apfs_image) 512 4096) (p * 512) 512 = medium_bytes (good_medium apfs_image) (p * 512) 512"
    by (rule fs_read_inside [OF fixture_presents]) (use assms in simp_all)
  then show ?thesis using assms by (simp add: apfs_block_def apfs_sample_def sat_mul64_def)
qed

definition apfs_sample_node :: bnode where
  "apfs_sample_node = \<lparr>bn_block = medium_bytes (good_medium apfs_image) 1024 512, bn_flags = 7, bn_level = 0, bn_nkeys = 2, bn_table_off = 0,
     bn_table_len = 8, bn_is_root = True, bn_fixed = True\<rparr>"

lemmas apfs_fixture = medium_simps medium_bytes_small le16_or_0_def le32_or_0_def le64_or_0_def unwrap_or_def apfs_image_def

lemma apfs_sample_parses:
  "parse_node (apfs_block apfs_sample 2) = Some apfs_sample_node" "le64_or_0 (apfs_block apfs_sample 1) 48 = 2"
  by (simp_all add: apfs_sample_block parse_node_def parse_obj_def obj_kind_def apfs_sample_node_def apfs_fixture)

lemma apfs_sample_records:
  "leaf_records 16 16 apfs_sample_node = [(medium_bytes (good_medium apfs_image) 1088 16, medium_bytes (good_medium apfs_image) 1480 16),
     (medium_bytes (good_medium apfs_image) 1104 16, medium_bytes (good_medium apfs_image) 1464 16)]"
  by (simp add: leaf_records_def node_nkeys_def apfs_sample_node_def node_record_def toc_entry_def key_area_def val_base_def node_is_leaf_def
      map_filter_simps upt_rec apfs_fixture)

theorem apfs_omap_exact_witness:
  "snd (omap_index apfs_sample 1 2 100) 5 = Some 7 \<and> snd (omap_index apfs_sample 1 3 100) 5 = Some 9"
proof -
  let ?t = "BTree 0 apfs_sample_node []"
  have leaf: "node_is_leaf apfs_sample_node" by (simp add: node_is_leaf_def apfs_sample_node_def)
  have rest: "bt_ok (verified_block apfs_sample) 16 ?t" "distinct (bt_below ?t)" "bt_count ?t \<le> min 100 node_budget"
    using leaf by (simp_all add: bt_below_def node_budget_def)
  have recs: "bt_records 16 16 ?t = leaf_records 16 16 apfs_sample_node" using leaf by simp
  have dist: "distinct (map omap_key (bt_records 16 16 ?t))"
    unfolding recs by (simp add: apfs_sample_records omap_key_def apfs_fixture)
  note exact = apfs_omap_exact [OF apfs_sample_parses(2) _ _ rest dist, of _ 5]
  have "newest_mapping (bt_records 16 16 ?t) 2 5 1 7" "newest_mapping (bt_records 16 16 ?t) 3 5 3 9"
    unfolding recs by (simp_all add: newest_mapping_def apfs_sample_records omap_key_def apfs_fixture)
  then show ?thesis using exact [of 2 7] exact [of 3 9] apfs_sample_parses(1) by auto
qed

end
