(* ===== verification/Iso.thy ===== *)
theory Iso
  imports FsCore
begin

text \<open>
  The ISO 9660 and Joliet engine (\<^verbatim>\<open>crates/fs-iso/src/lib.rs\<close>): volume descriptors, the detection of UDF,
  directory records and the walk.
\<close>

unbundle bit_operations_syntax

section \<open>Fields\<close>

definition iso_sector :: nat where "iso_sector = 2048"
definition iso_max_entries :: nat where "iso_max_entries = 5000000"
definition iso_max_depth :: nat where "iso_max_depth = 64"
definition iso_max_dir_bytes :: nat where "iso_max_dir_bytes = 16 * 1024 * 1024"

definition cd001 :: bytes where
  "cd001 = map of_char ''CD001''"

text \<open>Numbers are stored in both orders; the little-endian half is read.\<close>

definition both_u16 :: "bytes \<Rightarrow> nat \<Rightarrow> nat" where
  "both_u16 b off = unwrap_or (le_u16 b off) 0"

definition both_u32 :: "bytes \<Rightarrow> nat \<Rightarrow> nat" where
  "both_u32 b off = unwrap_or (le_u32 b off) 0"

definition read_strd :: "bytes \<Rightarrow> nat \<Rightarrow> nat \<Rightarrow> ustring option" where
  "read_strd b off len =
     (case get_slice b off (off + len) of
        None \<Rightarrow> None
      | Some s \<Rightarrow> let t = trim (utf8_lossy s) in if t = [] then None else Some t)"

definition root_record :: "bytes \<Rightarrow> nat \<times> nat" where
  "root_record vd = (let rec = unwrap_or (get_slice vd 156 (156 + 34)) [] in (both_u32 rec 2, both_u32 rec 10))"

definition is_joliet :: "bytes \<Rightarrow> bool" where
  "is_joliet vd =
     (let esc = unwrap_or (get_slice vd 88 (88 + 3)) [] in
      esc = map of_char ''%/@'' \<or> esc = map of_char ''%/C'' \<or> esc = map of_char ''%/E'')"

definition detect_udf :: "source \<Rightarrow> bool" where
  "detect_udf src =
     (let avdp = fs_read src (256 * iso_sector) 16 in
      unat (byte_or_0 avdp 0) + 256 * unat (byte_or_0 avdp 1) = 2 \<or>
      list_ex (\<lambda>sec. take 4 (fs_read src (sec * iso_sector + 1) 5) = map of_char ''NSR0'') [16..<20])"

section \<open>Opening\<close>

definition u32_or :: "nat \<Rightarrow> nat \<Rightarrow> nat" where
  "u32_or n d = (if n < 2 ^ 32 then n else d)"

definition iso_probe :: "source \<Rightarrow> probe option" where
  "iso_probe src =
     (let has_iso = (fs_read src (16 * iso_sector + 1) 5 = cd001);
          has_udf = detect_udf src
      in if \<not> has_iso \<and> \<not> has_udf then None
         else
           let pvd = fs_read src (16 * iso_sector) iso_sector
           in Some \<lparr>pb_fs_kind = (if has_udf \<and> \<not> has_iso then ''udf'' else if has_udf then ''iso9660+udf'' else ''iso9660''),
                pb_confidence = (if has_iso then 97 else 90),
                pb_block_size = u32_or (if has_iso then max (both_u16 pvd 128) 2048 else iso_sector) 2048,
                pb_label = (if has_iso then read_strd pvd 40 32 else None), pb_uuid = None, pb_total_bytes = s_len src\<rparr>)"

record iso =
  io_src :: source
  io_block_size :: nat
  io_root_lba :: nat
  io_root_len :: nat
  io_joliet :: bool
  io_label :: "ustring option"
  io_udf :: bool

record iso_scan =
  iv_pvd :: "(nat \<times> nat) option"
  iv_joliet :: "(nat \<times> nat) option"
  iv_block_size :: nat
  iv_label :: "ustring option"

text \<open>The volume descriptors, up to the terminator or the first sector that is none.\<close>

fun iso_descriptors :: "source \<Rightarrow> nat list \<Rightarrow> iso_scan \<Rightarrow> iso_scan" where
  "iso_descriptors src [] st = st"
| "iso_descriptors src (i # is) st =
     (let vd = fs_read src ((16 + i) * iso_sector) iso_sector in
      if get_slice vd 1 6 \<noteq> Some cd001 then st
      else if get_at vd 0 = Some 1 then
        iso_descriptors src is
          (st\<lparr>iv_block_size := max (both_u16 vd 128) 2048, iv_label := read_strd vd 40 32, iv_pvd := Some (root_record vd)\<rparr>)
      else if get_at vd 0 = Some 2 \<and> is_joliet vd then iso_descriptors src is (st\<lparr>iv_joliet := Some (root_record vd)\<rparr>)
      else if get_at vd 0 = Some 255 then st
      else iso_descriptors src is st)"

definition iso_open :: "source \<Rightarrow> fs_error + iso" where
  "iso_open src =
     (let has_iso = (fs_read src (16 * iso_sector + 1) 5 = cd001);
          udf = detect_udf src
      in if \<not> has_iso then
           (if udf then Inr \<lparr>io_src = src, io_block_size = iso_sector, io_root_lba = 0, io_root_len = 0, io_joliet = False, io_label = None, io_udf = True\<rparr>
            else Inl (NotThisFs ''no CD001 primary volume descriptor''))
         else
           let st = iso_descriptors src [0..<32] \<lparr>iv_pvd = None, iv_joliet = None, iv_block_size = iso_sector, iv_label = None\<rparr>
           in case (if iv_joliet st \<noteq> None then iv_joliet st else iv_pvd st) of
                None \<Rightarrow> Inl (Corrupt ''iso: no root directory record'')
              | Some (lba, len) \<Rightarrow>
                  if lba = 0 then Inl (Corrupt ''iso: zero root extent'')
                  else Inr \<lparr>io_src = src, io_block_size = iv_block_size st, io_root_lba = lba, io_root_len = len,
                         io_joliet = (iv_joliet st \<noteq> None), io_label = iv_label st, io_udf = udf\<rparr>)"

definition iso_kind :: "iso \<Rightarrow> string" where
  "iso_kind v = (if io_joliet v then ''joliet'' else if io_udf v \<and> io_root_lba v = 0 then ''udf'' else ''iso9660'')"

section \<open>Names\<close>

text \<open>The part before the first semicolon, without a final dot.\<close>

definition strip_version :: "ustring \<Rightarrow> bool \<Rightarrow> ustring" where
  "strip_version name is_dir =
     (if is_dir then name
      else
        let base = takeWhile (\<lambda>c. c \<noteq> 59) name in
        if base \<noteq> [] \<and> last base = 46 then butlast base else base)"

fun ucs2_units :: "bytes \<Rightarrow> nat list" where
  "ucs2_units (hi # lo # r) = (256 * unat hi + unat lo) # ucs2_units r"
| "ucs2_units _ = []"

definition iso_decode_name :: "iso \<Rightarrow> bytes \<Rightarrow> bool \<Rightarrow> ustring" where
  "iso_decode_name v raw is_dir =
     strip_version (if io_joliet v then utf16_lossy (ucs2_units raw) else utf8_lossy raw) is_dir"

section \<open>The walk\<close>

text \<open>The state of a directory: the directories found in it, the next identifier, the walk.\<close>

type_synonym iso_state = "(nat \<times> nat \<times> ustring) list \<times> nat \<times> walk"

definition iso_join :: "ustring \<Rightarrow> ustring \<Rightarrow> ustring" where
  "iso_join path name = (if path = [] then name else path @ [slash] @ name)"

definition iso_entry :: "iso \<Rightarrow> ustring \<Rightarrow> nat \<Rightarrow> nat \<Rightarrow> nat \<Rightarrow> bytes \<Rightarrow> entry" where
  "iso_entry v path i lba len raw =
     (let name = iso_decode_name v raw False in
      (new_file i name raw len Live)
        \<lparr>en_kind := FileEntry, en_path := Some (iso_join path name),
         en_extents := (if lba \<noteq> 0 \<and> len \<noteq> 0 then [\<lparr>ex_off = sat_mul64 lba (io_block_size v), ex_len = len\<rparr>] else []),
         en_confidence := [100]\<rparr>)"

text \<open>One directory record; \<open>None\<close> for the records of the directory itself, of its parent, and without a name.\<close>

definition iso_record :: "iso \<Rightarrow> ustring \<Rightarrow> bytes \<Rightarrow> iso_state \<Rightarrow> iso_state option" where
  "iso_record v path rec st =
     (let lba = both_u32 rec 2;
          len = both_u32 rec 10;
          is_dir = (byte_or_0 rec 25 AND 0x02 \<noteq> 0);
          name_len = unat (byte_or_0 rec 32);
          raw = unwrap_or (get_slice rec 33 (33 + name_len)) [];
          name = iso_decode_name v raw is_dir
      in if name_len = 1 \<and> (raw = [0] \<or> raw = [1]) then None
         else if name = [] then None
         else case st of
             (subdirs, i, w) \<Rightarrow>
               Some (if is_dir then (if lba \<noteq> 0 \<and> len \<noteq> 0 then subdirs @ [(lba, len, iso_join path name)] else subdirs, i + 1, w)
                     else (subdirs, i + 1, emit (iso_entry v path i lba len raw) w)))"

definition iso_full :: "walk_opts \<Rightarrow> walk \<Rightarrow> bool" where
  "iso_full opts w \<longleftrightarrow> min (wo_max opts) iso_max_entries \<le> wk_emitted w"

function iso_records :: "iso \<Rightarrow> walk_opts \<Rightarrow> ustring \<Rightarrow> bytes \<Rightarrow> nat \<Rightarrow> nat \<Rightarrow> iso_state \<Rightarrow> bool \<times> iso_state" where
  "iso_records v opts path data pos guard st =
     (if length data \<le> pos then (False, st)
      else if iso_max_entries < guard + 1 then (False, st)
      else
        let reclen = unat (byte_or_0 data pos) in
        if reclen = 0 then
          let nxt = (pos div io_block_size v + 1) * io_block_size v in
          if nxt \<le> pos then (False, st) else iso_records v opts path data nxt (guard + 1) st
        else if length data < pos + reclen then (False, st)
        else case iso_record v path (take reclen (drop pos data)) st of
            None \<Rightarrow> iso_records v opts path data (pos + reclen) (guard + 1) st
          | Some st1 \<Rightarrow>
              if iso_full opts (snd (snd st1)) then (True, st1)
              else iso_records v opts path data (pos + reclen) (guard + 1) st1)"
  by pat_completeness auto
termination
  by (relation "measure (\<lambda>(v, opts, path, data, pos, guard, st). length data - pos)") auto

declare iso_records.simps [simp del]

definition iso_dir_data :: "iso \<Rightarrow> nat \<Rightarrow> nat \<Rightarrow> bytes" where
  "iso_dir_data v lba len = fs_read (io_src v) (sat_mul64 lba (io_block_size v)) (min len iso_max_dir_bytes)"

function iso_walk_dir :: "iso \<Rightarrow> walk_opts \<Rightarrow> nat \<Rightarrow> nat \<Rightarrow> ustring \<Rightarrow> nat \<Rightarrow> nat \<times> walk \<Rightarrow> nat \<times> walk"
  and iso_walk_subdirs :: "iso \<Rightarrow> walk_opts \<Rightarrow> (nat \<times> nat \<times> ustring) list \<Rightarrow> nat \<Rightarrow> nat \<times> walk \<Rightarrow> nat \<times> walk" where
  "iso_walk_dir v opts lba len path depth (i, w) =
     (if iso_max_depth < depth \<or> iso_full opts w then (i, w)
      else if lba \<in> wk_visited w then (i, w)
      else
        (case iso_records v opts path (iso_dir_data v lba len) 0 0 ([], i, w\<lparr>wk_visited := insert lba (wk_visited w)\<rparr>) of
           (True, st) \<Rightarrow> snd st
         | (False, st) \<Rightarrow> iso_walk_subdirs v opts (fst st) (depth + 1) (snd st)))"
| "iso_walk_subdirs v opts [] depth st = st"
| "iso_walk_subdirs v opts ((lba, len, path) # r) depth st =
     iso_walk_subdirs v opts r depth (iso_walk_dir v opts lba len path depth st)"
  by pat_completeness auto
termination
  by (relation "measures
      [\<lambda>x. case x of Inl (v, opts, lba, len, path, depth, st) \<Rightarrow> 66 - depth | Inr (v, opts, ds, depth, st) \<Rightarrow> 66 - depth,
       \<lambda>x. case x of Inl _ \<Rightarrow> 0 | Inr (v, opts, ds, depth, st) \<Rightarrow> Suc (length ds)]") (auto simp: iso_max_depth_def)

declare iso_walk_dir.simps [simp del]

definition iso_walk :: "iso \<Rightarrow> walk_opts \<Rightarrow> walk" where
  "iso_walk v opts =
     (if \<not> wo_live opts \<or> io_root_lba v = 0 then walk_start
      else snd (iso_walk_dir v opts (io_root_lba v) (io_root_len v) [] 0 (1, walk_start)))"

end
