(* ===== verification/IsoTheorems.thy ===== *)
theory IsoTheorems
  imports Iso
begin

text \<open>
  The properties of the ISO 9660 engine: a directory that was written record by record is read back
  exactly, and the invariant of the walk.
\<close>

unbundle bit_operations_syntax

section \<open>A directory read back\<close>

text \<open>A directory record with its numbers in both byte orders.\<close>

record iso_item =
  it_dir :: bool
  it_lba :: nat
  it_len :: nat
  it_raw :: bytes

definition encode_item :: "iso_item \<Rightarrow> bytes" where
  "encode_item x =
     [of_nat (33 + length (it_raw x)), 0] @ le_bytes 4 (it_lba x) @ be_bytes 4 (it_lba x) @ le_bytes 4 (it_len x) @ be_bytes 4 (it_len x)
       @ zeros 7 @ [if it_dir x then 2 else 0] @ zeros 6 @ [of_nat (length (it_raw x))] @ it_raw x"

definition item_ok :: "iso \<Rightarrow> iso_item \<Rightarrow> bool" where
  "item_ok v x \<longleftrightarrow> it_lba x < 2 ^ 32 \<and> it_len x < 2 ^ 32 \<and> length (it_raw x) \<le> 222 \<and> it_raw x \<noteq> [0] \<and> it_raw x \<noteq> [1] \<and>
     iso_decode_name v (it_raw x) (it_dir x) \<noteq> []"

text \<open>What a record adds to the listing.\<close>

definition list_item :: "iso \<Rightarrow> ustring \<Rightarrow> iso_item \<Rightarrow> iso_state \<Rightarrow> iso_state" where
  "list_item v path x st =
     (case st of
        (subdirs, i, w) \<Rightarrow>
          if it_dir x then
            (if it_lba x \<noteq> 0 \<and> it_len x \<noteq> 0 then subdirs @ [(it_lba x, it_len x, iso_join path (iso_decode_name v (it_raw x) True))] else subdirs, i + 1, w)
          else (subdirs, i + 1, emit (iso_entry v path i (it_lba x) (it_len x) (it_raw x)) w))"

lemma length_encode_item [simp]: "length (encode_item x) = 33 + length (it_raw x)"
  by (simp add: encode_item_def)

lemma slice_mid: "length a = off \<Longrightarrow> length b = n \<Longrightarrow> get_slice (a @ b @ c) off (off + n) = Some b"
  by (simp add: get_slice_def)

lemma encode_item_fields:
  assumes "item_ok v x"
  shows "both_u32 (encode_item x) 2 = it_lba x" "both_u32 (encode_item x) 10 = it_len x"
    "byte_or_0 (encode_item x) 25 = (if it_dir x then 2 else 0)" "byte_or_0 (encode_item x) 32 = of_nat (length (it_raw x))"
    "get_slice (encode_item x) 33 (33 + length (it_raw x)) = Some (it_raw x)"
proof -
  let ?e = "encode_item x" and ?l = "it_lba x" and ?n = "it_len x" and ?r = "it_raw x"
  have val: "le_val (le_bytes 4 ?l) = ?l" "le_val (le_bytes 4 ?n) = ?n" using assms by (simp_all add: item_ok_def le_val_le_bytes)
  have "get_slice ?e 2 (2 + 4) = Some (le_bytes 4 ?l)" unfolding encode_item_def append_assoc by (rule slice_mid) simp_all
  then show "both_u32 ?e 2 = ?l" using val by (simp add: both_u32_def le_u32_def unwrap_or_def)
  have "?e = ([of_nat (33 + length ?r), 0] @ le_bytes 4 ?l @ be_bytes 4 ?l) @ le_bytes 4 ?n @
      (be_bytes 4 ?n @ zeros 7 @ [if it_dir x then 2 else 0] @ zeros 6 @ [of_nat (length ?r)] @ ?r)"
    by (simp add: encode_item_def)
  then have "get_slice ?e 10 (10 + 4) = Some (le_bytes 4 ?n)" by (simp only:) (rule slice_mid, simp_all)
  then show "both_u32 ?e 10 = ?n" using val by (simp add: both_u32_def le_u32_def unwrap_or_def)
  have at: "get_at (a @ b # c) off = Some b" if "length a = off" for a c :: bytes and b off using that by (auto simp: get_at_def nth_append)
  have "?e = ([of_nat (33 + length ?r), 0] @ le_bytes 4 ?l @ be_bytes 4 ?l @ le_bytes 4 ?n @ be_bytes 4 ?n @ zeros 7) @ (if it_dir x then 2 else 0) #
      (zeros 6 @ [of_nat (length ?r)] @ ?r)"
    by (simp add: encode_item_def)
  then have "get_at ?e 25 = Some (if it_dir x then 2 else 0)" by (simp only:) (rule at, simp)
  then show "byte_or_0 ?e 25 = (if it_dir x then 2 else 0)" by (simp add: byte_or_0_def unwrap_or_def)
  have e: "?e = ([of_nat (33 + length ?r), 0] @ le_bytes 4 ?l @ be_bytes 4 ?l @ le_bytes 4 ?n @ be_bytes 4 ?n @ zeros 7 @
      [if it_dir x then 2 else 0] @ zeros 6) @ of_nat (length ?r) # ?r"
    by (simp add: encode_item_def)
  then have "get_at ?e 32 = Some (of_nat (length ?r))" by (simp only:) (rule at, simp)
  then show "byte_or_0 ?e 32 = of_nat (length ?r)" by (simp add: byte_or_0_def unwrap_or_def)
  show "get_slice ?e 33 (33 + length ?r) = Some ?r" by (simp add: get_slice_def e)
qed

lemma iso_record_item:
  assumes "item_ok v x"
  shows "iso_record v path (encode_item x) st = Some (list_item v path x st)"
proof -
  have len: "unat (of_nat (length (it_raw x)) :: byte) = length (it_raw x)"
    using assms by (intro unat_of_nat_byte) (simp add: item_ok_def)
  show ?thesis
    using assms encode_item_fields [OF assms] len
    by (cases st) (auto simp: iso_record_def list_item_def Let_def item_ok_def unwrap_or_def)
qed

lemma encode_item_start:
  assumes "item_ok v x"
  shows "byte_or_0 (pre @ encode_item x @ post) (length pre) = of_nat (33 + length (it_raw x))"
    "unat (of_nat (33 + length (it_raw x)) :: byte) = 33 + length (it_raw x)"
  using assms unat_of_nat_byte [of "33 + length (it_raw x)"]
  by (simp_all add: encode_item_def byte_or_0_def unwrap_or_def get_at_def item_ok_def)

text \<open>Padding: the loop goes from block to block and ends.\<close>

lemma iso_records_padding:
  "list_all (\<lambda>b. b = 0) (drop pos data) \<Longrightarrow> 0 < io_block_size v \<Longrightarrow> iso_records v opts path data pos guard st = (False, st)"
proof (induction v opts path data pos guard st rule: iso_records.induct)
  case (1 v opts path data pos guard st)
  let ?nxt = "(pos div io_block_size v + 1) * io_block_size v"
  show ?case
  proof (cases "length data \<le> pos \<or> iso_max_entries < guard + 1")
    case True
    then show ?thesis by (subst iso_records.simps) auto
  next
    case False
    then have g: "\<not> length data \<le> pos" "\<not> iso_max_entries < guard + 1" by simp_all
    have "drop pos data = data ! pos # drop (Suc pos) data" using g(1) by (simp add: Cons_nth_drop_Suc)
    then have "data ! pos = 0" using 1(4) by simp
    then have z: "unat (byte_or_0 data pos) = 0" using g(1) by (simp add: byte_or_0_def unwrap_or_def get_at_def)
    have "pos < ?nxt" using 1(5) by (metis Suc_eq_plus1 dividend_less_div_times mult.commute add.commute mult_Suc)
    then have n: "\<not> ?nxt \<le> pos" "drop ?nxt data = drop (?nxt - pos) (drop pos data)" by simp_all
    have "set (drop ?nxt data) \<subseteq> set (drop pos data)" unfolding n(2) by (rule set_drop_subset)
    then have "list_all (\<lambda>b. b = 0) (drop ?nxt data)" using 1(4) unfolding list_all_iff by blast
    then have "iso_records v opts path data ?nxt (guard + 1) st = (False, st)" by (rule 1(1) [OF g refl z refl n(1) _ 1(5)])
    then show ?thesis unfolding iso_records.simps [of v opts path data pos guard st] Let_def if_not_P [OF g(1)] if_not_P [OF g(2)] if_P [OF z] if_not_P [OF n(1)] .
  qed
qed

lemma iso_records_items:
  "\<forall>x \<in> set xs. item_ok v x \<Longrightarrow> data = pre @ concat (map encode_item xs) @ zeros k \<Longrightarrow> 0 < io_block_size v \<Longrightarrow>
    guard + length xs \<le> iso_max_entries \<Longrightarrow> wk_emitted (snd (snd st)) + length xs < min (wo_max opts) iso_max_entries \<Longrightarrow>
    iso_records v opts path data (length pre) guard st = (False, fold (list_item v path) xs st)"
proof (induction xs arbitrary: pre guard st)
  case Nil
  then show ?case using iso_records_padding [of "length pre" data v opts path guard st] by (simp add: list_all_iff)
next
  case (Cons x xs)
  have ok: "item_ok v x" using Cons.prems(1) by simp
  let ?post = "concat (map encode_item xs) @ zeros k"
  have data: "data = pre @ encode_item x @ ?post" using Cons.prems(2) by simp
  let ?st = "list_item v path x st"
  have g: "\<not> length data \<le> length pre" "\<not> iso_max_entries < guard + 1" using data Cons.prems(4) by simp_all
  have r: "unat (byte_or_0 data (length pre)) = 33 + length (it_raw x)" using encode_item_start(1) [OF ok, of pre ?post] encode_item_start(2) [OF ok] data by simp
  have c: "unat (byte_or_0 data (length pre)) \<noteq> 0" "\<not> length data < length pre + unat (byte_or_0 data (length pre))"
    using r data by simp_all
  have "take (unat (byte_or_0 data (length pre))) (drop (length pre) data) = encode_item x" using r data by simp
  then have rec: "iso_record v path (take (unat (byte_or_0 data (length pre))) (drop (length pre) data)) st = Some ?st"
    using iso_record_item [OF ok] by simp
  have em: "wk_emitted (snd (snd ?st)) \<le> wk_emitted (snd (snd st)) + 1" by (cases st) (simp add: list_item_def)
  then have full: "\<not> iso_full opts (snd (snd ?st))" using Cons.prems(5) unfolding iso_full_def by (simp only: not_le length_Cons)
  have "iso_records v opts path data (length pre) guard st = iso_records v opts path data (length pre + unat (byte_or_0 data (length pre))) (guard + 1) ?st"
    unfolding iso_records.simps [of v opts path data "length pre" guard st] Let_def if_not_P [OF g(1)] if_not_P [OF g(2)] if_not_P [OF c(1)] if_not_P [OF c(2)]
      rec option.case if_not_P [OF full] by (rule refl)
  also have "\<dots> = (False, fold (list_item v path) xs ?st)"
    using Cons.IH [of "pre @ encode_item x" "guard + 1" ?st] Cons.prems em r data by simp
  finally show ?case by simp
qed

text \<open>A directory written record by record and padded is listed exactly: every file is reported with its
  name, path and extent, in order and numbered in order, and every directory with contents is entered
  with its place and its length.\<close>

theorem iso_directory_exact:
  assumes "\<forall>x \<in> set xs. item_ok v x" "0 < io_block_size v" "length xs < min (wo_max opts) iso_max_entries" "wk_emitted w = 0"
  shows "iso_records v opts path (concat (map encode_item xs) @ zeros k) 0 0 ([], i, w) = (False, fold (list_item v path) xs ([], i, w))"
  using iso_records_items [where pre = "[]" and guard = 0 and st = "([], i, w)" and k = k, OF assms(1) refl assms(2)] assms(3,4) by simp

section \<open>The walk\<close>

definition iso_entry_ok :: "iso \<Rightarrow> entry \<Rightarrow> bool" where
  "iso_entry_ok v e \<longleftrightarrow> en_state e = Live \<and> en_kind e = FileEntry \<and> en_name e \<noteq> [] \<and> (\<exists>path. en_path e = Some (iso_join path (en_name e))) \<and>
     (en_extents e = [] \<or> (\<exists>lba. lba \<noteq> 0 \<and> en_size e \<noteq> 0 \<and> en_extents e = [\<lparr>ex_off = sat_mul64 lba (io_block_size v), ex_len = en_size e\<rparr>]))"

definition iso_ok :: "iso \<Rightarrow> walk_opts \<Rightarrow> nat \<times> walk \<Rightarrow> bool" where
  "iso_ok v opts iw \<longleftrightarrow> walk_ok (snd iw) \<and> wk_emitted (snd iw) \<le> min (wo_max opts) iso_max_entries \<and>
     (\<forall>e \<in> set (wk_out (snd iw)). iso_entry_ok v e \<and> en_id e < fst iw) \<and> sorted_wrt (<) (map en_id (wk_out (snd iw)))"

lemma iso_record_ok:
  assumes "iso_ok v opts (snd st)" "\<not> iso_full opts (snd (snd st))" "iso_record v path rec st = Some st1"
  shows "iso_ok v opts (snd st1)"
proof -
  obtain subdirs i w where st: "st = (subdirs, i, w)" by (cases st)
  let ?lba = "both_u32 rec 2" and ?len = "both_u32 rec 10" and ?raw = "unwrap_or (get_slice rec 33 (33 + unat (byte_or_0 rec 32))) []"
  consider (dir) "snd st1 = (i + 1, w)"
    | (entry) "snd st1 = (i + 1, emit (iso_entry v path i ?lba ?len ?raw) w)" "iso_decode_name v ?raw False \<noteq> []"
    using assms(3) by (auto simp: st iso_record_def Let_def split: if_splits)
  then show ?thesis
  proof cases
    case dir
    then show ?thesis using assms(1) by (auto simp: iso_ok_def st less_Suc_eq)
  next
    case entry
    have "iso_entry_ok v (iso_entry v path i ?lba ?len ?raw)"
      using entry(2) by (auto simp: iso_entry_ok_def iso_entry_def Let_def new_file_def)
    moreover have "en_id (iso_entry v path i ?lba ?len ?raw) = i" by (simp add: iso_entry_def Let_def new_file_def)
    ultimately show ?thesis
      using assms(1,2) unfolding entry(1) by (auto simp: iso_ok_def st iso_full_def sorted_wrt_append less_Suc_eq)
  qed
qed

lemma iso_records_ok:
  "iso_ok v opts (snd st) \<Longrightarrow> \<not> iso_full opts (snd (snd st)) \<Longrightarrow> iso_ok v opts (snd (snd (iso_records v opts path data pos guard st)))"
proof (induction v opts path data pos guard st rule: iso_records.induct)
  case (1 v opts path data pos guard st)
  let ?n = "unat (byte_or_0 data pos)" and ?nxt = "(pos div io_block_size v + 1) * io_block_size v"
  let ?rec = "take ?n (drop pos data)"
  show ?case
  proof (cases "length data \<le> pos \<or> iso_max_entries < guard + 1")
    case True
    then show ?thesis using 1(4) by (subst iso_records.simps) auto
  next
    case False
    then have g: "\<not> length data \<le> pos" "\<not> iso_max_entries < guard + 1" by simp_all
    note run = iso_records.simps [of v opts path data pos guard st, unfolded Let_def if_not_P [OF g(1)] if_not_P [OF g(2)]]
    consider (pad) "?n = 0" | (cut) "?n \<noteq> 0" "length data < pos + ?n" | (rec) "?n \<noteq> 0" "\<not> length data < pos + ?n" by blast
    then show ?thesis
    proof cases
      case pad
      then show ?thesis using 1(1) [OF g refl pad refl _ 1(4,5)] 1(4) unfolding run by simp
    next
      case cut
      then show ?thesis using 1(4) unfolding run by simp
    next
      case rec
      note run2 = run [unfolded if_not_P [OF rec(1)] if_not_P [OF rec(2)]]
      show ?thesis
      proof (cases "iso_record v path ?rec st")
        case None
        then show ?thesis using 1(2) [OF g refl rec None 1(4,5)] unfolding run2 by simp
      next
        case (Some st1)
        have ok: "iso_ok v opts (snd st1)" by (rule iso_record_ok [OF 1(4,5) Some])
        then show ?thesis using 1(3) [OF g refl rec Some _ ok] Some unfolding run2 by simp
      qed
    qed
  qed
qed

lemma iso_walk_ok:
  "iso_ok v opts iw \<Longrightarrow> iso_ok v opts (iso_walk_dir v opts lba len path depth iw)"
  "iso_ok v opts st \<Longrightarrow> iso_ok v opts (iso_walk_subdirs v opts ds depth st)"
proof (induction v opts lba len path depth iw and v opts ds depth st rule: iso_walk_dir_iso_walk_subdirs.induct)
  case (1 v opts lba len path depth i w)
  let ?w = "w\<lparr>wk_visited := insert lba (wk_visited w)\<rparr>"
  show ?case
  proof (cases "iso_max_depth < depth \<or> iso_full opts w \<or> lba \<in> wk_visited w")
    case True
    then show ?thesis using 1(2) by (subst iso_walk_dir.simps) auto
  next
    case False
    then have g: "\<not> (iso_max_depth < depth \<or> iso_full opts w)" "lba \<notin> wk_visited w" by simp_all
    obtain b st where st: "iso_records v opts path (iso_dir_data v lba len) 0 0 ([], i, ?w) = (b, st)"
      by (cases "iso_records v opts path (iso_dir_data v lba len) 0 0 ([], i, ?w)")
    have "iso_ok v opts (i, ?w)" using 1(2) by (simp add: iso_ok_def)
    then have ok: "iso_ok v opts (snd st)"
      using iso_records_ok [of v opts "([], i, ?w)" path "iso_dir_data v lba len" 0 0] g(1) st by (simp add: iso_full_def)
    have run: "iso_walk_dir v opts lba len path depth (i, w) = (if b then snd st else iso_walk_subdirs v opts (fst st) (depth + 1) (snd st))"
      using g st by (subst iso_walk_dir.simps) (cases b; simp)
    show ?thesis
    proof (cases b)
      case f: False
      then show ?thesis using run 1(1) [OF g _ _ ok] st by simp
    qed (use run ok in simp)
  qed
qed simp_all

text \<open>C33: The walk of a volume reports at most \<open>max_entries\<close> entries and at most five million; they are live
  files with a name and a path that ends in it, each with the one extent of its size or none, and their
  identifiers increase.\<close>

theorem iso_walk_sound:
  "walk_ok (iso_walk v opts) \<and> length (wk_out (iso_walk v opts)) \<le> min (wo_max opts) iso_max_entries \<and>
    (\<forall>e \<in> set (wk_out (iso_walk v opts)). iso_entry_ok v e) \<and> sorted_wrt (<) (map en_id (wk_out (iso_walk v opts)))"
proof -
  have start: "iso_ok v opts (1, walk_start)" by (simp add: iso_ok_def) (simp add: walk_start_def)
  have "\<exists>i. iso_ok v opts (i, iso_walk v opts)"
    using start iso_walk_ok(1) [OF start, of "io_root_lba v" "io_root_len v" "[]" 0] by (auto simp: iso_walk_def) (metis prod.collapse)
  then show ?thesis by (auto simp: iso_ok_def walk_ok_def)
qed

section \<open>Instances\<close>

definition iso_sample :: iso where
  "iso_sample = \<lparr>io_src = medium_source (good_medium []) 512 4096, io_block_size = 2048, io_root_lba = 18, io_root_len = 2048, io_joliet = False,
     io_label = None, io_udf = False\<rparr>"

theorem iso_walk_sound_witness: "length (wk_out (iso_walk iso_sample walk_opts_default)) \<le> iso_max_entries"
  using iso_walk_sound [of iso_sample walk_opts_default] by simp

theorem iso_directory_exact_witness:
  "fst (snd (snd (iso_records iso_sample walk_opts_default [] (concat (map encode_item [\<lparr>it_dir = False, it_lba = 20, it_len = 700, it_raw = [0x41, 0x3B, 0x31]\<rparr>]) @ zeros 2012) 0 0 ([], 1, walk_start)))) = 2"
proof -
  let ?x = "\<lparr>it_dir = False, it_lba = 20, it_len = 700, it_raw = [0x41, 0x3B, 0x31]\<rparr>"
  have "item_ok iso_sample ?x"
    by (simp add: item_ok_def iso_decode_name_def iso_sample_def utf8_lossy_def utf8_lossy_loop.simps utf8_step_def strip_version_def)
  then show ?thesis
    using iso_directory_exact [of "[?x]" iso_sample walk_opts_default walk_start "[]" 2012 1]
    by (simp add: list_item_def walk_start_def walk_opts_default_def iso_max_entries_def iso_sample_def)
qed

end
