(* ===== verification/CarveBase.thy ===== *)
theory CarveBase
  imports CarveReader PartTable FsCore
begin

text \<open>
  The vocabulary of the carver: signatures (\<^verbatim>\<open>crates/reclaim-sigs/src/lib.rs\<close>), carved files and their
  validity (\<^verbatim>\<open>crates/reclaim-carve/src/lib.rs\<close>), the context and the verdict of a validator
  (\<^verbatim>\<open>validators/mod.rs\<close>), the byte readers (\<^verbatim>\<open>bytes.rs\<close>). The catalog itself is generated by the build and is
  an argument of the definitions that use it; so are the Aho-Corasick automaton and the substring search
  of the \<^verbatim>\<open>memchr\<close> crate.
\<close>

unbundle bit_operations_syntax

section \<open>Signatures\<close>

datatype strategy = Fixed | HeaderSize | Footer | Structural | Statistical

record header_pat =
  hp_bytes :: bytes
  hp_mask :: bytes
  hp_offset :: nat
  hp_anchor :: bytes
  hp_anchor_pos :: nat

definition confirm :: "header_pat \<Rightarrow> bytes \<Rightarrow> bool" where
  "confirm h window \<longleftrightarrow>
     \<not> length window < length (hp_bytes h) \<and>
     list_all (\<lambda>((b, m), w). w AND m = b AND m) (zip (zip (hp_bytes h) (hp_mask h)) window)"

record footer_pat =
  ft_bytes :: bytes
  ft_search_max :: nat

record sig_def =
  sg_id :: string
  sg_family :: string
  sg_extensions :: "string list"
  sg_mime :: string
  sg_tier :: nat
  sg_headers :: "header_pat list"
  sg_footer :: "footer_pat option"
  sg_min_size :: nat
  sg_max_size :: nat
  sg_strategy :: strategy
  sg_validator :: "string option"
  sg_metadata :: "string list"
  sg_block_aligned :: bool
  sg_footer_anchored :: bool
  sg_reassembly :: bool

definition primary_ext :: "sig_def \<Rightarrow> string" where
  "primary_ext s = (case sg_extensions s of [] \<Rightarrow> ''bin'' | e # _ \<Rightarrow> e)"

definition by_id :: "sig_def list \<Rightarrow> string \<Rightarrow> sig_def option" where
  "by_id sigs i = find (\<lambda>s. sg_id s = i) sigs"

definition by_family :: "sig_def list \<Rightarrow> string \<Rightarrow> sig_def list" where
  "by_family sigs f = filter (\<lambda>s. sg_family s = f) sigs"

text \<open>The families in the order in which they are met first.\<close>

definition sig_families :: "sig_def list \<Rightarrow> string list" where
  "sig_families sigs = fold (\<lambda>s seen. if sg_family s \<in> set seen then seen else seen @ [sg_family s]) sigs []"

section \<open>Results\<close>

datatype validity = Full | Truncated | Suspect

definition validity_label :: "validity \<Rightarrow> string" where
  "validity_label v = (case v of Full \<Rightarrow> ''full'' | Truncated \<Rightarrow> ''truncated'' | Suspect \<Rightarrow> ''suspect'')"

record carved_file =
  cf_offset :: nat
  cf_len :: nat
  cf_format :: string
  cf_family :: string
  cf_ext :: string
  cf_validity :: validity
  cf_score :: nat
  cf_meta :: metadata
  cf_block_aligned :: bool

definition carved_end :: "carved_file \<Rightarrow> nat" where
  "carved_end f = sat_add64 (cf_offset f) (cf_len f)"

section \<open>Validators\<close>

record ctx =
  cx_reader :: reader
  cx_start :: nat
  cx_max :: nat
  cx_sig :: sig_def

definition ctx_read :: "ctx \<Rightarrow> nat \<Rightarrow> nat \<Rightarrow> bytes" where
  "ctx_read c rel len = rd_read (cx_reader c) (sat_add64 (cx_start c) rel) len"

definition available :: "ctx \<Rightarrow> nat" where
  "available c = min (rd_len (cx_reader c) - cx_start c) (cx_max c)"

record verdict =
  vd_accept :: bool
  vd_len :: nat
  vd_validity :: validity
  vd_score :: nat
  vd_format :: "string option"
  vd_start :: "nat option"
  vd_meta :: metadata

definition no_metadata :: metadata where
  "no_metadata = \<lparr>md_name = None, md_date = None, md_model = None, md_thumb_offset = None, md_thumb_len = None\<rparr>"

definition reject :: verdict where
  "reject = \<lparr>vd_accept = False, vd_len = 0, vd_validity = Suspect, vd_score = 0, vd_format = None, vd_start = None, vd_meta = no_metadata\<rparr>"

definition accept :: "nat \<Rightarrow> validity \<Rightarrow> nat \<Rightarrow> verdict" where
  "accept len v score =
     \<lparr>vd_accept = True, vd_len = len, vd_validity = v, vd_score = score, vd_format = None, vd_start = None, vd_meta = no_metadata\<rparr>"

definition with_start :: "nat \<Rightarrow> verdict \<Rightarrow> verdict" where
  "with_start s v = v\<lparr>vd_start := Some s\<rparr>"

definition with_format :: "string \<Rightarrow> verdict \<Rightarrow> verdict" where
  "with_format f v = v\<lparr>vd_format := Some f\<rparr>"

definition with_meta :: "metadata \<Rightarrow> verdict \<Rightarrow> verdict" where
  "with_meta m v = v\<lparr>vd_meta := m\<rparr>"

section \<open>Byte readers\<close>

definition be_u16 :: "bytes \<Rightarrow> nat \<Rightarrow> nat option" where
  "be_u16 b off = map_option be_val (get_slice b off (off + 2))"

definition tag :: "bytes \<Rightarrow> nat \<Rightarrow> nat \<Rightarrow> bytes option" where
  "tag b off len = get_slice b off (off + len)"

definition eq_at :: "bytes \<Rightarrow> nat \<Rightarrow> bytes \<Rightarrow> bool" where
  "eq_at b off needle \<longleftrightarrow> get_slice b off (sat_add64 off (length needle)) = Some needle"

fun gcd_loop :: "nat \<Rightarrow> nat \<Rightarrow> nat" where
  "gcd_loop a b = (if b = 0 then a else gcd_loop b (a mod b))"

declare gcd_loop.simps [simp del]

lemma gcd_loop_eq: "gcd_loop a b = gcd a b"
proof (induction a b rule: gcd_loop.induct)
  case (1 a b)
  then show ?case by (subst gcd_loop.simps) (simp add: gcd_red_nat [of a b])
qed

lemma be_u16_bound: "be_u16 b off = Some v \<Longrightarrow> v < 65536"
  by (auto simp: be_u16_def dest!: be_val_slice_bound)

abbreviation ascii :: "string \<Rightarrow> bytes" where
  "ascii s \<equiv> map of_char s"

text \<open>\<^verbatim>\<open>starts_with\<close> and \<^verbatim>\<open>windows(n).any\<close> on slices.\<close>

definition starts_with :: "bytes \<Rightarrow> bytes \<Rightarrow> bool" where
  "starts_with b p \<longleftrightarrow> take (length p) b = p"

definition window_contains :: "bytes \<Rightarrow> bytes \<Rightarrow> bool" where
  "window_contains hay needle \<longleftrightarrow> list_ex (\<lambda>i. take (length needle) (drop i hay) = needle) [0..<length hay + 1 - length needle]"

section \<open>What a validator promises\<close>

text \<open>An accepted file starts where the context says and ends inside what is available there; a validator of
  a trailer answers an earlier start and may reach no further than the available bytes either. \<open>verdict_within k\<close>
  allows \<open>k\<close> bytes more.\<close>

definition verdict_within :: "nat \<Rightarrow> ctx \<Rightarrow> verdict \<Rightarrow> bool" where
  "verdict_within k c v \<longleftrightarrow>
     (vd_accept v \<longrightarrow> (case vd_start v of None \<Rightarrow> vd_len v \<le> available c + k | Some s \<Rightarrow> s + vd_len v \<le> cx_start c + available c + k))"

abbreviation verdict_inside :: "ctx \<Rightarrow> verdict \<Rightarrow> bool" where
  "verdict_inside \<equiv> verdict_within 0"

lemma verdict_within_reject [simp]: "verdict_within k c reject"
  by (simp add: verdict_within_def reject_def)

lemma verdict_within_accept [simp]: "verdict_within k c (accept n v s) \<longleftrightarrow> n \<le> available c + k"
  by (simp add: verdict_within_def accept_def)

lemma verdict_within_format [simp]: "verdict_within k c (with_format f v) = verdict_within k c v"
  by (simp add: verdict_within_def with_format_def split: option.split)

lemma verdict_within_meta [simp]: "verdict_within k c (with_meta m v) = verdict_within k c v"
  by (simp add: verdict_within_def with_meta_def split: option.split)

lemma verdict_within_mono: "verdict_within k c v \<Longrightarrow> k \<le> m \<Longrightarrow> verdict_within m c v"
  by (auto simp: verdict_within_def split: option.splits)

text \<open>A verdict that leaves the start where the candidate was.\<close>

definition keeps_start :: "verdict \<Rightarrow> bool" where
  "keeps_start v \<longleftrightarrow> vd_start v = None"

lemma keeps_start_simps [simp]:
  "keeps_start reject" "keeps_start (accept n v s)" "keeps_start (with_format f w) = keeps_start w" "keeps_start (with_meta m w) = keeps_start w"
  by (simp_all add: keeps_start_def reject_def accept_def with_format_def with_meta_def)

end
