(* ===== verification/CarveText.thy ===== *)
theory CarveText
  imports CarveBase
begin

text \<open>
  The classifier of plain text (\<^verbatim>\<open>crates/reclaim-carve/src/validators/text.rs\<close>). It compares quotients of
  counts below \<open>2 ^ 29\<close>, computed in \<^verbatim>\<open>f64\<close>, with constants of two decimals: two such quotients that differ
  do so by far more than the rounding, so the comparison is that of the exact fractions, and it is
  written with integers.
\<close>

unbundle bit_operations_syntax

definition text_max :: nat where "text_max = 256 * 1024 * 1024"
definition text_win :: nat where "text_win = 64 * 1024"
definition text_min_run :: nat where "text_min_run = 32"

definition is_ascii_text :: "byte \<Rightarrow> bool" where
  "is_ascii_text b \<longleftrightarrow> b = 0x09 \<or> b = 0x0A \<or> b = 0x0D \<or> (0x20 \<le> b \<and> b \<le> 0x7E)"

definition is_ascii_alphabetic :: "byte \<Rightarrow> bool" where
  "is_ascii_alphabetic b \<longleftrightarrow> (0x41 \<le> b \<and> b \<le> 0x5A) \<or> (0x61 \<le> b \<and> b \<le> 0x7A)"

definition looks_like_text :: "bytes \<Rightarrow> bool" where
  "looks_like_text buf =
     (if length buf < 16 then False
      else
        let printable = length (filter (\<lambda>b. is_ascii_text b \<or> 0x80 \<le> b) buf);
            letters = length (filter (\<lambda>b. is_ascii_alphabetic b \<or> b = 0x20) buf);
            uniform = list_all (\<lambda>b. b = hd buf) buf
        in if uniform then False else 92 * length buf \<le> 100 * printable \<and> 20 * length buf \<le> 100 * letters)"

definition utf8_len :: "byte \<Rightarrow> nat option" where
  "utf8_len lead =
     (if 0xC2 \<le> lead \<and> lead \<le> 0xDF then Some 2
      else if 0xE0 \<le> lead \<and> lead \<le> 0xEF then Some 3
      else if 0xF0 \<le> lead \<and> lead \<le> 0xF4 then Some 4
      else None)"

text \<open>One character, complete and not a control character: \<^verbatim>\<open>from_utf8\<close> accepts it when decoding it takes all its
  bytes; U+FFFD itself is a character.\<close>

definition valid_utf8_seq :: "bytes \<Rightarrow> bool" where
  "valid_utf8_seq s \<longleftrightarrow>
     s \<noteq> [] \<and> snd (utf8_step (map unat s)) = length s \<and> \<not> is_control (fst (utf8_step (map unat s)))"

text \<open>One window: how many bytes of it are text, how many characters, and how it ended.\<close>

datatype text_end = Whole | Binary | Straddle

function text_scan :: "bytes \<Rightarrow> nat \<Rightarrow> nat \<Rightarrow> nat \<times> nat \<times> text_end" where
  "text_scan buf i printable =
     (if length buf \<le> i then (i, printable, Whole)
      else
        let b = buf ! i in
        if b < 0x80 then
          (if is_ascii_text b then text_scan buf (i + 1) (printable + 1) else (i, printable, Binary))
        else case utf8_len b of
            None \<Rightarrow> (i, printable, Binary)
          | Some n \<Rightarrow>
              if i + n \<le> length buf then
                (if valid_utf8_seq (unwrap_or (get_slice buf i (i + n)) []) then text_scan buf (i + n) (printable + 1)
                 else (i, printable, Binary))
              else (i, printable, Straddle))"
  by pat_completeness auto
termination
  by (relation "measure (\<lambda>(buf, i, printable). length buf - i)") (auto simp: utf8_len_def split: if_splits)

declare text_scan.simps [simp del]

text \<open>The windows: where the text ends, the characters counted, whether it ended at a binary byte.\<close>

function text_run :: "ctx \<Rightarrow> nat \<Rightarrow> nat \<Rightarrow> nat \<Rightarrow> nat \<times> nat \<times> bool" where
  "text_run c cap pos printable =
     (if cap \<le> pos then (pos, printable, False)
      else
        let want = min (cap - pos) text_win;
            buf = ctx_read c pos want
        in if buf = [] then (pos, printable, False)
           else case text_scan buf 0 printable of
               (i, printable1, Binary) \<Rightarrow> (pos + i, printable1, True)
             | (i, printable1, Straddle) \<Rightarrow>
                 if want = text_win \<and> 0 < i then text_run c cap (pos + i) printable1 else (pos + i, printable1, True)
             | (i, printable1, Whole) \<Rightarrow>
                 if want < text_win then (cap, printable1, False) else text_run c cap (pos + length buf) printable1)"
  by pat_completeness auto
termination
  by (relation "measure (\<lambda>(c, cap, pos, printable). cap - pos)")
    (auto simp: length_greater_0_conv [symmetric] simp del: length_greater_0_conv)

declare text_run.simps [simp del]

text \<open>\<^verbatim>\<open>refine\<close>.\<close>

definition text_refine :: "bytes \<Rightarrow> string" where
  "text_refine head =
     (if starts_with head (ascii ''<?xml'') then (if window_contains head (ascii ''<plist'') then ''sys.plist_xml'' else ''doc.xml'')
      else if starts_with head (ascii ''<html'') \<or> starts_with head (ascii ''<!DOCTYPE'') then ''doc.html''
      else if starts_with head (ascii ''{'') \<or> starts_with head (ascii ''['') then ''doc.json''
      else ''doc.txt'')"

definition text_validate :: "ctx \<Rightarrow> verdict" where
  "text_validate c =
     (let cap = min (available c) text_max in
      if cap < text_min_run then reject
      else
        let head = ctx_read c 0 (min 512 cap);
            sample_end = length (takeWhile (\<lambda>b. \<not> b < 0x09) head);
            sample = unwrap_or (get_slice head 0 (max sample_end 1)) head
        in if \<not> looks_like_text sample then reject
           else case text_run c cap 0 0 of
               (pos, printable, hit_binary) \<Rightarrow>
                 if pos < text_min_run then reject
                 else if 100 * printable < 60 * pos then reject
                 else with_format (text_refine head)
                   (accept pos (if hit_binary then Full else Truncated)
                     ((if hit_binary then 68 else 50) + (if 98 * pos < 100 * printable then 6 else 0))))"

end
