(* ===== verification/CarveSized.thy ===== *)
theory CarveSized
  imports CarveBase
begin

text \<open>
  The validators that take the length of a file from fields of its header or from a search
  (\<^verbatim>\<open>crates/reclaim-carve/src/validators\<close>: \<^verbatim>\<open>bmp.rs\<close>, \<^verbatim>\<open>ico.rs\<close>, \<^verbatim>\<open>riff.rs\<close>, \<^verbatim>\<open>iff.rs\<close>, \<^verbatim>\<open>ole2.rs\<close>, \<^verbatim>\<open>pdf.rs\<close>, \<^verbatim>\<open>sqlite.rs\<close>,
  \<^verbatim>\<open>gzip.rs\<close>, \<^verbatim>\<open>bzip2.rs\<close>, \<^verbatim>\<open>xz.rs\<close>, \<^verbatim>\<open>zstd.rs\<close>, \<^verbatim>\<open>sevenz.rs\<close>, \<^verbatim>\<open>rar.rs\<close>, \<^verbatim>\<open>bplist.rs\<close>, \<^verbatim>\<open>iso.rs\<close>, \<^verbatim>\<open>mkv.rs\<close>, \<^verbatim>\<open>dmg.rs\<close>,
  \<^verbatim>\<open>pe.rs\<close>, \<^verbatim>\<open>elf.rs\<close>, \<^verbatim>\<open>macho.rs\<close>). The iterator of the \<^verbatim>\<open>memchr\<close> crate over the places of a pattern is an argument.
\<close>

unbundle bit_operations_syntax

text \<open>The end several formats share: complete when the computed length is there, cut otherwise.\<close>

definition sized_verdict :: "nat \<Rightarrow> nat \<Rightarrow> nat \<Rightarrow> nat \<Rightarrow> verdict" where
  "sized_verdict total_len avail full_score cut_score =
     (if total_len \<le> avail then accept total_len Full full_score else accept avail Truncated cut_score)"

section \<open>Images\<close>

definition bmp_validate :: "ctx \<Rightarrow> verdict" where
  "bmp_validate c =
     (let head = ctx_read c 0 26 in
      if get_at head 0 \<noteq> Some 0x42 \<or> get_at head 1 \<noteq> Some 0x4D then reject
      else
        let len = unwrap_or (le_u32 head 2) 0;
            data_off = unwrap_or (le_u32 head 10) 0;
            dib = unwrap_or (le_u32 head 14) 0
        in if dib \<notin> {12, 40, 52, 56, 64, 108, 124} \<or> len < 26 \<or> data_off < 26 \<or> len < data_off then reject
           else sized_verdict len (available c) 88 50)"

definition max_icon :: nat where "max_icon = 8 * 1024 * 1024"

text \<open>The directory of an icon: the end of its images, or nothing at the first implausible entry.\<close>

fun ico_entries :: "ctx \<Rightarrow> nat \<Rightarrow> nat \<Rightarrow> nat list \<Rightarrow> nat \<Rightarrow> nat option" where
  "ico_entries c avail dir_end [] stop = Some stop"
| "ico_entries c avail dir_end (i # is) stop =
     (let e = ctx_read c (6 + i * 16) 16;
          planes = unwrap_or (le_u16 e 4) 0xFFFF;
          bitcount = unwrap_or (le_u16 e 6) 0xFFFF;
          len = unwrap_or (le_u32 e 8) 0;
          off = unwrap_or (le_u32 e 12) 0;
          reserved = unwrap_or (get_at e 3) 0xFF;
          ext_ok = (dir_end \<le> off \<and> 1 \<le> len \<and> len \<le> max_icon \<and> off + len \<le> avail)
      in if reserved \<noteq> 0 \<or> \<not> planes \<le> 1 \<or> bitcount \<notin> {0, 1, 2, 4, 8, 16, 24, 32} \<or> \<not> ext_ok then None
         else ico_entries c avail dir_end is (max stop (off + len)))"

definition ico_validate :: "ctx \<Rightarrow> verdict" where
  "ico_validate c =
     (let head = ctx_read c 0 6 in
      if get_slice head 0 2 \<noteq> Some [0, 0] then reject
      else if le_u16 head 2 \<notin> {Some 1, Some 2} then reject
      else
        let count = unwrap_or (le_u16 head 4) 0 in
        if count = 0 \<or> 32 < count then reject
        else
          let dir_end = 6 + count * 16 in
          case ico_entries c (available c) dir_end [0..<count] dir_end of
            None \<Rightarrow> reject
          | Some stop \<Rightarrow> accept stop Full 72)"

section \<open>Containers with a total_len size\<close>

definition riff_finalize :: "ctx \<Rightarrow> nat \<Rightarrow> string \<Rightarrow> nat \<Rightarrow> verdict" where
  "riff_finalize c total_len i score =
     (if total_len < 12 then reject else with_format i (sized_verdict total_len (available c) score (score - 35)))"

definition riff_validate :: "ctx \<Rightarrow> verdict" where
  "riff_validate c =
     (let head = ctx_read c 0 12 in
      if get_slice head 0 4 \<noteq> Some (ascii ''RIFF'') then
        (if get_slice head 0 4 = Some (ascii ''RF64'') then riff_finalize c (2 ^ 32 - 1) ''audio.wav'' 60 else reject)
      else
        let len = unwrap_or (le_u32 head 4) 0;
            form = unwrap_or (get_slice head 8 12) []
        in if form = ascii ''WAVE'' then riff_finalize c (sat_add64 len 8) ''audio.wav'' 88
           else if form = ascii ''AVI '' then riff_finalize c (sat_add64 len 8) ''video.avi'' 88
           else if form = ascii ''WEBP'' then riff_finalize c (sat_add64 len 8) ''image.webp'' 88
           else reject)"

definition iff_validate :: "ctx \<Rightarrow> verdict" where
  "iff_validate c =
     (let head = ctx_read c 0 12 in
      if get_slice head 0 4 \<noteq> Some (ascii ''FORM'') then reject
      else
        let form = unwrap_or (get_slice head 8 12) [] in
        if form \<noteq> ascii ''AIFF'' \<and> form \<noteq> ascii ''AIFC'' then reject
        else
          let total_len = sat_add64 (unwrap_or (be_u32 head 4) 0) 8 in
          if total_len < 12 then reject else with_format ''audio.aiff'' (sized_verdict total_len (available c) 88 50))"

definition ole2_validate :: "ctx \<Rightarrow> verdict" where
  "ole2_validate c =
     (let head = ctx_read c 0 512 in
      if get_slice head 0 8 \<noteq> Some [0xD0, 0xCF, 0x11, 0xE0, 0xA1, 0xB1, 0x1A, 0xE1] then reject
      else
        let shift = unwrap_or (le_u16 head 30) 0 in
        if \<not> (7 \<le> shift \<and> shift \<le> 12) then reject
        else
          let sector_size = 2 ^ shift;
              num_fat = unwrap_or (le_u32 head 44) 0
          in if num_fat = 0 \<or> 1000000 < num_fat then reject
             else
               let max_sectors = sat_mul64 num_fat (sector_size div 4);
                   upper = sat_add64 sector_size (sat_mul64 max_sectors sector_size);
                   len = min upper (available c)
               in if len < 512 then reject else with_format ''doc.ole2'' (accept len Suspect 55))"

definition sqlite_validate :: "ctx \<Rightarrow> verdict" where
  "sqlite_validate c =
     (let head = ctx_read c 0 100 in
      if get_slice head 0 16 \<noteq> Some (ascii ''SQLite format 3'' @ [0]) then reject
      else
        let raw_ps = unwrap_or (be_u16 head 16) 0;
            page_size = (if raw_ps = 1 then 65536 else raw_ps)
        in if page_size < 512 \<or> \<not> is_power_of_two page_size then reject
           else
             let page_count = unwrap_or (be_u32 head 28) 0 in
             if page_count = 0 then reject
             else
               let rv = unwrap_or (get_at head 18) 9;
                   wv = unwrap_or (get_at head 19) 9
               in if 2 < rv \<or> 2 < wv then reject
                  else sized_verdict (sat_mul64 page_size page_count) (available c) 92 55)"

definition sevenz_validate :: "ctx \<Rightarrow> verdict" where
  "sevenz_validate c =
     (let head = ctx_read c 0 32 in
      if get_slice head 0 6 \<noteq> Some [0x37, 0x7A, 0xBC, 0xAF, 0x27, 0x1C] then reject
      else
        let next_off = unwrap_or (le_u64 head 12) 0;
            next_size = unwrap_or (le_u64 head 20) 0;
            total_len = sat_add64 (sat_add64 32 next_off) next_size
        in if total_len < 32 then reject else sized_verdict total_len (available c) 90 50)"

definition carve_iso_validate :: "ctx \<Rightarrow> verdict" where
  "carve_iso_validate c =
     (let desc = ctx_read c 32768 256 in
      if get_at desc 0 \<noteq> Some 1 \<or> get_slice desc 1 6 \<noteq> Some (ascii ''CD001'') then reject
      else
        let vss = unwrap_or (le_u32 desc 80) 0;
            lbs = unwrap_or (le_u16 desc 128) 0
        in if vss = 0 \<or> lbs = 0 \<or> \<not> is_power_of_two lbs then reject
           else
             let total_len = sat_mul64 vss lbs in
             if total_len < 32768 then reject else with_format ''archive.iso'' (sized_verdict total_len (available c) 88 50))"

text \<open>The trailer of a disk image: the file lies before it. The test of the version has no effect.\<close>

definition dmg_validate :: "ctx \<Rightarrow> verdict" where
  "dmg_validate c =
     (let koly = ctx_read c 0 512 in
      if get_slice koly 0 4 \<noteq> Some (ascii ''koly'') then reject
      else
        let data_fork_off = unwrap_or (be_u64 koly 24) 0;
            data_fork_len = unwrap_or (be_u64 koly 32) 0;
            rsrc_len = unwrap_or (be_u64 koly 48) 0;
            xml_off = unwrap_or (be_u64 koly 216) 0;
            xml_len = unwrap_or (be_u64 koly 224) 0;
            total_len = sat_add64 (max (max (sat_add64 data_fork_off data_fork_len) (sat_add64 xml_off xml_len)) (sat_add64 data_fork_len rsrc_len)) 512;
            stop = sat_add64 (cx_start c) 512
        in if total_len \<le> stop \<and> 512 \<le> total_len \<and> total_len < 64 * 1024 * 1024 * 1024
           then with_start (stop - total_len) (with_format ''archive.dmg'' (accept total_len Full 80))
           else reject)"

section \<open>Streams carved up to a bound\<close>

definition bplist_validate :: "ctx \<Rightarrow> verdict" where
  "bplist_validate c =
     (if ctx_read c 0 8 \<noteq> ascii ''bplist00'' then reject
      else
        let len = min (min (available c) (64 * 1024 * 1024)) (4 * 1024 * 1024) in
        if len < 40 then reject else with_format ''doc.bplist'' (accept len Suspect 45))"

definition bzip2_validate :: "ctx \<Rightarrow> verdict" where
  "bzip2_validate c =
     (let head = ctx_read c 0 10 in
      if get_slice head 0 3 \<noteq> Some (ascii ''BZh'') then reject
      else if (case get_at head 3 of None \<Rightarrow> True | Some b \<Rightarrow> \<not> (0x31 \<le> b \<and> b \<le> 0x39)) then reject
      else if get_slice head 4 10 \<noteq> Some [0x31, 0x41, 0x59, 0x26, 0x53, 0x59] \<and> get_slice head 4 10 \<noteq> Some [0x17, 0x72, 0x45, 0x38, 0x50, 0x90] then reject
      else
        let len = min (available c) (256 * 1024 * 1024) in
        if len < 14 then reject else with_format ''archive.bzip2'' (accept len Suspect 42))"

definition rar_validate :: "ctx \<Rightarrow> verdict" where
  "rar_validate c =
     (let head = ctx_read c 0 8 in
      if get_slice head 0 7 \<noteq> Some [0x52, 0x61, 0x72, 0x21, 0x1A, 0x07, 0x00] \<and>
         get_slice head 0 8 \<noteq> Some [0x52, 0x61, 0x72, 0x21, 0x1A, 0x07, 0x01, 0x00] then reject
      else
        let len = min (min (available c) (16 * 1024 * 1024 * 1024)) (256 * 1024 * 1024) in
        if len < 20 then reject else with_format ''archive.rar'' (accept len Suspect 45))"

definition zstd_validate :: "ctx \<Rightarrow> verdict" where
  "zstd_validate c =
     (let head = ctx_read c 0 14 in
      if get_slice head 0 4 \<noteq> Some [0x28, 0xB5, 0x2F, 0xFD] then reject
      else
        let len = min (min (available c) (4 * 1024 * 1024 * 1024)) (64 * 1024 * 1024) in
        if len < 8 then reject else with_format ''archive.zstd'' (accept len Suspect 42))"

text \<open>The position behind the extra field is where the name is read; the length does not depend on it.\<close>

definition gzip_validate :: "ctx \<Rightarrow> verdict" where
  "gzip_validate c =
     (let head = ctx_read c 0 10 in
      if get_slice head 0 3 \<noteq> Some [0x1F, 0x8B, 0x08] then reject
      else
        let flg = unwrap_or (get_at head 3) 0 in
        if flg AND 0xE0 \<noteq> 0 then reject
        else
          let os = unwrap_or (get_at head 9) 0xFF in
          if \<not> (os \<le> 13 \<or> os = 255) then reject
          else
            let pos = (if flg AND 0x04 \<noteq> 0 then 10 + (2 + unwrap_or (le_u16 (ctx_read c 10 2) 0) 0) else 10);
                name = (if flg AND 0x08 \<noteq> 0 then latin1 (takeWhile (\<lambda>b. b \<noteq> 0) (ctx_read c pos 256)) else []);
                meta = (if name \<noteq> [] then no_metadata\<lparr>md_name := Some name\<rparr> else no_metadata);
                len = min (available c) (256 * 1024 * 1024)
            in if len < 18 then reject else with_meta meta (with_format ''archive.gzip'' (accept len Suspect 42)))"

section \<open>Searches\<close>

definition search_win :: nat where "search_win = 1048576"

text \<open>The last footer of an XZ stream.\<close>

function xz_loop :: "(bytes \<Rightarrow> bytes \<Rightarrow> nat list) \<Rightarrow> ctx \<Rightarrow> nat \<Rightarrow> nat \<Rightarrow> nat option \<Rightarrow> nat option" where
  "xz_loop find_iter c cap pos lst =
     (if cap \<le> pos then lst
      else
        let want = min (cap - pos) search_win;
            buf = ctx_read c pos want
        in if buf = [] then lst
           else
             let last1 = fold (\<lambda>m _. Some (pos + m + 2)) (find_iter buf (ascii ''YZ'')) lst in
             if want < search_win then last1 else xz_loop find_iter c cap (pos + (want - 1)) last1)"
  by pat_completeness auto
termination
  by (relation "measure (\<lambda>(find_iter, c, cap, pos, lst). cap - pos)") (auto simp: search_win_def)

declare xz_loop.simps [simp del]

definition xz_validate :: "(bytes \<Rightarrow> bytes \<Rightarrow> nat list) \<Rightarrow> ctx \<Rightarrow> verdict" where
  "xz_validate find_iter c =
     (if ctx_read c 0 6 \<noteq> [0xFD, 0x37, 0x7A, 0x58, 0x5A, 0x00] then reject
      else
        let cap = min (available c) (512 * 1024 * 1024) in
        case xz_loop find_iter c cap 12 None of
          Some stop \<Rightarrow> with_format ''archive.xz'' (accept (min stop cap) Full 70)
        | None \<Rightarrow> with_format ''archive.xz'' (accept (min cap (64 * 1024 * 1024)) Suspect 42))"

text \<open>The end of one \<^verbatim>\<open>%%EOF\<close> with the end of its line.\<close>

definition pdf_eof :: "ctx \<Rightarrow> nat \<Rightarrow> nat" where
  "pdf_eof c stop =
     (let tail = ctx_read c stop 2 in
      if get_at tail 0 = Some 0x0D \<and> get_at tail 1 = Some 0x0A then stop + 2
      else if get_at tail 0 \<in> {Some 0x0A, Some 0x0D} then stop + 1
      else stop)"

function pdf_loop ::
  "(bytes \<Rightarrow> bytes \<Rightarrow> nat list) \<Rightarrow> (bytes \<Rightarrow> bytes \<Rightarrow> nat option) \<Rightarrow> ctx \<Rightarrow> nat \<Rightarrow> nat \<Rightarrow> nat option \<Rightarrow> bool \<Rightarrow> nat option \<times> bool" where
  "pdf_loop find_iter finder c cap pos lst saw =
     (if cap \<le> pos then (lst, saw)
      else
        let want = min (cap - pos) search_win;
            buf = ctx_read c pos want
        in if buf = [] then (lst, saw)
           else
             let last1 = fold (\<lambda>m _. Some (pdf_eof c (pos + m + 5))) (find_iter buf (ascii ''%%EOF'')) lst;
                 saw1 = (saw \<or> finder buf (ascii ''startxref'') \<noteq> None)
             in if want < search_win then (last1, saw1) else pdf_loop find_iter finder c cap (pos + (want - 5)) last1 saw1)"
  by pat_completeness auto
termination
  by (relation "measure (\<lambda>(find_iter, finder, c, cap, pos, lst, saw). cap - pos)") (auto simp: search_win_def)

declare pdf_loop.simps [simp del]

definition pdf_validate :: "(bytes \<Rightarrow> bytes \<Rightarrow> nat list) \<Rightarrow> (bytes \<Rightarrow> bytes \<Rightarrow> nat option) \<Rightarrow> ctx \<Rightarrow> verdict" where
  "pdf_validate find_iter finder c =
     (if ctx_read c 0 5 \<noteq> ascii ''%PDF-'' then reject
      else
        let cap = min (available c) (512 * 1024 * 1024);
            r = pdf_loop find_iter finder c cap 0 None False
        in if (case fst r of Some stop \<Rightarrow> 64 \<le> stop | None \<Rightarrow> False)
           then accept (min (unwrap_or (fst r) 0) cap) Full (if snd r then 90 else 72)
           else if cap < 64 then reject else accept cap Truncated 45)"

section \<open>Matroska\<close>

definition leading_zeros8 :: "byte \<Rightarrow> nat" where
  "leading_zeros8 b = length (takeWhile (\<lambda>i. \<not> bit b (7 - i)) [0..<8])"

text \<open>A variable-length integer: \<^verbatim>\<open>Some (None, n)\<close> is the unknown size. The shift \<^verbatim>\<open>0xFF >> len\<close> is one of an \<^verbatim>\<open>u8\<close>: the
  release build takes the distance modulo 8, so that an integer of eight bytes keeps its marker bit.\<close>

definition read_vint :: "bytes \<Rightarrow> (nat option \<times> nat) option" where
  "read_vint b =
     (case get_at b 0 of
        None \<Rightarrow> None
      | Some first \<Rightarrow>
          if first = 0 then None
          else
            let len = leading_zeros8 first + 1 in
            if 8 < len \<or> length b < len then None
            else
              let mask = drop_bit (len mod 8) (0xFF :: byte);
                  rest = take (len - 1) (drop 1 b);
                  val = fold (\<lambda>x v. v * 256 + unat x) rest (unat (first AND mask));
                  all_ones = (first AND mask = mask \<and> list_all (\<lambda>x. x = 0xFF) rest)
              in Some (if all_ones then None else Some val, len))"

definition mkv_validate :: "ctx \<Rightarrow> verdict" where
  "mkv_validate c =
     (if ctx_read c 0 4 \<noteq> [0x1A, 0x45, 0xDF, 0xA3] then reject
      else case read_vint (ctx_read c 4 8) of
          None \<Rightarrow> reject
        | Some (ebml, n1) \<Rightarrow>
            let seg_id_pos = 4 + n1 + unwrap_or ebml 0;
                seg = ctx_read c seg_id_pos 12
            in if get_slice seg 0 4 \<noteq> Some [0x18, 0x53, 0x80, 0x67]
               then with_format ''video.mkv'' (accept (min (min (available c) (16 * 1024 * 1024 * 1024)) (64 * 1024 * 1024)) Suspect 45)
               else case read_vint (unwrap_or (get_slice seg 4 12) []) of
                   None \<Rightarrow> reject
                 | Some (None, n2) \<Rightarrow> with_format ''video.mkv'' (accept (min (available c) (16 * 1024 * 1024 * 1024)) Suspect 50)
                 | Some (Some s, n2) \<Rightarrow> with_format ''video.mkv'' (sized_verdict (seg_id_pos + 4 + n2 + s) (available c) 88 50))"

section \<open>Executables\<close>

definition pe_validate :: "ctx \<Rightarrow> verdict" where
  "pe_validate c =
     (let dos = ctx_read c 0 64 in
      if get_at dos 0 \<noteq> Some 0x4D \<or> get_at dos 1 \<noteq> Some 0x5A then reject
      else
        let e_lfanew = unwrap_or (le_u32 dos 0x3C) 0 in
        if \<not> (64 \<le> e_lfanew \<and> e_lfanew \<le> 4096) then reject
        else
          let coff = ctx_read c e_lfanew 24 in
          if get_slice coff 0 4 \<noteq> Some [0x50, 0x45, 0x00, 0x00] then reject
          else
            let num_sections = unwrap_or (le_u16 coff 6) 0;
                opt_hdr_size = unwrap_or (le_u16 coff 20) 0
            in if num_sections = 0 \<or> 96 < num_sections then reject
               else
                 let sect_start = e_lfanew + 24 + opt_hdr_size;
                     stop = fold (\<lambda>i e. let sh = ctx_read c (sect_start + i * 40) 40 in
                         max e (sat_add64 (unwrap_or (le_u32 sh 20) 0) (unwrap_or (le_u32 sh 16) 0)))
                       [0..<num_sections] (sect_start + num_sections * 40)
                 in if stop < 97 then reject else with_format ''exec.pe'' (sized_verdict stop (available c) 85 50))"

definition order_u16 :: "bool \<Rightarrow> bytes \<Rightarrow> nat \<Rightarrow> nat option" where
  "order_u16 be b k = (if be then be_u16 b k else le_u16 b k)"

definition order_u32 :: "bool \<Rightarrow> bytes \<Rightarrow> nat \<Rightarrow> nat option" where
  "order_u32 be b k = (if be then be_u32 b k else le_u32 b k)"

definition order_u64 :: "bool \<Rightarrow> bytes \<Rightarrow> nat \<Rightarrow> nat option" where
  "order_u64 be b k = (if be then be_u64 b k else le_u64 b k)"

text \<open>The end of one segment of an ELF file.\<close>

definition elf_segment :: "ctx \<Rightarrow> bool \<Rightarrow> bool \<Rightarrow> nat \<Rightarrow> nat \<Rightarrow> nat \<Rightarrow> nat \<Rightarrow> nat" where
  "elf_segment c is64 be e_phoff e_phentsize i e =
     (let ph = ctx_read c (sat_add64 e_phoff (sat_mul64 i e_phentsize)) (min e_phentsize 64);
          p_offset = (if is64 then order_u64 be ph 8 else order_u32 be ph 4);
          p_filesz = (if is64 then order_u64 be ph 32 else order_u32 be ph 16)
      in case (p_offset, p_filesz) of (Some p, Some s) \<Rightarrow> max e (sat_add64 p s) | _ \<Rightarrow> e)"

definition elf_validate :: "ctx \<Rightarrow> verdict" where
  "elf_validate c =
     (let head = ctx_read c 0 64 in
      if get_slice head 0 4 \<noteq> Some [0x7F, 0x45, 0x4C, 0x46] then reject
      else
        let is64 = (get_at head 4 = Some 2);
            be = (get_at head 5 = Some 2);
            e_phoff = unwrap_or (if is64 then order_u64 be head 0x20 else order_u32 be head 0x1C) 0;
            e_shoff = unwrap_or (if is64 then order_u64 be head 0x28 else order_u32 be head 0x20) 0;
            e_phentsize = unwrap_or (order_u16 be head (if is64 then 0x36 else 0x2A)) 0;
            e_phnum = unwrap_or (order_u16 be head (if is64 then 0x38 else 0x2C)) 0;
            e_shentsize = unwrap_or (order_u16 be head (if is64 then 0x3A else 0x2E)) 0;
            e_shnum = unwrap_or (order_u16 be head (if is64 then 0x3C else 0x30)) 0;
            stop0 = max (if is64 then 64 else 52) (sat_add64 e_shoff (sat_mul64 e_shnum e_shentsize));
            stop = (if 0 < e_phnum \<and> e_phnum < 65536 \<and> 8 \<le> e_phentsize
                    then fold (elf_segment c is64 be e_phoff e_phentsize) [0..<e_phnum] stop0 else stop0)
        in if stop < 52 then reject else with_format ''exec.elf'' (sized_verdict stop (available c) 85 50))"

definition macho_finalize :: "nat \<Rightarrow> nat \<Rightarrow> string \<Rightarrow> nat \<Rightarrow> verdict" where
  "macho_finalize stop avail i score =
     (if stop < 28 then reject else with_format i (sized_verdict stop avail score (score - 35)))"

text \<open>The load commands of a thin file: the largest end of a segment.\<close>

fun macho_cmds :: "ctx \<Rightarrow> bool \<Rightarrow> nat list \<Rightarrow> nat \<Rightarrow> nat \<Rightarrow> nat" where
  "macho_cmds c be [] pos ext = ext"
| "macho_cmds c be (n # ns) pos ext =
     (let lc = ctx_read c pos 8;
          cmd = unwrap_or (order_u32 be lc 0) 0;
          cmdsize = unwrap_or (order_u32 be lc 4) 0
      in if cmdsize < 8 then ext
         else
           let seg = ctx_read c pos 72;
               fo = (if cmd = 0x19 then order_u64 be seg 40 else order_u32 be seg 32);
               fs = (if cmd = 0x19 then order_u64 be seg 48 else order_u32 be seg 36);
               ext1 = (if cmd = 0x1 \<or> cmd = 0x19 then (case (fo, fs) of (Some p, Some s) \<Rightarrow> max ext (sat_add64 p s) | _ \<Rightarrow> ext) else ext)
           in macho_cmds c be ns (sat_add64 pos cmdsize) ext1)"

definition macho_thin :: "ctx \<Rightarrow> nat \<Rightarrow> bool \<Rightarrow> bool \<Rightarrow> verdict" where
  "macho_thin c avail be is64 =
     (let hlen = (if is64 then 32 else 28);
          head = ctx_read c 0 hlen;
          ncmds = unwrap_or (order_u32 be head 16) 0;
          sizeofcmds = unwrap_or (order_u32 be head 20) 0
      in if ncmds = 0 \<or> 100000 < ncmds then reject
         else macho_finalize (macho_cmds c be [0..<ncmds] hlen (hlen + sizeofcmds)) avail ''exec.macho'' 85)"

definition macho_fat :: "ctx \<Rightarrow> nat \<Rightarrow> verdict" where
  "macho_fat c avail =
     (let nfat = unwrap_or (be_u32 (ctx_read c 0 8) 4) 0 in
      if \<not> (1 \<le> nfat \<and> nfat \<le> 32) then with_format ''exec.class'' (accept (min avail (16 * 1024 * 1024)) Suspect 40)
      else
        macho_finalize
          (fold (\<lambda>i e. let a = ctx_read c (8 + i * 20) 20 in max e (sat_add64 (unwrap_or (be_u32 a 8) 0) (unwrap_or (be_u32 a 12) 0)))
            [0..<nfat] (8 + nfat * 20)) avail ''exec.macho'' 88)"

definition macho_validate :: "ctx \<Rightarrow> verdict" where
  "macho_validate c =
     (let magic = unwrap_or (get_slice (ctx_read c 0 8) 0 4) []; avail = available c in
      if magic = [0xCA, 0xFE, 0xBA, 0xBE] then macho_fat c avail
      else if magic = [0xFE, 0xED, 0xFA, 0xCE] then macho_thin c avail True False
      else if magic = [0xFE, 0xED, 0xFA, 0xCF] then macho_thin c avail True True
      else if magic = [0xCE, 0xFA, 0xED, 0xFE] then macho_thin c avail False False
      else if magic = [0xCF, 0xFA, 0xED, 0xFE] then macho_thin c avail False True
      else reject)"

end
