(* ===== verification/CarveTiff.thy ===== *)
theory CarveTiff
  imports CarveSized
begin

text \<open>
  The validator of TIFF and the camera formats built on it, and the EXIF reader that the validator of JPEG
  shares (\<^verbatim>\<open>crates/reclaim-carve/src/validators/tiff.rs\<close>). The walk over the directories is bounded by the depth, the
  length of a chain and two budgets; depth and length are what its termination rests on.
\<close>

unbundle bit_operations_syntax

section \<open>Values\<close>

definition type_size :: "nat \<Rightarrow> nat" where
  "type_size t = (if t \<in> {1, 2, 6, 7} then 1 else if t \<in> {3, 8} then 2 else if t \<in> {4, 9, 11} then 4 else if t \<in> {5, 10, 12} then 8 else 1)"

text \<open>The values before the first that is missing.\<close>

fun some_prefix :: "'a option list \<Rightarrow> 'a list" where
  "some_prefix (Some x # xs) = x # some_prefix xs"
| "some_prefix _ = []"

text \<open>\<^verbatim>\<open>read_values\<close>: the values of an entry and what is left of the budget.\<close>

definition read_values :: "bool \<Rightarrow> bytes \<Rightarrow> nat \<Rightarrow> (nat \<Rightarrow> nat \<Rightarrow> bytes) \<Rightarrow> nat \<Rightarrow> nat \<Rightarrow> nat \<Rightarrow> nat \<Rightarrow> nat list \<times> nat" where
  "read_values be entries voff rd avail typ count budget =
     (let tsize = type_size typ;
          total_len = sat_mul64 tsize count;
          allow = min (min count budget) 16384;
          budget1 = budget - allow
      in if allow = 0 then ([], budget1)
         else
           let read_cap = min (sat_mul64 tsize allow) (256 * 1024);
               off = unwrap_or (order_u32 be entries voff) 0
           in if \<not> total_len \<le> 4 \<and> avail \<le> off then ([], budget1)
              else
                let b = (if total_len \<le> 4 then unwrap_or (get_slice entries voff (voff + 4)) [] else rd off read_cap)
                in (some_prefix (map (\<lambda>i.
                      if typ = 3 then order_u16 be b (i * 2)
                      else if typ \<in> {1, 2, 7} then map_option unat (get_at b i)
                      else order_u32 be b (i * 4)) [0..<allow]), budget1))"

definition ascii_value :: "bool \<Rightarrow> bytes \<Rightarrow> nat \<Rightarrow> (nat \<Rightarrow> nat \<Rightarrow> bytes) \<Rightarrow> nat \<Rightarrow> nat \<Rightarrow> ustring option" where
  "ascii_value be entries voff rd avail total_len =
     (let raw = (if total_len \<le> 4 then get_slice entries voff (voff + 4)
                 else case order_u32 be entries voff of
                     None \<Rightarrow> None
                   | Some off \<Rightarrow> if avail \<le> off then None else Some (rd off (min total_len 256)))
      in case raw of
           None \<Rightarrow> None
         | Some b \<Rightarrow>
             let t = trim (latin1 (filter (\<lambda>x. (0x21 \<le> x \<and> x \<le> 0x7E) \<or> x = 0x20) (takeWhile (\<lambda>x. x \<noteq> 0) b)))
             in if t = [] then None else Some t)"

definition is_digit_char :: "nat \<Rightarrow> bool" where
  "is_digit_char c \<longleftrightarrow> 48 \<le> c \<and> c \<le> 57"

definition exif_date :: "ustring \<Rightarrow> ustring option" where
  "exif_date s =
     (case get_slice s 0 10 of
        None \<Rightarrow> None
      | Some d \<Rightarrow>
          if list_all (\<lambda>i. if i \<in> {4, 7} then d ! i = 58 \<or> d ! i = 45 else is_digit_char (d ! i)) [0..<10]
          then Some (map (\<lambda>c. if c = 58 then 45 else c) d) else None)"

section \<open>The walk\<close>

record tiff_walk =
  tw_extent :: nat
  tw_ifd_end :: nat
  tw_ifds :: nat
  tw_make :: "ustring option"
  tw_model :: "ustring option"
  tw_date :: "ustring option"
  tw_thumb_off :: "nat option"
  tw_thumb_len :: "nat option"
  tw_dng :: bool
  tw_ifd_budget :: nat
  tw_elem_budget :: nat

definition tiff_new :: tiff_walk where
  "tiff_new = \<lparr>tw_extent = 0, tw_ifd_end = 0, tw_ifds = 0, tw_make = None, tw_model = None, tw_date = None, tw_thumb_off = None,
     tw_thumb_len = None, tw_dng = False, tw_ifd_budget = 4096, tw_elem_budget = 2000000\<rparr>"

text \<open>What the entries of one directory give.\<close>

record tiff_ifd =
  ti_strip_offs :: "nat list"
  ti_strip_counts :: "nat list"
  ti_tile_offs :: "nat list"
  ti_tile_counts :: "nat list"
  ti_jpeg_if :: "nat option"
  ti_jpeg_len :: "nat option"
  ti_subs :: "nat list"
  ti_exif :: "nat option"

definition ifd_new :: tiff_ifd where
  "ifd_new = \<lparr>ti_strip_offs = [], ti_strip_counts = [], ti_tile_offs = [], ti_tile_counts = [], ti_jpeg_if = None, ti_jpeg_len = None,
     ti_subs = [], ti_exif = None\<rparr>"

definition tiff_entry :: "bool \<Rightarrow> (nat \<Rightarrow> nat \<Rightarrow> bytes) \<Rightarrow> nat \<Rightarrow> bytes \<Rightarrow> nat \<Rightarrow> tiff_walk \<times> tiff_ifd \<Rightarrow> tiff_walk \<times> tiff_ifd" where
  "tiff_entry be rd avail entries i wl =
     (let w = fst wl; l = snd wl;
          base = i * 12;
          tg = unwrap_or (order_u16 be entries base) 0;
          typ = unwrap_or (order_u16 be entries (base + 2)) 0;
          vc = unwrap_or (order_u32 be entries (base + 4)) 0;
          text_of = ascii_value be entries (base + 8) rd avail (sat_mul64 (type_size typ) vc);
          r = read_values be entries (base + 8) rd avail typ vc (tw_elem_budget w);
          vs = fst r; v0 = get_at (fst r) 0;
          w1 = w\<lparr>tw_elem_budget := snd r\<rparr>
      in if tg = 271 then (w\<lparr>tw_make := text_of\<rparr>, l)
         else if tg = 272 then (w\<lparr>tw_model := text_of\<rparr>, l)
         else if tg \<in> {306, 36867} then
           (if tw_date w = None then (case text_of of None \<Rightarrow> (w, l) | Some s \<Rightarrow> (w\<lparr>tw_date := exif_date s\<rparr>, l)) else (w, l))
         else if tg = 273 then (w1, l\<lparr>ti_strip_offs := vs\<rparr>)
         else if tg = 279 then (w1, l\<lparr>ti_strip_counts := vs\<rparr>)
         else if tg = 324 then (w1, l\<lparr>ti_tile_offs := vs\<rparr>)
         else if tg = 325 then (w1, l\<lparr>ti_tile_counts := vs\<rparr>)
         else if tg = 513 then (w1, l\<lparr>ti_jpeg_if := v0\<rparr>)
         else if tg = 514 then (w1, l\<lparr>ti_jpeg_len := v0\<rparr>)
         else if tg = 330 then (w1, l\<lparr>ti_subs := vs\<rparr>)
         else if tg = 34665 then (w1, l\<lparr>ti_exif := v0\<rparr>)
         else if tg = 0xC612 then (w\<lparr>tw_dng := True\<rparr>, l)
         else (w, l))"

text \<open>The strips, the tiles and the embedded picture of a directory.\<close>

definition tiff_extents :: "tiff_ifd \<Rightarrow> tiff_walk \<Rightarrow> tiff_walk" where
  "tiff_extents l w =
     (let grow = fold (\<lambda>(a, b) e. max e (sat_add64 a b));
          e = grow (zip (ti_tile_offs l) (ti_tile_counts l)) (grow (zip (ti_strip_offs l) (ti_strip_counts l)) (tw_extent w));
          w1 = w\<lparr>tw_extent := e\<rparr>
      in case (ti_jpeg_if l, ti_jpeg_len l) of
           (Some a, Some b) \<Rightarrow>
             let w2 = w1\<lparr>tw_extent := max e (sat_add64 a b)\<rparr>
             in if tw_thumb_off w = None then w2\<lparr>tw_thumb_off := Some a, tw_thumb_len := Some b\<rparr> else w2
         | _ \<Rightarrow> w1)"

text \<open>One directory: its entries are folded in order; its counters first.\<close>

definition tiff_directory :: "bool \<Rightarrow> (nat \<Rightarrow> nat \<Rightarrow> bytes) \<Rightarrow> nat \<Rightarrow> nat \<Rightarrow> nat \<Rightarrow> bytes \<Rightarrow> tiff_walk \<Rightarrow> tiff_walk \<times> tiff_ifd" where
  "tiff_directory be rd avail ifd_off count entries w =
     (let w1 = w\<lparr>tw_ifds := tw_ifds w + 1, tw_ifd_end := max (tw_ifd_end w) (ifd_off + 2 + count * 12 + 4)\<rparr>;
          r = fold (tiff_entry be rd avail entries) [0..<count] (w1, ifd_new)
      in (tiff_extents (snd r) (fst r), snd r))"

text \<open>\<^verbatim>\<open>walk_ifd_chain\<close>: \<open>k\<close> directories of the chain are left.\<close>

function tiff_chain :: "bool \<Rightarrow> (nat \<Rightarrow> nat \<Rightarrow> bytes) \<Rightarrow> nat \<Rightarrow> nat \<Rightarrow> nat \<Rightarrow> nat \<Rightarrow> tiff_walk \<Rightarrow> tiff_walk" where
  "tiff_chain be rd avail depth k ifd_off w =
     (if 4 < depth \<or> k = 0 then w
      else if ifd_off = 0 \<or> avail < ifd_off + 2 \<or> tw_ifd_budget w = 0 then w
      else
        let w1 = w\<lparr>tw_ifd_budget := tw_ifd_budget w - 1\<rparr>;
            count = unwrap_or (order_u16 be (rd ifd_off 2) 0) 0
        in if count = 0 \<or> 4096 < count then w1
           else
             let entries = rd (ifd_off + 2) (count * 12 + 4);
                 r = tiff_directory be rd avail ifd_off count entries w1;
                 w2 = fold (\<lambda>s v. if tw_ifd_budget v = 0 then v else tiff_chain be rd avail (depth + 1) 64 s v) (take 64 (ti_subs (snd r))) (fst r);
                 w3 = (case ti_exif (snd r) of None \<Rightarrow> w2 | Some e \<Rightarrow> tiff_chain be rd avail (depth + 1) 64 e w2);
                 following = unwrap_or (order_u32 be entries (count * 12)) 0
             in if following = 0 \<or> following \<le> ifd_off then w3 else tiff_chain be rd avail depth (k - 1) following w3)"
  by pat_completeness auto
termination
  by (relation "measures [\<lambda>(be, rd, avail, depth, k, off, w). 5 - depth, \<lambda>(be, rd, avail, depth, k, off, w). k]") auto

declare tiff_chain.simps [simp del]

section \<open>The validator\<close>

definition contains_text :: "ustring \<Rightarrow> string \<Rightarrow> bool" where
  "contains_text hay needle \<longleftrightarrow> list_ex (\<lambda>i. take (length needle) (drop i hay) = ustr needle) [0..<length hay + 1]"

definition ascii_upper :: "ustring \<Rightarrow> ustring" where
  "ascii_upper s = map (\<lambda>c. if 97 \<le> c \<and> c \<le> 122 then c - 32 else c) s"

definition tiff_refine :: "tiff_walk \<Rightarrow> string" where
  "tiff_refine w =
     (if tw_dng w then ''raw.dng''
      else case map_option ascii_upper (tw_make w) of
          None \<Rightarrow> ''image.tiff''
        | Some m \<Rightarrow>
            if contains_text m ''NIKON'' then ''raw.nef''
            else if contains_text m ''SONY'' then ''raw.arw''
            else if contains_text m ''CANON'' then ''raw.cr2''
            else if contains_text m ''OLYMPUS'' \<or> contains_text m ''OM DIGITAL'' then ''raw.orf''
            else if contains_text m ''PANASONIC'' then ''raw.rw2''
            else if contains_text m ''PENTAX'' \<or> contains_text m ''RICOH'' then ''raw.pef''
            else if contains_text m ''SAMSUNG'' then ''raw.srw''
            else if contains_text m ''HASSELBLAD'' then ''raw.3fr''
            else if contains_text m ''EPSON'' then ''raw.erf''
            else if contains_text m ''KODAK'' then ''raw.kdc''
            else if contains_text m ''FUJI'' then ''raw.raf''
            else ''image.tiff'')"

text \<open>The byte order, by the first four bytes; \<^const>\<open>True\<close> is big endian.\<close>

definition tiff_order :: "bytes \<Rightarrow> bool option" where
  "tiff_order head =
     (case get_slice head 0 4 of
        None \<Rightarrow> None
      | Some m \<Rightarrow>
          if m = [0x49, 0x49, 0x2A, 0x00] then Some False
          else if m = [0x4D, 0x4D, 0x00, 0x2A] then Some True
          else if m \<in> {[0x49, 0x49, 0x52, 0x4F], [0x49, 0x49, 0x52, 0x53]} then Some False
          else if m = [0x4D, 0x4D, 0x4F, 0x52] then Some True
          else if take 2 m = [0x49, 0x49] \<and> drop 3 m = [0x00] then Some False
          else None)"

definition tiff_meta :: "nat \<Rightarrow> tiff_walk \<Rightarrow> metadata" where
  "tiff_meta base_abs w =
     (let m = no_metadata\<lparr>md_date := tw_date w, md_model := tw_model w\<rparr>
      in case (tw_thumb_off w, tw_thumb_len w) of
           (Some off, Some len) \<Rightarrow> m\<lparr>md_thumb_offset := Some (sat_add64 base_abs off), md_thumb_len := Some len\<rparr>
         | _ \<Rightarrow> m)"

definition tiff_validate :: "ctx \<Rightarrow> verdict" where
  "tiff_validate c =
     (let head = ctx_read c 0 8 in
      case tiff_order head of
        None \<Rightarrow> reject
      | Some be \<Rightarrow>
          let avail = min (available c) (2 * 1024 * 1024 * 1024);
              w = tiff_chain be (ctx_read c) avail 0 64 (unwrap_or (order_u32 be head 4) 8) tiff_new
          in if tw_ifds w = 0 then reject
             else
               let stop = min (max (tw_extent w) (tw_ifd_end w)) avail in
               if stop < 8 then reject
               else
                 let v = (if avail < tw_extent w then Truncated else Full)
                 in with_meta (tiff_meta (cx_start c) w) (with_format (tiff_refine w) (accept stop v (if v = Full then 85 else 55))))"

text \<open>\<^verbatim>\<open>parse_exif\<close>: the same walk inside a buffer, for the two plain byte orders only.\<close>

definition exif_read :: "bytes \<Rightarrow> nat \<Rightarrow> nat \<Rightarrow> bytes" where
  "exif_read tiff off len = unwrap_or (get_slice tiff off (min (sat_add64 off len) (length tiff))) []"

definition parse_exif :: "bytes \<Rightarrow> nat \<Rightarrow> metadata" where
  "parse_exif tiff base_abs =
     (let magic = get_slice tiff 0 4 in
      if magic \<noteq> Some [0x49, 0x49, 0x2A, 0x00] \<and> magic \<noteq> Some [0x4D, 0x4D, 0x00, 0x2A] then no_metadata
      else
        let be = (magic = Some [0x4D, 0x4D, 0x00, 0x2A]) in
        tiff_meta base_abs (tiff_chain be (exif_read tiff) (length tiff) 0 64 (unwrap_or (order_u32 be tiff 4) 8) tiff_new))"

end
