(* ===== verification/CarveWalkers.thy ===== *)
theory CarveWalkers
  imports CarveTiff Dates
begin

text \<open>
  The validators that walk the structure of a file to its end (\<^verbatim>\<open>crates/reclaim-carve/src/validators\<close>: \<^verbatim>\<open>png.rs\<close>,
  \<^verbatim>\<open>gif.rs\<close>, \<^verbatim>\<open>jpeg.rs\<close>, \<^verbatim>\<open>tar.rs\<close>, \<^verbatim>\<open>wasm.rs\<close>, \<^verbatim>\<open>ogg.rs\<close>, \<^verbatim>\<open>mp3.rs\<close>, \<^verbatim>\<open>mpegts.rs\<close>, \<^verbatim>\<open>flac.rs\<close>, \<^verbatim>\<open>zip.rs\<close>,
  \<^verbatim>\<open>isobmff.rs\<close>) and the table-driven checksum (\<^verbatim>\<open>crc.rs\<close>). A counted loop of the code carries the number of rounds
  it has left.
\<close>

unbundle bit_operations_syntax

section \<open>The checksum\<close>

definition crc_shift :: "32 word \<Rightarrow> 32 word" where
  "crc_shift c = (if c AND 1 \<noteq> 0 then 0xEDB88320 XOR drop_bit 1 c else drop_bit 1 c)"

definition crc_table :: "32 word \<Rightarrow> 32 word" where
  "crc_table n = (crc_shift ^^ 8) n"

definition crc_lookup :: "32 word \<Rightarrow> byte \<Rightarrow> 32 word" where
  "crc_lookup c b = crc_table ((c XOR ucast b) AND 0xFF) XOR drop_bit 8 c"

definition crc32_table :: "bytes \<Rightarrow> nat" where
  "crc32_table data = unat (foldl crc_lookup 0xFFFFFFFF data XOR 0xFFFFFFFF)"

section \<open>PNG\<close>

definition png_magic :: bytes where
  "png_magic = [0x89, 0x50, 0x4E, 0x47, 0x0D, 0x0A, 0x1A, 0x0A]"

definition png_truncated :: "nat \<Rightarrow> bool \<Rightarrow> verdict" where
  "png_truncated pos first = (if first \<or> pos < 45 then reject else accept pos Truncated 60)"

function png_loop :: "ctx \<Rightarrow> nat \<Rightarrow> nat \<Rightarrow> nat \<Rightarrow> bool \<Rightarrow> bool \<Rightarrow> verdict" where
  "png_loop c cap k pos first suspect =
     (if k = 0 then png_truncated pos first
      else
        let hdr = ctx_read c pos 8 in
        if length hdr < 8 then png_truncated pos first
        else
          let len = unwrap_or (be_u32 hdr 0) (2 ^ 32 - 1);
              typ = unwrap_or (get_slice hdr 4 8) [];
              chunk_total = sat_add64 12 len
          in if cap < sat_add64 pos chunk_total then png_truncated pos first
             else if first \<and> typ \<noteq> ascii ''IHDR'' then reject
             else
               let want_crc = be_u32 (ctx_read c (pos + 8 + len) 4) 0;
                   checked = (len \<le> 16 * 1024 * 1024)
               in if checked \<and> Some (crc32_table (typ @ ctx_read c (pos + 8) len)) \<noteq> want_crc
                  then (if first then reject else png_truncated pos False)
                  else
                    let suspect1 = (suspect \<or> \<not> checked) in
                    if typ = ascii ''IEND''
                    then accept (pos + chunk_total) (if suspect1 then Suspect else Full) (if suspect1 then 70 else 97)
                    else png_loop c cap (k - 1) (sat_add64 pos chunk_total) False suspect1)"
  by pat_completeness auto
termination by (relation "measure (\<lambda>(c, cap, k, pos, first, suspect). k)") auto

declare png_loop.simps [simp del]

definition png_validate :: "ctx \<Rightarrow> verdict" where
  "png_validate c =
     (if ctx_read c 0 8 \<noteq> png_magic then reject
      else png_loop c (min (available c) (256 * 1024 * 1024)) 500000 8 True False)"

section \<open>GIF\<close>

definition gif_truncated :: "nat \<Rightarrow> verdict" where
  "gif_truncated pos = (if pos < 35 then reject else accept pos Truncated 45)"

function skip_subblocks :: "ctx \<Rightarrow> nat \<Rightarrow> nat \<Rightarrow> nat \<Rightarrow> nat option" where
  "skip_subblocks c cap k pos =
     (if k = 0 \<or> cap \<le> pos then None
      else case get_at (ctx_read c pos 1) 0 of
          None \<Rightarrow> None
        | Some n \<Rightarrow> if n = 0 then Some (pos + 1) else skip_subblocks c cap (k - 1) (pos + 1 + unat n))"
  by pat_completeness auto
termination by (relation "measure (\<lambda>(c, cap, k, pos). k)") auto

declare skip_subblocks.simps [simp del]

text \<open>The size of a colour table, from the packed field.\<close>

definition gif_table :: "byte \<Rightarrow> nat" where
  "gif_table packed = (if packed AND 0x80 \<noteq> 0 then 3 * 2 ^ (unat (packed AND 0x07) + 1) else 0)"

text \<open>One block: where its sub-blocks start and the position a failure reports.\<close>

definition gif_block :: "ctx \<Rightarrow> nat \<Rightarrow> byte option \<Rightarrow> (nat \<times> nat) option" where
  "gif_block c pos intro =
     (if intro = Some 0x21 then Some (pos + 2, pos + 2)
      else if intro = Some 0x2C then Some (pos + 10 + gif_table (unwrap_or (get_at (ctx_read c pos 10) 9) 0) + 1, pos)
      else None)"

function gif_loop :: "ctx \<Rightarrow> nat \<Rightarrow> nat \<Rightarrow> nat \<Rightarrow> verdict" where
  "gif_loop c cap k pos =
     (if k = 0 then gif_truncated pos
      else
        let intro = get_at (ctx_read c pos 1) 0 in
        if intro = Some 0x3B then accept (pos + 1) Full 90
        else case gif_block c pos intro of
            None \<Rightarrow> gif_truncated pos
          | Some (body, failed) \<Rightarrow>
              (case skip_subblocks c cap 1000000 body of
                 None \<Rightarrow> gif_truncated failed
               | Some p \<Rightarrow> if cap \<le> p then gif_truncated cap else gif_loop c cap (k - 1) p))"
  by pat_completeness auto
termination by (relation "measure (\<lambda>(c, cap, k, pos). k)") auto

declare gif_loop.simps [simp del]

definition gif_validate :: "ctx \<Rightarrow> verdict" where
  "gif_validate c =
     (let head = ctx_read c 0 13 in
      if get_slice head 0 6 \<noteq> Some (ascii ''GIF87a'') \<and> get_slice head 0 6 \<noteq> Some (ascii ''GIF89a'') then reject
      else gif_loop c (min (available c) (64 * 1024 * 1024)) 1000000 (13 + gif_table (unwrap_or (get_at head 10) 0)))"

section \<open>JPEG\<close>

definition jpeg_truncated :: "nat \<Rightarrow> bool \<Rightarrow> verdict" where
  "jpeg_truncated pos saw_sof = (if pos < 107 then reject else accept pos Truncated (if saw_sof then 55 else 35))"

text \<open>\<^verbatim>\<open>next_marker\<close>: a marker that is neither stuffing, fill nor a restart.\<close>

definition real_marker :: "bytes \<Rightarrow> nat \<Rightarrow> bool" where
  "real_marker buf i \<longleftrightarrow>
     get_at buf i = Some 0xFF \<and>
     (let nx = unwrap_or (get_at buf (i + 1)) 0 in nx \<noteq> 0x00 \<and> nx \<noteq> 0xFF \<and> \<not> (0xD0 \<le> nx \<and> nx \<le> 0xD7))"

function next_marker :: "ctx \<Rightarrow> nat \<Rightarrow> nat \<Rightarrow> nat option" where
  "next_marker c cap pos =
     (if cap \<le> pos then None
      else
        let want = min (cap - pos) search_win;
            buf = ctx_read c pos want
        in if buf = [] then None
           else case find (real_marker buf) [0..<length buf - 1] of
               Some i \<Rightarrow> Some (pos + i)
             | None \<Rightarrow> if want < search_win then None else next_marker c cap (pos + (want - 1)))"
  by pat_completeness auto
termination by (relation "measure (\<lambda>(c, cap, pos). cap - pos)") (auto simp: search_win_def)

declare next_marker.simps [simp del]

definition extract_exif :: "ctx \<Rightarrow> nat \<Rightarrow> nat \<Rightarrow> metadata \<Rightarrow> metadata" where
  "extract_exif c rel_off seg_len meta =
     (let payload = ctx_read c rel_off (min seg_len (128 * 1024)) in
      if length payload < 8 \<or> get_slice payload 0 6 \<noteq> Some (ascii ''Exif'' @ [0, 0]) then meta
      else parse_exif (drop 6 payload) (cx_start c + rel_off + 6))"

function jpeg_loop :: "ctx \<Rightarrow> nat \<Rightarrow> nat \<Rightarrow> nat \<Rightarrow> bool \<Rightarrow> bool \<Rightarrow> metadata \<Rightarrow> verdict" where
  "jpeg_loop c cap k pos sof sos meta =
     (if k = 0 \<or> cap < pos + 2 then jpeg_truncated pos sof
      else
        let m = ctx_read c pos 4 in
        if unwrap_or (get_at m 0) 0 \<noteq> 0xFF then
          (case next_marker c cap pos of
             Some p \<Rightarrow> jpeg_loop c cap (k - 1) p sof sos meta
           | None \<Rightarrow> jpeg_truncated pos sof)
        else
          let marker = unwrap_or (get_at m 1) 0;
              seg = unwrap_or (be_u16 m 2) 0
          in if marker = 0xD9 then with_meta meta (accept (pos + 2) Full (if sof \<and> sos then 96 else 82))
             else if marker = 0xFF then jpeg_loop c cap (k - 1) (pos + 1) sof sos meta
             else if marker = 0x01 \<or> (0xD0 \<le> marker \<and> marker \<le> 0xD7) then jpeg_loop c cap (k - 1) (pos + 2) sof sos meta
             else if marker = 0xD8 then jpeg_truncated pos sof
             else if marker = 0xDA then
               (if seg < 2 then jpeg_truncated pos sof
                else case next_marker c cap (pos + 2 + seg) of
                    Some p \<Rightarrow> jpeg_loop c cap (k - 1) p sof True meta
                  | None \<Rightarrow> jpeg_truncated (pos + 2 + seg) sof)
             else
               let sof1 = (sof \<or> (0xC0 \<le> marker \<and> marker \<le> 0xCF \<and> marker \<notin> {0xC4, 0xC8, 0xCC})) in
               if seg < 2 then jpeg_truncated pos sof1
               else jpeg_loop c cap (k - 1) (pos + 2 + seg) sof1 sos
                 (if marker = 0xE1 \<and> metadata_is_empty meta then extract_exif c (pos + 4) (seg - 2) meta else meta))"
  by pat_completeness auto
termination by (relation "measure (\<lambda>(c, cap, k, pos, sof, sos, meta). k)") auto

declare jpeg_loop.simps [simp del]

definition jpeg_validate :: "ctx \<Rightarrow> verdict" where
  "jpeg_validate c =
     (let head = ctx_read c 0 4 in
      if get_at head 0 \<noteq> Some 0xFF \<or> get_at head 1 \<noteq> Some 0xD8 then reject
      else
        let cap = min (available c) (256 * 1024 * 1024) in
        if cap < 4 then reject else jpeg_loop c cap 200000 2 False False no_metadata)"

section \<open>Archives\<close>

definition octal :: "bytes \<Rightarrow> nat \<Rightarrow> nat \<Rightarrow> nat" where
  "octal b off len =
     foldl (\<lambda>v x. v * 8 + (unat x - 48)) 0 (takeWhile (\<lambda>x. 0x30 \<le> x \<and> x \<le> 0x37) (take len (drop off b)))"

definition tar_checksum_ok :: "bytes \<Rightarrow> bool" where
  "tar_checksum_ok hdr \<longleftrightarrow>
     \<not> length hdr < 512 \<and>
     octal hdr 148 8 = sum_list (map (\<lambda>i. if 148 \<le> i \<and> i < 156 then 32 else unat (hdr ! i)) [0..<512])"

function tar_loop :: "ctx \<Rightarrow> nat \<Rightarrow> nat \<Rightarrow> nat \<Rightarrow> nat \<Rightarrow> verdict" where
  "tar_loop c cap k pos zero_blocks =
     (if k = 0 then accept (min pos cap) Truncated 50
      else if cap < pos + 512 then accept cap Truncated 45
      else
        let hdr = ctx_read c pos 512 in
        if list_all (\<lambda>b. b = 0) hdr then
          (if 2 \<le> zero_blocks + 1 then accept (pos + 512) Full 88 else tar_loop c cap (k - 1) (pos + 512) (zero_blocks + 1))
        else if \<not> tar_checksum_ok hdr then (if 512 \<le> pos then accept pos Full 70 else reject)
        else tar_loop c cap (k - 1) (pos + (512 + div_ceil (octal hdr 124 12) 512 * 512)) 0)"
  by pat_completeness auto
termination by (relation "measure (\<lambda>(c, cap, k, pos, zero_blocks). k)") auto

declare tar_loop.simps [simp del]

definition tar_validate :: "ctx \<Rightarrow> verdict" where
  "tar_validate c =
     (if \<not> tar_checksum_ok (ctx_read c 0 512) then reject
      else with_format ''archive.tar'' (tar_loop c (min (available c) (16 * 1024 * 1024 * 1024)) 20000000 0 0))"

text \<open>The central directory of a ZIP archive, to its end record.\<close>

definition zip_lfh :: bytes where "zip_lfh = [0x50, 0x4B, 0x03, 0x04]"
definition zip_cdh :: bytes where "zip_cdh = [0x50, 0x4B, 0x01, 0x02]"
definition zip_eocd :: bytes where "zip_eocd = [0x50, 0x4B, 0x05, 0x06]"

function size_from_central_dir :: "ctx \<Rightarrow> nat \<Rightarrow> nat \<Rightarrow> nat \<Rightarrow> nat option" where
  "size_from_central_dir c cap k pos =
     (if k = 0 then None
      else
        let h = ctx_read c pos 46; tg = get_slice h 0 4 in
        if tg = Some zip_cdh then
          let pos1 = pos + 46 + unwrap_or (le_u16 h 28) 0 + unwrap_or (le_u16 h 30) 0 + unwrap_or (le_u16 h 32) 0
          in if cap < pos1 then None else size_from_central_dir c cap (k - 1) pos1
        else if tg = Some zip_eocd then Some (pos + 22 + unwrap_or (le_u16 (ctx_read c pos 22) 20) 0)
        else None)"
  by pat_completeness auto
termination by (relation "measure (\<lambda>(c, cap, k, pos). k)") auto

declare size_from_central_dir.simps [simp del]

definition zip_refine :: "ustring list \<Rightarrow> ustring option \<Rightarrow> string" where
  "zip_refine names mimetype =
     (let has = (\<lambda>needle. list_ex (\<lambda>n. contains_text n needle) names);
          starts = (\<lambda>p. list_ex (\<lambda>n. take (length p) n = ustr p) names);
          mime = (\<lambda>needle. case mimetype of None \<Rightarrow> False | Some mt \<Rightarrow> contains_text mt needle)
      in if mime ''epub'' then ''doc.epub''
         else if mime ''vnd.oasis.opendocument'' then ''doc.odf''
         else if has ''Index/Document.iwa'' \<or> starts ''Index/'' then ''doc.iwork''
         else if has ''3D/3dmodel.model'' then ''model.3mf''
         else if has ''[Content_Types].xml'' then ''doc.ooxml''
         else ''archive.zip'')"

text \<open>The local headers: where the walk stopped, the names, the media type, whether it could not go on.\<close>

record zip_walk =
  zw_pos :: nat
  zw_names :: "ustring list"
  zw_mime :: "ustring option"
  zw_blocked :: bool

function zip_entries :: "ctx \<Rightarrow> nat \<Rightarrow> nat \<Rightarrow> zip_walk \<Rightarrow> zip_walk" where
  "zip_entries c cap k w =
     (if k = 0 then w
      else
        let pos = zw_pos w; h = ctx_read c pos 30 in
        if get_slice h 0 4 \<noteq> Some zip_lfh then w
        else
          let flags = unwrap_or (le_u16 h 6) 0;
              comp_size = unwrap_or (le_u32 h 18) 0;
              name_len = unwrap_or (le_u16 h 26) 0;
              extra_len = unwrap_or (le_u16 h 28) 0;
              name = latin1 (ctx_read c (pos + 30) (min name_len 1024));
              mime = (if k = 200000 \<and> name = ustr ''mimetype''
                      then Some (latin1 (ctx_read c (pos + 30 + name_len + extra_len) (min comp_size 128))) else zw_mime w);
              w1 = w\<lparr>zw_mime := mime, zw_names := (if length (zw_names w) < 64 then zw_names w @ [name] else zw_names w)\<rparr>;
              pos1 = pos + 30 + name_len + extra_len + comp_size
          in if flags AND 0x08 \<noteq> 0 then w1\<lparr>zw_blocked := True\<rparr>
             else if cap < pos1 + 4 then w1\<lparr>zw_pos := pos1, zw_blocked := True\<rparr>
             else zip_entries c cap (k - 1) (w1\<lparr>zw_pos := pos1\<rparr>))"
  by pat_completeness auto
termination by (relation "measure (\<lambda>(c, cap, k, w). k)") auto

declare zip_entries.simps [simp del]

definition zip_validate :: "ctx \<Rightarrow> verdict" where
  "zip_validate c =
     (let head = ctx_read c 0 4 in
      if head = zip_eocd then with_format ''archive.zip'' (accept 22 Full 60)
      else if head \<noteq> zip_lfh then reject
      else
        let cap = min (available c) (4 * 1024 * 1024 * 1024);
            w = zip_entries c cap 200000 \<lparr>zw_pos = 0, zw_names = [], zw_mime = None, zw_blocked = False\<rparr>;
            i = zip_refine (zw_names w) (zw_mime w)
        in case (if zw_blocked w then None else size_from_central_dir c cap 200000 (zw_pos w)) of
             Some total_len \<Rightarrow>
               with_format i (accept (min total_len cap) (if total_len \<le> cap then Full else Truncated) (if total_len \<le> cap then 90 else 55))
           | None \<Rightarrow> with_format i (accept (min cap (64 * 1024 * 1024)) Suspect 45))"

section \<open>WebAssembly\<close>

fun uleb_loop :: "bytes \<Rightarrow> nat \<Rightarrow> nat \<Rightarrow> (nat \<times> nat) option" where
  "uleb_loop [] i v = None"
| "uleb_loop (b # bs) i v =
     (let v1 = v OR push_bit (7 * i) (unat (b AND 0x7F)) in
      if b AND 0x80 = 0 then Some (v1, i + 1) else uleb_loop bs (i + 1) v1)"

text \<open>At most ten bytes are looked at; the caller passes five.\<close>

definition read_uleb :: "bytes \<Rightarrow> (nat \<times> nat) option" where
  "read_uleb b = uleb_loop (take 10 b) 0 0"

function wasm_loop :: "ctx \<Rightarrow> nat \<Rightarrow> nat \<Rightarrow> nat \<Rightarrow> verdict" where
  "wasm_loop c cap k pos =
     (let finish = (if pos < 8 then reject else accept pos Full 85) in
      if k = 0 \<or> cap \<le> pos then finish
      else
        let intro = ctx_read c pos 6 in
        if (case get_at intro 0 of None \<Rightarrow> True | Some b \<Rightarrow> 13 < b) then finish
        else case read_uleb (drop 1 intro) of
            None \<Rightarrow> finish
          | Some (len, n) \<Rightarrow> if cap < pos + 1 + n + len then accept cap Truncated 45 else wasm_loop c cap (k - 1) (pos + 1 + n + len))"
  by pat_completeness auto
termination by (relation "measure (\<lambda>(c, cap, k, pos). k)") auto

declare wasm_loop.simps [simp del]

definition wasm_validate :: "ctx \<Rightarrow> verdict" where
  "wasm_validate c =
     (let head = ctx_read c 0 8 in
      if get_slice head 0 4 \<noteq> Some [0x00, 0x61, 0x73, 0x6D] then reject
      else if get_slice head 4 8 \<noteq> Some [0x01, 0x00, 0x00, 0x00] then reject
      else with_format ''exec.wasm'' (wasm_loop c (min (available c) (512 * 1024 * 1024)) 100000 8))"

section \<open>Audio and video\<close>

definition ogg_refine :: "bytes \<Rightarrow> string" where
  "ogg_refine payload =
     (if starts_with payload (ascii ''OpusHead'') \<or> get_slice payload 1 7 = Some (ascii ''vorbis'') then ''audio.ogg''
      else if get_slice payload 1 7 = Some (ascii ''theora'') then ''video.ogv''
      else ''audio.ogg'')"

text \<open>The name is that of the first page.\<close>

function ogg_loop :: "ctx \<Rightarrow> nat \<Rightarrow> nat \<Rightarrow> nat \<Rightarrow> string option \<Rightarrow> verdict" where
  "ogg_loop c cap k pos named =
     (let finish = (if pos < 58 then reject else with_format (unwrap_or named ''audio.ogg'') (accept (min pos cap) Truncated 55)) in
      if k = 0 then finish
      else
        let hdr = ctx_read c pos 27 in
        if get_slice hdr 0 4 \<noteq> Some (ascii ''OggS'') then finish
        else
          let header_type = unwrap_or (get_at hdr 5) 0;
              nsegs = unat (unwrap_or (get_at hdr 26) 0);
              body = sum_list (map unat (ctx_read c (pos + 27) nsegs));
              i = (case named of None \<Rightarrow> ogg_refine (ctx_read c (pos + 27 + nsegs) 8) | Some n \<Rightarrow> n);
              stop = pos + (27 + nsegs + body)
          in if cap < stop then with_format i (accept cap Truncated 45)
             else if header_type AND 0x04 \<noteq> 0 then with_format i (accept stop Full 88)
             else ogg_loop c cap (k - 1) stop (Some i))"
  by pat_completeness auto
termination by (relation "measure (\<lambda>(c, cap, k, pos, named). k)") auto

declare ogg_loop.simps [simp del]

definition ogg_validate :: "ctx \<Rightarrow> verdict" where
  "ogg_validate c =
     (if ctx_read c 0 4 \<noteq> ascii ''OggS'' then reject
      else ogg_loop c (min (available c) (2 * 1024 * 1024 * 1024)) 5000000 0 None)"

definition mp3_bitrate :: "nat list list" where
  "mp3_bitrate = [[0, 32, 40, 48, 56, 64, 80, 96, 112, 128, 160, 192, 224, 256, 320, 0],
     [0, 8, 16, 24, 32, 40, 48, 56, 64, 80, 96, 112, 128, 144, 160, 0]]"

definition mp3_srate :: "nat list list" where
  "mp3_srate = [[44100, 48000, 32000, 0], [22050, 24000, 16000, 0], [11025, 12000, 8000, 0]]"

definition frame_len :: "bytes \<Rightarrow> nat option" where
  "frame_len h =
     (case (get_at h 1, get_at h 2) of
        (Some b1, Some b2) \<Rightarrow>
          let version_bits = unat (drop_bit 3 b1 AND 0x3) in
          if drop_bit 1 b1 AND 0x3 \<noteq> 1 then None
          else if version_bits = 1 then None
          else
            let vtab = (if version_bits = 3 then 0 else 1);
                srtab = (if version_bits = 3 then 0 else if version_bits = 2 then 1 else 2);
                bitrate = mp3_bitrate ! vtab ! unat (drop_bit 4 b2 AND 0xF);
                srate = mp3_srate ! srtab ! unat (drop_bit 2 b2 AND 0x3)
            in if bitrate = 0 \<or> srate = 0 then None
               else Some ((if version_bits = 3 then 144000 else 72000) * bitrate div srate + unat (drop_bit 1 b2 AND 0x1))
      | _ \<Rightarrow> None)"

definition syncsafe :: "bytes \<Rightarrow> nat" where
  "syncsafe b =
     (let v = (\<lambda>i. unat (unwrap_or (get_at b i) 0 AND 0x7F)) in push_bit 21 (v 0) OR push_bit 14 (v 1) OR push_bit 7 (v 2) OR v 3)"

text \<open>The frames: how many and where they end.\<close>

function mp3_frames :: "ctx \<Rightarrow> nat \<Rightarrow> nat \<Rightarrow> nat \<Rightarrow> nat \<Rightarrow> nat \<times> nat" where
  "mp3_frames c cap k pos frames =
     (if k = 0 then (pos, frames)
      else
        let h = ctx_read c pos 4 in
        if unwrap_or (get_at h 0) 0 \<noteq> 0xFF \<or> unwrap_or (get_at h 1) 0 AND 0xE0 \<noteq> 0xE0 then (pos, frames)
        else case frame_len h of
            None \<Rightarrow> (pos, frames)
          | Some len \<Rightarrow> if 4 \<le> len \<and> pos + len \<le> cap then mp3_frames c cap (k - 1) (pos + len) (frames + 1) else (pos, frames))"
  by pat_completeness auto
termination by (relation "measure (\<lambda>(c, cap, k, pos, frames). k)") auto

declare mp3_frames.simps [simp del]

definition mp3_validate :: "ctx \<Rightarrow> verdict" where
  "mp3_validate c =
     (let head = ctx_read c 0 10; id3 = (get_slice head 0 3 = Some (ascii ''ID3'')) in
      if \<not> id3 \<and> get_at head 0 \<noteq> Some 0xFF then reject
      else
        let start = (if id3 then 10 + syncsafe (ctx_read c 6 4) else 0);
            cap = min (available c) (1024 * 1024 * 1024);
            r = mp3_frames c cap 5000000 start 0
        in if snd r < 2 then
             (if 16 \<le> start \<and> ctx_read c 0 3 = ascii ''ID3'' then with_format ''audio.mp3'' (accept (min start cap) Suspect 40) else reject)
           else
             let stop = (if ctx_read c (fst r) 3 = ascii ''TAG'' then fst r + 128 else fst r)
             in with_meta no_metadata (with_format ''audio.mp3'' (accept (min stop cap) (if stop \<le> cap then Full else Truncated) 80)))"

text \<open>The packets of a transport stream: where they end and how many they are.\<close>

function ts_packets :: "ctx \<Rightarrow> nat \<Rightarrow> nat \<Rightarrow> nat \<Rightarrow> nat \<Rightarrow> nat \<Rightarrow> nat \<Rightarrow> nat \<times> nat" where
  "ts_packets c cap stride sync_off k pos packets =
     (if k = 0 then (pos, packets)
      else if get_at (ctx_read c (pos + sync_off) 1) 0 \<noteq> Some 0x47 then (pos, packets)
      else if cap < pos + stride then (cap, packets + 1)
      else ts_packets c cap stride sync_off (k - 1) (pos + stride) (packets + 1))"
  by pat_completeness auto
termination by (relation "measure (\<lambda>(c, cap, stride, sync_off, k, pos, packets). k)") auto

declare ts_packets.simps [simp del]

definition mpegts_validate :: "ctx \<Rightarrow> verdict" where
  "mpegts_validate c =
     (let probe = ctx_read c 0 (188 * 6) in
      if get_at probe 0 \<noteq> Some 0x47 \<and> get_at probe 4 \<noteq> Some 0x47 then reject
      else
        let stride = (if get_at probe 0 = Some 0x47 then 188 else 192);
            sync_off = (if stride = 192 then 4 else 0)
        in if list_ex (\<lambda>i. get_at probe (sync_off + i * stride) \<noteq> Some 0x47) [0..<5] then reject
           else
             let cap = min (available c) (16 * 1024 * 1024 * 1024);
                 r = ts_packets c cap stride sync_off 50000000 0 0
             in if snd r < 5 then reject else with_format ''video.mpeg_ts'' (accept (min (fst r) cap) Full 80))"

text \<open>The metadata blocks of a FLAC stream: where they end, or nothing when they are malformed.\<close>

function flac_blocks :: "ctx \<Rightarrow> nat \<Rightarrow> nat \<Rightarrow> nat \<Rightarrow> bool \<Rightarrow> nat option" where
  "flac_blocks c cap k pos first =
     (if k = 0 then Some pos
      else
        let hdr = ctx_read c pos 4 in
        case get_at hdr 0 of
          None \<Rightarrow> Some pos
        | Some b0 \<Rightarrow>
            if first \<and> b0 AND 0x7F \<noteq> 0 then None
            else
              let len = be_val [0, unwrap_or (get_at hdr 1) 0, unwrap_or (get_at hdr 2) 0, unwrap_or (get_at hdr 3) 0];
                  pos1 = pos + (4 + len)
              in if cap < pos1 then None
                 else if b0 AND 0x80 \<noteq> 0 then Some pos1
                 else flac_blocks c cap (k - 1) pos1 False)"
  by pat_completeness auto
termination by (relation "measure (\<lambda>(c, cap, k, pos, first). k)") auto

declare flac_blocks.simps [simp del]

definition flac_validate :: "ctx \<Rightarrow> verdict" where
  "flac_validate c =
     (if ctx_read c 0 4 \<noteq> ascii ''fLaC'' then reject
      else
        let cap = min (available c) (2 * 1024 * 1024 * 1024) in
        case flac_blocks c cap 4096 4 True of
          None \<Rightarrow> reject
        | Some pos \<Rightarrow> if pos < 42 then reject else with_format ''audio.flac'' (accept cap Suspect 55))"

section \<open>ISO base media files\<close>

definition is_box_type :: "bytes \<Rightarrow> bool" where
  "is_box_type t \<longleftrightarrow>
     list_all (\<lambda>x. (0x20 \<le> x \<and> x \<le> 0x7E) \<or> x = 0xA9) t \<and>
     list_ex (\<lambda>x. (0x30 \<le> x \<and> x \<le> 0x39) \<or> (0x41 \<le> x \<and> x \<le> 0x5A) \<or> (0x61 \<le> x \<and> x \<le> 0x7A)) t"

definition isobmff_refine :: "bytes option \<Rightarrow> bool \<Rightarrow> string" where
  "isobmff_refine brand saw_moov =
     (case brand of
        None \<Rightarrow> if saw_moov then ''video.mov'' else ''video.mp4''
      | Some b \<Rightarrow>
          if b = ascii ''qt  '' then ''video.mov''
          else if b = ascii ''crx '' then ''raw.cr3''
          else if b = ascii ''braw'' then ''raw.braw''
          else if b \<in> {ascii ''heic'', ascii ''heix'', ascii ''hevc'', ascii ''hevx'', ascii ''heim'', ascii ''heis'', ascii ''hevm'', ascii ''hevs'',
                       ascii ''mif1'', ascii ''msf1'', ascii ''avif'', ascii ''avis''} then ''image.heif''
          else if b \<in> {ascii ''M4A '', ascii ''M4B ''} then ''audio.m4a''
          else ''video.mp4'')"

definition isobmff_finalize :: "nat \<Rightarrow> bool \<Rightarrow> bool \<Rightarrow> bool \<Rightarrow> bytes option \<Rightarrow> validity \<Rightarrow> verdict" where
  "isobmff_finalize len saw_ftyp saw_moov saw_mdat brand v =
     (let base = (if saw_moov \<and> saw_mdat then 94 else if saw_ftyp then 80 else 66);
          score = (case v of Full \<Rightarrow> base | Truncated \<Rightarrow> base - 35 | Suspect \<Rightarrow> base - 45)
      in with_format (isobmff_refine brand saw_moov) (accept len v score))"

definition unix_to_date :: "nat \<Rightarrow> ustring" where
  "unix_to_date unix = (case civil_from_days (int (unix div 86400)) of (y, m, d) \<Rightarrow> ymd (nat y) (nat m) (nat d))"

definition mac_epoch_to_date :: "nat \<Rightarrow> ustring option" where
  "mac_epoch_to_date secs = (if secs < 2082844800 then None else Some (unix_to_date (secs - 2082844800)))"

function mvhd_loop :: "ctx \<Rightarrow> nat \<Rightarrow> nat \<Rightarrow> nat \<Rightarrow> metadata" where
  "mvhd_loop c moov_end k pos =
     (if k = 0 \<or> moov_end < pos + 8 then no_metadata
      else
        let hdr = ctx_read c pos 8; len = unwrap_or (be_u32 hdr 0) 0 in
        if len < 8 then no_metadata
        else if unwrap_or (get_slice hdr 4 8) [] = ascii ''mvhd'' then
          let body = ctx_read c (pos + 8) 20;
              ctime = (if unwrap_or (get_at body 0) 0 = 1 then unwrap_or (be_u64 body 4) 0 else unwrap_or (be_u32 body 4) 0)
          in no_metadata\<lparr>md_date := mac_epoch_to_date ctime\<rparr>
        else mvhd_loop c moov_end (k - 1) (sat_add64 pos len))"
  by pat_completeness auto
termination by (relation "measure (\<lambda>(c, moov_end, k, pos). k)") auto

declare mvhd_loop.simps [simp del]

definition mvhd_meta :: "ctx \<Rightarrow> nat \<Rightarrow> nat \<Rightarrow> metadata" where
  "mvhd_meta c moov_start moov_end = mvhd_loop c moov_end 4096 moov_start"

record box_walk =
  bw_pos :: nat
  bw_ftyp :: bool
  bw_moov :: bool
  bw_mdat :: bool
  bw_brand :: "bytes option"
  bw_range :: "(nat \<times> nat) option"
  bw_open :: bool

text \<open>The boxes at the top level; a box that runs over the end gives the verdict at once.\<close>

function box_loop :: "ctx \<Rightarrow> nat \<Rightarrow> nat \<Rightarrow> box_walk \<Rightarrow> verdict + box_walk" where
  "box_loop c cap k w =
     (if k = 0 \<or> cap < bw_pos w + 8 then Inr w
      else
        let pos = bw_pos w;
            hdr = ctx_read c pos 16;
            size32 = unwrap_or (be_u32 hdr 0) 0
        in case get_slice hdr 4 8 of
             None \<Rightarrow> Inr w
           | Some typ \<Rightarrow>
               if \<not> is_box_type typ then Inr w
               else
                 let header = (if size32 = 1 then 16 else 8);
                     box_size = (if size32 = 1 then unwrap_or (be_u64 hdr 8) 0 else if size32 = 0 then cap - pos else size32);
                     box_end = sat_add64 pos box_size
                 in if box_size < header then Inr w
                    else if cap < box_end then
                      Inl (if pos = 0 then reject else isobmff_finalize pos (bw_ftyp w) (bw_moov w) (bw_mdat w) (bw_brand w) Truncated)
                    else if typ = ascii ''ftyp'' \<and> 0 < pos then Inr w
                    else
                      let w1 = (if typ = ascii ''ftyp'' then
                                  w\<lparr>bw_ftyp := True,
                                    bw_brand := (if bw_brand w = None then get_slice (ctx_read c (pos + header) 4) 0 4 else bw_brand w)\<rparr>
                                else if typ = ascii ''moov'' then w\<lparr>bw_moov := True, bw_range := Some (pos + header, box_end)\<rparr>
                                else if typ = ascii ''mdat'' then w\<lparr>bw_mdat := True\<rparr>
                                else w)\<lparr>bw_pos := box_end\<rparr>
                      in if size32 = 0 then Inr (w1\<lparr>bw_open := True\<rparr>) else box_loop c cap (k - 1) w1)"
  by pat_completeness auto
termination by (relation "measure (\<lambda>(c, cap, k, w). k)") auto

declare box_loop.simps [simp del]

definition isobmff_validate :: "ctx \<Rightarrow> verdict" where
  "isobmff_validate c =
     (let cap = min (available c) (16 * 1024 * 1024 * 1024) in
      if cap < 16 then reject
      else case box_loop c cap 2000000
          \<lparr>bw_pos = 0, bw_ftyp = False, bw_moov = False, bw_mdat = False, bw_brand = None, bw_range = None, bw_open = False\<rparr> of
          Inl v \<Rightarrow> v
        | Inr w \<Rightarrow>
            if bw_pos w = 0 \<or> (\<not> bw_ftyp w \<and> \<not> bw_moov w \<and> \<not> bw_mdat w) then reject
            else
              let v = isobmff_finalize (bw_pos w) (bw_ftyp w) (bw_moov w) (bw_mdat w) (bw_brand w) (if bw_open w then Truncated else Full)
              in (case bw_range w of None \<Rightarrow> v | Some (s, e) \<Rightarrow> with_meta (mvhd_meta c s e) v))"

end
