(* ===== verification/CarveFormats.thy ===== *)
theory CarveFormats
  imports CarveText CarveWalkers
begin

text \<open>
  The table of the validators (\<^verbatim>\<open>crates/reclaim-carve/src/validators/mod.rs\<close>) and what holds of all of them: where
  an accepted file may end, and that only the one for disk images moves the start.
\<close>

section \<open>The table\<close>

definition validator_names :: "string list" where
  "validator_names =
     [''jpeg'', ''png'', ''gif'', ''ico'', ''bmp'', ''tiff'', ''isobmff'', ''riff'', ''iff'', ''zip'', ''ole2'', ''pdf'', ''sqlite'', ''text'',
      ''gzip'', ''bzip2'', ''xz'', ''zstd'', ''sevenz'', ''rar'', ''tar'', ''macho'', ''elf'', ''pe'', ''dmg'', ''bplist'', ''mp3'', ''flac'',
      ''ogg'', ''mkv'', ''mpegts'', ''iso'', ''wasm'']"

definition has_validator :: "string \<Rightarrow> bool" where
  "has_validator name \<longleftrightarrow> name \<in> set validator_names"

text \<open>The two functions of \<^verbatim>\<open>memchr::memmem\<close> come first.\<close>

definition carve_dispatch :: "(bytes \<Rightarrow> bytes \<Rightarrow> nat list) \<Rightarrow> (bytes \<Rightarrow> bytes \<Rightarrow> nat option) \<Rightarrow> string \<Rightarrow> ctx \<Rightarrow> verdict" where
  "carve_dispatch find_iter finder name c =
     (if name = ''jpeg'' then jpeg_validate c
      else if name = ''png'' then png_validate c
      else if name = ''gif'' then gif_validate c
      else if name = ''ico'' then ico_validate c
      else if name = ''bmp'' then bmp_validate c
      else if name = ''tiff'' then tiff_validate c
      else if name = ''isobmff'' then isobmff_validate c
      else if name = ''riff'' then riff_validate c
      else if name = ''iff'' then iff_validate c
      else if name = ''zip'' then zip_validate c
      else if name = ''ole2'' then ole2_validate c
      else if name = ''pdf'' then pdf_validate find_iter finder c
      else if name = ''sqlite'' then sqlite_validate c
      else if name = ''text'' then text_validate c
      else if name = ''gzip'' then gzip_validate c
      else if name = ''bzip2'' then bzip2_validate c
      else if name = ''xz'' then xz_validate find_iter c
      else if name = ''zstd'' then zstd_validate c
      else if name = ''sevenz'' then sevenz_validate c
      else if name = ''rar'' then rar_validate c
      else if name = ''tar'' then tar_validate c
      else if name = ''macho'' then macho_validate c
      else if name = ''elf'' then elf_validate c
      else if name = ''pe'' then pe_validate c
      else if name = ''dmg'' then dmg_validate c
      else if name = ''bplist'' then bplist_validate c
      else if name = ''mp3'' then mp3_validate c
      else if name = ''flac'' then flac_validate c
      else if name = ''ogg'' then ogg_validate c
      else if name = ''mkv'' then mkv_validate c
      else if name = ''mpegts'' then mpegts_validate c
      else if name = ''iso'' then carve_iso_validate c
      else if name = ''wasm'' then wasm_validate c
      else reject)"

end
