(* ===== verification/CarveEngine.thy ===== *)
theory CarveEngine
  imports CarveFormats
begin

text \<open>
  The carve engine (\<^verbatim>\<open>crates/reclaim-carve/src/matcher.rs\<close>, \<^verbatim>\<open>engine.rs\<close>): the anchors of the catalog, candidates
  found in a buffer, their validation, the claims of complete files, the scan with its cursor, the
  inference of the block size. The read-ahead cache in front of the source serves its bytes, so the engine
  reads through a \<^verbatim>\<open>Reader\<close>. The catalog with its two constants, the automaton and the two forms of the
  substring search are the fields of an environment.
\<close>

unbundle bit_operations_syntax

section \<open>The environment\<close>

record carve_env =
  ce_sigs :: "sig_def list"
  ce_max_anchor :: nat
  ce_max_span :: nat
  ce_ac :: "bytes list \<Rightarrow> bytes \<Rightarrow> (nat \<times> nat) list"
  ce_find :: "bytes \<Rightarrow> bytes \<Rightarrow> nat option"
  ce_find_iter :: "bytes \<Rightarrow> bytes \<Rightarrow> nat list"

definition carve_chunk :: nat where "carve_chunk = 8 * 1024 * 1024"
definition fallback_cap :: nat where "fallback_cap = 1024 * 1024"
definition min_anchor_len :: nat where "min_anchor_len = 2"

definition carve_overlap :: "carve_env \<Rightarrow> nat" where
  "carve_overlap E = max (ce_max_span E) (ce_max_anchor E) - 1"

section \<open>The matcher\<close>

record candidate =
  ca_sig :: nat
  ca_header :: nat
  ca_start :: nat

text \<open>The anchors in the order in which they are met, each with the headers that share it.\<close>

type_synonym anchor_table = "bytes list \<times> (nat \<times> nat) list list"

fun index_of :: "'a \<Rightarrow> 'a list \<Rightarrow> nat option" where
  "index_of x [] = None"
| "index_of x (y # ys) = (if x = y then Some 0 else map_option Suc (index_of x ys))"

definition add_header :: "nat \<times> nat \<times> header_pat \<Rightarrow> anchor_table \<Rightarrow> anchor_table" where
  "add_header e t =
     (case e of
        (si, hi, h) \<Rightarrow>
          if length (hp_anchor h) < min_anchor_len then t
          else case index_of (hp_anchor h) (fst t) of
              Some i \<Rightarrow> (fst t, (snd t)[i := snd t ! i @ [(si, hi)]])
            | None \<Rightarrow> (fst t @ [hp_anchor h], snd t @ [[(si, hi)]]))"

definition catalog_headers :: "sig_def list \<Rightarrow> (nat \<times> nat \<times> header_pat) list" where
  "catalog_headers sigs =
     concat (map (\<lambda>si. map (\<lambda>hi. (si, hi, sg_headers (sigs ! si) ! hi)) [0..<length (sg_headers (sigs ! si))]) [0..<length sigs])"

definition matcher :: "sig_def list \<Rightarrow> anchor_table" where
  "matcher sigs = fold add_header (catalog_headers sigs) ([], [])"

text \<open>A header whose anchor was met at \<open>at\<close>: its candidate, unless the file would start before the source or the
  full pattern is inside the buffer and does not match.\<close>

definition header_candidate :: "sig_def list \<Rightarrow> nat \<Rightarrow> bytes \<Rightarrow> nat \<Rightarrow> nat \<times> nat \<Rightarrow> candidate option" where
  "header_candidate sigs base buf at r =
     (case get_at sigs (fst r) of
        None \<Rightarrow> None
      | Some sig \<Rightarrow> (case get_at (sg_headers sig) (snd r) of
            None \<Rightarrow> None
          | Some h \<Rightarrow>
              if at < hp_anchor_pos h \<or> at - hp_anchor_pos h < hp_offset h then None
              else
                let patt = at - hp_anchor_pos h;
                    window = (if patt < base then None else get_slice buf (patt - base) (patt - base + length (hp_bytes h)))
                in if (case window of None \<Rightarrow> False | Some w \<Rightarrow> \<not> confirm h w) then None
                   else Some \<lparr>ca_sig = fst r, ca_header = snd r, ca_start = patt - hp_offset h\<rparr>))"

definition scan_buffer :: "carve_env \<Rightarrow> nat \<Rightarrow> bytes \<Rightarrow> candidate list" where
  "scan_buffer E base buf =
     (let t = matcher (ce_sigs E) in
      concat (map (\<lambda>m. List.map_filter (header_candidate (ce_sigs E) base buf (sat_add64 base (snd m))) (unwrap_or (get_at (snd t) (fst m)) []))
        (ce_ac E (fst t) buf)))"

section \<open>Options\<close>

record carve_options =
  co_brute :: bool
  co_block_size :: nat
  co_families :: "string list"
  co_sig_ids :: "string list"
  co_keep :: bool
  co_max :: nat
  co_range :: "(nat \<times> nat) option"

definition carve_defaults :: carve_options where
  "carve_defaults = \<lparr>co_brute = False, co_block_size = 0, co_families = [], co_sig_ids = [], co_keep = True,
     co_max = 4 * 1024 * 1024 * 1024, co_range = None\<rparr>"

definition family_allowed :: "string \<Rightarrow> carve_options \<Rightarrow> bool" where
  "family_allowed family opts \<longleftrightarrow> co_families opts = [] \<or> family \<in> set (co_families opts)"

definition sig_allowed :: "sig_def \<Rightarrow> carve_options \<Rightarrow> bool" where
  "sig_allowed sig opts \<longleftrightarrow>
     \<not> (co_families opts \<noteq> [] \<and> sg_family sig \<notin> set (co_families opts)) \<and>
     \<not> (co_sig_ids opts \<noteq> [] \<and> sg_id sig \<notin> set (co_sig_ids opts))"

section \<open>One candidate\<close>

text \<open>\<^verbatim>\<open>fallback\<close>: the search for a footer, window by window. A footer is shorter than a window, of one
  mebibyte, so the last test, which makes the recursion terminate and which the code does not have, changes nothing.\<close>

function footer_loop :: "carve_env \<Rightarrow> ctx \<Rightarrow> bytes \<Rightarrow> nat \<Rightarrow> nat \<Rightarrow> nat option" where
  "footer_loop E c ft search pos =
     (if search \<le> pos then None
      else
        let win = 1024 * 1024; want = min (search - pos) win in
        case ce_find E (ctx_read c pos want) ft of
          Some m \<Rightarrow> Some (pos + m + length ft)
        | None \<Rightarrow> if want < win \<or> want \<le> max (length ft) 1 then None else footer_loop E c ft search (pos + (want - max (length ft) 1)))"
  by pat_completeness auto
termination
  by (relation "measure (\<lambda>(E, c, ft, search, pos). search - pos)") auto

declare footer_loop.simps [simp del]

definition fallback :: "carve_env \<Rightarrow> ctx \<Rightarrow> verdict" where
  "fallback E c =
     (let avail = available c in
      if sg_strategy (cx_sig c) = Footer then
        (case sg_footer (cx_sig c) of
           Some ft \<Rightarrow> (case footer_loop E c (ft_bytes ft) (min (ft_search_max ft) avail) 0 of
               Some stop \<Rightarrow> accept stop Full 65
             | None \<Rightarrow> accept (min avail fallback_cap) Truncated 30)
         | None \<Rightarrow> accept (min avail fallback_cap) Truncated 30)
      else if sg_footer_anchored (cx_sig c) then reject
      else accept (min avail fallback_cap) Suspect 30)"

definition run_one :: "carve_env \<Rightarrow> reader \<Rightarrow> nat \<Rightarrow> sig_def \<Rightarrow> carve_options \<Rightarrow> carved_file option" where
  "run_one E rd start0 sig opts =
     (let max_len = min (rd_len rd - start0) (co_max opts) in
      if max_len = 0 then None
      else
        let c = \<lparr>cx_reader = rd, cx_start = start0, cx_max = max_len, cx_sig = sig\<rparr>;
            v = (case sg_validator sig of
                   Some name \<Rightarrow> if has_validator name then carve_dispatch (ce_find_iter E) (ce_find E) name c else fallback E c
                 | None \<Rightarrow> fallback E c)
        in if \<not> vd_accept v \<or> vd_len v = 0 then None
           else if vd_len v < sg_min_size sig then None
           else
             let start = unwrap_or (vd_start v) start0;
                 format = unwrap_or (vd_format v) (sg_id sig);
                 named = unwrap_or (by_id (ce_sigs E) format) sig;
                 suspect_io = snd (rd_flags rd start (min 512 (vd_len v)))
             in Some \<lparr>cf_offset = start, cf_len = vd_len v, cf_format = format, cf_family = sg_family named, cf_ext = primary_ext named,
                  cf_validity = (if suspect_io \<and> vd_validity v = Full then Suspect else vd_validity v), cf_score = vd_score v,
                  cf_meta = vd_meta v, cf_block_aligned = (start mod 512 = 0)\<rparr>)"

definition pick_better :: "carved_file option \<Rightarrow> carved_file \<Rightarrow> carved_file option" where
  "pick_better cur new =
     (case cur of
        None \<Rightarrow> Some new
      | Some c \<Rightarrow>
          if cf_score c < cf_score new \<or> (cf_score new = cf_score c \<and> cf_len c < cf_len new) then Some new else Some c)"

text \<open>The signatures of one offset; every validator runs once.\<close>

fun identify_loop :: "carve_env \<Rightarrow> reader \<Rightarrow> nat \<Rightarrow> carve_options \<Rightarrow> bool \<Rightarrow> nat list \<Rightarrow> string list \<Rightarrow> carved_file option \<Rightarrow> carved_file option" where
  "identify_loop E rd start opts aligned [] seen best = best"
| "identify_loop E rd start opts aligned (si # sis) seen best =
     (case get_at (ce_sigs E) si of
        None \<Rightarrow> identify_loop E rd start opts aligned sis seen best
      | Some sig \<Rightarrow>
          let vname = unwrap_or (sg_validator sig) [] in
          if \<not> sig_allowed sig opts then identify_loop E rd start opts aligned sis seen best
          else if \<not> co_brute opts \<and> sg_block_aligned sig \<and> \<not> aligned then identify_loop E rd start opts aligned sis seen best
          else if vname \<noteq> [] \<and> vname \<in> set seen then identify_loop E rd start opts aligned sis seen best
          else identify_loop E rd start opts aligned sis (if vname \<noteq> [] then seen @ [vname] else seen)
            (case run_one E rd start sig opts of None \<Rightarrow> best | Some cf \<Rightarrow> pick_better best cf))"

text \<open>\<^verbatim>\<open>identify_from\<close>: a uniform block starts no file.\<close>

definition identify_from :: "carve_env \<Rightarrow> reader \<Rightarrow> nat \<Rightarrow> nat list \<Rightarrow> carve_options \<Rightarrow> nat \<Rightarrow> carved_file option" where
  "identify_from E rd start sis opts block_size =
     (let aligned = (block_size = 0 \<or> start mod block_size = 0);
          head = rd_read rd start 64
      in if \<not> co_brute opts \<and> (head = [] \<or> list_all (\<lambda>b. b = hd head) head) then None
         else identify_loop E rd start opts aligned sis [] None)"

definition anchored_here :: "carve_env \<Rightarrow> reader \<Rightarrow> nat \<Rightarrow> nat list" where
  "anchored_here E rd start =
     map ca_sig (filter (\<lambda>c. ca_start c = start) (scan_buffer E start (rd_read rd start (min (ce_max_span E) (64 * 1024)))))"

definition identify_one :: "carve_env \<Rightarrow> reader \<Rightarrow> nat \<Rightarrow> carve_options \<Rightarrow> nat \<Rightarrow> carved_file option" where
  "identify_one E rd start opts block_size = identify_from E rd start (anchored_here E rd start) opts block_size"

text \<open>\<^verbatim>\<open>identify_at\<close>: every accepted result, the best first; the sort is stable.\<close>

fun identify_all :: "carve_env \<Rightarrow> reader \<Rightarrow> nat \<Rightarrow> carve_options \<Rightarrow> nat list \<Rightarrow> string list \<Rightarrow> carved_file list" where
  "identify_all E rd start opts [] seen = []"
| "identify_all E rd start opts (si # sis) seen =
     (case get_at (ce_sigs E) si of
        None \<Rightarrow> identify_all E rd start opts sis seen
      | Some sig \<Rightarrow>
          let vname = unwrap_or (sg_validator sig) [] in
          if vname \<noteq> [] \<and> vname \<in> set seen then identify_all E rd start opts sis seen
          else
            (case run_one E rd start sig opts of None \<Rightarrow> [] | Some cf \<Rightarrow> [cf]) @
            identify_all E rd start opts sis (if vname \<noteq> [] then seen @ [vname] else seen))"

definition better_first :: "carved_file \<Rightarrow> carved_file \<Rightarrow> bool" where
  "better_first a b \<longleftrightarrow> cf_score b < cf_score a \<or> (cf_score a = cf_score b \<and> cf_len b \<le> cf_len a)"

fun insert_better :: "carved_file \<Rightarrow> carved_file list \<Rightarrow> carved_file list" where
  "insert_better x [] = [x]"
| "insert_better x (y # ys) = (if better_first x y then x # y # ys else y # insert_better x ys)"

definition identify_at :: "carve_env \<Rightarrow> reader \<Rightarrow> nat \<Rightarrow> nat \<Rightarrow> carved_file list" where
  "identify_at E rd start max_len =
     foldr insert_better (identify_all E rd start (carve_defaults\<lparr>co_max := max_len, co_brute := True\<rparr>) (anchored_here E rd start) []) []"

section \<open>The scan\<close>

text \<open>\<^verbatim>\<open>BTreeMap::entry(k).or_default().push(v)\<close> on a list sorted by its keys.\<close>

fun bt_push :: "nat \<Rightarrow> nat \<Rightarrow> (nat \<times> nat list) list \<Rightarrow> (nat \<times> nat list) list" where
  "bt_push k v [] = [(k, [v])]"
| "bt_push k v ((j, vs) # m) =
     (if k < j then (k, [v]) # (j, vs) # m else if k = j then (j, vs @ [v]) # m else (j, vs) # bt_push k v m)"

definition suppressed :: "(nat \<times> nat) list \<Rightarrow> nat \<Rightarrow> bool" where
  "suppressed claims start \<longleftrightarrow> list_ex (\<lambda>(s, e). s < start \<and> start < e) claims"

definition prune_claims :: "(nat \<times> nat) list \<Rightarrow> nat \<Rightarrow> (nat \<times> nat) list" where
  "prune_claims claims cursor =
     (let kept = filter (\<lambda>(s, e). cursor < e) claims in if 64 < length kept then drop (length kept - 64) kept else kept)"

definition chunk_candidates :: "nat \<Rightarrow> nat \<Rightarrow> candidate list \<Rightarrow> (nat \<times> nat list) list" where
  "chunk_candidates pos scan_start cands =
     fold (\<lambda>c m. if (pos \<le> ca_start c \<and> ca_start c - pos < carve_chunk) \<or> (ca_start c < pos \<and> pos = scan_start)
                 then bt_push (ca_start c) (ca_sig c) m else m) cands []"

text \<open>The statistical pass: a block that looks like text behind one that does not.\<close>

definition text_boundary :: "nat \<Rightarrow> bytes \<Rightarrow> nat \<Rightarrow> nat \<Rightarrow> bool" where
  "text_boundary base buf bs b =
     (let rel = b - base;
          sample = unwrap_or (get_slice buf rel (min (rel + 512) (length buf))) []
      in looks_like_text sample \<and>
         (if base + bs \<le> b then
            let pr = rel - bs;
                prev = unwrap_or (get_slice buf pr (pr + min 512 (length buf - pr))) []
            in \<not> looks_like_text prev
          else True))"

function text_blocks :: "nat \<Rightarrow> bytes \<Rightarrow> nat \<Rightarrow> nat \<Rightarrow> nat \<Rightarrow> nat \<Rightarrow> (nat \<times> nat list) list \<Rightarrow> (nat \<times> nat list) list" where
  "text_blocks base buf bs scan_end text_sig b m =
     (if \<not> (b < base + carve_chunk \<and> b < scan_end) \<or> bs = 0 then m
      else text_blocks base buf bs scan_end text_sig (b + bs) (if text_boundary base buf bs b then bt_push b text_sig m else m))"
  by pat_completeness auto
termination
  by (relation "measure (\<lambda>(base, buf, bs, scan_end, text_sig, b, m). base + carve_chunk - b)") auto

declare text_blocks.simps [simp del]

definition sig_index :: "carve_env \<Rightarrow> string \<Rightarrow> nat option" where
  "sig_index E i = index_of i (map sg_id (ce_sigs E))"

definition text_pass :: "carve_env \<Rightarrow> nat \<Rightarrow> bytes \<Rightarrow> nat \<Rightarrow> nat \<Rightarrow> carve_options \<Rightarrow> (nat \<times> nat list) list \<Rightarrow> (nat \<times> nat list) list" where
  "text_pass E base buf block_size scan_end opts m =
     (if \<not> family_allowed ''doc'' opts \<and> ''doc.txt'' \<notin> set (co_sig_ids opts) \<and> (co_families opts \<noteq> [] \<or> co_sig_ids opts \<noteq> []) then m
      else case sig_index E ''doc.txt'' of
          None \<Rightarrow> m
        | Some text_sig \<Rightarrow>
            let bs = max block_size 512 in text_blocks base buf bs scan_end text_sig (div_ceil base bs * bs) m)"

record carve_progress =
  cp_cursor :: nat
  cp_scanned :: nat
  cp_total :: nat
  cp_found :: nat

record carve_state =
  ks_found :: nat
  ks_claims :: "(nat \<times> nat) list"
  ks_out :: "carved_file list"
  ks_progress :: "carve_progress list"

text \<open>One offset with its signatures.\<close>

definition carve_offset :: "carve_env \<Rightarrow> reader \<Rightarrow> carve_options \<Rightarrow> nat \<Rightarrow> nat \<times> nat list \<Rightarrow> carve_state \<Rightarrow> carve_state" where
  "carve_offset E rd opts block_size e st =
     (if suppressed (ks_claims st) (fst e) then st
      else case identify_from E rd (fst e) (snd e) opts block_size of
          None \<Rightarrow> st
        | Some cf \<Rightarrow>
            if \<not> co_keep opts \<and> cf_validity cf \<noteq> Full then st
            else
              let claims = (if cf_validity cf = Full \<and> 0 < cf_len cf then ks_claims st @ [(cf_offset cf, carved_end cf)] else ks_claims st)
              in st\<lparr>ks_claims := prune_claims claims (fst e), ks_found := ks_found st + 1, ks_out := ks_out st @ [cf]\<rparr>)"

definition carve_step :: "carve_env \<Rightarrow> reader \<Rightarrow> carve_options \<Rightarrow> nat \<Rightarrow> nat \<times> nat \<Rightarrow> nat \<Rightarrow> carve_state \<Rightarrow> carve_state" where
  "carve_step E rd opts block_size span pos st =
     (let want = min (snd span - pos) (carve_chunk + carve_overlap E);
          buf = rd_read rd pos want;
          offsets = text_pass E pos buf block_size (snd span) opts (chunk_candidates pos (fst span) (scan_buffer E pos buf));
          st1 = fold (carve_offset E rd opts block_size) offsets st;
          cursor = min (sat_add64 pos carve_chunk) (snd span)
      in st1\<lparr>ks_progress := ks_progress st1 @
           [\<lparr>cp_cursor = cursor, cp_scanned = cursor - fst span, cp_total = snd span - fst span, cp_found = ks_found st1\<rparr>]\<rparr>)"

text \<open>The loop over the chunks; \<open>cancel n\<close> is what the flag reads the \<open>n\<close>-th time. A position is below the largest 64-bit
  number while something is left to scan. The answer is the cursor, whether the scan was interrupted, and the state.\<close>

function carve_loop ::
  "carve_env \<Rightarrow> reader \<Rightarrow> carve_options \<Rightarrow> nat \<Rightarrow> nat \<times> nat \<Rightarrow> (nat \<Rightarrow> bool) \<Rightarrow> nat \<Rightarrow> nat \<Rightarrow> carve_state \<Rightarrow> nat \<times> bool \<times> carve_state" where
  "carve_loop E rd opts block_size span cancel n pos st =
     (if \<not> (pos < snd span \<and> pos < u64_max) then (pos, False, st)
      else if cancel n then (pos, True, st)
      else carve_loop E rd opts block_size span cancel (n + 1) (sat_add64 pos carve_chunk) (carve_step E rd opts block_size span pos st))"
  by pat_completeness auto
termination
  by (relation "measure (\<lambda>(E, rd, opts, block_size, span, cancel, n, pos, st). u64_max - pos)") (auto simp: sat_add64_def carve_chunk_def)

declare carve_loop.simps [simp del]

record scan_outcome =
  so_cursor :: nat
  so_found :: nat
  so_interrupted :: bool
  so_block_size :: nat

definition carve_start :: carve_state where
  "carve_start = \<lparr>ks_found = 0, ks_claims = [], ks_out = [], ks_progress = []\<rparr>"

definition carve_range :: "carve_options \<Rightarrow> nat \<Rightarrow> nat \<times> nat" where
  "carve_range opts len = (case co_range opts of Some (a, b) \<Rightarrow> (min a len, min b len) | None \<Rightarrow> (0, len))"

definition carve_block_size :: "carve_options \<Rightarrow> nat \<Rightarrow> nat" where
  "carve_block_size opts sector_size = (if co_block_size opts = 0 then max sector_size 1 else co_block_size opts)"

definition carve_scan :: "carve_env \<Rightarrow> reader \<Rightarrow> nat \<Rightarrow> carve_options \<Rightarrow> nat \<Rightarrow> (nat \<Rightarrow> bool) \<Rightarrow> scan_outcome \<times> carve_state" where
  "carve_scan E rd sector_size opts resume_from cancel =
     (let block_size = carve_block_size opts sector_size;
          span = carve_range opts (rd_len rd)
      in case carve_loop E rd opts block_size span cancel 0 (max resume_from (fst span)) carve_start of
           (pos, interrupted, st) \<Rightarrow>
             (\<lparr>so_cursor = min pos (snd span), so_found = ks_found st, so_interrupted = interrupted, so_block_size = block_size\<rparr>, st))"

section \<open>The block size\<close>

text \<open>The offsets of the complete files of one chunk, until there are twelve; the flag leaves both loops.\<close>

fun infer_starts :: "carve_env \<Rightarrow> reader \<Rightarrow> nat \<Rightarrow> nat list \<Rightarrow> nat list \<Rightarrow> bool \<times> nat list" where
  "infer_starts E rd sector [] offsets = (False, offsets)"
| "infer_starts E rd sector (fs # r) offsets =
     (case identify_one E rd fs carve_defaults sector of
        Some cf \<Rightarrow>
          if cf_validity cf = Full then
            (if 12 \<le> length (offsets @ [cf_offset cf]) then (True, offsets @ [cf_offset cf]) else infer_starts E rd sector r (offsets @ [cf_offset cf]))
          else infer_starts E rd sector r offsets
      | None \<Rightarrow> infer_starts E rd sector r offsets)"

function infer_loop :: "carve_env \<Rightarrow> reader \<Rightarrow> nat \<Rightarrow> nat \<Rightarrow> nat \<Rightarrow> nat list \<Rightarrow> nat list" where
  "infer_loop E rd sector limit pos offsets =
     (if limit \<le> pos \<or> u64_max \<le> pos then offsets
      else
        let buf = rd_read rd pos (min (limit - pos) (carve_chunk + carve_overlap E));
            starts = remdups_adj (sort (map ca_start (filter (\<lambda>c. wsub64 (ca_start c) pos < carve_chunk) (scan_buffer E pos buf))))
        in case infer_starts E rd sector starts offsets of
             (True, offsets1) \<Rightarrow> offsets1
           | (False, offsets1) \<Rightarrow> infer_loop E rd sector limit (sat_add64 pos carve_chunk) offsets1)"
  by pat_completeness auto
termination
  by (relation "measure (\<lambda>(E, rd, sector, limit, pos, offsets). u64_max - pos)") (auto simp: sat_add64_def carve_chunk_def)

declare infer_loop.simps [simp del]

definition infer_block_size :: "carve_env \<Rightarrow> reader \<Rightarrow> nat \<Rightarrow> nat" where
  "infer_block_size E rd sector_size =
     (let sector = max sector_size 1;
          offsets = infer_loop E rd sector (min (rd_len rd) (128 * 1024 * 1024)) 0 []
      in if length offsets < 3 then sector
         else
           let g = fold (\<lambda>x a. gcd_loop a x) offsets (hd offsets) in
           if g < sector \<or> g mod sector \<noteq> 0 then sector
           else let clamped = max (min g (1024 * 1024)) sector in (if clamped < 2 ^ 32 then clamped else sector))"

end
