(* ===== verification/CarveFormatFacts.thy ===== *)
theory CarveFormatFacts
  imports CarveFormats
begin

text \<open>
  What holds of the validators: an accepted file keeps the start of its candidate and ends inside the available
  bytes, or at most a fixed number of bytes behind them; the trailer of a disk image moves the start.
\<close>

unbundle bit_operations_syntax

section \<open>Readers\<close>

text \<open>A reader answers as many bytes as it is asked for.\<close>

definition reader_ok :: "reader \<Rightarrow> bool" where
  "reader_ok rd \<longleftrightarrow> (\<forall>off n. length (rd_read rd off n) = n)"

lemma length_ctx_read: "reader_ok (cx_reader c) \<Longrightarrow> length (ctx_read c rel n) = n"
  by (simp add: reader_ok_def ctx_read_def)

section \<open>Verdicts that keep the start\<close>

definition verdict_ok :: "nat \<Rightarrow> ctx \<Rightarrow> verdict \<Rightarrow> bool" where
  "verdict_ok k c v \<longleftrightarrow> verdict_within k c v \<and> keeps_start v"

lemma verdict_ok_simps [simp]:
  "verdict_ok k c reject"
  "verdict_ok k c (accept n v s) \<longleftrightarrow> n \<le> available c + k"
  "verdict_ok k c (with_format f w) = verdict_ok k c w"
  "verdict_ok k c (with_meta m w) = verdict_ok k c w"
  by (simp_all add: verdict_ok_def)

lemma verdict_ok_sized [simp]: "verdict_ok k c (sized_verdict n (available c) a b)"
  by (simp add: sized_verdict_def)

lemma verdict_ok_mono: "verdict_ok k c v \<Longrightarrow> k \<le> m \<Longrightarrow> verdict_ok m c v"
  by (auto simp: verdict_ok_def intro: verdict_within_mono)

text \<open>A case distinction keeps what its branches have.\<close>

lemma verdict_ok_if: "(b \<Longrightarrow> verdict_ok k c v) \<Longrightarrow> (\<not> b \<Longrightarrow> verdict_ok k c w) \<Longrightarrow> verdict_ok k c (if b then v else w)"
  by simp

lemma verdict_ok_option: "verdict_ok k c v \<Longrightarrow> (\<And>x. y = Some x \<Longrightarrow> verdict_ok k c (f x)) \<Longrightarrow> verdict_ok k c (case y of None \<Rightarrow> v | Some x \<Rightarrow> f x)"
  by (cases y) simp_all

lemma min_le_fst [simp]: "min (min a b) d \<le> (a::nat)" "min d (min a b) \<le> a"
  by simp_all

section \<open>Files sized by their header\<close>

lemma bmp_ok: "verdict_ok 0 c (bmp_validate c)"
  unfolding bmp_validate_def Let_def by (intro verdict_ok_if) simp_all

lemma riff_ok: "verdict_ok 0 c (riff_validate c)"
proof -
  have "verdict_ok 0 c (riff_finalize c n i s)" for n i s by (simp add: riff_finalize_def)
  then show ?thesis unfolding riff_validate_def Let_def by (intro verdict_ok_if) simp_all
qed

lemma iff_ok: "verdict_ok 0 c (iff_validate c)"
  unfolding iff_validate_def Let_def by (intro verdict_ok_if) simp_all

lemma ole2_ok: "verdict_ok 0 c (ole2_validate c)"
  unfolding ole2_validate_def Let_def by (intro verdict_ok_if) simp_all

lemma sqlite_ok: "verdict_ok 0 c (sqlite_validate c)"
  unfolding sqlite_validate_def Let_def by (intro verdict_ok_if) simp_all

lemma sevenz_ok: "verdict_ok 0 c (sevenz_validate c)"
  unfolding sevenz_validate_def Let_def by (intro verdict_ok_if) simp_all

lemma carve_iso_ok: "verdict_ok 0 c (carve_iso_validate c)"
  unfolding carve_iso_validate_def Let_def by (intro verdict_ok_if) simp_all

lemma bplist_ok: "verdict_ok 0 c (bplist_validate c)"
  unfolding bplist_validate_def Let_def by (intro verdict_ok_if) simp_all

lemma bzip2_ok: "verdict_ok 0 c (bzip2_validate c)"
  unfolding bzip2_validate_def Let_def by (intro verdict_ok_if) simp_all

lemma rar_ok: "verdict_ok 0 c (rar_validate c)"
  unfolding rar_validate_def Let_def by (intro verdict_ok_if) simp_all

lemma zstd_ok: "verdict_ok 0 c (zstd_validate c)"
  unfolding zstd_validate_def Let_def by (intro verdict_ok_if) simp_all

lemma gzip_ok: "verdict_ok 0 c (gzip_validate c)"
  unfolding gzip_validate_def Let_def by (intro verdict_ok_if) simp_all

lemma xz_ok: "verdict_ok 0 c (xz_validate find_iter c)"
  unfolding xz_validate_def Let_def by (intro verdict_ok_if verdict_ok_option) simp_all

lemma pdf_ok: "verdict_ok 0 c (pdf_validate find_iter finder c)"
  unfolding pdf_validate_def Let_def by (intro verdict_ok_if) simp_all

lemma mkv_ok: "verdict_ok 0 c (mkv_validate c)"
  unfolding mkv_validate_def Let_def by (intro verdict_ok_if) (simp_all split: option.split)

lemma pe_ok: "verdict_ok 0 c (pe_validate c)"
  unfolding pe_validate_def Let_def by (intro verdict_ok_if) simp_all

lemma elf_ok: "verdict_ok 0 c (elf_validate c)"
  unfolding elf_validate_def Let_def by (intro verdict_ok_if) simp_all

lemma macho_ok: "verdict_ok 0 c (macho_validate c)"
proof -
  have f: "verdict_ok 0 c (macho_finalize n (available c) i s)" for n i s by (simp add: macho_finalize_def)
  then have "verdict_ok 0 c (macho_thin c (available c) be w)" for be w
    unfolding macho_thin_def Let_def by (intro verdict_ok_if) simp_all
  moreover have "verdict_ok 0 c (macho_fat c (available c))"
    using f unfolding macho_fat_def Let_def by (intro verdict_ok_if) simp_all
  ultimately show ?thesis unfolding macho_validate_def Let_def by (intro verdict_ok_if) simp_all
qed

lemma ico_entries_le: "dir_end \<le> stop \<Longrightarrow> ico_entries c avail dir_end is stop = Some s \<Longrightarrow> s \<le> max stop avail"
proof (induction c avail dir_end "is" stop rule: ico_entries.induct)
  case (2 c avail dir_end i "is" stop)
  then show ?case by (simp add: Let_def split: if_splits) fastforce
qed simp

lemma ico_entries_some: "is \<noteq> [] \<Longrightarrow> ico_entries c avail dir_end is stop = Some s \<Longrightarrow> dir_end \<le> avail"
  by (cases "is") (auto simp: Let_def split: if_splits)

lemma ico_ok: "verdict_ok 0 c (ico_validate c)"
proof -
  have "s \<le> available c" if "ico_entries c (available c) (6 + n * 16) [0..<n] (6 + n * 16) = Some s" "n \<noteq> 0" for n s
    using ico_entries_le [OF _ that(1)] ico_entries_some [OF _ that(1)] that(2) by simp
  then show ?thesis unfolding ico_validate_def Let_def by (intro verdict_ok_if verdict_ok_option) simp_all
qed

lemma dmg_within: "verdict_within 512 c (dmg_validate c)"
proof -
  have "sat_add64 (cx_start c) 512 \<le> cx_start c + available c + 512" by (simp add: sat_add64_def)
  then have "verdict_within 512 c (with_start (sat_add64 (cx_start c) 512 - n) (with_format f (accept n v s)))" if "n \<le> sat_add64 (cx_start c) 512" for n f v s
    using that by (simp add: verdict_within_def with_start_def with_format_def accept_def)
  then show ?thesis unfolding dmg_validate_def Let_def by simp
qed

section \<open>Files walked to their end\<close>

lemma png_loop_ok: "pos \<le> cap \<Longrightarrow> cap \<le> available c \<Longrightarrow> cap < u64_max \<Longrightarrow> verdict_ok 0 c (png_loop c cap k pos first suspect)"
proof (induction k arbitrary: pos first suspect)
  case 0
  then show ?case by (subst png_loop.simps) (simp add: png_truncated_def)
next
  case (Suc k)
  have t: "verdict_ok 0 c (png_truncated pos b)" for b using Suc.prems by (simp add: png_truncated_def)
  have "pos + sat_add64 12 n \<le> available c" "sat_add64 pos (sat_add64 12 n) \<le> cap" if "\<not> cap < sat_add64 pos (sat_add64 12 n)" for n
    using that Suc.prems by (simp_all add: sat_add64_def)
  then show ?case using Suc by (subst png_loop.simps) (simp add: Let_def t)
qed

lemma png_ok: "verdict_ok 0 c (png_validate c)"
proof -
  let ?cap = "min (available c) (256 * 1024 * 1024)"
  have "verdict_ok 0 c (png_loop c ?cap 500000 8 True False)"
  proof (cases "8 \<le> ?cap")
    case False
    then have "?cap < sat_add64 8 (sat_add64 12 n)" for n by (simp add: sat_add64_def)
    then show ?thesis by (subst png_loop.simps) (simp add: Let_def png_truncated_def)
  qed (simp add: png_loop_ok)
  then show ?thesis by (simp add: png_validate_def)
qed

lemma tar_loop_ok: "cap \<le> available c \<Longrightarrow> verdict_ok 0 c (tar_loop c cap k pos zb)"
proof (induction k arbitrary: pos zb)
  case (Suc k)
  then show ?case by (subst tar_loop.simps) (simp add: Let_def)
qed (subst tar_loop.simps, simp)

lemma tar_ok: "verdict_ok 0 c (tar_validate c)"
  by (simp add: tar_validate_def tar_loop_ok)

lemma ogg_loop_ok: "cap \<le> available c \<Longrightarrow> verdict_ok 0 c (ogg_loop c cap k pos named)"
proof (induction k arbitrary: pos named)
  case (Suc k)
  then show ?case by (subst ogg_loop.simps) (simp add: Let_def min.coboundedI2)
qed (subst ogg_loop.simps, simp add: min.coboundedI2)

lemma ogg_ok: "verdict_ok 0 c (ogg_validate c)"
  by (simp add: ogg_validate_def ogg_loop_ok)

lemma mp3_ok: "verdict_ok 0 c (mp3_validate c)"
  unfolding mp3_validate_def Let_def by (intro verdict_ok_if) simp_all

lemma mpegts_ok: "verdict_ok 0 c (mpegts_validate c)"
  unfolding mpegts_validate_def Let_def by (intro verdict_ok_if) simp_all

lemma flac_ok: "verdict_ok 0 c (flac_validate c)"
  unfolding flac_validate_def Let_def by (intro verdict_ok_if verdict_ok_option) simp_all

lemma tiff_ok: "verdict_ok 0 c (tiff_validate c)"
  unfolding tiff_validate_def Let_def by (intro verdict_ok_if verdict_ok_option) simp_all

lemma isobmff_finalize_ok: "verdict_ok k c (isobmff_finalize n a b d brand v) \<longleftrightarrow> n \<le> available c + k"
  by (simp add: isobmff_finalize_def Let_def)

lemma box_loop_ok:
  "cap \<le> available c \<Longrightarrow> bw_pos w \<le> cap \<Longrightarrow> (case box_loop c cap k w of Inl v \<Rightarrow> verdict_ok 0 c v | Inr w1 \<Rightarrow> bw_pos w1 \<le> cap)"
proof (induction k arbitrary: w)
  case (Suc k)
  then show ?case
    by (subst box_loop.simps) (simp add: Let_def isobmff_finalize_ok split: option.split)
qed (subst box_loop.simps, simp)

lemma isobmff_ok: "verdict_ok 0 c (isobmff_validate c)"
proof -
  let ?cap = "min (available c) (16 * 1024 * 1024 * 1024)"
  let ?w = "\<lparr>bw_pos = 0, bw_ftyp = False, bw_moov = False, bw_mdat = False, bw_brand = None, bw_range = None, bw_open = False\<rparr>"
  have "case box_loop c ?cap 2000000 ?w of Inl v \<Rightarrow> verdict_ok 0 c v | Inr w1 \<Rightarrow> bw_pos w1 \<le> ?cap"
    by (rule box_loop_ok) simp_all
  then show ?thesis
    unfolding isobmff_validate_def Let_def by (auto simp: isobmff_finalize_ok split: sum.splits option.split)
qed

section \<open>Files that may end behind the available bytes\<close>

lemma zip_ok: "verdict_ok 22 c (zip_validate c)"
  unfolding zip_validate_def Let_def by (intro verdict_ok_if verdict_ok_option) simp_all

lemma wasm_loop_ok: "cap \<le> available c \<Longrightarrow> pos \<le> max cap 8 \<Longrightarrow> verdict_ok 8 c (wasm_loop c cap k pos)"
proof (induction k arbitrary: pos)
  case (Suc k)
  then show ?case by (subst wasm_loop.simps) (auto simp: Let_def split: option.split)
qed (subst wasm_loop.simps, auto simp: Let_def)

lemma wasm_ok: "verdict_ok 8 c (wasm_validate c)"
  by (simp add: wasm_validate_def Let_def wasm_loop_ok)

lemma gif_table_le: "gif_table p \<le> 768"
proof -
  have "p AND 7 \<le> 7" by (rule word_and_le1)
  then have "unat (p AND 7) \<le> 7" by (simp add: word_le_nat_alt)
  then have "(2::nat) ^ (unat (p AND 7) + 1) \<le> 2 ^ 8" by (intro power_increasing) simp_all
  then show ?thesis by (simp add: gif_table_def)
qed

lemma gif_loop_ok: "cap \<le> available c \<Longrightarrow> pos \<le> max cap 781 \<Longrightarrow> verdict_ok 783 c (gif_loop c cap k pos)"
proof (induction k arbitrary: pos)
  case (Suc k)
  have t: "n \<le> max cap 781 + 2 \<Longrightarrow> verdict_ok 783 c (gif_truncated n)" for n using Suc.prems by (auto simp: gif_truncated_def)
  have "p \<le> pos + 2" if "gif_block c pos i = Some (b, p)" for i b p
    using that by (auto simp: gif_block_def split: if_splits)
  then show ?case using Suc
    by (subst gif_loop.simps) (fastforce simp: Let_def intro: t split: option.split)
qed (subst gif_loop.simps, auto simp: gif_truncated_def)

lemma gif_ok: "verdict_ok 783 c (gif_validate c)"
  using gif_table_le by (simp add: gif_validate_def Let_def gif_loop_ok le_max_iff_disj)

lemma next_marker_less: "next_marker c cap pos = Some p \<Longrightarrow> reader_ok (cx_reader c) \<Longrightarrow> p < cap"
proof (induction c cap pos rule: next_marker.induct)
  case (1 c cap pos)
  let ?want = "min (cap - pos) search_win"
  have g: "\<not> cap \<le> pos" using 1(2) by (subst (asm) next_marker.simps) (auto split: if_splits)
  note run = next_marker.simps [of c cap pos, unfolded Let_def if_not_P [OF g]]
  have len: "length (ctx_read c pos ?want) = ?want" by (rule length_ctx_read [OF 1(3)])
  show ?case
  proof (cases "find (real_marker (ctx_read c pos ?want)) [0..<length (ctx_read c pos ?want) - 1]")
    case None
    then have r: "next_marker c cap (pos + (?want - 1)) = Some p" "ctx_read c pos ?want \<noteq> []" "\<not> ?want < search_win"
      using 1(2) unfolding run by (auto split: if_splits)
    show ?thesis by (rule 1(1) [OF g refl refl r(2) None r(3) r(1) 1(3)])
  next
    case (Some i)
    then have "i < length (ctx_read c pos ?want) - 1" by (auto simp: find_Some_iff)
    then show ?thesis using Some 1(2) len g unfolding run by (auto split: if_splits)
  qed
qed

lemma be16_or_0: "unwrap_or (be_u16 b off) 0 < 65536"
  by (cases "be_u16 b off") (auto dest: be_u16_bound)

lemma jpeg_loop_ok:
  "cap \<le> available c \<Longrightarrow> reader_ok (cx_reader c) \<Longrightarrow> pos \<le> cap + 65535 \<Longrightarrow> verdict_ok 65535 c (jpeg_loop c cap k pos sof sos meta)"
proof (induction k arbitrary: pos sof sos meta)
  case 0
  then show ?case by (subst jpeg_loop.simps) (simp add: jpeg_truncated_def)
next
  case (Suc k)
  have t: "n \<le> cap + 65535 \<Longrightarrow> verdict_ok 65535 c (jpeg_truncated n b)" for n b using Suc.prems by (simp add: jpeg_truncated_def)
  have n: "next_marker c cap q = Some p \<Longrightarrow> p \<le> cap + 65535" for p q
    using next_marker_less [of c cap q p] Suc.prems(2) by simp
  have s: "pos + 2 + unwrap_or (be_u16 b off) 0 \<le> cap + 65535" if "\<not> (Suc k = 0 \<or> cap < pos + 2)" for b off
    using that be16_or_0 [of b off] by simp
  show ?case
  proof (cases "Suc k = 0 \<or> cap < pos + 2")
    case True
    then show ?thesis using t Suc.prems by (subst jpeg_loop.simps) simp
  next
    case False
    note run = jpeg_loop.simps [of c cap "Suc k" pos sof sos meta, unfolded Let_def if_not_P [OF False]]
    have a: "pos + 2 \<le> cap" using False by simp
    note ih = Suc.IH [OF Suc.prems(1,2)]
    show ?thesis
      unfolding run diff_Suc_1
      by (intro verdict_ok_if verdict_ok_option t ih s [OF False]) (use a Suc.prems(1) in \<open>auto dest: n\<close>)
  qed
qed

lemma jpeg_ok: "reader_ok (cx_reader c) \<Longrightarrow> verdict_ok 65535 c (jpeg_validate c)"
  unfolding jpeg_validate_def Let_def by (intro verdict_ok_if) (simp_all add: jpeg_loop_ok)

section \<open>Text\<close>

text \<open>The statistical validator keeps the contract of a validator.\<close>

lemma utf8_len_pos: "utf8_len b = Some n \<Longrightarrow> 0 < n"
  by (auto simp: utf8_len_def split: if_splits)

lemma text_scan_le: "i \<le> length buf \<Longrightarrow> fst (text_scan buf i p) \<le> length buf"
proof (induction buf i p rule: text_scan.induct)
  case (1 buf i p)
  then show ?case by (subst text_scan.simps) (auto simp: Let_def split: option.split)
qed

lemma text_run_le: "reader_ok (cx_reader c) \<Longrightarrow> pos \<le> cap \<Longrightarrow> fst (text_run c cap pos p) \<le> cap"
proof (induction c cap pos p rule: text_run.induct)
  case (1 c cap pos p)
  show ?case
  proof (cases "cap \<le> pos")
    case True
    then show ?thesis using 1(4) by (subst text_run.simps) simp
  next
    case False
    let ?want = "min (cap - pos) text_win"
    let ?buf = "ctx_read c pos ?want"
    have len: "length ?buf = ?want" using 1(3) by (simp add: ctx_read_def reader_ok_def)
    note run = text_run.simps [of c cap pos p, unfolded Let_def if_not_P [OF False]]
    show ?thesis
    proof (cases "?buf = []")
      case True
      then show ?thesis using 1(4) unfolding run by simp
    next
      case ne: False
      obtain i p1 r where sc: "text_scan ?buf 0 p = (i, p1, r)" by (cases "text_scan ?buf 0 p")
      have "i \<le> length ?buf" using text_scan_le [of 0 ?buf p] sc by simp
      then have i: "pos + i \<le> cap" using len False by linarith
      have b: "pos + length ?buf \<le> cap" using len False by linarith
      show ?thesis
        using 1(1) [OF False refl refl ne sc [symmetric] refl] 1(2) [OF False refl refl ne sc [symmetric] refl] 1(3) i b ne
        unfolding run sc by (cases r) auto
    qed
  qed
qed

lemma text_ok: "reader_ok (cx_reader c) \<Longrightarrow> verdict_ok 0 c (text_validate c)"
proof -
  assume ok: "reader_ok (cx_reader c)"
  let ?cap = "min (available c) text_max"
  obtain pos p b where r: "text_run c ?cap 0 0 = (pos, p, b)" by (cases "text_run c ?cap 0 0")
  have "pos \<le> available c" using text_run_le [OF ok, of 0 ?cap 0] r by simp
  then show ?thesis unfolding text_validate_def Let_def r by simp
qed

section \<open>The table\<close>

text \<open>How far behind the available bytes the validator of a name may end a file.\<close>

definition format_slack :: "string \<Rightarrow> nat" where
  "format_slack name =
     (if name = ''jpeg'' then 65535 else if name = ''gif'' then 783 else if name = ''dmg'' then 512
      else if name = ''zip'' then 22 else if name = ''wasm'' then 8 else 0)"

lemmas validators_ok =
  bmp_ok riff_ok iff_ok ole2_ok sqlite_ok sevenz_ok carve_iso_ok bplist_ok bzip2_ok rar_ok zstd_ok gzip_ok xz_ok pdf_ok mkv_ok pe_ok elf_ok
  macho_ok ico_ok png_ok tar_ok ogg_ok mp3_ok mpegts_ok flac_ok tiff_ok isobmff_ok zip_ok wasm_ok gif_ok jpeg_ok text_ok

lemma carve_dispatch_ok:
  assumes "reader_ok (cx_reader c)" "name \<noteq> ''dmg''"
  shows "verdict_ok (format_slack name) c (carve_dispatch find_iter finder name c)"
  unfolding carve_dispatch_def by (intro verdict_ok_if) (simp_all add: format_slack_def validators_ok assms)

lemma carve_dispatch_within:
  assumes "reader_ok (cx_reader c)"
  shows "verdict_within (format_slack name) c (carve_dispatch find_iter finder name c)"
proof (cases "name = ''dmg''")
  case True
  then show ?thesis using dmg_within by (simp add: carve_dispatch_def format_slack_def)
next
  case False
  then show ?thesis using carve_dispatch_ok [OF assms False] by (simp add: verdict_ok_def)
qed

end
