(* ===== verification/CarveFacts.thy ===== *)
theory CarveFacts
  imports CarveEngine CarveFormatFacts
begin

text \<open>
  Facts about the carve engine: the anchor table and the candidates of a buffer, results inside the source,
  the claims of complete files.
\<close>

unbundle bit_operations_syntax

section \<open>What the external searches promise\<close>

text \<open>The automaton reports every occurrence of every pattern, overlapping ones included; the substring search answers a
  place where the needle is.\<close>

definition occurs_at :: "bytes \<Rightarrow> bytes \<Rightarrow> nat \<Rightarrow> bool" where
  "occurs_at p buf s \<longleftrightarrow> s + length p \<le> length buf \<and> take (length p) (drop s buf) = p"

definition automaton_ok :: "(bytes list \<Rightarrow> bytes \<Rightarrow> (nat \<times> nat) list) \<Rightarrow> bool" where
  "automaton_ok ac \<longleftrightarrow> (\<forall>ps buf. set (ac ps buf) = {(i, s). i < length ps \<and> occurs_at (ps ! i) buf s})"

definition find_ok :: "(bytes \<Rightarrow> bytes \<Rightarrow> nat option) \<Rightarrow> bool" where
  "find_ok f \<longleftrightarrow> (\<forall>buf p s. f buf p = Some s \<longrightarrow> occurs_at p buf s)"

section \<open>The anchor table\<close>

lemma index_of_Some: "index_of x xs = Some i \<Longrightarrow> i < length xs \<and> xs ! i = x"
  by (induction xs arbitrary: i) (auto split: if_splits)

lemma index_of_None: "index_of x xs = None \<longleftrightarrow> x \<notin> set xs"
  by (induction xs) (auto split: if_splits)

text \<open>Every entry lies under the anchor of its header, and every header with an anchor long enough has one.\<close>

definition table_ok :: "(nat \<times> nat \<times> header_pat) list \<Rightarrow> anchor_table \<Rightarrow> bool" where
  "table_ok hs t \<longleftrightarrow>
     length (snd t) = length (fst t) \<and>
     (\<forall>i < length (fst t). set (snd t ! i) = {(si, hi). \<exists>h. (si, hi, h) \<in> set hs \<and> min_anchor_len \<le> length (hp_anchor h) \<and> hp_anchor h = fst t ! i}) \<and>
     (\<forall>(si, hi, h) \<in> set hs. min_anchor_len \<le> length (hp_anchor h) \<longrightarrow> hp_anchor h \<in> set (fst t)) \<and>
     distinct (fst t)"

lemma table_ok_empty: "table_ok [] ([], [])"
  by (simp add: table_ok_def)

lemma table_ok_add:
  assumes "table_ok hs t"
  shows "table_ok (hs @ [e]) (add_header e t)"
proof -
  obtain si hi h where e: "e = (si, hi, h)" by (cases e)
  obtain ps rs where t: "t = (ps, rs)" by (cases t)
  note ok = assms [unfolded table_ok_def t fst_conv snd_conv]
  show ?thesis
  proof (cases "length (hp_anchor h) < min_anchor_len")
    case True
    then show ?thesis using ok by (auto simp: table_ok_def add_header_def e t)
  next
    case False
    show ?thesis
    proof (cases "index_of (hp_anchor h) ps")
      case (Some i)
      note i = index_of_Some [OF Some]
      have other: "hp_anchor h \<noteq> ps ! j" if "j < length ps" "j \<noteq> i" for j
        using that i ok nth_eq_iff_index_eq by metis
      have mem: "hp_anchor h \<in> set ps" using i nth_mem by metis
      show ?thesis
        using ok False Some i other mem by (auto simp: table_ok_def add_header_def e t nth_list_update)
    next
      case None
      then have new: "hp_anchor h \<notin> set ps" by (simp add: index_of_None)
      have none: "\<not> (\<exists>h'. (a, b, h') \<in> set hs \<and> min_anchor_len \<le> length (hp_anchor h') \<and> hp_anchor h' = hp_anchor h)" for a b
        using ok new by fastforce
      show ?thesis
        using ok False None new none by (auto simp: table_ok_def add_header_def e t nth_append less_Suc_eq)
    qed
  qed
qed

lemma table_ok_fold: "table_ok hs t \<Longrightarrow> table_ok (hs @ es) (fold add_header es t)"
proof (induction es arbitrary: hs t)
  case (Cons e es)
  then show ?case using Cons.IH [OF table_ok_add [OF Cons.prems]] by simp
qed simp

lemma matcher_ok: "table_ok (catalog_headers sigs) (matcher sigs)"
  using table_ok_fold [OF table_ok_empty, of "catalog_headers sigs"] by (simp add: matcher_def)

lemma catalog_headers_mem:
  "(si, hi, h) \<in> set (catalog_headers sigs) \<longleftrightarrow> si < length sigs \<and> hi < length (sg_headers (sigs ! si)) \<and> h = sg_headers (sigs ! si) ! hi"
  by (auto simp: catalog_headers_def image_iff)

section \<open>The candidates of a buffer\<close>

definition catalog_header :: "sig_def list \<Rightarrow> nat \<Rightarrow> nat \<Rightarrow> header_pat option" where
  "catalog_header sigs si hi = (case get_at sigs si of None \<Rightarrow> None | Some s \<Rightarrow> get_at (sg_headers s) hi)"

lemma catalog_header_mem: "catalog_header sigs si hi = Some h \<longleftrightarrow> (si, hi, h) \<in> set (catalog_headers sigs)"
  by (auto simp: catalog_header_def catalog_headers_mem get_at_def)

text \<open>The anchor of a header is a run of literal bytes of its pattern, as \<^verbatim>\<open>extract_anchor\<close> of the build takes it.\<close>

definition header_wf :: "header_pat \<Rightarrow> bool" where
  "header_wf h \<longleftrightarrow> length (hp_mask h) = length (hp_bytes h) \<and> hp_anchor_pos h + length (hp_anchor h) \<le> length (hp_bytes h) \<and>
     (\<forall>k < length (hp_anchor h). hp_bytes h ! (hp_anchor_pos h + k) = hp_anchor h ! k \<and> hp_mask h ! (hp_anchor_pos h + k) = 0xFF)"

lemma confirm_iff:
  assumes "length (hp_mask h) = length (hp_bytes h)"
  shows "confirm h w \<longleftrightarrow> length (hp_bytes h) \<le> length w \<and>
    (\<forall>k < length (hp_bytes h). w ! k AND hp_mask h ! k = hp_bytes h ! k AND hp_mask h ! k)"
  using assms by (auto simp: confirm_def list_all_length not_less)

lemma confirm_anchor:
  assumes "header_wf h" "confirm h w"
  shows "occurs_at (hp_anchor h) w (hp_anchor_pos h)"
proof -
  have len: "hp_anchor_pos h + length (hp_anchor h) \<le> length w"
    using assms by (auto simp: header_wf_def confirm_iff)
  have "w ! (hp_anchor_pos h + k) = hp_anchor h ! k" if "k < length (hp_anchor h)" for k
  proof -
    let ?i = "hp_anchor_pos h + k"
    have i: "?i < length (hp_bytes h)" "hp_bytes h ! ?i = hp_anchor h ! k" "hp_mask h ! ?i = 0xFF" "length (hp_mask h) = length (hp_bytes h)"
      using assms(1) that by (auto simp: header_wf_def)
    then have "w ! ?i AND hp_mask h ! ?i = hp_bytes h ! ?i AND hp_mask h ! ?i" using assms(2) confirm_iff [OF i(4)] by blast
    then have "w ! ?i AND 0xFF = hp_anchor h ! k AND 0xFF" using i by simp
    moreover have "(x :: byte) AND 0xFF = x" for x
    proof -
      have "(0xFF :: byte) = - 1" by simp
      then show ?thesis by (simp only:) simp
    qed
    ultimately show ?thesis by simp
  qed
  then have "take (length (hp_anchor h)) (drop (hp_anchor_pos h) w) = hp_anchor h"
    using len by (intro nth_equalityI) simp_all
  then show ?thesis using len by (simp add: occurs_at_def)
qed

lemma header_candidate_eq:
  assumes "catalog_header sigs si hi = Some h"
  shows "header_candidate sigs base buf at (si, hi) =
    (if at < hp_anchor_pos h \<or> at - hp_anchor_pos h < hp_offset h then None
     else
       let patt = at - hp_anchor_pos h;
           window = (if patt < base then None else get_slice buf (patt - base) (patt - base + length (hp_bytes h)))
       in if (case window of None \<Rightarrow> False | Some w \<Rightarrow> \<not> confirm h w) then None
          else Some \<lparr>ca_sig = si, ca_header = hi, ca_start = patt - hp_offset h\<rparr>)"
proof -
  obtain sig where "get_at sigs si = Some sig" "get_at (sg_headers sig) hi = Some h"
    using assms by (auto simp: catalog_header_def split: option.splits)
  then show ?thesis by (simp add: header_candidate_def Let_def)
qed

lemma header_candidate_ids:
  "header_candidate sigs base buf at r = Some c \<Longrightarrow> r = (ca_sig c, ca_header c) \<and> (\<exists>h. catalog_header sigs (fst r) (snd r) = Some h)"
  by (cases r) (auto simp: header_candidate_def catalog_header_def Let_def split: option.splits if_splits)

lemma scan_buffer_mem:
  assumes "automaton_ok (ce_ac E)"
  shows "c \<in> set (scan_buffer E base buf) \<longleftrightarrow>
    (\<exists>h s. catalog_header (ce_sigs E) (ca_sig c) (ca_header c) = Some h \<and> min_anchor_len \<le> length (hp_anchor h) \<and> occurs_at (hp_anchor h) buf s \<and>
      header_candidate (ce_sigs E) base buf (sat_add64 base s) (ca_sig c, ca_header c) = Some c)"
proof -
  let ?t = "matcher (ce_sigs E)"
  have ok: "table_ok (catalog_headers (ce_sigs E)) ?t" by (rule matcher_ok)
  have ac: "(i, s) \<in> set (ce_ac E (fst ?t) buf) \<longleftrightarrow> i < length (fst ?t) \<and> occurs_at (fst ?t ! i) buf s" for i s
    using assms by (auto simp: automaton_ok_def)
  have bucket: "unwrap_or (get_at (snd ?t) i) [] = snd ?t ! i" if "i < length (fst ?t)" for i
    using ok that by (simp add: table_ok_def get_at_def unwrap_or_def)
  have mf: "x \<in> set (List.map_filter f xs) \<longleftrightarrow> (\<exists>r \<in> set xs. f r = Some x)" for f :: "nat \<times> nat \<Rightarrow> candidate option" and x xs
    by (induction xs) (auto simp: List.map_filter_simps split: option.split)
  have "c \<in> set (scan_buffer E base buf) \<longleftrightarrow> (\<exists>i s. i < length (fst ?t) \<and> occurs_at (fst ?t ! i) buf s \<and>
      (\<exists>r \<in> set (snd ?t ! i). header_candidate (ce_sigs E) base buf (sat_add64 base s) r = Some c))"
  proof -
    define P where "P l s \<longleftrightarrow> (\<exists>r \<in> set l. header_candidate (ce_sigs E) base buf (sat_add64 base s) r = Some c)" for l s
    have "c \<in> set (scan_buffer E base buf) \<longleftrightarrow> (\<exists>m \<in> set (ce_ac E (fst ?t) buf). P (unwrap_or (get_at (snd ?t) (fst m)) []) (snd m))"
      by (simp add: scan_buffer_def Let_def mf P_def)
    also have "\<dots> \<longleftrightarrow> (\<exists>i s. i < length (fst ?t) \<and> occurs_at (fst ?t ! i) buf s \<and> P (unwrap_or (get_at (snd ?t) i) []) s)"
      unfolding Bex_def split_paired_Ex fst_conv snd_conv ac by simp
    also have "\<dots> \<longleftrightarrow> (\<exists>i s. i < length (fst ?t) \<and> occurs_at (fst ?t ! i) buf s \<and> P (snd ?t ! i) s)"
      using bucket by metis
    finally show ?thesis by (simp only: P_def)
  qed
  also have "\<dots> \<longleftrightarrow> (\<exists>h s. catalog_header (ce_sigs E) (ca_sig c) (ca_header c) = Some h \<and> min_anchor_len \<le> length (hp_anchor h) \<and> occurs_at (hp_anchor h) buf s \<and>
      header_candidate (ce_sigs E) base buf (sat_add64 base s) (ca_sig c, ca_header c) = Some c)" (is "?L \<longleftrightarrow> ?R")
  proof
    assume ?L
    then obtain i s r where l: "i < length (fst ?t)" "occurs_at (fst ?t ! i) buf s" "r \<in> set (snd ?t ! i)"
        "header_candidate (ce_sigs E) base buf (sat_add64 base s) r = Some c" by blast
    have r: "r = (ca_sig c, ca_header c)" using header_candidate_ids [OF l(4)] by blast
    obtain h where "(ca_sig c, ca_header c, h) \<in> set (catalog_headers (ce_sigs E))" "min_anchor_len \<le> length (hp_anchor h)" "hp_anchor h = fst ?t ! i"
      using ok l(1,3) r by (auto simp: table_ok_def)
    then show ?R unfolding catalog_header_mem using l(2,4) unfolding r by metis
  next
    assume ?R
    then obtain h s where h: "(ca_sig c, ca_header c, h) \<in> set (catalog_headers (ce_sigs E))" "min_anchor_len \<le> length (hp_anchor h)"
        "occurs_at (hp_anchor h) buf s" "header_candidate (ce_sigs E) base buf (sat_add64 base s) (ca_sig c, ca_header c) = Some c"
      by (auto simp: catalog_header_mem)
    then have "hp_anchor h \<in> set (fst ?t)" using ok by (auto simp: table_ok_def)
    then obtain i where i: "i < length (fst ?t)" "fst ?t ! i = hp_anchor h" by (auto simp: in_set_conv_nth)
    then have "(ca_sig c, ca_header c) \<in> set (snd ?t ! i)" using ok h(1,2) by (auto simp: table_ok_def)
    then show ?L using i h(3,4) by metis
  qed
  finally show ?thesis .
qed

lemma occurs_at_take: "occurs_at p (take n (drop off buf)) s \<Longrightarrow> off + n \<le> length buf \<Longrightarrow> occurs_at p buf (off + s)"
proof -
  assume o: "occurs_at p (take n (drop off buf)) s" and n: "off + n \<le> length buf"
  then have "s + length p \<le> n" by (simp add: occurs_at_def)
  moreover from this have "take (length p) (drop s (take n (drop off buf))) = take (length p) (drop (off + s) buf)"
    by (simp add: drop_take min_def add.commute)
  ultimately show ?thesis using o n by (simp add: occurs_at_def)
qed

lemma scan_buffer_window:
  assumes "automaton_ok (ce_ac E)" "catalog_header (ce_sigs E) si hi = Some h" "header_wf h" "base + length buf \<le> u64_max"
    and "base \<le> start + hp_offset h" "start + hp_offset h + length (hp_bytes h) \<le> base + length buf"
  shows "\<lparr>ca_sig = si, ca_header = hi, ca_start = start\<rparr> \<in> set (scan_buffer E base buf) \<longleftrightarrow>
    min_anchor_len \<le> length (hp_anchor h) \<and> confirm h (take (length (hp_bytes h)) (drop (start + hp_offset h - base) buf))"
    (is "?c \<in> _ \<longleftrightarrow> ?long \<and> confirm h ?w")
proof -
  let ?patt = "start + hp_offset h"
  have "?patt - base + length (hp_bytes h) \<le> length buf" using assms(5,6) by linarith
  then have slice: "get_slice buf (?patt - base) (?patt - base + length (hp_bytes h)) = Some ?w"
    unfolding get_slice_def by (simp only: le_add1 add_diff_cancel_left' simp_thms if_True)
  have cand: "header_candidate (ce_sigs E) base buf (?patt + hp_anchor_pos h) (si, hi) = (if confirm h ?w then Some ?c else None)"
    unfolding header_candidate_eq [OF assms(2)] using assms(5) slice by (simp add: Let_def)
  show ?thesis
  proof
    assume "?c \<in> set (scan_buffer E base buf)"
    then obtain s where s: "header_candidate (ce_sigs E) base buf (sat_add64 base s) (si, hi) = Some ?c" and long: ?long
      using assms(2) by (auto simp: scan_buffer_mem [OF assms(1)])
    let ?at = "sat_add64 base s"
    have "\<not> (?at < hp_anchor_pos h \<or> ?at - hp_anchor_pos h < hp_offset h)" "?at - hp_anchor_pos h - hp_offset h = start"
      using s unfolding header_candidate_eq [OF assms(2)] by (auto simp: Let_def split: if_splits)
    then have "?at = ?patt + hp_anchor_pos h" by linarith
    then show "?long \<and> confirm h ?w" using s cand long by (simp split: if_splits)
  next
    assume lc: "?long \<and> confirm h ?w"
    then have c: "confirm h ?w" by simp
    have "occurs_at (hp_anchor h) buf (?patt - base + hp_anchor_pos h)"
      using occurs_at_take [OF confirm_anchor [OF assms(3) c]] assms(5,6) by simp
    moreover have "sat_add64 base (?patt - base + hp_anchor_pos h) = ?patt + hp_anchor_pos h"
      using assms(3-6) by (simp add: sat_add64_def header_wf_def)
    ultimately show "?c \<in> set (scan_buffer E base buf)"
      using assms(2) cand lc by (auto simp: scan_buffer_mem [OF assms(1)])
  qed
qed

section \<open>Results inside the source\<close>

definition carved_inside :: "nat \<Rightarrow> carved_file \<Rightarrow> bool" where
  "carved_inside n cf \<longleftrightarrow> 0 < cf_len cf \<and> cf_offset cf + cf_len cf \<le> n"

lemma footer_loop_le:
  assumes "find_ok (ce_find E)" "reader_ok (cx_reader c)"
  shows "footer_loop E c ft search pos = Some stop \<Longrightarrow> stop \<le> search"
proof (induction "search - pos" arbitrary: pos rule: less_induct)
  case less
  let ?want = "min (search - pos) (1024 * 1024)"
  have g: "\<not> search \<le> pos" using less(2) by (subst (asm) footer_loop.simps) (auto split: if_splits)
  note run = footer_loop.simps [of E c ft search pos, unfolded Let_def if_not_P [OF g]]
  show ?case
  proof (cases "ce_find E (ctx_read c pos ?want) ft")
    case (Some m)
    have "length (ctx_read c pos ?want) = ?want" using assms(2) by (simp only: ctx_read_def reader_ok_def)
    moreover have "occurs_at ft (ctx_read c pos ?want) m" using assms(1) Some unfolding find_ok_def by blast
    ultimately have "m + length ft \<le> ?want" by (simp only: occurs_at_def)
    moreover have "stop = pos + m + length ft" using less(2) Some unfolding run by simp
    ultimately show ?thesis using g by linarith
  next
    case None
    then have f: "\<not> (?want < 1024 * 1024 \<or> ?want \<le> max (length ft) 1)" using less(2) unfolding run by (auto split: if_splits)
    then have "footer_loop E c ft search (pos + (?want - max (length ft) 1)) = Some stop" using less(2) None unfolding run by simp
    moreover have "0 < ?want - max (length ft) 1" using f by linarith
    then have "search - (pos + (?want - max (length ft) 1)) < search - pos" using g by linarith
    ultimately show ?thesis using less(1) by blast
  qed
qed

lemma fallback_inside:
  assumes "find_ok (ce_find E)" "reader_ok (cx_reader c)"
  shows "verdict_inside c (fallback E c)"
proof -
  have "stop \<le> available c" if "footer_loop E c (ft_bytes ft) (min (ft_search_max ft) (available c)) 0 = Some stop" for ft stop
    using footer_loop_le [OF assms that] by simp
  then show ?thesis by (auto simp: fallback_def Let_def split: option.split)
qed

lemma run_one_verdict:
  assumes run: "run_one E rd start sig opts = Some cf"
  obtains c v where "cx_reader c = rd" "cx_start c = start" "start + available c \<le> rd_len rd"
    "v = fallback E c \<or> (\<exists>name. sg_validator sig = Some name \<and> v = carve_dispatch (ce_find_iter E) (ce_find E) name c)" "vd_accept v" "vd_len v \<noteq> 0"
    "cf_offset cf = unwrap_or (vd_start v) start" "cf_len cf = vd_len v" "cf_format cf = unwrap_or (vd_format v) (sg_id sig)"
proof -
  let ?max = "min (rd_len rd - start) (co_max opts)"
  let ?c = "\<lparr>cx_reader = rd, cx_start = start, cx_max = ?max, cx_sig = sig\<rparr>"
  define v where "v = (case sg_validator sig of Some name \<Rightarrow> if has_validator name then carve_dispatch (ce_find_iter E) (ce_find E) name ?c else fallback E ?c | None \<Rightarrow> fallback E ?c)"
  have g: "?max \<noteq> 0"
  proof
    assume z: "?max = 0"
    show False using run unfolding run_one_def Let_def if_P [OF z] by simp
  qed
  have res: "\<not> (\<not> vd_accept v \<or> vd_len v = 0) \<and> cf_offset cf = unwrap_or (vd_start v) start \<and> cf_len cf = vd_len v \<and>
      cf_format cf = unwrap_or (vd_format v) (sg_id sig)"
    using run unfolding run_one_def Let_def if_not_P [OF g] v_def [symmetric] by (auto split: if_splits)
  have "start < rd_len rd" using g by simp
  moreover have "available ?c \<le> rd_len rd - start" by (simp add: available_def)
  ultimately have "start + available ?c \<le> rd_len rd" by linarith
  moreover have "v = fallback E ?c \<or> (\<exists>name. sg_validator sig = Some name \<and> v = carve_dispatch (ce_find_iter E) (ce_find E) name ?c)" by (auto simp: v_def split: option.split)
  ultimately show ?thesis using res by (intro that [of ?c v]) simp_all
qed

text \<open>The signatures of a catalog whose validators end a file at most \<open>k\<close> bytes behind what is available.\<close>

definition slack_at_most :: "nat \<Rightarrow> sig_def list \<Rightarrow> bool" where
  "slack_at_most k sigs \<longleftrightarrow> list_all (\<lambda>s. case sg_validator s of None \<Rightarrow> True | Some name \<Rightarrow> format_slack name \<le> k) sigs"

lemma run_one_inside:
  assumes "find_ok (ce_find E)" "slack_at_most k (ce_sigs E)" "reader_ok rd"
    and sig: "sig \<in> set (ce_sigs E)" and run: "run_one E rd start sig opts = Some cf"
  shows "carved_inside (rd_len rd + k) cf"
proof -
  obtain c v where c: "cx_reader c = rd" "cx_start c = start" "start + available c \<le> rd_len rd"
    "v = fallback E c \<or> (\<exists>name. sg_validator sig = Some name \<and> v = carve_dispatch (ce_find_iter E) (ce_find E) name c)" "vd_accept v" "vd_len v \<noteq> 0"
    "cf_offset cf = unwrap_or (vd_start v) start" "cf_len cf = vd_len v"
    by (rule run_one_verdict [OF run]) blast
  have rd: "reader_ok (cx_reader c)" by (simp add: c(1) assms(3))
  have "verdict_inside c (fallback E c)" by (rule fallback_inside [OF assms(1) rd])
  moreover have "verdict_within k c (carve_dispatch (ce_find_iter E) (ce_find E) name c)" if "sg_validator sig = Some name" for name
  proof -
    have "format_slack name \<le> k" using assms(2) sig that by (auto simp: slack_at_most_def list_all_iff split: option.splits)
    then show ?thesis by (rule verdict_within_mono [OF carve_dispatch_within [OF rd]])
  qed
  ultimately have "verdict_within k c v" using c(4) by (auto intro: verdict_within_mono)
  then show ?thesis using c by (auto simp: verdict_within_def carved_inside_def unwrap_or_def split: option.splits)
qed

lemma pick_better_cases: "pick_better cur new = Some new \<or> pick_better cur new = cur"
  by (auto simp: pick_better_def split: option.split)

lemma identify_loop_all:
  assumes "\<And>sig cf. sig \<in> set (ce_sigs E) \<Longrightarrow> run_one E rd start sig opts = Some cf \<Longrightarrow> P cf"
  shows "(\<forall>cf. best = Some cf \<longrightarrow> P cf) \<Longrightarrow> identify_loop E rd start opts aligned sis seen best = Some cf \<Longrightarrow> P cf"
proof (induction sis arbitrary: seen best)
  case (Cons si sis)
  have step: "(\<forall>cf. best = Some cf \<longrightarrow> P cf) \<Longrightarrow> identify_loop E rd start opts aligned sis s best = Some cf \<Longrightarrow> P cf" for s best
    by (rule Cons.IH)
  define nb where "nb sig = (case run_one E rd start sig opts of None \<Rightarrow> best | Some cf \<Rightarrow> pick_better best cf)" for sig
  have "\<forall>cf. nb sig = Some cf \<longrightarrow> P cf" if "get_at (ce_sigs E) si = Some sig" for sig
  proof -
    have "sig \<in> set (ce_sigs E)" using that by (auto simp: get_at_Some)
    then show ?thesis using Cons.prems(1) assms pick_better_cases [of best] unfolding nb_def by (auto split: option.split) (metis option.inject)
  qed
  note new = step [OF this]
  show ?case
    using Cons.prems(2) step [OF Cons.prems(1)] new unfolding identify_loop.simps Let_def nb_def [symmetric]
    by (auto split: option.splits if_splits)
qed simp

lemma identify_from_all:
  assumes "\<And>sig cf. sig \<in> set (ce_sigs E) \<Longrightarrow> run_one E rd start sig opts = Some cf \<Longrightarrow> P cf" "identify_from E rd start sis opts bs = Some cf"
  shows "P cf"
proof -
  have "identify_loop E rd start opts (bs = 0 \<or> start mod bs = 0) sis [] None = Some cf"
    using assms(2) unfolding identify_from_def Let_def by (simp split: if_splits)
  then show ?thesis using identify_loop_all [of E rd start opts P None] assms(1) by blast
qed

section \<open>The loops of the scan\<close>

text \<open>A property of every result and of the count holds for the scan when every offset keeps it.\<close>

definition carved_ok :: "(carved_file \<Rightarrow> bool) \<Rightarrow> carve_state \<Rightarrow> bool" where
  "carved_ok P st \<longleftrightarrow> (\<forall>cf \<in> set (ks_out st). P cf) \<and> ks_found st = length (ks_out st)"

lemma carve_offset_ok:
  assumes "\<And>start sig cf. sig \<in> set (ce_sigs E) \<Longrightarrow> run_one E rd start sig opts = Some cf \<Longrightarrow> P cf" "carved_ok P st"
  shows "carved_ok P (carve_offset E rd opts bs e st)"
proof (cases "identify_from E rd (fst e) (snd e) opts bs")
  case (Some cf)
  have "P cf" by (rule identify_from_all [OF assms(1) Some])
  then show ?thesis using assms(2) Some by (auto simp: carve_offset_def carved_ok_def Let_def)
qed (use assms(2) in \<open>simp add: carve_offset_def\<close>)

lemma carve_loop_ok:
  "(\<And>start sig cf. sig \<in> set (ce_sigs E) \<Longrightarrow> run_one E rd start sig opts = Some cf \<Longrightarrow> P cf) \<Longrightarrow> carved_ok P st \<Longrightarrow>
    carved_ok P (snd (snd (carve_loop E rd opts bs span cancel n pos st)))"
proof (induction E rd opts bs span cancel n pos st rule: carve_loop.induct)
  case (1 E rd opts bs span cancel n pos st)
  have fold: "carved_ok P st \<Longrightarrow> carved_ok P (fold (carve_offset E rd opts bs) es st)" for es st
    by (induction es arbitrary: st) (simp_all add: carve_offset_ok [OF 1(2)])
  have step: "carved_ok P (carve_step E rd opts bs span pos st)"
    using fold [OF 1(3)] by (simp add: carve_step_def Let_def carved_ok_def)
  show ?case
  proof (cases "pos < snd span \<and> pos < u64_max \<and> \<not> cancel n")
    case True
    then show ?thesis using 1(1) [OF _ _ 1(2) step] by (subst carve_loop.simps) simp
  next
    case False
    then show ?thesis using 1(3) by (subst carve_loop.simps) auto
  qed
qed

lemma carve_scan_all:
  assumes "\<And>start sig cf. sig \<in> set (ce_sigs E) \<Longrightarrow> run_one E rd start sig opts = Some cf \<Longrightarrow> P cf"
  shows "carved_ok P (snd (carve_scan E rd ss opts resume cancel))"
proof -
  have start: "carved_ok P carve_start" by (simp add: carved_ok_def carve_start_def)
  let ?l = "carve_loop E rd opts (carve_block_size opts ss) (carve_range opts (rd_len rd)) cancel 0 (max resume (fst (carve_range opts (rd_len rd)))) carve_start"
  obtain pos i st where l: "?l = (pos, i, st)" by (cases ?l)
  have "carved_ok P (snd (snd ?l))" by (rule carve_loop_ok [OF assms start])
  then show ?thesis by (simp add: carve_scan_def l)
qed

section \<open>Claims\<close>

lemma bt_push_keys: "set (map fst (bt_push k v m)) = insert k (set (map fst m))"
  by (induction k v m rule: bt_push.induct) auto

lemma bt_push_sorted: "sorted_wrt (<) (map fst m) \<Longrightarrow> sorted_wrt (<) (map fst (bt_push k v m))"
proof (induction k v m rule: bt_push.induct)
  case (2 k v j vs m)
  then show ?case using bt_push_keys [of k v m] by (fastforce simp: image_iff)
qed simp

text \<open>The offsets of a chunk: increasing, before its end and, behind the first chunk, not before its start.\<close>

definition offsets_ok :: "nat \<Rightarrow> nat \<Rightarrow> (nat \<times> nat list) list \<Rightarrow> bool" where
  "offsets_ok lo hi m \<longleftrightarrow> sorted_wrt (<) (map fst m) \<and> (\<forall>k \<in> set (map fst m). lo \<le> k \<and> k < hi)"

lemma offsets_ok_push: "offsets_ok lo hi m \<Longrightarrow> lo \<le> k \<Longrightarrow> k < hi \<Longrightarrow> offsets_ok lo hi (bt_push k v m)"
  using bt_push_keys [of k v m] bt_push_sorted [of m k v] unfolding offsets_ok_def by auto

lemma offsets_ok_fold:
  "(\<And>c. Q c \<Longrightarrow> lo \<le> f c \<and> f c < hi) \<Longrightarrow> offsets_ok lo hi m \<Longrightarrow> offsets_ok lo hi (fold (\<lambda>c m. if Q c then bt_push (f c) (g c) m else m) cs m)"
  by (induction cs arbitrary: m) (simp_all add: offsets_ok_push)

lemma chunk_candidates_ok: "offsets_ok (if pos = scan_start then 0 else pos) (pos + carve_chunk) (chunk_candidates pos scan_start cands)"
  unfolding chunk_candidates_def by (rule offsets_ok_fold) (auto simp: offsets_ok_def carve_chunk_def split: if_split)

lemma text_blocks_ok:
  "offsets_ok lo (base + carve_chunk) m \<Longrightarrow> lo \<le> b \<Longrightarrow> offsets_ok lo (base + carve_chunk) (text_blocks base buf bs scan_end sig b m)"
proof (induction base buf bs scan_end sig b m rule: text_blocks.induct)
  case (1 base buf bs scan_end sig b m)
  then show ?case by (subst text_blocks.simps) (simp add: offsets_ok_push)
qed

lemma text_pass_ok:
  assumes "offsets_ok lo (base + carve_chunk) m" "lo \<le> base"
  shows "offsets_ok lo (base + carve_chunk) (text_pass E base buf bs scan_end opts m)"
proof -
  have "base \<le> div_ceil base (max bs 512) * max bs 512" by (rule div_ceil_lower) simp
  then show ?thesis using assms text_blocks_ok by (simp add: text_pass_def Let_def split: option.split)
qed

text \<open>The place where a result was found: its start or, for a disk image, whose start is computed backwards, its trailer, the
  512 bytes at its end.\<close>

definition found_at :: "nat \<Rightarrow> carved_file \<Rightarrow> bool" where
  "found_at k cf \<longleftrightarrow> cf_offset cf = k \<or> (cf_format cf = ''archive.dmg'' \<and> cf_offset cf \<le> k \<and> carved_end cf = sat_add64 k 512)"

lemma found_at_le: "found_at k cf \<Longrightarrow> cf_offset cf \<le> k"
  by (auto simp: found_at_def)

lemma dmg_found:
  assumes "vd_accept (dmg_validate c)"
  shows "\<exists>n s. dmg_validate c = with_start s (with_format ''archive.dmg'' (accept n Full 80)) \<and> s \<le> cx_start c \<and>
    sat_add64 s n = sat_add64 (cx_start c) 512"
proof -
  have run: "\<exists>n. n \<le> sat_add64 (cx_start c) 512 \<and> 512 \<le> n \<and>
      dmg_validate c = with_start (sat_add64 (cx_start c) 512 - n) (with_format ''archive.dmg'' (accept n Full 80))"
    using assms unfolding dmg_validate_def Let_def by (auto simp: reject_def split: if_splits)
  then obtain n where n: "n \<le> sat_add64 (cx_start c) 512" "512 \<le> n"
      "dmg_validate c = with_start (sat_add64 (cx_start c) 512 - n) (with_format ''archive.dmg'' (accept n Full 80))" by blast
  have "sat_add64 (cx_start c) 512 - n \<le> cx_start c" using n(2) by (simp add: sat_add64_def)
  moreover have "sat_add64 (sat_add64 (cx_start c) 512 - n) n = sat_add64 (cx_start c) 512"
    using n(1) by (simp add: sat_add64_def)
  ultimately show ?thesis using n(3) by blast
qed

lemma run_one_found:
  assumes "reader_ok rd" "run_one E rd start sig opts = Some cf"
  shows "found_at start cf"
proof -
  obtain c v where c: "cx_reader c = rd" "cx_start c = start"
    "v = fallback E c \<or> (\<exists>name. sg_validator sig = Some name \<and> v = carve_dispatch (ce_find_iter E) (ce_find E) name c)" "vd_accept v"
    "cf_offset cf = unwrap_or (vd_start v) start" "cf_len cf = vd_len v" "cf_format cf = unwrap_or (vd_format v) (sg_id sig)"
    by (rule run_one_verdict [OF assms(2)]) blast
  consider "keeps_start v" | "v = dmg_validate c"
  proof (cases "v = fallback E c")
    case True
    then have "keeps_start v" by (simp add: fallback_def Let_def split: option.split)
    then show ?thesis by (rule that)
  next
    case False
    then obtain name where name: "v = carve_dispatch (ce_find_iter E) (ce_find E) name c" using c(3) by blast
    show ?thesis
    proof (cases "name = ''dmg''")
      case True
      then show ?thesis using name that(2) by (simp add: carve_dispatch_def)
    next
      case other: False
      then show ?thesis using name that(1) carve_dispatch_ok [of c name] c(1) assms(1) by (simp add: verdict_ok_def)
    qed
  qed
  then show ?thesis
  proof cases
    case 1
    then show ?thesis using c(5) by (simp add: keeps_start_def found_at_def unwrap_or_def)
  next
    case 2
    then obtain n s where "v = with_start s (with_format ''archive.dmg'' (accept n Full 80))" "s \<le> start" "sat_add64 s n = sat_add64 start 512"
      using dmg_found [of c] c(2,4) by auto
    then show ?thesis using c(5-7) by (simp add: found_at_def carved_end_def with_start_def with_format_def accept_def unwrap_or_def)
  qed
qed

text \<open>Results with the places where they were found: increasing, none inside a complete result before it.\<close>

definition later_outside :: "nat \<times> carved_file \<Rightarrow> nat \<times> carved_file \<Rightarrow> bool" where
  "later_outside x y \<longleftrightarrow> fst x < fst y \<and> (cf_validity (snd x) = Full \<longrightarrow> carved_end (snd x) \<le> fst y)"

definition found_in_order :: "(nat \<times> carved_file) list \<Rightarrow> bool" where
  "found_in_order ps \<longleftrightarrow> list_all (\<lambda>(k, cf). found_at k cf) ps \<and> sorted_wrt later_outside ps"

text \<open>After the offset \<open>n\<close>: what was found before it is in order, and a complete file that reaches beyond \<open>n\<close> is claimed.\<close>

definition claims_ok :: "nat \<Rightarrow> carve_state \<Rightarrow> bool" where
  "claims_ok n st \<longleftrightarrow>
     (\<exists>ps. ks_out st = map snd ps \<and> found_in_order ps \<and>
        (\<forall>(k, a) \<in> set ps. k < n \<and> (cf_validity a = Full \<longrightarrow> carved_end a \<le> n \<or> (cf_offset a, carved_end a) \<in> set (ks_claims st)))) \<and>
     (\<forall>(s, e) \<in> set (ks_claims st). s < n) \<and> length (ks_claims st) \<le> 1"

lemma claims_ok_mono: "claims_ok m st \<Longrightarrow> m \<le> n \<Longrightarrow> claims_ok n st"
proof -
  assume c: "claims_ok m st" and mn: "m \<le> n"
  obtain ps where ps: "ks_out st = map snd ps" "found_in_order ps"
      "\<forall>(k, a) \<in> set ps. k < m \<and> (cf_validity a = Full \<longrightarrow> carved_end a \<le> m \<or> (cf_offset a, carved_end a) \<in> set (ks_claims st))"
    using c by (auto simp: claims_ok_def)
  have "\<forall>(k, a) \<in> set ps. k < n \<and> (cf_validity a = Full \<longrightarrow> carved_end a \<le> n \<or> (cf_offset a, carved_end a) \<in> set (ks_claims st))"
    using ps(3) mn by fastforce
  moreover have "\<forall>(s, e) \<in> set (ks_claims st). s < n" using c mn by (fastforce simp: claims_ok_def)
  ultimately show ?thesis using ps(1,2) c by (auto simp: claims_ok_def)
qed

lemma carve_offset_claims:
  assumes "reader_ok rd" "claims_ok n st" "n \<le> fst e"
  shows "claims_ok (Suc (fst e)) (carve_offset E rd opts bs e st)"
proof -
  let ?k = "fst e"
  have skip: "claims_ok (Suc ?k) st" using assms(2,3) claims_ok_mono by fastforce
  show ?thesis
  proof (cases "suppressed (ks_claims st) ?k \<or> identify_from E rd ?k (snd e) opts bs = None")
    case True
    then show ?thesis using skip by (auto simp: carve_offset_def)
  next
    case False
    then obtain cf where cf: "identify_from E rd ?k (snd e) opts bs = Some cf" and free: "\<not> suppressed (ks_claims st) ?k" by auto
    have at: "found_at ?k cf" by (rule identify_from_all [OF run_one_found [OF assms(1)] cf])
    note off = found_at_le [OF at]
    show ?thesis
    proof (cases "\<not> co_keep opts \<and> cf_validity cf \<noteq> Full")
      case True
      then show ?thesis using skip cf free by (simp add: carve_offset_def)
    next
      case keep: False
      define claims where "claims = (if cf_validity cf = Full \<and> 0 < cf_len cf then ks_claims st @ [(cf_offset cf, carved_end cf)] else ks_claims st)"
      have st1: "carve_offset E rd opts bs e st = st\<lparr>ks_claims := prune_claims claims ?k, ks_found := ks_found st + 1, ks_out := ks_out st @ [cf]\<rparr>"
        unfolding carve_offset_def Let_def if_not_P [OF free] cf option.case if_not_P [OF keep] claims_def by (rule refl)
      obtain ps where ps: "ks_out st = map snd ps" "found_in_order ps"
          "\<forall>(k, a) \<in> set ps. k < n \<and> (cf_validity a = Full \<longrightarrow> carved_end a \<le> n \<or> (cf_offset a, carved_end a) \<in> set (ks_claims st))"
        using assms(2) by (auto simp: claims_ok_def)
      have old: "e' \<le> ?k" if "(s, e') \<in> set (ks_claims st)" for s e'
        using free that assms(2,3) by (fastforce simp: suppressed_def list_ex_iff claims_ok_def)
      have none: "filter (\<lambda>(s, e). ?k < e) (ks_claims st) = []" using old by (fastforce simp: filter_empty_conv)
      have prune: "prune_claims claims ?k = (if cf_validity cf = Full \<and> 0 < cf_len cf \<and> ?k < carved_end cf then [(cf_offset cf, carved_end cf)] else [])"
        by (simp add: prune_claims_def claims_def none Let_def)
      have empty: "cf_len cf = 0 \<Longrightarrow> carved_end cf \<le> ?k" using off by (simp add: carved_end_def sat_add64_def)
      have before: "k < ?k \<and> (cf_validity a = Full \<longrightarrow> carved_end a \<le> ?k)" if "(k, a) \<in> set ps" for k a
        using ps(3) that old assms(3) by fastforce
      let ?cs = "prune_claims claims ?k"
      have "found_in_order (ps @ [(?k, cf)])"
        using ps(2) at before by (auto simp: found_in_order_def sorted_wrt_append later_outside_def)
      moreover have "\<forall>(k, a) \<in> set (ps @ [(?k, cf)]). k < Suc ?k \<and>
          (cf_validity a = Full \<longrightarrow> carved_end a \<le> Suc ?k \<or> (cf_offset a, carved_end a) \<in> set ?cs)"
      proof -
        have "carved_end cf \<le> ?k \<or> (cf_offset cf, carved_end cf) \<in> set ?cs" if "cf_validity cf = Full"
          using that empty unfolding prune by (cases "0 < cf_len cf"; cases "?k < carved_end cf") simp_all
        then show ?thesis using before by fastforce
      qed
      moreover have "(\<forall>(s, e) \<in> set ?cs. s < Suc ?k) \<and> length ?cs \<le> 1" unfolding prune using off by simp
      ultimately show ?thesis unfolding st1 claims_ok_def using ps(1) by (auto intro!: exI [of _ "ps @ [(?k, cf)]"])
    qed
  qed
qed

lemma carve_fold_claims:
  assumes "reader_ok rd"
  shows "claims_ok n st \<Longrightarrow> sorted_wrt (<) (map fst es) \<Longrightarrow> \<forall>k \<in> set (map fst es). n \<le> k \<and> k < hi \<Longrightarrow> n \<le> hi \<Longrightarrow>
    claims_ok hi (fold (carve_offset E rd opts bs) es st)"
proof (induction es arbitrary: n st)
  case Nil
  then show ?case using claims_ok_mono by simp
next
  case (Cons e es)
  have "claims_ok (Suc (fst e)) (carve_offset E rd opts bs e st)" using Cons.prems by (intro carve_offset_claims [OF assms]) auto
  moreover have "\<forall>k \<in> set (map fst es). Suc (fst e) \<le> k \<and> k < hi" using Cons.prems by auto
  ultimately show ?case using Cons.prems Cons.IH [of "Suc (fst e)"] by simp
qed

lemma carve_step_claims:
  assumes "reader_ok rd" "claims_ok n st" "n \<le> (if pos = fst span then 0 else pos)"
  shows "claims_ok (pos + carve_chunk) (carve_step E rd opts bs span pos st)"
proof -
  let ?lo = "if pos = fst span then 0 else pos"
  let ?buf = "rd_read rd pos (min (snd span - pos) (carve_chunk + carve_overlap E))"
  define es where "es = text_pass E pos ?buf bs (snd span) opts (chunk_candidates pos (fst span) (scan_buffer E pos ?buf))"
  have "offsets_ok ?lo (pos + carve_chunk) es"
    unfolding es_def by (rule text_pass_ok [OF chunk_candidates_ok]) simp
  then have "claims_ok (pos + carve_chunk) (fold (carve_offset E rd opts bs) es st)"
    using assms(3) by (intro carve_fold_claims [OF assms(1,2)]) (auto simp: offsets_ok_def intro: order_trans split: if_splits)
  then show ?thesis unfolding carve_step_def Let_def es_def [symmetric] claims_ok_def by simp
qed

lemma carve_loop_claims:
  "reader_ok rd \<Longrightarrow> claims_ok n' st \<Longrightarrow> n' \<le> (if pos = fst span then 0 else pos) \<Longrightarrow> fst span \<le> pos \<Longrightarrow>
    \<exists>ps. ks_out (snd (snd (carve_loop E rd opts bs span cancel n pos st))) = map snd ps \<and> found_in_order ps"
proof (induction E rd opts bs span cancel n pos st arbitrary: n' rule: carve_loop.induct)
  case (1 E rd opts bs span cancel n pos st)
  have now: "\<exists>ps. ks_out st = map snd ps \<and> found_in_order ps" using 1(3) unfolding claims_ok_def by blast
  show ?case
  proof (cases "pos < snd span \<and> pos < u64_max \<and> \<not> cancel n")
    case False
    then show ?thesis using now by (subst carve_loop.simps) auto
  next
    case True
    let ?st = "carve_step E rd opts bs span pos st" and ?pos = "sat_add64 pos carve_chunk"
    have claims: "claims_ok (pos + carve_chunk) ?st" by (rule carve_step_claims [OF 1(2,3,4)])
    have run: "carve_loop E rd opts bs span cancel n pos st = carve_loop E rd opts bs span cancel (n + 1) ?pos ?st"
      using True by (subst carve_loop.simps) simp
    show ?thesis
    proof (cases "pos + carve_chunk \<le> u64_max")
      case fits: True
      then have p: "?pos = pos + carve_chunk" by (simp add: sat_add64_def)
      have "pos + carve_chunk \<le> (if ?pos = fst span then 0 else ?pos)" "fst span \<le> ?pos" using 1(5) p by (auto simp: carve_chunk_def)
      then show ?thesis unfolding run using True by (intro 1(1) [OF _ _ 1(2) claims]) simp_all
    next
      case False
      then have "?pos = u64_max" by (simp add: sat_add64_def)
      then have "carve_loop E rd opts bs span cancel (n + 1) ?pos ?st = (?pos, False, ?st)" by (subst carve_loop.simps) simp
      then show ?thesis unfolding run using claims by (auto simp: claims_ok_def)
    qed
  qed
qed

section \<open>An interrupted scan\<close>

text \<open>The state \<open>t\<close> is \<open>s\<close> behind what \<open>a\<close> had already found; the claims of \<open>a\<close> end at or before \<open>lo\<close>.\<close>

definition continues :: "nat \<Rightarrow> carve_state \<Rightarrow> carve_state \<Rightarrow> carve_state \<Rightarrow> bool" where
  "continues lo a s t \<longleftrightarrow> ks_out t = ks_out a @ ks_out s \<and> ks_found t = ks_found a + ks_found s \<and>
     (\<exists>old. ks_claims t = old @ ks_claims s \<and> (\<forall>c \<in> set old. snd c \<le> lo))"

lemma continues_mono: "continues lo a s t \<Longrightarrow> lo \<le> hi \<Longrightarrow> continues hi a s t"
  unfolding continues_def by (meson order_trans)

lemma continues_offset:
  assumes "continues lo a s t" "lo \<le> fst e"
  shows "continues lo a (carve_offset E rd opts bs e s) (carve_offset E rd opts bs e t)"
proof -
  let ?k = "fst e"
  obtain old where old: "ks_claims t = old @ ks_claims s" "\<forall>c \<in> set old. snd c \<le> lo" using assms(1) by (auto simp: continues_def)
  have same: "suppressed (ks_claims t) ?k = suppressed (ks_claims s) ?k"
    using old assms(2) by (auto simp: suppressed_def list_ex_iff)
  show ?thesis
  proof (cases "suppressed (ks_claims s) ?k")
    case True
    then show ?thesis using assms(1) same by (simp add: carve_offset_def)
  next
    case False
    show ?thesis
    proof (cases "identify_from E rd ?k (snd e) opts bs")
      case None
      then show ?thesis using assms(1) by (simp add: carve_offset_def)
    next
      case (Some cf)
      define more where "more = (if cf_validity cf = Full \<and> 0 < cf_len cf then [(cf_offset cf, carved_end cf)] else [])"
      have "filter (\<lambda>(s, e). ?k < e) old = []" using old(2) assms(2) by (fastforce simp: filter_empty_conv)
      then have prune: "prune_claims (ks_claims t @ more) ?k = prune_claims (ks_claims s @ more) ?k"
        by (simp add: prune_claims_def old(1) Let_def)
      have "(if cf_validity cf = Full \<and> 0 < cf_len cf then ks_claims u @ [(cf_offset cf, carved_end cf)] else ks_claims u) = ks_claims u @ more" for u
        by (simp add: more_def)
      then show ?thesis
        using assms(1) False same prune Some by (auto simp: carve_offset_def continues_def)
    qed
  qed
qed

lemma continues_fold:
  "continues lo a s t \<Longrightarrow> \<forall>k \<in> set (map fst es). lo \<le> k \<Longrightarrow>
    continues lo a (fold (carve_offset E rd opts bs) es s) (fold (carve_offset E rd opts bs) es t)"
  by (induction es arbitrary: s t) (simp_all add: continues_offset)

lemma continues_step:
  assumes "continues lo a s t" "lo \<le> (if pos = fst span then 0 else pos)"
  shows "continues lo a (carve_step E rd opts bs span pos s) (carve_step E rd opts bs span pos t)"
proof -
  let ?buf = "rd_read rd pos (min (snd span - pos) (carve_chunk + carve_overlap E))"
  define es where "es = text_pass E pos ?buf bs (snd span) opts (chunk_candidates pos (fst span) (scan_buffer E pos ?buf))"
  have "offsets_ok (if pos = fst span then 0 else pos) (pos + carve_chunk) es"
    unfolding es_def by (rule text_pass_ok [OF chunk_candidates_ok]) simp
  then have "\<forall>k \<in> set (map fst es). lo \<le> k" using assms(2) by (auto simp: offsets_ok_def intro: order_trans)
  then have "continues lo a (fold (carve_offset E rd opts bs) es s) (fold (carve_offset E rd opts bs) es t)"
    by (rule continues_fold [OF assms(1)])
  then show ?thesis unfolding carve_step_def Let_def es_def [symmetric] continues_def by simp
qed

lemma continues_loop:
  "continues lo a s t \<Longrightarrow> lo \<le> (if pos = fst span then 0 else pos) \<Longrightarrow> fst span \<le> pos \<Longrightarrow>
    (\<exists>p s' t'. carve_loop E rd opts bs span (\<lambda>_. False) m pos s = (p, False, s') \<and>
      carve_loop E rd opts bs span (\<lambda>_. False) n pos t = (p, False, t') \<and> continues (max lo p) a s' t')"
proof (induction "u64_max - pos" arbitrary: pos m n s t rule: less_induct)
  case less
  show ?case
  proof (cases "pos < snd span \<and> pos < u64_max")
    case True
    let ?pos = "sat_add64 pos carve_chunk"
    have dec: "u64_max - ?pos < u64_max - pos" "pos < ?pos" using True by (auto simp: sat_add64_def carve_chunk_def min_def)
    have lo: "lo \<le> (if ?pos = fst span then 0 else ?pos)" "fst span \<le> ?pos"
      using less(3,4) dec(2) by (auto split: if_splits)
    have run: "carve_loop E rd opts bs span (\<lambda>_. False) k pos st =
        carve_loop E rd opts bs span (\<lambda>_. False) (k + 1) ?pos (carve_step E rd opts bs span pos st)" for k st
      using True by (subst carve_loop.simps) simp
    show ?thesis unfolding run by (rule less(1) [OF dec(1) continues_step [OF less(2,3)] lo])
  next
    case False
    then have "carve_loop E rd opts bs span (\<lambda>_. False) k pos st = (pos, False, st)" for k st
      by (subst carve_loop.simps) simp
    then show ?thesis using continues_mono [OF less(2)] by simp
  qed
qed

text \<open>An interrupted loop is a prefix of the one that is left alone.\<close>

lemma carve_loop_resume:
  "carve_loop E rd opts bs span cancel n pos st = (p, True, st') \<Longrightarrow>
    p < snd span \<and> pos \<le> p \<and> (p = pos \<longrightarrow> st' = st) \<and> (\<exists>m. carve_loop E rd opts bs span (\<lambda>_. False) n pos st = carve_loop E rd opts bs span (\<lambda>_. False) m p st')"
proof (induction E rd opts bs span cancel n pos st rule: carve_loop.induct)
  case (1 E rd opts bs span cancel n pos st)
  have go: "pos < snd span \<and> pos < u64_max" using 1(2) by (subst (asm) carve_loop.simps) (auto split: if_splits)
  show ?case
  proof (cases "cancel n")
    case True
    then have "p = pos" "st' = st" using 1(2) go by (simp_all add: carve_loop.simps [of E rd opts bs span cancel n])
    then show ?thesis using go by blast
  next
    case False
    let ?pos = "sat_add64 pos carve_chunk" and ?st = "carve_step E rd opts bs span pos st"
    have "carve_loop E rd opts bs span cancel (n + 1) ?pos ?st = (p, True, st')"
      using 1(2) go False by (simp add: carve_loop.simps [of E rd opts bs span cancel n])
    then have "p < snd span \<and> ?pos \<le> p \<and> (\<exists>m. carve_loop E rd opts bs span (\<lambda>_. False) (n + 1) ?pos ?st = carve_loop E rd opts bs span (\<lambda>_. False) m p st')"
      using 1(1) go False by blast
    moreover have "carve_loop E rd opts bs span (\<lambda>_. False) n pos st = carve_loop E rd opts bs span (\<lambda>_. False) (n + 1) ?pos ?st"
      using go by (subst carve_loop.simps) simp
    moreover have "pos < ?pos" using go by (auto simp: sat_add64_def carve_chunk_def)
    ultimately show ?thesis by auto
  qed
qed

end
