(* ===== verification/CarvePng.thy ===== *)
theory CarvePng
  imports CarveFormatFacts
begin

text \<open>
  PNG files are carved exactly: the table-driven checksum of the carver is the bitwise CRC-32, and a well-formed
  file is recovered with its length, whatever follows it.
\<close>

unbundle bit_operations_syntax

section \<open>The checksum\<close>

lemma crc_shift_eq: "crc_shift c = drop_bit 1 c XOR (if bit c 0 then 0xEDB88320 else 0)"
  by (simp add: crc_shift_def and_one_eq xor.commute odd_iff_mod_2_eq_one bit_0)

lemma crc_bit_eq: "crc_bit c = crc_shift c"
  by (cases "bit c 0") (simp_all add: crc_shift_eq crc_bit_def Let_def and_one_eq bit_0 odd_iff_mod_2_eq_one)

lemma crc_shift_xor: "crc_shift (a XOR b) = crc_shift a XOR crc_shift b"
proof -
  have "bit (a XOR b) 0 \<longleftrightarrow> bit a 0 \<noteq> bit b 0" by (simp add: bit_xor_iff)
  then show ?thesis
    by (cases "bit a 0"; cases "bit b 0") (simp_all add: crc_shift_eq drop_bit_xor xor.assoc xor.left_commute xor.commute)
qed

lemma crc_shift_pow_xor: "(crc_shift ^^ n) (a XOR b) = (crc_shift ^^ n) a XOR (crc_shift ^^ n) b"
  by (induction n) (simp_all add: crc_shift_xor)

lemma crc_shift_pow_high: "(\<And>i. i < n \<Longrightarrow> \<not> bit y i) \<Longrightarrow> (crc_shift ^^ n) y = drop_bit n y"
proof (induction n)
  case (Suc n)
  then have "(crc_shift ^^ n) y = drop_bit n y" "\<not> bit (drop_bit n y) 0" by (simp_all add: bit_drop_bit_eq)
  then show ?case by (simp add: crc_shift_eq [of "drop_bit n y"])
qed simp

lemma crc_lookup_eq: "crc_lookup c b = crc_byte c b"
proof -
  let ?x = "c XOR ucast b :: 32 word"
  define lo :: "32 word" where "lo = 0xFF"
  let ?hi = "?x AND NOT lo"
  have m: "bit lo i \<longleftrightarrow> i < 8" for i
  proof -
    have "lo = mask 8" by (simp add: lo_def mask_eq_exp_minus_1)
    then show ?thesis by (simp only: bit_mask_iff) auto
  qed
  have split: "?x = (?x AND lo) XOR ?hi"
    by (rule bit_word_eqI) (auto simp: bit_simps m)
  have low: "\<not> bit ?hi i" if "i < 8" for i using that by (simp add: bit_and_iff bit_not_iff m)
  have high: "drop_bit 8 ?hi = drop_bit 8 c"
    by (rule bit_word_eqI) (auto simp: bit_simps m dest: bit_imp_le_length)
  have shifted: "(crc_shift ^^ 8) ?hi = drop_bit 8 ?hi" by (rule crc_shift_pow_high) (rule low)
  have pw: "(crc_bit ^^ n) y = (crc_shift ^^ n) y" for n y by (induction n) (simp_all add: crc_bit_eq)
  have "crc_byte c b = (crc_shift ^^ 8) ((?x AND lo) XOR ?hi)" unfolding crc_byte_def pw by (simp only: split [symmetric])
  also have "\<dots> = crc_table (?x AND lo) XOR drop_bit 8 c"
    unfolding crc_shift_pow_xor shifted high crc_table_def ..
  finally show ?thesis by (simp add: crc_lookup_def lo_def)
qed

lemma crc32_table_eq: "crc32_table data = crc32 data"
proof -
  have "foldl crc_lookup s data = foldl crc_byte s data" for s
    by (induction data arbitrary: s) (simp_all add: crc_lookup_eq)
  moreover have "(x :: 32 word) XOR 0xFFFFFFFF = NOT x" for x
  proof -
    have "(0xFFFFFFFF :: 32 word) = - 1" by simp
    then show ?thesis by (simp only: bit.xor_one_right)
  qed
  ultimately show ?thesis by (simp add: crc32_table_def crc32_def)
qed

section \<open>Files under a candidate\<close>

text \<open>The bytes at the start of a candidate: every read inside them answers them, and all of them are available.\<close>

definition file_at :: "ctx \<Rightarrow> bytes \<Rightarrow> bool" where
  "file_at c f \<longleftrightarrow>
     length f \<le> available c \<and> list_all (\<lambda>off. list_all (\<lambda>n. ctx_read c off n = take n (drop off f)) [0..<Suc (length f - off)]) [0..<Suc (length f)]"

lemma file_at_read: "file_at c f \<Longrightarrow> off + n \<le> length f \<Longrightarrow> ctx_read c off n = take n (drop off f)"
  unfolding file_at_def list_all_iff by (simp del: upt_Suc)

lemma file_at_piece: "file_at c (xs @ ys @ zs) \<Longrightarrow> ctx_read c (length xs) (length ys) = ys"
  using file_at_read [of c "xs @ ys @ zs" "length xs" "length ys"] by simp

lemma file_at_memory:
  assumes "rel = length pre" "length (pre @ f @ post) \<le> u64_max" "length f \<le> m"
  shows "file_at \<lparr>cx_reader = mem_reader (pre @ f @ post), cx_start = rel, cx_max = m, cx_sig = s\<rparr> f"
proof -
  let ?d = "pre @ f @ post"
  have "mem_read ?d (sat_add64 rel off) n = take n (drop off f)" if "off + n \<le> length f" for off n
  proof (cases "n = 0")
    case True
    then show ?thesis by (auto simp: mem_read_def Let_def get_slice_def blit_def split: option.split)
  next
    case False
    have e: "sat_add64 rel off = length pre + off" "sat_add64 (length pre + off) n = length pre + off + n"
      using that assms(1,2) by (simp_all add: sat_add64_def)
    have "length pre + off < length ?d" "min (length pre + off + n) (length ?d) = length pre + off + n" using that False by simp_all
    moreover have "get_slice ?d (length pre + off) (length pre + off + n) = Some (take n (drop off f))"
      using that by (simp add: get_slice_def)
    ultimately show ?thesis unfolding mem_read_def Let_def e using that by (simp add: blit_def)
  qed
  then show ?thesis using assms
    by (auto simp: file_at_def list_all_iff ctx_read_def mem_reader_def available_def simp del: upt_Suc)
qed

section \<open>PNG files\<close>

definition png_chunk :: "bytes \<times> bytes \<Rightarrow> bytes" where
  "png_chunk x = be_bytes 4 (length (snd x)) @ fst x @ snd x @ be_bytes 4 (crc32 (fst x @ snd x))"

definition png_file :: "(bytes \<times> bytes) list \<Rightarrow> bytes" where
  "png_file cs = png_magic @ concat (map png_chunk cs)"

text \<open>Chunks of at most 16 mebibytes, the last one and no other named \<^verbatim>\<open>IEND\<close>.\<close>

fun png_chunks :: "(bytes \<times> bytes) list \<Rightarrow> bool" where
  "png_chunks [] = False"
| "png_chunks (x # cs) =
     (length (fst x) = 4 \<and> length (snd x) \<le> 16777216 \<and> (if fst x = ascii ''IEND'' then cs = [] else png_chunks cs))"

lemma length_png_chunk: "length (fst x) = 4 \<Longrightarrow> length (png_chunk x) = 12 + length (snd x)"
  by (simp add: png_chunk_def)

lemma be_u32_bytes: "n < 4294967296 \<Longrightarrow> be_u32 (be_bytes 4 n @ r) 0 = Some n"
  using be_val_be_bytes [of n 4] by (simp add: be_u32_def get_slice_def)

lemma crc32_bound: "crc32 d < 4294967296"
  using unsigned_less [of "NOT (foldl crc_byte 0xFFFFFFFF d) :: 32 word"] by (simp add: crc32_def)

lemma png_loop_chunks:
  "file_at c (pre @ concat (map png_chunk cs)) \<Longrightarrow> png_chunks cs \<Longrightarrow> length cs \<le> k \<Longrightarrow> (first \<Longrightarrow> fst (hd cs) = ascii ''IHDR'') \<Longrightarrow>
    length (pre @ concat (map png_chunk cs)) \<le> cap \<Longrightarrow> cap < u64_max \<Longrightarrow>
    png_loop c cap k (length pre) first False = accept (length (pre @ concat (map png_chunk cs))) Full 97"
proof (induction cs arbitrary: pre k first)
  case (Cons x cs)
  let ?n = "length (snd x)" and ?p = "length pre"
  let ?rest = "concat (map png_chunk cs)"
  have t: "length (fst x) = 4" and n: "?n \<le> 16777216" using Cons.prems(2) by simp_all
  have k: "\<not> k = 0" using Cons.prems(3) by auto
  have whole: "file_at c (pre @ png_chunk x @ ?rest)" using Cons.prems(1) by simp
  have hdr: "ctx_read c ?p 8 = be_bytes 4 ?n @ fst x"
    using file_at_piece [of c pre "be_bytes 4 ?n @ fst x" "snd x @ be_bytes 4 (crc32 (fst x @ snd x)) @ ?rest"] whole t by (simp add: png_chunk_def)
  have body: "ctx_read c (?p + 8) ?n = snd x"
    using file_at_piece [of c "pre @ be_bytes 4 ?n @ fst x" "snd x" "be_bytes 4 (crc32 (fst x @ snd x)) @ ?rest"] whole t by (simp add: png_chunk_def)
  have crc: "ctx_read c (?p + 8 + ?n) 4 = be_bytes 4 (crc32 (fst x @ snd x))"
    using file_at_piece [of c "pre @ be_bytes 4 ?n @ fst x @ snd x" "be_bytes 4 (crc32 (fst x @ snd x))" ?rest] whole t
    by (simp add: png_chunk_def add.assoc)
  have len: "unwrap_or (be_u32 (be_bytes 4 ?n @ fst x) 0) m = ?n" for m using n by (simp add: be_u32_bytes)
  have kind: "unwrap_or (get_slice (be_bytes 4 ?n @ fst x) 4 8) [] = fst x" using t by (simp add: get_slice_def)
  have want: "be_u32 (be_bytes 4 (crc32 (fst x @ snd x))) 0 = Some (crc32 (fst x @ snd x))"
    using be_u32_bytes [OF crc32_bound, of _ "[]"] by simp
  have total_len: "sat_add64 12 ?n = 12 + ?n" using n by (simp add: sat_add64_def)
  have inside: "?p + (12 + ?n) + length ?rest \<le> cap" using Cons.prems(5) t by (simp add: length_png_chunk)
  then have stop: "sat_add64 ?p (12 + ?n) = ?p + (12 + ?n)" using Cons.prems(6) by (simp add: sat_add64_def)
  have first: "\<not> (first \<and> fst x \<noteq> ascii ''IHDR'')" using Cons.prems(4) by auto
  have step: "png_loop c cap k ?p first False =
      (if fst x = ascii ''IEND'' then accept (?p + (12 + ?n)) Full 97 else png_loop c cap (k - 1) (?p + (12 + ?n)) False False)"
    using k t n inside first
    by (subst png_loop.simps) (simp only: Let_def hdr len kind body crc want total_len stop crc32_table_eq if_False length_append length_be_bytes, simp)
  show ?case
  proof (cases "fst x = ascii ''IEND''")
    case True
    then have "cs = []" using Cons.prems(2) by simp
    then show ?thesis using True t by (simp only: step) (simp add: length_png_chunk)
  next
    case False
    have e: "length (pre @ png_chunk x) = ?p + (12 + ?n)" using t by (simp add: length_png_chunk)
    have "png_loop c cap (k - 1) (length (pre @ png_chunk x)) False False = accept (length ((pre @ png_chunk x) @ ?rest)) Full 97"
      by (rule Cons.IH) (use Cons.prems False in simp_all)
    then show ?thesis using False by (simp only: step e if_False) simp
  qed
qed simp

lemma png_validate_file:
  assumes "png_chunks cs" "fst (hd cs) = ascii ''IHDR''" "length cs \<le> 500000" "length (png_file cs) \<le> 268435456"
    and "file_at c (png_file cs)"
  shows "png_validate c = accept (length (png_file cs)) Full 97"
proof -
  have magic: "length png_magic = 8" by (simp add: png_magic_def)
  have "ctx_read c 0 8 = png_magic"
    using file_at_piece [of c "[]" png_magic "concat (map png_chunk cs)"] assms(5) by (simp add: png_file_def magic)
  moreover have "png_loop c (min (available c) (256 * 1024 * 1024)) 500000 (length png_magic) True False = accept (length (png_magic @ concat (map png_chunk cs))) Full 97"
    by (rule png_loop_chunks) (use assms in \<open>simp_all add: png_file_def file_at_def\<close>)
  ultimately show ?thesis by (simp add: png_validate_def png_file_def magic)
qed

end
