(* ===== verification/CarveTheorems.thy ===== *)
theory CarveTheorems
  imports CarveFacts CarvePng
begin

text \<open>
  The properties of the carve engine: candidates are exactly the signatures whose header is there, results
  lie inside the source, no result starts inside a complete one, an interrupted scan is resumed exactly.
\<close>

unbundle bit_operations_syntax

section \<open>A small catalog\<close>

text \<open>One signature with a header of three bytes and a footer of two; the automaton and the search are the naive ones.\<close>

definition demo_header :: header_pat where
  "demo_header = \<lparr>hp_bytes = [0xAA, 0xBB, 0xC0], hp_mask = [0xFF, 0xFF, 0xF0], hp_offset = 1, hp_anchor = [0xAA, 0xBB], hp_anchor_pos = 0\<rparr>"

definition demo_sig :: sig_def where
  "demo_sig = \<lparr>sg_id = ''image.demo'', sg_family = ''image'', sg_extensions = [''dmo''], sg_mime = ''image/demo'', sg_tier = 1,
     sg_headers = [demo_header], sg_footer = Some \<lparr>ft_bytes = [0xEE, 0xFF], ft_search_max = 64\<rparr>, sg_min_size = 4, sg_max_size = 1024,
     sg_strategy = Footer, sg_validator = None, sg_metadata = [], sg_block_aligned = False, sg_footer_anchored = False, sg_reassembly = False\<rparr>"

definition naive_ac :: "bytes list \<Rightarrow> bytes \<Rightarrow> (nat \<times> nat) list" where
  "naive_ac ps buf = concat (map (\<lambda>i. map (\<lambda>s. (i, s)) (filter (occurs_at (ps ! i) buf) [0..<Suc (length buf)])) [0..<length ps])"

definition naive_find :: "bytes \<Rightarrow> bytes \<Rightarrow> nat option" where
  "naive_find buf p = find (occurs_at p buf) [0..<Suc (length buf)]"

definition demo_env :: carve_env where
  "demo_env = \<lparr>ce_sigs = [demo_sig], ce_max_anchor = 2, ce_max_span = 4, ce_ac = naive_ac, ce_find = naive_find,
     ce_find_iter = (\<lambda>buf p. filter (occurs_at p buf) [0..<Suc (length buf)])\<rparr>"

lemma naive_ac_ok: "automaton_ok naive_ac"
proof -
  have "set (naive_ac ps buf) = {(i, s). i < length ps \<and> occurs_at (ps ! i) buf s}" for ps buf
  proof -
    have "{s \<in> {0..<Suc (length buf)}. occurs_at p buf s} = {s. occurs_at p buf s}" for p
      by (auto simp: occurs_at_def)
    then show ?thesis unfolding naive_ac_def by (auto simp del: upt_Suc)
  qed
  then show ?thesis by (simp add: automaton_ok_def)
qed

lemma naive_find_ok: "find_ok naive_find"
  by (auto simp: find_ok_def naive_find_def find_Some_iff)

lemma mem_reader_ok: "reader_ok (mem_reader d)"
proof -
  have "length (mem_read d off n) = n" for off n
    unfolding mem_read_def Let_def by (auto dest: length_get_slice split: option.split)
  then show ?thesis by (simp add: reader_ok_def mem_reader_def)
qed

definition demo_data :: bytes where
  "demo_data = [0, 0, 7, 0xAA, 0xBB, 0xC5, 1, 2, 0xEE, 0xFF, 3, 4]"

lemma demo_env_fields [simp]:
  "ce_sigs demo_env = [demo_sig]" "ce_max_anchor demo_env = 2" "ce_max_span demo_env = 4" "ce_ac demo_env = naive_ac" "ce_find demo_env = naive_find"
  by (simp_all add: demo_env_def)

lemma demo_sig_fields [simp]:
  "sg_id demo_sig = ''image.demo''" "sg_family demo_sig = ''image''" "sg_extensions demo_sig = [''dmo'']" "sg_headers demo_sig = [demo_header]"
  "sg_footer demo_sig = Some \<lparr>ft_bytes = [0xEE, 0xFF], ft_search_max = 64\<rparr>" "sg_min_size demo_sig = 4" "sg_strategy demo_sig = Footer"
  "sg_validator demo_sig = None" "sg_block_aligned demo_sig = False"
  by (simp_all add: demo_sig_def)

lemma carve_defaults_fields [simp]:
  "co_brute carve_defaults = False" "co_block_size carve_defaults = 0" "co_families carve_defaults = []" "co_sig_ids carve_defaults = []"
  "co_keep carve_defaults = True" "co_max carve_defaults = 4294967296" "co_range carve_defaults = None"
  by (simp_all add: carve_defaults_def)

section \<open>Candidates\<close>

text \<open>C26: For a header whose full pattern lies inside the scanned buffer, the matcher (anchors in an automaton, then
  the masked comparison) reports the file start exactly when the anchor of the header has at least two bytes and the bytes of
  the buffer match the pattern under its mask: the optimised search equals the direct comparison at every position, and a
  header with a shorter anchor, such as the one byte of MPEG transport streams, is never reported. The anchor is a run of literal
  bytes of the pattern, as the build extracts it, and the automaton reports all overlapping occurrences.\<close>

theorem carve_matcher_exact:
  assumes "automaton_ok (ce_ac E)" "catalog_header (ce_sigs E) si hi = Some h" "header_wf h" "base + length buf \<le> u64_max"
    and "base \<le> start + hp_offset h" "start + hp_offset h + length (hp_bytes h) \<le> base + length buf"
  shows "\<lparr>ca_sig = si, ca_header = hi, ca_start = start\<rparr> \<in> set (scan_buffer E base buf) \<longleftrightarrow>
    min_anchor_len \<le> length (hp_anchor h) \<and> confirm h (take (length (hp_bytes h)) (drop (start + hp_offset h - base) buf))"
  by (rule scan_buffer_window [OF assms])

lemma demo_header_wf: "header_wf demo_header"
  by (auto simp: header_wf_def demo_header_def min_anchor_len_def less_Suc_eq numeral_2_eq_2)

theorem carve_matcher_exact_witness:
  "\<lparr>ca_sig = 0, ca_header = 0, ca_start = 1002\<rparr> \<in> set (scan_buffer demo_env 1000 demo_data)"
proof -
  have "confirm demo_header (take (length (hp_bytes demo_header)) (drop (1002 + hp_offset demo_header - 1000) demo_data))"
    by (simp add: demo_header_def demo_data_def confirm_def)
  then show ?thesis
    using carve_matcher_exact [of demo_env 0 0 demo_header 1000 demo_data 1002] naive_ac_ok demo_header_wf
    by (simp add: demo_env_def catalog_header_def get_at_def demo_sig_def) (simp add: demo_header_def demo_data_def min_anchor_len_def)
qed

section \<open>Results\<close>

text \<open>C30: Every file that a scan reports, with any options, from any cursor, interrupted or not, has bytes and ends
  inside the source or at most \<open>k\<close> bytes behind it, where \<open>k\<close> bounds the slack of the validators the catalog names: none
  for all but five of them, and the scan counts exactly the files it reports.\<close>

theorem carve_scan_inside:
  assumes "find_ok (ce_find E)" "slack_at_most k (ce_sigs E)" "reader_ok rd"
  shows "(\<forall>cf \<in> set (ks_out (snd (carve_scan E rd ss opts resume cancel))). 0 < cf_len cf \<and> cf_offset cf + cf_len cf \<le> rd_len rd + k) \<and>
    so_found (fst (carve_scan E rd ss opts resume cancel)) = length (ks_out (snd (carve_scan E rd ss opts resume cancel)))"
proof -
  have "carved_ok (carved_inside (rd_len rd + k)) (snd (carve_scan E rd ss opts resume cancel))"
    by (rule carve_scan_all [OF run_one_inside [OF assms]])
  moreover have "so_found (fst (carve_scan E rd ss opts resume cancel)) = ks_found (snd (carve_scan E rd ss opts resume cancel))"
    by (simp add: carve_scan_def Let_def split: prod.split)
  ultimately show ?thesis by (simp add: carved_ok_def carved_inside_def)
qed

text \<open>The bound holds for every catalog with \<open>k = 65535\<close>, and with \<open>k = 0\<close> it fails: the end record of an empty archive is
  22 bytes long even where the source ends before.\<close>

lemma slack_at_most_all: "slack_at_most 65535 sigs"
  by (simp add: slack_at_most_def list_all_iff format_slack_def split: option.split)

lemma zip_behind_the_end:
  "\<not> verdict_inside \<lparr>cx_reader = mem_reader zip_eocd, cx_start = 0, cx_max = 100, cx_sig = s\<rparr>
    (zip_validate \<lparr>cx_reader = mem_reader zip_eocd, cx_start = 0, cx_max = 100, cx_sig = s\<rparr>)"
proof -
  have "mem_read zip_eocd 0 4 = zip_eocd"
    by (simp add: mem_read_def sat_add64_def get_slice_def blit_def zip_eocd_def)
  then show ?thesis by (simp add: zip_validate_def ctx_read_def mem_reader_def available_def sat_add64_def) (simp add: zip_eocd_def)
qed

lemma demo_matcher: "matcher [demo_sig] = ([[0xAA, 0xBB]], [[(0, 0)]])"
proof -
  have hs: "catalog_headers [demo_sig] = [(0, 0, demo_header)]" by (simp add: catalog_headers_def)
  show ?thesis by (simp add: matcher_def hs add_header_def min_anchor_len_def) (simp add: demo_header_def)
qed

lemma demo_candidates: "scan_buffer demo_env 0 demo_data = [\<lparr>ca_sig = 0, ca_header = 0, ca_start = 2\<rparr>]"
proof -
  have ac: "naive_ac [[0xAA, 0xBB]] demo_data = [(0, 3)]"
    by (simp add: naive_ac_def demo_data_def upt_rec occurs_at_def)
  have cand: "header_candidate [demo_sig] 0 demo_data 3 (0, 0) = Some \<lparr>ca_sig = 0, ca_header = 0, ca_start = 2\<rparr>"
    by (simp add: header_candidate_def get_at_def demo_sig_def) (simp add: demo_header_def get_slice_def demo_data_def confirm_def)
  show ?thesis
    by (simp add: scan_buffer_def demo_env_def demo_matcher ac) (simp add: sat_add64_def get_at_def unwrap_or_def List.map_filter_simps cand)
qed

definition demo_file :: carved_file where
  "demo_file = \<lparr>cf_offset = 2, cf_len = 8, cf_format = ''image.demo'', cf_family = ''image'', cf_ext = ''dmo'', cf_validity = Full, cf_score = 65,
     cf_meta = no_metadata, cf_block_aligned = False\<rparr>"

lemma demo_rd [simp]: "rd_len (mem_reader demo_data) = 12" "rd_flags (mem_reader demo_data) off n = (mem_read demo_data off n, False)"
    "rd_read (mem_reader demo_data) 0 12 = demo_data" "rd_read (mem_reader demo_data) 2 10 = drop 2 demo_data"
    "rd_read (mem_reader demo_data) 2 64 = drop 2 demo_data @ zeros 54"
  by (simp_all add: mem_reader_def demo_data_def mem_read_def sat_add64_def get_slice_def blit_def)

lemma demo_run: "run_one demo_env (mem_reader demo_data) 2 demo_sig carve_defaults = Some demo_file"
proof -
  let ?c = "\<lparr>cx_reader = mem_reader demo_data, cx_start = 2, cx_max = 10, cx_sig = demo_sig\<rparr>"
  have find: "naive_find (drop 2 demo_data) [0xEE, 0xFF] = Some 6"
    by (simp add: naive_find_def demo_data_def upt_rec occurs_at_def)
  have foot: "footer_loop demo_env ?c [0xEE, 0xFF] 10 0 = Some 8"
    by (subst footer_loop.simps) (simp add: ctx_read_def sat_add64_def, simp add: demo_env_def find)
  have fb: "fallback demo_env ?c = accept 8 Full 65"
    by (simp add: fallback_def available_def foot)
  show ?thesis
    by (simp add: run_one_def fb) (simp add: accept_def unwrap_or_def by_id_def primary_ext_def demo_file_def)
qed

lemma demo_offset: "ks_out (carve_offset demo_env (mem_reader demo_data) carve_defaults 512 (2, [0]) carve_start) = [demo_file]"
proof -
  have head: "\<not> list_all (\<lambda>b. b = hd (drop 2 demo_data @ zeros 54)) (drop 2 demo_data @ zeros 54)"
    by (simp add: demo_data_def)
  have "drop 2 demo_data \<noteq> []" by (simp add: demo_data_def)
  then have "identify_from demo_env (mem_reader demo_data) 2 [0] carve_defaults 512 = Some demo_file"
    using head by (simp add: identify_from_def Let_def del: list_all_append)
      (simp add: get_at_def unwrap_or_def sig_allowed_def demo_run pick_better_def)
  then show ?thesis by (simp add: carve_offset_def carve_start_def suppressed_def)
qed

lemma demo_scan: "ks_out (snd (carve_scan demo_env (mem_reader demo_data) 512 carve_defaults 0 (\<lambda>_. False))) = [demo_file]"
proof -
  have "text_pass demo_env 0 demo_data 512 12 carve_defaults m = m" for m
    by (simp add: text_pass_def sig_index_def)
  then have step: "ks_out (carve_step demo_env (mem_reader demo_data) carve_defaults 512 (0, 12) 0 carve_start) = [demo_file]"
    by (simp add: carve_step_def demo_candidates carve_chunk_def) (simp add: chunk_candidates_def demo_offset carve_chunk_def Let_def)
  have "carve_range carve_defaults 12 = (0, 12)" "carve_block_size carve_defaults 512 = 512"
    by (simp_all add: carve_range_def carve_block_size_def)
  moreover have "carve_loop demo_env (mem_reader demo_data) carve_defaults 512 (0, 12) (\<lambda>_. False) 0 0 carve_start
      = (carve_chunk, False, carve_step demo_env (mem_reader demo_data) carve_defaults 512 (0, 12) 0 carve_start)"
    by (subst carve_loop.simps, subst carve_loop.simps) (simp add: sat_add64_def carve_chunk_def)
  ultimately show ?thesis by (simp add: carve_scan_def step)
qed

theorem carve_scan_inside_witness:
  "ks_out (snd (carve_scan demo_env (mem_reader demo_data) 512 carve_defaults 0 (\<lambda>_. False))) = [demo_file] \<and> cf_offset demo_file + cf_len demo_file \<le> 12"
  using carve_scan_inside [of demo_env 0 "mem_reader demo_data" 512 carve_defaults 0 "\<lambda>_. False"] naive_find_ok mem_reader_ok
  by (simp add: demo_scan slack_at_most_def)

text \<open>C27: Each file that a scan reports, with any catalog and any options, from any cursor, interrupted or not, was found at
  a place: its start or, for a disk image, whose start is computed backwards from its trailer, that trailer, 512 bytes before its end.
  These places increase from file to file, and none lies inside a complete file reported before it. So the files that are
  not disk images come in the order of their starts and none of them starts inside a complete file reported before it; only a disk
  image may begin before files that were reported earlier. The reader fills the buffers it is asked for.\<close>

theorem carve_no_nested:
  assumes "reader_ok rd"
  shows "\<exists>ps. ks_out (snd (carve_scan E rd ss opts resume cancel)) = map snd ps \<and> list_all (\<lambda>(k, cf). found_at k cf) ps \<and>
    sorted_wrt (\<lambda>(k, a) (l, b). k < l \<and> (cf_validity a = Full \<longrightarrow> carved_end a \<le> l)) ps"
proof -
  let ?span = "carve_range opts (rd_len rd)"
  let ?l = "carve_loop E rd opts (carve_block_size opts ss) ?span cancel 0 (max resume (fst ?span)) carve_start"
  obtain pos i st where l: "?l = (pos, i, st)" by (cases ?l)
  have "claims_ok 0 carve_start" by (auto simp: claims_ok_def carve_start_def found_in_order_def)
  then have "\<exists>ps. ks_out (snd (snd ?l)) = map snd ps \<and> found_in_order ps" by (intro carve_loop_claims [OF assms]) auto
  then obtain ps where ps: "ks_out st = map snd ps" "found_in_order ps" by (auto simp: l)
  have "(\<lambda>(k, a) (l, b). k < l \<and> (cf_validity a = Full \<longrightarrow> carved_end a \<le> l)) = later_outside"
    by (intro ext) (auto simp: later_outside_def)
  then show ?thesis using ps by (auto simp: carve_scan_def l found_in_order_def)
qed

theorem carve_no_nested_witness:
  "\<exists>k. found_at k demo_file \<and> ks_out (snd (carve_scan demo_env (mem_reader demo_data) 512 carve_defaults 0 (\<lambda>_. False))) = [demo_file]"
  using carve_no_nested [of "mem_reader demo_data" demo_env 512 carve_defaults 0 "\<lambda>_. False"] mem_reader_ok
  by (auto simp: demo_scan)

text \<open>C29: A PNG file (signature, chunks with the bitwise CRC-32 of their type and data, IHDR first, IEND last and nowhere
  else) that lies whole under a candidate is carved exactly: its start, its length, as complete, whatever follows it. This holds within the
  limits of the validator and of the engine: at most 500000 chunks with at most 16 MiB of data each (a longer chunk is trusted without
  its checksum and the file then reported as suspect), at most 256 MiB in all and no more than the largest size of the options, at least
  the smallest size of the signature, and no bad or unread sector under its first 512 bytes.\<close>

theorem carve_png_exact:
  assumes "png_chunks cs" "fst (hd cs) = ascii ''IHDR''" "length cs \<le> 500000" "length (png_file cs) \<le> 268435456"
    and "file_at \<lparr>cx_reader = rd, cx_start = start, cx_max = min (rd_len rd - start) (co_max opts), cx_sig = sig\<rparr> (png_file cs)"
    and "sg_validator sig = Some ''png''" "sg_min_size sig \<le> length (png_file cs)" "\<not> snd (rd_flags rd start (min 512 (length (png_file cs))))"
  shows "\<exists>cf. run_one E rd start sig opts = Some cf \<and> cf_offset cf = start \<and> cf_len cf = length (png_file cs) \<and> cf_validity cf = Full"
proof -
  let ?c = "\<lparr>cx_reader = rd, cx_start = start, cx_max = min (rd_len rd - start) (co_max opts), cx_sig = sig\<rparr>"
  have v: "carve_dispatch it fi ''png'' ?c = accept (length (png_file cs)) Full 97" for it fi
    using png_validate_file [OF assms(1-5)] by (simp add: carve_dispatch_def)
  have pos: "0 < length (png_file cs)" by (simp add: png_file_def png_magic_def)
  moreover have "length (png_file cs) \<le> available ?c" using assms(5) by (simp add: file_at_def)
  ultimately have g: "min (rd_len rd - start) (co_max opts) \<noteq> 0" by (simp only: available_def ctx.select_convs)
  have h: "has_validator ''png''" by (simp add: has_validator_def validator_names_def)
  show ?thesis
    unfolding run_one_def Let_def if_not_P [OF g] assms(6) option.case if_P [OF h] v
    using assms(7,8) pos by (simp add: accept_def unwrap_or_def)
qed

definition png_demo :: "(bytes \<times> bytes) list" where
  "png_demo = [(ascii ''IHDR'', [0, 0, 0, 1, 0, 0, 0, 1, 8, 0, 0, 0, 0]), (ascii ''IDAT'', [1, 2, 3]), (ascii ''IEND'', [])]"

definition png_sig :: sig_def where
  "png_sig = demo_sig\<lparr>sg_id := ''image.png'', sg_validator := Some ''png''\<rparr>"

lemma png_demo_length: "length (png_file png_demo) = 60"
  by (simp add: png_file_def png_magic_def png_demo_def png_chunk_def)

theorem carve_png_exact_witness:
  "\<exists>cf. run_one demo_env (mem_reader (zeros 512 @ png_file png_demo @ [7, 7, 7])) 512 png_sig carve_defaults = Some cf \<and>
    cf_offset cf = 512 \<and> cf_len cf = 60 \<and> cf_validity cf = Full"
proof -
  let ?rd = "mem_reader (zeros 512 @ png_file png_demo @ [7, 7, 7])"
  have len: "rd_len ?rd = 575" by (simp add: mem_reader_def png_demo_length)
  have "file_at \<lparr>cx_reader = ?rd, cx_start = 512, cx_max = min (rd_len ?rd - 512) (co_max carve_defaults), cx_sig = png_sig\<rparr> (png_file png_demo)"
    by (rule file_at_memory) (simp_all add: png_demo_length len)
  moreover have "png_chunks png_demo" "fst (hd png_demo) = ascii ''IHDR''" "length png_demo \<le> 500000" by (simp_all add: png_demo_def)
  ultimately show ?thesis
    using carve_png_exact [of png_demo ?rd 512 carve_defaults png_sig demo_env] png_demo_length
    by (simp add: png_sig_def) (simp add: mem_reader_def)
qed

text \<open>C28: A scan that was interrupted while no complete file reached beyond the cursor, resumed at that cursor, reports
  exactly what an uninterrupted scan reports: the files of the first part, then those of the second, with the
  same counts and the same final cursor.\<close>

theorem carve_resume_exact:
  assumes "carve_scan E rd ss opts resume cancel = (o1, st1)" "so_interrupted o1" "\<forall>c \<in> set (ks_claims st1). snd c \<le> so_cursor o1"
    and "carve_scan E rd ss opts (so_cursor o1) (\<lambda>_. False) = (o2, st2)"
    and "carve_scan E rd ss opts resume (\<lambda>_. False) = (o3, st3)"
  shows "ks_out st3 = ks_out st1 @ ks_out st2 \<and> so_found o3 = so_found o1 + so_found o2 \<and> so_cursor o3 = so_cursor o2"
proof -
  let ?span = "carve_range opts (rd_len rd)"
  let ?bs = "carve_block_size opts ss"
  let ?loop = "carve_loop E rd opts ?bs ?span"
  let ?pos = "max resume (fst ?span)"
  obtain p where l1: "?loop cancel 0 ?pos carve_start = (p, True, st1)" and c1: "so_cursor o1 = min p (snd ?span)" "so_found o1 = ks_found st1"
    using assms(1,2) by (auto simp: carve_scan_def Let_def split: prod.splits)
  obtain m where m: "p < snd ?span" "?pos \<le> p" "p = ?pos \<longrightarrow> st1 = carve_start"
      "?loop (\<lambda>_. False) 0 ?pos carve_start = ?loop (\<lambda>_. False) m p st1"
    using carve_loop_resume [OF l1] by blast
  have cursor: "so_cursor o1 = p" "max p (fst ?span) = p" using c1 m by simp_all
  let ?lo = "if p = fst ?span then 0 else p"
  have "ks_claims st1 = []" if "p = fst ?span" using m(2,3) that by (simp add: carve_start_def)
  then have "continues ?lo st1 carve_start st1"
    using assms(3) cursor by (auto simp: continues_def carve_start_def)
  then obtain q s' t' where q: "?loop (\<lambda>_. False) 0 p carve_start = (q, False, s')" "?loop (\<lambda>_. False) m p st1 = (q, False, t')"
      "continues (max ?lo q) st1 s' t'"
    using continues_loop [of ?lo st1 carve_start st1 p ?span] m(2) by fastforce
  have o2: "st2 = s'" "so_found o2 = ks_found s'" "so_cursor o2 = min q (snd ?span)"
    using assms(4) q(1) by (auto simp: carve_scan_def Let_def cursor)
  have o3: "st3 = t'" "so_found o3 = ks_found t'" "so_cursor o3 = min q (snd ?span)"
    using assms(5) q(2) m(4) by (auto simp: carve_scan_def Let_def)
  show ?thesis
    using q(3) by (simp add: o2 o3 c1 continues_def)
qed

text \<open>A source of two chunks with one file in each, scanned with the flag raised after the first.\<close>

definition pair_byte :: "nat \<Rightarrow> byte" where
  "pair_byte x = (let r = x mod carve_chunk in if r = 4 then 0xAA else if r = 5 then 0xBB else if r = 6 then 0xC1 else 0)"

definition pair_reader :: reader where
  "pair_reader = \<lparr>rd_read = (\<lambda>off n. map (\<lambda>i. pair_byte (off + i)) [0..<n]), rd_flags = (\<lambda>off n. (zeros n, False)), rd_len = carve_chunk + 100\<rparr>"

definition pair_env :: carve_env where
  "pair_env = demo_env\<lparr>ce_ac := (\<lambda>ps buf. [(0, 4)]), ce_find := (\<lambda>buf p. Some 4)\<rparr>"

definition pair_options :: carve_options where
  "pair_options = carve_defaults\<lparr>co_brute := True\<rparr>"

lemma pair_fields [simp]:
  "ce_sigs pair_env = [demo_sig]" "ce_max_anchor pair_env = 2" "ce_max_span pair_env = 4" "ce_ac pair_env ps buf = [(0, 4)]" "ce_find pair_env buf p = Some 4"
  "rd_len pair_reader = 8388708" "rd_flags pair_reader off n = (zeros n, False)" "rd_read pair_reader off n = map (\<lambda>i. pair_byte (off + i)) [0..<n]"
  "co_brute pair_options = True" "co_block_size pair_options = 0" "co_families pair_options = []" "co_sig_ids pair_options = []"
  "co_keep pair_options = True" "co_max pair_options = 4294967296" "co_range pair_options = None"
  by (simp_all add: pair_env_def pair_reader_def pair_options_def carve_chunk_def)

lemma pair_candidates:
  "scan_buffer pair_env 0 (map pair_byte [0..<8388611]) = [\<lparr>ca_sig = 0, ca_header = 0, ca_start = 3\<rparr>]"
proof -
  have "get_slice (map pair_byte [0..<8388611]) 4 7 = Some [0xAA, 0xBB, 0xC1]"
  proof -
    have "take 3 (drop 4 [0..<8388611]) = [4, 5, 6::nat]" by (simp del: upt_rec_numeral) (simp add: upt_rec)
    then show ?thesis by (simp add: get_slice_def take_map drop_map pair_byte_def carve_chunk_def del: upt_rec_numeral)
  qed
  then have "header_candidate [demo_sig] 0 (map pair_byte [0..<8388611]) 4 (0, 0) = Some \<lparr>ca_sig = 0, ca_header = 0, ca_start = 3\<rparr>"
    by (simp add: header_candidate_def get_at_def) (simp add: demo_header_def confirm_def)
  then show ?thesis
    by (simp add: scan_buffer_def demo_matcher sat_add64_def get_at_def unwrap_or_def List.map_filter_simps)
qed

definition pair_file :: carved_file where
  "pair_file = demo_file\<lparr>cf_offset := 3, cf_len := 6\<rparr>"

lemma pair_run: "run_one pair_env pair_reader 3 demo_sig pair_options = Some pair_file"
proof -
  let ?c = "\<lparr>cx_reader = pair_reader, cx_start = 3, cx_max = 8388705, cx_sig = demo_sig\<rparr>"
  have foot: "footer_loop pair_env ?c [0xEE, 0xFF] 64 0 = Some 6"
    by (subst footer_loop.simps) simp
  have fb: "fallback pair_env ?c = accept 6 Full 65"
    by (simp add: fallback_def available_def foot)
  show ?thesis
    by (simp add: run_one_def fb) (simp add: accept_def unwrap_or_def by_id_def primary_ext_def pair_file_def demo_file_def)
qed

lemma pair_step:
  "ks_claims (carve_step pair_env pair_reader pair_options 512 (0, 8388708) 0 carve_start) = [(3, 9)]"
proof -
  have "identify_from pair_env pair_reader 3 [0] pair_options 512 = Some pair_file"
    by (simp add: identify_from_def get_at_def unwrap_or_def sig_allowed_def pair_run pick_better_def)
  then have "ks_claims (carve_offset pair_env pair_reader pair_options 512 (3, [0]) carve_start) = [(3, 9)]"
    by (simp add: carve_offset_def carve_start_def suppressed_def pair_file_def demo_file_def carved_end_def sat_add64_def prune_claims_def)
  moreover have "text_pass pair_env 0 buf 512 8388708 pair_options m = m" for m buf
    by (simp add: text_pass_def sig_index_def)
  ultimately show ?thesis
    by (simp add: carve_step_def carve_overlap_def carve_chunk_def pair_candidates Let_def) (simp add: chunk_candidates_def carve_chunk_def)
qed

theorem carve_resume_exact_witness:
  "ks_out (snd (carve_scan pair_env pair_reader 512 pair_options 0 (\<lambda>_. False)))
    = ks_out (snd (carve_scan pair_env pair_reader 512 pair_options 0 (\<lambda>n. n = 1))) @
      ks_out (snd (carve_scan pair_env pair_reader 512 pair_options carve_chunk (\<lambda>_. False)))"
proof -
  let ?scan = "carve_scan pair_env pair_reader 512 pair_options"
  let ?st = "carve_step pair_env pair_reader pair_options 512 (0, 8388708) 0 carve_start"
  have "carve_range pair_options 8388708 = (0, 8388708)" "carve_block_size pair_options 512 = 512"
    by (simp_all add: carve_range_def carve_block_size_def)
  moreover have "carve_loop pair_env pair_reader pair_options 512 (0, 8388708) (\<lambda>n. n = 1) 0 0 carve_start = (8388608, True, ?st)"
    by (subst carve_loop.simps, subst carve_loop.simps) (simp add: sat_add64_def carve_chunk_def)
  ultimately have "?scan 0 (\<lambda>n. n = 1) = (\<lparr>so_cursor = 8388608, so_found = ks_found ?st, so_interrupted = True, so_block_size = 512\<rparr>, ?st)"
    by (simp add: carve_scan_def)
  moreover obtain o2 st2 where "?scan 8388608 (\<lambda>_. False) = (o2, st2)" by (cases "?scan 8388608 (\<lambda>_. False)")
  moreover obtain o3 st3 where "?scan 0 (\<lambda>_. False) = (o3, st3)" by (cases "?scan 0 (\<lambda>_. False)")
  ultimately show ?thesis
    using carve_resume_exact [of pair_env pair_reader 512 pair_options 0 "\<lambda>n. n = 1" _ ?st o2 st2 o3 st3] by (simp add: pair_step carve_chunk_def)
qed

end
