(* ===== verification/Spec2Isabelle.thy ===== *)
theory Spec2Isabelle
  imports BlockTheorems ContainerTheorems FormatTheorems EvidenceTheorems ImagerTheorems PartTheorems RecoverTheorems FatTheorems ExFatTheorems NtfsTheorems ExtTheorems HfsTheorems ApfsTheorems IsoTheorems CarveTheorems
begin

text \<open>
  \<^bold>\<open>A verification library for Reclaim\<close>

  Reclaim recovers files from damaged or deleted storage. Every byte it handles passes through one
  interface, a read-only \<^emph>\<open>block source\<close> that answers each read with bytes and with one status per sector
  (good, bad, unread). Devices, image files and disk-image containers are sources; wrappers restrict, cache or
  concatenate sources; the imager copies a source; partition and file-system parsers read it and list files
  with the extents that hold them; the carver finds files by their content; recovery writes what was found.
  What matters throughout is that bytes are never presented as content when the medium did not deliver them,
  that nothing outside a volume is read as part of it, and that malformed structures end in an error or an
  empty result and never in a loop.

  \<^bold>\<open>Correspondence.\<close> All paths are under \<^verbatim>\<open>src/crates\<close>. A struct is a record, an enum a datatype, a function
  the definition of the same name (with a prefix where several files share a name). Parsers and arithmetic on
  file offsets use natural numbers with the saturating, checked or wrapping operation of the code written out
  (\<^verbatim>\<open>sat_add64\<close>, \<^verbatim>\<open>checked_add64\<close>, \<^verbatim>\<open>wadd64\<close> in \<^verbatim>\<open>Prelude\<close>); words are used where the code works on
  bits. A buffer is a list of bytes, a missing slice an option, a \<^verbatim>\<open>Result\<close> a sum whose left side is the error.

  \<^item> Foundations: \<^verbatim>\<open>Prelude\<close> (saturating arithmetic, slices, sums), \<^verbatim>\<open>Bytes\<close> (endian readers), \<^verbatim>\<open>Bits\<close>
    (\<^verbatim>\<open>reclaim-block/src/bitset.rs\<close>), \<^verbatim>\<open>Text\<close> (UTF-8, UTF-16).
  \<^item> Sources: \<^verbatim>\<open>Source\<close> (\<^verbatim>\<open>source.rs\<close>: the trait as a record whose field \<^verbatim>\<open>s_read_at\<close> is the read; the
    locales \<^verbatim>\<open>block_source\<close>, \<^verbatim>\<open>sector_source\<close>, \<^verbatim>\<open>healthy_source\<close> are its contract, and \<^verbatim>\<open>presents src md\<close> says
    that a source shows a medium), \<^verbatim>\<open>Media\<close> (\<^verbatim>\<open>memory.rs\<close>, \<^verbatim>\<open>image_file.rs\<close>, \<^verbatim>\<open>fault.rs\<close>, \<^verbatim>\<open>offset_view.rs\<close>),
    \<^verbatim>\<open>LbaRuns\<close> (\<^verbatim>\<open>bad_block.rs\<close>), \<^verbatim>\<open>ReadCache\<close> (\<^verbatim>\<open>cache.rs\<close>, with the LRU list as explicit state),
    \<^verbatim>\<open>RawDevice\<close> (\<^verbatim>\<open>raw_device.rs\<close>).
  \<^item> Containers (\<^verbatim>\<open>reclaim-block/src/container\<close>): \<^verbatim>\<open>Codec\<close>, \<^verbatim>\<open>SegMap\<close> and \<^verbatim>\<open>MappedRead\<close> (\<^verbatim>\<open>map.rs\<close>),
    \<^verbatim>\<open>Concat\<close>, \<^verbatim>\<open>ContainerBase\<close>, \<^verbatim>\<open>OpenContainer\<close>, and one parser per format: \<^verbatim>\<open>VirtualDisks\<close> (VDI, VHDX, sparse
    image), \<^verbatim>\<open>Qcow2\<close>, \<^verbatim>\<open>Vhd\<close>, \<^verbatim>\<open>Vmdk\<close>, \<^verbatim>\<open>Dmg\<close>, \<^verbatim>\<open>Ewf\<close>. Each format is an interpretation of the locale
    \<^verbatim>\<open>cluster_format\<close> (split sets are a concatenation).
  \<^item> Imaging (\<^verbatim>\<open>reclaim-block/src/imaging\<close>): \<^verbatim>\<open>ImageMap\<close> (\<^verbatim>\<open>map.rs\<close>, \<^verbatim>\<open>dest.rs\<close>), \<^verbatim>\<open>Imager\<close> (\<^verbatim>\<open>imager.rs\<close>: run,
    retries, checkpoints, cancellation, verification), \<^verbatim>\<open>MappedImage\<close> (\<^verbatim>\<open>mapped.rs\<close>).
  \<^item> Partitions (\<^verbatim>\<open>reclaim-part\<close>): \<^verbatim>\<open>PartTable\<close>, \<^verbatim>\<open>Partition\<close> (MBR with extended chains, GPT with both copies,
    APM, the scan).
  \<^item> File systems: \<^verbatim>\<open>FsCore\<close> (\<^verbatim>\<open>reclaim-fs-core\<close>: entries, options, sink, allocation bitmap),
    \<^verbatim>\<open>ClusterRuns\<close> (the arithmetic of cluster chains that FAT and exFAT share, as the locales \<^verbatim>\<open>cluster_volume\<close> and
    \<^verbatim>\<open>chain_walk\<close>), \<^verbatim>\<open>Fat\<close>, \<^verbatim>\<open>ExFat\<close>, \<^verbatim>\<open>NtfsRecord\<close> and \<^verbatim>\<open>Ntfs\<close>, \<^verbatim>\<open>ExtBase\<close> and \<^verbatim>\<open>Ext\<close>,
    \<^verbatim>\<open>Hfs\<close>, \<^verbatim>\<open>ApfsBase\<close> and \<^verbatim>\<open>Apfs\<close>, \<^verbatim>\<open>Iso\<close> (\<^verbatim>\<open>fs-fat\<close>, \<^verbatim>\<open>fs-exfat\<close>, \<^verbatim>\<open>fs-ntfs\<close>, \<^verbatim>\<open>fs-ext\<close>, \<^verbatim>\<open>fs-hfs\<close>, \<^verbatim>\<open>fs-apfs\<close>, \<^verbatim>\<open>fs-iso\<close>); \<^verbatim>\<open>Dates\<close> holds the calendar they share.
  \<^item> Carving (\<^verbatim>\<open>reclaim-sigs\<close>, \<^verbatim>\<open>reclaim-carve\<close>): \<^verbatim>\<open>CarveReader\<close> (\<^verbatim>\<open>reader.rs\<close>, \<^verbatim>\<open>metadata.rs\<close>), \<^verbatim>\<open>CarveBase\<close>,
    the validators of the formats in \<^verbatim>\<open>CarveText\<close>, \<^verbatim>\<open>CarveSized\<close> (length from the header or a search), \<^verbatim>\<open>CarveTiff\<close>,
    \<^verbatim>\<open>CarveWalkers\<close> (structure walked to its end) and their table \<^verbatim>\<open>CarveFormats\<close> (\<^verbatim>\<open>validators/*.rs\<close>, \<^verbatim>\<open>crc.rs\<close>),
    \<^verbatim>\<open>CarveEngine\<close> (\<^verbatim>\<open>matcher.rs\<close>, \<^verbatim>\<open>engine.rs\<close>).
  \<^item> Recovery (\<^verbatim>\<open>reclaim-session/src/recover.rs\<close>): \<^verbatim>\<open>Recover\<close>, over a file system that maps paths to files.

  \<^bold>\<open>What is proved.\<close> The theories named \<^verbatim>\<open>...Facts\<close>, \<^verbatim>\<open>ImagerRuns\<close>, \<^verbatim>\<open>ImagerExact\<close> and \<^verbatim>\<open>ImagerHistory\<close> hold the
  invariants; the theories named \<^verbatim>\<open>...Theorems\<close> state the properties, each with a witness that applies it to
  a concrete image, volume or run.

  \<^item> Sources: a cached read gives the bytes and the bad sectors of the source behind it (an unread sector
    comes back as good); an offset view never serves a byte outside
    its window; a failing device loses exactly the sectors that fail; a mapped read never marks a sector good
    whose bytes it does not have.
  \<^item> Containers: opening an image of a format and reading it equals reading the guest disk that the tables
    describe, cluster by cluster; extent names of a descriptor cannot leave its directory.
  \<^item> Imaging to a raw (not compressed) file: a run in which no write fails copies every byte of a source of whole sectors whose size
    divides 4 MiB, verifies, and presents the source when read through its map; cancelled and resumed any number of times it ends with
    the same output; whatever fails, the saved map records no hash but that of the bytes in the file.
  \<^item> Partitions: the volumes of a scan lie inside the source; a damaged primary GPT is replaced by its copy.
  \<^item> File systems: the extents of a file are the clusters of its chain or the runs of its record, cut to its size,
    against a reference that follows the chain directly; walks emit only entries whose extents lie in the volume
    and are bounded by their options; long names, data runs, fix-ups and directory records are read back as they
    were written; the walk finds what the root directory lists; a fork is read as its
    extents one after another, and a stale record never stands for a live file; an object map answers with the newest
    mapping of a checkpoint, and a file of an older checkpoint is reported only where no present one has its name or number.
  \<^item> Carving: candidates are exactly the headers with an anchor of two bytes or more that match; results lie inside the source, or end at most a fixed
    number of bytes behind it for the five validators that do not check it; a PNG file within the limits of the validator is carved
    with its exact length; results are found at increasing places, never inside a complete file reported before; an interrupted scan resumed at
    its cursor reports the rest.
  \<^item> Recovery: each file holds the bytes of its extents where they lie inside the source, is written below the destination only, and never
    replaces a file the policy protects.

  \<^bold>\<open>Termination, bounds and fuel.\<close> Loops are structural recursion or \<^verbatim>\<open>function\<close> with a proved measure; the guards
  of the code (depth, entry and byte limits, visited sets) are kept, and where the code has no guard the measure is
  the argument that it needs none. The reads of an image file, which the operating system may interrupt for ever, and
  the scan for orphaned MFT records are \<^verbatim>\<open>partial_function (option)\<close>; the results about them include that an answer
  exists. No definition takes fuel. A test on a quotient of type \<^verbatim>\<open>f64\<close> is a comparison of integers, which gives the
  same answer at the sizes the code allows; a confidence, a product of constants of type \<^verbatim>\<open>f32\<close>, is kept as the
  list of its factors in hundredths.

  \<^bold>\<open>Parameters.\<close> Code of other crates and the system is an argument of the definitions that use it: the decoders
  (zlib, bzip2, LZFSE, LZMA, zstd), the hash functions, the answers of \<^verbatim>\<open>pread\<close> and of failing writes, the JSON text
  of maps and manifests, the Aho-Corasick automaton, the substring search and the generated signature catalog.
  What a theorem needs of one is a named hypothesis (a digest that is a function of the bytes, an automaton that
  reports all occurrences, a search that answers a place of the pattern), which its witness instantiates.

  \<^bold>\<open>Not modelled.\<close> The SQL session store and the orchestration in \<^verbatim>\<open>reclaim-session\<close>; command line, reports,
  previews, foreign-function interface and platform code (printing, argument parsing and system calls); debug
  formatting and the identifier strings of sources.
\<close>

end
